(* ===== verification/Prelude.thy ===== *)
theory Prelude
  imports Complex_Main
begin

text \<open>
  The prelude of the development: names for the basic value types of the program, the
  document-collection primitives every component's reads and writes are expressed with, the
  number rendering used in idempotency keys and event messages, and the \<open>named_theorems\<close>
  collections the component proofs share.

  A collection of the document store is the list of its documents. The primitives below are
  the single-document atomic operations the source calls (\<open>updateOne\<close>, \<open>updateMany\<close>,
  \<open>deleteMany\<close>, \<open>insertOne\<close>, \<open>find\<close>, \<open>findOne\<close>,
  \<open>countDocuments\<close>), with a filter as a predicate on a document and an update as a
  function on it. Where several documents match an \<open>updateOne\<close> the store may pick any of
  them; the model picks the first.
\<close>

section \<open>Basic types\<close>

type_synonym ms = int            \<comment> \<open>a \<open>Date\<close>, as milliseconds since the epoch\<close>
type_synonym address = string    \<comment> \<open>a Solana address (job, run, node, market, vault, owner)\<close>
type_synonym signature = string
type_synonym object_id = nat     \<comment> \<open>an \<open>ObjectId\<close>: a 96-bit value, compared for equality\<close>

section \<open>Theorem collections\<close>

named_theorems archived_simps "facts that a write keeps an ARCHIVED deployment"
named_theorems frame_simps "facts that an operation leaves a part of the store as it was"

section \<open>Collections\<close>

fun update_one :: "('d \<Rightarrow> bool) \<Rightarrow> ('d \<Rightarrow> 'd) \<Rightarrow> 'd list \<Rightarrow> 'd list" where
  "update_one P f [] = []"
| "update_one P f (x # xs) = (if P x then f x # xs else x # update_one P f xs)"

definition update_many :: "('d \<Rightarrow> bool) \<Rightarrow> ('d \<Rightarrow> 'd) \<Rightarrow> 'd list \<Rightarrow> 'd list" where
  "update_many P f c = map (\<lambda>d. if P d then f d else d) c"

definition delete_many :: "('d \<Rightarrow> bool) \<Rightarrow> 'd list \<Rightarrow> 'd list" where
  "delete_many P c = filter (\<lambda>d. \<not> P d) c"

definition insert_one :: "'d \<Rightarrow> 'd list \<Rightarrow> 'd list" where
  "insert_one d c = c @ [d]"

definition matches :: "('d \<Rightarrow> bool) \<Rightarrow> 'd list \<Rightarrow> bool" where
  "matches P c = list_ex P c"

definition count_docs :: "('d \<Rightarrow> bool) \<Rightarrow> 'd list \<Rightarrow> nat" where
  "count_docs P c = length (filter P c)"

definition find_one :: "('d \<Rightarrow> bool) \<Rightarrow> 'd list \<Rightarrow> 'd option" where
  "find_one P c = List.find P c"

text \<open>\<open>updateOne\<close> with \<open>upsert: true\<close>: the inserted document is \<open>ins\<close>.\<close>

definition upsert_one :: "('d \<Rightarrow> bool) \<Rightarrow> ('d \<Rightarrow> 'd) \<Rightarrow> 'd \<Rightarrow> 'd list \<Rightarrow> 'd list" where
  "upsert_one P f ins c = (if matches P c then update_one P f c else insert_one ins c)"

lemma matches_iff: "matches P c \<longleftrightarrow> (\<exists>d \<in> set c. P d)"
  by (simp add: matches_def list_ex_iff)

lemma count_docs_0_iff: "count_docs P c = 0 \<longleftrightarrow> (\<forall>d \<in> set c. \<not> P d)"
  by (simp add: count_docs_def filter_empty_conv)

lemma count_docs_append [simp]: "count_docs P (xs @ ys) = count_docs P xs + count_docs P ys"
  by (simp add: count_docs_def)

lemma count_docs_Nil [simp]: "count_docs P [] = 0"
  by (simp add: count_docs_def)

lemma count_docs_Cons [simp]:
  "count_docs P (x # xs) = (if P x then 1 else 0) + count_docs P xs"
  by (simp add: count_docs_def)

lemma update_one_no_match [simp]: "\<not> matches P c \<Longrightarrow> update_one P f c = c"
  by (induction c) (auto simp: matches_iff)

lemma set_update_one: "set (update_one P f c) \<subseteq> set c \<union> f ` {d \<in> set c. P d}"
  by (induction c) auto

lemma update_one_cases:
  assumes "d \<in> set (update_one P f c)"
  obtains "d \<in> set c" | d' where "d' \<in> set c" "P d'" "d = f d'"
  using assms set_update_one [of P f c] by blast

lemma length_update_one [simp]: "length (update_one P f c) = length c"
  by (induction c) auto

lemma map_update_one:
  "(\<And>d. P d \<Longrightarrow> k (f d) = k d) \<Longrightarrow> map k (update_one P f c) = map k c"
  by (induction c) auto

lemma map_update_many:
  "(\<And>d. P d \<Longrightarrow> k (f d) = k d) \<Longrightarrow> map k (update_many P f c) = map k c"
  by (induction c) (auto simp: update_many_def)

lemma set_update_many: "set (update_many P f c) = (\<lambda>d. if P d then f d else d) ` set c"
  by (simp add: update_many_def)

lemma update_many_cases:
  assumes "d \<in> set (update_many P f c)"
  obtains d0 where "d0 \<in> set c" "P d0" "d = f d0" | "d \<in> set c" "\<not> P d"
  using assms by (auto simp: set_update_many split: if_splits)

lemma set_delete_many [simp]: "set (delete_many P c) = {d \<in> set c. \<not> P d}"
  by (simp add: delete_many_def)

lemma set_insert_one [simp]: "set (insert_one d c) = insert d (set c)"
  by (simp add: insert_one_def)

lemma find_one_SomeD: "find_one P c = Some d \<Longrightarrow> d \<in> set c \<and> P d"
  by (auto simp: find_one_def find_Some_iff in_set_conv_nth)

lemma find_one_None_iff: "find_one P c = None \<longleftrightarrow> (\<forall>d \<in> set c. \<not> P d)"
  by (auto simp: find_one_def find_None_iff)

lemma find_one_Some_iff_matches: "(\<exists>d. find_one P c = Some d) \<longleftrightarrow> matches P c"
  using find_one_None_iff [of P c] by (auto simp: matches_iff)

text \<open>Documents under a unique key.\<close>

lemma distinct_update_one:
  "distinct (map k c) \<Longrightarrow> (\<And>d. P d \<Longrightarrow> k (f d) = k d) \<Longrightarrow>
    distinct (map k (update_one P f c))"
  by (simp add: map_update_one)

lemma distinct_delete_many: "distinct (map k c) \<Longrightarrow> distinct (map k (delete_many P c))"
  by (simp add: delete_many_def distinct_map_filter)

lemma distinct_key_tail:
  assumes "distinct (map k (x # c))" "y \<in> set c" shows "k y \<noteq> k x"
  using assms by (metis distinct.simps(2) image_eqI list.set_map list.simps(9))

lemma update_one_keyed:
  assumes "distinct (map k c)"
  shows "update_one (\<lambda>x. k x = i) f c = map (\<lambda>x. if k x = i then f x else x) c"
  using assms
proof (induction c)
  case (Cons x c)
  show ?case
  proof (cases "k x = i")
    case True
    with Cons.prems have "\<forall>y \<in> set c. k y \<noteq> i"
      using distinct_key_tail [of k x c] by simp
    then have "map (\<lambda>x. if k x = i then f x else x) c = c"
      by (intro map_idI) auto
    with True show ?thesis by simp
  next
    case False
    with Cons show ?thesis by simp
  qed
qed simp

lemma keyed_unique:
  "distinct (map k c) \<Longrightarrow> x \<in> set c \<Longrightarrow> y \<in> set c \<Longrightarrow> k x = k y \<Longrightarrow> x = y"
  by (auto simp: distinct_map dest: inj_onD)

lemma find_one_keyed:
  assumes "distinct (map k c)" "x \<in> set c" "k x = i"
  shows "find_one (\<lambda>y. k y = i) c = Some x"
proof (cases "find_one (\<lambda>y. k y = i) c")
  case None
  with assms(2,3) show ?thesis by (auto simp: find_one_None_iff)
next
  case (Some y)
  note y = find_one_SomeD [OF Some]
  have "y = x" using keyed_unique [OF assms(1) _ assms(2)] y assms(3) by simp
  with Some show ?thesis by simp
qed

lemma update_one_mem:
  assumes "distinct (map k ts)" "t \<in> set ts" "P t" "\<And>x. P x \<Longrightarrow> k x = k t"
  shows "f t \<in> set (update_one P f ts)"
  using assms(1,2)
proof (induction ts)
  case (Cons x ts)
  show ?case
  proof (cases "P x")
    case True
    then have "x = t"
      using assms(4) [OF True] Cons.prems(2) distinct_key_tail [OF Cons.prems(1), of t] by auto
    with True show ?thesis by simp
  next
    case False
    then have "t \<in> set ts" using Cons.prems(2) assms(3) by auto
    moreover have "distinct (map k ts)" using Cons.prems(1) by simp
    ultimately have "f t \<in> set (update_one P f ts)" by (rule Cons.IH [rotated])
    with False show ?thesis by simp
  qed
qed simp

lemma update_one_other: "t \<in> set ts \<Longrightarrow> \<not> P t \<Longrightarrow> t \<in> set (update_one P f ts)"
  by (induction ts) auto

section \<open>Numbers\<close>

text \<open>\<open>String(n)\<close> for a non-negative integer.\<close>

definition digit_char :: "nat \<Rightarrow> char" where
  "digit_char d = ''0123456789abcdef'' ! d"

fun show_nat :: "nat \<Rightarrow> string" where
  "show_nat n = (if n < 10 then [digit_char n] else show_nat (n div 10) @ [digit_char (n mod 10)])"

declare show_nat.simps [simp del]

definition char_digit :: "char \<Rightarrow> nat" where
  "char_digit c = length (takeWhile (\<lambda>x. x \<noteq> c) ''0123456789abcdef'')"

lemma less_16_cases:
  "(d::nat) < 16 \<Longrightarrow> d = 0 \<or> d = 1 \<or> d = 2 \<or> d = 3 \<or> d = 4 \<or> d = 5 \<or> d = 6 \<or> d = 7 \<or>
    d = 8 \<or> d = 9 \<or> d = 10 \<or> d = 11 \<or> d = 12 \<or> d = 13 \<or> d = 14 \<or> d = 15"
  by arith

lemma char_digit_digit_char [simp]: "d < 16 \<Longrightarrow> char_digit (digit_char d) = d"
  by (drule less_16_cases) (elim disjE; simp add: digit_char_def char_digit_def)

definition undigits :: "string \<Rightarrow> nat" where
  "undigits s = foldl (\<lambda>n c. 10 * n + char_digit c) 0 s"

lemma undigits_show_nat: "undigits (show_nat n) = n"
proof (induction n rule: show_nat.induct)
  case (1 n)
  show ?case
  proof (cases "n < 10")
    case True
    then show ?thesis by (simp add: show_nat.simps [of n] undigits_def)
  next
    case False
    with 1 have "undigits (show_nat (n div 10)) = n div 10" by simp
    with False show ?thesis
      by (simp add: show_nat.simps [of n] undigits_def)
  qed
qed

lemma show_nat_inject [simp]: "show_nat m = show_nat n \<longleftrightarrow> m = n"
  by (metis undigits_show_nat)

lemma digit_char_neq_colon: "d < 16 \<Longrightarrow> digit_char d \<noteq> CHR '':''"
  by (drule less_16_cases) (elim disjE; simp add: digit_char_def)

lemma mod_10_less_16: "(n::nat) mod 10 < 16"
  by (rule less_trans [of _ 10]) simp_all

lemma show_nat_no_colon: "CHR '':'' \<notin> set (show_nat n)"
proof (induction n rule: show_nat.induct)
  case (1 n)
  then show ?case
    using digit_char_neq_colon [of n] digit_char_neq_colon [OF mod_10_less_16, of n]
    by (cases "n < 10") (simp_all add: show_nat.simps [of n] not_sym)
qed

text \<open>A \<open>Date\<close> built from a fractional number of milliseconds drops the fraction.\<close>

definition to_date :: "rat \<Rightarrow> ms" where
  "to_date x = (if x \<ge> 0 then \<lfloor>x\<rfloor> else \<lceil>x\<rceil>)"

lemma to_date_of_int [simp]: "to_date (of_int n) = n"
  by (simp add: to_date_def)

lemma to_date_nonneg: "0 \<le> x \<Longrightarrow> 0 \<le> to_date x"
  by (simp add: to_date_def)

lemma to_date_mono: "x \<le> y \<Longrightarrow> to_date x \<le> to_date y"
  unfolding to_date_def by (auto intro: floor_mono ceiling_mono order_trans [of _ 0])

section \<open>Nullish values\<close>

text \<open>The operator \<open>o ?? d\<close>.\<close>

definition nullish :: "'a option \<Rightarrow> 'a \<Rightarrow> 'a" where
  "nullish v d = (case v of None \<Rightarrow> d | Some x \<Rightarrow> x)"

lemma nullish_simps [simp]: "nullish None d = d" "nullish (Some x) d = x"
  by (simp_all add: nullish_def)

text \<open>The first of two options that is present (\<open>a ?? b\<close> with \<open>b\<close> optional).\<close>

fun or_else :: "'a option \<Rightarrow> 'a option \<Rightarrow> 'a option" where
  "or_else (Some x) b = Some x"
| "or_else None b = b"

lemma or_else_None_iff [simp]: "or_else a b = None \<longleftrightarrow> a = None \<and> b = None"
  by (cases a) auto

text \<open>Truthiness of an optional string and of an optional count.\<close>

definition truthy_string :: "string option \<Rightarrow> bool" where
  "truthy_string s \<longleftrightarrow> nullish s [] \<noteq> []"

definition truthy_nat :: "nat option \<Rightarrow> bool" where
  "truthy_nat n \<longleftrightarrow> nullish n 0 \<noteq> 0"

lemma truthy_string_simps [simp]:
  "\<not> truthy_string None" "truthy_string (Some c) \<longleftrightarrow> c \<noteq> []"
  by (simp_all add: truthy_string_def)

lemma truthy_nat_simps [simp]: "\<not> truthy_nat None" "truthy_nat (Some c) \<longleftrightarrow> c \<noteq> 0"
  by (simp_all add: truthy_nat_def)

section \<open>Strings\<close>

text \<open>\<open>s.includes(t)\<close> and \<open>s.startsWith(t)\<close>.\<close>

fun starts_with :: "string \<Rightarrow> string \<Rightarrow> bool" where
  "starts_with s [] = True"
| "starts_with [] (c # t) = False"
| "starts_with (d # s) (c # t) = (c = d \<and> starts_with s t)"

fun str_includes :: "string \<Rightarrow> string \<Rightarrow> bool" where
  "str_includes [] t = (t = [])"
| "str_includes (c # s) t = (starts_with (c # s) t \<or> str_includes s t)"

lemma starts_with_iff: "starts_with s t \<longleftrightarrow> (\<exists>r. s = t @ r)"
  by (induction s t rule: starts_with.induct) auto

lemma str_includes_iff: "str_includes s t \<longleftrightarrow> (\<exists>p r. s = p @ t @ r)"
proof (induction s t rule: str_includes.induct)
  case (2 c s t)
  have "(\<exists>p r. c # s = p @ t @ r) \<longleftrightarrow> (\<exists>r. c # s = t @ r) \<or> (\<exists>p r. s = p @ t @ r)"
    by (auto simp: Cons_eq_append_conv)
  with 2 show ?case by (simp only: str_includes.simps starts_with_iff)
qed auto

end
