(* ===== verification/Data_Model.thy ===== *)
theory Data_Model
  imports Prelude
begin

text \<open>
  The documents of the program, from \<open>src/types/\<close>: tasks, deployments, jobs, revisions,
  vaults, events, deployment locks and tunnel states, with the enumerations they use. Every
  field is kept; its name carries the initial of its record, because a record field is a
  global name here. A field that may be absent (or null) is an option.
\<close>

section \<open>Tasks (\<open>types/task.ts\<close>)\<close>

datatype task_type = LIST | EXTEND | STOP

datatype task_reason = Reason_stop | Reason_revision | Reason_market | Reason_overcount | Reason_refill

datatype task_status = PENDING | PROCESSING

datatype tx_record_status = SIGNED | SENT | CONFIRMED

record tx_record =
  x_unit :: nat
  x_signature :: signature
  x_lastValidBlockHeight :: nat
  x_status :: tx_record_status
  x_blob :: "string option"
  x_jobs :: "address list option"
  x_runs :: "address list option"
  x_nodes :: "address list option"
  x_markets :: "address list option"
  x_job :: "address option"
  x_run :: "address option"

record reserved_node =
  n_node :: address
  n_market :: address

record task_reservation =
  v_expiresAt :: "ms option"
  v_nodes :: "reserved_node list"

record task_reservation_request =
  q_since :: "ms option"

record task_document =
  t_id :: object_id
  t_task :: task_type
  t_due_at :: ms
  t_deploymentId :: string
  t_tx :: "string option"
  t_active_revision :: "nat option"
  t_run :: "nat option"
  t_reason :: "task_reason option"
  t_limit :: "nat option"
  t_job :: "address option"
  t_extend_seconds :: "int option"
  t_created_at :: ms
  t_status :: "task_status option"
  t_attempts :: int
  t_inflight_retries :: "nat option"
  t_claimed_by :: "string option"
  t_lease_expires_at :: "ms option"
  t_transactions :: "tx_record list option"
  t_target_count :: "nat option"
  t_stop_targets :: "address list option"
  t_ipfs_definition_hash :: "string option"
  t_assign_posted_at :: "ms option"
  t_reservation :: "task_reservation option"
  t_reservation_request :: "task_reservation_request option"
  t_handoff_of :: "object_id option"

text \<open>\<open>task.transactions ?? []\<close>.\<close>

abbreviation task_records :: "task_document \<Rightarrow> tx_record list" where
  "task_records t \<equiv> nullish (t_transactions t) []"

text \<open>\<open>task_locks\<close>: the advisory lock of one deployment.\<close>

record deployment_lock =
  l_id :: string
  l_holder :: string
  l_expires_at :: ms

text \<open>What a task run reports to the consumer (\<open>TaskRunResult\<close>).\<close>

datatype task_outcome = O_COMPLETED | O_FAILED | O_ABORTED | O_RETRY | O_PARKED

record task_run_result =
  o_outcome :: task_outcome
  o_successCount :: nat
  o_retryAfterMs :: "rat option"

text \<open>What the reserve step of a LIST run came to (\<open>ReserveOutcome\<close>, \<open>task/list/reserve.ts\<close>).\<close>

datatype reserve_outcome =
    R_reserved task_reservation "reserved_node list"
  | R_waiting
  | R_handoff bool
  | R_retry string
  | R_fatal string

section \<open>Deployments (\<open>types/deployment.ts\<close>)\<close>

datatype deployment_status =
  DRAFT | ERROR | STARTING | RUNNING | STOPPING | STOPPED | INSUFFICIENT_FUNDS | ARCHIVED

datatype deployment_strategy = SIMPLE | SIMPLE_EXTEND | SCHEDULED | INFINITE

datatype port = Port_number nat | Port_text string

record endpoint =
  p_opId :: string
  p_port :: port
  p_url :: string
  p_online :: bool

record deployment_document =
  d_idempotency_key :: "string option"
  d_id :: string
  d_vault :: address
  d_market :: "address option"
  d_requirements :: "string option"
  d_owner :: address
  d_name :: string
  d_status :: deployment_status
  d_replicas :: nat
  d_timeout :: int
  d_endpoints :: "endpoint list"
  d_active_revision :: nat
  d_confidential :: bool
  d_created_at :: ms
  d_updated_at :: ms
  d_strategy :: deployment_strategy
  d_schedule :: "string option"
  d_rotation_time :: "int option"
  d_startup_timeout :: "int option"
  d_rapid_streak :: "nat option"
  d_run :: "nat option"
  d_next_retry_at :: "ms option"
  d_ssh_public_keys :: "string list option"

section \<open>Jobs, revisions, vaults, events, tunnels\<close>

datatype job_state = J_QUEUED | J_RUNNING | J_COMPLETED | J_STOPPED

record jobs_document =
  j_job :: address
  j_market :: "address option"
  j_node :: "address option"
  j_deployment :: string
  j_revision :: nat
  j_tx :: signature
  j_state :: job_state
  j_time_start :: int
  j_time_end :: "int option"
  j_startup_deadline :: "ms option"
  j_created_at :: ms
  j_updated_at :: ms

definition active_job_states :: "job_state list" where
  "active_job_states = [J_QUEUED, J_RUNNING]"

abbreviation job_active :: "jobs_document \<Rightarrow> bool" where
  "job_active j \<equiv> j_state j \<in> set active_job_states"

text \<open>A job definition: what the program reads of it, and the rest.\<close>

datatype expose_entry = Entry_port port | Entry_service "port option"

datatype expose = No_expose | Expose_port port | Expose_list "expose_entry list" | Expose_other

record operation =
  op_type :: string
  op_id :: string
  op_expose :: expose

record job_definition =
  jd_ops :: "operation list"
  jd_ssh_public_keys :: "string list option"
  jd_deployment_id :: "string option"
  jd_trigger :: "string option"
  jd_rest :: string

record revision_document =
  r_revision :: nat
  r_deployment :: string
  r_ipfs_definition_hash :: string
  r_job_definition :: job_definition
  r_created_at :: ms

record vault_document =
  w_vault :: address
  w_vault_key :: string
  w_owner :: address
  w_created_at :: ms

datatype event_category = Category_Deployment | Category_Event

record event_document =
  e_category :: event_category
  e_deploymentId :: string
  e_type :: string
  e_message :: string
  e_tx :: "string option"
  e_created_at :: ms

datatype frps_state = Up | Down
datatype frps_reason = Graceful | Lost

record frps_endpoint_status =
  f_job :: address
  f_opId :: string
  f_deploymentId :: "string option"
  f_state :: frps_state
  f_reason :: "frps_reason option"
  f_last_change :: ms
  f_updated_at :: ms

text \<open>A claimed task hydrated for its run (\<open>OutstandingTasksDocument\<close>).\<close>

record outstanding_task =
  k_task :: task_document
  k_deployment :: deployment_document
  k_vault :: vault_document
  k_jobs :: "jobs_document list"
  k_revisions :: "revision_document list"

section \<open>Configuration (\<open>config/defaultConfig.ts\<close>, the fields the worker reads)\<close>

record cooldown_ladder =
  baseMs :: rat
  maxMs :: rat
  multiplier :: rat

record worker_config =
  task_lease_ms :: int
  task_max_attempts :: int
  task_max_inflight_retries :: nat
  tasks_batch_size :: nat
  reservation_renew_ms :: int
  confidential_ipfs_pin :: string
  default_minutes_before_timeout :: int
  frps_unhealthy_grace_ms :: int
  rapid_completion_job_count :: nat
  rapid_completion_threshold_minutes :: int
  rapid_completion_max_streak :: nat
  retry_ladder :: cooldown_ladder
  insufficient_funds_ladder :: cooldown_ladder
  rapid_completion_ladder :: cooldown_ladder

text \<open>The values the program runs with when no environment variable overrides them.\<close>

definition default_worker_config :: worker_config where
  "default_worker_config = \<lparr>
     task_lease_ms = 120000, task_max_attempts = 5, task_max_inflight_retries = 60,
     tasks_batch_size = 10, reservation_renew_ms = 840000, confidential_ipfs_pin = [],
     default_minutes_before_timeout = 20, frps_unhealthy_grace_ms = 60000,
     rapid_completion_job_count = 3, rapid_completion_threshold_minutes = 5,
     rapid_completion_max_streak = 8,
     retry_ladder = \<lparr>baseMs = 30000, maxMs = 600000, multiplier = 2\<rparr>,
     insufficient_funds_ladder = \<lparr>baseMs = 600000, maxMs = 21600000, multiplier = 2\<rparr>,
     rapid_completion_ladder = \<lparr>baseMs = 60000, maxMs = 3600000, multiplier = 2\<rparr>\<rparr>"

lemma active_job_states_iff [simp]:
  "s \<in> set active_job_states \<longleftrightarrow> s = J_QUEUED \<or> s = J_RUNNING"
  by (auto simp: active_job_states_def)

lemma job_not_active_iff:
  "\<not> job_active j \<longleftrightarrow> j_state j = J_COMPLETED \<or> j_state j = J_STOPPED"
  by (cases "j_state j") auto

end
