(* ===== verification/Repositories.thy ===== *)
theory Repositories
  imports Data_Model
begin

text \<open>
  The document store as the worker sees it (\<open>src/repositories/index.ts\<close>): one
  list of documents per collection, the supply of object ids the driver draws from when a
  document is inserted, and the log of reservation cancellations sent to host-manager. The
  tasks repository's \<open>delete\<close> is the one operation with a side effect beyond the store:
  it cancels the reservation request of every LIST it deletes.
\<close>

record db =
  db_deployments :: "deployment_document list"
  db_tasks :: "task_document list"
  db_jobs :: "jobs_document list"
  db_events :: "event_document list"
  db_revisions :: "revision_document list"
  db_vaults :: "vault_document list"
  db_locks :: "deployment_lock list"
  db_frps :: "frps_endpoint_status list"
  db_results :: "(address \<times> string) list"
  db_next_oid :: object_id
  db_cancelled :: "string list"

definition empty_db :: db where
  "empty_db = \<lparr>db_deployments = [], db_tasks = [], db_jobs = [], db_events = [],
     db_revisions = [], db_vaults = [], db_locks = [], db_frps = [], db_results = [], db_next_oid = 0,
     db_cancelled = []\<rparr>"

section \<open>Object ids and their hex rendering\<close>

text \<open>\<open>ObjectId.toHexString\<close>: 24 lowercase hex digits, most significant first.\<close>

fun hex_digits :: "nat \<Rightarrow> nat \<Rightarrow> string" where
  "hex_digits 0 n = []"
| "hex_digits (Suc k) n = hex_digits k (n div 16) @ [digit_char (n mod 16)]"

definition toHexString :: "object_id \<Rightarrow> string" where
  "toHexString i = hex_digits 24 i"

fun of_hex :: "string \<Rightarrow> nat \<Rightarrow> nat" where
  "of_hex [] acc = acc"
| "of_hex (c # s) acc = of_hex s (16 * acc + char_digit c)"

definition is_hex_char :: "char \<Rightarrow> bool" where
  "is_hex_char c \<longleftrightarrow> c \<in> set ''0123456789abcdef''"

text \<open>The webhook's key test \<open>/^[0-9a-f]{24}$/\<close>, then \<open>new ObjectId(key)\<close>.\<close>

definition parse_object_id :: "string \<Rightarrow> object_id option" where
  "parse_object_id s =
     (if length s = 24 \<and> list_all is_hex_char s then Some (of_hex s 0) else None)"

lemma length_hex_digits [simp]: "length (hex_digits k n) = k"
  by (induction k arbitrary: n) auto

lemma is_hex_digit_char: "d < 16 \<Longrightarrow> is_hex_char (digit_char d)"
  unfolding is_hex_char_def digit_char_def by (rule nth_mem) simp

lemma hex_digits_hex: "list_all is_hex_char (hex_digits k n)"
  by (induction k arbitrary: n) (auto simp: is_hex_digit_char)

lemma of_hex_append: "of_hex (s @ t) acc = of_hex t (of_hex s acc)"
  by (induction s arbitrary: acc) auto

lemma of_hex_hex_digits: "n < 16 ^ k \<Longrightarrow> of_hex (hex_digits k n) 0 = n"
proof (induction k arbitrary: n)
  case (Suc k)
  then have "n div 16 < 16 ^ k"
    by (simp add: less_mult_imp_div_less mult.commute)
  with Suc.IH show ?case
    by (simp add: of_hex_append)
qed simp

lemma parse_toHexString: "i < 16 ^ 24 \<Longrightarrow> parse_object_id (toHexString i) = Some i"
  by (simp add: parse_object_id_def toHexString_def hex_digits_hex of_hex_hex_digits)

lemma toHexString_inject:
  "i < 16 ^ 24 \<Longrightarrow> j < 16 ^ 24 \<Longrightarrow> toHexString i = toHexString j \<longleftrightarrow> i = j"
  by (metis parse_toHexString option.inject)

lemma hex_char_no_colon: "is_hex_char c \<Longrightarrow> c \<noteq> CHR '':''"
  by (auto simp: is_hex_char_def)

lemma toHexString_no_colon: "CHR '':'' \<notin> set (toHexString i)"
  using hex_digits_hex [of 24 i] hex_char_no_colon
  by (auto simp: toHexString_def list_all_iff)

section \<open>Events\<close>

definition insert_event :: "event_document \<Rightarrow> db \<Rightarrow> db" where
  "insert_event e s = s\<lparr>db_events := insert_one e (db_events s)\<rparr>"

definition deployment_event :: "string \<Rightarrow> string \<Rightarrow> string \<Rightarrow> string option \<Rightarrow> ms \<Rightarrow> event_document" where
  "deployment_event dep ty msg tx now =
     \<lparr>e_category = Category_Deployment, e_deploymentId = dep, e_type = ty, e_message = msg,
      e_tx = tx, e_created_at = now\<rparr>"

section \<open>The tasks repository's delete\<close>

text \<open>
  A LIST that holds a reservation request or a reservation: what host-manager must be told
  about when the task goes.
\<close>

definition holds_reservation :: "task_document \<Rightarrow> bool" where
  "holds_reservation t \<longleftrightarrow> t_task t = LIST \<and>
     (t_reservation_request t \<noteq> None \<or> t_reservation t \<noteq> None)"

text \<open>
  \<open>named\<close> is the task type the filter names literally (\<open>filter.task\<close> a string), if it
  does: a filter naming another type than LIST cannot match a LIST and skips the look-up.
\<close>

definition tasks_delete :: "task_type option \<Rightarrow> (task_document \<Rightarrow> bool) \<Rightarrow> db \<Rightarrow> nat \<times> db" where
  "tasks_delete named P s =
     (let mayMatchList = (named = None \<or> named = Some LIST);
          held = (if mayMatchList then filter (\<lambda>t. P t \<and> holds_reservation t) (db_tasks s) else [])
      in (count_docs P (db_tasks s),
          s\<lparr>db_tasks := delete_many P (db_tasks s),
            db_cancelled := db_cancelled s @ map (\<lambda>t. toHexString (t_id t)) held\<rparr>))"

lemma tasks_delete_frame [frame_simps, simp]:
  "db_deployments (snd (tasks_delete nm P s)) = db_deployments s"
  "db_jobs (snd (tasks_delete nm P s)) = db_jobs s"
  "db_events (snd (tasks_delete nm P s)) = db_events s"
  "db_revisions (snd (tasks_delete nm P s)) = db_revisions s"
  "db_vaults (snd (tasks_delete nm P s)) = db_vaults s"
  "db_locks (snd (tasks_delete nm P s)) = db_locks s"
  "db_frps (snd (tasks_delete nm P s)) = db_frps s"
  "db_next_oid (snd (tasks_delete nm P s)) = db_next_oid s"
  by (simp_all add: tasks_delete_def Let_def)

lemma tasks_delete_tasks [simp]:
  "db_tasks (snd (tasks_delete nm P s)) = delete_many P (db_tasks s)"
  by (simp add: tasks_delete_def Let_def)

lemma tasks_delete_count [simp]: "fst (tasks_delete nm P s) = count_docs P (db_tasks s)"
  by (simp add: tasks_delete_def Let_def)

lemma insert_event_frame [frame_simps, simp]:
  "db_deployments (insert_event e s) = db_deployments s"
  "db_tasks (insert_event e s) = db_tasks s"
  "db_jobs (insert_event e s) = db_jobs s"
  "db_revisions (insert_event e s) = db_revisions s"
  "db_vaults (insert_event e s) = db_vaults s"
  "db_locks (insert_event e s) = db_locks s"
  "db_frps (insert_event e s) = db_frps s"
  "db_next_oid (insert_event e s) = db_next_oid s"
  "db_cancelled (insert_event e s) = db_cancelled s"
  by (simp_all add: insert_event_def)

text \<open>
  Whatever the filter, deleting tasks through the repository cancels the reservation
  request of exactly the deleted LIST tasks that hold one, in order and once each, so no hold
  outlives its task and no live task loses its hold.
\<close>

theorem tasks_delete_cancels:
  assumes "\<And>t ty. named = Some ty \<Longrightarrow> P t \<Longrightarrow> t_task t = ty"
  shows "db_cancelled (snd (tasks_delete named P s)) =
           db_cancelled s @ map (\<lambda>t. toHexString (t_id t))
             (filter holds_reservation (filter P (db_tasks s))) \<and>
         db_tasks (snd (tasks_delete named P s)) = filter (\<lambda>t. \<not> P t) (db_tasks s)"
proof -
  have "filter (\<lambda>t. P t \<and> holds_reservation t) (db_tasks s) = []"
    if "named \<noteq> None" "named \<noteq> Some LIST"
    using that assms by (auto simp: filter_empty_conv holds_reservation_def)
  then show ?thesis
    by (auto simp: tasks_delete_def Let_def conj_commute delete_many_def)
qed

section \<open>Example documents\<close>

text \<open>Documents with every optional field absent, for the concrete instances of the theorems.\<close>

definition blank_task :: "object_id \<Rightarrow> task_type \<Rightarrow> string \<Rightarrow> task_document" where
  "blank_task i ty dep = \<lparr>t_id = i, t_task = ty, t_due_at = 0, t_deploymentId = dep,
     t_tx = None, t_active_revision = None, t_run = None, t_reason = None, t_limit = None,
     t_job = None, t_extend_seconds = None, t_created_at = 0, t_status = Some PENDING,
     t_attempts = 0, t_inflight_retries = None, t_claimed_by = None, t_lease_expires_at = None,
     t_transactions = None, t_target_count = None, t_stop_targets = None,
     t_ipfs_definition_hash = None, t_assign_posted_at = None, t_reservation = None,
     t_reservation_request = None, t_handoff_of = None\<rparr>"

definition blank_deployment :: "string \<Rightarrow> address \<Rightarrow> deployment_status \<Rightarrow> deployment_document" where
  "blank_deployment i owner st = \<lparr>d_idempotency_key = None, d_id = i, d_vault = ''V'',
     d_market = None, d_requirements = None, d_owner = owner, d_name = i, d_status = st,
     d_replicas = 1, d_timeout = 60, d_endpoints = [], d_active_revision = 1,
     d_confidential = False, d_created_at = 0, d_updated_at = 0, d_strategy = SIMPLE,
     d_schedule = None, d_rotation_time = None, d_startup_timeout = None, d_rapid_streak = None,
     d_run = None, d_next_retry_at = None, d_ssh_public_keys = None\<rparr>"

lemma blank_task_simps [simp]:
  "t_id (blank_task i ty dep) = i" "t_task (blank_task i ty dep) = ty"
  "t_deploymentId (blank_task i ty dep) = dep" "t_status (blank_task i ty dep) = Some PENDING"
  "t_due_at (blank_task i ty dep) = 0" "t_attempts (blank_task i ty dep) = 0"
  "t_claimed_by (blank_task i ty dep) = None" "t_transactions (blank_task i ty dep) = None"
  "t_reservation (blank_task i ty dep) = None" "t_reservation_request (blank_task i ty dep) = None"
  "t_assign_posted_at (blank_task i ty dep) = None" "t_active_revision (blank_task i ty dep) = None"
  "t_run (blank_task i ty dep) = None" "t_job (blank_task i ty dep) = None"
  "t_inflight_retries (blank_task i ty dep) = None"
  by (simp_all add: blank_task_def)

lemma blank_deployment_simps [simp]:
  "d_id (blank_deployment i owner st) = i" "d_owner (blank_deployment i owner st) = owner"
  "d_status (blank_deployment i owner st) = st" "d_active_revision (blank_deployment i owner st) = 1"
  "d_run (blank_deployment i owner st) = None" "d_vault (blank_deployment i owner st) = ''V''"
  by (simp_all add: blank_deployment_def)

theorem tasks_delete_cancels_witness:
  "db_cancelled (snd (tasks_delete (Some LIST) (\<lambda>t. t_task t = LIST \<and> t_deploymentId t = ''D'')
     (empty_db\<lparr>db_tasks := [(blank_task 1 LIST ''D'')\<lparr>t_reservation_request := Some \<lparr>q_since = None\<rparr>\<rparr>,
        blank_task 2 STOP ''D'', blank_task 3 LIST ''D'']\<rparr>))) = [toHexString 1]"
  using tasks_delete_cancels [of "Some LIST" "\<lambda>t. t_task t = LIST \<and> t_deploymentId t = ''D''"
      "empty_db\<lparr>db_tasks := [(blank_task 1 LIST ''D'')\<lparr>t_reservation_request := Some \<lparr>q_since = None\<rparr>\<rparr>,
        blank_task 2 STOP ''D'', blank_task 3 LIST ''D'']\<rparr>"]
  by (simp add: empty_db_def holds_reservation_def)

section \<open>Store invariants\<close>

text \<open>
  Object ids are unique and below the supply, deployments are unique by \<open>id\<close>, jobs by
  address and locks by deployment: the store's unique indexes.
\<close>

definition store_wf :: "db \<Rightarrow> bool" where
  "store_wf s \<longleftrightarrow> distinct (map t_id (db_tasks s)) \<and> (\<forall>t \<in> set (db_tasks s). t_id t < db_next_oid s) \<and>
     distinct (map d_id (db_deployments s)) \<and> distinct (map j_job (db_jobs s)) \<and>
     distinct (map l_id (db_locks s))"

lemma store_wf_tasks_delete: "store_wf s \<Longrightarrow> store_wf (snd (tasks_delete nm P s))"
  by (auto simp: store_wf_def distinct_delete_many)

lemma store_wf_insert_event [simp]: "store_wf (insert_event e s) = store_wf s"
  by (simp add: store_wf_def)

lemma store_wf_empty: "store_wf empty_db"
  by (simp add: store_wf_def empty_db_def)

end
