(* ===== verification/Wanted.thy ===== *)
theory Wanted
  imports Repositories
begin

text \<open>
  Whether a task is still wanted (\<open>src/tasks/queue/wanted/wanted.ts\<close>): a task is an
  intent derived from its deployment, re-validated against the deployment when it runs.
\<close>

definition RUNNING_STATUSES :: "deployment_status list" where
  "RUNNING_STATUSES = [STARTING, RUNNING, INSUFFICIENT_FUNDS]"

definition isTaskWanted :: "task_document \<Rightarrow> deployment_document \<Rightarrow> bool \<Rightarrow> bool" where
  "isTaskWanted task deployment jobActive =
     (let running = (d_status deployment \<in> set RUNNING_STATUSES);
          current = (nullish (t_active_revision task) (d_active_revision deployment)
            = d_active_revision deployment);
          sameRun = (t_run task = None \<or> d_run deployment = None \<or> t_run task = d_run deployment)
      in case t_task task of
           LIST \<Rightarrow> running \<and> current \<and> sameRun
         | EXTEND \<Rightarrow> running \<and> jobActive
         | STOP \<Rightarrow> current)"

text \<open>
  \<open>LIST_IN_FLIGHT\<close> as a store filter (\<open>$elemMatch: { blob: { $ne: null } }\<close>, or
  \<open>assign_posted_at\<close> present), and \<open>isListInFlight\<close> as the predicate on a loaded
  task, which tests \<open>Boolean(blob)\<close>: the empty string is not in flight there.
\<close>

definition LIST_IN_FLIGHT :: "task_document \<Rightarrow> bool" where
  "LIST_IN_FLIGHT t \<longleftrightarrow>
     (t_task t = LIST \<and> list_ex (\<lambda>x. x_blob x \<noteq> None) (task_records t)) \<or>
     (t_task t = LIST \<and> t_assign_posted_at t \<noteq> None)"

definition isListInFlight :: "task_document \<Rightarrow> bool" where
  "isListInFlight task =
     (if t_task task \<noteq> LIST then False
      else t_assign_posted_at task \<noteq> None \<or>
           list_ex (\<lambda>x. truthy_string (x_blob x)) (task_records task))"

text \<open>\<open>checkTaskWanted\<close>: against the deployment (and an EXTEND's job) as stored now.\<close>

definition checkTaskWanted :: "db \<Rightarrow> task_document \<Rightarrow> bool" where
  "checkTaskWanted s task =
     (case find_one (\<lambda>d. d_id d = t_deploymentId task) (db_deployments s) of
        None \<Rightarrow> False
      | Some deployment \<Rightarrow>
          (let jobActive =
             (case t_job task of
                Some job \<Rightarrow> if t_task task = EXTEND \<and> job \<noteq> []
                   then 0 < count_docs (\<lambda>j. j_job j = job \<and> job_active j) (db_jobs s)
                   else True
              | None \<Rightarrow> True)
           in isTaskWanted task deployment jobActive))"

lemma running_statuses_iff [simp]:
  "st \<in> set RUNNING_STATUSES \<longleftrightarrow> st = STARTING \<or> st = RUNNING \<or> st = INSUFFICIENT_FUNDS"
  by (auto simp: RUNNING_STATUSES_def)

lemmas wanted_defs = isTaskWanted_def Let_def

lemma isListInFlight_imp_filter: "isListInFlight t \<Longrightarrow> LIST_IN_FLIGHT t"
  by (auto simp: isListInFlight_def LIST_IN_FLIGHT_def truthy_string_def list_ex_iff
      split: if_splits option.splits)

text \<open>
  The two readings of "a LIST in flight", the store filter that spares such tasks and the
  predicate on a loaded task, agree on every task none of whose records holds an empty blob.
\<close>

theorem in_flight_filter_agrees:
  assumes "\<forall>x \<in> set (task_records t). x_blob x \<noteq> Some []"
  shows "isListInFlight t \<longleftrightarrow> LIST_IN_FLIGHT t"
proof -
  have "truthy_string (x_blob x) \<longleftrightarrow> x_blob x \<noteq> None" if "x \<in> set (task_records t)" for x
    using assms that by (cases "x_blob x") auto
  then show ?thesis
    by (auto simp: isListInFlight_def LIST_IN_FLIGHT_def list_ex_iff)
qed

text \<open>
  A LIST is wanted only by a deployment that is meant to have jobs, only while the
  revision it lists is the active one, and never in a later run than the one it was scheduled
  in; an archived, stopping, stopped or errored deployment wants no LIST and no EXTEND.
\<close>

theorem wanted_list_sound:
  assumes "checkTaskWanted s t" "t_task t \<noteq> STOP"
  shows "\<exists>d \<in> set (db_deployments s). d_id d = t_deploymentId t \<and>
           d_status d \<in> {STARTING, RUNNING, INSUFFICIENT_FUNDS} \<and>
           (t_task t = LIST \<longrightarrow>
              (\<forall>r. t_active_revision t = Some r \<longrightarrow> r = d_active_revision d) \<and>
              (\<forall>n m. t_run t = Some n \<longrightarrow> d_run d = Some m \<longrightarrow> n = m)) \<and>
           (t_task t = EXTEND \<longrightarrow> (\<forall>a. t_job t = Some a \<longrightarrow> a \<noteq> [] \<longrightarrow>
              (\<exists>j \<in> set (db_jobs s). j_job j = a \<and> j_state j \<in> {J_QUEUED, J_RUNNING})))"
proof -
  obtain d where d: "find_one (\<lambda>d. d_id d = t_deploymentId t) (db_deployments s) = Some d"
    using assms(1) by (auto simp: checkTaskWanted_def split: option.splits)
  have "d \<in> set (db_deployments s)" "d_id d = t_deploymentId t"
    using find_one_SomeD [OF d] by auto
  moreover have "d_status d \<in> {STARTING, RUNNING, INSUFFICIENT_FUNDS} \<and>
      (t_task t = LIST \<longrightarrow> (\<forall>r. t_active_revision t = Some r \<longrightarrow> r = d_active_revision d) \<and>
        (\<forall>n m. t_run t = Some n \<longrightarrow> d_run d = Some m \<longrightarrow> n = m)) \<and>
      (t_task t = EXTEND \<longrightarrow> (\<forall>a. t_job t = Some a \<longrightarrow> a \<noteq> [] \<longrightarrow>
        (\<exists>j \<in> set (db_jobs s). j_job j = a \<and> j_state j \<in> {J_QUEUED, J_RUNNING})))"
    using assms d
    by (cases "t_task t")
      (auto simp: checkTaskWanted_def wanted_defs neq0_conv [symmetric] count_docs_0_iff
        simp del: neq0_conv split: option.splits if_splits)
  ultimately show ?thesis by blast
qed

theorem in_flight_filter_agrees_witness:
  "isListInFlight ((blank_task 1 LIST ''D'')\<lparr>t_assign_posted_at := Some 5\<rparr>) \<longleftrightarrow>
   LIST_IN_FLIGHT ((blank_task 1 LIST ''D'')\<lparr>t_assign_posted_at := Some 5\<rparr>)"
  by (rule in_flight_filter_agrees) simp

theorem wanted_list_sound_witness:
  "\<exists>d \<in> set (db_deployments (empty_db\<lparr>db_deployments := [blank_deployment ''D'' ''O'' RUNNING]\<rparr>)).
     d_id d = ''D'' \<and> d_status d \<in> {STARTING, RUNNING, INSUFFICIENT_FUNDS}"
  using wanted_list_sound [of "empty_db\<lparr>db_deployments := [blank_deployment ''D'' ''O'' RUNNING]\<rparr>"
      "blank_task 1 LIST ''D''"]
  by (simp add: checkTaskWanted_def find_one_def isTaskWanted_def)

text \<open>
  A restart starts a new run, so a LIST of an earlier run is never wanted again, whatever the
  deployment's status and revision become.
\<close>

lemma stale_run_unwanted:
  "t_task t = LIST \<Longrightarrow> t_run t = Some n \<Longrightarrow> d_run d = Some m \<Longrightarrow> n \<noteq> m \<Longrightarrow> \<not> isTaskWanted t d b"
  by (simp add: wanted_defs)

text \<open>A full stop carries no revision and is always wanted by an existing deployment.\<close>

lemma full_stop_wanted: "t_task t = STOP \<Longrightarrow> t_active_revision t = None \<Longrightarrow> isTaskWanted t d b"
  by (simp add: wanted_defs)

lemma archived_unwanted:
  "d_status d = ARCHIVED \<Longrightarrow> isTaskWanted t d b \<Longrightarrow> t_task t = STOP"
  by (cases "t_task t") (simp_all add: wanted_defs)

end
