(* ===== verification/Transitions.thy ===== *)
theory Transitions
  imports Wanted
begin

text \<open>
  The writes that move a task between its states
  (\<open>src/tasks/queue/transitions/transitions.ts\<close>). Each is one or two store operations, with
  the fence the code puts on it.
\<close>

definition REQUEUE_DELAY_MS :: int where "REQUEUE_DELAY_MS = 1000"
definition INFLIGHT_RETRY_DEFAULT_MS :: rat where "INFLIGHT_RETRY_DEFAULT_MS = 5000"

text \<open>The \<open>$set\<close>, \<open>$unset\<close> and \<open>$inc\<close> the releasing transitions share.\<close>

definition to_pending :: "ms \<Rightarrow> task_document \<Rightarrow> task_document" where
  "to_pending due t =
     t\<lparr>t_status := Some PENDING, t_due_at := due, t_claimed_by := None, t_lease_expires_at := None\<rparr>"

definition on_task :: "(task_document \<Rightarrow> bool) \<Rightarrow> (task_document \<Rightarrow> task_document) \<Rightarrow> db \<Rightarrow> db" where
  "on_task P f s = s\<lparr>db_tasks := update_one P f (db_tasks s)\<rparr>"

definition on_deployment ::
  "(deployment_document \<Rightarrow> bool) \<Rightarrow> (deployment_document \<Rightarrow> deployment_document) \<Rightarrow> db \<Rightarrow> db" where
  "on_deployment P f s = s\<lparr>db_deployments := update_one P f (db_deployments s)\<rparr>"

definition flag_error :: "string \<Rightarrow> db \<Rightarrow> db" where
  "flag_error deploymentId =
     on_deployment (\<lambda>d. d_id d = deploymentId \<and> d_status d \<noteq> ARCHIVED) (\<lambda>d. d\<lparr>d_status := ERROR\<rparr>)"

definition abandonOverCap :: "task_document \<Rightarrow> db \<Rightarrow> db" where
  "abandonOverCap task s =
     flag_error (t_deploymentId task) (snd (tasks_delete None (\<lambda>t. t_id t = t_id task) s))"

definition abandonInflightExhausted :: "task_document \<Rightarrow> db \<Rightarrow> db" where
  "abandonInflightExhausted task s =
     flag_error (t_deploymentId task) (snd (tasks_delete None (\<lambda>t. t_id t = t_id task) s))"

definition inflight_release :: "rat option \<Rightarrow> ms \<Rightarrow> task_document \<Rightarrow> task_document" where
  "inflight_release retryAfterMs now t =
     (to_pending (to_date (of_int now + nullish retryAfterMs INFLIGHT_RETRY_DEFAULT_MS)) t)
       \<lparr>t_attempts := t_attempts t - 1, t_inflight_retries := Some (Suc (nullish (t_inflight_retries t) 0))\<rparr>"

definition park_release :: "ms \<Rightarrow> task_document \<Rightarrow> task_document" where
  "park_release due t = (to_pending due t)\<lparr>t_attempts := t_attempts t - 1\<rparr>"

definition rescheduleInflight :: "object_id \<Rightarrow> string \<Rightarrow> rat option \<Rightarrow> ms \<Rightarrow> db \<Rightarrow> db" where
  "rescheduleInflight i consumerId retryAfterMs now =
     on_task (\<lambda>t. t_id t = i \<and> t_claimed_by t = Some consumerId) (inflight_release retryAfterMs now)"

definition parkTask :: "object_id \<Rightarrow> string \<Rightarrow> int \<Rightarrow> ms \<Rightarrow> db \<Rightarrow> db" where
  "parkTask i consumerId delayMs now s =
     (let waiting = (\<lambda>t. t_id t = i \<and> t_claimed_by t = Some consumerId \<and> t_reservation_request t \<noteq> None)
      in if matches waiting (db_tasks s) then on_task waiting (park_release (now + delayMs)) s
         else on_task (\<lambda>t. t_id t = i \<and> t_claimed_by t = Some consumerId) (park_release now) s)"

definition releaseTaskToPending :: "object_id \<Rightarrow> ms \<Rightarrow> db \<Rightarrow> db" where
  "releaseTaskToPending i now = on_task (\<lambda>t. t_id t = i) (to_pending (now + REQUEUE_DELAY_MS))"

definition incrementAttempt :: "object_id \<Rightarrow> string \<Rightarrow> db \<Rightarrow> bool \<times> db" where
  "incrementAttempt i consumerId s =
     (let mine = (\<lambda>t. t_id t = i \<and> t_claimed_by t = Some consumerId)
      in (matches mine (db_tasks s), on_task mine (\<lambda>t. t\<lparr>t_attempts := t_attempts t + 1\<rparr>) s))"

definition dropUnwantedTask :: "task_document \<Rightarrow> string \<Rightarrow> db \<Rightarrow> db" where
  "dropUnwantedTask task consumerId s =
     snd (tasks_delete None (\<lambda>t. t_id t = t_id task \<and> t_claimed_by t = Some consumerId) s)"

definition dropOrphanedTask :: "task_document \<Rightarrow> string \<Rightarrow> db \<Rightarrow> db" where
  "dropOrphanedTask task consumerId s =
     snd (tasks_delete None (\<lambda>t. t_id t = t_id task \<and> t_claimed_by t = Some consumerId) s)"

definition deleteCompletedTask :: "object_id \<Rightarrow> string \<Rightarrow> db \<Rightarrow> db" where
  "deleteCompletedTask i consumerId s =
     snd (tasks_delete None (\<lambda>t. t_id t = i \<and> t_claimed_by t = Some consumerId) s)"

section \<open>Frames\<close>

lemma on_task_frame [frame_simps, simp]:
  "db_tasks (on_task P f s) = update_one P f (db_tasks s)"
  "db_deployments (on_task P f s) = db_deployments s"
  "db_jobs (on_task P f s) = db_jobs s"
  "db_events (on_task P f s) = db_events s"
  "db_locks (on_task P f s) = db_locks s"
  "db_frps (on_task P f s) = db_frps s"
  "db_revisions (on_task P f s) = db_revisions s"
  "db_vaults (on_task P f s) = db_vaults s"
  "db_next_oid (on_task P f s) = db_next_oid s"
  "db_cancelled (on_task P f s) = db_cancelled s"
  by (simp_all add: on_task_def)

lemma on_deployment_frame [frame_simps, simp]:
  "db_deployments (on_deployment Q g s) = update_one Q g (db_deployments s)"
  "db_tasks (on_deployment Q g s) = db_tasks s"
  "db_jobs (on_deployment Q g s) = db_jobs s"
  "db_events (on_deployment Q g s) = db_events s"
  "db_locks (on_deployment Q g s) = db_locks s"
  "db_frps (on_deployment Q g s) = db_frps s"
  "db_revisions (on_deployment Q g s) = db_revisions s"
  "db_vaults (on_deployment Q g s) = db_vaults s"
  "db_next_oid (on_deployment Q g s) = db_next_oid s"
  "db_cancelled (on_deployment Q g s) = db_cancelled s"
  by (simp_all add: on_deployment_def)

lemma to_pending_simps [simp]:
  "t_id (to_pending due t) = t_id t" "t_status (to_pending due t) = Some PENDING"
  "t_due_at (to_pending due t) = due" "t_claimed_by (to_pending due t) = None"
  "t_lease_expires_at (to_pending due t) = None" "t_task (to_pending due t) = t_task t"
  "t_deploymentId (to_pending due t) = t_deploymentId t" "t_attempts (to_pending due t) = t_attempts t"
  "t_inflight_retries (to_pending due t) = t_inflight_retries t"
  "t_transactions (to_pending due t) = t_transactions t"
  "t_reservation (to_pending due t) = t_reservation t"
  "t_reservation_request (to_pending due t) = t_reservation_request t"
  "t_handoff_of (to_pending due t) = t_handoff_of t"
  by (simp_all add: to_pending_def)

text \<open>
  The retry accounting. For the consumer that holds a task's lease, an in-flight retry and a
  park both undo the attempt its dispatch counted, so waiting never burns the crash-loop budget:
  an in-flight retry adds one to its own counter and makes the task due after the hint (five
  seconds without one), a park leaves that counter alone, and either way the lease is given up.
\<close>

theorem waiting_never_burns_attempts:
  assumes "distinct (map t_id (db_tasks s))" "t \<in> set (db_tasks s)" "t_claimed_by t = Some c"
  shows "\<exists>t1 \<in> set (db_tasks (rescheduleInflight (t_id t) c retryAfter now (snd (incrementAttempt (t_id t) c s)))).
           t_id t1 = t_id t \<and> t_attempts t1 = t_attempts t \<and> t_status t1 = Some PENDING \<and>
           t_claimed_by t1 = None \<and> t_inflight_retries t1 = Some (Suc (nullish (t_inflight_retries t) 0)) \<and>
           t_due_at t1 = to_date (of_int now + nullish retryAfter 5000) \<and>
         (\<exists>t2 \<in> set (db_tasks (parkTask (t_id t) c delayMs now (snd (incrementAttempt (t_id t) c s)))).
           t_id t2 = t_id t \<and> t_attempts t2 = t_attempts t \<and> t_status t2 = Some PENDING \<and>
           t_claimed_by t2 = None \<and> t_inflight_retries t2 = t_inflight_retries t \<and>
           t_due_at t2 = (if t_reservation_request t = None then now else now + delayMs))"
proof -
  let ?mine = "\<lambda>x. t_id x = t_id t \<and> t_claimed_by x = Some c"
  let ?s1 = "snd (incrementAttempt (t_id t) c s)"
  let ?t1 = "t\<lparr>t_attempts := t_attempts t + 1\<rparr>"
  have ts1: "db_tasks ?s1 = update_one ?mine (\<lambda>x. x\<lparr>t_attempts := t_attempts x + 1\<rparr>) (db_tasks s)"
    by (simp add: incrementAttempt_def Let_def)
  have in1: "?t1 \<in> set (db_tasks ?s1)"
    unfolding ts1 by (rule update_one_mem [OF assms(1,2)]) (use assms(3) in auto)
  have d1: "distinct (map t_id (db_tasks ?s1))"
    unfolding ts1 using assms(1) by (rule distinct_update_one) simp
  have r: "inflight_release retryAfter now ?t1 \<in>
      set (db_tasks (rescheduleInflight (t_id t) c retryAfter now ?s1))"
    unfolding rescheduleInflight_def on_task_frame
    by (rule update_one_mem [OF d1 in1, of ?mine "inflight_release retryAfter now"]) (use assms(3) in auto)
  have p: "park_release (if t_reservation_request t = None then now else now + delayMs) ?t1 \<in>
      set (db_tasks (parkTask (t_id t) c delayMs now ?s1))"
  proof (cases "t_reservation_request t = None")
    case True
    have "t_reservation_request x = None" if "x \<in> set (db_tasks ?s1)" "t_id x = t_id t" for x
      using keyed_unique [OF d1 that(1) in1] that(2) True by simp
    then have none: "\<not> matches (\<lambda>x. ?mine x \<and> t_reservation_request x \<noteq> None) (db_tasks ?s1)"
      by (auto simp: matches_iff)
    have "park_release now ?t1 \<in> set (update_one ?mine (park_release now) (db_tasks ?s1))"
      by (rule update_one_mem [OF d1 in1, of ?mine "park_release now"]) (use assms(3) in auto)
    with none True show ?thesis by (simp add: parkTask_def conj_assoc)
  next
    case False
    let ?w = "\<lambda>x. ?mine x \<and> t_reservation_request x \<noteq> None"
    have some: "matches ?w (db_tasks ?s1)"
      unfolding matches_iff by (rule bexI [OF _ in1]) (use assms(3) False in simp)
    have "park_release (now + delayMs) ?t1 \<in> set (update_one ?w (park_release (now + delayMs)) (db_tasks ?s1))"
      by (rule update_one_mem [OF d1 in1, of ?w "park_release (now + delayMs)"]) (use assms(3) False in auto)
    with some False show ?thesis by (auto simp: parkTask_def conj_assoc)
  qed
  show ?thesis
    by (intro bexI [OF _ r] conjI bexI [OF _ p])
      (simp_all add: inflight_release_def park_release_def INFLIGHT_RETRY_DEFAULT_MS_def)
qed

theorem waiting_never_burns_attempts_witness:
  "\<exists>t1 \<in> set (db_tasks (rescheduleInflight 1 ''c'' None 0 (snd (incrementAttempt 1 ''c''
     (empty_db\<lparr>db_tasks := [(blank_task 1 LIST ''D'')\<lparr>t_claimed_by := Some ''c''\<rparr>]\<rparr>))))).
     t_attempts t1 = 0 \<and> t_inflight_retries t1 = Some 1"
  using waiting_never_burns_attempts [of "empty_db\<lparr>db_tasks := [(blank_task 1 LIST ''D'')\<lparr>t_claimed_by := Some ''c''\<rparr>]\<rparr>"
      "(blank_task 1 LIST ''D'')\<lparr>t_claimed_by := Some ''c''\<rparr>" "''c''" None 0]
  by auto

end
