(* ===== verification/Schedule.thy ===== *)
theory Schedule
  imports Wanted
begin

text \<open>
  The producer side of the task queue: \<open>scheduleTask\<close>
  (\<open>src/tasks/scheduleTask.ts\<close>) and \<open>updateScheduledTasks\<close>
  (\<open>src/tasks/updateScheduledTasks.ts\<close>). The clock reading \<open>now\<close> is an argument; the
  object id of an inserted task comes from the store's supply.
\<close>

record schedule_options =
  o_active_revision :: "nat option"
  o_limit :: "nat option"
  o_job :: "address option"
  o_extend_seconds :: "int option"
  o_reason :: "task_reason option"
  o_idempotent :: bool
  o_handoff_of :: "object_id option"

definition no_options :: schedule_options where
  "no_options = \<lparr>o_active_revision = None, o_limit = None, o_job = None, o_extend_seconds = None,
     o_reason = None, o_idempotent = False, o_handoff_of = None\<rparr>"

text \<open>The revision and the run a task is frozen on: a LIST's from its deployment as it is now.\<close>

definition scheduled_current :: "db \<Rightarrow> task_type \<Rightarrow> string \<Rightarrow> deployment_document option" where
  "scheduled_current s task deploymentId =
     (if task = LIST then find_one (\<lambda>d. d_id d = deploymentId) (db_deployments s) else None)"

definition scheduled_revision :: "db \<Rightarrow> task_type \<Rightarrow> string \<Rightarrow> schedule_options \<Rightarrow> nat option" where
  "scheduled_revision s task deploymentId opts =
     or_else (o_active_revision opts)
       (map_option d_active_revision (scheduled_current s task deploymentId))"

definition scheduled_run :: "db \<Rightarrow> task_type \<Rightarrow> string \<Rightarrow> nat option" where
  "scheduled_run s task deploymentId =
     Option.bind (scheduled_current s task deploymentId) d_run"

definition scheduled_doc ::
  "db \<Rightarrow> task_type \<Rightarrow> string \<Rightarrow> ms \<Rightarrow> ms \<Rightarrow> schedule_options \<Rightarrow> task_document" where
  "scheduled_doc s task deploymentId due_at now opts =
     \<lparr>t_id = db_next_oid s, t_task = task, t_due_at = due_at, t_deploymentId = deploymentId,
      t_tx = None, t_active_revision = scheduled_revision s task deploymentId opts,
      t_run = scheduled_run s task deploymentId, t_reason = o_reason opts,
      t_limit = o_limit opts, t_job = o_job opts, t_extend_seconds = o_extend_seconds opts,
      t_created_at = now, t_status = Some PENDING, t_attempts = 0, t_inflight_retries = None,
      t_claimed_by = None, t_lease_expires_at = None, t_transactions = None,
      t_target_count = None, t_stop_targets = None, t_ipfs_definition_hash = None,
      t_assign_posted_at = None, t_reservation = None, t_reservation_request = None,
      t_handoff_of = o_handoff_of opts\<rparr>"

text \<open>The filter of the idempotent upsert.\<close>

definition same_intent ::
  "db \<Rightarrow> task_type \<Rightarrow> string \<Rightarrow> schedule_options \<Rightarrow> task_document \<Rightarrow> bool" where
  "same_intent s task deploymentId opts t \<longleftrightarrow>
     (case o_handoff_of opts of
        Some h \<Rightarrow> t_deploymentId t = deploymentId \<and> t_handoff_of t = Some h
      | None \<Rightarrow>
          t_task t = task \<and> t_deploymentId t = deploymentId \<and> t_status t = Some PENDING \<and>
          t_reason t = o_reason opts \<and> t_job t = o_job opts \<and> t_limit t = o_limit opts \<and>
          t_active_revision t = scheduled_revision s task deploymentId opts \<and>
          t_run t = scheduled_run s task deploymentId \<and> t_extend_seconds t = None)"

definition insert_task :: "task_document \<Rightarrow> db \<Rightarrow> db" where
  "insert_task t s = s\<lparr>db_tasks := insert_one t (db_tasks s), db_next_oid := Suc (db_next_oid s)\<rparr>"

definition starting_to_running :: "string \<Rightarrow> db \<Rightarrow> db" where
  "starting_to_running deploymentId s =
     s\<lparr>db_deployments := update_one (\<lambda>d. d_id d = deploymentId \<and> d_status d = STARTING)
         (\<lambda>d. d\<lparr>d_status := RUNNING\<rparr>) (db_deployments s)\<rparr>"

definition scheduleTask ::
  "task_type \<Rightarrow> string \<Rightarrow> deployment_status \<Rightarrow> ms \<Rightarrow> ms \<Rightarrow> schedule_options \<Rightarrow> db \<Rightarrow> bool \<times> db" where
  "scheduleTask task deploymentId deploymentStatus due_at now opts s =
     (let doc = scheduled_doc s task deploymentId due_at now opts;
          keyed = (o_idempotent opts \<or> o_handoff_of opts \<noteq> None);
          created = (if keyed then \<not> matches (same_intent s task deploymentId opts) (db_tasks s) else True);
          s1 = (if created then insert_task doc s else s);
          s2 = (if created \<and> deploymentStatus = STARTING then starting_to_running deploymentId s1 else s1)
      in (created, s2))"

definition updateScheduledTasks :: "string \<Rightarrow> ms \<Rightarrow> db \<Rightarrow> db" where
  "updateScheduledTasks deploymentId due_at s =
     s\<lparr>db_tasks := update_many (\<lambda>t. t_deploymentId t = deploymentId \<and> t_task t = LIST \<and> t_tx t = None)
         (\<lambda>t. t\<lparr>t_due_at := due_at\<rparr>) (db_tasks s)\<rparr>"

section \<open>Frames\<close>

lemma insert_task_frame [frame_simps, simp]:
  "db_deployments (insert_task t s) = db_deployments s"
  "db_jobs (insert_task t s) = db_jobs s"
  "db_events (insert_task t s) = db_events s"
  "db_locks (insert_task t s) = db_locks s"
  "db_frps (insert_task t s) = db_frps s"
  "db_cancelled (insert_task t s) = db_cancelled s"
  "db_revisions (insert_task t s) = db_revisions s"
  "db_vaults (insert_task t s) = db_vaults s"
  by (simp_all add: insert_task_def)

lemma starting_to_running_frame [frame_simps, simp]:
  "db_tasks (starting_to_running i s) = db_tasks s"
  "db_jobs (starting_to_running i s) = db_jobs s"
  "db_events (starting_to_running i s) = db_events s"
  "db_locks (starting_to_running i s) = db_locks s"
  "db_frps (starting_to_running i s) = db_frps s"
  "db_cancelled (starting_to_running i s) = db_cancelled s"
  "db_next_oid (starting_to_running i s) = db_next_oid s"
  "db_revisions (starting_to_running i s) = db_revisions s"
  "db_vaults (starting_to_running i s) = db_vaults s"
  by (simp_all add: starting_to_running_def)

lemma scheduleTask_frame [frame_simps, simp]:
  "db_jobs (snd (scheduleTask ty i st due now opts s)) = db_jobs s"
  "db_events (snd (scheduleTask ty i st due now opts s)) = db_events s"
  "db_locks (snd (scheduleTask ty i st due now opts s)) = db_locks s"
  "db_frps (snd (scheduleTask ty i st due now opts s)) = db_frps s"
  "db_cancelled (snd (scheduleTask ty i st due now opts s)) = db_cancelled s"
  "db_revisions (snd (scheduleTask ty i st due now opts s)) = db_revisions s"
  "db_vaults (snd (scheduleTask ty i st due now opts s)) = db_vaults s"
  by (simp_all add: scheduleTask_def Let_def)

lemma updateScheduledTasks_frame [frame_simps, simp]:
  "db_deployments (updateScheduledTasks i due s) = db_deployments s"
  "db_jobs (updateScheduledTasks i due s) = db_jobs s"
  "db_events (updateScheduledTasks i due s) = db_events s"
  by (simp_all add: updateScheduledTasks_def)

lemma scheduleTask_not_created:
  "\<not> fst (scheduleTask ty i st due now opts s) \<Longrightarrow> snd (scheduleTask ty i st due now opts s) = s"
  by (auto simp: scheduleTask_def Let_def)

lemma scheduleTask_tasks:
  "db_tasks (snd (scheduleTask ty i st due now opts s)) =
     (if fst (scheduleTask ty i st due now opts s)
      then db_tasks s @ [scheduled_doc s ty i due now opts] else db_tasks s)"
  by (auto simp: scheduleTask_def Let_def insert_task_def insert_one_def)

lemma scheduleTask_deployments:
  "db_deployments (snd (scheduleTask ty i st due now opts s)) =
     (if fst (scheduleTask ty i st due now opts s) \<and> st = STARTING
      then update_one (\<lambda>d. d_id d = i \<and> d_status d = STARTING) (\<lambda>d. d\<lparr>d_status := RUNNING\<rparr>)
        (db_deployments s)
      else db_deployments s)"
  by (auto simp: scheduleTask_def Let_def starting_to_running_def insert_task_def)

lemma scheduleTask_created_iff:
  "fst (scheduleTask ty i st due now opts s) \<longleftrightarrow>
     (\<not> o_idempotent opts \<and> o_handoff_of opts = None) \<or>
     \<not> matches (same_intent s ty i opts) (db_tasks s)"
  by (auto simp: scheduleTask_def Let_def)

lemma store_wf_scheduleTask:
  assumes "store_wf s" shows "store_wf (snd (scheduleTask ty i st due now opts s))"
proof -
  have "store_wf (insert_task (scheduled_doc s ty i due now opts) s)"
    using assms by (auto simp: store_wf_def insert_task_def insert_one_def scheduled_doc_def)
  moreover have "store_wf (starting_to_running i s')" if "store_wf s'" for s'
    using that by (auto simp: store_wf_def starting_to_running_def map_update_one)
  ultimately show ?thesis
    using assms by (auto simp: scheduleTask_def Let_def)
qed

section \<open>At most one pending task per intent\<close>

text \<open>The intent of a task, and the intents the pending tasks stand for (one-shot extends apart).\<close>

definition intent ::
  "task_document \<Rightarrow> task_type \<times> string \<times> task_reason option \<times> address option \<times> nat option \<times>
    nat option \<times> nat option" where
  "intent t = (t_task t, t_deploymentId t, t_reason t, t_job t, t_limit t, t_active_revision t, t_run t)"

definition pending_intents :: "task_document list \<Rightarrow> (task_type \<times> string \<times> task_reason option \<times>
    address option \<times> nat option \<times> nat option \<times> nat option) list" where
  "pending_intents ts =
     map intent (filter (\<lambda>t. t_status t = Some PENDING \<and> t_extend_seconds t = None) ts)"

definition handoffs :: "task_document list \<Rightarrow> (string \<times> object_id) list" where
  "handoffs ts = map (\<lambda>t. (t_deploymentId t, nullish (t_handoff_of t) 0))
     (filter (\<lambda>t. t_handoff_of t \<noteq> None) ts)"

lemma same_intent_doc:
  "o_handoff_of opts = None \<Longrightarrow>
     same_intent s ty i opts t \<longleftrightarrow> t_status t = Some PENDING \<and> t_extend_seconds t = None \<and>
       intent t = intent (scheduled_doc s ty i due now opts)"
  by (auto simp: same_intent_def intent_def scheduled_doc_def)

lemma same_intent_handoff:
  "o_handoff_of opts = Some h \<Longrightarrow>
     same_intent s ty i opts t \<longleftrightarrow> t_deploymentId t = i \<and> t_handoff_of t = Some h"
  by (simp add: same_intent_def)

lemma scheduled_current_after:
  "map_option (\<lambda>d. (d_active_revision d, d_run d))
     (find_one (\<lambda>d. d_id d = i) (db_deployments (starting_to_running i s))) =
   map_option (\<lambda>d. (d_active_revision d, d_run d)) (find_one (\<lambda>d. d_id d = i) (db_deployments s))"
proof -
  have "map_option (\<lambda>d. (d_active_revision d, d_run d))
      (find_one (\<lambda>d. d_id d = i) (update_one (\<lambda>d. d_id d = i \<and> d_status d = STARTING)
        (\<lambda>d. d\<lparr>d_status := RUNNING\<rparr>) ds)) =
    map_option (\<lambda>d. (d_active_revision d, d_run d)) (find_one (\<lambda>d. d_id d = i) ds)" for ds
    by (induction ds) (auto simp: find_one_def)
  then show ?thesis by (simp add: starting_to_running_def)
qed

lemma scheduled_stamp_after:
  "scheduled_revision (starting_to_running i s) ty i opts = scheduled_revision s ty i opts"
  "scheduled_run (starting_to_running i s) ty i = scheduled_run s ty i"
  using scheduled_current_after [of i s]
  by (auto simp: scheduled_revision_def scheduled_run_def scheduled_current_def
      map_option_case split: option.splits)

lemma scheduled_stamp_insert [simp]:
  "scheduled_revision (insert_task t s) ty i opts = scheduled_revision s ty i opts"
  "scheduled_run (insert_task t s) ty i = scheduled_run s ty i"
  by (simp_all add: scheduled_revision_def scheduled_run_def scheduled_current_def)

lemma same_intent_cong:
  "scheduled_revision s ty i opts = scheduled_revision s' ty i opts \<Longrightarrow>
     scheduled_run s ty i = scheduled_run s' ty i \<Longrightarrow>
     same_intent s ty i opts = same_intent s' ty i opts"
  by (simp add: same_intent_def fun_eq_iff split: option.split)

lemma same_intent_after:
  "same_intent (snd (scheduleTask ty i st due now opts s)) ty i opts = same_intent s ty i opts"
  by (rule same_intent_cong) (simp_all add: scheduleTask_def Let_def scheduled_stamp_after)

lemma same_intent_own_doc:
  "o_handoff_of opts \<noteq> None \<or> o_extend_seconds opts = None \<Longrightarrow>
     same_intent s ty i opts (scheduled_doc s ty i due now opts)"
  by (auto simp: same_intent_def scheduled_doc_def split: option.splits)

text \<open>
  Scheduling is idempotent where it says so: repeating an idempotent (or hand-off) call, at
  any later time and with any status snapshot, creates nothing and changes nothing while the
  first task is still queued. One-shot extends are exempt, as the code says.
\<close>

theorem scheduleTask_idempotent:
  assumes "o_idempotent opts \<or> o_handoff_of opts \<noteq> None"
    and "o_handoff_of opts \<noteq> None \<or> o_extend_seconds opts = None"
    and "s1 = snd (scheduleTask ty i st due now opts s)"
  shows "scheduleTask ty i st' due' now' opts s1 = (False, s1)"
proof -
  let ?doc = "scheduled_doc s ty i due now opts"
  have "matches (same_intent s ty i opts) (db_tasks s1)"
  proof (cases "fst (scheduleTask ty i st due now opts s)")
    case True
    then show ?thesis
      using assms(3) same_intent_own_doc [OF assms(2), of s ty i due now]
      by (auto simp: scheduleTask_tasks matches_iff)
  next
    case False
    then show ?thesis
      using assms(1,3) by (auto simp: scheduleTask_tasks scheduleTask_created_iff)
  qed
  then have "\<not> fst (scheduleTask ty i st' due' now' opts s1)"
    using assms(1,3) by (auto simp: scheduleTask_created_iff same_intent_after)
  with scheduleTask_not_created [OF this] show ?thesis
    by (simp add: prod_eq_iff)
qed

definition witness_extend_options :: schedule_options where
  "witness_extend_options = no_options\<lparr>o_job := Some ''J'', o_idempotent := True\<rparr>"

theorem scheduleTask_idempotent_witness:
  "scheduleTask EXTEND ''D'' RUNNING 90 10 witness_extend_options
     (snd (scheduleTask EXTEND ''D'' RUNNING 60 0 witness_extend_options empty_db)) =
   (False, snd (scheduleTask EXTEND ''D'' RUNNING 60 0 witness_extend_options empty_db))"
  by (rule scheduleTask_idempotent [OF _ _ refl])
    (simp_all add: witness_extend_options_def no_options_def)

text \<open>
  C9: whatever is scheduled, with whatever options, the queue never holds two hand-offs of one
  source task, and an idempotent call never makes two pending tasks stand for one intent.
\<close>

theorem scheduleTask_unique_intents:
  assumes "distinct (handoffs (db_tasks s))"
    and "o_idempotent opts \<longrightarrow> o_handoff_of opts = None \<longrightarrow> distinct (pending_intents (db_tasks s))"
  shows "distinct (handoffs (db_tasks (snd (scheduleTask ty i st due now opts s)))) \<and>
     (o_idempotent opts \<longrightarrow> o_handoff_of opts = None \<longrightarrow>
        distinct (pending_intents (db_tasks (snd (scheduleTask ty i st due now opts s)))))"
proof -
  let ?doc = "scheduled_doc s ty i due now opts"
  have hand: "t_handoff_of ?doc = o_handoff_of opts" "t_deploymentId ?doc = i"
    by (simp_all add: scheduled_doc_def)
  have "distinct (handoffs (db_tasks s @ [?doc]))"
    if c: "fst (scheduleTask ty i st due now opts s)"
  proof (cases "o_handoff_of opts")
    case None
    with hand show ?thesis using assms(1) by (simp add: handoffs_def)
  next
    case (Some h)
    with c have "\<forall>t \<in> set (db_tasks s). t_deploymentId t = i \<longrightarrow> t_handoff_of t \<noteq> Some h"
      by (auto simp: scheduleTask_created_iff matches_iff same_intent_handoff)
    with Some hand show ?thesis using assms(1) by (auto simp: handoffs_def)
  qed
  moreover have "distinct (pending_intents (db_tasks s @ [?doc]))"
    if c: "fst (scheduleTask ty i st due now opts s)" "o_idempotent opts" "o_handoff_of opts = None"
  proof -
    from c have "\<forall>t \<in> set (db_tasks s). t_status t = Some PENDING \<longrightarrow> t_extend_seconds t = None \<longrightarrow>
        intent t \<noteq> intent ?doc"
      by (auto simp: scheduleTask_created_iff matches_iff same_intent_doc [where due = due and now = now])
    with c assms(2) show ?thesis by (auto simp: pending_intents_def)
  qed
  ultimately show ?thesis using assms by (auto simp: scheduleTask_tasks)
qed

theorem scheduleTask_unique_intents_witness:
  "distinct (pending_intents (db_tasks
     (snd (scheduleTask EXTEND ''D'' RUNNING 60 0 witness_extend_options empty_db)))) \<and>
   length (db_tasks (snd (scheduleTask EXTEND ''D'' RUNNING 60 0 witness_extend_options empty_db))) = 1"
proof -
  have "distinct (handoffs (db_tasks empty_db))" "distinct (pending_intents (db_tasks empty_db))"
    by (simp_all add: empty_db_def handoffs_def pending_intents_def)
  then have "distinct (pending_intents (db_tasks
     (snd (scheduleTask EXTEND ''D'' RUNNING 60 0 witness_extend_options empty_db))))"
    using scheduleTask_unique_intents [of empty_db witness_extend_options EXTEND "''D''" RUNNING 60 0]
    by (simp add: witness_extend_options_def no_options_def)
  moreover have "length (db_tasks
     (snd (scheduleTask EXTEND ''D'' RUNNING 60 0 witness_extend_options empty_db))) = 1"
    by (simp add: scheduleTask_tasks scheduleTask_created_iff matches_def empty_db_def)
  ultimately show ?thesis by simp
qed

text \<open>
  A rescheduled cron moves every LIST of the deployment, the hand-offs and the LISTs being run
  included: no task ever carries a \<open>tx\<close>, so the filter on it selects nothing out.
\<close>

lemma updateScheduledTasks_moves_all_lists:
  assumes "\<forall>t \<in> set (db_tasks s). t_tx t = None"
    and "t \<in> set (db_tasks (updateScheduledTasks i due s))" "t_deploymentId t = i" "t_task t = LIST"
  shows "t_due_at t = due"
proof -
  from assms(2) have "t \<in> set (update_many
      (\<lambda>t. t_deploymentId t = i \<and> t_task t = LIST \<and> t_tx t = None)
      (\<lambda>t. t\<lparr>t_due_at := due\<rparr>) (db_tasks s))"
    by (simp add: updateScheduledTasks_def)
  then show ?thesis
  proof (cases rule: update_many_cases)
    case (1 d0)
    then show ?thesis by simp
  next
    case 2
    with assms show ?thesis by auto
  qed
qed

end
