(* ===== verification/Claim.thy ===== *)
theory Claim
  imports Transitions Schedule
begin

text \<open>
  Claiming due tasks (\<open>src/tasks/queue/claim/claim.ts\<close>) and hydrating them for their run
  (\<open>src/tasks/queue/claim/enrich.ts\<close>). Each claim of a batch reads the clock anew, so the
  readings are a list, one per iteration of the loop.
\<close>

section \<open>Claiming\<close>

definition claimable :: "ms \<Rightarrow> task_document \<Rightarrow> bool" where
  "claimable now t \<longleftrightarrow> t_due_at t \<le> now \<and>
     (t_status t = Some PENDING \<or> t_status t = None \<or>
      (t_status t = Some PROCESSING \<and> (\<exists>l. t_lease_expires_at t = Some l \<and> l < now)))"

lemma claimable_code [code]:
  "claimable now t \<longleftrightarrow> t_due_at t \<le> now \<and>
     (case t_status t of Some PROCESSING \<Rightarrow>
        (case t_lease_expires_at t of Some l \<Rightarrow> l < now | None \<Rightarrow> False)
      | _ \<Rightarrow> True)"
  by (auto simp: claimable_def split: option.splits task_status.splits)

text \<open>\<open>sort: { due_at: 1 }\<close>: the first of the matching tasks with the least \<open>due_at\<close>.\<close>

fun earliest :: "(task_document \<Rightarrow> bool) \<Rightarrow> task_document list \<Rightarrow> task_document option" where
  "earliest P [] = None"
| "earliest P (t # ts) =
     (if P t then (case earliest P ts of
          Some u \<Rightarrow> if t_due_at u < t_due_at t then Some u else Some t
        | None \<Rightarrow> Some t)
      else earliest P ts)"

definition lease_to :: "string \<Rightarrow> ms \<Rightarrow> task_document \<Rightarrow> task_document" where
  "lease_to consumerId expires t =
     t\<lparr>t_status := Some PROCESSING, t_claimed_by := Some consumerId, t_lease_expires_at := Some expires\<rparr>"

definition claimTask :: "string \<Rightarrow> int \<Rightarrow> ms \<Rightarrow> db \<Rightarrow> task_document option \<times> db" where
  "claimTask consumerId leaseMs now s =
     (case earliest (claimable now) (db_tasks s) of
        None \<Rightarrow> (None, s)
      | Some t \<Rightarrow> (Some (lease_to consumerId (now + leaseMs) t),
          on_task (\<lambda>u. t_id u = t_id t) (lease_to consumerId (now + leaseMs)) s))"

fun claimTasks :: "string \<Rightarrow> int \<Rightarrow> ms list \<Rightarrow> db \<Rightarrow> task_document list \<times> db" where
  "claimTasks consumerId leaseMs [] s = ([], s)"
| "claimTasks consumerId leaseMs (now # nows) s =
     (case claimTask consumerId leaseMs now s of
        (None, s1) \<Rightarrow> ([], s1)
      | (Some doc, s1) \<Rightarrow>
          (let (docs, s2) = claimTasks consumerId leaseMs nows s1 in (doc # docs, s2)))"

section \<open>Hydrating\<close>

text \<open>A \<open>Map\<close> built from a list of entries keeps the last entry of a key.\<close>

definition find_last :: "('d \<Rightarrow> bool) \<Rightarrow> 'd list \<Rightarrow> 'd option" where
  "find_last P c = find_one P (rev c)"

definition enrich_one :: "db \<Rightarrow> task_document \<Rightarrow> outstanding_task option" where
  "enrich_one s task =
     (case find_last (\<lambda>d. d_id d = t_deploymentId task) (db_deployments s) of
        None \<Rightarrow> None
      | Some deployment \<Rightarrow>
          (case find_last (\<lambda>v. w_vault v = d_vault deployment) (db_vaults s) of
             None \<Rightarrow> None
           | Some vault \<Rightarrow> Some \<lparr>k_task = task, k_deployment = deployment, k_vault = vault,
               k_jobs = filter (\<lambda>j. j_deployment j = t_deploymentId task \<and> job_active j) (db_jobs s),
               k_revisions = filter (\<lambda>r. r_deployment r = t_deploymentId task) (db_revisions s)\<rparr>))"

definition enrichClaimedTasks :: "object_id list \<Rightarrow> db \<Rightarrow> outstanding_task list" where
  "enrichClaimedTasks ids s =
     List.map_filter (enrich_one s) (filter (\<lambda>t. t_id t \<in> set ids) (db_tasks s))"

section \<open>What a claim does\<close>

lemma earliest_None_iff: "earliest P ts = None \<longleftrightarrow> (\<forall>t \<in> set ts. \<not> P t)"
  by (induction ts) (auto split: option.splits)

lemma earliest_SomeD:
  "earliest P ts = Some t \<Longrightarrow> t \<in> set ts \<and> P t \<and> (\<forall>u \<in> set ts. P u \<longrightarrow> t_due_at t \<le> t_due_at u)"
proof (induction ts arbitrary: t)
  case (Cons x ts)
  show ?case
  proof (cases "earliest P ts")
    case None
    with Cons.prems have "P x" "t = x" by (auto split: if_splits)
    with None show ?thesis by (auto simp: earliest_None_iff)
  next
    case (Some u)
    with Cons.IH [OF Some] Cons.prems show ?thesis by (auto split: if_splits)
  qed
qed simp

lemma lease_to_simps [simp]:
  "t_id (lease_to c e t) = t_id t" "t_status (lease_to c e t) = Some PROCESSING"
  "t_claimed_by (lease_to c e t) = Some c" "t_lease_expires_at (lease_to c e t) = Some e"
  "t_due_at (lease_to c e t) = t_due_at t" "t_attempts (lease_to c e t) = t_attempts t"
  "t_deploymentId (lease_to c e t) = t_deploymentId t" "t_task (lease_to c e t) = t_task t"
  "t_transactions (lease_to c e t) = t_transactions t"
  "t_inflight_retries (lease_to c e t) = t_inflight_retries t"
  by (simp_all add: lease_to_def)

lemma live_lease_not_claimable:
  "t_status t = Some PROCESSING \<Longrightarrow> t_lease_expires_at t = Some l \<Longrightarrow> now \<le> l \<Longrightarrow> \<not> claimable now t"
  by (simp add: claimable_def)

lemma claimTask_frame [frame_simps, simp]:
  "db_deployments (snd (claimTask c d now s)) = db_deployments s"
  "db_jobs (snd (claimTask c d now s)) = db_jobs s"
  "db_vaults (snd (claimTask c d now s)) = db_vaults s"
  "db_revisions (snd (claimTask c d now s)) = db_revisions s"
  "db_locks (snd (claimTask c d now s)) = db_locks s"
  "db_events (snd (claimTask c d now s)) = db_events s"
  "map t_id (db_tasks (snd (claimTask c d now s))) = map t_id (db_tasks s)"
  by (simp_all add: claimTask_def map_update_one split: option.splits)

text \<open>
  A claim of the store as an operation on a set of leases: the task it grants was claimable, is
  the earliest due one, and afterwards carries the claimer's lease; every other task is as before.
\<close>

lemma claimTask_granted:
  assumes "distinct (map t_id (db_tasks s))" "claimTask c d now s = (Some doc, s1)"
  obtains t where "t \<in> set (db_tasks s)" "claimable now t" "doc = lease_to c (now + d) t"
    "\<forall>u \<in> set (db_tasks s). claimable now u \<longrightarrow> t_due_at t \<le> t_due_at u"
    "set (db_tasks s1) = insert doc (set (db_tasks s) - {t})"
proof -
  obtain t where e: "earliest (claimable now) (db_tasks s) = Some t"
    and doc: "doc = lease_to c (now + d) t"
    and s1: "s1 = on_task (\<lambda>u. t_id u = t_id t) (lease_to c (now + d)) s"
    using assms(2) by (auto simp: claimTask_def split: option.splits)
  note t = earliest_SomeD [OF e]
  have "db_tasks s1 = map (\<lambda>u. if t_id u = t_id t then lease_to c (now + d) u else u) (db_tasks s)"
    using assms(1) by (simp add: s1 update_one_keyed)
  moreover have "t_id u = t_id t \<longleftrightarrow> u = t" if "u \<in> set (db_tasks s)" for u
    using keyed_unique [OF assms(1) that] t by auto
  ultimately have "set (db_tasks s1) = insert doc (set (db_tasks s) - {t})"
    using t by (auto simp: doc)
  with t doc show ?thesis by (intro that [of t]) auto
qed

lemma claimTask_refused: "claimTask c d now s = (None, s1) \<Longrightarrow> s1 = s"
  by (auto simp: claimTask_def split: option.splits)

text \<open>Claims of any number of consumers, in the order the store performs them.\<close>

fun claim_run :: "int \<Rightarrow> (string \<times> ms) list \<Rightarrow> db \<Rightarrow> task_document option list \<times> db" where
  "claim_run leaseMs [] s = ([], s)"
| "claim_run leaseMs ((c, now) # cs) s =
     (let (r, s1) = claimTask c leaseMs now s; (rs, s2) = claim_run leaseMs cs s1 in (r # rs, s2))"

definition granted_ids :: "task_document option list \<Rightarrow> object_id list" where
  "granted_ids rs = map t_id (List.map_filter id rs)"

lemma granted_ids_simps [simp]:
  "granted_ids [] = []" "granted_ids (None # rs) = granted_ids rs"
  "granted_ids (Some t # rs) = t_id t # granted_ids rs"
  by (simp_all add: granted_ids_def map_filter_simps)

definition leased_until :: "ms \<Rightarrow> object_id \<Rightarrow> db \<Rightarrow> bool" where
  "leased_until until i s \<longleftrightarrow> (\<forall>t \<in> set (db_tasks s). t_id t = i \<longrightarrow>
     t_status t = Some PROCESSING \<and> (\<exists>l. t_lease_expires_at t = Some l \<and> until \<le> l))"

lemma leased_not_granted:
  assumes "distinct (map t_id (db_tasks s))" "leased_until until i s" "now \<le> until"
    and "claimTask c d now s = (Some doc, s1)"
  shows "t_id doc \<noteq> i"
proof -
  obtain t where t: "t \<in> set (db_tasks s)" "claimable now t" "doc = lease_to c (now + d) t"
    by (rule claimTask_granted [OF assms(1,4)])
  show ?thesis
    using t assms(2,3) by (fastforce simp: leased_until_def claimable_def)
qed

lemma leased_claimTask:
  assumes "distinct (map t_id (db_tasks s))" "leased_until until i s" "now \<le> until"
  shows "leased_until until i (snd (claimTask c d now s))"
proof (cases "claimTask c d now s")
  case (Pair r s1)
  show ?thesis
  proof (cases r)
    case None
    with Pair claimTask_refused have "s1 = s" by auto
    with Pair assms(2) show ?thesis by simp
  next
    case (Some doc)
    with Pair have g: "claimTask c d now s = (Some doc, s1)" by simp
    note ne = leased_not_granted [OF assms g]
    obtain t where "set (db_tasks s1) = insert doc (set (db_tasks s) - {t})"
      by (rule claimTask_granted [OF assms(1) g])
    with ne assms(2) Pair show ?thesis by (auto simp: leased_until_def)
  qed
qed

lemma granted_leased:
  assumes "distinct (map t_id (db_tasks s))" "claimTask c d now s = (Some doc, s1)"
    and "until \<le> now + d"
  shows "leased_until until (t_id doc) s1"
proof -
  obtain t where t: "t \<in> set (db_tasks s)" "doc = lease_to c (now + d) t"
      "set (db_tasks s1) = insert doc (set (db_tasks s) - {t})"
    by (rule claimTask_granted [OF assms(1,2)])
  have "t_id u \<noteq> t_id t" if "u \<in> set (db_tasks s)" "u \<noteq> t" for u
    using keyed_unique [OF assms(1)] that t(1) by auto
  with t assms(3) show ?thesis by (auto simp: leased_until_def)
qed

lemma leased_never_granted:
  assumes "distinct (map t_id (db_tasks s))" "leased_until until i s"
    and "\<forall>(c, now) \<in> set cs. now \<le> until"
  shows "i \<notin> set (granted_ids (fst (claim_run d cs s)))"
  using assms
proof (induction cs arbitrary: s)
  case (Cons cn cs)
  obtain c now where cn: "cn = (c, now)" by (cases cn)
  obtain r s1 where g: "claimTask c d now s = (r, s1)" by (cases "claimTask c d now s")
  have "distinct (map t_id (db_tasks s1))" "leased_until until i s1"
    using Cons.prems g claimTask_frame(7) [of c d now s] leased_claimTask [of s until i now c d]
    by (auto simp: cn)
  then have "i \<notin> set (granted_ids (fst (claim_run d cs s1)))"
    using Cons.prems(3) by (intro Cons.IH) (auto simp: cn)
  moreover have "t_id doc \<noteq> i" if "r = Some doc" for doc
    using leased_not_granted [OF Cons.prems(1,2), of now c d doc s1] g that Cons.prems(3) by (simp add: cn)
  ultimately show ?case
    using g by (cases r) (auto simp: cn case_prod_beta)
qed simp

text \<open>
  C2: no double dispatch: whatever consumers claim, in whatever interleaving, within the span of
  one lease no task is granted twice.
\<close>

theorem claims_exclusive:
  assumes "distinct (map t_id (db_tasks s))"
    and "\<forall>(c, now) \<in> set cs. t0 \<le> now \<and> now \<le> t0 + leaseMs"
  shows "distinct (granted_ids (fst (claim_run leaseMs cs s)))"
  using assms
proof (induction cs arbitrary: s)
  case (Cons cn cs)
  obtain c now where cn: "cn = (c, now)" by (cases cn)
  obtain r s1 where g: "claimTask c leaseMs now s = (r, s1)" by (cases "claimTask c leaseMs now s")
  have d1: "distinct (map t_id (db_tasks s1))"
    using Cons.prems g claimTask_frame(7) [of c leaseMs now s] by simp
  then have "distinct (granted_ids (fst (claim_run leaseMs cs s1)))"
    using Cons.prems by (intro Cons.IH) auto
  moreover have "t_id doc \<notin> set (granted_ids (fst (claim_run leaseMs cs s1)))" if "r = Some doc" for doc
  proof (rule leased_never_granted [OF d1])
    show "leased_until (t0 + leaseMs) (t_id doc) s1"
      using granted_leased [OF Cons.prems(1)] g that Cons.prems(2) by (auto simp: cn)
    show "\<forall>(c, now) \<in> set cs. now \<le> t0 + leaseMs" using Cons.prems(2) by auto
  qed
  ultimately show ?case
    using g by (cases r) (auto simp: cn case_prod_beta)
qed simp

definition witness_task :: task_document where
  "witness_task = scheduled_doc empty_db STOP ''D'' 0 0 no_options"

theorem claims_exclusive_witness:
  "distinct (granted_ids (fst (claim_run 100 [(''a'', 0), (''b'', 100), (''a'', 50)]
     (empty_db\<lparr>db_tasks := [witness_task]\<rparr>))))"
  by (rule claims_exclusive [of _ _ 0]) simp_all

text \<open>A consumer's batch is a run of its own claims.\<close>

lemma claimTasks_run:
  "map t_id (fst (claimTasks c d nows s)) =
     granted_ids (fst (claim_run d (map (Pair c) (take (length (fst (claimTasks c d nows s))) nows)) s))"
proof (induction nows arbitrary: s)
  case (Cons now nows)
  obtain r s1 where g: "claimTask c d now s = (r, s1)" by (cases "claimTask c d now s")
  show ?case
    using Cons.IH [of s1] g by (cases r) (auto simp: case_prod_beta)
qed simp

section \<open>What a run is given\<close>

lemma enrich_one_Some:
  assumes "enrich_one s t = Some k"
  shows "k_task k = t \<and> k_deployment k \<in> set (db_deployments s) \<and>
     d_id (k_deployment k) = t_deploymentId t \<and> k_vault k \<in> set (db_vaults s) \<and>
     w_vault (k_vault k) = d_vault (k_deployment k) \<and>
     k_jobs k = filter (\<lambda>j. j_deployment j = t_deploymentId t \<and> job_active j) (db_jobs s)"
proof -
  obtain d where d: "find_last (\<lambda>d. d_id d = t_deploymentId t) (db_deployments s) = Some d"
    using assms by (auto simp: enrich_one_def split: option.splits)
  moreover obtain v where v: "find_last (\<lambda>v. w_vault v = d_vault d) (db_vaults s) = Some v"
    using assms d by (auto simp: enrich_one_def split: option.splits)
  ultimately have "k = \<lparr>k_task = t, k_deployment = d, k_vault = v,
      k_jobs = filter (\<lambda>j. j_deployment j = t_deploymentId t \<and> job_active j) (db_jobs s),
      k_revisions = filter (\<lambda>r. r_deployment r = t_deploymentId t) (db_revisions s)\<rparr>"
    using assms by (simp add: enrich_one_def)
  with find_one_SomeD [OF d [unfolded find_last_def]] find_one_SomeD [OF v [unfolded find_last_def]]
  show ?thesis by simp
qed

end
