(* ===== verification/Tracker.thy ===== *)
theory Tracker
  imports Repositories "HOL-Library.Multiset"
begin

text \<open>
  The confirmation tracker (\<open>src/tasks/execution/tracker/\<close>): how a signature's status is
  read, the pure decision of one sweep, and the process-wide map of signatures being waited for.
  A promise is named by the number of its waiter; resolving it appends to a log. The RPC's
  answers are arguments.
\<close>

section \<open>Reading a status\<close>

datatype confirmation_status = CS_processed | CS_confirmed | CS_finalized

text \<open>A \<open>getSignatureStatuses\<close> value; an error is kept as its JSON text.\<close>

record sig_status =
  ss_confirmation :: "confirmation_status option"
  ss_err :: "string option"

definition classifySignatureStatus :: "sig_status option \<Rightarrow> bool \<times> string option" where
  "classifySignatureStatus status =
     (case status of
        None \<Rightarrow> (False, None)
      | Some st \<Rightarrow> (case ss_err st of
          Some e \<Rightarrow> (False, Some e)
        | None \<Rightarrow> (ss_confirmation st = Some CS_confirmed \<or> ss_confirmation st = Some CS_finalized, None)))"

definition STATUS_BATCH_SIZE :: nat where "STATUS_BATCH_SIZE = 256"

function chunk :: "'a list \<Rightarrow> nat \<Rightarrow> 'a list list" where
  "chunk items sz = (if items = [] \<or> sz = 0 then [] else take sz items # chunk (drop sz items) sz)"
  by pat_completeness auto
termination by (relation "measure (\<lambda>(items, sz). length items)") auto

declare chunk.simps [simp del]

text \<open>
  One call per group; a group whose call fails contributes nothing. The map's later entries win,
  as \<open>Map.set\<close> overwrites.
\<close>

definition group_statuses ::
  "(signature list \<Rightarrow> sig_status option list option) \<Rightarrow> signature list \<Rightarrow> (signature \<times> sig_status option) list" where
  "group_statuses rpc sigs =
     (case rpc sigs of
        None \<Rightarrow> []
      | Some vals \<Rightarrow> map (\<lambda>(s, n). (s, if n < length vals then vals ! n else None)) (zip sigs [0..<length sigs]))"

definition fetchSignatureStatuses ::
  "(signature list \<Rightarrow> sig_status option list option) \<Rightarrow> signature list \<Rightarrow> signature \<Rightarrow> sig_status option" where
  "fetchSignatureStatuses rpc sigs s =
     (case map_of (rev (concat (map (group_statuses rpc) (chunk sigs STATUS_BATCH_SIZE)))) s of
        Some v \<Rightarrow> v | None \<Rightarrow> None)"

section \<open>One sweep\<close>

datatype track_result = T_CONFIRMED | T_EXPIRED | T_ERROR "string option" | T_ABORTED

record track_entry =
  te_lastValidBlockHeight :: nat
  te_resolve :: nat
  te_cleanup :: bool

definition evaluate_entry :: "nat \<Rightarrow> sig_status option \<Rightarrow> track_entry \<Rightarrow> track_result option" where
  "evaluate_entry currentHeight status entry =
     (let (confirmed, err) = classifySignatureStatus status
      in if truthy_string err then Some (T_ERROR err)
         else if confirmed then Some T_CONFIRMED
         else if currentHeight > te_lastValidBlockHeight entry then Some T_EXPIRED
         else None)"

definition evaluateEntries ::
  "(signature \<times> track_entry) list \<Rightarrow> nat \<Rightarrow> (signature \<Rightarrow> sig_status option) \<Rightarrow> (signature \<times> track_result) list" where
  "evaluateEntries entries currentHeight statuses =
     List.map_filter (\<lambda>(s, entry). map_option (Pair s) (evaluate_entry currentHeight (statuses s) entry)) entries"

section \<open>The tracker's state\<close>

text \<open>
  \<open>k_listening\<close>: the abort listeners that are attached, each for the waiter that added it
  and the signature it would settle.
\<close>

record tracker =
  k_entries :: "(signature \<times> track_entry) list"
  k_timer :: bool
  k_listening :: "(nat \<times> signature) list"
  k_resolved :: "(nat \<times> track_result) list"

definition init_tracker :: tracker where
  "init_tracker = \<lparr>k_entries = [], k_timer = False, k_listening = [], k_resolved = []\<rparr>"

definition settle :: "signature \<Rightarrow> track_result \<Rightarrow> tracker \<Rightarrow> tracker" where
  "settle s result k =
     (case map_of (k_entries k) s of
        None \<Rightarrow> k
      | Some entry \<Rightarrow>
          (let rest = filter (\<lambda>e. fst e \<noteq> s) (k_entries k)
           in k\<lparr>k_entries := rest,
                k_timer := (if rest = [] then False else k_timer k),
                k_listening := (if te_cleanup entry
                  then filter (\<lambda>l. fst l \<noteq> te_resolve entry) (k_listening k) else k_listening k),
                k_resolved := k_resolved k @ [(te_resolve entry, result)]\<rparr>))"

text \<open>\<open>height\<close> is None when the block height cannot be read.\<close>

definition sweep :: "nat option \<Rightarrow> (signature \<Rightarrow> sig_status option) \<Rightarrow> tracker \<Rightarrow> tracker" where
  "sweep height statuses k =
     (if k_entries k = [] then k\<lparr>k_timer := False\<rparr>
      else (case height of
          None \<Rightarrow> k
        | Some h \<Rightarrow> fold (\<lambda>(s, result). settle s result) (evaluateEntries (k_entries k) h statuses) k))"

text \<open>\<open>Map.set\<close>: a key that is present keeps its place.\<close>

fun map_set :: "'k \<Rightarrow> 'v \<Rightarrow> ('k \<times> 'v) list \<Rightarrow> ('k \<times> 'v) list" where
  "map_set a v [] = [(a, v)]"
| "map_set a v ((b, w) # m) = (if a = b then (a, v) # m else (b, w) # map_set a v m)"

text \<open>\<open>sig\<close>: no abort signal, or one that is (True) or is not yet (False) aborted.\<close>

definition trackSignature :: "nat \<Rightarrow> signature \<Rightarrow> nat \<Rightarrow> bool option \<Rightarrow> tracker \<Rightarrow> tracker" where
  "trackSignature waiter s lastValidBlockHeight sg k =
     (if sg = Some True then k\<lparr>k_resolved := k_resolved k @ [(waiter, T_ABORTED)]\<rparr>
      else k\<lparr>k_entries := map_set s \<lparr>te_lastValidBlockHeight = lastValidBlockHeight, te_resolve = waiter,
                te_cleanup = (sg \<noteq> None)\<rparr> (k_entries k),
             k_listening := (if sg = None then k_listening k else k_listening k @ [(waiter, s)]),
             k_timer := True\<rparr>)"

text \<open>A waiter's signal fires: its listener, if still attached, settles its signature.\<close>

definition abort_waiter :: "nat \<Rightarrow> signature \<Rightarrow> tracker \<Rightarrow> tracker" where
  "abort_waiter waiter s k =
     (if (waiter, s) \<in> set (k_listening k)
      then settle s T_ABORTED (k\<lparr>k_listening := filter (\<lambda>l. l \<noteq> (waiter, s)) (k_listening k)\<rparr>)
      else k)"

datatype track_event =
    Track nat signature nat "bool option"
  | Abort nat signature
  | Sweep "nat option" "signature \<Rightarrow> sig_status option"

fun track_step :: "track_event \<Rightarrow> tracker \<Rightarrow> tracker" where
  "track_step (Track w s h sg) k = trackSignature w s h sg k"
| "track_step (Abort w s) k = abort_waiter w s k"
| "track_step (Sweep h st) k = sweep h st k"

definition track_run :: "track_event list \<Rightarrow> tracker \<Rightarrow> tracker" where
  "track_run es k = fold track_step es k"

section \<open>Reading statuses in groups\<close>

lemma concat_chunk: "0 < sz \<Longrightarrow> concat (chunk items sz) = items"
  by (induction items sz rule: chunk.induct) (subst chunk.simps, simp)

lemma chunk_sizes:
  "g \<in> set (chunk items sz) \<Longrightarrow> length g \<le> sz \<and> set g \<subseteq> set items"
proof (induction items sz rule: chunk.induct)
  case (1 items sz)
  show ?case
  proof (cases "items = [] \<or> sz = 0")
    case True
    with 1 show ?thesis by (simp add: chunk.simps [of items sz])
  next
    case False
    with 1 show ?thesis
      by (auto simp: chunk.simps [of items sz] dest: in_set_takeD in_set_dropD)
  qed
qed

text \<open>A signature is never read as anything but what some call answered for it.\<close>

lemma fetched_status_answered:
  assumes "fetchSignatureStatuses rpc sigs s = Some st"
  shows "\<exists>g vals n. length g \<le> 256 \<and> rpc g = Some vals \<and> n < length g \<and> g ! n = s \<and>
    n < length vals \<and> vals ! n = Some st"
proof -
  have "(s, Some st) \<in> set (concat (map (group_statuses rpc) (chunk sigs STATUS_BATCH_SIZE)))"
    using assms map_of_SomeD [of _ s] by (fastforce simp: fetchSignatureStatuses_def split: option.splits)
  then obtain g where g: "g \<in> set (chunk sigs STATUS_BATCH_SIZE)" "(s, Some st) \<in> set (group_statuses rpc g)"
    by auto
  then obtain vals where v: "rpc g = Some vals"
    by (cases "rpc g") (auto simp: group_statuses_def)
  obtain n where "n < length g" "g ! n = s" "(if n < length vals then vals ! n else None) = Some st"
    using g(2) v by (auto simp: group_statuses_def set_zip)
  then have "n < length g" "g ! n = s" "n < length vals" "vals ! n = Some st"
    by (auto split: if_splits)
  with v g chunk_sizes [OF g(1)] show ?thesis by (auto simp: STATUS_BATCH_SIZE_def)
qed

section \<open>What a sweep settles\<close>

lemma evaluate_entry_iff:
  "evaluate_entry h st e = None \<longleftrightarrow>
     \<not> truthy_string (snd (classifySignatureStatus st)) \<and> \<not> fst (classifySignatureStatus st) \<and>
     h \<le> te_lastValidBlockHeight e"
  by (auto simp: evaluate_entry_def split: prod.splits)

lemma settle_absent: "map_of (k_entries k) s = None \<Longrightarrow> settle s r k = k"
  by (simp add: settle_def)

lemma filter_absent: "s \<notin> fst ` set es \<Longrightarrow> filter (\<lambda>e. fst e \<noteq> s) es = es"
  by (auto simp: filter_id_conv image_iff)

lemma settle_entries: "k_entries (settle s r k) = filter (\<lambda>e. fst e \<noteq> s) (k_entries k)"
  by (auto simp: settle_def Let_def filter_absent map_of_eq_None_iff split: option.splits)

lemma settle_timer:
  "k_timer k = (k_entries k \<noteq> []) \<Longrightarrow> k_timer (settle s r k) = (k_entries (settle s r k) \<noteq> [])"
  by (auto simp: settle_def Let_def split: option.splits)

lemma fold_settle_entries:
  "k_entries (fold (\<lambda>(s, r). settle s r) rs k) = filter (\<lambda>e. fst e \<notin> fst ` set rs) (k_entries k)"
proof (induction rs arbitrary: k)
  case (Cons x rs)
  obtain s r where x: "x = (s, r)" by (cases x)
  have "filter (\<lambda>e. fst e \<notin> fst ` set rs) (filter (\<lambda>e. fst e \<noteq> s) (k_entries k)) =
      filter (\<lambda>e. fst e \<notin> fst ` set (x # rs)) (k_entries k)"
    unfolding filter_filter by (rule filter_cong) (auto simp: x)
  with Cons.IH [of "settle s r k"] show ?case by (simp add: x settle_entries)
qed simp

definition waiters :: "tracker \<Rightarrow> nat multiset" where
  "waiters k = mset (map (te_resolve \<circ> snd) (k_entries k)) + mset (map fst (k_resolved k))"

definition tracker_wf :: "tracker \<Rightarrow> bool" where
  "tracker_wf k \<longleftrightarrow> distinct (map fst (k_entries k)) \<and> k_timer k = (k_entries k \<noteq> [])"

lemma mset_remove_key:
  "distinct (map fst es) \<Longrightarrow> map_of es s = Some e \<Longrightarrow>
     mset (map (f \<circ> snd) es) = add_mset (f e) (mset (map (f \<circ> snd) (filter (\<lambda>x. fst x \<noteq> s) es)))"
proof (induction es)
  case (Cons x es)
  show ?case
  proof (cases "fst x = s")
    case True
    then have "filter (\<lambda>y. fst y \<noteq> s) es = es" using Cons.prems(1) by (intro filter_absent) auto
    with True Cons.prems(2) show ?thesis by (cases x) (simp del: mset_map mset_filter)
  next
    case False
    with Cons show ?thesis by (cases x) (simp del: mset_map mset_filter)
  qed
qed simp

lemma settle_waiters: "distinct (map fst (k_entries k)) \<Longrightarrow> waiters (settle s r k) = waiters k"
  by (cases "map_of (k_entries k) s")
    (simp_all add: settle_def Let_def waiters_def mset_remove_key [where f = te_resolve] del: mset_map mset_filter)

lemma settle_wf: "tracker_wf k \<Longrightarrow> tracker_wf (settle s r k)"
  by (auto simp: tracker_wf_def settle_timer settle_entries distinct_map_filter)

lemma fold_settle_wf:
  "tracker_wf k \<Longrightarrow> tracker_wf (fold (\<lambda>(s, r). settle s r) rs k) \<and>
     waiters (fold (\<lambda>(s, r). settle s r) rs k) = waiters k"
proof (induction rs arbitrary: k)
  case (Cons x rs)
  obtain s r where x: "x = (s, r)" by (cases x)
  have "waiters (settle s r k) = waiters k"
    using Cons.prems by (simp add: settle_waiters tracker_wf_def)
  with Cons.IH [OF settle_wf [OF Cons.prems, of s r]] show ?case by (simp add: x)
qed simp

lemma map_filter_entries:
  "set (evaluateEntries es h st) =
     {(s, r). \<exists>e. (s, e) \<in> set es \<and> evaluate_entry h (st s) e = Some r}"
  by (force simp: evaluateEntries_def map_filter_def)

text \<open>
  A sweep settles exactly what is decided, status before expiry: a signature whose status
  shows it confirmed is never declared dead, one is declared dead only past its last valid block
  height, an unseen one inside its window stays, and when the height cannot be read nothing is
  decided at all.
\<close>

theorem sweep_decides:
  assumes "distinct (map fst (k_entries k))"
  shows "k_entries (sweep None statuses k) = k_entries k \<and>
    set (k_entries (sweep (Some h) statuses k)) =
      {(s, e) \<in> set (k_entries k). \<not> fst (classifySignatureStatus (statuses s)) \<and>
        \<not> truthy_string (snd (classifySignatureStatus (statuses s))) \<and> h \<le> te_lastValidBlockHeight e} \<and>
    (\<forall>(s, r) \<in> set (evaluateEntries (k_entries k) h statuses).
       (r = T_EXPIRED \<longrightarrow> \<not> fst (classifySignatureStatus (statuses s)) \<and>
          (\<exists>e. (s, e) \<in> set (k_entries k) \<and> te_lastValidBlockHeight e < h)) \<and>
       (r = T_CONFIRMED \<longrightarrow> fst (classifySignatureStatus (statuses s))) \<and> r \<noteq> T_ABORTED)"
proof -
  let ?ev = "evaluateEntries (k_entries k) h statuses"
  have "fst x \<notin> fst ` set ?ev \<longleftrightarrow> evaluate_entry h (statuses (fst x)) (snd x) = None"
    if x: "x \<in> set (k_entries k)" for x
  proof -
    obtain s e where se: "x = (s, e)" by (cases x)
    have "e' = e" if "(s, e') \<in> set (k_entries k)" for e'
      using keyed_unique [OF assms that x] se by simp
    moreover have "s \<in> fst ` set ?ev \<longleftrightarrow> (\<exists>r e'. (s, e') \<in> set (k_entries k) \<and> evaluate_entry h (statuses s) e' = Some r)"
      unfolding map_filter_entries by force
    ultimately have "s \<in> fst ` set ?ev \<longleftrightarrow> evaluate_entry h (statuses s) e \<noteq> None"
      using x se by blast
    then show ?thesis by (simp add: se)
  qed
  moreover have "set (k_entries (sweep (Some h) statuses k)) = {x \<in> set (k_entries k). fst x \<notin> fst ` set ?ev}"
    by (cases "k_entries k = []") (simp_all add: sweep_def fold_settle_entries del: set_map)
  ultimately have "set (k_entries (sweep (Some h) statuses k)) =
      {x \<in> set (k_entries k). evaluate_entry h (statuses (fst x)) (snd x) = None}"
    by blast
  moreover have "(r = T_EXPIRED \<longrightarrow> \<not> fst (classifySignatureStatus (statuses s)) \<and>
          (\<exists>e. (s, e) \<in> set (k_entries k) \<and> te_lastValidBlockHeight e < h)) \<and>
       (r = T_CONFIRMED \<longrightarrow> fst (classifySignatureStatus (statuses s))) \<and> r \<noteq> T_ABORTED"
    if ev: "(s, r) \<in> set ?ev" for s r
  proof -
    obtain e where e: "(s, e) \<in> set (k_entries k)" "evaluate_entry h (statuses s) e = Some r"
      using ev unfolding map_filter_entries by blast
    obtain c err where c: "classifySignatureStatus (statuses s) = (c, err)"
      by (cases "classifySignatureStatus (statuses s)")
    with e(2) have "r = (if truthy_string err then T_ERROR err else if c then T_CONFIRMED else T_EXPIRED)"
      "truthy_string err \<or> c \<or> te_lastValidBlockHeight e < h"
      by (simp_all add: evaluate_entry_def split: if_splits)
    with c e(1) show ?thesis by (auto split: if_splits)
  qed
  moreover have "k_entries (sweep None statuses k) = k_entries k" by (simp add: sweep_def)
  moreover have "{x \<in> set (k_entries k). evaluate_entry h (statuses (fst x)) (snd x) = None} =
      {(s, e) \<in> set (k_entries k). \<not> fst (classifySignatureStatus (statuses s)) \<and>
        \<not> truthy_string (snd (classifySignatureStatus (statuses s))) \<and> h \<le> te_lastValidBlockHeight e}"
    unfolding evaluate_entry_iff by auto
  ultimately show ?thesis by blast
qed

definition example_status :: "signature \<Rightarrow> sig_status option" where
  "example_status s = (if s = ''a'' then Some \<lparr>ss_confirmation = Some CS_confirmed, ss_err = None\<rparr> else None)"

theorem sweep_decides_witness:
  "k_entries (sweep None example_status (track_run [Track 0 ''a'' 5 None, Track 1 ''b'' 90 None] init_tracker)) =
   k_entries (track_run [Track 0 ''a'' 5 None, Track 1 ''b'' 90 None] init_tracker)"
  using sweep_decides [of "track_run [Track 0 ''a'' 5 None, Track 1 ''b'' 90 None] init_tracker" example_status 50]
  by (simp add: track_run_def trackSignature_def init_tracker_def)

section \<open>No waiter is lost\<close>

lemma map_set_keys:
  "distinct (map fst m) \<Longrightarrow> distinct (map fst (map_set a v m)) \<and> set (map fst (map_set a v m)) = insert a (fst ` set m)"
  by (induction a v m rule: map_set.induct) auto

lemma map_set_nonempty [simp]: "map_set a v m \<noteq> []"
  by (induction a v m rule: map_set.induct) auto

lemma map_set_fresh: "a \<notin> fst ` set m \<Longrightarrow> map_set a v m = m @ [(a, v)]"
  by (induction a v m rule: map_set.induct) auto

lemma track_step_wf: "tracker_wf k \<Longrightarrow> tracker_wf (track_step e k)"
proof (cases e)
  case (Track w s h sg)
  assume "tracker_wf k"
  then show ?thesis
    using Track map_set_keys [of "k_entries k"] by (auto simp: tracker_wf_def trackSignature_def)
next
  case (Abort w s)
  assume "tracker_wf k"
  then have "tracker_wf (k\<lparr>k_listening := l\<rparr>)" for l by (simp add: tracker_wf_def)
  with Abort \<open>tracker_wf k\<close> show ?thesis by (simp add: abort_waiter_def settle_wf)
next
  case (Sweep h st)
  assume wf: "tracker_wf k"
  then have "tracker_wf (k\<lparr>k_timer := False\<rparr>)" if "k_entries k = []"
    using that by (simp add: tracker_wf_def)
  with Sweep wf show ?thesis by (simp add: sweep_def fold_settle_wf split: option.splits)
qed

fun tracked_waiter :: "track_event \<Rightarrow> nat list" where
  "tracked_waiter (Track w s h sg) = [w]"
| "tracked_waiter e = []"

fun tracked_signature :: "track_event \<Rightarrow> signature list" where
  "tracked_signature (Track w s h sg) = [s]"
| "tracked_signature e = []"

lemma track_step_entries:
  "tracker_wf k \<Longrightarrow> fst ` set (k_entries (track_step e k)) \<subseteq> set (tracked_signature e) \<union> fst ` set (k_entries k)"
proof (cases e)
  case (Track w s h sg)
  assume "tracker_wf k"
  with Track map_set_keys [of "k_entries k" s] show ?thesis
    by (auto simp: trackSignature_def tracker_wf_def)
next
  case (Abort w s)
  then show ?thesis by (auto simp: abort_waiter_def settle_entries)
next
  case (Sweep h st)
  then show ?thesis by (auto simp: sweep_def fold_settle_entries split: option.splits)
qed

lemma track_step_waiters:
  assumes "tracker_wf k" "set (tracked_signature e) \<inter> fst ` set (k_entries k) = {}"
  shows "waiters (track_step e k) = waiters k + mset (tracked_waiter e)"
proof (cases e)
  case (Track w s h sg)
  with assms(2) show ?thesis by (auto simp: trackSignature_def waiters_def map_set_fresh)
next
  case (Abort w s)
  let ?k = "k\<lparr>k_listening := filter (\<lambda>l. l \<noteq> (w, s)) (k_listening k)\<rparr>"
  have "waiters (settle s T_ABORTED ?k) = waiters ?k"
    using assms(1) by (intro settle_waiters) (simp add: tracker_wf_def)
  moreover have "waiters ?k = waiters k" by (simp add: waiters_def)
  ultimately show ?thesis using Abort by (simp add: abort_waiter_def)
next
  case (Sweep h st)
  have "waiters (k\<lparr>k_timer := False\<rparr>) = waiters k" by (simp add: waiters_def)
  with Sweep assms(1) show ?thesis by (simp add: sweep_def fold_settle_wf split: option.splits)
qed

lemma track_run_waiters:
  assumes "tracker_wf k" "distinct (concat (map tracked_signature es))"
    and "set (concat (map tracked_signature es)) \<inter> fst ` set (k_entries k) = {}"
  shows "tracker_wf (track_run es k) \<and>
    waiters (track_run es k) = waiters k + mset (concat (map tracked_waiter es))"
  using assms
proof (induction es arbitrary: k)
  case (Cons e es)
  let ?k1 = "track_step e k"
  have "set (concat (map tracked_signature es)) \<inter> fst ` set (k_entries ?k1) = {}"
  proof -
    have "set (concat (map tracked_signature es)) \<inter> (set (tracked_signature e) \<union> fst ` set (k_entries k)) = {}"
      using Cons.prems(2,3) by auto
    with track_step_entries [OF Cons.prems(1), of e] show ?thesis by blast
  qed
  then have "tracker_wf (track_run es ?k1) \<and>
      waiters (track_run es ?k1) = waiters ?k1 + mset (concat (map tracked_waiter es))"
    using Cons.prems by (intro Cons.IH track_step_wf) auto
  moreover have "waiters ?k1 = waiters k + mset (tracked_waiter e)"
    using Cons.prems by (intro track_step_waiters) auto
  ultimately show ?case by (simp add: track_run_def ac_simps)
qed (simp add: track_run_def)

text \<open>
  No wait is lost or answered twice: whatever is tracked, aborted and swept, as long as no
  signature is tracked a second time, each waiter is at any time either still in the map or
  resolved, exactly once; and the poll timer runs exactly while something is waited for.
\<close>

theorem tracker_conserves_waiters:
  assumes "distinct (concat (map tracked_signature es))"
  shows "mset (map (te_resolve \<circ> snd) (k_entries (track_run es init_tracker))) +
     mset (map fst (k_resolved (track_run es init_tracker))) = mset (concat (map tracked_waiter es)) \<and>
   k_timer (track_run es init_tracker) = (k_entries (track_run es init_tracker) \<noteq> [])"
proof -
  have "tracker_wf init_tracker" by (simp add: tracker_wf_def init_tracker_def)
  from track_run_waiters [OF this assms] show ?thesis
    by (simp add: waiters_def tracker_wf_def init_tracker_def)
qed

theorem tracker_conserves_waiters_witness:
  "mset (map fst (k_resolved (track_run [Track 0 ''a'' 5 (Some False), Track 1 ''b'' 90 None, Abort 0 ''a'',
      Sweep (Some 91) (\<lambda>_. None)] init_tracker))) = {#0, 1#}"
proof -
  have "k_entries (track_run [Track 0 ''a'' 5 (Some False), Track 1 ''b'' 90 None, Abort 0 ''a'',
      Sweep (Some 91) (\<lambda>_. None)] init_tracker) = []"
    by (simp add: track_run_def trackSignature_def init_tracker_def abort_waiter_def settle_def
        sweep_def evaluateEntries_def map_filter_simps evaluate_entry_def classifySignatureStatus_def)
  with tracker_conserves_waiters [of "[Track 0 ''a'' 5 (Some False), Track 1 ''b'' 90 None, Abort 0 ''a'',
      Sweep (Some 91) (\<lambda>_. None)]"]
  show ?thesis by simp
qed

lemma map_of_map_set: "map_of (map_set a v m) a = Some v"
  by (induction a v m rule: map_set.induct) auto

lemma set_map_set: "x \<in> set (map_set a v m) \<Longrightarrow> x = (a, v) \<or> x \<in> set m \<and> (distinct (map fst m) \<longrightarrow> fst x \<noteq> a)"
  by (induction a v m rule: map_set.induct) (auto split: if_splits)

text \<open>
  The limit of that: the map is keyed by signature alone, so tracking a signature that is
  being tracked forgets the first waiter, which is never resolved, not even by its own abort; and
  its abort, when it comes, aborts the second waiter instead.
\<close>

theorem second_track_forgets_first:
  fixes k :: tracker and s :: signature and w1 w2 h :: nat
  defines "k2 \<equiv> track_run [Track w1 s h (Some False), Track w2 s h (Some False)] k"
  assumes "tracker_wf k" "w1 \<notin># waiters k" "w1 \<noteq> w2"
  shows "w1 \<notin># waiters k2 \<and> (w2, T_ABORTED) \<in> set (k_resolved (track_step (Abort w1 s) k2))"
proof -
  let ?e = "\<lambda>w. \<lparr>te_lastValidBlockHeight = h, te_resolve = w, te_cleanup = True\<rparr>"
  have k2: "k_entries k2 = map_set s (?e w2) (map_set s (?e w1) (k_entries k))"
    "k_resolved k2 = k_resolved k" "(w1, s) \<in> set (k_listening k2)"
    by (simp_all add: k2_def track_run_def trackSignature_def)
  have d: "distinct (map fst (map_set s (?e w1) (k_entries k)))"
    using assms(2) map_set_keys [of "k_entries k"] unfolding tracker_wf_def by blast
  have "te_resolve e \<noteq> w1" if m: "(s', e) \<in> set (k_entries k2)" for s' e
  proof -
    from m have "(s', e) = (s, ?e w2) \<or> ((s', e) \<in> set (map_set s (?e w1) (k_entries k)) \<and> s' \<noteq> s)"
      using set_map_set [of "(s', e)"] d by (fastforce simp: k2)
    then show ?thesis
    proof
      assume "(s', e) \<in> set (map_set s (?e w1) (k_entries k)) \<and> s' \<noteq> s"
      then have "(s', e) \<in> set (k_entries k)" using set_map_set [of "(s', e)" s "?e w1"] by auto
      with assms(3) show ?thesis by (force simp: waiters_def)
    qed (use assms(4) in auto)
  qed
  then have "w1 \<notin> (te_resolve \<circ> snd) ` set (k_entries k2)" by fastforce
  then have "w1 \<notin># waiters k2" using assms(3) by (simp add: waiters_def k2(2))
  moreover have "map_of (k_entries k2) s = Some (?e w2)" by (simp add: k2(1) map_of_map_set)
  ultimately show ?thesis
    using k2(3) by (simp add: abort_waiter_def settle_def Let_def)
qed

theorem second_track_forgets_first_witness:
  "(1, T_ABORTED) \<in> set (k_resolved (track_step (Abort 0 ''s'')
     (track_run [Track 0 ''s'' 5 (Some False), Track 1 ''s'' 5 (Some False)] init_tracker)))"
  using second_track_forgets_first [of init_tracker 0 1 "''s''" 5]
  by (simp add: init_tracker_def tracker_wf_def waiters_def)

end
