(* ===== verification/Transactions.thy ===== *)
theory Transactions
  imports Tracker
begin

text \<open>
  Sending and recovering transactions (\<open>src/tasks/execution/transactions/\<close>). The chain is
  a parameter: what its RPC answers to a height, a status, a simulation and a send, and what the
  tracker resolves a signature to (a \<open>track_result\<close>, see \<open>Tracker\<close>).
\<close>

section \<open>Send errors\<close>

text \<open>An error of the chain's library: its code if it has one, its text and its cause.\<close>

datatype send_error = Send_Error (se_code: "int option") (se_message: string) (se_cause: "send_error option")

definition TRANSIENT_ERROR_CODES :: "int list" where
  "TRANSIENT_ERROR_CODES = [7050008, -32005]"

definition TRANSIENT_SIGNALS :: "string list" where
  "TRANSIENT_SIGNALS = [''blockhash not found'', ''node is behind'', ''node is unhealthy'',
     ''too many requests'', ''rate limit'', ''timed out'', ''timeout'', ''econnreset'',
     ''econnrefused'', ''etimedout'', ''socket hang up'', ''fetch failed'']"

text \<open>At most \<open>depth\<close> links of the cause chain (the code walks six).\<close>

fun collectErrorCodes :: "nat \<Rightarrow> send_error option \<Rightarrow> int list" where
  "collectErrorCodes 0 current = []"
| "collectErrorCodes (Suc depth) None = []"
| "collectErrorCodes (Suc depth) (Some (Send_Error code msg cause)) =
     (case code of Some c \<Rightarrow> [c] | None \<Rightarrow> []) @ collectErrorCodes depth cause"

definition lower_char :: "char \<Rightarrow> char" where
  "lower_char c = (let n = of_char c :: nat in if 65 \<le> n \<and> n \<le> 90 then char_of (n + 32) else c)"

definition isTransientSendError :: "send_error \<Rightarrow> bool" where
  "isTransientSendError error \<longleftrightarrow>
     list_ex (\<lambda>c. c \<in> set TRANSIENT_ERROR_CODES) (collectErrorCodes 6 (Some error)) \<or>
     list_ex (\<lambda>sg. str_includes (map lower_char (se_message error)) sg) TRANSIENT_SIGNALS"

section \<open>Sending\<close>

datatype unit_outcome =
    U_CONFIRMED signature "nat option"
  | U_EXPIRED "signature option"
  | U_ERROR "signature option" string
  | U_ABORTED "signature option"
  | U_RETRY "rat option"

datatype sim_error = Sim_AlreadyProcessed | Sim_BlockhashNotFound | Sim_Other string

record sim_response =
  sm_err :: "sim_error option"
  sm_logs :: "string list"

record rpc =
  rpc_height :: "nat option"
  rpc_statuses :: "signature list \<Rightarrow> sig_status option list option"
  rpc_simulate :: "string \<Rightarrow> sim_response option"
  rpc_send :: "string \<Rightarrow> send_error + signature"
  rpc_track :: "signature \<Rightarrow> nat \<Rightarrow> track_result"

text \<open>\<open>record.signature || undefined\<close>.\<close>

definition or_undefined :: "string \<Rightarrow> string option" where
  "or_undefined s = (if s = [] then None else Some s)"

fun join :: "string \<Rightarrow> string list \<Rightarrow> string" where
  "join sep [] = []"
| "join sep [x] = x"
| "join sep (x # xs) = x @ sep @ join sep xs"

definition SIMULATION_LOG_LINES :: nat where "SIMULATION_LOG_LINES = 3"

text \<open>
  None sends; \<open>Inl ()\<close> is EXPIRED and \<open>Inr e\<close> an ERROR. The response is None when the
  simulation could not run.
\<close>

definition simulateUnit :: "sim_response option \<Rightarrow> (unit + string) option" where
  "simulateUnit response =
     (case response of
        None \<Rightarrow> None
      | Some r \<Rightarrow> (case sm_err r of
          None \<Rightarrow> None
        | Some Sim_AlreadyProcessed \<Rightarrow> None
        | Some Sim_BlockhashNotFound \<Rightarrow> Some (Inl ())
        | Some (Sim_Other reason) \<Rightarrow>
            (let logs = drop (length (sm_logs r) - SIMULATION_LOG_LINES) (sm_logs r)
             in Some (Inr (''Transaction simulation failed: '' @ reason @
                  (if logs = [] then [] else '' ('' @ join '' | '' logs @ '')''))))))"

definition sendUnit :: "rpc \<Rightarrow> tx_record \<Rightarrow> bool \<Rightarrow> unit_outcome" where
  "sendUnit net r aborted =
     (if aborted then U_ABORTED (or_undefined (x_signature r))
      else if \<not> truthy_string (x_blob r) then U_EXPIRED (or_undefined (x_signature r))
      else (let blob = the (x_blob r)
            in case simulateUnit (rpc_simulate net blob) of
                 Some (Inl _) \<Rightarrow> U_EXPIRED (or_undefined (x_signature r))
               | Some (Inr error) \<Rightarrow> U_ERROR (or_undefined (x_signature r)) error
               | None \<Rightarrow>
                   (case rpc_send net blob of
                      Inl error \<Rightarrow>
                        if isTransientSendError error then U_EXPIRED (or_undefined (x_signature r))
                        else U_ERROR (or_undefined (x_signature r)) (se_message error)
                    | Inr s \<Rightarrow>
                        (case rpc_track net s (x_lastValidBlockHeight r) of
                           T_CONFIRMED \<Rightarrow> U_CONFIRMED s None
                         | T_EXPIRED \<Rightarrow> U_EXPIRED (Some s)
                         | T_ABORTED \<Rightarrow> U_ABORTED (Some s)
                         | T_ERROR e \<Rightarrow> U_ERROR (Some s) (nullish e ''transaction failed'')))))"

section \<open>Recovering\<close>

datatype recovery_action = Outcome unit_outcome | Resend

definition recover_record :: "nat \<Rightarrow> (signature \<Rightarrow> sig_status option) \<Rightarrow> tx_record \<Rightarrow> recovery_action" where
  "recover_record currentHeight statuses r =
     (let (confirmed, err) =
        (if x_signature r = [] then (False, None) else classifySignatureStatus (statuses (x_signature r)))
      in if confirmed then Outcome (U_CONFIRMED (x_signature r) None)
         else if truthy_string err then Outcome (U_ERROR (Some (x_signature r)) (the err))
         else if \<not> truthy_string (x_blob r) \<or> currentHeight > x_lastValidBlockHeight r
           then Outcome (U_EXPIRED (or_undefined (x_signature r)))
         else Resend)"

text \<open>
  One action per unit, the last record of a unit deciding; None when the block height cannot be
  read, which the caller sees as a throw.
\<close>

definition recoverUnits :: "rpc \<Rightarrow> tx_record list \<Rightarrow> (nat \<Rightarrow> recovery_action option) option" where
  "recoverUnits net records =
     (if records = [] then Some Map.empty
      else (case rpc_height net of
          None \<Rightarrow> None
        | Some h \<Rightarrow>
            (let statuses = fetchSignatureStatuses (rpc_statuses net)
                   (filter (\<lambda>s. s \<noteq> []) (map x_signature records))
             in Some (map_of (rev (map (\<lambda>r. (x_unit r, recover_record h statuses r)) records))))))"

section \<open>What recovery guarantees\<close>

text \<open>
  Recovering a record never guesses: a transaction seen confirmed is reported confirmed and
  never sent again; one is sent again only when its status is not yet seen, its bytes are at hand
  and its blockhash window is open; and one whose bytes are at hand is given up for rebuilding only
  past its last valid block height.
\<close>

theorem recovery_never_guesses:
  assumes "x_signature r \<noteq> []"
  shows "(fst (classifySignatureStatus (st (x_signature r))) \<longrightarrow>
           recover_record h st r = Outcome (U_CONFIRMED (x_signature r) None)) \<and>
    (recover_record h st r = Resend \<longleftrightarrow> \<not> fst (classifySignatureStatus (st (x_signature r))) \<and>
       \<not> truthy_string (snd (classifySignatureStatus (st (x_signature r)))) \<and>
       truthy_string (x_blob r) \<and> h \<le> x_lastValidBlockHeight r) \<and>
    (truthy_string (x_blob r) \<longrightarrow> (\<exists>s. recover_record h st r = Outcome (U_EXPIRED s)) \<longrightarrow>
       x_lastValidBlockHeight r < h)"
proof -
  obtain c err where "classifySignatureStatus (st (x_signature r)) = (c, err)"
    by (cases "classifySignatureStatus (st (x_signature r))")
  with assms show ?thesis by (auto simp: recover_record_def)
qed

definition example_record :: tx_record where
  "example_record = \<lparr>x_unit = 0, x_signature = ''s'', x_lastValidBlockHeight = 100, x_status = SIGNED,
     x_blob = Some ''blob'', x_jobs = Some [''J''], x_runs = Some [''R''], x_nodes = None,
     x_markets = None, x_job = None, x_run = None\<rparr>"

theorem recovery_never_guesses_witness:
  "recover_record 50 (\<lambda>_. None) example_record = Resend"
  using recovery_never_guesses [of example_record "\<lambda>_. None" 50]
  by (simp add: example_record_def classifySignatureStatus_def)

text \<open>
  A send that fails for a passing reason is reported expired, whatever the chain made of it
  and with its blockhash window open: a reply lost to a time-out reads as a transaction that never
  landed. Once its record is marked, recovery rebuilds the unit for as long as the status stays
  unseen, although the first transaction can still land.
\<close>

theorem lost_send_is_rebuilt_in_window:
  assumes "truthy_string (x_blob r)" "x_signature r \<noteq> []"
    and "simulateUnit (rpc_simulate net (the (x_blob r))) = None"
    and "rpc_send net (the (x_blob r)) = Inl error" "isTransientSendError error"
    and "h \<le> x_lastValidBlockHeight r" "st (x_signature r) = None"
  shows "sendUnit net r False = U_EXPIRED (Some (x_signature r)) \<and>
     recover_record h st (r\<lparr>x_status := SENT, x_blob := None\<rparr>) = Outcome (U_EXPIRED (Some (x_signature r)))"
  using assms by (simp add: sendUnit_def recover_record_def classifySignatureStatus_def or_undefined_def)

definition example_rpc :: rpc where
  "example_rpc = \<lparr>rpc_height = Some 50, rpc_statuses = (\<lambda>sigs. Some (map (\<lambda>_. None) sigs)),
     rpc_simulate = (\<lambda>_. None), rpc_send = (\<lambda>_. Inl (Send_Error None ''TypeError fetch failed'' None)),
     rpc_track = (\<lambda>_ _. T_EXPIRED)\<rparr>"

theorem lost_send_is_rebuilt_in_window_witness:
  "sendUnit example_rpc example_record False = U_EXPIRED (Some ''s'')"
proof -
  have "isTransientSendError (Send_Error None ''TypeError fetch failed'' None)"
    by (simp add: isTransientSendError_def TRANSIENT_SIGNALS_def lower_char_def)
  then show ?thesis
    using lost_send_is_rebuilt_in_window [of example_record example_rpc _ 50 "\<lambda>_. None"]
    by (simp add: example_record_def example_rpc_def simulateUnit_def)
qed

end
