(* ===== verification/Retry.thy ===== *)
theory Retry
  imports Transitions Schedule
begin

text \<open>
  When and how a failed task is retried: the cooldown ladders
  (\<open>src/tasks/utils/cooldown.ts\<close>, \<open>getNextExtendTime.ts\<close>,
  \<open>getTimeNthMinutesBeforeTimeout.ts\<close>), what an error says about the retry and the
  deployment state it leaves (\<open>src/tasks/task/retry/index.ts\<close>), and the teardown of a
  banned owner (\<open>src/tasks/task/retry/archiveBannedOwner.ts\<close>). Milliseconds are exact
  rationals here; the clock reading is an argument.
\<close>

section \<open>Cooldowns\<close>

definition computeCooldown :: "int \<Rightarrow> cooldown_ladder \<Rightarrow> rat" where
  "computeCooldown n ladder =
     (let exponent = max 0 n;
          raw = baseMs ladder * multiplier ladder ^ nat exponent
      in min raw (maxMs ladder))"

definition retryCooldownMs :: "worker_config \<Rightarrow> int \<Rightarrow> bool \<Rightarrow> rat" where
  "retryCooldownMs config retries insufficientFunds =
     computeCooldown retries
       (if insufficientFunds then insufficient_funds_ladder config else retry_ladder config)"

definition rapidCompletionCooldownMs :: "worker_config \<Rightarrow> int \<Rightarrow> rat" where
  "rapidCompletionCooldownMs config streak = computeCooldown streak (rapid_completion_ladder config)"

definition getNextExtendTime :: "int \<Rightarrow> bool \<Rightarrow> ms \<Rightarrow> ms" where
  "getNextExtendTime timeout includeBuffer now =
     (let secs = of_int (timeout * 60) :: rat;
          buffer = min (max (secs * (1 / 10)) 60) 300;
          extendAt = (if includeBuffer then secs - buffer else secs)
      in to_date (of_int now + extendAt * 1000))"

definition getTimeNthMinutesBeforeTimeout :: "int \<Rightarrow> int \<Rightarrow> ms \<Rightarrow> ms" where
  "getTimeNthMinutesBeforeTimeout timeout minutes now = now + (timeout - minutes) * 60 * 1000"

section \<open>What an error says\<close>

record retry_signal =
  g_insufficientFunds :: bool
  g_negativeBalance :: bool

definition FUNDS_ERROR_MARKERS :: "string list" where
  "FUNDS_ERROR_MARKERS = [''InsufficientFundsForRent'', ''InsufficientFundsForFee'',
     ''AccountNotFound'', ''Error: insufficient funds'', ''Insufficient credits'',
     ''Insufficient funds'']"

text \<open>
  The pattern \<open>/Available:\s*(-?)\$(-?)(\d+(?:\.\d+)?)/\<close>: the leftmost position at
  which it matches, each repetition taken as long as possible.
\<close>

definition is_space :: "char \<Rightarrow> bool" where
  "is_space c \<longleftrightarrow> of_char c \<in> set [9, 10, 11, 12, 13, 32, 160 :: nat]"

definition is_digit :: "char \<Rightarrow> bool" where
  "is_digit c \<longleftrightarrow> c \<in> set ''0123456789''"

definition optional_minus :: "string \<Rightarrow> bool \<times> string" where
  "optional_minus s = (case s of c # r \<Rightarrow> if c = CHR ''-'' then (True, r) else (False, s) | [] \<Rightarrow> (False, s))"

text \<open>The digits and, after a point, the decimals of the number at the front of a string.\<close>

definition scan_number :: "string \<Rightarrow> (string \<times> string) option" where
  "scan_number s =
     (let whole = takeWhile is_digit s; rest = dropWhile is_digit s
      in if whole = [] then None
         else (case rest of
             c # r \<Rightarrow> if c = CHR ''.'' \<and> takeWhile is_digit r \<noteq> [] then Some (whole, takeWhile is_digit r)
               else Some (whole, [])
           | [] \<Rightarrow> Some (whole, [])))"

definition match_balance_at :: "string \<Rightarrow> (bool \<times> bool \<times> string \<times> string) option" where
  "match_balance_at s =
     (if \<not> starts_with s ''Available:'' then None
      else (let (m1, r1) = optional_minus (dropWhile is_space (drop (length ''Available:'') s))
            in case r1 of
                 c # r2 \<Rightarrow>
                   if c \<noteq> CHR ''$'' then None
                   else (let (m2, r3) = optional_minus r2
                         in map_option (\<lambda>(w, d). (m1, m2, w, d)) (scan_number r3))
               | [] \<Rightarrow> None))"

fun match_balance :: "string \<Rightarrow> (bool \<times> bool \<times> string \<times> string) option" where
  "match_balance [] = match_balance_at []"
| "match_balance (c # s) = or_else (match_balance_at (c # s)) (match_balance s)"

text \<open>
  \<open>Number(m[3])\<close>: exact, but for the ends of the double range: too large a value is
  infinite (and so not finite), too small a one is zero.
\<close>

definition number_of_decimal :: "string \<Rightarrow> string \<Rightarrow> rat option" where
  "number_of_decimal whole decimals =
     (let v = of_nat (undigits (whole @ decimals)) / 10 ^ length decimals
      in if v \<ge> 2 ^ 1024 - 2 ^ 970 then None
         else if v * 2 ^ 1075 \<le> 1 then Some 0 else Some v)"

definition parseAvailableBalance :: "string \<Rightarrow> rat option" where
  "parseAvailableBalance error =
     (case match_balance error of
        None \<Rightarrow> None
      | Some (m1, m2, whole, decimals) \<Rightarrow>
          map_option (\<lambda>v. if m1 \<or> m2 then - v else v) (number_of_decimal whole decimals))"

definition classifyTaskError :: "string \<Rightarrow> retry_signal" where
  "classifyTaskError error =
     (let insufficientFunds = list_ex (\<lambda>marker. str_includes error marker) FUNDS_ERROR_MARKERS;
          available = parseAvailableBalance error
      in \<lparr>g_insufficientFunds = insufficientFunds,
          g_negativeBalance = (insufficientFunds \<and> available \<noteq> None \<and> nullish available 0 < 0)\<rparr>)"

definition shouldRetry :: "bool \<Rightarrow> bool \<Rightarrow> retry_signal option \<Rightarrow> bool" where
  "shouldRetry aborted retry sig \<longleftrightarrow> \<not> aborted \<and> (retry \<or> sig \<noteq> None)"

definition retryDelayMs ::
  "worker_config \<Rightarrow> task_document \<Rightarrow> rat option \<Rightarrow> retry_signal option \<Rightarrow> rat" where
  "retryDelayMs config task retryAfterMs sig =
     (case sig of
        Some g \<Rightarrow>
          (let escalating = retryCooldownMs config (int (nullish (t_inflight_retries task) 0))
             (g_insufficientFunds g)
           in max (nullish retryAfterMs 0) escalating)
      | None \<Rightarrow> nullish retryAfterMs INFLIGHT_RETRY_DEFAULT_MS)"

section \<open>The deployment's retry state\<close>

definition applyRetryState :: "string \<Rightarrow> retry_signal option \<Rightarrow> rat \<Rightarrow> ms \<Rightarrow> db \<Rightarrow> db" where
  "applyRetryState deploymentId sig delayMs now s =
     (let next_retry_at = to_date (of_int now + delayMs);
          s1 = (if (case sig of Some g \<Rightarrow> g_insufficientFunds g | None \<Rightarrow> False)
             then on_deployment (\<lambda>d. d_id d = deploymentId \<and> d_status d = RUNNING)
               (\<lambda>d. d\<lparr>d_status := INSUFFICIENT_FUNDS\<rparr>) s
             else s)
      in on_deployment (\<lambda>d. d_id d = deploymentId) (\<lambda>d. d\<lparr>d_next_retry_at := Some next_retry_at\<rparr>) s1)"

definition clearRetryState :: "string \<Rightarrow> db \<Rightarrow> db" where
  "clearRetryState deploymentId s =
     on_deployment (\<lambda>d. d_id d = deploymentId) (\<lambda>d. d\<lparr>d_next_retry_at := None\<rparr>)
       (on_deployment (\<lambda>d. d_id d = deploymentId \<and> d_status d = INSUFFICIENT_FUNDS)
         (\<lambda>d. d\<lparr>d_status := RUNNING\<rparr>) s)"

section \<open>A banned owner\<close>

definition stop_options :: schedule_options where
  "stop_options = no_options\<lparr>o_reason := Some Reason_stop, o_idempotent := True\<rparr>"

definition churn_of :: "string list \<Rightarrow> task_document \<Rightarrow> bool" where
  "churn_of ids t \<longleftrightarrow> t_deploymentId t \<in> set ids \<and> t_task t \<noteq> STOP \<and> \<not> LIST_IN_FLIGHT t"

definition schedule_stops :: "(string \<times> deployment_status) list \<Rightarrow> ms \<Rightarrow> db \<Rightarrow> db" where
  "schedule_stops owned now s =
     fold (\<lambda>(i, status) s. snd (scheduleTask STOP i status now now stop_options s)) owned s"

definition archiveBannedOwner :: "address \<Rightarrow> ms \<Rightarrow> db \<Rightarrow> db" where
  "archiveBannedOwner owner now s =
     (let owned = map (\<lambda>d. (d_id d, d_status d))
            (filter (\<lambda>d. d_owner d = owner \<and> d_status d \<noteq> ARCHIVED) (db_deployments s));
          ids = map fst owned
      in if owned = [] then s
         else (let s1 = snd (tasks_delete None (churn_of ids) s);
                   s2 = schedule_stops owned now s1
               in s2\<lparr>db_deployments := update_many (\<lambda>d. d_id d \<in> set ids)
                    (\<lambda>d. d\<lparr>d_status := ARCHIVED\<rparr>) (db_deployments s2)\<rparr>))"

section \<open>The ladders are ladders\<close>

lemma computeCooldown_bounds:
  assumes "0 \<le> baseMs l" "baseMs l \<le> maxMs l" "1 \<le> multiplier l"
  shows "baseMs l \<le> computeCooldown n l" "computeCooldown n l \<le> maxMs l"
proof -
  have "1 \<le> multiplier l ^ nat (max 0 n)" using assms(3) by (rule one_le_power)
  then have "baseMs l * 1 \<le> baseMs l * multiplier l ^ nat (max 0 n)"
    using assms(1) by (intro mult_left_mono) auto
  then show "baseMs l \<le> computeCooldown n l"
    using assms(2) by (simp add: computeCooldown_def Let_def)
  show "computeCooldown n l \<le> maxMs l" by (simp add: computeCooldown_def Let_def)
qed

lemma computeCooldown_mono:
  assumes "0 \<le> baseMs l" "1 \<le> multiplier l" "m \<le> n"
  shows "computeCooldown m l \<le> computeCooldown n l"
proof -
  have "multiplier l ^ nat (max 0 m) \<le> multiplier l ^ nat (max 0 n)"
    using assms(2,3) by (intro power_increasing) auto
  then have "baseMs l * multiplier l ^ nat (max 0 m) \<le> baseMs l * multiplier l ^ nat (max 0 n)"
    using assms(1) by (rule mult_left_mono)
  then show ?thesis by (simp add: computeCooldown_def Let_def min_le_iff_disj)
qed

definition ladder_wf :: "cooldown_ladder \<Rightarrow> bool" where
  "ladder_wf l \<longleftrightarrow> 0 \<le> baseMs l \<and> baseMs l \<le> maxMs l \<and> 1 \<le> multiplier l"

lemma default_ladders_wf:
  "ladder_wf (retry_ladder default_worker_config)"
  "ladder_wf (insufficient_funds_ladder default_worker_config)"
  "ladder_wf (rapid_completion_ladder default_worker_config)"
  by (simp_all add: ladder_wf_def default_worker_config_def)

text \<open>
  The wait before a retry after an error: never below Credit Manager's hint nor the ladder's
  first rung, never above both the hint and the ladder's cap, and never shorter for a task that
  has been retried more often; a wait for work in flight follows the hint alone.
\<close>

theorem retryDelay_bounds:
  assumes "ladder_wf (retry_ladder cfg)" "ladder_wf (insufficient_funds_ladder cfg)"
    and "nullish (t_inflight_retries t) 0 \<le> nullish (t_inflight_retries t') 0"
    and "l = (if g_insufficientFunds g then insufficient_funds_ladder cfg else retry_ladder cfg)"
  shows "max (nullish h 0) (baseMs l) \<le> retryDelayMs cfg t h (Some g) \<and>
    retryDelayMs cfg t h (Some g) \<le> max (nullish h 0) (maxMs l) \<and>
    retryDelayMs cfg t h (Some g) \<le> retryDelayMs cfg t' h (Some g) \<and>
    retryDelayMs cfg t h None = nullish h 5000"
proof -
  have wf: "0 \<le> baseMs l" "baseMs l \<le> maxMs l" "1 \<le> multiplier l"
    using assms(1,2,4) by (auto simp: ladder_wf_def)
  have eq: "retryDelayMs cfg u h (Some g) =
      max (nullish h 0) (computeCooldown (int (nullish (t_inflight_retries u) 0)) l)" for u
    using assms(4) by (simp add: retryDelayMs_def retryCooldownMs_def Let_def)
  have "computeCooldown (int (nullish (t_inflight_retries t) 0)) l \<le>
      computeCooldown (int (nullish (t_inflight_retries t') 0)) l"
    using wf assms(3) by (intro computeCooldown_mono) auto
  with computeCooldown_bounds [OF wf, of "int (nullish (t_inflight_retries t) 0)"]
  show ?thesis
    unfolding eq by (auto simp: retryDelayMs_def INFLIGHT_RETRY_DEFAULT_MS_def intro: max.mono)
qed

theorem retryDelay_bounds_witness:
  "retryDelayMs default_worker_config (scheduled_doc empty_db STOP ''D'' 0 0 no_options) (Some 45000)
     (Some \<lparr>g_insufficientFunds = False, g_negativeBalance = False\<rparr>) \<le> max 45000 600000"
  using retryDelay_bounds [OF default_ladders_wf(1,2) order_refl refl,
      where t = "scheduled_doc empty_db STOP ''D'' 0 0 no_options"
        and g = "\<lparr>g_insufficientFunds = False, g_negativeBalance = False\<rparr>" and h = "Some 45000"]
  by (simp add: default_worker_config_def)

lemma match_balance_includes: "match_balance s = Some m \<Longrightarrow> str_includes s ''Available:''"
proof (induction s)
  case Nil
  then show ?case by (simp add: match_balance_at_def)
next
  case (Cons c s)
  then show ?case
    by (cases "match_balance_at (c # s)")
      (auto simp: match_balance_at_def simp del: starts_with.simps split: if_splits)
qed

lemma optional_minus_True: "optional_minus s = (True, r) \<Longrightarrow> CHR ''-'' \<in> set s"
  by (auto simp: optional_minus_def split: list.splits if_splits)

lemma optional_minus_set: "set (snd (optional_minus s)) \<subseteq> set s"
  by (auto simp: optional_minus_def split: list.splits if_splits)

lemma match_balance_at_minus:
  assumes "match_balance_at s = Some (m1, m2, w, d)" "m1 \<or> m2" shows "CHR ''-'' \<in> set s"
proof -
  let ?s0 = "dropWhile is_space (drop (length ''Available:'') s)"
  obtain a r1 where o1: "optional_minus ?s0 = (a, r1)" by (cases "optional_minus ?s0")
  have s0: "set ?s0 \<subseteq> set s" by (meson set_dropWhileD set_drop_subset subset_iff)
  obtain c r2 where r1: "r1 = c # r2"
    using assms(1) o1 by (auto simp: match_balance_at_def split: if_splits list.splits)
  obtain b r3 where o2: "optional_minus r2 = (b, r3)" by (cases "optional_minus r2")
  have "m1 = a" "m2 = b"
    using assms(1) o1 r1 o2 by (auto simp: match_balance_at_def split: if_splits list.splits)
  moreover have "set r2 \<subseteq> set s" using optional_minus_set [of ?s0] o1 r1 s0 by auto
  ultimately show ?thesis
    using assms(2) o1 o2 s0 optional_minus_True [of ?s0 r1] optional_minus_True [of r2 r3] by auto
qed

lemma match_balance_minus:
  "match_balance s = Some (m1, m2, w, d) \<Longrightarrow> m1 \<or> m2 \<Longrightarrow> CHR ''-'' \<in> set s"
proof (induction s)
  case (Cons c s)
  then show ?case
    by (cases "match_balance_at (c # s)") (auto dest: match_balance_at_minus)
qed (auto dest: match_balance_at_minus)

lemma number_of_decimal_nonneg: "number_of_decimal w d = Some v \<Longrightarrow> 0 \<le> v"
  by (auto simp: number_of_decimal_def Let_def split: if_splits)

text \<open>
  An account is condemned only on a negative balance, and a negative balance is read only out
  of an error that reports a balance: one with neither a minus sign nor \<open>Available:\<close> in it,
  or one of no funds at all, never bans its owner.
\<close>

theorem banned_only_on_negative_balance:
  "g_negativeBalance (classifyTaskError error) \<longrightarrow>
     g_insufficientFunds (classifyTaskError error) \<and>
     str_includes error ''Available:'' \<and> CHR ''-'' \<in> set error \<and>
     (\<exists>v < 0. parseAvailableBalance error = Some v)"
proof
  assume g: "g_negativeBalance (classifyTaskError error)"
  then obtain v where v: "parseAvailableBalance error = Some v" "v < 0"
    by (auto simp: classifyTaskError_def Let_def)
  then obtain m1 m2 w d u where m: "match_balance error = Some (m1, m2, w, d)"
      and u: "number_of_decimal w d = Some u" "v = (if m1 \<or> m2 then - u else u)"
    by (auto simp: parseAvailableBalance_def split: option.splits)
  have "m1 \<or> m2" using u v(2) number_of_decimal_nonneg [OF u(1)] by (auto split: if_splits)
  with m v g match_balance_minus [OF m] match_balance_includes [OF m]
  show "g_insufficientFunds (classifyTaskError error) \<and> str_includes error ''Available:'' \<and>
      CHR ''-'' \<in> set error \<and> (\<exists>v < 0. parseAvailableBalance error = Some v)"
    by (auto simp: classifyTaskError_def Let_def)
qed

theorem banned_only_on_negative_balance_witness:
  "\<exists>v < 0. parseAvailableBalance ''Insufficient credits. Available: $-5.00'' = Some v"
proof -
  have n: "(5::rat) * 2 ^ 1075 > 1" by (rule less_le_trans [of _ 5]) simp_all
  have "parseAvailableBalance ''Insufficient credits. Available: $-5.00'' = Some (- 5)"
    by (simp add: parseAvailableBalance_def match_balance_at_def optional_minus_def scan_number_def
        is_digit_def is_space_def number_of_decimal_def undigits_def char_digit_def)
  then have "g_negativeBalance (classifyTaskError ''Insufficient credits. Available: $-5.00'')"
    by (simp add: classifyTaskError_def FUNDS_ERROR_MARKERS_def)
  with banned_only_on_negative_balance [of "''Insufficient credits. Available: $-5.00''"]
  show ?thesis by blast
qed

section \<open>What a ban leaves\<close>

lemma schedule_stops_Cons:
  "schedule_stops ((i, st) # owned) now s =
     schedule_stops owned now (snd (scheduleTask STOP i st now now stop_options s))"
  by (simp add: schedule_stops_def)

lemma schedule_stops_Nil [simp]: "schedule_stops [] now s = s"
  by (simp add: schedule_stops_def)

lemma schedule_stops_keeps:
  "t \<in> set (db_tasks s) \<Longrightarrow> t \<in> set (db_tasks (schedule_stops owned now s))"
  by (induction owned arbitrary: s) (auto simp: schedule_stops_Cons scheduleTask_tasks)

lemma schedule_stops_new:
  "t \<in> set (db_tasks (schedule_stops owned now s)) \<Longrightarrow>
     t \<in> set (db_tasks s) \<or> (t_task t = STOP \<and> t_deploymentId t \<in> set (map fst owned))"
proof (induction owned arbitrary: s)
  case (Cons o1 owned)
  obtain i st where o1: "o1 = (i, st)" by (cases o1)
  from Cons.IH [of "snd (scheduleTask STOP i st now now stop_options s)"] Cons.prems show ?case
    by (auto simp: o1 schedule_stops_Cons scheduleTask_tasks scheduled_doc_def split: if_splits)
qed simp

text \<open>A task that delists every job of its deployment: a full stop no claim has started.\<close>

definition full_stop_pending :: "string \<Rightarrow> task_document \<Rightarrow> bool" where
  "full_stop_pending i t \<longleftrightarrow> t_task t = STOP \<and> t_deploymentId t = i \<and> t_status t = Some PENDING \<and>
     t_active_revision t = None \<and> t_job t = None \<and> t_limit t = None \<and> t_reason t = Some Reason_stop"

lemma full_stop_scheduled:
  "\<exists>t \<in> set (db_tasks (snd (scheduleTask STOP i st due now stop_options s))). full_stop_pending i t"
proof (cases "fst (scheduleTask STOP i st due now stop_options s)")
  case True
  then show ?thesis
    by (auto simp: scheduleTask_tasks full_stop_pending_def scheduled_doc_def stop_options_def
        no_options_def scheduled_revision_def scheduled_current_def)
next
  case False
  then obtain t where "t \<in> set (db_tasks s)" "same_intent s STOP i stop_options t"
    by (auto simp: scheduleTask_created_iff matches_iff stop_options_def no_options_def)
  with False show ?thesis
    by (intro bexI [of _ t]) (auto simp: scheduleTask_tasks full_stop_pending_def same_intent_def
        stop_options_def no_options_def scheduled_revision_def scheduled_current_def)
qed

lemma schedule_stops_all:
  "i \<in> set (map fst owned) \<Longrightarrow> \<exists>t \<in> set (db_tasks (schedule_stops owned now s)). full_stop_pending i t"
proof (induction owned arbitrary: s)
  case (Cons o1 owned)
  obtain j st where o1: "o1 = (j, st)" by (cases o1)
  show ?case
  proof (cases "i = j")
    case True
    with full_stop_scheduled [of j st now now s] show ?thesis
      by (auto simp: o1 schedule_stops_Cons intro: schedule_stops_keeps)
  next
    case False
    with Cons o1 show ?thesis by (simp add: schedule_stops_Cons)
  qed
qed simp

text \<open>Identity and owner of the deployments, which no stop or archive changes.\<close>

abbreviation deployment_owners :: "db \<Rightarrow> (string \<times> address) list" where
  "deployment_owners s \<equiv> map (\<lambda>d. (d_id d, d_owner d)) (db_deployments s)"

lemma schedule_stops_owners: "deployment_owners (schedule_stops owned now s) = deployment_owners s"
proof (induction owned arbitrary: s)
  case (Cons o1 owned)
  obtain i st where o1: "o1 = (i, st)" by (cases o1)
  have "deployment_owners (snd (scheduleTask STOP i st now now stop_options s)) = deployment_owners s"
    by (simp add: scheduleTask_deployments map_update_one)
  with Cons.IH [of "snd (scheduleTask STOP i st now now stop_options s)"] show ?case
    by (simp add: o1 schedule_stops_Cons)
qed simp

text \<open>The statuses of deployments other than the ones scheduled for are left alone.\<close>

lemma schedule_stops_others:
  "d \<in> set (db_deployments s) \<Longrightarrow> d_id d \<notin> set (map fst owned) \<Longrightarrow>
     d \<in> set (db_deployments (schedule_stops owned now s))"
proof (induction owned arbitrary: s)
  case (Cons o1 owned)
  obtain i st where o1: "o1 = (i, st)" by (cases o1)
  have "d \<in> set (db_deployments (snd (scheduleTask STOP i st now now stop_options s)))"
    using Cons.prems by (auto simp: o1 scheduleTask_deployments intro: update_one_other)
  with Cons show ?case by (simp add: o1 schedule_stops_Cons)
qed simp

lemma schedule_stops_from:
  "d' \<in> set (db_deployments (schedule_stops owned now s)) \<Longrightarrow>
     \<exists>d \<in> set (db_deployments s). d_id d' = d_id d \<and> d_owner d' = d_owner d \<and>
       (d_status d' = d_status d \<or> d_id d \<in> set (map fst owned))"
proof (induction owned arbitrary: s)
  case (Cons o1 owned)
  obtain i st where o1: "o1 = (i, st)" by (cases o1)
  let ?s1 = "snd (scheduleTask STOP i st now now stop_options s)"
  obtain d1 where d1: "d1 \<in> set (db_deployments ?s1)" "d_id d' = d_id d1" "d_owner d' = d_owner d1"
      "d_status d' = d_status d1 \<or> d_id d1 \<in> set (map fst owned)"
    using Cons.IH [of ?s1] Cons.prems by (auto simp: o1 schedule_stops_Cons)
  have "\<exists>d \<in> set (db_deployments s). d_id d1 = d_id d \<and> d_owner d1 = d_owner d \<and>
      (d_status d1 = d_status d \<or> d_id d = i)"
    using d1(1) by (force simp: scheduleTask_deployments split: if_splits elim!: update_one_cases)
  then obtain d where "d \<in> set (db_deployments s)" "d_id d1 = d_id d" "d_owner d1 = d_owner d"
      "d_status d1 = d_status d \<or> d_id d = i" by blast
  with d1(2-4) show ?case by (intro bexI [of _ d]) (auto simp: o1)
qed auto

text \<open>
  A ban tears the whole account down: afterwards every deployment of the owner is ARCHIVED,
  each one that was not before has a pending full stop to delist its jobs, no task of theirs
  remains but stops and LISTs already in flight, and running it again changes nothing.
\<close>

theorem ban_archives_owner:
  fixes s :: db and owner :: address and now :: ms
  defines "s' \<equiv> archiveBannedOwner owner now s"
  assumes ids: "distinct (map d_id (db_deployments s))"
  shows "(\<forall>d \<in> set (db_deployments s'). d_owner d = owner \<longrightarrow> d_status d = ARCHIVED) \<and>
     (\<forall>d \<in> set (db_deployments s). d_owner d = owner \<longrightarrow> d_status d \<noteq> ARCHIVED \<longrightarrow>
        (\<exists>t \<in> set (db_tasks s'). full_stop_pending (d_id d) t) \<and>
        (\<forall>t \<in> set (db_tasks s'). t_deploymentId t = d_id d \<longrightarrow> t_task t = STOP \<or> LIST_IN_FLIGHT t)) \<and>
     (\<forall>d \<in> set (db_deployments s). d_owner d \<noteq> owner \<longrightarrow> d \<in> set (db_deployments s')) \<and>
     archiveBannedOwner owner now' s' = s'"
proof -
  let ?own = "filter (\<lambda>d. d_owner d = owner \<and> d_status d \<noteq> ARCHIVED) (db_deployments s)"
  let ?owned = "map (\<lambda>d. (d_id d, d_status d)) ?own"
  let ?s1 = "snd (tasks_delete None (churn_of (map fst ?owned)) s)"
  let ?s2 = "schedule_stops ?owned now ?s1"
  have fst_owned: "i \<in> set (map fst ?owned) \<longleftrightarrow>
      (\<exists>d \<in> set (db_deployments s). d_id d = i \<and> d_owner d = owner \<and> d_status d \<noteq> ARCHIVED)" for i
    by auto
  have s': "s' = (if ?own = [] then s else ?s2\<lparr>db_deployments := update_many
      (\<lambda>d. d_id d \<in> set (map fst ?owned)) (\<lambda>d. d\<lparr>d_status := ARCHIVED\<rparr>) (db_deployments ?s2)\<rparr>)"
    by (simp add: s'_def archiveBannedOwner_def Let_def)
  have all: "\<forall>d \<in> set (db_deployments s'). d_owner d = owner \<longrightarrow> d_status d = ARCHIVED"
  proof (cases "?own = []")
    case True
    then show ?thesis by (auto simp: s' filter_empty_conv)
  next
    case False
    have "d_status d = ARCHIVED \<or> d_id d \<in> set (map fst ?owned)"
      if "d \<in> set (db_deployments ?s2)" "d_owner d = owner" for d
      using schedule_stops_from [OF that(1)] that(2) unfolding fst_owned by auto
    with False show ?thesis
      by (auto simp: s' simp del: set_map list.map_comp elim!: update_many_cases)
  qed
  have tasks: "(\<exists>t \<in> set (db_tasks s'). full_stop_pending (d_id d) t) \<and>
      (\<forall>t \<in> set (db_tasks s'). t_deploymentId t = d_id d \<longrightarrow> t_task t = STOP \<or> LIST_IN_FLIGHT t)"
    if d: "d \<in> set (db_deployments s)" "d_owner d = owner" "d_status d \<noteq> ARCHIVED" for d
  proof -
    have "?own \<noteq> []" using d by (auto simp: filter_empty_conv)
    then have ts: "db_tasks s' = db_tasks ?s2" by (simp add: s')
    have i: "d_id d \<in> set (map fst ?owned)" using d by auto
    have "t_task t = STOP \<or> LIST_IN_FLIGHT t"
      if "t \<in> set (db_tasks ?s2)" "t_deploymentId t = d_id d" for t
      using schedule_stops_new [OF that(1)] that(2) i by (auto simp: churn_of_def)
    with ts schedule_stops_all [OF i, of now ?s1] show ?thesis by auto
  qed
  have others: "d \<in> set (db_deployments s')" if "d \<in> set (db_deployments s)" "d_owner d \<noteq> owner" for d
  proof -
    have i: "d_id d \<notin> set (map fst ?owned)"
      unfolding fst_owned using keyed_unique [OF ids that(1)] that(2) by metis
    moreover have "d \<in> set (db_deployments ?s2)"
      using that(1) i by (intro schedule_stops_others) simp_all
    ultimately show ?thesis using that(1) by (auto simp: s' set_update_many image_iff)
  qed
  have "archiveBannedOwner owner now' s' = s'"
    using all by (auto simp: archiveBannedOwner_def Let_def filter_empty_conv)
  with all tasks others show ?thesis by blast
qed

theorem ban_archives_owner_witness:
  "\<exists>t \<in> set (db_tasks (archiveBannedOwner ''O'' 7
      (empty_db\<lparr>db_deployments := [blank_deployment ''D'' ''O'' RUNNING], db_tasks := [blank_task 1 EXTEND ''D'']\<rparr>))).
     full_stop_pending ''D'' t"
  using ban_archives_owner [of "empty_db\<lparr>db_deployments := [blank_deployment ''D'' ''O'' RUNNING],
      db_tasks := [blank_task 1 EXTEND ''D'']\<rparr>" "''O''"]
  by simp

end
