(* ===== verification/Orchestrate.thy ===== *)
theory Orchestrate
  imports Transactions Transitions Retry
begin

text \<open>
  Driving a task's units to their end (\<open>src/tasks/execution/orchestrate/\<close>): resuming the
  records of an earlier attempt, consuming a worker's messages, recording each unit's outcome and
  tallying. The run's state is the store and the local variables the run's callbacks share: the
  retry signal its handlers leave, the jobs a STOP found stopped, and what a LIST's reserve step
  came to and whether the LIST only drains. The units of a run are driven one after the other, in the order of their
  messages; the program starts them in that order and lets their sends overlap.

  \<open>run_env\<close> is what a run meets: the chain, and at which points its lease is found killed
  (the abort signal): before resuming, when a unit is sent, before the worker is listened to, and
  at the end.
\<close>

record run_state =
  rs_db :: db
  rs_signal :: "retry_signal option"
  rs_stopped :: "address list"
  rs_reserved :: "reserve_outcome option"
  rs_draining :: bool

record run_env =
  e_rpc :: rpc
  e_abort_resume :: bool
  e_abort_send :: "nat \<Rightarrow> bool"
  e_abort_worker :: bool
  e_abort_end :: bool

record handlers =
  onConfirmed :: "nat \<Rightarrow> signature \<Rightarrow> address option \<Rightarrow> address option \<Rightarrow> reserved_node option \<Rightarrow>
    run_state \<Rightarrow> run_state"
  onError :: "nat \<Rightarrow> string \<Rightarrow> signature option \<Rightarrow> run_state \<Rightarrow> run_state"

record orchestrate_result =
  y_confirmed :: nat
  y_errored :: nat
  y_aborted :: bool
  y_retry :: bool
  y_retryAfterMs :: "rat option"

definition on_db :: "(db \<Rightarrow> db) \<Rightarrow> run_state \<Rightarrow> run_state" where
  "on_db f s = s\<lparr>rs_db := f (rs_db s)\<rparr>"

section \<open>Records\<close>

definition recordJobs :: "tx_record \<Rightarrow> address list" where
  "recordJobs r = nullish (x_jobs r) (case x_job r of Some j \<Rightarrow> [j] | None \<Rightarrow> [])"

definition recordRuns :: "tx_record \<Rightarrow> address list" where
  "recordRuns r = nullish (x_runs r) (case x_run r of Some j \<Rightarrow> [j] | None \<Rightarrow> [])"

definition map_records :: "(tx_record list \<Rightarrow> tx_record list) \<Rightarrow> task_document \<Rightarrow> task_document" where
  "map_records f t = t\<lparr>t_transactions := Some (f (task_records t))\<rparr>"

text \<open>The patch of one unit's sub-documents: status, signature if given, blob if it is cleared.\<close>

definition patch_record :: "tx_record_status \<Rightarrow> signature option \<Rightarrow> tx_record \<Rightarrow> tx_record" where
  "patch_record st sg r = r\<lparr>x_status := st, x_signature := nullish sg (x_signature r), x_blob := None\<rparr>"

definition markRecord ::
  "object_id \<Rightarrow> nat \<Rightarrow> tx_record_status \<Rightarrow> signature option \<Rightarrow> run_state \<Rightarrow> run_state" where
  "markRecord i u st sg = on_db (on_task (\<lambda>t. t_id t = i)
     (map_records (map (\<lambda>r. if x_unit r = u then patch_record st sg r else r))))"

definition persistSignedRecord :: "object_id \<Rightarrow> tx_record \<Rightarrow> run_state \<Rightarrow> run_state" where
  "persistSignedRecord i r = on_db (on_task (\<lambda>t. t_id t = i) (map_records (\<lambda>rs. rs @ [r])))"

definition persistConfirmedRecord :: "object_id \<Rightarrow> tx_record \<Rightarrow> run_state \<Rightarrow> run_state" where
  "persistConfirmedRecord i r = on_db (on_task (\<lambda>t. t_id t = i) (map_records (\<lambda>rs. rs @ [r])))"

section \<open>One unit\<close>

definition at_index :: "'a list \<Rightarrow> nat \<Rightarrow> 'a option" where
  "at_index xs i = (if i < length xs then Some (xs ! i) else None)"

definition reserved_at :: "tx_record \<Rightarrow> nat \<Rightarrow> reserved_node option" where
  "reserved_at r i =
     (case (Option.bind (x_nodes r) (\<lambda>ns. at_index ns i), Option.bind (x_markets r) (\<lambda>ms. at_index ms i)) of
        (Some node, Some market) \<Rightarrow>
          if node \<noteq> [] \<and> market \<noteq> [] then Some \<lparr>n_node = node, n_market = market\<rparr> else None
      | _ \<Rightarrow> None)"

definition confirm_jobs :: "handlers \<Rightarrow> tx_record \<Rightarrow> signature \<Rightarrow> run_state \<Rightarrow> run_state" where
  "confirm_jobs h r sg s =
     fold (\<lambda>i. onConfirmed h (x_unit r) sg (at_index (recordJobs r) i) (at_index (recordRuns r) i) (reserved_at r i))
       [0..<length (recordJobs r)] s"

definition applyOutcome ::
  "object_id \<Rightarrow> handlers \<Rightarrow> tx_record \<Rightarrow> unit_outcome \<Rightarrow> run_state \<Rightarrow> unit_outcome \<times> run_state" where
  "applyOutcome i h r outcome s =
     (case outcome of
        U_CONFIRMED sg n \<Rightarrow>
          (U_CONFIRMED sg (Some (length (recordJobs r))),
           confirm_jobs h r sg (markRecord i (x_unit r) CONFIRMED (Some sg) s))
      | U_EXPIRED sg \<Rightarrow> (outcome, markRecord i (x_unit r) SENT None s)
      | U_ERROR sg e \<Rightarrow> (outcome, onError h (x_unit r) e sg (markRecord i (x_unit r) SENT None s))
      | U_ABORTED sg \<Rightarrow> (outcome, s)
      | U_RETRY m \<Rightarrow> (outcome, s))"

definition driveSend ::
  "run_env \<Rightarrow> object_id \<Rightarrow> handlers \<Rightarrow> tx_record \<Rightarrow> run_state \<Rightarrow> unit_outcome \<times> run_state" where
  "driveSend env i h r s = applyOutcome i h r (sendUnit (e_rpc env) r (e_abort_send env (x_unit r))) s"

section \<open>The tally\<close>

definition tally_step :: "unit_outcome \<Rightarrow> orchestrate_result \<Rightarrow> orchestrate_result" where
  "tally_step outcome y =
     (case outcome of
        U_CONFIRMED sg n \<Rightarrow> y\<lparr>y_confirmed := y_confirmed y + nullish n 1\<rparr>
      | U_ERROR sg e \<Rightarrow> y\<lparr>y_errored := y_errored y + 1\<rparr>
      | U_ABORTED sg \<Rightarrow> y\<lparr>y_aborted := True\<rparr>
      | U_RETRY m \<Rightarrow> y\<lparr>y_retry := True, y_retryAfterMs :=
          (case m of Some ms \<Rightarrow> Some (max (nullish (y_retryAfterMs y) 0) ms) | None \<Rightarrow> y_retryAfterMs y)\<rparr>
      | U_EXPIRED sg \<Rightarrow> y)"

definition tally :: "unit_outcome list \<Rightarrow> bool \<Rightarrow> orchestrate_result" where
  "tally outcomes aborted = fold tally_step outcomes
     \<lparr>y_confirmed = 0, y_errored = 0, y_aborted = aborted, y_retry = False, y_retryAfterMs = None\<rparr>"

section \<open>The worker's messages (\<open>types/worker.ts\<close>)\<close>

datatype worker_event =
    Msg_SIGNED nat string nat "signature option" "address list option" "address list option"
      "address list option" "address list option"
  | Msg_CONFIRMED "nat option" "address option" "address option" "signature option"
      "address option" "address option"
  | Msg_ERROR "nat option" "string option"
  | Msg_RETRY "nat option" "rat option"
  | Msg_DONE
  | Worker_error string
  | Worker_exit
  | Run_aborted

definition signed_record ::
  "nat \<Rightarrow> string \<Rightarrow> nat \<Rightarrow> signature option \<Rightarrow> address list option \<Rightarrow> address list option \<Rightarrow>
    address list option \<Rightarrow> address list option \<Rightarrow> tx_record" where
  "signed_record u blob lvbh sg jobs runs nodes markets =
     \<lparr>x_unit = u, x_signature = nullish sg [], x_lastValidBlockHeight = lvbh, x_status = SIGNED,
      x_blob = Some blob, x_jobs = jobs, x_runs = runs, x_nodes = nodes, x_markets = markets,
      x_job = None, x_run = None\<rparr>"

definition reserved_of :: "address option \<Rightarrow> address option \<Rightarrow> reserved_node option" where
  "reserved_of node market =
     (if truthy_string node \<and> truthy_string market
      then Some \<lparr>n_node = the node, n_market = the market\<rparr> else None)"

definition confirmed_record ::
  "nat \<Rightarrow> signature \<Rightarrow> address option \<Rightarrow> address option \<Rightarrow> reserved_node option \<Rightarrow> tx_record" where
  "confirmed_record u sg job run reserved =
     \<lparr>x_unit = u, x_signature = sg, x_lastValidBlockHeight = 0, x_status = CONFIRMED, x_blob = None,
      x_jobs = Some (if truthy_string job then [the job] else []),
      x_runs = Some (if truthy_string run then [the run] else []),
      x_nodes = map_option (\<lambda>n. [n_node n]) reserved,
      x_markets = map_option (\<lambda>n. [n_market n]) reserved, x_job = None, x_run = None\<rparr>"

fun runWorkerMessages ::
  "run_env \<Rightarrow> object_id \<Rightarrow> handlers \<Rightarrow> worker_event list \<Rightarrow> run_state \<Rightarrow> unit_outcome list \<times> run_state" where
  "runWorkerMessages env i h [] s = ([], s)"
| "runWorkerMessages env i h (Msg_SIGNED u blob lvbh sg jobs runs nodes markets # ms) s =
     (let r = signed_record u blob lvbh sg jobs runs nodes markets;
          (outcome, s1) = driveSend env i h r (persistSignedRecord i r s);
          (outcomes, s2) = runWorkerMessages env i h ms s1
      in (outcome # outcomes, s2))"
| "runWorkerMessages env i h (Msg_CONFIRMED u job run tx node market # ms) s =
     (let u' = nullish u 0; sg = nullish tx []; reserved = reserved_of node market;
          s1 = persistConfirmedRecord i (confirmed_record u' sg job run reserved)
                 (onConfirmed h u' sg job run reserved s);
          (outcomes, s2) = runWorkerMessages env i h ms s1
      in (U_CONFIRMED sg None # outcomes, s2))"
| "runWorkerMessages env i h (Msg_ERROR u err # ms) s =
     (let error = nullish err ''unknown error'';
          (outcomes, s2) = runWorkerMessages env i h ms (onError h (nullish u 0) error None s)
      in (U_ERROR None error # outcomes, s2))"
| "runWorkerMessages env i h (Msg_RETRY u m # ms) s =
     (let (outcomes, s2) = runWorkerMessages env i h ms s in (U_RETRY m # outcomes, s2))"
| "runWorkerMessages env i h (Worker_error e # ms) s = ([U_ERROR None e], onError h 0 e None s)"
| "runWorkerMessages env i h (Msg_DONE # ms) s = ([], s)"
| "runWorkerMessages env i h (Worker_exit # ms) s = ([], s)"
| "runWorkerMessages env i h (Run_aborted # ms) s = ([], s)"

section \<open>The coordinator\<close>

definition confirmed_outcomes :: "tx_record list \<Rightarrow> unit_outcome list" where
  "confirmed_outcomes existing =
     map (\<lambda>r. U_CONFIRMED (x_signature r) (Some (length (recordJobs r))))
       (filter (\<lambda>r. x_status r = CONFIRMED) existing)"

fun recover_each ::
  "run_env \<Rightarrow> object_id \<Rightarrow> handlers \<Rightarrow> (nat \<Rightarrow> recovery_action option) \<Rightarrow> tx_record list \<Rightarrow> run_state \<Rightarrow>
    unit_outcome list \<times> run_state" where
  "recover_each env i h actions [] s = ([], s)"
| "recover_each env i h actions (r # rs) s =
     (let (outcome, s1) =
        (case actions (x_unit r) of
           Some Resend \<Rightarrow> driveSend env i h r s
         | Some (Outcome outcome) \<Rightarrow> applyOutcome i h r outcome s
         | None \<Rightarrow> applyOutcome i h r (U_EXPIRED None) s);
          (outcomes, s2) = recover_each env i h actions rs s1
      in (outcome # outcomes, s2))"

text \<open>None: the block height could not be read and the run throws.\<close>

definition resumeExisting ::
  "run_env \<Rightarrow> object_id \<Rightarrow> handlers \<Rightarrow> tx_record list \<Rightarrow> run_state \<Rightarrow> unit_outcome list option \<times> run_state" where
  "resumeExisting env i h existing s =
     (let confirmedOutcomes = confirmed_outcomes existing;
          toRecover = filter (\<lambda>r. x_status r \<noteq> CONFIRMED) existing
      in if e_abort_resume env \<or> toRecover = [] then (Some confirmedOutcomes, s)
         else (case recoverUnits (e_rpc env) toRecover of
             None \<Rightarrow> (None, s)
           | Some actions \<Rightarrow>
               (let (recovered, s1) = recover_each env i h actions toRecover s
                in (Some (confirmedOutcomes @ recovered), s1))))"

definition orchestrateUnits ::
  "run_env \<Rightarrow> object_id \<Rightarrow> handlers \<Rightarrow> tx_record list \<Rightarrow> worker_event list option \<Rightarrow> run_state \<Rightarrow>
    orchestrate_result option \<times> run_state" where
  "orchestrateUnits env i h existing worker s =
     (case (if existing = [] then (Some [], s) else resumeExisting env i h existing s) of
        (None, s1) \<Rightarrow> (None, s1)
      | (Some outcomes, s1) \<Rightarrow>
          (let (more, s2) = (case worker of
                 None \<Rightarrow> ([], s1)
               | Some ms \<Rightarrow> if e_abort_worker env then ([], s1) else runWorkerMessages env i h ms s1)
           in (Some (tally (outcomes @ more) (e_abort_end env)), s2)))"

text \<open>
  \<open>resuming\<close> and \<open>signing\<close> are what the two halves of the run meet.
  \<open>makeWorker count startUnit\<close> gives the messages of the worker it starts, or none.
\<close>

definition reconcileUnits ::
  "run_env \<Rightarrow> run_env \<Rightarrow> object_id \<Rightarrow> handlers \<Rightarrow> tx_record list \<Rightarrow> nat \<Rightarrow>
    (nat \<Rightarrow> nat \<Rightarrow> run_state \<Rightarrow> worker_event list option \<times> run_state) \<Rightarrow> run_state \<Rightarrow>
    orchestrate_result option \<times> run_state" where
  "reconcileUnits resuming signing i h existing target makeWorker s =
     (case (if existing = []
            then (Some \<lparr>y_confirmed = 0, y_errored = 0, y_aborted = e_abort_resume resuming,
                y_retry = False, y_retryAfterMs = None\<rparr>, s)
            else orchestrateUnits resuming i h existing None s) of
        (None, s1) \<Rightarrow> (None, s1)
      | (Some resume, s1) \<Rightarrow>
          if y_aborted resume then (Some resume, s1)
          else (let needed = target - y_confirmed resume
                in if needed = 0 then (Some resume, s1)
                   else (let (worker, s2) = makeWorker needed (length existing) s1
                         in case orchestrateUnits signing i h [] worker s2 of
                              (None, s3) \<Rightarrow> (None, s3)
                            | (Some fresh, s3) \<Rightarrow>
                                (Some \<lparr>y_confirmed = y_confirmed resume + y_confirmed fresh,
                                   y_errored = y_errored resume + y_errored fresh,
                                   y_aborted = y_aborted fresh,
                                   y_retry = (y_retry resume \<or> y_retry fresh),
                                   y_retryAfterMs = or_else (y_retryAfterMs fresh) (y_retryAfterMs resume)\<rparr>,
                                 s3))))"

section \<open>What the tally counts\<close>

definition job_count :: "unit_outcome \<Rightarrow> nat" where
  "job_count outcome = (case outcome of U_CONFIRMED sg n \<Rightarrow> nullish n 1 | _ \<Rightarrow> 0)"

definition is_error :: "unit_outcome \<Rightarrow> bool" where
  "is_error outcome = (case outcome of U_ERROR sg e \<Rightarrow> True | _ \<Rightarrow> False)"

definition is_aborted :: "unit_outcome \<Rightarrow> bool" where
  "is_aborted outcome = (case outcome of U_ABORTED sg \<Rightarrow> True | _ \<Rightarrow> False)"

definition is_retry :: "unit_outcome \<Rightarrow> bool" where
  "is_retry outcome = (case outcome of U_RETRY m \<Rightarrow> True | _ \<Rightarrow> False)"

definition retry_hints :: "unit_outcome list \<Rightarrow> rat list" where
  "retry_hints os = List.map_filter (\<lambda>outcome. case outcome of U_RETRY m \<Rightarrow> m | _ \<Rightarrow> None) os"

lemmas outcome_defs = job_count_def is_error_def is_aborted_def is_retry_def

lemma fold_tally:
  "y_confirmed (fold tally_step os y) = y_confirmed y + sum_list (map job_count os)"
  "y_errored (fold tally_step os y) = y_errored y + length (filter is_error os)"
  "y_aborted (fold tally_step os y) \<longleftrightarrow> y_aborted y \<or> list_ex is_aborted os"
  "y_retry (fold tally_step os y) \<longleftrightarrow> y_retry y \<or> list_ex is_retry os"
  by (induction os arbitrary: y) (auto simp: tally_step_def outcome_defs split: unit_outcome.splits)

lemma fold_tally_hint:
  "y_retryAfterMs (fold tally_step os y) =
     (if retry_hints os = [] then y_retryAfterMs y
      else Some (fold max (retry_hints os) (nullish (y_retryAfterMs y) 0)))"
proof (induction os arbitrary: y)
  case (Cons x os)
  have h: "retry_hints (x # os) = (case x of U_RETRY (Some m) \<Rightarrow> m # retry_hints os | _ \<Rightarrow> retry_hints os)"
    by (cases x) (auto simp: retry_hints_def map_filter_simps split: option.splits)
  show ?case
    unfolding fold.simps o_apply Cons.IH h
    by (cases x) (auto simp: tally_step_def max.commute split: option.splits)
qed (simp add: retry_hints_def map_filter_simps)

lemma fold_max_init: "(a :: rat) \<le> fold max xs a"
proof (induction xs arbitrary: a)
  case (Cons x xs)
  from Cons [of "max x a"] show ?case by simp
qed simp

lemma fold_max_ge: "x \<in> set xs \<Longrightarrow> x \<le> fold max xs (a :: rat)"
proof (induction xs arbitrary: a)
  case (Cons y xs)
  then show ?case using fold_max_init [of "max y a" xs] by auto
qed simp

lemma fold_max_mem: "fold max xs (a :: rat) \<in> insert a (set xs)"
proof (induction xs arbitrary: a)
  case (Cons x xs)
  from Cons.IH [of "max x a"] show ?case by (auto simp: max_def split: if_splits)
qed simp

text \<open>
  The tally is what happened: it counts the jobs of the confirmed units (a bulked unit counts
  all of its own), the failed units, whether a unit was aborted and whether one is still in flight,
  and waits for the longest hint an in-flight unit gave.
\<close>

theorem tally_counts:
  "y_confirmed (tally os aborted) = sum_list (map job_count os) \<and>
   y_errored (tally os aborted) = length (filter is_error os) \<and>
   (y_aborted (tally os aborted) \<longleftrightarrow> aborted \<or> list_ex is_aborted os) \<and>
   (y_retry (tally os aborted) \<longleftrightarrow> list_ex is_retry os) \<and>
   (y_retryAfterMs (tally os aborted) = None \<longleftrightarrow> retry_hints os = []) \<and>
   (\<forall>m. y_retryAfterMs (tally os aborted) = Some m \<longrightarrow>
      (\<forall>x \<in> set (retry_hints os). x \<le> m) \<and> m \<in> insert 0 (set (retry_hints os)))"
  unfolding tally_def fold_tally fold_tally_hint
  using fold_max_ge [of _ "retry_hints os" 0] fold_max_mem [of "retry_hints os" 0] by auto

theorem tally_counts_witness:
  "y_retryAfterMs (tally [U_RETRY (Some 5), U_CONFIRMED ''s'' (Some 3), U_RETRY (Some 9)] False) \<noteq> None \<and>
   y_confirmed (tally [U_RETRY (Some 5), U_CONFIRMED ''s'' (Some 3), U_RETRY (Some 9)] False) = 3"
proof -
  have "retry_hints [U_RETRY (Some 5), U_CONFIRMED ''s'' (Some 3), U_RETRY (Some 9)] \<noteq> []"
    by (simp add: retry_hints_def map_filter_simps)
  with tally_counts [of "[U_RETRY (Some 5), U_CONFIRMED ''s'' (Some 3), U_RETRY (Some 9)]" False]
  show ?thesis by (simp add: job_count_def)
qed

section \<open>The records of a run\<close>

definition stored_records :: "object_id \<Rightarrow> run_state \<Rightarrow> tx_record list option" where
  "stored_records i s = map_option task_records (find_one (\<lambda>t. t_id t = i) (db_tasks (rs_db s)))"

lemma find_one_update_one:
  "(\<And>x. P x \<Longrightarrow> P (f x)) \<Longrightarrow> find_one P (update_one P f xs) = map_option f (find_one P xs)"
  by (induction xs) (auto simp: find_one_def)

lemma stored_records_map:
  "stored_records i (on_db (on_task (\<lambda>t. t_id t = i) (map_records f)) s) = map_option f (stored_records i s)"
proof -
  have "find_one (\<lambda>t. t_id t = i) (update_one (\<lambda>t. t_id t = i) (map_records f) ts) =
      map_option (map_records f) (find_one (\<lambda>t. t_id t = i) ts)" for ts
    by (rule find_one_update_one) (simp add: map_records_def)
  then show ?thesis
    by (simp add: stored_records_def on_db_def option.map_comp o_def map_records_def)
qed

lemma stored_records_ops:
  "stored_records i (persistSignedRecord i r s) = map_option (\<lambda>rs. rs @ [r]) (stored_records i s)"
  "stored_records i (persistConfirmedRecord i r s) = map_option (\<lambda>rs. rs @ [r]) (stored_records i s)"
  "stored_records i (markRecord i u st sg s) =
     map_option (map (\<lambda>r. if x_unit r = u then patch_record st sg r else r)) (stored_records i s)"
  by (simp_all add: persistSignedRecord_def persistConfirmedRecord_def markRecord_def stored_records_map)

text \<open>Handlers that leave the records of the task to the coordinator.\<close>

definition handlers_keep_records :: "object_id \<Rightarrow> handlers \<Rightarrow> bool" where
  "handlers_keep_records i h \<longleftrightarrow>
     (\<forall>u sg j r n s. stored_records i (onConfirmed h u sg j r n s) = stored_records i s) \<and>
     (\<forall>u e sg s. stored_records i (onError h u e sg s) = stored_records i s)"

lemma confirm_jobs_records:
  assumes "handlers_keep_records i h"
  shows "stored_records i (confirm_jobs h r sg s) = stored_records i s"
proof -
  have "stored_records i (fold (\<lambda>n. onConfirmed h (x_unit r) sg (at_index (recordJobs r) n)
      (at_index (recordRuns r) n) (reserved_at r n)) ns s) = stored_records i s" for ns
    using assms by (induction ns arbitrary: s) (auto simp: handlers_keep_records_def)
  then show ?thesis by (simp add: confirm_jobs_def)
qed

definition outcome_patch :: "unit_outcome \<Rightarrow> tx_record \<Rightarrow> tx_record" where
  "outcome_patch outcome = (case outcome of
       U_CONFIRMED sg n \<Rightarrow> patch_record CONFIRMED (Some sg)
     | U_EXPIRED sg \<Rightarrow> patch_record SENT None
     | U_ERROR sg e \<Rightarrow> patch_record SENT None
     | U_ABORTED sg \<Rightarrow> id
     | U_RETRY m \<Rightarrow> id)"

lemma outcome_patch_simps [simp]:
  "outcome_patch (U_CONFIRMED sg n) = patch_record CONFIRMED (Some sg)"
  "outcome_patch (U_EXPIRED sg') = patch_record SENT None"
  "outcome_patch (U_ERROR sg' e) = patch_record SENT None"
  "outcome_patch (U_ABORTED sg') = id" "outcome_patch (U_RETRY m) = id"
  by (simp_all add: outcome_patch_def)

lemma applyOutcome_records:
  assumes "handlers_keep_records i h"
  shows "stored_records i (snd (applyOutcome i h r outcome s)) =
     map_option (map (\<lambda>x. if x_unit x = x_unit r then outcome_patch outcome x else x)) (stored_records i s)"
proof -
  have e: "stored_records i (onError h u e sg s') = stored_records i s'" for u e sg s'
    using assms by (simp add: handlers_keep_records_def)
  show ?thesis
    by (cases outcome)
      (simp_all add: applyOutcome_def confirm_jobs_records [OF assms] stored_records_ops e option.map_ident cong: if_cong)
qed

lemma outcome_patch_unit [simp]: "x_unit (outcome_patch outcome x) = x_unit x"
  by (cases outcome) (simp_all add: outcome_patch_def patch_record_def)

text \<open>
  What a send leaves behind. An aborted or in-flight unit keeps its record as it was signed,
  bytes included, so the next attempt recovers it; a confirmed one is CONFIRMED under the landed
  signature; an expired or failed one is SENT; and none of these three keeps the signed bytes.
\<close>

theorem send_leaves_record:
  assumes "handlers_keep_records i h" "stored_records i s = Some (xs @ [r])"
    and "\<forall>x \<in> set xs. x_unit x \<noteq> x_unit r"
    and "driveSend env i h r s = (outcome, s')"
  shows "\<exists>r'. stored_records i s' = Some (xs @ [r']) \<and> x_unit r' = x_unit r \<and>
    (is_aborted outcome \<longrightarrow> r' = r) \<and>
    (\<forall>sg n. outcome = U_CONFIRMED sg n \<longrightarrow> x_status r' = CONFIRMED \<and> x_signature r' = sg) \<and>
    (\<not> is_aborted outcome \<longrightarrow> x_blob r' = None \<and> (x_status r' = CONFIRMED \<or> x_status r' = SENT))"
proof -
  define o0 where "o0 = sendUnit (e_rpc env) r (e_abort_send env (x_unit r))"
  have ds: "applyOutcome i h r o0 s = (outcome, s')" using assms(4) by (simp add: driveSend_def o0_def)
  have nr: "o0 \<noteq> U_RETRY m" for m
    by (auto simp: o0_def sendUnit_def Let_def split: if_splits option.splits sum.splits track_result.splits)
  have out: "outcome_patch outcome = outcome_patch o0" "is_aborted outcome = is_aborted o0"
    using ds by (auto simp: applyOutcome_def outcome_patch_def is_aborted_def split: unit_outcome.splits)
  have same: "map (\<lambda>x. if x_unit x = x_unit r then outcome_patch o0 x else x) xs = xs"
    using assms(3) by (intro map_idI) auto
  have "stored_records i s' = Some (xs @ [outcome_patch o0 r])"
    using applyOutcome_records [OF assms(1), of r o0 s] ds assms(2) same by simp
  moreover have "outcome = U_CONFIRMED sg n \<Longrightarrow> \<exists>m. o0 = U_CONFIRMED sg m" for sg n
    using ds by (auto simp: applyOutcome_def split: unit_outcome.splits)
  ultimately show ?thesis
    using nr unfolding out
    by (intro exI [of _ "outcome_patch o0 r"]) (cases o0; auto simp: outcome_patch_def patch_record_def is_aborted_def)
qed

definition no_handlers :: handlers where
  "no_handlers = \<lparr>onConfirmed = (\<lambda>_ _ _ _ _ s. s), onError = (\<lambda>_ _ _ s. s)\<rparr>"

lemma no_handlers_keep: "handlers_keep_records i no_handlers"
  by (simp add: handlers_keep_records_def no_handlers_def)

definition example_run_state :: "tx_record list \<Rightarrow> run_state" where
  "example_run_state rs = \<lparr>rs_db = empty_db\<lparr>db_tasks := [(blank_task 1 LIST ''D'')\<lparr>t_transactions := Some rs\<rparr>]\<rparr>,
     rs_signal = None, rs_stopped = [], rs_reserved = None, rs_draining = False\<rparr>"

definition example_env :: run_env where
  "example_env = \<lparr>e_rpc = example_rpc, e_abort_resume = False, e_abort_send = (\<lambda>_. True),
     e_abort_worker = False, e_abort_end = True\<rparr>"

theorem send_leaves_record_witness:
  "\<exists>r'. stored_records 1 (snd (driveSend example_env 1 no_handlers example_record (example_run_state [example_record]))) =
     Some [r'] \<and> x_unit r' = 0"
proof -
  obtain oc s' where d: "driveSend example_env 1 no_handlers example_record (example_run_state [example_record]) = (oc, s')"
    by fastforce
  have st: "stored_records 1 (example_run_state [example_record]) = Some ([] @ [example_record])"
    by (simp add: stored_records_def example_run_state_def find_one_def)
  have u: "x_unit example_record = 0" by (simp add: example_record_def)
  from send_leaves_record [OF no_handlers_keep st _ d] u show ?thesis
    unfolding d by auto
qed

section \<open>Every unit is on record\<close>

text \<open>The messages a run handles: up to the first that ends it.\<close>

definition ends_run :: "worker_event \<Rightarrow> bool" where
  "ends_run m = (case m of Msg_DONE \<Rightarrow> True | Worker_error e \<Rightarrow> True | Worker_exit \<Rightarrow> True
     | Run_aborted \<Rightarrow> True | _ \<Rightarrow> False)"

definition handled :: "worker_event list \<Rightarrow> worker_event list" where
  "handled ms = takeWhile (\<lambda>m. \<not> ends_run m) ms"

fun recorded_unit :: "worker_event \<Rightarrow> nat list" where
  "recorded_unit (Msg_SIGNED u blob lvbh sg jobs runs nodes markets) = [u]"
| "recorded_unit (Msg_CONFIRMED u job run tx node market) = [nullish u 0]"
| "recorded_unit m = []"

lemma signed_record_simps [simp]:
  "x_unit (signed_record u blob lvbh sg jobs runs nodes markets) = u"
  "recordJobs (signed_record u blob lvbh sg jobs runs nodes markets) = nullish jobs []"
  by (simp_all add: signed_record_def recordJobs_def)

lemma driveSend_units:
  assumes "handlers_keep_records i h" "stored_records i s = Some rs"
  shows "\<exists>rs'. stored_records i (snd (driveSend env i h r s)) = Some rs' \<and> map x_unit rs' = map x_unit rs"
  using applyOutcome_records [OF assms(1), of r _ s] assms(2) by (auto simp: driveSend_def)

lemma handled_Cons: "handled (m # ms) = (if ends_run m then [] else m # handled ms)"
  by (simp add: handled_def)

lemma ends_run_simps [simp]:
  "\<not> ends_run (Msg_SIGNED u blob lvbh sg jobs runs nodes markets)"
  "\<not> ends_run (Msg_CONFIRMED ou job run tx node market)" "\<not> ends_run (Msg_ERROR ou err)"
  "\<not> ends_run (Msg_RETRY ou hint)" "ends_run Msg_DONE" "ends_run (Worker_error e)"
  "ends_run Worker_exit" "ends_run Run_aborted"
  by (simp_all add: ends_run_def)



section \<open>Resuming\<close>

text \<open>
  The self-custody order of bookkeeping has a window. The record is marked CONFIRMED first
  and the jobs are recorded after; when the process dies in between, the next attempt takes the
  unit as done, counts its jobs towards the target and calls no handler, on any chain: the jobs
  that landed are never recorded. (The API path records the job first, for this reason.)
\<close>

theorem crash_after_mark_loses_jobs:
  assumes "stored_records i s = Some [r]"
    and "stored_records i (markRecord i (x_unit r) CONFIRMED (Some sg) s) = Some existing"
  shows "orchestrateUnits env i h existing None s' =
     (Some (tally [U_CONFIRMED sg (Some (length (recordJobs r)))] (e_abort_end env)), s')"
proof -
  have "existing = [patch_record CONFIRMED (Some sg) r]"
    using assms by (simp add: stored_records_ops)
  then show ?thesis
    by (simp add: orchestrateUnits_def resumeExisting_def confirmed_outcomes_def patch_record_def recordJobs_def)
qed

theorem crash_after_mark_loses_jobs_witness:
  "orchestrateUnits example_env 1 no_handlers [patch_record CONFIRMED (Some ''s'') example_record] None
     (markRecord 1 0 CONFIRMED (Some ''s'') (example_run_state [example_record])) =
   (Some (tally [U_CONFIRMED ''s'' (Some 1)] True),
     markRecord 1 0 CONFIRMED (Some ''s'') (example_run_state [example_record]))"
proof -
  have s: "stored_records 1 (example_run_state [example_record]) = Some [example_record]"
    by (simp add: stored_records_def example_run_state_def find_one_def)
  then have "stored_records 1 (markRecord 1 (x_unit example_record) CONFIRMED (Some ''s'') (example_run_state [example_record])) =
      Some [patch_record CONFIRMED (Some ''s'') example_record]"
    by (simp add: stored_records_ops)
  from crash_after_mark_loses_jobs [OF s this] show ?thesis
    by (simp add: example_env_def recordJobs_def example_record_def)
qed

section \<open>The top-up\<close>

fun message_jobs :: "worker_event \<Rightarrow> nat" where
  "message_jobs (Msg_SIGNED u blob lvbh sg jobs runs nodes markets) = length (nullish jobs [])"
| "message_jobs (Msg_CONFIRMED u job run tx node market) = 1"
| "message_jobs m = 0"

lemma job_count_simps [simp]:
  "job_count (U_CONFIRMED sg n) = nullish n 1" "job_count (U_EXPIRED sg') = 0"
  "job_count (U_ERROR sg' e) = 0" "job_count (U_ABORTED sg') = 0" "job_count (U_RETRY m) = 0"
  by (simp_all add: job_count_def)

lemma driveSend_jobs: "job_count (fst (driveSend env i h r s)) \<le> length (recordJobs r)"
proof -
  have "job_count (fst (applyOutcome i h r outcome s)) \<le> length (recordJobs r)" for outcome
    by (cases outcome) (simp_all add: applyOutcome_def)
  then show ?thesis by (simp add: driveSend_def)
qed

lemma worker_jobs:
  "sum_list (map job_count (fst (runWorkerMessages env i h ms s))) \<le> sum_list (map message_jobs ms)"
proof (induction env i h ms s rule: runWorkerMessages.induct)
  case (2 env i h u blob lvbh sg jobs runs nodes markets ms s)
  let ?r = "signed_record u blob lvbh sg jobs runs nodes markets"
  obtain oc s1 where d: "driveSend env i h ?r (persistSignedRecord i ?r s) = (oc, s1)"
    by fastforce
  have "job_count oc \<le> length (nullish jobs [])"
    using driveSend_jobs [of env i h ?r "persistSignedRecord i ?r s"]
    by (simp add: d)
  with 2 [OF refl d [symmetric] refl] show ?case by (simp add: d case_prod_beta)
qed (simp_all add: case_prod_beta Let_def)



end
