(* ===== verification/Idempotency.thy ===== *)
theory Idempotency
  imports Repositories
begin

text \<open>
  The idempotent calls to the Credit Manager (\<open>src/tasks/idempotency/\<close>): the key of an
  operation, what a thrown error means for it, and the two drivers, \<open>runIdempotentCall\<close>
  for one unit and \<open>runIdempotentBatch\<close> for a frozen set of them. The Credit Manager is
  not in the repository: it is a parameter of the drivers, a function from a request and its
  state to a response and its next state, and the property that needs its documented behaviour
  names it (\<open>cm_contract\<close>).
\<close>

section \<open>Keys\<close>

definition MAX_IDEMPOTENCY_EPOCH :: nat where "MAX_IDEMPOTENCY_EPOCH = 3"

definition buildIdempotencyKey :: "string \<Rightarrow> string \<Rightarrow> nat \<Rightarrow> string" where
  "buildIdempotencyKey taskId u epoch = taskId @ '':'' @ u @ '':'' @ show_nat epoch"

section \<open>Errors\<close>

datatype idempotency_code = Code_EXPIRED | Code_IN_PROGRESS | Code_PAYLOAD_MISMATCH | Code_other string

text \<open>What an error the kit recognises (\<open>isNosanaApiError\<close>) carries.\<close>

record api_response =
  a_code :: "idempotency_code option"
  a_statusCode :: nat
  a_retryAfter :: "rat option"

text \<open>
  A thrown value: the name and message of an \<open>Error\<close>, else the text
  \<open>JSON.stringify\<close> or \<open>String\<close> gives of it; and the response, if one came back.
\<close>

record thrown =
  th_error :: "(string \<times> string) option"
  th_text :: string
  th_api :: "api_response option"

datatype idempotency_action = RETRY | EXPIRED | FATAL

definition classifyApiError :: "thrown \<Rightarrow> idempotency_action" where
  "classifyApiError error =
     (case th_api error of
        None \<Rightarrow> RETRY
      | Some a \<Rightarrow>
          if a_code a = Some Code_EXPIRED then EXPIRED
          else if a_code a = Some Code_IN_PROGRESS then RETRY
          else if a_code a = Some Code_PAYLOAD_MISMATCH then FATAL
          else if a_statusCode a \<ge> 500 then RETRY else FATAL)"

definition messageOf :: "thrown \<Rightarrow> string" where
  "messageOf error =
     (case th_error error of Some (name, message) \<Rightarrow> name @ '' '' @ message | None \<Rightarrow> th_text error)"

definition retryAfterMsOf :: "thrown \<Rightarrow> rat option" where
  "retryAfterMsOf error =
     (case th_api error of
        None \<Rightarrow> None
      | Some a \<Rightarrow> (case a_retryAfter a of
          Some seconds \<Rightarrow> if seconds \<ge> 0 then Some (seconds * 1000) else None
        | None \<Rightarrow> None))"

section \<open>One unit: \<open>runIdempotentCall\<close>\<close>

datatype 'a call_result = Call_Ok 'a | Call_Retry "rat option" | Call_Fatal string

fun call_walk ::
  "string \<Rightarrow> string \<Rightarrow> (string \<Rightarrow> 'cm \<Rightarrow> (thrown + 'a) \<times> 'cm) \<Rightarrow> nat list \<Rightarrow> 'cm \<Rightarrow> 'a call_result \<times> 'cm" where
  "call_walk taskId u attempt [] cm = (Call_Retry None, cm)"
| "call_walk taskId u attempt (epoch # epochs) cm =
     (case attempt (buildIdempotencyKey taskId u epoch) cm of
        (Inr v, cm1) \<Rightarrow> (Call_Ok v, cm1)
      | (Inl error, cm1) \<Rightarrow>
          (case classifyApiError error of
             EXPIRED \<Rightarrow> call_walk taskId u attempt epochs cm1
           | RETRY \<Rightarrow> (Call_Retry (retryAfterMsOf error), cm1)
           | FATAL \<Rightarrow> (Call_Fatal (messageOf error), cm1)))"

definition runIdempotentCall ::
  "string \<Rightarrow> string \<Rightarrow> nat \<Rightarrow> (string \<Rightarrow> 'cm \<Rightarrow> (thrown + 'a) \<times> 'cm) \<Rightarrow> 'cm \<Rightarrow> 'a call_result \<times> 'cm" where
  "runIdempotentCall taskId u maxEpoch attempt cm =
     call_walk taskId u attempt [0..<Suc maxEpoch] cm"

section \<open>A frozen set: \<open>runIdempotentBatch\<close>\<close>

record ('i, 'b) batch_unit =
  b_id :: 'i
  b_body :: 'b

record batch_item =
  i_index :: int
  i_confirmed :: bool
  i_tx :: "string option"
  i_job :: "address option"
  i_run :: "address option"

record 'i confirmation =
  c_id :: 'i
  c_tx :: "string option"
  c_job :: "address option"
  c_run :: "address option"

datatype 'i batch_result =
    Batch_Ok "'i confirmation list"
  | Batch_Retry "'i confirmation list" "rat option"
  | Batch_Fatal "'i confirmation list" string

definition item_at :: "'u list \<Rightarrow> int \<Rightarrow> 'u option" where
  "item_at us i = (if 0 \<le> i \<and> i < int (length us) then Some (us ! nat i) else None)"

definition confirmations :: "('i, 'b) batch_unit list \<Rightarrow> batch_item list \<Rightarrow> 'i confirmation list" where
  "confirmations pending items =
     List.map_filter (\<lambda>item. case item_at pending (i_index item) of
         Some u \<Rightarrow> if i_confirmed item
           then Some \<lparr>c_id = b_id u, c_tx = i_tx item, c_job = i_job item, c_run = i_run item\<rparr> else None
       | None \<Rightarrow> None) items"

definition expired_units :: "('i, 'b) batch_unit list \<Rightarrow> batch_item list \<Rightarrow> ('i, 'b) batch_unit list" where
  "expired_units pending items =
     List.map_filter (\<lambda>item. case item_at pending (i_index item) of
         Some u \<Rightarrow> if i_confirmed item then None else Some u
       | None \<Rightarrow> None) items"

fun batch_walk ::
  "string \<Rightarrow> string \<Rightarrow> ('b list \<Rightarrow> string \<Rightarrow> 'cm \<Rightarrow> (thrown + batch_item list) \<times> 'cm) \<Rightarrow> nat list \<Rightarrow>
    ('i, 'b) batch_unit list \<Rightarrow> 'i confirmation list \<Rightarrow> 'cm \<Rightarrow> 'i batch_result \<times> 'cm" where
  "batch_walk taskId op post [] pending confirmed cm = (Batch_Retry confirmed None, cm)"
| "batch_walk taskId op post (epoch # epochs) pending confirmed cm =
     (case post (map b_body pending) (buildIdempotencyKey taskId op epoch) cm of
        (Inl error, cm1) \<Rightarrow>
          (if classifyApiError error = FATAL then (Batch_Fatal confirmed (messageOf error), cm1)
           else (Batch_Retry confirmed (retryAfterMsOf error), cm1))
      | (Inr items, cm1) \<Rightarrow>
          (let confirmed1 = confirmed @ confirmations pending items;
               expired = expired_units pending items
           in if expired = [] then (Batch_Ok confirmed1, cm1)
              else batch_walk taskId op post epochs expired confirmed1 cm1))"

definition runIdempotentBatch ::
  "string \<Rightarrow> string \<Rightarrow> nat \<Rightarrow> ('i, 'b) batch_unit list \<Rightarrow>
    ('b list \<Rightarrow> string \<Rightarrow> 'cm \<Rightarrow> (thrown + batch_item list) \<times> 'cm) \<Rightarrow> 'cm \<Rightarrow> 'i batch_result \<times> 'cm" where
  "runIdempotentBatch taskId op maxEpoch us post cm =
     (if us = [] then (Batch_Ok [], cm)
      else batch_walk taskId op post [0..<Suc maxEpoch] us [] cm)"

section \<open>Keys identify the operation\<close>

lemma split_first_colon:
  assumes "CHR '':'' \<notin> set a" "CHR '':'' \<notin> set b" "a @ CHR '':'' # x = b @ CHR '':'' # y"
  shows "a = b \<and> x = y"
  using assms by (induction a arbitrary: b) (case_tac b; auto)+

text \<open>
  Keys identify operations: two requests share an idempotency key only when they are for the
  same task, the same operation or unit of it and the same epoch, whatever text names the unit;
  so the Credit Manager never merges two different operations.
\<close>

theorem idempotency_key_injective:
  assumes "i < 16 ^ 24" "j < 16 ^ 24"
  shows "buildIdempotencyKey (toHexString i) u e = buildIdempotencyKey (toHexString j) u' e' \<longleftrightarrow>
     i = j \<and> u = u' \<and> e = e'"
proof
  assume "buildIdempotencyKey (toHexString i) u e = buildIdempotencyKey (toHexString j) u' e'"
  then have "toHexString i @ CHR '':'' # (u @ '':'' @ show_nat e) =
      toHexString j @ CHR '':'' # (u' @ '':'' @ show_nat e')"
    by (simp add: buildIdempotencyKey_def)
  then have ij: "toHexString i = toHexString j" and r: "u @ '':'' @ show_nat e = u' @ '':'' @ show_nat e'"
    using split_first_colon [OF toHexString_no_colon toHexString_no_colon] by blast+
  have "rev (show_nat e) @ CHR '':'' # rev u = rev (show_nat e') @ CHR '':'' # rev u'"
    using arg_cong [OF r, of rev] by simp
  then have "rev (show_nat e) = rev (show_nat e') \<and> rev u = rev u'"
    by (intro split_first_colon) (simp_all add: show_nat_no_colon)
  with ij assms show "i = j \<and> u = u' \<and> e = e'" by (simp add: toHexString_inject)
qed simp

theorem idempotency_key_injective_witness:
  "buildIdempotencyKey (toHexString 7) ''list:1'' 0 \<noteq> buildIdempotencyKey (toHexString 7) ''list'' 10"
  using idempotency_key_injective [of 7 7 "''list:1''" 0 "''list''" 10] by simp

section \<open>What the drivers send\<close>

text \<open>
  The Credit Manager with a log of its requests and responses beside it: the drivers do not see
  the log, so they behave as with the Credit Manager alone.
\<close>

type_synonym 'b request = "string \<times> 'b list \<times> (thrown + batch_item list)"

definition logged ::
  "('b list \<Rightarrow> string \<Rightarrow> 'cm \<Rightarrow> (thrown + batch_item list) \<times> 'cm) \<Rightarrow>
    'b list \<Rightarrow> string \<Rightarrow> 'cm \<times> 'b request list \<Rightarrow> (thrown + batch_item list) \<times> ('cm \<times> 'b request list)" where
  "logged post bodies key cl =
     (let (r, cm1) = post bodies key (fst cl) in (r, (cm1, snd cl @ [(key, bodies, r)])))"

lemma logged_simp [simp]:
  "post bodies key cm = (r, cm1) \<Longrightarrow> logged post bodies key (cm, sent) = (r, (cm1, sent @ [(key, bodies, r)]))"
  by (simp add: logged_def)

lemma logged_walk:
  "fst (batch_walk i op (logged post) es p c (cm, sent)) = fst (batch_walk i op post es p c cm) \<and>
   fst (snd (batch_walk i op (logged post) es p c (cm, sent))) = snd (batch_walk i op post es p c cm)"
proof (induction es arbitrary: p c cm sent)
  case (Cons e es)
  obtain r cm1 where r: "post (map b_body p) (buildIdempotencyKey i op e) cm = (r, cm1)"
    by (cases "post (map b_body p) (buildIdempotencyKey i op e) cm")
  with Cons show ?case by (cases r) (simp_all add: Let_def)
qed simp

text \<open>The bodies a response confirms, and those it leaves expired.\<close>

definition confirmed_bodies :: "'b request \<Rightarrow> 'b list" where
  "confirmed_bodies q = (case q of (_, bodies, Inr items) \<Rightarrow>
       List.map_filter (\<lambda>item. if i_confirmed item then item_at bodies (i_index item) else None) items
     | _ \<Rightarrow> [])"

definition expired_bodies :: "'b request \<Rightarrow> 'b list" where
  "expired_bodies q = (case q of (_, bodies, Inr items) \<Rightarrow>
       List.map_filter (\<lambda>item. if i_confirmed item then None else item_at bodies (i_index item)) items
     | _ \<Rightarrow> [])"

text \<open>A response names no item twice.\<close>

definition response_wf :: "'b request \<Rightarrow> bool" where
  "response_wf q = (case q of (_, _, Inr items) \<Rightarrow> distinct (map i_index items) | _ \<Rightarrow> True)"

lemma item_at_map: "item_at (map f us) i = map_option f (item_at us i)"
  by (auto simp: item_at_def nat_less_iff)

lemma item_at_mem: "item_at us i = Some u \<Longrightarrow> u \<in> set us"
  by (auto simp: item_at_def split: if_splits)

lemma item_at_inject:
  "distinct us \<Longrightarrow> item_at us i = Some u \<Longrightarrow> item_at us j = Some u \<Longrightarrow> i = j"
  by (auto simp: item_at_def nth_eq_iff_index_eq split: if_splits)

lemma expired_bodies_units:
  "expired_bodies (k, map b_body p, Inr items) = map b_body (expired_units p items)"
  unfolding expired_bodies_def expired_units_def
  by (induction items) (auto simp: map_filter_simps item_at_map split: option.splits)

lemma expired_distinct:
  assumes "distinct us" "distinct (map i_index items)"
  shows "distinct (List.map_filter (\<lambda>item. if i_confirmed item then None else item_at us (i_index item)) items)"
  using assms(2)
proof (induction items)
  case (Cons x items)
  have "u \<notin> set (List.map_filter (\<lambda>item. if i_confirmed item then None else item_at us (i_index item)) items)"
    if "item_at us (i_index x) = Some u" for u
  proof
    assume "u \<in> set (List.map_filter (\<lambda>item. if i_confirmed item then None else item_at us (i_index item)) items)"
    then obtain y where "y \<in> set items" "item_at us (i_index y) = Some u"
      by (auto simp: map_filter_def split: if_splits)
    with item_at_inject [OF assms(1) that] Cons.prems show False by auto
  qed
  with Cons show ?case by (auto simp: map_filter_simps split: option.splits)
qed (simp add: map_filter_simps)

lemma confirmed_expired_disjoint:
  assumes "distinct us" "distinct (map i_index items)"
    and "b \<in> set (List.map_filter (\<lambda>item. if i_confirmed item then item_at us (i_index item) else None) items)"
  shows "b \<notin> set (List.map_filter (\<lambda>item. if i_confirmed item then None else item_at us (i_index item)) items)"
proof
  assume "b \<in> set (List.map_filter (\<lambda>item. if i_confirmed item then None else item_at us (i_index item)) items)"
  then obtain y where y: "y \<in> set items" "\<not> i_confirmed y" "item_at us (i_index y) = Some b"
    by (auto simp: map_filter_def split: if_splits)
  obtain x where x: "x \<in> set items" "i_confirmed x" "item_at us (i_index x) = Some b"
    using assms(3) by (auto simp: map_filter_def split: if_splits)
  have "i_index x = i_index y" using item_at_inject [OF assms(1) x(3) y(3)] .
  with keyed_unique [OF assms(2) x(1) y(1)] x(2) y(2) show False by simp
qed

text \<open>Each request of a walk carries exactly what the one before it left expired, in order.\<close>

fun request_chain :: "'b list \<Rightarrow> 'b request list \<Rightarrow> bool" where
  "request_chain bodies [] = True"
| "request_chain bodies (q # qs) \<longleftrightarrow> fst (snd q) = bodies \<and> request_chain (expired_bodies q) qs"

lemma batch_walk_chain:
  "\<exists>qs. snd (snd (batch_walk i op (logged post) es p c (cm, sent))) = sent @ qs \<and>
     request_chain (map b_body p) qs \<and> map fst qs = map (buildIdempotencyKey i op) (take (length qs) es)"
proof (induction es arbitrary: p c cm sent)
  case (Cons e es)
  let ?k = "buildIdempotencyKey i op e"
  obtain r cm1 where r: "post (map b_body p) ?k cm = (r, cm1)"
    by (cases "post (map b_body p) ?k cm")
  show ?case
  proof (cases "\<exists>items. r = Inr items \<and> expired_units p items \<noteq> []")
    case True
    then obtain items where items: "r = Inr items" "expired_units p items \<noteq> []" by blast
    let ?q = "(?k, map b_body p, Inr items)"
    obtain qs where qs: "snd (snd (batch_walk i op (logged post) es (expired_units p items)
          (c @ confirmations p items) (cm1, sent @ [?q]))) = (sent @ [?q]) @ qs"
        "request_chain (map b_body (expired_units p items)) qs"
        "map fst qs = map (buildIdempotencyKey i op) (take (length qs) es)"
      using Cons.IH by blast
    then show ?thesis
      using r items by (intro exI [of _ "?q # qs"]) (simp add: expired_bodies_units)
  next
    case False
    then have "snd (snd (batch_walk i op (logged post) (e # es) p c (cm, sent))) = sent @ [(?k, map b_body p, r)]"
      using r by (cases r) (auto simp: Let_def)
    then show ?thesis by (intro exI [of _ "[(?k, map b_body p, r)]"]) simp
  qed
qed simp

lemma request_chain_subset:
  "request_chain bodies qs \<Longrightarrow> q \<in> set qs \<Longrightarrow> set (fst (snd q)) \<subseteq> set bodies"
proof (induction qs arbitrary: bodies)
  case (Cons x qs)
  have "set (expired_bodies x) \<subseteq> set (fst (snd x))"
    by (auto simp: expired_bodies_def map_filter_def item_at_mem split: prod.splits sum.splits if_splits)
  with Cons.IH [of "expired_bodies x"] Cons.prems show ?case by fastforce
qed simp

lemma request_chain_safe:
  assumes "request_chain bodies qs" "distinct bodies" "\<forall>q \<in> set qs. response_wf q"
    and "m < n" "n < length qs" "b \<in> set (confirmed_bodies (qs ! m))"
  shows "b \<notin> set (fst (snd (qs ! n)))"
  using assms
proof (induction qs arbitrary: bodies m n)
  case (Cons q qs)
  obtain k bs r where q: "q = (k, bs, r)" by (cases q)
  have d: "distinct (expired_bodies q)"
    using Cons.prems by (auto simp: expired_bodies_def response_wf_def intro: expired_distinct
        split: prod.splits sum.splits)
  obtain n' where n: "n = Suc n'" using Cons.prems(4) by (cases n) auto
  show ?case
  proof (cases m)
    case 0
    have "b \<notin> set (expired_bodies q)"
    proof (cases r)
      case (Inr items)
      have "bs = bodies" using Cons.prems(1) q by simp
      with Cons.prems 0 q Inr confirmed_expired_disjoint [of bodies items b] show ?thesis
        by (simp add: confirmed_bodies_def expired_bodies_def response_wf_def)
    qed (simp add: q expired_bodies_def)
    moreover have "set (fst (snd (qs ! n'))) \<subseteq> set (expired_bodies q)"
      using Cons.prems n by (intro request_chain_subset [of _ qs]) auto
    ultimately show ?thesis using n by auto
  next
    case (Suc m')
    with Cons.IH [of "expired_bodies q" m' n'] Cons.prems d n show ?thesis by simp
  qed
qed simp


definition complete_response :: "'b request \<Rightarrow> bool" where
  "complete_response q = (case q of
       (_, bodies, Inr items) \<Rightarrow> distinct (map i_index items) \<and>
         set (map i_index items) = int ` {0..<length bodies}
     | _ \<Rightarrow> True)"

fun result_confirmed :: "'i batch_result \<Rightarrow> 'i confirmation list" where
  "result_confirmed (Batch_Ok c) = c"
| "result_confirmed (Batch_Retry c h) = c"
| "result_confirmed (Batch_Fatal c e) = c"

lemma complete_confirmations:
  assumes "distinct (map b_id p)" "distinct (map i_index items)"
    and "set (map i_index items) = int ` {0..<length p}"
  shows "distinct (map c_id (confirmations p items)) \<and>
     set (map c_id (confirmations p items)) \<union> set (map b_id (expired_units p items)) = set (map b_id p) \<and>
     set (map c_id (confirmations p items)) \<inter> set (map b_id (expired_units p items)) = {} \<and>
     distinct (map b_id (expired_units p items))"
proof -
  let ?at = "\<lambda>x. b_id (p ! nat (i_index x))"
  have rng: "0 \<le> i_index x \<and> i_index x < int (length p)" if "x \<in> set items" for x
  proof -
    have "i_index x \<in> int ` {0..<length p}" using that assms(3) by (metis image_eqI list.set_map)
    then show ?thesis by auto
  qed
  have c: "map c_id (confirmations p xs) = map ?at (filter i_confirmed xs)"
    and e: "map b_id (expired_units p xs) = map ?at (filter (\<lambda>x. \<not> i_confirmed x) xs)"
    if "set xs \<subseteq> set items" for xs
    using that rng
    by (induction xs) (auto simp: confirmations_def expired_units_def map_filter_simps item_at_def)
  have inj: "x = y" if "x \<in> set items" "y \<in> set items" "?at x = ?at y" for x y
  proof -
    have "nat (i_index x) = nat (i_index y)"
      using that(3) rng [OF that(1)] rng [OF that(2)] nth_eq_iff_index_eq [OF assms(1)]
      by (simp add: nat_less_iff)
    then have "i_index x = i_index y"
      using rng [OF that(1)] rng [OF that(2)] by (simp add: eq_nat_nat_iff)
    with keyed_unique [OF assms(2) that(1,2)] show ?thesis by simp
  qed
  have di: "distinct items" using assms(2) by (simp add: distinct_map)
  have dm: "distinct (map ?at (filter Q items))" for Q
    using di inj by (auto simp: distinct_map inj_on_def)
  have disj: "set (map ?at (filter i_confirmed items)) \<inter> set (map ?at (filter (\<lambda>x. \<not> i_confirmed x) items)) = {}"
  proof (rule ccontr)
    assume "\<not> ?thesis"
    then obtain x y where "x \<in> set items" "i_confirmed x" "y \<in> set items" "\<not> i_confirmed y" "?at x = ?at y"
      by (auto simp del: not_None_eq)
    with inj [of x y] show False by auto
  qed
  have "?at ` set items = (\<lambda>k. b_id (p ! k)) ` ((\<lambda>x. nat (i_index x)) ` set items)"
    by (simp add: image_image)
  also have "(\<lambda>x. nat (i_index x)) ` set items = nat ` (set (map i_index items))"
    by (simp add: image_image)
  also have "\<dots> = {0..<length p}" by (simp only: assms(3) image_image nat_int image_ident)
  also have "(\<lambda>k. b_id (p ! k)) ` {0..<length p} = set (map b_id p)"
    using nth_image [of "length p" "p"] by (simp add: image_image [symmetric] atLeast0LessThan)
  finally have "set (map ?at (filter i_confirmed items)) \<union> set (map ?at (filter (\<lambda>x. \<not> i_confirmed x) items)) =
      set (map b_id p)" by auto
  with dm disj show ?thesis unfolding c [OF subset_refl] e [OF subset_refl] by blast
qed

lemma batch_walk_conserves:
  assumes "batch_walk i op (logged post) es p c (cm, sent) = (res, (cm', sent @ qs))"
    and "\<forall>q \<in> set qs. complete_response q" "distinct (map b_id p)"
    and "distinct (map c_id c)" "set (map c_id c) \<inter> set (map b_id p) = {}"
  shows "distinct (map c_id (result_confirmed res)) \<and>
    set (map c_id (result_confirmed res)) \<subseteq> set (map c_id c) \<union> set (map b_id p) \<and>
    (\<forall>c'. res = Batch_Ok c' \<longrightarrow> set (map c_id c') = set (map c_id c) \<union> set (map b_id p))"
  using assms
proof (induction es arbitrary: p c cm sent qs)
  case Nil
  then show ?case by auto
next
  case (Cons e es)
  let ?k = "buildIdempotencyKey i op e"
  obtain r cm1 where r: "post (map b_body p) ?k cm = (r, cm1)"
    by (cases "post (map b_body p) ?k cm")
  show ?case
  proof (cases r)
    case (Inl err)
    with Cons.prems r show ?thesis by (auto split: if_splits)
  next
    case (Inr items)
    let ?q = "(?k, map b_body p, Inr items)"
    let ?c1 = "c @ confirmations p items" and ?p1 = "expired_units p items"
    have q: "?q \<in> set qs"
    proof (cases "?p1 = []")
      case True
      with Cons.prems(1) r Inr show ?thesis by (auto simp: Let_def)
    next
      case False
      then have w: "batch_walk i op (logged post) es ?p1 ?c1 (cm1, sent @ [?q]) = (res, (cm', sent @ qs))"
        using Cons.prems(1) r Inr by (simp add: Let_def)
      obtain qs' where "snd (snd (batch_walk i op (logged post) es ?p1 ?c1 (cm1, sent @ [?q]))) = (sent @ [?q]) @ qs'"
        using batch_walk_chain [of i op post es ?p1 ?c1 cm1 "sent @ [?q]"] by blast
      with w show ?thesis by simp
    qed
    then have "complete_response ?q" using Cons.prems(2) by blast
    then have step: "distinct (map c_id (confirmations p items)) \<and>
        set (map c_id (confirmations p items)) \<union> set (map b_id ?p1) = set (map b_id p) \<and>
        set (map c_id (confirmations p items)) \<inter> set (map b_id ?p1) = {} \<and> distinct (map b_id ?p1)"
      using Cons.prems(3) by (intro complete_confirmations) (simp_all add: complete_response_def)
    have c1: "distinct (map c_id ?c1)" "set (map c_id ?c1) \<inter> set (map b_id ?p1) = {}"
      "set (map c_id ?c1) \<union> set (map b_id ?p1) = set (map c_id c) \<union> set (map b_id p)"
      using step Cons.prems(4,5) unfolding map_append set_append distinct_append by blast+
    show ?thesis
    proof (cases "?p1 = []")
      case True
      then have "res = Batch_Ok ?c1" using Cons.prems(1) r Inr by (simp add: Let_def)
      with True c1 show ?thesis by (simp add: image_Un)
    next
      case False
      then have w: "batch_walk i op (logged post) es ?p1 ?c1 (cm1, sent @ [?q]) = (res, (cm', sent @ qs))"
        using Cons.prems(1) r Inr by (simp add: Let_def)
      obtain qs' where "snd (snd (batch_walk i op (logged post) es ?p1 ?c1 (cm1, sent @ [?q]))) = (sent @ [?q]) @ qs'"
        using batch_walk_chain [of i op post es ?p1 ?c1 cm1 "sent @ [?q]"] by blast
      with w have qs': "qs = ?q # qs'" by simp
      have w': "batch_walk i op (logged post) es ?p1 ?c1 (cm1, sent @ [?q]) = (res, (cm', (sent @ [?q]) @ qs'))"
        using w qs' by simp
      have comp: "\<forall>q \<in> set qs'. complete_response q" using Cons.prems(2) qs' by simp
      have dp: "distinct (map b_id ?p1)" using step by blast
      show ?thesis
        using Cons.IH [OF w' comp dp c1(1,2)] unfolding c1(3) .
    qed
  qed
qed

text \<open>
  The result of a batch is what happened: with responses that name every item they were sent
  exactly once, \<open>ok\<close> means that every unit of the frozen set is confirmed exactly once, and a
  \<open>retry\<close> or \<open>fatal\<close> carries no unit twice and none that is not in the set.
\<close>

theorem batch_result_complete:
  fixes us :: "('i, 'b) batch_unit list"
  assumes "runIdempotentBatch taskId op maxEpoch us (logged post) (cm, []) = (res, (cm', qs))"
    and "\<forall>q \<in> set qs. complete_response q" "distinct (map b_id us)"
  shows "distinct (map c_id (result_confirmed res)) \<and>
    set (map c_id (result_confirmed res)) \<subseteq> set (map b_id us) \<and>
    (\<forall>c. res = Batch_Ok c \<longrightarrow> set (map c_id c) = set (map b_id us))"
proof (cases "us = []")
  case True
  with assms(1) show ?thesis by (auto simp: runIdempotentBatch_def)
next
  case False
  then have w: "batch_walk taskId op (logged post) [0..<Suc maxEpoch] us [] (cm, []) = (res, (cm', [] @ qs))"
    using assms(1) by (simp add: runIdempotentBatch_def)
  show ?thesis
    using batch_walk_conserves [OF w assms(2,3)] by simp
qed

section \<open>Re-walking\<close>

text \<open>
  The Credit Manager's documented contract, over what it keeps per key: the payload it was first
  sent under the key, and the verdict once every item of it is resolved. A key's payload and a
  verdict never change; a response to a key is its verdict; and a payload mismatch is only ever
  reported for a key that was sent another payload.
\<close>

definition is_mismatch :: "thrown + batch_item list \<Rightarrow> bool" where
  "is_mismatch r = (case r of Inl e \<Rightarrow> (case th_api e of
       Some a \<Rightarrow> a_code a = Some Code_PAYLOAD_MISMATCH | None \<Rightarrow> False) | Inr items \<Rightarrow> False)"

definition cm_contract ::
  "('b list \<Rightarrow> string \<Rightarrow> 'cm \<Rightarrow> (thrown + batch_item list) \<times> 'cm) \<Rightarrow>
    ('cm \<Rightarrow> string \<Rightarrow> 'b list option) \<Rightarrow> ('cm \<Rightarrow> string \<Rightarrow> batch_item list option) \<Rightarrow> bool" where
  "cm_contract post payload verdict \<longleftrightarrow> (\<forall>bodies key cm r cm1. post bodies key cm = (r, cm1) \<longrightarrow>
     (is_mismatch r \<longrightarrow> payload cm key \<noteq> None \<and> payload cm key \<noteq> Some bodies) \<and>
     (\<forall>k. payload cm1 k = payload cm k \<or> (k = key \<and> payload cm k = None \<and> payload cm1 k = Some bodies)) \<and>
     (\<forall>k v. verdict cm k = Some v \<longrightarrow> verdict cm1 k = Some v) \<and>
     (\<forall>items. r = Inr items \<longrightarrow> verdict cm1 key = Some items))"

text \<open>
  Whatever happens at the Credit Manager between two runs (items land or expire, other tasks are
  served): the keys of this operation keep their payload and their verdict.
\<close>

definition cm_between ::
  "('cm \<Rightarrow> string \<Rightarrow> 'b list option) \<Rightarrow> ('cm \<Rightarrow> string \<Rightarrow> batch_item list option) \<Rightarrow> (nat \<Rightarrow> string) \<Rightarrow>
    ('cm \<Rightarrow> 'cm) \<Rightarrow> bool" where
  "cm_between payload verdict key f \<longleftrightarrow> (\<forall>cm e. payload (f cm) (key e) = payload cm (key e) \<and>
     (\<forall>v. verdict cm (key e) = Some v \<longrightarrow> verdict (f cm) (key e) = Some v))"

text \<open>The units an epoch is to carry, given the verdicts of the epochs before it.\<close>

fun expected_units ::
  "('i, 'b) batch_unit list \<Rightarrow> (nat \<Rightarrow> batch_item list option) \<Rightarrow> nat \<Rightarrow> ('i, 'b) batch_unit list option" where
  "expected_units us v 0 = Some us"
| "expected_units us v (Suc e) = (case (expected_units us v e, v e) of
       (Some p, Some items) \<Rightarrow> Some (expired_units p items) | _ \<Rightarrow> None)"

lemma expected_units_mono:
  "\<forall>e items. v e = Some items \<longrightarrow> v' e = Some items \<Longrightarrow> expected_units us v e = Some p \<Longrightarrow>
     expected_units us v' e = Some p"
  by (induction e arbitrary: p) (auto split: option.splits)

text \<open>What holds of the Credit Manager and the log of one operation between any two runs.\<close>

definition walk_inv ::
  "('cm \<Rightarrow> string \<Rightarrow> 'b list option) \<Rightarrow> ('cm \<Rightarrow> string \<Rightarrow> batch_item list option) \<Rightarrow> (nat \<Rightarrow> string) \<Rightarrow>
    ('i, 'b) batch_unit list \<Rightarrow> 'cm \<times> 'b request list \<Rightarrow> bool" where
  "walk_inv payload verdict key us cl \<longleftrightarrow>
     (\<forall>e bodies. payload (fst cl) (key e) = Some bodies \<longrightarrow>
        (\<exists>p. expected_units us (\<lambda>n. verdict (fst cl) (key n)) e = Some p \<and> bodies = map b_body p)) \<and>
     (\<forall>(k, bodies, r) \<in> set (snd cl). \<not> is_mismatch r \<and> (\<exists>e p. k = key e \<and>
        expected_units us (\<lambda>n. verdict (fst cl) (key n)) e = Some p \<and> bodies = map b_body p))"

lemma walk_inv_payload:
  "walk_inv payload verdict key us (cm, sent) \<Longrightarrow> payload cm (key e) = Some bodies \<Longrightarrow>
     \<exists>p. expected_units us (\<lambda>n. verdict cm (key n)) e = Some p \<and> bodies = map b_body p"
  by (simp add: walk_inv_def)

lemma walk_inv_sent:
  "walk_inv payload verdict key us (cm, sent) \<Longrightarrow> (k, bodies, r) \<in> set sent \<Longrightarrow>
     \<not> is_mismatch r \<and> (\<exists>e p. k = key e \<and>
       expected_units us (\<lambda>n. verdict cm (key n)) e = Some p \<and> bodies = map b_body p)"
  unfolding walk_inv_def by force

lemma walk_invI:
  assumes "\<And>e bodies. payload cm (key e) = Some bodies \<Longrightarrow>
      \<exists>p. expected_units us (\<lambda>n. verdict cm (key n)) e = Some p \<and> bodies = map b_body p"
    and "\<And>k bodies r. (k, bodies, r) \<in> set sent \<Longrightarrow> \<not> is_mismatch r \<and> (\<exists>e p. k = key e \<and>
      expected_units us (\<lambda>n. verdict cm (key n)) e = Some p \<and> bodies = map b_body p)"
  shows "walk_inv payload verdict key us (cm, sent)"
  unfolding walk_inv_def using assms by auto

lemma walk_inv_between:
  assumes "walk_inv payload verdict key us (cm, sent)" "cm_between payload verdict key f"
  shows "walk_inv payload verdict key us (f cm, sent)"
proof -
  have mono: "expected_units us (\<lambda>n. verdict (f cm) (key n)) e = Some p"
    if "expected_units us (\<lambda>n. verdict cm (key n)) e = Some p" for e p
    by (rule expected_units_mono [OF _ that]) (use assms(2) in \<open>simp add: cm_between_def\<close>)
  have "payload (f cm) (key e) = payload cm (key e)" for e using assms(2) by (simp add: cm_between_def)
  with walk_inv_payload [OF assms(1)] walk_inv_sent [OF assms(1)] mono show ?thesis
    by (intro walk_invI) (metis, metis)
qed

lemma walk_inv_post:
  assumes c: "cm_contract post payload verdict" and key: "inj key"
    and inv: "walk_inv payload verdict key us (cm, sent)"
    and e: "expected_units us (\<lambda>n. verdict cm (key n)) e = Some p"
    and r: "post (map b_body p) (key e) cm = (r, cm1)"
  shows "walk_inv payload verdict key us (cm1, sent @ [(key e, map b_body p, r)]) \<and>
    (\<forall>items. r = Inr items \<longrightarrow>
       expected_units us (\<lambda>n. verdict cm1 (key n)) (Suc e) = Some (expired_units p items))"
proof -
  note C = c [unfolded cm_contract_def, rule_format, OF r]
  have mono: "expected_units us (\<lambda>n. verdict cm1 (key n)) n = Some q"
    if "expected_units us (\<lambda>n. verdict cm (key n)) n = Some q" for n q
    by (rule expected_units_mono [OF _ that]) (use C in blast)
  have pay: "\<exists>q. expected_units us (\<lambda>n. verdict cm1 (key n)) n = Some q \<and> bodies = map b_body q"
    if "payload cm1 (key n) = Some bodies" for n bodies
  proof (cases "payload cm1 (key n) = payload cm (key n)")
    case True
    with that have "payload cm (key n) = Some bodies" by simp
    from walk_inv_payload [OF inv this] mono show ?thesis by blast
  next
    case False
    with C have "key n = key e" "payload cm1 (key n) = Some (map b_body p)" by metis+
    with that mono [OF e] key show ?thesis by (auto simp: inj_eq)
  qed
  have "\<not> is_mismatch r"
  proof
    assume "is_mismatch r"
    with C obtain bodies where b: "payload cm (key e) = Some bodies" "bodies \<noteq> map b_body p" by auto
    from walk_inv_payload [OF inv b(1)] e b(2) show False by auto
  qed
  moreover have "\<not> is_mismatch r' \<and> (\<exists>n q. k = key n \<and>
      expected_units us (\<lambda>n. verdict cm1 (key n)) n = Some q \<and> bodies = map b_body q)"
    if "(k, bodies, r') \<in> set sent" for k bodies r'
    using walk_inv_sent [OF inv that] mono by blast
  ultimately have "walk_inv payload verdict key us (cm1, sent @ [(key e, map b_body p, r)])"
    using pay mono [OF e] by (intro walk_invI) auto
  moreover have "expected_units us (\<lambda>n. verdict cm1 (key n)) (Suc e) = Some (expired_units p items)"
    if "r = Inr items" for items
    using C that mono [OF e] by simp
  ultimately show ?thesis by blast
qed

lemma walk_inv_walk:
  assumes "cm_contract post payload verdict" "inj (buildIdempotencyKey taskId op)"
    and "walk_inv payload verdict (buildIdempotencyKey taskId op) us (cm, sent)"
    and "expected_units us (\<lambda>n. verdict cm (buildIdempotencyKey taskId op n)) e = Some p"
  shows "walk_inv payload verdict (buildIdempotencyKey taskId op) us
    (snd (batch_walk taskId op (logged post) [e..<m] p c (cm, sent)))"
  using assms(3,4)
proof (induction "m - e" arbitrary: e p c cm sent)
  case (Suc k)
  let ?key = "buildIdempotencyKey taskId op"
  have em: "[e..<m] = e # [Suc e..<m]" using Suc.hyps(2) by (simp add: upt_rec)
  obtain r cm1 where r: "post (map b_body p) (?key e) cm = (r, cm1)"
    by (cases "post (map b_body p) (?key e) cm")
  note step = walk_inv_post [OF assms(1,2) Suc.prems r]
  show ?case
  proof (cases r)
    case (Inl err)
    with r step show ?thesis by (simp add: em)
  next
    case (Inr items)
    have "k = m - Suc e" using Suc.hyps(2) by simp
    from Suc.hyps(1) [OF this, of cm1 "sent @ [(?key e, map b_body p, r)]" "expired_units p items"
        "c @ confirmations p items"] step Inr r
    show ?thesis by (auto simp: em Let_def)
  qed
qed simp

text \<open>A run of a task, over and over, with anything going on in between.\<close>

fun rewalk ::
  "string \<Rightarrow> string \<Rightarrow> nat \<Rightarrow> ('i, 'b) batch_unit list \<Rightarrow>
    ('b list \<Rightarrow> string \<Rightarrow> 'cm \<Rightarrow> (thrown + batch_item list) \<times> 'cm) \<Rightarrow> ('cm \<Rightarrow> 'cm) list \<Rightarrow>
    'cm \<times> 'b request list \<Rightarrow> 'cm \<times> 'b request list" where
  "rewalk taskId op maxEpoch us post [] cl = cl"
| "rewalk taskId op maxEpoch us post (f # fs) cl =
     (let cl1 = snd (runIdempotentBatch taskId op maxEpoch us (logged post) cl)
      in rewalk taskId op maxEpoch us post fs (f (fst cl1), snd cl1))"

lemma inj_key: "inj (buildIdempotencyKey taskId op)"
  by (rule injI) (simp add: buildIdempotencyKey_def)

lemma walk_inv_rewalk:
  assumes "cm_contract post payload verdict"
    and "walk_inv payload verdict (buildIdempotencyKey taskId op) us cl"
    and "\<forall>f \<in> set fs. cm_between payload verdict (buildIdempotencyKey taskId op) f"
  shows "walk_inv payload verdict (buildIdempotencyKey taskId op) us (rewalk taskId op maxEpoch us post fs cl)"
  using assms(2,3)
proof (induction fs arbitrary: cl)
  case (Cons f fs)
  let ?key = "buildIdempotencyKey taskId op"
  let ?cl1 = "snd (runIdempotentBatch taskId op maxEpoch us (logged post) cl)"
  have "walk_inv payload verdict ?key us ?cl1"
    using walk_inv_walk [OF assms(1) inj_key, of taskId op us "fst cl" "snd cl" 0 us "Suc maxEpoch" "[]"] Cons.prems(1)
    by (cases "us = []") (simp_all add: runIdempotentBatch_def del: upt_Suc)
  then have "walk_inv payload verdict ?key us (f (fst ?cl1), snd ?cl1)"
    using Cons.prems(2) walk_inv_between [of payload verdict ?key us "fst ?cl1" "snd ?cl1" f] by simp
  from Cons.IH [OF this] Cons.prems(2) show ?case by (simp add: Let_def)
qed simp

text \<open>
  A key always carries the same payload: however often a task is run again, from epoch 0 each
  time, with anything happening at the Credit Manager in between, two requests under one key carry
  the same bodies and no request is ever answered with a payload mismatch. Nothing is stored for
  this: it holds because each epoch's payload follows from the verdicts of the epochs before it.
\<close>

theorem rewalk_never_mismatches:
  fixes us :: "('i, 'b) batch_unit list"
  assumes "cm_contract post payload verdict"
    and "\<forall>f \<in> set fs. cm_between payload verdict (buildIdempotencyKey taskId op) f"
    and "\<forall>e. payload cm (buildIdempotencyKey taskId op e) = None"
    and "snd (rewalk taskId op maxEpoch us post fs (cm, [])) = qs"
  shows "(\<forall>(k, bodies, r) \<in> set qs. \<not> is_mismatch r) \<and>
    (\<forall>(k, bodies, r) \<in> set qs. \<forall>(k', bodies', r') \<in> set qs. k = k' \<longrightarrow> bodies = bodies')"
proof -
  let ?key = "buildIdempotencyKey taskId op"
  let ?cl = "rewalk taskId op maxEpoch us post fs (cm, [])"
  have "walk_inv payload verdict ?key us (cm, [])"
    using assms(3) by (simp add: walk_inv_def)
  then have inv: "walk_inv payload verdict ?key us ?cl"
    using assms(1,2) by (intro walk_inv_rewalk)
  have ent: "\<not> is_mismatch r \<and> (\<exists>e p. k = ?key e \<and>
      expected_units us (\<lambda>n. verdict (fst ?cl) (?key n)) e = Some p \<and> bodies = map b_body p)"
    if "(k, bodies, r) \<in> set qs" for k bodies r
    using inv that assms(4) unfolding walk_inv_def by blast
  have "bodies = bodies'" if "(k, bodies, r) \<in> set qs" "(k, bodies', r') \<in> set qs" for k bodies r bodies' r'
    using ent [OF that(1)] ent [OF that(2)] inj_key [of taskId op] by (auto simp: inj_eq)
  with ent show ?thesis by fast
qed

section \<open>A concrete Credit Manager\<close>

text \<open>
  It keeps the payload of each key and decides at once: every item of an even-length payload
  lands, an odd-length one expires as a whole.
\<close>

definition example_post ::
  "nat list \<Rightarrow> string \<Rightarrow> (string \<Rightarrow> nat list option) \<Rightarrow> (thrown + batch_item list) \<times> (string \<Rightarrow> nat list option)" where
  "example_post bodies key cm =
     (let verdict = map (\<lambda>n. \<lparr>i_index = int n, i_confirmed = even (length bodies), i_tx = None,
             i_job = None, i_run = None\<rparr>) [0..<length bodies]
      in case cm key of
           Some b \<Rightarrow> if b = bodies then (Inr verdict, cm)
             else (Inl \<lparr>th_error = None, th_text = [], th_api = Some \<lparr>a_code = Some Code_PAYLOAD_MISMATCH,
               a_statusCode = 422, a_retryAfter = None\<rparr>\<rparr>, cm)
         | None \<Rightarrow> (Inr verdict, cm(key \<mapsto> bodies)))"

definition example_verdict :: "(string \<Rightarrow> nat list option) \<Rightarrow> string \<Rightarrow> batch_item list option" where
  "example_verdict cm key = map_option (\<lambda>bodies. map (\<lambda>n. \<lparr>i_index = int n,
     i_confirmed = even (length bodies), i_tx = None, i_job = None, i_run = None\<rparr>) [0..<length bodies]) (cm key)"

lemma example_contract: "cm_contract example_post (\<lambda>cm. cm) example_verdict"
  unfolding cm_contract_def example_post_def Let_def
  by (auto simp: is_mismatch_def example_verdict_def split: option.splits if_splits)

definition example_units :: "(nat, nat) batch_unit list" where
  "example_units = [\<lparr>b_id = 0, b_body = 10\<rparr>, \<lparr>b_id = 1, b_body = 11\<rparr>]"

theorem rewalk_never_mismatches_witness:
  "list_all (\<lambda>(k, bodies, r). \<not> is_mismatch r)
     (snd (rewalk ''a'' ''list'' 3 example_units example_post [id, id] (Map.empty, [])))"
  using rewalk_never_mismatches [OF example_contract, of "[id, id]" "''a''" "''list''" Map.empty
      "3" example_units, OF _ _ refl]
  by (simp add: cm_between_def list_all_iff)

lemma example_run:
  "\<exists>res cm'. runIdempotentBatch ''a'' ''list'' 3 example_units (logged example_post) (Map.empty, []) =
     (res, (cm', [(''a:list:0'', [10, 11], Inr [
        \<lparr>i_index = 0, i_confirmed = True, i_tx = None, i_job = None, i_run = None\<rparr>,
        \<lparr>i_index = 1, i_confirmed = True, i_tx = None, i_job = None, i_run = None\<rparr>])]))"
  by (simp add: runIdempotentBatch_def example_units_def logged_def example_post_def Let_def
      upt_rec expired_units_def map_filter_simps item_at_def buildIdempotencyKey_def
      show_nat.simps [of 0] digit_char_def)


theorem batch_result_complete_witness:
  "set (map c_id (result_confirmed (fst (runIdempotentBatch ''a'' ''list'' 3 example_units (logged example_post) (Map.empty, []))))) \<subseteq> {0, 1}"
proof -
  obtain res cm' qs where q: "runIdempotentBatch ''a'' ''list'' 3 example_units (logged example_post) (Map.empty, []) = (res, (cm', qs))"
    and qs: "\<forall>q \<in> set qs. complete_response q"
    using example_run by (auto simp: complete_response_def atLeast0_lessThan_Suc insert_commute)
  have "distinct (map b_id example_units)" by (simp add: example_units_def)
  with batch_result_complete [OF q qs] q show ?thesis
    by (simp add: example_units_def)
qed

end
