(* ===== verification/Reserve.thy ===== *)
theory Reserve
  imports Orchestrate Idempotency
begin

text \<open>
  Before a LIST signs anything: what its vault can pay for (\<open>src/tasks/task/list/funds.ts\<close>)
  and the reservation of its nodes (\<open>src/tasks/task/list/reserve.ts\<close>), with the webhook
  that fills a waiting request. Host-manager, the chain, client-manager and the vault's key are
  parameters. Prices and balances are exact rationals: the program's floating point is not
  modelled. The text of an amount in an error is left to a parameter where the program prints a
  double.
\<close>

section \<open>Funds\<close>

record host_market =
  hm_address :: address
  hm_premium :: bool
  hm_usd_reward_per_hour :: "rat option"
  hm_nos_reward_per_second :: "rat option"

datatype list_budget = No_budget | MaxUsdPerHour rat | MaxJobPrice nat

datatype funds_check = Affordable nat list_budget | Insufficient string | Fatal_funds string

text \<open>What the check reads: each part is None when reading it fails.\<close>

record funds_env =
  fe_markets :: "host_market list option"
  fe_key :: "string option"
  fe_credits :: "(rat \<times> rat \<times> rat) option"
  fe_nos :: "nat option"
  fe_sol :: "nat option"
  fe_rents :: "nat list option"
  fe_text :: "nat \<Rightarrow> nat \<Rightarrow> string"

definition NOS_UNITS :: nat where "NOS_UNITS = 1000000"
definition LAMPORTS :: nat where "LAMPORTS = 1000000000"
definition ASSIGN_FEE_LAMPORTS :: nat where "ASSIGN_FEE_LAMPORTS = 100000"

text \<open>\<open>Math.round\<close>.\<close>

definition js_round :: "rat \<Rightarrow> int" where "js_round x = \<lfloor>x + 1 / 2\<rfloor>"

definition positive :: "rat option \<Rightarrow> rat list" where
  "positive price = (case price of Some p \<Rightarrow> if p > 0 then [p] else [] | None \<Rightarrow> [])"

definition min_price :: "rat list \<Rightarrow> rat" where
  "min_price prices = fold min (tl prices) (hd prices)"

definition creditsCost :: "rat \<Rightarrow> nat \<Rightarrow> int" where
  "creditsCost usdPerHour timeoutSeconds =
     max \<lceil>(usdPerHour * of_nat timeoutSeconds / 3600) * 1000\<rceil> 10"

text \<open>\<open>(amount / 1000).toFixed(3)\<close> of a whole number of 0.1 cents.\<close>

definition dollars :: "int \<Rightarrow> string" where
  "dollars amount =
     (let n = nat \<bar>amount\<bar>; d = show_nat (n mod 1000)
      in (if amount < 0 then ''-'' else []) @ show_nat (n div 1000) @ ''.'' @
         replicate (3 - length d) (CHR ''0'') @ d)"

definition checkCredits ::
  "funds_env \<Rightarrow> host_market list \<Rightarrow> nat \<Rightarrow> nat \<Rightarrow> funds_check option" where
  "checkCredits env markets n timeoutSeconds =
     (if list_ex (\<lambda>m. \<not> hm_premium m) markets
      then Some (Fatal_funds ''Credit-based jobs are only allowed on premium markets'')
      else (let prices = concat (map (\<lambda>m. positive (hm_usd_reward_per_hour m)) markets)
            in if prices = [] then None
               else (case fe_credits env of
                   None \<Rightarrow> None
                 | Some (assigned, reserved, settled) \<Rightarrow>
                     (let available = js_round ((assigned - reserved - settled) * 1000);
                          perJob = creditsCost (min_price prices) timeoutSeconds;
                          affordable = min (int n) (available div perJob)
                      in if affordable < 1
                         then Some (Insufficient (''Insufficient credits: $'' @ dollars available @
                           '' available, $'' @ dollars perJob @ '' needed per job''))
                         else Some (Affordable (nat affordable) (MaxUsdPerHour
                           (of_int available / 1000 / of_int affordable / (of_nat timeoutSeconds / 3600))))))))"

definition checkVault ::
  "funds_env \<Rightarrow> host_market list \<Rightarrow> nat \<Rightarrow> nat \<Rightarrow> funds_check option" where
  "checkVault env markets n timeoutSeconds =
     (let prices = concat (map (\<lambda>m. positive (hm_nos_reward_per_second m)) markets)
      in if prices = [] then None
         else (case (fe_nos env, fe_sol env, fe_rents env) of
             (Some nos, Some sol, Some rents) \<Rightarrow>
               (let jobPrice = nat (js_round (min_price prices * of_nat NOS_UNITS));
                    nosPerJob = jobPrice * timeoutSeconds;
                    solPerJob = fold (+) rents ASSIGN_FEE_LAMPORTS
                in if nosPerJob = 0 then None
                   else (let affordable = min n (min (nos div nosPerJob) (sol div solPerJob))
                         in if affordable < 1
                            then Some (Insufficient (''Insufficient funds in vault: '' @
                              fe_text env nos NOS_UNITS @ '' NOS and '' @ fe_text env sol LAMPORTS @
                              '' SOL available, '' @ fe_text env nosPerJob NOS_UNITS @ '' NOS and '' @
                              fe_text env solPerJob LAMPORTS @ '' SOL needed per job''))
                            else Some (Affordable affordable
                              (MaxJobPrice (nos div (affordable * timeoutSeconds))))))
           | _ \<Rightarrow> None))"

definition checkListFunds ::
  "funds_env \<Rightarrow> deployment_document \<Rightarrow> nat \<Rightarrow> funds_check option" where
  "checkListFunds env deployment n =
     (case fe_markets env of
        None \<Rightarrow> None
      | Some all \<Rightarrow>
          (let markets = filter (\<lambda>m. case d_market deployment of
                 None \<Rightarrow> hm_premium m | Some a \<Rightarrow> hm_address m = a) all;
               timeoutSeconds = nat (d_timeout deployment * 60)
           in if markets = [] then None
              else (case fe_key env of
                  None \<Rightarrow> None
                | Some key \<Rightarrow>
                    if starts_with key ''nos_'' then checkCredits env markets n timeoutSeconds
                    else checkVault env markets n timeoutSeconds)))"

section \<open>The reservation request\<close>

datatype request_status = Req_waiting | Req_fulfilled | Req_other string

record reservation_response =
  rr_status :: request_status
  rr_nodes :: "reserved_node list"
  rr_holdExpiresAt :: "ms option"

text \<open>The error of a request: host-manager's status, if it answered, and its message.\<close>

record request_error =
  re_status :: "nat option"
  re_message :: string

record request_body =
  rb_key :: string
  rb_market :: "address option"
  rb_requirements :: "string option"
  rb_count :: nat
  rb_budget :: list_budget
  rb_ttlSeconds :: int

definition MAX_RESERVATION_COUNT :: nat where "MAX_RESERVATION_COUNT = 50"
definition MAX_REQUEST_TTL_SECONDS :: int where "MAX_REQUEST_TTL_SECONDS = 900"

definition isLive :: "ms \<Rightarrow> task_reservation \<Rightarrow> bool" where
  "isLive now v \<longleftrightarrow> (case v_expiresAt v of Some e \<Rightarrow> e > now | None \<Rightarrow> False)"

definition toReservation :: "reserved_node list \<Rightarrow> ms option \<Rightarrow> task_reservation" where
  "toReservation nodes holdExpiresAt = \<lparr>v_expiresAt = holdExpiresAt, v_nodes = nodes\<rparr>"

definition used_nodes :: "task_document \<Rightarrow> address list" where
  "used_nodes t = concat (map (\<lambda>r. nullish (x_nodes r) []) (task_records t))"

definition in_terms :: "deployment_document \<Rightarrow> reserved_node \<Rightarrow> bool" where
  "in_terms d n \<longleftrightarrow> (case d_market d of None \<Rightarrow> True | Some m \<Rightarrow> n_market n = m)"

definition reuseReservation ::
  "outstanding_task \<Rightarrow> task_reservation \<Rightarrow> nat \<Rightarrow> ms \<Rightarrow> reserve_outcome" where
  "reuseReservation k v n now =
     (let nodes = filter (\<lambda>x. n_node x \<notin> set (used_nodes (k_task k)) \<and> in_terms (k_deployment k) x) (v_nodes v)
      in if isLive now v \<and> nodes \<noteq> [] then R_reserved v (take n nodes)
         else R_handoff (list_all (in_terms (k_deployment k)) (v_nodes v)))"

definition reservationFailure :: "request_error \<Rightarrow> reserve_outcome" where
  "reservationFailure e =
     (case re_status e of
        None \<Rightarrow> R_retry (''Node reservation failed: '' @ re_message e)
      | Some st \<Rightarrow>
          if st \<ge> 500 then R_retry (''Node reservation failed: '' @ re_message e)
          else if st = 409 then R_handoff False
          else if st = 402 then R_retry (''Insufficient funds for any market in reach: '' @ re_message e)
          else R_fatal (''Node reservation rejected: '' @ re_message e))"

definition waiting_message :: "outstanding_task \<Rightarrow> nat \<Rightarrow> address option \<Rightarrow> string" where
  "waiting_message k n market =
     (if truthy_string (t_job (k_task k))
      then ''Rotation of job '' @ the (t_job (k_task k)) @
        '': no spare node yet, it is replaced as soon as one frees up (at the latest when the job ends)''
      else ''Waiting for '' @ show_nat n @ '' matching node(s) in '' @
        (if truthy_string market then ''market '' @ the market else ''any premium market''))"

definition noteWaiting ::
  "outstanding_task \<Rightarrow> nat \<Rightarrow> address option \<Rightarrow> task_reservation_request \<Rightarrow> ms \<Rightarrow> db \<Rightarrow> db" where
  "noteWaiting k n market request now s =
     (if q_since request \<noteq> None then s
      else insert_event (deployment_event (t_deploymentId (k_task k)) ''JOB_RESERVE_WAITING''
             (waiting_message k n market) None now)
           (on_task (\<lambda>t. t_id t = t_id (k_task k) \<and> t_reservation_request t \<noteq> None)
             (\<lambda>t. t\<lparr>t_reservation_request := Some \<lparr>q_since = Some now\<rparr>\<rparr>) s))"

text \<open>\<open>[...new Set(xs)]\<close>: the first occurrences, in order.\<close>

fun uniq :: "'a list \<Rightarrow> 'a list" where
  "uniq [] = []"
| "uniq (x # xs) = x # uniq (filter (\<lambda>y. y \<noteq> x) xs)"

definition request_ttl :: "worker_config \<Rightarrow> int" where
  "request_ttl cfg = min MAX_REQUEST_TTL_SECONDS (\<lceil>of_int (reservation_renew_ms cfg) / (1000 :: rat)\<rceil> + 60)"

definition submitRequest ::
  "worker_config \<Rightarrow> (request_body \<Rightarrow> request_error + reservation_response) \<Rightarrow> outstanding_task \<Rightarrow>
    nat \<Rightarrow> list_budget \<Rightarrow> task_reservation_request \<Rightarrow> ms \<Rightarrow> db \<Rightarrow> reserve_outcome \<times> db" where
  "submitRequest cfg send k n budget request now s =
     (let t = k_task k; d = k_deployment k
      in case send \<lparr>rb_key = toHexString (t_id t),
             rb_market = (if truthy_string (d_market d) then d_market d else None),
             rb_requirements = d_requirements d, rb_count = n, rb_budget = budget,
             rb_ttlSeconds = request_ttl cfg\<rparr> of
           Inl e \<Rightarrow> (reservationFailure e, s)
         | Inr response \<Rightarrow>
             if rr_status response = Req_waiting
             then (R_waiting, noteWaiting k n (d_market d) request now s)
             else (let v = toReservation (rr_nodes response) (rr_holdExpiresAt response)
                   in if rr_status response \<noteq> Req_fulfilled \<or> \<not> isLive now v \<or> v_nodes v = []
                      then (R_handoff True, s)
                      else (R_reserved v (v_nodes v),
                        insert_event (deployment_event (t_deploymentId t) ''JOB_RESERVE_CONFIRMED''
                            (''Reserved '' @ show_nat (length (v_nodes v)) @ '' node(s) in market(s) '' @
                              join '', '' (uniq (map n_market (v_nodes v)))) None now)
                          (on_task (\<lambda>u. t_id u = t_id t)
                            (\<lambda>u. u\<lparr>t_reservation := Some v, t_reservation_request := None\<rparr>) s))))"

definition reserveListNodes ::
  "worker_config \<Rightarrow> funds_env \<Rightarrow> (request_body \<Rightarrow> request_error + reservation_response) \<Rightarrow>
    outstanding_task \<Rightarrow> nat \<Rightarrow> ms \<Rightarrow> db \<Rightarrow> reserve_outcome \<times> db" where
  "reserveListNodes cfg fenv send k n now s =
     (case t_reservation (k_task k) of
        Some v \<Rightarrow> (reuseReservation k v n now, s)
      | None \<Rightarrow>
          (let wanted = min n MAX_RESERVATION_COUNT;
               request = (\<lambda>c b. submitRequest cfg send k c b
                  (nullish (t_reservation_request (k_task k)) \<lparr>q_since = None\<rparr>) now
                  (if t_reservation_request (k_task k) = None
                   then on_task (\<lambda>t. t_id t = t_id (k_task k))
                     (\<lambda>t. t\<lparr>t_reservation_request := Some \<lparr>q_since = None\<rparr>\<rparr>) s
                   else s))
           in case checkListFunds fenv (k_deployment k) wanted of
                Some (Insufficient e) \<Rightarrow> (R_retry e, s)
              | Some (Fatal_funds e) \<Rightarrow> (R_fatal e, s)
              | Some (Affordable c b) \<Rightarrow> request c b
              | None \<Rightarrow> request wanted No_budget))"

section \<open>The webhook\<close>

definition recordRequestFulfilment ::
  "string \<Rightarrow> reserved_node list \<Rightarrow> ms option \<Rightarrow> ms \<Rightarrow> db \<Rightarrow> bool \<times> db" where
  "recordRequestFulfilment key nodes holdExpiresAt now s =
     (case parse_object_id key of
        None \<Rightarrow> (False, s)
      | Some i \<Rightarrow>
          (let waits = (\<lambda>t. t_id t = i \<and> t_reservation_request t \<noteq> None)
           in if matches waits (db_tasks s)
              then (True, on_task waits (\<lambda>t. t\<lparr>t_reservation := Some (toReservation nodes holdExpiresAt),
                       t_due_at := now, t_reservation_request := None\<rparr>) s)
              else (case find_one (\<lambda>t. t_id t = i) (db_tasks s) of
                  Some t \<Rightarrow> (t_reservation t \<noteq> None, s)
                | None \<Rightarrow> (False, s))))"

definition resyncParkedListTasks :: "(task_document \<Rightarrow> bool) \<Rightarrow> ms \<Rightarrow> db \<Rightarrow> db" where
  "resyncParkedListTasks P now s = s\<lparr>db_tasks := update_many
     (\<lambda>t. P t \<and> t_task t = LIST \<and> t_status t = Some PENDING \<and> t_reservation_request t \<noteq> None)
     (\<lambda>t. t\<lparr>t_due_at := now\<rparr>) (db_tasks s)\<rparr>"

section \<open>Funds are enough\<close>

lemma fold_min_le: "fold min xs (a :: rat) \<le> a" "x \<in> set xs \<Longrightarrow> fold min xs a \<le> x"
proof -
  have le: "fold min xs (a :: rat) \<le> a" for xs a
  proof (induction xs arbitrary: a)
    case (Cons x xs)
    from Cons [of "min x a"] show ?case by simp
  qed simp
  show "fold min xs a \<le> a" by (rule le)
  show "x \<in> set xs \<Longrightarrow> fold min xs a \<le> x"
  proof (induction xs arbitrary: a)
    case (Cons y xs)
    then show ?case using le [of xs "min y a"] by auto
  qed simp
qed

lemma creditsCost_ge: "10 \<le> creditsCost p t"
  by (simp add: creditsCost_def)

text \<open>
  Never hold a node for a job the vault cannot pay for: with credits, what is asked for is at
  most what was needed, costs at most what is available at the cheapest market's price, and the
  budget that goes with it keeps the whole request within what is available whatever market within
  it is given; a vault that can pay for one job is never turned away.
\<close>

theorem credits_affordable:
  assumes "checkCredits env markets n secs = Some r" "fe_credits env = Some (a, b, c)" "0 < secs" "0 < n"
    and "avail = js_round ((a - b - c) * 1000)"
    and "cost = creditsCost (min_price (concat (map (\<lambda>m. positive (hm_usd_reward_per_hour m)) markets))) secs"
  shows "(\<forall>k w. r = Affordable k w \<longrightarrow> 0 < k \<and> k \<le> n \<and> int k * cost \<le> avail \<and>
      (\<exists>m. w = MaxUsdPerHour m \<and> of_nat k * (m * (of_nat secs / 3600)) = of_int avail / 1000)) \<and>
    (\<forall>e. r = Insufficient e \<longrightarrow> avail < cost)"
proof -
  have pos: "0 < cost" using creditsCost_ge assms(6) by (metis less_le_trans zero_less_numeral)
  let ?k = "min (int n) (avail div cost)"
  have r: "r = Fatal_funds ''Credit-based jobs are only allowed on premium markets'' \<or>
      (?k < 1 \<and> r = Insufficient (''Insufficient credits: $'' @ dollars avail @
           '' available, $'' @ dollars cost @ '' needed per job'')) \<or>
      (1 \<le> ?k \<and> r = Affordable (nat ?k)
         (MaxUsdPerHour (of_int avail / 1000 / of_int ?k / (of_nat secs / 3600))))"
    using assms(1,2) unfolding assms(5,6) by (auto simp: checkCredits_def Let_def split: if_splits)
  have "int (nat ?k) * cost \<le> avail" if "1 \<le> ?k"
  proof -
    have "?k * cost \<le> (avail div cost) * cost" using pos by (intro mult_right_mono) auto
    also have "\<dots> \<le> avail" using pos by (metis minus_mod_eq_div_mult mod_int_pos_iff diff_le_self le_diff_eq add.commute
          diff_ge_0_iff_ge le_add_same_cancel1 div_mult_mod_eq less_imp_le pos_mod_sign)
    finally show ?thesis using that by simp
  qed
  moreover have "of_nat (nat ?k) * (of_int avail / 1000 / of_int ?k / (of_nat secs / 3600) * (of_nat secs / 3600)) =
      (of_int avail / 1000 :: rat)" if k1: "1 \<le> ?k"
  proof -
    obtain m where m: "?k = m" "1 \<le> m" using k1 by blast
    then have "of_nat (nat m) = (of_int m :: rat)" by simp
    with m(2) assms(3) show ?thesis unfolding m(1) by simp
  qed
  moreover have "avail < cost" if "?k < 1"
  proof -
    have "avail div cost < 1" using that assms(4) by (auto simp: min_def split: if_splits)
    then show ?thesis using pos by (metis div_pos_pos_trivial linorder_not_less pos_imp_zdiv_pos_iff zless_add1_eq add.left_neutral int_one_le_iff_zero_less)
  qed
  ultimately show ?thesis using r by (auto simp: nat_le_iff)
qed

definition example_funds :: funds_env where
  "example_funds = \<lparr>fe_markets = Some [], fe_key = Some ''nos_k'', fe_credits = Some (10, 0, 0),
     fe_nos = None, fe_sol = None, fe_rents = None, fe_text = (\<lambda>_ _. [])\<rparr>"

definition example_market :: host_market where
  "example_market = \<lparr>hm_address = ''M'', hm_premium = True, hm_usd_reward_per_hour = Some 1,
     hm_nos_reward_per_second = None\<rparr>"

theorem credits_affordable_witness:
  "\<exists>k w. checkCredits example_funds [example_market] 3 3600 = Some (Affordable k w) \<and> 0 < k \<and> k \<le> 3 \<and>
     int k * creditsCost 1 3600 \<le> 10000"
proof -
  have c: "js_round 10000 = 10000" unfolding js_round_def by (rule floor_unique) simp_all
  have r: "checkCredits example_funds [example_market] 3 3600 = Some (Affordable 3 (MaxUsdPerHour (10 / 3)))"
    by (simp add: checkCredits_def example_funds_def example_market_def positive_def Let_def min_price_def
        creditsCost_def c)
  have f: "fe_credits example_funds = Some (10, 0, 0)" by (simp add: example_funds_def)
  have m: "min_price (concat (map (\<lambda>m. positive (hm_usd_reward_per_hour m)) [example_market])) = 1"
    by (simp add: example_market_def positive_def min_price_def)
  from credits_affordable [OF r f _ _ refl refl, unfolded m] r c show ?thesis by simp
qed

section \<open>A node is held before it is signed for, and used once\<close>

lemma on_task_stored:
  assumes "distinct (map t_id (db_tasks s))" "t \<in> set (db_tasks s)" "\<And>u. t_id (f u) = t_id u"
  shows "f t \<in> set (db_tasks (on_task (\<lambda>u. t_id u = t_id t) f s))"
    "distinct (map t_id (db_tasks (on_task (\<lambda>u. t_id u = t_id t) f s)))"
  using assms update_one_mem [of t_id "db_tasks s" t "\<lambda>u. t_id u = t_id t" f]
  by (simp_all add: distinct_update_one)

text \<open>
  Nodes are on the task before anything is signed for them, and no node is signed for twice:
  a reserve step that yields nodes leaves their live reservation stored on the task, with no
  request left pending; and one that reuses the task's hold yields at most as many as asked for,
  of those held, in the deployment's market, and on no transaction record yet.
\<close>

theorem reserved_nodes_stored:
  assumes "distinct (map t_id (db_tasks s))" "k_task k \<in> set (db_tasks s)"
    and "t_reservation (k_task k) \<noteq> None \<longrightarrow> t_reservation_request (k_task k) = None"
    and "reserveListNodes cfg fenv send k n now s = (R_reserved v nodes, s')" "0 < n"
  shows "(\<exists>t \<in> set (db_tasks s'). t_id t = t_id (k_task k) \<and> t_reservation t = Some v \<and>
       t_reservation_request t = None) \<and>
     nodes \<noteq> [] \<and> set nodes \<subseteq> set (v_nodes v) \<and> isLive now v \<and>
     (t_reservation (k_task k) \<noteq> None \<longrightarrow> length nodes \<le> n \<and>
        (\<forall>x \<in> set nodes. in_terms (k_deployment k) x \<and>
           (\<forall>r \<in> set (task_records (k_task k)). n_node x \<notin> set (nullish (x_nodes r) []))))"
proof (cases "t_reservation (k_task k)")
  case (Some v0)
  then have res: "reuseReservation k v0 n now = R_reserved v nodes" "s' = s"
    using assms(4) by (simp_all add: reserveListNodes_def)
  then have v: "v = v0" "isLive now v" "nodes \<noteq> []" and
    nodes: "nodes = take n (filter (\<lambda>x. n_node x \<notin> set (used_nodes (k_task k)) \<and> in_terms (k_deployment k) x) (v_nodes v))"
    using assms(5) by (auto simp: reuseReservation_def Let_def split: if_splits)
  have "set nodes \<subseteq> set (filter (\<lambda>x. n_node x \<notin> set (used_nodes (k_task k)) \<and> in_terms (k_deployment k) x) (v_nodes v))"
    unfolding nodes by (rule set_take_subset)
  moreover have "length nodes \<le> n" unfolding nodes by simp
  ultimately show ?thesis
    using Some res(2) v assms(2,3) by (auto simp: used_nodes_def)
next
  case None
  define s1 where "s1 = (if t_reservation_request (k_task k) = None
      then on_task (\<lambda>t. t_id t = t_id (k_task k)) (\<lambda>t. t\<lparr>t_reservation_request := Some \<lparr>q_since = None\<rparr>\<rparr>) s
      else s)"
  obtain c b where sub: "submitRequest cfg send k c b
      (nullish (t_reservation_request (k_task k)) \<lparr>q_since = None\<rparr>) now s1 = (R_reserved v nodes, s')"
    using assms(4) None unfolding reserveListNodes_def s1_def Let_def
    by (auto split: option.splits funds_check.splits)
  have ex: "\<exists>t \<in> set (db_tasks s1). t_id t = t_id (k_task k)" "distinct (map t_id (db_tasks s1))"
    using assms(1,2) on_task_stored [OF assms(1,2), of "\<lambda>t. t\<lparr>t_reservation_request := Some \<lparr>q_since = None\<rparr>\<rparr>"]
    by (auto simp: s1_def intro: rev_bexI)
  then obtain t where t: "t \<in> set (db_tasks s1)" "t_id t = t_id (k_task k)" by blast
  have out: "v_nodes v = nodes" "nodes \<noteq> []" "isLive now v"
    "db_tasks s' = db_tasks (on_task (\<lambda>u. t_id u = t_id (k_task k))
        (\<lambda>u. u\<lparr>t_reservation := Some v, t_reservation_request := None\<rparr>) s1)"
    using sub unfolding submitRequest_def Let_def
    by (auto simp: reservationFailure_def split: sum.splits if_splits option.splits)
  have "t\<lparr>t_reservation := Some v, t_reservation_request := None\<rparr> \<in> set (db_tasks s')"
    unfolding out(4) t(2) [symmetric] by (rule on_task_stored(1) [OF ex(2) t(1)]) simp
  then have "\<exists>t \<in> set (db_tasks s'). t_id t = t_id (k_task k) \<and> t_reservation t = Some v \<and>
      t_reservation_request t = None"
    by (rule rev_bexI) (use t(2) in simp)
  with None out(1-3) show ?thesis by simp
qed

definition example_task :: outstanding_task where
  "example_task = \<lparr>k_task = (blank_task 1 LIST ''D'')\<lparr>t_reservation := Some \<lparr>v_expiresAt = Some 100,
       v_nodes = [\<lparr>n_node = ''N'', n_market = ''M''\<rparr>]\<rparr>\<rparr>,
     k_deployment = blank_deployment ''D'' ''O'' RUNNING,
     k_vault = \<lparr>w_vault = ''V'', w_vault_key = ''nos_k'', w_owner = ''O'', w_created_at = 0\<rparr>, k_jobs = [], k_revisions = []\<rparr>"

theorem reserved_nodes_stored_witness:
  "\<exists>t \<in> set (db_tasks (snd (reserveListNodes default_worker_config example_funds (\<lambda>_. Inl \<lparr>re_status = None, re_message = []\<rparr>)
      example_task 1 5 (empty_db\<lparr>db_tasks := [k_task example_task]\<rparr>)))). t_reservation t \<noteq> None"
proof -
  let ?s = "empty_db\<lparr>db_tasks := [k_task example_task]\<rparr>"
  let ?send = "\<lambda>_. Inl \<lparr>re_status = None, re_message = []\<rparr>"
  obtain v nodes s' where r: "reserveListNodes default_worker_config example_funds ?send example_task 1 5 ?s = (R_reserved v nodes, s')"
    by (auto simp: reserveListNodes_def example_task_def reuseReservation_def isLive_def used_nodes_def
        in_terms_def blank_deployment_def Let_def)
  have "t_reservation_request (k_task example_task) = None" by (simp add: example_task_def)
  with reserved_nodes_stored [OF _ _ _ r] have "\<exists>t \<in> set (db_tasks s'). t_reservation t = Some v"
    by auto
  then show ?thesis unfolding r by auto
qed

text \<open>
  The webhook is idempotent and never takes a node for nothing: a delivery for a task that
  waits stores the hold, makes the task due and is accepted, and every redelivery is accepted and
  changes nothing; a delivery for a task that is gone, or that never waited, is refused and
  changes nothing, so its nodes are released.
\<close>

theorem fulfilment_idempotent:
  assumes "distinct (map t_id (db_tasks s))" "i < 16 ^ 24"
    and "recordRequestFulfilment (toHexString i) nodes hold now s = (taken, s1)"
  shows "(taken \<longrightarrow> recordRequestFulfilment (toHexString i) nodes' hold' now' s1 = (True, s1) \<and>
      (\<exists>t \<in> set (db_tasks s1). t_id t = i \<and> t_reservation t \<noteq> None)) \<and>
    (\<not> taken \<longrightarrow> s1 = s \<and> (\<forall>t \<in> set (db_tasks s). t_id t = i \<longrightarrow>
       t_reservation t = None \<and> t_reservation_request t = None))"
proof -
  let ?w = "\<lambda>t. t_id t = i \<and> t_reservation_request t \<noteq> None"
  let ?f = "\<lambda>t. t\<lparr>t_reservation := Some (toReservation nodes hold), t_due_at := now, t_reservation_request := None\<rparr>"
  have p: "parse_object_id (toHexString i) = Some i" using assms(2) by (rule parse_toHexString)
  show ?thesis
  proof (cases "matches ?w (db_tasks s)")
    case True
    then obtain t where t: "t \<in> set (db_tasks s)" "t_id t = i" "t_reservation_request t \<noteq> None"
      by (auto simp: matches_iff)
    have r: "taken" "s1 = on_task ?w ?f s" using assms(3) p True by (simp_all add: recordRequestFulfilment_def Let_def)
    have d1: "distinct (map t_id (db_tasks s1))" using assms(1) by (simp add: r(2) distinct_update_one)
    have m: "?f t \<in> set (db_tasks s1)"
      unfolding r(2) on_task_frame by (rule update_one_mem [OF assms(1) t(1), of ?w ?f]) (use t in auto)
    have "u = ?f t" if "u \<in> set (db_tasks s1)" "t_id u = i" for u
      using keyed_unique [OF d1 that(1) m] that(2) t(2) by simp
    then have "\<not> matches ?w (db_tasks s1)" by (fastforce simp: matches_iff)
    moreover have "find_one (\<lambda>t. t_id t = i) (db_tasks s1) = Some (?f t)"
      using find_one_keyed [OF d1 m] t(2) by simp
    ultimately have "recordRequestFulfilment (toHexString i) nodes' hold' now' s1 = (True, s1)"
      using p by (simp add: recordRequestFulfilment_def Let_def)
    moreover have "\<exists>t \<in> set (db_tasks s1). t_id t = i \<and> t_reservation t \<noteq> None"
      by (rule bexI [OF _ m]) (use t(2) in simp)
    ultimately show ?thesis using r(1) by simp
  next
    case False
    then have r: "(taken, s1) = (case find_one (\<lambda>t. t_id t = i) (db_tasks s) of
        Some t \<Rightarrow> (t_reservation t \<noteq> None, s) | None \<Rightarrow> (False, s))"
      using assms(3) p by (simp add: recordRequestFulfilment_def Let_def)
    show ?thesis
    proof (cases "find_one (\<lambda>t. t_id t = i) (db_tasks s)")
      case None
      with r show ?thesis by (auto simp: find_one_None_iff)
    next
      case (Some t)
      with r have rr: "taken = (t_reservation t \<noteq> None)" "s1 = s" by auto
      note t = find_one_SomeD [OF Some]
      have "u = t" if "u \<in> set (db_tasks s)" "t_id u = i" for u
        using keyed_unique [OF assms(1) that(1)] t that(2) by simp
      with rr t False Some p show ?thesis
        by (auto simp: recordRequestFulfilment_def Let_def matches_iff)
    qed
  qed
qed

theorem fulfilment_idempotent_witness:
  "recordRequestFulfilment (toHexString 1) [] None 9 (snd (recordRequestFulfilment (toHexString 1)
      [\<lparr>n_node = ''N'', n_market = ''M''\<rparr>] (Some 50) 5 (empty_db\<lparr>db_tasks :=
        [(blank_task 1 LIST ''D'')\<lparr>t_reservation_request := Some \<lparr>q_since = None\<rparr>\<rparr>]\<rparr>))) =
   (True, snd (recordRequestFulfilment (toHexString 1) [\<lparr>n_node = ''N'', n_market = ''M''\<rparr>] (Some 50) 5
      (empty_db\<lparr>db_tasks := [(blank_task 1 LIST ''D'')\<lparr>t_reservation_request := Some \<lparr>q_since = None\<rparr>\<rparr>]\<rparr>)))"
proof -
  let ?s = "empty_db\<lparr>db_tasks := [(blank_task 1 LIST ''D'')\<lparr>t_reservation_request := Some \<lparr>q_since = None\<rparr>\<rparr>]\<rparr>"
  have r: "recordRequestFulfilment (toHexString 1) [\<lparr>n_node = ''N'', n_market = ''M''\<rparr>] (Some 50) 5 ?s =
      (True, snd (recordRequestFulfilment (toHexString 1) [\<lparr>n_node = ''N'', n_market = ''M''\<rparr>] (Some 50) 5 ?s))"
    using parse_toHexString [of 1] by (simp add: recordRequestFulfilment_def Let_def matches_def)
  show ?thesis using fulfilment_idempotent [OF _ _ r] by simp
qed

end
