(* ===== verification/Safety.thy ===== *)
theory Safety
  imports Claim Reserve
begin

text \<open>
  What every operation of the worker keeps, as one relation between the store before and after:
  a deployment that is ARCHIVED stays so, a job that has settled keeps its terminal state, and the
  store's unique keys stay unique. The relation is reflexive and transitive, so an operation
  inherits it from the writes it is made of; the interface \<open>store_operation\<close> states it of
  a family of operations and carries it to any sequence of them.
\<close>

section \<open>The relation\<close>

definition archived_le :: "db \<Rightarrow> db \<Rightarrow> bool" where
  "archived_le s s' \<longleftrightarrow> (\<forall>d \<in> set (db_deployments s). d_status d = ARCHIVED \<longrightarrow>
     (\<exists>d' \<in> set (db_deployments s'). d_id d' = d_id d \<and> d_status d' = ARCHIVED))"

definition settled_le :: "db \<Rightarrow> db \<Rightarrow> bool" where
  "settled_le s s' \<longleftrightarrow> (\<forall>j \<in> set (db_jobs s). \<not> job_active j \<longrightarrow>
     (\<exists>j' \<in> set (db_jobs s'). j_job j' = j_job j \<and> j_state j' = j_state j))"

definition safe_step :: "db \<Rightarrow> db \<Rightarrow> bool" where
  "safe_step s s' \<longleftrightarrow> archived_le s s' \<and> settled_le s s' \<and> (store_wf s \<longrightarrow> store_wf s')"

lemma safe_refl [simp, intro]: "safe_step s s"
  by (auto simp: safe_step_def archived_le_def settled_le_def)

lemma archived_le_trans: "archived_le s t \<Longrightarrow> archived_le t u \<Longrightarrow> archived_le s u"
  unfolding archived_le_def by metis

lemma settled_le_trans:
  assumes "settled_le s t" "settled_le t u" shows "settled_le s u"
  unfolding settled_le_def
proof (intro ballI impI)
  fix j assume j: "j \<in> set (db_jobs s)" "\<not> job_active j"
  then obtain j1 where j1: "j1 \<in> set (db_jobs t)" "j_job j1 = j_job j" "j_state j1 = j_state j"
    using assms(1) by (auto simp: settled_le_def)
  then have "\<not> job_active j1" using j(2) by simp
  then obtain j2 where "j2 \<in> set (db_jobs u)" "j_job j2 = j_job j1" "j_state j2 = j_state j1"
    using assms(2) j1(1) unfolding settled_le_def by blast
  with j1 show "\<exists>j' \<in> set (db_jobs u). j_job j' = j_job j \<and> j_state j' = j_state j"
    by (metis (full_types))
qed

lemma safe_trans [trans]: "safe_step s t \<Longrightarrow> safe_step t u \<Longrightarrow> safe_step s u"
  unfolding safe_step_def using archived_le_trans settled_le_trans by blast

section \<open>The interface\<close>

locale store_operation =
  fixes run :: "'e \<Rightarrow> db \<Rightarrow> db"
  assumes safe: "safe_step s (run e s)"
begin

lemma safe_sequence: "safe_step s (fold run es s)"
proof (induction es arbitrary: s)
  case (Cons e es)
  have "safe_step s (run e s)" by (rule safe)
  also have "safe_step (run e s) (fold run es (run e s))" by (rule Cons)
  finally show ?case by simp
qed simp

lemma archived_is_terminal:
  "d \<in> set (db_deployments s) \<Longrightarrow> d_status d = ARCHIVED \<Longrightarrow>
     \<exists>d' \<in> set (db_deployments (fold run es s)). d_id d' = d_id d \<and> d_status d' = ARCHIVED"
  using safe_sequence [of s es] by (auto simp: safe_step_def archived_le_def)

lemma settled_is_terminal:
  "j \<in> set (db_jobs s) \<Longrightarrow> j_state j \<in> {J_COMPLETED, J_STOPPED} \<Longrightarrow>
     \<exists>j' \<in> set (db_jobs (fold run es s)). j_job j' = j_job j \<and> j_state j' = j_state j"
proof -
  assume "j \<in> set (db_jobs s)" "j_state j \<in> {J_COMPLETED, J_STOPPED}"
  moreover from this(2) have "\<not> job_active j" by auto
  ultimately show ?thesis
    using safe_sequence [of s es] by (auto simp: safe_step_def settled_le_def)
qed

lemma keys_stay_unique: "store_wf s \<Longrightarrow> store_wf (fold run es s)"
  using safe_sequence [of s es] by (simp add: safe_step_def)

end

section \<open>The writes\<close>

lemma safe_same:
  "db_deployments s' = db_deployments s \<Longrightarrow> db_jobs s' = db_jobs s \<Longrightarrow>
     (store_wf s \<Longrightarrow> store_wf s') \<Longrightarrow> safe_step s s'"
  by (auto simp: safe_step_def archived_le_def settled_le_def)

lemma safe_insert_event: "safe_step s (insert_event e s)"
  by (rule safe_same) simp_all

lemma safe_on_task:
  assumes "\<And>t. P t \<Longrightarrow> t_id (f t) = t_id t" shows "safe_step s (on_task P f s)"
proof (rule safe_same)
  assume wf: "store_wf s"
  have "t_id u < db_next_oid s" if "u \<in> set (update_one P f (db_tasks s))" for u
    using that wf assms by (auto simp: store_wf_def elim!: update_one_cases)
  with wf assms show "store_wf (on_task P f s)" by (auto simp: store_wf_def map_update_one)
qed simp_all

lemma safe_update_tasks:
  assumes "\<And>t. P t \<Longrightarrow> t_id (f t) = t_id t"
  shows "safe_step s (s\<lparr>db_tasks := update_many P f (db_tasks s)\<rparr>)"
proof (rule safe_same)
  assume wf: "store_wf s"
  have "t_id u < db_next_oid s" if "u \<in> set (update_many P f (db_tasks s))" for u
    using that wf assms by (auto simp: store_wf_def elim!: update_many_cases)
  with wf assms show "store_wf (s\<lparr>db_tasks := update_many P f (db_tasks s)\<rparr>)"
    by (auto simp: store_wf_def map_update_many)
qed simp_all

lemma safe_tasks_delete: "safe_step s (snd (tasks_delete nm P s))"
  by (rule safe_same) (simp_all add: store_wf_tasks_delete)

lemma safe_on_deployment:
  assumes "\<And>d. Q d \<Longrightarrow> d_id (g d) = d_id d"
    and "\<And>d. Q d \<Longrightarrow> d_status d = ARCHIVED \<Longrightarrow> d_status (g d) = ARCHIVED"
  shows "safe_step s (on_deployment Q g s)"
proof -
  have "\<exists>d' \<in> set (update_one Q g ds). d_id d' = d_id d \<and> d_status d' = ARCHIVED"
    if "d \<in> set ds" "d_status d = ARCHIVED" for d ds
    using that
  proof (induction ds)
    case (Cons x ds)
    show ?case
    proof (cases "Q x")
      case True
      with Cons assms show ?thesis by auto
    next
      case False
      with Cons show ?thesis by auto
    qed
  qed simp
  then have "archived_le s (on_deployment Q g s)" by (auto simp: archived_le_def)
  moreover have "store_wf (on_deployment Q g s)" if "store_wf s"
    using that assms(1) by (simp add: store_wf_def map_update_one)
  ultimately show ?thesis by (auto simp: safe_step_def settled_le_def)
qed

definition on_jobs :: "(jobs_document \<Rightarrow> bool) \<Rightarrow> (jobs_document \<Rightarrow> jobs_document) \<Rightarrow> db \<Rightarrow> db" where
  "on_jobs P f s = s\<lparr>db_jobs := update_many P f (db_jobs s)\<rparr>"

lemma on_jobs_frame [frame_simps, simp]:
  "db_jobs (on_jobs P f s) = update_many P f (db_jobs s)"
  "db_deployments (on_jobs P f s) = db_deployments s" "db_tasks (on_jobs P f s) = db_tasks s"
  "db_events (on_jobs P f s) = db_events s" "db_locks (on_jobs P f s) = db_locks s"
  "db_next_oid (on_jobs P f s) = db_next_oid s"
  by (simp_all add: on_jobs_def)

lemma safe_on_jobs:
  assumes "\<And>j. P j \<Longrightarrow> j_job (f j) = j_job j" "\<And>j. P j \<Longrightarrow> \<not> job_active j \<Longrightarrow> j_state (f j) = j_state j"
  shows "safe_step s (on_jobs P f s)"
proof -
  have "settled_le s (on_jobs P f s)"
    unfolding settled_le_def
  proof (intro ballI impI)
    fix j assume "j \<in> set (db_jobs s)" "\<not> job_active j"
    with assms show "\<exists>j' \<in> set (db_jobs (on_jobs P f s)). j_job j' = j_job j \<and> j_state j' = j_state j"
      by (intro bexI [of _ "if P j then f j else j"]) (auto simp: set_update_many)
  qed
  moreover have "store_wf (on_jobs P f s)" if "store_wf s"
    using that assms(1) by (simp add: store_wf_def map_update_many)
  ultimately show ?thesis by (auto simp: safe_step_def archived_le_def)
qed

text \<open>Settling the store of a run's state.\<close>

lemma safe_starting_to_running: "safe_step s (starting_to_running i s)"
proof -
  have eq: "starting_to_running i s = on_deployment (\<lambda>d. d_id d = i \<and> d_status d = STARTING) (\<lambda>d. d\<lparr>d_status := RUNNING\<rparr>) s"
    by (simp add: starting_to_running_def on_deployment_def)
  show ?thesis unfolding eq by (rule safe_on_deployment) simp_all
qed

lemma safe_insert_task: "t_id t = db_next_oid s \<Longrightarrow> safe_step s (insert_task t s)"
  by (rule safe_same) (auto simp: store_wf_def insert_task_def insert_one_def)

lemma safe_scheduleTask: "safe_step s (snd (scheduleTask ty i st due now opts s))"
proof -
  have "safe_step s (insert_task (scheduled_doc s ty i due now opts) s)"
    by (rule safe_insert_task) (simp add: scheduled_doc_def)
  then show ?thesis
    using safe_starting_to_running safe_trans by (fastforce simp: scheduleTask_def Let_def)
qed

section \<open>The operations\<close>

lemma safe_flag_error: "safe_step s (flag_error i s)"
  unfolding flag_error_def by (rule safe_on_deployment) auto

lemma safe_abandonOverCap: "safe_step s (abandonOverCap t s)"
  unfolding abandonOverCap_def using safe_tasks_delete safe_flag_error by (rule safe_trans)

lemma safe_abandonInflightExhausted: "safe_step s (abandonInflightExhausted t s)"
  unfolding abandonInflightExhausted_def using safe_tasks_delete safe_flag_error by (rule safe_trans)

lemma safe_rescheduleInflight: "safe_step s (rescheduleInflight i c r now s)"
  unfolding rescheduleInflight_def by (rule safe_on_task) (simp add: inflight_release_def)

lemma safe_parkTask: "safe_step s (parkTask i c d now s)"
  unfolding parkTask_def Let_def by (auto intro!: safe_on_task simp: park_release_def)

lemma safe_releaseTaskToPending: "safe_step s (releaseTaskToPending i now s)"
  unfolding releaseTaskToPending_def by (rule safe_on_task) simp

lemma safe_incrementAttempt: "safe_step s (snd (incrementAttempt i c s))"
  unfolding incrementAttempt_def Let_def snd_conv by (rule safe_on_task) simp

lemma safe_drop:
  "safe_step s (dropUnwantedTask t c s)" "safe_step s (dropOrphanedTask t c s)"
  "safe_step s (deleteCompletedTask i c s)"
  unfolding dropUnwantedTask_def dropOrphanedTask_def deleteCompletedTask_def by (rule safe_tasks_delete)+

lemma safe_claimTask: "safe_step s (snd (claimTask c d now s))"
  by (auto simp: claimTask_def intro!: safe_on_task split: option.splits)

lemma safe_claimTasks: "safe_step s (snd (claimTasks c d nows s))"
proof (induction nows arbitrary: s)
  case (Cons now nows)
  obtain r s1 where r: "claimTask c d now s = (r, s1)" by fastforce
  with safe_claimTask [of s c d now] have "safe_step s s1" by simp
  with Cons [of s1] r show ?case
    by (cases r) (auto simp: case_prod_beta intro: safe_trans)
qed simp

lemma safe_applyRetryState: "safe_step s (applyRetryState i sg d now s)"
proof -
  have "safe_step s (on_deployment (\<lambda>d. d_id d = i \<and> d_status d = RUNNING)
      (\<lambda>d. d\<lparr>d_status := INSUFFICIENT_FUNDS\<rparr>) s)" by (rule safe_on_deployment) auto
  moreover have "safe_step u (on_deployment (\<lambda>d. d_id d = i) (\<lambda>x. x\<lparr>d_next_retry_at := Some n\<rparr>) u)" for n u
    by (rule safe_on_deployment) auto
  ultimately show ?thesis
    unfolding applyRetryState_def Let_def by (auto intro: safe_trans)
qed

lemma safe_clearRetryState: "safe_step s (clearRetryState i s)"
proof -
  have "safe_step s (on_deployment (\<lambda>d. d_id d = i \<and> d_status d = INSUFFICIENT_FUNDS)
      (\<lambda>d. d\<lparr>d_status := RUNNING\<rparr>) s)" by (rule safe_on_deployment) auto
  also have "safe_step u (on_deployment (\<lambda>d. d_id d = i) (\<lambda>x. x\<lparr>d_next_retry_at := None\<rparr>) u)" for u
    by (rule safe_on_deployment) auto
  finally show ?thesis unfolding clearRetryState_def .
qed

lemma safe_schedule_stops: "safe_step s (schedule_stops owned now s)"
proof (induction owned arbitrary: s)
  case (Cons x owned)
  obtain i st where x: "x = (i, st)" by (cases x)
  have "safe_step s (snd (scheduleTask STOP i st now now stop_options s))" by (rule safe_scheduleTask)
  also note Cons
  finally show ?case by (simp add: x schedule_stops_Cons)
qed simp

lemma safe_archiveBannedOwner: "safe_step s (archiveBannedOwner owner now s)"
proof -
  have arch: "safe_step u (u\<lparr>db_deployments := update_many (\<lambda>d. d_id d \<in> set ids) (\<lambda>d. d\<lparr>d_status := ARCHIVED\<rparr>) (db_deployments u)\<rparr>)" for u ids
  proof -
    have "\<exists>d' \<in> set (update_many (\<lambda>d. d_id d \<in> set ids) (\<lambda>d. d\<lparr>d_status := ARCHIVED\<rparr>) (db_deployments u)).
        d_id d' = d_id d \<and> d_status d' = ARCHIVED" if "d \<in> set (db_deployments u)" "d_status d = ARCHIVED" for d
      using that by (intro bexI [of _ "if d_id d \<in> set ids then d\<lparr>d_status := ARCHIVED\<rparr> else d"])
        (auto simp: set_update_many)
    then show ?thesis
      by (auto simp: safe_step_def archived_le_def settled_le_def store_wf_def map_update_many)
  qed
  have sched: "safe_step s (schedule_stops owned now (snd (tasks_delete None P s)))" for owned P
    using safe_tasks_delete safe_schedule_stops by (rule safe_trans)
  show ?thesis
    unfolding archiveBannedOwner_def Let_def
    by (simp only: if_split) (intro conjI impI safe_refl safe_trans [OF sched arch])
qed

lemma safe_noteWaiting: "safe_step s (noteWaiting k n m r now s)"
  unfolding noteWaiting_def by (auto intro!: safe_trans [OF safe_on_task safe_insert_event])

lemma safe_submitRequest: "safe_step s (snd (submitRequest cfg send k n b r now s))"
  unfolding submitRequest_def Let_def
  by (auto intro!: safe_noteWaiting safe_trans [OF safe_on_task safe_insert_event] split: sum.splits)

lemma safe_reserveListNodes: "safe_step s (snd (reserveListNodes cfg fenv send k n now s))"
proof -
  have "safe_step s (snd (submitRequest cfg send k c b r now (on_task P
      (\<lambda>t. t\<lparr>t_reservation_request := Some \<lparr>q_since = None\<rparr>\<rparr>) s)))" for c b r P
    by (rule safe_trans [OF safe_on_task safe_submitRequest]) simp
  then show ?thesis
    unfolding reserveListNodes_def Let_def
    by (auto intro: safe_submitRequest split: option.splits funds_check.splits)
qed

lemma safe_recordRequestFulfilment: "safe_step s (snd (recordRequestFulfilment key nodes hold now s))"
  unfolding recordRequestFulfilment_def Let_def by (auto intro!: safe_on_task split: option.splits)

lemma safe_resync: "safe_step s (resyncParkedListTasks P now s)"
  unfolding resyncParkedListTasks_def by (rule safe_update_tasks) simp

section \<open>A run's coordinator\<close>

text \<open>Whatever relation the writes to a task keep, a coordinator run keeps with handlers that keep it:
  stated once for any such relation, and used for the one above and for "the deployments are as
  they were".\<close>

definition handlers_keep :: "(db \<Rightarrow> db \<Rightarrow> bool) \<Rightarrow> handlers \<Rightarrow> bool" where
  "handlers_keep R h \<longleftrightarrow>
     (\<forall>u sg j r n s. R (rs_db s) (rs_db (onConfirmed h u sg j r n s))) \<and>
     (\<forall>u e sg s. R (rs_db s) (rs_db (onError h u e sg s)))"

locale run_relation =
  fixes R :: "db \<Rightarrow> db \<Rightarrow> bool"
  assumes R_refl [simp, intro]: "R s s"
    and R_trans [trans]: "R s t \<Longrightarrow> R t u \<Longrightarrow> R s u"
    and R_on_task: "(\<And>t. P t \<Longrightarrow> t_id (f t) = t_id t) \<Longrightarrow> R s (on_task P f s)"
begin

lemma keep_on_db: "R (rs_db s) (f (rs_db s)) \<Longrightarrow> R (rs_db s) (rs_db (on_db f s))"
  by (simp add: on_db_def)

lemma keep_records:
  "R (rs_db s) (rs_db (markRecord i u st sg s))"
  "R (rs_db s) (rs_db (persistSignedRecord i r s))"
  "R (rs_db s) (rs_db (persistConfirmedRecord i r s))"
  unfolding markRecord_def persistSignedRecord_def persistConfirmedRecord_def
  by (auto intro!: keep_on_db R_on_task simp: map_records_def)

lemma keep_confirm_jobs:
  assumes "handlers_keep R h" shows "R (rs_db s) (rs_db (confirm_jobs h r sg s))"
proof -
  have "R (rs_db s) (rs_db (fold (\<lambda>n. onConfirmed h (x_unit r) sg (at_index (recordJobs r) n)
      (at_index (recordRuns r) n) (reserved_at r n)) ns s))" for ns
  proof (induction ns arbitrary: s)
    case (Cons n ns)
    have "R (rs_db s) (rs_db (onConfirmed h (x_unit r) sg (at_index (recordJobs r) n)
      (at_index (recordRuns r) n) (reserved_at r n) s))" using assms by (simp add: handlers_keep_def)
    also note Cons
    finally show ?case by simp
  qed simp
  then show ?thesis by (simp add: confirm_jobs_def)
qed

lemma keep_applyOutcome:
  assumes "handlers_keep R h" shows "R (rs_db s) (rs_db (snd (applyOutcome i h r outcome s)))"
proof -
  have e: "R (rs_db u) (rs_db (onError h n e sg u))" for n e sg u
    using assms by (simp add: handlers_keep_def)
  show ?thesis
    by (cases outcome) (auto simp: applyOutcome_def intro: keep_records
        R_trans [OF keep_records(1) keep_confirm_jobs [OF assms]] R_trans [OF keep_records(1) e])
qed

lemma keep_driveSend:
  "handlers_keep R h \<Longrightarrow> R (rs_db s) (rs_db (snd (driveSend env i h r s)))"
  by (simp add: driveSend_def keep_applyOutcome)

lemma keep_runWorkerMessages:
  "handlers_keep R h \<Longrightarrow> R (rs_db s) (rs_db (snd (runWorkerMessages env i h ms s)))"
proof (induction env i h ms s rule: runWorkerMessages.induct)
  case (2 env i h u blob lvbh sg jobs runs nodes markets ms s)
  let ?r = "signed_record u blob lvbh sg jobs runs nodes markets"
  obtain oc s1 where d: "driveSend env i h ?r (persistSignedRecord i ?r s) = (oc, s1)"
    by fastforce
  have "R (rs_db s) (rs_db (persistSignedRecord i ?r s))" by (rule keep_records)
  also have "R \<dots> (rs_db s1)"
    using keep_driveSend [OF 2(2), of "persistSignedRecord i ?r s" env i ?r] d by simp
  also note 2(1) [OF refl d [symmetric] refl 2(2)]
  finally show ?case by (simp add: d case_prod_beta)
next
  case (3 env i h u job run tx node market ms s)
  let ?r = "reserved_of node market"
  let ?s0 = "onConfirmed h (nullish u 0) (nullish tx []) job run ?r s"
  let ?c = "confirmed_record (nullish u 0) (nullish tx []) job run ?r"
  have "R (rs_db s) (rs_db ?s0)" using 3(2) by (simp add: handlers_keep_def)
  also have "R \<dots> (rs_db (persistConfirmedRecord i ?c ?s0))" by (rule keep_records)
  also note 3(1) [OF refl refl refl refl 3(2)]
  finally show ?case by (simp add: case_prod_beta Let_def)
next
  case (4 env i h u err ms s)
  let ?s0 = "onError h (nullish u 0) (nullish err ''unknown error'') None s"
  have "R (rs_db s) (rs_db ?s0)" using 4(2) by (simp add: handlers_keep_def)
  also note 4(1) [OF refl 4(2)]
  finally show ?case by (simp add: case_prod_beta Let_def)
qed (auto simp: handlers_keep_def case_prod_beta)

lemma keep_recover_each:
  "handlers_keep R h \<Longrightarrow> R (rs_db s) (rs_db (snd (recover_each env i h actions rs s)))"
proof (induction rs arbitrary: s)
  case (Cons r rs)
  let ?x = "(case actions (x_unit r) of
           Some Resend \<Rightarrow> driveSend env i h r s
         | Some (Outcome outcome) \<Rightarrow> applyOutcome i h r outcome s
         | None \<Rightarrow> applyOutcome i h r (U_EXPIRED None) s)"
  have "R (rs_db s) (rs_db (snd ?x))"
    using Cons.prems by (auto intro: keep_driveSend keep_applyOutcome split: option.splits recovery_action.splits)
  also have "R \<dots> (rs_db (snd (recover_each env i h actions rs (snd ?x))))"
    using Cons by blast
  finally show ?case by (simp add: case_prod_beta Let_def)
qed simp

lemma keep_orchestrateUnits:
  assumes "handlers_keep R h"
  shows "R (rs_db s) (rs_db (snd (orchestrateUnits env i h existing worker s)))"
proof -
  have "R (rs_db s) (rs_db (snd (resumeExisting env i h existing s)))"
    using keep_recover_each [OF assms] by (auto simp: resumeExisting_def case_prod_beta Let_def split: option.splits)
  then have "R (rs_db s) (rs_db (snd (if existing = [] then (Some [], s) else resumeExisting env i h existing s)))"
    by simp
  moreover have "R (rs_db u) (rs_db (snd (case worker of None \<Rightarrow> ([], u)
      | Some ms \<Rightarrow> if e_abort_worker env then ([], u) else runWorkerMessages env i h ms u)))" for u
    using keep_runWorkerMessages [OF assms] by (auto split: option.splits)
  ultimately show ?thesis
    unfolding orchestrateUnits_def
    by (auto simp: case_prod_beta split: option.splits prod.splits intro: R_trans)
qed

lemma keep_reconcileUnits:
  assumes "handlers_keep R h" "\<And>n u s. R (rs_db s) (rs_db (snd (makeWorker n u s)))"
  shows "R (rs_db s) (rs_db (snd (reconcileUnits env1 env2 i h existing target makeWorker s)))"
proof -
  let ?r = "(if existing = []
            then (Some \<lparr>y_confirmed = 0, y_errored = 0, y_aborted = e_abort_resume env1,
                y_retry = False, y_retryAfterMs = None\<rparr>, s)
            else orchestrateUnits env1 i h existing None s)"
  have r: "R (rs_db s) (rs_db (snd ?r))"
    using keep_orchestrateUnits [OF assms(1)] by auto
  obtain zo s1 where z: "?r = (zo, s1)" by fastforce
  have s1: "R (rs_db s) (rs_db s1)" using r unfolding z by simp
  have fresh: "R (rs_db s1) (rs_db (snd (orchestrateUnits env2 i h [] (fst (makeWorker n u s1)) (snd (makeWorker n u s1)))))" for n u
    using assms(2) keep_orchestrateUnits [OF assms(1)] by (rule R_trans)
  show ?thesis
    unfolding reconcileUnits_def z Let_def prod.case
    using s1 R_trans [OF s1 fresh] by (auto simp: case_prod_beta split: option.splits prod.splits)
qed

end

interpretation sf: run_relation safe_step
  by unfold_locales (auto intro: safe_trans safe_on_task)

definition same_deployments :: "db \<Rightarrow> db \<Rightarrow> bool" where
  "same_deployments s s' \<longleftrightarrow> db_deployments s' = db_deployments s"

interpretation sd: run_relation same_deployments
  by unfold_locales (simp_all add: same_deployments_def)

end
