(* ===== verification/Task_Run.thy ===== *)
theory Task_Run
  imports Safety
begin

text \<open>
  What the runs of the three task types share (\<open>task/list/run.ts\<close>,
  \<open>task/stop/run.ts\<close>, \<open>task/extend/run.ts\<close>): the start of a run, an error event with
  its retry signal, and the settling of a run that was neither aborted nor unwanted. A negative
  balance archives the owner, an error or work in flight reschedules the task, anything else
  completes it.
\<close>

definition fresh_run :: "db \<Rightarrow> run_state" where
  "fresh_run s = \<lparr>rs_db = s, rs_signal = None, rs_stopped = [], rs_reserved = None, rs_draining = False\<rparr>"

definition run_result :: "task_outcome \<Rightarrow> nat \<Rightarrow> rat option \<Rightarrow> task_run_result" where
  "run_result outcome n retryAfter = \<lparr>o_outcome = outcome, o_successCount = n, o_retryAfterMs = retryAfter\<rparr>"

definition task_error ::
  "string \<Rightarrow> outstanding_task \<Rightarrow> ms \<Rightarrow> string \<Rightarrow> signature option \<Rightarrow> run_state \<Rightarrow> run_state" where
  "task_error ty k now error sg s =
     (on_db (insert_event (deployment_event (t_deploymentId (k_task k)) ty error sg now)) s)
       \<lparr>rs_signal := Some (classifyTaskError error)\<rparr>"

definition negative_signal :: "run_state \<Rightarrow> bool" where
  "negative_signal s \<longleftrightarrow> (case rs_signal s of Some g \<Rightarrow> g_negativeBalance g | None \<Rightarrow> False)"

definition retryRun ::
  "worker_config \<Rightarrow> outstanding_task \<Rightarrow> ms \<Rightarrow> nat \<Rightarrow> rat option \<Rightarrow> run_state \<Rightarrow> task_run_result \<times> run_state" where
  "retryRun cfg k now n hint s =
     (let delayMs = retryDelayMs cfg (k_task k) hint (rs_signal s)
      in (run_result O_RETRY n (Some delayMs),
          on_db (applyRetryState (t_deploymentId (k_task k)) (rs_signal s) delayMs now) s))"

definition settleRun ::
  "worker_config \<Rightarrow> outstanding_task \<Rightarrow> ms \<Rightarrow> nat \<Rightarrow> orchestrate_result \<Rightarrow>
    (run_state \<Rightarrow> task_run_result \<times> run_state) \<Rightarrow> run_state \<Rightarrow> task_run_result \<times> run_state" where
  "settleRun cfg k now n y finish s =
     (if negative_signal s
      then (run_result O_FAILED n None, on_db (archiveBannedOwner (d_owner (k_deployment k)) now) s)
      else if shouldRetry (y_aborted y) (y_retry y) (rs_signal s)
      then retryRun cfg k now n (y_retryAfterMs y) s
      else finish s)"

definition clear_after_retry :: "outstanding_task \<Rightarrow> run_state \<Rightarrow> run_state" where
  "clear_after_retry k s =
     (if nullish (t_inflight_retries (k_task k)) 0 > 0
      then on_db (clearRetryState (t_deploymentId (k_task k))) s else s)"

lemma fresh_run_simps [simp]:
  "rs_db (fresh_run s) = s" "rs_signal (fresh_run s) = None" "rs_stopped (fresh_run s) = []"
  "rs_reserved (fresh_run s) = None" "rs_draining (fresh_run s) = False"
  by (simp_all add: fresh_run_def)

lemma run_result_simps [simp]:
  "o_outcome (run_result oc n r) = oc" "o_successCount (run_result oc n r) = n"
  "o_retryAfterMs (run_result oc n r) = r"
  by (simp_all add: run_result_def)

lemma on_db_simps [simp]:
  "rs_db (on_db f s) = f (rs_db s)" "rs_signal (on_db f s) = rs_signal s"
  "rs_stopped (on_db f s) = rs_stopped s" "rs_reserved (on_db f s) = rs_reserved s"
  "rs_draining (on_db f s) = rs_draining s"
  by (simp_all add: on_db_def)

lemma task_error_simps [simp]:
  "rs_db (task_error ty k now e sg s) =
     insert_event (deployment_event (t_deploymentId (k_task k)) ty e sg now) (rs_db s)"
  "rs_signal (task_error ty k now e sg s) = Some (classifyTaskError e)"
  "rs_stopped (task_error ty k now e sg s) = rs_stopped s"
  "rs_reserved (task_error ty k now e sg s) = rs_reserved s"
  "rs_draining (task_error ty k now e sg s) = rs_draining s"
  by (simp_all add: task_error_def)

lemma safe_settleRun:
  assumes "safe_step (rs_db s) (rs_db (snd (finish s)))"
  shows "safe_step (rs_db s) (rs_db (snd (settleRun cfg k now n y finish s)))"
  using assms by (simp add: settleRun_def retryRun_def Let_def safe_archiveBannedOwner safe_applyRetryState)

lemma safe_clear_after_retry: "safe_step (rs_db s) (rs_db (clear_after_retry k s))"
  by (simp add: clear_after_retry_def safe_clearRetryState)

end
