(* ===== verification/List_Task.thy ===== *)
theory List_Task
  imports Task_Run
begin

text \<open>
  The LIST task (\<open>src/tasks/task/list/\<close>): which slots are still to be recorded, the
  signer worker's messages, the handlers of its units and the run itself. What is outside the
  repository is gathered in \<open>kit\<close> (client-manager's batch calls and the wallet's signing)
  and \<open>list_env\<close> (the clock, the chain, host-manager, the cron parser).
\<close>

section \<open>Slots, target and definition\<close>

definition pendingSlots :: "tx_record list \<Rightarrow> nat \<Rightarrow> nat list" where
  "pendingSlots transactions target =
     (let confirmed = set (map x_unit (filter (\<lambda>r. x_status r = CONFIRMED) transactions))
      in filter (\<lambda>slot. slot \<notin> confirmed) [0..<target])"

definition listed_revision :: "outstanding_task \<Rightarrow> nat" where
  "listed_revision k = nullish (t_active_revision (k_task k)) (d_active_revision (k_deployment k))"

definition computeListTarget :: "outstanding_task \<Rightarrow> nat" where
  "computeListTarget k =
     (case t_limit (k_task k) of
        Some n \<Rightarrow> n
      | None \<Rightarrow>
          if d_strategy (k_deployment k) = SCHEDULED then d_replicas (k_deployment k)
          else d_replicas (k_deployment k) -
            length (filter (\<lambda>j. j_revision j = listed_revision k) (k_jobs k)))"

text \<open>None: the revision is not found and the run throws.\<close>

definition resolveListDefinitionHash :: "worker_config \<Rightarrow> outstanding_task \<Rightarrow> string option" where
  "resolveListDefinitionHash cfg k =
     (if d_confidential (k_deployment k) then Some (confidential_ipfs_pin cfg)
      else map_option r_ipfs_definition_hash
             (find_one (\<lambda>r. r_revision r = listed_revision k) (k_revisions k)))"

section \<open>The worker\<close>

record list_body =
  lb_ipfsHash :: string
  lb_market :: "address option"
  lb_timeout :: int
  lb_node :: "address option"

record signed_tx =
  g_blob :: string
  g_lastValidBlockHeight :: nat
  g_signature :: signature
  g_jobs :: "address list option"
  g_runs :: "address list option"
  g_nodes :: "address list option"

text \<open>Signing gives the signed transactions or the message of what it throws.\<close>

record 'cm kit =
  ki_listBatch :: "list_body list \<Rightarrow> string \<Rightarrow> 'cm \<Rightarrow> (thrown + batch_item list) \<times> 'cm"
  ki_assignBatch :: "list_body list \<Rightarrow> string \<Rightarrow> 'cm \<Rightarrow> (thrown + batch_item list) \<times> 'cm"
  ki_signList :: "list_body \<Rightarrow> nat \<Rightarrow> string + signed_tx list"
  ki_signAssign :: "list_body list \<Rightarrow> string + signed_tx list"

record list_worker_data =
  lw_task :: outstanding_task
  lw_taskId :: string
  lw_hash :: "string option"
  lw_count :: nat
  lw_startUnit :: nat
  lw_target :: "nat option"
  lw_nodes :: "reserved_node list option"

definition batch_tail :: "'i batch_result \<Rightarrow> worker_event list" where
  "batch_tail result = (case result of
       Batch_Ok c \<Rightarrow> [Msg_DONE]
     | Batch_Retry c h \<Rightarrow> [Msg_RETRY None h, Msg_DONE]
     | Batch_Fatal c e \<Rightarrow> [Msg_ERROR None (Some e), Msg_DONE])"

definition result_confirmations :: "'i batch_result \<Rightarrow> 'i confirmation list" where
  "result_confirmations result = (case result of
       Batch_Ok c \<Rightarrow> c | Batch_Retry c h \<Rightarrow> c | Batch_Fatal c e \<Rightarrow> c)"

definition market_of :: "reserved_node list \<Rightarrow> address \<Rightarrow> address option" where
  "market_of nodes = map_of (rev (map (\<lambda>n. (n_node n, n_market n)) nodes))"

definition queue_units :: "list_worker_data \<Rightarrow> string \<Rightarrow> nat \<Rightarrow> (nat, list_body) batch_unit list" where
  "queue_units d hash slotCount = map (\<lambda>slot. \<lparr>b_id = slot, b_body = \<lparr>lb_ipfsHash = hash,
     lb_market = d_market (k_deployment (lw_task d)), lb_timeout = d_timeout (k_deployment (lw_task d)) * 60,
     lb_node = None\<rparr>\<rparr>) [0..<slotCount]"

definition node_body :: "list_worker_data \<Rightarrow> string \<Rightarrow> reserved_node \<Rightarrow> list_body" where
  "node_body d hash n = \<lparr>lb_ipfsHash = hash, lb_market = Some (n_market n),
     lb_timeout = d_timeout (k_deployment (lw_task d)) * 60, lb_node = Some (n_node n)\<rparr>"

definition slot_count :: "list_worker_data \<Rightarrow> nat" where
  "slot_count d = nullish (lw_target d) (lw_startUnit d + lw_count d)"

text \<open>The API path of a queue listing: what the batch confirmed of slots not yet recorded.\<close>

definition queue_messages :: "list_worker_data \<Rightarrow> nat batch_result \<Rightarrow> worker_event list" where
  "queue_messages d result =
     map (\<lambda>c. Msg_CONFIRMED (Some (c_id c)) (c_job c) (c_run c) (c_tx c) None None)
       (filter (\<lambda>c. c_id c \<in> set (pendingSlots (task_records (k_task (lw_task d))) (slot_count d)))
         (result_confirmations result)) @ batch_tail result"

text \<open>The API path of an assign: what the batch confirmed of nodes on no record yet.\<close>

definition assign_messages :: "list_worker_data \<Rightarrow> reserved_node list \<Rightarrow> address batch_result \<Rightarrow> worker_event list" where
  "assign_messages d nodes result =
     (let fresh = filter (\<lambda>c. c_id c \<notin> set (used_nodes (k_task (lw_task d)))) (result_confirmations result)
      in map (\<lambda>(c, n). Msg_CONFIRMED (Some (lw_startUnit d + n)) (c_job c) (c_run c) (c_tx c)
               (Some (c_id c)) (market_of nodes (c_id c))) (zip fresh [0..<length fresh]) @ batch_tail result)"

definition signed_messages ::
  "list_worker_data \<Rightarrow> (address \<Rightarrow> address) option \<Rightarrow> string + signed_tx list \<Rightarrow> worker_event list" where
  "signed_messages d market signed =
     (case signed of
        Inl e \<Rightarrow> [Msg_ERROR None (Some e), Worker_exit]
      | Inr txs \<Rightarrow> map (\<lambda>(tx, bucket). Msg_SIGNED (lw_startUnit d + bucket) (g_blob tx)
            (g_lastValidBlockHeight tx) (Some (g_signature tx)) (Some (nullish (g_jobs tx) []))
            (Some (nullish (g_runs tx) []))
            (case market of None \<Rightarrow> None | Some m \<Rightarrow> Some (nullish (g_nodes tx) []))
            (case market of None \<Rightarrow> None | Some m \<Rightarrow> Some (map m (nullish (g_nodes tx) []))))
          (zip txs [0..<length txs]) @ [Msg_DONE])"

definition list_worker ::
  "'cm kit \<Rightarrow> bool \<Rightarrow> list_worker_data \<Rightarrow> 'cm \<Rightarrow> worker_event list \<times> 'cm" where
  "list_worker kt useNosanaApiKey d cm =
     (if \<not> truthy_string (lw_hash d) then ([Msg_ERROR None (Some ''Missing definition hash''), Worker_exit], cm)
      else (let hash = the (lw_hash d)
            in case lw_nodes d of
                 None \<Rightarrow>
                   if useNosanaApiKey
                   then (let (result, cm1) = runIdempotentBatch (lw_taskId d) ''list'' MAX_IDEMPOTENCY_EPOCH
                           (queue_units d hash (slot_count d)) (ki_listBatch kt) cm
                         in (queue_messages d result, cm1))
                   else (signed_messages d None (ki_signList kt \<lparr>lb_ipfsHash = hash,
                           lb_market = d_market (k_deployment (lw_task d)),
                           lb_timeout = d_timeout (k_deployment (lw_task d)) * 60, lb_node = None\<rparr> (lw_count d)), cm)
               | Some nodes \<Rightarrow>
                   if useNosanaApiKey
                   then (let (result, cm1) = runIdempotentBatch (lw_taskId d) ''assign'' MAX_IDEMPOTENCY_EPOCH
                           (map (\<lambda>n. \<lparr>b_id = n_node n, b_body = node_body d hash n\<rparr>) nodes) (ki_assignBatch kt) cm
                         in (assign_messages d nodes result, cm1))
                   else (signed_messages d (Some (\<lambda>node. nullish (market_of nodes node) []))
                           (ki_signAssign kt (map (node_body d hash) nodes)), cm)))"

section \<open>Handlers\<close>

text \<open>\<open>onchain job\<close>: the job's state, start and node as read from the chain, if it can be read.\<close>

definition listed_job ::
  "outstanding_task \<Rightarrow> signature \<Rightarrow> address \<Rightarrow> reserved_node option \<Rightarrow> ms \<Rightarrow> jobs_document" where
  "listed_job k sg job reserved now =
     \<lparr>j_job = job, j_market = or_else (map_option n_market reserved) (d_market (k_deployment k)),
      j_node = map_option n_node reserved, j_deployment = t_deploymentId (k_task k),
      j_revision = listed_revision k, j_tx = sg, j_state = J_QUEUED, j_time_start = 0, j_time_end = None,
      j_startup_deadline = None, j_created_at = now, j_updated_at = now\<rparr>"

definition insert_job :: "jobs_document \<Rightarrow> db \<Rightarrow> db" where
  "insert_job j s = s\<lparr>db_jobs := insert_one j (db_jobs s)\<rparr>"

definition onListConfirmed ::
  "(address \<Rightarrow> (job_state \<times> int \<times> address option) option) \<Rightarrow> outstanding_task \<Rightarrow> ms \<Rightarrow> signature \<Rightarrow> address \<Rightarrow>
    reserved_node option \<Rightarrow> db \<Rightarrow> db" where
  "onListConfirmed onchain k now sg job reserved s =
     (if matches (\<lambda>j. j_job j = job) (db_jobs s)
      then s\<lparr>db_jobs := update_one (\<lambda>j. j_job j = job) (\<lambda>j. j\<lparr>j_updated_at := now\<rparr>) (db_jobs s)\<rparr>
      else (let s1 = insert_job (listed_job k sg job reserved now) s;
                s2 = (case onchain job of
                    Some (st, start, node) \<Rightarrow>
                      if st \<noteq> J_QUEUED
                      then s1\<lparr>db_jobs := update_one (\<lambda>j. j_job j = job \<and> j_state j \<notin> {J_COMPLETED, J_STOPPED})
                        (\<lambda>j. j\<lparr>j_state := st, j_time_start := start, j_node := node, j_updated_at := now\<rparr>) (db_jobs s1)\<rparr>
                      else s1
                  | None \<Rightarrow> s1)
            in insert_event (deployment_event (t_deploymentId (k_task k)) ''JOB_LIST_CONFIRMED''
                 (''Successfully listed job - '' @ job) (Some sg) now) s2))"

definition onListError :: "outstanding_task \<Rightarrow> ms \<Rightarrow> string \<Rightarrow> signature option \<Rightarrow> run_state \<Rightarrow> run_state" where
  "onListError = task_error ''JOB_LIST_ERROR''"

definition onListExit :: "(string \<Rightarrow> ms \<Rightarrow> ms) \<Rightarrow> outstanding_task \<Rightarrow> ms \<Rightarrow> db \<Rightarrow> db" where
  "onListExit nextTaskTime k now s =
     (if d_strategy (k_deployment k) = SCHEDULED \<and> truthy_string (d_schedule (k_deployment k)) \<and>
         t_handoff_of (k_task k) = None
      then insert_task ((blank_task (db_next_oid s) LIST (t_deploymentId (k_task k)))
             \<lparr>t_due_at := nextTaskTime (the (d_schedule (k_deployment k))) (t_due_at (k_task k)),
              t_active_revision := t_active_revision (k_task k), t_run := t_run (k_task k),
              t_created_at := now\<rparr>) s
      else s)"

section \<open>The run\<close>

record list_env =
  le_cfg :: worker_config
  le_now :: ms
  le_resume :: run_env
  le_sign :: run_env
  le_useNosanaApiKey :: bool
  le_funds :: funds_env
  le_request :: "request_body \<Rightarrow> request_error + reservation_response"
  le_spawn :: "list_worker_data \<Rightarrow> worker_event list"
  le_onchain :: "address \<Rightarrow> (job_state \<times> int \<times> address option) option"
  le_nextTaskTime :: "string \<Rightarrow> ms \<Rightarrow> ms"

definition list_handlers :: "list_env \<Rightarrow> outstanding_task \<Rightarrow> handlers" where
  "list_handlers env k = \<lparr>
     onConfirmed = (\<lambda>u sg job run reserved s.
       if truthy_string job then on_db (onListConfirmed (le_onchain env) k (le_now env) sg (the job) reserved) s else s),
     onError = (\<lambda>u error sg s. onListError k (le_now env) error sg s)\<rparr>"

definition mark_posted :: "outstanding_task \<Rightarrow> ms \<Rightarrow> run_state \<Rightarrow> run_state" where
  "mark_posted k now s =
     (if t_assign_posted_at (k_task k) = None
      then on_db (on_task (\<lambda>t. t_id t = t_id (k_task k)) (\<lambda>t. t\<lparr>t_assign_posted_at := Some now\<rparr>)) s
      else s)"

definition reserveAndSpawn ::
  "list_env \<Rightarrow> outstanding_task \<Rightarrow> nat \<Rightarrow> string \<Rightarrow> nat \<Rightarrow> nat \<Rightarrow> run_state \<Rightarrow>
    worker_event list option \<times> run_state" where
  "reserveAndSpawn env k target hash n startUnit s =
     (let data = \<lparr>lw_task = k, lw_taskId = toHexString (t_id (k_task k)), lw_hash = Some hash, lw_count = n,
            lw_startUnit = startUnit, lw_target = Some target, lw_nodes = None\<rparr>;
          spawnListWorker = Some (le_spawn env data);
          spawnWorker = (\<lambda>nodes. Some (le_spawn env
            (data\<lparr>lw_count := length nodes, lw_target := None, lw_nodes := Some nodes\<rparr>)));
          listIntoQueue = (d_market (k_deployment k) \<noteq> None)
      in if \<not> checkTaskWanted (rs_db s) (k_task k)
         then (let s1 = s\<lparr>rs_draining := True\<rparr>
               in if \<not> le_useNosanaApiKey env \<or> t_assign_posted_at (k_task k) = None then (None, s1)
                  else if listIntoQueue then (spawnListWorker, s1)
                  else (case t_reservation (k_task k) of
                      Some v \<Rightarrow> (spawnWorker (v_nodes v), s1) | None \<Rightarrow> (None, s1)))
         else if listIntoQueue
         then (spawnListWorker, if le_useNosanaApiKey env then mark_posted k (le_now env) s else s)
         else (let (outcome, db1) = reserveListNodes (le_cfg env) (le_funds env) (le_request env) k n (le_now env) (rs_db s);
                   s1 = s\<lparr>rs_db := db1, rs_reserved := Some outcome\<rparr>
               in case outcome of
                    R_reserved v nodes \<Rightarrow>
                      if \<not> le_useNosanaApiKey env then (spawnWorker nodes, s1)
                      else (spawnWorker (v_nodes v), mark_posted k (le_now env) s1)
                  | _ \<Rightarrow> (None, s1)))"

definition failListDeployment :: "outstanding_task \<Rightarrow> string \<Rightarrow> ms \<Rightarrow> db \<Rightarrow> db" where
  "failListDeployment k error now s =
     flag_error (t_deploymentId (k_task k))
       (insert_event (deployment_event (t_deploymentId (k_task k)) ''JOB_LIST_ERROR'' error None now) s)"

definition handOffShortfall :: "worker_config \<Rightarrow> outstanding_task \<Rightarrow> nat \<Rightarrow> bool \<Rightarrow> ms \<Rightarrow> db \<Rightarrow> db" where
  "handOffShortfall cfg k missing backoff now s =
     (let due = to_date (of_int now + (if backoff then retryCooldownMs cfg 0 False else 0));
          (created, s1) = scheduleTask LIST (t_deploymentId (k_task k)) (d_status (k_deployment k)) due now
            (no_options\<lparr>o_limit := Some missing, o_job := t_job (k_task k),
               o_active_revision := t_active_revision (k_task k), o_handoff_of := Some (t_id (k_task k))\<rparr>) s
      in if \<not> created then s1
         else insert_event (deployment_event (t_deploymentId (k_task k)) ''JOB_RESERVE_SHORTFALL''
                (show_nat missing @ '' job(s) still need a node: requested again by a new LIST task'') None now) s1)"

text \<open>The end of a LIST run that nothing cut short: the shortfall, the next cron firing.\<close>

definition completeList :: "list_env \<Rightarrow> outstanding_task \<Rightarrow> nat \<Rightarrow> nat \<Rightarrow> run_state \<Rightarrow> run_state" where
  "completeList env k target confirmed s =
     (let missing = target - confirmed;
          handoff = (\<lambda>backoff. on_db (handOffShortfall (le_cfg env) k missing backoff (le_now env)));
          s1 = (if missing = 0 then s
                else (case rs_reserved s of
                    Some (R_handoff backoff) \<Rightarrow> handoff backoff s
                  | Some (R_reserved v nodes) \<Rightarrow> handoff (confirmed = 0) s
                  | _ \<Rightarrow> s));
          s2 = on_db (onListExit (le_nextTaskTime env) k (le_now env)) s1
      in clear_after_retry k s2)"

definition finishList ::
  "list_env \<Rightarrow> outstanding_task \<Rightarrow> nat \<Rightarrow> nat \<Rightarrow> run_state \<Rightarrow> task_run_result \<times> run_state" where
  "finishList env k target n s =
     (if rs_reserved s = Some R_waiting then (run_result O_PARKED n None, s)
      else (run_result O_COMPLETED n None, completeList env k target n s))"

definition settleList ::
  "list_env \<Rightarrow> outstanding_task \<Rightarrow> nat \<Rightarrow> orchestrate_result \<Rightarrow> run_state \<Rightarrow> task_run_result \<times> run_state" where
  "settleList env k target y s =
     (let n = y_confirmed y
      in if y_aborted y then (run_result O_ABORTED n None, s)
         else if rs_draining s
         then (if y_retry y then run_result O_RETRY n (y_retryAfterMs y) else run_result O_COMPLETED n None, s)
         else (case rs_reserved s of
             Some (R_fatal error) \<Rightarrow>
               (run_result O_FAILED n None, on_db (failListDeployment k error (le_now env)) s)
           | Some (R_retry error) \<Rightarrow>
               settleRun (le_cfg env) k (le_now env) n y (finishList env k target n)
                 (onListError k (le_now env) error None s)
           | _ \<Rightarrow> settleRun (le_cfg env) k (le_now env) n y (finishList env k target n) s))"

text \<open>None: the run throws, and the consumer abandons the task.\<close>

definition runListTask :: "list_env \<Rightarrow> outstanding_task \<Rightarrow> db \<Rightarrow> task_run_result option \<times> db" where
  "runListTask env k s =
     (let t = k_task k;
          target = nullish (t_target_count t) (computeListTarget k)
      in case (case t_ipfs_definition_hash t of
                 Some h \<Rightarrow> Some h | None \<Rightarrow> resolveListDefinitionHash (le_cfg env) k) of
           None \<Rightarrow> (None, s)
         | Some hash \<Rightarrow>
             (let s1 = (if t_target_count t = None \<or> t_ipfs_definition_hash t = None
                   then on_task (\<lambda>u. t_id u = t_id t)
                     (\<lambda>u. u\<lparr>t_target_count := Some target, t_ipfs_definition_hash := Some hash\<rparr>) s
                   else s)
              in case reconcileUnits (le_resume env) (le_sign env) (t_id t) (list_handlers env k) (task_records t)
                        target (reserveAndSpawn env k target hash) (fresh_run s1) of
                   (None, r) \<Rightarrow> (None, rs_db r)
                 | (Some y, r) \<Rightarrow>
                     (let (result, r1) = settleList env k target y r in (Some result, rs_db r1))))"

section \<open>Slots\<close>

lemma pendingSlots_iff:
  "slot \<in> set (pendingSlots rs target) \<longleftrightarrow>
     slot < target \<and> (\<forall>r \<in> set rs. x_unit r = slot \<longrightarrow> x_status r \<noteq> CONFIRMED)"
  by (auto simp: pendingSlots_def Let_def)

lemma pendingSlots_sorted: "sorted (pendingSlots rs target) \<and> distinct (pendingSlots rs target)"
  by (simp add: pendingSlots_def Let_def sorted_filter [where f = id, simplified])

definition confirmed_slots :: "worker_event list \<Rightarrow> nat list" where
  "confirmed_slots ms = List.map_filter (\<lambda>m. case m of
     Msg_CONFIRMED u job run tx node market \<Rightarrow> Some (nullish u 0) | _ \<Rightarrow> None) ms"

lemma confirmed_slots_append [simp]: "confirmed_slots (xs @ ys) = confirmed_slots xs @ confirmed_slots ys"
  by (simp add: confirmed_slots_def map_filter_def)

lemma confirmed_slots_tail [simp]: "confirmed_slots (batch_tail result) = []"
  by (cases result) (simp_all add: batch_tail_def confirmed_slots_def map_filter_simps)

lemma confirmed_slots_queue:
  "confirmed_slots (queue_messages d result) =
     filter (\<lambda>u. u \<in> set (pendingSlots (task_records (k_task (lw_task d))) (slot_count d)))
       (map c_id (result_confirmations result))"
proof -
  have "confirmed_slots (map (\<lambda>c. Msg_CONFIRMED (Some (c_id c)) (c_job c) (c_run c) (c_tx c) None None) (filter P cs)) =
      map c_id (filter P cs)" for P and cs :: "nat confirmation list"
    by (induction cs) (simp_all add: confirmed_slots_def map_filter_simps)
  moreover have "map c_id (filter (\<lambda>c. c_id c \<in> A) cs) = filter (\<lambda>u. u \<in> A) (map c_id cs)" for A and cs :: "nat confirmation list"
    by (induction cs) simp_all
  ultimately show ?thesis by (simp add: queue_messages_def)
qed


definition example_outstanding :: "task_type \<Rightarrow> outstanding_task" where
  "example_outstanding ty = \<lparr>k_task = blank_task 7 ty ''d'',
     k_deployment = blank_deployment ''d'' ''o'' RUNNING,
     k_vault = \<lparr>w_vault = ''V'', w_vault_key = ''k'', w_owner = ''o'', w_created_at = 0\<rparr>, k_jobs = [], k_revisions = []\<rparr>"

lemma example_outstanding_simps [simp]:
  "k_task (example_outstanding ty) = blank_task 7 ty ''d''"
  "k_deployment (example_outstanding ty) = blank_deployment ''d'' ''o'' RUNNING"
  "k_jobs (example_outstanding ty) = []" "k_revisions (example_outstanding ty) = []"
  by (simp_all add: example_outstanding_def)

definition confirm_all :: "'b list \<Rightarrow> string \<Rightarrow> unit \<Rightarrow> (thrown + batch_item list) \<times> unit" where
  "confirm_all bodies key cm =
     (Inr (map (\<lambda>n. \<lparr>i_index = n, i_confirmed = True, i_tx = None, i_job = Some ''J'', i_run = None\<rparr>)
       [0..<length bodies]), cm)"

definition example_kit :: "(unit \<times> list_body request list) kit" where
  "example_kit = \<lparr>ki_listBatch = logged confirm_all, ki_assignBatch = logged confirm_all,
     ki_signList = (\<lambda>b n. Inl []), ki_signAssign = (\<lambda>bs. Inl [])\<rparr>"

definition example_list_data :: list_worker_data where
  "example_list_data = \<lparr>lw_task = example_outstanding LIST, lw_taskId = ''a'', lw_hash = Some ''h'',
     lw_count = 1, lw_startUnit = 0, lw_target = Some 1, lw_nodes = None\<rparr>"

lemma example_list_data_simps [simp]:
  "lw_task example_list_data = example_outstanding LIST" "lw_hash example_list_data = Some ''h''"
  "lw_nodes example_list_data = None" "slot_count example_list_data = 1"
  "lw_taskId example_list_data = ''a''"
  by (simp_all add: example_list_data_def slot_count_def)

lemma example_queue_run:
  "\<exists>res b tx. runIdempotentBatch ''a'' ''list'' MAX_IDEMPOTENCY_EPOCH (queue_units example_list_data ''h'' 1)
       (logged confirm_all) ((), []) =
     (res, ((), [(''a:list:0'', [b],
        Inr [\<lparr>i_index = 0, i_confirmed = True, i_tx = tx, i_job = Some ''J'', i_run = None\<rparr>])]))"
  by (simp add: runIdempotentBatch_def queue_units_def logged_def confirm_all_def Let_def
      upt_rec expired_units_def map_filter_simps item_at_def buildIdempotencyKey_def MAX_IDEMPOTENCY_EPOCH_def
      show_nat.simps [of 0] digit_char_def)


section \<open>A job is recorded once\<close>

definition job_rows :: "address \<Rightarrow> db \<Rightarrow> nat" where
  "job_rows job s = count_docs (\<lambda>j. j_job j = job) (db_jobs s)"

lemma count_update_one:
  "(\<And>x. P x \<Longrightarrow> Q (f x) = Q x) \<Longrightarrow> count_docs Q (update_one P f c) = count_docs Q c"
  by (induction c) auto

lemma onListConfirmed_rows:
  "job_rows job' (onListConfirmed onchain k now sg job reserved s) =
     (if job' = job then max 1 (job_rows job s) else job_rows job' s)"
proof (cases "matches (\<lambda>j. j_job j = job) (db_jobs s)")
  case True
  then have "count_docs (\<lambda>j. j_job j = job) (db_jobs s) \<noteq> 0" by (auto simp: count_docs_0_iff matches_iff)
  with True show ?thesis by (simp add: onListConfirmed_def job_rows_def count_update_one)
next
  case False
  then have z: "count_docs (\<lambda>j. j_job j = job) (db_jobs s) = 0" by (auto simp: count_docs_0_iff matches_iff)
  from False show ?thesis
    by (auto simp: onListConfirmed_def job_rows_def Let_def insert_job_def insert_one_def
        count_update_one z listed_job_def split: option.splits)
qed

text \<open>
  Confirming is idempotent: however often a job is confirmed (a reclaim, a replay, a retry),
  it has one row, its success is announced once, and after the first time nothing of it changes
  but the time it was last touched.
\<close>

theorem confirm_recorded_once:
  assumes "s1 = onListConfirmed onchain k now sg job reserved s"
    and "s2 = onListConfirmed onchain' k' now' sg' job reserved' s1"
  shows "job_rows job s1 = max 1 (job_rows job s) \<and> job_rows job s2 = job_rows job s1 \<and>
    db_events s2 = db_events s1 \<and>
    map (\<lambda>j. j\<lparr>j_updated_at := 0\<rparr>) (db_jobs s2) = map (\<lambda>j. j\<lparr>j_updated_at := 0\<rparr>) (db_jobs s1)"
proof -
  have r: "job_rows job s1 = max 1 (job_rows job s)" "job_rows job s2 = max 1 (job_rows job s1)"
    by (simp_all add: assms onListConfirmed_rows)
  then have "job_rows job s1 \<noteq> 0" by simp
  then have m: "matches (\<lambda>j. j_job j = job) (db_jobs s1)"
    by (auto simp: job_rows_def count_docs_0_iff matches_iff)
  then have s2: "s2 = s1\<lparr>db_jobs := update_one (\<lambda>j. j_job j = job) (\<lambda>j. j\<lparr>j_updated_at := now'\<rparr>) (db_jobs s1)\<rparr>"
    by (simp add: assms(2) onListConfirmed_def)
  have "map (\<lambda>j. j\<lparr>j_updated_at := 0\<rparr>) (update_one P (\<lambda>j. j\<lparr>j_updated_at := now'\<rparr>) js) =
      map (\<lambda>j. j\<lparr>j_updated_at := 0\<rparr>) js" for P and js :: "jobs_document list"
    by (rule map_update_one) simp
  with r s2 show ?thesis by simp
qed

theorem confirm_recorded_once_witness:
  "job_rows ''J'' (onListConfirmed (\<lambda>_. None) (example_outstanding LIST) 2 ''s'' ''J'' None
     (onListConfirmed (\<lambda>_. None) (example_outstanding LIST) 1 ''s'' ''J'' None empty_db)) = 1"
  using confirm_recorded_once [OF refl refl, where s = empty_db and job = "''J''"]
  by (simp add: job_rows_def empty_db_def)

section \<open>The run keeps the worker's invariants\<close>

lemma safe_insert_job:
  assumes "\<forall>j' \<in> set (db_jobs s). j_job j' \<noteq> j_job j" shows "safe_step s (insert_job j s)"
  using assms by (auto simp: safe_step_def archived_le_def settled_le_def store_wf_def insert_job_def insert_one_def)

lemma safe_update_job:
  assumes "\<And>j. P j \<Longrightarrow> j_job (f j) = j_job j" "\<And>j. P j \<Longrightarrow> \<not> job_active j \<Longrightarrow> j_state (f j) = j_state j"
  shows "safe_step s (s\<lparr>db_jobs := update_one P f (db_jobs s)\<rparr>)"
proof -
  have "\<exists>j' \<in> set (update_one P f js). j_job j' = j_job j \<and> j_state j' = j_state j"
    if "j \<in> set js" "\<not> job_active j" for j js
    using that
  proof (induction js)
    case (Cons x js)
    then show ?case using assms by (cases "P x") auto
  qed simp
  then show ?thesis
    using assms(1) by (auto simp: safe_step_def archived_le_def settled_le_def store_wf_def map_update_one)
qed

lemma safe_onListConfirmed: "safe_step s (onListConfirmed onchain k now sg job reserved s)"
proof (cases "matches (\<lambda>j. j_job j = job) (db_jobs s)")
  case True
  then show ?thesis by (simp add: onListConfirmed_def safe_update_job)
next
  case False
  let ?s1 = "insert_job (listed_job k sg job reserved now) s"
  let ?s2 = "case onchain job of
      Some (st, start, node) \<Rightarrow>
        if st \<noteq> J_QUEUED
        then ?s1\<lparr>db_jobs := update_one (\<lambda>j. j_job j = job \<and> j_state j \<notin> {J_COMPLETED, J_STOPPED})
          (\<lambda>j. j\<lparr>j_state := st, j_time_start := start, j_node := node, j_updated_at := now\<rparr>) (db_jobs ?s1)\<rparr>
        else ?s1
    | None \<Rightarrow> ?s1"
  have "safe_step s ?s1"
    using False by (intro safe_insert_job) (auto simp: matches_iff listed_job_def)
  also have "safe_step ?s1 (?s1\<lparr>db_jobs := update_one (\<lambda>j. j_job j = job \<and> j_state j \<notin> {J_COMPLETED, J_STOPPED})
      (\<lambda>j. j\<lparr>j_state := st, j_time_start := start, j_node := node, j_updated_at := now\<rparr>) (db_jobs ?s1)\<rparr>)" for st start node
    by (rule safe_update_job) (auto simp: job_not_active_iff simp del: active_job_states_iff)
  then have "safe_step ?s1 ?s2" by (auto split: option.splits)
  also have "safe_step ?s2 (onListConfirmed onchain k now sg job reserved s)"
    using False unfolding onListConfirmed_def Let_def by (simp only: if_False safe_insert_event)
  finally show ?thesis .
qed

lemma same_onListConfirmed: "same_deployments s (onListConfirmed onchain k now sg job reserved s)"
  by (simp add: same_deployments_def onListConfirmed_def Let_def insert_job_def split: option.splits)

lemma list_handlers_keep:
  "handlers_keep safe_step (list_handlers env k)" "handlers_keep same_deployments (list_handlers env k)"
  using same_onListConfirmed
  by (simp_all add: handlers_keep_def list_handlers_def onListError_def safe_onListConfirmed
      safe_insert_event same_deployments_def)

lemma mark_posted_keep:
  "safe_step (rs_db s) (rs_db (mark_posted k now s))" "same_deployments (rs_db s) (rs_db (mark_posted k now s))"
  by (auto simp: mark_posted_def same_deployments_def intro: safe_on_task)

lemma same_submitRequest: "db_deployments (snd (submitRequest cfg send k n b r now s)) = db_deployments s"
  by (auto simp: submitRequest_def noteWaiting_def Let_def split: sum.splits)

lemma same_reserveListNodes: "db_deployments (snd (reserveListNodes cfg fenv send k n now s)) = db_deployments s"
  unfolding reserveListNodes_def Let_def
  by (simp add: same_submitRequest split: option.split funds_check.split)

lemma reserveAndSpawn_keep:
  "safe_step (rs_db s) (rs_db (snd (reserveAndSpawn env k target hash n u s)))"
  "same_deployments (rs_db s) (rs_db (snd (reserveAndSpawn env k target hash n u s)))"
proof -
  obtain outcome db1 where r: "reserveListNodes (le_cfg env) (le_funds env) (le_request env) k n (le_now env) (rs_db s) = (outcome, db1)"
    by fastforce
  have 1: "safe_step (rs_db s) db1" "db_deployments db1 = db_deployments (rs_db s)"
    using safe_reserveListNodes [of "rs_db s" "le_cfg env" "le_funds env" "le_request env" k n "le_now env"]
      same_reserveListNodes [of "le_cfg env" "le_funds env" "le_request env" k n "le_now env" "rs_db s"] r by simp_all
  let ?s1 = "s\<lparr>rs_db := db1, rs_reserved := Some outcome\<rparr>"
  have 2: "safe_step (rs_db s) (rs_db (mark_posted k (le_now env) ?s1))"
    using safe_trans [OF 1(1)] mark_posted_keep(1) [of ?s1 k "le_now env"] by simp
  show "safe_step (rs_db s) (rs_db (snd (reserveAndSpawn env k target hash n u s)))"
    using 1 2 mark_posted_keep(1) [of s]
    by (auto simp: reserveAndSpawn_def Let_def r split: option.splits reserve_outcome.splits)
  show "same_deployments (rs_db s) (rs_db (snd (reserveAndSpawn env k target hash n u s)))"
    using 1 mark_posted_keep(2) [of ?s1 k "le_now env"] mark_posted_keep(2) [of s k "le_now env"]
    by (auto simp: reserveAndSpawn_def Let_def r same_deployments_def split: option.splits reserve_outcome.splits)
qed

lemma safe_handOffShortfall: "safe_step s (handOffShortfall cfg k missing b now s)"
proof -
  have "safe_step s (snd (scheduleTask LIST i st due now opts s))" for i st due opts by (rule safe_scheduleTask)
  then show ?thesis
    unfolding handOffShortfall_def Let_def case_prod_beta
    by (auto intro: safe_trans [OF safe_scheduleTask safe_insert_event])
qed

lemma safe_onListExit: "safe_step s (onListExit nt k now s)"
  by (auto simp: onListExit_def intro: safe_insert_task)

lemma safe_completeList: "safe_step (rs_db s) (rs_db (completeList env k target n s))"
proof -
  let ?h = "\<lambda>b. on_db (handOffShortfall (le_cfg env) k (target - n) b (le_now env)) s"
  let ?s1 = "(if target - n = 0 then s
                else (case rs_reserved s of
                    Some (R_handoff backoff) \<Rightarrow> ?h backoff | Some (R_reserved v nodes) \<Rightarrow> ?h (n = 0) | _ \<Rightarrow> s))"
  have "safe_step (rs_db s) (rs_db (?h b))" for b by (simp add: safe_handOffShortfall)
  then have "safe_step (rs_db s) (rs_db ?s1)" by (auto split: option.splits reserve_outcome.splits)
  also have "safe_step (rs_db ?s1) (rs_db (on_db (onListExit (le_nextTaskTime env) k (le_now env)) ?s1))"
    by (simp add: safe_onListExit)
  also have "safe_step \<dots> (rs_db (completeList env k target n s))"
    unfolding completeList_def Let_def by (rule safe_clear_after_retry)
  finally show ?thesis .
qed

lemma safe_failListDeployment: "safe_step s (failListDeployment k e now s)"
  unfolding failListDeployment_def using safe_insert_event safe_flag_error by (rule safe_trans)

lemma safe_finishList: "safe_step (rs_db s) (rs_db (snd (finishList env k target n s)))"
  by (simp add: finishList_def safe_completeList)

lemma safe_settleList: "safe_step (rs_db s) (rs_db (snd (settleList env k target y s)))"
proof -
  have run: "safe_step (rs_db u) (rs_db (snd (settleRun cfg k now n y (finishList env k target n) u)))" for cfg now n u
    by (rule safe_settleRun) (rule safe_finishList)
  have err: "safe_step (rs_db s) (rs_db (snd (settleRun cfg k now n y (finishList env k target n)
      (onListError k now' e sg s))))" for cfg now n e sg now'
    by (rule safe_trans [OF _ run]) (simp add: onListError_def safe_insert_event)
  have failed: "safe_step (rs_db s) (rs_db (on_db (failListDeployment k e now) s))" for e now
    by (simp add: safe_failListDeployment)
  show ?thesis
    unfolding settleList_def Let_def
    using run [of s] err failed by (simp split: option.split reserve_outcome.split)
qed

lemma safe_runListTask: "safe_step s (snd (runListTask env k s))"
proof -
  have st: "safe_step s (on_task (\<lambda>u. t_id u = i)
      (\<lambda>u. u\<lparr>t_target_count := Some n, t_ipfs_definition_hash := Some h\<rparr>) s)" for i n h
    by (rule safe_on_task) simp
  have rec: "safe_step u (rs_db (snd (reconcileUnits (le_resume env) (le_sign env) i (list_handlers env k) rs target
      (reserveAndSpawn env k target hash) (fresh_run u))))" for u i rs target hash
    using sf.keep_reconcileUnits [OF list_handlers_keep(1) reserveAndSpawn_keep(1), of "fresh_run u"]
    by (simp add: fresh_run_def)
  have settled: "safe_step u (rs_db (snd (settleList env k target y r)))"
    if "safe_step u (rs_db r)" for u target y r
    using that safe_settleList by (rule safe_trans)
  show ?thesis
    unfolding runListTask_def Let_def case_prod_beta
    by (auto split: option.splits intro!: settled intro: rec safe_trans [OF st rec])
qed

section \<open>What a run leaves alone\<close>

lemma settleList_waits:
  assumes "settleList env k target y s = (result, s')" "o_outcome result \<in> {O_ABORTED, O_PARKED}"
  shows "db_deployments (rs_db s') = db_deployments (rs_db s)"
  using assms
  by (auto simp: settleList_def settleRun_def retryRun_def finishList_def onListError_def Let_def
      split: if_splits option.splits reserve_outcome.splits)

lemma same_reconcile:
  "db_deployments (rs_db (snd (reconcileUnits e1 e2 i (list_handlers env k) rs target
      (reserveAndSpawn env k target hash) (fresh_run u)))) = db_deployments u"
  using sd.keep_reconcileUnits [OF list_handlers_keep(2) reserveAndSpawn_keep(2), of "fresh_run u"]
  by (simp add: same_deployments_def)

lemma runListTask_SomeE:
  assumes "runListTask env k s = (Some result, s')"
  obtains hash s1 y r r' where "db_deployments s1 = db_deployments s"
    and "reconcileUnits (le_resume env) (le_sign env) (t_id (k_task k)) (list_handlers env k)
        (task_records (k_task k)) (nullish (t_target_count (k_task k)) (computeListTarget k))
        (reserveAndSpawn env k (nullish (t_target_count (k_task k)) (computeListTarget k)) hash)
        (fresh_run s1) = (Some y, r)"
    and "settleList env k (nullish (t_target_count (k_task k)) (computeListTarget k)) y r = (result, r')"
    and "s' = rs_db r'"
proof -
  let ?target = "nullish (t_target_count (k_task k)) (computeListTarget k)"
  let ?h = "case t_ipfs_definition_hash (k_task k) of Some h \<Rightarrow> Some h
    | None \<Rightarrow> resolveListDefinitionHash (le_cfg env) k"
  obtain hash where h: "?h = Some hash"
    using assms by (cases ?h) (simp_all add: runListTask_def)
  let ?s1 = "if t_target_count (k_task k) = None \<or> t_ipfs_definition_hash (k_task k) = None
    then on_task (\<lambda>u. t_id u = t_id (k_task k))
      (\<lambda>u. u\<lparr>t_target_count := Some ?target, t_ipfs_definition_hash := Some hash\<rparr>) s else s"
  let ?x = "reconcileUnits (le_resume env) (le_sign env) (t_id (k_task k)) (list_handlers env k)
        (task_records (k_task k)) ?target (reserveAndSpawn env k ?target hash) (fresh_run ?s1)"
  obtain yo r where x: "?x = (yo, r)" by (rule prod.exhaust)
  have "(case (yo, r) of (None, r) \<Rightarrow> (None, rs_db r)
      | (Some y, r) \<Rightarrow> (let (result, r1) = settleList env k ?target y r in (Some result, rs_db r1))) =
      (Some result, s')"
    using assms unfolding runListTask_def Let_def h option.case x .
  then obtain y where y: "yo = Some y" and f: "Some (fst (settleList env k ?target y r)) = Some result"
      "rs_db (snd (settleList env k ?target y r)) = s'"
    by (auto simp: case_prod_beta split: option.splits)
  show ?thesis
    by (rule that [of ?s1 hash y r "snd (settleList env k ?target y r)"])
      (use x y f in \<open>simp_all add: prod_eq_iff\<close>)
qed

text \<open>
  A LIST that waits (its request is queued at host-manager) or that loses its lease in mid-run
  leaves every deployment as it was: no status flips, no retry time is written.
\<close>

theorem waiting_list_keeps_deployments:
  assumes "runListTask env k s = (Some result, s')" "o_outcome result \<in> {O_ABORTED, O_PARKED}"
  shows "db_deployments s' = db_deployments s"
proof -
  obtain hash s1 y r r' where s1: "db_deployments s1 = db_deployments s"
    and rec: "reconcileUnits (le_resume env) (le_sign env) (t_id (k_task k)) (list_handlers env k)
        (task_records (k_task k)) (nullish (t_target_count (k_task k)) (computeListTarget k))
        (reserveAndSpawn env k (nullish (t_target_count (k_task k)) (computeListTarget k)) hash)
        (fresh_run s1) = (Some y, r)"
    and fin: "settleList env k (nullish (t_target_count (k_task k)) (computeListTarget k)) y r = (result, r')"
        "s' = rs_db r'"
    using assms(1) by (rule runListTask_SomeE)
  have "db_deployments (rs_db r) = db_deployments s1"
    using same_reconcile [of "le_resume env" "le_sign env" "t_id (k_task k)" env k "task_records (k_task k)"
      "nullish (t_target_count (k_task k)) (computeListTarget k)" hash s1] rec by simp
  with s1 settleList_waits [OF fin(1) assms(2)] fin(2) show ?thesis by simp
qed

definition waiting_list_env :: list_env where
  "waiting_list_env = \<lparr>le_cfg = default_worker_config, le_now = 5,
     le_resume = example_env\<lparr>e_abort_end := False\<rparr>, le_sign = example_env\<lparr>e_abort_end := False\<rparr>,
     le_useNosanaApiKey = True, le_funds = example_funds\<lparr>fe_markets := None\<rparr>,
     le_request = (\<lambda>_. Inr \<lparr>rr_status = Req_waiting, rr_nodes = [], rr_holdExpiresAt = None\<rparr>),
     le_spawn = (\<lambda>_. []), le_onchain = (\<lambda>_. None), le_nextTaskTime = (\<lambda>_ now. now)\<rparr>"

definition frozen_list :: outstanding_task where
  "frozen_list = (example_outstanding LIST)\<lparr>k_task :=
     (blank_task 7 LIST ''d'')\<lparr>t_target_count := Some 1, t_ipfs_definition_hash := Some ''h''\<rparr>\<rparr>"

definition example_list_db :: db where
  "example_list_db = empty_db\<lparr>db_deployments := [blank_deployment ''d'' ''o'' RUNNING], db_tasks := [k_task frozen_list]\<rparr>"

lemma frozen_list_simps [simp]:
  "t_target_count (k_task frozen_list) = Some 1" "t_ipfs_definition_hash (k_task frozen_list) = Some ''h''"
  "t_transactions (k_task frozen_list) = None" "t_id (k_task frozen_list) = 7"
  "t_reservation (k_task frozen_list) = None" "t_reservation_request (k_task frozen_list) = None"
  "k_deployment frozen_list = blank_deployment ''d'' ''o'' RUNNING"
  by (simp_all add: frozen_list_def)

lemma example_list_wanted: "checkTaskWanted example_list_db (k_task frozen_list)"
  by (simp add: checkTaskWanted_def example_list_db_def frozen_list_def find_one_def isTaskWanted_def)

lemma frozen_list_parks:
  "\<exists>result s'. runListTask waiting_list_env frozen_list example_list_db = (Some result, s') \<and>
     o_outcome result = O_PARKED"
proof -
  obtain db1 where r: "reserveListNodes (le_cfg waiting_list_env) (le_funds waiting_list_env) (le_request waiting_list_env)
      frozen_list 1 (le_now waiting_list_env) example_list_db = (R_waiting, db1)"
    by (simp add: reserveListNodes_def checkListFunds_def submitRequest_def waiting_list_env_def
        Let_def MAX_RESERVATION_COUNT_def)
  then obtain s1 where s1: "reserveAndSpawn waiting_list_env frozen_list 1 ''h'' 1 0 (fresh_run example_list_db) = (None, s1)"
      "rs_reserved s1 = Some R_waiting" "rs_signal s1 = None" "\<not> rs_draining s1"
    by (simp add: reserveAndSpawn_def example_list_wanted Let_def blank_deployment_def [of "''d''"])
  have "reconcileUnits (le_resume waiting_list_env) (le_sign waiting_list_env) 7 (list_handlers waiting_list_env frozen_list)
      [] 1 (reserveAndSpawn waiting_list_env frozen_list 1 ''h'') (fresh_run example_list_db) =
      (Some \<lparr>y_confirmed = 0, y_errored = 0, y_aborted = False, y_retry = False, y_retryAfterMs = None\<rparr>, s1)"
    using s1(1) by (simp add: reconcileUnits_def orchestrateUnits_def tally_def waiting_list_env_def example_env_def)
  then show ?thesis
    using s1(2-4) by (simp add: runListTask_def settleList_def settleRun_def negative_signal_def shouldRetry_def finishList_def)
qed

theorem waiting_list_keeps_deployments_witness:
  "db_deployments (snd (runListTask waiting_list_env frozen_list example_list_db)) = db_deployments example_list_db"
proof -
  obtain result s' where r: "runListTask waiting_list_env frozen_list example_list_db = (Some result, s')"
      "o_outcome result = O_PARKED"
    using frozen_list_parks by blast
  with waiting_list_keeps_deployments [OF r(1)] show ?thesis by simp
qed

end
