(* ===== verification/Stop_Task.thy ===== *)
theory Stop_Task
  imports List_Task "HOL-Library.Product_Lexorder"
begin

text \<open>
  The STOP task (\<open>src/tasks/task/stop/\<close>): which jobs a stop freezes as its targets, the
  worker's messages on both vault paths, the handlers and the run with its self-healing end. What
  client-manager, the chain reads and the signing give is the record \<open>stop_kit\<close>; a job read
  gives the job's state or the message of what it throws, and a job whose first read or signing
  threw is read once more.
\<close>

section \<open>Choosing the targets\<close>

definition stateRank :: "job_state \<Rightarrow> nat" where
  "stateRank st = (if st = J_QUEUED then 0 else 1)"

definition stop_order :: "jobs_document \<Rightarrow> nat \<times> ms" where
  "stop_order j = (stateRank (j_state j), j_updated_at j)"

text \<open>\<open>activeRevision && activeRevision === revision\<close>: revision 0 counts as none.\<close>

definition stop_eligible :: "nat option \<Rightarrow> jobs_document \<Rightarrow> bool" where
  "stop_eligible activeRevision j \<longleftrightarrow> \<not> (truthy_nat activeRevision \<and> activeRevision = Some (j_revision j))"

definition selectJobsToStop ::
  "jobs_document list \<Rightarrow> nat option \<Rightarrow> nat option \<Rightarrow> address option \<Rightarrow> jobs_document list" where
  "selectJobsToStop jobs limit activeRevision target =
     (if truthy_string target then filter (\<lambda>j. target = Some (j_job j)) jobs
      else take (if truthy_nat limit then the limit else length jobs)
        (sort_key stop_order (filter (stop_eligible activeRevision) jobs)))"

section \<open>The worker\<close>

record 'cm stop_kit =
  sk_stopBatch :: "address list \<Rightarrow> string \<Rightarrow> 'cm \<Rightarrow> (thrown + batch_item list) \<times> 'cm"
  sk_get :: "address \<Rightarrow> string + job_state"
  sk_get_again :: "address \<Rightarrow> string + job_state"
  sk_sign :: "job_state \<Rightarrow> address \<Rightarrow> string + string \<times> nat"

record stop_worker_data =
  sw_task :: outstanding_task
  sw_taskId :: string
  sw_targets :: "address list"

definition recorded_jobs :: "task_document \<Rightarrow> address list" where
  "recorded_jobs t =
     concat (map (\<lambda>r. nullish (x_jobs r) []) (filter (\<lambda>r. x_status r = CONFIRMED) (task_records t)))"

definition confirmed_job :: "address list \<Rightarrow> nat confirmation \<Rightarrow> address" where
  "confirmed_job targets c = nullish (c_job c) (targets ! c_id c)"

definition stop_batch_messages :: "stop_worker_data \<Rightarrow> nat batch_result \<Rightarrow> worker_event list" where
  "stop_batch_messages d result =
     map (\<lambda>c. Msg_CONFIRMED (Some (c_id c)) (Some (confirmed_job (sw_targets d) c)) None (c_tx c) None None)
       (filter (\<lambda>c. confirmed_job (sw_targets d) c \<notin> set (recorded_jobs (k_task (sw_task d))))
         (result_confirmations result)) @ batch_tail result"

definition settled_state :: "job_state \<Rightarrow> bool" where
  "settled_state st \<longleftrightarrow> st = J_COMPLETED \<or> st = J_STOPPED"

definition CLOSED_ACCOUNT :: string where
  "CLOSED_ACCOUNT = ''Account does not exist or has no data''"

definition stop_failed :: "'cm stop_kit \<Rightarrow> nat \<Rightarrow> address \<Rightarrow> string \<Rightarrow> worker_event list" where
  "stop_failed kt u job error =
     (case sk_get_again kt job of
        Inr st \<Rightarrow> if settled_state st then [] else [Msg_ERROR (Some u) (Some error)]
      | Inl e \<Rightarrow> if e = CLOSED_ACCOUNT then [] else [Msg_ERROR (Some u) (Some error)])"

definition stop_signed :: "'cm stop_kit \<Rightarrow> nat \<Rightarrow> address \<Rightarrow> worker_event list" where
  "stop_signed kt u job =
     (case sk_get kt job of
        Inl e \<Rightarrow> stop_failed kt u job e
      | Inr st \<Rightarrow>
          if settled_state st then []
          else (case sk_sign kt st job of
              Inl e \<Rightarrow> stop_failed kt u job e
            | Inr (blob, lvbh) \<Rightarrow> [Msg_SIGNED u blob lvbh None (Some [job]) None None None]))"

text \<open>The self-custody path signs its jobs concurrently; the messages are taken in target order.\<close>

definition stop_worker :: "'cm stop_kit \<Rightarrow> bool \<Rightarrow> stop_worker_data \<Rightarrow> 'cm \<Rightarrow> worker_event list \<times> 'cm" where
  "stop_worker kt useNosanaApiKey d cm =
     (if useNosanaApiKey
      then (let units = map (\<lambda>n. \<lparr>b_id = n, b_body = sw_targets d ! n\<rparr>) [0..<length (sw_targets d)];
                (result, cm1) = runIdempotentBatch (sw_taskId d) ''stop'' MAX_IDEMPOTENCY_EPOCH units (sk_stopBatch kt) cm
            in (stop_batch_messages d result, cm1))
      else (concat (map (\<lambda>n. stop_signed kt n (sw_targets d ! n)) [0..<length (sw_targets d)]) @ [Msg_DONE], cm))"

section \<open>Handlers\<close>

definition onStopConfirmed :: "address \<Rightarrow> string \<Rightarrow> outstanding_task \<Rightarrow> ms \<Rightarrow> db \<Rightarrow> db" where
  "onStopConfirmed job tx k now =
     insert_event (deployment_event (t_deploymentId (k_task k)) ''JOB_STOPPED_CONFIRMED''
       (if tx \<noteq> [] then ''Successfully stopped job '' @ job @ ''. TX '' @ tx
        else ''Job '' @ job @ '' was already settled'') (Some tx) now)"

definition onStopError :: "outstanding_task \<Rightarrow> ms \<Rightarrow> string \<Rightarrow> signature option \<Rightarrow> run_state \<Rightarrow> run_state" where
  "onStopError = task_error ''JOB_STOP_ERROR''"

definition stop_handlers :: "outstanding_task \<Rightarrow> ms \<Rightarrow> handlers" where
  "stop_handlers k now = \<lparr>
     onConfirmed = (\<lambda>u sg job run reserved s.
       if truthy_string job
       then on_db (onStopConfirmed (the job) sg k now) (s\<lparr>rs_stopped := rs_stopped s @ [the job]\<rparr>) else s),
     onError = (\<lambda>u error sg s. onStopError k now error sg s)\<rparr>"

definition onStopExit :: "address list \<Rightarrow> string \<Rightarrow> ms \<Rightarrow> db \<Rightarrow> db" where
  "onStopExit stoppedJobs deploymentId now s =
     (let s1 = on_jobs (\<lambda>j. j_job j \<in> set stoppedJobs \<and> job_active j)
                 (\<lambda>j. j\<lparr>j_state := J_STOPPED, j_updated_at := now\<rparr>) s
      in if stoppedJobs = [] \<and> count_docs (\<lambda>j. j_deployment j = deploymentId \<and> job_active j) (db_jobs s1) = 0
         then on_deployment (\<lambda>d. d_id d = deploymentId \<and> d_status d = STOPPING) (\<lambda>d. d\<lparr>d_status := STOPPED\<rparr>) s1
         else s1)"

section \<open>The run\<close>

record stop_env =
  se_cfg :: worker_config
  se_now :: ms
  se_run :: run_env
  se_spawn :: "stop_worker_data \<Rightarrow> worker_event list"

definition retires_scope :: "task_document \<Rightarrow> bool" where
  "retires_scope t \<longleftrightarrow> \<not> truthy_nat (t_limit t) \<and> \<not> truthy_string (t_job t)"

definition in_stop_scope :: "nat option \<Rightarrow> nat option \<Rightarrow> bool" where
  "in_stop_scope activeRevision revision \<longleftrightarrow> \<not> (truthy_nat activeRevision \<and> revision = activeRevision)"

definition straggler :: "task_document \<Rightarrow> address list \<Rightarrow> jobs_document \<Rightarrow> bool" where
  "straggler t stopTargets j \<longleftrightarrow> j_deployment j = t_deploymentId t \<and> job_active j \<and>
     j_job j \<notin> set stopTargets \<and> in_stop_scope (t_active_revision t) (Some (j_revision j))"

definition draining_list :: "task_document \<Rightarrow> task_document \<Rightarrow> bool" where
  "draining_list t u \<longleftrightarrow> t_deploymentId u = t_deploymentId t \<and> LIST_IN_FLIGHT u \<and>
     in_stop_scope (t_active_revision t) (t_active_revision u)"

definition rescheduled_options :: "task_document \<Rightarrow> schedule_options" where
  "rescheduled_options t = no_options\<lparr>
     o_active_revision := (if truthy_nat (t_active_revision t) then t_active_revision t else None),
     o_reason := Some (if truthy_nat (t_active_revision t) then Reason_revision else Reason_stop),
     o_idempotent := True\<rparr>"

definition sweep_stragglers :: "outstanding_task \<Rightarrow> address list \<Rightarrow> ms \<Rightarrow> db \<Rightarrow> db" where
  "sweep_stragglers k stopTargets now s =
     (let t = k_task k;
          draining = earliest (draining_list t) (db_tasks s)
      in if 0 < count_docs (straggler t stopTargets) (db_jobs s) \<or> draining \<noteq> None
         then snd (scheduleTask STOP (t_deploymentId t) (d_status (k_deployment k))
                (max now (case draining of Some u \<Rightarrow> t_due_at u | None \<Rightarrow> 0)) now (rescheduled_options t) s)
         else s)"

definition finishStop ::
  "outstanding_task \<Rightarrow> address list \<Rightarrow> ms \<Rightarrow> run_state \<Rightarrow> task_run_result \<times> run_state" where
  "finishStop k stopTargets now s =
     (let s1 = (if retires_scope (k_task k) then on_db (sweep_stragglers k stopTargets now) s else s);
          s2 = on_db (onStopExit (rs_stopped s1) (t_deploymentId (k_task k)) now) s1
      in (run_result O_COMPLETED (length (rs_stopped s)) None, clear_after_retry k s2))"

definition settleStop ::
  "stop_env \<Rightarrow> outstanding_task \<Rightarrow> address list \<Rightarrow> orchestrate_result \<Rightarrow> run_state \<Rightarrow> task_run_result \<times> run_state" where
  "settleStop env k stopTargets y s =
     (if y_aborted y then (run_result O_ABORTED (length (rs_stopped s)) None, s)
      else settleRun (se_cfg env) k (se_now env) (length (rs_stopped s)) y (finishStop k stopTargets (se_now env)) s)"

definition full_stop_churn :: "string \<Rightarrow> task_document \<Rightarrow> bool" where
  "full_stop_churn deploymentId t \<longleftrightarrow>
     t_deploymentId t = deploymentId \<and> t_task t \<noteq> STOP \<and> \<not> LIST_IN_FLIGHT t"

definition stop_targets_of :: "outstanding_task \<Rightarrow> address list" where
  "stop_targets_of k = nullish (t_stop_targets (k_task k))
     (map j_job (selectJobsToStop (k_jobs k) (t_limit (k_task k)) (t_active_revision (k_task k)) (t_job (k_task k))))"

definition runStopTask :: "stop_env \<Rightarrow> outstanding_task \<Rightarrow> db \<Rightarrow> task_run_result option \<times> db" where
  "runStopTask env k s =
     (let t = k_task k;
          s1 = (if retires_scope t \<and> \<not> truthy_nat (t_active_revision t)
                then snd (tasks_delete None (full_stop_churn (t_deploymentId t)) s) else s);
          stopTargets = stop_targets_of k;
          s2 = (if t_stop_targets t = None
                then on_task (\<lambda>u. t_id u = t_id t) (\<lambda>u. u\<lparr>t_stop_targets := Some stopTargets\<rparr>) s1 else s1)
      in case orchestrateUnits (se_run env) (t_id t) (stop_handlers k (se_now env)) []
                (Some (se_spawn env \<lparr>sw_task = k, sw_taskId = toHexString (t_id t), sw_targets = stopTargets\<rparr>))
                (fresh_run s2) of
           (None, r) \<Rightarrow> (None, rs_db r)
         | (Some y, r) \<Rightarrow> (let (result, r1) = settleStop env k stopTargets y r in (Some result, rs_db r1)))"

section \<open>The targets\<close>

text \<open>
  A stop takes the right jobs: a targeted stop takes exactly the job it names; any other takes
  jobs of the other revisions only, never more than its limit and never fewer than it may, queued
  jobs before running ones and the least recently touched first, each job once.
\<close>

theorem stop_takes_queued_oldest_first:
  assumes "\<not> truthy_string target"
  shows "selectJobsToStop jobs limit ar (Some (c # cs)) = filter (\<lambda>j. j_job j = c # cs) jobs \<and>
    set (selectJobsToStop jobs limit ar target) \<subseteq> {j \<in> set jobs. stop_eligible ar j} \<and>
    length (selectJobsToStop jobs limit ar target) =
      (if truthy_nat limit then min (the limit) (length (filter (stop_eligible ar) jobs))
       else length (filter (stop_eligible ar) jobs)) \<and>
    sorted (map stop_order (selectJobsToStop jobs limit ar target)) \<and>
    (\<exists>rest. mset (selectJobsToStop jobs limit ar target) + mset rest = mset (filter (stop_eligible ar) jobs) \<and>
       (\<forall>j \<in> set (selectJobsToStop jobs limit ar target). \<forall>j' \<in> set rest. stop_order j \<le> stop_order j'))"
proof -
  let ?e = "filter (stop_eligible ar) jobs"
  let ?n = "if truthy_nat limit then the limit else length jobs"
  let ?xs = "sort_key stop_order ?e"
  have sel: "selectJobsToStop jobs limit ar target = take ?n ?xs"
    using assms by (simp add: selectJobsToStop_def)
  have le: "length ?e \<le> length jobs" by simp
  have srt: "sorted (map stop_order (take ?n ?xs @ drop ?n ?xs))" by simp
  then have "sorted (map stop_order (take ?n ?xs))"
    and "\<forall>j \<in> set (take ?n ?xs). \<forall>j' \<in> set (drop ?n ?xs). stop_order j \<le> stop_order j'"
    unfolding map_append sorted_append by auto
  moreover have "mset (take ?n ?xs) + mset (drop ?n ?xs) = mset ?e"
    by (metis append_take_drop_id mset_append mset_sort)
  moreover have "set (take ?n ?xs) \<subseteq> {j \<in> set jobs. stop_eligible ar j}"
    using set_take_subset [of ?n ?xs] by auto
  moreover have "length (take ?n ?xs) = (if truthy_nat limit then min (the limit) (length ?e) else length ?e)"
    using le by (simp add: min.commute)
  moreover have "selectJobsToStop jobs limit ar (Some (c # cs)) = filter (\<lambda>j. j_job j = c # cs) jobs"
    by (auto simp: selectJobsToStop_def intro: filter_cong)
  ultimately show ?thesis unfolding sel by blast
qed

definition example_job :: "address \<Rightarrow> job_state \<Rightarrow> ms \<Rightarrow> nat \<Rightarrow> jobs_document" where
  "example_job a st touched rn = \<lparr>j_job = a, j_market = None, j_node = None, j_deployment = ''d'', j_revision = rn,
     j_tx = ''s'', j_state = st, j_time_start = 0, j_time_end = None, j_startup_deadline = None,
     j_created_at = 0, j_updated_at = touched\<rparr>"

lemma example_job_simps [simp]:
  "j_job (example_job a st touched rn) = a" "j_state (example_job a st touched rn) = st"
  "j_updated_at (example_job a st touched rn) = touched" "j_revision (example_job a st touched rn) = rn"
  "j_deployment (example_job a st touched rn) = ''d''"
  by (simp_all add: example_job_def)

theorem stop_takes_queued_oldest_first_witness:
  "length (selectJobsToStop [example_job ''A'' J_RUNNING 1 1, example_job ''B'' J_QUEUED 2 1,
     example_job ''C'' J_QUEUED 1 2] (Some 5) (Some 2) None) = 2"
  using stop_takes_queued_oldest_first [of None "[example_job ''A'' J_RUNNING 1 1, example_job ''B'' J_QUEUED 2 1,
     example_job ''C'' J_QUEUED 1 2]" "Some 5" "Some 2"] by (simp add: stop_eligible_def)

section \<open>The worker reports a job once\<close>

definition confirmed_job_ids :: "worker_event list \<Rightarrow> address list" where
  "confirmed_job_ids ms = List.map_filter (\<lambda>m. case m of
     Msg_CONFIRMED u job run tx node market \<Rightarrow> job | _ \<Rightarrow> None) ms"

lemma confirmed_job_ids_simps [simp]:
  "confirmed_job_ids [] = []" "confirmed_job_ids (batch_tail result) = []"
  "confirmed_job_ids (xs @ ys) = confirmed_job_ids xs @ confirmed_job_ids ys"
  "confirmed_job_ids (Msg_CONFIRMED u (Some job) run tx node market # ms) = job # confirmed_job_ids ms"
  by (simp_all add: confirmed_job_ids_def map_filter_def batch_tail_def split: batch_result.split)

lemma confirmed_job_ids_map:
  "confirmed_job_ids (map (\<lambda>c. Msg_CONFIRMED (Some (c_id c)) (Some (f c)) None (c_tx c) None None) cs) = map f cs"
  by (induction cs) simp_all

lemma stop_worker_jobs:
  assumes "stop_worker kt True d cm = (ms, cm')"
  shows "set (confirmed_job_ids ms) \<inter> set (recorded_jobs (k_task (sw_task d))) = {}"
    and "\<forall>m \<in> set ms. \<forall>u b l sg jobs runs nodes markets. m \<noteq> Msg_SIGNED u b l sg jobs runs nodes markets"
proof -
  obtain result where "ms = stop_batch_messages d result"
    using assms by (auto simp: stop_worker_def Let_def case_prod_beta)
  then show "set (confirmed_job_ids ms) \<inter> set (recorded_jobs (k_task (sw_task d))) = {}"
    and "\<forall>m \<in> set ms. \<forall>u b l sg jobs runs nodes markets. m \<noteq> Msg_SIGNED u b l sg jobs runs nodes markets"
    by (auto simp: stop_batch_messages_def confirmed_job_ids_map)
      (auto simp: batch_tail_def split: batch_result.splits)
qed

lemma stopped_by_messages:
  assumes "\<forall>m \<in> set ms. \<forall>u b l sg jobs runs nodes markets. m \<noteq> Msg_SIGNED u b l sg jobs runs nodes markets"
  shows "set (rs_stopped (snd (runWorkerMessages env i (stop_handlers k now) ms s))) \<subseteq>
    set (rs_stopped s) \<union> set (confirmed_job_ids ms)"
  using assms
proof (induction ms arbitrary: s)
  case (Cons m ms)
  show ?case
  proof (cases m)
    case (Msg_CONFIRMED u job run tx node market)
    let ?s1 = "persistConfirmedRecord i (confirmed_record (nullish u 0) (nullish tx []) job run (reserved_of node market))
      (onConfirmed (stop_handlers k now) (nullish u 0) (nullish tx []) job run (reserved_of node market) s)"
    have "set (rs_stopped ?s1) \<subseteq> set (rs_stopped s) \<union> set_option job"
      by (cases job) (auto simp: stop_handlers_def persistConfirmedRecord_def)
    moreover have "set (confirmed_job_ids (m # ms)) = set_option job \<union> set (confirmed_job_ids ms)"
      by (cases job) (simp_all add: Msg_CONFIRMED confirmed_job_ids_def map_filter_simps)
    ultimately show ?thesis
      using Cons.IH [of ?s1] Cons.prems by (auto simp: Msg_CONFIRMED Let_def case_prod_beta)
  next
    case (Msg_ERROR u err)
    have "set (confirmed_job_ids (m # ms)) = set (confirmed_job_ids ms)"
      by (simp add: Msg_ERROR confirmed_job_ids_def map_filter_simps)
    with Cons.IH [of "onError (stop_handlers k now) (nullish u 0) (nullish err ''unknown error'') None s"] Cons.prems
    show ?thesis by (simp add: Msg_ERROR Let_def case_prod_beta stop_handlers_def onStopError_def)
  next
    case (Msg_RETRY u h)
    then have "set (confirmed_job_ids (m # ms)) = set (confirmed_job_ids ms)"
      by (simp add: confirmed_job_ids_def map_filter_simps)
    with Cons.IH [of s] Cons.prems show ?thesis by (simp add: Msg_RETRY Let_def case_prod_beta)
  next
    case (Msg_SIGNED u b l sg jobs runs nodes markets)
    with Cons.prems show ?thesis by simp
  qed (simp_all add: stop_handlers_def onStopError_def)
qed simp

definition same_jobs :: "db \<Rightarrow> db \<Rightarrow> bool" where
  "same_jobs s s' \<longleftrightarrow> db_jobs s' = db_jobs s"

interpretation sj: run_relation same_jobs
  by unfold_locales (simp_all add: same_jobs_def)

lemma stop_handlers_keep:
  "handlers_keep safe_step (stop_handlers k now)" "handlers_keep same_jobs (stop_handlers k now)"
  by (simp_all add: handlers_keep_def stop_handlers_def onStopError_def onStopConfirmed_def
      safe_insert_event same_jobs_def)

lemma same_jobs_settled:
  "db_jobs (applyRetryState i sg delay now s) = db_jobs s"
  "db_jobs (clearRetryState i s) = db_jobs s"
  "db_jobs (archiveBannedOwner owner now s) = db_jobs s"
proof -
  have "db_jobs (schedule_stops owned now s) = db_jobs s" for owned s
    by (induction owned arbitrary: s) (simp_all add: schedule_stops_def case_prod_beta)
  then show "db_jobs (archiveBannedOwner owner now s) = db_jobs s"
    by (simp add: archiveBannedOwner_def Let_def)
qed (simp_all add: applyRetryState_def clearRetryState_def Let_def)

lemma onStopExit_jobs:
  "db_jobs (onStopExit stopped i now s) = update_many (\<lambda>j. j_job j \<in> set stopped \<and> job_active j)
     (\<lambda>j. j\<lparr>j_state := J_STOPPED, j_updated_at := now\<rparr>) (db_jobs s)"
  by (simp add: onStopExit_def Let_def)

lemma sweep_stragglers_jobs [simp]: "db_jobs (sweep_stragglers k targets now s) = db_jobs s"
  by (simp add: sweep_stragglers_def Let_def)

lemma settleStop_jobs:
  assumes "j \<in> set (db_jobs (rs_db s))" "j_job j \<notin> set (rs_stopped s)"
  shows "j \<in> set (db_jobs (rs_db (snd (settleStop env k targets y s))))"
proof -
  have fin: "j \<in> set (db_jobs (rs_db (snd (finishStop k targets now s))))" for now
  proof -
    let ?u = "onStopExit (rs_stopped s) (t_deploymentId (k_task k)) now
      (if retires_scope (k_task k) then sweep_stragglers k targets now (rs_db s) else rs_db s)"
    have "j \<in> set (db_jobs ?u)"
      unfolding onStopExit_jobs set_update_many by (rule image_eqI [of _ _ j]) (use assms in auto)
    then show ?thesis
      by (cases "retires_scope (k_task k)")
        (simp_all add: finishStop_def clear_after_retry_def same_jobs_settled Let_def)
  qed
  show ?thesis
    using fin assms(1)
    by (simp add: settleStop_def settleRun_def retryRun_def Let_def same_jobs_settled)
qed

lemma worker_only_orchestrated:
  assumes "orchestrateUnits env i h [] (Some ms) s = (Some y, r)"
  shows "r = s \<or> r = snd (runWorkerMessages env i h ms s)"
  using assms by (simp add: orchestrateUnits_def case_prod_beta split: if_splits)

lemma runStopTask_SomeE:
  assumes "runStopTask env k s = (Some result, s')"
  obtains s2 y r r' where "db_jobs s2 = db_jobs s" "safe_step s s2"
    and "orchestrateUnits (se_run env) (t_id (k_task k)) (stop_handlers k (se_now env)) []
        (Some (se_spawn env \<lparr>sw_task = k, sw_taskId = toHexString (t_id (k_task k)), sw_targets = stop_targets_of k\<rparr>))
        (fresh_run s2) = (Some y, r)"
    and "settleStop env k (stop_targets_of k) y r = (result, r')" "s' = rs_db r'"
proof -
  let ?s1 = "if retires_scope (k_task k) \<and> \<not> truthy_nat (t_active_revision (k_task k))
    then snd (tasks_delete None (full_stop_churn (t_deploymentId (k_task k))) s) else s"
  let ?s2 = "if t_stop_targets (k_task k) = None then on_task (\<lambda>u. t_id u = t_id (k_task k))
    (\<lambda>u. u\<lparr>t_stop_targets := Some (stop_targets_of k)\<rparr>) ?s1 else ?s1"
  let ?o = "orchestrateUnits (se_run env) (t_id (k_task k)) (stop_handlers k (se_now env)) []
        (Some (se_spawn env \<lparr>sw_task = k, sw_taskId = toHexString (t_id (k_task k)), sw_targets = stop_targets_of k\<rparr>))
        (fresh_run ?s2)"
  obtain yo r where o: "?o = (yo, r)" by (rule prod.exhaust)
  have "(case (yo, r) of (None, r) \<Rightarrow> (None, rs_db r)
      | (Some y, r) \<Rightarrow> (let (result, r1) = settleStop env k (stop_targets_of k) y r in (Some result, rs_db r1))) =
      (Some result, s')"
    using assms unfolding runStopTask_def Let_def o .
  then obtain y where y: "yo = Some y" "fst (settleStop env k (stop_targets_of k) y r) = result"
      "rs_db (snd (settleStop env k (stop_targets_of k) y r)) = s'"
    by (auto simp: case_prod_beta split: option.splits)
  have "safe_step s ?s1" by (simp add: safe_tasks_delete)
  also have "safe_step ?s1 ?s2" by (auto intro: safe_on_task)
  finally show ?thesis
    by (intro that [of ?s2 y r "snd (settleStop env k (stop_targets_of k) y r)"])
      (use o y in \<open>simp_all add: prod_eq_iff\<close>)
qed

text \<open>
  What a stop's earlier attempt settled, its later one leaves to the accounts listener: on the
  API path a job that already has a CONFIRMED record is not reported again, so the run that
  completes the stop does not mark it STOPPED: its row is exactly what it was, whatever
  client-manager answers and however the run ends.
\<close>

theorem earlier_stop_not_marked:
  assumes "runStopTask env k s = (Some result, s')"
    and "\<And>d. se_spawn env d = fst (stop_worker kt True d cm)"
    and "j \<in> set (db_jobs s)" "j_job j \<in> set (recorded_jobs (k_task k))"
  shows "j \<in> set (db_jobs s')"
proof -
  let ?d = "\<lparr>sw_task = k, sw_taskId = toHexString (t_id (k_task k)), sw_targets = stop_targets_of k\<rparr>"
  let ?h = "stop_handlers k (se_now env)"
  obtain s2 y r r' where jobs2: "db_jobs s2 = db_jobs s"
    and o: "orchestrateUnits (se_run env) (t_id (k_task k)) ?h [] (Some (fst (stop_worker kt True ?d cm)))
        (fresh_run s2) = (Some y, r)"
    and fin: "settleStop env k (stop_targets_of k) y r = (result, r')" "s' = rs_db r'"
    by (rule runStopTask_SomeE [OF assms(1), unfolded assms(2)]) (rule that; assumption)
  note ms = stop_worker_jobs [of kt ?d cm, OF prod.collapse [symmetric]]
  have "set (rs_stopped r) \<subseteq> set (confirmed_job_ids (fst (stop_worker kt True ?d cm)))"
    using worker_only_orchestrated [OF o]
  proof (elim disjE)
    assume "r = fresh_run s2"
    then show ?thesis by simp
  next
    assume r: "r = snd (runWorkerMessages (se_run env) (t_id (k_task k)) ?h (fst (stop_worker kt True ?d cm)) (fresh_run s2))"
    show ?thesis
      unfolding r using stopped_by_messages [OF ms(2), of "se_run env" "t_id (k_task k)" k "se_now env" "fresh_run s2"]
      by simp
  qed
  with ms(1) assms(4) have "j_job j \<notin> set (rs_stopped r)" by auto
  moreover have "db_jobs (rs_db r) = db_jobs s2"
    using sj.keep_orchestrateUnits [OF stop_handlers_keep(2), of "fresh_run s2" "se_run env" "t_id (k_task k)" k
      "se_now env" "[]" "Some (fst (stop_worker kt True ?d cm))"] o by (simp add: same_jobs_def)
  ultimately show ?thesis
    using settleStop_jobs [of j r env k "stop_targets_of k" y] fin jobs2 assms(3) by simp
qed

section \<open>No job outlives its stop\<close>

lemma or_else_None [simp]: "or_else a None = a"
  by (cases a) simp_all

lemma stop_scheduled:
  assumes "o_idempotent opts" "o_handoff_of opts = None"
  shows "\<exists>t \<in> set (db_tasks (snd (scheduleTask STOP i st due now opts s))). t_task t = STOP \<and>
    t_deploymentId t = i \<and> t_status t = Some PENDING \<and> t_active_revision t = o_active_revision opts \<and>
    t_limit t = o_limit opts \<and> t_job t = o_job opts"
proof (cases "fst (scheduleTask STOP i st due now opts s)")
  case True
  then show ?thesis
    by (auto simp: scheduleTask_tasks scheduled_doc_def scheduled_revision_def scheduled_current_def)
next
  case False
  then obtain t where "t \<in> set (db_tasks s)" "same_intent s STOP i opts t"
    using assms by (auto simp: scheduleTask_created_iff matches_iff)
  with False assms show ?thesis
    by (intro bexI [of _ t]) (auto simp: scheduleTask_tasks same_intent_def scheduled_revision_def
        scheduled_current_def)
qed

lemma finishStop_tasks:
  assumes "retires_scope (k_task k)"
  shows "db_tasks (rs_db (snd (finishStop k targets now s))) = db_tasks (sweep_stragglers k targets now (rs_db s))"
  using assms by (simp add: finishStop_def onStopExit_def clear_after_retry_def clearRetryState_def Let_def)

lemma settleStop_completed:
  assumes "settleStop env k targets y s = (result, s')" "o_outcome result = O_COMPLETED"
  shows "s' = snd (finishStop k targets (se_now env) s)"
  using assms by (auto simp: settleStop_def settleRun_def retryRun_def Let_def split: if_splits)

text \<open>
  No job outlives its stop: when a stop that retires a scope (a full stop, or a revision stop)
  completes, and a job of that scope outside its targets is still active, or a LIST of that scope
  is still in flight, then another STOP of the same scope is pending for the deployment.
\<close>

theorem stragglers_get_another_stop:
  assumes "runStopTask env k s = (Some result, s')" "o_outcome result = O_COMPLETED"
    and "retires_scope (k_task k)"
    and "(\<exists>j \<in> set (db_jobs s'). straggler (k_task k) (stop_targets_of k) j) \<or>
      (\<exists>u \<in> set (db_tasks s'). draining_list (k_task k) u)"
  shows "\<exists>u \<in> set (db_tasks s'). t_task u = STOP \<and> t_deploymentId u = t_deploymentId (k_task k) \<and>
    t_status u = Some PENDING \<and> t_limit u = None \<and> t_job u = None \<and>
    (\<forall>revision. in_stop_scope (t_active_revision u) revision \<longleftrightarrow> in_stop_scope (t_active_revision (k_task k)) revision)"
proof -
  let ?t = "k_task k" and ?targets = "stop_targets_of k" and ?now = "se_now env"
  let ?opts = "rescheduled_options ?t"
  obtain y r r' where "settleStop env k ?targets y r = (result, r')" and s': "s' = rs_db r'"
    by (rule runStopTask_SomeE [OF assms(1)]) (rule that; assumption)
  with assms(2) have r': "r' = snd (finishStop k ?targets ?now r)" by (blast dest: settleStop_completed)
  have tasks: "db_tasks s' = db_tasks (sweep_stragglers k ?targets ?now (rs_db r))"
    unfolding s' r' by (rule finishStop_tasks [OF assms(3)])
  have jobs: "\<exists>j \<in> set (db_jobs (rs_db r)). straggler ?t ?targets j"
    if "j \<in> set (db_jobs s')" "straggler ?t ?targets j" for j
  proof -
    have "db_jobs s' = update_many (\<lambda>j. j_job j \<in> set (rs_stopped r) \<and> job_active j)
        (\<lambda>j. j\<lparr>j_state := J_STOPPED, j_updated_at := ?now\<rparr>) (db_jobs (rs_db r))"
      by (simp add: s' r' finishStop_def clear_after_retry_def same_jobs_settled onStopExit_jobs Let_def)
    with that show ?thesis
      by (fastforce simp: set_update_many straggler_def split: if_splits)
  qed
  let ?swept = "0 < count_docs (straggler ?t ?targets) (db_jobs (rs_db r)) \<or>
    earliest (draining_list ?t) (db_tasks (rs_db r)) \<noteq> None"
  have ?swept
  proof (rule ccontr)
    assume n: "\<not> ?swept"
    then have "db_tasks s' = db_tasks (rs_db r)" by (simp add: tasks sweep_stragglers_def Let_def)
    with n assms(4) jobs show False by (auto simp: count_docs_0_iff earliest_None_iff)
  qed
  then have "db_tasks s' = db_tasks (snd (scheduleTask STOP (t_deploymentId ?t) (d_status (k_deployment k))
      (max ?now (case earliest (draining_list ?t) (db_tasks (rs_db r)) of Some u \<Rightarrow> t_due_at u | None \<Rightarrow> 0))
      ?now ?opts (rs_db r)))"
    unfolding tasks sweep_stragglers_def Let_def by simp
  moreover have "o_idempotent ?opts" "o_handoff_of ?opts = None" "o_limit ?opts = None" "o_job ?opts = None"
    by (simp_all add: rescheduled_options_def no_options_def)
  moreover have "in_stop_scope (o_active_revision ?opts) rv \<longleftrightarrow> in_stop_scope (t_active_revision ?t) rv" for rv
    by (auto simp: in_stop_scope_def rescheduled_options_def no_options_def)
  ultimately show ?thesis
    using stop_scheduled [of ?opts "t_deploymentId ?t" "d_status (k_deployment k)" _ ?now "rs_db r"] by metis
qed

section \<open>The run keeps the worker's invariants\<close>

lemma safe_onStopExit: "safe_step s (onStopExit stopped i now s)"
proof -
  let ?s1 = "on_jobs (\<lambda>j. j_job j \<in> set stopped \<and> job_active j) (\<lambda>j. j\<lparr>j_state := J_STOPPED, j_updated_at := now\<rparr>) s"
  have 1: "safe_step s ?s1" by (rule safe_on_jobs) auto
  have "safe_step ?s1 (on_deployment (\<lambda>d. d_id d = i \<and> d_status d = STOPPING) (\<lambda>d. d\<lparr>d_status := STOPPED\<rparr>) ?s1)"
    by (rule safe_on_deployment) auto
  with 1 show ?thesis unfolding onStopExit_def Let_def by (auto intro: safe_trans)
qed

lemma safe_finishStop: "safe_step (rs_db s) (rs_db (snd (finishStop k targets now s)))"
proof -
  have sweep: "safe_step u (sweep_stragglers k targets now u)" for u
    by (simp add: sweep_stragglers_def Let_def safe_scheduleTask)
  let ?s1 = "if retires_scope (k_task k) then on_db (sweep_stragglers k targets now) s else s"
  let ?s2 = "on_db (onStopExit (rs_stopped ?s1) (t_deploymentId (k_task k)) now) ?s1"
  have "safe_step (rs_db s) (rs_db ?s1)" by (simp add: sweep)
  also have "safe_step \<dots> (rs_db ?s2)" by (simp add: safe_onStopExit)
  also have "safe_step \<dots> (rs_db (clear_after_retry k ?s2))" by (rule safe_clear_after_retry)
  finally show ?thesis by (simp add: finishStop_def Let_def)
qed

lemma safe_settleStop: "safe_step (rs_db s) (rs_db (snd (settleStop env k targets y s)))"
proof -
  have "safe_step (rs_db s) (rs_db (snd (settleRun cfg k now n y (finishStop k targets now) s)))" for cfg now n
    by (rule safe_settleRun) (rule safe_finishStop)
  then show ?thesis by (simp add: settleStop_def)
qed

lemma safe_runStopTask: "safe_step s (snd (runStopTask env k s))"
proof (cases "fst (runStopTask env k s)")
  case None
  have "safe_step u (rs_db (snd (orchestrateUnits (se_run env) i (stop_handlers k now) [] w (fresh_run u))))" for u i now w
    using sf.keep_orchestrateUnits [OF stop_handlers_keep(1), of "fresh_run u"] by simp
  then show ?thesis using None
    unfolding runStopTask_def Let_def
    by (auto split: option.splits prod.splits simp: orchestrateUnits_def)
next
  case (Some result)
  then have run: "runStopTask env k s = (Some result, snd (runStopTask env k s))" by (simp add: prod_eq_iff)
  obtain s2 y r r' where s2: "safe_step s s2"
    and o: "orchestrateUnits (se_run env) (t_id (k_task k)) (stop_handlers k (se_now env)) []
        (Some (se_spawn env \<lparr>sw_task = k, sw_taskId = toHexString (t_id (k_task k)), sw_targets = stop_targets_of k\<rparr>))
        (fresh_run s2) = (Some y, r)"
    and f: "settleStop env k (stop_targets_of k) y r = (result, r')" "snd (runStopTask env k s) = rs_db r'"
    by (rule runStopTask_SomeE [OF run]) (rule that; assumption)
  note s2
  also have "safe_step s2 (rs_db r)"
    using sf.keep_orchestrateUnits [OF stop_handlers_keep(1), of "fresh_run s2" "se_run env" "t_id (k_task k)" k
      "se_now env" "[]"] o by (metis fresh_run_simps(1) snd_conv)
  also have "safe_step (rs_db r) (rs_db r')"
    using safe_settleStop [of r env k "stop_targets_of k" y] f(1) by simp
  finally show ?thesis unfolding f(2) .
qed

section \<open>A stop on a small store\<close>

lemma runStopTask_returns: "\<exists>result. runStopTask env k s = (Some result, snd (runStopTask env k s))"
proof -
  have "\<exists>y r. orchestrateUnits e i h [] w u = (Some y, r)" for e i h w u
    by (simp add: orchestrateUnits_def case_prod_beta)
  then have "\<exists>y r. runStopTask env k s =
      (let (result, r1) = settleStop env k (stop_targets_of k) y r in (Some result, rs_db r1))"
    unfolding runStopTask_def Let_def by (metis (no_types, lifting) option.case(2) prod.case)
  then have "fst (runStopTask env k s) \<noteq> None"
    by (auto simp: case_prod_beta)
  then show ?thesis by (auto simp: prod_eq_iff)
qed

definition stop_kit_example :: "unit stop_kit" where
  "stop_kit_example = \<lparr>sk_stopBatch = confirm_all, sk_get = (\<lambda>_. Inr J_RUNNING),
     sk_get_again = (\<lambda>_. Inr J_RUNNING), sk_sign = (\<lambda>_ _. Inl [])\<rparr>"

definition stop_env_example :: "(stop_worker_data \<Rightarrow> worker_event list) \<Rightarrow> stop_env" where
  "stop_env_example spawn = \<lparr>se_cfg = default_worker_config, se_now = 9,
     se_run = example_env\<lparr>e_abort_end := False\<rparr>, se_spawn = spawn\<rparr>"

definition example_stop_db :: db where
  "example_stop_db = empty_db\<lparr>db_deployments := [blank_deployment ''d'' ''o'' STOPPING],
     db_jobs := [example_job ''J'' J_RUNNING 1 1]\<rparr>"

definition replayed_stop :: outstanding_task where
  "replayed_stop = (example_outstanding STOP)\<lparr>k_task := (blank_task 7 STOP ''d'')\<lparr>
     t_stop_targets := Some [''J''],
     t_transactions := Some [confirmed_record 0 ''s'' (Some ''J'') None None]\<rparr>\<rparr>"

theorem earlier_stop_not_marked_witness:
  "example_job ''J'' J_RUNNING 1 1 \<in> set (db_jobs (snd (runStopTask
     (stop_env_example (\<lambda>d. fst (stop_worker stop_kit_example True d ()))) replayed_stop example_stop_db)))"
proof -
  let ?env = "stop_env_example (\<lambda>d. fst (stop_worker stop_kit_example True d ()))"
  obtain result where r: "runStopTask ?env replayed_stop example_stop_db =
      (Some result, snd (runStopTask ?env replayed_stop example_stop_db))"
    using runStopTask_returns by blast
  have "''J'' \<in> set (recorded_jobs (k_task replayed_stop))"
    by (simp add: recorded_jobs_def replayed_stop_def confirmed_record_def)
  then show ?thesis
    by (intro earlier_stop_not_marked [OF r, of stop_kit_example "()"])
      (simp_all add: stop_env_example_def example_stop_db_def)
qed

lemma example_stop_completes:
  "\<exists>result s'. runStopTask (stop_env_example (\<lambda>_. [Msg_DONE])) (example_outstanding STOP) example_stop_db =
     (Some result, s') \<and> o_outcome result = O_COMPLETED \<and> example_job ''J'' J_RUNNING 1 1 \<in> set (db_jobs s')"
proof -
  let ?env = "stop_env_example (\<lambda>_. [Msg_DONE])" and ?k = "example_outstanding STOP"
  obtain result where r: "runStopTask ?env ?k example_stop_db = (Some result, snd (runStopTask ?env ?k example_stop_db))"
    using runStopTask_returns by blast
  obtain s2 y r1 r' where s2: "db_jobs s2 = db_jobs example_stop_db"
    and o: "orchestrateUnits (se_run ?env) (t_id (k_task ?k)) (stop_handlers ?k (se_now ?env)) []
        (Some (se_spawn ?env \<lparr>sw_task = ?k, sw_taskId = toHexString (t_id (k_task ?k)), sw_targets = stop_targets_of ?k\<rparr>))
        (fresh_run s2) = (Some y, r1)"
    and f: "settleStop ?env ?k (stop_targets_of ?k) y r1 = (result, r')" "snd (runStopTask ?env ?k example_stop_db) = rs_db r'"
    by (rule runStopTask_SomeE [OF r]) (rule that; assumption)
  have y: "y = \<lparr>y_confirmed = 0, y_errored = 0, y_aborted = False, y_retry = False, y_retryAfterMs = None\<rparr>"
    and r1: "r1 = fresh_run s2"
    using o by (auto simp: orchestrateUnits_def tally_def stop_env_example_def example_env_def)
  have "settleStop ?env ?k (stop_targets_of ?k) y r1 = finishStop ?k (stop_targets_of ?k) (se_now ?env) r1"
    by (simp add: settleStop_def settleRun_def y r1 negative_signal_def shouldRetry_def)
  with f have "o_outcome result = O_COMPLETED" by (auto simp: finishStop_def Let_def)
  moreover have "example_job ''J'' J_RUNNING 1 1 \<in> set (db_jobs (rs_db (snd (settleStop ?env ?k (stop_targets_of ?k) y r1))))"
    by (rule settleStop_jobs) (simp_all add: r1 s2 example_stop_db_def)
  ultimately show ?thesis using r f by auto
qed

theorem stragglers_get_another_stop_witness:
  "\<exists>u \<in> set (db_tasks (snd (runStopTask (stop_env_example (\<lambda>_. [Msg_DONE])) (example_outstanding STOP) example_stop_db))).
     t_task u = STOP \<and> t_status u = Some PENDING"
proof -
  obtain result s' where r: "runStopTask (stop_env_example (\<lambda>_. [Msg_DONE])) (example_outstanding STOP) example_stop_db =
     (Some result, s')" "o_outcome result = O_COMPLETED" "example_job ''J'' J_RUNNING 1 1 \<in> set (db_jobs s')"
    using example_stop_completes by blast
  have sc: "retires_scope (k_task (example_outstanding STOP))" "t_active_revision (k_task (example_outstanding STOP)) = None"
    by (simp_all add: retires_scope_def blank_task_def)
  have "straggler (k_task (example_outstanding STOP)) (stop_targets_of (example_outstanding STOP)) (example_job ''J'' J_RUNNING 1 1)"
    by (simp add: straggler_def in_stop_scope_def stop_targets_of_def selectJobsToStop_def blank_task_def)
  with r(3) have "\<exists>j \<in> set (db_jobs s'). straggler (k_task (example_outstanding STOP)) (stop_targets_of (example_outstanding STOP)) j"
    by blast
  with stragglers_get_another_stop [OF r(1,2) sc(1)] r(1) show ?thesis by auto
qed

end
