(* ===== verification/Extend_Task.thy ===== *)
theory Extend_Task
  imports Stop_Task
begin

text \<open>
  The EXTEND task (\<open>src/tasks/task/extend/\<close>): one unit that prolongs one job, by the
  deployment's timeout (a link of a chain, which schedules the next one) or by an explicit number of
  seconds (a one-shot).
\<close>

section \<open>The worker\<close>

text \<open>Client-manager's answer (a job and the transaction, none when the job had already settled),
  and the instruction and signing of a self-custody vault.\<close>

record extend_value =
  xv_job :: address
  xv_tx :: "string option"

record 'cm extend_kit =
  xk_extend :: "address \<Rightarrow> int \<Rightarrow> string \<Rightarrow> 'cm \<Rightarrow> (thrown + extend_value option) \<times> 'cm"
  xk_sign :: "address \<Rightarrow> int \<Rightarrow> string + string \<times> nat"

definition extend_by :: "outstanding_task \<Rightarrow> int" where
  "extend_by k = nullish (t_extend_seconds (k_task k)) (d_timeout (k_deployment k) * 60)"

definition extend_worker ::
  "'cm extend_kit \<Rightarrow> bool \<Rightarrow> outstanding_task \<Rightarrow> nat \<Rightarrow> 'cm \<Rightarrow> worker_event list \<times> 'cm" where
  "extend_worker kt useNosanaApiKey k startUnit cm =
     (if \<not> truthy_string (t_job (k_task k))
      then ([Msg_ERROR None (Some ''No job specified for extension.''), Worker_exit], cm)
      else (let job = the (t_job (k_task k)); seconds = extend_by k; u = Some startUnit
            in if useNosanaApiKey
               then (let (result, cm1) = runIdempotentCall (toHexString (t_id (k_task k))) (show_nat startUnit)
                           MAX_IDEMPOTENCY_EPOCH (xk_extend kt job seconds) cm
                     in ((case result of
                            Call_Ok None \<Rightarrow> []
                          | Call_Ok (Some v) \<Rightarrow> [Msg_CONFIRMED u (Some (xv_job v)) None (xv_tx v) None None]
                          | Call_Retry h \<Rightarrow> [Msg_RETRY u h]
                          | Call_Fatal e \<Rightarrow> [Msg_ERROR u (Some e)]) @ [Msg_DONE], cm1))
               else ((case xk_sign kt job seconds of
                        Inl e \<Rightarrow> [Msg_ERROR u (Some e)]
                      | Inr (blob, lvbh) \<Rightarrow> [Msg_SIGNED startUnit blob lvbh None (Some [job]) None None None])
                     @ [Msg_DONE], cm)))"

section \<open>Handlers\<close>

definition extend_event :: "outstanding_task \<Rightarrow> signature \<Rightarrow> ms \<Rightarrow> event_document" where
  "extend_event k sg now = deployment_event (t_deploymentId (k_task k)) ''JOB_EXTEND_SUCCESSFUL''
     (''Successfully extended job - TX '' @ sg) (Some sg) now"

definition onExtendConfirmed :: "outstanding_task \<Rightarrow> ms \<Rightarrow> signature \<Rightarrow> address \<Rightarrow> db \<Rightarrow> db" where
  "onExtendConfirmed k now sg job s =
     (if sg = [] then s
      else if t_extend_seconds (k_task k) \<noteq> None then insert_event (extend_event k sg now) s
      else (let (scheduled, s1) = scheduleTask EXTEND (t_deploymentId (k_task k)) (d_status (k_deployment k))
                  (getNextExtendTime (d_timeout (k_deployment k)) False now) now
                  (no_options\<lparr>o_job := Some job, o_idempotent := True\<rparr>) s
            in if \<not> scheduled then s1 else insert_event (extend_event k sg now) s1))"

definition onExtendError :: "outstanding_task \<Rightarrow> ms \<Rightarrow> string \<Rightarrow> signature option \<Rightarrow> run_state \<Rightarrow> run_state" where
  "onExtendError = task_error ''JOB_EXTEND_ERROR''"

definition extend_handlers :: "outstanding_task \<Rightarrow> ms \<Rightarrow> handlers" where
  "extend_handlers k now = \<lparr>
     onConfirmed = (\<lambda>u sg job run reserved s.
       if truthy_string job then on_db (onExtendConfirmed k now sg (the job)) s else s),
     onError = (\<lambda>u error sg s. onExtendError k now error sg s)\<rparr>"

section \<open>The run\<close>

record extend_env =
  xe_cfg :: worker_config
  xe_now :: ms
  xe_resume :: run_env
  xe_sign :: run_env
  xe_spawn :: "outstanding_task \<Rightarrow> nat \<Rightarrow> worker_event list"

text \<open>The one unit's worker, unless the task is no longer wanted when it would sign; the flag
  \<open>unwanted\<close> is the run state's \<open>rs_draining\<close>.\<close>

definition spawnExtend ::
  "extend_env \<Rightarrow> outstanding_task \<Rightarrow> nat \<Rightarrow> nat \<Rightarrow> run_state \<Rightarrow> worker_event list option \<times> run_state" where
  "spawnExtend env k n startUnit s =
     (if \<not> checkTaskWanted (rs_db s) (k_task k) then (None, s\<lparr>rs_draining := True\<rparr>)
      else (Some (xe_spawn env k startUnit), s))"

definition settleExtend ::
  "extend_env \<Rightarrow> outstanding_task \<Rightarrow> orchestrate_result \<Rightarrow> run_state \<Rightarrow> task_run_result \<times> run_state" where
  "settleExtend env k y s =
     (let n = y_confirmed y
      in if y_aborted y then (run_result O_ABORTED n None, s)
         else if rs_draining s then (run_result O_COMPLETED n None, s)
         else settleRun (xe_cfg env) k (xe_now env) n y
           (\<lambda>s. (run_result O_COMPLETED n None, clear_after_retry k s)) s)"

definition runExtendTask :: "extend_env \<Rightarrow> outstanding_task \<Rightarrow> db \<Rightarrow> task_run_result option \<times> db" where
  "runExtendTask env k s =
     (case reconcileUnits (xe_resume env) (xe_sign env) (t_id (k_task k)) (extend_handlers k (xe_now env))
             (task_records (k_task k)) 1 (spawnExtend env k) (fresh_run s) of
        (None, r) \<Rightarrow> (None, rs_db r)
      | (Some y, r) \<Rightarrow> (let (result, r1) = settleExtend env k y r in (Some result, rs_db r1)))"

section \<open>The chain\<close>

definition next_extend :: "string \<Rightarrow> address \<Rightarrow> task_document \<Rightarrow> bool" where
  "next_extend i job t \<longleftrightarrow> t_task t = EXTEND \<and> t_deploymentId t = i \<and> t_job t = Some job \<and>
     t_status t = Some PENDING \<and> t_extend_seconds t = None"

lemma extend_intent:
  "same_intent s EXTEND i (no_options\<lparr>o_job := Some job, o_idempotent := True\<rparr>) t \<longleftrightarrow>
     next_extend i job t \<and> t_reason t = None \<and> t_limit t = None \<and> t_active_revision t = None \<and> t_run t = None"
  by (auto simp: same_intent_def next_extend_def no_options_def scheduled_revision_def scheduled_run_def
      scheduled_current_def)

text \<open>
  An extend chain has one next link and a dead job none: confirming an extension with a
  transaction leaves the next EXTEND of that job pending, one timeout from now if it is the first
  time, and confirming it again (a reclaim's replay) schedules and logs nothing more; an extension
  without a transaction (the job had settled) changes nothing, and a one-shot only logs.
\<close>

theorem extend_chain_continues_once:
  assumes "s1 = onExtendConfirmed k now sg job s" "s2 = onExtendConfirmed k now' sg' job s1"
  shows "(sg = [] \<longrightarrow> s1 = s) \<and>
    (sg \<noteq> [] \<and> t_extend_seconds (k_task k) \<noteq> None \<longrightarrow> db_tasks s1 = db_tasks s \<and>
       db_events s1 = db_events s @ [extend_event k sg now]) \<and>
    (sg \<noteq> [] \<and> t_extend_seconds (k_task k) = None \<longrightarrow>
       (\<exists>t \<in> set (db_tasks s1). next_extend (t_deploymentId (k_task k)) job t) \<and>
       db_tasks s2 = db_tasks s1 \<and> db_events s2 = db_events s1 \<and>
       length (db_tasks s1) \<le> Suc (length (db_tasks s)))"
proof -
  let ?i = "t_deploymentId (k_task k)"
  let ?opts = "no_options\<lparr>o_job := Some job, o_idempotent := True\<rparr>"
  let ?due = "getNextExtendTime (d_timeout (k_deployment k)) False"
  let ?sch = "\<lambda>now s. scheduleTask EXTEND ?i (d_status (k_deployment k)) (?due now) now ?opts s"
  have opts: "o_idempotent ?opts" "o_handoff_of ?opts = None" by (simp_all add: no_options_def)
  have chain: "(\<exists>t \<in> set (db_tasks s1). next_extend ?i job t) \<and> db_tasks s2 = db_tasks s1 \<and>
      db_events s2 = db_events s1 \<and> length (db_tasks s1) \<le> Suc (length (db_tasks s))"
    if c: "sg \<noteq> []" "t_extend_seconds (k_task k) = None"
  proof -
    have s1: "db_tasks s1 = db_tasks (snd (?sch now s))"
      using c by (simp add: assms(1) onExtendConfirmed_def Let_def case_prod_beta insert_event_def)
    have "\<exists>t \<in> set (db_tasks s1). same_intent s1 EXTEND ?i ?opts t"
    proof (cases "fst (?sch now s)")
      case True
      have "same_intent s1 EXTEND ?i ?opts (scheduled_doc s EXTEND ?i (?due now) now ?opts)"
        unfolding extend_intent by (simp add: next_extend_def scheduled_doc_def scheduled_revision_def
            scheduled_run_def scheduled_current_def no_options_def)
      with True show ?thesis by (auto simp: s1 scheduleTask_tasks)
    next
      case False
      then obtain t where "t \<in> set (db_tasks s)" "same_intent s EXTEND ?i ?opts t"
        using opts by (auto simp: scheduleTask_created_iff matches_iff)
      with False show ?thesis by (auto simp: s1 scheduleTask_tasks extend_intent)
    qed
    then have m: "matches (same_intent s1 EXTEND ?i ?opts) (db_tasks s1)" by (auto simp: matches_iff)
    have "s2 = (if sg' = [] then s1 else snd (?sch now' s1))"
      using c m opts by (simp add: assms(2) onExtendConfirmed_def Let_def case_prod_beta scheduleTask_created_iff)
    moreover have "snd (?sch now' s1) = s1"
      using m opts by (simp add: scheduleTask_not_created scheduleTask_created_iff)
    moreover have "\<exists>t \<in> set (db_tasks s1). next_extend ?i job t" using m by (auto simp: matches_iff extend_intent)
    moreover have "length (db_tasks s1) \<le> Suc (length (db_tasks s))"
      by (simp add: s1 scheduleTask_tasks insert_one_def)
    ultimately show ?thesis by simp
  qed
  then show ?thesis
    using assms(1) by (auto simp: onExtendConfirmed_def insert_event_def insert_one_def)
qed

theorem extend_chain_continues_once_witness:
  "length (db_tasks (onExtendConfirmed (example_outstanding EXTEND) 1 ''s'' ''J''
     (onExtendConfirmed (example_outstanding EXTEND) 0 ''s'' ''J'' empty_db))) \<le> 1"
proof -
  have "t_extend_seconds (k_task (example_outstanding EXTEND)) = None" by (simp add: blank_task_def)
  with extend_chain_continues_once [OF refl refl, of "''s''" "example_outstanding EXTEND" 0 "''J''" empty_db]
  show ?thesis by (simp add: empty_db_def)
qed

text \<open>
  An EXTEND that is no longer wanted when it would sign does nothing at all: with no unit of an
  earlier attempt to resume, no transaction is signed or sent, no retry state is touched, and the
  store is exactly what it was.
\<close>

theorem unwanted_extend_is_inert:
  assumes "task_records (k_task k) = []" "\<not> checkTaskWanted s (k_task k)"
  shows "\<exists>result. runExtendTask env k s = (Some result, s) \<and> o_successCount result = 0 \<and>
    o_outcome result \<in> {O_ABORTED, O_COMPLETED}"
proof -
  let ?h = "extend_handlers k (xe_now env)"
  have "orchestrateUnits e i h [] None u = (Some (tally [] (e_abort_end e)), u)" for e i h u
    by (simp add: orchestrateUnits_def)
  moreover have "spawnExtend env k 1 0 (fresh_run s) = (None, (fresh_run s)\<lparr>rs_draining := True\<rparr>)"
    using assms(2) by (simp add: spawnExtend_def)
  ultimately have r: "\<exists>y r. reconcileUnits (xe_resume env) (xe_sign env) (t_id (k_task k)) ?h [] 1 (spawnExtend env k) (fresh_run s) =
      (Some y, r) \<and> rs_db r = s \<and> y_confirmed y = 0 \<and> (y_aborted y \<or> rs_draining r)"
    by (simp add: reconcileUnits_def tally_def)
  then obtain y r where r: "reconcileUnits (xe_resume env) (xe_sign env) (t_id (k_task k)) ?h [] 1 (spawnExtend env k) (fresh_run s) =
      (Some y, r)" "rs_db r = s" "y_confirmed y = 0" "y_aborted y \<or> rs_draining r" by blast
  have "settleExtend env k y r = (run_result (if y_aborted y then O_ABORTED else O_COMPLETED) 0 None, r)"
    using r(3,4) by (auto simp: settleExtend_def)
  then show ?thesis
    using r(1,2) assms(1) by (simp add: runExtendTask_def)
qed

definition example_extend_env :: extend_env where
  "example_extend_env = \<lparr>xe_cfg = default_worker_config, xe_now = 5, xe_resume = example_env,
     xe_sign = example_env, xe_spawn = (\<lambda>_ _. [])\<rparr>"

theorem unwanted_extend_is_inert_witness:
  "\<exists>result. runExtendTask example_extend_env (example_outstanding EXTEND) empty_db = (Some result, empty_db)"
proof -
  have "\<not> checkTaskWanted empty_db (k_task (example_outstanding EXTEND))"
    by (simp add: checkTaskWanted_def empty_db_def find_one_def)
  moreover have "task_records (k_task (example_outstanding EXTEND)) = []" by simp
  ultimately show ?thesis
    using unwanted_extend_is_inert [of "example_outstanding EXTEND" empty_db example_extend_env] by blast
qed

section \<open>The run keeps the worker's invariants\<close>

lemma safe_onExtendConfirmed: "safe_step s (onExtendConfirmed k now sg job s)"
  unfolding onExtendConfirmed_def Let_def case_prod_beta
  by (auto intro: safe_insert_event safe_scheduleTask safe_trans [OF safe_scheduleTask safe_insert_event])

lemma extend_handlers_keep: "handlers_keep safe_step (extend_handlers k now)"
  by (simp add: handlers_keep_def extend_handlers_def onExtendError_def safe_insert_event safe_onExtendConfirmed)

lemma safe_settleExtend: "safe_step (rs_db s) (rs_db (snd (settleExtend env k y s)))"
proof -
  have "safe_step (rs_db s) (rs_db (snd (settleRun cfg k now n y
      (\<lambda>s. (run_result O_COMPLETED n None, clear_after_retry k s)) s)))" for cfg now n
    by (rule safe_settleRun) (simp add: safe_clear_after_retry)
  then show ?thesis by (simp add: settleExtend_def Let_def)
qed

lemma safe_runExtendTask: "safe_step s (snd (runExtendTask env k s))"
proof -
  have spawn: "safe_step (rs_db u) (rs_db (snd (spawnExtend env k n m u)))" for n m u
    by (simp add: spawnExtend_def)
  obtain yo r where r: "reconcileUnits (xe_resume env) (xe_sign env) (t_id (k_task k)) (extend_handlers k (xe_now env))
      (task_records (k_task k)) 1 (spawnExtend env k) (fresh_run s) = (yo, r)" by (rule prod.exhaust)
  have "safe_step (rs_db (fresh_run s)) (rs_db (snd (reconcileUnits (xe_resume env) (xe_sign env) (t_id (k_task k))
      (extend_handlers k (xe_now env)) (task_records (k_task k)) 1 (spawnExtend env k) (fresh_run s))))"
    by (rule sf.keep_reconcileUnits [OF extend_handlers_keep spawn])
  then have 1: "safe_step s (rs_db r)" unfolding r by simp
  show ?thesis
  proof (cases yo)
    case None
    with 1 r show ?thesis by (simp add: runExtendTask_def)
  next
    case (Some y)
    have "safe_step (rs_db r) (rs_db (snd (settleExtend env k y r)))" by (rule safe_settleExtend)
    with 1 have "safe_step s (rs_db (snd (settleExtend env k y r)))" by (rule safe_trans)
    with Some r show ?thesis by (simp add: runExtendTask_def case_prod_beta)
  qed
qed

end
