(* ===== verification/Deployment_Lock.thy ===== *)
theory Deployment_Lock
  imports Repositories
begin

text \<open>
  The per-deployment advisory lock (\<open>src/tasks/queue/lock/lock.ts\<close>), and the interface the
  consumer relies on: a lease on a key, granted to one holder at a time. The client's side, that
  nobody is granted a key while another holds it, is proved once in the locale and holds of the
  code's lock by interpretation.
\<close>

section \<open>The code\<close>

text \<open>
  \<open>findOneAndUpdate\<close> with \<open>upsert\<close> on \<open>{ _id, expires_at: { $lt: now } }\<close>: a lapsed
  lock is taken over; no lock is created; a lock still held makes the upsert clash on the unique
  \<open>_id\<close> (E11000), which the code reads as "not acquired".
\<close>

definition acquireDeploymentLock ::
  "string \<Rightarrow> string \<Rightarrow> int \<Rightarrow> ms \<Rightarrow> deployment_lock list \<Rightarrow> bool \<times> deployment_lock list" where
  "acquireDeploymentLock deploymentId holder leaseMs now locks =
     (let expires_at = now + leaseMs
      in if matches (\<lambda>l. l_id l = deploymentId \<and> l_expires_at l < now) locks
         then (True, update_one (\<lambda>l. l_id l = deploymentId \<and> l_expires_at l < now)
                 (\<lambda>l. l\<lparr>l_holder := holder, l_expires_at := expires_at\<rparr>) locks)
         else if matches (\<lambda>l. l_id l = deploymentId) locks
         then (False, locks)
         else (True, insert_one \<lparr>l_id = deploymentId, l_holder = holder, l_expires_at = expires_at\<rparr> locks))"

text \<open>\<open>deleteOne({ _id, holder })\<close>: at most one lock has that \<open>_id\<close>.\<close>

definition releaseDeploymentLock ::
  "string \<Rightarrow> string \<Rightarrow> deployment_lock list \<Rightarrow> deployment_lock list" where
  "releaseDeploymentLock deploymentId holder locks =
     delete_many (\<lambda>l. l_id l = deploymentId \<and> l_holder l = holder) locks"

text \<open>Who holds a deployment's lock at a time: a lock is held through its last millisecond.\<close>

definition lock_holder :: "deployment_lock list \<Rightarrow> ms \<Rightarrow> string \<Rightarrow> string option" where
  "lock_holder locks now deploymentId =
     map_option l_holder (find_one (\<lambda>l. l_id l = deploymentId \<and> now \<le> l_expires_at l) locks)"

definition locks_wf :: "deployment_lock list \<Rightarrow> bool" where
  "locks_wf locks \<longleftrightarrow> distinct (map l_id locks)"

section \<open>The interface: a lease on a key\<close>

datatype ('k, 'h) lease_event = Acquire 'k 'h ms | Release 'k 'h ms

fun event_time :: "('k, 'h) lease_event \<Rightarrow> ms" where
  "event_time (Acquire k h t) = t"
| "event_time (Release k h t) = t"

fun lease_step ::
  "('k \<Rightarrow> 'h \<Rightarrow> int \<Rightarrow> ms \<Rightarrow> 's \<Rightarrow> bool \<times> 's) \<Rightarrow> ('k \<Rightarrow> 'h \<Rightarrow> 's \<Rightarrow> 's) \<Rightarrow> int \<Rightarrow>
    ('k, 'h) lease_event \<Rightarrow> 's \<Rightarrow> bool \<times> 's" where
  "lease_step acq rel d (Acquire k h t) s = acq k h d t s"
| "lease_step acq rel d (Release k h t) s = (True, rel k h s)"

fun lease_run ::
  "('k \<Rightarrow> 'h \<Rightarrow> int \<Rightarrow> ms \<Rightarrow> 's \<Rightarrow> bool \<times> 's) \<Rightarrow> ('k \<Rightarrow> 'h \<Rightarrow> 's \<Rightarrow> 's) \<Rightarrow> int \<Rightarrow>
    ('k, 'h) lease_event list \<Rightarrow> 's \<Rightarrow> bool list \<times> 's" where
  "lease_run acq rel d [] s = ([], s)"
| "lease_run acq rel d (e # es) s =
     (let (r, s1) = lease_step acq rel d e s; (rs, s2) = lease_run acq rel d es s1 in (r # rs, s2))"

locale lease_lock =
  fixes acquire :: "'k \<Rightarrow> 'h \<Rightarrow> int \<Rightarrow> ms \<Rightarrow> 's \<Rightarrow> bool \<times> 's"
    and release :: "'k \<Rightarrow> 'h \<Rightarrow> 's \<Rightarrow> 's"
    and holder :: "'s \<Rightarrow> ms \<Rightarrow> 'k \<Rightarrow> 'h option"
    and wf :: "'s \<Rightarrow> bool"
  assumes wf_acquire: "wf s \<Longrightarrow> wf (snd (acquire k h d now s))"
    and wf_release: "wf s \<Longrightarrow> wf (release k h s)"
    and acquire_iff_free: "wf s \<Longrightarrow> fst (acquire k h d now s) \<longleftrightarrow> holder s now k = None"
    and acquire_failed: "wf s \<Longrightarrow> \<not> fst (acquire k h d now s) \<Longrightarrow> snd (acquire k h d now s) = s"
    and acquire_holds: "wf s \<Longrightarrow> fst (acquire k h d now s) \<Longrightarrow>
      holder (snd (acquire k h d now s)) t k = (if t \<le> now + d then Some h else None)"
    and acquire_other: "wf s \<Longrightarrow> k' \<noteq> k \<Longrightarrow> holder (snd (acquire k h d now s)) t k' = holder s t k'"
    and release_holds: "wf s \<Longrightarrow> holder (release k h s) t k =
      (if holder s t k = Some h then None else holder s t k)"
    and release_other: "wf s \<Longrightarrow> k' \<noteq> k \<Longrightarrow> holder (release k h s) t k' = holder s t k'"
begin

lemma wf_lease_step: "wf s \<Longrightarrow> wf (snd (lease_step acquire release d e s))"
  by (cases e) (simp_all add: wf_acquire wf_release)

text \<open>A held key stays held, and is granted to nobody, until its holder releases it or it lapses.\<close>

lemma held_step:
  assumes "wf s" "\<And>t. t \<le> until \<Longrightarrow> holder s t k = Some h"
    and "event_time e \<le> until" "\<forall>t. e \<noteq> Release k h t"
  shows "\<And>t. t \<le> until \<Longrightarrow> holder (snd (lease_step acquire release d e s)) t k = Some h"
    and "e = Acquire k h' t' \<Longrightarrow> \<not> fst (lease_step acquire release d e s)"
proof -
  fix t assume t: "t \<le> until"
  show "holder (snd (lease_step acquire release d e s)) t k = Some h"
  proof (cases e)
    case (Acquire k2 h2 t2)
    show ?thesis
    proof (cases "k2 = k")
      case True
      then have "\<not> fst (acquire k2 h2 d t2 s)"
        using Acquire assms(2) [of t2] assms(1,3) by (simp add: acquire_iff_free)
      with Acquire assms(1) assms(2) [OF t] show ?thesis by (simp add: acquire_failed)
    next
      case False
      with Acquire assms(1) assms(2) [OF t] show ?thesis by (simp add: acquire_other)
    qed
  next
    case (Release k2 h2 t2)
    with assms(1,4) assms(2) [OF t] show ?thesis
      by (cases "k2 = k") (auto simp: release_holds release_other)
  qed
next
  assume "e = Acquire k h' t'"
  with assms(1,3) assms(2) [of t'] show "\<not> fst (lease_step acquire release d e s)"
    by (simp add: acquire_iff_free)
qed

lemma held_run:
  assumes "wf s" "\<And>t. t \<le> until \<Longrightarrow> holder s t k = Some h"
    and "\<forall>e \<in> set es. event_time e \<le> until" "\<forall>t. Release k h t \<notin> set es"
  shows "(\<forall>i h' t. i < length es \<longrightarrow> es ! i = Acquire k h' t \<longrightarrow> \<not> fst (lease_run acquire release d es s) ! i) \<and>
         (\<forall>t \<le> until. holder (snd (lease_run acquire release d es s)) t k = Some h)"
  using assms
proof (induction es arbitrary: s)
  case (Cons e es)
  let ?s1 = "snd (lease_step acquire release d e s)"
  have step: "\<And>t. t \<le> until \<Longrightarrow> holder ?s1 t k = Some h"
    "\<And>h' t'. e = Acquire k h' t' \<Longrightarrow> \<not> fst (lease_step acquire release d e s)"
    using held_step [where s = s and until = until and k = k and h = h and e = e and d = d] Cons.prems
    by auto
  have IH: "(\<forall>i h' t. i < length es \<longrightarrow> es ! i = Acquire k h' t \<longrightarrow> \<not> fst (lease_run acquire release d es ?s1) ! i) \<and>
      (\<forall>t \<le> until. holder (snd (lease_run acquire release d es ?s1)) t k = Some h)"
    by (rule Cons.IH) (use Cons.prems step wf_lease_step in auto)
  have run: "lease_run acquire release d (e # es) s =
      (fst (lease_step acquire release d e s) # fst (lease_run acquire release d es ?s1), snd (lease_run acquire release d es ?s1))"
    by (simp add: case_prod_beta)
  show ?case
    using IH step(2) unfolding run by (auto simp: nth_Cons split: nat.splits)
qed simp

text \<open>Once granted, a key is granted to nobody else until it is released or its lease ends.\<close>

lemma exclusive:
  assumes "wf s" "fst (acquire k h d now s)"
    and "\<forall>e \<in> set es. event_time e \<le> now + d" "\<forall>t. Release k h t \<notin> set es"
    and "i < length es" "es ! i = Acquire k h' t"
  shows "\<not> fst (lease_run acquire release d es (snd (acquire k h d now s))) ! i"
  using held_run [where s = "snd (acquire k h d now s)" and until = "now + d" and k = k and h = h
      and es = es and d = d] assms
  by (auto simp: acquire_holds wf_acquire)

end

section \<open>The code's lock is a lease\<close>

lemma find_one_keyed_update:
  "find_one Q (update_one P f (x # xs)) =
     (if P x then (if Q (f x) then Some (f x) else find_one Q xs)
      else if Q x then Some x else find_one Q (update_one P f xs))"
  by (simp add: find_one_def)

lemma find_one_Cons [simp]: "find_one Q (x # xs) = (if Q x then Some x else find_one Q xs)"
  by (simp add: find_one_def)

lemma find_one_Nil [simp]: "find_one Q [] = None"
  by (simp add: find_one_def)

lemma lock_holder_None_iff:
  "lock_holder locks now k = None \<longleftrightarrow> (\<forall>l \<in> set locks. l_id l = k \<longrightarrow> l_expires_at l < now)"
  by (auto simp: lock_holder_def find_one_None_iff)

lemma lock_holder_absent:
  "\<forall>l \<in> set locks. l_id l \<noteq> k \<Longrightarrow> lock_holder locks t k = None"
  by (auto simp: lock_holder_None_iff)

lemma lock_holder_Cons:
  "lock_holder (l # locks) t k =
     (if l_id l = k \<and> t \<le> l_expires_at l then Some (l_holder l) else lock_holder locks t k)"
  by (simp add: lock_holder_def)

lemma lock_holder_take_over:
  assumes "distinct (map l_id locks)" "matches (\<lambda>l. l_id l = k \<and> l_expires_at l < now) locks"
  shows "lock_holder (update_one (\<lambda>l. l_id l = k \<and> l_expires_at l < now)
      (\<lambda>l. l\<lparr>l_holder := h, l_expires_at := e\<rparr>) locks) t k = (if t \<le> e then Some h else None)"
  using assms
proof (induction locks)
  case (Cons l locks)
  show ?case
  proof (cases "l_id l = k")
    case True
    with Cons.prems(1) have other: "\<forall>x \<in> set locks. l_id x \<noteq> k"
      using distinct_key_tail [OF Cons.prems(1)] True by simp
    with True Cons.prems(2) have "l_expires_at l < now"
      by (auto simp: matches_iff)
    note other this
    with True show ?thesis by (simp add: lock_holder_Cons lock_holder_absent)
  next
    case False
    with Cons show ?thesis by (simp add: lock_holder_Cons matches_iff)
  qed
qed (simp add: matches_def)

lemma lock_holder_update_other:
  "k' \<noteq> k \<Longrightarrow> lock_holder (update_one (\<lambda>l. l_id l = k \<and> Q l)
      (\<lambda>l. l\<lparr>l_holder := h, l_expires_at := e\<rparr>) locks) t k' = lock_holder locks t k'"
  by (induction locks) (auto simp: lock_holder_Cons)

lemma lock_holder_insert:
  "\<forall>l \<in> set locks. l_id l \<noteq> k \<Longrightarrow>
     lock_holder (insert_one \<lparr>l_id = k, l_holder = h, l_expires_at = e\<rparr> locks) t k' =
       (if k' = k then (if t \<le> e then Some h else None) else lock_holder locks t k')"
  by (induction locks) (auto simp: lock_holder_def insert_one_def)

lemma lock_holder_delete:
  assumes "distinct (map l_id locks)"
  shows "lock_holder (releaseDeploymentLock k h locks) t k' =
     (if k' = k \<and> lock_holder locks t k = Some h then None else lock_holder locks t k')"
  using assms
proof (induction locks)
  case (Cons l locks)
  have ab: "l_id l = k' \<Longrightarrow> lock_holder locks t k' = None"
    using distinct_key_tail [OF Cons.prems] by (auto intro: lock_holder_absent)
  from Cons have IH: "lock_holder (releaseDeploymentLock k h locks) t k' =
     (if k' = k \<and> lock_holder locks t k = Some h then None else lock_holder locks t k')"
    by simp
  have "releaseDeploymentLock k h (l # locks) =
      (if l_id l = k \<and> l_holder l = h then [] else [l]) @ releaseDeploymentLock k h locks"
    by (simp add: releaseDeploymentLock_def delete_many_def)
  then show ?case
    using IH ab by (auto simp: lock_holder_Cons)
qed (simp add: releaseDeploymentLock_def delete_many_def lock_holder_def)

lemma locks_wf_acquire:
  assumes "locks_wf locks" shows "locks_wf (snd (acquireDeploymentLock k h d now locks))"
proof -
  have "map l_id (update_one P (\<lambda>l. l\<lparr>l_holder := h, l_expires_at := e\<rparr>) locks) = map l_id locks" for P e
    by (rule map_update_one) simp
  with assms show ?thesis
    by (simp add: locks_wf_def acquireDeploymentLock_def Let_def insert_one_def matches_iff image_iff)
      (metis (full_types))
qed

lemma locks_wf_release: "locks_wf locks \<Longrightarrow> locks_wf (releaseDeploymentLock k h locks)"
  by (simp add: locks_wf_def releaseDeploymentLock_def distinct_delete_many)

lemma acquire_grants_iff:
  assumes "locks_wf locks"
  shows "fst (acquireDeploymentLock k h d now locks) \<longleftrightarrow> lock_holder locks now k = None"
proof (cases "matches (\<lambda>l. l_id l = k \<and> l_expires_at l < now) locks")
  case True
  then obtain l' where l': "l' \<in> set locks" "l_id l' = k" "l_expires_at l' < now"
    by (auto simp: matches_iff)
  have "l_expires_at l < now" if "l \<in> set locks" "l_id l = k" for l
    using keyed_unique [of l_id locks l l'] that assms l' by (simp add: locks_wf_def)
  with True show ?thesis
    by (simp add: acquireDeploymentLock_def Let_def lock_holder_None_iff)
next
  case False
  then show ?thesis
    by (simp add: acquireDeploymentLock_def Let_def lock_holder_None_iff matches_iff) blast
qed

interpretation dl: lease_lock acquireDeploymentLock releaseDeploymentLock lock_holder locks_wf
proof (unfold_locales, goal_cases)
  case (1 s k h d now) then show ?case by (rule locks_wf_acquire)
next
  case (2 s k h) then show ?case by (rule locks_wf_release)
next
  case (3 s k h d now) then show ?case by (rule acquire_grants_iff)
next
  case (4 s k h d now) then show ?case
    by (simp add: acquireDeploymentLock_def Let_def split: if_splits)
next
  case (5 s k h d now t)
  then have "\<forall>l \<in> set s. l_id l \<noteq> k" if "\<not> matches (\<lambda>l. l_id l = k \<and> l_expires_at l < now) s"
    using that by (auto simp: acquireDeploymentLock_def Let_def matches_iff split: if_splits)
  with 5 show ?case
    by (simp add: acquireDeploymentLock_def Let_def lock_holder_take_over locks_wf_def
        lock_holder_insert split: if_splits)
next
  case (6 s k' k h d now t)
  have "lock_holder (insert_one \<lparr>l_id = k, l_holder = h, l_expires_at = now + d\<rparr> s) t k' =
      lock_holder s t k'" if "\<not> matches (\<lambda>l. l_id l = k) s"
    using that 6 by (simp add: lock_holder_insert matches_iff)
  with 6 show ?case
    by (simp add: acquireDeploymentLock_def Let_def lock_holder_update_other)
next
  case (7 s k h t) then show ?case by (simp add: lock_holder_delete locks_wf_def)
next
  case (8 s k' k h t) then show ?case by (simp add: lock_holder_delete locks_wf_def)
qed

text \<open>
  C3: mutual exclusion of the lock across consumers: once a deployment's lock is granted, no
  acquire of it, by any consumer, succeeds before its lease ends, whatever is acquired and
  released meanwhile, as long as its holder does not release it.
\<close>

theorem deployment_lock_exclusive:
  assumes "locks_wf locks" "fst (acquireDeploymentLock dep c leaseMs now locks)"
    and "\<forall>e \<in> set es. event_time e \<le> now + leaseMs" "\<forall>t. Release dep c t \<notin> set es"
    and "i < length es" "es ! i = Acquire dep c' t"
  shows "\<not> fst (lease_run acquireDeploymentLock releaseDeploymentLock leaseMs es
           (snd (acquireDeploymentLock dep c leaseMs now locks))) ! i"
  by (rule dl.exclusive [OF assms])

theorem deployment_lock_exclusive_witness:
  "\<not> fst (lease_run acquireDeploymentLock releaseDeploymentLock 100
      [Release ''D'' ''b'' 5, Acquire ''D'' ''b'' 100]
      (snd (acquireDeploymentLock ''D'' ''a'' 100 0 []))) ! 1"
  by (rule deployment_lock_exclusive [where t = 100 and c' = "''b''"])
    (simp_all add: locks_wf_def acquireDeploymentLock_def matches_def)

text \<open>
  The exclusion is between consumers, not between tasks. The lock is fenced on the consumer's
  id alone, so when a run outlives its lock and its own consumer has taken the lock again for
  another task of the deployment, the late run's release frees the new task's lock: a third task
  is granted it while the second one runs and its lease has not ended.
\<close>

theorem stale_release_frees_live_lock:
  assumes "locks_wf locks" "lock_holder locks t0 dep = None" "0 \<le> leaseMs"
    and "t1 > t0 + leaseMs" "t1 \<le> t2" "t2 \<le> t1 + leaseMs"
  shows "fst (lease_run acquireDeploymentLock releaseDeploymentLock leaseMs
     [Acquire dep c t0, Acquire dep c t1, Release dep c t2, Acquire dep c' t2] locks) =
     [True, True, True, True]"
proof -
  let ?s1 = "snd (acquireDeploymentLock dep c leaseMs t0 locks)"
  let ?s2 = "snd (acquireDeploymentLock dep c leaseMs t1 ?s1)"
  let ?s3 = "releaseDeploymentLock dep c ?s2"
  have 1: "fst (acquireDeploymentLock dep c leaseMs t0 locks)"
    using assms by (simp add: dl.acquire_iff_free)
  have wf: "locks_wf ?s1" "locks_wf ?s2" "locks_wf ?s3"
    using assms(1) by (simp_all add: dl.wf_acquire dl.wf_release)
  have 2: "fst (acquireDeploymentLock dep c leaseMs t1 ?s1)"
    using assms 1 wf by (simp add: dl.acquire_iff_free dl.acquire_holds)
  have "lock_holder ?s2 t2 dep = Some c"
    using assms 2 wf by (simp add: dl.acquire_holds)
  then have "lock_holder ?s3 t2 dep = None"
    using wf by (simp add: dl.release_holds)
  then have 3: "fst (acquireDeploymentLock dep c' leaseMs t2 ?s3)"
    using wf by (simp add: dl.acquire_iff_free)
  from 1 2 3 show ?thesis by (simp add: case_prod_beta)
qed

theorem stale_release_frees_live_lock_witness:
  "fst (lease_run acquireDeploymentLock releaseDeploymentLock 100
     [Acquire ''D'' ''a'' 0, Acquire ''D'' ''a'' 101, Release ''D'' ''a'' 110, Acquire ''D'' ''b'' 110] []) =
     [True, True, True, True]"
  by (rule stale_release_frees_live_lock) (simp_all add: locks_wf_def lock_holder_def)

end
