(* ===== verification/Consumer.thy ===== *)
theory Consumer
  imports Extend_Task Deployment_Lock
begin

text \<open>
  The consumer (\<open>src/tasks/queue/consumer/\<close>): the fetch cycle, from the claims to the
  dispatched runs, the routing of a task to its runner, and what a run's result does to the task,
  its deployment's lock and the consumer's own state. The clock readings and the points at which
  \<open>stop\<close> is found called are arguments. A run that throws has no result: the catch-all
  abandons its task.
\<close>

section \<open>The consumer\<close>

record consumer =
  u_id :: string
  u_inflight :: "outstanding_task list"
  u_stopped :: bool

definition inflight_ids :: "consumer \<Rightarrow> object_id list" where
  "inflight_ids u = map (\<lambda>k. t_id (k_task k)) (u_inflight u)"

definition unlock :: "string \<Rightarrow> string \<Rightarrow> db \<Rightarrow> db" where
  "unlock deploymentId consumerId s =
     s\<lparr>db_locks := releaseDeploymentLock deploymentId consumerId (db_locks s)\<rparr>"

section \<open>The fetch cycle\<close>

definition over_cap :: "worker_config \<Rightarrow> task_document \<Rightarrow> bool" where
  "over_cap cfg t \<longleftrightarrow> task_max_attempts cfg \<le> t_attempts t"

definition inflight_exhausted :: "worker_config \<Rightarrow> task_document \<Rightarrow> bool" where
  "inflight_exhausted cfg t \<longleftrightarrow> 0 < task_max_inflight_retries cfg \<and>
     task_max_inflight_retries cfg \<le> nullish (t_inflight_retries t) 0"

fun vet_claimed ::
  "worker_config \<Rightarrow> consumer \<Rightarrow> task_document list \<Rightarrow> db \<Rightarrow> task_document list \<times> db" where
  "vet_claimed cfg u [] s = ([], s)"
| "vet_claimed cfg u (t # ts) s =
     (if t_id t \<in> set (inflight_ids u) then vet_claimed cfg u ts s
      else if over_cap cfg t \<or> inflight_exhausted cfg t
      then vet_claimed cfg u ts
        (if \<not> checkTaskWanted s t then dropUnwantedTask t (u_id u) s
         else if over_cap cfg t then abandonOverCap t s
         else abandonInflightExhausted t s)
      else (let (survivors, s1) = vet_claimed cfg u ts s in (t # survivors, s1)))"

definition drop_orphans :: "string \<Rightarrow> object_id list \<Rightarrow> task_document list \<Rightarrow> db \<Rightarrow> db" where
  "drop_orphans consumerId hydrated survivors s =
     fold (\<lambda>t s. if t_id t \<in> set hydrated then s else dropOrphanedTask t consumerId s) survivors s"

text \<open>One hydrated task: the lock, the counted attempt, the last look at the deployment.\<close>

definition admit_task :: "worker_config \<Rightarrow> string \<Rightarrow> ms \<Rightarrow> outstanding_task \<Rightarrow> db \<Rightarrow> bool \<times> db" where
  "admit_task cfg consumerId now k s =
     (let t = k_task k;
          (acquired, locks) = acquireDeploymentLock (t_deploymentId t) consumerId (task_lease_ms cfg) now (db_locks s);
          s1 = s\<lparr>db_locks := locks\<rparr>
      in if \<not> acquired then (False, releaseTaskToPending (t_id t) now s1)
         else (let (mine, s2) = incrementAttempt (t_id t) consumerId s1
               in if \<not> mine then (False, unlock (t_deploymentId t) consumerId s2)
                  else if \<not> isListInFlight t \<and> \<not> checkTaskWanted s2 t
                  then (False, unlock (t_deploymentId t) consumerId (dropUnwantedTask t consumerId s2))
                  else (True, s2)))"

fun admit_tasks ::
  "worker_config \<Rightarrow> string \<Rightarrow> (nat \<Rightarrow> ms) \<Rightarrow> (nat \<Rightarrow> bool) \<Rightarrow> nat \<Rightarrow> outstanding_task list \<Rightarrow> db \<Rightarrow>
    outstanding_task list \<times> db" where
  "admit_tasks cfg consumerId clock stopped n [] s = ([], s)"
| "admit_tasks cfg consumerId clock stopped n (k # ks) s =
     (if stopped n then ([], s)
      else (let (admitted, s1) = admit_task cfg consumerId (clock n) k s;
                (dispatched, s2) = admit_tasks cfg consumerId clock stopped (Suc n) ks s1
            in (if admitted then k # dispatched else dispatched, s2)))"

text \<open>The tasks the cycle dispatches, in order. \<open>clock\<close> and \<open>stopped\<close> are read once per
  claim of the batch and then once per hydrated task.\<close>

definition fetchNewTasksCycle ::
  "worker_config \<Rightarrow> (nat \<Rightarrow> ms) \<Rightarrow> (nat \<Rightarrow> bool) \<Rightarrow> consumer \<Rightarrow> db \<Rightarrow> outstanding_task list \<times> db" where
  "fetchNewTasksCycle cfg clock stopped u s =
     (let capacity = tasks_batch_size cfg - length (u_inflight u)
      in if u_stopped u \<or> capacity = 0 then ([], s)
         else (let (claimed, s1) = claimTasks (u_id u) (task_lease_ms cfg) (map clock [0..<capacity]) s
               in if claimed = [] then ([], s1)
                  else (let (survivors, s2) = vet_claimed cfg u claimed s1;
                            enriched = enrichClaimedTasks (map t_id survivors) s2;
                            s3 = drop_orphans (u_id u) (map (\<lambda>k. t_id (k_task k)) enriched) survivors s2
                        in admit_tasks cfg (u_id u) clock stopped capacity enriched s3)))"

section \<open>Runs and their results\<close>

record task_env =
  te_cfg :: worker_config
  te_list :: list_env
  te_stop :: stop_env
  te_extend :: extend_env

definition runTask :: "task_env \<Rightarrow> outstanding_task \<Rightarrow> db \<Rightarrow> task_run_result option \<times> db" where
  "runTask env k s =
     (case t_task (k_task k) of
        LIST \<Rightarrow> runListTask (te_list env) k s
      | STOP \<Rightarrow> runStopTask (te_stop env) k s
      | EXTEND \<Rightarrow> runExtendTask (te_extend env) k s)"

definition teardown :: "string \<Rightarrow> outstanding_task \<Rightarrow> bool \<Rightarrow> db \<Rightarrow> db" where
  "teardown consumerId k deleteDoc s =
     unlock (t_deploymentId (k_task k)) consumerId
       (if deleteDoc then deleteCompletedTask (t_id (k_task k)) consumerId s else s)"

definition settle_task ::
  "worker_config \<Rightarrow> string \<Rightarrow> ms \<Rightarrow> outstanding_task \<Rightarrow> task_run_result option \<Rightarrow> db \<Rightarrow> db" where
  "settle_task cfg consumerId now k result s =
     (let i = t_id (k_task k)
      in case result of
           None \<Rightarrow> teardown consumerId k False s
         | Some r \<Rightarrow>
             (case o_outcome r of
                O_ABORTED \<Rightarrow> teardown consumerId k False s
              | O_RETRY \<Rightarrow> teardown consumerId k False (rescheduleInflight i consumerId (o_retryAfterMs r) now s)
              | O_PARKED \<Rightarrow> teardown consumerId k False (parkTask i consumerId (reservation_renew_ms cfg) now s)
              | O_COMPLETED \<Rightarrow> teardown consumerId k True s
              | O_FAILED \<Rightarrow> teardown consumerId k True s))"

section \<open>What a cycle dispatches\<close>

lemma unlock_frame [frame_simps, simp]:
  "db_tasks (unlock i c s) = db_tasks s" "db_deployments (unlock i c s) = db_deployments s"
  "db_jobs (unlock i c s) = db_jobs s" "db_events (unlock i c s) = db_events s"
  "db_cancelled (unlock i c s) = db_cancelled s" "db_next_oid (unlock i c s) = db_next_oid s"
  "db_locks (unlock i c s) = releaseDeploymentLock i c (db_locks s)"
  by (simp_all add: unlock_def)

lemma checkTaskWanted_cong:
  "db_deployments s' = db_deployments s \<Longrightarrow> db_jobs s' = db_jobs s \<Longrightarrow> checkTaskWanted s' t = checkTaskWanted s t"
  unfolding checkTaskWanted_def by (simp only:)

lemma admit_task_frame [simp]:
  "db_deployments (snd (admit_task cfg c now k s)) = db_deployments s"
  "db_jobs (snd (admit_task cfg c now k s)) = db_jobs s"
  by (simp_all add: admit_task_def incrementAttempt_def releaseTaskToPending_def dropUnwantedTask_def
      Let_def case_prod_beta)

lemma admit_tasks_frame [simp]:
  "db_deployments (snd (admit_tasks cfg c clock stopped n ks s)) = db_deployments s"
  "db_jobs (snd (admit_tasks cfg c clock stopped n ks s)) = db_jobs s"
  by (induction ks arbitrary: n s) (simp_all add: case_prod_beta Let_def)

lemma admit_task_locks:
  "db_locks (snd (admit_task cfg c now k s)) =
     (let d = t_deploymentId (k_task k); locks = snd (acquireDeploymentLock d c (task_lease_ms cfg) now (db_locks s))
      in if fst (admit_task cfg c now k s) \<or> \<not> fst (acquireDeploymentLock d c (task_lease_ms cfg) now (db_locks s))
         then locks else releaseDeploymentLock d c locks)"
  by (simp add: admit_task_def incrementAttempt_def releaseTaskToPending_def dropUnwantedTask_def
      Let_def case_prod_beta)

lemma admit_task_admitted:
  assumes "fst (admit_task cfg c now k s)"
  shows "fst (acquireDeploymentLock (t_deploymentId (k_task k)) c (task_lease_ms cfg) now (db_locks s))"
    and "isListInFlight (k_task k) \<or> checkTaskWanted s (k_task k)"
proof -
  show "fst (acquireDeploymentLock (t_deploymentId (k_task k)) c (task_lease_ms cfg) now (db_locks s))"
    using assms by (simp add: admit_task_def Let_def case_prod_beta split: if_splits)
  have "checkTaskWanted (snd (incrementAttempt i c (s\<lparr>db_locks := l\<rparr>))) t = checkTaskWanted s t" for i l t
    by (rule checkTaskWanted_cong) (simp_all add: incrementAttempt_def Let_def)
  then show "isListInFlight (k_task k) \<or> checkTaskWanted s (k_task k)"
    using assms by (simp add: admit_task_def Let_def case_prod_beta split: if_splits)
qed

text \<open>The locks the cycle holds, until the lease of the first one would end.\<close>

definition holds_locks :: "string \<Rightarrow> ms \<Rightarrow> string set \<Rightarrow> db \<Rightarrow> bool" where
  "holds_locks c until D s \<longleftrightarrow> locks_wf (db_locks s) \<and>
     (\<forall>d \<in> D. \<forall>t \<le> until. lock_holder (db_locks s) t d = Some c)"

lemma holds_locks_admit:
  assumes "holds_locks c until D s" "now \<le> until" "until \<le> now + task_lease_ms cfg"
  shows "fst (admit_task cfg c now k s) \<Longrightarrow> t_deploymentId (k_task k) \<notin> D"
    and "holds_locks c until (if fst (admit_task cfg c now k s) then insert (t_deploymentId (k_task k)) D else D)
      (snd (admit_task cfg c now k s))"
proof -
  let ?d = "t_deploymentId (k_task k)"
  let ?acq = "acquireDeploymentLock ?d c (task_lease_ms cfg) now (db_locks s)"
  have wf: "locks_wf (db_locks s)" and held: "\<And>d t. d \<in> D \<Longrightarrow> t \<le> until \<Longrightarrow> lock_holder (db_locks s) t d = Some c"
    using assms(1) by (auto simp: holds_locks_def)
  have acq: "?d \<notin> D" if "fst ?acq"
    using that held [of ?d now] assms(2) by (auto simp: dl.acquire_iff_free [OF wf])
  then show "fst (admit_task cfg c now k s) \<Longrightarrow> ?d \<notin> D" using admit_task_admitted(1) by blast
  have wf1: "locks_wf (snd ?acq)" using wf by (rule dl.wf_acquire)
  have keep: "lock_holder (snd ?acq) t d = Some c" if "d \<in> D" "t \<le> until" for d t
  proof (cases "fst ?acq")
    case True
    with acq that(1) have "d \<noteq> ?d" by auto
    with held [OF that] wf show ?thesis by (simp add: dl.acquire_other)
  next
    case False
    with held [OF that] wf show ?thesis by (simp add: dl.acquire_failed)
  qed
  have rel: "lock_holder (releaseDeploymentLock ?d c (snd ?acq)) t d = Some c" if "d \<in> D" "t \<le> until" "fst ?acq" for d t
    using keep [OF that(1,2)] acq [OF that(3)] that(1) wf1 by (metis dl.release_other)
  have new: "lock_holder (snd ?acq) t ?d = Some c" if "fst ?acq" "t \<le> until" for t
    using that assms(3) wf by (simp add: dl.acquire_holds)
  show "holds_locks c until (if fst (admit_task cfg c now k s) then insert ?d D else D) (snd (admit_task cfg c now k s))"
    using wf1 keep rel new admit_task_admitted(1) [of cfg c now k s] dl.wf_release [OF wf1]
    by (auto simp: holds_locks_def admit_task_locks Let_def)
qed

lemma admit_tasks_guards:
  assumes "admit_tasks cfg c clock stopped n ks s = (ds, s')" "holds_locks c until D s"
    and "\<And>i. clock i \<le> until" "\<And>i. until \<le> clock i + task_lease_ms cfg"
  shows "distinct (map (\<lambda>k. t_deploymentId (k_task k)) ds) \<and>
    (\<forall>k \<in> set ds. k \<in> set ks \<and> t_deploymentId (k_task k) \<notin> D \<and>
       (isListInFlight (k_task k) \<or> checkTaskWanted s' (k_task k))) \<and>
    holds_locks c until (D \<union> (\<lambda>k. t_deploymentId (k_task k)) ` set ds) s'"
  using assms(1,2)
proof (induction ks arbitrary: n s ds D)
  case (Cons k ks)
  show ?case
  proof (cases "stopped n")
    case True
    with Cons.prems show ?thesis by simp
  next
    case False
    let ?a = "admit_task cfg c (clock n) k s"
    let ?D = "if fst ?a then insert (t_deploymentId (k_task k)) D else D"
    obtain ds1 where r: "admit_tasks cfg c clock stopped (Suc n) ks (snd ?a) = (ds1, s')"
      and ds: "ds = (if fst ?a then k # ds1 else ds1)"
      using Cons.prems(1) False by (auto simp: Let_def case_prod_beta prod_eq_iff)
    note h = holds_locks_admit [OF Cons.prems(2) assms(3) [of n] assms(4) [of n], of k]
    note ih = Cons.IH [OF r h(2)]
    have w: "isListInFlight (k_task k) \<or> checkTaskWanted s' (k_task k)" if "fst ?a"
    proof -
      have "db_deployments s' = db_deployments s" "db_jobs s' = db_jobs s"
        using admit_tasks_frame [of cfg c clock stopped "Suc n" ks "snd ?a"] r by simp_all
      with admit_task_admitted(2) [OF that] show ?thesis using checkTaskWanted_cong by metis
    qed
    show ?thesis
    proof (cases "fst ?a")
      case True
      with ih ds w h(1) show ?thesis by auto
    next
      case False
      with ih ds show ?thesis by simp
    qed
  qed
qed simp

lemma vet_claimed_survivors:
  "fst (vet_claimed cfg u ts s) =
     filter (\<lambda>t. t_id t \<notin> set (inflight_ids u) \<and> \<not> over_cap cfg t \<and> \<not> inflight_exhausted cfg t) ts"
  by (induction ts arbitrary: s) (auto simp: case_prod_beta Let_def)

lemma vet_claimed_locks [simp]: "db_locks (snd (vet_claimed cfg u ts s)) = db_locks s"
  by (induction ts arbitrary: s)
    (auto simp: case_prod_beta Let_def dropUnwantedTask_def abandonOverCap_def abandonInflightExhausted_def flag_error_def)

lemma drop_orphans_locks [simp]: "db_locks (drop_orphans c ids ts s) = db_locks s"
  unfolding drop_orphans_def by (induction ts arbitrary: s) (simp_all add: dropOrphanedTask_def)

lemma claimTasks_locks [simp]: "db_locks (snd (claimTasks c d nows s)) = db_locks s"
proof (induction nows arbitrary: s)
  case (Cons now nows)
  obtain r s1 where r: "claimTask c d now s = (r, s1)" by fastforce
  with claimTask_frame(5) [of c d now s] have "db_locks s1 = db_locks s" by simp
  with Cons [of s1] r show ?case by (cases r) (simp_all add: case_prod_beta Let_def)
qed simp

lemma enrichClaimedTasks_ids: "k \<in> set (enrichClaimedTasks ids s) \<Longrightarrow> t_id (k_task k) \<in> set ids"
  using enrich_one_Some by (fastforce simp: enrichClaimedTasks_def map_filter_def)

text \<open>
  What a fetch cycle dispatches: one task per deployment at most, each holding its
  deployment's lock until its lease may end, none of them already in flight here, each one a task it
  claimed that is within both retry caps, and each wanted by its deployment as it is at the end of
  the cycle, or a LIST in flight that must drain.
\<close>

theorem dispatch_guards:
  assumes "fetchNewTasksCycle cfg clock stopped u s = (ds, s')" "locks_wf (db_locks s)"
    and "\<And>i. clock i \<le> until" "\<And>i. until \<le> clock i + task_lease_ms cfg"
  shows "distinct (map (\<lambda>k. t_deploymentId (k_task k)) ds) \<and>
    (\<forall>k \<in> set ds.
       (\<forall>t \<le> until. lock_holder (db_locks s') t (t_deploymentId (k_task k)) = Some (u_id u)) \<and>
       t_id (k_task k) \<notin> set (inflight_ids u) \<and>
       (isListInFlight (k_task k) \<or> checkTaskWanted s' (k_task k)) \<and>
       (\<exists>t \<in> set (fst (claimTasks (u_id u) (task_lease_ms cfg)
            (map clock [0..<tasks_batch_size cfg - length (u_inflight u)]) s)).
          t_id t = t_id (k_task k) \<and> \<not> over_cap cfg t \<and> \<not> inflight_exhausted cfg t))"
proof -
  let ?cap = "tasks_batch_size cfg - length (u_inflight u)"
  obtain claimed s1 where c: "claimTasks (u_id u) (task_lease_ms cfg) (map clock [0..<?cap]) s = (claimed, s1)"
    by (rule prod.exhaust)
  obtain survivors s2 where v: "vet_claimed cfg u claimed s1 = (survivors, s2)" by (rule prod.exhaust)
  let ?en = "enrichClaimedTasks (map t_id survivors) s2"
  let ?s3 = "drop_orphans (u_id u) (map (\<lambda>k. t_id (k_task k)) ?en) survivors s2"
  show ?thesis
  proof (cases "u_stopped u \<or> ?cap = 0 \<or> claimed = []")
    case True
    with assms(1) c have "ds = []" by (auto simp: fetchNewTasksCycle_def Let_def split: if_splits)
    then show ?thesis by simp
  next
    case False
    then have a: "admit_tasks cfg (u_id u) clock stopped ?cap ?en ?s3 = (ds, s')"
      using assms(1) c v by (simp add: fetchNewTasksCycle_def Let_def)
    have "db_locks ?s3 = db_locks s"
      using claimTasks_locks [of "u_id u" "task_lease_ms cfg" "map clock [0..<?cap]" s]
        vet_claimed_locks [of cfg u claimed s1] c v by simp
    then have "holds_locks (u_id u) until {} ?s3" using assms(2) by (simp add: holds_locks_def)
    note g = admit_tasks_guards [OF a this assms(3,4)]
    have sv: "\<exists>t \<in> set claimed. t_id t = t_id (k_task k) \<and> t_id t \<notin> set (inflight_ids u) \<and>
        \<not> over_cap cfg t \<and> \<not> inflight_exhausted cfg t" if "k \<in> set ds" for k
    proof -
      have "k \<in> set ?en" using g that by blast
      then have "t_id (k_task k) \<in> t_id ` set survivors" using enrichClaimedTasks_ids by fastforce
      moreover have "survivors = fst (vet_claimed cfg u claimed s1)" using v by simp
      ultimately show ?thesis unfolding vet_claimed_survivors by auto
    qed
    from g have "distinct (map (\<lambda>k. t_deploymentId (k_task k)) ds)" by blast
    moreover have "(\<forall>t \<le> until. lock_holder (db_locks s') t (t_deploymentId (k_task k)) = Some (u_id u)) \<and>
        (isListInFlight (k_task k) \<or> checkTaskWanted s' (k_task k))" if "k \<in> set ds" for k
      using g that by (simp add: holds_locks_def)
    moreover have "fst (claimTasks (u_id u) (task_lease_ms cfg) (map clock [0..<?cap]) s) = claimed" using c by simp
    ultimately show ?thesis using sv by metis
  qed
qed

section \<open>What a result does\<close>

definition mine :: "string \<Rightarrow> outstanding_task \<Rightarrow> db \<Rightarrow> bool" where
  "mine c k s \<longleftrightarrow> (\<exists>t \<in> set (db_tasks s). t_id t = t_id (k_task k) \<and> t_claimed_by t = Some c)"

lemma settle_task_locks:
  "db_locks (settle_task cfg c now k result s) = releaseDeploymentLock (t_deploymentId (k_task k)) c (db_locks s)"
  by (auto simp: settle_task_def teardown_def deleteCompletedTask_def rescheduleInflight_def parkTask_def Let_def
      split: option.splits task_outcome.splits)

lemma settle_task_deployments:
  "db_deployments (settle_task cfg c now k result s) = db_deployments s"
  "db_jobs (settle_task cfg c now k result s) = db_jobs s"
  by (auto simp: settle_task_def teardown_def deleteCompletedTask_def rescheduleInflight_def parkTask_def Let_def
      split: option.splits task_outcome.splits)


definition parked_task :: task_document where
  "parked_task = (blank_task 7 LIST ''d'')\<lparr>t_status := Some PROCESSING, t_claimed_by := Some ''c'', t_attempts := 1\<rparr>"


text \<open>A cycle over a store with one due STOP: it is claimed, admitted and dispatched.\<close>

definition one_stop_db :: db where
  "one_stop_db = empty_db\<lparr>db_deployments := [blank_deployment ''d'' ''o'' STOPPING],
     db_vaults := [\<lparr>w_vault = ''V'', w_vault_key = ''k'', w_owner = ''o'', w_created_at = 0\<rparr>],
     db_tasks := [blank_task 7 STOP ''d''], db_next_oid := 8\<rparr>"

definition one_task_config :: worker_config where
  "one_task_config = default_worker_config\<lparr>tasks_batch_size := 1\<rparr>"

definition idle_consumer :: consumer where
  "idle_consumer = \<lparr>u_id = ''c'', u_inflight = [], u_stopped = False\<rparr>"

lemma example_cycle:
  "map (\<lambda>k. t_id (k_task k)) (fst (fetchNewTasksCycle one_task_config (\<lambda>_. 5) (\<lambda>_. False) idle_consumer one_stop_db)) = [7]"
proof -
  have t: "lease_to ''c'' 120005 (blank_task 7 STOP ''d'') = (blank_task 7 STOP ''d'')\<lparr>t_status := Some PROCESSING,
      t_claimed_by := Some ''c'', t_lease_expires_at := Some 120005\<rparr>" by (simp add: lease_to_def)
  show ?thesis
    by (simp add: fetchNewTasksCycle_def idle_consumer_def one_task_config_def default_worker_config_def one_stop_db_def
        empty_db_def claimTask_def claimable_def over_cap_def inflight_exhausted_def inflight_ids_def
        enrichClaimedTasks_def enrich_one_def find_last_def map_filter_simps drop_orphans_def admit_task_def
        acquireDeploymentLock_def matches_def incrementAttempt_def isListInFlight_def checkTaskWanted_def isTaskWanted_def
        t Let_def)
qed

theorem dispatch_guards_witness:
  "\<exists>k. fst (fetchNewTasksCycle one_task_config (\<lambda>_. 5) (\<lambda>_. False) idle_consumer one_stop_db) = [k] \<and>
     t_id (k_task k) = 7 \<and>
     lock_holder (db_locks (snd (fetchNewTasksCycle one_task_config (\<lambda>_. 5) (\<lambda>_. False) idle_consumer one_stop_db)))
       120005 (t_deploymentId (k_task k)) = Some ''c''"
proof -
  obtain ds s' where r: "fetchNewTasksCycle one_task_config (\<lambda>_. 5) (\<lambda>_. False) idle_consumer one_stop_db = (ds, s')"
    by (rule prod.exhaust)
  have wf: "locks_wf (db_locks one_stop_db)" by (simp add: locks_wf_def one_stop_db_def empty_db_def)
  have l: "task_lease_ms one_task_config = 120000" by (simp add: one_task_config_def default_worker_config_def)
  obtain k where k: "ds = [k]" "t_id (k_task k) = 7"
    using example_cycle r by (auto simp: map_eq_Cons_conv)
  have "\<forall>k \<in> set ds. lock_holder (db_locks s') 120005 (t_deploymentId (k_task k)) = Some (u_id idle_consumer)"
    using dispatch_guards [OF r wf, of 120005] l by simp
  then show ?thesis using k unfolding r by (simp add: idle_consumer_def)
qed

section \<open>The worker's invariants\<close>

lemma safe_set_locks:
  "(store_wf s \<Longrightarrow> distinct (map l_id locks)) \<Longrightarrow> safe_step s (s\<lparr>db_locks := locks\<rparr>)"
  by (rule safe_same) (auto simp: store_wf_def)

lemma safe_unlock: "safe_step s (unlock i c s)"
  unfolding unlock_def
  by (rule safe_set_locks) (auto simp: store_wf_def releaseDeploymentLock_def intro: distinct_delete_many)

lemma safe_admit_task: "safe_step s (snd (admit_task cfg c now k s))"
proof -
  let ?i = "t_deploymentId (k_task k)"
  let ?s1 = "s\<lparr>db_locks := snd (acquireDeploymentLock ?i c (task_lease_ms cfg) now (db_locks s))\<rparr>"
  have 1: "safe_step s ?s1"
    by (rule safe_set_locks) (use locks_wf_acquire in \<open>simp add: store_wf_def locks_wf_def\<close>)
  have 2: "safe_step s (snd (incrementAttempt (t_id (k_task k)) c ?s1))"
    using 1 safe_incrementAttempt by (rule safe_trans)
  have "safe_step s (unlock ?i c (snd (incrementAttempt (t_id (k_task k)) c ?s1)))"
    using 2 safe_unlock by (rule safe_trans)
  moreover have "safe_step s (unlock ?i c (dropUnwantedTask (k_task k) c (snd (incrementAttempt (t_id (k_task k)) c ?s1))))"
    using safe_trans [OF 2 safe_drop(1)] safe_unlock by (rule safe_trans)
  moreover have "safe_step s (releaseTaskToPending (t_id (k_task k)) now ?s1)"
    using 1 safe_releaseTaskToPending by (rule safe_trans)
  ultimately show ?thesis using 2
    by (simp add: admit_task_def Let_def case_prod_beta)
qed

lemma safe_admit_tasks: "safe_step s (snd (admit_tasks cfg c clock stopped n ks s))"
proof (induction ks arbitrary: n s)
  case (Cons k ks)
  have "safe_step s (snd (admit_task cfg c (clock n) k s))" by (rule safe_admit_task)
  also note Cons
  finally show ?case by (simp add: Let_def case_prod_beta)
qed simp

lemma safe_vet_claimed: "safe_step s (snd (vet_claimed cfg u ts s))"
proof (induction ts arbitrary: s)
  case (Cons t ts)
  have "safe_step s (snd (vet_claimed cfg u ts (dropUnwantedTask t (u_id u) s)))"
    "safe_step s (snd (vet_claimed cfg u ts (abandonOverCap t s)))"
    "safe_step s (snd (vet_claimed cfg u ts (abandonInflightExhausted t s)))"
    using safe_trans [OF safe_drop(1) Cons] safe_trans [OF safe_abandonOverCap Cons]
      safe_trans [OF safe_abandonInflightExhausted Cons] by blast+
  with Cons show ?case by (simp add: Let_def case_prod_beta)
qed simp

lemma safe_drop_orphans: "safe_step s (drop_orphans c ids ts s)"
  unfolding drop_orphans_def
proof (induction ts arbitrary: s)
  case (Cons t ts)
  have "safe_step s (if t_id t \<in> set ids then s else dropOrphanedTask t c s)"
    using safe_drop(2) by simp
  also note Cons
  finally show ?case by simp
qed simp

lemma safe_fetchNewTasksCycle: "safe_step s (snd (fetchNewTasksCycle cfg clock stopped u s))"
proof -
  have 1: "safe_step s (snd (claimTasks (u_id u) d nows s))" for d nows by (rule safe_claimTasks)
  have 2: "safe_step s (snd (vet_claimed cfg u ts (snd (claimTasks (u_id u) d nows s))))" for d nows ts
    using 1 safe_vet_claimed by (rule safe_trans)
  have 3: "safe_step s (snd (admit_tasks cfg (u_id u) clock stopped n ks (drop_orphans (u_id u) ids ts' x)))"
    if "safe_step s x" for n ks ids ts' x
    using safe_trans [OF that safe_drop_orphans] safe_admit_tasks by (rule safe_trans)
  show ?thesis
    using 1 3 [OF 2] by (simp add: fetchNewTasksCycle_def Let_def case_prod_beta)
qed

lemma safe_runTask: "safe_step s (snd (runTask env k s))"
  by (simp add: runTask_def safe_runListTask safe_runStopTask safe_runExtendTask split: task_type.split)

lemma safe_teardown: "safe_step s (teardown c k b s)"
  unfolding teardown_def using safe_trans [OF safe_drop(3) safe_unlock] safe_unlock by simp

lemma safe_settle_task: "safe_step s (settle_task cfg c now k result s)"
  unfolding settle_task_def Let_def
  using safe_teardown safe_trans [OF safe_rescheduleInflight safe_teardown] safe_trans [OF safe_parkTask safe_teardown]
  by (simp split: option.split task_outcome.split)

end
