(* ===== verification/Queue_Machine.thy ===== *)
theory Queue_Machine
  imports Consumer "HOL-Library.Sublist"
begin

text \<open>
  The task queue as a state machine: the store and the consumers that share it, whose cycles, runs
  and settlings interleave with each other, with restarts and with the writes of everybody else
  (a route or a listener scheduling a task, host-manager's webhook). A fetch cycle, a run and a
  settling are one step each.
\<close>

section \<open>The machine\<close>

datatype phase = Dispatched | Finished "task_run_result option"

record member =
  m_work :: "(outstanding_task \<times> phase) list"
  m_stopped :: bool

record world =
  wd_db :: db
  wd_members :: "string \<Rightarrow> member option"

definition consumer_of :: "string \<Rightarrow> member \<Rightarrow> consumer" where
  "consumer_of c m = \<lparr>u_id = c, u_inflight = map fst (m_work m), u_stopped = m_stopped m\<rparr>"

definition fresh_member :: member where
  "fresh_member = \<lparr>m_work = [], m_stopped = False\<rparr>"

definition set_member :: "string \<Rightarrow> member option \<Rightarrow> world \<Rightarrow> world" where
  "set_member c m w = w\<lparr>wd_members := (wd_members w)(c := m)\<rparr>"

inductive queue_step :: "worker_config \<Rightarrow> world \<Rightarrow> world \<Rightarrow> bool" for cfg where
  step_start: "wd_members w c = None \<Longrightarrow> queue_step cfg w (set_member c (Some fresh_member) w)"
| step_crash: "wd_members w c = Some m \<Longrightarrow> queue_step cfg w (set_member c None w)"
| step_stop: "wd_members w c = Some m \<Longrightarrow> queue_step cfg w (set_member c (Some (m\<lparr>m_stopped := True\<rparr>)) w)"
| step_fetch: "wd_members w c = Some m \<Longrightarrow>
    fetchNewTasksCycle cfg clock stopped (consumer_of c m) (wd_db w) = (ds, s') \<Longrightarrow>
    queue_step cfg w (set_member c (Some (m\<lparr>m_work := m_work m @ map (\<lambda>k. (k, Dispatched)) ds\<rparr>))
      (w\<lparr>wd_db := s'\<rparr>))"
| step_run: "wd_members w c = Some m \<Longrightarrow> m_work m = before @ (k, Dispatched) # after \<Longrightarrow>
    runTask env k (wd_db w) = (r, s') \<Longrightarrow>
    queue_step cfg w (set_member c (Some (m\<lparr>m_work := before @ (k, Finished r) # after\<rparr>)) (w\<lparr>wd_db := s'\<rparr>))"
| step_settle: "wd_members w c = Some m \<Longrightarrow> m_work m = before @ (k, Finished r) # after \<Longrightarrow>
    queue_step cfg w (set_member c (Some (m\<lparr>m_work := before @ after\<rparr>))
      (w\<lparr>wd_db := settle_task cfg c now k r (wd_db w)\<rparr>))"
| step_schedule: "queue_step cfg w (w\<lparr>wd_db := snd (scheduleTask ty i st due now opts (wd_db w))\<rparr>)"
| step_webhook: "queue_step cfg w (w\<lparr>wd_db := snd (recordRequestFulfilment key nodes hold now (wd_db w))\<rparr>)"

inductive_cases queue_stepE: "queue_step cfg w w'"

section \<open>Every step is safe\<close>

lemma set_member_db [simp]: "wd_db (set_member c m w) = wd_db w"
  "wd_members (set_member c m w) = (wd_members w)(c := m)"
  by (simp_all add: set_member_def)

text \<open>The operations of the store a step may be, and the contract they share.\<close>

datatype store_op =
    Op_fetch worker_config "nat \<Rightarrow> ms" "nat \<Rightarrow> bool" consumer
  | Op_run task_env outstanding_task
  | Op_settle worker_config string ms outstanding_task "task_run_result option"
  | Op_schedule task_type string deployment_status ms ms schedule_options
  | Op_webhook string "reserved_node list" "ms option" ms

fun apply_op :: "store_op \<Rightarrow> db \<Rightarrow> db" where
  "apply_op (Op_fetch cfg clock stopped u) s = snd (fetchNewTasksCycle cfg clock stopped u s)"
| "apply_op (Op_run env k) s = snd (runTask env k s)"
| "apply_op (Op_settle cfg c now k r) s = settle_task cfg c now k r s"
| "apply_op (Op_schedule ty i st due now opts) s = snd (scheduleTask ty i st due now opts s)"
| "apply_op (Op_webhook key nodes hold now) s = snd (recordRequestFulfilment key nodes hold now s)"

interpretation ops: store_operation apply_op
proof unfold_locales
  show "safe_step s (apply_op e s)" for s e
    by (cases e) (simp_all add: safe_fetchNewTasksCycle safe_runTask safe_settle_task safe_scheduleTask
        safe_recordRequestFulfilment)
qed

lemma queue_step_ops: "queue_step cfg w w' \<Longrightarrow> \<exists>os. wd_db w' = fold apply_op os (wd_db w)"
proof (induction rule: queue_step.induct)
  case (step_fetch w c m clock stopped ds s')
  then show ?case by (intro exI [of _ "[Op_fetch cfg clock stopped (consumer_of c m)]"]) simp
next
  case (step_run w c m before k after env r s')
  then show ?case by (intro exI [of _ "[Op_run env k]"]) simp
next
  case (step_settle w c m before k r after now)
  then show ?case by (intro exI [of _ "[Op_settle cfg c now k r]"]) simp
next
  case (step_schedule w ty i st due now opts)
  then show ?case by (intro exI [of _ "[Op_schedule ty i st due now opts]"]) simp
next
  case (step_webhook w key nodes hold now)
  then show ?case by (intro exI [of _ "[Op_webhook key nodes hold now]"]) simp
qed (auto intro: exI [of _ "[]"])

lemma queue_run_ops: "(queue_step cfg)\<^sup>*\<^sup>* w w' \<Longrightarrow> \<exists>os. wd_db w' = fold apply_op os (wd_db w)"
proof (induction rule: rtranclp_induct)
  case base
  show ?case by (rule exI [of _ "[]"]) simp
next
  case (step w1 w2)
  then obtain os where 1: "wd_db w1 = fold apply_op os (wd_db w)" by blast
  from queue_step_ops [OF step(2)] obtain os' where "wd_db w2 = fold apply_op os' (wd_db w1)" by blast
  with 1 have "wd_db w2 = fold apply_op (os @ os') (wd_db w)" by simp
  then show ?case by blast
qed

lemma queue_step_safe: "queue_step cfg w w' \<Longrightarrow> safe_step (wd_db w) (wd_db w')"
  using queue_step_ops ops.safe_sequence by metis

section \<open>What is in flight\<close>

definition work_ids :: "member \<Rightarrow> object_id list" where
  "work_ids m = map (\<lambda>x. t_id (k_task (fst x))) (m_work m)"

definition queue_inv :: "worker_config \<Rightarrow> world \<Rightarrow> bool" where
  "queue_inv cfg w \<longleftrightarrow> store_wf (wd_db w) \<and>
     (\<forall>c m. wd_members w c = Some m \<longrightarrow>
        distinct (work_ids m) \<and> length (m_work m) \<le> tasks_batch_size cfg)"

lemma admit_tasks_subseq: "subseq (fst (admit_tasks cfg c clock stopped n ks s)) ks"
  by (induction ks arbitrary: n s) (simp_all add: Let_def case_prod_beta list_emb_Cons)

lemma enrich_ids: "map (\<lambda>k. t_id (k_task k)) (List.map_filter (enrich_one s) ts) =
    map t_id (filter (\<lambda>t. enrich_one s t \<noteq> None) ts)"
  by (induction ts) (auto simp: map_filter_simps dest: enrich_one_Some split: option.splits)

lemma length_claimTasks: "length (fst (claimTasks c d nows s)) \<le> length nows"
proof (induction nows arbitrary: s)
  case (Cons now nows)
  obtain r s1 where "claimTask c d now s = (r, s1)" by fastforce
  with Cons [of s1] show ?case by (cases r) (simp_all add: case_prod_beta Let_def)
qed simp

lemma subseq_keeps:
  assumes "subseq xs ys" "distinct ys" shows "distinct xs" "set xs \<subseteq> set ys"
  using assms
proof (induction rule: list_emb.induct)
  case (list_emb_Cons2 x y xs ys)
  case 1 then show ?case using list_emb_Cons2 by auto
  case 2 then show ?case using list_emb_Cons2 by auto
qed auto

lemma cycle_dispatches:
  assumes "fetchNewTasksCycle cfg clock stopped u s = (ds, s')" "store_wf s"
  shows "distinct (map (\<lambda>k. t_id (k_task k)) ds) \<and>
    set (map (\<lambda>k. t_id (k_task k)) ds) \<inter> set (inflight_ids u) = {} \<and>
    length ds \<le> tasks_batch_size cfg - length (u_inflight u)"
proof -
  let ?cap = "tasks_batch_size cfg - length (u_inflight u)"
  obtain claimed s1 where c: "claimTasks (u_id u) (task_lease_ms cfg) (map clock [0..<?cap]) s = (claimed, s1)"
    by (rule prod.exhaust)
  obtain survivors s2 where v: "vet_claimed cfg u claimed s1 = (survivors, s2)" by (rule prod.exhaust)
  let ?en = "enrichClaimedTasks (map t_id survivors) s2"
  show ?thesis
  proof (cases "u_stopped u \<or> ?cap = 0 \<or> claimed = []")
    case True
    with assms(1) c have "ds = []" by (auto simp: fetchNewTasksCycle_def Let_def split: if_splits)
    then show ?thesis by simp
  next
    case False
    then have a: "subseq ds ?en"
      using assms(1) c v admit_tasks_subseq by (simp add: fetchNewTasksCycle_def Let_def) (metis fst_conv)
    have wf: "store_wf s2"
      using safe_trans [OF safe_claimTasks [of s] safe_vet_claimed] assms(2) c v
      by (metis safe_step_def snd_conv)
    let ?f = "filter (\<lambda>t. enrich_one s2 t \<noteq> None) (filter (\<lambda>t. t_id t \<in> set (map t_id survivors)) (db_tasks s2))"
    have ids: "map (\<lambda>k. t_id (k_task k)) ?en = map t_id ?f"
      unfolding enrichClaimedTasks_def by (rule enrich_ids)
    have "distinct (map t_id ?f)" using wf by (simp add: store_wf_def distinct_map_filter)
    then have d: "distinct (map (\<lambda>k. t_id (k_task k)) ?en)" unfolding ids .
    have sub: "set (map (\<lambda>k. t_id (k_task k)) ?en) \<subseteq> set (map t_id survivors)"
      unfolding ids by auto
    have sv: "survivors = filter (\<lambda>t. t_id t \<notin> set (inflight_ids u) \<and> \<not> over_cap cfg t \<and> \<not> inflight_exhausted cfg t) claimed"
      using vet_claimed_survivors [of cfg u claimed s1] v by simp
    have "subseq (map (\<lambda>k. t_id (k_task k)) ds) (map (\<lambda>k. t_id (k_task k)) ?en)"
      using a by (rule subseq_map)
    then have dd: "distinct (map (\<lambda>k. t_id (k_task k)) ds)"
      and ss: "set (map (\<lambda>k. t_id (k_task k)) ds) \<subseteq> set (map (\<lambda>k. t_id (k_task k)) ?en)"
      using subseq_keeps [OF _ d] by blast+
    have "length ds = card (set (map (\<lambda>k. t_id (k_task k)) ds))" using dd distinct_card by fastforce
    also have "\<dots> \<le> card (set (map t_id survivors))" using ss sub by (intro card_mono) auto
    also have "\<dots> \<le> length survivors" using card_length [of "map t_id survivors"] by simp
    also have "\<dots> \<le> length claimed" unfolding sv by simp
    also have "\<dots> \<le> ?cap" using length_claimTasks [of "u_id u" "task_lease_ms cfg" "map clock [0..<?cap]" s] c by simp
    finally have le: "length ds \<le> ?cap" .
    have "set (map t_id survivors) \<inter> set (inflight_ids u) = {}" unfolding sv by auto
    with ss sub have "set (map (\<lambda>k. t_id (k_task k)) ds) \<inter> set (inflight_ids u) = {}" by blast
    with dd le show ?thesis by blast
  qed
qed

lemma queue_inv_member:
  "queue_inv cfg w \<Longrightarrow> wd_members w c = Some m \<Longrightarrow> distinct (work_ids m) \<and> length (m_work m) \<le> tasks_batch_size cfg"
  by (simp add: queue_inv_def)

lemma queue_inv_set:
  assumes "queue_inv cfg w" "store_wf (wd_db w1)" "wd_members w1 = wd_members w"
    and "\<And>m. mo = Some m \<Longrightarrow> distinct (work_ids m) \<and> length (m_work m) \<le> tasks_batch_size cfg"
  shows "queue_inv cfg (set_member c mo w1)"
  using assms by (auto simp: queue_inv_def)

lemma queue_step_inv:
  assumes "queue_step cfg w w'" "queue_inv cfg w" shows "queue_inv cfg w'"
proof -
  have wf: "store_wf (wd_db w')"
    using queue_step_safe [OF assms(1)] assms(2) by (simp add: safe_step_def queue_inv_def)
  note set = queue_inv_set [OF assms(2)]
  from assms(1) show ?thesis
  proof (cases rule: queue_step.cases)
    case (step_start c)
    with wf show ?thesis by (auto intro!: set simp: fresh_member_def work_ids_def)
  next
    case (step_crash c m)
    with wf show ?thesis by (auto intro!: set)
  next
    case (step_stop c m)
    with wf queue_inv_member [OF assms(2), of c m] show ?thesis
      by (auto intro!: set simp: work_ids_def)
  next
    case (step_fetch c m clock stopped ds s')
    note m = queue_inv_member [OF assms(2) step_fetch(2)]
    have ids: "inflight_ids (consumer_of c m) = work_ids m"
      by (simp add: inflight_ids_def consumer_of_def work_ids_def)
    have "store_wf (wd_db w)" using assms(2) by (simp add: queue_inv_def)
    note d = cycle_dispatches [OF step_fetch(3) this]
    have "distinct (work_ids (m\<lparr>m_work := m_work m @ map (\<lambda>k. (k, Dispatched)) ds\<rparr>))"
      using d m unfolding ids by (auto simp: work_ids_def o_def)
    moreover have "length (m_work m @ map (\<lambda>k. (k, Dispatched)) ds) \<le> tasks_batch_size cfg"
    proof -
      have "length ds \<le> tasks_batch_size cfg - length (m_work m)" using d by (simp add: consumer_of_def)
      with m show ?thesis by (simp del: One_nat_def, arith)
    qed
    ultimately show ?thesis using wf unfolding step_fetch(1) by (intro set) auto
  next
    case (step_run c m before k after env r s')
    with queue_inv_member [OF assms(2) step_run(2)] wf show ?thesis
      unfolding step_run(1) by (intro set) (auto simp: work_ids_def)
  next
    case (step_settle c m before k r after now)
    with queue_inv_member [OF assms(2) step_settle(2)] wf show ?thesis
      unfolding step_settle(1) by (intro set) (auto simp: work_ids_def)
  next
    case (step_schedule ty i st due now opts)
    with assms(2) wf show ?thesis by (simp add: queue_inv_def)
  next
    case (step_webhook key nodes hold now)
    with assms(2) wf show ?thesis by (simp add: queue_inv_def)
  qed
qed


text \<open>
  C4: the queue never revives what has ended: whatever the consumers and the others do, in whatever
  order, an ARCHIVED deployment stays ARCHIVED and a job that completed or was stopped keeps that
  state.
\<close>

theorem queue_keeps_terminal_states:
  assumes "(queue_step cfg)\<^sup>*\<^sup>* w w'"
  shows "(\<forall>d \<in> set (db_deployments (wd_db w)). d_status d = ARCHIVED \<longrightarrow>
      (\<exists>d' \<in> set (db_deployments (wd_db w')). d_id d' = d_id d \<and> d_status d' = ARCHIVED)) \<and>
    (\<forall>j \<in> set (db_jobs (wd_db w)). j_state j \<in> {J_COMPLETED, J_STOPPED} \<longrightarrow>
      (\<exists>j' \<in> set (db_jobs (wd_db w')). j_job j' = j_job j \<and> j_state j' = j_state j))"
proof -
  obtain os where os: "wd_db w' = fold apply_op os (wd_db w)" using queue_run_ops [OF assms] by blast
  show ?thesis
    unfolding os using ops.archived_is_terminal ops.settled_is_terminal by blast
qed

section \<open>A run of the machine\<close>

definition example_world :: world where
  "example_world = \<lparr>wd_db = one_stop_db, wd_members = Map.empty\<rparr>"

lemma example_world_runs:
  "\<exists>w' k. (queue_step one_task_config)\<^sup>*\<^sup>* example_world w' \<and>
     wd_members w' ''c'' = Some \<lparr>m_work = [(k, Dispatched)], m_stopped = False\<rparr> \<and> t_id (k_task k) = 7"
proof -
  let ?w1 = "set_member ''c'' (Some fresh_member) example_world"
  have 1: "queue_step one_task_config example_world ?w1"
    by (rule step_start) (simp add: example_world_def)
  have c: "consumer_of ''c'' fresh_member = idle_consumer"
    by (simp add: consumer_of_def fresh_member_def idle_consumer_def)
  obtain ds s' where f: "fetchNewTasksCycle one_task_config (\<lambda>_. 5) (\<lambda>_. False) idle_consumer one_stop_db = (ds, s')"
    by (rule prod.exhaust)
  let ?w2 = "set_member ''c'' (Some (fresh_member\<lparr>m_work := m_work fresh_member @ map (\<lambda>k. (k, Dispatched)) ds\<rparr>))
      (?w1\<lparr>wd_db := s'\<rparr>)"
  have 2: "queue_step one_task_config ?w1 ?w2"
    by (rule step_fetch [of _ _ _ _ "\<lambda>_. 5" "\<lambda>_. False"]) (use f c in \<open>simp_all add: example_world_def\<close>)
  obtain k where k: "ds = [k]" "t_id (k_task k) = 7"
    using example_cycle f by (auto simp: map_eq_Cons_conv)
  have "(queue_step one_task_config)\<^sup>*\<^sup>* example_world ?w2" using 1 2 by (meson r_into_rtranclp rtranclp_trans)
  moreover have "wd_members ?w2 ''c'' = Some \<lparr>m_work = [(k, Dispatched)], m_stopped = False\<rparr>"
    by (simp add: k(1) fresh_member_def)
  ultimately show ?thesis using k(2) by blast
qed

lemma one_stop_db_wf: "store_wf one_stop_db"
  by (simp add: store_wf_def one_stop_db_def empty_db_def)


theorem queue_keeps_terminal_states_witness:
  "\<exists>w'. w' \<noteq> example_world \<and> (\<forall>d \<in> set (db_deployments (wd_db example_world)). d_status d = ARCHIVED \<longrightarrow>
      (\<exists>d' \<in> set (db_deployments (wd_db w')). d_id d' = d_id d \<and> d_status d' = ARCHIVED))"
proof -
  obtain w' k where r: "(queue_step one_task_config)\<^sup>*\<^sup>* example_world w'"
    "wd_members w' ''c'' = Some \<lparr>m_work = [(k, Dispatched)], m_stopped = False\<rparr>"
    using example_world_runs by blast
  have "w' \<noteq> example_world" using r(2) by (auto simp: example_world_def)
  with queue_keeps_terminal_states [OF r(1)] show ?thesis by blast
qed

end
