(* ===== verification/Job_Listeners.thy ===== *)
theory Job_Listeners
  imports Queue_Machine
begin

text \<open>
  The accounts listener (\<open>src/listeners/accounts/\<close>): the writes it makes when the chain
  reports a job or a market, and the periodic reconciliation of every unfinished job. What the
  chain reports is an argument; a job number that is no known state throws.
\<close>

section \<open>Helpers\<close>

definition convertJobState :: "nat \<Rightarrow> job_state option" where
  "convertJobState st =
     (if st = 0 then Some J_QUEUED else if st = 1 then Some J_RUNNING
      else if st = 2 then Some J_COMPLETED else if st = 3 then Some J_STOPPED else None)"

definition jobStateToNumber :: "job_state \<Rightarrow> nat" where
  "jobStateToNumber st = (case st of J_QUEUED \<Rightarrow> 0 | J_RUNNING \<Rightarrow> 1 | J_COMPLETED \<Rightarrow> 2 | J_STOPPED \<Rightarrow> 3)"

lemma convert_jobStateToNumber: "convertJobState (jobStateToNumber st) = Some st"
  by (cases st) (simp_all add: convertJobState_def jobStateToNumber_def)

lemma jobStateToNumber_convert: "convertJobState n = Some st \<Longrightarrow> jobStateToNumber st = n"
  by (auto simp: convertJobState_def jobStateToNumber_def split: if_splits)

text \<open>The states in their on-chain order, so that the library's order applies to them.\<close>

instantiation job_state :: linorder
begin

definition less_eq_job_state :: "job_state \<Rightarrow> job_state \<Rightarrow> bool" where
  "less_eq_job_state a b \<longleftrightarrow> jobStateToNumber a \<le> jobStateToNumber b"

definition less_job_state :: "job_state \<Rightarrow> job_state \<Rightarrow> bool" where
  "less_job_state a b \<longleftrightarrow> jobStateToNumber a < jobStateToNumber b"

instance
proof
  fix a b c :: job_state
  show "a < b \<longleftrightarrow> a \<le> b \<and> \<not> b \<le> a" by (auto simp: less_eq_job_state_def less_job_state_def)
  show "a \<le> a" by (simp add: less_eq_job_state_def)
  show "a \<le> b \<Longrightarrow> b \<le> c \<Longrightarrow> a \<le> c" by (simp add: less_eq_job_state_def)
  show "a \<le> b \<Longrightarrow> b \<le> a \<Longrightarrow> a = b"
    unfolding less_eq_job_state_def using convert_jobStateToNumber by (metis le_antisym option.inject)
  show "a \<le> b \<or> b \<le> a" by (auto simp: less_eq_job_state_def)
qed

end

definition DEFAULT_NODE :: address where
  "DEFAULT_NODE = ''11111111111111111111111111111111''"

definition guardAgainstDefaultNodeAddress :: "address option \<Rightarrow> address option" where
  "guardAgainstDefaultNodeAddress node = (if node = Some DEFAULT_NODE then None else node)"

text \<open>An error as the chain of its causes, each with its code if it has one.\<close>

definition ACCOUNT_NOT_FOUND_CODES :: "nat list" where
  "ACCOUNT_NOT_FOUND_CODES = [3230000, 32300001]"

definition isAccountNotFound :: "nat option list \<Rightarrow> bool" where
  "isAccountNotFound causes \<longleftrightarrow>
     list_ex (\<lambda>c. case c of Some n \<Rightarrow> n \<in> set ACCOUNT_NOT_FOUND_CODES | None \<Rightarrow> False) (take 6 causes)"

text \<open>Reading an account: its content, or the error. None: the read error is thrown on.\<close>

definition findJobAccount :: "nat option list + 'a \<Rightarrow> 'a option option" where
  "findJobAccount read = (case read of Inr job \<Rightarrow> Some (Some job)
     | Inl e \<Rightarrow> if isAccountNotFound e then Some None else None)"

definition checkJobExists :: "nat option list + 'a \<Rightarrow> bool option" where
  "checkJobExists read = map_option (\<lambda>a. a \<noteq> None) (findJobAccount read)"

section \<open>A job changed\<close>

record chain_job =
  h_address :: address
  h_state :: nat
  h_timeStart :: int
  h_timeEnd :: int
  h_node :: "address option"

definition unfinished :: "jobs_document \<Rightarrow> bool" where
  "unfinished j \<longleftrightarrow> j_state j \<noteq> J_COMPLETED \<and> j_state j \<noteq> J_STOPPED"

definition end_stamp :: "chain_job \<Rightarrow> jobs_document \<Rightarrow> jobs_document" where
  "end_stamp c j = (if h_timeEnd c \<noteq> 0 then j\<lparr>j_time_end := Some (h_timeEnd c)\<rparr> else j)"

text \<open>None: the state is unknown and the handler throws.\<close>

definition onJobUpdate :: "chain_job \<Rightarrow> ms \<Rightarrow> db \<Rightarrow> db option" where
  "onJobUpdate c now s =
     (case convertJobState (h_state c) of
        None \<Rightarrow> None
      | Some st \<Rightarrow> Some (s\<lparr>db_jobs := update_one (\<lambda>j. j_job j = h_address c \<and> unfinished j)
          (\<lambda>j. end_stamp c (j\<lparr>j_state := st, j_time_start := h_timeStart c,
             j_node := guardAgainstDefaultNodeAddress (h_node c), j_updated_at := now\<rparr>)) (db_jobs s)\<rparr>))"

section \<open>Every unfinished job\<close>

definition BULK_WRITE_BATCH_SIZE :: nat where "BULK_WRITE_BATCH_SIZE = 999"

definition bulk_update :: "ms \<Rightarrow> job_state \<Rightarrow> chain_job \<Rightarrow> db \<Rightarrow> db" where
  "bulk_update now st c s = s\<lparr>db_jobs := update_one (\<lambda>j. j_job j = h_address c \<and> unfinished j)
     (\<lambda>j. end_stamp c (j\<lparr>j_state := st, j_time_start := h_timeStart c, j_updated_at := now\<rparr>)) (db_jobs s)\<rparr>"

definition bulkWrite :: "(db \<Rightarrow> db) list \<Rightarrow> db \<Rightarrow> db" where
  "bulkWrite batch s = fold (\<lambda>f. f) batch s"

text \<open>The loop over the chain's jobs: the batch so far, written when it is full. None: a state is
  unknown and the loop throws, the batch so far unwritten.\<close>

fun reconcile_loop :: "ms \<Rightarrow> chain_job list \<Rightarrow> (db \<Rightarrow> db) list \<Rightarrow> db \<Rightarrow> bool \<times> db" where
  "reconcile_loop now [] batch s = (True, bulkWrite batch s)"
| "reconcile_loop now (c # cs) batch s =
     (case convertJobState (h_state c) of
        None \<Rightarrow> (False, s)
      | Some st \<Rightarrow>
          if st = J_QUEUED then reconcile_loop now cs batch s
          else (let batch1 = batch @ [bulk_update now st c]
                in if length batch1 = BULK_WRITE_BATCH_SIZE then reconcile_loop now cs [] (bulkWrite batch1 s)
                   else reconcile_loop now cs batch1 s))"

text \<open>
  One reconciliation: \<open>None\<close> is a chain that cannot be read. It gives whether the next one has
  been scheduled (the last thing it does) and the store.
\<close>

definition updateAllUnfinishedJobs :: "chain_job list option \<Rightarrow> ms \<Rightarrow> db \<Rightarrow> bool \<times> db" where
  "updateAllUnfinishedJobs all now s =
     (case all of None \<Rightarrow> (False, s) | Some jobs \<Rightarrow> reconcile_loop now jobs [] s)"

text \<open>The reconciliations of a listener's life: each is started by the one before it.\<close>

fun reconciliations :: "(chain_job list option \<times> ms) list \<Rightarrow> db \<Rightarrow> nat \<times> db" where
  "reconciliations [] s = (0, s)"
| "reconciliations ((all, now) # rest) s =
     (let (again, s1) = updateAllUnfinishedJobs all now s;
          (n, s2) = (if again then reconciliations rest s1 else (0, s1))
      in (Suc n, s2))"

section \<open>A market changed\<close>

definition findQueuedJobsByMarket :: "address \<Rightarrow> db \<Rightarrow> address list" where
  "findQueuedJobsByMarket market s =
     remdups (map j_job (filter (\<lambda>j. j_market j = Some market \<and> j_state j = J_QUEUED) (db_jobs s)))"

text \<open>
  The jobs of the market that are queued here, not in the market's on-chain queue, and no longer
  on chain: \<open>exists\<close> reads each one's account. None: a read failed, and nothing is written.
\<close>

fun gone_jobs :: "(address \<Rightarrow> bool option) \<Rightarrow> address list \<Rightarrow> address list option" where
  "gone_jobs exists [] = Some []"
| "gone_jobs exists (a # as) =
     (case exists a of
        None \<Rightarrow> None
      | Some b \<Rightarrow> map_option (\<lambda>gs. if b then gs else a # gs) (gone_jobs exists as))"

definition market_gone ::
  "address \<Rightarrow> bool \<Rightarrow> address list \<Rightarrow> (address \<Rightarrow> bool option) \<Rightarrow> db \<Rightarrow> address list" where
  "market_gone market isJobQueue queue exists s =
     (let ours = findQueuedJobsByMarket market s;
          missing = (if isJobQueue \<and> queue \<noteq> [] then filter (\<lambda>a. a \<notin> set queue) ours else ours)
      in nullish (gone_jobs exists missing) [])"

definition stop_gone :: "address list \<Rightarrow> db \<Rightarrow> db" where
  "stop_gone gone s = (if gone = [] then s
     else s\<lparr>db_jobs := update_many (\<lambda>j. j_job j \<in> set gone) (\<lambda>j. j\<lparr>j_state := J_STOPPED\<rparr>) (db_jobs s)\<rparr>)"

text \<open>\<open>between\<close> is what others write while the accounts are read.\<close>

definition onMarketUpdate ::
  "address \<Rightarrow> bool \<Rightarrow> address list \<Rightarrow> (address \<Rightarrow> bool option) \<Rightarrow> (db \<Rightarrow> db) \<Rightarrow> db \<Rightarrow> db" where
  "onMarketUpdate market isJobQueue queue exists between s =
     stop_gone (market_gone market isJobQueue queue exists s) (between s)"

section \<open>What the writes keep\<close>

lemma end_stamp_simps [simp]:
  "j_job (end_stamp c j) = j_job j" "j_state (end_stamp c j) = j_state j" "j_node (end_stamp c j) = j_node j"
  "j_time_start (end_stamp c j) = j_time_start j" "j_updated_at (end_stamp c j) = j_updated_at j"
  by (simp_all add: end_stamp_def)

lemma unfinished_iff: "unfinished j \<longleftrightarrow> job_active j"
  by (cases "j_state j") (simp_all add: unfinished_def)

lemma safe_onJobUpdate: "onJobUpdate c now s = Some s' \<Longrightarrow> safe_step s s'"
  by (auto simp: onJobUpdate_def unfinished_iff simp del: active_job_states_iff
      intro!: safe_update_job split: option.splits)

lemma safe_bulk_update: "safe_step s (bulk_update now st c s)"
  unfolding bulk_update_def by (rule safe_update_job) (auto simp: unfinished_iff simp del: active_job_states_iff)

lemma safe_bulkWrite: "(\<And>f s. f \<in> set batch \<Longrightarrow> safe_step s (f s)) \<Longrightarrow> safe_step s (bulkWrite batch s)"
  unfolding bulkWrite_def
proof (induction batch arbitrary: s)
  case (Cons f batch)
  have "safe_step s (f s)" using Cons.prems by simp
  also have "safe_step (f s) (fold (\<lambda>f. f) batch (f s))" using Cons by simp
  finally show ?case by simp
qed simp

lemma safe_reconcile_loop:
  "(\<And>f s. f \<in> set batch \<Longrightarrow> safe_step s (f s)) \<Longrightarrow> safe_step s (snd (reconcile_loop now cs batch s))"
proof (induction now cs batch s rule: reconcile_loop.induct)
  case (1 now batch s)
  then show ?case by (simp add: safe_bulkWrite)
next
  case (2 now c cs batch s)
  have b: "safe_step u (f u)" if "f \<in> set (batch @ [bulk_update now st c])" for f u st
    using that 2(4) safe_bulk_update by auto
  show ?case
  proof (cases "convertJobState (h_state c)")
    case None
    then show ?thesis by simp
  next
    case (Some st)
    let ?b = "batch @ [bulk_update now st c]"
    show ?thesis
    proof (cases "st = J_QUEUED")
      case True
      with Some 2(1) [OF Some True] 2(4) show ?thesis by simp
    next
      case q: False
      show ?thesis
      proof (cases "length ?b = BULK_WRITE_BATCH_SIZE")
        case True
        have "safe_step s (bulkWrite ?b s)" using b by (rule safe_bulkWrite)
        also have "safe_step \<dots> (snd (reconcile_loop now cs [] (bulkWrite ?b s)))"
          by (rule 2(2) [OF Some q refl True]) simp
        finally show ?thesis using Some q True by simp
      next
        case False
        with Some q 2(3) [OF Some q refl False] b show ?thesis by (simp add: Let_def)
      qed
    qed
  qed
qed

lemma safe_updateAllUnfinishedJobs: "safe_step s (snd (updateAllUnfinishedJobs all now s))"
proof -
  have "safe_step s (snd (reconcile_loop now cs [] s))" for cs by (rule safe_reconcile_loop) simp
  then show ?thesis by (simp add: updateAllUnfinishedJobs_def split: option.split)
qed

section \<open>The batches\<close>

definition running_states :: "chain_job list \<Rightarrow> (job_state \<times> chain_job) list" where
  "running_states cs = filter (\<lambda>(st, c). st \<noteq> J_QUEUED)
     (List.map_filter (\<lambda>c. map_option (\<lambda>st. (st, c)) (convertJobState (h_state c))) cs)"

lemma bulkWrite_append: "bulkWrite (xs @ ys) s = bulkWrite ys (bulkWrite xs s)"
  by (simp add: bulkWrite_def)

lemma reconcile_loop_fold:
  assumes "\<forall>c \<in> set cs. convertJobState (h_state c) \<noteq> None"
  shows "reconcile_loop now cs batch s =
    (True, bulkWrite (map (\<lambda>(st, c). bulk_update now st c) (running_states cs)) (bulkWrite batch s))"
  using assms
proof (induction cs arbitrary: batch s)
  case Nil
  then show ?case by (simp add: running_states_def map_filter_simps bulkWrite_def)
next
  case (Cons c cs)
  then obtain st where st: "convertJobState (h_state c) = Some st" by auto
  then have rs: "running_states (c # cs) = (if st = J_QUEUED then running_states cs else (st, c) # running_states cs)"
    by (simp add: running_states_def map_filter_simps)
  have "bulkWrite [] u = u" "bulkWrite (f # fs) u = bulkWrite fs (f u)" for u f fs by (simp_all add: bulkWrite_def)
  with Cons st rs show ?case by (simp add: Let_def bulkWrite_append)
qed

text \<open>
  Batching the reconciliation changes nothing: when every state the chain reports is known,
  the batches of at most 999 writes leave what writing the jobs one by one in the chain's order
  leaves; whatever the chain reports, a job that has settled is never moved, so its terminal state
  stands.
\<close>

theorem reconcile_batches_agree:
  assumes "\<forall>c \<in> set cs. convertJobState (h_state c) \<noteq> None"
  shows "updateAllUnfinishedJobs (Some cs) now s =
      (True, fold (\<lambda>(st, c). bulk_update now st c) (running_states cs) s) \<and>
    settled_le s (snd (updateAllUnfinishedJobs (Some cs) now s))"
proof -
  have "fold (\<lambda>f. f) (map (\<lambda>(st, c). bulk_update now st c) xs) s = fold (\<lambda>(st, c). bulk_update now st c) xs s" for xs
    by (induction xs arbitrary: s) auto
  moreover have "updateAllUnfinishedJobs (Some cs) now s = reconcile_loop now cs [] s"
    by (simp add: updateAllUnfinishedJobs_def)
  moreover have "settled_le s (snd (updateAllUnfinishedJobs (Some cs) now s))"
    using safe_updateAllUnfinishedJobs by (simp add: safe_step_def)
  ultimately show ?thesis
    using reconcile_loop_fold [OF assms, of now "[]" s] by (simp add: bulkWrite_def)
qed

definition example_chain :: "nat \<Rightarrow> chain_job" where
  "example_chain st = \<lparr>h_address = ''J'', h_state = st, h_timeStart = 10, h_timeEnd = 0, h_node = Some ''N''\<rparr>"

theorem reconcile_batches_agree_witness:
  "fst (updateAllUnfinishedJobs (Some [example_chain 1, example_chain 0]) 5 example_stop_db)"
  using reconcile_batches_agree [of "[example_chain 1, example_chain 0]" 5 example_stop_db]
  by (simp add: example_chain_def convertJobState_def)

text \<open>
  The reconciliation does not survive an error: it schedules the next one only at its very
  end, so the first chain that cannot be read, and the first state it does not know, is the last
  reconciliation of the listener's life.
\<close>

theorem reconciliation_dies_with_its_first_error:
  assumes "\<forall>(all, now) \<in> set ok. \<exists>cs. all = Some cs \<and> (\<forall>c \<in> set cs. convertJobState (h_state c) \<noteq> None)"
    and "failed = None \<or> (\<exists>cs. failed = Some cs \<and> (\<exists>c \<in> set cs. convertJobState (h_state c) = None))"
  shows "fst (reconciliations (ok @ (failed, now) # rest) s) = Suc (length ok)"
  using assms(1)
proof (induction ok arbitrary: s)
  case Nil
  have "\<not> fst (reconcile_loop now cs batch u)" if "\<exists>c \<in> set cs. convertJobState (h_state c) = None" for cs batch u
    using that
  proof (induction cs arbitrary: batch u)
    case (Cons c cs)
    then show ?case by (cases "convertJobState (h_state c)") (auto simp: Let_def)
  qed simp
  then have "\<not> fst (updateAllUnfinishedJobs failed now s)"
    using assms(2) by (cases failed) (simp_all add: updateAllUnfinishedJobs_def)
  then show ?case by (simp add: case_prod_beta)
next
  case (Cons a ok)
  obtain cs t where a: "a = (Some cs, t)" "\<forall>c \<in> set cs. convertJobState (h_state c) \<noteq> None"
    using Cons.prems by auto
  then have "fst (updateAllUnfinishedJobs (Some cs) t s)"
    by (simp add: updateAllUnfinishedJobs_def reconcile_loop_fold)
  with Cons a show ?case by (simp add: case_prod_beta)
qed

theorem reconciliation_dies_with_its_first_error_witness:
  "fst (reconciliations [(Some [example_chain 1], 0), (None, 300000), (Some [example_chain 2], 600000)] example_stop_db) = 2"
  using reconciliation_dies_with_its_first_error [of "[(Some [example_chain 1], 0)]" None 300000
      "[(Some [example_chain 2], 600000)]" example_stop_db]
  by (simp add: example_chain_def convertJobState_def)

text \<open>
  A market update can overwrite a job's end: the stop it writes for a job it found gone is not
  fenced on the job's state, so a job that completed while the accounts were read is turned from
  COMPLETED to STOPPED.
\<close>

theorem market_update_overwrites_completed:
  assumes "j_job j \<in> set (market_gone market isJobQueue queue exists s)"
    and "j \<in> set (db_jobs (between s))" "j_state j = J_COMPLETED" "distinct (map j_job (db_jobs (between s)))"
  shows "j\<lparr>j_state := J_STOPPED\<rparr> \<in> set (db_jobs (onMarketUpdate market isJobQueue queue exists between s)) \<and>
    \<not> settled_le (between s) (onMarketUpdate market isJobQueue queue exists between s)"
proof -
  let ?gone = "market_gone market isJobQueue queue exists s"
  let ?s' = "onMarketUpdate market isJobQueue queue exists between s"
  have js: "db_jobs ?s' = update_many (\<lambda>j. j_job j \<in> set ?gone) (\<lambda>j. j\<lparr>j_state := J_STOPPED\<rparr>) (db_jobs (between s))"
    using assms(1) by (auto simp: onMarketUpdate_def stop_gone_def)
  have m: "j\<lparr>j_state := J_STOPPED\<rparr> \<in> set (db_jobs ?s')"
    unfolding js set_update_many by (rule image_eqI [OF _ assms(2)]) (simp add: assms(1))
  have "j_state j' = J_STOPPED" if "j' \<in> set (db_jobs ?s')" "j_job j' = j_job j" for j'
    using that assms(1) unfolding js set_update_many by (auto split: if_splits)
  with assms(2,3) have "\<not> settled_le (between s) ?s'" by (force simp: settled_le_def)
  with m show ?thesis by blast
qed

definition example_market_db :: db where
  "example_market_db = empty_db\<lparr>db_jobs := [(example_job ''J'' J_QUEUED 1 1)\<lparr>j_market := Some ''M''\<rparr>]\<rparr>"

definition job_completes :: "db \<Rightarrow> db" where
  "job_completes s = s\<lparr>db_jobs := map (\<lambda>j. j\<lparr>j_state := J_COMPLETED\<rparr>) (db_jobs s)\<rparr>"

theorem market_update_overwrites_completed_witness:
  "\<not> settled_le (job_completes example_market_db)
     (onMarketUpdate ''M'' True [] (\<lambda>_. Some False) job_completes example_market_db)"
proof -
  let ?j = "(example_job ''J'' J_COMPLETED 1 1)\<lparr>j_market := Some ''M''\<rparr>"
  have "?j \<in> set (db_jobs (job_completes example_market_db))"
    "distinct (map j_job (db_jobs (job_completes example_market_db)))"
    "j_job ?j \<in> set (market_gone ''M'' True [] (\<lambda>_. Some False) example_market_db)" "j_state ?j = J_COMPLETED"
    by (simp_all add: example_market_db_def job_completes_def market_gone_def findQueuedJobsByMarket_def example_job_def)
  then show ?thesis using market_update_overwrites_completed by blast
qed

text \<open>The reconciliation leaves a job's node as it is: a claim it is the backstop for is recorded
  without its node.\<close>

lemma reconcile_keeps_nodes:
  "map (\<lambda>j. (j_job j, j_node j)) (db_jobs (bulk_update now st c s)) = map (\<lambda>j. (j_job j, j_node j)) (db_jobs s)"
  by (simp add: bulk_update_def map_update_one)

end
