(* ===== verification/Endpoints.thy ===== *)
theory Endpoints
  imports Job_Listeners
begin

text \<open>
  Tunnels and reachability: what FRPS says of a proxy
  (\<open>src/strategies/infinite/frps/parseMetadata.ts\<close>), the status row of a job's op
  (\<open>endpointStatus.ts\<close>), and a deployment's endpoints recomputed from the rows and the
  running jobs (\<open>src/endpoints/deploymentEndpointStatus.ts\<close>).
\<close>

section \<open>Metadata\<close>

text \<open>An entry of \<open>metadatas\<close> (absent, or its keys with their values), merged: of the
  present, non-empty values of a key the last one counts.\<close>

type_synonym metadata = "(string \<times> string option) list option"

definition metadata_pairs :: "metadata list option \<Rightarrow> (string \<times> string) list" where
  "metadata_pairs metadatas =
     List.map_filter (\<lambda>(k, v). if truthy_string v then Some (k, the v) else None)
       (concat (List.map_filter id (nullish metadatas [])))"

definition parseFrpsMetadata :: "metadata list option \<Rightarrow> string \<Rightarrow> string option" where
  "parseFrpsMetadata metadatas = map_of (rev (metadata_pairs metadatas))"

section \<open>The status row of a tunnel\<close>

definition frps_set ::
  "string option \<Rightarrow> frps_state \<Rightarrow> frps_reason option \<Rightarrow> ms \<Rightarrow> frps_endpoint_status \<Rightarrow> frps_endpoint_status" where
  "frps_set dep st reason now f =
     f\<lparr>f_deploymentId := dep, f_state := st, f_reason := reason, f_updated_at := now\<rparr>"

definition recordEndpointState ::
  "address \<Rightarrow> string \<Rightarrow> string option \<Rightarrow> frps_state \<Rightarrow> frps_reason option \<Rightarrow> ms \<Rightarrow> db \<Rightarrow> db" where
  "recordEndpointState job opId dep st reason now s =
     (let flipped = (\<lambda>f. f_job f = job \<and> f_opId f = opId \<and> f_state f \<noteq> st);
          key = (\<lambda>f. f_job f = job \<and> f_opId f = opId)
      in if matches flipped (db_frps s)
         then s\<lparr>db_frps := update_one flipped (\<lambda>f. (frps_set dep st reason now f)\<lparr>f_last_change := now\<rparr>) (db_frps s)\<rparr>
         else if matches key (db_frps s)
         then s\<lparr>db_frps := update_one key (frps_set dep st reason now) (db_frps s)\<rparr>
         else s\<lparr>db_frps := insert_one \<lparr>f_job = job, f_opId = opId, f_deploymentId = dep, f_state = st,
                f_reason = reason, f_last_change = now, f_updated_at = now\<rparr> (db_frps s)\<rparr>)"

section \<open>A deployment's endpoints\<close>

definition computeOnlineOpIds :: "string \<Rightarrow> db \<Rightarrow> string list" where
  "computeOnlineOpIds deploymentId s =
     (let runningJobs = map j_job (filter (\<lambda>j. j_deployment j = deploymentId \<and> j_state j = J_RUNNING) (db_jobs s));
          up = filter (\<lambda>f. f_deploymentId f = Some deploymentId \<and> f_state f = Up) (db_frps s)
      in map f_opId (filter (\<lambda>f. f_job f \<in> set runningJobs) up))"

definition changed_ops :: "string list \<Rightarrow> endpoint list \<Rightarrow> string list" where
  "changed_ops online eps = remdups (map p_opId (filter (\<lambda>p. p_online p \<noteq> (p_opId p \<in> set online)) eps))"

definition set_endpoints :: "string \<Rightarrow> bool \<Rightarrow> deployment_document \<Rightarrow> deployment_document" where
  "set_endpoints opId isOnline d = d\<lparr>d_endpoints :=
     map (\<lambda>p. if p_opId p = opId then p\<lparr>p_online := isOnline\<rparr> else p) (d_endpoints d)\<rparr>"

definition refreshDeploymentEndpointStatus :: "string \<Rightarrow> db \<Rightarrow> db" where
  "refreshDeploymentEndpointStatus deploymentId s =
     (case find_one (\<lambda>d. d_id d = deploymentId) (db_deployments s) of
        None \<Rightarrow> s
      | Some d \<Rightarrow>
          if d_endpoints d = [] then s
          else (let online = computeOnlineOpIds deploymentId s
                in fold (\<lambda>opId. on_deployment (\<lambda>d. d_id d = deploymentId) (set_endpoints opId (opId \<in> set online)))
                     (changed_ops online (d_endpoints d)) s))"

section \<open>The row keeps the last change\<close>

definition frps_key :: "frps_endpoint_status \<Rightarrow> address \<times> string" where
  "frps_key f = (f_job f, f_opId f)"

text \<open>
  A tunnel's row tells when it last flipped: recording a state leaves exactly one row of the
  job's op, in that state with that reason, whose \<open>last_change\<close> is now if the state is new and
  what it was if it is repeated; every other row is as it was.
\<close>

theorem tunnel_row_tracks_flips:
  assumes "distinct (map frps_key (db_frps s))" "s' = recordEndpointState job opId dep st reason now s"
  shows "distinct (map frps_key (db_frps s')) \<and>
    (\<exists>f \<in> set (db_frps s'). frps_key f = (job, opId) \<and> f_state f = st \<and> f_reason f = reason \<and> f_updated_at f = now \<and>
       (case find_one (\<lambda>f. frps_key f = (job, opId)) (db_frps s) of
          Some f0 \<Rightarrow> f_last_change f = (if f_state f0 = st then f_last_change f0 else now)
        | None \<Rightarrow> f_last_change f = now)) \<and>
    filter (\<lambda>f. frps_key f \<noteq> (job, opId)) (db_frps s') = filter (\<lambda>f. frps_key f \<noteq> (job, opId)) (db_frps s)"
proof -
  let ?key = "\<lambda>f. f_job f = job \<and> f_opId f = opId"
  let ?flip = "\<lambda>f. f_job f = job \<and> f_opId f = opId \<and> f_state f \<noteq> st"
  let ?set = "frps_set dep st reason now"
  let ?chg = "\<lambda>f. (?set f)\<lparr>f_last_change := now\<rparr>"
  have keyd: "(\<lambda>f. frps_key f = (job, opId)) = ?key" by (auto simp: frps_key_def)
  have set_simps: "frps_key (?set f) = frps_key f" "frps_key (?chg f) = frps_key f" for f
    by (simp_all add: frps_key_def frps_set_def)
  have others: "filter (\<lambda>f. frps_key f \<noteq> (job, opId)) (update_one P g fs) = filter (\<lambda>f. frps_key f \<noteq> (job, opId)) fs"
    if "\<And>f. P f \<Longrightarrow> frps_key f = (job, opId) \<and> frps_key (g f) = frps_key f" for P g fs
    using that by (induction fs) auto
  note unique = keyed_unique [OF assms(1)]
  show ?thesis
  proof (cases "matches ?key (db_frps s)")
    case True
    then obtain f0 where f0: "f0 \<in> set (db_frps s)" "?key f0" by (auto simp: matches_iff)
    then have k0: "frps_key f0 = (job, opId)" by (simp add: frps_key_def)
    have find: "find_one (\<lambda>f. frps_key f = (job, opId)) (db_frps s) = Some f0"
      using find_one_keyed [OF assms(1) f0(1)] k0 by simp
    have flip: "matches ?flip (db_frps s) \<longleftrightarrow> f_state f0 \<noteq> st"
      using f0 unique [OF _ f0(1)] k0 by (fastforce simp: matches_iff frps_key_def)
    show ?thesis
    proof (cases "f_state f0 = st")
      case False
      then have s': "db_frps s' = update_one ?flip ?chg (db_frps s)"
        using flip by (simp add: assms(2) recordEndpointState_def Let_def)
      have "?chg f0 \<in> set (db_frps s')"
        unfolding s' by (rule update_one_mem [OF assms(1) f0(1)]) (use f0 False k0 in \<open>auto simp: frps_key_def\<close>)
      then have "\<exists>f \<in> set (db_frps s'). frps_key f = (job, opId) \<and> f_state f = st \<and> f_reason f = reason \<and>
          f_updated_at f = now \<and> f_last_change f = now"
        by (rule rev_bexI) (use k0 in \<open>simp add: frps_key_def frps_set_def\<close>)
      moreover have "distinct (map frps_key (db_frps s'))"
        unfolding s' by (rule distinct_update_one) (simp_all add: assms(1) set_simps)
      moreover have "filter (\<lambda>f. frps_key f \<noteq> (job, opId)) (db_frps s') = filter (\<lambda>f. frps_key f \<noteq> (job, opId)) (db_frps s)"
        unfolding s' by (rule others) (simp add: set_simps, simp add: frps_key_def)
      ultimately show ?thesis using find False by simp
    next
      case same: True
      then have s': "db_frps s' = update_one ?key ?set (db_frps s)"
        using flip True by (simp add: assms(2) recordEndpointState_def Let_def)
      have "?set f0 \<in> set (db_frps s')"
        unfolding s' by (rule update_one_mem [OF assms(1) f0(1)]) (use f0 k0 in \<open>auto simp: frps_key_def\<close>)
      then have "\<exists>f \<in> set (db_frps s'). frps_key f = (job, opId) \<and> f_state f = st \<and> f_reason f = reason \<and>
          f_updated_at f = now \<and> f_last_change f = f_last_change f0"
        by (rule rev_bexI) (use k0 in \<open>simp add: frps_key_def frps_set_def\<close>)
      moreover have "distinct (map frps_key (db_frps s'))"
        unfolding s' by (rule distinct_update_one) (simp_all add: assms(1) set_simps)
      moreover have "filter (\<lambda>f. frps_key f \<noteq> (job, opId)) (db_frps s') = filter (\<lambda>f. frps_key f \<noteq> (job, opId)) (db_frps s)"
        unfolding s' by (rule others) (simp add: set_simps, simp add: frps_key_def)
      ultimately show ?thesis using find same by simp
    qed
  next
    case False
    then have none: "\<forall>f \<in> set (db_frps s). frps_key f \<noteq> (job, opId)" by (auto simp: matches_iff frps_key_def)
    then have find: "find_one (\<lambda>f. frps_key f = (job, opId)) (db_frps s) = None" by (simp add: find_one_None_iff)
    have "\<not> matches ?flip (db_frps s)" using False by (auto simp: matches_iff)
    then have s': "db_frps s' = db_frps s @ [\<lparr>f_job = job, f_opId = opId, f_deploymentId = dep, f_state = st,
        f_reason = reason, f_last_change = now, f_updated_at = now\<rparr>]"
      using False by (simp add: assms(2) recordEndpointState_def Let_def insert_one_def)
    then show ?thesis using assms(1) none find
      by (auto simp: frps_key_def image_iff)
  qed
qed

definition example_row :: "address \<Rightarrow> frps_state \<Rightarrow> frps_endpoint_status" where
  "example_row job st = \<lparr>f_job = job, f_opId = ''op'', f_deploymentId = Some ''d'', f_state = st,
     f_reason = None, f_last_change = 1, f_updated_at = 1\<rparr>"

theorem tunnel_row_tracks_flips_witness:
  "\<exists>f \<in> set (db_frps (recordEndpointState ''J'' ''op'' (Some ''d'') Up None 9 (empty_db\<lparr>db_frps := [example_row ''J'' Up]\<rparr>))).
     f_last_change f = 1 \<and> f_updated_at f = 9"
proof -
  have "distinct (map frps_key (db_frps (empty_db\<lparr>db_frps := [example_row ''J'' Up]\<rparr>)))" by simp
  from tunnel_row_tracks_flips [OF this refl, of "''J''" "''op''" "Some ''d''" Up None 9]
  show ?thesis by (auto simp: find_one_def example_row_def frps_key_def)
qed

section \<open>The endpoints are what the rows and the jobs say\<close>

lemma update_one_id: "(\<And>x. P x \<Longrightarrow> f x = x) \<Longrightarrow> update_one P f c = c"
  by (induction c) auto

lemma update_one_update_one: "(\<And>x. P x \<Longrightarrow> P (g x)) \<Longrightarrow> update_one P f (update_one P g c) = update_one P (\<lambda>x. f (g x)) c"
  by (induction c) auto

lemma fold_on_deployment:
  assumes "\<And>x d. P d \<Longrightarrow> P (g x d)"
  shows "fold (\<lambda>x. on_deployment P (g x)) xs s = on_deployment P (fold g xs) s"
proof (induction xs arbitrary: s)
  case Nil
  have "update_one P id (db_deployments s) = db_deployments s" by (rule update_one_id) simp
  then show ?case by (simp add: on_deployment_def id_def)
next
  case (Cons x xs)
  then show ?case using assms by (simp add: on_deployment_def update_one_update_one)
qed

lemma fold_set_endpoints:
  "fold (\<lambda>opId. set_endpoints opId (opId \<in> A)) ops d = d\<lparr>d_endpoints :=
     map (\<lambda>p. if p_opId p \<in> set ops then p\<lparr>p_online := p_opId p \<in> A\<rparr> else p) (d_endpoints d)\<rparr>"
  by (induction ops arbitrary: d) (auto simp: set_endpoints_def)

lemma changed_ops_same:
  assumes "p \<in> set ps"
  shows "(if p_opId p \<in> set (changed_ops online ps) then p\<lparr>p_online := p_opId p \<in> set online\<rparr> else p) =
    p\<lparr>p_online := p_opId p \<in> set online\<rparr>"
proof (cases "p_online p = (p_opId p \<in> set online)")
  case True
  then have "p\<lparr>p_online := p_opId p \<in> set online\<rparr> = p" by (cases p) simp
  then show ?thesis by simp
next
  case False
  then have "p_opId p \<in> set (changed_ops online ps)" using assms by (auto simp: changed_ops_def)
  then show ?thesis by simp
qed

lemma fold_set_changed:
  "fold (\<lambda>opId. set_endpoints opId (opId \<in> set online)) (changed_ops online (d_endpoints d)) d =
     d\<lparr>d_endpoints := map (\<lambda>p. p\<lparr>p_online := p_opId p \<in> set online\<rparr>) (d_endpoints d)\<rparr>"
proof -
  have "(if p_opId p \<in> set (changed_ops online (d_endpoints d)) then p\<lparr>p_online := p_opId p \<in> set online\<rparr> else p) =
      p\<lparr>p_online := p_opId p \<in> set online\<rparr>" if "p \<in> set (d_endpoints d)" for p
    using that by (rule changed_ops_same)
  then show ?thesis unfolding fold_set_endpoints by simp
qed

text \<open>
  A deployment's endpoints are recomputed, never toggled: after a refresh each endpoint of the
  deployment is online exactly if a running job of it has its op's tunnel up, nothing else of the
  deployment and no other document has changed, and refreshing again changes nothing.
\<close>

theorem refresh_recomputes:
  assumes "distinct (map d_id (db_deployments s))" "d \<in> set (db_deployments s)"
    and "s' = refreshDeploymentEndpointStatus (d_id d) s"
  shows "find_one (\<lambda>x. d_id x = d_id d) (db_deployments s') =
      Some (d\<lparr>d_endpoints := map (\<lambda>p. p\<lparr>p_online := p_opId p \<in> set (computeOnlineOpIds (d_id d) s)\<rparr>) (d_endpoints d)\<rparr>) \<and>
    filter (\<lambda>x. d_id x \<noteq> d_id d) (db_deployments s') = filter (\<lambda>x. d_id x \<noteq> d_id d) (db_deployments s) \<and>
    s'\<lparr>db_deployments := []\<rparr> = s\<lparr>db_deployments := []\<rparr> \<and>
    refreshDeploymentEndpointStatus (d_id d) s' = s'"
proof -
  let ?P = "\<lambda>x. d_id x = d_id d"
  let ?online = "computeOnlineOpIds (d_id d) s"
  let ?new = "\<lambda>d. d\<lparr>d_endpoints := map (\<lambda>p. p\<lparr>p_online := p_opId p \<in> set ?online\<rparr>) (d_endpoints d)\<rparr>"
  let ?f = "fold (\<lambda>opId. set_endpoints opId (opId \<in> set ?online)) (changed_ops ?online (d_endpoints d))"
  have find: "find_one ?P (db_deployments s) = Some d" by (rule find_one_keyed [OF assms(1,2) refl])
  have keep: "\<And>x u. ?P u \<Longrightarrow> ?P (set_endpoints x b u)" for b by (simp add: set_endpoints_def)
  have s': "s' = on_deployment ?P ?f s"
  proof (cases "d_endpoints d = []")
    case True
    then have "?f = id" by (auto simp: changed_ops_def)
    moreover have "update_one ?P id (db_deployments s) = db_deployments s" by (rule update_one_id) simp
    ultimately show ?thesis using True find
      by (simp add: assms(3) refreshDeploymentEndpointStatus_def on_deployment_def)
  next
    case False
    with find show ?thesis
      using fold_on_deployment [of ?P "\<lambda>opId. set_endpoints opId (opId \<in> set ?online)"] keep
      by (simp add: assms(3) refreshDeploymentEndpointStatus_def Let_def)
  qed
  have fid: "d_id (?f u) = d_id u" for u by (simp add: fold_set_endpoints)
  have new: "?f d = ?new d" by (rule fold_set_changed)
  have d1: "distinct (map d_id (db_deployments s'))"
    unfolding s' using assms(1) fid by (simp add: distinct_update_one)
  have "?f d \<in> set (db_deployments s')"
    unfolding s' on_deployment_frame by (rule update_one_mem [OF assms(1,2)]) simp_all
  then have find': "find_one ?P (db_deployments s') = Some (?new d)"
    using find_one_keyed [OF d1] new by fastforce
  have oth: "filter (\<lambda>x. d_id x \<noteq> d_id d) (update_one ?P ?f ds) = filter (\<lambda>x. d_id x \<noteq> d_id d) ds" for ds
    using fid by (induction ds) auto
  have online': "computeOnlineOpIds (d_id d) s' = ?online"
    by (simp add: s' computeOnlineOpIds_def)
  have "changed_ops ?online (d_endpoints (?new d)) = []"
    by (simp add: changed_ops_def filter_empty_conv)
  then have "refreshDeploymentEndpointStatus (d_id d) s' = s'"
    using find' online' by (simp add: refreshDeploymentEndpointStatus_def)
  with find' oth show ?thesis by (simp add: s' on_deployment_def)
qed

definition endpoint_deployment :: deployment_document where
  "endpoint_deployment = (blank_deployment ''d'' ''o'' RUNNING)\<lparr>d_endpoints :=
     [\<lparr>p_opId = ''op'', p_port = Port_number 0, p_url = ''u'', p_online = False\<rparr>]\<rparr>"

theorem refresh_recomputes_witness:
  "\<exists>d'. find_one (\<lambda>x. d_id x = ''d'') (db_deployments (refreshDeploymentEndpointStatus ''d''
     (empty_db\<lparr>db_deployments := [endpoint_deployment], db_frps := [example_row ''J'' Up],
        db_jobs := [example_job ''J'' J_RUNNING 1 1]\<rparr>))) = Some d' \<and> map p_online (d_endpoints d') = [True]"
proof -
  let ?s = "empty_db\<lparr>db_deployments := [endpoint_deployment], db_frps := [example_row ''J'' Up],
        db_jobs := [example_job ''J'' J_RUNNING 1 1]\<rparr>"
  have i: "d_id endpoint_deployment = ''d''" by (simp add: endpoint_deployment_def)
  have "distinct (map d_id (db_deployments ?s))" "endpoint_deployment \<in> set (db_deployments ?s)" by simp_all
  from refresh_recomputes [OF this refl] show ?thesis
    unfolding i by (simp add: endpoint_deployment_def computeOnlineOpIds_def example_row_def)
qed

section \<open>The worker's invariants\<close>

lemma safe_recordEndpointState: "safe_step s (recordEndpointState job opId dep st reason now s)"
  by (rule safe_same) (simp_all add: recordEndpointState_def Let_def store_wf_def)

lemma safe_refresh: "safe_step s (refreshDeploymentEndpointStatus i s)"
proof -
  have "safe_step u (fold (\<lambda>x. on_deployment (\<lambda>d. d_id d = i) (set_endpoints x (x \<in> A))) xs u)" for u A xs
  proof (induction xs arbitrary: u)
    case (Cons x xs)
    have "safe_step u (on_deployment (\<lambda>d. d_id d = i) (set_endpoints x (x \<in> A)) u)"
      by (rule safe_on_deployment) (simp_all add: set_endpoints_def)
    also note Cons
    finally show ?case by simp
  qed simp
  then show ?thesis by (simp add: refreshDeploymentEndpointStatus_def Let_def split: option.split)
qed

end
