(* ===== verification/Startup.thy ===== *)
theory Startup
  imports Endpoints
begin

text \<open>
  The startup deadline of an INFINITE deployment's job and its tunnel
  (\<open>src/strategies/infinite/utils/armStartupDeadline.ts\<close>,
  \<open>src/strategies/infinite/frps/registerHandler.ts\<close>, \<open>unregisterHandler.ts\<close>): each handler as
  the sequence of its database operations, and the race of the two handlers that meet on one job,
  operation by operation.
\<close>

definition isActiveInfiniteDeployment :: "deployment_document \<Rightarrow> bool" where
  "isActiveInfiniteDeployment d \<longleftrightarrow> d_status d = RUNNING \<and> d_strategy d = INFINITE"

definition job_stop :: "address \<Rightarrow> schedule_options" where
  "job_stop job = no_options\<lparr>o_job := Some job, o_idempotent := True\<rparr>"

section \<open>Disarming\<close>

text \<open>The pending STOPs of the job whose due time has not come.\<close>

definition cancellable :: "string \<Rightarrow> address \<Rightarrow> ms \<Rightarrow> task_document \<Rightarrow> bool" where
  "cancellable deploymentId job now t \<longleftrightarrow> t_task t = STOP \<and> t_deploymentId t = deploymentId \<and>
     t_job t = Some job \<and> t_status t = Some PENDING \<and> now < t_due_at t"

definition cancel_stop :: "string \<Rightarrow> address \<Rightarrow> ms \<Rightarrow> db \<Rightarrow> nat \<times> db" where
  "cancel_stop deploymentId job now s = tasks_delete (Some STOP) (cancellable deploymentId job now) s"

definition is_job_of :: "string \<Rightarrow> address \<Rightarrow> jobs_document \<Rightarrow> bool" where
  "is_job_of deploymentId job j \<longleftrightarrow> j_job j = job \<and> j_deployment j = deploymentId"

text \<open>\<open>findOneAndUpdate\<close> with the document before: whether the marker was there.\<close>

definition clear_marker :: "string \<Rightarrow> address \<Rightarrow> db \<Rightarrow> bool \<times> db" where
  "clear_marker deploymentId job s =
     ((case find_one (is_job_of deploymentId job) (db_jobs s) of
         None \<Rightarrow> False | Some j \<Rightarrow> j_startup_deadline j \<noteq> None),
      s\<lparr>db_jobs := update_one (is_job_of deploymentId job) (\<lambda>j. j\<lparr>j_startup_deadline := None\<rparr>) (db_jobs s)\<rparr>)"

definition disarmStartupDeadline :: "string \<Rightarrow> address \<Rightarrow> ms \<Rightarrow> db \<Rightarrow> (bool \<times> bool) \<times> db" where
  "disarmStartupDeadline deploymentId job now s =
     (let (deletedCount, s1) = cancel_stop deploymentId job now s
      in if deletedCount = 0 then ((False, False), s1)
         else (let (startup, s2) = clear_marker deploymentId job s1 in ((True, startup), s2)))"

section \<open>Arming\<close>

definition set_marker :: "string \<Rightarrow> address \<Rightarrow> ms \<Rightarrow> db \<Rightarrow> db" where
  "set_marker deploymentId job due s =
     s\<lparr>db_jobs := update_one (is_job_of deploymentId job) (\<lambda>j. j\<lparr>j_startup_deadline := Some due\<rparr>) (db_jobs s)\<rparr>"

definition tunnel_up :: "address \<Rightarrow> db \<Rightarrow> bool" where
  "tunnel_up job s \<longleftrightarrow> matches (\<lambda>f. f_job f = job \<and> f_state f = Up) (db_frps s)"

definition startup_due :: "int \<Rightarrow> ms \<Rightarrow> ms" where
  "startup_due startup_timeout now = now + startup_timeout * 60000"

definition arm_stop :: "deployment_document \<Rightarrow> address \<Rightarrow> ms \<Rightarrow> ms \<Rightarrow> db \<Rightarrow> bool \<times> db" where
  "arm_stop d job due now s = scheduleTask STOP (d_id d) (d_status d) due now (job_stop job) s"

definition armStartupDeadline :: "deployment_document \<Rightarrow> address \<Rightarrow> ms \<Rightarrow> db \<Rightarrow> db" where
  "armStartupDeadline d job now s =
     (if nullish (d_startup_timeout d) 0 = 0 \<or> d_endpoints d = [] then s
      else (let due_at = startup_due (the (d_startup_timeout d)) now;
                (created, s1) = arm_stop d job due_at now s
            in if \<not> created then s1
               else (let s2 = set_marker (d_id d) job due_at s1
                     in if \<not> tunnel_up job s2 then s2
                        else snd (disarmStartupDeadline (d_id d) job now s2))))"

section \<open>A tunnel registers\<close>

definition record_up :: "(string \<Rightarrow> string option) \<Rightarrow> ms \<Rightarrow> db \<Rightarrow> db" where
  "record_up m now s =
     (case (m ''jobId'', m ''opId'') of
        (Some jobId, Some opId) \<Rightarrow> recordEndpointState jobId opId (m ''deploymentId'') Up None now s
      | _ \<Rightarrow> s)"

definition recovered_event :: "string \<Rightarrow> address \<Rightarrow> ms \<Rightarrow> event_document" where
  "recovered_event deploymentId jobId now = deployment_event deploymentId ''FRPS_TUNNEL_RECOVERED''
     (''Job '' @ jobId @ '' reconnected its network tunnel; the pending stop was cancelled.'') None now"

definition frpsRegisterHandler :: "metadata list option \<Rightarrow> ms \<Rightarrow> db \<Rightarrow> db" where
  "frpsRegisterHandler metadatas now s =
     (let m = parseFrpsMetadata metadatas;
          s1 = record_up m now s
      in case (m ''deploymentId'', m ''jobId'') of
           (Some deploymentId, Some jobId) \<Rightarrow>
             (let s2 = refreshDeploymentEndpointStatus deploymentId s1;
                  ((cancelled, startup), s3) = disarmStartupDeadline deploymentId jobId now s2
              in if \<not> cancelled \<or> startup then s3
                 else insert_event (recovered_event deploymentId jobId now) s3)
         | _ \<Rightarrow> s1)"

section \<open>A tunnel goes\<close>

definition show_int :: "int \<Rightarrow> string" where
  "show_int i = (if i < 0 then CHR ''-'' # show_nat (nat (- i)) else show_nat (nat i))"

definition lost_event :: "string \<Rightarrow> address \<Rightarrow> int \<Rightarrow> ms \<Rightarrow> event_document" where
  "lost_event deploymentId jobId graceMs now = deployment_event deploymentId ''FRPS_TUNNEL_LOST''
     (''Job '' @ jobId @ '' became unreachable and will be stopped and replaced in '' @
      show_int (js_round (of_int graceMs / 1000)) @ ''s if it does not recover.'') None now"

definition record_down :: "(string \<Rightarrow> string option) \<Rightarrow> frps_reason option \<Rightarrow> ms \<Rightarrow> db \<Rightarrow> db" where
  "record_down m reason now s =
     (let s1 = (case (m ''jobId'', m ''opId'') of
            (Some jobId, Some opId) \<Rightarrow> recordEndpointState jobId opId (m ''deploymentId'') Down reason now s
          | _ \<Rightarrow> s)
      in case m ''deploymentId'' of Some deploymentId \<Rightarrow> refreshDeploymentEndpointStatus deploymentId s1 | None \<Rightarrow> s1)"

text \<open>The deployment the lost tunnel's job is to be stopped for, if it is one to stop.\<close>

definition stoppable :: "(string \<Rightarrow> string option) \<Rightarrow> db \<Rightarrow> (deployment_document \<times> address) option" where
  "stoppable m s =
     (case (m ''deploymentId'', m ''jobId'') of
        (Some deploymentId, Some jobId) \<Rightarrow>
          (case find_one (\<lambda>d. d_id d = deploymentId) (db_deployments s) of
             None \<Rightarrow> None
           | Some d \<Rightarrow>
               if \<not> isActiveInfiniteDeployment d then None
               else (case find_one (is_job_of deploymentId jobId) (db_jobs s) of
                       None \<Rightarrow> None
                     | Some j \<Rightarrow> if job_active j then Some (d, jobId) else None))
      | _ \<Rightarrow> None)"

definition frpsUnregisterHandler ::
  "worker_config \<Rightarrow> metadata list option \<Rightarrow> frps_reason option \<Rightarrow> ms \<Rightarrow> db \<Rightarrow> db" where
  "frpsUnregisterHandler cfg metadatas reason now s =
     (let m = parseFrpsMetadata metadatas;
          s1 = record_down m reason now s
      in if reason \<noteq> Some Lost then s1
         else (case stoppable m s1 of
                 None \<Rightarrow> s1
               | Some (d, jobId) \<Rightarrow>
                   (let graceMs = frps_unhealthy_grace_ms cfg;
                        (created, s2) = scheduleTask STOP (d_id d) (d_status d) (now + graceMs) now (job_stop jobId) s1
                    in if \<not> created then s2
                       else insert_event (lost_event (d_id d) jobId graceMs now) s2)))"

section \<open>The two handlers, operation by operation\<close>

text \<open>
  Where each handler is: before its next operation. \<open>A_online\<close>: the tunnel was read up and the
  stop is to be cancelled; \<open>A_cancelled\<close>, \<open>R_cancelled\<close>: it was, and the marker is to be cleared.
\<close>

datatype arm_pc = A_start | A_created | A_marked | A_online | A_cancelled | A_done
datatype register_pc = R_start | R_recorded | R_refreshed | R_cancelled | R_cleared bool | R_done

record race =
  rc_db :: db
  rc_arm :: arm_pc
  rc_register :: register_pc

definition arm_step :: "deployment_document \<Rightarrow> address \<Rightarrow> ms \<Rightarrow> ms \<Rightarrow> race \<Rightarrow> race" where
  "arm_step d job due now r =
     (let s = rc_db r
      in case rc_arm r of
           A_start \<Rightarrow> (let (created, s1) = arm_stop d job due now s
                      in r\<lparr>rc_db := s1, rc_arm := if created then A_created else A_done\<rparr>)
         | A_created \<Rightarrow> r\<lparr>rc_db := set_marker (d_id d) job due s, rc_arm := A_marked\<rparr>
         | A_marked \<Rightarrow> r\<lparr>rc_arm := if tunnel_up job s then A_online else A_done\<rparr>
         | A_online \<Rightarrow> (let (n, s1) = cancel_stop (d_id d) job now s
                       in r\<lparr>rc_db := s1, rc_arm := if n = 0 then A_done else A_cancelled\<rparr>)
         | A_cancelled \<Rightarrow> r\<lparr>rc_db := snd (clear_marker (d_id d) job s), rc_arm := A_done\<rparr>
         | A_done \<Rightarrow> r)"

definition register_step :: "string \<Rightarrow> address \<Rightarrow> string \<Rightarrow> ms \<Rightarrow> race \<Rightarrow> race" where
  "register_step dep job opId now r =
     (let s = rc_db r
      in case rc_register r of
           R_start \<Rightarrow> r\<lparr>rc_db := recordEndpointState job opId (Some dep) Up None now s, rc_register := R_recorded\<rparr>
         | R_recorded \<Rightarrow> r\<lparr>rc_db := refreshDeploymentEndpointStatus dep s, rc_register := R_refreshed\<rparr>
         | R_refreshed \<Rightarrow> (let (n, s1) = cancel_stop dep job now s
                          in r\<lparr>rc_db := s1, rc_register := if n = 0 then R_done else R_cancelled\<rparr>)
         | R_cancelled \<Rightarrow> (let (startup, s1) = clear_marker dep job s
                          in r\<lparr>rc_db := s1, rc_register := R_cleared startup\<rparr>)
         | R_cleared startup \<Rightarrow> r\<lparr>rc_db := if startup then s else insert_event (recovered_event dep job now) s,
                                 rc_register := R_done\<rparr>
         | R_done \<Rightarrow> r)"

text \<open>Left alone, the operations are the handlers.\<close>

lemma arm_steps_are_the_handler:
  assumes "d_startup_timeout d = Some t" "t \<noteq> 0" "d_endpoints d \<noteq> []" "due = startup_due t now"
  shows "((arm_step d job due now) ^^ 5) \<lparr>rc_db = s, rc_arm = A_start, rc_register = q\<rparr> =
    \<lparr>rc_db = armStartupDeadline d job now s, rc_arm = A_done, rc_register = q\<rparr>"
proof -
  obtain c s1 where a: "arm_stop d job due now s = (c, s1)" by (rule prod.exhaust)
  let ?s2 = "set_marker (d_id d) job due s1"
  obtain n s3 where k: "cancel_stop (d_id d) job now ?s2 = (n, s3)" by (rule prod.exhaust)
  obtain b s4 where m: "clear_marker (d_id d) job s3 = (b, s4)" by (rule prod.exhaust)
  have "armStartupDeadline d job now s =
      (if \<not> c then s1 else if \<not> tunnel_up job ?s2 then ?s2 else if n = 0 then s3 else s4)"
    using a k by (simp add: armStartupDeadline_def disarmStartupDeadline_def m assms(1-3) assms(4) [symmetric])
  then show ?thesis
    by (cases c; cases "tunnel_up job ?s2"; cases "n = 0") (simp_all add: eval_nat_numeral arm_step_def a k m)
qed

lemma register_steps_are_the_handler:
  assumes "parseFrpsMetadata metadatas = [''deploymentId'' \<mapsto> dep, ''jobId'' \<mapsto> job, ''opId'' \<mapsto> opId]"
  shows "((register_step dep job opId now) ^^ 5) \<lparr>rc_db = s, rc_arm = q, rc_register = R_start\<rparr> =
    \<lparr>rc_db = frpsRegisterHandler metadatas now s, rc_arm = q, rc_register = R_done\<rparr>"
proof -
  let ?m = "parseFrpsMetadata metadatas"
  have m: "?m ''deploymentId'' = Some dep" "?m ''jobId'' = Some job" "?m ''opId'' = Some opId"
    using assms by simp_all
  let ?s1 = "recordEndpointState job opId (Some dep) Up None now s"
  let ?s2 = "refreshDeploymentEndpointStatus dep ?s1"
  obtain n s3 where c: "cancel_stop dep job now ?s2 = (n, s3)" by (rule prod.exhaust)
  obtain startup s4 where k: "clear_marker dep job s3 = (startup, s4)" by (rule prod.exhaust)
  have "frpsRegisterHandler metadatas now s =
      (if n = 0 then s3 else if startup then s4 else insert_event (recovered_event dep job now) s4)"
    unfolding frpsRegisterHandler_def record_up_def disarmStartupDeadline_def Let_def m option.case c prod.case
    by (simp add: k)
  then show ?thesis by (simp add: eval_nat_numeral register_step_def c k)
qed

text \<open>
  What others do meanwhile: anything that neither writes the job's tunnel rows nor adds a STOP of
  the job that is due at the deadline or after it.
\<close>

definition armed :: "string \<Rightarrow> address \<Rightarrow> ms \<Rightarrow> db \<Rightarrow> bool" where
  "armed dep job due s \<longleftrightarrow> (\<exists>t \<in> set (db_tasks s). t_task t = STOP \<and> t_deploymentId t = dep \<and>
     t_job t = Some job \<and> t_status t = Some PENDING \<and> due \<le> t_due_at t)"

inductive race_step :: "deployment_document \<Rightarrow> address \<Rightarrow> string \<Rightarrow> ms \<Rightarrow> race \<Rightarrow> race \<Rightarrow> bool"
  for d job opId due where
  race_arm: "now < due \<Longrightarrow> race_step d job opId due r (arm_step d job due now r)"
| race_register: "now < due \<Longrightarrow> race_step d job opId due r (register_step (d_id d) job opId now r)"
| race_others: "(tunnel_up job (rc_db r) \<Longrightarrow> tunnel_up job s') \<Longrightarrow>
    (armed (d_id d) job due s' \<Longrightarrow> armed (d_id d) job due (rc_db r)) \<Longrightarrow>
    race_step d job opId due r (r\<lparr>rc_db := s'\<rparr>)"

inductive_cases race_stepE: "race_step d job opId due r r'"

definition race_inv :: "deployment_document \<Rightarrow> address \<Rightarrow> ms \<Rightarrow> race \<Rightarrow> bool" where
  "race_inv d job due r \<longleftrightarrow>
     (rc_register r \<noteq> R_start \<longrightarrow> tunnel_up job (rc_db r)) \<and>
     (rc_register r \<in> {R_cancelled, R_cleared True, R_cleared False, R_done} \<and> armed (d_id d) job due (rc_db r) \<longrightarrow>
        rc_arm r \<in> {A_created, A_marked, A_online})"

lemma tunnel_up_cong: "db_frps s = db_frps s' \<Longrightarrow> tunnel_up job s = tunnel_up job s'"
  by (simp add: tunnel_up_def)

lemma armed_cong: "db_tasks s = db_tasks s' \<Longrightarrow> armed dep job due s = armed dep job due s'"
  by (simp add: armed_def)

lemma cancel_disarms: "now < due \<Longrightarrow> \<not> armed dep job due (snd (cancel_stop dep job now s))"
  by (auto simp: armed_def cancel_stop_def cancellable_def)

lemma cancel_armed: "armed dep job due s \<Longrightarrow> now < due \<Longrightarrow> fst (cancel_stop dep job now s) \<noteq> 0"
  unfolding armed_def cancel_stop_def tasks_delete_count count_docs_0_iff cancellable_def by fastforce

lemma update_one_hits:
  assumes "matches P c" "\<And>x. P x \<Longrightarrow> Q (f x)"
  shows "\<exists>x \<in> set (update_one P f c). Q x"
  using assms by (induction c) (auto simp: matches_iff)

lemma record_tunnel_up: "tunnel_up job (recordEndpointState job opId dep Up None now s)"
proof -
  let ?Q = "\<lambda>f. f_job f = job \<and> f_state f = Up"
  note hits = update_one_hits [where Q = ?Q and c = "db_frps s"]
  show ?thesis
    unfolding tunnel_up_def recordEndpointState_def Let_def matches_iff [of ?Q]
    by (auto simp: frps_set_def insert_one_def intro: hits)
qed

lemma race_frame [simp]:
  "tunnel_up job (snd (arm_stop d job' due now s)) = tunnel_up job s"
  "tunnel_up job (set_marker dep job' due s) = tunnel_up job s"
  "tunnel_up job (snd (cancel_stop dep job' now s)) = tunnel_up job s"
  "tunnel_up job (snd (clear_marker dep job' s)) = tunnel_up job s"
  "tunnel_up job (insert_event e s) = tunnel_up job s"
  "armed dep' job due (set_marker dep job' due' s) = armed dep' job due s"
  "armed dep' job due (snd (clear_marker dep job' s)) = armed dep' job due s"
  "armed dep' job due (insert_event e s) = armed dep' job due s"
  "armed dep' job due (recordEndpointState job' opId depo st reason now s) = armed dep' job due s"
  by (rule tunnel_up_cong armed_cong;
      simp add: arm_stop_def set_marker_def cancel_stop_def clear_marker_def recordEndpointState_def Let_def)+

lemma refresh_frame [simp]:
  "db_frps (refreshDeploymentEndpointStatus i s) = db_frps s"
  "db_tasks (refreshDeploymentEndpointStatus i s) = db_tasks s"
  "db_jobs (refreshDeploymentEndpointStatus i s) = db_jobs s"
proof -
  have f: "db_frps (fold (\<lambda>x. on_deployment (P x) (g x)) xs u) = db_frps u"
    "db_tasks (fold (\<lambda>x. on_deployment (P x) (g x)) xs u) = db_tasks u"
    "db_jobs (fold (\<lambda>x. on_deployment (P x) (g x)) xs u) = db_jobs u" for P g u and xs :: "string list"
    by (induction xs arbitrary: u) (simp_all add: on_deployment_def)
  show "db_frps (refreshDeploymentEndpointStatus i s) = db_frps s"
    "db_tasks (refreshDeploymentEndpointStatus i s) = db_tasks s"
    "db_jobs (refreshDeploymentEndpointStatus i s) = db_jobs s"
    by (simp_all add: refreshDeploymentEndpointStatus_def Let_def f split: option.split)
qed

lemma race_inv_arm: "now < due \<Longrightarrow> race_inv d job due r \<Longrightarrow> race_inv d job due (arm_step d job due now r)"
proof -
  assume now: "now < due" and inv: "race_inv d job due r"
  let ?s = "rc_db r"
  show ?thesis
  proof (cases "rc_arm r")
    case A_start
    obtain c s1 where c: "arm_stop d job due now ?s = (c, s1)" by (rule prod.exhaust)
    then have "tunnel_up job s1 = tunnel_up job ?s" by (metis race_frame(1) snd_conv)
    moreover have "\<not> c \<Longrightarrow> s1 = ?s" using scheduleTask_not_created c by (metis arm_stop_def fst_conv snd_conv)
    ultimately show ?thesis using inv A_start c by (auto simp: race_inv_def arm_step_def)
  next
    case A_online
    obtain n s1 where c: "cancel_stop (d_id d) job now ?s = (n, s1)" by (rule prod.exhaust)
    then have "tunnel_up job s1 = tunnel_up job ?s" "\<not> armed (d_id d) job due s1"
      using cancel_disarms [OF now, of "d_id d" job ?s] race_frame(3) [of job "d_id d" job now ?s] by simp_all
    then show ?thesis using inv A_online c by (simp add: race_inv_def arm_step_def)
  qed (use inv in \<open>auto simp: race_inv_def arm_step_def\<close>)
qed

lemma race_inv_register:
  "now < due \<Longrightarrow> race_inv d job due r \<Longrightarrow> race_inv d job due (register_step (d_id d) job opId now r)"
proof -
  assume now: "now < due" and inv: "race_inv d job due r"
  let ?s = "rc_db r"
  show ?thesis
  proof (cases "rc_register r")
    case R_refreshed
    obtain n s1 where c: "cancel_stop (d_id d) job now ?s = (n, s1)" by (rule prod.exhaust)
    then have "tunnel_up job s1 = tunnel_up job ?s" "\<not> armed (d_id d) job due s1"
      using cancel_disarms [OF now, of "d_id d" job ?s] race_frame(3) [of job "d_id d" job now ?s] by simp_all
    then show ?thesis using inv R_refreshed c by (simp add: race_inv_def register_step_def)
  next
    case R_cancelled
    obtain b s1 where c: "clear_marker (d_id d) job ?s = (b, s1)" by (rule prod.exhaust)
    then have "tunnel_up job s1 = tunnel_up job ?s" "armed (d_id d) job due s1 = armed (d_id d) job due ?s"
      using race_frame(4) [of job "d_id d" job ?s] race_frame(7) [of "d_id d" job due "d_id d" job ?s] by simp_all
    then show ?thesis using inv R_cancelled c by (cases b) (simp_all add: race_inv_def register_step_def)
  next
    case R_recorded
    then show ?thesis using inv
      by (auto simp: race_inv_def register_step_def tunnel_up_cong [OF refresh_frame(1)])
  next
    case (R_cleared b)
    then show ?thesis using inv by (cases b) (auto simp: race_inv_def register_step_def)
  qed (use inv in \<open>auto simp: race_inv_def register_step_def record_tunnel_up\<close>)
qed

lemma race_inv_step: "race_step d job opId due r r' \<Longrightarrow> race_inv d job due r \<Longrightarrow> race_inv d job due r'"
  by (erule race_stepE) (auto simp: race_inv_arm race_inv_register, auto simp: race_inv_def)

text \<open>
  C19: the ordering of \<open>armStartupDeadline\<close> closes its race: however the operations of arming a
  job's deadline and of its tunnel registering interleave, with each other and with anything else
  that neither drops the tunnel nor schedules another stop of the job, once both are through no
  stop of the online job that was to fall at the deadline or later is left pending.
\<close>

theorem startup_race_leaves_no_stop:
  assumes "(race_step d job opId due)\<^sup>*\<^sup>* r r'" "rc_register r = R_start"
    and "rc_arm r' = A_done" "rc_register r' = R_done"
  shows "tunnel_up job (rc_db r') \<and> \<not> armed (d_id d) job due (rc_db r')"
proof -
  have "race_inv d job due r" using assms(2) by (simp add: race_inv_def)
  with assms(1) have "race_inv d job due r'"
    by (induction rule: rtranclp_induct) (auto intro: race_inv_step)
  then show ?thesis using assms(3,4) by (auto simp: race_inv_def)
qed


definition startup_job :: jobs_document where
  "startup_job = example_job ''J'' J_RUNNING 1 1"

definition startup_deployment :: deployment_document where
  "startup_deployment = (blank_deployment ''d'' ''o'' RUNNING)\<lparr>d_strategy := INFINITE, d_startup_timeout := Some 1,
     d_endpoints := [\<lparr>p_opId = ''op'', p_port = Port_number 0, p_url = ''u'', p_online = False\<rparr>]\<rparr>"

definition startup_db :: db where
  "startup_db = empty_db\<lparr>db_deployments := [startup_deployment], db_jobs := [startup_job]\<rparr>"

lemma race_arms: "now < due \<Longrightarrow> (race_step d job opId due)\<^sup>*\<^sup>* r (((arm_step d job due now) ^^ n) r)"
  by (induction n) (auto intro: rtranclp.rtrancl_into_rtrancl race_arm)

lemma race_registers:
  "now < due \<Longrightarrow> (race_step d job opId due)\<^sup>*\<^sup>* r (((register_step (d_id d) job opId now) ^^ n) r)"
  by (induction n) (auto intro: rtranclp.rtrancl_into_rtrancl race_register)

theorem startup_race_leaves_no_stop_witness:
  "\<exists>r :: race. rc_arm r = A_done \<and> rc_register r = R_done \<and> tunnel_up ''J'' (rc_db r) \<and>
     \<not> armed ''d'' ''J'' 60000 (rc_db r)"
proof -
  let ?d = startup_deployment
  let ?r0 = "\<lparr>rc_db = startup_db, rc_arm = A_start, rc_register = R_start\<rparr>"
  let ?r1 = "((arm_step ?d ''J'' 60000 0) ^^ 5) ?r0"
  let ?r2 = "((register_step (d_id ?d) ''J'' ''op'' 0) ^^ 5) ?r1"
  have d: "d_id ?d = ''d''" by (simp add: startup_deployment_def)
  have r1: "?r1 = \<lparr>rc_db = armStartupDeadline ?d ''J'' 0 startup_db, rc_arm = A_done, rc_register = R_start\<rparr>"
    by (rule arm_steps_are_the_handler [of _ 1]) (simp_all add: startup_deployment_def startup_due_def)
  let ?ms = "Some [Some [(''deploymentId'', Some ''d''), (''jobId'', Some ''J''), (''opId'', Some ''op'')]]"
  have "parseFrpsMetadata ?ms = [''deploymentId'' \<mapsto> ''d'', ''jobId'' \<mapsto> ''J'', ''opId'' \<mapsto> ''op'']"
    by (simp add: parseFrpsMetadata_def metadata_pairs_def map_filter_simps fun_upd_twist)
  note regs = register_steps_are_the_handler [OF this]
  have r2: "?r2 = \<lparr>rc_db = frpsRegisterHandler ?ms 0 (armStartupDeadline ?d ''J'' 0 startup_db),
      rc_arm = A_done, rc_register = R_done\<rparr>"
    unfolding r1 d by (rule regs)
  have "(race_step ?d ''J'' ''op'' 60000)\<^sup>*\<^sup>* ?r0 ?r2"
    by (rule rtranclp_trans [OF race_arms race_registers]) simp_all
  from startup_race_leaves_no_stop [OF this] r2
  have safe: "tunnel_up ''J'' (rc_db ?r2)" "\<not> armed ''d'' ''J'' 60000 (rc_db ?r2)" by (simp_all add: d)
  obtain r where r: "r = ?r2" by blast
  have "rc_arm r = A_done" "rc_register r = R_done" unfolding r by (simp_all only: r2 race.select_convs)
  with safe [folded r] show ?thesis by blast
qed

section \<open>The marker is outside that ordering\<close>

lemma cancel_twice:
  "fst (cancel_stop dep job now (set_marker dep' job' due (snd (clear_marker dep' job' (snd (cancel_stop dep job now s)))))) = 0"
  "fst (cancel_stop dep job now (set_marker dep' job' due (insert_event e (snd (clear_marker dep' job'
     (snd (cancel_stop dep job now s))))))) = 0"
  unfolding cancel_stop_def tasks_delete_count count_docs_0_iff
  by (auto simp: set_marker_def clear_marker_def)

lemma marker_is_set:
  "matches (is_job_of dep job) (db_jobs s) \<Longrightarrow>
    \<exists>j \<in> set (db_jobs (set_marker dep job due s)). is_job_of dep job j \<and> j_startup_deadline j = Some due"
  unfolding set_marker_def by (simp, rule update_one_hits) (simp_all add: is_job_of_def)

text \<open>
  Only the stop is ordered, not the marker: when a registration falls between the insert of the
  stop and the write of the marker, the stop is cancelled and the healthy, online job keeps a
  \<open>startup_deadline\<close> for good, so that whatever ends it later counts as a startup failure
  (and the registration reports a recovery that never was).
\<close>

theorem healthy_job_keeps_marker:
  assumes "\<not> matches (same_intent s STOP (d_id d) (job_stop job)) (db_tasks s)"
    and "matches (is_job_of (d_id d) job) (db_jobs s)" "now < due"
  shows "\<exists>r. (race_step d job opId due)\<^sup>*\<^sup>* \<lparr>rc_db = s, rc_arm = A_start, rc_register = R_start\<rparr> r \<and>
    rc_arm r = A_done \<and> rc_register r = R_done \<and> tunnel_up job (rc_db r) \<and> \<not> armed (d_id d) job due (rc_db r) \<and>
    (\<exists>j \<in> set (db_jobs (rc_db r)). is_job_of (d_id d) job j \<and> j_startup_deadline j = Some due)"
proof -
  let ?i = "d_id d"
  let ?r0 = "\<lparr>rc_db = s, rc_arm = A_start, rc_register = R_start\<rparr>"
  let ?s1 = "snd (arm_stop d job due now s)"
  let ?s3 = "refreshDeploymentEndpointStatus ?i (recordEndpointState job opId (Some ?i) Up None now ?s1)"
  let ?s4 = "snd (cancel_stop ?i job now ?s3)"
  let ?s5 = "snd (clear_marker ?i job ?s4)"
  let ?s6 = "if fst (clear_marker ?i job ?s4) then ?s5 else insert_event (recovered_event ?i job now) ?s5"
  let ?s7 = "set_marker ?i job due ?s6"
  let ?r1 = "\<lparr>rc_db = ?s1, rc_arm = A_created, rc_register = R_start\<rparr>"
  let ?r2 = "\<lparr>rc_db = ?s6, rc_arm = A_created, rc_register = R_done\<rparr>"
  let ?r3 = "\<lparr>rc_db = snd (cancel_stop ?i job now ?s7), rc_arm = A_done, rc_register = R_done\<rparr>"
  have created: "fst (arm_stop d job due now s)"
    using assms(1) by (simp add: arm_stop_def scheduleTask_created_iff)
  then have r1: "arm_step d job due now ?r0 = ?r1"
    by (simp add: arm_step_def case_prod_beta)
  have "db_tasks ?s1 = db_tasks s @ [scheduled_doc s STOP ?i due now (job_stop job)]"
    using created by (simp add: arm_stop_def scheduleTask_tasks)
  then have "armed ?i job due ?s3"
    by (simp add: armed_def recordEndpointState_def Let_def scheduled_doc_def job_stop_def no_options_def)
  then have n: "fst (cancel_stop ?i job now ?s3) \<noteq> 0" using assms(3) by (rule cancel_armed)
  have r2: "((register_step ?i job opId now) ^^ 5) ?r1 = ?r2"
    using n by (simp add: eval_nat_numeral register_step_def case_prod_beta)
  have "tunnel_up job ?s3"
    unfolding tunnel_up_cong [OF refresh_frame(1)] by (rule record_tunnel_up)
  then have up: "tunnel_up job ?s7" by simp
  have "fst (cancel_stop ?i job now ?s7) = 0" by (simp add: cancel_twice)
  then have r3: "((arm_step d job due now) ^^ 3) ?r2 = ?r3"
    using up by (simp add: eval_nat_numeral arm_step_def case_prod_beta)
  have a: "(race_step d job opId due)\<^sup>*\<^sup>* ?r0 ?r1"
    unfolding r1 [symmetric] by (rule r_into_rtranclp) (rule race_arm [OF assms(3)])
  have b: "(race_step d job opId due)\<^sup>*\<^sup>* ?r1 ?r2" unfolding r2 [symmetric] by (rule race_registers [OF assms(3)])
  have c: "(race_step d job opId due)\<^sup>*\<^sup>* ?r2 ?r3" unfolding r3 [symmetric] by (rule race_arms [OF assms(3)])
  have run: "(race_step d job opId due)\<^sup>*\<^sup>* ?r0 ?r3" by (rule rtranclp_trans [OF a rtranclp_trans [OF b c]])
  have "db_jobs ?s4 = db_jobs s"
    by (simp add: cancel_stop_def recordEndpointState_def Let_def arm_stop_def scheduleTask_frame)
  then have "matches (is_job_of ?i job) (db_jobs ?s5)"
    unfolding clear_marker_def matches_iff [of _ "db_jobs (snd (_, _))"]
    by (simp, intro update_one_hits) (simp_all add: assms(2) is_job_of_def)
  then have "matches (is_job_of ?i job) (db_jobs ?s6)" by simp
  then have "\<exists>j \<in> set (db_jobs ?s7). is_job_of ?i job j \<and> j_startup_deadline j = Some due" by (rule marker_is_set)
  then have "\<exists>j \<in> set (db_jobs (rc_db ?r3)). is_job_of ?i job j \<and> j_startup_deadline j = Some due"
    by (simp add: cancel_stop_def)
  moreover have "tunnel_up job (rc_db ?r3)" using up by simp
  moreover have "\<not> armed ?i job due (rc_db ?r3)" using cancel_disarms [OF assms(3)] by simp
  ultimately show ?thesis using run by (intro exI [of _ ?r3]) simp
qed


theorem healthy_job_keeps_marker_witness:
  "\<exists>r :: race. rc_arm r = A_done \<and> rc_register r = R_done \<and> tunnel_up ''J'' (rc_db r) \<and>
    (\<exists>j \<in> set (db_jobs (rc_db r)). j_job j = ''J'' \<and> j_startup_deadline j = Some 60000)"
proof -
  have i: "d_id startup_deployment = ''d''" by (simp add: startup_deployment_def)
  have "\<not> matches (same_intent startup_db STOP (d_id startup_deployment) (job_stop ''J'')) (db_tasks startup_db)"
    by (simp add: startup_db_def empty_db_def matches_iff)
  moreover have "matches (is_job_of (d_id startup_deployment) ''J'') (db_jobs startup_db)"
    unfolding i by (simp add: startup_db_def startup_job_def is_job_of_def matches_iff)
  ultimately show ?thesis
    using healthy_job_keeps_marker [of startup_db startup_deployment "''J''" 0 60000 "''op''"]
    unfolding is_job_of_def by fastforce
qed

section \<open>A lost tunnel\<close>

lemma record_down_frame [simp]:
  "db_tasks (record_down m reason now s) = db_tasks s" "db_jobs (record_down m reason now s) = db_jobs s"
  by (simp_all add: record_down_def Let_def recordEndpointState_def split: option.split)

text \<open>
  A lost tunnel gets its job a grace window, and only a lost one does: the handler adds at
  most one task, a pending STOP of exactly that job due when the grace ends, and only for a
  queued or running job of a running INFINITE deployment that has no other pending STOP of that kind;
  a graceful teardown, and one with no reason, adds none, and no job is touched.
\<close>

theorem lost_tunnel_gets_a_grace:
  assumes "s' = frpsUnregisterHandler cfg metadatas reason now s"
    and "m = parseFrpsMetadata metadatas" "s1 = record_down m reason now s"
  shows "db_jobs s' = db_jobs s \<and>
    (if \<exists>d job. reason = Some Lost \<and> stoppable m s1 = Some (d, job) \<and>
          \<not> matches (same_intent s1 STOP (d_id d) (job_stop job)) (db_tasks s)
     then \<exists>d job t. stoppable m s1 = Some (d, job) \<and> db_tasks s' = db_tasks s @ [t] \<and>
          t_task t = STOP \<and> t_job t = Some job \<and> t_deploymentId t = d_id d \<and> t_limit t = None \<and>
          t_status t = Some PENDING \<and> t_due_at t = now + frps_unhealthy_grace_ms cfg \<and>
          isActiveInfiniteDeployment d \<and>
          (\<exists>j \<in> set (db_jobs s). j_job j = job \<and> j_deployment j = d_id d \<and> job_active j)
     else db_tasks s' = db_tasks s)"
proof -
  have tasks: "db_tasks s1 = db_tasks s" "db_jobs s1 = db_jobs s" by (simp_all add: assms(3))
  show ?thesis
  proof (cases "reason = Some Lost")
    case False
    then show ?thesis using tasks by (simp add: assms frpsUnregisterHandler_def Let_def)
  next
    case lost: True
    show ?thesis
    proof (cases "stoppable m s1")
      case None
      then have "s' = s1" using lost by (simp add: assms frpsUnregisterHandler_def Let_def)
      then show ?thesis using None tasks by simp
    next
      case (Some x)
      obtain d job where x: "x = (d, job)" by (cases x)
      let ?due = "now + frps_unhealthy_grace_ms cfg"
      obtain c s2 where c: "scheduleTask STOP (d_id d) (d_status d) ?due now (job_stop job) s1 = (c, s2)"
        by (rule prod.exhaust)
      have s': "s' = (if c then insert_event (lost_event (d_id d) job (frps_unhealthy_grace_ms cfg) now) s2 else s2)"
        using Some x c lost by (simp add: assms frpsUnregisterHandler_def Let_def)
      have ci: "c \<longleftrightarrow> \<not> matches (same_intent s1 STOP (d_id d) (job_stop job)) (db_tasks s)"
        using scheduleTask_created_iff [of STOP "d_id d" "d_status d" ?due now "job_stop job" s1] c tasks
        by (simp add: job_stop_def no_options_def)
      have t2: "db_tasks s2 = (if c then db_tasks s @ [scheduled_doc s1 STOP (d_id d) ?due now (job_stop job)] else db_tasks s)"
        using scheduleTask_tasks [of STOP "d_id d" "d_status d" ?due now "job_stop job" s1] c tasks by simp
      have j2: "db_jobs s2 = db_jobs s"
        using scheduleTask_frame [of STOP "d_id d" "d_status d" ?due now "job_stop job" s1] c tasks by simp
      have d: "isActiveInfiniteDeployment d \<and> (\<exists>j \<in> set (db_jobs s). j_job j = job \<and> j_deployment j = d_id d \<and> job_active j)"
        using Some x tasks unfolding stoppable_def
        by (auto split: option.splits if_splits simp: is_job_of_def dest!: find_one_SomeD)
      have opts: "o_job (job_stop job) = Some job" "o_limit (job_stop job) = None"
        by (simp_all add: job_stop_def no_options_def)
      show ?thesis
        using lost Some x s' ci t2 j2 d by (auto simp: scheduled_doc_def opts)
    qed
  qed
qed

theorem lost_tunnel_gets_a_grace_witness:
  "\<exists>t. db_tasks (frpsUnregisterHandler default_worker_config
       (Some [Some [(''deploymentId'', Some ''d''), (''jobId'', Some ''J'')]]) (Some Lost) 5 startup_db) = [t] \<and>
     t_task t = STOP \<and> t_job t = Some ''J'' \<and> t_due_at t = 60005"
proof -
  let ?ms = "Some [Some [(''deploymentId'', Some ''d''), (''jobId'', Some ''J'')]]"
  let ?m = "parseFrpsMetadata ?ms"
  have m: "?m ''deploymentId'' = Some ''d''" "?m ''jobId'' = Some ''J''" "?m ''opId'' = None"
    by (simp_all add: parseFrpsMetadata_def metadata_pairs_def map_filter_def)
  have dep: "d_id startup_deployment = ''d''" "p_online (hd (d_endpoints startup_deployment)) = False"
    "d_endpoints startup_deployment = [hd (d_endpoints startup_deployment)]"
    "isActiveInfiniteDeployment startup_deployment"
    by (simp_all add: startup_deployment_def isActiveInfiniteDeployment_def)
  have "computeOnlineOpIds ''d'' startup_db = []" by (simp add: computeOnlineOpIds_def startup_db_def empty_db_def)
  then have "changed_ops (computeOnlineOpIds ''d'' startup_db) (d_endpoints startup_deployment) = []"
    by (subst dep(3)) (simp add: changed_ops_def dep(2))
  then have r: "record_down ?m (Some Lost) 5 startup_db = startup_db"
    by (simp add: record_down_def m refreshDeploymentEndpointStatus_def startup_db_def find_one_def dep(1) Let_def)
  have st: "stoppable ?m startup_db = Some (startup_deployment, ''J'')"
    by (simp add: stoppable_def m startup_db_def find_one_def dep is_job_of_def startup_job_def)
  have none: "db_tasks startup_db = []" by (simp add: startup_db_def empty_db_def)
  show ?thesis
    using lost_tunnel_gets_a_grace [OF refl refl refl, of default_worker_config ?ms "Some Lost" 5 startup_db]
    unfolding r st none by (auto simp: matches_iff default_worker_config_def)
qed

section \<open>The worker's invariants\<close>

lemma safe_update_one_jobs:
  assumes "\<And>j. P j \<Longrightarrow> j_job (f j) = j_job j" "\<And>j. P j \<Longrightarrow> j_state (f j) = j_state j"
  shows "safe_step s (s\<lparr>db_jobs := update_one P f (db_jobs s)\<rparr>)"
proof -
  have "\<exists>j' \<in> set (update_one P f js). j_job j' = j_job j \<and> j_state j' = j_state j" if "j \<in> set js" for j js
    using that by (induction js) (auto simp: assms)
  then have "settled_le s (s\<lparr>db_jobs := update_one P f (db_jobs s)\<rparr>)" by (simp add: settled_le_def)
  moreover have "store_wf (s\<lparr>db_jobs := update_one P f (db_jobs s)\<rparr>)" if "store_wf s"
    using that assms(1) by (simp add: store_wf_def map_update_one)
  ultimately show ?thesis by (auto simp: safe_step_def archived_le_def)
qed

lemma safe_startup:
  "safe_step s (set_marker dep job due s)" "safe_step s (snd (clear_marker dep job s))"
  "safe_step s (snd (cancel_stop dep job now s))" "safe_step s (snd (arm_stop d job due now s))"
  unfolding set_marker_def clear_marker_def cancel_stop_def arm_stop_def
  by (simp_all add: safe_update_one_jobs safe_tasks_delete safe_scheduleTask)

lemma safe_disarm: "safe_step s (snd (disarmStartupDeadline dep job now s))"
  unfolding disarmStartupDeadline_def Let_def case_prod_beta
  using safe_startup(3) safe_trans [OF safe_startup(3) safe_startup(2)] by simp

lemma safe_arm: "safe_step s (armStartupDeadline d job now s)"
proof -
  let ?due = "startup_due (the (d_startup_timeout d)) now"
  let ?s1 = "snd (arm_stop d job ?due now s)"
  let ?s2 = "set_marker (d_id d) job ?due ?s1"
  have 1: "safe_step s ?s1" by (rule safe_startup)
  have 2: "safe_step s ?s2" using 1 safe_startup(1) by (rule safe_trans)
  have "safe_step s (snd (disarmStartupDeadline (d_id d) job now ?s2))" using 2 safe_disarm by (rule safe_trans)
  with 1 2 show ?thesis by (simp add: armStartupDeadline_def Let_def case_prod_beta)
qed

lemma safe_frps_handlers:
  "safe_step s (frpsRegisterHandler metadatas now s)" "safe_step s (frpsUnregisterHandler cfg metadatas reason now s)"
proof -
  have up: "safe_step s (record_up m now s)" for m
    by (simp add: record_up_def safe_recordEndpointState split: option.split)
  have reg: "safe_step s (snd (disarmStartupDeadline i j now (refreshDeploymentEndpointStatus i (record_up m now s))))" for m i j
    using safe_trans [OF up safe_refresh] safe_disarm by (rule safe_trans)
  show "safe_step s (frpsRegisterHandler metadatas now s)"
    using up reg safe_trans [OF reg safe_insert_event]
    by (simp add: frpsRegisterHandler_def Let_def case_prod_beta split: option.split)
  have down: "safe_step s (record_down m r now s)" for m r
    using safe_recordEndpointState safe_refresh safe_trans [OF safe_recordEndpointState safe_refresh]
    by (simp add: record_down_def Let_def split: option.split)
  show "safe_step s (frpsUnregisterHandler cfg metadatas reason now s)"
    using down safe_trans [OF down safe_scheduleTask] safe_trans [OF safe_trans [OF down safe_scheduleTask] safe_insert_event]
    by (simp add: frpsUnregisterHandler_def Let_def case_prod_beta split: option.split)
qed

end
