(* ===== verification/Cursor.thy ===== *)
theory Cursor
  imports Startup
begin

text \<open>
  Pagination cursors (\<open>src/repositories/filters/cursor.ts\<close>): a JSON object in base64, and what
  of JavaScript they rest on: \<open>Date.toISOString\<close> and back, \<open>JSON.stringify\<close> and
  \<open>JSON.parse\<close>, and \<open>Buffer\<close>'s base64. A string is its UTF-8 bytes here.
\<close>

section \<open>Base64\<close>

definition b64_alphabet :: string where
  "b64_alphabet = ''ABCDEFGHIJKLMNOPQRSTUVWXYZabcdefghijklmnopqrstuvwxyz0123456789+/''"

definition b64_char :: "nat \<Rightarrow> char" where
  "b64_char n = b64_alphabet ! n"

text \<open>The decoder also takes the URL-safe alphabet, and skips what is in neither.\<close>

definition b64_digit :: "char \<Rightarrow> nat option" where
  "b64_digit c = (if c \<in> set b64_alphabet then Some (length (takeWhile (\<lambda>x. x \<noteq> c) b64_alphabet))
     else if c = CHR ''-'' then Some 62 else if c = CHR ''_'' then Some 63 else None)"

fun to_base64 :: "nat list \<Rightarrow> string" where
  "to_base64 [] = []"
| "to_base64 [a] = [b64_char (a div 4), b64_char (a mod 4 * 16), CHR ''='', CHR ''='']"
| "to_base64 [a, b] = [b64_char (a div 4), b64_char (a mod 4 * 16 + b div 16), b64_char (b mod 16 * 4), CHR ''='']"
| "to_base64 (a # b # c # rest) = b64_char (a div 4) # b64_char (a mod 4 * 16 + b div 16) #
     b64_char (b mod 16 * 4 + c div 64) # b64_char (c mod 64) # to_base64 rest"

fun of_sextets :: "nat list \<Rightarrow> nat list" where
  "of_sextets (p # q # r # s # rest) =
     (p * 4 + q div 16) # (q mod 16 * 16 + r div 4) # (r mod 4 * 64 + s) # of_sextets rest"
| "of_sextets [p, q, r] = [p * 4 + q div 16, q mod 16 * 16 + r div 4]"
| "of_sextets [p, q] = [p * 4 + q div 16]"
| "of_sextets [p] = []"
| "of_sextets [] = []"

definition of_base64 :: "string \<Rightarrow> nat list" where
  "of_base64 text = of_sextets (List.map_filter b64_digit text)"

lemma takeWhile_distinct:
  "distinct xs \<Longrightarrow> n < length xs \<Longrightarrow> takeWhile (\<lambda>x. x \<noteq> xs ! n) xs = take n xs"
  by (rule takeWhile_eq_take_P_nth) (auto simp: nth_eq_iff_index_eq)

lemma b64_alphabet_facts: "distinct b64_alphabet" "length b64_alphabet = 64"
  by (simp_all add: b64_alphabet_def)

lemma b64_digit_char [simp]: "n < 64 \<Longrightarrow> b64_digit (b64_char n) = Some n"
  using takeWhile_distinct [OF b64_alphabet_facts(1), of n]
  by (simp add: b64_digit_def b64_char_def b64_alphabet_facts(2))

lemma b64_digit_pad [simp]: "b64_digit (CHR ''='') = None"
  by (simp add: b64_digit_def b64_alphabet_def)

lemma of_to_base64: "list_all (\<lambda>b. b < 256) bs \<Longrightarrow> of_base64 (to_base64 bs) = bs"
  unfolding of_base64_def
proof (induction bs rule: to_base64.induct)
  case (4 a b c rest)
  then have lt: "a div 4 < 64" "a mod 4 * 16 + b div 16 < 64" "b mod 16 * 4 + c div 64 < 64" "c mod 64 < 64"
    by (auto; arith)+
  have "a div 4 * 4 + (a mod 4 * 16 + b div 16) div 16 = a" "(a mod 4 * 16 + b div 16) mod 16 * 16 + (b mod 16 * 4 + c div 64) div 4 = b"
    "(b mod 16 * 4 + c div 64) mod 4 * 64 + c mod 64 = c"
    using "4.prems" by (auto; arith)+
  with 4 show ?case by (simp add: map_filter_def lt [THEN b64_digit_char])
next
  case (2 a)
  then have lt: "a div 4 < 64" "a mod 4 * 16 < 64" by (auto; arith)+
  then show ?case by (simp add: map_filter_def lt [THEN b64_digit_char])
next
  case (3 a b)
  then have lt: "a div 4 < 64" "a mod 4 * 16 + b div 16 < 64" "b mod 16 * 4 < 64" by (auto; arith)+
  have "a div 4 * 4 + (a mod 4 * 16 + b div 16) div 16 = a" "(a mod 4 * 16 + b div 16) mod 16 * 16 + b mod 16 * 4 div 4 = b"
    using 3 by (auto; arith)+
  then show ?case by (simp add: map_filter_def lt [THEN b64_digit_char])
qed (simp add: map_filter_def)

section \<open>Dates\<close>

definition day_from_year :: "int \<Rightarrow> int" where
  "day_from_year y = 365 * (y - 1970) + (y - 1969) div 4 - (y - 1901) div 100 + (y - 1601) div 400"

lemma next_div:
  fixes x n :: int assumes "0 < n"
  shows "(x + 1) div n = x div n + (if n dvd x + 1 then 1 else 0)"
proof (cases "n dvd x + 1")
  case True
  then obtain k where k: "x + 1 = n * k" by blast
  have "x div n = k - 1" by (rule int_div_pos_eq [of _ _ _ "n - 1"]) (use k assms in \<open>simp_all add: algebra_simps\<close>)
  with k assms True show ?thesis by simp
next
  case False
  have "x mod n + 1 \<noteq> n" using False by (metis mod_0_imp_dvd mod_add_left_eq mod_self)
  with assms have "x mod n + 1 < n" using pos_mod_bound [OF assms, of x] by linarith
  then have "(x + 1) div n = x div n"
    by (intro int_div_pos_eq [of _ _ _ "x mod n + 1"]) (use assms in \<open>simp_all add: algebra_simps\<close>)
  with False show ?thesis by simp
qed

lemma year_length: "365 \<le> day_from_year (y + 1) - day_from_year y" "day_from_year (y + 1) - day_from_year y \<le> 366"
proof -
  define P where "P = (4 dvd y - 1969 + 1)"
  define Q where "Q = (100 dvd y - 1901 + 1)"
  define R where "R = (400 dvd y - 1601 + 1)"
  have div: "(y - 1968) div 4 = (y - 1969) div 4 + (if P then 1 else 0)"
    "(y - 1900) div 100 = (y - 1901) div 100 + (if Q then 1 else 0)"
    "(y - 1600) div 400 = (y - 1601) div 400 + (if R then 1 else 0)"
    unfolding P_def Q_def R_def by (simp_all only: next_div [symmetric] zero_less_numeral)
  have P: P if Q
  proof -
    from that obtain k where "y - 1901 + 1 = 100 * k" unfolding Q_def by (rule dvdE)
    then have "y - 1969 + 1 = 4 * (25 * k - 17)" by simp
    then show ?thesis unfolding P_def by (rule dvdI)
  qed
  have Q: Q if R
  proof -
    from that obtain k where "y - 1601 + 1 = 400 * k" unfolding R_def by (rule dvdE)
    then have "y - 1901 + 1 = 100 * (4 * k - 3)" by simp
    then show ?thesis unfolding Q_def by (rule dvdI)
  qed
  have "day_from_year (y + 1) = 365 * (y - 1969) + (y - 1968) div 4 - (y - 1900) div 100 + (y - 1600) div 400"
    by (simp add: day_from_year_def)
  then have "day_from_year (y + 1) - day_from_year y = 365 + (if P then 1 else 0) - (if Q then 1 else 0) + (if R then 1 else 0)"
    unfolding div day_from_year_def by (simp only: algebra_simps)
  then show "365 \<le> day_from_year (y + 1) - day_from_year y" "day_from_year (y + 1) - day_from_year y \<le> 366"
    using P Q by (cases P; cases Q; cases R; simp)+
qed

function year_from :: "int \<Rightarrow> int \<Rightarrow> int" where
  "year_from day y = (if day < day_from_year y then year_from day (y - 1) else y)"
  by auto
termination
proof (relation "measure (\<lambda>(day, y). nat (day_from_year y - day))")
  fix day y assume "day < day_from_year y"
  then show "((day, y - 1), (day, y)) \<in> measure (\<lambda>(day, y). nat (day_from_year y - day))"
    using year_length(1) [of "y - 1"] by simp
qed simp

declare year_from.simps [simp del]

definition year_of_day :: "int \<Rightarrow> int" where
  "year_of_day day = year_from day (1971 + max (day div 365) (day div 366))"

definition leap_day :: "int \<Rightarrow> int" where
  "leap_day y = day_from_year (y + 1) - day_from_year y - 365"

definition month_starts :: "int \<Rightarrow> int list" where
  "month_starts l = [0, 31, 59 + l, 90 + l, 120 + l, 151 + l, 181 + l, 212 + l, 243 + l, 273 + l, 304 + l, 334 + l]"

text \<open>The index of the month a day of the year falls in.\<close>

definition month_index :: "int \<Rightarrow> int \<Rightarrow> nat" where
  "month_index l d = length (takeWhile (\<lambda>start. start \<le> d) (tl (month_starts l)))"

fun pad :: "nat \<Rightarrow> nat \<Rightarrow> string" where
  "pad 0 n = []"
| "pad (Suc k) n = pad k (n div 10) @ [digit_char (n mod 10)]"

definition msPerDay :: int where "msPerDay = 86400000"

definition toISOString :: "ms \<Rightarrow> string" where
  "toISOString t =
     (let day = t div msPerDay; time = nat (t mod msPerDay);
          y = year_of_day day; d = day - day_from_year y; m = month_index (leap_day y) d;
          year = (if 0 \<le> y \<and> y \<le> 9999 then pad 4 (nat y)
            else (if y < 0 then ''-'' else ''+'') @ pad 6 (nat \<bar>y\<bar>))
      in year @ ''-'' @ pad 2 (m + 1) @ ''-'' @ pad 2 (nat (d - month_starts (leap_day y) ! m + 1)) @ ''T'' @
         pad 2 (time div 3600000) @ '':'' @ pad 2 (time div 60000 mod 60) @ '':'' @
         pad 2 (time div 1000 mod 60) @ ''.'' @ pad 3 (time mod 1000) @ ''Z'')"

text \<open>
  The test \<open>/^\d{4}-\d{2}-\d{2}T\d{2}:\d{2}:\d{2}.\d{3}Z$/\<close> (its dot is any character but a line
  break), and \<open>new Date\<close> of such a text: the time whose ISO text it is, if there is one;
  \<open>other\<close> is the engine's reading of a date no calendar has.
\<close>

definition iso_shape :: "string \<Rightarrow> bool" where
  "iso_shape text \<longleftrightarrow> list_all2 (\<lambda>p c. if p = CHR ''d'' then c \<in> set ''0123456789''
     else if p = CHR ''.'' then c \<noteq> CHR 0x0A \<and> c \<noteq> CHR 0x0D else c = p) ''dddd-dd-ddTdd:dd:dd.dddZ'' text"

definition field_at :: "nat \<Rightarrow> nat \<Rightarrow> string \<Rightarrow> nat" where
  "field_at from k text = undigits (take k (drop from text))"

definition new_date :: "(string \<Rightarrow> ms option) \<Rightarrow> string \<Rightarrow> ms option" where
  "new_date other text =
     (let y = int (field_at 0 4 text); m = field_at 5 2 text; d = int (field_at 8 2 text);
          time = int (field_at 11 2 text) * 3600000 + int (field_at 14 2 text) * 60000 +
            int (field_at 17 2 text) * 1000 + int (field_at 20 3 text);
          t = (day_from_year y + month_starts (leap_day y) ! (m - 1) + d - 1) * msPerDay + time
      in if m = 0 \<or> 12 < m then other text else if toISOString t = text then Some t else other text)"

lemma length_pad [simp]: "length (pad k n) = k"
  by (induction k arbitrary: n) simp_all

lemma undigits_snoc: "undigits (s @ [c]) = 10 * undigits s + char_digit c"
  by (simp add: undigits_def)

lemma undigits_pad [simp]: "n < 10 ^ k \<Longrightarrow> undigits (pad k n) = n"
proof (induction k arbitrary: n)
  case (Suc k)
  then have "n div 10 < 10 ^ k" by (simp add: less_mult_imp_div_less mult.commute)
  then have "undigits (pad k (n div 10)) = n div 10" by (rule Suc.IH)
  moreover have "n mod 10 < 16" by (rule mod_10_less_16)
  ultimately show ?case by (simp add: undigits_snoc)
qed (simp add: undigits_def)

lemma digit_char_decimal: "d < 10 \<Longrightarrow> digit_char d \<in> set ''0123456789''"
proof -
  assume "d < 10"
  then have "digit_char d = ''0123456789'' ! d" "d < length ''0123456789''"
    by (auto simp: digit_char_def less_Suc_eq numeral_eq_Suc)
  then show ?thesis by (simp only: nth_mem)
qed

lemma pad_digits: "list_all (\<lambda>c. c \<in> set ''0123456789'') (pad k n)"
  by (induction k arbitrary: n) (simp_all only: pad.simps list_all_append list.pred_inject digit_char_decimal mod_less_divisor zero_less_numeral simp_thms)

lemma year_from_spec:
  assumes "day < day_from_year (y + 1)"
  shows "day_from_year (year_from day y) \<le> day \<and> day < day_from_year (year_from day y + 1)"
  using assms
proof (induction day y rule: year_from.induct)
  case (1 day y)
  then show ?case by (cases "day < day_from_year y") (simp_all add: year_from.simps [of day y])
qed

lemma year_of_day_spec:
  assumes "0 \<le> day"
  shows "day_from_year (year_of_day day) \<le> day" "day < day_from_year (year_of_day day + 1)"
proof -
  let ?q = "day div 365"
  have "max (day div 365) (day div 366) = ?q" using assms by (simp add: zdiv_mono2)
  moreover have "day < day_from_year (1971 + ?q + 1)"
  proof -
    have "day < 365 * (?q + 1)" by (simp add: algebra_simps)
    moreover have "365 * n \<le> day_from_year (1970 + n)" if "0 \<le> n" for n
      using that
    proof (induction n rule: int_ge_induct)
      case base
      show ?case by (simp add: day_from_year_def)
    next
      case (step n)
      then show ?case using year_length(1) [of "1970 + n"] by (simp add: add.assoc)
    qed
    from this [of "?q + 2"] have "365 * (?q + 2) \<le> day_from_year (1971 + ?q + 1)" using assms by (simp add: add.commute)
    ultimately show ?thesis by simp
  qed
  ultimately show "day_from_year (year_of_day day) \<le> day" "day < day_from_year (year_of_day day + 1)"
    using year_from_spec [of day "1971 + ?q"] by (simp_all add: year_of_day_def)
qed

lemma day_from_year_mono: "a \<le> b \<Longrightarrow> day_from_year a \<le> day_from_year b"
proof (induction b rule: int_ge_induct)
  case (step i)
  then show ?case using year_length(1) [of i] by simp
qed simp

lemma year_range:
  assumes "0 \<le> day" "day < 2932897"
  shows "0 \<le> year_of_day day \<and> year_of_day day \<le> 9999"
proof -
  note spec = year_of_day_spec [OF assms(1)]
  have ends: "day_from_year 10000 = 2932897" "day_from_year 1970 = 0" by (simp_all add: day_from_year_def)
  have "\<not> 10000 \<le> year_of_day day"
    using day_from_year_mono [of 10000 "year_of_day day"] spec(1) assms(2) ends(1) by auto
  moreover have "\<not> year_of_day day + 1 \<le> 1970"
    using day_from_year_mono [of "year_of_day day + 1" 1970] spec(2) assms(1) ends(2) by auto
  ultimately show ?thesis by simp
qed

lemma month_index_spec:
  assumes "0 \<le> d" "d < 365 + l" "l = 0 \<or> l = 1"
  shows "month_index l d < 12 \<and> month_starts l ! month_index l d \<le> d \<and> d - month_starts l ! month_index l d < 31"
  using assms by (elim disjE) (auto simp: month_index_def month_starts_def)

lemma iso_fields:
  assumes "length y = 4" "length m = 2" "length d = 2" "length h = 2" "length mi = 2" "length sec = 2" "length milli = 3"
    and "text = y @ ''-'' @ m @ ''-'' @ d @ ''T'' @ h @ '':'' @ mi @ '':'' @ sec @ ''.'' @ milli @ ''Z''"
  shows "field_at 0 4 text = undigits y" "field_at 5 2 text = undigits m" "field_at 8 2 text = undigits d"
    "field_at 11 2 text = undigits h" "field_at 14 2 text = undigits mi" "field_at 17 2 text = undigits sec"
    "field_at 20 3 text = undigits milli"
  using assms by (simp_all add: field_at_def)

lemma iso_shape_text:
  assumes "length y = 4" "length m = 2" "length d = 2" "length h = 2" "length mi = 2" "length sec = 2" "length milli = 3"
    and "list_all (\<lambda>c. c \<in> set ''0123456789'') (y @ m @ d @ h @ mi @ sec @ milli)"
  shows "iso_shape (y @ ''-'' @ m @ ''-'' @ d @ ''T'' @ h @ '':'' @ mi @ '':'' @ sec @ ''.'' @ milli @ ''Z'')"
proof -
  let ?P = "\<lambda>p c. if p = CHR ''d'' then c \<in> set ''0123456789''
     else if p = CHR ''.'' then c \<noteq> CHR 0x0A \<and> c \<noteq> CHR 0x0D else c = p"
  have d: "list_all2 ?P (replicate k (CHR ''d'')) xs" if "length xs = k" "list_all (\<lambda>c. c \<in> set ''0123456789'') xs" for k xs
    using that by (auto simp: list_all2_conv_all_nth list_all_length)
  have "list_all2 ?P (replicate 4 (CHR ''d'') @ ''-'' @ replicate 2 (CHR ''d'') @ ''-'' @ replicate 2 (CHR ''d'') @ ''T'' @
      replicate 2 (CHR ''d'') @ '':'' @ replicate 2 (CHR ''d'') @ '':'' @ replicate 2 (CHR ''d'') @ ''.'' @ replicate 3 (CHR ''d'') @ ''Z'')
      (y @ ''-'' @ m @ ''-'' @ d @ ''T'' @ h @ '':'' @ mi @ '':'' @ sec @ ''.'' @ milli @ ''Z'')"
    using assms by (intro list_all2_appendI d) (simp_all only: list_all_append simp_thms, simp_all)
  moreover have "replicate 4 (CHR ''d'') @ ''-'' @ replicate 2 (CHR ''d'') @ ''-'' @ replicate 2 (CHR ''d'') @ ''T'' @
      replicate 2 (CHR ''d'') @ '':'' @ replicate 2 (CHR ''d'') @ '':'' @ replicate 2 (CHR ''d'') @ ''.'' @ replicate 3 (CHR ''d'') @ ''Z'' =
      ''dddd-dd-ddTdd:dd:dd.dddZ''" by (simp add: numeral_eq_Suc)
  ultimately show ?thesis by (simp only: iso_shape_def)
qed

text \<open>A date of the years 1970 to 9999 survives its ISO text.\<close>

lemma date_roundtrip:
  assumes "0 \<le> t" "t < 253402300800000"
  shows "iso_shape (toISOString t) \<and> new_date other (toISOString t) = Some t"
proof -
  define day where "day = t div msPerDay"
  define time where "time = nat (t mod msPerDay)"
  define y where "y = year_of_day day"
  define d where "d = day - day_from_year y"
  define m where "m = month_index (leap_day y) d"
  define dom where "dom = nat (d - month_starts (leap_day y) ! m + 1)"
  have "day * 86400000 \<le> t"
    using pos_mod_sign [of 86400000 t] div_mult_mod_eq [of t 86400000] by (simp add: day_def msPerDay_def)
  with assms have day: "0 \<le> day" "day < 2932897"
    by (simp_all add: day_def msPerDay_def pos_imp_zdiv_nonneg_iff)
  have time: "time < 86400000" "int time = t mod msPerDay" by (simp_all add: time_def msPerDay_def)
  have y: "0 \<le> y" "y \<le> 9999" using year_range [OF day] by (simp_all add: y_def)
  have leap: "leap_day y = 0 \<or> leap_day y = 1" using year_length [of y] by (simp add: leap_day_def) arith
  have d: "0 \<le> d" "d < 365 + leap_day y"
    using year_of_day_spec [OF day(1)] by (simp_all add: d_def y_def leap_day_def)
  note m = month_index_spec [OF d leap, folded m_def]
  have dom: "dom < 100" "int dom = d - month_starts (leap_day y) ! m + 1" using m unfolding dom_def by arith+
  have iso: "toISOString t = pad 4 (nat y) @ ''-'' @ pad 2 (m + 1) @ ''-'' @ pad 2 dom @ ''T'' @
      pad 2 (time div 3600000) @ '':'' @ pad 2 (time div 60000 mod 60) @ '':'' @ pad 2 (time div 1000 mod 60) @ ''.'' @ pad 3 (time mod 1000) @ ''Z''"
    using y by (simp add: toISOString_def Let_def day_def [symmetric] time_def [symmetric] y_def [symmetric] d_def [symmetric] m_def [symmetric] dom_def [symmetric])
  note fields = iso_fields [OF length_pad length_pad length_pad length_pad length_pad length_pad length_pad iso]
  have small: "nat y < 10 ^ 4" "m + 1 < 10 ^ 2" "dom < 10 ^ 2" "time div 3600000 < 10 ^ 2" "time div 60000 mod 60 < 10 ^ 2"
    "time div 1000 mod 60 < 10 ^ 2" "time mod 1000 < 10 ^ 3"
    using y m dom time(1) by (auto intro: less_trans [OF mod_less_divisor] simp: less_mult_imp_div_less)
  have "time div 3600000 * 3600000 + time div 60000 mod 60 * 60000 + time div 1000 mod 60 * 1000 + time mod 1000 = time"
  proof -
    have 1: "time div 1000 * 1000 + time mod 1000 = time" by (rule div_mult_mod_eq)
    have 2: "time div 60000 * 60 + time div 1000 mod 60 = time div 1000"
      using div_mult_mod_eq [of "time div 1000" 60] by (simp add: div_mult2_eq [symmetric])
    have 3: "time div 3600000 * 60 + time div 60000 mod 60 = time div 60000"
      using div_mult_mod_eq [of "time div 60000" 60] by (simp add: div_mult2_eq [symmetric])
    from 1 2 3 show ?thesis by linarith
  qed
  then have clock: "int (time div 3600000) * 3600000 + int (time div 60000 mod 60) * 60000 + int (time div 1000 mod 60) * 1000 + int (time mod 1000) = t mod msPerDay"
    using time(2) by (metis (no_types, opaque_lifting) of_nat_add of_nat_mult of_nat_numeral)
  have "day_from_year (int (nat y)) + month_starts (leap_day (int (nat y))) ! (m + 1 - 1) + int dom - 1 = day"
    using y dom(2) by (simp add: d_def)
  moreover have "day * msPerDay + t mod msPerDay = t" by (simp add: day_def)
  ultimately have "new_date other (toISOString t) = Some t"
    unfolding new_date_def Let_def fields using small m y clock by simp
  moreover have "iso_shape (toISOString t)"
    unfolding iso by (rule iso_shape_text) (simp_all only: length_pad list_all_append pad_digits simp_thms)
  ultimately show ?thesis by simp
qed

section \<open>JSON\<close>

datatype json = J_null | J_true | J_false | J_num rat | J_str string | J_arr "json list" | J_obj "(string \<times> json) list"

text \<open>\<open>JSON.stringify\<close> of a string.\<close>

definition json_char :: "char \<Rightarrow> string" where
  "json_char c = (if c = CHR 0x22 \<or> c = CHR 0x5C then [CHR 0x5C, c]
     else if c = CHR 0x08 then [CHR 0x5C, CHR ''b''] else if c = CHR 0x09 then [CHR 0x5C, CHR ''t'']
     else if c = CHR 0x0A then [CHR 0x5C, CHR ''n''] else if c = CHR 0x0C then [CHR 0x5C, CHR ''f'']
     else if c = CHR 0x0D then [CHR 0x5C, CHR ''r'']
     else if (of_char c :: nat) < 32 then [CHR 0x5C, CHR ''u'', CHR ''0'', CHR ''0'',
       digit_char (of_char c div 16), digit_char (of_char c mod 16)]
     else [c])"

definition json_string :: "string \<Rightarrow> string" where
  "json_string text = CHR 0x22 # concat (map json_char text) @ [CHR 0x22]"

text \<open>\<open>JSON.parse\<close>. A code unit of a \<open>\u\<close> escape becomes its UTF-8 bytes, each half of a
  surrogate pair on its own.\<close>

definition utf8 :: "nat \<Rightarrow> string" where
  "utf8 n = (if n < 128 then [char_of n]
     else if n < 2048 then [char_of (192 + n div 64), char_of (128 + n mod 64)]
     else [char_of (224 + n div 4096), char_of (128 + n div 64 mod 64), char_of (128 + n mod 64)])"

definition hex_value :: "char \<Rightarrow> nat option" where
  "hex_value c = (if is_hex_char c then Some (char_digit c)
     else if c \<in> set ''ABCDEF'' then Some (of_char c - 55) else None)"

fun hex4 :: "string \<Rightarrow> (nat \<times> string) option" where
  "hex4 (a # b # c # d # r) = (case (hex_value a, hex_value b, hex_value c, hex_value d) of
     (Some w, Some x, Some y, Some z) \<Rightarrow> Some (((w * 16 + x) * 16 + y) * 16 + z, r) | _ \<Rightarrow> None)"
| "hex4 _ = None"

definition escape_char :: "char \<Rightarrow> char option" where
  "escape_char c = (if c = CHR 0x22 \<or> c = CHR 0x5C \<or> c = CHR ''/'' then Some c
     else if c = CHR ''b'' then Some (CHR 0x08) else if c = CHR ''t'' then Some (CHR 0x09)
     else if c = CHR ''n'' then Some (CHR 0x0A) else if c = CHR ''f'' then Some (CHR 0x0C)
     else if c = CHR ''r'' then Some (CHR 0x0D) else None)"

text \<open>The rest of a string after its opening quote.\<close>

function json_chars :: "string \<Rightarrow> (string \<times> string) option" where
  "json_chars [] = None"
| "json_chars (c # r) =
     (if c = CHR 0x22 then Some ([], r)
      else if c = CHR 0x5C then
        (case r of
           [] \<Rightarrow> None
         | e # r' \<Rightarrow>
             if e = CHR ''u'' then (case hex4 r' of
                 None \<Rightarrow> None
               | Some (n, r'') \<Rightarrow> if length r'' < length r then map_option (\<lambda>(s, t). (utf8 n @ s, t)) (json_chars r'') else None)
             else (case escape_char e of None \<Rightarrow> None | Some x \<Rightarrow> map_option (\<lambda>(s, t). (x # s, t)) (json_chars r')))
      else if (of_char c :: nat) < 32 then None
      else map_option (\<lambda>(s, t). (c # s, t)) (json_chars r))"
  by pat_completeness auto
termination by (relation "measure length") auto

fun skip_space :: "string \<Rightarrow> string" where
  "skip_space (c # r) = (if c \<in> {CHR '' '', CHR 0x09, CHR 0x0A, CHR 0x0D} then skip_space r else c # r)"
| "skip_space [] = []"

definition digits_of :: "string \<Rightarrow> string \<times> string" where
  "digits_of text = (takeWhile is_digit text, dropWhile is_digit text)"

text \<open>A number: an optional minus, an integer without a leading zero, a fraction, an exponent; its
  value is exact, before a double rounds it.\<close>

definition json_fraction :: "string \<Rightarrow> (rat \<times> string) option" where
  "json_fraction text = (case text of
     c # r \<Rightarrow> if c \<noteq> CHR ''.'' then Some (0, text)
       else (let (ds, r') = digits_of r in if ds = [] then None else Some (of_nat (undigits ds) / 10 ^ length ds, r'))
   | [] \<Rightarrow> Some (0, text))"

definition json_exponent :: "string \<Rightarrow> (rat \<times> string) option" where
  "json_exponent text = (case text of
     c # r \<Rightarrow> if c \<noteq> CHR ''e'' \<and> c \<noteq> CHR ''E'' then Some (1, text)
       else (let (sign, r1) = (case r of x # r' \<Rightarrow> if x = CHR ''-'' then (True, r') else if x = CHR ''+'' then (False, r') else (False, r)
               | [] \<Rightarrow> (False, r));
                 (ds, r2) = digits_of r1
             in if ds = [] then None
                else Some (if sign then 1 / 10 ^ undigits ds else 10 ^ undigits ds, r2))
   | [] \<Rightarrow> Some (1, text))"

definition json_number :: "string \<Rightarrow> (rat \<times> string) option" where
  "json_number text =
     (let (sign, r) = optional_minus text; (ds, r1) = digits_of r
      in if ds = [] \<or> (length ds > 1 \<and> hd ds = CHR ''0'') then None
         else (case json_fraction r1 of
             None \<Rightarrow> None
           | Some (f, r2) \<Rightarrow> map_option (\<lambda>(e, r3). ((if sign then -1 else 1) * (of_nat (undigits ds) + f) * e, r3)) (json_exponent r2)))"

text \<open>Values, the members of an object after a brace or a comma, and the elements of an array; the
  fuel bounds the depth and the number of members, and the length of the text is enough.\<close>

fun json_value :: "nat \<Rightarrow> string \<Rightarrow> (json \<times> string) option"
  and json_members :: "nat \<Rightarrow> string \<Rightarrow> ((string \<times> json) list \<times> string) option"
  and json_elements :: "nat \<Rightarrow> string \<Rightarrow> (json list \<times> string) option" where
  "json_value 0 text = None"
| "json_value (Suc n) text =
     (case skip_space text of
        [] \<Rightarrow> None
      | c # r \<Rightarrow>
          if c = CHR ''{'' then
            (case skip_space r of
               x # r' \<Rightarrow> if x = CHR ''}'' then Some (J_obj [], r') else map_option (\<lambda>(ms, t). (J_obj ms, t)) (json_members n r)
             | [] \<Rightarrow> None)
          else if c = CHR ''['' then
            (case skip_space r of
               x # r' \<Rightarrow> if x = CHR '']'' then Some (J_arr [], r') else map_option (\<lambda>(vs, t). (J_arr vs, t)) (json_elements n r)
             | [] \<Rightarrow> None)
          else if c = CHR 0x22 then map_option (\<lambda>(s, t). (J_str s, t)) (json_chars r)
          else if starts_with (c # r) ''null'' then Some (J_null, drop 4 (c # r))
          else if starts_with (c # r) ''true'' then Some (J_true, drop 4 (c # r))
          else if starts_with (c # r) ''false'' then Some (J_false, drop 5 (c # r))
          else map_option (\<lambda>(x, t). (J_num x, t)) (json_number (c # r)))"
| "json_members 0 text = None"
| "json_members (Suc n) text =
     (case skip_space text of
        [] \<Rightarrow> None
      | c # r \<Rightarrow>
          if c \<noteq> CHR 0x22 then None
          else (case json_chars r of
              None \<Rightarrow> None
            | Some (key, r1) \<Rightarrow>
                (case skip_space r1 of
                   [] \<Rightarrow> None
                 | c1 # r2 \<Rightarrow>
                     if c1 \<noteq> CHR '':'' then None
                     else (case json_value n r2 of
                         None \<Rightarrow> None
                       | Some (v, r3) \<Rightarrow>
                           (case skip_space r3 of
                              [] \<Rightarrow> None
                            | c2 # r4 \<Rightarrow>
                                if c2 = CHR ''}'' then Some ([(key, v)], r4)
                                else if c2 = CHR '','' then map_option (\<lambda>(ms, t). ((key, v) # ms, t)) (json_members n r4)
                                else None)))))"
| "json_elements 0 text = None"
| "json_elements (Suc n) text =
     (case json_value n text of
        None \<Rightarrow> None
      | Some (v, r) \<Rightarrow>
          (case skip_space r of
             [] \<Rightarrow> None
           | c # r1 \<Rightarrow>
               if c = CHR '']'' then Some ([v], r1)
               else if c = CHR '','' then map_option (\<lambda>(vs, t). (v # vs, t)) (json_elements n r1)
               else None))"

definition JSON_parse :: "string \<Rightarrow> json option" where
  "JSON_parse text = (case json_value (Suc (length text)) text of
     None \<Rightarrow> None | Some (v, r) \<Rightarrow> if skip_space r = [] then Some v else None)"

section \<open>Cursors\<close>

datatype sort_value = SV_date ms | SV_number int

datatype cursor_direction = Next | Prev

record cursor_data =
  cu_value :: json
  cu_id :: string
  cu_direction :: cursor_direction

definition sort_text :: "sort_value \<Rightarrow> string" where
  "sort_text v = (case v of SV_date t \<Rightarrow> json_string (toISOString t) | SV_number i \<Rightarrow> show_int i)"

definition direction_name :: "cursor_direction \<Rightarrow> string" where
  "direction_name dir = (case dir of Next \<Rightarrow> ''next'' | Prev \<Rightarrow> ''prev'')"

definition cursor_json :: "sort_value \<Rightarrow> string \<Rightarrow> cursor_direction \<Rightarrow> string" where
  "cursor_json v i dir = CHR ''{'' # json_string ''sort_field_value'' @ CHR '':'' # sort_text v @
     CHR '','' # json_string ''_id'' @ CHR '':'' # json_string i @
     CHR '','' # json_string ''direction'' @ CHR '':'' # json_string (direction_name dir) @ ''}''"

definition encodeCursor :: "sort_value \<Rightarrow> string \<Rightarrow> cursor_direction \<Rightarrow> string" where
  "encodeCursor v i dir = to_base64 (map of_char (cursor_json v i dir))"

text \<open>Of a repeated key the last value counts; what is not an object is refused.\<close>

definition cursor_of_json :: "json \<Rightarrow> cursor_data option" where
  "cursor_of_json j = (case j of
     J_obj members \<Rightarrow>
       (let key = map_of (rev members)
        in case (key ''sort_field_value'', key ''_id'', key ''direction'') of
             (Some v, Some (J_str i), Some (J_str dir)) \<Rightarrow>
               if i = [] then None
               else if dir = ''next'' then Some \<lparr>cu_value = v, cu_id = i, cu_direction = Next\<rparr>
               else if dir = ''prev'' then Some \<lparr>cu_value = v, cu_id = i, cu_direction = Prev\<rparr>
               else None
           | _ \<Rightarrow> None)
   | _ \<Rightarrow> None)"

definition decodeCursor :: "string \<Rightarrow> cursor_data option" where
  "decodeCursor cursor = Option.bind (JSON_parse (map char_of (of_base64 cursor))) cursor_of_json"

definition sort_json :: "sort_value \<Rightarrow> json" where
  "sort_json v = (case v of SV_date t \<Rightarrow> J_str (toISOString t) | SV_number i \<Rightarrow> J_num (of_int i))"

section \<open>A cursor comes back as it was\<close>

lemma json_chars_plain: "c \<noteq> CHR 0x22 \<Longrightarrow> c \<noteq> CHR 0x5C \<Longrightarrow> 32 \<le> (of_char c :: nat) \<Longrightarrow>
  json_chars (c # r) = map_option (\<lambda>(s, t). (c # s, t)) (json_chars r)"
  by simp

lemma json_chars_escape:
  assumes "json_chars r = Some (s, t)" shows "json_chars (json_char c @ r) = Some (c # s, t)"
proof -
  have hex: "hex_value (digit_char d) = Some d" if "d < 16" for d
    using that by (simp add: hex_value_def is_hex_digit_char)
  let ?special = "c = CHR 0x22 \<or> c = CHR 0x5C \<or> c = CHR 0x08 \<or> c = CHR 0x09 \<or> c = CHR 0x0A \<or> c = CHR 0x0C \<or> c = CHR 0x0D"
  consider ?special | "\<not> ?special" "\<not> (of_char c :: nat) < 32" | "\<not> ?special" "(of_char c :: nat) < 32" by blast
  then show ?thesis
  proof cases
    case 1
    then show ?thesis using assms by (elim disjE) (simp_all add: json_char_def escape_char_def)
  next
    case 2
    then have "json_char c = [c]" by (simp add: json_char_def)
    with 2 assms show ?thesis by simp
  next
    case 3
    let ?n = "of_char c :: nat"
    have zero: "hex_value (CHR ''0'') = Some 0" by (simp add: hex_value_def is_hex_char_def char_digit_def)
    have e: "json_char c = [CHR 0x5C, CHR ''u'', CHR ''0'', CHR ''0'', digit_char (?n div 16), digit_char (?n mod 16)]"
      using 3 by (simp add: json_char_def)
    have "?n div 16 < 16" "?n mod 16 < 16" using 3(2) by simp_all
    then have "hex4 (CHR ''0'' # CHR ''0'' # digit_char (?n div 16) # digit_char (?n mod 16) # r) = Some (?n, r)"
      by (simp add: hex zero)
    moreover have "utf8 ?n = [c]" using 3(2) by (simp add: utf8_def)
    ultimately show ?thesis using assms unfolding e by (simp del: hex4.simps)
  qed
qed

lemma json_chars_string: "json_chars (concat (map json_char cs) @ CHR 0x22 # r) = Some (cs, r)"
proof (induction cs)
  case (Cons c cs)
  then show ?case using json_chars_escape [OF Cons.IH, of c] by simp
qed simp

lemma show_nat_digits: "list_all is_digit (show_nat n)"
proof (induction n rule: show_nat.induct)
  case (1 n)
  have "is_digit (digit_char d)" if "d < 10" for d
    using digit_char_decimal [OF that] by (simp only: is_digit_def)
  with 1 show ?case by (cases "n < 10") (simp_all add: show_nat.simps [of n])
qed

lemma show_nat_leading: "10 \<le> n \<Longrightarrow> hd (show_nat n) \<noteq> CHR ''0'' \<and> show_nat n \<noteq> []"
proof (induction n rule: show_nat.induct)
  case (1 n)
  have zero: "digit_char d \<noteq> CHR ''0''" if "0 < d" "d < 10" for d
    using that less_16_cases [of d] by (auto simp: digit_char_def)
  from 1 have s: "show_nat n = show_nat (n div 10) @ [digit_char (n mod 10)]" by (simp add: show_nat.simps [of n])
  show ?case
  proof (cases "n div 10 < 10")
    case True
    moreover have "0 < n div 10" using 1(2) by (simp add: div_greater_zero_iff)
    ultimately show ?thesis using zero [of "n div 10"] s by (simp add: show_nat.simps [of "n div 10"])
  next
    case False
    with 1 s show ?thesis by simp
  qed
qed

lemma digits_of_show_nat: "(case r of c # r' \<Rightarrow> \<not> is_digit c | [] \<Rightarrow> True) \<Longrightarrow> digits_of (show_nat n @ r) = (show_nat n, r)"
  using show_nat_digits [of n]
  by (auto simp: digits_of_def list_all_iff takeWhile_append dropWhile_append split: list.splits)

lemma json_number_show_int: "json_number (show_int i @ CHR '','' # r) = Some (of_int i, CHR '','' # r)"
proof -
  let ?n = "nat \<bar>i\<bar>"
  have d: "digits_of (show_nat ?n @ CHR '','' # r) = (show_nat ?n, CHR '','' # r)"
    by (rule digits_of_show_nat) (simp add: is_digit_def)
  have lead: "show_nat ?n \<noteq> []" "\<not> (length (show_nat ?n) > 1 \<and> hd (show_nat ?n) = CHR ''0'')"
    using show_nat_leading [of ?n] by (cases "?n < 10"; simp add: show_nat.simps [of ?n])+
  have m: "optional_minus (show_int i @ CHR '','' # r) = (i < 0, show_nat ?n @ CHR '','' # r)"
  proof (cases "i < 0")
    case True
    then show ?thesis by (simp add: show_int_def optional_minus_def)
  next
    case False
    have "hd (show_nat (nat i)) \<noteq> CHR ''-''" if "show_nat (nat i) = c # x" for c x
      using show_nat_digits [of "nat i"] that by (auto simp: is_digit_def)
    with False lead(1) show ?thesis
      by (cases "show_nat (nat i)") (auto simp: show_int_def optional_minus_def)
  qed
  have f: "json_fraction (CHR '','' # r) = Some (0, CHR '','' # r)" "json_exponent (CHR '','' # r) = Some (1, CHR '','' # r)"
    by (simp_all add: json_fraction_def json_exponent_def)
  have v: "(if i < 0 then - 1 else 1) * of_nat ?n = (of_int i :: rat)" by (simp add: of_nat_nat)
  show ?thesis using lead v unfolding json_number_def m Let_def prod.case d f option.case undigits_show_nat by auto
qed

lemma json_value_string: "json_value (Suc n) (json_string cs @ r) = Some (J_str cs, r)"
  by (simp add: json_string_def json_chars_string)

lemma show_int_first: "\<exists>c cs. show_int i = c # cs \<and> (c = CHR ''-'' \<or> is_digit c)"
proof -
  have "show_nat n \<noteq> []" for n by (cases "n < 10") (simp_all add: show_nat.simps [of n])
  then obtain c cs where "show_nat (nat i) = c # cs" by (meson neq_Nil_conv)
  then show ?thesis using show_nat_digits [of "nat i"] by (simp add: show_int_def)
qed

lemma json_value_number: "json_value (Suc n) (show_int i @ CHR '','' # r) = Some (J_num (of_int i), CHR '','' # r)"
proof -
  obtain c cs where c: "show_int i = c # cs" "c = CHR ''-'' \<or> is_digit c" using show_int_first by blast
  then have "skip_space (c # cs @ CHR '','' # r) = c # cs @ CHR '','' # r"
    "c \<noteq> CHR ''{''" "c \<noteq> CHR ''[''" "c \<noteq> CHR 0x22" "c \<noteq> CHR ''n''" "c \<noteq> CHR ''t''" "c \<noteq> CHR ''f''"
    by (auto simp: is_digit_def)
  then show ?thesis using json_number_show_int [of i r] c(1) by simp
qed

lemma json_value_sort: "json_value (Suc n) (sort_text v @ CHR '','' # r) = Some (sort_json v, CHR '','' # r)"
  by (cases v) (simp_all only: sort_text_def sort_json_def sort_value.case json_value_string json_value_number)

lemma json_members_step:
  assumes "json_value n r = Some (v, c # r')" "c = CHR '','' \<or> c = CHR ''}''"
  shows "json_members (Suc n) (json_string key @ CHR '':'' # r) =
    (if c = CHR ''}'' then Some ([(key, v)], r') else map_option (\<lambda>(ms, t). ((key, v) # ms, t)) (json_members n r'))"
proof -
  have "json_string key @ CHR '':'' # r = CHR 0x22 # concat (map json_char key) @ CHR 0x22 # CHR '':'' # r"
    by (simp add: json_string_def)
  then show ?thesis using assms by (auto simp: json_chars_string)
qed

lemma parse_cursor_json:
  "JSON_parse (cursor_json v i dir) = Some (J_obj [(''sort_field_value'', sort_json v), (''_id'', J_str i),
     (''direction'', J_str (direction_name dir))])"
proof -
  let ?m3 = "json_string ''direction'' @ CHR '':'' # json_string (direction_name dir) @ ''}''"
  let ?m2 = "json_string ''_id'' @ CHR '':'' # json_string i @ CHR '','' # ?m3"
  let ?m1 = "json_string ''sort_field_value'' @ CHR '':'' # sort_text v @ CHR '','' # ?m2"
  have m3: "json_members (Suc (Suc n)) ?m3 = Some ([(''direction'', J_str (direction_name dir))], [])" for n
    using json_members_step [of "Suc n" "json_string (direction_name dir) @ ''}''" "J_str (direction_name dir)" "CHR ''}''" "[]" "''direction''",
        OF json_value_string] by simp
  have m2: "json_members (Suc (Suc (Suc n))) ?m2 = Some ([(''_id'', J_str i), (''direction'', J_str (direction_name dir))], [])" for n
    using json_members_step [of "Suc (Suc n)" "json_string i @ CHR '','' # ?m3" "J_str i" "CHR '',''" ?m3 "''_id''",
        OF json_value_string] m3 [of n] by simp
  have m1: "json_members (Suc (Suc (Suc (Suc n)))) ?m1 = Some ([(''sort_field_value'', sort_json v), (''_id'', J_str i),
     (''direction'', J_str (direction_name dir))], [])" for n
    using json_members_step [of "Suc (Suc (Suc n))" "sort_text v @ CHR '','' # ?m2" "sort_json v" "CHR '',''" ?m2 "''sort_field_value''",
        OF json_value_sort] m2 [of n] by simp
  have eq: "cursor_json v i dir = CHR ''{'' # ?m1" by (simp add: cursor_json_def)
  have "4 \<le> length (cursor_json v i dir)" by (simp add: eq json_string_def)
  then obtain n where "length (cursor_json v i dir) = 4 + n" using le_Suc_ex by blast
  then have n: "length (cursor_json v i dir) = Suc (Suc (Suc (Suc n)))" by simp
  have "\<exists>x. skip_space ?m1 = CHR 0x22 # x" by (simp add: json_string_def)
  then have "json_value (Suc (length (cursor_json v i dir))) (cursor_json v i dir) =
      map_option (\<lambda>(ms, t). (J_obj ms, t)) (json_members (length (cursor_json v i dir)) ?m1)"
    unfolding eq by auto
  then show ?thesis unfolding JSON_parse_def n m1 by simp
qed

lemma cursor_decodes:
  assumes "i \<noteq> []"
  shows "decodeCursor (encodeCursor v i dir) = Some \<lparr>cu_value = sort_json v, cu_id = i, cu_direction = dir\<rparr>"
proof -
  have "list_all (\<lambda>b. b < 256) (map of_char cs :: nat list)" for cs by (simp add: list_all_iff)
  then have "map char_of (of_base64 (encodeCursor v i dir)) = cursor_json v i dir"
    by (simp add: encodeCursor_def of_to_base64 comp_def)
  then show ?thesis
    using assms by (cases dir) (simp_all add: decodeCursor_def parse_cursor_json cursor_of_json_def direction_name_def)
qed

text \<open>
  C33: A cursor comes back as it was: decoding an encoded cursor gives its id and direction and the
  JSON of its sort value, whatever characters the id has; a date in it reads back as the same date.
\<close>

theorem cursor_roundtrip:
  assumes "i \<noteq> []"
  shows "decodeCursor (encodeCursor v i dir) = Some \<lparr>cu_value = sort_json v, cu_id = i, cu_direction = dir\<rparr> \<and>
    (\<forall>t. v = SV_date t \<and> 0 \<le> t \<and> t < 253402300800000 \<longrightarrow>
       (\<exists>iso. sort_json v = J_str iso \<and> iso_shape iso \<and> new_date other iso = Some t))"
proof -
  note cursor_decodes [OF assms, of v dir]
  moreover have "\<exists>iso. sort_json v = J_str iso \<and> iso_shape iso \<and> new_date other iso = Some t"
    if "v = SV_date t" "0 \<le> t" "t < 253402300800000" for t
    using date_roundtrip [OF that(2,3), of other] that(1) by (simp add: sort_json_def)
  ultimately show ?thesis by blast
qed

theorem cursor_roundtrip_witness:
  "decodeCursor (encodeCursor (SV_date 0) ''ab'' Prev) =
     Some \<lparr>cu_value = J_str (toISOString 0), cu_id = ''ab'', cu_direction = Prev\<rparr>"
  using cursor_roundtrip [of "''ab''" "SV_date 0" Prev] by (simp add: sort_json_def)

end
