(* ===== verification/Change_Stream.thy ===== *)
theory Change_Stream
  imports Data_Model
begin

text \<open>
  Which callbacks a change-stream update reaches (\<open>src/client/listener/\<close>): the watched
  fields against the paths that were written, the value operators and the compound filters. A
  document is its fields as values; a field it does not have reads as undefined. A comparison is
  between numbers and dates, as the filters' types say, and \<open>None\<close> is an operator the matcher
  does not know, which it throws on.
\<close>

datatype fval = V_string string | V_number rat | V_date ms | V_bool bool | V_null | V_undefined

datatype fop =
    Op_eq fval | Op_ne fval | Op_in "fval list" | Op_nin "fval list"
  | Op_gt fval | Op_gte fval | Op_lt fval | Op_lte fval
  | Op_unsupported string

type_synonym document = "string \<Rightarrow> fval"

section \<open>Fields\<close>

definition matchFields :: "string list \<Rightarrow> string list \<Rightarrow> bool" where
  "matchFields updated watched \<longleftrightarrow>
     list_ex (\<lambda>field. list_ex (\<lambda>key. key = field \<or> starts_with key (field @ ''.'')) updated) watched"

section \<open>Values\<close>

text \<open>\<open>===\<close> of a stored value with one of the filter: two dates are two objects, never the same.\<close>

definition same_value :: "fval \<Rightarrow> fval \<Rightarrow> bool" where
  "same_value v w \<longleftrightarrow> v = w \<and> (case v of V_date d \<Rightarrow> False | _ \<Rightarrow> True)"

definition is_number :: "fval \<Rightarrow> bool" where
  "is_number v \<longleftrightarrow> (case v of V_number r \<Rightarrow> True | _ \<Rightarrow> False)"

definition isComparable :: "fval \<Rightarrow> bool" where
  "isComparable v \<longleftrightarrow> (case v of V_number r \<Rightarrow> True | V_date d \<Rightarrow> True | _ \<Rightarrow> False)"

definition magnitude :: "fval \<Rightarrow> rat option" where
  "magnitude v = (case v of V_number r \<Rightarrow> Some r | V_date d \<Rightarrow> Some (of_int d) | _ \<Rightarrow> None)"

definition compare_values :: "(rat \<Rightarrow> rat \<Rightarrow> bool) \<Rightarrow> fval \<Rightarrow> fval \<Rightarrow> bool" where
  "compare_values f v w = (case (magnitude v, magnitude w) of (Some a, Some b) \<Rightarrow> f a b | _ \<Rightarrow> False)"

text \<open>Whether one operator rejects the value.\<close>

definition op_rejects :: "fval \<Rightarrow> fop \<Rightarrow> bool" where
  "op_rejects v op =
     (case op of
        Op_eq w \<Rightarrow> \<not> same_value v w
      | Op_ne w \<Rightarrow> same_value v w
      | Op_in ws \<Rightarrow> \<not> list_ex (same_value v) ws
      | Op_nin ws \<Rightarrow> list_ex (same_value v) ws
      | Op_gt w \<Rightarrow> isComparable v \<and> compare_values (\<le>) v w
      | Op_gte w \<Rightarrow> is_number v \<and> compare_values (<) v w
      | Op_lt w \<Rightarrow> isComparable v \<and> compare_values (\<ge>) v w
      | Op_lte w \<Rightarrow> is_number v \<and> compare_values (>) v w
      | Op_unsupported name \<Rightarrow> False)"

definition unsupported :: "fop \<Rightarrow> bool" where
  "unsupported op \<longleftrightarrow> (case op of Op_unsupported name \<Rightarrow> True | _ \<Rightarrow> False)"

definition matchValue :: "fval \<Rightarrow> fop list \<Rightarrow> bool option" where
  "matchValue v condition =
     (if list_ex unsupported condition then None
      else Some (\<not> list_ex (op_rejects v) condition))"

section \<open>Filters\<close>

datatype filters =
    Fields "(string \<times> fop list) list"
  | And_all "filters list"
  | Or_any "filters list"
  | Not_of filters

fun match_entries :: "document \<Rightarrow> (string \<times> fop list) list \<Rightarrow> bool option" where
  "match_entries obj [] = Some True"
| "match_entries obj ((key, condition) # rest) =
     (case matchValue (obj key) condition of
        None \<Rightarrow> None
      | Some b \<Rightarrow> if \<not> b then Some False else match_entries obj rest)"

fun matchFilter :: "document \<Rightarrow> filters \<Rightarrow> bool option"
  and match_every :: "document \<Rightarrow> filters list \<Rightarrow> bool option"
  and match_some :: "document \<Rightarrow> filters list \<Rightarrow> bool option" where
  "matchFilter obj (Fields entries) = match_entries obj entries"
| "matchFilter obj (And_all fs) = match_every obj fs"
| "matchFilter obj (Or_any fs) = match_some obj fs"
| "matchFilter obj (Not_of f) = map_option Not (matchFilter obj f)"
| "match_every obj [] = Some True"
| "match_every obj (f # fs) =
     (case matchFilter obj f of None \<Rightarrow> None | Some b \<Rightarrow> if b then match_every obj fs else Some False)"
| "match_some obj [] = Some False"
| "match_some obj (f # fs) =
     (case matchFilter obj f of None \<Rightarrow> None | Some b \<Rightarrow> if b then Some True else match_some obj fs)"

section \<open>Dispatch\<close>

text \<open>
  An update event: the paths written and the document looked up after it, if it still exists. The
  listeners it reaches, in order; one whose filter throws takes the stream down (None).
\<close>

record 'c update_listener =
  ul_fields :: "string list option"
  ul_filters :: "filters option"
  ul_callback :: 'c

definition reaches :: "string list \<Rightarrow> document option \<Rightarrow> 'c update_listener \<Rightarrow> bool option" where
  "reaches updated doc l =
     (if (case ul_fields l of None \<Rightarrow> False | Some fs \<Rightarrow> \<not> matchFields updated fs) then Some False
      else (case ul_filters l of
          None \<Rightarrow> Some (doc \<noteq> None)
        | Some f \<Rightarrow> (case doc of None \<Rightarrow> Some False | Some d \<Rightarrow> matchFilter d f)))"

fun reached :: "string list \<Rightarrow> document option \<Rightarrow> 'c update_listener list \<Rightarrow> 'c list option" where
  "reached updated doc [] = Some []"
| "reached updated doc (l # ls) =
     (case reaches updated doc l of
        None \<Rightarrow> None
      | Some b \<Rightarrow> map_option (\<lambda>cs. if b then ul_callback l # cs else cs) (reached updated doc ls))"

section \<open>What they mean\<close>

fun supported :: "filters \<Rightarrow> bool" where
  "supported (Fields entries) = list_all (\<lambda>(key, c). \<not> list_ex unsupported c) entries"
| "supported (And_all fs) = list_all supported fs"
| "supported (Or_any fs) = list_all supported fs"
| "supported (Not_of f) = supported f"

fun holds :: "document \<Rightarrow> filters \<Rightarrow> bool" where
  "holds obj (Fields entries) = (\<forall>(key, c) \<in> set entries. \<forall>op \<in> set c. \<not> op_rejects (obj key) op)"
| "holds obj (And_all fs) = (\<forall>f \<in> set fs. holds obj f)"
| "holds obj (Or_any fs) = (\<exists>f \<in> set fs. holds obj f)"
| "holds obj (Not_of f) = (\<not> holds obj f)"

lemma match_entries_holds:
  "list_all (\<lambda>(key, c). \<not> list_ex unsupported c) entries \<Longrightarrow>
     match_entries obj entries = Some (\<forall>(key, c) \<in> set entries. \<forall>op \<in> set c. \<not> op_rejects (obj key) op)"
  by (induction obj entries rule: match_entries.induct) (auto simp: matchValue_def list_ex_iff)

lemma matchFilter_holds:
  "supported f \<Longrightarrow> matchFilter obj f = Some (holds obj f)"
  "list_all supported fs \<Longrightarrow> match_every obj fs = Some (\<forall>f \<in> set fs. holds obj f)"
  "list_all supported fs \<Longrightarrow> match_some obj fs = Some (\<exists>f \<in> set fs. holds obj f)"
  by (induction obj f and obj fs and obj fs rule: matchFilter_match_every_match_some.induct)
    (simp_all add: match_entries_holds)

text \<open>
  The matcher computes the meaning of a filter: with known operators only, a field filter is
  the conjunction of its operators over its fields, \<open>$and\<close>, \<open>$or\<close> and \<open>$not\<close> are the
  connectives, at any depth, and no filter throws.
\<close>

theorem matchFilter_meaning:
  assumes "supported f" shows "matchFilter obj f = Some (holds obj f)"
  using assms by (rule matchFilter_holds)

definition status_is :: "string \<Rightarrow> document" where
  "status_is st = (\<lambda>key. if key = ''status'' then V_string st else V_undefined)"

theorem matchFilter_meaning_witness:
  "matchFilter (status_is ''RUNNING'') (Or_any [Fields [(''status'', [Op_eq (V_string ''DRAFT'')])],
     Not_of (Fields [(''status'', [Op_ne (V_string ''RUNNING'')])])]) = Some True"
  using matchFilter_meaning [of "Or_any [Fields [(''status'', [Op_eq (V_string ''DRAFT'')])],
     Not_of (Fields [(''status'', [Op_ne (V_string ''RUNNING'')])])]" "status_is ''RUNNING''"]
  by (simp add: unsupported_def op_rejects_def same_value_def status_is_def)

text \<open>
  A comparison of what is not comparable passes: a field that is missing (or null, or a text)
  satisfies every \<open>$gt\<close>, \<open>$gte\<close>, \<open>$lt\<close> and \<open>$lte\<close>, and a date satisfies every
  \<open>$gte\<close> and \<open>$lte\<close>, though each of these filters is accepted.
\<close>

theorem incomparable_values_match:
  "(\<not> isComparable v \<longrightarrow> matchValue v [Op_gt w] = Some True \<and> matchValue v [Op_gte w] = Some True \<and>
      matchValue v [Op_lt w] = Some True \<and> matchValue v [Op_lte w] = Some True) \<and>
   matchValue (V_date d) [Op_gte w] = Some True \<and> matchValue (V_date d) [Op_lte w] = Some True"
  by (cases v) (simp_all add: matchValue_def unsupported_def op_rejects_def isComparable_def is_number_def)

theorem incomparable_values_match_witness:
  "matchValue V_undefined [Op_gt (V_number 5)] = Some True"
  using incomparable_values_match [of V_undefined "V_number 5" 0] by (simp add: isComparable_def)

text \<open>
  A write reaches the listeners of its field and no other: a watched field is matched by the
  path of the field itself and of anything below it, and not by a sibling whose name it begins.
\<close>

theorem matchFields_paths:
  "matchFields updated watched \<longleftrightarrow>
     (\<exists>field \<in> set watched. \<exists>key \<in> set updated. key = field \<or> (\<exists>below. key = field @ ''.'' @ below))"
  by (auto simp: matchFields_def list_ex_iff starts_with_iff)

end
