(* ===== verification/Strategies.thy ===== *)
theory Strategies
  imports Startup Change_Stream
begin

text \<open>
  The strategies: what the worker does when a deployment or a job changes
  (\<open>src/strategies\<close>). A listener is its watched fields, its filter and its callback; a callback
  is a function of the document of the event, which can be older than the store it runs on.
  The clock is read once per callback.
\<close>

record strategy_env =
  se_cfg :: worker_config
  se_nextTaskTime :: "string \<Rightarrow> ms \<Rightarrow> ms"
  se_onchainTimeout :: "address \<Rightarrow> int option"
  se_now :: ms

definition findDeployment :: "string \<Rightarrow> db \<Rightarrow> deployment_document option" where
  "findDeployment jobDeployment s = find_one (\<lambda>d. d_id d = jobDeployment) (db_deployments s)"

definition isSimpleOrSimpleExtendedDeployment :: "deployment_document \<Rightarrow> bool" where
  "isSimpleOrSimpleExtendedDeployment d \<longleftrightarrow> d_strategy d = SIMPLE \<or> d_strategy d = SIMPLE_EXTEND"

definition active_jobs :: "string \<Rightarrow> db \<Rightarrow> nat" where
  "active_jobs deploymentId s = count_docs (\<lambda>j. j_deployment j = deploymentId \<and> job_active j) (db_jobs s)"

definition active_jobs_of :: "string \<Rightarrow> nat \<Rightarrow> db \<Rightarrow> nat" where
  "active_jobs_of deploymentId revision s =
     count_docs (\<lambda>j. j_deployment j = deploymentId \<and> j_revision j = revision \<and> job_active j) (db_jobs s)"

section \<open>A deployment changed\<close>

text \<open>The next firing of a SCHEDULED deployment, now for any other.\<close>

definition list_due :: "strategy_env \<Rightarrow> deployment_document \<Rightarrow> ms" where
  "list_due env d = (if d_strategy d = SCHEDULED then se_nextTaskTime env (nullish (d_schedule d) []) (se_now env)
     else se_now env)"

definition deploymentStatusStartingUpdate :: "strategy_env \<Rightarrow> deployment_document \<Rightarrow> db \<Rightarrow> db" where
  "deploymentStatusStartingUpdate env d s =
     snd (scheduleTask LIST (d_id d) (d_status d) (list_due env d) (se_now env) no_options s)"

definition deploymentStatusStoppingUpdate :: "strategy_env \<Rightarrow> deployment_document \<Rightarrow> db \<Rightarrow> db" where
  "deploymentStatusStoppingUpdate env d s =
     snd (scheduleTask STOP (d_id d) (d_status d) (se_now env) (se_now env) (no_options\<lparr>o_reason := Some Reason_stop\<rparr>) s)"

definition revision_options :: "deployment_document \<Rightarrow> schedule_options" where
  "revision_options d = no_options\<lparr>o_active_revision := Some (d_active_revision d),
     o_reason := Some Reason_revision, o_idempotent := True\<rparr>"

definition deploymentRevisionUpdate :: "strategy_env \<Rightarrow> deployment_document \<Rightarrow> db \<Rightarrow> db" where
  "deploymentRevisionUpdate env d s =
     (let s1 = snd (scheduleTask STOP (d_id d) (d_status d) (se_now env) (se_now env) (revision_options d) s)
      in snd (scheduleTask LIST (d_id d) (d_status d) (list_due env d) (se_now env) (revision_options d) s1))"

definition deploymentReplicaUpdate :: "strategy_env \<Rightarrow> deployment_document \<Rightarrow> db \<Rightarrow> db" where
  "deploymentReplicaUpdate env d s =
     (let activeJobsCount = active_jobs (d_id d) s;
          limited = (\<lambda>ty n. snd (scheduleTask ty (d_id d) (d_status d) (se_now env) (se_now env)
             (no_options\<lparr>o_limit := Some n\<rparr>) s))
      in if activeJobsCount > d_replicas d then limited STOP (activeJobsCount - d_replicas d)
         else if activeJobsCount < d_replicas d then limited LIST (d_replicas d - activeJobsCount)
         else s)"

definition deploymentReservationTermsUpdate :: "strategy_env \<Rightarrow> deployment_document \<Rightarrow> db \<Rightarrow> db" where
  "deploymentReservationTermsUpdate env d s =
     resyncParkedListTasks (\<lambda>t. t_deploymentId t = d_id d) (se_now env) s"

definition deploymentScheduleUpdate :: "strategy_env \<Rightarrow> deployment_document \<Rightarrow> db \<Rightarrow> db" where
  "deploymentScheduleUpdate env d s =
     updateScheduledTasks (d_id d) (se_nextTaskTime env (nullish (d_schedule d) []) (se_now env)) s"

definition displaced_jobs :: "deployment_document \<Rightarrow> address \<Rightarrow> db \<Rightarrow> address list" where
  "displaced_jobs d market s =
     map j_job (filter (\<lambda>j. j_deployment j = d_id d \<and> j_market j \<noteq> Some market \<and> job_active j) (db_jobs s))"

definition swap_job :: "strategy_env \<Rightarrow> deployment_document \<Rightarrow> address \<Rightarrow> db \<Rightarrow> db" where
  "swap_job env d job s =
     snd (scheduleTask STOP (d_id d) (d_status d) (se_now env) (se_now env) (no_options\<lparr>o_job := Some job\<rparr>)
       (snd (disarmStartupDeadline (d_id d) job (se_now env) s)))"

definition market_options :: "nat \<Rightarrow> schedule_options" where
  "market_options n = no_options\<lparr>o_limit := Some n, o_reason := Some Reason_market, o_idempotent := True\<rparr>"

definition deploymentMarketUpdate :: "strategy_env \<Rightarrow> deployment_document \<Rightarrow> db \<Rightarrow> db" where
  "deploymentMarketUpdate env d s =
     (case d_market d of
        None \<Rightarrow> s
      | Some market \<Rightarrow>
          (let displaced = displaced_jobs d market s
           in if displaced = [] then s
              else (let s1 = (if isSimpleOrSimpleExtendedDeployment d
                      then snd (scheduleTask LIST (d_id d) (d_status d) (se_now env) (se_now env)
                        (market_options (length displaced)) s)
                      else s)
                    in fold (swap_job env d) displaced s1)))"

text \<open>The pending, unsent follow-ups of a job: its rotation LIST or its next chain EXTEND.\<close>

definition follow_up :: "deployment_document \<Rightarrow> address \<Rightarrow> task_document \<Rightarrow> bool" where
  "follow_up d job t \<longleftrightarrow> t_deploymentId t = d_id d \<and> t_job t = Some job \<and> t_status t = Some PENDING \<and>
     t_tx t = None \<and> t_extend_seconds t = None"

definition postpone :: "int \<Rightarrow> task_document \<Rightarrow> db \<Rightarrow> db" where
  "postpone deltaMs t s = on_task (\<lambda>u. t_id u = t_id t) (\<lambda>u. u\<lparr>t_due_at := t_due_at t + deltaMs\<rparr>) s"

definition stretch_job :: "strategy_env \<Rightarrow> deployment_document \<Rightarrow> address \<Rightarrow> db \<Rightarrow> db" where
  "stretch_job env d job s =
     (case se_onchainTimeout env job of
        None \<Rightarrow> s
      | Some currentSeconds \<Rightarrow>
          (let delta = d_timeout d * 60 - currentSeconds
           in if delta \<le> 0 then s
              else (let s1 = snd (scheduleTask EXTEND (d_id d) (d_status d) (se_now env) (se_now env)
                        (no_options\<lparr>o_job := Some job, o_extend_seconds := Some delta\<rparr>) s)
                    in fold (postpone (delta * 1000)) (filter (follow_up d job) (db_tasks s1)) s1)))"

definition deploymentTimeoutUpdate :: "strategy_env \<Rightarrow> deployment_document \<Rightarrow> db \<Rightarrow> db" where
  "deploymentTimeoutUpdate env d s =
     fold (stretch_job env d)
       (map j_job (filter (\<lambda>j. j_deployment j = d_id d \<and> j_state j = J_RUNNING) (db_jobs s))) s"

section \<open>A job settled\<close>

definition settle_deployment :: "string \<Rightarrow> db \<Rightarrow> db" where
  "settle_deployment i = on_deployment
     (\<lambda>d. d_id d = i \<and> d_status d \<notin> {ERROR, INSUFFICIENT_FUNDS, ARCHIVED}) (\<lambda>d. d\<lparr>d_status := STOPPED\<rparr>)"

definition drop_job_tasks :: "jobs_document \<Rightarrow> db \<Rightarrow> db" where
  "drop_job_tasks j s = snd (tasks_delete None
     (\<lambda>t. t_deploymentId t = j_deployment j \<and> t_job t = Some (j_job j) \<and> t_task t \<noteq> LIST) s)"

definition jobAllActiveJobsStop :: "jobs_document \<Rightarrow> db \<Rightarrow> db" where
  "jobAllActiveJobsStop j s =
     (let s1 = drop_job_tasks j s
      in case findDeployment (j_deployment j) s1 of
           None \<Rightarrow> s1
         | Some d \<Rightarrow>
             if \<not> isSimpleOrSimpleExtendedDeployment d \<and> d_status d \<noteq> STOPPING then s1
             else if active_jobs (j_deployment j) s1 \<noteq> 0 then s1
             else if d_status d = RUNNING \<and>
               count_docs (\<lambda>t. t_deploymentId t = j_deployment j \<and> t_task t = LIST) (db_tasks s1) > 0 then s1
             else settle_deployment (j_deployment j) s1)"

definition jobEndpointStatusUpdate :: "jobs_document \<Rightarrow> db \<Rightarrow> db" where
  "jobEndpointStatusUpdate j s = refreshDeploymentEndpointStatus (j_deployment j) s"

section \<open>A job runs\<close>

definition simpleExtendedJobRunningUpdate :: "strategy_env \<Rightarrow> jobs_document \<Rightarrow> db \<Rightarrow> db" where
  "simpleExtendedJobRunningUpdate env j s =
     (case findDeployment (j_deployment j) s of
        None \<Rightarrow> s
      | Some d \<Rightarrow>
          if d_strategy d \<noteq> SIMPLE_EXTEND then s
          else snd (scheduleTask EXTEND (d_id d) (d_status d) (getNextExtendTime (d_timeout d) True (se_now env))
            (se_now env) (no_options\<lparr>o_job := Some (j_job j), o_idempotent := True\<rparr>) s))"

definition overcount_options :: schedule_options where
  "overcount_options = no_options\<lparr>o_limit := Some 1, o_reason := Some Reason_overcount, o_idempotent := True\<rparr>"

definition rotation_options :: "jobs_document \<Rightarrow> schedule_options" where
  "rotation_options j = no_options\<lparr>o_job := Some (j_job j), o_limit := Some 1,
     o_active_revision := Some (j_revision j), o_idempotent := True\<rparr>"

definition infiniteJobRunningUpdate :: "strategy_env \<Rightarrow> jobs_document \<Rightarrow> db \<Rightarrow> db" where
  "infiniteJobRunningUpdate env j s =
     (case findDeployment (j_deployment j) s of
        None \<Rightarrow> s
      | Some d \<Rightarrow>
          if \<not> isActiveInfiniteDeployment d then s
          else (let now = se_now env;
                    s1 = armStartupDeadline d (j_job j) now s;
                    s2 = (if active_jobs_of (j_deployment j) (d_active_revision d) s1 > d_replicas d
                      then snd (scheduleTask STOP (d_id d) (d_status d) now now overcount_options s1) else s1);
                    rotate = getTimeNthMinutesBeforeTimeout (d_timeout d)
                      (nullish (d_rotation_time d) (default_minutes_before_timeout (se_cfg env))) now
                in snd (scheduleTask LIST (d_id d) (d_status d) rotate now (rotation_options j) s2)))"

section \<open>A job of an INFINITE deployment ended\<close>

definition allJobsRapid :: "worker_config \<Rightarrow> jobs_document list \<Rightarrow> bool" where
  "allJobsRapid cfg jobs \<longleftrightarrow>
     \<not> length jobs < rapid_completion_job_count cfg \<and>
     list_all (\<lambda>j. j_time_start j \<noteq> 0 \<and> nullish (j_time_end j) 0 \<noteq> 0 \<and>
       (the (j_time_end j) - j_time_start j) * 1000 < rapid_completion_threshold_minutes cfg * 60000) jobs"

text \<open>\<open>limit(0)\<close> is no limit. The sort is by \<open>updated_at\<close>, latest first; the order of equal
  times is the collection's.\<close>

definition mongo_limit :: "nat \<Rightarrow> 'a list \<Rightarrow> 'a list" where
  "mongo_limit n xs = (if n = 0 then xs else take n xs)"

definition recent_jobs :: "worker_config \<Rightarrow> deployment_document \<Rightarrow> db \<Rightarrow> jobs_document list" where
  "recent_jobs cfg d s = mongo_limit (d_replicas d * rapid_completion_job_count cfg)
     (sort_key (\<lambda>j. - j_updated_at j)
       (filter (\<lambda>j. j_deployment j = d_id d \<and> j_state j = J_COMPLETED \<and> d_updated_at d \<le> j_created_at j) (db_jobs s)))"

definition is_rotation :: "deployment_document \<Rightarrow> address \<Rightarrow> task_document \<Rightarrow> bool" where
  "is_rotation d job t \<longleftrightarrow> t_deploymentId t = d_id d \<and> t_task t = LIST \<and> t_job t = Some job"

definition withdraw_rotation :: "deployment_document \<Rightarrow> address \<Rightarrow> db \<Rightarrow> db" where
  "withdraw_rotation d job s = snd (tasks_delete (Some LIST) (\<lambda>t. is_rotation d job t \<and> t_status t = Some PENDING) s)"

definition refill_options :: "bool \<Rightarrow> schedule_options" where
  "refill_options idempotent = no_options\<lparr>o_limit := Some 1, o_reason := Some Reason_refill, o_idempotent := idempotent\<rparr>"

definition show_option :: "int option \<Rightarrow> string" where
  "show_option x = (case x of None \<Rightarrow> ''undefined'' | Some i \<Rightarrow> show_int i)"

definition fail_safe_event :: "worker_config \<Rightarrow> bool \<Rightarrow> deployment_document \<Rightarrow> ms \<Rightarrow> event_document" where
  "fail_safe_event cfg startupFailed d now =
     (let rounds = show_nat (rapid_completion_max_streak cfg)
      in deployment_event (d_id d) (if startupFailed then ''STARTUP_TIMEOUT_FAIL_SAFE'' else ''RAPID_COMPLETION_FAIL_SAFE'')
        (if startupFailed
         then ''Deployment stopped to protect funds: '' @ rounds @ '' consecutive rounds of jobs failing to come online within '' @
           show_option (d_startup_timeout d) @ '' minutes of starting.''
         else ''Deployment stopped to protect funds: '' @ rounds @ '' consecutive rounds of jobs completed in under '' @
           show_int (rapid_completion_threshold_minutes cfg) @ '' minutes.'') None now)"

definition throttle_event :: "bool \<Rightarrow> deployment_document \<Rightarrow> nat \<Rightarrow> rat \<Rightarrow> ms \<Rightarrow> event_document" where
  "throttle_event startupFailed d newStreak delayMs now =
     (let wait = show_int (js_round (delayMs / 1000)) @ ''s.''
      in deployment_event (d_id d) (if startupFailed then ''STARTUP_TIMEOUT_THROTTLE'' else ''RAPID_COMPLETION_THROTTLE'')
        (if startupFailed
         then ''Job did not come online within '' @ show_option (d_startup_timeout d) @
           '' minutes of starting and was replaced (round '' @ show_nat newStreak @ ''): next job throttled by '' @ wait
         else ''Jobs completing rapidly (round '' @ show_nat newStreak @ ''): next job throttled by '' @ wait) None now)"

text \<open>The fail-safe: in one transaction, the deployment goes to STOPPING if it is still RUNNING.\<close>

definition fail_safe :: "worker_config \<Rightarrow> bool \<Rightarrow> deployment_document \<Rightarrow> ms \<Rightarrow> db \<Rightarrow> db" where
  "fail_safe cfg startupFailed d now s =
     (let running = (\<lambda>e. d_id e = d_id d \<and> d_status e = RUNNING)
      in if \<not> matches running (db_deployments s) then s
         else insert_event (fail_safe_event cfg startupFailed d now)
           (on_deployment running (\<lambda>e. e\<lparr>d_status := STOPPING\<rparr>) s))"

definition throttle :: "worker_config \<Rightarrow> bool \<Rightarrow> deployment_document \<Rightarrow> address \<Rightarrow> ms \<Rightarrow> db \<Rightarrow> db" where
  "throttle cfg startupFailed d job now s =
     (let s1 = withdraw_rotation d job s;
          streak = nullish (d_rapid_streak d) 0;
          delayMs = rapidCompletionCooldownMs cfg (int streak);
          due = to_date (of_int now + delayMs);
          (created, s2) = scheduleTask LIST (d_id d) (d_status d) due now (refill_options True) s1;
          newStreak = Suc streak
      in if \<not> created then s2
         else if rapid_completion_max_streak cfg > 0 \<and> newStreak \<ge> rapid_completion_max_streak cfg
         then fail_safe cfg startupFailed d now s2
         else insert_event (throttle_event startupFailed d newStreak delayMs now)
           (on_deployment (\<lambda>e. d_id e = d_id d)
             (\<lambda>e. e\<lparr>d_rapid_streak := Some newStreak, d_next_retry_at := Some due\<rparr>) s2))"

definition reset_streak :: "deployment_document \<Rightarrow> db \<Rightarrow> db" where
  "reset_streak d s =
     (if truthy_nat (d_rapid_streak d) \<or> d_next_retry_at d \<noteq> None
      then on_deployment (\<lambda>e. d_id e = d_id d) (\<lambda>e. e\<lparr>d_rapid_streak := Some 0, d_next_retry_at := None\<rparr>) s
      else s)"

definition refill :: "deployment_document \<Rightarrow> address \<Rightarrow> ms \<Rightarrow> db \<Rightarrow> db" where
  "refill d job now s =
     (if active_jobs_of (d_id d) (d_active_revision d) s \<ge> d_replicas d then withdraw_rotation d job s
      else (case find_one (is_rotation d job) (db_tasks s) of
          Some existing \<Rightarrow>
            if isTaskWanted existing d True
            then on_task (\<lambda>t. t_id t = t_id existing) (\<lambda>t. t\<lparr>t_due_at := now\<rparr>) s
            else snd (scheduleTask LIST (d_id d) (d_status d) now now (refill_options False) s)
        | None \<Rightarrow> snd (scheduleTask LIST (d_id d) (d_status d) now now (refill_options False) s)))"

definition infiniteJobStateCompletedOrStopUpdate :: "strategy_env \<Rightarrow> jobs_document \<Rightarrow> db \<Rightarrow> db" where
  "infiniteJobStateCompletedOrStopUpdate env j s =
     (case findDeployment (j_deployment j) s of
        None \<Rightarrow> s
      | Some d \<Rightarrow>
          if \<not> isActiveInfiniteDeployment d \<or> j_revision j \<noteq> d_active_revision d then s
          else (let startupFailed = (j_startup_deadline j \<noteq> None)
                in if startupFailed \<or> allJobsRapid (se_cfg env) (recent_jobs (se_cfg env) d s)
                   then throttle (se_cfg env) startupFailed d (j_job j) (se_now env) s
                   else refill d (j_job j) (se_now env) (reset_streak d s)))"

section \<open>One round per throttled LIST\<close>

lemma find_on_deployment:
  assumes "distinct (map d_id (db_deployments s))" "\<And>e. d_id (f e) = d_id e"
  shows "findDeployment i (on_deployment (\<lambda>e. d_id e = i \<and> Q e) f s) =
    map_option (\<lambda>e. if Q e then f e else e) (findDeployment i s)"
proof -
  have "find_one (\<lambda>e. d_id e = i) (update_one (\<lambda>e. d_id e = i \<and> Q e) f ds) =
      map_option (\<lambda>e. if Q e then f e else e) (find_one (\<lambda>e. d_id e = i) ds)"
    if "distinct (map d_id ds)" for ds
    using that
  proof (induction ds)
    case (Cons e ds)
    show ?case
    proof (cases "d_id e = i")
      case True
      then show ?thesis using assms(2) by (simp add: find_one_def)
    next
      case False
      with Cons show ?thesis by (simp add: find_one_def)
    qed
  qed (simp add: find_one_def)
  then show ?thesis using assms(1) by (simp add: findDeployment_def on_deployment_def)
qed

lemma findDeployment_id: "findDeployment i s = Some d \<Longrightarrow> d_id d = i \<and> d \<in> set (db_deployments s)"
  unfolding findDeployment_def by (drule find_one_SomeD) simp

lemma findDeployment_cong: "db_deployments s = db_deployments s' \<Longrightarrow> findDeployment i s = findDeployment i s'"
  by (simp add: findDeployment_def)

lemma withdraw_frame [simp]:
  "db_deployments (withdraw_rotation d job s) = db_deployments s" "db_jobs (withdraw_rotation d job s) = db_jobs s"
  "db_events (withdraw_rotation d job s) = db_events s" "db_next_oid (withdraw_rotation d job s) = db_next_oid s"
  "db_tasks (withdraw_rotation d job s) = filter (\<lambda>t. \<not> (is_rotation d job t \<and> t_status t = Some PENDING)) (db_tasks s)"
  by (simp_all add: withdraw_rotation_def delete_many_def)

lemma withdraw_none:
  assumes "\<forall>t \<in> set (db_tasks s). \<not> (is_rotation d job t \<and> t_status t = Some PENDING)"
  shows "withdraw_rotation d job s = s"
proof -
  have "delete_many (\<lambda>t. is_rotation d job t \<and> t_status t = Some PENDING) (db_tasks s) = db_tasks s"
    using assms by (simp add: delete_many_def filter_id_conv)
  moreover have "filter (\<lambda>t. (is_rotation d job t \<and> t_status t = Some PENDING) \<and> holds_reservation t) (db_tasks s) = []"
    using assms by (auto simp: filter_empty_conv)
  ultimately show ?thesis by (simp add: withdraw_rotation_def tasks_delete_def)
qed

lemma throttle_again:
  assumes "\<forall>t \<in> set (db_tasks s). \<not> (is_rotation d job t \<and> t_status t = Some PENDING)"
    and "matches (same_intent s LIST (d_id d) (refill_options True)) (db_tasks s)"
  shows "throttle cfg f d job now s = s"
proof -
  have "scheduleTask LIST (d_id d) (d_status d) due now (refill_options True) s = (False, s)" for due
    using assms(2) scheduleTask_not_created [of LIST "d_id d" "d_status d" due now "refill_options True" s]
    by (simp add: prod_eq_iff scheduleTask_created_iff refill_options_def no_options_def)
  then show ?thesis unfolding throttle_def by (simp add: withdraw_none [OF assms(1)] Let_def)
qed

text \<open>What a round leaves: the pending LIST that is its token, and the deployment.\<close>

lemma throttle_token:
  assumes "distinct (map d_id (db_deployments s))" "findDeployment (d_id d) s = Some d" "d_status d = RUNNING"
    and "s' = throttle cfg f d job now s"
  shows "\<forall>t \<in> set (db_tasks s'). \<not> (is_rotation d job t \<and> t_status t = Some PENDING)"
    and "db_jobs s' = db_jobs s"
    and "\<exists>d'. findDeployment (d_id d) s' = Some d' \<and>
      (d_status d' = STOPPING \<or>
       (\<exists>streak retry. d' = d\<lparr>d_rapid_streak := streak, d_next_retry_at := retry\<rparr> \<and>
          matches (same_intent s' LIST (d_id d) (refill_options True)) (db_tasks s')))"
proof -
  let ?s1 = "withdraw_rotation d job s"
  let ?streak = "nullish (d_rapid_streak d) 0"
  let ?due = "to_date (of_int now + rapidCompletionCooldownMs cfg (int ?streak))"
  let ?i = "d_id d"
  obtain c s2 where c: "scheduleTask LIST ?i (d_status d) ?due now (refill_options True) ?s1 = (c, s2)" by (rule prod.exhaust)
  have deps: "db_deployments s2 = db_deployments s"
    using scheduleTask_deployments [of LIST ?i "d_status d" ?due now "refill_options True" ?s1] c assms(3) by simp
  have jobs: "db_jobs s2 = db_jobs s"
    using scheduleTask_frame(1) [of LIST ?i "d_status d" ?due now "refill_options True" ?s1] c by simp
  have doc: "\<not> is_rotation d job (scheduled_doc ?s1 LIST ?i ?due now (refill_options True))"
    by (simp add: is_rotation_def scheduled_doc_def refill_options_def no_options_def)
  have tasks: "db_tasks s2 = (if c then db_tasks ?s1 @ [scheduled_doc ?s1 LIST ?i ?due now (refill_options True)] else db_tasks ?s1)"
    using scheduleTask_tasks [of LIST ?i "d_status d" ?due now "refill_options True" ?s1] c by simp
  have intent: "matches (same_intent s2 LIST ?i (refill_options True)) (db_tasks s2)"
  proof (cases c)
    case True
    have "same_intent s2 LIST ?i (refill_options True) = same_intent ?s1 LIST ?i (refill_options True)"
      using same_intent_after [of LIST ?i "d_status d" ?due now "refill_options True" ?s1] c by simp
    with True tasks show ?thesis
      using same_intent_own_doc [of "refill_options True" ?s1 LIST ?i ?due now]
      by (auto simp: matches_iff refill_options_def no_options_def)
  next
    case False
    with c have "s2 = ?s1" "matches (same_intent ?s1 LIST ?i (refill_options True)) (db_tasks ?s1)"
      using scheduleTask_not_created [of LIST ?i "d_status d" ?due now "refill_options True" ?s1]
        scheduleTask_created_iff [of LIST ?i "d_status d" ?due now "refill_options True" ?s1]
      by (auto simp: refill_options_def no_options_def)
    then show ?thesis by simp
  qed
  have find2: "findDeployment ?i s2 = Some d" using assms(2) deps by (simp add: findDeployment_def)
  have dist2: "distinct (map d_id (db_deployments s2))" using assms(1) deps by simp
  let ?stop = "c \<and> rapid_completion_max_streak cfg > 0 \<and> Suc ?streak \<ge> rapid_completion_max_streak cfg"
  let ?stopped = "on_deployment (\<lambda>e. d_id e = ?i \<and> d_status e = RUNNING) (\<lambda>e. e\<lparr>d_status := STOPPING\<rparr>) s2"
  let ?bumped = "on_deployment (\<lambda>e. d_id e = ?i) (\<lambda>e. e\<lparr>d_rapid_streak := Some (Suc ?streak), d_next_retry_at := Some ?due\<rparr>) s2"
  have running: "matches (\<lambda>e. d_id e = ?i \<and> d_status e = RUNNING) (db_deployments s2)"
    using findDeployment_id [OF find2] assms(3) by (auto simp: matches_iff)
  have s': "s' = (if \<not> c then s2 else if ?stop then insert_event (fail_safe_event cfg f d now) ?stopped
      else insert_event (throttle_event f d (Suc ?streak) (rapidCompletionCooldownMs cfg (int ?streak)) now) ?bumped)"
    unfolding assms(4) throttle_def Let_def c prod.case fail_safe_def using running by simp
  then have frame: "db_tasks s' = db_tasks s2" "db_jobs s' = db_jobs s2" by (auto simp: on_deployment_def)
  show "\<forall>t \<in> set (db_tasks s'). \<not> (is_rotation d job t \<and> t_status t = Some PENDING)"
    unfolding frame tasks using doc by simp
  show "db_jobs s' = db_jobs s" by (simp add: frame jobs)
  have find_event: "findDeployment ?i (insert_event e u) = findDeployment ?i u" for e u by (rule findDeployment_cong) simp
  have same: "same_intent s' LIST ?i (refill_options True) = same_intent s2 LIST ?i (refill_options True)"
    if "findDeployment ?i s' = Some (d\<lparr>d_rapid_streak := x, d_next_retry_at := y\<rparr>)" for x y
    using that find2
    by (intro same_intent_cong)
      (simp_all add: scheduled_revision_def scheduled_run_def scheduled_current_def findDeployment_def)
  consider "\<not> c" | "?stop" | "c" "\<not> ?stop" by blast
  then show "\<exists>d'. findDeployment ?i s' = Some d' \<and>
      (d_status d' = STOPPING \<or>
       (\<exists>streak retry. d' = d\<lparr>d_rapid_streak := streak, d_next_retry_at := retry\<rparr> \<and>
          matches (same_intent s' LIST ?i (refill_options True)) (db_tasks s')))"
  proof cases
    case 1
    then have "s' = s2" using s' by simp
    moreover have "d = d\<lparr>d_rapid_streak := d_rapid_streak d, d_next_retry_at := d_next_retry_at d\<rparr>" by simp
    ultimately show ?thesis using find2 intent by blast
  next
    case 2
    then have "findDeployment ?i s' = findDeployment ?i ?stopped" using s' find_event by simp
    also have "\<dots> = Some (d\<lparr>d_status := STOPPING\<rparr>)"
      using find_on_deployment [OF dist2, of "\<lambda>e. e\<lparr>d_status := STOPPING\<rparr>" ?i "\<lambda>e. d_status e = RUNNING"] find2 assms(3)
      by simp
    finally show ?thesis by simp
  next
    case 3
    then have "findDeployment ?i s' = findDeployment ?i ?bumped" using s' find_event by auto
    also have "\<dots> = Some (d\<lparr>d_rapid_streak := Some (Suc ?streak), d_next_retry_at := Some ?due\<rparr>)"
      using find_on_deployment [OF dist2, of "\<lambda>e. e\<lparr>d_rapid_streak := Some (Suc ?streak), d_next_retry_at := Some ?due\<rparr>" ?i "\<lambda>_. True"] find2
      by simp
    finally show ?thesis using same intent frame(1) by auto
  qed
qed

text \<open>When the handler throttles: the job failed its startup, or the recent jobs were all rapid.\<close>

definition rapid_round :: "worker_config \<Rightarrow> jobs_document \<Rightarrow> deployment_document \<Rightarrow> db \<Rightarrow> bool" where
  "rapid_round cfg j d s \<longleftrightarrow> isActiveInfiniteDeployment d \<and> j_revision j = d_active_revision d \<and>
     (j_startup_deadline j \<noteq> None \<or> allJobsRapid cfg (recent_jobs cfg d s))"

lemma handler_throttles:
  assumes "findDeployment (j_deployment j) s = Some d" "rapid_round (se_cfg env) j d s"
  shows "infiniteJobStateCompletedOrStopUpdate env j s =
    throttle (se_cfg env) (j_startup_deadline j \<noteq> None) d (j_job j) (se_now env) s"
  using assms by (simp add: infiniteJobStateCompletedOrStopUpdate_def rapid_round_def Let_def)

text \<open>
  A rapid round is counted once: however often the event of one ended job is delivered, and
  however much later, the second delivery finds the round's throttled LIST pending (or the
  deployment stopping) and changes nothing at all: no second streak step, no second event, no
  jump to the fail-safe.
\<close>

theorem rapid_round_counted_once:
  assumes "distinct (map d_id (db_deployments s))" "findDeployment (j_deployment j) s = Some d"
    and "rapid_round (se_cfg env) j d s" "se_cfg env' = se_cfg env"
    and "s' = infiniteJobStateCompletedOrStopUpdate env j s"
  shows "infiniteJobStateCompletedOrStopUpdate env' j s' = s'"
proof -
  let ?cfg = "se_cfg env"
  let ?f = "j_startup_deadline j \<noteq> None"
  have i: "j_deployment j = d_id d" using findDeployment_id [OF assms(2)] by simp
  have s': "s' = throttle ?cfg ?f d (j_job j) (se_now env) s"
    using handler_throttles [OF assms(2,3)] assms(5) by simp
  have find: "findDeployment (d_id d) s = Some d" using assms(2) i by simp
  have run: "d_status d = RUNNING" using assms(3) by (simp add: rapid_round_def isActiveInfiniteDeployment_def)
  note token = throttle_token [OF assms(1) find run s']
  obtain d' where d': "findDeployment (d_id d) s' = Some d'" and
    what: "d_status d' = STOPPING \<or> (\<exists>streak retry. d' = d\<lparr>d_rapid_streak := streak, d_next_retry_at := retry\<rparr> \<and>
          matches (same_intent s' LIST (d_id d) (refill_options True)) (db_tasks s'))"
    using token(3) by blast
  from what show ?thesis
  proof (elim disjE exE conjE)
    assume "d_status d' = STOPPING"
    then have "\<not> isActiveInfiniteDeployment d'" by (simp add: isActiveInfiniteDeployment_def)
    then show ?thesis using d' by (simp add: infiniteJobStateCompletedOrStopUpdate_def i)
  next
    fix streak retry
    assume e: "d' = d\<lparr>d_rapid_streak := streak, d_next_retry_at := retry\<rparr>"
      and m: "matches (same_intent s' LIST (d_id d) (refill_options True)) (db_tasks s')"
    have "recent_jobs ?cfg d' s' = recent_jobs ?cfg d s" by (simp add: recent_jobs_def e token(2))
    then have "rapid_round (se_cfg env') j d' s'"
      using assms(3,4) by (simp add: rapid_round_def e isActiveInfiniteDeployment_def)
    then have "infiniteJobStateCompletedOrStopUpdate env' j s' =
        throttle (se_cfg env') ?f d' (j_job j) (se_now env') s'"
      using d' by (intro handler_throttles) (simp_all add: i)
    also have "\<dots> = s'"
    proof (rule throttle_again)
      show "\<forall>t \<in> set (db_tasks s'). \<not> (is_rotation d' (j_job j) t \<and> t_status t = Some PENDING)"
        using token(1) by (simp add: is_rotation_def e)
      show "matches (same_intent s' LIST (d_id d') (refill_options True)) (db_tasks s')" using m by (simp add: e)
    qed
    finally show ?thesis .
  qed
qed

text \<open>
  Rapid rounds end: each round that wins its token raises the streak by one and holds the next
  LIST back by that streak's cooldown, until the round that reaches the ceiling, which stops the
  deployment; so a RUNNING deployment never carries a streak at or above the ceiling.
\<close>

theorem rapid_rounds_end:
  assumes "distinct (map d_id (db_deployments s))" "findDeployment (j_deployment j) s = Some d"
    and "rapid_round (se_cfg env) j d s"
    and "\<not> matches (same_intent s LIST (d_id d) (refill_options True)) (db_tasks s)"
    and "s' = infiniteJobStateCompletedOrStopUpdate env j s"
    and "streak = nullish (d_rapid_streak d) 0" "maxStreak = rapid_completion_max_streak (se_cfg env)"
    and "due = to_date (of_int (se_now env) + rapidCompletionCooldownMs (se_cfg env) (int streak))"
  shows "findDeployment (d_id d) s' = Some (if 0 < maxStreak \<and> maxStreak \<le> Suc streak then d\<lparr>d_status := STOPPING\<rparr>
      else d\<lparr>d_rapid_streak := Some (Suc streak), d_next_retry_at := Some due\<rparr>) \<and>
    length (db_events s') = Suc (length (db_events s)) \<and>
    (\<exists>t. db_tasks s' = filter (\<lambda>t. \<not> (is_rotation d (j_job j) t \<and> t_status t = Some PENDING)) (db_tasks s) @ [t] \<and>
       t_task t = LIST \<and> t_limit t = Some 1 \<and> t_due_at t = due \<and> t_deploymentId t = d_id d)"
proof -
  let ?cfg = "se_cfg env" and ?now = "se_now env"
  let ?f = "j_startup_deadline j \<noteq> None"
  let ?s1 = "withdraw_rotation d (j_job j) s"
  let ?delay = "rapidCompletionCooldownMs ?cfg (int streak)"
  have i: "j_deployment j = d_id d" using findDeployment_id [OF assms(2)] by simp
  have run: "d_status d = RUNNING" using assms(3) by (simp add: rapid_round_def isActiveInfiniteDeployment_def)
  have s': "s' = throttle ?cfg ?f d (j_job j) ?now s" using handler_throttles [OF assms(2,3)] assms(5) by simp
  have "same_intent ?s1 LIST (d_id d) (refill_options True) = same_intent s LIST (d_id d) (refill_options True)"
    by (rule same_intent_cong) (simp_all add: scheduled_revision_def scheduled_run_def scheduled_current_def)
  with assms(4) have "\<not> matches (same_intent ?s1 LIST (d_id d) (refill_options True)) (db_tasks ?s1)"
    by (auto simp: matches_iff)
  then have c: "fst (scheduleTask LIST (d_id d) (d_status d) due ?now (refill_options True) ?s1)"
    by (simp add: scheduleTask_created_iff)
  define s2 where "s2 = snd (scheduleTask LIST (d_id d) (d_status d) due ?now (refill_options True) ?s1)"
  have deps: "db_deployments s2 = db_deployments s" by (simp add: s2_def scheduleTask_deployments run)
  have ev: "db_events s2 = db_events s" by (simp add: s2_def)
  have ts: "db_tasks s2 = db_tasks ?s1 @ [scheduled_doc ?s1 LIST (d_id d) due ?now (refill_options True)]"
    using c by (simp add: s2_def scheduleTask_tasks)
  have find2: "findDeployment (d_id d) s2 = Some d" using assms(2) deps i by (simp add: findDeployment_def)
  have dist2: "distinct (map d_id (db_deployments s2))" using assms(1) deps by simp
  have running: "matches (\<lambda>e. d_id e = d_id d \<and> d_status e = RUNNING) (db_deployments s2)"
    using findDeployment_id [OF find2] run by (auto simp: matches_iff)
  have find_event: "findDeployment i (insert_event e u) = findDeployment i u" for i e u by (rule findDeployment_cong) simp
  let ?doc = "scheduled_doc ?s1 LIST (d_id d) due ?now (refill_options True)"
  have doc: "t_task ?doc = LIST" "t_limit ?doc = Some 1" "t_due_at ?doc = due" "t_deploymentId ?doc = d_id d"
    by (simp_all add: scheduled_doc_def refill_options_def no_options_def)
  have pair: "scheduleTask LIST (d_id d) (d_status d) due ?now (refill_options True) ?s1 = (True, s2)"
    using c by (simp add: s2_def prod_eq_iff)
  show ?thesis
  proof (cases "0 < maxStreak \<and> maxStreak \<le> Suc streak")
    case True
    let ?stopped = "on_deployment (\<lambda>e. d_id e = d_id d \<and> d_status e = RUNNING) (\<lambda>e. e\<lparr>d_status := STOPPING\<rparr>) s2"
    have e: "s' = insert_event (fail_safe_event ?cfg ?f d ?now) ?stopped"
      unfolding s' throttle_def Let_def assms(6) [symmetric] assms(8) [symmetric] pair prod.case fail_safe_def
      using True running by (simp add: assms(7))
    have "findDeployment (d_id d) ?stopped = Some (d\<lparr>d_status := STOPPING\<rparr>)"
      using find_on_deployment [OF dist2, of "\<lambda>e. e\<lparr>d_status := STOPPING\<rparr>" "d_id d" "\<lambda>e. d_status e = RUNNING"] find2 run
      by simp
    moreover have "db_events ?stopped = db_events s" "db_tasks ?stopped = db_tasks s2" using ev by (simp_all add: on_deployment_def)
    ultimately show ?thesis using True ts doc by (auto simp: e find_event insert_event_def insert_one_def findDeployment_def)
  next
    case False
    let ?g = "\<lambda>e. e\<lparr>d_rapid_streak := Some (Suc streak), d_next_retry_at := Some due\<rparr>"
    let ?bumped = "on_deployment (\<lambda>e. d_id e = d_id d) ?g s2"
    have e: "s' = insert_event (throttle_event ?f d (Suc streak) ?delay ?now) ?bumped"
      unfolding s' throttle_def Let_def assms(6) [symmetric] assms(8) [symmetric] pair prod.case
      using False by (auto simp: assms(7))
    have "findDeployment (d_id d) ?bumped = Some (?g d)"
      using find_on_deployment [OF dist2, of ?g "d_id d" "\<lambda>_. True"] find2 by simp
    moreover have "db_events ?bumped = db_events s" "db_tasks ?bumped = db_tasks s2" using ev by (simp_all add: on_deployment_def)
    ultimately show ?thesis using False ts doc by (auto simp: e find_event insert_event_def insert_one_def findDeployment_def)
  qed
qed

section \<open>A market swap\<close>

lemma disarm_frame [simp]:
  "db_tasks (snd (disarmStartupDeadline dep job now s)) = filter (\<lambda>t. \<not> cancellable dep job now t) (db_tasks s)"
  "db_next_oid (snd (disarmStartupDeadline dep job now s)) = db_next_oid s"
  "db_deployments (snd (disarmStartupDeadline dep job now s)) = db_deployments s"
  by (simp_all add: disarmStartupDeadline_def cancel_stop_def clear_marker_def delete_many_def Let_def case_prod_beta)

lemma scheduleTask_next_oid:
  "db_next_oid (snd (scheduleTask ty i st due now opts s)) =
     (if fst (scheduleTask ty i st due now opts s) then Suc (db_next_oid s) else db_next_oid s)"
  by (simp add: scheduleTask_def Let_def insert_task_def)

lemma scheduleTask_plain:
  "\<not> o_idempotent opts \<Longrightarrow> o_handoff_of opts = None \<Longrightarrow> fst (scheduleTask ty i st due now opts s)"
  by (simp add: scheduleTask_created_iff)

text \<open>What a task asks for, and the tasks that are new since an object id.\<close>

definition ask :: "task_document \<Rightarrow> task_type \<times> string \<times> address option \<times> nat option \<times> ms" where
  "ask t = (t_task t, t_deploymentId t, t_job t, t_limit t, t_due_at t)"

definition fresh_tasks :: "object_id \<Rightarrow> db \<Rightarrow> task_document list" where
  "fresh_tasks n s = filter (\<lambda>t. n \<le> t_id t) (db_tasks s)"

lemma fresh_nothing: "store_wf s \<Longrightarrow> fresh_tasks (db_next_oid s) s = []"
  by (auto simp: fresh_tasks_def store_wf_def filter_empty_conv)

lemma swap_jobs_tasks:
  assumes "n \<le> db_next_oid s" "\<forall>t \<in> set (fresh_tasks n s). t_due_at t = se_now env"
  shows "map ask (fresh_tasks n (fold (swap_job env d) jobs s)) =
      map ask (fresh_tasks n s) @ map (\<lambda>a. (STOP, d_id d, Some a, None, se_now env)) jobs \<and>
    filter (\<lambda>t. t_id t < n) (db_tasks (fold (swap_job env d) jobs s)) =
      filter (\<lambda>t. t_id t < n \<and> \<not> (\<exists>a \<in> set jobs. cancellable (d_id d) a (se_now env) t)) (db_tasks s)"
  using assms
proof (induction jobs arbitrary: s)
  case (Cons a jobs)
  let ?now = "se_now env"
  let ?opts = "no_options\<lparr>o_job := Some a\<rparr>"
  let ?u = "snd (disarmStartupDeadline (d_id d) a ?now s)"
  let ?doc = "scheduled_doc ?u STOP (d_id d) ?now ?now ?opts"
  let ?s1 = "swap_job env d a s"
  have c: "fst (scheduleTask STOP (d_id d) (d_status d) ?now ?now ?opts ?u)"
    by (rule scheduleTask_plain) (simp_all add: no_options_def)
  have ts: "db_tasks ?s1 = filter (\<lambda>t. \<not> cancellable (d_id d) a ?now t) (db_tasks s) @ [?doc]"
    using c by (simp add: swap_job_def scheduleTask_tasks)
  have oid: "db_next_oid ?s1 = Suc (db_next_oid s)" using c by (simp add: swap_job_def scheduleTask_next_oid)
  have doc: "ask ?doc = (STOP, d_id d, Some a, None, ?now)" "t_id ?doc = db_next_oid s" "t_due_at ?doc = ?now"
    by (simp_all add: ask_def scheduled_doc_def no_options_def)
  have keep: "filter (\<lambda>t. n \<le> t_id t) (filter (\<lambda>t. \<not> cancellable (d_id d) a ?now t) (db_tasks s)) = fresh_tasks n s"
    using Cons.prems(2) unfolding fresh_tasks_def filter_filter
    by (intro filter_cong) (auto simp: cancellable_def)
  have fresh: "fresh_tasks n ?s1 = fresh_tasks n s @ [?doc]"
    using Cons.prems(1) doc(2) keep by (simp add: fresh_tasks_def ts)
  have old: "filter (\<lambda>t. t_id t < n) (db_tasks ?s1) = filter (\<lambda>t. t_id t < n \<and> \<not> cancellable (d_id d) a ?now t) (db_tasks s)"
    using Cons.prems(1) doc(2) by (simp add: ts conj_commute)
  have "n \<le> db_next_oid ?s1" "\<forall>t \<in> set (fresh_tasks n ?s1). t_due_at t = ?now"
    using Cons.prems doc(3) by (simp_all add: oid fresh)
  note IH = Cons.IH [OF this]
  have split: "filter (\<lambda>t. t_id t < n \<and> Q t) xs = filter Q (filter (\<lambda>t. t_id t < n) xs)" for Q xs
    by (simp add: conj_commute)
  show ?case
  proof (intro conjI)
    show "map ask (fresh_tasks n (fold (swap_job env d) (a # jobs) s)) =
        map ask (fresh_tasks n s) @ map (\<lambda>a. (STOP, d_id d, Some a, None, ?now)) (a # jobs)"
      using IH by (simp add: fresh doc(1))
    have "filter (\<lambda>t. t_id t < n) (db_tasks (fold (swap_job env d) (a # jobs) s)) =
        filter (\<lambda>t. \<not> (\<exists>a \<in> set jobs. cancellable (d_id d) a ?now t)) (filter (\<lambda>t. t_id t < n) (db_tasks ?s1))"
      using IH by (simp add: conj_commute)
    also have "\<dots> = filter (\<lambda>t. t_id t < n \<and> \<not> (\<exists>a \<in> set (a # jobs). cancellable (d_id d) a ?now t)) (db_tasks s)"
      unfolding old filter_filter by (rule filter_cong) auto
    finally show "filter (\<lambda>t. t_id t < n) (db_tasks (fold (swap_job env d) (a # jobs) s)) =
        filter (\<lambda>t. t_id t < n \<and> \<not> (\<exists>a \<in> set (a # jobs). cancellable (d_id d) a ?now t)) (db_tasks s)" .
  qed
qed simp

text \<open>
  C18: A market swap moves exactly the displaced jobs: each active job of the deployment on another
  market gets one STOP of its own, due now, and a SIMPLE or SIMPLE-EXTEND deployment one LIST for
  as many, ahead of the stops, unless one is pending already; a job on the new market gets none,
  and of the tasks that were there only the displaced jobs' own future stops are withdrawn.
\<close>

theorem market_swap_stops_displaced:
  assumes "store_wf s" "d_market d = Some market"
    and "displaced = map j_job (filter (\<lambda>j. j_deployment j = d_id d \<and> j_market j \<noteq> Some market \<and> job_active j) (db_jobs s))"
    and "s' = deploymentMarketUpdate env d s"
  shows "map ask (fresh_tasks (db_next_oid s) s') =
      (if displaced \<noteq> [] \<and> isSimpleOrSimpleExtendedDeployment d \<and>
          \<not> matches (same_intent s LIST (d_id d) (market_options (length displaced))) (db_tasks s)
       then [(LIST, d_id d, None, Some (length displaced), se_now env)] else []) @
      map (\<lambda>a. (STOP, d_id d, Some a, None, se_now env)) displaced \<and>
    filter (\<lambda>t. t_id t < db_next_oid s) (db_tasks s') =
      filter (\<lambda>t. \<not> (\<exists>a \<in> set displaced. cancellable (d_id d) a (se_now env) t)) (db_tasks s)"
proof -
  let ?n = "db_next_oid s" and ?now = "se_now env"
  have ids: "\<forall>t \<in> set (db_tasks s). t_id t < ?n" using assms(1) by (simp add: store_wf_def)
  have disp: "displaced_jobs d market s = displaced" by (simp add: displaced_jobs_def assms(3))
  show ?thesis
  proof (cases "displaced = []")
    case True
    then have "s' = s" by (simp add: assms(2,4) deploymentMarketUpdate_def disp)
    with True show ?thesis using ids fresh_nothing [OF assms(1)] by (auto simp: filter_id_conv)
  next
    case False
    let ?opts = "market_options (length displaced)"
    let ?s1 = "if isSimpleOrSimpleExtendedDeployment d
      then snd (scheduleTask LIST (d_id d) (d_status d) ?now ?now ?opts s) else s"
    let ?made = "isSimpleOrSimpleExtendedDeployment d \<and> \<not> matches (same_intent s LIST (d_id d) ?opts) (db_tasks s)"
    let ?doc = "scheduled_doc s LIST (d_id d) ?now ?now ?opts"
    have opts: "o_idempotent ?opts" "o_handoff_of ?opts = None" "o_job ?opts = None" "o_limit ?opts = Some (length displaced)"
      by (simp_all add: market_options_def no_options_def)
    have s': "s' = fold (swap_job env d) displaced ?s1"
      using False by (simp add: assms(2,4) deploymentMarketUpdate_def disp Let_def)
    have ts: "db_tasks ?s1 = db_tasks s @ (if ?made then [?doc] else [])"
      using opts by (auto simp: scheduleTask_tasks scheduleTask_created_iff)
    have oid: "?n \<le> db_next_oid ?s1" by (simp add: scheduleTask_next_oid)
    have doc: "t_id ?doc = ?n" "ask ?doc = (LIST, d_id d, None, Some (length displaced), ?now)" "t_due_at ?doc = ?now"
      by (simp_all add: scheduled_doc_def ask_def opts)
    have "filter (\<lambda>t. ?n \<le> t_id t) (db_tasks s) = []" using ids by (auto simp: filter_empty_conv)
    then have fresh: "fresh_tasks ?n ?s1 = (if ?made then [?doc] else [])"
      using doc(1) unfolding fresh_tasks_def ts filter_append by simp
    then have due: "\<forall>t \<in> set (fresh_tasks ?n ?s1). t_due_at t = ?now" using doc(3) by simp
    note swap = swap_jobs_tasks [OF oid due, of d displaced]
    have "filter (\<lambda>t. t_id t < ?n \<and> \<not> (\<exists>a \<in> set displaced. cancellable (d_id d) a ?now t)) (db_tasks ?s1) =
        filter (\<lambda>t. \<not> (\<exists>a \<in> set displaced. cancellable (d_id d) a ?now t)) (db_tasks s)"
      using doc(1) ids unfolding ts filter_append by (auto intro: filter_cong)
    then show ?thesis using swap False doc(2) unfolding s' [symmetric] fresh by simp
  qed
qed

section \<open>A longer timeout\<close>

lemma postpone_tasks:
  assumes "distinct (map t_id (db_tasks s))" "distinct (map t_id fs)"
  shows "db_tasks (fold (postpone k) fs s) = map (\<lambda>x. case map_of (map (\<lambda>t. (t_id t, t)) fs) (t_id x) of
     None \<Rightarrow> x | Some t \<Rightarrow> x\<lparr>t_due_at := t_due_at t + k\<rparr>) (db_tasks s)"
  using assms
proof (induction fs arbitrary: s)
  case (Cons f fs)
  have one: "db_tasks (postpone k f s) =
      map (\<lambda>x. if t_id x = t_id f then x\<lparr>t_due_at := t_due_at f + k\<rparr> else x) (db_tasks s)"
    using update_one_keyed [OF Cons.prems(1)] by (simp add: postpone_def on_task_def)
  then have "map t_id (db_tasks (postpone k f s)) = map t_id (db_tasks s)" by (simp add: comp_def if_distrib [of t_id] cong: if_cong)
  then have "distinct (map t_id (db_tasks (postpone k f s)))" using Cons.prems(1) by simp
  moreover have "distinct (map t_id fs)" using Cons.prems(2) by simp
  ultimately have IH: "db_tasks (fold (postpone k) fs (postpone k f s)) =
      map (\<lambda>x. case map_of (map (\<lambda>t. (t_id t, t)) fs) (t_id x) of None \<Rightarrow> x | Some t \<Rightarrow> x\<lparr>t_due_at := t_due_at t + k\<rparr>)
        (db_tasks (postpone k f s))"
    by (rule Cons.IH)
  have "map_of (map (\<lambda>t. (t_id t, t)) fs) (t_id f) = None"
    using Cons.prems(2) by (simp add: map_of_eq_None_iff image_image)
  then show ?case by (auto simp: IH one)
qed simp

definition stretched :: "(address \<Rightarrow> int) \<Rightarrow> deployment_document \<Rightarrow> address list \<Rightarrow> task_document \<Rightarrow> task_document" where
  "stretched delta d jobs t = (if \<exists>a \<in> set jobs. 0 < delta a \<and> follow_up d a t
     then t\<lparr>t_due_at := t_due_at t + delta (the (t_job t)) * 1000\<rparr> else t)"

definition longer_by :: "strategy_env \<Rightarrow> deployment_document \<Rightarrow> address \<Rightarrow> int" where
  "longer_by env d a = (case se_onchainTimeout env a of None \<Rightarrow> 0 | Some c \<Rightarrow> max 0 (d_timeout d * 60 - c))"

lemma stretch_job_tasks:
  assumes "distinct (map t_id (db_tasks s))" "\<forall>t \<in> set (db_tasks s). t_id t < db_next_oid s"
  shows "\<exists>news. db_tasks (stretch_job env d a s) = map (stretched (longer_by env d) d [a]) (db_tasks s) @ news \<and>
    map (\<lambda>t. (ask t, t_extend_seconds t)) news =
      (if 0 < longer_by env d a then [((EXTEND, d_id d, Some a, None, se_now env), Some (longer_by env d a))] else []) \<and>
    distinct (map t_id (db_tasks (stretch_job env d a s))) \<and>
    (\<forall>t \<in> set (db_tasks (stretch_job env d a s)). t_id t < db_next_oid (stretch_job env d a s))"
proof (cases "0 < longer_by env d a")
  case False
  then have "stretch_job env d a s = s"
    by (auto simp: longer_by_def stretch_job_def Let_def split: option.splits)
  moreover have "stretched (longer_by env d) d [a] t = t" for t using False by (simp add: stretched_def)
  ultimately show ?thesis using False assms by (simp add: map_idI)
next
  case True
  then obtain c where c: "se_onchainTimeout env a = Some c" "0 < d_timeout d * 60 - c"
    by (auto simp: longer_by_def split: option.splits)
  then have delta: "longer_by env d a = d_timeout d * 60 - c" by (simp add: longer_by_def)
  let ?k = "longer_by env d a" and ?now = "se_now env"
  let ?opts = "no_options\<lparr>o_job := Some a, o_extend_seconds := Some ?k\<rparr>"
  let ?s1 = "snd (scheduleTask EXTEND (d_id d) (d_status d) ?now ?now ?opts s)"
  let ?doc = "scheduled_doc s EXTEND (d_id d) ?now ?now ?opts"
  let ?fs = "filter (follow_up d a) (db_tasks ?s1)"
  have made: "fst (scheduleTask EXTEND (d_id d) (d_status d) ?now ?now ?opts s)"
    by (rule scheduleTask_plain) (simp_all add: no_options_def)
  then have ts: "db_tasks ?s1 = db_tasks s @ [?doc]" by (simp add: scheduleTask_tasks)
  have doc: "t_id ?doc = db_next_oid s" "\<not> follow_up d x ?doc"
    "ask ?doc = (EXTEND, d_id d, Some a, None, ?now)" "t_extend_seconds ?doc = Some ?k" for x
    by (simp_all add: scheduled_doc_def follow_up_def ask_def no_options_def)
  have e: "stretch_job env d a s = fold (postpone (?k * 1000)) ?fs ?s1"
    using c by (simp add: stretch_job_def Let_def delta)
  have dist: "distinct (map t_id (db_tasks ?s1))" using assms doc(1) by (auto simp: ts)
  then have "distinct (map t_id ?fs)" by (rule distinct_map_filter)
  note p = postpone_tasks [OF dist this, of "?k * 1000", folded e]
  have look: "map_of (map (\<lambda>t. (t_id t, t)) ?fs) (t_id x) = (if follow_up d a x then Some x else None)"
    if "x \<in> set (db_tasks ?s1)" for x
  proof (cases "follow_up d a x")
    case True
    then have "(t_id x, x) \<in> set (map (\<lambda>t. (t_id t, t)) ?fs)" using that by auto
    moreover have "distinct (map fst (map (\<lambda>t. (t_id t, t)) ?fs))"
      using distinct_map_filter [OF dist] by (simp add: comp_def)
    ultimately show ?thesis using True by (simp add: map_of_is_SomeI)
  next
    case False
    have "x = y" if "y \<in> set ?fs" "t_id y = t_id x" for y
      using keyed_unique [OF dist \<open>x \<in> set (db_tasks ?s1)\<close>, of y] that by simp
    with False have "t_id x \<notin> t_id ` set ?fs" by fastforce
    then show ?thesis using False by (simp add: map_of_eq_None_iff image_image)
  qed
  have st: "(case (if follow_up d a x then Some x else None) of None \<Rightarrow> x | Some t \<Rightarrow> x\<lparr>t_due_at := t_due_at t + ?k * 1000\<rparr>) =
      stretched (longer_by env d) d [a] x" for x
    using True by (auto simp: stretched_def follow_up_def)
  have "db_tasks (stretch_job env d a s) = map (stretched (longer_by env d) d [a]) (db_tasks ?s1)"
    unfolding p using look st by (intro map_cong refl) simp
  moreover have "stretched (longer_by env d) d [a] ?doc = ?doc" using doc(2) by (simp add: stretched_def)
  ultimately have r: "db_tasks (stretch_job env d a s) = map (stretched (longer_by env d) d [a]) (db_tasks s) @ [?doc]"
    by (simp add: ts)
  have ids: "t_id (stretched delta d js t) = t_id t" for delta js t by (simp add: stretched_def)
  have "db_next_oid (fold (postpone k) xs u) = db_next_oid u" for k xs u
    by (induction xs arbitrary: u) (simp_all add: postpone_def on_task_def)
  then have oid: "db_next_oid (stretch_job env d a s) = Suc (db_next_oid s)" using made by (simp add: e scheduleTask_next_oid)
  have "distinct (map t_id (db_tasks (stretch_job env d a s)))"
    using assms doc(1) by (auto simp: r ids comp_def)
  moreover have "\<forall>t \<in> set (db_tasks (stretch_job env d a s)). t_id t < db_next_oid (stretch_job env d a s)"
    using assms(2) doc(1) by (auto simp: r oid ids intro: less_SucI)
  ultimately show ?thesis using True doc(3,4) r by simp
qed

lemma stretched_Cons:
  assumes "a \<notin> set jobs"
  shows "stretched delta d jobs (stretched delta d [a] t) = stretched delta d (a # jobs) t"
proof -
  have f: "follow_up d b (t\<lparr>t_due_at := x\<rparr>) = follow_up d b t" for b x by (simp add: follow_up_def)
  show ?thesis
  proof (cases "0 < delta a \<and> follow_up d a t")
    case True
    then have none: "(\<exists>b \<in> set jobs. 0 < delta b \<and> follow_up d b t) = False"
      using assms by (auto simp: follow_up_def)
    have "stretched delta d [a] t = t\<lparr>t_due_at := t_due_at t + delta (the (t_job t)) * 1000\<rparr>"
      using True by (simp add: stretched_def)
    moreover have "stretched delta d (a # jobs) t = t\<lparr>t_due_at := t_due_at t + delta (the (t_job t)) * 1000\<rparr>"
      using True by (simp add: stretched_def)
    moreover have "stretched delta d jobs (t\<lparr>t_due_at := x\<rparr>) = t\<lparr>t_due_at := x\<rparr>" for x
      unfolding stretched_def f none by (rule if_False)
    ultimately show ?thesis by simp
  next
    case False
    then have "stretched delta d [a] t = t" by (auto simp: stretched_def)
    moreover have "(\<exists>b \<in> set (a # jobs). 0 < delta b \<and> follow_up d b t) = (\<exists>b \<in> set jobs. 0 < delta b \<and> follow_up d b t)"
      using False by auto
    ultimately show ?thesis by (simp only: stretched_def)
  qed
qed

lemma stretch_jobs_tasks:
  assumes "distinct (map t_id (db_tasks s))" "\<forall>t \<in> set (db_tasks s). t_id t < db_next_oid s" "distinct jobs"
  shows "\<exists>news. db_tasks (fold (stretch_job env d) jobs s) = map (stretched (longer_by env d) d jobs) (db_tasks s) @ news \<and>
    map (\<lambda>t. (ask t, t_extend_seconds t)) news =
      map (\<lambda>a. ((EXTEND, d_id d, Some a, None, se_now env), Some (longer_by env d a))) (filter (\<lambda>a. 0 < longer_by env d a) jobs)"
  using assms
proof (induction jobs arbitrary: s)
  case Nil
  then show ?case by (simp add: stretched_def)
next
  case (Cons a jobs)
  let ?L = "longer_by env d"
  obtain n1 where n1: "db_tasks (stretch_job env d a s) = map (stretched ?L d [a]) (db_tasks s) @ n1"
    "map (\<lambda>t. (ask t, t_extend_seconds t)) n1 =
      (if 0 < ?L a then [((EXTEND, d_id d, Some a, None, se_now env), Some (?L a))] else [])"
    "distinct (map t_id (db_tasks (stretch_job env d a s)))"
    "\<forall>t \<in> set (db_tasks (stretch_job env d a s)). t_id t < db_next_oid (stretch_job env d a s)"
    using stretch_job_tasks [OF Cons.prems(1,2), of env d a] by blast
  have "distinct jobs" using Cons.prems(3) by simp
  from Cons.IH [OF n1(3,4) this] obtain n2 where n2:
    "db_tasks (fold (stretch_job env d) jobs (stretch_job env d a s)) =
       map (stretched ?L d jobs) (db_tasks (stretch_job env d a s)) @ n2"
    "map (\<lambda>t. (ask t, t_extend_seconds t)) n2 =
      map (\<lambda>a. ((EXTEND, d_id d, Some a, None, se_now env), Some (?L a))) (filter (\<lambda>a. 0 < ?L a) jobs)" by blast
  have "\<forall>t \<in> set n1. t_extend_seconds t \<noteq> None" using n1(2) by (auto simp: map_eq_Cons_conv split: if_splits)
  then have "map (stretched ?L d jobs) n1 = n1" by (intro map_idI) (auto simp: stretched_def follow_up_def)
  moreover have "stretched ?L d jobs (stretched ?L d [a] t) = stretched ?L d (a # jobs) t" for t
    using Cons.prems(3) by (intro stretched_Cons) simp
  ultimately have "db_tasks (fold (stretch_job env d) (a # jobs) s) = map (stretched ?L d (a # jobs)) (db_tasks s) @ (n1 @ n2)"
    by (simp add: n1(1) n2(1))
  moreover have "map (\<lambda>t. (ask t, t_extend_seconds t)) (n1 @ n2) =
      map (\<lambda>a. ((EXTEND, d_id d, Some a, None, se_now env), Some (?L a))) (filter (\<lambda>a. 0 < ?L a) (a # jobs))"
    using n1(2) n2(2) by simp
  ultimately show ?case by blast
qed

text \<open>
  A longer timeout keeps each job and its follow-up in step: every RUNNING job whose timeout
  on the chain is below the new one gets one one-shot EXTEND for exactly the difference, and its
  own pending, unsent follow-up (the rotation LIST or the next chain EXTEND) moves by the same
  amount; a job that needs none, or cannot be read, and every other task are left as they were.
\<close>

theorem timeout_increase_keeps_step:
  assumes "store_wf s" "jobs = map j_job (filter (\<lambda>j. j_deployment j = d_id d \<and> j_state j = J_RUNNING) (db_jobs s))"
  shows "\<exists>news. db_tasks (deploymentTimeoutUpdate env d s) =
      map (\<lambda>t. if \<exists>a \<in> set jobs. 0 < longer_by env d a \<and> follow_up d a t
          then t\<lparr>t_due_at := t_due_at t + longer_by env d (the (t_job t)) * 1000\<rparr> else t) (db_tasks s) @ news \<and>
    map (\<lambda>t. (ask t, t_extend_seconds t)) news =
      map (\<lambda>a. ((EXTEND, d_id d, Some a, None, se_now env), Some (longer_by env d a))) (filter (\<lambda>a. 0 < longer_by env d a) jobs)"
proof -
  have "distinct jobs" using assms by (simp add: store_wf_def distinct_map_filter)
  moreover have "distinct (map t_id (db_tasks s))" "\<forall>t \<in> set (db_tasks s). t_id t < db_next_oid s"
    using assms(1) by (simp_all add: store_wf_def)
  ultimately show ?thesis
    using stretch_jobs_tasks [of s jobs env d] unfolding deploymentTimeoutUpdate_def assms(2) [symmetric]
    by (simp add: stretched_def [abs_def])
qed

section \<open>The theorems on an example\<close>

text \<open>An INFINITE deployment whose one job was stopped by its startup deadline.\<close>

definition example_env :: strategy_env where
  "example_env = \<lparr>se_cfg = default_worker_config, se_nextTaskTime = (\<lambda>schedule now. now + 60000),
     se_onchainTimeout = (\<lambda>a. Some 60), se_now = 1000\<rparr>"

definition failed_job :: jobs_document where
  "failed_job = startup_job\<lparr>j_state := J_STOPPED, j_startup_deadline := Some 0\<rparr>"

definition failed_db :: db where
  "failed_db = startup_db\<lparr>db_jobs := [failed_job]\<rparr>"

lemma example_facts:
  "distinct (map d_id (db_deployments failed_db))" "findDeployment (j_deployment failed_job) failed_db = Some startup_deployment"
  "rapid_round (se_cfg example_env) failed_job startup_deployment failed_db" "db_tasks failed_db = []"
  by (simp_all add: failed_db_def failed_job_def startup_db_def startup_job_def startup_deployment_def empty_db_def
    example_job_def findDeployment_def find_one_def rapid_round_def isActiveInfiniteDeployment_def blank_deployment_def)

theorem rapid_round_counted_once_witness:
  "infiniteJobStateCompletedOrStopUpdate (example_env\<lparr>se_now := 9000\<rparr>) failed_job
     (infiniteJobStateCompletedOrStopUpdate example_env failed_job failed_db) =
   infiniteJobStateCompletedOrStopUpdate example_env failed_job failed_db"
  by (rule rapid_round_counted_once [OF example_facts(1,2,3) _ refl]) simp

theorem rapid_rounds_end_witness:
  "findDeployment (d_id startup_deployment) (infiniteJobStateCompletedOrStopUpdate example_env failed_job failed_db) =
     Some (startup_deployment\<lparr>d_rapid_streak := Some 1, d_next_retry_at := Some 61000\<rparr>)"
proof -
  have "nullish (d_rapid_streak startup_deployment) 0 = 0" by (simp add: startup_deployment_def blank_deployment_def)
  moreover have "rapid_completion_max_streak (se_cfg example_env) = 8"
    by (simp add: example_env_def default_worker_config_def)
  moreover have "to_date (of_int (se_now example_env) + rapidCompletionCooldownMs (se_cfg example_env) (int 0)) = 61000"
    by (simp add: example_env_def default_worker_config_def rapidCompletionCooldownMs_def computeCooldown_def to_date_def)
  ultimately show ?thesis
    using rapid_rounds_end [OF example_facts(1,2,3) _ refl refl refl refl] example_facts(4) by (simp add: matches_iff)
qed

text \<open>A SIMPLE deployment moved to the market M, one of whose two jobs is on another.\<close>

definition moved_deployment :: deployment_document where
  "moved_deployment = (blank_deployment ''d'' ''o'' RUNNING)\<lparr>d_market := Some ''M''\<rparr>"

definition moved_db :: db where
  "moved_db = empty_db\<lparr>db_deployments := [moved_deployment],
     db_jobs := [(example_job ''A'' J_RUNNING 1 1)\<lparr>j_market := Some ''M''\<rparr>, (example_job ''B'' J_RUNNING 1 1)\<lparr>j_market := Some ''N''\<rparr>]\<rparr>"

lemma moved_facts:
  "store_wf moved_db" "d_market moved_deployment = Some ''M''" "d_id moved_deployment = ''d''" "db_tasks moved_db = []"
  "map j_job (filter (\<lambda>j. j_deployment j = d_id moved_deployment \<and> j_market j \<noteq> Some ''M'' \<and> job_active j) (db_jobs moved_db)) = [''B'']"
  "isSimpleOrSimpleExtendedDeployment moved_deployment"
  by (simp_all add: moved_db_def moved_deployment_def empty_db_def example_job_def store_wf_def
    isSimpleOrSimpleExtendedDeployment_def blank_deployment_def)

theorem market_swap_stops_displaced_witness:
  "map ask (fresh_tasks (db_next_oid moved_db) (deploymentMarketUpdate example_env moved_deployment moved_db)) =
     [(LIST, ''d'', None, Some 1, 1000), (STOP, ''d'', Some ''B'', None, 1000)]"
  using market_swap_stops_displaced [OF moved_facts(1,2) moved_facts(5) [symmetric] refl, of example_env] moved_facts(3,4,6)
  by (simp add: matches_iff example_env_def)

theorem timeout_increase_keeps_step_witness:
  "map (\<lambda>t. (ask t, t_extend_seconds t)) (db_tasks (deploymentTimeoutUpdate example_env moved_deployment moved_db)) =
     [((EXTEND, ''d'', Some ''A'', None, 1000), Some 3540), ((EXTEND, ''d'', Some ''B'', None, 1000), Some 3540)]"
proof -
  have jobs: "map j_job (filter (\<lambda>j. j_deployment j = d_id moved_deployment \<and> j_state j = J_RUNNING) (db_jobs moved_db)) = [''A'', ''B'']"
    unfolding moved_facts(3) by (simp add: moved_db_def example_job_def)
  have "longer_by example_env moved_deployment a = 3540" for a
    by (simp add: longer_by_def example_env_def moved_deployment_def blank_deployment_def)
  then show ?thesis
    using timeout_increase_keeps_step [OF moved_facts(1) jobs [symmetric], of example_env] moved_facts(3,4)
    by (auto simp: example_env_def)
qed

end
