(* ===== verification/Listeners.thy ===== *)
theory Listeners
  imports Strategies
begin

text \<open>
  The table of listeners (\<open>src/strategies/index.ts\<close>) and what one change-stream update sets off
  (\<open>src/listeners/deployments/index.ts\<close>, \<open>src/listeners/jobs/index.ts\<close>): the watched fields
  and the filter of each listener as its file declares them, dispatched by the matcher. The
  callbacks an event reaches run in the table's order.
\<close>

section \<open>Documents as the matcher reads them\<close>

definition status_name :: "deployment_status \<Rightarrow> string" where
  "status_name st = (case st of DRAFT \<Rightarrow> ''DRAFT'' | ERROR \<Rightarrow> ''ERROR'' | STARTING \<Rightarrow> ''STARTING''
     | RUNNING \<Rightarrow> ''RUNNING'' | STOPPING \<Rightarrow> ''STOPPING'' | STOPPED \<Rightarrow> ''STOPPED''
     | INSUFFICIENT_FUNDS \<Rightarrow> ''INSUFFICIENT_FUNDS'' | ARCHIVED \<Rightarrow> ''ARCHIVED'')"

definition strategy_name :: "deployment_strategy \<Rightarrow> string" where
  "strategy_name st = (case st of SIMPLE \<Rightarrow> ''SIMPLE'' | SIMPLE_EXTEND \<Rightarrow> ''SIMPLE-EXTEND''
     | SCHEDULED \<Rightarrow> ''SCHEDULED'' | INFINITE \<Rightarrow> ''INFINITE'')"

definition state_name :: "job_state \<Rightarrow> string" where
  "state_name st = (case st of J_QUEUED \<Rightarrow> ''QUEUED'' | J_RUNNING \<Rightarrow> ''RUNNING''
     | J_COMPLETED \<Rightarrow> ''COMPLETED'' | J_STOPPED \<Rightarrow> ''STOPPED'')"

lemma name_inject [simp]:
  "status_name a = status_name b \<longleftrightarrow> a = b" "strategy_name p = strategy_name q \<longleftrightarrow> p = q"
  "state_name x = state_name y \<longleftrightarrow> x = y"
  subgoal by (cases a; cases b; simp add: status_name_def)
  subgoal by (cases p; cases q; simp add: strategy_name_def)
  subgoal by (cases x; cases y; simp add: state_name_def)
  done

text \<open>The fields the listeners' filters name.\<close>

definition deployment_view :: "deployment_document \<Rightarrow> document" where
  "deployment_view d = (\<lambda>key. if key = ''status'' then V_string (status_name (d_status d))
     else if key = ''strategy'' then V_string (strategy_name (d_strategy d)) else V_undefined)"

definition job_view :: "jobs_document \<Rightarrow> document" where
  "job_view j = (\<lambda>key. if key = ''state'' then V_string (state_name (j_state j)) else V_undefined)"

section \<open>The tables\<close>

datatype deployment_listener = On_market | On_replicas | On_reservation_terms | On_revision
  | On_starting | On_stopping | On_schedule | On_timeout

datatype job_listener = On_all_stopped | On_endpoints | On_extend | On_infinite_running | On_infinite_ended

definition status_eq :: "deployment_status \<Rightarrow> string \<times> fop list" where
  "status_eq st = (''status'', [Op_eq (V_string (status_name st))])"

definition strategy_in :: "deployment_strategy list \<Rightarrow> string \<times> fop list" where
  "strategy_in sts = (''strategy'', [Op_in (map (\<lambda>st. V_string (strategy_name st)) sts)])"

definition state_in :: "job_state list \<Rightarrow> string \<times> fop list" where
  "state_in sts = (''state'', [Op_in (map (\<lambda>st. V_string (state_name st)) sts)])"

definition listen :: "string list \<Rightarrow> filters option \<Rightarrow> 'c \<Rightarrow> 'c update_listener" where
  "listen watched filters callback = \<lparr>ul_fields = Some watched, ul_filters = filters, ul_callback = callback\<rparr>"

definition deployment_listeners :: "deployment_listener update_listener list" where
  "deployment_listeners = (let not_draft = Fields [(''status'', [Op_ne (V_string (status_name DRAFT))])] in
    [listen [''market''] (Some (Fields [status_eq RUNNING])) On_market,
     listen [''replicas''] (Some (Fields [strategy_in [SIMPLE, SIMPLE_EXTEND, INFINITE], status_eq RUNNING])) On_replicas,
     listen [''market'', ''requirements''] None On_reservation_terms,
     listen [''active_revision''] (Some not_draft) On_revision,
     listen [''status''] (Some (Fields [status_eq STARTING])) On_starting,
     listen [''status''] (Some (Fields [status_eq STOPPING])) On_stopping,
     listen [''schedule''] (Some not_draft) On_schedule,
     listen [''timeout''] (Some (Fields [strategy_in [INFINITE, SIMPLE_EXTEND], status_eq RUNNING])) On_timeout])"

definition job_listeners :: "job_listener update_listener list" where
  "job_listeners =
    [listen [''state''] (Some (Fields [state_in [J_COMPLETED, J_STOPPED]])) On_all_stopped,
     listen [''state''] None On_endpoints,
     listen [''state''] (Some (Fields [(''state'', [Op_eq (V_string (state_name J_RUNNING))])])) On_extend,
     listen [''state''] (Some (Fields [(''state'', [Op_eq (V_string (state_name J_RUNNING))])])) On_infinite_running,
     listen [''state''] (Some (Fields [state_in [J_COMPLETED, J_STOPPED]])) On_infinite_ended]"

fun run_deployment_listener :: "strategy_env \<Rightarrow> deployment_listener \<Rightarrow> deployment_document \<Rightarrow> db \<Rightarrow> db" where
  "run_deployment_listener env On_market d = deploymentMarketUpdate env d"
| "run_deployment_listener env On_replicas d = deploymentReplicaUpdate env d"
| "run_deployment_listener env On_reservation_terms d = deploymentReservationTermsUpdate env d"
| "run_deployment_listener env On_revision d = deploymentRevisionUpdate env d"
| "run_deployment_listener env On_starting d = deploymentStatusStartingUpdate env d"
| "run_deployment_listener env On_stopping d = deploymentStatusStoppingUpdate env d"
| "run_deployment_listener env On_schedule d = deploymentScheduleUpdate env d"
| "run_deployment_listener env On_timeout d = deploymentTimeoutUpdate env d"

fun run_job_listener :: "strategy_env \<Rightarrow> job_listener \<Rightarrow> jobs_document \<Rightarrow> db \<Rightarrow> db" where
  "run_job_listener env On_all_stopped j = jobAllActiveJobsStop j"
| "run_job_listener env On_endpoints j = jobEndpointStatusUpdate j"
| "run_job_listener env On_extend j = simpleExtendedJobRunningUpdate env j"
| "run_job_listener env On_infinite_running j = infiniteJobRunningUpdate env j"
| "run_job_listener env On_infinite_ended j = infiniteJobStateCompletedOrStopUpdate env j"

text \<open>One update event; None is a stream that went down.\<close>

definition deployment_updated :: "strategy_env \<Rightarrow> string list \<Rightarrow> deployment_document \<Rightarrow> db \<Rightarrow> db option" where
  "deployment_updated env updated d s =
     map_option (\<lambda>ls. fold (\<lambda>l. run_deployment_listener env l d) ls s)
       (reached updated (Some (deployment_view d)) deployment_listeners)"

definition job_updated :: "strategy_env \<Rightarrow> string list \<Rightarrow> jobs_document \<Rightarrow> db \<Rightarrow> db option" where
  "job_updated env updated j s =
     map_option (\<lambda>ls. fold (\<lambda>l. run_job_listener env l j) ls s)
       (reached updated (Some (job_view j)) job_listeners)"

section \<open>Which listeners fire\<close>

lemma view_accepts:
  "op_rejects (V_string v) (Op_eq (V_string w)) \<longleftrightarrow> v \<noteq> w"
  "op_rejects (V_string v) (Op_ne (V_string w)) \<longleftrightarrow> v = w"
  "op_rejects (V_string v) (Op_in ws) \<longleftrightarrow> V_string v \<notin> set ws"
  by (auto simp: op_rejects_def same_value_def list_ex_iff)

lemma view_supported: "\<not> unsupported (Op_eq v)" "\<not> unsupported (Op_ne v)" "\<not> unsupported (Op_in vs)"
  by (simp_all add: unsupported_def)

lemmas table_simps = status_eq_def strategy_in_def state_in_def
  view_accepts view_supported deployment_view_def job_view_def

text \<open>When a listener's fields and filter let an update through.\<close>

fun reacts :: "string list \<Rightarrow> deployment_document \<Rightarrow> deployment_listener \<Rightarrow> bool" where
  "reacts updated d On_market \<longleftrightarrow> matchFields updated [''market''] \<and> d_status d = RUNNING"
| "reacts updated d On_replicas \<longleftrightarrow> matchFields updated [''replicas''] \<and> d_status d = RUNNING \<and> d_strategy d \<noteq> SCHEDULED"
| "reacts updated d On_reservation_terms \<longleftrightarrow> matchFields updated [''market''] \<or> matchFields updated [''requirements'']"
| "reacts updated d On_revision \<longleftrightarrow> matchFields updated [''active_revision''] \<and> d_status d \<noteq> DRAFT"
| "reacts updated d On_starting \<longleftrightarrow> matchFields updated [''status''] \<and> d_status d = STARTING"
| "reacts updated d On_stopping \<longleftrightarrow> matchFields updated [''status''] \<and> d_status d = STOPPING"
| "reacts updated d On_schedule \<longleftrightarrow> matchFields updated [''schedule''] \<and> d_status d \<noteq> DRAFT"
| "reacts updated d On_timeout \<longleftrightarrow> matchFields updated [''timeout''] \<and> d_status d = RUNNING \<and>
     d_strategy d \<in> {INFINITE, SIMPLE_EXTEND}"

fun job_reacts :: "string list \<Rightarrow> jobs_document \<Rightarrow> job_listener \<Rightarrow> bool" where
  "job_reacts updated j On_all_stopped \<longleftrightarrow> matchFields updated [''state''] \<and> j_state j \<in> {J_COMPLETED, J_STOPPED}"
| "job_reacts updated j On_endpoints \<longleftrightarrow> matchFields updated [''state'']"
| "job_reacts updated j On_extend \<longleftrightarrow> matchFields updated [''state''] \<and> j_state j = J_RUNNING"
| "job_reacts updated j On_infinite_running \<longleftrightarrow> matchFields updated [''state''] \<and> j_state j = J_RUNNING"
| "job_reacts updated j On_infinite_ended \<longleftrightarrow> matchFields updated [''state''] \<and> j_state j \<in> {J_COMPLETED, J_STOPPED}"

lemma matchFields_two: "matchFields updated [a, b] \<longleftrightarrow> matchFields updated [a] \<or> matchFields updated [b]"
  by (simp add: matchFields_def)

lemma not_scheduled: "st = SIMPLE \<or> st = SIMPLE_EXTEND \<or> st = INFINITE \<longleftrightarrow> st \<noteq> SCHEDULED"
  by (cases st) simp_all

lemma reached_filter:
  "list_all (\<lambda>l. reaches updated doc l = Some (P (ul_callback l))) ls \<Longrightarrow>
     reached updated doc ls = Some (filter P (map ul_callback ls))"
  by (induction ls) auto

lemma reaches_listen:
  "reaches updated (Some v) (listen watched None c) = Some (matchFields updated watched)"
  "supported f \<Longrightarrow> reaches updated (Some v) (listen watched (Some f) c) = Some (matchFields updated watched \<and> holds v f)"
  by (simp_all add: reaches_def listen_def matchFilter_holds)

lemma listen_callback [simp]: "ul_callback (listen watched f c) = c"
  by (simp add: listen_def)

lemma deployment_listeners_reached:
  "reached updated (Some (deployment_view d)) deployment_listeners =
     Some (filter (reacts updated d) [On_market, On_replicas, On_reservation_terms, On_revision,
       On_starting, On_stopping, On_schedule, On_timeout])"
proof -
  have "list_all (\<lambda>l. reaches updated (Some (deployment_view d)) l = Some (reacts updated d (ul_callback l))) deployment_listeners"
    unfolding deployment_listeners_def Let_def list.pred_inject listen_callback
    by (intro conjI TrueI; simp add: reaches_listen table_simps matchFields_two not_scheduled conj_ac)
  from reached_filter [OF this] show ?thesis
    by (simp only: deployment_listeners_def Let_def list.map listen_callback)
qed

lemma job_listeners_reached:
  "reached updated (Some (job_view j)) job_listeners =
     Some (filter (job_reacts updated j) [On_all_stopped, On_endpoints, On_extend, On_infinite_running, On_infinite_ended])"
proof -
  have "list_all (\<lambda>l. reaches updated (Some (job_view j)) l = Some (job_reacts updated j (ul_callback l))) job_listeners"
    unfolding job_listeners_def list.pred_inject listen_callback
    by (intro conjI TrueI; simp add: reaches_listen table_simps)
  from reached_filter [OF this] show ?thesis
    by (simp only: job_listeners_def list.map listen_callback)
qed

text \<open>
  An update reaches the listeners it is meant for, and no filter of the tables throws: each
  deployment listener fires exactly on a write of its field in the statuses and strategies it
  names, each job listener exactly on a write of the state, and they run in the table's order.
\<close>

theorem strategy_listeners_fire:
  "deployment_updated env updated d s = Some (fold (\<lambda>l. run_deployment_listener env l d)
     (filter (reacts updated d) [On_market, On_replicas, On_reservation_terms, On_revision,
       On_starting, On_stopping, On_schedule, On_timeout]) s) \<and>
   job_updated env updated j s = Some (fold (\<lambda>l. run_job_listener env l j)
     (filter (job_reacts updated j) [On_all_stopped, On_endpoints, On_extend, On_infinite_running, On_infinite_ended]) s)"
  by (simp only: deployment_updated_def job_updated_def deployment_listeners_reached job_listeners_reached option.map)

section \<open>The last active job of a deployment\<close>

lemma on_deployment_keyed:
  assumes "distinct (map d_id (db_deployments s))" "\<And>e. d_id (f e) = d_id e"
  shows "db_deployments (on_deployment (\<lambda>e. d_id e = i \<and> Q e) f s) =
    map (\<lambda>e. if d_id e = i \<and> Q e then f e else e) (db_deployments s)"
proof -
  have "update_one (\<lambda>e. d_id e = i \<and> Q e) f ds = map (\<lambda>e. if d_id e = i \<and> Q e then f e else e) ds"
    if "distinct (map d_id ds)" for ds
    using that
  proof (induction ds)
    case (Cons e ds)
    show ?case
    proof (cases "d_id e = i")
      case True
      with Cons.prems have "\<forall>x \<in> set ds. d_id x \<noteq> i" using distinct_key_tail [of d_id e ds] by simp
      then have "map (\<lambda>e. if d_id e = i \<and> Q e then f e else e) ds = ds"
        "update_one (\<lambda>e. d_id e = i \<and> Q e) f ds = ds"
        by (auto intro: map_idI simp: matches_iff)
      with True show ?thesis by simp
    next
      case False
      with Cons show ?thesis by simp
    qed
  qed simp
  with assms show ?thesis by (simp add: on_deployment_def)
qed

text \<open>Whether the end of a job settles its deployment.\<close>

definition settles :: "db \<Rightarrow> string \<Rightarrow> deployment_document \<Rightarrow> bool" where
  "settles s i d \<longleftrightarrow> d_id d = i \<and> (d_strategy d \<in> {SIMPLE, SIMPLE_EXTEND} \<or> d_status d = STOPPING) \<and>
     d_status d \<notin> {ERROR, INSUFFICIENT_FUNDS, ARCHIVED} \<and>
     (\<forall>k \<in> set (db_jobs s). j_deployment k = i \<longrightarrow> \<not> job_active k) \<and>
     (d_status d = RUNNING \<longrightarrow> (\<forall>t \<in> set (db_tasks s). \<not> (t_deploymentId t = i \<and> t_task t = LIST)))"

text \<open>
  C11: A deployment is settled exactly when its last active job has ended: the ended job's STOP and
  EXTEND tasks go, its rotation LIST stays, and the deployment becomes STOPPED if it is SIMPLE,
  SIMPLE-EXTEND or being stopped, no job of it is active, no LIST of a RUNNING one is left, and
  it is not in ERROR, out of funds or ARCHIVED; no other deployment and no job changes.
\<close>

theorem last_job_settles_deployment:
  assumes "distinct (map d_id (db_deployments s))" "s' = jobAllActiveJobsStop j s"
  shows "db_deployments s' = map (\<lambda>d. if settles s (j_deployment j) d then d\<lparr>d_status := STOPPED\<rparr> else d) (db_deployments s) \<and>
    db_tasks s' = filter (\<lambda>t. \<not> (t_deploymentId t = j_deployment j \<and> t_job t = Some (j_job j) \<and> t_task t \<noteq> LIST)) (db_tasks s) \<and>
    db_jobs s' = db_jobs s"
proof -
  let ?i = "j_deployment j" and ?s1 = "drop_job_tasks j s"
  have s1: "db_deployments ?s1 = db_deployments s" "db_jobs ?s1 = db_jobs s"
    "db_tasks ?s1 = filter (\<lambda>t. \<not> (t_deploymentId t = ?i \<and> t_job t = Some (j_job j) \<and> t_task t \<noteq> LIST)) (db_tasks s)"
    by (simp_all add: drop_job_tasks_def delete_many_def)
  have idle: "active_jobs ?i ?s1 = 0 \<longleftrightarrow> (\<forall>k \<in> set (db_jobs s). j_deployment k = ?i \<longrightarrow> \<not> job_active k)"
    by (auto simp: active_jobs_def count_docs_0_iff s1)
  have lists: "count_docs (\<lambda>t. t_deploymentId t = ?i \<and> t_task t = LIST) (db_tasks ?s1) = 0 \<longleftrightarrow>
      (\<forall>t \<in> set (db_tasks s). \<not> (t_deploymentId t = ?i \<and> t_task t = LIST))"
    by (auto simp: count_docs_0_iff s1)
  have keep: "db_tasks s' = db_tasks ?s1 \<and> db_jobs s' = db_jobs ?s1"
    by (simp add: assms(2) jobAllActiveJobsStop_def Let_def settle_deployment_def on_deployment_def split: option.split)
  have "db_deployments s' = map (\<lambda>d. if settles s ?i d then d\<lparr>d_status := STOPPED\<rparr> else d) (db_deployments s)"
  proof (cases "findDeployment ?i ?s1")
    case None
    then have "\<forall>d \<in> set (db_deployments s). d_id d \<noteq> ?i" by (simp add: findDeployment_def find_one_None_iff s1)
    then have "map (\<lambda>d. if settles s ?i d then d\<lparr>d_status := STOPPED\<rparr> else d) (db_deployments s) = db_deployments s"
      by (intro map_idI) (simp add: settles_def)
    with None show ?thesis by (simp add: assms(2) jobAllActiveJobsStop_def s1)
  next
    case (Some d)
    have d: "d \<in> set (db_deployments s)" "d_id d = ?i" using findDeployment_id [OF Some] s1 by simp_all
    have uniq: "e = d" if "e \<in> set (db_deployments s)" "d_id e = ?i" for e
      using keyed_unique [OF assms(1) that(1) d(1)] that d(2) by simp
    let ?go = "(isSimpleOrSimpleExtendedDeployment d \<or> d_status d = STOPPING) \<and> active_jobs ?i ?s1 = 0 \<and>
      \<not> (d_status d = RUNNING \<and> count_docs (\<lambda>t. t_deploymentId t = ?i \<and> t_task t = LIST) (db_tasks ?s1) > 0)"
    have s': "s' = (if ?go then settle_deployment ?i ?s1 else ?s1)"
      using Some by (auto simp: assms(2) jobAllActiveJobsStop_def Let_def)
    have go: "settles s ?i d \<longleftrightarrow> ?go \<and> d_status d \<notin> {ERROR, INSUFFICIENT_FUNDS, ARCHIVED}"
      using lists by (auto simp: settles_def d idle isSimpleOrSimpleExtendedDeployment_def)
    have "db_deployments (settle_deployment ?i ?s1) =
        map (\<lambda>e. if d_id e = ?i \<and> d_status e \<notin> {ERROR, INSUFFICIENT_FUNDS, ARCHIVED} then e\<lparr>d_status := STOPPED\<rparr> else e) (db_deployments s)"
      unfolding settle_deployment_def s1(1) [symmetric] by (rule on_deployment_keyed) (simp_all add: s1 assms(1))
    then have "db_deployments s' = map (\<lambda>e. if ?go \<and> d_id e = ?i \<and> d_status e \<notin> {ERROR, INSUFFICIENT_FUNDS, ARCHIVED}
        then e\<lparr>d_status := STOPPED\<rparr> else e) (db_deployments s)"
      using s' by (auto simp: s1 intro: map_idI [symmetric])
    also have "\<dots> = map (\<lambda>d. if settles s ?i d then d\<lparr>d_status := STOPPED\<rparr> else d) (db_deployments s)"
    proof (rule map_cong [OF refl])
      fix e assume e: "e \<in> set (db_deployments s)"
      have "settles s ?i e \<longleftrightarrow> ?go \<and> d_id e = ?i \<and> d_status e \<notin> {ERROR, INSUFFICIENT_FUNDS, ARCHIVED}"
      proof (cases "d_id e = ?i")
        case True
        then show ?thesis using uniq [OF e] go d(2) by blast
      qed (simp add: settles_def)
      then show "(if ?go \<and> d_id e = ?i \<and> d_status e \<notin> {ERROR, INSUFFICIENT_FUNDS, ARCHIVED} then e\<lparr>d_status := STOPPED\<rparr> else e) =
          (if settles s ?i e then e\<lparr>d_status := STOPPED\<rparr> else e)" by simp
    qed
    finally show ?thesis .
  qed
  with keep show ?thesis by (simp add: s1)
qed

text \<open>
  Only RUNNING is guarded: when the last old job of a restarted deployment ends before the
  listener of its STARTING status ran, the deployment is marked STOPPED, and the LIST the listener
  then schedules is not wanted any more: the start is lost.
\<close>

theorem settling_job_loses_start:
  assumes "distinct (map d_id (db_deployments s))" "d \<in> set (db_deployments s)"
    and "d_status d = STARTING" "d_strategy d \<in> {SIMPLE, SIMPLE_EXTEND}" "j_deployment j = d_id d"
    and "\<forall>k \<in> set (db_jobs s). j_deployment k = d_id d \<longrightarrow> \<not> job_active k"
    and "s1 = jobAllActiveJobsStop j s" "s' = deploymentStatusStartingUpdate env d s1"
  shows "d\<lparr>d_status := STOPPED\<rparr> \<in> set (db_deployments s') \<and>
    (\<exists>t. db_tasks s' = db_tasks s1 @ [t] \<and> t_task t = LIST \<and> t_deploymentId t = d_id d \<and> \<not> checkTaskWanted s' t)"
proof -
  let ?d = "d\<lparr>d_status := STOPPED\<rparr>"
  let ?doc = "scheduled_doc s1 LIST (d_id d) (list_due env d) (se_now env) no_options"
  note settled = last_job_settles_deployment [OF assms(1,7)]
  have "settles s (j_deployment j) d" using assms(3-6) by (auto simp: settles_def)
  then have d1: "?d \<in> set (db_deployments s1)" using settled assms(2) by force
  have "map d_id (db_deployments s1) = map d_id (db_deployments s)" using settled by (auto simp: comp_def)
  with assms(1) have dist: "distinct (map d_id (db_deployments s1))" by simp
  have none: "\<not> matches (\<lambda>e. d_id e = d_id d \<and> d_status e = STARTING) (db_deployments s1)"
  proof -
    have "d_status e \<noteq> STARTING" if "e \<in> set (db_deployments s1)" "d_id e = d_id d" for e
    proof -
      have "e = ?d" using keyed_unique [OF dist that(1) d1] that by simp
      then show ?thesis by simp
    qed
    then show ?thesis by (auto simp: matches_iff)
  qed
  have made: "fst (scheduleTask LIST (d_id d) (d_status d) (list_due env d) (se_now env) no_options s1)"
    by (rule scheduleTask_plain) (simp_all add: no_options_def)
  have deps: "db_deployments s' = db_deployments s1"
    using none by (simp add: assms(8) deploymentStatusStartingUpdate_def scheduleTask_deployments starting_to_running_def)
  have tasks: "db_tasks s' = db_tasks s1 @ [?doc]"
    using made by (simp add: assms(8) deploymentStatusStartingUpdate_def scheduleTask_tasks)
  have doc: "t_task ?doc = LIST" "t_deploymentId ?doc = d_id d" by (simp_all add: scheduled_doc_def)
  have "find_one (\<lambda>e. d_id e = d_id d) (db_deployments s') = Some ?d"
    using find_one_keyed [OF dist d1] deps by simp
  then have "\<not> checkTaskWanted s' ?doc" by (simp add: checkTaskWanted_def doc isTaskWanted_def Let_def)
  with d1 doc show ?thesis unfolding deps by (intro conjI exI [of _ ?doc]) (simp_all add: tasks)
qed

section \<open>Every listener keeps the worker's invariants\<close>

lemma safe_updateScheduledTasks: "safe_step s (updateScheduledTasks i due s)"
  unfolding updateScheduledTasks_def by (rule safe_update_tasks) simp

lemma safe_fold: "(\<And>x s. x \<in> set xs \<Longrightarrow> safe_step s (f x s)) \<Longrightarrow> safe_step s (fold f xs s)"
proof (induction xs arbitrary: s)
  case (Cons x xs)
  have "safe_step s (f x s)" by (rule Cons.prems) simp
  also have "safe_step (f x s) (fold f xs (f x s))" by (rule Cons.IH) (rule Cons.prems, simp)
  finally show ?case by simp
qed simp

lemma safe_postpone: "safe_step s (postpone k t s)"
  unfolding postpone_def by (rule safe_on_task) simp

lemma safe_swap_job: "safe_step s (swap_job env d a s)"
  unfolding swap_job_def using safe_disarm safe_scheduleTask by (rule safe_trans)

lemma safe_market: "safe_step s (deploymentMarketUpdate env d s)"
proof -
  have "safe_step s (fold (swap_job env d) xs (snd (scheduleTask LIST (d_id d) (d_status d) due now opts s)))" for xs due now opts
    using safe_scheduleTask safe_fold [OF safe_swap_job] by (rule safe_trans)
  then show ?thesis
    by (simp add: deploymentMarketUpdate_def Let_def safe_fold safe_swap_job split: option.split)
qed

lemma safe_timeout: "safe_step s (deploymentTimeoutUpdate env d s)"
proof -
  have "safe_step s (stretch_job env d a s)" for a s
  proof -
    have "safe_step s (fold (postpone k) ts (snd (scheduleTask ty i st due now opts s)))" for k ts ty i st due now opts
      using safe_scheduleTask safe_fold [OF safe_postpone] by (rule safe_trans)
    then show ?thesis by (simp add: stretch_job_def Let_def split: option.split)
  qed
  then show ?thesis unfolding deploymentTimeoutUpdate_def by (rule safe_fold)
qed

lemma safe_deployment_listener: "safe_step s (run_deployment_listener env l d s)"
  using safe_trans [OF safe_scheduleTask safe_scheduleTask]
  by (cases l) (simp_all add: safe_market safe_timeout deploymentReplicaUpdate_def Let_def safe_scheduleTask
    deploymentReservationTermsUpdate_def safe_resync deploymentRevisionUpdate_def deploymentStatusStartingUpdate_def
    deploymentStatusStoppingUpdate_def deploymentScheduleUpdate_def safe_updateScheduledTasks)

lemma safe_settle_deployment: "safe_step s (settle_deployment i s)"
  unfolding settle_deployment_def by (rule safe_on_deployment) auto

lemma safe_all_stopped: "safe_step s (jobAllActiveJobsStop j s)"
proof -
  have "safe_step s (drop_job_tasks j s)" unfolding drop_job_tasks_def by (rule safe_tasks_delete)
  with safe_trans [OF this safe_settle_deployment] show ?thesis
    by (simp add: jobAllActiveJobsStop_def Let_def split: option.split)
qed

lemma safe_running_listeners:
  "safe_step s (simpleExtendedJobRunningUpdate env j s)" "safe_step s (infiniteJobRunningUpdate env j s)"
proof -
  show "safe_step s (simpleExtendedJobRunningUpdate env j s)"
    by (simp add: simpleExtendedJobRunningUpdate_def safe_scheduleTask split: option.split)
  have "safe_step s (snd (scheduleTask ty i st due now opts (armStartupDeadline d a now' s)))" for ty i st due now opts d a now'
    using safe_arm safe_scheduleTask by (rule safe_trans)
  moreover have "safe_step s (snd (scheduleTask ty i st due now opts (snd (scheduleTask ty' i' st' due' now'' opts' (armStartupDeadline d a now' s)))))"
    for ty i st due now opts ty' i' st' due' now'' opts' d a now'
    using calculation safe_scheduleTask by (rule safe_trans)
  ultimately show "safe_step s (infiniteJobRunningUpdate env j s)"
    by (simp add: infiniteJobRunningUpdate_def Let_def split: option.split)
qed

lemma safe_withdraw: "safe_step s (withdraw_rotation d a s)"
  unfolding withdraw_rotation_def by (rule safe_tasks_delete)

lemma safe_fail_safe: "safe_step s (fail_safe cfg f d now s)"
proof -
  have "safe_step s (on_deployment (\<lambda>e. d_id e = d_id d \<and> d_status e = RUNNING) (\<lambda>e. e\<lparr>d_status := STOPPING\<rparr>) s)"
    by (rule safe_on_deployment) auto
  then show ?thesis using safe_trans [OF _ safe_insert_event] by (simp add: fail_safe_def Let_def)
qed

lemma safe_throttle: "safe_step s (throttle cfg f d a now s)"
proof -
  let ?k = "\<lambda>due s. snd (scheduleTask LIST (d_id d) (d_status d) due now (refill_options True) s)"
  have 1: "safe_step s (?k due (withdraw_rotation d a s))" for due
    using safe_withdraw safe_scheduleTask by (rule safe_trans)
  have 2: "safe_step s (fail_safe cfg f d now (?k due (withdraw_rotation d a s)))" for due
    using 1 safe_fail_safe by (rule safe_trans)
  have "safe_step u (on_deployment (\<lambda>e. d_id e = d_id d) (\<lambda>e. e\<lparr>d_rapid_streak := n, d_next_retry_at := r\<rparr>) u)" for u n r
    by (rule safe_on_deployment) simp_all
  with 1 have "safe_step s (on_deployment (\<lambda>e. d_id e = d_id d) (\<lambda>e. e\<lparr>d_rapid_streak := n, d_next_retry_at := r\<rparr>)
      (?k due (withdraw_rotation d a s)))" for due n r
    by (rule safe_trans)
  then have 3: "safe_step s (insert_event e (on_deployment (\<lambda>e. d_id e = d_id d) (\<lambda>e. e\<lparr>d_rapid_streak := n, d_next_retry_at := r\<rparr>)
      (?k due (withdraw_rotation d a s))))" for e due n r
    using safe_insert_event by (rule safe_trans)
  from 1 2 3 show ?thesis by (simp add: throttle_def Let_def case_prod_beta)
qed

lemma safe_reset: "safe_step s (reset_streak d s)"
  unfolding reset_streak_def by (auto intro: safe_on_deployment)

lemma safe_refill: "safe_step s (refill d a now s)"
  unfolding refill_def
  by (auto simp: safe_withdraw safe_scheduleTask intro: safe_on_task split: option.split)

lemma safe_infinite_ended: "safe_step s (infiniteJobStateCompletedOrStopUpdate env j s)"
proof -
  have "safe_step s (refill d a now (reset_streak d s))" for d a now
    using safe_reset safe_refill by (rule safe_trans)
  then show ?thesis
    by (simp add: infiniteJobStateCompletedOrStopUpdate_def Let_def safe_throttle split: option.split)
qed

lemma safe_job_listener: "safe_step s (run_job_listener env l j s)"
  by (cases l) (simp_all add: safe_all_stopped jobEndpointStatusUpdate_def safe_refresh safe_running_listeners safe_infinite_ended)

text \<open>
  C20: no reaction to a change revives anything: whatever update of whatever (possibly outdated)
  document is delivered, its callbacks leave every ARCHIVED deployment ARCHIVED, every settled
  job in its state, and the store's keys unique.
\<close>

theorem reactions_keep_terminal_states:
  assumes "deployment_updated env updated d s = Some s' \<or> job_updated env updated j s = Some s'"
  shows "(\<forall>e \<in> set (db_deployments s). d_status e = ARCHIVED \<longrightarrow>
      (\<exists>e' \<in> set (db_deployments s'). d_id e' = d_id e \<and> d_status e' = ARCHIVED)) \<and>
    (\<forall>k \<in> set (db_jobs s). \<not> job_active k \<longrightarrow> (\<exists>k' \<in> set (db_jobs s'). j_job k' = j_job k \<and> j_state k' = j_state k)) \<and>
    (store_wf s \<longrightarrow> store_wf s')"
proof -
  have "safe_step s s'"
    using assms safe_fold [of _ "\<lambda>l. run_deployment_listener env l d"] safe_fold [of _ "\<lambda>l. run_job_listener env l j"]
    by (auto simp: deployment_updated_def job_updated_def safe_deployment_listener safe_job_listener)
  then show ?thesis by (auto simp: safe_step_def archived_le_def settled_le_def)
qed

section \<open>The theorems on an example\<close>

definition ended_job :: jobs_document where
  "ended_job = example_job ''J'' J_COMPLETED 1 1"

definition ended_db :: "deployment_status \<Rightarrow> db" where
  "ended_db st = empty_db\<lparr>db_deployments := [blank_deployment ''d'' ''o'' st], db_jobs := [ended_job],
     db_tasks := [(blank_task 0 EXTEND ''d'')\<lparr>t_job := Some ''J''\<rparr>], db_next_oid := 1\<rparr>"

lemma ended_facts:
  "distinct (map d_id (db_deployments (ended_db st)))" "db_deployments (ended_db st) = [blank_deployment ''d'' ''o'' st]"
  "db_jobs (ended_db st) = [ended_job]" "j_deployment ended_job = ''d''" "j_job ended_job = ''J''"
  "db_tasks (ended_db st) = [(blank_task 0 EXTEND ''d'')\<lparr>t_job := Some ''J''\<rparr>]" "j_state ended_job = J_COMPLETED"
  by (simp_all add: ended_db_def ended_job_def)

lemma blank_simple: "d_strategy (blank_deployment i owner st) = SIMPLE"
  by (simp add: blank_deployment_def)

theorem last_job_settles_deployment_witness:
  "db_deployments (jobAllActiveJobsStop ended_job (ended_db RUNNING)) = [(blank_deployment ''d'' ''o'' RUNNING)\<lparr>d_status := STOPPED\<rparr>] \<and>
   db_tasks (jobAllActiveJobsStop ended_job (ended_db RUNNING)) = []"
  using last_job_settles_deployment [OF ended_facts(1) refl, of ended_job RUNNING]
  by (simp add: ended_facts(2-7) settles_def blank_simple)

theorem settling_job_loses_start_witness:
  "\<exists>t \<in> set (db_tasks (deploymentStatusStartingUpdate example_env (blank_deployment ''d'' ''o'' STARTING)
      (jobAllActiveJobsStop ended_job (ended_db STARTING)))). t_task t = LIST \<and>
     \<not> checkTaskWanted (deploymentStatusStartingUpdate example_env (blank_deployment ''d'' ''o'' STARTING)
      (jobAllActiveJobsStop ended_job (ended_db STARTING))) t"
  using settling_job_loses_start [OF ended_facts(1), of "blank_deployment ''d'' ''o'' STARTING" STARTING, OF _ _ _ _ _ refl refl,
      of ended_job example_env]
  by (auto simp: ended_facts(2-7) blank_simple)

theorem reactions_keep_terminal_states_witness:
  "\<exists>s'. job_updated example_env [''state''] ended_job (ended_db ARCHIVED) = Some s' \<and>
     (\<exists>e' \<in> set (db_deployments s'). d_id e' = ''d'' \<and> d_status e' = ARCHIVED)"
proof -
  obtain s' where s': "job_updated example_env [''state''] ended_job (ended_db ARCHIVED) = Some s'"
    by (simp add: job_updated_def job_listeners_reached)
  with reactions_keep_terminal_states [OF disjI2 [OF s']] show ?thesis by (simp add: ended_facts)
qed

end
