(* ===== verification/Live_Stream.thy ===== *)
theory Live_Stream
  imports Cursor Listeners
begin

text \<open>
  The server-sent stream of a deployment: the connections watching it and the tasks they were told
  of (\<open>src/router/stream/deploymentWatchers.ts\<close>), the changes forwarded to them
  (\<open>src/router/stream/deploymentChangeListener.ts\<close>) and the handler that opens one
  (\<open>src/router/routes/get/deployments/[id]/streamDeploymentEvents.ts\<close>). A JavaScript \<open>Set\<close> is an
  object here: \<open>ss_sets\<close> maps its reference to its members in insertion order, because an
  \<open>unwatch\<close> keeps the reference it was made with. A connection is a number; its socket is what was
  written to it, and whether it has ended or was destroyed. The heartbeat's comments are no frames.
\<close>

section \<open>Frames (\<open>deploymentWatchers.ts\<close>)\<close>

datatype stream_event =
    Ev_deployment deployment_status nat nat
  | Ev_job address job_state "address option" int int nat string
  | Ev_jobs "address list"
  | Ev_log event_category string string "string option" string
  | Ev_task string task_type "task_status option" int string "address option"
  | Ev_task_done string task_type
  | Ev_endpoint endpoint

definition toDeploymentEvent :: "deployment_document \<Rightarrow> stream_event" where
  "toDeploymentEvent doc = Ev_deployment (d_status doc) (d_replicas doc) (d_active_revision doc)"

definition toJobEvent :: "jobs_document \<Rightarrow> stream_event" where
  "toJobEvent doc = Ev_job (j_job doc) (j_state doc) (j_node doc) (j_time_start doc)
     (nullish (j_time_end doc) 0) (j_revision doc) (toISOString (j_created_at doc))"

definition toJobsSnapshotEvent :: "jobs_document list \<Rightarrow> stream_event" where
  "toJobsSnapshotEvent jobs = Ev_jobs (map j_job jobs)"

definition toLogEvent :: "event_document \<Rightarrow> stream_event" where
  "toLogEvent doc = Ev_log (e_category doc) (e_type doc) (e_message doc) (e_tx doc)
     (toISOString (e_created_at doc))"

definition toTaskEvent :: "task_document \<Rightarrow> stream_event" where
  "toTaskEvent doc = Ev_task (toHexString (t_id doc)) (t_task doc) (t_status doc) (t_attempts doc)
     (toISOString (t_due_at doc)) (t_job doc)"

definition toTaskDoneEvent :: "string \<Rightarrow> task_type \<Rightarrow> stream_event" where
  "toTaskDoneEvent i task = Ev_task_done i task"

definition toEndpointEvents :: "endpoint list \<Rightarrow> stream_event list" where
  "toEndpointEvents endpoints = map Ev_endpoint endpoints"

section \<open>The watchers\<close>

record connection =
  co_deployment :: string
  co_set :: nat
  co_written :: "stream_event list"
  co_ended :: bool
  co_destroyed :: bool

record stream_state =
  ss_watchers :: "(string \<times> nat) list"
  ss_sets :: "nat \<Rightarrow> nat list"
  ss_next :: nat
  ss_tasks :: "string \<Rightarrow> (string \<times> task_type) option"
  ss_conns :: "nat \<Rightarrow> connection option"

definition createDeploymentWatchers :: stream_state where
  "createDeploymentWatchers = \<lparr>ss_watchers = [], ss_sets = (\<lambda>r. []), ss_next = 0,
     ss_tasks = (\<lambda>i. None), ss_conns = (\<lambda>l. None)\<rparr>"

definition set_add :: "nat \<Rightarrow> nat list \<Rightarrow> nat list" where
  "set_add l xs = (if l \<in> set xs then xs else xs @ [l])"

definition set_delete :: "nat \<Rightarrow> nat list \<Rightarrow> nat list" where
  "set_delete l xs = filter (\<lambda>x. x \<noteq> l) xs"

text \<open>\<open>watch\<close>: the state, and the reference of the set the returned \<open>unwatch\<close> captures.\<close>

definition watch :: "string \<Rightarrow> nat \<Rightarrow> stream_state \<Rightarrow> nat \<times> stream_state" where
  "watch i l s =
     (case map_of (ss_watchers s) i of
        Some r \<Rightarrow> (r, s\<lparr>ss_sets := (ss_sets s)(r := set_add l (ss_sets s r))\<rparr>)
      | None \<Rightarrow> (ss_next s, s\<lparr>ss_watchers := ss_watchers s @ [(i, ss_next s)],
          ss_sets := (ss_sets s)(ss_next s := [l]), ss_next := Suc (ss_next s)\<rparr>))"

definition unwatch :: "string \<Rightarrow> nat \<Rightarrow> nat \<Rightarrow> stream_state \<Rightarrow> stream_state" where
  "unwatch i r l s =
     (let left = set_delete l (ss_sets s r); s' = s\<lparr>ss_sets := (ss_sets s)(r := left)\<rparr>
      in if left = [] \<and> map_of (ss_watchers s) i = Some r
         then s'\<lparr>ss_watchers := filter (\<lambda>(k, v). k \<noteq> i) (ss_watchers s)\<rparr> else s')"

definition listeners_of :: "string \<Rightarrow> stream_state \<Rightarrow> nat list" where
  "listeners_of i s = (case map_of (ss_watchers s) i of None \<Rightarrow> [] | Some r \<Rightarrow> ss_sets s r)"

definition has_watchers :: "string \<Rightarrow> stream_state \<Rightarrow> bool" where
  "has_watchers i s \<longleftrightarrow> map_of (ss_watchers s) i \<noteq> None"

definition count_watchers :: "string \<Rightarrow> stream_state \<Rightarrow> nat" where
  "count_watchers i s = length (listeners_of i s)"

definition is_closed :: "connection \<Rightarrow> bool" where
  "is_closed c \<longleftrightarrow> co_ended c \<or> co_destroyed c"

text \<open>The connection's \<open>send\<close> and \<open>close\<close> (\<open>streamDeploymentEvents.ts\<close>).\<close>

definition written :: "stream_event \<Rightarrow> connection \<Rightarrow> connection" where
  "written e c = (if is_closed c then c else c\<lparr>co_written := co_written c @ [e]\<rparr>)"

definition send :: "nat \<Rightarrow> stream_event \<Rightarrow> stream_state \<Rightarrow> stream_state" where
  "send l e s = s\<lparr>ss_conns := (ss_conns s)(l := map_option (written e) (ss_conns s l))\<rparr>"

definition close_stream :: "nat \<Rightarrow> stream_state \<Rightarrow> stream_state" where
  "close_stream l s =
     (case ss_conns s l of
        None \<Rightarrow> s
      | Some c \<Rightarrow>
          let s' = unwatch (co_deployment c) (co_set c) l s
          in if is_closed c then s' else s'\<lparr>ss_conns := (ss_conns s')(l := Some (c\<lparr>co_ended := True\<rparr>))\<rparr>)"

definition notify :: "string \<Rightarrow> stream_event \<Rightarrow> stream_state \<Rightarrow> stream_state" where
  "notify i e s = fold (\<lambda>l. send l e) (listeners_of i s) s"

definition closeAll :: "stream_state \<Rightarrow> stream_state" where
  "closeAll s = fold close_stream (concat (map (\<lambda>(k, r). ss_sets s r) (ss_watchers s))) s"

definition trackTask :: "string \<Rightarrow> string \<Rightarrow> task_type \<Rightarrow> stream_state \<Rightarrow> stream_state" where
  "trackTask i dep task s = s\<lparr>ss_tasks := (ss_tasks s)(i := Some (dep, task))\<rparr>"

definition untrackTask :: "string \<Rightarrow> stream_state \<Rightarrow> (string \<times> task_type) option \<times> stream_state" where
  "untrackTask i s = (ss_tasks s i, s\<lparr>ss_tasks := (ss_tasks s)(i := None)\<rparr>)"

section \<open>Opening a stream (\<open>streamDeploymentEvents.ts\<close>)\<close>

definition stream_jobs :: "string \<Rightarrow> db \<Rightarrow> jobs_document list" where
  "stream_jobs i s = sort_key j_created_at (filter (\<lambda>j. j_deployment j = i \<and> j_state j \<in> set active_job_states) (db_jobs s))"

definition stream_tasks :: "string \<Rightarrow> db \<Rightarrow> task_document list" where
  "stream_tasks i s = sort_key t_due_at (filter (\<lambda>t. t_deploymentId t = i) (db_tasks s))"

definition snapshot_frames :: "deployment_document \<Rightarrow> db \<Rightarrow> stream_event list" where
  "snapshot_frames deployment s =
     [toDeploymentEvent deployment, toJobsSnapshotEvent (stream_jobs (d_id deployment) s)]
       @ map toJobEvent (stream_jobs (d_id deployment) s)
       @ map toTaskEvent (stream_tasks (d_id deployment) s)
       @ toEndpointEvents (d_endpoints deployment)"

text \<open>
  The handler on the connection \<open>l\<close>: the deployment is what the middleware read, \<open>None\<close> is a
  look-up that failed, \<open>destroyed\<close> whether the client left meanwhile. It answers 503, leaves a client that has gone alone, or opens the stream.
\<close>

datatype stream_reply = Refused | Gone | Streaming

definition streamDeploymentEvents ::
    "nat \<Rightarrow> deployment_document \<Rightarrow> db option \<Rightarrow> bool \<Rightarrow> stream_state \<Rightarrow> stream_reply \<times> stream_state" where
  "streamDeploymentEvents l deployment store destroyed s =
     (case store of
        None \<Rightarrow> (Refused, s)
      | Some st \<Rightarrow>
          if destroyed then (Gone, s)
          else
            let (r, s1) = watch (d_id deployment) l s;
                s2 = s1\<lparr>ss_conns := (ss_conns s1)(l := Some \<lparr>co_deployment = d_id deployment,
                       co_set = r, co_written = [], co_ended = False, co_destroyed = False\<rparr>)\<rparr>;
                s3 = fold (\<lambda>t. trackTask (toHexString (t_id t)) (d_id deployment) (t_task t))
                       (stream_tasks (d_id deployment) st) s2
            in (Streaming, fold (send l) (snapshot_frames deployment st) s3))"

section \<open>Forwarding changes (\<open>deploymentChangeListener.ts\<close>)\<close>

definition onDeploymentChange :: "deployment_document \<Rightarrow> stream_state \<Rightarrow> stream_state" where
  "onDeploymentChange doc s = (if has_watchers (d_id doc) s then notify (d_id doc) (toDeploymentEvent doc) s else s)"

definition onJobChange :: "jobs_document \<Rightarrow> stream_state \<Rightarrow> stream_state" where
  "onJobChange doc s = (if has_watchers (j_deployment doc) s then notify (j_deployment doc) (toJobEvent doc) s else s)"

definition onEndpointsChange :: "deployment_document \<Rightarrow> stream_state \<Rightarrow> stream_state" where
  "onEndpointsChange doc s =
     (if \<not> has_watchers (d_id doc) s then s else fold (notify (d_id doc)) (toEndpointEvents (d_endpoints doc)) s)"

definition onLogEvent :: "event_document \<Rightarrow> stream_state \<Rightarrow> stream_state" where
  "onLogEvent doc s = (if has_watchers (e_deploymentId doc) s then notify (e_deploymentId doc) (toLogEvent doc) s else s)"

definition onTaskChange :: "task_document \<Rightarrow> stream_state \<Rightarrow> stream_state" where
  "onTaskChange doc s =
     (if \<not> has_watchers (t_deploymentId doc) s then s
      else notify (t_deploymentId doc) (toTaskEvent doc)
             (trackTask (toHexString (t_id doc)) (t_deploymentId doc) (t_task doc) s))"

definition onTaskDelete :: "object_id \<Rightarrow> stream_state \<Rightarrow> stream_state" where
  "onTaskDelete oid s =
     (let i = toHexString oid
      in case untrackTask i s of
           (Some (dep, task), s') \<Rightarrow> if has_watchers dep s' then notify dep (toTaskDoneEvent i task) s' else s'
         | (None, s') \<Rightarrow> s')"

text \<open>
  The registrations. None has a filter, so only the written paths matter; an update whose document
  is gone by the time it is looked up reaches nobody.
\<close>

definition DEPLOYMENT_FIELDS :: "string list" where
  "DEPLOYMENT_FIELDS = [''status'', ''replicas'', ''active_revision'']"

definition JOB_FIELDS :: "string list" where
  "JOB_FIELDS = [''state'', ''node'', ''time_start'', ''time_end'']"

definition TASK_FIELDS :: "string list" where
  "TASK_FIELDS = [''status'', ''attempts'', ''due_at'']"

definition ENDPOINT_FIELDS :: "string list" where
  "ENDPOINT_FIELDS = [''endpoints'']"

datatype change =
    Deployment_inserted deployment_document
  | Deployment_updated "string list" "deployment_document option"
  | Job_inserted jobs_document
  | Job_updated "string list" "jobs_document option"
  | Event_inserted event_document
  | Task_inserted task_document
  | Task_updated "string list" "task_document option"
  | Task_deleted object_id

definition forward_update ::
    "(string list \<times> ('d \<Rightarrow> stream_state \<Rightarrow> stream_state)) list \<Rightarrow> string list \<Rightarrow> 'd option
     \<Rightarrow> stream_state \<Rightarrow> stream_state" where
  "forward_update registered updated doc s =
     (case doc of
        None \<Rightarrow> s
      | Some d \<Rightarrow> fold (\<lambda>(fields, callback). if matchFields updated fields then callback d else id) registered s)"

fun forward :: "change \<Rightarrow> stream_state \<Rightarrow> stream_state" where
  "forward (Deployment_inserted doc) = onDeploymentChange doc"
| "forward (Deployment_updated updated doc) =
     forward_update [(DEPLOYMENT_FIELDS, onDeploymentChange), (ENDPOINT_FIELDS, onEndpointsChange)] updated doc"
| "forward (Job_inserted doc) = onJobChange doc"
| "forward (Job_updated updated doc) = forward_update [(JOB_FIELDS, onJobChange)] updated doc"
| "forward (Event_inserted doc) = onLogEvent doc"
| "forward (Task_inserted doc) = onTaskChange doc"
| "forward (Task_updated updated doc) = forward_update [(TASK_FIELDS, onTaskChange)] updated doc"
| "forward (Task_deleted oid) = onTaskDelete oid"

text \<open>
  What happens to the watchers: a request opens a stream on a response object of its own, a change
  is forwarded, a socket is destroyed, its \<open>close\<close> event fires, or every stream is closed (a
  shutdown, or change streams reopened after they failed).
\<close>

datatype stream_op =
    Stream_open nat deployment_document "db option" bool
  | Stream_change change
  | Socket_destroyed nat
  | Socket_closed nat
  | Streams_closed

fun stream_step :: "stream_op \<Rightarrow> stream_state \<Rightarrow> stream_state" where
  "stream_step (Stream_open l d store gone) s =
     (if ss_conns s l = None then snd (streamDeploymentEvents l d store gone s) else s)"
| "stream_step (Stream_change c) s = forward c s"
| "stream_step (Socket_destroyed l) s =
     s\<lparr>ss_conns := (ss_conns s)(l := map_option (co_destroyed_update (\<lambda>_. True)) (ss_conns s l))\<rparr>"
| "stream_step (Socket_closed l) s = close_stream l s"
| "stream_step Streams_closed s = closeAll s"

definition stream_run :: "stream_op list \<Rightarrow> stream_state" where
  "stream_run ops = fold stream_step ops createDeploymentWatchers"

section \<open>The watchers' invariant\<close>

text \<open>
  Every set of the map is its deployment's own, not empty and without duplicates; a member of a set
  is a connection that was registered with it for the deployment the map has it under; a connection
  that is not closed is a member of its set.
\<close>

definition watchers_wf :: "stream_state \<Rightarrow> bool" where
  "watchers_wf s \<longleftrightarrow>
     distinct (map fst (ss_watchers s)) \<and> distinct (map snd (ss_watchers s)) \<and>
     (\<forall>(i, r) \<in> set (ss_watchers s). r < ss_next s \<and> ss_sets s r \<noteq> []) \<and>
     (\<forall>r. distinct (ss_sets s r)) \<and>
     (\<forall>r. \<forall>l \<in> set (ss_sets s r). \<exists>c. ss_conns s l = Some c \<and> co_set c = r \<and>
        map_of (ss_watchers s) (co_deployment c) = Some r) \<and>
     (\<forall>l c. ss_conns s l = Some c \<longrightarrow> \<not> is_closed c \<longrightarrow> l \<in> set (ss_sets s (co_set c)))"

definition keeps_identity :: "connection \<Rightarrow> connection \<Rightarrow> bool" where
  "keeps_identity c c' \<longleftrightarrow> co_deployment c' = co_deployment c \<and> co_set c' = co_set c \<and> (is_closed c \<longrightarrow> is_closed c')"

definition same_watchers :: "stream_state \<Rightarrow> stream_state \<Rightarrow> bool" where
  "same_watchers s s' \<longleftrightarrow> ss_watchers s' = ss_watchers s \<and> ss_sets s' = ss_sets s \<and> ss_next s' = ss_next s \<and>
     (\<forall>l. rel_option keeps_identity (ss_conns s l) (ss_conns s' l))"

lemma same_watchers_refl [simp]: "same_watchers s s"
  by (auto simp: same_watchers_def keeps_identity_def intro!: option.rel_refl)

lemma same_watchers_trans:
  assumes "same_watchers s t" "same_watchers t u" shows "same_watchers s u"
proof -
  have "rel_option keeps_identity (ss_conns s l) (ss_conns u l)" for l
    using assms unfolding same_watchers_def
    by (cases "ss_conns s l"; cases "ss_conns t l"; cases "ss_conns u l")
      (auto simp: keeps_identity_def dest!: spec [of _ l])
  with assms show ?thesis by (simp add: same_watchers_def)
qed

lemma same_watchers_fold:
  "(\<And>x s. same_watchers s (f x s)) \<Longrightarrow> same_watchers s (fold f xs s)"
  by (induction xs arbitrary: s) (auto intro: same_watchers_trans)

lemma same_watchers_listeners: "same_watchers s s' \<Longrightarrow> listeners_of i s' = listeners_of i s"
  by (auto simp: same_watchers_def listeners_of_def split: option.split)

lemma same_watchers_conn:
  assumes "same_watchers s s'" "ss_conns s' l = Some c'"
  obtains c where "ss_conns s l = Some c" "keeps_identity c c'"
  using assms unfolding same_watchers_def by (cases "ss_conns s l") (auto dest!: spec [of _ l])

lemma same_watchers_conn':
  assumes "same_watchers s s'" "ss_conns s l = Some c"
  obtains c' where "ss_conns s' l = Some c'" "keeps_identity c c'"
  using assms unfolding same_watchers_def by (cases "ss_conns s' l") (auto dest!: spec [of _ l])

lemma watchers_wf_same:
  assumes wf: "watchers_wf s" and same: "same_watchers s s'"
  shows "watchers_wf s'"
  unfolding watchers_wf_def
proof (intro conjI allI ballI impI)
  show "distinct (map fst (ss_watchers s'))" "distinct (map snd (ss_watchers s'))" "\<And>r. distinct (ss_sets s' r)"
    using wf same by (simp_all add: watchers_wf_def same_watchers_def)
next
  fix p assume "p \<in> set (ss_watchers s')"
  then show "case p of (i, r) \<Rightarrow> r < ss_next s' \<and> ss_sets s' r \<noteq> []"
    using wf same by (auto simp: watchers_wf_def same_watchers_def)
next
  fix r l assume "l \<in> set (ss_sets s' r)"
  then obtain c where "ss_conns s l = Some c" "co_set c = r" "map_of (ss_watchers s) (co_deployment c) = Some r"
    using wf same unfolding watchers_wf_def same_watchers_def by metis
  moreover from this same obtain c' where "ss_conns s' l = Some c'" "keeps_identity c c'"
    by (auto elim: same_watchers_conn')
  ultimately show "\<exists>c. ss_conns s' l = Some c \<and> co_set c = r \<and> map_of (ss_watchers s') (co_deployment c) = Some r"
    using same by (simp add: keeps_identity_def same_watchers_def)
next
  fix l c' assume "ss_conns s' l = Some c'" "\<not> is_closed c'"
  with same obtain c where "ss_conns s l = Some c" "keeps_identity c c'" by (auto elim: same_watchers_conn)
  with wf same \<open>\<not> is_closed c'\<close> show "l \<in> set (ss_sets s' (co_set c'))"
    by (auto simp: watchers_wf_def same_watchers_def keeps_identity_def)
qed

lemma written_identity: "keeps_identity c (written e c)"
  by (simp add: written_def keeps_identity_def is_closed_def)

lemma keeps_identity_refl [simp]: "keeps_identity c c" "rel_option keeps_identity x x"
  by (auto simp: keeps_identity_def intro!: option.rel_refl)

lemma same_send: "same_watchers s (send l e s)"
  by (auto simp: same_watchers_def send_def option.rel_map written_identity intro!: option.rel_refl)

lemma same_notify: "same_watchers s (notify i e s)"
  unfolding notify_def by (rule same_watchers_fold) (rule same_send)

lemma same_track: "same_watchers s (trackTask i dep task s)"
  by (auto simp: trackTask_def same_watchers_def keeps_identity_def intro!: option.rel_refl)

lemma same_untrack: "same_watchers s (snd (untrackTask i s))"
  by (auto simp: untrackTask_def same_watchers_def keeps_identity_def intro!: option.rel_refl)

lemmas same_basic = same_send same_notify same_track same_untrack

lemma same_task_change: "same_watchers s (onTaskChange d s)"
  unfolding onTaskChange_def by (auto intro: same_watchers_trans [OF same_track same_notify])

lemma same_task_delete: "same_watchers s (onTaskDelete oid s)"
proof (cases "untrackTask (toHexString oid) s")
  case (Pair known s')
  then have "same_watchers s s'" using same_untrack [of s "toHexString oid"] by simp
  with Pair show ?thesis
    by (auto simp: onTaskDelete_def Let_def split: option.split prod.split intro: same_watchers_trans same_notify)
qed

lemma same_forward_update:
  "(\<And>fields callback doc s. (fields, callback) \<in> set registered \<Longrightarrow> same_watchers s (callback doc s)) \<Longrightarrow>
     same_watchers s (forward_update registered updated doc s)"
proof (induction registered arbitrary: s)
  case (Cons p registered)
  obtain fields callback where p: "p = (fields, callback)" by (cases p)
  show ?case
  proof (cases doc)
    case (Some d)
    let ?t = "(if matchFields updated fields then callback d else id) s"
    have "same_watchers s ?t" using Cons.prems [of fields callback] p by simp
    moreover have "same_watchers ?t (forward_update registered updated doc ?t)"
      by (rule Cons.IH) (use Cons.prems in auto)
    ultimately show ?thesis using p Some by (auto simp: forward_update_def intro: same_watchers_trans)
  qed (simp add: forward_update_def)
qed (auto simp: forward_update_def split: option.split)

lemma same_forward: "same_watchers s (forward c s)"
  by (cases c) (auto intro!: same_forward_update simp: onDeploymentChange_def onJobChange_def onLogEvent_def
      onEndpointsChange_def same_basic same_task_change same_task_delete same_watchers_fold)

lemma watchers_wf_init: "watchers_wf createDeploymentWatchers"
  by (simp add: watchers_wf_def createDeploymentWatchers_def)

lemma wf_current:
  "watchers_wf s \<Longrightarrow> map_of (ss_watchers s) i = Some r \<Longrightarrow> r < ss_next s \<and> ss_sets s r \<noteq> []"
  unfolding watchers_wf_def by (blast dest: map_of_SomeD)

lemma wf_member:
  assumes "watchers_wf s" "l \<in> set (ss_sets s r)"
  obtains c where "ss_conns s l = Some c" "co_set c = r" "map_of (ss_watchers s) (co_deployment c) = Some r"
  using assms unfolding watchers_wf_def by blast

lemma wf_stale:
  assumes "watchers_wf s" "\<And>i. map_of (ss_watchers s) i \<noteq> Some r" shows "ss_sets s r = []"
proof (rule ccontr)
  assume "ss_sets s r \<noteq> []"
  then obtain l where "l \<in> set (ss_sets s r)" by (cases "ss_sets s r") auto
  with assms show False by (auto elim: wf_member)
qed

lemma listeners_of_distinct: "watchers_wf s \<Longrightarrow> distinct (listeners_of i s)"
  by (simp add: listeners_of_def watchers_wf_def split: option.split)

lemma wf_same_set:
  assumes "watchers_wf s" "map_of (ss_watchers s) i = Some r" "map_of (ss_watchers s) j = Some r"
  shows "i = j"
proof -
  have "inj_on snd (set (ss_watchers s))" using assms(1) by (simp add: watchers_wf_def distinct_map)
  moreover have "(i, r) \<in> set (ss_watchers s)" "(j, r) \<in> set (ss_watchers s)"
    using assms(2,3) by (auto dest: map_of_SomeD)
  ultimately show ?thesis using inj_onD [of snd _ "(i, r)" "(j, r)"] by auto
qed

lemma map_of_filter_key:
  "map_of (filter (\<lambda>(k, v). k \<noteq> i) xs) j = (if j = i then None else map_of xs j)"
  by (induction xs) auto

text \<open>A registration and its end, on an invariant state.\<close>

lemma unwatch_listeners:
  assumes wf: "watchers_wf s" and conn: "ss_conns s l = Some c"
  shows "listeners_of j (unwatch (co_deployment c) (co_set c) l s) =
           (if j = co_deployment c then filter (\<lambda>x. x \<noteq> l) (listeners_of j s) else listeners_of j s)"
proof (cases "map_of (ss_watchers s) (co_deployment c) = Some (co_set c)")
  case True
  show ?thesis
  proof (cases "map_of (ss_watchers s) j = Some (co_set c)")
    case current: True
    then have "j = co_deployment c" using wf True by (auto dest: wf_same_set)
    with True show ?thesis by (auto simp: unwatch_def Let_def listeners_of_def map_of_filter_key set_delete_def)
  next
    case False
    then have "j \<noteq> co_deployment c" using True by auto
    with True False show ?thesis
      by (auto simp: unwatch_def Let_def listeners_of_def map_of_filter_key split: option.split)
  qed
next
  case False
  have out: "l \<notin> set (ss_sets s r)" for r
    using wf conn False by (auto elim: wf_member)
  then have "filter (\<lambda>x. x \<noteq> l) (ss_sets s r) = ss_sets s r" for r by (metis (mono_tags, lifting) filter_True)
  with False show ?thesis
    by (auto simp: unwatch_def Let_def listeners_of_def set_delete_def split: option.split)
qed

lemma watch_listeners:
  assumes wf: "watchers_wf s" and fresh: "ss_conns s l = None"
  shows "listeners_of j (snd (watch i l s)) = (if j = i then listeners_of j s @ [l] else listeners_of j s)"
proof -
  have out: "l \<notin> set (ss_sets s r)" for r using wf fresh by (auto elim: wf_member)
  show ?thesis
  proof (cases "map_of (ss_watchers s) i")
    case None
    have "map_of (ss_watchers s) j \<noteq> Some (ss_next s)" using wf by (auto dest: wf_current)
    with None show ?thesis
      by (auto simp: watch_def listeners_of_def map_add_def split: option.split)
  next
    case (Some r)
    with wf out show ?thesis
      by (auto simp: watch_def listeners_of_def set_add_def dest: wf_same_set split: option.split)
  qed
qed

lemma wf_entries:
  "watchers_wf s \<Longrightarrow> (i, r) \<in> set (ss_watchers s) \<longleftrightarrow> map_of (ss_watchers s) i = Some r"
  by (simp add: watchers_wf_def)

lemma watchers_wf_close:
  assumes wf: "watchers_wf s" shows "watchers_wf (close_stream l s)"
proof (cases "ss_conns s l")
  case (Some c)
  define r where "r = co_set c"
  define i where "i = co_deployment c"
  define s' where "s' = close_stream l s"
  define ended where "ended \<longleftrightarrow> set_delete l (ss_sets s r) = [] \<and> map_of (ss_watchers s) i = Some r"
  have W: "ss_watchers s' = (if ended then filter (\<lambda>(k, v). k \<noteq> i) (ss_watchers s) else ss_watchers s)"
    and S: "ss_sets s' = (ss_sets s)(r := set_delete l (ss_sets s r))" and N: "ss_next s' = ss_next s"
    and C: "ss_conns s' = (ss_conns s)(l := Some (if is_closed c then c else c\<lparr>co_ended := True\<rparr>))"
    using Some by (auto simp: s'_def close_stream_def unwatch_def Let_def r_def i_def ended_def fun_upd_idem)
  define c' where "c' = (if is_closed c then c else c\<lparr>co_ended := True\<rparr>)"
  have c': "is_closed c'" "ss_conns s' = (ss_conns s)(l := Some c')"
    using C by (simp_all add: c'_def is_closed_def)
  have own: "l \<in> set (ss_sets s q) \<Longrightarrow> q = r \<and> map_of (ss_watchers s) i = Some r" for q
    using wf Some by (auto elim: wf_member simp: r_def i_def)
  have sub: "set (ss_sets s' q) = set (ss_sets s q) - {l}" for q
    using own [of q] by (auto simp: S set_delete_def)
  have kept: "map_of (ss_watchers s') j = Some q" if "map_of (ss_watchers s) j = Some q" "ss_sets s' q \<noteq> []" for j q
    using that by (auto simp: W ended_def S map_of_filter_key)
  have "watchers_wf s'"
    unfolding watchers_wf_def
  proof (intro conjI allI ballI impI)
    show "distinct (map fst (ss_watchers s'))" "distinct (map snd (ss_watchers s'))"
      using wf by (auto simp: W watchers_wf_def intro: distinct_map_filter)
    show "distinct (ss_sets s' q)" for q using wf by (simp add: S watchers_wf_def set_delete_def)
  next
    fix p assume p: "p \<in> set (ss_watchers s')"
    obtain j q where jq: "p = (j, q)" by (cases p)
    then have old: "map_of (ss_watchers s) j = Some q" and j: "ended \<Longrightarrow> j \<noteq> i"
      using p wf by (auto simp: W wf_entries split: if_splits)
    have "ss_sets s' q \<noteq> []"
    proof (cases "q = r")
      case True
      show ?thesis
      proof (cases "map_of (ss_watchers s) i = Some r")
        case True
        with old \<open>q = r\<close> wf have "j = i" by (auto dest: wf_same_set)
        with j have "\<not> ended" by blast
        then show ?thesis using True \<open>q = r\<close> by (simp add: ended_def S)
      next
        case False
        then have "l \<notin> set (ss_sets s q)" using own by blast
        then have "set (ss_sets s' q) = set (ss_sets s q)" by (simp add: sub)
        then show ?thesis using wf_current [OF wf old] by auto
      qed
    next
      case False
      then show ?thesis using wf_current [OF wf old] by (simp add: S)
    qed
    with jq show "case p of (j, q) \<Rightarrow> q < ss_next s' \<and> ss_sets s' q \<noteq> []"
      using wf_current [OF wf old] by (simp add: N)
  next
    fix q m assume m: "m \<in> set (ss_sets s' q)"
    then have "m \<in> set (ss_sets s q)" "m \<noteq> l" by (auto simp: sub)
    with wf obtain cm where "ss_conns s m = Some cm" "co_set cm = q" "map_of (ss_watchers s) (co_deployment cm) = Some q"
      by (auto elim: wf_member)
    moreover have "ss_sets s' q \<noteq> []" using m by auto
    ultimately show "\<exists>c. ss_conns s' m = Some c \<and> co_set c = q \<and> map_of (ss_watchers s') (co_deployment c) = Some q"
      using \<open>m \<noteq> l\<close> by (auto simp: c'(2) intro: kept)
  next
    fix m cm assume "ss_conns s' m = Some cm" "\<not> is_closed cm"
    then show "m \<in> set (ss_sets s' (co_set cm))"
      using wf c' by (auto simp: sub watchers_wf_def split: if_splits)
  qed
  then show ?thesis by (simp add: s'_def)
qed (use wf in \<open>simp add: close_stream_def\<close>)

lemma watchers_wf_fold_close: "watchers_wf s \<Longrightarrow> watchers_wf (fold close_stream ls s)"
  by (induction ls arbitrary: s) (auto intro: watchers_wf_close)

text \<open>The state right after a registration: the watcher is in and its connection exists.\<close>

definition registered :: "string \<Rightarrow> nat \<Rightarrow> stream_state \<Rightarrow> stream_state" where
  "registered i l s =
     (let (r, s1) = watch i l s
      in s1\<lparr>ss_conns := (ss_conns s1)(l := Some \<lparr>co_deployment = i, co_set = r, co_written = [],
             co_ended = False, co_destroyed = False\<rparr>)\<rparr>)"

lemma registered_conns:
  "ss_conns (registered i l s) l' = (if l' = l then Some \<lparr>co_deployment = i, co_set = fst (watch i l s),
     co_written = [], co_ended = False, co_destroyed = False\<rparr> else ss_conns s l')"
  by (auto simp: registered_def watch_def split: option.split)

lemma registered_listeners: "listeners_of j (registered i l s) = listeners_of j (snd (watch i l s))"
  by (simp add: registered_def listeners_of_def split: option.split prod.split)

lemma watchers_wf_registered:
  assumes wf: "watchers_wf s" and fresh: "ss_conns s l = None"
  shows "watchers_wf (registered i l s)"
proof -
  define s' where "s' = registered i l s"
  define r where "r = fst (watch i l s)"
  define known where "known \<longleftrightarrow> map_of (ss_watchers s) i = Some r"
  have out: "l \<notin> set (ss_sets s q)" for q using wf fresh by (auto elim: wf_member)
  have new: "\<not> known \<Longrightarrow> r = ss_next s \<and> map_of (ss_watchers s) i = None"
    by (auto simp: known_def r_def watch_def split: option.splits)
  have gone: "ss_sets s q = []" if "ss_next s \<le> q" for q
    using wf that by (intro wf_stale) (auto dest: wf_current)
  have W: "ss_watchers s' = (if known then ss_watchers s else ss_watchers s @ [(i, r)])"
    and S: "ss_sets s' = (ss_sets s)(r := ss_sets s r @ [l])"
    and N: "ss_next s' = (if known then ss_next s else Suc (ss_next s))"
    using out gone by (auto simp: s'_def registered_def r_def known_def watch_def set_add_def split: option.splits)
  have now: "map_of (ss_watchers s') i = Some r"
    using new by (auto simp: W known_def map_add_def)
  have old: "map_of (ss_watchers s) j = Some q \<Longrightarrow> map_of (ss_watchers s') j = Some q" for j q
    using new by (auto simp: W map_add_def split: option.split)
  have "r \<notin> snd ` set (ss_watchers s)" if "\<not> known"
    using that new wf by (auto simp: watchers_wf_def)
  moreover have "i \<notin> fst ` set (ss_watchers s)" if "\<not> known"
    using that new by (auto simp: map_of_eq_None_iff)
  ultimately have "watchers_wf s'"
    unfolding watchers_wf_def
  proof (intro conjI allI ballI impI)
    assume r: "\<not> known \<Longrightarrow> r \<notin> snd ` set (ss_watchers s)" and i: "\<not> known \<Longrightarrow> i \<notin> fst ` set (ss_watchers s)"
    show "distinct (map fst (ss_watchers s'))" "distinct (map snd (ss_watchers s'))"
      using wf r i by (auto simp: W watchers_wf_def)
    show "distinct (ss_sets s' q)" for q using wf out by (auto simp: S watchers_wf_def)
  next
    fix p assume "p \<in> set (ss_watchers s')"
    then show "case p of (j, q) \<Rightarrow> q < ss_next s' \<and> ss_sets s' q \<noteq> []"
      using wf new by (auto simp: W S N watchers_wf_def split: if_splits)
  next
    fix q m assume m: "m \<in> set (ss_sets s' q)"
    show "\<exists>c. ss_conns s' m = Some c \<and> co_set c = q \<and> map_of (ss_watchers s') (co_deployment c) = Some q"
    proof (cases "m = l")
      case True
      with m out have "q = r" by (auto simp: S split: if_splits)
      with True now show ?thesis by (simp add: s'_def registered_conns r_def)
    next
      case False
      with m have "m \<in> set (ss_sets s q)" by (auto simp: S split: if_splits)
      with wf obtain c where "ss_conns s m = Some c" "co_set c = q" "map_of (ss_watchers s) (co_deployment c) = Some q"
        by (auto elim: wf_member)
      with False old show ?thesis by (simp add: s'_def registered_conns)
    qed
  next
    fix m c assume c: "ss_conns s' m = Some c" "\<not> is_closed c"
    show "m \<in> set (ss_sets s' (co_set c))"
    proof (cases "m = l")
      case True
      with c(1) have "co_set c = r" by (auto simp: s'_def registered_conns r_def)
      with True show ?thesis by (simp add: S)
    next
      case False
      with c have "m \<in> set (ss_sets s (co_set c))"
        using wf by (simp add: s'_def registered_conns watchers_wf_def)
      then show ?thesis by (auto simp: S)
    qed
  qed
  then show ?thesis by (simp add: s'_def)
qed

lemma open_cases:
  "streamDeploymentEvents l d store gone s =
     (if store = None then (Refused, s) else if gone then (Gone, s)
      else (Streaming, fold (send l) (snapshot_frames d (the store))
              (fold (\<lambda>t. trackTask (toHexString (t_id t)) (d_id d) (t_task t)) (stream_tasks (d_id d) (the store))
                (registered (d_id d) l s))))"
  by (auto simp: streamDeploymentEvents_def registered_def Let_def split: option.split prod.split)

lemma same_tracked: "same_watchers s (fold (\<lambda>t. trackTask (f t) dep (t_task t)) ts s)"
  by (rule same_watchers_fold) (rule same_track)

lemma same_opened:
  "same_watchers (registered (d_id d) l s)
     (fold (send l) frames (fold (\<lambda>t. trackTask (f t) dep (t_task t)) ts (registered (d_id d) l s)))"
  by (rule same_watchers_trans [OF same_tracked]) (rule same_watchers_fold, rule same_send)

lemma same_destroyed: "same_watchers s (stream_step (Socket_destroyed l) s)"
  by (auto simp: same_watchers_def option.rel_map keeps_identity_def is_closed_def intro!: option.rel_refl)

lemma watchers_wf_step: "watchers_wf s \<Longrightarrow> watchers_wf (stream_step op s)"
proof (cases op)
  case (Stream_open l d store gone)
  moreover assume "watchers_wf s"
  ultimately show ?thesis
    by (auto simp: open_cases intro: watchers_wf_same [OF watchers_wf_registered same_opened])
next
  case (Socket_destroyed l)
  moreover assume "watchers_wf s"
  ultimately show ?thesis by (simp only:) (rule watchers_wf_same [OF _ same_destroyed])
next
  case (Stream_change c)
  moreover assume "watchers_wf s"
  ultimately show ?thesis by (simp add: watchers_wf_same [OF _ same_forward])
qed (auto intro: watchers_wf_close watchers_wf_fold_close simp: closeAll_def)

lemma watchers_wf_run: "watchers_wf (stream_run ops)"
proof -
  have "watchers_wf s \<Longrightarrow> watchers_wf (fold stream_step ops s)" for s
    by (induction ops arbitrary: s) (auto intro: watchers_wf_step)
  then show ?thesis by (simp add: stream_run_def watchers_wf_init)
qed

section \<open>What the watchers implement\<close>

text \<open>
  The abstraction: for each deployment the connections listening to it, in the order they came, and
  the connections there have been. A stream that opens joins its deployment's audience, one whose
  socket closes leaves every audience, however often it is closed.
\<close>

record audience =
  au_listeners :: "string \<Rightarrow> nat list"
  au_used :: "nat \<Rightarrow> bool"

definition audience_of :: "stream_state \<Rightarrow> audience" where
  "audience_of s = \<lparr>au_listeners = (\<lambda>i. listeners_of i s), au_used = (\<lambda>l. ss_conns s l \<noteq> None)\<rparr>"

definition nobody :: audience where
  "nobody = \<lparr>au_listeners = (\<lambda>i. []), au_used = (\<lambda>l. False)\<rparr>"

fun audience_step :: "stream_op \<Rightarrow> audience \<Rightarrow> audience" where
  "audience_step (Stream_open l d store gone) a =
     (if au_used a l \<or> store = None \<or> gone then a
      else \<lparr>au_listeners = (au_listeners a)(d_id d := au_listeners a (d_id d) @ [l]), au_used = (au_used a)(l := True)\<rparr>)"
| "audience_step (Socket_closed l) a = a\<lparr>au_listeners := (\<lambda>i. filter (\<lambda>x. x \<noteq> l) (au_listeners a i))\<rparr>"
| "audience_step Streams_closed a = a\<lparr>au_listeners := (\<lambda>i. [])\<rparr>"
| "audience_step (Stream_change c) a = a"
| "audience_step (Socket_destroyed l) a = a"

lemma audience_same: "same_watchers s s' \<Longrightarrow> audience_of s' = audience_of s"
proof -
  assume same: "same_watchers s s'"
  have "ss_conns s' l \<noteq> None \<longleftrightarrow> ss_conns s l \<noteq> None" for l
    using same_watchers_conn [OF same, of l] same_watchers_conn' [OF same, of l] by fastforce
  with same show ?thesis by (simp add: audience_of_def same_watchers_listeners)
qed

lemma wf_listener:
  assumes "watchers_wf s" "l \<in> set (listeners_of i s)"
  obtains c where "ss_conns s l = Some c" "co_deployment c = i" "map_of (ss_watchers s) i = Some (co_set c)"
proof -
  from assms(2) obtain r where r: "map_of (ss_watchers s) i = Some r" "l \<in> set (ss_sets s r)"
    by (cases "map_of (ss_watchers s) i") (auto simp: listeners_of_def)
  with assms(1) obtain c where c: "ss_conns s l = Some c" "co_set c = r" "map_of (ss_watchers s) (co_deployment c) = Some r"
    by (auto elim: wf_member)
  with r assms(1) have "co_deployment c = i" by (auto dest: wf_same_set)
  with c that show thesis by blast
qed

lemma close_listeners:
  assumes "watchers_wf s"
  shows "listeners_of j (close_stream l s) = filter (\<lambda>x. x \<noteq> l) (listeners_of j s)"
proof (cases "ss_conns s l")
  case None
  then have "l \<notin> set (listeners_of j s)" using assms by (auto elim: wf_listener)
  with None show ?thesis by (simp add: close_stream_def) (metis (mono_tags, lifting) filter_True)
next
  case (Some c)
  then have "j \<noteq> co_deployment c \<Longrightarrow> l \<notin> set (listeners_of j s)" using assms by (auto elim: wf_listener)
  then have "j \<noteq> co_deployment c \<Longrightarrow> filter (\<lambda>x. x \<noteq> l) (listeners_of j s) = listeners_of j s"
    by (metis (mono_tags, lifting) filter_True)
  moreover have "listeners_of j (close_stream l s) = listeners_of j (unwatch (co_deployment c) (co_set c) l s)"
    using Some by (simp add: close_stream_def Let_def listeners_of_def split: option.split)
  ultimately show ?thesis using assms Some by (auto simp: unwatch_listeners)
qed

lemma close_used: "ss_conns (close_stream l s) l' = None \<longleftrightarrow> ss_conns s l' = None"
  by (auto simp: close_stream_def unwatch_def Let_def split: option.split)

lemma fold_close_listeners:
  "watchers_wf s \<Longrightarrow> listeners_of j (fold close_stream ls s) = filter (\<lambda>x. x \<notin> set ls) (listeners_of j s)"
  by (induction ls arbitrary: s)
    (auto simp: close_listeners watchers_wf_close intro!: filter_cong)

lemma fold_close_used: "ss_conns (fold close_stream ls s) l' = None \<longleftrightarrow> ss_conns s l' = None"
  by (induction ls arbitrary: s) (auto simp: close_used)

lemma closeAll_listeners:
  assumes "watchers_wf s" shows "listeners_of j (closeAll s) = []"
proof -
  have "l \<in> set (concat (map (\<lambda>(k, r). ss_sets s r) (ss_watchers s)))" if "l \<in> set (listeners_of j s)" for l
    using that by (cases "map_of (ss_watchers s) j") (force simp: listeners_of_def dest: map_of_SomeD)+
  then show ?thesis by (simp add: closeAll_def fold_close_listeners [OF assms] filter_empty_conv)
qed

lemma audience_step_of:
  assumes "watchers_wf s" shows "audience_of (stream_step op s) = audience_step op (audience_of s)"
proof (cases op)
  case (Stream_open l d store gone)
  show ?thesis
  proof (cases "ss_conns s l = None \<and> store \<noteq> None \<and> \<not> gone")
    case True
    then have "audience_of (stream_step op s) = audience_of (registered (d_id d) l s)"
      using Stream_open by (auto simp: open_cases intro: audience_same same_opened)
    also have "\<dots> = audience_step op (audience_of s)"
      using True Stream_open assms
      by (auto simp: audience_of_def registered_listeners watch_listeners registered_conns fun_eq_iff)
    finally show ?thesis .
  next
    case False
    then show ?thesis using Stream_open by (auto simp: open_cases audience_of_def)
  qed
next
  case (Socket_destroyed l)
  then show ?thesis using audience_same [OF same_destroyed [of s l]] by simp
next
  case (Stream_change c)
  then show ?thesis using audience_same [OF same_forward [of s c]] by simp
next
  case (Socket_closed l)
  then show ?thesis by (simp add: audience_of_def close_listeners [OF assms] close_used)
next
  case Streams_closed
  then show ?thesis
    using closeAll_listeners [OF assms] fold_close_used [of "concat (map (\<lambda>(k, r). ss_sets s r) (ss_watchers s))" s]
    by (simp add: audience_of_def fun_eq_iff closeAll_def del: not_None_eq)
qed


end
