(* ===== verification/Stream_Frames.thy ===== *)
theory Stream_Frames
  imports Live_Stream
begin

text \<open>
  What the connections of the stream (\<open>Live_Stream\<close>) are sent: the specification of one
  connection's frames, the tasks its client is left showing, and the schema of a frame
  (\<open>src/router/schema/components/deploymentStreamEvent.schema.ts\<close>).
\<close>

section \<open>What a connection is sent\<close>

text \<open>
  The specification of a live stream of the deployment \<open>i\<close>: the frames a change is worth, given the
  tasks of \<open>i\<close> that are known, and how it changes those.
\<close>

fun change_frames :: "string \<Rightarrow> (string \<Rightarrow> task_type option) \<Rightarrow> change \<Rightarrow> stream_event list" where
  "change_frames i known (Deployment_inserted doc) = (if d_id doc = i then [toDeploymentEvent doc] else [])"
| "change_frames i known (Deployment_updated updated None) = []"
| "change_frames i known (Deployment_updated updated (Some doc)) =
     (if d_id doc \<noteq> i then []
      else (if matchFields updated DEPLOYMENT_FIELDS then [toDeploymentEvent doc] else []) @
           (if matchFields updated ENDPOINT_FIELDS then toEndpointEvents (d_endpoints doc) else []))"
| "change_frames i known (Job_inserted doc) = (if j_deployment doc = i then [toJobEvent doc] else [])"
| "change_frames i known (Job_updated updated None) = []"
| "change_frames i known (Job_updated updated (Some doc)) =
     (if j_deployment doc = i \<and> matchFields updated JOB_FIELDS then [toJobEvent doc] else [])"
| "change_frames i known (Event_inserted doc) = (if e_deploymentId doc = i then [toLogEvent doc] else [])"
| "change_frames i known (Task_inserted doc) = (if t_deploymentId doc = i then [toTaskEvent doc] else [])"
| "change_frames i known (Task_updated updated None) = []"
| "change_frames i known (Task_updated updated (Some doc)) =
     (if t_deploymentId doc = i \<and> matchFields updated TASK_FIELDS then [toTaskEvent doc] else [])"
| "change_frames i known (Task_deleted oid) =
     (case known (toHexString oid) of None \<Rightarrow> [] | Some task \<Rightarrow> [toTaskDoneEvent (toHexString oid) task])"

definition learn :: "task_document \<Rightarrow> (string \<Rightarrow> task_type option) \<Rightarrow> string \<Rightarrow> task_type option" where
  "learn t known = known(toHexString (t_id t) := Some (t_task t))"

fun op_known :: "string \<Rightarrow> stream_op \<Rightarrow> (string \<Rightarrow> task_type option) \<Rightarrow> string \<Rightarrow> task_type option" where
  "op_known i (Stream_change (Task_inserted doc)) known = (if t_deploymentId doc = i then learn doc known else known)"
| "op_known i (Stream_change (Task_updated updated (Some doc))) known =
     (if t_deploymentId doc = i \<and> matchFields updated TASK_FIELDS then learn doc known else known)"
| "op_known i (Stream_change (Task_deleted oid)) known = known(toHexString oid := None)"
| "op_known i (Stream_open l d (Some st) False) known =
     (if d_id d = i then fold learn (stream_tasks i st) known else known)"
| "op_known i op known = known"

fun live_frames :: "string \<Rightarrow> (string \<Rightarrow> task_type option) \<Rightarrow> stream_op list \<Rightarrow> stream_event list" where
  "live_frames i known [] = []"
| "live_frames i known (op # ops) =
     (case op of Stream_change c \<Rightarrow> change_frames i known c | _ \<Rightarrow> []) @ live_frames i (op_known i op known) ops"

definition known_tasks :: "string \<Rightarrow> stream_state \<Rightarrow> string \<Rightarrow> task_type option" where
  "known_tasks i s = (\<lambda>x. case ss_tasks s x of None \<Rightarrow> None | Some (dep, task) \<Rightarrow> if dep = i then Some task else None)"

text \<open>A task belongs to one deployment for good: \<open>owner\<close> says which, by the task's id.\<close>

fun change_owned :: "(string \<Rightarrow> string) \<Rightarrow> change \<Rightarrow> bool" where
  "change_owned owner (Task_inserted doc) = (t_deploymentId doc = owner (toHexString (t_id doc)))"
| "change_owned owner (Task_updated updated (Some doc)) = (t_deploymentId doc = owner (toHexString (t_id doc)))"
| "change_owned owner c = True"

fun op_owned :: "(string \<Rightarrow> string) \<Rightarrow> stream_op \<Rightarrow> bool" where
  "op_owned owner (Stream_change c) = change_owned owner c"
| "op_owned owner (Stream_open l d store gone) =
     (case store of None \<Rightarrow> True
      | Some st \<Rightarrow> list_all (\<lambda>t. t_deploymentId t = owner (toHexString (t_id t))) (db_tasks st))"
| "op_owned owner op = True"

definition tasks_owned :: "(string \<Rightarrow> string) \<Rightarrow> stream_state \<Rightarrow> bool" where
  "tasks_owned owner s \<longleftrightarrow> (\<forall>x dep task. ss_tasks s x = Some (dep, task) \<longrightarrow> dep = owner x)"

text \<open>A connection that is open, the deployment it watches and what was written to it.\<close>

definition live :: "nat \<Rightarrow> string \<Rightarrow> stream_event list \<Rightarrow> stream_state \<Rightarrow> bool" where
  "live l i fs s \<longleftrightarrow> (\<exists>c. ss_conns s l = Some c \<and> \<not> is_closed c \<and> co_deployment c = i \<and> co_written c = fs)"

lemma live_listener:
  assumes "watchers_wf s" "live l i fs s" shows "l \<in> set (listeners_of j s) \<longleftrightarrow> j = i"
proof -
  obtain c where c: "ss_conns s l = Some c" "\<not> is_closed c" "co_deployment c = i"
    using assms(2) by (auto simp: live_def)
  then have "l \<in> set (ss_sets s (co_set c))" using assms(1) by (simp add: watchers_wf_def)
  with assms(1) c have "map_of (ss_watchers s) i = Some (co_set c)" by (auto elim: wf_member)
  with \<open>l \<in> set (ss_sets s (co_set c))\<close> have "l \<in> set (listeners_of i s)" by (simp add: listeners_of_def)
  with assms(1) c show ?thesis by (auto elim: wf_listener)
qed

lemma live_has: "watchers_wf s \<Longrightarrow> live l i fs s \<Longrightarrow> has_watchers i s"
  using live_listener [of s l i fs i] by (cases "map_of (ss_watchers s) i") (auto simp: has_watchers_def listeners_of_def)

lemma fold_send_conns:
  "distinct ls \<Longrightarrow> ss_conns (fold (\<lambda>l. send l e) ls s) l' =
     (if l' \<in> set ls then map_option (written e) (ss_conns s l') else ss_conns s l')"
  by (induction ls arbitrary: s) (auto simp: send_def)

lemma notify_tasks [simp]: "ss_tasks (notify j e s) = ss_tasks s"
proof -
  have "ss_tasks (fold (\<lambda>l. send l e) ls s) = ss_tasks s" for ls
    by (induction ls arbitrary: s) (auto simp: send_def)
  then show ?thesis by (simp add: notify_def)
qed

lemma live_notify:
  assumes "watchers_wf s" "live l i fs s"
  shows "live l i (fs @ (if j = i then [e] else [])) (notify j e s)"
proof -
  have "ss_conns (notify j e s) l = (if j = i then map_option (written e) (ss_conns s l) else ss_conns s l)"
    using assms by (simp add: notify_def fold_send_conns listeners_of_distinct live_listener)
  with assms(2) show ?thesis by (auto simp: live_def written_def is_closed_def)
qed

lemma live_notify_all:
  "watchers_wf s \<Longrightarrow> live l i fs s \<Longrightarrow> live l i (fs @ (if j = i then es else [])) (fold (notify j) es s)"
proof (induction es arbitrary: fs s)
  case (Cons e es)
  then have "live l i ((fs @ (if j = i then [e] else [])) @ (if j = i then es else [])) (fold (notify j) es (notify j e s))"
    by (intro Cons.IH live_notify watchers_wf_same [OF _ same_notify])
  then show ?case by (simp split: if_splits)
qed simp

lemma fold_notify_tasks [simp]: "ss_tasks (fold (notify j) es s) = ss_tasks s"
  by (induction es arbitrary: s) auto

text \<open>A callback's effect on a live connection, its deployment's known tasks and the owners.\<close>

definition serves :: "nat \<Rightarrow> string \<Rightarrow> stream_event list \<Rightarrow> (string \<Rightarrow> task_type option) \<Rightarrow> (string \<Rightarrow> string) \<Rightarrow> stream_state \<Rightarrow> bool" where
  "serves l i fs known owner s \<longleftrightarrow> watchers_wf s \<and> live l i fs s \<and> known_tasks i s = known \<and> tasks_owned owner s"

lemma servesD:
  assumes "serves l i fs known owner s"
  shows "watchers_wf s" "live l i fs s" "known_tasks i s = known" "tasks_owned owner s"
  using assms by (simp_all add: serves_def)

lemma serves_tasks: "ss_tasks s' = ss_tasks s \<Longrightarrow> known_tasks i s' = known_tasks i s \<and> tasks_owned owner s' = tasks_owned owner s"
  by (simp add: known_tasks_def tasks_owned_def)

lemma serves_notify_all:
  assumes "serves l i fs known owner s"
  shows "serves l i (fs @ (if j = i then es else [])) known owner (fold (notify j) es s)"
  unfolding serves_def
proof (intro conjI)
  show "watchers_wf (fold (notify j) es s)"
    using assms by (auto simp: serves_def intro: watchers_wf_same [OF _ same_watchers_fold] same_notify)
  show "live l i (fs @ (if j = i then es else [])) (fold (notify j) es s)"
    using assms by (intro live_notify_all) (simp_all add: serves_def)
qed (use assms serves_tasks [of "fold (notify j) es s" s] in \<open>simp_all add: serves_def\<close>)

lemma serves_notify:
  assumes "serves l i fs known owner s"
  shows "serves l i (fs @ (if j = i then [e] else [])) known owner (notify j e s)"
  using serves_notify_all [OF assms, of j "[e]"] by simp

lemma serves_unwatched: "serves l i fs known owner s \<Longrightarrow> \<not> has_watchers j s \<Longrightarrow> j \<noteq> i"
  by (auto simp: serves_def dest: live_has)

lemma serves_guarded:
  assumes "serves l i fs known owner s"
  shows "serves l i (fs @ (if j = i then es else [])) known owner (if has_watchers j s then fold (notify j) es s else s)"
  using serves_notify_all [OF assms, of j es] serves_unwatched [OF assms, of j] assms by auto

lemma serves_track:
  assumes "serves l i fs known owner s" and "dep = owner x"
  shows "serves l i fs (if dep = i then known(x := Some task) else known) owner (trackTask x dep task s)"
proof -
  have "ss_tasks s x = Some (dep', task') \<Longrightarrow> dep' = dep" for dep' task'
    using assms by (auto simp: serves_def tasks_owned_def)
  then have "known_tasks i (trackTask x dep task s) = (if dep = i then (known_tasks i s)(x := Some task) else known_tasks i s)"
    by (cases "ss_tasks s x") (auto simp: trackTask_def known_tasks_def fun_eq_iff)
  then show ?thesis
    using assms watchers_wf_same [OF _ same_track, of s x dep task]
    by (auto simp: serves_def live_def trackTask_def tasks_owned_def)
qed

lemma serves_untrack:
  assumes "serves l i fs known owner s"
  shows "serves l i fs (known(x := None)) owner (snd (untrackTask x s))"
  using assms watchers_wf_same [OF _ same_untrack, of s x]
  by (auto simp: serves_def live_def untrackTask_def known_tasks_def tasks_owned_def fun_eq_iff split: option.split)

lemma serves_task_change:
  assumes "serves l i fs known owner s" and "t_deploymentId t = owner (toHexString (t_id t))"
  shows "serves l i (fs @ (if t_deploymentId t = i then [toTaskEvent t] else []))
           (if t_deploymentId t = i then learn t known else known) owner (onTaskChange t s)"
proof (cases "has_watchers (t_deploymentId t) s")
  case True
  then show ?thesis
    using serves_notify [OF serves_track [OF assms], of "t_deploymentId t" "toTaskEvent t" "t_task t"]
    by (cases "t_deploymentId t = i") (simp_all add: onTaskChange_def learn_def)
next
  case False
  with assms(1) have "t_deploymentId t \<noteq> i" by (rule serves_unwatched)
  with False assms(1) show ?thesis by (simp add: onTaskChange_def)
qed

lemma serves_task_delete:
  assumes "serves l i fs known owner s"
  shows "serves l i (fs @ change_frames i known (Task_deleted oid)) (known(toHexString oid := None)) owner (onTaskDelete oid s)"
proof (cases "ss_tasks s (toHexString oid)")
  case None
  then have "known (toHexString oid) = None" using assms by (auto simp: serves_def known_tasks_def)
  with None show ?thesis
    using serves_untrack [OF assms, of "toHexString oid"] by (simp add: onTaskDelete_def untrackTask_def)
next
  case (Some p)
  obtain dep task where p: "p = (dep, task)" by (cases p)
  let ?s = "snd (untrackTask (toHexString oid) s)"
  have known: "known (toHexString oid) = (if dep = i then Some task else None)"
    using assms Some p by (auto simp: serves_def known_tasks_def)
  have s: "serves l i fs (known(toHexString oid := None)) owner ?s" by (rule serves_untrack [OF assms])
  show ?thesis
  proof (cases "has_watchers dep ?s")
    case True
    then show ?thesis
      using serves_notify [OF s, of dep "toTaskDoneEvent (toHexString oid) task"] Some p known
      by (cases "dep = i") (simp_all add: onTaskDelete_def untrackTask_def Let_def)
  next
    case False
    with s have "dep \<noteq> i" by (rule serves_unwatched)
    with False show ?thesis using s Some p known by (simp add: onTaskDelete_def untrackTask_def)
  qed
qed

lemma serves_deployment_change:
  assumes "serves l i fs known owner s"
  shows "serves l i (fs @ (if d_id d = i then [toDeploymentEvent d] else [])) known owner (onDeploymentChange d s)"
    and "serves l i (fs @ (if d_id d = i then toEndpointEvents (d_endpoints d) else [])) known owner (onEndpointsChange d s)"
    and "serves l i (fs @ (if j_deployment j = i then [toJobEvent j] else [])) known owner (onJobChange j s)"
    and "serves l i (fs @ (if e_deploymentId e = i then [toLogEvent e] else [])) known owner (onLogEvent e s)"
  using serves_guarded [OF assms, of "d_id d" "[toDeploymentEvent d]"]
    serves_guarded [OF assms, of "d_id d" "toEndpointEvents (d_endpoints d)"]
    serves_guarded [OF assms, of "j_deployment j" "[toJobEvent j]"]
    serves_guarded [OF assms, of "e_deploymentId e" "[toLogEvent e]"]
  by (simp_all add: onDeploymentChange_def onEndpointsChange_def onJobChange_def onLogEvent_def split: if_splits)

lemma serves_change:
  assumes s: "serves l i fs known owner s" and c: "change_owned owner c"
  shows "serves l i (fs @ change_frames i known c) (op_known i (Stream_change c) known) owner (forward c s)"
proof (cases c)
  case (Deployment_inserted d)
  then show ?thesis using serves_deployment_change(1) [OF s, of d] by simp
next
  case (Deployment_updated updated doc)
  show ?thesis
  proof (cases doc)
    case (Some d)
    have "serves l i (fs @ (if matchFields updated DEPLOYMENT_FIELDS \<and> d_id d = i then [toDeploymentEvent d] else []))
            known owner ((if matchFields updated DEPLOYMENT_FIELDS then onDeploymentChange d else id) s)"
      using serves_deployment_change(1) [OF s, of d] s by simp
    from serves_deployment_change(2) [OF this, of d] this Some Deployment_updated show ?thesis
      by (simp add: forward_update_def split: if_splits)
  qed (use s Deployment_updated in \<open>simp add: forward_update_def\<close>)
next
  case (Job_inserted j)
  then show ?thesis using serves_deployment_change(3) [OF s, of j] by simp
next
  case (Job_updated updated doc)
  then show ?thesis using serves_deployment_change(3) [OF s] s
    by (cases doc) (simp_all add: forward_update_def)
next
  case (Event_inserted e)
  then show ?thesis using serves_deployment_change(4) [OF s, of e] by simp
next
  case (Task_inserted t)
  then show ?thesis using serves_task_change [OF s, of t] c by simp
next
  case (Task_updated updated doc)
  then show ?thesis using serves_task_change [OF s] s c
    by (cases doc) (simp_all add: forward_update_def)
next
  case (Task_deleted oid)
  then show ?thesis using serves_task_delete [OF s, of oid] by simp
qed

section \<open>The run of a stream\<close>

lemma serves_track_all:
  assumes "serves l i fs known owner s" and "\<And>t. t \<in> set ts \<Longrightarrow> dep = owner (toHexString (t_id t))"
  shows "serves l i fs (if dep = i then fold learn ts known else known) owner
           (fold (\<lambda>t. trackTask (toHexString (t_id t)) dep (t_task t)) ts s)"
  using assms
proof (induction ts arbitrary: s known)
  case (Cons t ts)
  have "serves l i fs (if dep = i then learn t known else known) owner (trackTask (toHexString (t_id t)) dep (t_task t) s)"
    using serves_track [OF Cons.prems(1), of dep "toHexString (t_id t)" "t_task t"] Cons.prems(2) [of t]
    by (cases "dep = i") (simp_all add: learn_def)
  from Cons.IH [OF this] Cons.prems(2) show ?case by (cases "dep = i") simp_all
qed simp

lemma serves_send_other:
  "serves l i fs known owner s \<Longrightarrow> l' \<noteq> l \<Longrightarrow> serves l i fs known owner (fold (send l') es s)"
proof (induction es arbitrary: s)
  case (Cons e es)
  then have "serves l i fs known owner (send l' e s)"
    using watchers_wf_same [OF _ same_send, of s l' e] serves_tasks [of "send l' e s" s]
    by (auto simp: serves_def live_def send_def)
  with Cons show ?case by simp
qed simp

lemma serves_send_self:
  "serves l i fs known owner s \<Longrightarrow> serves l i (fs @ es) known owner (fold (send l) es s)"
proof (induction es arbitrary: fs s)
  case (Cons e es)
  then have "serves l i (fs @ [e]) known owner (send l e s)"
    using watchers_wf_same [OF _ same_send, of s l e] serves_tasks [of "send l e s" s]
    by (auto simp: serves_def live_def send_def written_def is_closed_def)
  from Cons.IH [OF this] show ?case by simp
qed simp

lemma stream_tasks_owned:
  "list_all (\<lambda>t. t_deploymentId t = owner (toHexString (t_id t))) (db_tasks st) \<Longrightarrow>
     t \<in> set (stream_tasks i st) \<Longrightarrow> i = owner (toHexString (t_id t))"
  by (auto simp: stream_tasks_def list_all_iff)

lemma registered_tasks [simp]: "ss_tasks (registered i l s) = ss_tasks s"
  by (simp add: registered_def watch_def split: option.split)

lemma serves_opened:
  assumes wf: "watchers_wf s" and owned: "tasks_owned owner s" and fresh: "ss_conns s l = None"
    and op: "op_owned owner (Stream_open l d (Some st) False)"
  shows "serves l (d_id d) (snapshot_frames d st) (fold learn (stream_tasks (d_id d) st) (known_tasks (d_id d) s)) owner
           (stream_step (Stream_open l d (Some st) False) s)"
proof -
  have "serves l (d_id d) [] (known_tasks (d_id d) s) owner (registered (d_id d) l s)"
    using watchers_wf_registered [OF wf fresh] owned serves_tasks [of "registered (d_id d) l s" s]
    by (auto simp: serves_def live_def registered_conns is_closed_def)
  from serves_send_self [OF serves_track_all [OF this, of "stream_tasks (d_id d) st" "d_id d"], of "snapshot_frames d st"]
  show ?thesis
    using fresh op stream_tasks_owned [of owner st _ "d_id d"] by (simp add: open_cases)
qed

lemma serves_open_other:
  assumes s: "serves l i fs known owner s" and op: "op_owned owner (Stream_open l' d store gone)"
    and fresh: "ss_conns s l' = None"
  shows "serves l i fs (op_known i (Stream_open l' d store gone) known) owner (stream_step (Stream_open l' d store gone) s)"
proof (cases "store \<noteq> None \<and> \<not> gone")
  case True
  then obtain st where st: "store = Some st" by blast
  have "l' \<noteq> l" using fresh s by (auto simp: serves_def live_def)
  then have "serves l i fs known owner (registered (d_id d) l' s)"
    using s fresh watchers_wf_registered [of s l' "d_id d"] serves_tasks [of "registered (d_id d) l' s" s]
    by (auto simp: serves_def live_def registered_conns)
  from serves_send_other [OF serves_track_all [OF this, of "stream_tasks (d_id d) st" "d_id d"] \<open>l' \<noteq> l\<close>]
  show ?thesis using True fresh st op stream_tasks_owned [of owner st _ "d_id d"]
    by (cases "d_id d = i") (simp_all add: open_cases)
next
  case False
  then show ?thesis using s fresh by (cases store; cases gone) (auto simp: open_cases)
qed

lemma close_conns:
  "ss_conns (close_stream l' s) l =
     (if l = l' then map_option (\<lambda>c. if is_closed c then c else c\<lparr>co_ended := True\<rparr>) (ss_conns s l) else ss_conns s l)"
  by (auto simp: close_stream_def unwatch_def Let_def split: option.split)

lemma close_tasks [simp]: "ss_tasks (close_stream l' s) = ss_tasks s"
  by (simp add: close_stream_def unwatch_def Let_def split: option.split)

text \<open>A step keeps serving the connection, unless it closes it.\<close>

lemma serves_step:
  assumes s: "serves l i fs known owner s" and op: "op_owned owner op"
    and fresh: "\<And>l' d store gone. op = Stream_open l' d store gone \<Longrightarrow> ss_conns s l' = None"
    and still: "\<exists>c. ss_conns (stream_step op s) l = Some c \<and> \<not> is_closed c"
  shows "serves l i (fs @ live_frames i known [op]) (op_known i op known) owner (stream_step op s)"
proof (cases op)
  case (Stream_open l' d store gone)
  then show ?thesis using serves_open_other [OF s, of l' d store gone] op fresh by simp
next
  case (Stream_change c)
  then show ?thesis using serves_change [OF s, of c] op by simp
next
  case (Socket_destroyed l')
  then have "l' \<noteq> l" using s still by (auto simp: serves_def live_def is_closed_def)
  then show ?thesis
    using s Socket_destroyed watchers_wf_step [of s op] serves_tasks [of "stream_step op s" s]
    by (auto simp: serves_def live_def)
next
  case (Socket_closed l')
  then have "l' \<noteq> l" using s still by (auto simp: serves_def live_def close_conns is_closed_def split: if_splits)
  then show ?thesis
    using s Socket_closed watchers_wf_step [of s op] serves_tasks [of "stream_step op s" s]
    by (auto simp: serves_def live_def close_conns)
next
  case Streams_closed
  have "watchers_wf (stream_step op s)" using s by (intro watchers_wf_step) (simp add: serves_def)
  moreover obtain c where "ss_conns (stream_step op s) l = Some c" "\<not> is_closed c" using still by blast
  ultimately have "l \<in> set (listeners_of (co_deployment c) (stream_step op s))"
    by (subst live_listener) (auto simp: live_def)
  then show ?thesis using s Streams_closed closeAll_listeners [of s] by (simp add: serves_def)
qed

fun opened :: "stream_op list \<Rightarrow> nat list" where
  "opened (Stream_open l d store gone # ops) = l # opened ops"
| "opened (op # ops) = opened ops"
| "opened [] = []"

lemma opened_append: "opened (xs @ ys) = opened xs @ opened ys"
  by (induction xs rule: opened.induct) auto

lemma keeps_identity_trans:
  "rel_option keeps_identity x y \<Longrightarrow> rel_option keeps_identity y z \<Longrightarrow> rel_option keeps_identity x z"
  by (cases x; cases y; cases z) (auto simp: keeps_identity_def)

lemma close_identity: "rel_option keeps_identity (ss_conns s l) (ss_conns (close_stream l' s) l)"
  by (cases "ss_conns s l") (auto simp: close_conns keeps_identity_def is_closed_def)

lemma fold_close_identity: "rel_option keeps_identity (ss_conns s l) (ss_conns (fold close_stream ls s) l)"
  by (induction ls arbitrary: s) (auto intro: keeps_identity_trans close_identity)

lemma step_identity:
  assumes "l \<notin> set (opened [op]) \<or> ss_conns s l \<noteq> None"
  shows "rel_option keeps_identity (ss_conns s l) (ss_conns (stream_step op s) l)"
proof (cases op)
  case (Stream_open l' d store gone)
  show ?thesis
  proof (cases "ss_conns s l' = None \<and> store \<noteq> None \<and> \<not> gone")
    case True
    then have "l \<noteq> l'" using assms Stream_open by auto
    then have "ss_conns (registered (d_id d) l' s) l = ss_conns s l" by (simp add: registered_conns)
    moreover have "same_watchers (registered (d_id d) l' s) (stream_step op s)"
      using True Stream_open by (auto simp: open_cases same_opened)
    ultimately show ?thesis by (metis same_watchers_def)
  next
    case False
    then show ?thesis using Stream_open by (cases store; cases gone) (auto simp: open_cases)
  qed
next
  case (Stream_change c)
  then show ?thesis using same_forward [of s c] by (simp add: same_watchers_def)
next
  case (Socket_destroyed l')
  then show ?thesis using same_destroyed [of s l'] by (simp add: same_watchers_def)
next
  case (Socket_closed l')
  then show ?thesis by (simp add: close_identity)
next
  case Streams_closed
  then show ?thesis by (simp add: closeAll_def fold_close_identity)
qed

lemma step_new: "ss_conns s l = None \<Longrightarrow> l \<notin> set (opened [op]) \<Longrightarrow> ss_conns (stream_step op s) l = None"
  using step_identity [of l op s] by simp

lemma step_some:
  assumes "ss_conns s l = Some c"
  obtains c' where "ss_conns (stream_step op s) l = Some c'" "is_closed c \<longrightarrow> is_closed c'"
  using step_identity [of l op s] assms by (cases "ss_conns (stream_step op s) l") (auto simp: keeps_identity_def)

lemma run_closed:
  "ss_conns s l = Some c \<Longrightarrow> is_closed c \<Longrightarrow> \<exists>c'. ss_conns (fold stream_step ops s) l = Some c' \<and> is_closed c'"
proof (induction ops arbitrary: s c)
  case (Cons op ops)
  from Cons.prems obtain c' where "ss_conns (stream_step op s) l = Some c'" "is_closed c'"
    by (auto elim: step_some [of s l c op])
  from Cons.IH [OF this] show ?case by simp
qed auto

lemma serves_run:
  assumes "serves l i fs known owner s" "list_all (op_owned owner) ops" "distinct (opened ops)"
    "\<And>l'. l' \<in> set (opened ops) \<Longrightarrow> ss_conns s l' = None"
    "\<exists>c. ss_conns (fold stream_step ops s) l = Some c \<and> \<not> is_closed c"
  shows "\<exists>known'. serves l i (fs @ live_frames i known ops) known' owner (fold stream_step ops s)"
  using assms
proof (induction ops arbitrary: fs known s)
  case (Cons op ops)
  obtain c where c: "ss_conns s l = Some c" using Cons.prems(1) by (auto simp: serves_def live_def)
  have opens: "opened (op # ops) = opened [op] @ opened ops" by (metis append_Cons append_Nil opened_append)
  from c obtain c' where "ss_conns (stream_step op s) l = Some c'" by (auto elim: step_some [of s l c op])
  then have still: "\<exists>c. ss_conns (stream_step op s) l = Some c \<and> \<not> is_closed c"
    using Cons.prems(5) run_closed [of "stream_step op s" l _ ops] by fastforce
  have fresh: "ss_conns s l' = None" if "op = Stream_open l' d store gone" for l' d store gone
    using Cons.prems(4) [of l'] that by simp
  have "serves l i (fs @ live_frames i known [op]) (op_known i op known) owner (stream_step op s)"
    by (rule serves_step [OF Cons.prems(1) _ fresh still]) (use Cons.prems(2) in simp)
  moreover have "ss_conns (stream_step op s) l' = None" if "l' \<in> set (opened ops)" for l'
    using that Cons.prems(3,4) opens by (intro step_new) auto
  ultimately have "\<exists>known'. serves l i ((fs @ live_frames i known [op]) @ live_frames i (op_known i op known) ops) known' owner
      (fold stream_step ops (stream_step op s))"
    using Cons.prems opens by (intro Cons.IH) auto
  then show ?case by simp
qed auto

lemma tasks_owned_track:
  "tasks_owned owner s \<Longrightarrow> dep = owner x \<Longrightarrow> tasks_owned owner (trackTask x dep task s)"
  by (simp add: tasks_owned_def trackTask_def)

lemma tasks_owned_frame: "ss_tasks s' = ss_tasks s \<Longrightarrow> tasks_owned owner s' = tasks_owned owner s"
  by (simp add: tasks_owned_def)

lemma tasks_owned_forward:
  assumes s: "tasks_owned owner s" and c: "change_owned owner c" shows "tasks_owned owner (forward c s)"
proof -
  have frame: "ss_tasks (onDeploymentChange d s) = ss_tasks s" "ss_tasks (onEndpointsChange d s) = ss_tasks s"
    "ss_tasks (onJobChange j s) = ss_tasks s" "ss_tasks (onLogEvent e s) = ss_tasks s" for d j e s
    by (simp_all add: onDeploymentChange_def onEndpointsChange_def onJobChange_def onLogEvent_def)
  have same: "tasks_owned owner (onDeploymentChange d s)" "tasks_owned owner (onJobChange j s)"
    "tasks_owned owner (onLogEvent e s)" for d j e
    using s frame by (simp_all add: tasks_owned_def)
  have task: "tasks_owned owner (onTaskChange t s)" if "t_deploymentId t = owner (toHexString (t_id t))" for t
    using tasks_owned_track [OF s that] s by (simp add: onTaskChange_def tasks_owned_frame [OF notify_tasks])
  have delete: "tasks_owned owner (onTaskDelete oid s)" for oid
    using s by (auto simp: onTaskDelete_def untrackTask_def Let_def tasks_owned_def split: option.split)
  show ?thesis
  proof (cases c)
    case (Deployment_updated updated doc)
    then show ?thesis using s by (cases doc) (simp_all add: forward_update_def tasks_owned_def frame)
  next
    case (Job_updated updated doc)
    then show ?thesis using s by (cases doc) (simp_all add: forward_update_def tasks_owned_def frame)
  next
    case (Task_updated updated doc)
    then show ?thesis using s c task by (cases doc) (simp_all add: forward_update_def)
  qed (use c task delete same in simp_all)
qed

lemma tasks_owned_step:
  assumes s: "tasks_owned owner s" and op: "op_owned owner op" shows "tasks_owned owner (stream_step op s)"
proof (cases op)
  case (Stream_open l d store gone)
  have sends: "ss_tasks (fold (send l) es t) = ss_tasks t" for es t
    by (induction es arbitrary: t) (auto simp: send_def)
  have tracks: "tasks_owned owner t \<Longrightarrow> (\<And>x. x \<in> set ts \<Longrightarrow> dep = owner (toHexString (t_id x))) \<Longrightarrow>
      tasks_owned owner (fold (\<lambda>x. trackTask (toHexString (t_id x)) dep (t_task x)) ts t)"
      for ts :: "task_document list" and t dep
    by (induction ts arbitrary: t) (auto intro: tasks_owned_track)
  have start: "tasks_owned owner (registered (d_id d) l s)" using s by (simp add: tasks_owned_def)
  show ?thesis
  proof (cases "ss_conns s l = None \<and> store \<noteq> None \<and> \<not> gone")
    case True
    then obtain st where st: "store = Some st" by blast
    have "tasks_owned owner (fold (\<lambda>x. trackTask (toHexString (t_id x)) (d_id d) (t_task x))
        (stream_tasks (d_id d) st) (registered (d_id d) l s))"
      using op Stream_open st by (intro tracks start) (auto intro: stream_tasks_owned)
    then show ?thesis using True Stream_open st by (simp add: open_cases tasks_owned_frame [OF sends])
  next
    case False
    then show ?thesis using s Stream_open by (cases store; cases gone) (auto simp: open_cases)
  qed
next
  case (Stream_change c)
  then show ?thesis using s op by (simp add: tasks_owned_forward)
next
  case Streams_closed
  have "ss_tasks (fold close_stream ls t) = ss_tasks t" for ls t
    by (induction ls arbitrary: t) auto
  with Streams_closed s show ?thesis by (simp add: closeAll_def tasks_owned_def)
qed (use s in \<open>simp_all add: tasks_owned_def\<close>)

lemma tasks_owned_run:
  "tasks_owned owner s \<Longrightarrow> list_all (op_owned owner) ops \<Longrightarrow> tasks_owned owner (fold stream_step ops s)"
  by (induction ops arbitrary: s) (auto intro: tasks_owned_step)

lemma run_new:
  "ss_conns s l = None \<Longrightarrow> l \<notin> set (opened ops) \<Longrightarrow> ss_conns (fold stream_step ops s) l = None"
proof (induction ops arbitrary: s)
  case (Cons op ops)
  moreover have "opened (op # ops) = opened [op] @ opened ops" by (metis append_Cons append_Nil opened_append)
  ultimately show ?case by (simp add: step_new)
qed simp

text \<open>
  C13: an open stream is its snapshot and then, in order, exactly the frames its own deployment's
  changes are worth: nothing of another deployment, nothing twice, and a deleted task is announced
  as done when it is one of the deployment's known tasks (those of the snapshot and those reported
  since). This holds whatever else is opened, closed, destroyed or changed meanwhile.
\<close>

theorem stream_is_snapshot_then_changes:
  fixes l :: nat and d :: deployment_document and st :: db
  defines "here \<equiv> Stream_open l d (Some st) False"
  assumes owned: "list_all (op_owned owner) (before @ here # after)"
    and responses: "distinct (opened (before @ here # after))"
    and still: "ss_conns (stream_run (before @ here # after)) l = Some c" "\<not> is_closed c"
  shows "co_deployment c = d_id d \<and>
         co_written c = snapshot_frames d st @
           live_frames (d_id d) (fold learn (stream_tasks (d_id d) st) (known_tasks (d_id d) (stream_run before))) after"
proof -
  let ?s = "stream_run before"
  have opens: "opened (before @ here # after) = opened before @ l # opened after"
    by (simp add: opened_append here_def)
  have fresh: "ss_conns ?s l' = None" if "l' \<notin> set (opened before)" for l'
    unfolding stream_run_def using that by (intro run_new) (simp_all add: createDeploymentWatchers_def)
  have "tasks_owned owner ?s"
    unfolding stream_run_def using owned
    by (intro tasks_owned_run) (simp_all add: tasks_owned_def createDeploymentWatchers_def)
  then have s0: "serves l (d_id d) (snapshot_frames d st)
      (fold learn (stream_tasks (d_id d) st) (known_tasks (d_id d) ?s)) owner (stream_step here ?s)"
    unfolding here_def using owned responses opens
    by (intro serves_opened watchers_wf_run fresh) (auto simp: here_def)
  have new: "ss_conns (stream_step here ?s) l' = None" if "l' \<in> set (opened after)" for l'
    using that responses opens by (intro step_new fresh) (auto simp: here_def)
  have whole: "fold stream_step after (stream_step here ?s) = stream_run (before @ here # after)"
    by (simp add: stream_run_def)
  have "\<exists>c. ss_conns (fold stream_step after (stream_step here ?s)) l = Some c \<and> \<not> is_closed c"
    using still whole by simp
  from serves_run [OF s0 _ _ new this] owned responses opens whole
  obtain known' where "serves l (d_id d) (snapshot_frames d st @
      live_frames (d_id d) (fold learn (stream_tasks (d_id d) st) (known_tasks (d_id d) ?s)) after) known' owner
      (stream_run (before @ here # after))"
    by auto
  with still show ?thesis by (simp add: serves_def live_def)
qed

definition stream_example :: "deployment_document \<times> db" where
  "stream_example = (blank_deployment ''D'' ''O'' RUNNING, empty_db\<lparr>db_tasks := [blank_task 7 STOP ''D'']\<rparr>)"

lemma stream_example_facts:
  "d_id (fst stream_example) = ''D''" "d_endpoints (fst stream_example) = []"
  "stream_jobs ''D'' (snd stream_example) = []" "stream_tasks ''D'' (snd stream_example) = [blank_task 7 STOP ''D'']"
  "db_tasks (snd stream_example) = [blank_task 7 STOP ''D'']"
  by (simp_all add: stream_example_def stream_jobs_def stream_tasks_def blank_deployment_def empty_db_def)

definition example_open :: stream_op where
  "example_open = Stream_open 0 (fst stream_example) (Some (snd stream_example)) False"

definition example_frames :: "stream_event list" where
  "example_frames = [toDeploymentEvent (fst stream_example), Ev_jobs [], toTaskEvent (blank_task 7 STOP ''D'')]"

lemma example_snapshot: "snapshot_frames (fst stream_example) (snd stream_example) = example_frames"
  by (simp add: snapshot_frames_def stream_example_facts toEndpointEvents_def example_frames_def toJobsSnapshotEvent_def)

lemma example_opened:
  "stream_step example_open createDeploymentWatchers =
     \<lparr>ss_watchers = [(''D'', 0)], ss_sets = (\<lambda>r. [])(0 := [0]), ss_next = 1,
      ss_tasks = [toHexString 7 \<mapsto> (''D'', STOP)],
      ss_conns = [0 \<mapsto> \<lparr>co_deployment = ''D'', co_set = 0, co_written = example_frames, co_ended = False, co_destroyed = False\<rparr>]\<rparr>"
  by (simp add: example_open_def open_cases createDeploymentWatchers_def stream_example_facts registered_def watch_def
      example_snapshot trackTask_def) (simp add: example_frames_def send_def written_def is_closed_def)

theorem stream_is_snapshot_then_changes_witness:
  "co_written (the (ss_conns (stream_run [example_open, Stream_change (Task_deleted 7)]) 0)) =
     example_frames @ [Ev_task_done (toHexString 7) STOP]"
proof -
  let ?c = "\<lparr>co_deployment = ''D'', co_set = 0, co_written = example_frames @ [Ev_task_done (toHexString 7) STOP],
     co_ended = False, co_destroyed = False\<rparr>"
  have run: "ss_conns (stream_run [example_open, Stream_change (Task_deleted 7)]) 0 = Some ?c"
    by (simp add: stream_run_def example_opened onTaskDelete_def Let_def untrackTask_def has_watchers_def notify_def
        listeners_of_def send_def written_def is_closed_def toTaskDoneEvent_def)
  with stream_is_snapshot_then_changes [where owner = "\<lambda>x. ''D''" and before = "[]" and l = 0 and c = ?c
      and d = "fst stream_example" and st = "snd stream_example" and after = "[Stream_change (Task_deleted 7)]"]
  show ?thesis
    by (simp add: example_open_def stream_example_facts is_closed_def stream_run_def known_tasks_def
        createDeploymentWatchers_def learn_def toTaskDoneEvent_def example_snapshot)
qed

section \<open>Finished tasks\<close>

text \<open>Whether the frames leave the task \<open>x\<close> showing: told of it, and not since told it is done.\<close>

fun tells :: "string \<Rightarrow> stream_event \<Rightarrow> bool \<Rightarrow> bool" where
  "tells x (Ev_task y task status attempts due job) told = (told \<or> y = x)"
| "tells x (Ev_task_done y task) told = (told \<and> y \<noteq> x)"
| "tells x e told = told"

definition shows_task :: "string \<Rightarrow> stream_event list \<Rightarrow> bool" where
  "shows_task x es = fold (tells x) es False"

definition informed :: "stream_state \<Rightarrow> bool" where
  "informed s \<longleftrightarrow> (\<forall>l c x. ss_conns s l = Some c \<longrightarrow> \<not> is_closed c \<longrightarrow> shows_task x (co_written c) \<longrightarrow>
     known_tasks (co_deployment c) s x \<noteq> None)"

lemma shows_append: "shows_task x (es @ [e]) = tells x e (shows_task x es)"
  by (simp add: shows_task_def)

lemma shows_others:
  "(\<And>e. e \<in> set fs \<Longrightarrow> tells x e = id) \<Longrightarrow> shows_task x (es @ fs) = shows_task x es"
proof -
  have "(\<And>e. e \<in> set fs \<Longrightarrow> tells x e = id) \<Longrightarrow> fold (tells x) fs b = b" for b
    by (induction fs arbitrary: b) auto
  moreover assume "\<And>e. e \<in> set fs \<Longrightarrow> tells x e = id"
  ultimately show ?thesis by (simp add: shows_task_def)
qed

lemma tells_other [simp]:
  "tells x (toDeploymentEvent d) = id" "tells x (toJobEvent j) = id" "tells x (toJobsSnapshotEvent js) = id"
  "tells x (toLogEvent e) = id" "tells x (Ev_endpoint p) = id"
  by (simp_all add: toDeploymentEvent_def toJobEvent_def toJobsSnapshotEvent_def toLogEvent_def fun_eq_iff)

lemma tells_task [simp]:
  "tells x (toTaskEvent t) b \<longleftrightarrow> b \<or> toHexString (t_id t) = x"
  "tells x (toTaskDoneEvent y task) b \<longleftrightarrow> b \<and> y \<noteq> x"
  by (simp_all add: toTaskEvent_def toTaskDoneEvent_def)

lemma shows_known:
  assumes "\<And>x. shows_task x fs \<Longrightarrow> known x \<noteq> None" "shows_task x (fs @ live_frames i known [op])"
  shows "op_known i op known x \<noteq> None"
proof -
  have others: "shows_task x fs \<Longrightarrow> known x \<noteq> None" by (rule assms(1))
  have learnt: "fold learn ts k x \<noteq> None" if "k x \<noteq> None" for ts k
    using that by (induction ts arbitrary: k) (auto simp: learn_def)
  show ?thesis
  proof (cases op)
    case (Stream_open l d store gone)
    then show ?thesis using assms(2) others learnt by (cases store; cases gone) auto
  next
    case (Stream_change c)
    show ?thesis
    proof (cases c)
      case (Deployment_updated updated doc)
      then have "shows_task x (fs @ live_frames i known [op]) = shows_task x fs"
        using Stream_change by (intro shows_others) (cases doc; auto simp: toEndpointEvents_def split: if_splits)
      with assms(2) others Stream_change Deployment_updated show ?thesis by (cases doc) auto
    next
      case (Job_updated updated doc)
      with Stream_change assms(2) others show ?thesis by (cases doc) (auto simp: shows_append split: if_splits)
    next
      case (Task_updated updated doc)
      with Stream_change assms(2) others show ?thesis
        by (cases doc) (auto simp: shows_append learn_def split: if_splits)
    next
      case (Task_deleted oid)
      with Stream_change assms(2) others show ?thesis
        by (cases "known (toHexString oid)") (auto simp: shows_append)
    qed (use Stream_change assms(2) others in \<open>auto simp: shows_append learn_def split: if_splits\<close>)
  qed (use assms(2) others in auto)
qed

lemma snapshot_known:
  assumes "shows_task x (snapshot_frames d st)" shows "fold learn (stream_tasks (d_id d) st) known x \<noteq> None"
proof -
  have tasks: "fold (tells x) (map toTaskEvent ts) b \<longleftrightarrow> b \<or> x \<in> toHexString ` t_id ` set ts" for ts b
    by (induction ts arbitrary: b) auto
  have jobs: "fold (tells x) (map toJobEvent js) b = b" for js b by (induction js arbitrary: b) auto
  have ends: "fold (tells x) (map Ev_endpoint es) b = b" for es b by (induction es arbitrary: b) auto
  have learns: "fold learn ts k x \<noteq> None" if "k x \<noteq> None \<or> x \<in> toHexString ` t_id ` set ts" for ts k
    using that by (induction ts arbitrary: k) (auto simp: learn_def)
  from assms show ?thesis
    by (intro learns) (simp add: shows_task_def snapshot_frames_def toEndpointEvents_def tasks jobs ends)
qed

lemma informed_step:
  assumes inf: "informed s" and wf: "watchers_wf s" and owned: "tasks_owned owner s" and op: "op_owned owner op"
    and fresh: "\<And>l' d store gone. op = Stream_open l' d store gone \<Longrightarrow> ss_conns s l' = None"
  shows "informed (stream_step op s)"
  unfolding informed_def
proof (intro allI impI)
  fix l c' x
  assume c': "ss_conns (stream_step op s) l = Some c'" "\<not> is_closed c'" and sh: "shows_task x (co_written c')"
  show "known_tasks (co_deployment c') (stream_step op s) x \<noteq> None"
  proof (cases "ss_conns s l")
    case (Some c)
    then have open_c: "\<not> is_closed c" using c' by (auto elim: step_some [of s l c op])
    define known where "known = known_tasks (co_deployment c) s"
    have "serves l (co_deployment c) (co_written c) known owner s"
      using wf owned Some open_c by (simp add: serves_def live_def known_def)
    then have after: "serves l (co_deployment c) (co_written c @ live_frames (co_deployment c) known [op])
        (op_known (co_deployment c) op known) owner (stream_step op s)"
      by (rule serves_step) (use op fresh c' in auto)
    have "op_known (co_deployment c) op known x \<noteq> None"
      by (rule shows_known [of "co_written c"])
        (use inf Some open_c after c' sh in \<open>auto simp: informed_def known_def serves_def live_def\<close>)
    with after c' show ?thesis by (auto simp: serves_def live_def)
  next
    case None
    then have "l \<in> set (opened [op])" using step_new [of s l op] c'(1) by auto
    then obtain d store gone where l: "op = Stream_open l d store gone" by (cases op) auto
    then have "store \<noteq> None" "\<not> gone" using c' None by (cases store; cases gone; simp add: open_cases)+
    then obtain st where "op = Stream_open l d (Some st) False" using l by auto
    with serves_opened [OF wf owned None, of d st] op c' sh snapshot_known [of x d st] show ?thesis
      by (auto simp: serves_def live_def)
  qed
qed

lemma informed_run:
  "informed s \<Longrightarrow> watchers_wf s \<Longrightarrow> tasks_owned owner s \<Longrightarrow> list_all (op_owned owner) ops \<Longrightarrow> distinct (opened ops) \<Longrightarrow>
     (\<And>l. l \<in> set (opened ops) \<Longrightarrow> ss_conns s l = None) \<Longrightarrow> informed (fold stream_step ops s)"
proof (induction ops arbitrary: s)
  case (Cons op ops)
  have opens: "opened (op # ops) = opened [op] @ opened ops" by (metis append_Cons append_Nil opened_append)
  have "informed (stream_step op s)"
    by (rule informed_step [where owner = owner]) (use Cons.prems in auto)
  then have "informed (fold stream_step ops (stream_step op s))"
    using Cons.prems opens by (intro Cons.IH watchers_wf_step tasks_owned_step step_new) auto
  then show ?case by simp
qed simp

text \<open>
  No client is left showing a task that is gone. Whenever a task is deleted, every open
  connection that was told of it and not yet that it is done is told so at once, with the task's own
  kind, although a deletion carries nothing but an id.
\<close>

theorem deleted_task_is_announced:
  assumes owned: "list_all (op_owned owner) ops" and responses: "distinct (opened ops)"
    and c: "ss_conns (stream_run ops) l = Some c" "\<not> is_closed c" and shown: "shows_task (toHexString oid) (co_written c)"
  shows "\<exists>task. ss_conns (stream_run (ops @ [Stream_change (Task_deleted oid)])) l =
           Some (c\<lparr>co_written := co_written c @ [Ev_task_done (toHexString oid) task]\<rparr>)"
proof -
  let ?s = "stream_run ops" and ?i = "co_deployment c"
  have owned_s: "tasks_owned owner ?s"
    unfolding stream_run_def using owned
    by (intro tasks_owned_run) (simp_all add: tasks_owned_def createDeploymentWatchers_def)
  have "informed ?s"
    unfolding stream_run_def
    by (rule informed_run [where owner = owner])
      (use owned responses watchers_wf_init in \<open>auto simp: informed_def createDeploymentWatchers_def tasks_owned_def\<close>)
  with c shown have "known_tasks ?i ?s (toHexString oid) \<noteq> None" unfolding informed_def by blast
  then obtain task where known: "ss_tasks ?s (toHexString oid) = Some (?i, task)"
    by (auto simp: known_tasks_def split: option.splits if_splits)
  let ?t = "snd (untrackTask (toHexString oid) ?s)"
  have same: "same_watchers ?s ?t" by (rule same_untrack)
  have wf: "watchers_wf ?t" by (rule watchers_wf_same [OF watchers_wf_run same])
  have conn: "ss_conns ?t = ss_conns ?s" by (simp add: untrackTask_def)
  have live: "live l ?i (co_written c) ?t" using c conn by (simp add: live_def)
  have "ss_conns (notify ?i (toTaskDoneEvent (toHexString oid) task) ?t) l =
      Some (c\<lparr>co_written := co_written c @ [Ev_task_done (toHexString oid) task]\<rparr>)"
    using live_listener [OF wf live, of ?i] c conn
    by (simp add: notify_def fold_send_conns [OF listeners_of_distinct [OF wf]] written_def toTaskDoneEvent_def)
  moreover have "stream_run (ops @ [Stream_change (Task_deleted oid)]) = notify ?i (toTaskDoneEvent (toHexString oid) task) ?t"
    using known live_has [OF wf live] by (simp add: stream_run_def onTaskDelete_def Let_def untrackTask_def)
  ultimately show ?thesis by auto
qed

theorem deleted_task_is_announced_witness:
  "\<exists>task. co_written (the (ss_conns (stream_run [example_open, Stream_change (Task_deleted 7)]) 0)) =
     example_frames @ [Ev_task_done (toHexString 7) task]"
proof -
  let ?c = "\<lparr>co_deployment = ''D'', co_set = 0, co_written = example_frames, co_ended = False, co_destroyed = False\<rparr>"
  have "ss_conns (stream_run [example_open]) 0 = Some ?c" by (simp add: stream_run_def example_opened)
  with deleted_task_is_announced [of "\<lambda>x. ''D''" "[example_open]" 0 ?c 7] show ?thesis
    by (auto simp: example_open_def stream_example_facts is_closed_def example_frames_def shows_task_def toDeploymentEvent_def)
qed

section \<open>Frames and their schema\<close>

text \<open>\<open>DeploymentStreamEventSchema\<close>: the bounds and formats its variants state.\<close>

definition public_key :: "string \<Rightarrow> bool" where
  "public_key a \<longleftrightarrow> 43 \<le> length a \<and> length a \<le> 44"

fun frame_conforms :: "stream_event \<Rightarrow> bool" where
  "frame_conforms (Ev_deployment status replicas active_revision) = (1 \<le> active_revision)"
| "frame_conforms (Ev_job job state node timeStart timeEnd revision created_at) =
     (public_key job \<and> (case node of None \<Rightarrow> True | Some n \<Rightarrow> public_key n) \<and> 0 \<le> timeStart \<and> 0 \<le> timeEnd \<and>
      1 \<le> revision \<and> iso_shape created_at)"
| "frame_conforms (Ev_jobs jobs) = list_all public_key jobs"
| "frame_conforms (Ev_log category event message tx created_at) = iso_shape created_at"
| "frame_conforms (Ev_task i task status attempts due_at job) = (status \<noteq> None \<and> 0 \<le> attempts \<and> iso_shape due_at)"
| "frame_conforms (Ev_endpoint p) = True"
| "frame_conforms (Ev_task_done i task) = True"

text \<open>Documents as the writers of the collections leave them; a date lies before the year 10000.\<close>

definition date_ok :: "ms \<Rightarrow> bool" where
  "date_ok t \<longleftrightarrow> 0 \<le> t \<and> t < 253402300800000"

definition job_typed :: "jobs_document \<Rightarrow> bool" where
  "job_typed j \<longleftrightarrow> public_key (j_job j) \<and> (case j_node j of None \<Rightarrow> True | Some n \<Rightarrow> public_key n) \<and>
     0 \<le> j_time_start j \<and> 0 \<le> nullish (j_time_end j) 0 \<and> 1 \<le> j_revision j \<and> date_ok (j_created_at j)"

definition task_typed :: "task_document \<Rightarrow> bool" where
  "task_typed t \<longleftrightarrow> t_status t \<noteq> None \<and> 0 \<le> t_attempts t \<and> date_ok (t_due_at t)"

fun change_typed :: "change \<Rightarrow> bool" where
  "change_typed (Deployment_inserted doc) = (1 \<le> d_active_revision doc)"
| "change_typed (Deployment_updated updated doc) = (case doc of None \<Rightarrow> True | Some d \<Rightarrow> 1 \<le> d_active_revision d)"
| "change_typed (Job_inserted doc) = job_typed doc"
| "change_typed (Job_updated updated doc) = (case doc of None \<Rightarrow> True | Some j \<Rightarrow> job_typed j)"
| "change_typed (Event_inserted doc) = date_ok (e_created_at doc)"
| "change_typed (Task_inserted doc) = task_typed doc"
| "change_typed (Task_updated updated doc) = (case doc of None \<Rightarrow> True | Some t \<Rightarrow> task_typed t)"
| "change_typed (Task_deleted oid) = True"

fun op_typed :: "stream_op \<Rightarrow> bool" where
  "op_typed (Stream_open l d store gone) =
     (case store of None \<Rightarrow> True
      | Some st \<Rightarrow> 1 \<le> d_active_revision d \<and> list_all job_typed (db_jobs st) \<and> list_all task_typed (db_tasks st))"
| "op_typed (Stream_change c) = change_typed c"
| "op_typed op = True"

lemma date_ok_iso: "date_ok t \<Longrightarrow> iso_shape (toISOString t)"
  using date_roundtrip by (simp add: date_ok_def)

lemma conforms_frames:
  "1 \<le> d_active_revision d \<Longrightarrow> frame_conforms (toDeploymentEvent d)"
  "job_typed j \<Longrightarrow> frame_conforms (toJobEvent j)"
  "list_all job_typed js \<Longrightarrow> frame_conforms (toJobsSnapshotEvent js)"
  "date_ok (e_created_at e) \<Longrightarrow> frame_conforms (toLogEvent e)"
  "task_typed t \<Longrightarrow> frame_conforms (toTaskEvent t)"
  "frame_conforms (toTaskDoneEvent i task)"
  "f \<in> set (toEndpointEvents ps) \<Longrightarrow> frame_conforms f"
  by (auto simp: toDeploymentEvent_def toJobEvent_def toJobsSnapshotEvent_def toLogEvent_def toTaskEvent_def
      toTaskDoneEvent_def toEndpointEvents_def job_typed_def task_typed_def date_ok_iso list_all_iff)

text \<open>A step that writes only frames of the schema keeps what has been written in it.\<close>

definition conforming :: "stream_state \<Rightarrow> bool" where
  "conforming s \<longleftrightarrow> (\<forall>l c. ss_conns s l = Some c \<longrightarrow> list_all frame_conforms (co_written c))"

lemma conforming_conns: "ss_conns s' = ss_conns s \<Longrightarrow> conforming s' = conforming s"
  by (simp add: conforming_def)

lemma conforming_send: "conforming s \<Longrightarrow> frame_conforms e \<Longrightarrow> conforming (send l e s)"
  by (auto simp: conforming_def send_def written_def split: if_splits)

lemma conforming_fold:
  "conforming s \<Longrightarrow> (\<And>x t. x \<in> set xs \<Longrightarrow> conforming t \<Longrightarrow> conforming (f x t)) \<Longrightarrow> conforming (fold f xs s)"
  by (induction xs arbitrary: s) auto

lemma conforming_notify: "conforming s \<Longrightarrow> frame_conforms e \<Longrightarrow> conforming (notify i e s)"
  unfolding notify_def by (rule conforming_fold) (auto intro: conforming_send)

lemma conforming_track: "conforming (trackTask i dep task s) = conforming s"
  by (rule conforming_conns) (simp add: trackTask_def)

lemma conforming_untrack: "conforming (snd (untrackTask i s)) = conforming s"
  by (rule conforming_conns) (simp add: untrackTask_def)

lemma conforming_callbacks:
  assumes "conforming s"
  shows "1 \<le> d_active_revision d \<Longrightarrow> conforming (onDeploymentChange d s)" "conforming (onEndpointsChange d s)"
    "job_typed j \<Longrightarrow> conforming (onJobChange j s)" "date_ok (e_created_at e) \<Longrightarrow> conforming (onLogEvent e s)"
    "task_typed t \<Longrightarrow> conforming (onTaskChange t s)" "conforming (onTaskDelete oid s)"
proof -
  note sent = conforming_notify [OF assms]
  show "1 \<le> d_active_revision d \<Longrightarrow> conforming (onDeploymentChange d s)"
    using assms sent conforms_frames(1) [of d] by (simp add: onDeploymentChange_def)
  show "conforming (onEndpointsChange d s)"
    using assms by (auto simp: onEndpointsChange_def intro!: conforming_fold conforming_notify dest: conforms_frames(7))
  show "job_typed j \<Longrightarrow> conforming (onJobChange j s)"
    using assms sent conforms_frames(2) [of j] by (simp add: onJobChange_def)
  show "date_ok (e_created_at e) \<Longrightarrow> conforming (onLogEvent e s)"
    using assms sent conforms_frames(4) [of e] by (simp add: onLogEvent_def)
  show "task_typed t \<Longrightarrow> conforming (onTaskChange t s)"
    using assms conforms_frames(5) [of t] by (simp add: onTaskChange_def conforming_notify conforming_track)
  have "conforming (snd (untrackTask (toHexString oid) s))" using assms by (simp add: conforming_untrack)
  then show "conforming (onTaskDelete oid s)"
    using conforms_frames(6)
    by (cases "untrackTask (toHexString oid) s") (auto simp: onTaskDelete_def Let_def intro: conforming_notify split: option.split)
qed

lemma conforming_forward: "conforming s \<Longrightarrow> change_typed c \<Longrightarrow> conforming (forward c s)"
  by (cases c) (auto simp: forward_update_def conforming_callbacks split: option.split)

lemma conforming_snapshot:
  "op_typed (Stream_open l d (Some st) gone) \<Longrightarrow> e \<in> set (snapshot_frames d st) \<Longrightarrow> frame_conforms e"
  by (auto simp: snapshot_frames_def list_all_iff stream_jobs_def stream_tasks_def
      intro: conforms_frames intro!: conforms_frames(3))

lemma conforming_step:
  assumes s: "conforming s" and op: "op_typed op" shows "conforming (stream_step op s)"
proof (cases op)
  case (Stream_open l d store gone)
  show ?thesis
  proof (cases "ss_conns s l = None \<and> store \<noteq> None \<and> \<not> gone")
    case True
    then obtain st where st: "store = Some st" by blast
    have "conforming (registered (d_id d) l s)" using s by (simp add: conforming_def registered_conns)
    then have "conforming (fold (\<lambda>t. trackTask (toHexString (t_id t)) (d_id d) (t_task t))
        (stream_tasks (d_id d) st) (registered (d_id d) l s))"
      by (rule conforming_fold) (simp add: conforming_track)
    then show ?thesis using True Stream_open st op conforming_snapshot [of l d st gone]
      by (auto simp: open_cases intro!: conforming_fold intro: conforming_send)
  next
    case False
    then show ?thesis using s Stream_open by (cases store; cases gone) (auto simp: open_cases)
  qed
next
  case (Stream_change c)
  then show ?thesis using s op by (simp add: conforming_forward)
next
  case Streams_closed
  have "conforming t \<Longrightarrow> conforming (close_stream l t)" for l and t :: stream_state
    by (auto simp: conforming_def close_conns split: if_splits)
  with Streams_closed s show ?thesis by (auto simp: closeAll_def intro!: conforming_fold)
qed (use s in \<open>auto simp: conforming_def close_conns split: if_splits\<close>)

text \<open>
  Whatever a connection is sent is a \<open>DeploymentStreamEvent\<close>: over every run on documents as
  they are stored, every frame written to every connection meets the bounds and formats its variant
  of the schema states, which nothing checks at run time.
\<close>

theorem frames_meet_their_schema:
  assumes "list_all op_typed ops" and "ss_conns (stream_run ops) l = Some c" and "e \<in> set (co_written c)"
  shows "frame_conforms e"
proof -
  have "conforming s \<Longrightarrow> list_all op_typed ops \<Longrightarrow> conforming (fold stream_step ops s)" for s
    by (induction ops arbitrary: s) (auto intro: conforming_step)
  from this [of createDeploymentWatchers] assms show ?thesis
    by (auto simp: stream_run_def conforming_def createDeploymentWatchers_def list_all_iff)
qed

theorem frames_meet_their_schema_witness:
  "frame_conforms (toTaskEvent (blank_task 7 STOP ''D''))"
proof (rule frames_meet_their_schema [of "[example_open]" 0])
  show "list_all op_typed [example_open]"
    by (simp add: example_open_def stream_example_facts task_typed_def date_ok_def)
      (simp add: stream_example_def blank_deployment_def empty_db_def)
  show "ss_conns (stream_run [example_open]) 0 = Some \<lparr>co_deployment = ''D'', co_set = 0, co_written = example_frames,
      co_ended = False, co_destroyed = False\<rparr>"
    by (simp add: stream_run_def example_opened)
qed (simp add: example_frames_def)

end
