(* ===== verification/Listener_Life.thy ===== *)
theory Listener_Life
  imports Prelude
begin

text \<open>
  The life of a change-stream listener (\<open>src/client/listener/index.ts\<close>): it starts after the
  position its collection's checkpoint names, is delivered events, checkpoints its position, fails,
  stops, and starts again after a crash; and the API's listener that reopens its streams when they
  fail (\<open>src/router/stream/deploymentChangeListener.ts\<close>).

  A resume token is the number of the collection's events before it: the driver's change stream
  delivers them in order, one by one, and refuses to resume before the history it still holds. One
  collection is modelled; its checkpoint document is shared by every listener of the collection,
  whatever process it runs in, because its key is the collection's name.
\<close>

section \<open>Listeners and their checkpoint\<close>

record listener =
  ln_stream :: "nat option"
  ln_stopped :: bool
  ln_checkpointed :: "nat option"
  ln_resumeAfter :: "nat option"
  ln_delivered :: bool
  ln_timer :: bool
  ln_failed :: bool

definition createCollectionListener :: listener where
  "createCollectionListener = \<lparr>ln_stream = None, ln_stopped = False, ln_checkpointed = None,
     ln_resumeAfter = None, ln_delivered = False, ln_timer = False, ln_failed = False\<rparr>"

text \<open>
  The collection: how many events it has had, the oldest position a stream can resume at, the
  checkpoint document, the listeners, and the positions whose event each has been delivered.
\<close>

record stream_world =
  sw_events :: nat
  sw_oldest :: nat
  sw_checkpoint :: "nat option"
  sw_listeners :: "nat \<Rightarrow> listener"
  sw_seen :: "nat \<Rightarrow> nat list"

definition put_listener :: "nat \<Rightarrow> listener \<Rightarrow> stream_world \<Rightarrow> stream_world" where
  "put_listener p l w = w\<lparr>sw_listeners := (sw_listeners w)(p := l)\<rparr>"

text \<open>The start, up to the loop over the events.\<close>

definition idle :: "nat \<Rightarrow> stream_world \<Rightarrow> bool" where
  "idle p w \<longleftrightarrow> ln_stream (sw_listeners w p) = None \<and> \<not> ln_stopped (sw_listeners w p)"

definition open_listener :: "nat \<Rightarrow> stream_world \<Rightarrow> stream_world" where
  "open_listener p w =
     (let l = sw_listeners w p; resumeAfter = sw_checkpoint w
      in if \<not> idle p w then w
         else put_listener p (l\<lparr>ln_stream := Some (nullish resumeAfter (sw_events w)), ln_checkpointed := resumeAfter,
                ln_resumeAfter := resumeAfter, ln_delivered := False, ln_timer := True\<rparr>) w)"

text \<open>One event of the loop, dispatched to the callbacks; none while the stream is not open.\<close>

definition deliver :: "nat \<Rightarrow> stream_world \<Rightarrow> stream_world" where
  "deliver p w =
     (case ln_stream (sw_listeners w p) of
        None \<Rightarrow> w
      | Some n \<Rightarrow>
          if ln_stopped (sw_listeners w p) \<or> ln_failed (sw_listeners w p) \<or> n < sw_oldest w \<or> sw_events w \<le> n then w
          else (put_listener p ((sw_listeners w p)\<lparr>ln_stream := Some (Suc n), ln_delivered := True\<rparr>) w)
                 \<lparr>sw_seen := (sw_seen w)(p := sw_seen w p @ [n])\<rparr>)"

text \<open>\<open>checkpoint\<close>; a failed write is logged and leaves the document.\<close>

definition checkpoint :: "bool \<Rightarrow> nat \<Rightarrow> stream_world \<Rightarrow> stream_world" where
  "checkpoint written p w =
     (let l = sw_listeners w p; token = ln_stream l
      in if token = None \<or> token = ln_checkpointed l then w
         else (put_listener p (l\<lparr>ln_checkpointed := token\<rparr>) w)
                \<lparr>sw_checkpoint := (if written then token else sw_checkpoint w)\<rparr>)"

text \<open>
  The loop throws. A stopped listener swallows it; a resume that failed before anything was delivered
  forgets the checkpoint (if the delete succeeds) and starts again, which is \<open>Retry\<close>; any other
  failure ends the listener.
\<close>

datatype failure = Swallowed | Resume_again | Thrown

definition stream_failed :: "bool \<Rightarrow> nat \<Rightarrow> stream_world \<Rightarrow> failure \<times> stream_world" where
  "stream_failed deleted p w =
     (let l = sw_listeners w p
      in if ln_stopped l then (Swallowed, w)
         else if ln_resumeAfter l \<noteq> None \<and> \<not> ln_delivered l
         then (Resume_again, (put_listener p (l\<lparr>ln_stream := None\<rparr>) w)
                 \<lparr>sw_checkpoint := (if deleted then None else sw_checkpoint w)\<rparr>)
         else (Thrown, put_listener p (l\<lparr>ln_timer := False, ln_failed := True\<rparr>) w))"

definition stop_listener :: "bool \<Rightarrow> nat \<Rightarrow> stream_world \<Rightarrow> stream_world" where
  "stop_listener written p w =
     checkpoint written p (put_listener p ((sw_listeners w p)\<lparr>ln_stopped := True, ln_timer := False\<rparr>) w)"

section \<open>Starting\<close>

text \<open>
  \<open>start\<close> until its stream delivers or waits for events: each failed resume costs one delete of the
  checkpoint, whose outcomes are the list; \<open>None\<close> is a start that is still retrying when the
  list is used up. A resume fails when its position is no longer in the history.
\<close>

definition resume_fails :: "nat \<Rightarrow> stream_world \<Rightarrow> bool" where
  "resume_fails p w \<longleftrightarrow> (case ln_stream (sw_listeners w p) of None \<Rightarrow> False | Some n \<Rightarrow> n < sw_oldest w)"

fun start :: "bool list \<Rightarrow> nat \<Rightarrow> stream_world \<Rightarrow> stream_world option" where
  "start deletes p w =
     (let w' = open_listener p w
      in if \<not> idle p w \<or> \<not> resume_fails p w' then Some w'
         else case deletes of [] \<Rightarrow> None
              | deleted # deletes' \<Rightarrow>
                  (case stream_failed deleted p w' of (Resume_again, w'') \<Rightarrow> start deletes' p w'' | (_, w'') \<Rightarrow> Some w''))"

declare start.simps [simp del]

definition expired :: "stream_world \<Rightarrow> bool" where
  "expired w \<longleftrightarrow> (case sw_checkpoint w of None \<Rightarrow> False | Some c \<Rightarrow> c < sw_oldest w)"

lemma open_idle:
  "idle p w \<Longrightarrow> resume_fails p (open_listener p w) \<longleftrightarrow>
     (case sw_checkpoint w of None \<Rightarrow> sw_events w < sw_oldest w | Some c \<Rightarrow> c < sw_oldest w)"
  by (auto simp: idle_def open_listener_def Let_def put_listener_def resume_fails_def split: option.split)

lemma open_idle_listener:
  "idle p w \<Longrightarrow> sw_listeners (open_listener p w) p = (sw_listeners w p)\<lparr>ln_stream := Some (nullish (sw_checkpoint w) (sw_events w)),
     ln_checkpointed := sw_checkpoint w, ln_resumeAfter := sw_checkpoint w, ln_delivered := False, ln_timer := True\<rparr>"
  by (simp add: idle_def open_listener_def Let_def put_listener_def)

lemma open_frame [simp]:
  "sw_events (open_listener p w) = sw_events w" "sw_oldest (open_listener p w) = sw_oldest w"
  "sw_checkpoint (open_listener p w) = sw_checkpoint w" "sw_seen (open_listener p w) = sw_seen w"
  by (simp_all add: open_listener_def Let_def put_listener_def)

lemma start_at_once:
  assumes "idle p w" "\<not> expired w" "sw_oldest w \<le> sw_events w"
  shows "start deletes p w = Some (open_listener p w)" "\<not> resume_fails p (open_listener p w)"
    "ln_stream (sw_listeners (open_listener p w) p) = Some (nullish (sw_checkpoint w) (sw_events w))"
proof -
  show fine: "\<not> resume_fails p (open_listener p w)"
    using assms by (auto simp: open_idle expired_def split: option.splits)
  then show "start deletes p w = Some (open_listener p w)" by (subst start.simps) (simp add: Let_def)
  show "ln_stream (sw_listeners (open_listener p w) p) = Some (nullish (sw_checkpoint w) (sw_events w))"
    using assms by (simp add: open_idle_listener)
qed

text \<open>The next attempt, after an expired checkpoint.\<close>

lemma start_expired:
  assumes "idle p w" "expired w"
  obtains w' where "\<And>deletes. start deletes p w =
      (case deletes of [] \<Rightarrow> None | deleted # rest \<Rightarrow> start rest p (w'\<lparr>sw_checkpoint := (if deleted then None else sw_checkpoint w)\<rparr>))"
    and "idle p w'" "sw_events w' = sw_events w" "sw_oldest w' = sw_oldest w" "sw_seen w' = sw_seen w"
proof -
  let ?w' = "put_listener p ((sw_listeners (open_listener p w) p)\<lparr>ln_stream := None\<rparr>) (open_listener p w)"
  have fails: "resume_fails p (open_listener p w)"
    using assms by (simp add: open_idle expired_def split: option.splits)
  have failed: "stream_failed deleted p (open_listener p w) =
      (Resume_again, ?w'\<lparr>sw_checkpoint := (if deleted then None else sw_checkpoint w)\<rparr>)" for deleted
    using assms by (auto simp: stream_failed_def Let_def open_idle_listener idle_def expired_def split: option.splits)
  show thesis
  proof (rule that [of ?w'])
    show "start deletes p w = (case deletes of [] \<Rightarrow> None
        | deleted # rest \<Rightarrow> start rest p (?w'\<lparr>sw_checkpoint := (if deleted then None else sw_checkpoint w)\<rparr>))" for deletes
      using assms by (subst start.simps) (auto simp: Let_def fails failed split: list.split)
    show "idle p ?w'" using assms by (simp add: idle_def put_listener_def open_idle_listener)
  qed (simp_all add: put_listener_def)
qed


definition fresh_world :: "nat \<Rightarrow> nat \<Rightarrow> nat option \<Rightarrow> stream_world" where
  "fresh_world events oldest position = \<lparr>sw_events = events, sw_oldest = oldest, sw_checkpoint = position,
     sw_listeners = (\<lambda>p. createCollectionListener), sw_seen = (\<lambda>p. [])\<rparr>"

lemma fresh_idle [simp]: "idle p (fresh_world events oldest position)"
  by (simp add: idle_def fresh_world_def createCollectionListener_def)


text \<open>
  Forgetting is not only for expired positions. Whatever error ends the stream of a listener
  that resumed and has had no event since, its checkpoint is deleted and it starts again at the
  present: the events written between the failure and the new stream reach no callback, although the
  history still holds every one of them.
\<close>

theorem quiet_failure_forgets_position:
  assumes "ln_stream (sw_listeners w p) = Some n" "\<not> ln_stopped (sw_listeners w p)"
    "ln_resumeAfter (sw_listeners w p) \<noteq> None" "\<not> ln_delivered (sw_listeners w p)" "sw_oldest w \<le> n" "n < sw_events w"
  shows "\<exists>w1 w2. stream_failed True p w = (Resume_again, w1) \<and> start [] p w1 = Some w2 \<and>
           ln_stream (sw_listeners w2 p) = Some (sw_events w) \<and> sw_seen w2 = sw_seen w"
proof -
  let ?w1 = "(put_listener p ((sw_listeners w p)\<lparr>ln_stream := None\<rparr>) w)\<lparr>sw_checkpoint := None\<rparr>"
  have failed: "stream_failed True p w = (Resume_again, ?w1)" using assms by (simp add: stream_failed_def)
  have idle: "idle p ?w1" "\<not> expired ?w1" "sw_oldest ?w1 \<le> sw_events ?w1" "sw_events ?w1 = sw_events w"
    "sw_seen ?w1 = sw_seen w" "sw_checkpoint ?w1 = None"
    using assms by (simp_all add: idle_def expired_def put_listener_def)
  show ?thesis
  proof (intro exI conjI)
    show "stream_failed True p w = (Resume_again, ?w1)" by (rule failed)
    show "start [] p ?w1 = Some (open_listener p ?w1)" using idle by (intro start_at_once)
    show "ln_stream (sw_listeners (open_listener p ?w1) p) = Some (sw_events w)"
      using start_at_once(3) [OF idle(1-3)] idle(4,6) by simp
    show "sw_seen (open_listener p ?w1) = sw_seen w" by (simp only: open_frame idle)
  qed
qed

section \<open>Runs\<close>

text \<open>
  What happens to the collection's listeners: an event is written, a listener starts, is delivered
  an event, checkpoints or stops (each write may fail), or its process crashes and has a new one.
\<close>

datatype life_op =
    Written
  | Starts nat
  | Delivers nat
  | Checkpoints nat bool
  | Stops nat bool
  | Crashes nat

fun life_step :: "life_op \<Rightarrow> stream_world \<Rightarrow> stream_world" where
  "life_step Written w = w\<lparr>sw_events := Suc (sw_events w)\<rparr>"
| "life_step (Starts p) w = open_listener p w"
| "life_step (Delivers p) w = deliver p w"
| "life_step (Checkpoints p written) w = checkpoint written p w"
| "life_step (Stops p written) w = stop_listener written p w"
| "life_step (Crashes p) w = put_listener p createCollectionListener w"

definition life_run :: "life_op list \<Rightarrow> stream_world \<Rightarrow> stream_world" where
  "life_run ops w = fold life_step ops w"

text \<open>The steps of one listener, and of the collection's writers.\<close>

fun alone :: "nat \<Rightarrow> life_op \<Rightarrow> bool" where
  "alone p Written = True"
| "alone p (Starts q) = (q = p)"
| "alone p (Delivers q) = (q = p)"
| "alone p (Checkpoints q written) = (q = p)"
| "alone p (Stops q written) = (q = p)"
| "alone p (Crashes q) = (q = p)"

text \<open>The listener and the checkpoint are at \<open>m\<close> or past it, and what is before them was delivered.\<close>

definition past :: "nat \<Rightarrow> nat \<Rightarrow> stream_world \<Rightarrow> bool" where
  "past p m w \<longleftrightarrow> (\<exists>c. sw_checkpoint w = Some c \<and> m \<le> c) \<and> (\<forall>n. ln_stream (sw_listeners w p) = Some n \<longrightarrow> m \<le> n)"

definition covered :: "nat \<Rightarrow> nat \<Rightarrow> stream_world \<Rightarrow> bool" where
  "covered p m w \<longleftrightarrow>
     (\<forall>c k. sw_checkpoint w = Some c \<longrightarrow> m \<le> k \<longrightarrow> k < c \<longrightarrow> k \<in> set (sw_seen w p)) \<and>
     (\<forall>n k. ln_stream (sw_listeners w p) = Some n \<longrightarrow> m \<le> k \<longrightarrow> k < n \<longrightarrow> k \<in> set (sw_seen w p))"

lemma past_checkpoint: "past p m w \<Longrightarrow> past p m (checkpoint written p w)"
  by (auto simp: past_def checkpoint_def Let_def put_listener_def)

lemma covered_checkpoint: "covered p m w \<Longrightarrow> covered p m (checkpoint written p w)"
  by (auto simp: covered_def checkpoint_def Let_def put_listener_def)

lemma past_step:
  assumes "past p m w" "alone p op" shows "past p m (life_step op w)"
proof (cases op)
  case (Delivers q)
  then show ?thesis
    using assms by (cases "ln_stream (sw_listeners w p)") (auto simp: past_def deliver_def put_listener_def)
next
  case (Stops q written)
  have "past p m (put_listener p ((sw_listeners w p)\<lparr>ln_stopped := True, ln_timer := False\<rparr>) w)"
    using assms by (simp add: past_def put_listener_def)
  with Stops assms show ?thesis by (simp add: stop_listener_def past_checkpoint)
next
  case (Checkpoints q written)
  with assms show ?thesis by (simp add: past_checkpoint)
qed (use assms in \<open>auto simp: past_def open_listener_def Let_def put_listener_def createCollectionListener_def\<close>)

lemma covered_step:
  assumes "covered p m w" "past p m w" "alone p op" shows "covered p m (life_step op w)"
proof (cases op)
  case (Delivers q)
  then show ?thesis
    using assms by (cases "ln_stream (sw_listeners w p)") (auto simp: covered_def deliver_def put_listener_def less_Suc_eq)
next
  case (Stops q written)
  have "covered p m (put_listener p ((sw_listeners w p)\<lparr>ln_stopped := True, ln_timer := False\<rparr>) w)"
    using assms by (simp add: covered_def put_listener_def)
  with Stops assms show ?thesis by (simp add: stop_listener_def covered_checkpoint)
next
  case (Checkpoints q written)
  with assms show ?thesis by (simp add: covered_checkpoint)
qed (use assms in \<open>auto simp: covered_def past_def open_listener_def Let_def put_listener_def
    createCollectionListener_def\<close>)

lemma past_run:
  "past p m w \<Longrightarrow> list_all (alone p) ops \<Longrightarrow> past p m (life_run ops w)"
  unfolding life_run_def by (induction ops arbitrary: w) (auto intro: past_step)

lemma covered_run:
  "covered p m w \<Longrightarrow> past p m w \<Longrightarrow> list_all (alone p) ops \<Longrightarrow> covered p m (life_run ops w)"
  unfolding life_run_def by (induction ops arbitrary: w) (auto intro: past_step covered_step)



lemma unseen_step:
  assumes "past p m w" "alone p op" "k < m" "k \<notin> set (sw_seen w p)" shows "k \<notin> set (sw_seen (life_step op w) p)"
proof (cases op)
  case (Delivers q)
  then show ?thesis
    using assms by (cases "ln_stream (sw_listeners w p)") (auto simp: past_def deliver_def put_listener_def)
qed (use assms in \<open>auto simp: stop_listener_def checkpoint_def Let_def put_listener_def\<close>)

lemma unseen_run:
  "past p m w \<Longrightarrow> list_all (alone p) ops \<Longrightarrow> k < m \<Longrightarrow> k \<notin> set (sw_seen w p) \<Longrightarrow> k \<notin> set (sw_seen (life_run ops w) p)"
  unfolding life_run_def by (induction ops arbitrary: w) (auto intro: past_step dest: unseen_step)

text \<open>
  But the API's event stream listens to the same collections under the same checkpoints. While
  the worker \<open>p\<close> is down, having checkpointed \<open>c\<close>, the API's listener \<open>q\<close> moves the
  checkpoint on to its own position \<open>m\<close>: started now the worker resumes at \<open>m\<close>, and whatever it
  does afterwards it is never delivered the events from \<open>c\<close> to \<open>m\<close>, which it would have been
  had it started a moment earlier.
\<close>

theorem shared_checkpoint_loses_events:
  assumes "p \<noteq> q" and down: "idle p w" and "sw_checkpoint w = Some c"
    and api: "ln_stream (sw_listeners w q) = Some m" "ln_checkpointed (sw_listeners w q) \<noteq> Some m"
    and k: "c \<le> k" "k < m" "k \<notin> set (sw_seen w p)" and ops: "list_all (alone p) ops"
  shows "ln_stream (sw_listeners (life_run [Starts p] w) p) = Some c \<and>
         ln_stream (sw_listeners (life_run [Checkpoints q True, Starts p] w) p) = Some m \<and>
         k \<notin> set (sw_seen (life_run ([Checkpoints q True, Starts p] @ ops) w) p)"
proof -
  let ?w = "life_run [Checkpoints q True, Starts p] w"
  have ck: "sw_checkpoint (checkpoint True q w) = Some m" "sw_seen (checkpoint True q w) = sw_seen w"
    "idle p (checkpoint True q w)"
    using api down \<open>p \<noteq> q\<close> by (auto simp: checkpoint_def Let_def put_listener_def idle_def)
  then have at: "ln_stream (sw_listeners ?w p) = Some m" "sw_checkpoint ?w = Some m" "sw_seen ?w = sw_seen w"
    by (simp_all add: life_run_def open_idle_listener)
  then have "past p m ?w" by (simp add: past_def)
  then have "k \<notin> set (sw_seen (life_run ops ?w) p)" using ops k at(3) by - (rule unseen_run [of p m], simp_all)
  moreover have "life_run ops ?w = life_run ([Checkpoints q True, Starts p] @ ops) w" by (simp add: life_run_def)
  moreover have "ln_stream (sw_listeners (life_run [Starts p] w) p) = Some c"
    using down assms(3) by (simp add: life_run_def open_idle_listener)
  ultimately show ?thesis using at by simp
qed

theorem shared_checkpoint_loses_events_witness:
  "2 \<notin> set (sw_seen (life_run ([Checkpoints 1 True, Starts 0] @ [Written, Delivers 0])
     (life_run [Starts 1, Written, Delivers 1] (fresh_world 2 0 (Some 2)))) 0)"
proof -
  let ?w = "life_run [Starts 1, Written, Delivers 1] (fresh_world 2 0 (Some 2))"
  have "idle 0 ?w" "sw_checkpoint ?w = Some 2" "ln_stream (sw_listeners ?w 1) = Some 3"
    "ln_checkpointed (sw_listeners ?w 1) = Some 2" "sw_seen ?w 0 = []"
    by (simp_all add: life_run_def fresh_world_def open_listener_def idle_def createCollectionListener_def
        put_listener_def deliver_def Let_def)
  with shared_checkpoint_loses_events [of 0 1 ?w 2 3 2 "[Written, Delivers 0]"] show ?thesis by simp
qed

section \<open>Reopening the API's streams (\<open>deploymentChangeListener.ts\<close>)\<close>

text \<open>
  Each \<open>open\<close> is a generation of four streams with a flag of its own. \<open>rs_closing\<close> is the wait for
  the failed generation's streams to stop, \<open>rs_timer\<close> the pending reopening, \<open>rs_closed_all\<close> how
  often every connection was closed.
\<close>

record reopen_state =
  rs_stopped :: bool
  rs_generation :: nat
  rs_recovering :: "nat \<Rightarrow> bool"
  rs_closing :: bool
  rs_timer :: bool
  rs_closed_all :: nat

definition startDeploymentChangeListener :: reopen_state where
  "startDeploymentChangeListener = \<lparr>rs_stopped = False, rs_generation = 1, rs_recovering = (\<lambda>g. g = 0),
     rs_closing = False, rs_timer = False, rs_closed_all = 0\<rparr>"

definition recover :: "nat \<Rightarrow> reopen_state \<Rightarrow> reopen_state" where
  "recover g s = (if rs_stopped s \<or> rs_recovering s g then s
     else s\<lparr>rs_recovering := (rs_recovering s)(g := True), rs_closing := True\<rparr>)"

definition streams_settled :: "reopen_state \<Rightarrow> reopen_state" where
  "streams_settled s = (if \<not> rs_closing s then s else s\<lparr>rs_closing := False, rs_timer := \<not> rs_stopped s\<rparr>)"

definition reopen :: "reopen_state \<Rightarrow> reopen_state" where
  "reopen s = (if \<not> rs_timer s then s
     else s\<lparr>rs_timer := False, rs_generation := Suc (rs_generation s), rs_closed_all := Suc (rs_closed_all s)\<rparr>)"

definition stop_changes :: "reopen_state \<Rightarrow> reopen_state" where
  "stop_changes s = s\<lparr>rs_stopped := True, rs_timer := False\<rparr>"

text \<open>A stream can only end once its generation is open.\<close>

inductive reopen_step :: "reopen_state \<Rightarrow> reopen_state \<Rightarrow> bool" where
  ended: "g \<le> rs_generation s \<Longrightarrow> reopen_step s (recover g s)"
| settled: "reopen_step s (streams_settled s)"
| fires: "reopen_step s (reopen s)"
| stops: "reopen_step s (stop_changes s)"

inductive_cases reopen_step_cases: "reopen_step s s'"

definition reopen_inv :: "reopen_state \<Rightarrow> bool" where
  "reopen_inv s \<longleftrightarrow> rs_generation s = Suc (rs_closed_all s) \<and>
     (\<forall>g. rs_recovering s g \<longrightarrow> g \<le> rs_generation s) \<and> (\<forall>g < rs_generation s. rs_recovering s g) \<and>
     (rs_closing s \<or> rs_timer s \<longrightarrow> rs_recovering s (rs_generation s)) \<and> \<not> (rs_closing s \<and> rs_timer s) \<and>
     (rs_stopped s \<longrightarrow> \<not> rs_timer s)"

lemma recovering_current: "reopen_inv s \<Longrightarrow> g \<le> rs_generation s \<Longrightarrow> \<not> rs_recovering s g \<Longrightarrow> g = rs_generation s"
  by (auto simp: reopen_inv_def dest: le_neq_implies_less)

lemma reopen_inv_step: "reopen_step s s' \<Longrightarrow> reopen_inv s \<Longrightarrow> reopen_inv s'"
proof (induction rule: reopen_step.induct)
  case (ended g s)
  then have "\<not> rs_recovering s g \<Longrightarrow> g = rs_generation s" using recovering_current [of s g] by blast
  with ended show ?case by (auto simp: recover_def reopen_inv_def)
next
  case (settled s)
  then show ?case by (auto simp: reopen_inv_def streams_settled_def)
next
  case (fires s)
  then show ?case by (auto simp: reopen_inv_def reopen_def less_Suc_eq le_SucI)
next
  case (stops s)
  then show ?case by (auto simp: reopen_inv_def stop_changes_def)
qed

lemma reopen_stopped_step:
  "reopen_step s s' \<Longrightarrow> rs_stopped s \<Longrightarrow> \<not> rs_timer s \<Longrightarrow> rs_generation s' = rs_generation s \<and> rs_stopped s'"
  by (erule reopen_step_cases) (auto simp: recover_def streams_settled_def reopen_def stop_changes_def)

text \<open>
  However the four streams of each generation end or fail, and whatever their order, at most one
  recovery of the open generation is under way (it waits for the streams or for its timer, never
  both), every reopening closes the connections exactly once, so that no client stays on a stream
  with a gap, and after a stop nothing is ever opened again.
\<close>

theorem reopening_is_orderly:
  assumes "reopen_step\<^sup>*\<^sup>* startDeploymentChangeListener s"
  shows "rs_generation s = Suc (rs_closed_all s) \<and> \<not> (rs_closing s \<and> rs_timer s) \<and>
         (rs_stopped s \<longrightarrow> (\<forall>s'. reopen_step\<^sup>*\<^sup>* s s' \<longrightarrow> rs_generation s' = rs_generation s))"
proof -
  have inv: "reopen_inv s"
    using assms
  proof (induction rule: rtranclp_induct)
    case base show ?case by (auto simp: reopen_inv_def startDeploymentChangeListener_def)
  qed (rule reopen_inv_step)
  have "rs_generation s' = rs_generation s \<and> rs_stopped s' \<and> reopen_inv s'"
    if "reopen_step\<^sup>*\<^sup>* s s'" "rs_stopped s" for s'
    using that
  proof (induction rule: rtranclp_induct)
    case (step t u)
    then have "rs_stopped t" "\<not> rs_timer t" by (simp_all add: reopen_inv_def)
    with step reopen_stopped_step [of t u] reopen_inv_step [of t u] show ?case by simp
  qed (use inv in simp)
  with inv show ?thesis by (auto simp: reopen_inv_def)
qed

theorem reopening_is_orderly_witness:
  "rs_generation (reopen (streams_settled (recover 1 startDeploymentChangeListener))) = 2"
proof -
  let ?s1 = "recover 1 startDeploymentChangeListener" and ?s2 = "streams_settled (recover 1 startDeploymentChangeListener)"
  have "reopen_step startDeploymentChangeListener ?s1" by (rule ended) (simp add: startDeploymentChangeListener_def)
  moreover have "reopen_step ?s1 ?s2" "reopen_step ?s2 (reopen ?s2)" by (rule settled, rule fires)
  ultimately have "reopen_step\<^sup>*\<^sup>* startDeploymentChangeListener (reopen ?s2)"
    by (rule converse_rtranclp_into_rtranclp [OF _ converse_rtranclp_into_rtranclp [OF _ r_into_rtranclp]])
  from reopening_is_orderly [OF this] show ?thesis
    by (simp add: reopen_def streams_settled_def recover_def startDeploymentChangeListener_def)
qed

end
