(* ===== verification/Pagination.thy ===== *)
theory Pagination
  imports Cursor Listeners "HOL-Library.Product_Lexorder"
begin

text \<open>
  Lists in pages (\<open>src/repositories/filters/\<close>): the keyset query of a cursor, the page it
  yields with the cursors of its neighbours, and the Mongo filters built from query parameters.
  A collection is a list of documents with a sort value and an object id; \<open>other\<close> is the
  engine's reading of a date no calendar has.
\<close>

section \<open>Sort values\<close>

text \<open>The store's order: numbers come before dates.\<close>

instantiation sort_value :: linorder
begin

definition less_eq_sort_value :: "sort_value \<Rightarrow> sort_value \<Rightarrow> bool" where
  "less_eq_sort_value a b = (case (a, b) of (SV_date x, SV_date y) \<Rightarrow> x \<le> y
     | (SV_number x, SV_number y) \<Rightarrow> x \<le> y | (SV_number x, SV_date y) \<Rightarrow> True | (SV_date x, SV_number y) \<Rightarrow> False)"

definition less_sort_value :: "sort_value \<Rightarrow> sort_value \<Rightarrow> bool" where
  "less_sort_value a b = (a \<le> b \<and> \<not> b \<le> (a :: sort_value))"

instance
  by standard (auto simp: less_sort_value_def less_eq_sort_value_def split: sort_value.splits)

end

lemma sort_value_less [simp]:
  "SV_date x < SV_date y \<longleftrightarrow> x < y" "SV_number i < SV_number j \<longleftrightarrow> i < j"
  by (auto simp: less_sort_value_def less_eq_sort_value_def)

text \<open>A value in a query. A comparison only matches a field of its own type, and no field holds what
  a cursor can carry beyond dates and numbers.\<close>

datatype query_operand = Q_date ms | Q_number rat | Q_none

fun q_less :: "query_operand \<Rightarrow> sort_value \<Rightarrow> bool" where
  "q_less (Q_date t) (SV_date u) \<longleftrightarrow> t < u"
| "q_less (Q_number x) (SV_number i) \<longleftrightarrow> x < of_int i"
| "q_less _ _ \<longleftrightarrow> False"

fun q_greater :: "query_operand \<Rightarrow> sort_value \<Rightarrow> bool" where
  "q_greater (Q_date t) (SV_date u) \<longleftrightarrow> u < t"
| "q_greater (Q_number x) (SV_number i) \<longleftrightarrow> of_int i < x"
| "q_greater _ _ \<longleftrightarrow> False"

fun q_equal :: "query_operand \<Rightarrow> sort_value \<Rightarrow> bool" where
  "q_equal (Q_date t) (SV_date u) \<longleftrightarrow> u = t"
| "q_equal (Q_number x) (SV_number i) \<longleftrightarrow> of_int i = x"
| "q_equal _ _ \<longleftrightarrow> False"

definition query_value :: "(string \<Rightarrow> ms option) \<Rightarrow> json \<Rightarrow> query_operand" where
  "query_value other v = (case v of
     J_str text \<Rightarrow> if iso_shape text then (case new_date other text of Some t \<Rightarrow> Q_date t | None \<Rightarrow> Q_none) else Q_none
   | J_num x \<Rightarrow> Q_number x
   | _ \<Rightarrow> Q_none)"

text \<open>\<open>new ObjectId(hex)\<close>, which throws on anything but 24 hex digits.\<close>

definition new_object_id :: "string \<Rightarrow> object_id option" where
  "new_object_id text = (if length text = 24 \<and> list_all (\<lambda>c. hex_value c \<noteq> None) text
     then Some (foldl (\<lambda>n c. 16 * n + the (hex_value c)) 0 text) else None)"

section \<open>The query of a cursor\<close>

record 'd keyset_query =
  kq_matches :: "'d \<Rightarrow> bool"
  kq_desc :: bool
  kq_direction :: "cursor_direction option"

record 'd keyed =
  kd_value :: "'d \<Rightarrow> sort_value"
  kd_id :: "'d \<Rightarrow> object_id"

definition generateKeysetQuery ::
  "(string \<Rightarrow> ms option) \<Rightarrow> 'd keyed \<Rightarrow> bool \<Rightarrow> string option \<Rightarrow> 'd keyset_query option" where
  "generateKeysetQuery other kd desc cursor =
     (if \<not> truthy_string cursor then Some \<lparr>kq_matches = (\<lambda>d. True), kq_desc = desc, kq_direction = None\<rparr>
      else (case decodeCursor (the cursor) of
          None \<Rightarrow> None
        | Some c \<Rightarrow> (case new_object_id (cu_id c) of
              None \<Rightarrow> None
            | Some cursorId \<Rightarrow>
                (let v = query_value other (cu_value c);
                     effective = (if cu_direction c = Prev then \<not> desc else desc);
                     beyond = (if effective then q_greater v else q_less v);
                     id_beyond = (\<lambda>i. if effective then i < cursorId else cursorId < i)
                 in Some \<lparr>kq_matches = (\<lambda>d. beyond (kd_value kd d) \<or> (q_equal v (kd_value kd d) \<and> id_beyond (kd_id kd d))),
                      kq_desc = effective, kq_direction = Some (cu_direction c)\<rparr>))))"

section \<open>A page\<close>

record 'd page =
  pg_items :: "'d list"
  pg_next :: "string option"
  pg_prev :: "string option"
  pg_total :: nat

definition cursor_of :: "'d keyed \<Rightarrow> 'd \<Rightarrow> cursor_direction \<Rightarrow> string" where
  "cursor_of kd d dir = encodeCursor (kd_value kd d) (toHexString (kd_id kd d)) dir"

definition buildPaginationMeta ::
  "'d keyed \<Rightarrow> 'd list \<Rightarrow> nat \<Rightarrow> nat \<Rightarrow> bool \<Rightarrow> cursor_direction option \<Rightarrow> 'd page" where
  "buildPaginationMeta kd items limit totalItems hasCursor direction =
     (let hasMoreItems = limit < length items; trimmed = take limit items;
          next = Some (cursor_of kd (last trimmed) Next); prev = Some (cursor_of kd (hd trimmed) Prev);
          (n, p) = (if trimmed = [] then (None, None)
            else if direction = Some Prev then (next, if hasMoreItems then prev else None)
            else (if hasMoreItems then next else None, if hasCursor then prev else None))
      in \<lparr>pg_items = trimmed, pg_next = n, pg_prev = p, pg_total = totalItems\<rparr>)"

text \<open>\<open>find(query).sort({field, _id})\<close>.\<close>

definition in_order :: "'d keyed \<Rightarrow> bool \<Rightarrow> 'd list \<Rightarrow> 'd list" where
  "in_order kd desc ds = (let up = sort_key (\<lambda>d. (kd_value kd d, kd_id kd d)) ds in if desc then rev up else up)"

definition executeKeysetPagination ::
  "(string \<Rightarrow> ms option) \<Rightarrow> 'd keyed \<Rightarrow> ('d \<Rightarrow> bool) \<Rightarrow> bool \<Rightarrow> nat \<Rightarrow> string option \<Rightarrow> 'd list \<Rightarrow> 'd page option" where
  "executeKeysetPagination other kd filters desc limit cursor collection =
     (case generateKeysetQuery other kd desc cursor of
        None \<Rightarrow> None
      | Some q \<Rightarrow>
          (let results = take (limit + 1) (in_order kd (kq_desc q) (filter (\<lambda>d. filters d \<and> kq_matches q d) collection));
               totalItems = count_docs filters collection;
               ordered = (if kq_direction q = Some Prev then rev results else results)
           in Some (buildPaginationMeta kd ordered limit totalItems (truthy_string cursor) (kq_direction q))))"

section \<open>Pages are slices of the ordered list\<close>

text \<open>A collection a cursor can point into: unique 96-bit ids, and sort values of one type, dates
  of the years 1970 to 9999.\<close>

definition datable :: "sort_value \<Rightarrow> bool" where
  "datable v \<longleftrightarrow> (\<exists>t. v = SV_date t \<and> 0 \<le> t \<and> t < 253402300800000)"

definition numeric :: "sort_value \<Rightarrow> bool" where
  "numeric v \<longleftrightarrow> (\<exists>i. v = SV_number i)"

definition pageable :: "'d keyed \<Rightarrow> 'd list \<Rightarrow> bool" where
  "pageable kd ds \<longleftrightarrow> distinct (map (kd_id kd) ds) \<and> (\<forall>d \<in> set ds. kd_id kd d < 16 ^ 24) \<and>
     (list_all (\<lambda>d. datable (kd_value kd d)) ds \<or> list_all (\<lambda>d. numeric (kd_value kd d)) ds)"

abbreviation key_of :: "'d keyed \<Rightarrow> 'd \<Rightarrow> sort_value \<times> object_id" where
  "key_of kd d \<equiv> (kd_value kd d, kd_id kd d)"

definition before :: "'d keyed \<Rightarrow> bool \<Rightarrow> 'd \<Rightarrow> 'd \<Rightarrow> bool" where
  "before kd desc x y \<longleftrightarrow> (if desc then key_of kd y < key_of kd x else key_of kd x < key_of kd y)"

lemma before_swap: "before kd (\<not> desc) x y \<longleftrightarrow> before kd desc y x"
  by (simp add: before_def)

lemma in_order_swap: "in_order kd (\<not> desc) ds = rev (in_order kd desc ds)"
  by (simp add: in_order_def Let_def)

lemma in_order_sorted:
  assumes "distinct (map (kd_id kd) ds)"
  shows "sorted_wrt (before kd desc) (in_order kd desc ds)" "set (in_order kd desc ds) = set ds"
    "length (in_order kd desc ds) = length ds" "distinct (map (kd_id kd) (in_order kd desc ds))"
proof -
  let ?up = "sort_key (key_of kd) ds"
  have d: "distinct (map (kd_id kd) ?up)" using assms by (simp add: distinct_map)
  then have "distinct (map (key_of kd) ?up)" by (auto simp: distinct_map inj_on_def)
  moreover have "sorted (map (key_of kd) ?up)" by simp
  ultimately have "sorted_wrt (<) (map (key_of kd) ?up)" by (simp add: strict_sorted_iff)
  then have up: "sorted_wrt (\<lambda>x y. key_of kd x < key_of kd y) ?up" by (simp only: sorted_wrt_map)
  then show "sorted_wrt (before kd desc) (in_order kd desc ds)"
    by (simp add: in_order_def before_def [abs_def] Let_def sorted_wrt_rev)
  show "set (in_order kd desc ds) = set ds" "length (in_order kd desc ds) = length ds"
    by (simp_all add: in_order_def Let_def)
  show "distinct (map (kd_id kd) (in_order kd desc ds))"
    using d by (simp add: in_order_def Let_def rev_map [symmetric])
qed

lemma in_order_filter: "in_order kd desc (filter P ds) = filter P (in_order kd desc ds)"
  by (simp add: in_order_def Let_def filter_sort [symmetric] rev_filter)

lemma filter_after:
  assumes "sorted_wrt R (xs @ x # ys)" "\<And>a b. R a b \<Longrightarrow> \<not> R b a"
  shows "filter (R x) (xs @ x # ys) = ys"
proof -
  have "filter (R x) xs = []" using assms by (auto simp: sorted_wrt_append filter_empty_conv)
  moreover have "\<not> R x x" using assms(2) by blast
  moreover have "filter (R x) ys = ys" using assms(1) by (auto simp: sorted_wrt_append filter_id_conv)
  ultimately show ?thesis by simp
qed

lemma new_object_id_hex:
  assumes "i < 16 ^ 24" shows "new_object_id (toHexString i) = Some i"
proof -
  have hex: "hex_value (digit_char d) = Some d" if "d < 16" for d
    using that by (simp add: hex_value_def is_hex_digit_char)
  have all: "list_all (\<lambda>c. hex_value c \<noteq> None) (hex_digits k n)" for k n
    by (induction k arbitrary: n) (simp_all add: hex)
  have "foldl (\<lambda>n c. 16 * n + the (hex_value c)) 0 (hex_digits k n) = n" if "n < 16 ^ k" for k n
    using that
  proof (induction k arbitrary: n)
    case (Suc k)
    then have "n div 16 < 16 ^ k" by (simp add: less_mult_imp_div_less mult.commute)
    with Suc.IH show ?case by (simp add: hex)
  qed simp
  from this [of i 24] assms all show ?thesis by (simp add: new_object_id_def toHexString_def)
qed

text \<open>The query of a cursor at \<open>x\<close> selects what lies beyond \<open>x\<close> in the cursor's direction.\<close>

lemma keyset_query_at:
  assumes "pageable kd ds" "x \<in> set ds"
  shows "\<exists>q. generateKeysetQuery other kd desc (Some (cursor_of kd x dir)) = Some q \<and>
    kq_direction q = Some dir \<and> kq_desc q = (if dir = Prev then \<not> desc else desc) \<and>
    (\<forall>d \<in> set ds. kq_matches q d \<longleftrightarrow> before kd (kq_desc q) x d) \<and> truthy_string (Some (cursor_of kd x dir))"
proof -
  let ?v = "kd_value kd x" and ?i = "kd_id kd x"
  have "length (toHexString ?i) = 24" by (simp add: toHexString_def)
  then have ne: "toHexString ?i \<noteq> []" by auto
  note c = cursor_decodes [OF ne, of ?v dir]
  have i: "new_object_id (toHexString ?i) = Some ?i" using assms by (intro new_object_id_hex) (simp add: pageable_def)
  let ?q = "query_value other (sort_json ?v)"
  have q: "(q_less ?q w \<longleftrightarrow> ?v < w) \<and> (q_greater ?q w \<longleftrightarrow> w < ?v) \<and> (q_equal ?q w \<longleftrightarrow> w = ?v)"
    if "datable ?v \<and> datable w \<or> numeric ?v \<and> numeric w" for w
    using that
  proof (elim disjE conjE)
    assume "datable ?v" "datable w"
    then obtain t u where t: "?v = SV_date t" "0 \<le> t" "t < 253402300800000" and u: "w = SV_date u" by (auto simp: datable_def)
    have "?q = Q_date t" using date_roundtrip [OF t(2,3), of other] by (simp add: query_value_def sort_json_def t(1))
    with t(1) u show ?thesis by simp
  next
    assume "numeric ?v" "numeric w"
    then obtain a b where "?v = SV_number a" "w = SV_number b" by (auto simp: numeric_def)
    then show ?thesis by (simp add: query_value_def sort_json_def)
  qed
  have same: "datable ?v \<and> datable (kd_value kd d) \<or> numeric ?v \<and> numeric (kd_value kd d)" if "d \<in> set ds" for d
    using assms that by (auto simp: pageable_def list_all_iff)
  have "cursor_of kd x dir \<noteq> []" using c by (auto simp: cursor_of_def decodeCursor_def of_base64_def JSON_parse_def map_filter_def)
  then have t: "truthy_string (Some (cursor_of kd x dir))" by simp
  then show ?thesis
    using q [OF same] c i by (auto simp: generateKeysetQuery_def cursor_of_def before_def Let_def less_prod_def)
qed

text \<open>The page of a cursor at the k-th of the matching documents, going forwards.\<close>

lemma page_from_start:
  "executeKeysetPagination other kd F desc limit None ds =
     Some (buildPaginationMeta kd (take (limit + 1) (in_order kd desc (filter F ds))) limit (count_docs F ds) False None)"
  by (simp add: executeKeysetPagination_def generateKeysetQuery_def)

lemma page_at_cursor:
  assumes "pageable kd ds" "in_order kd desc (filter F ds) = xs @ x # ys"
  shows "executeKeysetPagination other kd F desc limit (Some (cursor_of kd x dir)) ds =
     Some (buildPaginationMeta kd (if dir = Prev then drop (length xs - (limit + 1)) xs else take (limit + 1) ys)
       limit (count_docs F ds) True (Some dir))"
proof -
  let ?L = "in_order kd desc (filter F ds)"
  have dF: "distinct (map (kd_id kd) (filter F ds))" using assms(1) by (simp add: pageable_def distinct_map_filter)
  note L = in_order_sorted [OF dF]
  have "x \<in> set ?L" using assms(2) by simp
  then have x: "x \<in> set ds" using L(2) by simp
  obtain q where q: "generateKeysetQuery other kd desc (Some (cursor_of kd x dir)) = Some q" "kq_direction q = Some dir"
    "kq_desc q = (if dir = Prev then \<not> desc else desc)" "\<And>d. d \<in> set ds \<Longrightarrow> kq_matches q d \<longleftrightarrow> before kd (kq_desc q) x d"
    "truthy_string (Some (cursor_of kd x dir))"
    using keyset_query_at [OF assms(1) x, of other desc dir] by blast
  have "filter (\<lambda>d. F d \<and> kq_matches q d) ds = filter (before kd (kq_desc q) x) (filter F ds)"
    unfolding filter_filter using q(4) by (intro filter_cong) auto
  then have r: "in_order kd (kq_desc q) (filter (\<lambda>d. F d \<and> kq_matches q d) ds) =
      filter (before kd (kq_desc q) x) (in_order kd (kq_desc q) (filter F ds))" by (simp add: in_order_filter)
  have after: "filter (before kd b x) (us @ x # vs) = vs" if "sorted_wrt (before kd b) (us @ x # vs)" for b us vs
    using that by (rule filter_after) (auto simp: before_def split: if_splits)
  have beyond: "filter (before kd (kq_desc q) x) (in_order kd (kq_desc q) (filter F ds)) = (if dir = Prev then rev xs else ys)"
  proof (cases "dir = Prev")
    case True
    then have "in_order kd (kq_desc q) (filter F ds) = rev ys @ x # rev xs" using assms(2) by (simp add: q(3) in_order_swap)
    moreover from this have "sorted_wrt (before kd (kq_desc q)) (rev ys @ x # rev xs)" using L(1) [of "kq_desc q"] by simp
    ultimately show ?thesis using after True by metis
  next
    case False
    then have "in_order kd (kq_desc q) (filter F ds) = xs @ x # ys" using assms(2) by (simp add: q(3))
    moreover from this have "sorted_wrt (before kd (kq_desc q)) (xs @ x # ys)" using L(1) [of "kq_desc q"] by simp
    ultimately show ?thesis using after False by metis
  qed
  have "rev (take n (rev xs)) = drop (length xs - n) xs" for n by (simp add: rev_take)
  then show ?thesis
    unfolding executeKeysetPagination_def q(1) option.case r beyond using q(2,5) by (cases dir) (simp_all add: Let_def)
qed

text \<open>Following \<open>cursor_next\<close> from the first page.\<close>

fun walk :: "nat \<Rightarrow> (string option \<Rightarrow> 'd page option) \<Rightarrow> string option \<Rightarrow> 'd list option" where
  "walk 0 pages cursor = None"
| "walk (Suc n) pages cursor =
     (case pages cursor of
        None \<Rightarrow> None
      | Some p \<Rightarrow> (case pg_next p of
            None \<Rightarrow> Some (pg_items p)
          | Some c \<Rightarrow> map_option (\<lambda>rest. pg_items p @ rest) (walk n pages (Some c))))"

lemma walk_rest:
  assumes "pageable kd ds" "in_order kd desc (filter F ds) = xs @ ys" "0 < limit" "length ys < n"
    and "\<exists>hasCursor dir. dir \<noteq> Some Prev \<and> executeKeysetPagination other kd F desc limit cursor ds =
      Some (buildPaginationMeta kd (take (limit + 1) ys) limit (count_docs F ds) hasCursor dir)"
  shows "walk n (\<lambda>c. executeKeysetPagination other kd F desc limit c ds) cursor = Some ys"
  using assms(2,4,5)
proof (induction n arbitrary: xs ys cursor)
  case (Suc n)
  let ?pages = "\<lambda>c. executeKeysetPagination other kd F desc limit c ds"
  obtain h dir where page: "?pages cursor = Some (buildPaginationMeta kd (take (limit + 1) ys) limit (count_docs F ds) h dir)" "dir \<noteq> Some Prev"
    using Suc.prems(3) by blast
  show ?case
  proof (cases "length ys \<le> limit")
    case True
    then show ?thesis by (auto simp: page(1) buildPaginationMeta_def Let_def page(2))
  next
    case False
    let ?y = "last (take limit ys)"
    have take: "take limit ys \<noteq> []" using False assms(3) by auto
    then have "take limit ys = butlast (take limit ys) @ [?y]" by simp
    then have ys: "xs @ ys = (xs @ butlast (take limit ys)) @ ?y # drop limit ys"
      by (metis append.assoc append_Cons append_Nil append_take_drop_id)
    have next_page: "?pages (Some (cursor_of kd ?y Next)) =
        Some (buildPaginationMeta kd (take (limit + 1) (drop limit ys)) limit (count_docs F ds) True (Some Next))"
      using page_at_cursor [OF assms(1) Suc.prems(1) [unfolded ys], of other limit Next] by simp
    have "in_order kd desc (filter F ds) = (xs @ take limit ys) @ drop limit ys" using Suc.prems(1) by simp
    moreover have "length (drop limit ys) < n" using Suc.prems(2) False assms(3) by simp
    ultimately have "walk n ?pages (Some (cursor_of kd ?y Next)) = Some (drop limit ys)"
      using next_page by (intro Suc.IH) blast+
    then show ?thesis using False take by (simp add: page(1) buildPaginationMeta_def Let_def page(2) min_def)
  qed
qed simp

text \<open>
  C32: the pages are complete: from the first page, following \<open>cursor_next\<close> as long as there is one
  delivers every matching document exactly once, in the requested order, whatever the page size,
  and ends; the total of every page is their number.
\<close>

theorem next_pages_complete:
  assumes "pageable kd ds" "0 < limit" "length (filter F ds) < n"
  shows "walk n (\<lambda>c. executeKeysetPagination other kd F desc limit c ds) None = Some (in_order kd desc (filter F ds)) \<and>
    sorted_wrt (before kd desc) (in_order kd desc (filter F ds)) \<and>
    set (in_order kd desc (filter F ds)) = {d \<in> set ds. F d} \<and> distinct (in_order kd desc (filter F ds))"
proof -
  have d: "distinct (map (kd_id kd) (filter F ds))" using assms(1) by (simp add: pageable_def distinct_map_filter)
  note L = in_order_sorted [OF d, of desc]
  have "walk n (\<lambda>c. executeKeysetPagination other kd F desc limit c ds) None = Some (in_order kd desc (filter F ds))"
    using walk_rest [OF assms(1) _ assms(2), of desc F "[]" _ n other None] assms(3) L(3) page_from_start [of other kd F desc limit ds]
    by auto
  with L show ?thesis by (simp add: distinct_map)
qed

text \<open>
  Going back skips the neighbours: when more documents than one page holds lie before the
  cursor, \<open>cursor_prev\<close> returns the page that leaves out the one document next to the cursor, and
  so not the page the reader came from; only when they fit in a page is it right.
\<close>

theorem prev_page_skips_neighbour:
  assumes "pageable kd ds" "in_order kd desc (filter F ds) = xs @ x # ys" "0 < limit"
  shows "\<exists>p. executeKeysetPagination other kd F desc limit (Some (cursor_of kd x Prev)) ds = Some p \<and>
    (if length xs \<le> limit then pg_items p = xs
     else pg_items p = butlast (drop (length xs - (limit + 1)) xs) \<and> last xs \<notin> set (pg_items p))"
proof -
  let ?r = "drop (length xs - (limit + 1)) xs"
  let ?p = "buildPaginationMeta kd ?r limit (count_docs F ds) True (Some Prev)"
  have p: "executeKeysetPagination other kd F desc limit (Some (cursor_of kd x Prev)) ds = Some ?p"
    using page_at_cursor [OF assms(1,2), of other limit Prev] by simp
  have items: "pg_items ?p = take limit ?r" by (simp add: buildPaginationMeta_def Let_def split: prod.split)
  have "distinct (map (kd_id kd) (filter F ds))" using assms(1) by (simp add: pageable_def distinct_map_filter)
  then have "distinct xs" using in_order_sorted(4) [of kd "filter F ds" desc] assms(2) by (simp add: distinct_map)
  show ?thesis
  proof (cases "length xs \<le> limit")
    case True
    then show ?thesis using p items by simp
  next
    case False
    have len: "length ?r = limit + 1" using False by simp
    then have e: "take limit ?r = butlast ?r" by (simp add: butlast_conv_take)
    have r: "?r \<noteq> []" using False by simp
    then have "last xs = last ?r" by (simp add: last_drop)
    moreover have "distinct ?r" using \<open>distinct xs\<close> by (rule distinct_drop)
    ultimately have "last xs \<notin> set (butlast ?r)"
      using append_butlast_last_id [OF r] by (metis distinct_append not_distinct_conv_prefix distinct_butlast append_butlast_last_id r)
    then show ?thesis using p items e False by simp
  qed
qed

section \<open>Filters from query parameters\<close>

text \<open>
  A Mongo filter is the keys of an object in order. A document is the values found at a path (none
  where it is missing, several in a list). \<open>C_regex\<close> is a case-insensitive pattern.
\<close>

datatype mongo_cond = C_is fval | C_in "fval list" | C_range "ms option" "ms option" | C_missing | C_regex string

datatype mongo_entry = E_field mongo_cond | E_or "(string \<times> mongo_cond) list"

type_synonym mongo_filter = "(string \<times> mongo_entry) list"

fun split_commas :: "string \<Rightarrow> string list" where
  "split_commas [] = [[]]"
| "split_commas (c # r) = (if c = CHR '','' then [] # split_commas r
     else (case split_commas r of w # ws \<Rightarrow> (c # w) # ws | [] \<Rightarrow> [[c]]))"

definition trim :: "string \<Rightarrow> string" where
  "trim text = rev (dropWhile is_space (rev (dropWhile is_space text)))"

definition parseMultiValue :: "string \<Rightarrow> string list" where
  "parseMultiValue value = map trim (split_commas value)"

definition is_or_in :: "string \<Rightarrow> fval list \<Rightarrow> mongo_filter" where
  "is_or_in field vs = [(field, E_field (case vs of [v] \<Rightarrow> C_is v | _ \<Rightarrow> C_in vs))]"

definition buildDateRangeFilter :: "(string \<Rightarrow> ms) \<Rightarrow> string \<Rightarrow> string option \<Rightarrow> string option \<Rightarrow> mongo_filter option" where
  "buildDateRangeFilter date field created_after created_before =
     (if \<not> truthy_string created_after \<and> \<not> truthy_string created_before then None
      else Some [(field, E_field (C_range (if truthy_string created_after then map_option date created_after else None)
        (if truthy_string created_before then map_option date created_before else None)))])"

definition buildMultiValueFilter :: "string \<Rightarrow> string option \<Rightarrow> mongo_filter option" where
  "buildMultiValueFilter field value =
     (if \<not> truthy_string value then None else Some (is_or_in field (map V_string (parseMultiValue (the value)))))"

definition buildNestedMultiValueFilter :: "string \<Rightarrow> string option \<Rightarrow> bool \<Rightarrow> mongo_filter option" where
  "buildNestedMultiValueFilter path value noneMeansMissing =
     (if \<not> truthy_string value then None
      else (let all = parseMultiValue (the value);
                vs = (if noneMeansMissing then filter (\<lambda>v. v \<noteq> ''none'') all else all);
                missing = (noneMeansMissing \<and> length vs < length all);
                present = (case vs of [] \<Rightarrow> None | [v] \<Rightarrow> Some (C_is (V_string v)) | _ \<Rightarrow> Some (C_in (map V_string vs)))
            in if \<not> missing then map_option (\<lambda>c. [(path, E_field c)]) present
               else (case present of
                   Some c \<Rightarrow> Some [(''$or'', E_or [(path, c), (path, C_missing)])]
                 | None \<Rightarrow> Some [(path, E_field C_missing)])))"

definition buildMarketFilter :: "string \<Rightarrow> string option \<Rightarrow> mongo_filter option" where
  "buildMarketFilter field value =
     (if \<not> truthy_string value then None
      else Some (is_or_in field (map (\<lambda>v. if v = ''none'' then V_null else V_string v) (parseMultiValue (the value)))))"

definition buildSingleValueFilter :: "string \<Rightarrow> fval option \<Rightarrow> mongo_filter option" where
  "buildSingleValueFilter field value = map_option (\<lambda>v. [(field, E_field (C_is v))]) value"

definition regex_special :: "char \<Rightarrow> bool" where
  "regex_special c \<longleftrightarrow> c \<in> set ''.*+?^${}()|[]'' \<or> c = CHR 0x5C"

definition escape_regex :: "string \<Rightarrow> string" where
  "escape_regex term = concat (map (\<lambda>c. if regex_special c then [CHR 0x5C, c] else [c]) term)"

definition buildPartialMatchFilter :: "string list \<Rightarrow> string option \<Rightarrow> mongo_filter option" where
  "buildPartialMatchFilter paths searchTerm =
     (if \<not> truthy_string searchTerm \<or> trim (the searchTerm) = [] then None
      else Some [(''$or'', E_or (map (\<lambda>field. (field, C_regex (escape_regex (the searchTerm)))) paths))])"

text \<open>\<open>Object.assign\<close>: a key that is there takes the new value in its old place.\<close>

fun assign_key :: "string \<Rightarrow> 'v \<Rightarrow> (string \<times> 'v) list \<Rightarrow> (string \<times> 'v) list" where
  "assign_key k v [] = [(k, v)]"
| "assign_key k v ((k', v') # r) = (if k = k' then (k, v) # r else (k', v') # assign_key k v r)"

definition combineFilters :: "mongo_filter option list \<Rightarrow> mongo_filter" where
  "combineFilters filters = fold (\<lambda>(k, v). assign_key k v) (concat (List.map_filter id filters)) []"

section \<open>What a filter selects\<close>

fun pattern_text :: "string \<Rightarrow> string option" where
  "pattern_text [] = Some []"
| "pattern_text (c # r) =
     (if c = CHR 0x5C then (case r of x # r' \<Rightarrow> if regex_special x then map_option (\<lambda>t. x # t) (pattern_text r') else None | [] \<Rightarrow> None)
      else if regex_special c then None else map_option (\<lambda>t. c # t) (pattern_text r))"

text \<open>A pattern of escaped and ordinary characters is found as its text, ASCII case aside.\<close>

definition regex_found :: "string \<Rightarrow> string \<Rightarrow> bool" where
  "regex_found pattern s = (case pattern_text pattern of
     Some t \<Rightarrow> str_includes (map lower_char s) (map lower_char t) | None \<Rightarrow> False)"

definition value_is :: "fval list \<Rightarrow> fval \<Rightarrow> bool" where
  "value_is vs v \<longleftrightarrow> v \<in> set vs \<or> (v = V_null \<and> vs = [])"

definition in_range :: "ms option \<Rightarrow> ms option \<Rightarrow> fval \<Rightarrow> bool" where
  "in_range lo hi v \<longleftrightarrow> (case v of
     V_date t \<Rightarrow> (case lo of None \<Rightarrow> True | Some a \<Rightarrow> a \<le> t) \<and> (case hi of None \<Rightarrow> True | Some b \<Rightarrow> t \<le> b) | _ \<Rightarrow> False)"

fun cond_holds :: "fval list \<Rightarrow> mongo_cond \<Rightarrow> bool" where
  "cond_holds vs (C_is v) \<longleftrightarrow> value_is vs v"
| "cond_holds vs (C_in ws) \<longleftrightarrow> list_ex (value_is vs) ws"
| "cond_holds vs (C_range lo hi) \<longleftrightarrow> list_ex (in_range lo hi) vs"
| "cond_holds vs C_missing \<longleftrightarrow> vs = []"
| "cond_holds vs (C_regex p) \<longleftrightarrow> list_ex (\<lambda>v. case v of V_string s \<Rightarrow> regex_found p s | _ \<Rightarrow> False) vs"

fun entry_holds :: "(string \<Rightarrow> fval list) \<Rightarrow> string \<times> mongo_entry \<Rightarrow> bool" where
  "entry_holds doc (k, E_field c) \<longleftrightarrow> cond_holds (doc k) c"
| "entry_holds doc (k, E_or alts) \<longleftrightarrow> list_ex (\<lambda>(path, c). cond_holds (doc path) c) alts"

definition filter_holds :: "(string \<Rightarrow> fval list) \<Rightarrow> mongo_filter \<Rightarrow> bool" where
  "filter_holds doc f \<longleftrightarrow> list_all (entry_holds doc) f"

section \<open>The list of deployments (\<open>router/routes/get/deployments/list.ts\<close>)\<close>

record deployments_query =
  dq_search :: "string option"
  dq_status :: "string option"
  dq_strategy :: "string option"
  dq_id :: "string option"
  dq_name :: "string option"
  dq_idempotency_key :: "string option"
  dq_vault :: "string option"
  dq_market :: "string option"
  dq_gpu :: "string option"
  dq_created_after :: "string option"
  dq_created_before :: "string option"

definition deployments_filters :: "(string \<Rightarrow> ms) \<Rightarrow> string \<Rightarrow> deployments_query \<Rightarrow> mongo_filter option list" where
  "deployments_filters date userId q =
     [Some [(''owner'', E_field (C_is (V_string userId)))],
      buildPartialMatchFilter [''id'', ''name''] (dq_search q),
      buildMultiValueFilter ''status'' (dq_status q),
      buildMultiValueFilter ''strategy'' (dq_strategy q),
      buildMultiValueFilter ''id'' (dq_id q),
      buildSingleValueFilter ''name'' (map_option V_string (dq_name q)),
      buildSingleValueFilter ''idempotency_key'' (map_option V_string (dq_idempotency_key q)),
      buildSingleValueFilter ''vault'' (map_option V_string (dq_vault q)),
      buildMarketFilter ''market'' (dq_market q),
      buildNestedMultiValueFilter ''requirements.name'' (dq_gpu q) True,
      buildDateRangeFilter date ''created_at'' (dq_created_after q) (dq_created_before q)]"

definition deployments_filter :: "(string \<Rightarrow> ms) \<Rightarrow> string \<Rightarrow> deployments_query \<Rightarrow> mongo_filter" where
  "deployments_filter date userId q = combineFilters (deployments_filters date userId q)"

text \<open>A deployment's fields by path; \<open>gpus\<close> is what its requirements name.\<close>

definition deployment_paths :: "(deployment_document \<Rightarrow> string list) \<Rightarrow> deployment_document \<Rightarrow> string \<Rightarrow> fval list" where
  "deployment_paths gpus d path =
     (if path = ''owner'' then [V_string (d_owner d)] else if path = ''id'' then [V_string (d_id d)]
      else if path = ''name'' then [V_string (d_name d)] else if path = ''status'' then [V_string (status_name (d_status d))]
      else if path = ''strategy'' then [V_string (strategy_name (d_strategy d))]
      else if path = ''idempotency_key'' then (case d_idempotency_key d of Some k \<Rightarrow> [V_string k] | None \<Rightarrow> [])
      else if path = ''vault'' then [V_string (d_vault d)]
      else if path = ''market'' then [case d_market d of Some m \<Rightarrow> V_string m | None \<Rightarrow> V_null]
      else if path = ''requirements.name'' then map V_string (gpus d)
      else if path = ''created_at'' then [V_date (d_created_at d)] else [])"

definition deployment_keyed :: "(deployment_document \<Rightarrow> object_id) \<Rightarrow> deployment_document keyed" where
  "deployment_keyed oid = \<lparr>kd_value = (\<lambda>d. SV_date (d_created_at d)), kd_id = oid\<rparr>"

text \<open>The page with the running jobs of each deployment; None is the answer 500.\<close>

definition deploymentsHandler ::
  "(string \<Rightarrow> ms option) \<Rightarrow> (string \<Rightarrow> ms) \<Rightarrow> (deployment_document \<Rightarrow> string list) \<Rightarrow> (deployment_document \<Rightarrow> object_id) \<Rightarrow>
    string \<Rightarrow> deployments_query \<Rightarrow> bool \<Rightarrow> nat \<Rightarrow> string option \<Rightarrow> db \<Rightarrow> (deployment_document page \<times> nat list) option" where
  "deploymentsHandler other date gpus oid userId q desc limit cursor s =
     map_option (\<lambda>p. (p, map (\<lambda>d. count_docs (\<lambda>j. j_deployment j = d_id d \<and> j_state j = J_RUNNING) (db_jobs s)) (pg_items p)))
       (executeKeysetPagination other (deployment_keyed oid)
         (\<lambda>d. filter_holds (deployment_paths gpus d) (deployments_filter date userId q)) desc limit cursor (db_deployments s))"

section \<open>A list filter means its parts\<close>

lemma pattern_escape: "pattern_text (escape_regex t) = Some t"
  by (induction t) (auto simp: escape_regex_def regex_special_def)

lemma assign_key_map:
  "distinct (map fst xs) \<Longrightarrow> distinct (map fst (assign_key k v xs)) \<and> map_of (assign_key k v xs) = (map_of xs)(k \<mapsto> v) \<and>
     set (map fst (assign_key k v xs)) = insert k (set (map fst xs))"
  by (induction xs rule: assign_key.induct) (auto simp: fun_eq_iff)

lemma assign_all:
  "distinct (map fst acc) \<Longrightarrow> distinct (map fst (fold (\<lambda>(k, v). assign_key k v) xs acc)) \<and>
     map_of (fold (\<lambda>(k, v). assign_key k v) xs acc) = map_of acc ++ map_of (rev xs)"
proof (induction xs arbitrary: acc)
  case (Cons x xs)
  obtain k v where x: "x = (k, v)" by (rule prod.exhaust)
  show ?case using assign_key_map [OF Cons.prems, of k v] Cons.IH [of "assign_key k v acc"] by (intro conjI ext) (simp_all add: x map_add_def split: option.split)
qed simp

definition entries :: "mongo_filter option list \<Rightarrow> mongo_filter" where
  "entries filters = concat (List.map_filter id filters)"

lemma entries_simps [simp]:
  "entries [] = []" "entries (None # fs) = entries fs" "entries (Some f # fs) = f @ entries fs"
  "entries (fs @ gs) = entries fs @ entries gs"
  by (simp_all add: entries_def map_filter_def)

lemma entries_Cons: "entries (f # fs) = (case f of None \<Rightarrow> [] | Some g \<Rightarrow> g) @ entries fs"
  by (cases f) simp_all

lemma holds_map:
  assumes "distinct (map fst f)"
  shows "filter_holds doc f \<longleftrightarrow> (\<forall>k e. map_of f k = Some e \<longrightarrow> entry_holds doc (k, e))"
  unfolding map_of_eq_Some_iff [OF assms] by (auto simp: filter_holds_def list_all_iff)

lemma combined_holds:
  "filter_holds doc (combineFilters filters) \<longleftrightarrow>
     (\<forall>k e. map_of (rev (entries filters)) k = Some e \<longrightarrow> entry_holds doc (k, e))"
proof -
  let ?c = "combineFilters filters"
  have "distinct (map fst ?c) \<and> map_of ?c = map_of (rev (entries filters))"
    using assign_all [of "[]"] by (simp add: combineFilters_def entries_def)
  with holds_map [of ?c doc] show ?thesis by simp
qed

lemma entries_keys:
  "list_all2 (\<lambda>f k. f = None \<or> (\<exists>e. f = Some [(k, e)])) fs ks \<Longrightarrow> distinct ks \<Longrightarrow>
     distinct (map fst (entries fs)) \<and> set (map fst (entries fs)) \<subseteq> set ks"
proof (induction fs arbitrary: ks)
  case (Cons f fs)
  then obtain k ks' where ks: "ks = k # ks'" by (cases ks) auto
  have "distinct (map fst (entries fs)) \<and> set (map fst (entries fs)) \<subseteq> set ks'"
    using Cons.prems by (intro Cons.IH) (simp_all add: ks)
  with Cons.prems show ?case by (auto simp: ks image_subset_iff)
qed simp

text \<open>Whether the query searches, and whether its GPUs mix \<open>none\<close> with models.\<close>

definition searches :: "deployments_query \<Rightarrow> bool" where
  "searches q \<longleftrightarrow> buildPartialMatchFilter [''id'', ''name''] (dq_search q) \<noteq> None"

definition mixes_none :: "deployments_query \<Rightarrow> bool" where
  "mixes_none q \<longleftrightarrow> truthy_string (dq_gpu q) \<and> ''none'' \<in> set (parseMultiValue (the (dq_gpu q))) \<and>
     (\<exists>v \<in> set (parseMultiValue (the (dq_gpu q))). v \<noteq> ''none'')"

definition part_holds :: "(string \<Rightarrow> fval list) \<Rightarrow> mongo_filter option \<Rightarrow> bool" where
  "part_holds doc f \<longleftrightarrow> (case f of None \<Rightarrow> True | Some g \<Rightarrow> filter_holds doc g)"

lemma entries_hold: "filter_holds doc (entries fs) \<longleftrightarrow> list_all (part_holds doc) fs"
proof (induction fs)
  case (Cons f fs)
  then show ?case by (cases f) (simp_all add: part_holds_def filter_holds_def)
qed (simp add: filter_holds_def)

lemma one_key:
  "buildMultiValueFilter k v = None \<or> (\<exists>e. buildMultiValueFilter k v = Some [(k, e)])"
  "buildSingleValueFilter k w = None \<or> (\<exists>e. buildSingleValueFilter k w = Some [(k, e)])"
  "buildMarketFilter k v = None \<or> (\<exists>e. buildMarketFilter k v = Some [(k, e)])"
  "buildDateRangeFilter date k v v' = None \<or> (\<exists>e. buildDateRangeFilter date k v v' = Some [(k, e)])"
  by (simp add: buildMultiValueFilter_def is_or_in_def, cases w, simp_all add: buildSingleValueFilter_def
    buildMarketFilter_def buildDateRangeFilter_def is_or_in_def)

lemma search_key: "buildPartialMatchFilter ks v = None \<or> (\<exists>e. buildPartialMatchFilter ks v = Some [(''$or'', e)])"
  by (simp add: buildPartialMatchFilter_def)

lemma shorter_filter: "length (filter P xs) < length xs \<longleftrightarrow> (\<exists>x \<in> set xs. \<not> P x)"
  by (induction xs) (auto simp: less_Suc_eq_le length_filter_le)

lemma gpu_key:
  "buildNestedMultiValueFilter path (dq_gpu q) True = None \<or>
   (\<exists>e. buildNestedMultiValueFilter path (dq_gpu q) True = Some [(if mixes_none q then ''$or'' else path, e)])"
proof -
  let ?all = "parseMultiValue (the (dq_gpu q))"
  let ?vs = "filter (\<lambda>v. v \<noteq> ''none'') ?all"
  have missing: "length ?vs < length ?all \<longleftrightarrow> ''none'' \<in> set ?all" by (auto simp: shorter_filter)
  have "?vs = [] \<longleftrightarrow> \<not> (\<exists>v \<in> set ?all. v \<noteq> ''none'')" by (auto simp: filter_empty_conv)
  note facts = missing this
  have f: "buildNestedMultiValueFilter path (dq_gpu q) True =
      (if \<not> truthy_string (dq_gpu q) then None
       else if ''none'' \<notin> set ?all then map_option (\<lambda>c. [(path, E_field c)]) (case ?vs of [] \<Rightarrow> None | [v] \<Rightarrow> Some (C_is (V_string v)) | _ \<Rightarrow> Some (C_in (map V_string ?vs)))
       else (case (case ?vs of [] \<Rightarrow> None | [v] \<Rightarrow> Some (C_is (V_string v)) | _ \<Rightarrow> Some (C_in (map V_string ?vs))) of
           Some c \<Rightarrow> Some [(''$or'', E_or [(path, c), (path, C_missing)])] | None \<Rightarrow> Some [(path, E_field C_missing)]))"
    unfolding buildNestedMultiValueFilter_def Let_def by (simp only: missing if_True simp_thms if_not_P not_not split: if_split)
  show ?thesis
  proof (cases "?vs = []")
    case True
    with facts show ?thesis unfolding f True by (auto simp: mixes_none_def)
  next
    case False
    then obtain c where c: "(case ?vs of [] \<Rightarrow> None | [v] \<Rightarrow> Some (C_is (V_string v)) | _ \<Rightarrow> Some (C_in (map V_string ?vs))) = Some c"
      by (cases ?vs; cases "tl ?vs") simp_all
    from False facts show ?thesis unfolding f c by (simp add: mixes_none_def)
  qed
qed

text \<open>
  A list of deployments is filtered by everything that was asked for: unless a search comes
  together with GPUs that mix \<open>none\<close> and models, the combined filter selects exactly the owner's
  deployments that every given parameter selects.
\<close>

theorem list_filter_conjoins:
  assumes "\<not> (searches q \<and> mixes_none q)"
  shows "filter_holds doc (deployments_filter date userId q) \<longleftrightarrow>
    list_all (part_holds doc) (deployments_filters date userId q)"
proof -
  let ?fs = "deployments_filters date userId q"
  let ?or = "if searches q then ''$or'' else ''-''"
  have search: "buildPartialMatchFilter [''id'', ''name''] (dq_search q) = None \<or>
      (\<exists>e. buildPartialMatchFilter [''id'', ''name''] (dq_search q) = Some [(?or, e)])"
    using search_key by (auto simp: searches_def)
  have "list_all2 (\<lambda>f k. f = None \<or> (\<exists>e. f = Some [(k, e)])) ?fs
      [''owner'', ?or, ''status'', ''strategy'', ''id'', ''name'', ''idempotency_key'', ''vault'', ''market'',
       if mixes_none q then ''$or'' else ''requirements.name'', ''created_at'']"
    unfolding deployments_filters_def by (intro list.rel_intros search gpu_key one_key) simp
  moreover have "distinct [''owner'', ?or, ''status'', ''strategy'', ''id'', ''name'', ''idempotency_key'', ''vault'', ''market'',
       if mixes_none q then ''$or'' else ''requirements.name'', ''created_at'']"
    using assms by auto
  ultimately have d: "distinct (map fst (entries ?fs))" using entries_keys by blast
  then have "map_of (rev (entries ?fs)) = map_of (entries ?fs)"
    by (simp add: map_of_inject_set rev_map [symmetric])
  then have "filter_holds doc (deployments_filter date userId q) \<longleftrightarrow> filter_holds doc (entries ?fs)"
    using holds_map [OF d, of doc] by (simp add: deployments_filter_def combined_holds)
  then show ?thesis by (simp add: entries_hold)
qed

text \<open>
  A search is lost to a GPU filter that mixes \<open>none\<close> with models: both are an \<open>$or\<close> of
  the one query object, the later replaces the earlier, and the list is what it is without the
  search.
\<close>

theorem gpu_filter_drops_search:
  assumes "mixes_none q"
  shows "filter_holds doc (deployments_filter date userId q) \<longleftrightarrow>
    filter_holds doc (deployments_filter date userId (q\<lparr>dq_search := None\<rparr>))"
proof -
  let ?gpu = "buildNestedMultiValueFilter ''requirements.name'' (dq_gpu q) True"
  let ?B = "[buildMultiValueFilter ''status'' (dq_status q), buildMultiValueFilter ''strategy'' (dq_strategy q),
      buildMultiValueFilter ''id'' (dq_id q), buildSingleValueFilter ''name'' (map_option V_string (dq_name q)),
      buildSingleValueFilter ''idempotency_key'' (map_option V_string (dq_idempotency_key q)),
      buildSingleValueFilter ''vault'' (map_option V_string (dq_vault q)), buildMarketFilter ''market'' (dq_market q),
      ?gpu, buildDateRangeFilter date ''created_at'' (dq_created_after q) (dq_created_before q)]"
  let ?o = "Some [(''owner'', E_field (C_is (V_string userId)))]"
  have gpu: "\<exists>e. ?gpu = Some [(''$or'', e)]"
  proof -
    have "?gpu \<noteq> None" using assms
      by (auto simp: buildNestedMultiValueFilter_def Let_def mixes_none_def shorter_filter split: list.splits)
    then show ?thesis using gpu_key [of "''requirements.name''" q] assms by auto
  qed
  then have "''$or'' \<in> set (map fst (entries ?B))" by (auto simp: entries_Cons simp del: entries_simps(2,3))
  then have "''$or'' \<in> dom (map_of (rev (entries ?B)))" by (simp add: dom_map_of_conv_image_fst)
  then have drop: "map_of (rev (x # (''$or'', e) # entries ?B)) = map_of (rev (x # entries ?B))" for x e
    by (auto simp: map_add_def fun_eq_iff split: option.split)
  then have "map_of (rev (entries (?o # f # ?B))) = map_of (rev (entries (?o # None # ?B)))"
    if "f = None \<or> (\<exists>e. f = Some [(''$or'', e)])" for f
    using that by (elim disjE exE) (simp_all only: entries_simps append.simps)
  then show ?thesis
    using search_key by (simp add: deployments_filter_def combined_holds deployments_filters_def buildPartialMatchFilter_def)
qed

text \<open>
  A search is literal: whatever characters it has, the filter finds it as its own text, in the
  id or the name, ASCII case aside; a blank search is no filter.
\<close>

theorem search_is_literal:
  "part_holds (deployment_paths gpus d) (buildPartialMatchFilter [''id'', ''name''] search) \<longleftrightarrow>
     search = None \<or> trim (the search) = [] \<or>
     (\<exists>field \<in> {d_id d, d_name d}. \<exists>pre post. map lower_char field = pre @ map lower_char (the search) @ post)"
proof (cases "search = None \<or> trim (the search) = []")
  case True
  then show ?thesis by (auto simp: buildPartialMatchFilter_def part_holds_def)
next
  case False
  then obtain t where t: "search = Some t" by (cases search) auto
  from False have "truthy_string search" by (auto simp: truthy_string_def nullish_def trim_def)
  with False have "buildPartialMatchFilter [''id'', ''name''] search =
      Some [(''$or'', E_or (map (\<lambda>field. (field, C_regex (escape_regex (the search)))) [''id'', ''name'']))]"
    by (simp add: buildPartialMatchFilter_def)
  with False show ?thesis
    by (simp add: t part_holds_def filter_holds_def deployment_paths_def regex_found_def pattern_escape str_includes_iff)
qed

text \<open>
  Only a cursor can spoil a list: a page is refused exactly when its cursor does not decode or
  names no object id; without one there is always a page, and its total counts every match.
\<close>

theorem only_bad_cursors_fail:
  "(executeKeysetPagination other kd F desc limit cursor ds = None \<longleftrightarrow>
      truthy_string cursor \<and> Option.bind (decodeCursor (the cursor)) (\<lambda>c. new_object_id (cu_id c)) = None) \<and>
   map_option pg_total (executeKeysetPagination other kd F desc limit cursor ds) \<in> {None, Some (count_docs F ds)} \<and>
   map_option (\<lambda>p. length (pg_items p) \<le> limit) (executeKeysetPagination other kd F desc limit cursor ds) \<in> {None, Some True}"
  by (auto simp: executeKeysetPagination_def generateKeysetQuery_def buildPaginationMeta_def Let_def
    split: option.splits if_splits)

section \<open>The theorems on examples\<close>

definition numbered :: "nat keyed" where
  "numbered = \<lparr>kd_value = (\<lambda>n. SV_number (int n)), kd_id = (\<lambda>n. n)\<rparr>"

lemma numbered_facts:
  "pageable numbered [2, 3, 1]" "in_order numbered False (filter (\<lambda>n. True) [2, 3, 1]) = [1, 2, 3]"
  by (simp_all add: pageable_def numbered_def numeric_def in_order_def Let_def less_eq_sort_value_def less_prod_def less_eq_prod_def
    insort_key.simps)

theorem next_pages_complete_witness:
  "walk 4 (\<lambda>c. executeKeysetPagination (\<lambda>_. None) numbered (\<lambda>n. True) False 2 c [2, 3, 1]) None = Some [1, 2, 3]"
  using next_pages_complete [OF numbered_facts(1), of 2 "\<lambda>n. True" 4 "\<lambda>_. None" False] numbered_facts(2) by simp

theorem prev_page_skips_neighbour_witness:
  "\<exists>p. executeKeysetPagination (\<lambda>_. None) numbered (\<lambda>n. True) False 1 (Some (cursor_of numbered 3 Prev)) [2, 3, 1] = Some p \<and>
     pg_items p = [1]"
  using prev_page_skips_neighbour [OF numbered_facts(1), of False "\<lambda>n. True" "[1, 2]" 3 "[]" 1 "\<lambda>_. None"] numbered_facts(2)
  by auto

definition any_deployment :: deployments_query where
  "any_deployment = \<lparr>dq_search = None, dq_status = None, dq_strategy = None, dq_id = None, dq_name = None,
     dq_idempotency_key = None, dq_vault = None, dq_market = None, dq_gpu = None, dq_created_after = None,
     dq_created_before = None\<rparr>"

theorem list_filter_conjoins_witness:
  "filter_holds (deployment_paths (\<lambda>d. []) (blank_deployment ''d1'' ''o'' RUNNING))
     (deployments_filter (\<lambda>t. 0) ''o'' (any_deployment\<lparr>dq_status := Some ''RUNNING, DRAFT'', dq_market := Some ''none''\<rparr>))"
proof -
  let ?q = "any_deployment\<lparr>dq_status := Some ''RUNNING, DRAFT'', dq_market := Some ''none''\<rparr>"
  have "\<not> (searches ?q \<and> mixes_none ?q)" by (simp add: searches_def buildPartialMatchFilter_def any_deployment_def)
  from list_filter_conjoins [OF this, of "deployment_paths (\<lambda>d. []) (blank_deployment ''d1'' ''o'' RUNNING)" "\<lambda>t. 0" "''o''"]
  show ?thesis
    by (simp add: deployments_filters_def any_deployment_def part_holds_def filter_holds_def deployment_paths_def value_is_def
      buildPartialMatchFilter_def buildMultiValueFilter_def buildSingleValueFilter_def buildMarketFilter_def
      buildNestedMultiValueFilter_def buildDateRangeFilter_def is_or_in_def parseMultiValue_def trim_def is_space_def
      status_name_def blank_deployment_def)
qed

theorem gpu_filter_drops_search_witness:
  "filter_holds (deployment_paths (\<lambda>d. [''A'']) (blank_deployment ''d1'' ''o'' RUNNING))
     (deployments_filter (\<lambda>t. 0) ''o'' (any_deployment\<lparr>dq_search := Some ''xyz'', dq_gpu := Some ''none,A''\<rparr>)) =
   filter_holds (deployment_paths (\<lambda>d. [''A'']) (blank_deployment ''d1'' ''o'' RUNNING))
     (deployments_filter (\<lambda>t. 0) ''o'' (any_deployment\<lparr>dq_gpu := Some ''none,A''\<rparr>))"
proof -
  have "mixes_none (any_deployment\<lparr>dq_search := Some ''xyz'', dq_gpu := Some ''none,A''\<rparr>)"
    by (simp add: mixes_none_def parseMultiValue_def trim_def is_space_def)
  from gpu_filter_drops_search [OF this, of "deployment_paths (\<lambda>d. [''A'']) (blank_deployment ''d1'' ''o'' RUNNING)" "\<lambda>t. 0" "''o''"]
  show ?thesis by (simp add: any_deployment_def)
qed

end
