(* ===== verification/Deployment_Factory.thy ===== *)
theory Deployment_Factory
  imports Pagination "HOL-Library.List_Lexorder"
begin

text \<open>
  Building deployments and revisions (\<open>src/router/routes/post/deployments/create/deploymentCreate.factory.ts\<close>,
  \<open>src/ssh/jobDefinition.ts\<close>) and resolving the vault they use
  (\<open>src/router/routes/post/vaults/createSharedVault/createSharedVaultFactory.ts\<close>). What the
  program calls in \<open>@nosana/kit\<close> (hashes, IPFS pins, the \<open>ssh\<close> block of a definition, keys)
  is the record \<open>route_kit\<close>, with the configuration the routes read.
\<close>

record route_kit =
  rk_createHash :: "string \<Rightarrow> string"
  rk_getExposeIdHash :: "string \<Rightarrow> string \<Rightarrow> port \<Rightarrow> string"
  rk_exposedPortCount :: "operation \<Rightarrow> nat"
  rk_pin :: "job_definition \<Rightarrow> string option"
  rk_getSshPublicKeys :: "job_definition \<Rightarrow> string list"
  rk_withSshPublicKeys :: "job_definition \<Rightarrow> string list \<Rightarrow> job_definition"
  rk_getSshKeyIdentity :: "string \<Rightarrow> string"
  rk_isValidSshPublicKey :: "string \<Rightarrow> bool"
  rk_requireSshPublicKeySet :: "string list \<Rightarrow> string option"
  rk_validateJobDefinition :: "job_definition \<Rightarrow> (string \<times> string) list"
  rk_frps_public_address :: string
  rk_confidential_by_default :: bool
  rk_confidential_ipfs_pin :: string
  rk_confidential_definition :: job_definition
  rk_default_minutes :: int

section \<open>SSH keys in a definition\<close>

text \<open>The keys the definition carried (none is no keys at all) and the definition without them.\<close>

definition extractSsh :: "route_kit \<Rightarrow> job_definition \<Rightarrow> job_definition \<times> string list option" where
  "extractSsh kit jd =
     (let keys = map trim (rk_getSshPublicKeys kit jd)
      in (rk_withSshPublicKeys kit jd [], if keys = [] then None else Some keys))"

definition injectSsh :: "route_kit \<Rightarrow> job_definition \<Rightarrow> string list option \<Rightarrow> job_definition" where
  "injectSsh kit jd public_keys = rk_withSshPublicKeys kit jd (nullish public_keys [])"

text \<open>The kit's checks: a set of keys it does not accept gives the message of what it throws, and a
  definition the paths (from \<open>$input\<close>) and the types it expected there.\<close>

fun first_index :: "('a \<Rightarrow> bool) \<Rightarrow> 'a list \<Rightarrow> nat option" where
  "first_index P [] = None"
| "first_index P (x # xs) = (if P x then Some 0 else map_option Suc (first_index P xs))"

definition validateSshPublicKeys :: "route_kit \<Rightarrow> string list \<Rightarrow> string option" where
  "validateSshPublicKeys kit keys =
     (case first_index (\<lambda>key. \<not> rk_isValidSshPublicKey kit key) keys of
        Some invalid \<Rightarrow> Some (''public_keys['' @ show_nat invalid @
          ''] is not a valid OpenSSH public key (expected \"<algorithm> <base64> [comment]\").'')
      | None \<Rightarrow> rk_requireSshPublicKeySet kit keys)"

definition validateJobDefinitionSshKeys :: "route_kit \<Rightarrow> job_definition \<Rightarrow> string option" where
  "validateJobDefinitionSshKeys kit jd =
     (if jd_ssh_public_keys jd = None then None
      else validateSshPublicKeys kit (map trim (rk_getSshPublicKeys kit jd)))"

definition jobDefinitionErrors :: "route_kit \<Rightarrow> string \<Rightarrow> job_definition \<Rightarrow> string list" where
  "jobDefinitionErrors kit name jd =
     (if rk_validateJobDefinition kit jd \<noteq> []
      then map (\<lambda>(path, expected). (if starts_with path ''$input'' then name @ drop 6 path else path)
             @ '': expected '' @ expected) (rk_validateJobDefinition kit jd)
      else case validateJobDefinitionSshKeys kit jd of
             Some sshError \<Rightarrow> [name @ ''.ssh.public_keys: '' @ sshError] | None \<Rightarrow> [])"

section \<open>Endpoints\<close>

definition falsy_port :: "port \<Rightarrow> bool" where
  "falsy_port p \<longleftrightarrow> p = Port_number 0 \<or> p = Port_text []"

definition entry_port :: "expose_entry \<Rightarrow> port option" where
  "entry_port e = (case e of Entry_port p \<Rightarrow> Some p | Entry_service p \<Rightarrow> p)"

definition exposed_endpoint :: "route_kit \<Rightarrow> string \<Rightarrow> operation \<Rightarrow> port \<Rightarrow> endpoint" where
  "exposed_endpoint kit deploymentHash op p =
     \<lparr>p_opId = op_id op, p_port = p,
      p_url = ''https://'' @ rk_getExposeIdHash kit deploymentHash (op_id op)
          (if rk_exposedPortCount kit op > 1 then p else Port_number 0) @ ''.'' @ rk_frps_public_address kit,
      p_online = False\<rparr>"

definition operation_endpoints :: "route_kit \<Rightarrow> string \<Rightarrow> operation \<Rightarrow> endpoint list" where
  "operation_endpoints kit deploymentHash op =
     (if op_type op \<noteq> ''container/run'' then []
      else (case op_expose op of
          Expose_port p \<Rightarrow> if falsy_port p then [] else [exposed_endpoint kit deploymentHash op p]
        | Expose_list services \<Rightarrow> map (exposed_endpoint kit deploymentHash op) (List.map_filter entry_port services)
        | _ \<Rightarrow> []))"

definition createDeploymentRevisionEndpoints :: "route_kit \<Rightarrow> string \<Rightarrow> address \<Rightarrow> job_definition \<Rightarrow> endpoint list" where
  "createDeploymentRevisionEndpoints kit deployment vault jd =
     concat (map (operation_endpoints kit (rk_createHash kit (deployment @ '':'' @ vault))) (jd_ops jd))"

definition hasExposedPorts :: "job_definition \<Rightarrow> bool" where
  "hasExposedPorts jd \<longleftrightarrow> list_ex (\<lambda>op. op_type op = ''container/run'' \<and>
     (case op_expose op of No_expose \<Rightarrow> False | Expose_list services \<Rightarrow> services \<noteq> [] | _ \<Rightarrow> True)) (jd_ops jd)"

section \<open>Revisions\<close>

definition final_definition :: "string \<Rightarrow> job_definition \<Rightarrow> job_definition" where
  "final_definition deployment jd = jd\<lparr>jd_deployment_id := Some deployment, jd_trigger := Some ''deployment-manager''\<rparr>"

text \<open>The pin of every confidential revision; the placeholder is pinned when none is configured.\<close>

definition confidential_pin :: "route_kit \<Rightarrow> string option" where
  "confidential_pin kit = (if rk_confidential_ipfs_pin kit \<noteq> [] then Some (rk_confidential_ipfs_pin kit)
     else rk_pin kit (rk_confidential_definition kit))"

definition createNewDeploymentRevision ::
  "route_kit \<Rightarrow> nat \<Rightarrow> string \<Rightarrow> address \<Rightarrow> job_definition \<Rightarrow> bool \<Rightarrow> string list option \<Rightarrow> ms \<Rightarrow>
    (revision_document \<times> endpoint list \<times> string list option) option" where
  "createNewDeploymentRevision kit currentRevision deployment vault submitted confidential currentPublicKeys now =
     (let (jd, extracted) = extractSsh kit submitted;
          public_keys = or_else extracted currentPublicKeys;
          endpoints = createDeploymentRevisionEndpoints kit deployment vault jd;
          final = final_definition deployment jd;
          ssh_public_keys = (if nullish public_keys [] = [] then None else public_keys);
          newIpfsHash = (if confidential then confidential_pin kit else rk_pin kit (injectSsh kit final ssh_public_keys))
      in case newIpfsHash of
           None \<Rightarrow> None
         | Some hash \<Rightarrow>
             if hash = [] then None
             else Some (\<lparr>r_revision = currentRevision + 1, r_deployment = deployment, r_ipfs_definition_hash = hash,
               r_job_definition = final, r_created_at = now\<rparr>, endpoints, ssh_public_keys))"

section \<open>Deployments\<close>

record create_body =
  cb_name :: string
  cb_market :: "address option"
  cb_requirements :: "string option"
  cb_job_definition :: job_definition
  cb_replicas :: nat
  cb_strategy :: deployment_strategy
  cb_schedule :: "string option"
  cb_confidential :: "bool option"
  cb_timeout :: int
  cb_rotation_time :: "int option"
  cb_startup_timeout :: "int option"
  cb_ssh_public_keys :: "string list option"
  cb_idempotency_key :: "string option"
  cb_vault :: "address option"
  cb_new_vault :: bool
  cb_autostart :: bool

text \<open>\<open>fresh\<close> is the address of the generated key pair. None is an error thrown.\<close>

definition createDeployment ::
  "route_kit \<Rightarrow> address \<Rightarrow> create_body \<Rightarrow> address \<Rightarrow> address \<Rightarrow> ms \<Rightarrow> (deployment_document \<times> revision_document) option" where
  "createDeployment kit fresh body vault owner created_at =
     (let confidential = nullish (cb_confidential body) (rk_confidential_by_default kit);
          submitted = (case cb_ssh_public_keys body of
            Some keys \<Rightarrow> injectSsh kit (cb_job_definition body) (Some keys) | None \<Rightarrow> cb_job_definition body)
      in case createNewDeploymentRevision kit 0 fresh vault submitted confidential None created_at of
           None \<Rightarrow> None
         | Some (revision, endpoints, storedPublicKeys) \<Rightarrow>
             (let base = \<lparr>d_idempotency_key = (if truthy_string (cb_idempotency_key body) then cb_idempotency_key body else None),
                    d_id = fresh, d_vault = vault, d_market = map_option trim (cb_market body),
                    d_requirements = cb_requirements body, d_owner = owner, d_name = cb_name body, d_status = DRAFT,
                    d_replicas = cb_replicas body, d_timeout = cb_timeout body, d_endpoints = endpoints,
                    d_active_revision = 1, d_confidential = confidential, d_created_at = created_at,
                    d_updated_at = created_at, d_strategy = cb_strategy body, d_schedule = None, d_rotation_time = None,
                    d_startup_timeout = None, d_rapid_streak = None, d_run = None, d_next_retry_at = None,
                    d_ssh_public_keys = storedPublicKeys\<rparr>
              in case cb_strategy body of
                   SCHEDULED \<Rightarrow>
                     if \<not> truthy_string (cb_schedule body) then None
                     else Some (base\<lparr>d_schedule := cb_schedule body\<rparr>, revision)
                 | INFINITE \<Rightarrow>
                     Some (base\<lparr>d_rotation_time := Some (nullish (cb_rotation_time body) (rk_default_minutes kit)),
                       d_startup_timeout := cb_startup_timeout body\<rparr>, revision)
                 | _ \<Rightarrow> Some (base, revision)))"

definition duplicateDeployment ::
  "route_kit \<Rightarrow> address \<Rightarrow> deployment_document \<Rightarrow> job_definition \<Rightarrow> string \<Rightarrow> address option \<Rightarrow> address \<Rightarrow> ms \<Rightarrow>
    (deployment_document \<times> revision_document) option" where
  "duplicateDeployment kit fresh source jobDefinition name market owner created_at =
     createDeployment kit fresh
       \<lparr>cb_name = name, cb_market = or_else market (d_market source), cb_requirements = d_requirements source,
        cb_job_definition = jobDefinition, cb_replicas = d_replicas source, cb_strategy = d_strategy source,
        cb_schedule = (if d_strategy source = SCHEDULED then d_schedule source else None),
        cb_confidential = Some (d_confidential source), cb_timeout = d_timeout source,
        cb_rotation_time = (if d_strategy source = INFINITE then d_rotation_time source else None),
        cb_startup_timeout = (if d_strategy source = INFINITE then d_startup_timeout source else None),
        cb_ssh_public_keys = d_ssh_public_keys source, cb_idempotency_key = None, cb_vault = None,
        cb_new_vault = False, cb_autostart = False\<rparr> (d_vault source) owner created_at"

text \<open>The write that starts a deployment: STARTING, and a new run.\<close>

definition startDeploymentUpdate :: "ms \<Rightarrow> deployment_document \<Rightarrow> deployment_document" where
  "startDeploymentUpdate updated_at d =
     d\<lparr>d_status := STARTING, d_updated_at := updated_at, d_run := Some (Suc (nullish (d_run d) 0))\<rparr>"

section \<open>Vaults\<close>

text \<open>An upsert by address that writes only on insert: a vault that is there keeps its owner and key.\<close>

definition storeVaultDocument :: "vault_document \<Rightarrow> db \<Rightarrow> db" where
  "storeVaultDocument w s = s\<lparr>db_vaults := upsert_one (\<lambda>x. w_vault x = w_vault w) id w (db_vaults s)\<rparr>"

definition shared_vault :: "address \<Rightarrow> db \<Rightarrow> vault_document option" where
  "shared_vault owner s =
     (case sort_key (\<lambda>w. (w_created_at w, map of_char (w_vault w) :: nat list))
         (filter (\<lambda>w. w_owner w = owner \<and> w_vault w \<noteq> owner) (db_vaults s)) of
        w # _ \<Rightarrow> Some w | [] \<Rightarrow> None)"

text \<open>\<open>generated\<close> is the address and the stored key of a new key pair. None is \<open>VaultNotFoundError\<close>.\<close>

definition getOrCreateVault ::
  "address \<Rightarrow> ms \<Rightarrow> address option \<Rightarrow> bool \<Rightarrow> address \<times> string \<Rightarrow> db \<Rightarrow> vault_document option \<times> db" where
  "getOrCreateVault owner created_at targetVault createNew generated s =
     (let new = \<lparr>w_vault = fst generated, w_vault_key = snd generated, w_owner = owner, w_created_at = created_at\<rparr>;
          create = (Some new, storeVaultDocument new s)
      in if truthy_string targetVault
         then (if the targetVault = owner then None
               else find_one (\<lambda>w. w_owner w = owner \<and> w_vault w = the targetVault) (db_vaults s), s)
         else if \<not> createNew
         then (case shared_vault owner s of Some w \<Rightarrow> (Some w, s) | None \<Rightarrow> create)
         else create)"

end
