(* ===== verification/Routes.thy ===== *)
theory Routes
  imports Deployment_Factory
begin

text \<open>
  The HTTP routes of a deployment (\<open>src/router/routes\<close>): a request is served by the middlewares,
  which read the deployment of the caller, and by a handler, which acts on the document that was
  read and on the store as it is by then; the two differ when something else wrote in between.
\<close>

section \<open>Requests and replies\<close>

datatype error_message = M_NOT_FOUND | M_ARCHIVED | M_INCORRECT_STATE | M_INCORRECT_STRATEGY
  | M_INVALID_ACTIVE_REVISION | M_REVISION_ALREADY_ACTIVE | M_STARTUP_TIMEOUT_WITHOUT_ENDPOINTS
  | M_FAILED_TO_DUPLICATE | M_FAILED_TO_UPDATE_SSH_KEYS | M_FAILED_TO_FIND_KEY | M_SOMETHING_WENT_WRONG
  | M_INVALID_BODY | M_INVALID_TIMEOUT | M_INVALID_ROTATION_TIME | M_VAULT_NOT_FOUND | M_KEY_EXISTS
  | M_INTERNAL_SERVER_ERROR | M_SSH_INVALID string

datatype ssh_operation = Authorize | Revoke

datatype ssh_status = Ssh_authorized | Ssh_revoked | Ssh_failed

datatype route_reply =
    Status_reply deployment_status ms
  | Replicas_reply nat ms
  | Timeout_reply int ms
  | Startup_timeout_reply int ms
  | Name_reply string ms
  | Market_reply address ms
  | Schedule_reply string ms
  | Requirements_reply "string option" "address option" ms
  | Revision_reply nat "endpoint list" ms
  | Deployment_reply deployment_document deployment_status
  | Ssh_reply "string list" ms "(address \<times> address \<times> ssh_status) list"
  | Deleted
  | Failed nat error_message

datatype request =
    Start | Stop | Archive | Delete
  | Update_replicas nat | Update_timeout int | Update_startup_timeout int | Update_name string
  | Update_market address | Update_schedule string | Update_requirements "string option" "address option"
  | Activate_revision nat | Create_revision job_definition
  | Duplicate "string option" "address option" bool
  | Add_ssh_keys "string list" | Revoke_ssh_keys "string list"

text \<open>What a request draws from outside: the clock, a new key pair's address, and the nodes: whether
  the worker could open a job, and whether it took a key; None for all of them is a worker that failed.\<close>

record route_env =
  re_kit :: route_kit
  re_now :: ms
  re_fresh :: address
  re_worker_runs :: bool
  re_job_opens :: "address \<Rightarrow> bool"
  re_node_takes :: "address \<Rightarrow> string \<Rightarrow> bool"

definition owned :: "string \<Rightarrow> address \<Rightarrow> deployment_document \<Rightarrow> bool" where
  "owned deploymentId userId d \<longleftrightarrow> d_id d = deploymentId \<and> d_owner d = userId"

section \<open>Status\<close>

definition deploymentStart :: "ms \<Rightarrow> deployment_document \<Rightarrow> address \<Rightarrow> db \<Rightarrow> route_reply \<times> db" where
  "deploymentStart now d userId s =
     (if d_status d \<notin> {DRAFT, STOPPED, ERROR, INSUFFICIENT_FUNDS} then (Failed 500 M_INCORRECT_STATE, s)
      else (Status_reply STARTING now, on_deployment (owned (d_id d) userId) (startDeploymentUpdate now) s))"

definition deploymentStop :: "ms \<Rightarrow> deployment_document \<Rightarrow> address \<Rightarrow> db \<Rightarrow> route_reply \<times> db" where
  "deploymentStop now d userId s =
     (if d_status d \<notin> {RUNNING, ERROR, INSUFFICIENT_FUNDS} then (Failed 500 M_INCORRECT_STATE, s)
      else (Status_reply STOPPING now, on_deployment (owned (d_id d) userId)
        (\<lambda>e. e\<lparr>d_status := STOPPING, d_updated_at := now\<rparr>) s))"

definition deploymentArchive :: "ms \<Rightarrow> deployment_document \<Rightarrow> address \<Rightarrow> db \<Rightarrow> route_reply \<times> db" where
  "deploymentArchive now d userId s =
     (if d_status d \<noteq> STOPPED then (Failed 500 M_INCORRECT_STATE, s)
      else (Status_reply ARCHIVED now, on_deployment (owned (d_id d) userId)
        (\<lambda>e. e\<lparr>d_status := ARCHIVED, d_updated_at := now\<rparr>) s))"

fun delete_one :: "('d \<Rightarrow> bool) \<Rightarrow> 'd list \<Rightarrow> 'd list" where
  "delete_one P [] = []"
| "delete_one P (x # xs) = (if P x then xs else x # delete_one P xs)"

text \<open>One transaction.\<close>

definition deploymentDelete :: "deployment_document \<Rightarrow> address \<Rightarrow> db \<Rightarrow> route_reply \<times> db" where
  "deploymentDelete d userId s =
     (if d_status d \<noteq> STOPPED then (Failed 500 M_INCORRECT_STATE, s)
      else (let jobIds = map j_job (filter (\<lambda>j. j_deployment j = d_id d) (db_jobs s))
            in (Deleted, s\<lparr>db_results := delete_many (\<lambda>(job, r). job \<in> set jobIds) (db_results s),
                  db_jobs := delete_many (\<lambda>j. j_deployment j = d_id d) (db_jobs s),
                  db_revisions := delete_many (\<lambda>r. r_deployment r = d_id d) (db_revisions s),
                  db_events := delete_many (\<lambda>e. e_deploymentId e = d_id d) (db_events s),
                  db_deployments := delete_one (owned (d_id d) userId) (db_deployments s)\<rparr>)))"

section \<open>Fields\<close>

definition deploymentUpdateReplicaCount :: "nat \<Rightarrow> ms \<Rightarrow> deployment_document \<Rightarrow> address \<Rightarrow> db \<Rightarrow> route_reply \<times> db" where
  "deploymentUpdateReplicaCount replicas now d userId s =
     (Replicas_reply replicas now, on_deployment (\<lambda>e. owned (d_id d) userId e \<and> d_replicas e \<noteq> replicas)
       (\<lambda>e. e\<lparr>d_replicas := replicas, d_updated_at := now\<rparr>) s)"

definition deploymentUpdateTimeout :: "int \<Rightarrow> ms \<Rightarrow> deployment_document \<Rightarrow> address \<Rightarrow> db \<Rightarrow> route_reply \<times> db" where
  "deploymentUpdateTimeout minutes now d userId s =
     (Timeout_reply minutes now, on_deployment (\<lambda>e. owned (d_id d) userId e \<and> d_timeout e \<noteq> minutes)
       (\<lambda>e. e\<lparr>d_timeout := minutes, d_updated_at := now\<rparr>) s)"

definition deploymentUpdateName :: "string \<Rightarrow> ms \<Rightarrow> deployment_document \<Rightarrow> address \<Rightarrow> db \<Rightarrow> route_reply \<times> db" where
  "deploymentUpdateName name now d userId s =
     (Name_reply name now, on_deployment (\<lambda>e. owned (d_id d) userId e \<and> d_name e \<noteq> name)
       (\<lambda>e. e\<lparr>d_name := name, d_updated_at := now\<rparr>) s)"

definition deploymentUpdateMarket :: "address \<Rightarrow> ms \<Rightarrow> deployment_document \<Rightarrow> address \<Rightarrow> db \<Rightarrow> route_reply \<times> db" where
  "deploymentUpdateMarket body now d userId s =
     (let market = trim body
      in (Market_reply market now, on_deployment (\<lambda>e. owned (d_id d) userId e \<and> d_market e \<noteq> Some market)
           (\<lambda>e. e\<lparr>d_market := Some market, d_updated_at := now\<rparr>) s))"

definition deploymentUpdateSchedule :: "string \<Rightarrow> ms \<Rightarrow> deployment_document \<Rightarrow> address \<Rightarrow> db \<Rightarrow> route_reply \<times> db" where
  "deploymentUpdateSchedule schedule now d userId s =
     (if d_strategy d \<noteq> SCHEDULED then (Failed 400 M_INCORRECT_STRATEGY, s)
      else (Schedule_reply schedule now, on_deployment (\<lambda>e. owned (d_id d) userId e \<and> d_schedule e \<noteq> Some schedule)
        (\<lambda>e. e\<lparr>d_schedule := Some schedule, d_updated_at := now\<rparr>) s))"

definition deploymentUpdateStartupTimeout :: "int \<Rightarrow> ms \<Rightarrow> deployment_document \<Rightarrow> address \<Rightarrow> db \<Rightarrow> route_reply \<times> db" where
  "deploymentUpdateStartupTimeout minutes now d userId s =
     (if d_strategy d \<noteq> INFINITE then (Failed 400 M_INCORRECT_STRATEGY, s)
      else if d_endpoints d = [] then (Failed 400 M_STARTUP_TIMEOUT_WITHOUT_ENDPOINTS, s)
      else (Startup_timeout_reply minutes now, on_deployment (\<lambda>e. owned (d_id d) userId e \<and> d_startup_timeout e \<noteq> Some minutes)
        (\<lambda>e. e\<lparr>d_startup_timeout := Some minutes, d_updated_at := now\<rparr>) s))"

definition deploymentUpdateRequirements ::
  "string option \<Rightarrow> address option \<Rightarrow> ms \<Rightarrow> deployment_document \<Rightarrow> address \<Rightarrow> db \<Rightarrow> route_reply \<times> db" where
  "deploymentUpdateRequirements requirements body now d userId s =
     (let market = map_option trim body
      in (Requirements_reply requirements market now, on_deployment (owned (d_id d) userId)
           (\<lambda>e. e\<lparr>d_requirements := requirements, d_market := market, d_updated_at := now\<rparr>) s))"

section \<open>Revisions\<close>

text \<open>The unique index on deployment and revision: None is the insert's duplicate key error.\<close>

definition insert_revision :: "revision_document \<Rightarrow> db \<Rightarrow> db option" where
  "insert_revision r s =
     (if matches (\<lambda>x. r_deployment x = r_deployment r \<and> r_revision x = r_revision r) (db_revisions s) then None
      else Some (s\<lparr>db_revisions := insert_one r (db_revisions s)\<rparr>))"

definition repin :: "string \<Rightarrow> nat \<Rightarrow> string \<Rightarrow> db \<Rightarrow> db" where
  "repin deploymentId revision hash s =
     s\<lparr>db_revisions := update_one (\<lambda>r. r_deployment r = deploymentId \<and> r_revision r = revision)
         (\<lambda>r. r\<lparr>r_ipfs_definition_hash := hash\<rparr>) (db_revisions s)\<rparr>"

definition find_revision :: "string \<Rightarrow> nat \<Rightarrow> db \<Rightarrow> revision_document option" where
  "find_revision deploymentId revision s =
     find_one (\<lambda>r. r_deployment r = deploymentId \<and> r_revision r = revision) (db_revisions s)"

text \<open>\<open>findOne\<close> sorted by revision, highest first.\<close>

definition latest_revision :: "string \<Rightarrow> db \<Rightarrow> nat option" where
  "latest_revision deploymentId s =
     (case rev (sort (map r_revision (filter (\<lambda>r. r_deployment r = deploymentId) (db_revisions s)))) of
        n # _ \<Rightarrow> Some n | [] \<Rightarrow> None)"

definition deploymentUpdateActiveRevision ::
  "route_kit \<Rightarrow> nat \<Rightarrow> ms \<Rightarrow> deployment_document \<Rightarrow> address \<Rightarrow> db \<Rightarrow> route_reply \<times> db" where
  "deploymentUpdateActiveRevision kit active_revision now d userId s =
     (case find_revision (d_id d) active_revision s of
        None \<Rightarrow> (Failed 400 M_INVALID_ACTIVE_REVISION, s)
      | Some revision \<Rightarrow>
          if r_revision revision = d_active_revision d then (Failed 400 M_REVISION_ALREADY_ACTIVE, s)
          else (let endpoints = createDeploymentRevisionEndpoints kit (d_id d) (d_vault d) (r_job_definition revision);
                    pinned = (if d_confidential d then Some s
                      else map_option (\<lambda>hash. repin (d_id d) active_revision hash s)
                        (rk_pin kit (injectSsh kit (r_job_definition revision) (d_ssh_public_keys d))))
                in case pinned of
                     None \<Rightarrow> (Failed 500 M_SOMETHING_WENT_WRONG, s)
                   | Some s1 \<Rightarrow>
                       (let P = (\<lambda>e. owned (d_id d) userId e \<and> d_active_revision e \<noteq> active_revision)
                        in if \<not> matches P (db_deployments s1) then (Failed 400 M_REVISION_ALREADY_ACTIVE, s1)
                           else (Revision_reply active_revision endpoints now,
                             on_deployment P (\<lambda>e. e\<lparr>d_active_revision := active_revision, d_endpoints := endpoints,
                               d_updated_at := now\<rparr>) s1))))"

definition deploymentCreateRevision ::
  "route_kit \<Rightarrow> job_definition \<Rightarrow> ms \<Rightarrow> deployment_document \<Rightarrow> address \<Rightarrow> db \<Rightarrow> route_reply \<times> db" where
  "deploymentCreateRevision kit jobDefinition now d userId s =
     (case createNewDeploymentRevision kit (nullish (latest_revision (d_id d) s) (d_active_revision d)) (d_id d) (d_vault d)
         jobDefinition (d_confidential d) (d_ssh_public_keys d) now of
        None \<Rightarrow> (Failed 500 M_SOMETHING_WENT_WRONG, s)
      | Some (revision, endpoints, ssh_public_keys) \<Rightarrow>
          (case insert_revision revision s of
             None \<Rightarrow> (Failed 500 M_SOMETHING_WENT_WRONG, s)
           | Some s1 \<Rightarrow>
               if \<not> matches (owned (d_id d) userId) (db_deployments s1)
               then (Failed 404 M_NOT_FOUND, s1\<lparr>db_revisions := delete_one
                 (\<lambda>r. r_deployment r = d_id d \<and> r_revision r = r_revision revision) (db_revisions s1)\<rparr>)
               else (Revision_reply (r_revision revision) endpoints now,
                 on_deployment (owned (d_id d) userId)
                   (\<lambda>e. e\<lparr>d_active_revision := r_revision revision, d_endpoints := endpoints, d_updated_at := now,
                     d_ssh_public_keys := or_else ssh_public_keys (d_ssh_public_keys e)\<rparr>) s1)))"

section \<open>SSH keys\<close>

text \<open>The worker thread (\<open>ssh/worker.ts\<close>): every running job's node is given every key, and a node
  that fails one is reported failed.\<close>

definition ssh_push :: "route_env \<Rightarrow> ssh_operation \<Rightarrow> string list \<Rightarrow> address \<Rightarrow> ssh_status" where
  "ssh_push env operation public_keys job =
     (if re_job_opens env job \<and> list_all (re_node_takes env job) public_keys
      then (if operation = Revoke then Ssh_revoked else Ssh_authorized) else Ssh_failed)"

definition pushToRunningJobs ::
  "route_env \<Rightarrow> ssh_operation \<Rightarrow> string list \<Rightarrow> jobs_document list \<Rightarrow> (address \<times> address \<times> ssh_status) list option" where
  "pushToRunningJobs env operation public_keys jobs =
     (if \<not> re_worker_runs env then None
      else Some (map (\<lambda>j. (j_job j, the (j_node j), ssh_push env operation public_keys (j_job j))) jobs))"

text \<open>The active revision pinned again with the keys; a confidential deployment's stays as it is.\<close>

definition repin_active :: "route_kit \<Rightarrow> deployment_document \<Rightarrow> string list option \<Rightarrow> db \<Rightarrow> error_message + db" where
  "repin_active kit d ssh_public_keys s =
     (if d_confidential d then Inr s
      else case find_revision (d_id d) (d_active_revision d) s of
          None \<Rightarrow> Inl M_FAILED_TO_UPDATE_SSH_KEYS
        | Some revision \<Rightarrow>
            (case rk_pin kit (injectSsh kit (r_job_definition revision) ssh_public_keys) of
               None \<Rightarrow> Inl M_SOMETHING_WENT_WRONG
             | Some hash \<Rightarrow> Inr (repin (d_id d) (d_active_revision d) hash s)))"

definition store_keys :: "string list option \<Rightarrow> ms \<Rightarrow> deployment_document \<Rightarrow> address \<Rightarrow> db \<Rightarrow> db" where
  "store_keys ssh_public_keys updated_at d owner =
     on_deployment (owned (d_id d) owner) (\<lambda>e. e\<lparr>d_ssh_public_keys := ssh_public_keys, d_updated_at := updated_at\<rparr>)"

definition keys_event :: "string \<Rightarrow> string \<Rightarrow> ms \<Rightarrow> event_document" where
  "keys_event deploymentId message created_at =
     \<lparr>e_category = Category_Deployment, e_deploymentId = deploymentId, e_type = ''SSH_KEYS_UPDATED'',
      e_message = message, e_tx = None, e_created_at = created_at\<rparr>"

text \<open>\<open>keys\<close> is the whole set the deployment is to hold, \<open>delta\<close> what changes on the nodes.\<close>

definition commitDeploymentSshKeys ::
  "route_env \<Rightarrow> string list \<Rightarrow> string list \<Rightarrow> ssh_operation \<Rightarrow> (nat \<Rightarrow> nat \<Rightarrow> string) \<Rightarrow>
    deployment_document \<Rightarrow> address \<Rightarrow> db \<Rightarrow> route_reply \<times> db" where
  "commitDeploymentSshKeys env keys delta operation event d owner s =
     (if \<not> matches (\<lambda>w. w_vault w = d_vault d \<and> w_owner w = owner) (db_vaults s) then (Failed 500 M_FAILED_TO_FIND_KEY, s)
      else (let ssh_public_keys = (if keys = [] then None else Some keys)
            in case repin_active (re_kit env) d ssh_public_keys s of
                 Inl message \<Rightarrow> (Failed 500 message, s)
               | Inr s1 \<Rightarrow>
                   (let s2 = store_keys ssh_public_keys (re_now env) d owner s1;
                        running = filter (\<lambda>j. j_deployment j = d_id d \<and> j_state j = J_RUNNING \<and> j_node j \<noteq> None) (db_jobs s2)
                    in case if running = [] then Some [] else pushToRunningJobs env operation delta running of
                         None \<Rightarrow> (Failed 500 M_SOMETHING_WENT_WRONG, s2)
                       | Some jobs \<Rightarrow>
                           (let applied = length (filter (\<lambda>(job, node, status). status \<noteq> Ssh_failed) jobs)
                            in (Ssh_reply keys (re_now env) jobs,
                                insert_event (keys_event (d_id d) (event applied (length jobs)) (re_now env)) s2)))))"

text \<open>The keys of a request that are new, one per identity.\<close>

fun new_keys :: "route_kit \<Rightarrow> string list \<Rightarrow> string list \<Rightarrow> string list" where
  "new_keys kit present [] = []"
| "new_keys kit present (key # keys) =
     (let identity = rk_getSshKeyIdentity kit key
      in if identity \<in> set present then new_keys kit present keys
         else key # new_keys kit (identity # present) keys)"

definition keys_on :: "nat \<Rightarrow> nat \<Rightarrow> string" where
  "keys_on applied n = show_nat applied @ ''/'' @ show_nat n @ '' running job(s).''"

definition added_event :: "string list \<Rightarrow> string list \<Rightarrow> nat \<Rightarrow> nat \<Rightarrow> string" where
  "added_event delta keys applied n = ''SSH keys added ('' @ show_nat (length delta) @ '' new, '' @
     show_nat (length keys) @ '' total); authorized on '' @ keys_on applied n"

definition revoked_event :: "string list \<Rightarrow> string list \<Rightarrow> nat \<Rightarrow> nat \<Rightarrow> string" where
  "revoked_event delta keys applied n = ''SSH keys revoked ('' @ show_nat (length delta) @ '' removed, '' @
     show_nat (length keys) @ '' remaining); revoked on '' @ keys_on applied n"

definition deploymentAddSshKeys ::
  "route_env \<Rightarrow> string list \<Rightarrow> deployment_document \<Rightarrow> address \<Rightarrow> db \<Rightarrow> route_reply \<times> db" where
  "deploymentAddSshKeys env public_keys d userId s =
     (let kit = re_kit env;
          current = nullish (d_ssh_public_keys d) [];
          additions = map trim public_keys
      in case validateSshPublicKeys kit additions of
           Some invalid \<Rightarrow> (Failed 400 (M_SSH_INVALID invalid), s)
         | None \<Rightarrow>
             (let delta = new_keys kit (map (rk_getSshKeyIdentity kit) current) additions
              in if delta = [] then (Ssh_reply current (d_updated_at d) [], s)
                 else case validateSshPublicKeys kit (current @ delta) of
                        Some invalid \<Rightarrow> (Failed 400 (M_SSH_INVALID invalid), s)
                      | None \<Rightarrow> commitDeploymentSshKeys env (current @ delta) delta Authorize
                          (added_event delta (current @ delta)) d userId s))"

definition deploymentRevokeSshKeys ::
  "route_env \<Rightarrow> string list \<Rightarrow> deployment_document \<Rightarrow> address \<Rightarrow> db \<Rightarrow> route_reply \<times> db" where
  "deploymentRevokeSshKeys env public_keys d userId s =
     (let kit = re_kit env;
          current = nullish (d_ssh_public_keys d) [];
          removed = map (rk_getSshKeyIdentity kit) public_keys;
          keys = filter (\<lambda>key. rk_getSshKeyIdentity kit key \<notin> set removed) current;
          delta = filter (\<lambda>key. rk_getSshKeyIdentity kit key \<in> set removed) current
      in if delta = [] then (Ssh_reply current (d_updated_at d) [], s)
         else commitDeploymentSshKeys env keys delta Revoke (revoked_event delta keys) d userId s)"

section \<open>Creating deployments\<close>

text \<open>The unique index on owner and creation key, over the deployments that have one.\<close>

definition insert_deployment :: "deployment_document \<Rightarrow> db \<Rightarrow> db option" where
  "insert_deployment d s =
     (if d_idempotency_key d \<noteq> None \<and>
         matches (\<lambda>e. d_owner e = d_owner d \<and> d_idempotency_key e = d_idempotency_key d) (db_deployments s) then None
      else Some (s\<lparr>db_deployments := insert_one d (db_deployments s)\<rparr>))"

definition deploymentDuplicate ::
  "route_env \<Rightarrow> string option \<Rightarrow> address option \<Rightarrow> bool \<Rightarrow> deployment_document \<Rightarrow> address \<Rightarrow> db \<Rightarrow> route_reply \<times> db" where
  "deploymentDuplicate env name market autostart source userId s =
     (case find_revision (d_id source) (d_active_revision source) s of
        None \<Rightarrow> (Failed 500 M_FAILED_TO_DUPLICATE, s)
      | Some active \<Rightarrow>
          (case duplicateDeployment (re_kit env) (re_fresh env) source (r_job_definition active)
              (nullish name (d_name source @ '' (copy)'')) market userId (re_now env) of
             None \<Rightarrow> (Failed 500 M_SOMETHING_WENT_WRONG, s)
           | Some (deployment, revision) \<Rightarrow>
               (case insert_revision revision s of
                  None \<Rightarrow> (Failed 500 M_SOMETHING_WENT_WRONG, s)
                | Some s1 \<Rightarrow>
                    (case insert_deployment deployment s1 of
                       None \<Rightarrow> (Failed 500 M_SOMETHING_WENT_WRONG, s1)
                     | Some s2 \<Rightarrow>
                         (Deployment_reply deployment (if autostart then STARTING else DRAFT),
                          if autostart then on_deployment (owned (d_id deployment) userId) (startDeploymentUpdate (re_now env)) s2
                          else s2)))))"

text \<open>What create's validator reports: the body's shape (None is a string, a list or null), what the
  schema reports of its fields as paths and messages, the definition, the keys.\<close>

definition deploymentCreateErrors ::
  "route_kit \<Rightarrow> (create_body \<Rightarrow> (string \<times> string) list) \<Rightarrow> create_body option \<Rightarrow> string list" where
  "deploymentCreateErrors kit schemaErrors data =
     (case data of
        None \<Rightarrow> [''The request body must be a JSON object, not a string or a list.'']
      | Some body \<Rightarrow>
          if schemaErrors body \<noteq> []
          then map (\<lambda>(path, message). (if starts_with path ''/'' then drop 1 path else path) @ '': '' @ message) (schemaErrors body)
          else (let jobErrors = jobDefinitionErrors kit ''job_definition'' (cb_job_definition body)
                in if jobErrors \<noteq> [] then jobErrors
                   else case cb_ssh_public_keys body of
                          None \<Rightarrow> []
                        | Some keys \<Rightarrow>
                            (case validateSshPublicKeys kit (map trim keys) of
                               Some sshError \<Rightarrow> [''ssh_public_keys: '' @ sshError] | None \<Rightarrow> [])))"

definition deploymentValidate :: "route_kit \<Rightarrow> job_definition option \<Rightarrow> bool \<times> string list" where
  "deploymentValidate kit job_definition =
     (let errors = (case job_definition of
         Some jd \<Rightarrow> jobDefinitionErrors kit ''job_definition'' jd
       | None \<Rightarrow> [''job_definition: Expected required property''])
      in (errors = [], errors))"

definition infinite_body_error :: "create_body \<Rightarrow> error_message option" where
  "infinite_body_error body =
     (if cb_strategy body \<noteq> INFINITE then None
      else if cb_timeout body < 60 then Some M_INVALID_TIMEOUT
      else if nullish (cb_rotation_time body) 0 \<noteq> 0 \<and> the (cb_rotation_time body) \<ge> cb_timeout body - 10
      then Some M_INVALID_ROTATION_TIME
      else if nullish (cb_startup_timeout body) 0 \<noteq> 0 \<and> \<not> hasExposedPorts (cb_job_definition body)
      then Some M_STARTUP_TIMEOUT_WITHOUT_ENDPOINTS
      else None)"

text \<open>\<open>apiKey\<close> is the encrypted key of a caller that sent one; \<open>generated\<close> the key pair of a new vault.\<close>

definition vault_of ::
  "address \<Rightarrow> ms \<Rightarrow> string option \<Rightarrow> address \<times> string \<Rightarrow> create_body \<Rightarrow> db \<Rightarrow> address option \<times> db" where
  "vault_of userId now apiKey generated body s =
     (case apiKey of
        None \<Rightarrow> (let (w, s1) = getOrCreateVault userId now (cb_vault body) (cb_new_vault body) generated s
                 in (map_option w_vault w, s1))
      | Some key \<Rightarrow> (Some userId, storeVaultDocument
          \<lparr>w_vault = userId, w_vault_key = key, w_owner = userId, w_created_at = now\<rparr> s))"

text \<open>One transaction: a duplicate key leaves neither document.\<close>

definition deploymentCreate ::
  "route_env \<Rightarrow> string option \<Rightarrow> address \<times> string \<Rightarrow> create_body \<Rightarrow> address \<Rightarrow> db \<Rightarrow> route_reply \<times> db" where
  "deploymentCreate env apiKey generated body userId s =
     (case infinite_body_error body of
        Some message \<Rightarrow> (Failed 400 message, s)
      | None \<Rightarrow>
          (case vault_of userId (re_now env) apiKey generated body s of
             (None, s1) \<Rightarrow> (Failed 404 M_VAULT_NOT_FOUND, s1)
           | (Some vault, s1) \<Rightarrow>
               (case createDeployment (re_kit env) (re_fresh env) body vault userId (re_now env) of
                  None \<Rightarrow> (Failed 500 M_INTERNAL_SERVER_ERROR, s1)
                | Some (deployment, revision) \<Rightarrow>
                    (let duplicate = (Failed (if truthy_string (cb_idempotency_key body) then 409 else 500)
                           (if truthy_string (cb_idempotency_key body) then M_KEY_EXISTS else M_INTERNAL_SERVER_ERROR), s1)
                     in case insert_deployment deployment s1 of
                          None \<Rightarrow> duplicate
                        | Some s2 \<Rightarrow>
                            (case insert_revision revision s2 of
                               None \<Rightarrow> duplicate
                             | Some s3 \<Rightarrow>
                                 (Deployment_reply (deployment\<lparr>d_idempotency_key := None\<rparr>)
                                    (if cb_autostart body then STARTING else DRAFT),
                                  if cb_autostart body
                                  then on_deployment (owned (d_id deployment) userId) (startDeploymentUpdate (re_now env)) s3
                                  else s3))))))"

section \<open>Serving a request\<close>

definition getDeployment :: "string \<Rightarrow> address \<Rightarrow> db \<Rightarrow> deployment_document option" where
  "getDeployment deploymentId owner s = find_one (owned deploymentId owner) (db_deployments s)"

text \<open>The routes registered without \<open>validateActiveDeploymentMiddleware\<close>.\<close>

definition open_to_archived :: "request \<Rightarrow> bool" where
  "open_to_archived r \<longleftrightarrow> (case r of
     Start \<Rightarrow> True | Delete \<Rightarrow> True | Update_name _ \<Rightarrow> True | Duplicate _ _ _ \<Rightarrow> True | _ \<Rightarrow> False)"

fun handle :: "route_env \<Rightarrow> request \<Rightarrow> deployment_document \<Rightarrow> address \<Rightarrow> db \<Rightarrow> route_reply \<times> db" where
  "handle env Start = deploymentStart (re_now env)"
| "handle env Stop = deploymentStop (re_now env)"
| "handle env Archive = deploymentArchive (re_now env)"
| "handle env Delete = deploymentDelete"
| "handle env (Update_replicas n) = deploymentUpdateReplicaCount n (re_now env)"
| "handle env (Update_timeout n) = deploymentUpdateTimeout n (re_now env)"
| "handle env (Update_startup_timeout n) = deploymentUpdateStartupTimeout n (re_now env)"
| "handle env (Update_name name) = deploymentUpdateName name (re_now env)"
| "handle env (Update_market market) = deploymentUpdateMarket market (re_now env)"
| "handle env (Update_schedule schedule) = deploymentUpdateSchedule schedule (re_now env)"
| "handle env (Update_requirements requirements market) = deploymentUpdateRequirements requirements market (re_now env)"
| "handle env (Activate_revision n) = deploymentUpdateActiveRevision (re_kit env) n (re_now env)"
| "handle env (Create_revision jd) = deploymentCreateRevision (re_kit env) jd (re_now env)"
| "handle env (Duplicate name market autostart) = deploymentDuplicate env name market autostart"
| "handle env (Add_ssh_keys keys) = deploymentAddSshKeys env keys"
| "handle env (Revoke_ssh_keys keys) = deploymentRevokeSshKeys env keys"

text \<open>The middlewares: None lets the handler run on the deployment that was read.\<close>

definition admit :: "request \<Rightarrow> deployment_document option \<Rightarrow> route_reply option" where
  "admit r found = (case found of
     None \<Rightarrow> Some (Failed 404 M_NOT_FOUND)
   | Some d \<Rightarrow> if \<not> open_to_archived r \<and> d_status d = ARCHIVED then Some (Failed 500 M_ARCHIVED) else None)"

text \<open>A request whose middlewares read the store \<open>read\<close> and whose handler runs on \<open>s\<close>.\<close>

definition serve_stale :: "route_env \<Rightarrow> request \<Rightarrow> string \<Rightarrow> address \<Rightarrow> db \<Rightarrow> db \<Rightarrow> route_reply \<times> db" where
  "serve_stale env r deploymentId userId read s =
     (let found = getDeployment deploymentId userId read
      in case admit r found of
           Some reply \<Rightarrow> (reply, s)
         | None \<Rightarrow> handle env r (the found) userId s)"

definition serve :: "route_env \<Rightarrow> request \<Rightarrow> string \<Rightarrow> address \<Rightarrow> db \<Rightarrow> route_reply \<times> db" where
  "serve env r deploymentId userId s = serve_stale env r deploymentId userId s s"

end
