(* ===== verification/Access.thy ===== *)
theory Access
  imports Routes
begin

text \<open>
  Who may call what (\<open>src/router/middleware/authentication\<close>): the user's signature, the signature of
  the node a job runs on, host-manager's shared key, and the middlewares that read a deployment or a
  vault of its caller; the routes of a job's host (\<open>src/router/setup/setupJobsRoutes.ts\<close>,
  \<open>src/router/routes/get/jobs\<close>, \<open>src/router/routes/post/jobs\<close>) and host-manager's webhook
  (\<open>src/router/routes/post/webhooks\<close>).

  The web framework's router and the kit are parameters: which route a method and URL reach, with the
  value of its \<open>:job\<close> parameter; the job account of an address; whether headers carry a signature
  of an address over a message. A hook that sends a reply ends the request.
\<close>

section \<open>Requests\<close>

datatype http_method = GET | POST | PATCH | DELETE | OTHER_METHOD

record http_request =
  hr_method :: http_method
  hr_url :: string
  hr_user_id :: "string option"
  hr_authorization :: "string option"

datatype verdict = Pass | Answer nat string

definition ends_with :: "string \<Rightarrow> string \<Rightarrow> bool" where
  "ends_with s t \<longleftrightarrow> starts_with (rev s) (rev t)"

lemma ends_with_iff: "ends_with s t \<longleftrightarrow> (\<exists>p. s = p @ t)"
  unfolding ends_with_def starts_with_iff by (metis rev_append rev_rev_ident)

section \<open>The kit\<close>

datatype on_chain_state = Chain_queued | Chain_running | Chain_completed | Chain_stopped

datatype job_answer =
    Job_account on_chain_state address
  | No_job
  | Job_error string
  | Job_thrown

text \<open>\<open>validateHeaders(headers, signer, { expected_message, expiry })\<close>; None is a throw.\<close>

record access_kit =
  ak_job :: "address \<Rightarrow> job_answer"
  ak_signed :: "http_request \<Rightarrow> address \<Rightarrow> string option \<Rightarrow> nat \<Rightarrow> bool option"
  ak_host_manager_key :: "string option"

section \<open>Authentication\<close>

definition isJobHostRoute :: "string \<Rightarrow> http_method \<Rightarrow> bool" where
  "isJobHostRoute url method \<longleftrightarrow>
     starts_with url ''/deployments/jobs/'' \<and> \<not> (method = GET \<and> ends_with url ''results'')"

definition no_node :: address where "no_node = ''11111111111111111111111111111111''"

definition authJobHostMiddleware :: "access_kit \<Rightarrow> http_request \<Rightarrow> address option \<Rightarrow> verdict" where
  "authJobHostMiddleware kit req param =
     (if \<not> isJobHostRoute (hr_url req) (hr_method req) then Pass
      else case param of
        None \<Rightarrow> Answer 400 ''Bad Request''
      | Some job \<Rightarrow>
          if hr_authorization req = None then Answer 401 ''Unauthorized''
          else (case ak_job kit job of
            Job_account state node \<Rightarrow>
              if state = Chain_queued \<and> node \<noteq> no_node then Answer 403 ''Job must be running''
              else (case ak_signed kit req node (Some job) 300 of
                  Some valid \<Rightarrow> if valid then Pass else Answer 401 ''Unauthorized''
                | None \<Rightarrow> Answer 500 ''Ops something went wrong, please again.'')
          | No_job \<Rightarrow> Answer 404 ''Job Not Found''
          | Job_error message \<Rightarrow>
              if message = ''Account does not exist or has no data'' then Answer 404 ''Job Account not found''
              else Answer 500 ''Ops something went wrong, please again.''
          | Job_thrown \<Rightarrow> Answer 500 ''Ops something went wrong, please again.''))"

definition authMiddleware :: "access_kit \<Rightarrow> http_request \<Rightarrow> verdict" where
  "authMiddleware kit req =
     (case (hr_user_id req, hr_authorization req) of
        (Some userId, Some token) \<Rightarrow>
          (case ak_signed kit req userId None 300 of
             Some valid \<Rightarrow> if valid then Pass else Answer 401 ''Unauthorized''
           | None \<Rightarrow> Answer 500 ''Internal Server Error'')
      | _ \<Rightarrow> Answer 401 ''Unauthorized, missing or invalid headers'')"

definition isSameKey :: "string \<Rightarrow> string \<Rightarrow> bool" where
  "isSameKey given expected \<longleftrightarrow> length given = length expected \<and> given = expected"

definition authHostManagerWebhookMiddleware :: "access_kit \<Rightarrow> http_request \<Rightarrow> verdict" where
  "authHostManagerWebhookMiddleware kit req =
     (case (ak_host_manager_key kit, hr_authorization req) of
        (Some key, Some authorization) \<Rightarrow>
          if key = [] \<or> authorization = [] \<or> \<not> isSameKey authorization key then Answer 401 ''Unauthorized'' else Pass
      | _ \<Rightarrow> Answer 401 ''Unauthorized'')"

section \<open>The routes of a job's host\<close>

datatype host_reply =
    Definition_reply job_definition
  | Results_saved
  | Webhook_reply bool
  | Host_error nat string

definition jobDefinitionHandler :: "route_kit \<Rightarrow> address \<Rightarrow> db \<Rightarrow> host_reply" where
  "jobDefinitionHandler kit jobId s =
     (case find_one (\<lambda>j. j_job j = jobId) (db_jobs s) of
        None \<Rightarrow> Host_error 404 ''Job not found.''
      | Some job \<Rightarrow>
          (case find_one (\<lambda>r. r_deployment r = j_deployment job \<and> r_revision r = j_revision job) (db_revisions s) of
             None \<Rightarrow> Host_error 404 ''Failed to find the jobs definition.''
           | Some revision \<Rightarrow>
               Definition_reply (injectSsh kit (r_job_definition revision)
                 (case find_one (\<lambda>d. d_id d = j_deployment job) (db_deployments s) of
                    None \<Rightarrow> None | Some deployment \<Rightarrow> d_ssh_public_keys deployment))))"

definition jobResultsPostHandler :: "address \<Rightarrow> string \<Rightarrow> db \<Rightarrow> host_reply \<times> db" where
  "jobResultsPostHandler jobId body s =
     (case find_one (\<lambda>r. fst r = jobId) (db_results s) of
        Some results \<Rightarrow> (Host_error 400 ''Job has already been completed.'', s)
      | None \<Rightarrow> (Results_saved, s\<lparr>db_results := insert_one (jobId, body) (db_results s)\<rparr>))"

datatype host_route = Get_definition | Post_results

text \<open>
  A request to the scope of \<open>setupJobsRoutes\<close>: the router's match, the hook, the header schema
  (\<open>authorization\<close> is required), the handler.
\<close>

definition serve_host ::
    "access_kit \<Rightarrow> route_kit \<Rightarrow> (http_method \<Rightarrow> string \<Rightarrow> (host_route \<times> address) option) \<Rightarrow> http_request
     \<Rightarrow> string \<Rightarrow> db \<Rightarrow> host_reply \<times> db" where
  "serve_host kit rkit route req body s =
     (case route (hr_method req) (hr_url req) of
        None \<Rightarrow> (Host_error 404 ''Not Found'', s)
      | Some (r, job) \<Rightarrow>
          (case authJobHostMiddleware kit req (Some job) of
             Answer code message \<Rightarrow> (Host_error code message, s)
           | Pass \<Rightarrow>
               if hr_authorization req = None then (Host_error 400 ''headers must have required property'', s)
               else (case r of
                   Get_definition \<Rightarrow> (jobDefinitionHandler rkit job s, s)
                 | Post_results \<Rightarrow> jobResultsPostHandler job body s)))"

section \<open>Host-manager's webhook\<close>

text \<open>The cancellation is not awaited; a failed one is logged. \<open>db_cancelled\<close> records it as sent.\<close>

definition reservationWebhookHandler ::
    "string \<Rightarrow> reserved_node list \<Rightarrow> ms option \<Rightarrow> ms \<Rightarrow> db \<Rightarrow> host_reply \<times> db" where
  "reservationWebhookHandler key nodes holdExpiresAt now s =
     (case recordRequestFulfilment key nodes holdExpiresAt now s of
        (accepted, s') \<Rightarrow>
          (Webhook_reply accepted, if accepted then s' else s'\<lparr>db_cancelled := db_cancelled s' @ [key]\<rparr>))"

definition serve_webhook ::
    "access_kit \<Rightarrow> http_request \<Rightarrow> string \<Rightarrow> reserved_node list \<Rightarrow> ms option \<Rightarrow> ms \<Rightarrow> db \<Rightarrow> host_reply \<times> db" where
  "serve_webhook kit req key nodes holdExpiresAt now s =
     (case authHostManagerWebhookMiddleware kit req of
        Answer code message \<Rightarrow> (Host_error code message, s)
      | Pass \<Rightarrow> reservationWebhookHandler key nodes holdExpiresAt now s)"

section \<open>What a host may do\<close>

lemma host_verdict:
  "authJobHostMiddleware kit req (Some job) = Pass \<longleftrightarrow>
     (isJobHostRoute (hr_url req) (hr_method req) \<longrightarrow>
        hr_authorization req \<noteq> None \<and>
        (\<exists>state node. ak_job kit job = Job_account state node \<and> (state = Chain_queued \<longrightarrow> node = no_node) \<and>
           ak_signed kit req node (Some job) 300 = Some True))"
  by (auto simp: authJobHostMiddleware_def split: job_answer.splits option.splits)

definition example_http :: "http_method \<Rightarrow> string \<Rightarrow> string option \<Rightarrow> http_request" where
  "example_http method url token = \<lparr>hr_method = method, hr_url = url, hr_user_id = None, hr_authorization = token\<rparr>"

definition example_access :: access_kit where
  "example_access = \<lparr>ak_job = (\<lambda>a. Job_account Chain_running ''N''),
     ak_signed = (\<lambda>req a m e. Some (hr_authorization req = Some ''signed'')), ak_host_manager_key = Some ''key''\<rparr>"

text \<open>
  A router with the two routes for the job J. As the framework's does, it matches the path without
  its query and with its percent-escapes decoded (here, one escape of a letter).
\<close>

fun decoded :: "string \<Rightarrow> string" where
  "decoded [] = []"
| "decoded (c # s) =
     (if c = CHR ''%'' \<and> take 2 s = ''64'' then CHR ''d'' # decoded (drop 2 s) else c # decoded s)"

definition example_router :: "http_method \<Rightarrow> string \<Rightarrow> (host_route \<times> address) option" where
  "example_router method url =
     (let path = decoded (takeWhile (\<lambda>c. c \<noteq> CHR ''?'') url)
      in if method = GET \<and> path = ''/deployments/jobs/J/job-definition'' then Some (Get_definition, ''J'')
         else if method = POST \<and> path = ''/deployments/jobs/J/results'' then Some (Post_results, ''J'') else None)"

text \<open>
  C17: A job's results come from its node. A post to a URL that starts, as it was sent, with the
  jobs prefix changes the store only by the first results of one job, and only when it carries a
  fresh signature over this job's address by the node its account names; results once stored are
  never replaced.
\<close>

theorem results_come_from_the_node:
  assumes url: "starts_with (hr_url req) ''/deployments/jobs/''" "hr_method req = POST"
    and served: "serve_host kit rkit route req body s = (reply, s')" and "s' \<noteq> s"
  shows "\<exists>job state node. reply = Results_saved \<and> s' = s\<lparr>db_results := db_results s @ [(job, body)]\<rparr> \<and>
           job \<notin> fst ` set (db_results s) \<and> ak_job kit job = Job_account state node \<and>
           ak_signed kit req node (Some job) 300 = Some True"
proof -
  obtain r job where route: "route (hr_method req) (hr_url req) = Some (r, job)"
    using served \<open>s' \<noteq> s\<close> by (cases "route (hr_method req) (hr_url req)") (auto simp: serve_host_def)
  have pass: "authJobHostMiddleware kit req (Some job) = Pass" and r: "r = Post_results"
    and post: "jobResultsPostHandler job body s = (reply, s')"
    using served \<open>s' \<noteq> s\<close> route by (auto simp: serve_host_def split: verdict.splits host_route.splits if_splits)
  have "isJobHostRoute (hr_url req) (hr_method req)" using url by (simp add: isJobHostRoute_def)
  with pass obtain state node where host: "ak_job kit job = Job_account state node" "ak_signed kit req node (Some job) 300 = Some True"
    by (auto simp: host_verdict)
  have none: "find_one (\<lambda>r. fst r = job) (db_results s) = None"
    using post \<open>s' \<noteq> s\<close> by (auto simp: jobResultsPostHandler_def split: option.splits)
  with post have "reply = Results_saved" "s' = s\<lparr>db_results := db_results s @ [(job, body)]\<rparr>"
    by (simp_all add: jobResultsPostHandler_def insert_one_def)
  moreover have "job \<notin> fst ` set (db_results s)" using none by (auto simp: find_one_None_iff)
  ultimately show ?thesis using host by blast
qed

theorem results_come_from_the_node_witness:
  "\<exists>job state node. ak_job example_access job = Job_account state node \<and>
     ak_signed example_access (example_http POST ''/deployments/jobs/J/results'' (Some ''signed'')) node (Some job) 300 = Some True"
proof -
  let ?req = "example_http POST ''/deployments/jobs/J/results'' (Some ''signed'')"
  have "serve_host example_access rkit example_router ?req ''r'' empty_db =
      (Results_saved, empty_db\<lparr>db_results := [(''J'', ''r'')]\<rparr>)" for rkit
    by (simp add: serve_host_def example_router_def example_http_def authJobHostMiddleware_def isJobHostRoute_def
        example_access_def jobResultsPostHandler_def empty_db_def find_one_def insert_one_def)
  with results_come_from_the_node [of ?req example_access _ example_router "''r''" empty_db] show ?thesis
    by (fastforce simp: example_http_def empty_db_def)
qed

text \<open>
  But the hook looks at the URL as it was sent, the router at its decoded path. A request the
  router takes to a route of a job's host by a URL the hook does not take for one is served whatever
  its headers say, and the kit is never asked: a definition, with the deployment's keys, to a URL whose
  query ends in \<open>results\<close>, and results accepted for any job from a URL with one letter of its
  prefix percent-encoded.
\<close>

theorem host_routes_without_signature:
  assumes "route (hr_method req) (hr_url req) = Some (r, job)" and "\<not> isJobHostRoute (hr_url req) (hr_method req)"
    and "hr_authorization req \<noteq> None"
  shows "serve_host kit rkit route req body s =
           (case r of Get_definition \<Rightarrow> (jobDefinitionHandler rkit job s, s)
            | Post_results \<Rightarrow> jobResultsPostHandler job body s)"
  using assms by (cases "hr_authorization req") (simp_all add: serve_host_def authJobHostMiddleware_def)

theorem host_routes_without_signature_witness:
  "\<forall>kit rkit body s.
     serve_host kit rkit example_router (example_http GET ''/deployments/jobs/J/job-definition?x=results'' (Some ''none'')) body s =
     (jobDefinitionHandler rkit ''J'' s, s) \<and>
   serve_host kit rkit example_router (example_http POST ''/%64eployments/jobs/J/results'' (Some ''none'')) body s =
     jobResultsPostHandler ''J'' body s"
proof (intro allI conjI)
  fix kit rkit body s
  let ?get = "example_http GET ''/deployments/jobs/J/job-definition?x=results'' (Some ''none'')"
    and ?post = "example_http POST ''/%64eployments/jobs/J/results'' (Some ''none'')"
  have get: "example_router (hr_method ?get) (hr_url ?get) = Some (Get_definition, ''J'')"
    and post: "example_router (hr_method ?post) (hr_url ?post) = Some (Post_results, ''J'')"
    by (simp_all add: example_http_def example_router_def)
  have "\<not> isJobHostRoute (hr_url ?get) (hr_method ?get)" "\<not> isJobHostRoute (hr_url ?post) (hr_method ?post)"
    by (simp_all add: example_http_def isJobHostRoute_def ends_with_def)
  then show "serve_host kit rkit example_router ?get body s = (jobDefinitionHandler rkit ''J'' s, s)"
    and "serve_host kit rkit example_router ?post body s = jobResultsPostHandler ''J'' body s"
    using host_routes_without_signature [where route = example_router and req = ?get, OF get, of kit rkit body s]
      host_routes_without_signature [where route = example_router and req = ?post, OF post, of kit rkit body s]
    by (simp_all add: example_http_def)
qed

text \<open>
  The state check lets a queued job through. The account of a job that waits in a queue names
  no node, and this is the one case the check \<open>Job must be running\<close> does not refuse; the request is
  then checked against a signature of the zero address.
\<close>

theorem queued_job_is_not_refused:
  assumes "isJobHostRoute (hr_url req) (hr_method req)" and "hr_authorization req \<noteq> None"
    and "ak_job kit job = Job_account Chain_queued no_node"
  shows "authJobHostMiddleware kit req (Some job) \<noteq> Answer 403 ''Job must be running'' \<and>
         (authJobHostMiddleware kit req (Some job) = Pass) = (ak_signed kit req no_node (Some job) 300 = Some True)"
  using assms by (auto simp: authJobHostMiddleware_def split: option.splits)

theorem queued_job_is_not_refused_witness:
  "authJobHostMiddleware (example_access\<lparr>ak_job := (\<lambda>a. Job_account Chain_queued no_node)\<rparr>)
     (example_http POST ''/deployments/jobs/J/results'' (Some ''signed'')) (Some ''J'') = Pass"
  using queued_job_is_not_refused [of "example_http POST ''/deployments/jobs/J/results'' (Some ''signed'')"
      "example_access\<lparr>ak_job := (\<lambda>a. Job_account Chain_queued no_node)\<rparr>" "''J''"]
  by (simp add: example_http_def isJobHostRoute_def example_access_def)

section \<open>The webhook\<close>

lemma accepted_is_held:
  assumes "distinct (map t_id (db_tasks s))" "parse_object_id key = Some i"
    and "recordRequestFulfilment key nodes hold now s = (True, s')"
  shows "\<exists>t \<in> set (db_tasks s'). t_id t = i \<and> t_reservation t \<noteq> None"
proof -
  let ?waits = "\<lambda>t. t_id t = i \<and> t_reservation_request t \<noteq> None"
  let ?f = "\<lambda>t. t\<lparr>t_reservation := Some (toReservation nodes hold), t_due_at := now, t_reservation_request := None\<rparr>"
  show ?thesis
  proof (cases "matches ?waits (db_tasks s)")
    case True
    then obtain t where t: "t \<in> set (db_tasks s)" "?waits t" by (auto simp: matches_iff)
    have "s' = on_task ?waits ?f s" using assms(2,3) True by (simp add: recordRequestFulfilment_def Let_def)
    moreover have "?f t \<in> set (update_one ?waits ?f (db_tasks s))"
      by (rule update_one_mem [where k = t_id and P = ?waits, OF assms(1) t(1)]) (use t in auto)
    ultimately have "?f t \<in> set (db_tasks s')" by (simp add: on_task_def)
    then show ?thesis using t by (intro bexI [of _ "?f t"]) auto
  next
    case False
    with assms(2,3) obtain t where "find_one (\<lambda>t. t_id t = i) (db_tasks s) = Some t" "t_reservation t \<noteq> None" "s' = s"
      by (auto simp: recordRequestFulfilment_def Let_def split: option.splits)
    then show ?thesis by (auto dest: find_one_SomeD)
  qed
qed

text \<open>
  A fulfilment is kept or given back, never both and never neither. A delivery that carries
  host-manager's key is answered 200; either the nodes are on the task it names (stored now, or held
  already) and nothing is cancelled, or no task has changed and its reservation is cancelled. Any other
  delivery changes nothing.
\<close>

theorem fulfilment_kept_or_released:
  assumes ids: "distinct (map t_id (db_tasks s))"
    and served: "serve_webhook kit req key nodes hold now s = (reply, s')"
  shows "(reply = Webhook_reply True \<and> db_cancelled s' = db_cancelled s \<and>
           (\<exists>i. parse_object_id key = Some i \<and> (\<exists>t \<in> set (db_tasks s'). t_id t = i \<and> t_reservation t \<noteq> None))) \<or>
         (reply = Webhook_reply False \<and> s' = s\<lparr>db_cancelled := db_cancelled s @ [key]\<rparr>) \<or>
         (\<exists>code message. reply = Host_error code message \<and> code = 401 \<and> s' = s)"
proof (cases "authHostManagerWebhookMiddleware kit req")
  case (Answer code message)
  then have "code = 401" by (auto simp: authHostManagerWebhookMiddleware_def split: option.splits if_splits)
  with Answer served show ?thesis by (auto simp: serve_webhook_def)
next
  case Pass
  obtain accepted s1 where r: "recordRequestFulfilment key nodes hold now s = (accepted, s1)" by fastforce
  then have reply: "reply = Webhook_reply accepted"
    "s' = (if accepted then s1 else s1\<lparr>db_cancelled := db_cancelled s1 @ [key]\<rparr>)"
    using served Pass by (auto simp: serve_webhook_def reservationWebhookHandler_def)
  show ?thesis
  proof (cases accepted)
    case True
    then obtain i where i: "parse_object_id key = Some i" using r by (cases "parse_object_id key") (auto simp: recordRequestFulfilment_def)
    have "db_cancelled s1 = db_cancelled s"
      using r i by (auto simp: recordRequestFulfilment_def Let_def on_task_def split: option.splits if_splits)
    moreover have "\<exists>t \<in> set (db_tasks s1). t_id t = i \<and> t_reservation t \<noteq> None"
      using r True by (intro accepted_is_held [OF ids i]) simp
    ultimately show ?thesis using reply True i by auto
  next
    case False
    then have "s1 = s" using r by (auto simp: recordRequestFulfilment_def Let_def split: option.splits if_splits)
    with reply False show ?thesis by simp
  qed
qed

theorem fulfilment_kept_or_released_witness:
  "serve_webhook example_access ((example_http POST ''/webhooks/reservations'' (Some ''key''))) ''k'' [] None 0 empty_db =
     (Webhook_reply False, empty_db\<lparr>db_cancelled := [''k'']\<rparr>)"
proof -
  let ?req = "example_http POST ''/webhooks/reservations'' (Some ''key'')"
  have none: "parse_object_id ''k'' = None" by (simp add: parse_object_id_def)
  obtain reply s' where r: "serve_webhook example_access ?req ''k'' [] None 0 empty_db = (reply, s')" by fastforce
  have "distinct (map t_id (db_tasks empty_db))" by (simp add: empty_db_def)
  from fulfilment_kept_or_released [OF this r] none show ?thesis
    using r by (auto simp: serve_webhook_def authHostManagerWebhookMiddleware_def example_access_def example_http_def
        isSameKey_def reservationWebhookHandler_def split: prod.splits)
      (simp_all add: empty_db_def)
qed

end
