(* ===== verification/Route_Safety.thy ===== *)
theory Route_Safety
  imports Routes
begin

text \<open>
  What the requests of one caller can reach. A request is confined to the deployments it names:
  the relation \<open>confined\<close> says which documents keep, and it holds of every handler on every store,
  also of a handler that runs on a deployment that was read before something else wrote.
\<close>

section \<open>Confined steps\<close>

text \<open>Whose deployment, and which deployments, a step may touch.\<close>

definition confined :: "address \<Rightarrow> string set \<Rightarrow> db \<Rightarrow> db \<Rightarrow> bool" where
  "confined userId ids s s' \<longleftrightarrow>
     filter (\<lambda>d. \<not> (d_owner d = userId \<and> d_id d \<in> ids)) (db_deployments s') =
       filter (\<lambda>d. \<not> (d_owner d = userId \<and> d_id d \<in> ids)) (db_deployments s) \<and>
     filter (\<lambda>j. j_deployment j \<notin> ids) (db_jobs s') = filter (\<lambda>j. j_deployment j \<notin> ids) (db_jobs s) \<and>
     filter (\<lambda>r. r_deployment r \<notin> ids) (db_revisions s') = filter (\<lambda>r. r_deployment r \<notin> ids) (db_revisions s) \<and>
     filter (\<lambda>e. e_deploymentId e \<notin> ids) (db_events s') = filter (\<lambda>e. e_deploymentId e \<notin> ids) (db_events s) \<and>
     set (db_jobs s') \<subseteq> set (db_jobs s) \<and> set (db_results s') \<subseteq> set (db_results s) \<and>
     (\<forall>x \<in> set (db_results s) - set (db_results s'). \<exists>j \<in> set (db_jobs s). j_job j = fst x \<and> j_deployment j \<in> ids) \<and>
     db_tasks s' = db_tasks s \<and> db_vaults s' = db_vaults s \<and> db_locks s' = db_locks s \<and> db_frps s' = db_frps s"

lemma confined_refl [simp, intro]: "confined userId ids s s"
  by (simp add: confined_def)

lemma confined_trans [trans]:
  assumes "confined userId ids s t" "confined userId ids t u" shows "confined userId ids s u"
proof -
  have "\<exists>j \<in> set (db_jobs s). j_job j = fst x \<and> j_deployment j \<in> ids"
    if x: "x \<in> set (db_results s) - set (db_results u)" for x
  proof (cases "x \<in> set (db_results t)")
    case True
    with x assms(2) have "\<exists>j \<in> set (db_jobs t). j_job j = fst x \<and> j_deployment j \<in> ids"
      unfolding confined_def by blast
    with assms(1) show ?thesis unfolding confined_def by blast
  next
    case False
    with x assms(1) show ?thesis unfolding confined_def by blast
  qed
  moreover have "set (db_jobs u) \<subseteq> set (db_jobs s)" "set (db_results u) \<subseteq> set (db_results s)"
    using assms unfolding confined_def by (blast intro: subset_trans)+
  ultimately show ?thesis using assms unfolding confined_def by simp
qed

lemma filter_weaken:
  assumes "filter P xs = filter P ys" "\<And>x. Q x \<Longrightarrow> P x" shows "filter Q xs = filter Q ys"
proof -
  have "filter Q zs = filter Q (filter P zs)" for zs
    using assms(2) by (induction zs) auto
  with assms(1) show ?thesis by metis
qed

lemma confined_mono:
  assumes "confined userId ids s s'" "ids \<subseteq> ids'" shows "confined userId ids' s s'"
proof -
  have "filter (\<lambda>d. \<not> (d_owner d = userId \<and> d_id d \<in> ids')) (db_deployments s') =
      filter (\<lambda>d. \<not> (d_owner d = userId \<and> d_id d \<in> ids')) (db_deployments s)"
    "filter (\<lambda>j. j_deployment j \<notin> ids') (db_jobs s') = filter (\<lambda>j. j_deployment j \<notin> ids') (db_jobs s)"
    "filter (\<lambda>r. r_deployment r \<notin> ids') (db_revisions s') = filter (\<lambda>r. r_deployment r \<notin> ids') (db_revisions s)"
    "filter (\<lambda>e. e_deploymentId e \<notin> ids') (db_events s') = filter (\<lambda>e. e_deploymentId e \<notin> ids') (db_events s)"
    using assms by (auto simp: confined_def intro: filter_weaken)
  with assms show ?thesis unfolding confined_def by blast
qed

text \<open>The interface: a family of steps, each confined to the deployments it names.\<close>

locale confined_steps =
  fixes step :: "'e \<Rightarrow> db \<Rightarrow> db" and names :: "'e \<Rightarrow> string set" and userId :: address
  assumes step_confined: "confined userId (names e) s (step e s)"
begin

lemma sequence_confined: "confined userId (\<Union>e \<in> set es. names e) s (fold step es s)"
proof (induction es arbitrary: s)
  case (Cons e es)
  have "confined userId (\<Union>e \<in> set (e # es). names e) s (step e s)"
    by (rule confined_mono [OF step_confined]) simp
  also have "confined userId (\<Union>e \<in> set (e # es). names e) (step e s) (fold step es (step e s))"
    by (rule confined_mono [OF Cons]) auto
  finally show ?case by simp
qed simp

lemma others_keep:
  "d \<in> set (db_deployments s) \<Longrightarrow> d_owner d \<noteq> userId \<Longrightarrow> d \<in> set (db_deployments (fold step es s))"
proof -
  assume d: "d \<in> set (db_deployments s)" "d_owner d \<noteq> userId"
  let ?P = "\<lambda>d. \<not> (d_owner d = userId \<and> d_id d \<in> (\<Union>e \<in> set es. names e))"
  have "d \<in> set (filter ?P (db_deployments s))" using d by simp
  also have "filter ?P (db_deployments s) = filter ?P (db_deployments (fold step es s))"
    using sequence_confined [of es s] by (simp add: confined_def)
  finally show ?thesis by simp
qed

end

section \<open>The writes\<close>

lemma filter_update_one:
  "(\<And>x. P x \<Longrightarrow> \<not> Q x \<and> \<not> Q (f x)) \<Longrightarrow> filter Q (update_one P f xs) = filter Q xs"
  by (induction xs) auto

lemma filter_delete_one: "(\<And>x. P x \<Longrightarrow> \<not> Q x) \<Longrightarrow> filter Q (delete_one P xs) = filter Q xs"
  by (induction xs) auto

lemma set_delete_one: "set (delete_one P xs) \<subseteq> set xs"
  by (induction xs) auto

lemma filter_delete_many: "(\<And>x. P x \<Longrightarrow> \<not> Q x) \<Longrightarrow> filter Q (delete_many P xs) = filter Q xs"
  by (induction xs) (auto simp: delete_many_def)

lemma on_deployment_proj [simp]:
  "db_results (on_deployment P f s) = db_results s" "db_deployments (on_deployment P f s) = update_one P f (db_deployments s)"
  "db_jobs (on_deployment P f s) = db_jobs s" "db_revisions (on_deployment P f s) = db_revisions s"
  "db_events (on_deployment P f s) = db_events s" "db_tasks (on_deployment P f s) = db_tasks s"
  "db_vaults (on_deployment P f s) = db_vaults s" "db_locks (on_deployment P f s) = db_locks s"
  "db_frps (on_deployment P f s) = db_frps s"
  by (simp_all add: on_deployment_def)

lemma confined_on_deployment:
  assumes "\<And>e. P e \<Longrightarrow> d_owner e = userId \<and> d_id e \<in> ids"
    and "\<And>e. P e \<Longrightarrow> d_owner (f e) = d_owner e \<and> d_id (f e) = d_id e"
  shows "confined userId ids s (on_deployment P f s)"
proof -
  have "filter (\<lambda>d. \<not> (d_owner d = userId \<and> d_id d \<in> ids)) (update_one P f (db_deployments s)) =
      filter (\<lambda>d. \<not> (d_owner d = userId \<and> d_id d \<in> ids)) (db_deployments s)"
    using assms by (intro filter_update_one) auto
  then show ?thesis by (simp add: confined_def)
qed

lemma confined_repin: "i \<in> ids \<Longrightarrow> confined userId ids s (repin i n hash s)"
  by (auto simp: confined_def repin_def intro!: filter_update_one)

lemma confined_drop_revision:
  "i \<in> ids \<Longrightarrow> confined userId ids s (s\<lparr>db_revisions := delete_one (\<lambda>r. r_deployment r = i \<and> r_revision r = n) (db_revisions s)\<rparr>)"
  by (auto simp: confined_def intro!: filter_delete_one)

lemma confined_insert_revision:
  "insert_revision r s = Some s' \<Longrightarrow> r_deployment r \<in> ids \<Longrightarrow> confined userId ids s s'"
  by (auto simp: insert_revision_def confined_def insert_one_def split: if_splits)

lemma confined_insert_deployment:
  "insert_deployment d s = Some s' \<Longrightarrow> d_owner d = userId \<Longrightarrow> d_id d \<in> ids \<Longrightarrow> confined userId ids s s'"
  by (auto simp: insert_deployment_def confined_def insert_one_def split: if_splits)

lemma insert_event_results [simp]: "db_results (insert_event e s) = db_results s"
  by (simp add: insert_event_def)

lemma confined_insert_event: "e_deploymentId e \<in> ids \<Longrightarrow> confined userId ids s (insert_event e s)"
  by (simp add: confined_def) (simp add: insert_event_def insert_one_def)

section \<open>The handlers\<close>

lemma owned_iff: "owned i userId e \<longleftrightarrow> d_id e = i \<and> d_owner e = userId"
  by (simp add: owned_def)

text \<open>The writes as continuations of a confined step.\<close>

lemma confined_own:
  assumes "confined userId ids s s1" "d_id d \<in> ids" "\<And>e. P e \<Longrightarrow> owned (d_id d) userId e"
    and "\<And>e. d_owner (f e) = d_owner e \<and> d_id (f e) = d_id e"
  shows "confined userId ids s (on_deployment P f s1)"
  by (rule confined_trans [OF assms(1) confined_on_deployment]) (use assms(2-4) in \<open>auto simp: owned_iff\<close>)

lemmas confined_then_repin = confined_trans [OF _ confined_repin]
  and confined_then_drop = confined_trans [OF _ confined_drop_revision]
  and confined_then_event = confined_trans [OF _ confined_insert_event]
  and confined_then_deployment = confined_trans [OF _ confined_insert_deployment]

lemma repin_deployments [simp]: "db_deployments (repin i n hash s) = db_deployments s"
  by (simp add: repin_def)

lemma startDeploymentUpdate_keys [simp]:
  "d_id (startDeploymentUpdate now d) = d_id d" "d_owner (startDeploymentUpdate now d) = d_owner d"
  "d_active_revision (startDeploymentUpdate now d) = d_active_revision d"
  "d_confidential (startDeploymentUpdate now d) = d_confidential d"
  "d_ssh_public_keys (startDeploymentUpdate now d) = d_ssh_public_keys d"
  "d_idempotency_key (startDeploymentUpdate now d) = d_idempotency_key d"
  "d_vault (startDeploymentUpdate now d) = d_vault d"
  by (simp_all add: startDeploymentUpdate_def)

lemmas field_routes = deploymentStart_def deploymentStop_def deploymentArchive_def deploymentUpdateReplicaCount_def
  deploymentUpdateTimeout_def deploymentUpdateName_def deploymentUpdateMarket_def deploymentUpdateSchedule_def
  deploymentUpdateStartupTimeout_def deploymentUpdateRequirements_def Let_def

lemma confined_delete: "d_id d \<in> ids \<Longrightarrow> confined userId ids s (snd (deploymentDelete d userId s))"
  unfolding deploymentDelete_def Let_def
  by (auto simp: confined_def owned_iff intro!: filter_delete_one filter_delete_many dest: set_mp [OF set_delete_one] split: if_splits)

lemma confined_activate: "d_id d \<in> ids \<Longrightarrow> confined userId ids s (snd (deploymentUpdateActiveRevision kit n now d userId s))"
  unfolding deploymentUpdateActiveRevision_def Let_def
  by (auto split: option.splits if_splits intro!: confined_own [where d = d] confined_repin)

lemma createNewDeploymentRevision_keys:
  "createNewDeploymentRevision kit n i vault jd confidential keys now = Some (r, endpoints, stored) \<Longrightarrow>
     r_deployment r = i \<and> r_revision r = Suc n"
  by (auto simp: createNewDeploymentRevision_def Let_def split: prod.splits option.splits if_splits)

lemma createDeployment_keys:
  "createDeployment kit fresh body vault owner now = Some (d, r) \<Longrightarrow>
     d_id d = fresh \<and> d_owner d = owner \<and> d_vault d = vault \<and> d_status d = DRAFT \<and> d_run d = None \<and>
     d_active_revision d = 1 \<and> r_deployment r = fresh \<and> r_revision r = 1"
  by (auto simp: createDeployment_def Let_def dest!: createNewDeploymentRevision_keys
    split: prod.splits option.splits if_splits deployment_strategy.splits)

lemma confined_create_revision: "d_id d \<in> ids \<Longrightarrow> confined userId ids s (snd (deploymentCreateRevision kit jd now d userId s))"
  unfolding deploymentCreateRevision_def Let_def
  by (auto split: prod.splits option.splits if_splits dest!: createNewDeploymentRevision_keys
    intro!: confined_then_drop confined_own [where d = d] intro: confined_insert_revision)

text \<open>What a copy leaves: nothing, or the new deployment and its revision, started or not.\<close>

lemma createDeployment_key:
  "createDeployment kit fresh body vault owner now = Some (d, r) \<Longrightarrow>
     d_idempotency_key d = (if truthy_string (cb_idempotency_key body) then cb_idempotency_key body else None)"
  unfolding createDeployment_def Let_def
  by (auto split: prod.splits option.splits if_splits deployment_strategy.splits)

lemma duplicate_cases:
  obtains (refused) "snd (deploymentDuplicate env name market autostart d userId s) = s"
  | (copied) body d' r s1 s2 where "createDeployment (re_kit env) (re_fresh env) body (d_vault d) userId (re_now env) = Some (d', r)"
      "insert_revision r s = Some s1" "s2 = s1\<lparr>db_deployments := insert_one d' (db_deployments s1)\<rparr>"
      "snd (deploymentDuplicate env name market autostart d userId s) =
         (if autostart then on_deployment (owned (d_id d') userId) (startDeploymentUpdate (re_now env)) s2 else s2)"
proof (cases "find_revision (d_id d) (d_active_revision d) s")
  case (Some active)
  note found = Some
  let ?copy = "duplicateDeployment (re_kit env) (re_fresh env) d (r_job_definition active)
    (nullish name (d_name d @ '' (copy)'')) market userId (re_now env)"
  show ?thesis
  proof (cases "\<exists>x s1. ?copy = Some x \<and> insert_revision (snd x) s = Some s1")
    case True
    then obtain d' r s1 where c: "?copy = Some (d', r)" and s1: "insert_revision r s = Some s1" by auto
    have "d_idempotency_key d' = None"
      using createDeployment_key [OF c [unfolded duplicateDeployment_def]] by simp
    then have out: "snd (deploymentDuplicate env name market autostart d userId s) =
        (if autostart then on_deployment (owned (d_id d') userId) (startDeploymentUpdate (re_now env))
           (s1\<lparr>db_deployments := insert_one d' (db_deployments s1)\<rparr>)
         else s1\<lparr>db_deployments := insert_one d' (db_deployments s1)\<rparr>)"
      by (simp add: deploymentDuplicate_def found c s1 insert_deployment_def)
    show ?thesis by (rule copied [OF c [unfolded duplicateDeployment_def] s1 refl out])
  next
    case False
    then show ?thesis by (intro refused) (auto simp: deploymentDuplicate_def found split: option.splits)
  qed
qed (rule refused, simp add: deploymentDuplicate_def)

lemma confined_duplicate:
  assumes "d_id d \<in> ids" "re_fresh env \<in> ids"
  shows "confined userId ids s (snd (deploymentDuplicate env name market autostart d userId s))"
proof (cases rule: duplicate_cases [of env name market autostart d userId s])
  case (copied body d' r s1 s2)
  note keys = createDeployment_keys [OF copied(1)]
  have "confined userId ids s s1" using confined_insert_revision [OF copied(2)] keys assms(2) by simp
  also have "confined userId ids s1 s2"
    using keys assms(2) by (simp add: confined_def copied(3) insert_one_def)
  finally have s2: "confined userId ids s s2" .
  moreover have "confined userId ids s (on_deployment (owned (d_id d') userId) (startDeploymentUpdate (re_now env)) s2)"
    using keys assms(2) by (intro confined_own [where d = d'] s2) simp_all
  ultimately show ?thesis by (simp add: copied(4))
qed simp

text \<open>What a committed set of keys leaves: nothing, or the pin and the keys, with or without the event.\<close>

abbreviation stored_keys :: "string list \<Rightarrow> string list option" where
  "stored_keys keys \<equiv> (if keys = [] then None else Some keys)"

lemma commit_cases:
  obtains (refused) m where "commitDeploymentSshKeys env keys delta operation event d userId s = (Failed 500 m, s)"
  | (stored) s1 where "repin_active (re_kit env) d (stored_keys keys) s = Inr s1"
      "snd (commitDeploymentSshKeys env keys delta operation event d userId s) =
         store_keys (stored_keys keys) (re_now env) d userId s1 \<or>
       (\<exists>message. snd (commitDeploymentSshKeys env keys delta operation event d userId s) =
         insert_event (keys_event (d_id d) message (re_now env)) (store_keys (stored_keys keys) (re_now env) d userId s1))"
proof (cases "matches (\<lambda>w. w_vault w = d_vault d \<and> w_owner w = userId) (db_vaults s)")
  case True
  show ?thesis
  proof (cases "repin_active (re_kit env) d (stored_keys keys) s")
    case (Inl m)
    with True show ?thesis by (intro refused [of m]) (simp add: commitDeploymentSshKeys_def)
  next
    case (Inr s1)
    show ?thesis
      by (rule stored [OF Inr])
        (auto simp: commitDeploymentSshKeys_def Let_def Inr True split: option.split)
  qed
qed (rule refused [of M_FAILED_TO_FIND_KEY], simp add: commitDeploymentSshKeys_def)

lemma confined_repin_active: "repin_active kit d keys s = Inr s1 \<Longrightarrow> d_id d \<in> ids \<Longrightarrow> confined userId ids s s1"
  by (auto simp: repin_active_def intro: confined_repin split: if_splits option.splits)

lemma confined_commit:
  assumes "d_id d \<in> ids"
  shows "confined userId ids s (snd (commitDeploymentSshKeys env keys delta operation event d userId s))"
proof (cases rule: commit_cases [of env keys delta operation event d userId s])
  case (stored s1)
  have "confined userId ids s (store_keys (stored_keys keys) (re_now env) d userId s1)"
    unfolding store_keys_def
    by (rule confined_own [OF confined_repin_active [OF stored(1) assms] assms]) simp_all
  moreover have "e_deploymentId (keys_event (d_id d) message (re_now env)) \<in> ids" for message
    using assms by (simp add: keys_event_def)
  ultimately show ?thesis using stored(2) confined_then_event by metis
qed simp

text \<open>The deployments a request may touch: the one of its path, and the copy it makes.\<close>

definition touches :: "route_env \<Rightarrow> request \<Rightarrow> string \<Rightarrow> string set" where
  "touches env r deploymentId = insert deploymentId (case r of Duplicate _ _ _ \<Rightarrow> {re_fresh env} | _ \<Rightarrow> {})"

lemma confined_handle: "confined userId (touches env r (d_id d)) s (snd (handle env r d userId s))"
proof (cases r)
  case (Duplicate name market autostart)
  then show ?thesis by (simp add: confined_duplicate touches_def)
next
  case (Add_ssh_keys keys)
  then show ?thesis by (auto simp: deploymentAddSshKeys_def Let_def touches_def confined_commit split: option.splits)
next
  case (Revoke_ssh_keys keys)
  then show ?thesis by (simp add: deploymentRevokeSshKeys_def Let_def touches_def confined_commit)
qed (auto simp: field_routes touches_def confined_delete confined_activate confined_create_revision intro!: confined_own [where d = d])

lemma getDeployment_owned: "getDeployment i userId s = Some d \<Longrightarrow> d \<in> set (db_deployments s) \<and> owned i userId d"
  by (auto simp: getDeployment_def dest: find_one_SomeD)

lemma confined_serve_stale: "confined userId (touches env r i) s (snd (serve_stale env r i userId read s))"
proof (cases "getDeployment i userId read")
  case (Some d)
  then have "d_id d = i" using getDeployment_owned [of i userId read d] by (simp add: owned_iff)
  with Some show ?thesis using confined_handle [of userId env r d s]
    by (auto simp: serve_stale_def Let_def split: option.splits)
qed (simp add: serve_stale_def admit_def)

interpretation requests: confined_steps
  "\<lambda>(env, r, i, read) s. snd (serve_stale env r i userId read s)" "\<lambda>(env, r, i, read). touches env r i" userId
  for userId
  by unfold_locales (auto simp: confined_serve_stale)


section \<open>Starting\<close>

lemma getDeployment_found:
  assumes "distinct (map d_id (db_deployments s))" "d \<in> set (db_deployments s)" "owned i userId d"
  shows "getDeployment i userId s = Some d"
proof -
  obtain e where e: "getDeployment i userId s = Some e"
    using assms(2,3) by (cases "getDeployment i userId s") (auto simp: getDeployment_def find_one_None_iff)
  then have "e = d"
    using getDeployment_owned [OF e] assms keyed_unique [OF assms(1)] by (auto simp: owned_iff)
  with e show ?thesis by simp
qed

lemma find_updated:
  assumes "distinct (map d_id ds)" "d \<in> set ds" "P d"
    and "\<And>e. P e \<Longrightarrow> d_id e = d_id d" "\<And>e. P e \<Longrightarrow> d_id (f e) = d_id e"
  shows "find_one (\<lambda>e. d_id e = d_id d) (update_one P f ds) = Some (f d)"
proof (rule find_one_keyed)
  show "distinct (map d_id (update_one P f ds))" by (rule distinct_update_one [where k = d_id and P = P and f = f, OF assms(1) assms(5)])
  show "f d \<in> set (update_one P f ds)" by (rule update_one_mem [where k = d_id and P = P, OF assms(1-3)]) (rule assms(4))
  show "d_id (f d) = d_id d" by (rule assms(5)) (rule assms(3))
qed

text \<open>
  C30: a start moves a startable deployment to STARTING in a new run; the listener of that status then
  queues a LIST of the new run that is wanted, and no LIST left over from an earlier run is.
\<close>

theorem start_renews_run:
  fixes s :: db and d :: deployment_document and env :: route_env and senv :: strategy_env
  defines "s1 \<equiv> snd (serve env Start (d_id d) (d_owner d) s)"
    and "d1 \<equiv> startDeploymentUpdate (re_now env) d"
  defines "s2 \<equiv> deploymentStatusStartingUpdate senv d1 s1"
  assumes s: "distinct (map d_id (db_deployments s))" "d \<in> set (db_deployments s)"
    and status: "d_status d \<in> {DRAFT, STOPPED, ERROR, INSUFFICIENT_FUNDS}"
  shows "fst (serve env Start (d_id d) (d_owner d) s) = Status_reply STARTING (re_now env) \<and>
    d1 \<in> set (db_deployments s1) \<and> d_status d1 = STARTING \<and> d_run d1 = Some (Suc (nullish (d_run d) 0)) \<and>
    (\<exists>t \<in> set (db_tasks s2). t_task t = LIST \<and> t_deploymentId t = d_id d \<and> t_run t = d_run d1 \<and> checkTaskWanted s2 t) \<and>
    (\<forall>t \<in> set (db_tasks s2). t_task t = LIST \<longrightarrow> t_deploymentId t = d_id d \<longrightarrow> t_run t \<notin> {None, d_run d1} \<longrightarrow>
       \<not> checkTaskWanted s2 t)"
proof -
  have own: "owned (d_id d) (d_owner d) d" by (simp add: owned_iff)
  have served: "serve env Start (d_id d) (d_owner d) s =
      (Status_reply STARTING (re_now env), on_deployment (owned (d_id d) (d_owner d)) (startDeploymentUpdate (re_now env)) s)"
    using status by (auto simp: serve_def serve_stale_def getDeployment_found [OF s own] admit_def open_to_archived_def deploymentStart_def)
  have d1: "d_status d1 = STARTING" "d_id d1 = d_id d" "d_run d1 = Some (Suc (nullish (d_run d) 0))"
    by (simp_all add: d1_def startDeploymentUpdate_def)
  let ?ds = "db_deployments s1"
  have ds1: "?ds = update_one (owned (d_id d) (d_owner d)) (startDeploymentUpdate (re_now env)) (db_deployments s)"
    by (simp add: s1_def served)
  have dist: "distinct (map d_id ?ds)" unfolding ds1 using s(1) by (simp add: distinct_update_one)
  have in1: "d1 \<in> set ?ds" unfolding ds1 d1_def
    by (rule update_one_mem [where k = d_id and P = "owned (d_id d) (d_owner d)", OF s own]) (simp add: owned_iff)
  have cur: "find_one (\<lambda>e. d_id e = d_id d) ?ds = Some d1" using find_one_keyed [OF dist in1] d1 by simp
  let ?doc = "scheduled_doc s1 LIST (d_id d) (list_due senv d1) (se_now senv) no_options"
  have s2: "db_tasks s2 = db_tasks s1 @ [?doc]"
    "db_deployments s2 = update_one (\<lambda>e. d_id e = d_id d \<and> d_status e = STARTING) (\<lambda>e. e\<lparr>d_status := RUNNING\<rparr>) ?ds"
    by (simp_all add: s2_def deploymentStatusStartingUpdate_def scheduleTask_tasks scheduleTask_deployments d1
      scheduleTask_created_iff no_options_def)
  have cur2: "find_one (\<lambda>e. d_id e = d_id d) (db_deployments s2) = Some (d1\<lparr>d_status := RUNNING\<rparr>)"
    unfolding s2(2) using find_updated [OF dist in1, of "\<lambda>e. d_id e = d_id d \<and> d_status e = STARTING"] d1 by simp
  have doc: "t_task ?doc = LIST" "t_deploymentId ?doc = d_id d" "t_run ?doc = d_run d1"
    "t_active_revision ?doc = Some (d_active_revision d1)" "t_job ?doc = None"
    by (simp_all add: scheduled_doc_def scheduled_run_def scheduled_revision_def scheduled_current_def cur no_options_def)
  have "checkTaskWanted s2 ?doc" using doc by (simp add: checkTaskWanted_def cur2 wanted_defs)
  moreover have "\<not> checkTaskWanted s2 t"
    if "t_task t = LIST" "t_deploymentId t = d_id d" "t_run t \<notin> {None, d_run d1}" for t
    using that d1 by (auto simp: checkTaskWanted_def cur2 wanted_defs)
  ultimately show ?thesis
    using served in1 d1 doc by (auto simp: s2)
qed

section \<open>Examples\<close>

definition example_definition :: job_definition where
  "example_definition = \<lparr>jd_ops = [], jd_ssh_public_keys = None, jd_deployment_id = None, jd_trigger = None, jd_rest = []\<rparr>"

text \<open>A kit whose pin spells the keys out.\<close>

definition example_route_kit :: route_kit where
  "example_route_kit = \<lparr>rk_createHash = (\<lambda>x. x), rk_getExposeIdHash = (\<lambda>h op p. h @ op), rk_exposedPortCount = (\<lambda>_. 1),
     rk_pin = (\<lambda>jd. Some (''Qm'' @ concat (nullish (jd_ssh_public_keys jd) []))),
     rk_getSshPublicKeys = (\<lambda>jd. nullish (jd_ssh_public_keys jd) []),
     rk_withSshPublicKeys = (\<lambda>jd keys. jd\<lparr>jd_ssh_public_keys := (if keys = [] then None else Some keys)\<rparr>),
     rk_getSshKeyIdentity = (\<lambda>k. k), rk_isValidSshPublicKey = (\<lambda>k. k \<noteq> []), rk_requireSshPublicKeySet = (\<lambda>_. None),
     rk_validateJobDefinition = (\<lambda>_. []), rk_frps_public_address = ''frps'', rk_confidential_by_default = False,
     rk_confidential_ipfs_pin = ''QmC'', rk_confidential_definition = example_definition, rk_default_minutes = 20\<rparr>"

definition example_route_env :: route_env where
  "example_route_env = \<lparr>re_kit = example_route_kit, re_now = 5, re_fresh = ''F'', re_worker_runs = True,
     re_job_opens = (\<lambda>_. True), re_node_takes = (\<lambda>_ _. True)\<rparr>"

definition example_revision :: "string \<Rightarrow> nat \<Rightarrow> string \<Rightarrow> revision_document" where
  "example_revision i n hash = \<lparr>r_revision = n, r_deployment = i, r_ipfs_definition_hash = hash,
     r_job_definition = example_definition, r_created_at = 0\<rparr>"

text \<open>A deployment with the keys \<open>K\<close> and \<open>L\<close>, its two revisions and its vault.\<close>

definition keyed_db :: db where
  "keyed_db = empty_db\<lparr>db_deployments := [(blank_deployment ''D'' ''O'' RUNNING)\<lparr>d_ssh_public_keys := Some [''K'', ''L'']\<rparr>],
     db_revisions := [example_revision ''D'' 1 ''QmKL'', example_revision ''D'' 2 ''Qm''],
     db_vaults := [\<lparr>w_vault = ''V'', w_vault_key = [], w_owner = ''O'', w_created_at = 0\<rparr>]\<rparr>"

lemmas example_defs = example_definition_def example_route_kit_def example_route_env_def example_revision_def keyed_db_def
  empty_db_def blank_deployment_def

theorem start_renews_run_witness:
  "fst (serve example_route_env Start ''D'' ''O'' (empty_db\<lparr>db_deployments := [blank_deployment ''D'' ''O'' STOPPED]\<rparr>)) =
     Status_reply STARTING 5"
  using start_renews_run [of "empty_db\<lparr>db_deployments := [blank_deployment ''D'' ''O'' STOPPED]\<rparr>" "blank_deployment ''D'' ''O'' STOPPED"
    example_route_env]
  by (simp add: example_route_env_def)

end
