(* ===== verification/Pins.thy ===== *)
theory Pins
  imports Route_Safety
begin

text \<open>
  The invariant that ties a deployment's SSH keys to the definition pinned for its jobs, over the
  requests of \<open>Routes\<close>: it holds as long as a request runs on what its middlewares read, and
  a key that was revoked in between comes back otherwise.
\<close>

section \<open>The invariant\<close>

text \<open>
  A job of a deployment that is not confidential is posted with the hash of the active revision, so
  that hash has to be the pin of the revision's definition with the keys the deployment holds now.
\<close>

definition pin_current :: "route_kit \<Rightarrow> revision_document list \<Rightarrow> deployment_document \<Rightarrow> bool" where
  "pin_current kit revisions d \<longleftrightarrow> d_confidential d \<or>
     (\<forall>r \<in> set revisions. r_deployment r = d_id d \<longrightarrow> r_revision r = d_active_revision d \<longrightarrow>
        rk_pin kit (injectSsh kit (r_job_definition r) (d_ssh_public_keys d)) = Some (r_ipfs_definition_hash r))"

definition pins_current :: "route_kit \<Rightarrow> db \<Rightarrow> bool" where
  "pins_current kit s \<longleftrightarrow> distinct (map d_id (db_deployments s)) \<and>
     distinct (map (\<lambda>r. (r_deployment r, r_revision r)) (db_revisions s)) \<and>
     list_all (pin_current kit (db_revisions s)) (db_deployments s)"

lemma pins_on_deployment:
  assumes "pins_current kit s" "\<And>e. P e \<Longrightarrow> d_id (f e) = d_id e"
    and "\<And>e. e \<in> set (db_deployments s) \<Longrightarrow> P e \<Longrightarrow> pin_current kit (db_revisions s) e \<Longrightarrow> pin_current kit (db_revisions s) (f e)"
  shows "pins_current kit (on_deployment P f s)"
proof -
  have "pin_current kit (db_revisions s) e" if "e \<in> set (update_one P f (db_deployments s))" for e
    using that assms(1,3) by (elim update_one_cases) (auto simp: pins_current_def list_all_iff)
  then show ?thesis
    using assms(1,2) by (auto simp: pins_current_def list_all_iff distinct_update_one)
qed

lemma pins_field:
  assumes "pins_current kit s"
    and "\<And>e. d_id (f e) = d_id e \<and> d_confidential (f e) = d_confidential e \<and>
      d_active_revision (f e) = d_active_revision e \<and> d_ssh_public_keys (f e) = d_ssh_public_keys e"
  shows "pins_current kit (on_deployment P f s)"
  using assms by (intro pins_on_deployment) (simp_all add: pin_current_def)

lemma pins_same:
  "db_deployments s' = db_deployments s \<Longrightarrow> db_revisions s' = db_revisions s \<Longrightarrow> pins_current kit s' = pins_current kit s"
  by (simp add: pins_current_def)

lemma pin_current_subset:
  "pin_current kit rs d \<Longrightarrow> (\<And>r. r \<in> set rs' \<Longrightarrow> r_deployment r = d_id d \<Longrightarrow> r_revision r = d_active_revision d \<Longrightarrow> r \<in> set rs) \<Longrightarrow>
     pin_current kit rs' d"
  unfolding pin_current_def by blast

lemma delete_one_distinct: "distinct (map k xs) \<Longrightarrow> distinct (map k (delete_one P xs))"
  using set_delete_one [of P] by (induction xs) auto

lemma pins_shrink:
  assumes "pins_current kit s" "distinct (map d_id (db_deployments s'))"
    and "distinct (map (\<lambda>r. (r_deployment r, r_revision r)) (db_revisions s'))"
    and "set (db_deployments s') \<subseteq> set (db_deployments s)" "set (db_revisions s') \<subseteq> set (db_revisions s)"
  shows "pins_current kit s'"
  using assms by (auto simp: pins_current_def list_all_iff intro: pin_current_subset)

lemma pins_delete: "pins_current kit s \<Longrightarrow> pins_current kit (snd (deploymentDelete d userId s))"
proof (cases "d_status d = STOPPED")
  case True
  assume inv: "pins_current kit s"
  then show ?thesis
    by (rule pins_shrink)
      (use inv True in \<open>simp_all add: deploymentDelete_def pins_current_def Let_def delete_one_distinct distinct_delete_many set_delete_one\<close>)
qed (simp add: deploymentDelete_def)

lemma createNewDeploymentRevision_pins:
  assumes "createNewDeploymentRevision kit n i vault jd False keys now = Some (r, endpoints, stored)"
  shows "rk_pin kit (injectSsh kit (r_job_definition r) (or_else stored keys)) = Some (r_ipfs_definition_hash r)"
proof -
  obtain jd' extracted where e: "extractSsh kit jd = (jd', extracted)" by (rule prod.exhaust)
  define pk where "pk = or_else extracted keys"
  define ssh where "ssh = (if nullish pk [] = [] then None else pk)"
  have "extracted \<noteq> Some []" using e by (auto simp: extractSsh_def Let_def split: if_splits)
  then have keys: "nullish (or_else ssh keys) [] = nullish ssh []"
    by (cases extracted; cases keys) (auto simp: ssh_def pk_def)
  have "rk_pin kit (injectSsh kit (r_job_definition r) ssh) = Some (r_ipfs_definition_hash r) \<and> stored = ssh"
    using assms unfolding createNewDeploymentRevision_def e Let_def prod.case pk_def [symmetric] ssh_def [symmetric]
    by (cases "rk_pin kit (injectSsh kit (final_definition i jd') ssh)") (auto split: if_splits)
  with keys show ?thesis by (simp add: injectSsh_def)
qed

section \<open>Every request keeps it\<close>

lemma update_one_split:
  assumes "distinct (map k c)" "d \<in> set c" "P d" "\<And>x. P x \<Longrightarrow> k x = k d" "\<And>x. P x \<Longrightarrow> k (f x) = k x"
    and e: "e \<in> set (update_one P f c)"
  shows "e = f d \<or> (e \<in> set c \<and> k e \<noteq> k d)"
proof -
  have only: "x = d" if "x \<in> set c" "P x" for x
    by (rule keyed_unique [OF assms(1) that(1) assms(2)]) (rule assms(4) [OF that(2)])
  have "f d \<in> set (update_one P f c)" by (rule update_one_mem [where k = k and P = P, OF assms(1-3)]) (rule assms(4))
  moreover have "distinct (map k (update_one P f c))" by (rule distinct_update_one [where k = k and P = P and f = f, OF assms(1)]) (rule assms(5))
  ultimately have "k e = k d \<Longrightarrow> e = f d" using e assms(5) [OF assms(3)] by (metis keyed_unique)
  moreover have "e \<in> set c \<or> e = f d" by (rule update_one_cases [OF e]) (use only in blast)+
  ultimately show ?thesis by blast
qed

text \<open>A request changes the revisions of its own deployment only, then the deployment.\<close>

lemma pins_own_update:
  assumes inv: "pins_current kit s" and d: "d \<in> set (db_deployments s)" "P d"
    and P: "\<And>e. P e \<Longrightarrow> d_id e = d_id d \<and> d_id (f e) = d_id e"
    and s1: "db_deployments s1 = db_deployments s" "distinct (map (\<lambda>r. (r_deployment r, r_revision r)) (db_revisions s1))"
      "\<And>x. x \<in> set (db_revisions s1) \<Longrightarrow> r_deployment x \<noteq> d_id d \<Longrightarrow> x \<in> set (db_revisions s)"
    and pin: "pin_current kit (db_revisions s1) (f d)"
  shows "pins_current kit (on_deployment P f s1)"
proof -
  have dist: "distinct (map d_id (db_deployments s))" using inv by (simp add: pins_current_def)
  have "pin_current kit (db_revisions s1) e" if "e \<in> set (update_one P f (db_deployments s))" for e
  proof -
    have "e = f d \<or> (e \<in> set (db_deployments s) \<and> d_id e \<noteq> d_id d)"
      by (rule update_one_split [OF dist d _ _ that]) (use P in blast)+
    then show ?thesis
    proof
      assume e: "e \<in> set (db_deployments s) \<and> d_id e \<noteq> d_id d"
      then have "pin_current kit (db_revisions s) e" using inv by (simp add: pins_current_def list_all_iff)
      then show ?thesis by (rule pin_current_subset) (use e s1(3) in auto)
    qed (simp add: pin)
  qed
  moreover have "distinct (map d_id (update_one P f (db_deployments s)))"
    by (rule distinct_update_one [where k = d_id and P = P and f = f, OF dist]) (use P in blast)
  ultimately show ?thesis using s1(1,2) by (simp add: pins_current_def list_all_iff)
qed

lemma pins_new_deployment:
  assumes inv: "pins_current kit s" and s1: "insert_revision r s = Some s1"
    and fresh: "d_id d \<notin> set (map d_id (db_deployments s))"
    and r: "r_deployment r = d_id d" "r_revision r = d_active_revision d"
    and pin: "pin_current kit [r] d"
    and s2: "db_deployments s2 = db_deployments s1 @ [d]" "db_revisions s2 = db_revisions s1"
  shows "pins_current kit s2"
proof -
  have d: "db_deployments s1 = db_deployments s" "db_revisions s1 = db_revisions s @ [r]"
    and new: "\<not> (\<exists>x \<in> set (db_revisions s). r_deployment x = r_deployment r \<and> r_revision x = r_revision r)"
    using s1 by (auto simp: insert_revision_def insert_one_def matches_iff split: if_splits)
  have "pin_current kit (db_revisions s2) e" if e: "e \<in> set (db_deployments s)" for e
  proof (rule pin_current_subset)
    show "pin_current kit (db_revisions s) e" using inv e by (simp add: pins_current_def list_all_iff)
    show "x \<in> set (db_revisions s)" if "x \<in> set (db_revisions s2)" "r_deployment x = d_id e" for x
      using that e fresh r by (auto simp: s2 d)
  qed
  moreover have "pin_current kit (db_revisions s2) d"
    by (rule pin_current_subset [OF pin]) (use new r in \<open>auto simp: s2 d\<close>)
  ultimately show ?thesis using inv new fresh by (auto simp: pins_current_def s2 d list_all_iff)
qed

lemma repin_other: "x \<in> set (db_revisions (repin i n hash s)) \<Longrightarrow> r_deployment x \<noteq> i \<Longrightarrow> x \<in> set (db_revisions s)"
  by (auto simp: repin_def elim!: update_one_cases)

lemma repin_distinct:
  "pins_current kit s \<Longrightarrow> distinct (map (\<lambda>r. (r_deployment r, r_revision r)) (db_revisions (repin i n hash s)))"
  by (simp add: pins_current_def repin_def distinct_update_one)

text \<open>A repinned revision holds the new hash, and it is the only one with its number.\<close>

lemma repinned:
  assumes "pins_current kit s" "find_revision i n s = Some r"
    and "x \<in> set (db_revisions (repin i n hash s))" "r_deployment x = i" "r_revision x = n"
  shows "r_ipfs_definition_hash x = hash \<and> r_job_definition x = r_job_definition r"
proof -
  let ?P = "\<lambda>r. r_deployment r = i \<and> r_revision r = n" and ?k = "\<lambda>r. (r_deployment r, r_revision r)"
  let ?f = "\<lambda>r. r\<lparr>r_ipfs_definition_hash := hash\<rparr>"
  have dist: "distinct (map ?k (db_revisions s))" using assms(1) by (simp add: pins_current_def)
  have r: "r \<in> set (db_revisions s)" "?P r"
    using assms(2) by (auto simp: find_revision_def dest: find_one_SomeD)
  have "?f r \<in> set (db_revisions (repin i n hash s))"
    unfolding repin_def using update_one_mem [where k = ?k and P = ?P and f = ?f, OF dist r] r(2) by simp
  moreover have "distinct (map ?k (db_revisions (repin i n hash s)))"
    using dist by (simp add: repin_def distinct_update_one)
  ultimately have "x = ?f r" using assms(3-5) r(2) keyed_unique [where k = ?k] by fastforce
  then show ?thesis by simp
qed

lemma owned_keys: "owned i userId e \<Longrightarrow> d_id e = i"
  by (simp add: owned_iff)

lemma pins_activate:
  assumes inv: "pins_current kit s" and d: "d \<in> set (db_deployments s)" "owned (d_id d) userId d"
  shows "pins_current kit (snd (deploymentUpdateActiveRevision kit n now d userId s))"
proof (cases "find_revision (d_id d) n s")
  case (Some r)
  note found = Some
  have rn: "r_revision r = n" using Some by (auto simp: find_revision_def dest!: find_one_SomeD)
  let ?P = "\<lambda>e. owned (d_id d) userId e \<and> d_active_revision e \<noteq> n"
  let ?f = "\<lambda>e. e\<lparr>d_active_revision := n, d_endpoints :=
    createDeploymentRevisionEndpoints kit (d_id d) (d_vault d) (r_job_definition r), d_updated_at := now\<rparr>"
  let ?pin = "rk_pin kit (injectSsh kit (r_job_definition r) (d_ssh_public_keys d))"
  show ?thesis
  proof (cases "n = d_active_revision d \<or> (\<not> d_confidential d \<and> ?pin = None)")
    case True
    then have "snd (deploymentUpdateActiveRevision kit n now d userId s) = s"
      by (auto simp: deploymentUpdateActiveRevision_def found rn)
    with inv show ?thesis by simp
  next
    case False
    then have P: "?P d" using d by simp
    then have m: "matches ?P (db_deployments s)" using d by (auto simp: matches_iff)
    show ?thesis
    proof (cases "d_confidential d")
      case True
      have "pins_current kit (on_deployment ?P ?f s)"
        by (rule pins_own_update [where P = ?P, OF inv d(1) P])
          (use inv True in \<open>auto simp: owned_iff pins_current_def pin_current_def\<close>)
      with True False m show ?thesis by (simp add: deploymentUpdateActiveRevision_def found rn Let_def)
    next
      case nc: False
      with False obtain hash where h: "?pin = Some hash" by auto
      have "pins_current kit (on_deployment ?P ?f (repin (d_id d) n hash s))"
      proof (rule pins_own_update [where P = ?P, OF inv d(1) P])
        show "pin_current kit (db_revisions (repin (d_id d) n hash s)) (?f d)"
          using repinned [OF inv found] h by (simp add: pin_current_def)
      qed (use repin_other repin_distinct [OF inv] in \<open>auto simp: owned_iff\<close>)
      with nc False m h show ?thesis by (simp add: deploymentUpdateActiveRevision_def found rn Let_def)
    qed
  qed
qed (simp add: deploymentUpdateActiveRevision_def inv)

lemma pins_create_revision:
  assumes inv: "pins_current kit s" and d: "d \<in> set (db_deployments s)" "owned (d_id d) userId d"
  shows "pins_current kit (snd (deploymentCreateRevision kit jd now d userId s))"
proof -
  let ?new = "createNewDeploymentRevision kit (nullish (latest_revision (d_id d) s) (d_active_revision d)) (d_id d) (d_vault d)
         jd (d_confidential d) (d_ssh_public_keys d) now"
  show ?thesis
  proof (cases "\<exists>x s1. ?new = Some x \<and> insert_revision (fst x) s = Some s1")
    case False
    then have "snd (deploymentCreateRevision kit jd now d userId s) = s"
      by (auto simp: deploymentCreateRevision_def split: option.splits)
    with inv show ?thesis by simp
  next
    case True
    then obtain r endpoints stored s1 where new: "?new = Some (r, endpoints, stored)" and s1: "insert_revision r s = Some s1"
      by (metis prod.exhaust fst_conv)
    let ?f = "\<lambda>e. e\<lparr>d_active_revision := r_revision r, d_endpoints := endpoints, d_updated_at := now,
      d_ssh_public_keys := or_else stored (d_ssh_public_keys e)\<rparr>"
    have i: "r_deployment r = d_id d" using createNewDeploymentRevision_keys [OF new] by simp
    have revs: "db_deployments s1 = db_deployments s" "db_revisions s1 = db_revisions s @ [r]"
      and fresh: "\<not> (\<exists>x \<in> set (db_revisions s). r_deployment x = r_deployment r \<and> r_revision x = r_revision r)"
      using s1 by (auto simp: insert_revision_def insert_one_def matches_iff split: if_splits)
    have "pins_current kit (on_deployment (owned (d_id d) userId) ?f s1)"
    proof (rule pins_own_update [where P = "owned (d_id d) userId", OF inv d])
      have "d_confidential d \<or> rk_pin kit (injectSsh kit (r_job_definition r) (or_else stored (d_ssh_public_keys d))) =
          Some (r_ipfs_definition_hash r)"
        using createNewDeploymentRevision_pins new by (cases "d_confidential d") auto
      then show "pin_current kit (db_revisions s1) (?f d)"
        using fresh i by (auto simp: pin_current_def revs)
    qed (use inv fresh i in \<open>auto simp: owned_iff revs pins_current_def\<close>)
    moreover have "matches (owned (d_id d) userId) (db_deployments s1)" using d by (auto simp: matches_iff revs)
    ultimately show ?thesis by (simp add: deploymentCreateRevision_def new s1)
  qed
qed

lemma pins_commit:
  assumes inv: "pins_current (re_kit env) s" and d: "d \<in> set (db_deployments s)" "owned (d_id d) userId d"
  shows "pins_current (re_kit env) (snd (commitDeploymentSshKeys env keys delta operation event d userId s))"
proof (cases rule: commit_cases [of env keys delta operation event d userId s])
  case (stored s1)
  let ?f = "\<lambda>e. e\<lparr>d_ssh_public_keys := stored_keys keys, d_updated_at := re_now env\<rparr>"
  have s1: "s1 = s \<and> d_confidential d \<or> (\<exists>r hash. s1 = repin (d_id d) (d_active_revision d) hash s \<and>
      find_revision (d_id d) (d_active_revision d) s = Some r \<and>
      rk_pin (re_kit env) (injectSsh (re_kit env) (r_job_definition r) (stored_keys keys)) = Some hash)"
    using stored(1) unfolding repin_active_def by (auto split: if_splits option.splits)
  have "pins_current (re_kit env) (on_deployment (owned (d_id d) userId) ?f s1)"
  proof (rule pins_own_update [where P = "owned (d_id d) userId", OF inv d])
    show "pin_current (re_kit env) (db_revisions s1) (?f d)"
      using s1 repinned [OF inv] by (fastforce simp: pin_current_def)
    show "distinct (map (\<lambda>r. (r_deployment r, r_revision r)) (db_revisions s1))"
      using s1 repin_distinct [OF inv] inv by (auto simp: pins_current_def)
    show "x \<in> set (db_revisions s)" if "x \<in> set (db_revisions s1)" "r_deployment x \<noteq> d_id d" for x
      using s1 that repin_other by blast
  qed (use s1 in \<open>auto simp: owned_iff\<close>)
  with stored(2) show ?thesis
    by (auto simp: store_keys_def pins_current_def)
qed (simp add: inv)

lemma createDeployment_pins:
  assumes "createDeployment kit fresh body vault owner now = Some (d, r)" shows "pin_current kit [r] d"
proof -
  let ?confidential = "nullish (cb_confidential body) (rk_confidential_by_default kit)"
  let ?submitted = "case cb_ssh_public_keys body of
    Some keys \<Rightarrow> injectSsh kit (cb_job_definition body) (Some keys) | None \<Rightarrow> cb_job_definition body"
  obtain endpoints stored where new: "createNewDeploymentRevision kit 0 fresh vault ?submitted ?confidential None now = Some (r, endpoints, stored)"
    and d: "d_confidential d = ?confidential" "d_ssh_public_keys d = stored"
    using assms unfolding createDeployment_def Let_def
    by (auto split: option.splits prod.splits deployment_strategy.splits if_splits)
  show ?thesis
  proof (cases "?confidential")
    case False
    then have "rk_pin kit (injectSsh kit (r_job_definition r) (or_else stored None)) = Some (r_ipfs_definition_hash r)"
      using createNewDeploymentRevision_pins new by (metis (full_types))
    moreover have "or_else stored None = stored" by (cases stored) simp_all
    ultimately show ?thesis using d by (simp add: pin_current_def)
  qed (simp add: pin_current_def d)
qed

lemma pins_start: "pins_current kit s \<Longrightarrow> pins_current kit (on_deployment P (startDeploymentUpdate now) s)"
  by (rule pins_field) simp_all

lemma pins_created:
  assumes inv: "pins_current kit s" and new: "createDeployment kit fresh body vault owner now = Some (d, r)"
    and fresh: "fresh \<notin> set (map d_id (db_deployments s))"
    and unique: "\<not> matches (\<lambda>x. r_deployment x = r_deployment r \<and> r_revision x = r_revision r) (db_revisions s)"
    and s2: "db_deployments s2 = db_deployments s @ [d]" "db_revisions s2 = db_revisions s @ [r]"
  shows "pins_current kit s2"
proof -
  note keys = createDeployment_keys [OF new]
  let ?s1 = "s\<lparr>db_revisions := insert_one r (db_revisions s)\<rparr>"
  have s1: "insert_revision r s = Some ?s1" using unique by (simp add: insert_revision_def)
  show ?thesis
    by (rule pins_new_deployment [OF inv s1 _ _ _ createDeployment_pins [OF new]])
      (use keys fresh s2 in \<open>auto simp: insert_one_def\<close>)
qed

lemma insert_revision_iff:
  "insert_revision r s = Some s1 \<longleftrightarrow> s1 = s\<lparr>db_revisions := insert_one r (db_revisions s)\<rparr> \<and>
     \<not> matches (\<lambda>x. r_deployment x = r_deployment r \<and> r_revision x = r_revision r) (db_revisions s)"
  by (auto simp: insert_revision_def)

lemma pins_duplicate:
  assumes inv: "pins_current (re_kit env) s" and fresh: "re_fresh env \<notin> set (map d_id (db_deployments s))"
  shows "pins_current (re_kit env) (snd (deploymentDuplicate env name market autostart d userId s))"
proof (cases rule: duplicate_cases [of env name market autostart d userId s])
  case (copied body d' r s1 s2)
  have "pins_current (re_kit env) s2"
    by (rule pins_created [OF inv copied(1) fresh]) (use copied(2) in \<open>auto simp: copied(3) insert_revision_iff insert_one_def\<close>)
  then show ?thesis by (simp add: copied(4) pins_start)
qed (simp add: inv)

lemma vault_of_frame:
  assumes "vault_of userId now apiKey generated body s = (w, s1)"
  shows "db_deployments s1 = db_deployments s" "db_revisions s1 = db_revisions s"
  using assms by (auto simp: vault_of_def getOrCreateVault_def storeVaultDocument_def Let_def
    split: option.splits if_splits prod.splits)

text \<open>What a create leaves: the store of the vault's resolution, or a new deployment with its first revision.\<close>

lemma create_cases:
  obtains (refused) w s1 where "vault_of userId (re_now env) apiKey generated body s = (w, s1)"
      "snd (deploymentCreate env apiKey generated body userId s) \<in> {s, s1}"
      "\<exists>status m. fst (deploymentCreate env apiKey generated body userId s) = Failed status m"
  | (created) vault s1 d r s2 s3 where "vault_of userId (re_now env) apiKey generated body s = (Some vault, s1)"
      "createDeployment (re_kit env) (re_fresh env) body vault userId (re_now env) = Some (d, r)"
      "insert_deployment d s1 = Some s2" "insert_revision r s2 = Some s3"
      "deploymentCreate env apiKey generated body userId s = (Deployment_reply (d\<lparr>d_idempotency_key := None\<rparr>)
         (if cb_autostart body then STARTING else DRAFT),
         if cb_autostart body then on_deployment (owned (d_id d) userId) (startDeploymentUpdate (re_now env)) s3 else s3)"
proof -
  obtain w s1 where v: "vault_of userId (re_now env) apiKey generated body s = (w, s1)" by (rule prod.exhaust)
  show ?thesis
  proof (cases "infinite_body_error body = None \<and> w \<noteq> None")
    case False
    then show ?thesis by (intro refused [OF v]) (auto simp: deploymentCreate_def v split: option.splits)
  next
    case True
    then obtain vault where w: "w = Some vault" "infinite_body_error body = None" by auto
    let ?new = "createDeployment (re_kit env) (re_fresh env) body vault userId (re_now env)"
    show ?thesis
    proof (cases "\<exists>x s2 s3. ?new = Some x \<and> insert_deployment (fst x) s1 = Some s2 \<and> insert_revision (snd x) s2 = Some s3")
      case True
      then obtain d r s2 s3 where c: "?new = Some (d, r)" "insert_deployment d s1 = Some s2" "insert_revision r s2 = Some s3"
        by auto
      show ?thesis using v unfolding w(1) by (rule created [OF _ c]) (simp add: deploymentCreate_def v w c)
    next
      case False
      then show ?thesis
        by (intro refused [OF v]) (auto simp: deploymentCreate_def v w Let_def split: option.splits)
    qed
  qed
qed

lemma pins_create:
  assumes inv: "pins_current (re_kit env) s" and fresh: "re_fresh env \<notin> set (map d_id (db_deployments s))"
  shows "pins_current (re_kit env) (snd (deploymentCreate env apiKey generated body userId s))"
proof (cases rule: create_cases [of userId env apiKey generated body s])
  case (refused w s1)
  then show ?thesis using inv pins_same [OF vault_of_frame [OF refused(1)]] by auto
next
  case (created vault s1 d r s2 s3)
  note frame = vault_of_frame [OF created(1)]
  have s2: "db_deployments s2 = db_deployments s @ [d]" "db_revisions s2 = db_revisions s"
    using created(3) frame by (auto simp: insert_deployment_def insert_one_def split: if_splits)
  have s3: "db_deployments s3 = db_deployments s2" "db_revisions s3 = db_revisions s2 @ [r]"
    and unique: "\<not> matches (\<lambda>x. r_deployment x = r_deployment r \<and> r_revision x = r_revision r) (db_revisions s2)"
    using created(4) by (auto simp: insert_revision_iff insert_one_def)
  have "pins_current (re_kit env) s3"
    by (rule pins_created [OF inv created(2) fresh]) (use unique in \<open>simp_all add: s2 s3\<close>)
  then show ?thesis by (simp add: created(5) pins_start)
qed

lemma pins_handle:
  assumes inv: "pins_current (re_kit env) s" and d: "d \<in> set (db_deployments s)" "owned (d_id d) userId d"
    and fresh: "re_fresh env \<notin> set (map d_id (db_deployments s))"
  shows "pins_current (re_kit env) (snd (handle env r d userId s))"
proof (cases r)
  case (Add_ssh_keys keys)
  then show ?thesis
    using inv d by (auto simp: deploymentAddSshKeys_def Let_def pins_commit split: option.splits)
next
  case (Revoke_ssh_keys keys)
  then show ?thesis using inv d by (simp add: deploymentRevokeSshKeys_def Let_def pins_commit)
next
  case (Activate_revision n)
  then show ?thesis using pins_activate [OF inv d] by simp
next
  case (Create_revision jd)
  then show ?thesis using pins_create_revision [OF inv d] by simp
qed (use inv fresh in \<open>auto simp: field_routes pins_delete pins_duplicate pins_start intro!: pins_field\<close>)


section \<open>Requests that overtake each other\<close>

text \<open>
  A revoked key comes back. A revision created by a request that read the deployment before a key
  was revoked writes the keys it read: without keys of its own in the definition it restores the whole
  former set, in the pin and on the deployment.
\<close>

theorem revoked_key_comes_back:
  assumes read: "getDeployment i userId read = Some d" "d_status d \<noteq> ARCHIVED" "d_ssh_public_keys d = Some (key # keys)"
    and "rk_getSshPublicKeys (re_kit env) jd = []"
    and success: "fst (serve_stale env (Create_revision jd) i userId read s) = Revision_reply n endpoints now"
    and s: "distinct (map d_id (db_deployments s))" "e \<in> set (db_deployments s)" "owned i userId e"
  shows "\<exists>e' \<in> set (db_deployments (snd (serve_stale env (Create_revision jd) i userId read s))).
    d_id e' = i \<and> d_active_revision e' = n \<and> d_ssh_public_keys e' = Some (key # keys)"
proof -
  have i: "d_id d = i" using getDeployment_owned [OF read(1)] by (simp add: owned_iff)
  let ?new = "createNewDeploymentRevision (re_kit env) (nullish (latest_revision i s) (d_active_revision d)) i (d_vault d)
         jd (d_confidential d) (Some (key # keys)) (re_now env)"
  have served: "serve_stale env (Create_revision jd) i userId read s = deploymentCreateRevision (re_kit env) jd (re_now env) d userId s"
    using read by (simp add: serve_stale_def admit_def open_to_archived_def)
  obtain r eps stored s1 where new: "?new = Some (r, eps, stored)" and s1: "insert_revision r s = Some s1"
    and out: "deploymentCreateRevision (re_kit env) jd (re_now env) d userId s =
      (Revision_reply (r_revision r) eps (re_now env), on_deployment (owned i userId)
        (\<lambda>e. e\<lparr>d_active_revision := r_revision r, d_endpoints := eps, d_updated_at := re_now env,
          d_ssh_public_keys := or_else stored (d_ssh_public_keys e)\<rparr>) s1)"
    using success unfolding served deploymentCreateRevision_def i read(3)
    by (auto split: option.splits prod.splits if_splits)
  have ds: "db_deployments s1 = db_deployments s" using s1 by (auto simp: insert_revision_def split: if_splits)
  have "extractSsh (re_kit env) jd = (rk_withSshPublicKeys (re_kit env) jd [], None)"
    using assms(4) by (simp add: extractSsh_def)
  then have stored: "stored = Some (key # keys)"
    using new by (auto simp: createNewDeploymentRevision_def Let_def split: option.splits if_splits)
  let ?f = "\<lambda>e. e\<lparr>d_active_revision := r_revision r, d_endpoints := eps, d_updated_at := re_now env,
          d_ssh_public_keys := or_else stored (d_ssh_public_keys e)\<rparr>"
  have "?f e \<in> set (update_one (owned i userId) ?f (db_deployments s))"
    by (rule update_one_mem [where k = d_id and P = "owned i userId", OF s]) (use s(3) in \<open>simp add: owned_iff\<close>)
  with s(3) show ?thesis
    using success unfolding served out by (intro bexI [of _ "?f e"]) (simp_all add: ds stored owned_iff)
qed

text \<open>
  Activating a revision pins it with the keys the request read, not with the deployment's, so the pin
  is stale when a key was revoked in between.
\<close>

lemma stale_activation_pins_old_keys:
  assumes read: "getDeployment i userId read = Some d" "d_status d \<noteq> ARCHIVED" "\<not> d_confidential d"
    and success: "fst (serve_stale env (Activate_revision n) i userId read s) = Revision_reply n endpoints now"
    and s: "pins_current (re_kit env) s" "find_revision i n s = Some r"
  shows "\<exists>r' \<in> set (db_revisions (snd (serve_stale env (Activate_revision n) i userId read s))).
    r_deployment r' = i \<and> r_revision r' = n \<and>
    Some (r_ipfs_definition_hash r') = rk_pin (re_kit env) (injectSsh (re_kit env) (r_job_definition r) (d_ssh_public_keys d))"
proof -
  have i: "d_id d = i" using getDeployment_owned [OF read(1)] by (simp add: owned_iff)
  have served: "serve_stale env (Activate_revision n) i userId read s =
      deploymentUpdateActiveRevision (re_kit env) n (re_now env) d userId s"
    using read by (simp add: serve_stale_def admit_def open_to_archived_def)
  have r: "r \<in> set (db_revisions s)" "r_deployment r = i \<and> r_revision r = n"
    using s(2) by (auto simp: find_revision_def dest: find_one_SomeD)
  obtain hash where h: "rk_pin (re_kit env) (injectSsh (re_kit env) (r_job_definition r) (d_ssh_public_keys d)) = Some hash"
    and out: "db_revisions (snd (serve_stale env (Activate_revision n) i userId read s)) = db_revisions (repin i n hash s)"
    using success read(3) unfolding served deploymentUpdateActiveRevision_def i s(2)
    by (auto simp: Let_def split: option.splits if_splits)
  have "r\<lparr>r_ipfs_definition_hash := hash\<rparr> \<in> set (db_revisions (repin i n hash s))"
    unfolding repin_def using s(1) r
    by (simp add: pins_current_def update_one_mem [where k = "\<lambda>r. (r_deployment r, r_revision r)"])
  with h r show ?thesis unfolding out by (intro bexI [of _ "r\<lparr>r_ipfs_definition_hash := hash\<rparr>"]) simp_all
qed

section \<open>Examples\<close>


text \<open>The key \<open>K\<close> is revoked after the request to create a revision read the deployment.\<close>

theorem revoked_key_comes_back_witness:
  "\<exists>e' \<in> set (db_deployments (snd (serve_stale example_route_env (Create_revision example_definition) ''D'' ''O'' keyed_db
      (snd (serve example_route_env (Revoke_ssh_keys [''K'']) ''D'' ''O'' keyed_db))))).
     d_id e' = ''D'' \<and> d_active_revision e' = 3 \<and> d_ssh_public_keys e' = Some [''K'', ''L'']"
proof -
  let ?d = "(blank_deployment ''D'' ''O'' RUNNING)\<lparr>d_ssh_public_keys := Some [''K'', ''L'']\<rparr>"
  define revoke where "revoke = snd (serve example_route_env (Revoke_ssh_keys [''K'']) ''D'' ''O'' keyed_db)"
  have found: "getDeployment ''D'' ''O'' keyed_db = Some ?d"
    by (simp add: getDeployment_def keyed_db_def find_one_def owned_def)
  have revoked: "serve example_route_env (Revoke_ssh_keys [''K'']) ''D'' ''O'' keyed_db =
      deploymentRevokeSshKeys example_route_env [''K''] ?d ''O'' keyed_db"
    by (simp add: serve_def serve_stale_def found admit_def open_to_archived_def)
  have ds: "db_deployments revoke = [?d\<lparr>d_ssh_public_keys := Some [''L''], d_updated_at := 5\<rparr>]"
    and rs: "db_revisions revoke = [example_revision ''D'' 1 ''QmL'', example_revision ''D'' 2 ''Qm'']"
    unfolding revoke_def revoked
    by (simp_all add: deploymentRevokeSshKeys_def commitDeploymentSshKeys_def repin_active_def store_keys_def keyed_db_def find_revision_def find_one_def
        example_route_env_def example_route_kit_def example_revision_def example_definition_def injectSsh_def repin_def
        matches_def owned_def on_deployment_def empty_db_def Let_def insert_event_def blank_deployment_def)
  show ?thesis
    unfolding revoke_def [symmetric]
  proof (rule revoked_key_comes_back [OF found, where e = "?d\<lparr>d_ssh_public_keys := Some [''L''], d_updated_at := 5\<rparr>"])
    show "fst (serve_stale example_route_env (Create_revision example_definition) ''D'' ''O'' keyed_db revoke) =
        Revision_reply 3 [] 5"
      by (simp add: serve_stale_def found admit_def open_to_archived_def deploymentCreateRevision_def latest_revision_def
        createNewDeploymentRevision_def extractSsh_def createDeploymentRevisionEndpoints_def final_definition_def
        insert_revision_def rs ds matches_def owned_def Let_def injectSsh_def insert_one_def on_deployment_def
        example_route_env_def example_route_kit_def example_revision_def example_definition_def blank_deployment_def)
  qed (simp_all add: ds example_route_env_def example_route_kit_def example_definition_def owned_def blank_deployment_def)
qed

end
