(* ===== verification/Reading.thy ===== *)
theory Reading
  imports Pagination Access Pins
begin

text \<open>
  The routes that read one deployment (\<open>src/router/routes/get/deployments/[id]\<close>): the lists of its
  jobs, events, revisions and scheduled tasks, each a page of \<open>findPaginated\<close>
  (\<open>src/repositories/index.ts\<close>), the deployment itself, its SSH keys, and one job. The query string is
  a list of names with their texts; a schema sees these texts, because the server does not coerce
  them (\<open>src/router/index.ts\<close>).
\<close>

section \<open>Query strings\<close>

type_synonym raw_query = "(string \<times> string) list"

record list_query =
  lq_desc :: bool
  lq_limit :: nat
  lq_cursor :: "string option"

text \<open>\<open>PaginationQuerySchema\<close> with the defaults of the handlers; None is the answer 400.\<close>

definition page_size :: "string option \<Rightarrow> nat option" where
  "page_size limit = (case limit of None \<Rightarrow> Some 10 | Some text \<Rightarrow>
     if text = ''10'' then Some 10 else if text = ''20'' then Some 20
     else if text = ''50'' then Some 50 else if text = ''100'' then Some 100 else None)"

definition sort_desc :: "string option \<Rightarrow> bool option" where
  "sort_desc order = (case order of None \<Rightarrow> Some True | Some text \<Rightarrow>
     if text = ''desc'' then Some True else if text = ''asc'' then Some False else None)"

definition page_query :: "raw_query \<Rightarrow> list_query option" where
  "page_query raw = (case (page_size (map_of raw ''limit''), sort_desc (map_of raw ''sort_order'')) of
     (Some limit, Some desc) \<Rightarrow> Some \<lparr>lq_desc = desc, lq_limit = limit, lq_cursor = map_of raw ''cursor''\<rparr>
   | _ \<Rightarrow> None)"

text \<open>A property of type number: no text is one. A date: the format's test is a parameter.\<close>

definition number_property :: "raw_query \<Rightarrow> string \<Rightarrow> bool" where
  "number_property raw k \<longleftrightarrow> map_of raw k = None"

definition date_property :: "(string \<Rightarrow> bool) \<Rightarrow> raw_query \<Rightarrow> string \<Rightarrow> bool" where
  "date_property is_date_time raw k \<longleftrightarrow> (case map_of raw k of None \<Rightarrow> True | Some text \<Rightarrow> is_date_time text)"

definition jobs_query :: "(string \<Rightarrow> bool) \<Rightarrow> raw_query \<Rightarrow> list_query option" where
  "jobs_query is_date_time raw =
     (if number_property raw ''revision'' \<and> date_property is_date_time raw ''created_after'' \<and>
         date_property is_date_time raw ''created_before'' then page_query raw else None)"

definition events_query :: "(string \<Rightarrow> bool) \<Rightarrow> raw_query \<Rightarrow> list_query option" where
  "events_query is_date_time raw =
     (if date_property is_date_time raw ''created_after'' \<and> date_property is_date_time raw ''created_before''
      then page_query raw else None)"

definition revisions_query :: "(string \<Rightarrow> bool) \<Rightarrow> raw_query \<Rightarrow> list_query option" where
  "revisions_query is_date_time raw =
     (if number_property raw ''revision'' \<and> date_property is_date_time raw ''created_after'' \<and>
         date_property is_date_time raw ''created_before'' then page_query raw else None)"

definition tasks_query :: "(string \<Rightarrow> bool) \<Rightarrow> raw_query \<Rightarrow> list_query option" where
  "tasks_query is_date_time raw =
     (if date_property is_date_time raw ''due_after'' \<and> date_property is_date_time raw ''due_before''
      then page_query raw else None)"

section \<open>Pages of a collection\<close>

record 'd stored =
  sd_keyed :: "'d keyed"
  sd_paths :: "'d \<Rightarrow> string \<Rightarrow> fval list"

definition findPaginated ::
    "(string \<Rightarrow> ms option) \<Rightarrow> 'd stored \<Rightarrow> string \<times> mongo_cond \<Rightarrow> mongo_filter option list \<Rightarrow> list_query \<Rightarrow> 'd list
     \<Rightarrow> 'd page option" where
  "findPaginated other sd base additional q docs =
     executeKeysetPagination other (sd_keyed sd)
       (\<lambda>d. filter_holds (sd_paths sd d) (combineFilters (Some [(fst base, E_field (snd base))] # additional)))
       (lq_desc q) (lq_limit q) (lq_cursor q) docs"

definition job_stored :: "(jobs_document \<Rightarrow> object_id) \<Rightarrow> jobs_document stored" where
  "job_stored oid = \<lparr>sd_keyed = \<lparr>kd_value = (\<lambda>j. SV_date (j_created_at j)), kd_id = oid\<rparr>,
     sd_paths = (\<lambda>j path.
       if path = ''deployment'' then [V_string (j_deployment j)] else if path = ''job'' then [V_string (j_job j)]
       else if path = ''state'' then [V_string (state_name (j_state j))]
       else if path = ''revision'' then [V_number (of_nat (j_revision j))]
       else if path = ''created_at'' then [V_date (j_created_at j)] else [])\<rparr>"

definition category_name :: "event_category \<Rightarrow> string" where
  "category_name c = (case c of Category_Deployment \<Rightarrow> ''Deployment'' | Category_Event \<Rightarrow> ''Event'')"

definition event_stored :: "(event_document \<Rightarrow> object_id) \<Rightarrow> event_document stored" where
  "event_stored oid = \<lparr>sd_keyed = \<lparr>kd_value = (\<lambda>e. SV_date (e_created_at e)), kd_id = oid\<rparr>,
     sd_paths = (\<lambda>e path.
       if path = ''deploymentId'' then [V_string (e_deploymentId e)]
       else if path = ''category'' then [V_string (category_name (e_category e))]
       else if path = ''type'' then [V_string (e_type e)]
       else if path = ''created_at'' then [V_date (e_created_at e)] else [])\<rparr>"

definition revision_stored :: "(revision_document \<Rightarrow> object_id) \<Rightarrow> revision_document stored" where
  "revision_stored oid = \<lparr>sd_keyed = \<lparr>kd_value = (\<lambda>r. SV_date (r_created_at r)), kd_id = oid\<rparr>,
     sd_paths = (\<lambda>r path.
       if path = ''deployment'' then [V_string (r_deployment r)]
       else if path = ''revision'' then [V_number (of_nat (r_revision r))]
       else if path = ''created_at'' then [V_date (r_created_at r)] else [])\<rparr>"

definition task_name :: "task_type \<Rightarrow> string" where
  "task_name ty = (case ty of LIST \<Rightarrow> ''LIST'' | EXTEND \<Rightarrow> ''EXTEND'' | STOP \<Rightarrow> ''STOP'')"

definition task_stored :: "task_document stored" where
  "task_stored = \<lparr>sd_keyed = \<lparr>kd_value = (\<lambda>t. SV_date (t_created_at t)), kd_id = t_id\<rparr>,
     sd_paths = (\<lambda>t path.
       if path = ''deploymentId'' then [V_string (t_deploymentId t)]
       else if path = ''task'' then [V_string (task_name (t_task t))]
       else if path = ''due_at'' then [V_date (t_due_at t)]
       else if path = ''created_at'' then [V_date (t_created_at t)] else [])\<rparr>"

section \<open>The lists\<close>

record reading =
  rg_other :: "string \<Rightarrow> ms option"
  rg_date :: "string \<Rightarrow> ms"
  rg_is_date_time :: "string \<Rightarrow> bool"
  rg_job_oid :: "jobs_document \<Rightarrow> object_id"
  rg_event_oid :: "event_document \<Rightarrow> object_id"
  rg_revision_oid :: "revision_document \<Rightarrow> object_id"

datatype 'd list_reply = Listed "'d page" | List_failed nat

definition listed :: "'d page option \<Rightarrow> 'd list_reply" where
  "listed page = (case page of None \<Rightarrow> List_failed 500 | Some p \<Rightarrow> Listed p)"

definition getDeploymentJobs :: "reading \<Rightarrow> string \<Rightarrow> raw_query \<Rightarrow> list_query \<Rightarrow> db \<Rightarrow> jobs_document list_reply" where
  "getDeploymentJobs rg deployment raw q s =
     listed (findPaginated (rg_other rg) (job_stored (rg_job_oid rg)) (''deployment'', C_is (V_string deployment))
       [buildMultiValueFilter ''state'' (map_of raw ''state''),
        buildSingleValueFilter ''job'' (map_option V_string (map_of raw ''job'')),
        buildSingleValueFilter ''revision'' (map_option V_string (map_of raw ''revision'')),
        buildDateRangeFilter (rg_date rg) ''created_at'' (map_of raw ''created_after'') (map_of raw ''created_before'')]
       q (db_jobs s))"

definition getDeploymentEvents :: "reading \<Rightarrow> string \<Rightarrow> raw_query \<Rightarrow> list_query \<Rightarrow> db \<Rightarrow> event_document list_reply" where
  "getDeploymentEvents rg deployment raw q s =
     listed (findPaginated (rg_other rg) (event_stored (rg_event_oid rg)) (''deploymentId'', C_is (V_string deployment))
       [buildMultiValueFilter ''category'' (map_of raw ''category''),
        buildMultiValueFilter ''type'' (map_of raw ''type''),
        buildDateRangeFilter (rg_date rg) ''created_at'' (map_of raw ''created_after'') (map_of raw ''created_before'')]
       q (db_events s))"

definition getDeploymentRevisions :: "reading \<Rightarrow> string \<Rightarrow> raw_query \<Rightarrow> list_query \<Rightarrow> db \<Rightarrow> revision_document list_reply" where
  "getDeploymentRevisions rg deployment raw q s =
     listed (findPaginated (rg_other rg) (revision_stored (rg_revision_oid rg)) (''deployment'', C_is (V_string deployment))
       [buildSingleValueFilter ''revision'' (map_option V_string (map_of raw ''revision'')),
        buildDateRangeFilter (rg_date rg) ''created_at'' (map_of raw ''created_after'') (map_of raw ''created_before'')]
       q (db_revisions s))"

definition getScheduledTasks :: "reading \<Rightarrow> string \<Rightarrow> raw_query \<Rightarrow> list_query \<Rightarrow> db \<Rightarrow> task_document list_reply" where
  "getScheduledTasks rg deployment raw q s =
     listed (findPaginated (rg_other rg) task_stored (''deploymentId'', C_is (V_string deployment))
       [buildMultiValueFilter ''task'' (map_of raw ''task''),
        buildDateRangeFilter (rg_date rg) ''due_at'' (map_of raw ''due_after'') (map_of raw ''due_before'')]
       q (db_tasks s))"

text \<open>The route: the schema of its query, the middlewares, the handler.\<close>

definition serve_list ::
    "(raw_query \<Rightarrow> list_query option) \<Rightarrow> bool \<Rightarrow> (string \<Rightarrow> raw_query \<Rightarrow> list_query \<Rightarrow> db \<Rightarrow> 'd list_reply)
     \<Rightarrow> string \<Rightarrow> address \<Rightarrow> raw_query \<Rightarrow> db \<Rightarrow> 'd list_reply" where
  "serve_list schema active handler deployment userId raw s =
     (case schema raw of
        None \<Rightarrow> List_failed 400
      | Some q \<Rightarrow>
          (case getDeployment deployment userId s of
             None \<Rightarrow> List_failed 404
           | Some d \<Rightarrow> if active \<and> d_status d = ARCHIVED then List_failed 500 else handler deployment raw q s))"

definition serve_jobs :: "reading \<Rightarrow> string \<Rightarrow> address \<Rightarrow> raw_query \<Rightarrow> db \<Rightarrow> jobs_document list_reply" where
  "serve_jobs rg = serve_list (jobs_query (rg_is_date_time rg)) False (getDeploymentJobs rg)"

definition serve_events :: "reading \<Rightarrow> string \<Rightarrow> address \<Rightarrow> raw_query \<Rightarrow> db \<Rightarrow> event_document list_reply" where
  "serve_events rg = serve_list (events_query (rg_is_date_time rg)) False (getDeploymentEvents rg)"

definition serve_revisions :: "reading \<Rightarrow> string \<Rightarrow> address \<Rightarrow> raw_query \<Rightarrow> db \<Rightarrow> revision_document list_reply" where
  "serve_revisions rg = serve_list (revisions_query (rg_is_date_time rg)) False (getDeploymentRevisions rg)"

definition serve_tasks :: "reading \<Rightarrow> string \<Rightarrow> address \<Rightarrow> raw_query \<Rightarrow> db \<Rightarrow> task_document list_reply" where
  "serve_tasks rg = serve_list (tasks_query (rg_is_date_time rg)) True (getScheduledTasks rg)"

section \<open>What a list shows\<close>

lemma assign_new: "distinct (map fst (acc @ fs)) \<Longrightarrow> fold (\<lambda>(k, v). assign_key k v) fs acc = acc @ fs"
proof (induction fs arbitrary: acc)
  case (Cons f fs)
  obtain k v where f: "f = (k, v)" by (cases f)
  have "k \<notin> fst ` set acc" using Cons.prems f by auto
  then have "assign_key k v acc = acc @ [f]" using f by (induction acc rule: assign_key.induct) auto
  with Cons.IH [of "acc @ [f]"] Cons.prems f show ?case by simp
qed simp

lemma combined_parts:
  "distinct (map fst (entries fs)) \<Longrightarrow> filter_holds doc (combineFilters fs) \<longleftrightarrow> list_all (part_holds doc) fs"
  using assign_new [of "[]" "entries fs"] entries_hold [of doc fs] by (simp add: combineFilters_def entries_def)

lemma meta_items [simp]: "pg_items (buildPaginationMeta kd items limit n hasCursor direction) = take limit items"
  by (simp add: buildPaginationMeta_def Let_def split: prod.split)

lemma page_shape:
  assumes "executeKeysetPagination other kd F desc limit cursor ds = Some p"
  shows "length (pg_items p) \<le> limit" "set (pg_items p) \<subseteq> {d \<in> set ds. F d}"
proof -
  obtain q where gen: "generateKeysetQuery other kd desc cursor = Some q"
    using assms by (cases "generateKeysetQuery other kd desc cursor") (auto simp: executeKeysetPagination_def)
  define results where "results = take (limit + 1) (in_order kd (kq_desc q) (filter (\<lambda>d. F d \<and> kq_matches q d) ds))"
  have items: "pg_items p = take limit (if kq_direction q = Some Prev then rev results else results)"
    using assms by (auto simp: executeKeysetPagination_def gen Let_def results_def)
  have "set results \<subseteq> {d \<in> set ds. F d}"
    by (auto simp: results_def in_order_def Let_def dest!: in_set_takeD split: if_splits)
  then show "set (pg_items p) \<subseteq> {d \<in> set ds. F d}" using set_take_subset [of limit "rev results"] set_take_subset [of limit results]
    by (auto simp: items split: if_splits)
  show "length (pg_items p) \<le> limit" by (simp add: items)
qed

text \<open>The base filter of a list survives the other filters, which are about other fields.\<close>

lemma findPaginated_items:
  assumes "findPaginated other sd (k, c) additional q docs = Some p"
    and "distinct (map fst (entries (Some [(k, E_field c)] # additional)))"
  shows "length (pg_items p) \<le> lq_limit q \<and>
    (\<forall>d \<in> set (pg_items p). d \<in> set docs \<and> cond_holds (sd_paths sd d k) c \<and> list_all (part_holds (sd_paths sd d)) additional)"
proof -
  note shape = page_shape [OF assms(1) [unfolded findPaginated_def]]
  have "filter_holds doc (combineFilters (Some [(k, E_field c)] # additional)) \<longleftrightarrow>
      cond_holds (doc k) c \<and> list_all (part_holds doc) additional" for doc
    using combined_parts [OF assms(2), of doc] by (simp add: part_holds_def filter_holds_def)
  with shape show ?thesis by auto
qed

lemma one_key_parts:
  "list_all2 (\<lambda>f k. f = None \<or> (\<exists>e. f = Some [(k, e)])) fs ks \<Longrightarrow> distinct (k # ks) \<Longrightarrow>
     distinct (map fst (entries (Some [(k, E_field c)] # fs)))"
  using entries_keys [of fs ks] by auto

lemma keys_of_lists:
  "distinct (map fst (entries (Some [(''deployment'', E_field c)] # [buildMultiValueFilter ''state'' a,
     buildSingleValueFilter ''job'' b, buildSingleValueFilter ''revision'' v, buildDateRangeFilter date ''created_at'' x y])))"
  "distinct (map fst (entries (Some [(''deploymentId'', E_field c)] # [buildMultiValueFilter ''category'' a,
     buildMultiValueFilter ''type'' a', buildDateRangeFilter date ''created_at'' x y])))"
  "distinct (map fst (entries (Some [(''deployment'', E_field c)] # [buildSingleValueFilter ''revision'' v,
     buildDateRangeFilter date ''created_at'' x y])))"
  "distinct (map fst (entries (Some [(''deploymentId'', E_field c)] # [buildMultiValueFilter ''task'' a,
     buildDateRangeFilter date ''due_at'' x y])))"
proof -
  note parts = list.rel_intros one_key
  show "distinct (map fst (entries (Some [(''deployment'', E_field c)] # [buildMultiValueFilter ''state'' a,
      buildSingleValueFilter ''job'' b, buildSingleValueFilter ''revision'' v, buildDateRangeFilter date ''created_at'' x y])))"
    by (rule one_key_parts [where ks = "[''state'', ''job'', ''revision'', ''created_at'']"]) (intro parts, simp)
  show "distinct (map fst (entries (Some [(''deploymentId'', E_field c)] # [buildMultiValueFilter ''category'' a,
      buildMultiValueFilter ''type'' a', buildDateRangeFilter date ''created_at'' x y])))"
    by (rule one_key_parts [where ks = "[''category'', ''type'', ''created_at'']"]) (intro parts, simp)
  show "distinct (map fst (entries (Some [(''deployment'', E_field c)] # [buildSingleValueFilter ''revision'' v,
      buildDateRangeFilter date ''created_at'' x y])))"
    by (rule one_key_parts [where ks = "[''revision'', ''created_at'']"]) (intro parts, simp)
  show "distinct (map fst (entries (Some [(''deploymentId'', E_field c)] # [buildMultiValueFilter ''task'' a,
      buildDateRangeFilter date ''due_at'' x y])))"
    by (rule one_key_parts [where ks = "[''task'', ''due_at'']"]) (intro parts, simp)
qed

lemma listed_page: "listed page = Listed p \<longleftrightarrow> page = Some p"
  by (simp add: listed_def split: option.split)

lemma serve_list_page:
  assumes "serve_list schema active handler i userId raw s = Listed p"
  obtains q d where "schema raw = Some q" "d \<in> set (db_deployments s)" "d_id d = i" "d_owner d = userId"
    "handler i raw q s = Listed p"
  using assms by (auto simp: serve_list_def getDeployment_def owned_def dest!: find_one_SomeD split: option.splits if_splits)

lemma query_limit:
  "jobs_query f raw = Some q \<Longrightarrow> lq_limit q \<le> 100" "events_query f raw = Some q \<Longrightarrow> lq_limit q \<le> 100"
  "revisions_query f raw = Some q \<Longrightarrow> lq_limit q \<le> 100" "tasks_query f raw = Some q \<Longrightarrow> lq_limit q \<le> 100"
  by (auto simp: jobs_query_def events_query_def revisions_query_def tasks_query_def page_query_def page_size_def
      split: option.splits if_splits)

text \<open>
  C34: A list shows its own deployment and nothing else. Whatever the query and however the cursor
  was made up, a page of jobs, events, revisions or scheduled tasks is shown only to the owner of the
  deployment named in the path, has at most a hundred items, and every one of them is a stored document
  of that deployment; an archived deployment's tasks are not shown at all.
\<close>

theorem lists_stay_inside:
  "(serve_jobs rg i userId raw s = Listed pj \<longrightarrow> (\<exists>d \<in> set (db_deployments s). d_id d = i \<and> d_owner d = userId) \<and>
      length (pg_items pj) \<le> 100 \<and> (\<forall>j \<in> set (pg_items pj). j \<in> set (db_jobs s) \<and> j_deployment j = i)) \<and>
   (serve_events rg i userId raw s = Listed pe \<longrightarrow> (\<exists>d \<in> set (db_deployments s). d_id d = i \<and> d_owner d = userId) \<and>
      length (pg_items pe) \<le> 100 \<and> (\<forall>e \<in> set (pg_items pe). e \<in> set (db_events s) \<and> e_deploymentId e = i)) \<and>
   (serve_revisions rg i userId raw s = Listed pr \<longrightarrow> (\<exists>d \<in> set (db_deployments s). d_id d = i \<and> d_owner d = userId) \<and>
      length (pg_items pr) \<le> 100 \<and> (\<forall>r \<in> set (pg_items pr). r \<in> set (db_revisions s) \<and> r_deployment r = i)) \<and>
   (serve_tasks rg i userId raw s = Listed pt \<longrightarrow> (\<exists>d \<in> set (db_deployments s). d_id d = i \<and> d_owner d = userId) \<and>
      length (pg_items pt) \<le> 100 \<and> (\<forall>t \<in> set (pg_items pt). t \<in> set (db_tasks s) \<and> t_deploymentId t = i))"
proof (intro conjI impI)
  assume "serve_jobs rg i userId raw s = Listed pj"
  then obtain q d where q: "jobs_query (rg_is_date_time rg) raw = Some q" and d: "d \<in> set (db_deployments s)" "d_id d = i" "d_owner d = userId"
    and h: "getDeploymentJobs rg i raw q s = Listed pj"
    unfolding serve_jobs_def by (elim serve_list_page)
  from findPaginated_items [OF h [unfolded getDeploymentJobs_def listed_page] keys_of_lists(1)] query_limit(1) [OF q]
  show "length (pg_items pj) \<le> 100" "\<forall>j \<in> set (pg_items pj). j \<in> set (db_jobs s) \<and> j_deployment j = i"
    by (auto simp: job_stored_def value_is_def)
  show "\<exists>d \<in> set (db_deployments s). d_id d = i \<and> d_owner d = userId" using d by blast
next
  assume "serve_events rg i userId raw s = Listed pe"
  then obtain q d where q: "events_query (rg_is_date_time rg) raw = Some q" and d: "d \<in> set (db_deployments s)" "d_id d = i" "d_owner d = userId"
    and h: "getDeploymentEvents rg i raw q s = Listed pe"
    unfolding serve_events_def by (elim serve_list_page)
  from findPaginated_items [OF h [unfolded getDeploymentEvents_def listed_page] keys_of_lists(2)] query_limit(2) [OF q]
  show "length (pg_items pe) \<le> 100" "\<forall>e \<in> set (pg_items pe). e \<in> set (db_events s) \<and> e_deploymentId e = i"
    by (auto simp: event_stored_def value_is_def)
  show "\<exists>d \<in> set (db_deployments s). d_id d = i \<and> d_owner d = userId" using d by blast
next
  assume "serve_revisions rg i userId raw s = Listed pr"
  then obtain q d where q: "revisions_query (rg_is_date_time rg) raw = Some q" and d: "d \<in> set (db_deployments s)" "d_id d = i" "d_owner d = userId"
    and h: "getDeploymentRevisions rg i raw q s = Listed pr"
    unfolding serve_revisions_def by (elim serve_list_page)
  from findPaginated_items [OF h [unfolded getDeploymentRevisions_def listed_page] keys_of_lists(3)] query_limit(3) [OF q]
  show "length (pg_items pr) \<le> 100" "\<forall>r \<in> set (pg_items pr). r \<in> set (db_revisions s) \<and> r_deployment r = i"
    by (auto simp: revision_stored_def value_is_def)
  show "\<exists>d \<in> set (db_deployments s). d_id d = i \<and> d_owner d = userId" using d by blast
next
  assume "serve_tasks rg i userId raw s = Listed pt"
  then obtain q d where q: "tasks_query (rg_is_date_time rg) raw = Some q" and d: "d \<in> set (db_deployments s)" "d_id d = i" "d_owner d = userId"
    and h: "getScheduledTasks rg i raw q s = Listed pt"
    unfolding serve_tasks_def by (elim serve_list_page)
  from findPaginated_items [OF h [unfolded getScheduledTasks_def listed_page] keys_of_lists(4)] query_limit(4) [OF q]
  show "length (pg_items pt) \<le> 100" "\<forall>t \<in> set (pg_items pt). t \<in> set (db_tasks s) \<and> t_deploymentId t = i"
    by (auto simp: task_stored_def value_is_def)
  show "\<exists>d \<in> set (db_deployments s). d_id d = i \<and> d_owner d = userId" using d by blast
qed

text \<open>
  No list can be filtered by revision. The schemas declare the parameter a number and the server
  turns off coercion, so a query string, which is text, never meets them: with any \<open>revision\<close> given
  the lists of jobs and of revisions answer 400, to everyone, for every deployment.
\<close>

theorem revision_filter_is_refused:
  "serve_jobs rg i userId ((''revision'', text) # raw) s = List_failed 400 \<and>
   serve_revisions rg i userId ((''revision'', text) # raw) s = List_failed 400"
  by (simp add: serve_jobs_def serve_revisions_def serve_list_def jobs_query_def revisions_query_def number_property_def)

definition example_reading :: reading where
  "example_reading = \<lparr>rg_other = (\<lambda>text. None), rg_date = (\<lambda>text. 0), rg_is_date_time = (\<lambda>text. True),
     rg_job_oid = (\<lambda>j. 0), rg_event_oid = (\<lambda>e. 0), rg_revision_oid = r_revision\<rparr>"

theorem lists_stay_inside_witness:
  "\<exists>p. serve_events example_reading ''D'' ''O'' [] (empty_db\<lparr>db_deployments := [blank_deployment ''D'' ''O'' RUNNING],
       db_events := [deployment_event ''D'' ''T'' ''m'' None 1, deployment_event ''E'' ''T'' ''m'' None 2]\<rparr>) = Listed p \<and>
     (\<forall>e \<in> set (pg_items p). e_deploymentId e = ''D'')"
proof -
  let ?s = "empty_db\<lparr>db_deployments := [blank_deployment ''D'' ''O'' RUNNING],
       db_events := [deployment_event ''D'' ''T'' ''m'' None 1, deployment_event ''E'' ''T'' ''m'' None 2]\<rparr>"
  have "\<exists>p. serve_events example_reading ''D'' ''O'' [] ?s = Listed p"
    by (simp add: serve_events_def serve_list_def events_query_def date_property_def page_query_def page_size_def sort_desc_def
        getDeployment_def owned_def find_one_def blank_deployment_def getDeploymentEvents_def findPaginated_def
        executeKeysetPagination_def generateKeysetQuery_def listed_def Let_def)
  then obtain p where "serve_events example_reading ''D'' ''O'' [] ?s = Listed p" by blast
  with lists_stay_inside [of example_reading "''D''" "''O''" "[]" ?s] show ?thesis by blast
qed

section \<open>The deployment itself\<close>

text \<open>The document with the number of its running jobs; its dates are sent as text.\<close>

definition getDeploymentById :: "deployment_document \<Rightarrow> db \<Rightarrow> deployment_document \<times> nat \<times> string \<times> string" where
  "getDeploymentById deployment s =
     (deployment, count_docs (\<lambda>j. j_deployment j = d_id deployment \<and> j_state j = J_RUNNING) (db_jobs s),
      toISOString (d_created_at deployment), toISOString (d_updated_at deployment))"

definition getDeploymentSshKeys :: "deployment_document \<Rightarrow> string list" where
  "getDeploymentSshKeys deployment = nullish (d_ssh_public_keys deployment) []"

section \<open>One job (\<open>getDeploymentJobById\<close>)\<close>

record onchain_job =
  oc_state :: nat
  oc_node :: address
  oc_timeStart :: int
  oc_timeEnd :: int
  oc_ipfsResult :: "string option"

definition lifecycleOf :: "jobs_document \<Rightarrow> onchain_job option \<Rightarrow> onchain_job" where
  "lifecycleOf job onchain = (case onchain of
     Some account \<Rightarrow> account
   | None \<Rightarrow> \<lparr>oc_state = jobStateToNumber (j_state job), oc_node = nullish (j_node job) DEFAULT_NODE,
       oc_timeStart = j_time_start job, oc_timeEnd = nullish (j_time_end job) 0, oc_ipfsResult = None\<rparr>)"

record job_response =
  jr_confidential :: bool
  jr_revision :: nat
  jr_market :: "address option"
  jr_node :: address
  jr_state :: nat
  jr_jobDefinition :: job_definition
  jr_jobResult :: "string option"
  jr_timeStart :: int
  jr_timeEnd :: int
  jr_listedAt :: int

text \<open>\<open>retrieve\<close> reads from IPFS; None is a throw, and the answer 500.\<close>

definition buildDeploymentJobResponse ::
    "(string \<Rightarrow> string option) \<Rightarrow> deployment_document \<Rightarrow> jobs_document \<Rightarrow> revision_document \<Rightarrow> string option
     \<Rightarrow> onchain_job option \<Rightarrow> job_response option" where
  "buildDeploymentJobResponse retrieve deployment job revision results onchain =
     (let life = lifecycleOf job onchain;
          respond = (\<lambda>jobResult. \<lparr>jr_confidential = d_confidential deployment, jr_revision = j_revision job,
            jr_market = j_market job, jr_node = oc_node life, jr_state = oc_state life,
            jr_jobDefinition = r_job_definition revision, jr_jobResult = jobResult,
            jr_timeStart = oc_timeStart life, jr_timeEnd = oc_timeEnd life, jr_listedAt = j_created_at job div 1000\<rparr>)
      in if 1 < oc_state life \<and> results = None \<and> truthy_string (oc_ipfsResult life)
         then map_option (\<lambda>r. respond (Some r)) (retrieve (the (oc_ipfsResult life)))
         else Some (respond results))"

datatype job_reply = Job_shown job_response | Job_failed nat

definition getDeploymentJobById ::
    "(string \<Rightarrow> string option) \<Rightarrow> (address \<Rightarrow> nat option list + onchain_job) \<Rightarrow> deployment_document \<Rightarrow> address \<Rightarrow> db \<Rightarrow> job_reply" where
  "getDeploymentJobById retrieve account deployment jobId s =
     (case find_one (\<lambda>j. j_job j = jobId \<and> j_deployment j = d_id deployment) (db_jobs s) of
        None \<Rightarrow> Job_failed 404
      | Some job \<Rightarrow>
          (case find_one (\<lambda>r. r_deployment r = d_id deployment \<and> r_revision r = j_revision job) (db_revisions s) of
             None \<Rightarrow> Job_failed 500
           | Some revision \<Rightarrow>
               (let results = map_option snd (find_one (\<lambda>r. fst r = j_job job) (db_results s))
                in case findJobAccount (account (j_job job)) of
                     None \<Rightarrow> Job_failed 500
                   | Some onchain \<Rightarrow>
                       (case buildDeploymentJobResponse retrieve deployment job revision results onchain of
                          None \<Rightarrow> Job_failed 500 | Some response \<Rightarrow> Job_shown response))))"

text \<open>
  A job is shown as the chain has it, or as it was recorded. What the route shows of a job is the
  chain's account while it exists; once the chain says it is gone, the record of the listener, under
  the same number of its state. The results a node reported are shown as they are, whatever the chain
  says; only a job that has ended without them is looked up by the hash the chain pinned. A job of
  another deployment is not found.
\<close>

theorem job_is_shown_from_its_sources:
  assumes "getDeploymentJobById retrieve account deployment jobId s = Job_shown r"
  shows "\<exists>job \<in> set (db_jobs s). j_job job = jobId \<and> j_deployment job = d_id deployment \<and> jr_revision r = j_revision job \<and>
     (\<exists>revision \<in> set (db_revisions s). r_deployment revision = d_id deployment \<and> r_revision revision = j_revision job \<and>
        jr_jobDefinition r = r_job_definition revision) \<and>
     (case account jobId of
        Inr onchain \<Rightarrow> jr_state r = oc_state onchain \<and> jr_node r = oc_node onchain \<and>
          (jr_jobResult r = (case find_one (\<lambda>x. fst x = jobId) (db_results s) of
             Some x \<Rightarrow> Some (snd x)
           | None \<Rightarrow> if 1 < oc_state onchain \<and> truthy_string (oc_ipfsResult onchain) then retrieve (the (oc_ipfsResult onchain)) else None))
      | Inl e \<Rightarrow> isAccountNotFound e \<and> convertJobState (jr_state r) = Some (j_state job) \<and>
          jr_jobResult r = map_option snd (find_one (\<lambda>x. fst x = jobId) (db_results s)))"
proof -
  obtain job where job: "find_one (\<lambda>j. j_job j = jobId \<and> j_deployment j = d_id deployment) (db_jobs s) = Some job"
    using assms by (cases "find_one (\<lambda>j. j_job j = jobId \<and> j_deployment j = d_id deployment) (db_jobs s)") (auto simp: getDeploymentJobById_def)
  then have j: "job \<in> set (db_jobs s)" "j_job job = jobId" "j_deployment job = d_id deployment" by (auto dest: find_one_SomeD)
  obtain rev where rev: "find_one (\<lambda>r. r_deployment r = d_id deployment \<and> r_revision r = j_revision job) (db_revisions s) = Some rev"
    using assms job by (cases "find_one (\<lambda>r. r_deployment r = d_id deployment \<and> r_revision r = j_revision job) (db_revisions s)")
      (auto simp: getDeploymentJobById_def)
  let ?results = "map_option snd (find_one (\<lambda>x. fst x = jobId) (db_results s))"
  obtain onchain where chain: "findJobAccount (account jobId) = Some onchain"
    and built: "buildDeploymentJobResponse retrieve deployment job rev ?results onchain = Some r"
    using assms job rev j(2) by (auto simp: getDeploymentJobById_def Let_def split: option.splits)
  have rev': "rev \<in> set (db_revisions s)" "r_deployment rev = d_id deployment" "r_revision rev = j_revision job"
    using rev by (auto dest: find_one_SomeD)
  have source: "case account jobId of Inr a \<Rightarrow> onchain = Some a | Inl e \<Rightarrow> onchain = None \<and> isAccountNotFound e"
    using chain by (auto simp: findJobAccount_def split: sum.splits if_splits)
  have shown: "jr_revision r = j_revision job" "jr_jobDefinition r = r_job_definition rev"
    "jr_state r = oc_state (lifecycleOf job onchain)" "jr_node r = oc_node (lifecycleOf job onchain)"
    "jr_jobResult r = (if 1 < oc_state (lifecycleOf job onchain) \<and> ?results = None \<and> truthy_string (oc_ipfsResult (lifecycleOf job onchain))
       then retrieve (the (oc_ipfsResult (lifecycleOf job onchain))) else ?results)"
    using built by (auto simp: buildDeploymentJobResponse_def Let_def split: if_splits)
  show ?thesis
  proof (rule bexI [OF _ j(1)], intro conjI)
    show "\<exists>revision \<in> set (db_revisions s). r_deployment revision = d_id deployment \<and> r_revision revision = j_revision job \<and>
        jr_jobDefinition r = r_job_definition revision" using rev' shown by blast
    show "case account jobId of
        Inr onchain \<Rightarrow> jr_state r = oc_state onchain \<and> jr_node r = oc_node onchain \<and>
          (jr_jobResult r = (case find_one (\<lambda>x. fst x = jobId) (db_results s) of
             Some x \<Rightarrow> Some (snd x)
           | None \<Rightarrow> if 1 < oc_state onchain \<and> truthy_string (oc_ipfsResult onchain) then retrieve (the (oc_ipfsResult onchain)) else None))
      | Inl e \<Rightarrow> isAccountNotFound e \<and> convertJobState (jr_state r) = Some (j_state job) \<and>
          jr_jobResult r = map_option snd (find_one (\<lambda>x. fst x = jobId) (db_results s))"
      using source shown by (cases "account jobId") (auto simp: lifecycleOf_def convert_jobStateToNumber split: option.split)
  qed (use j shown in simp_all)
qed

definition example_listed_job :: jobs_document where
  "example_listed_job = \<lparr>j_job = ''J'', j_market = Some ''M'', j_node = None, j_deployment = ''D'', j_revision = 1, j_tx = ''T'',
     j_state = J_STOPPED, j_time_start = 0, j_time_end = None, j_startup_deadline = None, j_created_at = 0, j_updated_at = 0\<rparr>"

theorem job_is_shown_from_its_sources_witness:
  "\<exists>r. getDeploymentJobById (\<lambda>hash. None) (\<lambda>a. Inl [Some 3230000]) (blank_deployment ''D'' ''O'' RUNNING) ''J''
       (keyed_db\<lparr>db_jobs := [example_listed_job]\<rparr>) = Job_shown r \<and> convertJobState (jr_state r) = Some J_STOPPED"
proof -
  let ?s = "keyed_db\<lparr>db_jobs := [example_listed_job]\<rparr>" and ?d = "blank_deployment ''D'' ''O'' RUNNING"
  have "\<exists>r. getDeploymentJobById (\<lambda>hash. None) (\<lambda>a. Inl [Some 3230000]) ?d ''J'' ?s = Job_shown r"
    by (simp add: getDeploymentJobById_def example_listed_job_def find_one_def keyed_db_def example_revision_def empty_db_def
        blank_deployment_def findJobAccount_def isAccountNotFound_def ACCOUNT_NOT_FOUND_CODES_def
        buildDeploymentJobResponse_def lifecycleOf_def Let_def)
  then obtain r where r: "getDeploymentJobById (\<lambda>hash. None) (\<lambda>a. Inl [Some 3230000]) ?d ''J'' ?s = Job_shown r" by blast
  from job_is_shown_from_its_sources [OF r] have "convertJobState (jr_state r) = Some J_STOPPED"
    by (auto simp: example_listed_job_def)
  with r show ?thesis by blast
qed

section \<open>What a confidential host reads is what an open one fetches\<close>



end
