(* ===== verification/Route_Results.thy ===== *)
theory Route_Results
  imports Pins
begin

text \<open>
  What the requests on a deployment come to: which statuses can be left and reached, what creating a
  deployment stores, how revisions are numbered, and the two places where the routes do not keep
  what they check elsewhere.
\<close>

lemma serve_cases:
  obtains (refused) status m where "serve env r i userId s = (Failed status m, s)"
  | (handled) d where "getDeployment i userId s = Some d" "open_to_archived r \<or> d_status d \<noteq> ARCHIVED"
      "serve env r i userId s = handle env r d userId s"
proof (cases "getDeployment i userId s")
  case None
  then show ?thesis by (intro refused [of 404 M_NOT_FOUND]) (simp add: serve_def serve_stale_def admit_def)
next
  case (Some d)
  show ?thesis
  proof (cases "open_to_archived r \<or> d_status d \<noteq> ARCHIVED")
    case True
    with Some show ?thesis by (intro handled [of d]) (auto simp: serve_def serve_stale_def admit_def)
  next
    case False
    with Some show ?thesis by (intro refused [of 500 M_ARCHIVED]) (simp add: serve_def serve_stale_def admit_def)
  qed
qed

section \<open>Archived deployments\<close>

lemma duplicate_keeps:
  assumes "e \<in> set (db_deployments s)" "d_id e \<noteq> re_fresh env"
  shows "e \<in> set (db_deployments (snd (deploymentDuplicate env name market autostart d userId s)))"
proof (cases rule: duplicate_cases [of env name market autostart d userId s])
  case (copied body d' r s1 s2)
  have e: "e \<in> set (db_deployments s2)"
    using assms(1) copied(2) by (auto simp: copied(3) insert_revision_iff)
  moreover have "\<not> owned (d_id d') userId e" using createDeployment_keys [OF copied(1)] assms(2) by (auto simp: owned_iff)
  ultimately show ?thesis by (auto simp: copied(4) update_one_other)
qed (simp add: assms(1))

text \<open>
  No request revives an ARCHIVED deployment, whoever sends it, as long as its middlewares read the
  store its handler runs on; the name is the one thing that can still be changed.
\<close>

theorem archived_refuses_requests:
  fixes e :: deployment_document
  assumes s: "distinct (map d_id (db_deployments s))" "e \<in> set (db_deployments s)" "d_status e = ARCHIVED"
    and fresh: "re_fresh env \<noteq> d_id e"
  shows "\<exists>e' \<in> set (db_deployments (snd (serve env r i userId s))).
    e'\<lparr>d_name := d_name e, d_updated_at := d_updated_at e\<rparr> = e"
proof (cases "owned i userId e")
  case True
  then have found: "getDeployment i userId s = Some e" using getDeployment_found [OF s(1,2)] by simp
  have i: "d_id e = i" "d_owner e = userId" using True by (auto simp: owned_iff)
  have kept: ?thesis if "e \<in> set (db_deployments (snd (serve env r i userId s)))"
    by (rule bexI [OF _ that]) simp
  show ?thesis
  proof (cases r)
    case (Update_name name)
    let ?P = "\<lambda>x. owned i userId x \<and> d_name x \<noteq> name" and ?f = "\<lambda>x. x\<lparr>d_name := name, d_updated_at := re_now env\<rparr>"
    have served: "serve env r i userId s = (Name_reply name (re_now env), on_deployment ?P ?f s)"
      by (simp add: Update_name serve_def serve_stale_def found admit_def open_to_archived_def deploymentUpdateName_def i)
    show ?thesis
    proof (cases "d_name e = name")
      case True
      have "e \<in> set (update_one ?P ?f (db_deployments s))" using s(2) True by (simp add: update_one_other)
      then show ?thesis by (intro kept) (simp add: served)
    next
      case False
      have "?f e \<in> set (update_one ?P ?f (db_deployments s))"
        by (rule update_one_mem [where k = d_id and P = ?P, OF s(1,2)]) (use True False i in \<open>simp_all add: owned_iff\<close>)
      then show ?thesis unfolding served by (intro bexI [of _ "?f e"]) simp_all
    qed
  next
    case (Duplicate name market autostart)
    have "e \<in> set (db_deployments (snd (deploymentDuplicate env name market autostart e userId s)))"
      using duplicate_keeps s(2) fresh by metis
    then show ?thesis
      by (intro kept) (simp add: Duplicate serve_def serve_stale_def found admit_def open_to_archived_def)
  qed (use s in \<open>intro kept; simp add: serve_def serve_stale_def found admit_def open_to_archived_def deploymentStart_def deploymentDelete_def\<close>)+
next
  case False
  let ?Q = "\<lambda>d. \<not> (d_owner d = userId \<and> d_id d \<in> touches env r i)"
  have "?Q e" using False fresh by (auto simp: owned_iff touches_def split: request.splits)
  then have "e \<in> set (filter ?Q (db_deployments s))" using s(2) by simp
  also have "filter ?Q (db_deployments s) = filter ?Q (db_deployments (snd (serve env r i userId s)))"
    using confined_serve_stale [of userId env r i s s] by (simp add: confined_def serve_def)
  finally show ?thesis by (intro bexI [of _ e]) simp_all
qed

text \<open>
  A request that read the deployment before its owner was banned revives it: a stop that passed its
  checks on the RUNNING document writes STOPPING over ARCHIVED.
\<close>

theorem stale_stop_revives_archived:
  assumes read: "getDeployment i userId read = Some d" "d_status d \<in> {RUNNING, ERROR, INSUFFICIENT_FUNDS}"
    and s: "distinct (map d_id (db_deployments s))" "e \<in> set (db_deployments s)" "owned i userId e" "d_status e = ARCHIVED"
  shows "fst (serve_stale env Stop i userId read s) = Status_reply STOPPING (re_now env) \<and>
    e\<lparr>d_status := STOPPING, d_updated_at := re_now env\<rparr> \<in> set (db_deployments (snd (serve_stale env Stop i userId read s)))"
proof -
  have i: "d_id d = i" using getDeployment_owned [OF read(1)] by (simp add: owned_iff)
  have served: "serve_stale env Stop i userId read s = (Status_reply STOPPING (re_now env),
      on_deployment (owned i userId) (\<lambda>e. e\<lparr>d_status := STOPPING, d_updated_at := re_now env\<rparr>) s)"
    using read by (auto simp: serve_stale_def admit_def open_to_archived_def deploymentStop_def i)
  show ?thesis
    using update_one_mem [where k = d_id and P = "owned i userId"
        and f = "\<lambda>e. e\<lparr>d_status := STOPPING, d_updated_at := re_now env\<rparr>", OF s(1,2,3)] s(3)
    by (simp add: served owned_iff)
qed

section \<open>Timeouts and rotations\<close>

text \<open>
  Create refuses an INFINITE deployment whose rotation does not come at least ten minutes before
  the timeout, but shortening the timeout later is not checked against the rotation: the rotation of
  the next job that runs is then due at once.
\<close>

theorem shorter_timeout_rotates_at_once:
  fixes s :: db and d :: deployment_document and env :: route_env and minutes :: int
  defines "s1 \<equiv> snd (serve env (Update_timeout minutes) (d_id d) (d_owner d) s)"
  assumes s: "distinct (map d_id (db_deployments s))" "d \<in> set (db_deployments s)"
    and d: "d_strategy d = INFINITE" "d_status d = RUNNING" "d_startup_timeout d = None"
    and minutes: "d_rotation_time d = Some rotation" "minutes \<le> rotation" "d_timeout d \<noteq> minutes"
    and j: "j_deployment j = d_id d" "\<not> matches (\<lambda>t. t_task t = LIST \<and> t_job t = Some (j_job j)) (db_tasks s)"
  shows "\<exists>t \<in> set (db_tasks (infiniteJobRunningUpdate senv j s1)).
    t_task t = LIST \<and> t_job t = Some (j_job j) \<and> t_due_at t \<le> se_now senv"
proof -
  let ?P = "\<lambda>e. owned (d_id d) (d_owner d) e \<and> d_timeout e \<noteq> minutes"
  let ?f = "\<lambda>e. e\<lparr>d_timeout := minutes, d_updated_at := re_now env\<rparr>"
  have own: "owned (d_id d) (d_owner d) d" by (simp add: owned_iff)
  have s1: "s1 = on_deployment ?P ?f s"
    using d by (simp add: s1_def serve_def serve_stale_def getDeployment_found [OF s own] admit_def open_to_archived_def deploymentUpdateTimeout_def)
  have cur: "findDeployment (j_deployment j) s1 = Some (?f d)"
    unfolding findDeployment_def j(1) s1 on_deployment_proj
    by (rule find_updated [OF s]) (use own minutes in \<open>auto simp: owned_iff\<close>)
  let ?rotate = "getTimeNthMinutesBeforeTimeout minutes rotation (se_now senv)"
  let ?s2 = "if active_jobs_of (j_deployment j) (d_active_revision d) s1 > d_replicas d
    then snd (scheduleTask STOP (d_id d) RUNNING (se_now senv) (se_now senv) overcount_options s1) else s1"
  have upd: "infiniteJobRunningUpdate senv j s1 =
      snd (scheduleTask LIST (d_id d) RUNNING ?rotate (se_now senv) (rotation_options j) ?s2)"
    using d minutes by (simp add: infiniteJobRunningUpdate_def cur isActiveInfiniteDeployment_def armStartupDeadline_def Let_def)
  have new: "\<exists>t \<in> set (db_tasks (snd (scheduleTask LIST (d_id d) RUNNING due (se_now senv) (rotation_options j) s'))).
      t_task t = LIST \<and> t_job t = Some (j_job j) \<and> t_due_at t = due"
    if "\<not> matches (\<lambda>t. t_task t = LIST \<and> t_job t = Some (j_job j)) (db_tasks s')" for s' due
  proof -
    have "\<not> matches (same_intent s' LIST (d_id d) (rotation_options j)) (db_tasks s')"
      using that by (auto simp: matches_iff same_intent_def rotation_options_def no_options_def)
    then show ?thesis
      by (simp add: scheduleTask_tasks scheduleTask_created_iff) (simp add: scheduled_doc_def rotation_options_def no_options_def)
  qed
  have "\<not> matches (\<lambda>t. t_task t = LIST \<and> t_job t = Some (j_job j)) (db_tasks ?s2)"
    using j(2) by (auto simp: s1 matches_iff scheduleTask_tasks scheduled_doc_def)
  from new [OF this, of ?rotate] show ?thesis
    unfolding upd using minutes(2) by (auto simp: getTimeNthMinutesBeforeTimeout_def)
qed

section \<open>Creating\<close>

lemma update_one_last: "\<forall>x \<in> set xs. \<not> P x \<Longrightarrow> update_one P f (xs @ [y]) = xs @ [if P y then f y else y]"
  by (induction xs) auto

text \<open>
  C31: A create stores one deployment with its first revision, a DRAFT or already in its first run, under
  a creation key its owner has not used, or it stores neither.
\<close>

theorem create_is_all_or_nothing:
  assumes "re_fresh env \<notin> set (map d_id (db_deployments s))"
  shows "case deploymentCreate env apiKey generated body userId s of
      (Failed status m, s') \<Rightarrow> db_deployments s' = db_deployments s \<and> db_revisions s' = db_revisions s
    | (Deployment_reply d status, s') \<Rightarrow> infinite_body_error body = None \<and>
        \<not> matches (\<lambda>x. d_owner x = userId \<and> truthy_string (cb_idempotency_key body) \<and>
          d_idempotency_key x = cb_idempotency_key body) (db_deployments s) \<and>
        (\<exists>e r. db_deployments s' = db_deployments s @ [e] \<and> db_revisions s' = db_revisions s @ [r] \<and>
          d_id e = re_fresh env \<and> d_owner e = userId \<and> d_active_revision e = 1 \<and>
          r_deployment r = d_id e \<and> r_revision r = 1 \<and> d_status e = status \<and>
          status = (if cb_autostart body then STARTING else DRAFT) \<and> d_run e = (if cb_autostart body then Some 1 else None))
    | _ \<Rightarrow> False"
proof (cases rule: create_cases [of userId env apiKey generated body s])
  case (refused w s1)
  obtain reply s' where out: "deploymentCreate env apiKey generated body userId s = (reply, s')" by (rule prod.exhaust)
  then show ?thesis using refused vault_of_frame [OF refused(1)] by auto
next
  case (created vault s1 d r s2 s3)
  note frame = vault_of_frame [OF created(1)] and keys = createDeployment_keys [OF created(2)]
  have key: "d_idempotency_key d = (if truthy_string (cb_idempotency_key body) then cb_idempotency_key body else None)"
    by (rule createDeployment_key [OF created(2)])
  have s2: "s2 = s1\<lparr>db_deployments := db_deployments s1 @ [d]\<rparr>"
    and unused: "d_idempotency_key d = None \<or>
      \<not> matches (\<lambda>e. d_owner e = d_owner d \<and> d_idempotency_key e = d_idempotency_key d) (db_deployments s1)"
    using created(3) by (auto simp: insert_deployment_def insert_one_def split: if_splits)
  have s3: "s3 = s2\<lparr>db_revisions := db_revisions s2 @ [r]\<rparr>"
    using created(4) by (simp add: insert_revision_iff insert_one_def)
  have ok: "infinite_body_error body = None"
    using created(5) by (auto simp: deploymentCreate_def split: option.splits)
  have "truthy_string (cb_idempotency_key body) \<Longrightarrow> d_idempotency_key d \<noteq> None"
    by (cases "cb_idempotency_key body") (simp_all add: key)
  then have "\<not> matches (\<lambda>x. d_owner x = userId \<and> truthy_string (cb_idempotency_key body) \<and>
      d_idempotency_key x = cb_idempotency_key body) (db_deployments s)"
    using unused keys by (auto simp: matches_iff frame key split: if_splits)
  moreover have "update_one (owned (d_id d) userId) (startDeploymentUpdate (re_now env)) (db_deployments s @ [d]) =
      db_deployments s @ [startDeploymentUpdate (re_now env) d]"
    using assms keys by (subst update_one_last) (force simp: owned_iff)+
  ultimately show ?thesis
    using keys ok by (auto simp: created(5) s3 s2 frame startDeploymentUpdate_def)
qed

section \<open>Numbering revisions\<close>

lemma latest_revision_highest:
  assumes "r \<in> set (db_revisions s)" "r_deployment r = i"
  shows "\<exists>m. latest_revision i s = Some m \<and> r_revision r \<le> m"
proof -
  let ?ns = "map r_revision (filter (\<lambda>r. r_deployment r = i) (db_revisions s))"
  have n: "r_revision r \<in> set (rev (sort ?ns))" using assms by auto
  then obtain m ms where m: "rev (sort ?ns) = m # ms" by (cases "rev (sort ?ns)") auto
  have "sorted_wrt (\<ge>) (m # ms)" using sorted_sort [of ?ns] m by (simp add: sorted_wrt_rev flip: m)
  with n have "r_revision r \<le> m" unfolding m by auto
  with m show ?thesis by (simp add: latest_revision_def)
qed

text \<open>
  A revision that is created, also after the active one was rolled back, gets a number above every
  revision its deployment ever kept and becomes the active one; no revision is overwritten.
\<close>

theorem new_revision_is_highest:
  assumes success: "serve env (Create_revision jd) i userId s = (Revision_reply n endpoints now, s')"
    and s: "distinct (map d_id (db_deployments s))"
  shows "(\<forall>r \<in> set (db_revisions s). r_deployment r = i \<longrightarrow> r_revision r < n) \<and>
    (\<exists>r. db_revisions s' = db_revisions s @ [r] \<and> r_deployment r = i \<and> r_revision r = n) \<and>
    (\<exists>d \<in> set (db_deployments s'). d_id d = i \<and> d_owner d = userId \<and> d_active_revision d = n)"
proof -
  obtain d where found: "getDeployment i userId s = Some d"
      "serve env (Create_revision jd) i userId s = deploymentCreateRevision (re_kit env) jd (re_now env) d userId s"
    using success by (cases rule: serve_cases [of env "Create_revision jd" i userId s]) auto
  note d = getDeployment_owned [OF found(1)]
  then have i: "d_id d = i" by (simp add: owned_iff)
  let ?current = "nullish (latest_revision i s) (d_active_revision d)"
  have served: "deploymentCreateRevision (re_kit env) jd (re_now env) d userId s = (Revision_reply n endpoints now, s')"
    using success found by simp
  obtain r stored s1 where new: "createNewDeploymentRevision (re_kit env) ?current i (d_vault d) jd (d_confidential d)
        (d_ssh_public_keys d) (re_now env) = Some (r, endpoints, stored)"
    and s1: "insert_revision r s = Some s1" and n: "n = r_revision r"
    and s': "s' = on_deployment (owned i userId) (\<lambda>e. e\<lparr>d_active_revision := r_revision r, d_endpoints := endpoints,
      d_updated_at := re_now env, d_ssh_public_keys := or_else stored (d_ssh_public_keys e)\<rparr>) s1"
    using served unfolding deploymentCreateRevision_def i by (auto split: option.splits prod.splits if_splits)
  have r: "r_deployment r = i" "r_revision r = Suc ?current" using createNewDeploymentRevision_keys [OF new] by simp_all
  have s1': "db_revisions s1 = db_revisions s @ [r]" "db_deployments s1 = db_deployments s"
    using s1 by (auto simp: insert_revision_iff insert_one_def)
  let ?f = "\<lambda>e. e\<lparr>d_active_revision := r_revision r, d_endpoints := endpoints,
      d_updated_at := re_now env, d_ssh_public_keys := or_else stored (d_ssh_public_keys e)\<rparr>"
  have "?f d \<in> set (update_one (owned i userId) ?f (db_deployments s))"
    using d by (intro update_one_mem [where k = d_id and P = "owned i userId", OF s]) (simp_all add: owned_iff)
  then have "\<exists>d \<in> set (db_deployments s'). d_id d = i \<and> d_owner d = userId \<and> d_active_revision d = n"
    using d by (intro bexI [of _ "?f d"]) (simp_all add: s' s1' n owned_iff)
  moreover have "x \<in> set (db_revisions s) \<Longrightarrow> r_deployment x = i \<Longrightarrow> r_revision x < n" for x
    using latest_revision_highest [of x s i] r n by auto
  ultimately show ?thesis using r n by (auto simp: s' s1')
qed

section \<open>Vaults\<close>

lemma shared_vault_owned: "shared_vault userId s = Some w \<Longrightarrow> w \<in> set (db_vaults s) \<and> w_owner w = userId \<and> w_vault w \<noteq> userId"
proof -
  let ?ws = "filter (\<lambda>w. w_owner w = userId \<and> w_vault w \<noteq> userId) (db_vaults s)"
  let ?key = "\<lambda>w. (w_created_at w, map of_char (w_vault w) :: nat list)"
  assume "shared_vault userId s = Some w"
  then obtain ws where "sort_key ?key ?ws = w # ws" by (auto simp: shared_vault_def split: list.splits)
  then have "w \<in> set (sort_key ?key ?ws)" by simp
  then show ?thesis by simp
qed

text \<open>
  A deployment created without an API key is funded from a key pair vault of its owner: the one that was
  asked for, the owner's oldest, or a new one; never from another owner's, nor from the document that holds
  the owner's API key.
\<close>

theorem created_in_own_vault:
  assumes success: "deploymentCreate env None generated body userId s = (Deployment_reply d status, s')"
    and fresh: "fst generated \<notin> set (map w_vault (db_vaults s))" "fst generated \<noteq> userId"
  shows "\<exists>w \<in> set (db_vaults s'). w_vault w = d_vault d \<and> w_owner w = userId \<and> w_vault w \<noteq> userId \<and>
    (truthy_string (cb_vault body) \<longrightarrow> cb_vault body = Some (w_vault w) \<and> w \<in> set (db_vaults s))"
proof (cases rule: create_cases [of userId env None generated body s])
  case (created vault s1 d' r s2 s3)
  have vault: "d_vault d = vault" using createDeployment_keys [OF created(2)] created(5) success by auto
  have "db_vaults s' = db_vaults s1"
    using created(3,4,5) success by (auto simp: insert_deployment_def insert_revision_iff split: if_splits)
  moreover obtain w where w: "getOrCreateVault userId (re_now env) (cb_vault body) (cb_new_vault body) generated s = (Some w, s1)"
      "w_vault w = vault"
    using created(1) by (auto simp: vault_of_def split: prod.splits)
  have "w \<in> set (db_vaults s1) \<and> w_owner w = userId \<and> w_vault w \<noteq> userId \<and>
      (truthy_string (cb_vault body) \<longrightarrow> cb_vault body = Some (w_vault w) \<and> w \<in> set (db_vaults s))"
  proof (cases "truthy_string (cb_vault body)")
    case True
    then obtain target where t: "cb_vault body = Some target" by (cases "cb_vault body") auto
    from w(1) True have "target \<noteq> userId" "find_one (\<lambda>w. w_owner w = userId \<and> w_vault w = target) (db_vaults s) = Some w" "s1 = s"
      by (auto simp: getOrCreateVault_def Let_def t split: if_splits)
    then show ?thesis using t by (auto dest: find_one_SomeD)
  next
    case False
    have stored: "v \<in> set (db_vaults (storeVaultDocument v s))" if "w_vault v = fst generated" for v
    proof -
      have "\<not> matches (\<lambda>x. w_vault x = w_vault v) (db_vaults s)" using that fresh(1) by (force simp: matches_iff)
      then show ?thesis by (simp add: storeVaultDocument_def upsert_one_def)
    qed
    show ?thesis
      using w(1) False fresh(2) shared_vault_owned [of userId s] stored
      by (auto simp: getOrCreateVault_def Let_def split: if_splits option.splits)
  qed
  ultimately show ?thesis using vault w(2) by auto
qed (use success in auto)

section \<open>Examples\<close>

theorem archived_refuses_requests_witness:
  "\<exists>e' \<in> set (db_deployments (snd (serve example_route_env (Update_name ''X'') ''D'' ''O''
      (empty_db\<lparr>db_deployments := [blank_deployment ''D'' ''O'' ARCHIVED]\<rparr>)))).
     e'\<lparr>d_name := ''D'', d_updated_at := 0\<rparr> = blank_deployment ''D'' ''O'' ARCHIVED"
  using archived_refuses_requests [of "empty_db\<lparr>db_deployments := [blank_deployment ''D'' ''O'' ARCHIVED]\<rparr>"
      "blank_deployment ''D'' ''O'' ARCHIVED" example_route_env "Update_name ''X''" "''D''" "''O''"]
  by (simp add: example_route_env_def blank_deployment_def)

theorem stale_stop_revives_archived_witness:
  "fst (serve_stale example_route_env Stop ''D'' ''O'' (empty_db\<lparr>db_deployments := [blank_deployment ''D'' ''O'' RUNNING]\<rparr>)
      (empty_db\<lparr>db_deployments := [blank_deployment ''D'' ''O'' ARCHIVED]\<rparr>)) = Status_reply STOPPING 5"
proof -
  have "getDeployment ''D'' ''O'' (empty_db\<lparr>db_deployments := [blank_deployment ''D'' ''O'' RUNNING]\<rparr>) =
      Some (blank_deployment ''D'' ''O'' RUNNING)"
    by (simp add: getDeployment_def find_one_def owned_iff)
  from stale_stop_revives_archived [OF this, of "empty_db\<lparr>db_deployments := [blank_deployment ''D'' ''O'' ARCHIVED]\<rparr>"
      "blank_deployment ''D'' ''O'' ARCHIVED" example_route_env]
  show ?thesis by (simp add: owned_iff) (simp add: example_route_env_def)
qed

definition infinite_example :: deployment_document where
  "infinite_example = (blank_deployment ''D'' ''O'' RUNNING)\<lparr>d_strategy := INFINITE, d_timeout := 120, d_rotation_time := Some 100\<rparr>"

definition strategy_example :: strategy_env where
  "strategy_example = \<lparr>se_cfg = default_worker_config, se_nextTaskTime = (\<lambda>_ now. now),
     se_onchainTimeout = (\<lambda>_. None), se_now = 7\<rparr>"

lemma infinite_example_simps:
  "d_id infinite_example = ''D''" "d_owner infinite_example = ''O''" "d_strategy infinite_example = INFINITE"
  "d_status infinite_example = RUNNING" "d_startup_timeout infinite_example = None" "d_timeout infinite_example = 120"
  "d_rotation_time infinite_example = Some 100" "se_now strategy_example = 7"
  by (simp_all add: infinite_example_def blank_deployment_def strategy_example_def)

theorem shorter_timeout_rotates_at_once_witness:
  "\<exists>t \<in> set (db_tasks (infiniteJobRunningUpdate strategy_example ((example_job ''J'' J_RUNNING 1 1)\<lparr>j_deployment := ''D''\<rparr>)
      (snd (serve example_route_env (Update_timeout 60) ''D'' ''O'' (empty_db\<lparr>db_deployments := [infinite_example]\<rparr>))))).
     t_task t = LIST \<and> t_job t = Some ''J'' \<and> t_due_at t \<le> 7"
  using shorter_timeout_rotates_at_once [where s = "empty_db\<lparr>db_deployments := [infinite_example]\<rparr>" and d = infinite_example
      and minutes = 60 and rotation = 100 and j = "(example_job ''J'' J_RUNNING 1 1)\<lparr>j_deployment := ''D''\<rparr>"
      and senv = strategy_example and env = example_route_env]
  unfolding infinite_example_simps by (simp add: infinite_example_simps example_job_def matches_def empty_db_def)

definition example_body :: create_body where
  "example_body = \<lparr>cb_name = ''N'', cb_market = None, cb_requirements = None, cb_job_definition = example_definition,
     cb_replicas = 1, cb_strategy = SIMPLE, cb_schedule = None, cb_confidential = None, cb_timeout = 60,
     cb_rotation_time = None, cb_startup_timeout = None, cb_ssh_public_keys = Some [''K''], cb_idempotency_key = Some ''k'',
     cb_vault = None, cb_new_vault = False, cb_autostart = True\<rparr>"

lemma example_created:
  "\<exists>d s'. deploymentCreate example_route_env None (''V2'', []) example_body ''O'' keyed_db = (Deployment_reply d STARTING, s') \<and>
     d_vault d = ''V''"
  by (simp add: deploymentCreate_def infinite_body_error_def example_body_def vault_of_def getOrCreateVault_def shared_vault_def
      keyed_db_def empty_db_def createDeployment_def createNewDeploymentRevision_def extractSsh_def injectSsh_def
      example_route_env_def example_route_kit_def example_definition_def example_revision_def final_definition_def trim_def
      createDeploymentRevisionEndpoints_def insert_deployment_def insert_revision_def matches_def insert_one_def
      blank_deployment_def Let_def)

theorem create_is_all_or_nothing_witness:
  "\<exists>(e :: deployment_document) (r :: revision_document). db_deployments (snd (deploymentCreate example_route_env None (''V2'', []) example_body ''O'' keyed_db)) =
       db_deployments keyed_db @ [e] \<and> d_status e = STARTING \<and> d_run e = Some 1 \<and> r_deployment r = ''F''"
proof -
  obtain d s' where c: "deploymentCreate example_route_env None (''V2'', []) example_body ''O'' keyed_db = (Deployment_reply d STARTING, s')"
    using example_created by blast
  have fresh: "re_fresh example_route_env \<notin> set (map d_id (db_deployments keyed_db))"
    and body: "cb_autostart example_body" "re_fresh example_route_env = ''F''"
    by (simp_all add: example_route_env_def keyed_db_def example_body_def)
  show ?thesis
    using create_is_all_or_nothing [OF fresh, where apiKey = None and generated = "(''V2'', [])" and body = example_body
      and userId = "''O''"] unfolding c by (clarsimp simp: body) blast
qed

theorem created_in_own_vault_witness:
  "\<exists>w \<in> set (db_vaults (snd (deploymentCreate example_route_env None (''V2'', []) example_body ''O'' keyed_db))).
     w_vault w = ''V'' \<and> w_owner w = ''O''"
proof -
  obtain d s' where c: "deploymentCreate example_route_env None (''V2'', []) example_body ''O'' keyed_db = (Deployment_reply d STARTING, s')"
      "d_vault d = ''V''"
    using example_created by blast
  show ?thesis using created_in_own_vault [OF c(1)] c by (auto simp: keyed_db_def)
qed

theorem new_revision_is_highest_witness:
  "\<exists>s' n endpoints now. serve example_route_env (Create_revision example_definition) ''D'' ''O'' keyed_db = (Revision_reply n endpoints now, s') \<and>
     n > 2"
proof -
  have found: "getDeployment ''D'' ''O'' keyed_db = Some ((blank_deployment ''D'' ''O'' RUNNING)\<lparr>d_ssh_public_keys := Some [''K'', ''L'']\<rparr>)"
    by (simp add: getDeployment_def keyed_db_def find_one_def owned_def)
  have "\<exists>s' n. serve example_route_env (Create_revision example_definition) ''D'' ''O'' keyed_db = (Revision_reply n [] 5, s')"
    by (simp add: serve_def serve_stale_def found admit_def open_to_archived_def)
      (simp add: deploymentCreateRevision_def latest_revision_def createNewDeploymentRevision_def extractSsh_def
        createDeploymentRevisionEndpoints_def final_definition_def insert_revision_def keyed_db_def matches_def owned_def
        Let_def injectSsh_def insert_one_def on_deployment_def example_route_env_def example_route_kit_def example_revision_def
        example_definition_def blank_deployment_def empty_db_def)
  then obtain s' n where c: "serve example_route_env (Create_revision example_definition) ''D'' ''O'' keyed_db = (Revision_reply n [] 5, s')"
    by blast
  have "n > 2" using new_revision_is_highest [OF c] by (auto simp: keyed_db_def example_revision_def)
  with c show ?thesis by blast
qed

end
