(* ===== verification/Vaults.thy ===== *)
theory Vaults
  imports Pagination Route_Results Transactions "HOL-Library.Word"
begin

text \<open>
  The vaults (\<open>src/vault\<close>, \<open>src/worker/Worker.ts\<close>, \<open>src/router/routes/post/vaults\<close>,
  \<open>src/router/routes/get/vaults\<close> and the routes that sign headers): how a key is written, stored
  encrypted and read back by a worker, the vaults of a user, withdrawing, and the headers of a
  deployment and of its running jobs. The cipher, the wallet's signatures, the client manager's and the
  balances are parameters.
\<close>

section \<open>The text of a key (\<open>tasks/utils\<close>)\<close>

fun split_on :: "char \<Rightarrow> string \<Rightarrow> string list" where
  "split_on sep [] = [[]]"
| "split_on sep (c # r) = (if c = sep then [] # split_on sep r
     else (case split_on sep r of w # ws \<Rightarrow> (c # w) # ws | [] \<Rightarrow> [[c]]))"

lemma split_on_nonempty [simp]: "split_on sep r \<noteq> []"
  by (induction r) (auto split: list.splits)

lemma split_on_append: "sep \<notin> set w \<Longrightarrow> split_on sep (w @ sep # r) = w # split_on sep r"
  by (induction w) auto

lemma split_on_none: "sep \<notin> set w \<Longrightarrow> split_on sep w = [w]"
  by (induction w) auto

text \<open>\<open>Number(text)\<close>: the empty text is 0, digits are their number, any other text is read by \<open>other\<close> (None is NaN).\<close>

definition js_number :: "(string \<Rightarrow> rat option) \<Rightarrow> string \<Rightarrow> rat option" where
  "js_number other text = (if text = [] then Some 0
     else if list_all is_digit text then Some (of_nat (undigits text)) else other text)"

definition covertStringToIterable :: "(string \<Rightarrow> rat option) \<Rightarrow> string \<Rightarrow> rat list" where
  "covertStringToIterable other input = List.map_filter (\<lambda>s. js_number other (trim s)) (split_on CHR '','' input)"

definition convertStringToUint8Array :: "(string \<Rightarrow> rat option) \<Rightarrow> string \<Rightarrow> 8 word list" where
  "convertStringToUint8Array other input =
     map (\<lambda>n. word_of_int \<lfloor>n\<rfloor>) (filter (\<lambda>n. 0 \<le> n \<and> n \<le> 255) (covertStringToIterable other input))"

text \<open>\<open>Uint8Array.toString()\<close>.\<close>

definition bytes_text :: "8 word list \<Rightarrow> string" where
  "bytes_text bytes = join '','' (map (\<lambda>b. show_nat (unat b)) bytes)"

section \<open>Encryption (\<open>vault/encrypt.ts\<close>, \<open>vault/decrypt.ts\<close>)\<close>

text \<open>
  The cipher under a password and an IV: \<open>vc_seal\<close> gives the hex texts of the tag and of the
  ciphertext, \<open>vc_open\<close> the plain text (None is a throw: a wrong tag, or a text that is not hex).
\<close>

record vault_cipher =
  vc_seal :: "string \<Rightarrow> string \<Rightarrow> string \<Rightarrow> string \<times> string"
  vc_open :: "string \<Rightarrow> string \<Rightarrow> string \<Rightarrow> string \<Rightarrow> string option"

definition encryptWithKey :: "vault_cipher \<Rightarrow> string option \<Rightarrow> string \<Rightarrow> string \<Rightarrow> string" where
  "encryptWithKey vc password iv plain =
     (if \<not> truthy_string password then plain
      else let (tag, encrypted) = vc_seal vc (the password) iv plain in iv @ '':'' @ tag @ '':'' @ encrypted)"

definition decryptWithKey :: "vault_cipher \<Rightarrow> string option \<Rightarrow> string \<Rightarrow> string option" where
  "decryptWithKey vc password stored =
     (if \<not> truthy_string password then Some stored
      else case split_on CHR '':'' stored of
          iv # tag # encrypted # _ \<Rightarrow> vc_open vc (the password) iv tag encrypted
        | _ \<Rightarrow> None)"

text \<open>What AES-GCM promises of a text that was sealed; hex has no separator.\<close>

definition cipher_opens :: "vault_cipher \<Rightarrow> string \<Rightarrow> bool" where
  "cipher_opens vc iv \<longleftrightarrow> CHR '':'' \<notin> set iv \<and>
     (\<forall>p plain. vc_open vc p iv (fst (vc_seal vc p iv plain)) (snd (vc_seal vc p iv plain)) = Some plain \<and>
        CHR '':'' \<notin> set (fst (vc_seal vc p iv plain)) \<and> CHR '':'' \<notin> set (snd (vc_seal vc p iv plain)))"

text \<open>\<open>generateVault\<close>: the last 32 bytes of the PKCS8 form are the private key.\<close>

definition generateVault :: "vault_cipher \<Rightarrow> string option \<Rightarrow> string \<Rightarrow> string \<times> 8 word list \<Rightarrow> string \<times> string" where
  "generateVault vc password iv pair =
     (fst pair, encryptWithKey vc password iv (bytes_text (drop (length (snd pair) - 32) (snd pair))))"

section \<open>A worker's credential (\<open>worker/Worker.ts\<close>)\<close>

datatype credential = Api_key string | Wallet "8 word list"

text \<open>None: the stored key cannot be decrypted and the worker reports an error.\<close>

definition prepareWorker ::
    "vault_cipher \<Rightarrow> string option \<Rightarrow> (string \<Rightarrow> rat option) \<Rightarrow> string \<Rightarrow> credential option" where
  "prepareWorker vc password other stored =
     map_option (\<lambda>key. if starts_with key ''nos_'' then Api_key key else Wallet (convertStringToUint8Array other key))
       (decryptWithKey vc password stored)"

lemma decrypt_encrypt:
  assumes "cipher_opens vc iv"
  shows "decryptWithKey vc password (encryptWithKey vc password iv plain) = Some plain"
proof (cases "truthy_string password")
  case True
  obtain tag enc where seal: "vc_seal vc (the password) iv plain = (tag, enc)" by fastforce
  have hex: "CHR '':'' \<notin> set iv" "CHR '':'' \<notin> set tag" "CHR '':'' \<notin> set enc"
    and opens: "vc_open vc (the password) iv tag enc = Some plain"
    using assms seal unfolding cipher_opens_def by (metis prod.sel)+
  have "split_on CHR '':'' (iv @ '':'' @ tag @ '':'' @ enc) = [iv, tag, enc]"
    using hex by (simp add: split_on_append split_on_none)
  with True seal opens show ?thesis by (simp add: decryptWithKey_def encryptWithKey_def)
qed (simp add: decryptWithKey_def encryptWithKey_def)

lemma trim_digits: "list_all is_digit w \<Longrightarrow> trim w = w"
proof -
  have "list_all is_digit w \<Longrightarrow> dropWhile is_space w = w" for w
    by (cases w) (auto simp: is_digit_def is_space_def)
  then show "list_all is_digit w \<Longrightarrow> trim w = w" by (simp add: trim_def)
qed

lemma js_number_show_nat [simp]: "js_number other (trim (show_nat n)) = Some (of_nat n)"
proof -
  have "show_nat n \<noteq> []" by (simp add: show_nat.simps [of n])
  then show ?thesis by (simp add: js_number_def show_nat_digits trim_digits undigits_show_nat)
qed

lemma show_nat_no_comma: "CHR '','' \<notin> set (show_nat n)"
proof
  assume "CHR '','' \<in> set (show_nat n)"
  then have "is_digit CHR '',''" using show_nat_digits [of n] unfolding list_all_iff by blast
  then show False by (simp add: is_digit_def)
qed

lemma text_of_bytes: "bytes \<noteq> [] \<Longrightarrow> split_on CHR '','' (bytes_text bytes) = map (\<lambda>b. show_nat (unat b)) bytes"
proof (induction bytes rule: induct_list012)
  case (3 b c bytes)
  have "bytes_text (b # c # bytes) = show_nat (unat b) @ CHR '','' # bytes_text (c # bytes)"
    by (simp add: bytes_text_def)
  with 3 show ?case by (simp add: split_on_append show_nat_no_comma)
qed (simp_all add: bytes_text_def split_on_none show_nat_no_comma)

lemma map_filter_numbers: "List.map_filter (\<lambda>s. js_number other (trim s)) (map show_nat ns) = map of_nat ns"
  by (induction ns) simp_all

lemma bytes_of_text: "bytes \<noteq> [] \<Longrightarrow> covertStringToIterable other (bytes_text bytes) = map (\<lambda>b. of_nat (unat b)) bytes"
  using map_filter_numbers [of other "map unat bytes"]
  by (simp add: covertStringToIterable_def text_of_bytes comp_def)

lemma text_round: "bytes \<noteq> [] \<Longrightarrow> convertStringToUint8Array other (bytes_text bytes) = bytes"
proof -
  have small: "(of_nat (unat (b :: 8 word)) :: rat) \<le> 255" for b
  proof -
    have "unat b < 2 ^ LENGTH(8)" by (rule unsigned_less)
    then have "unat b \<le> 255" by simp
    then show ?thesis by (metis of_nat_le_iff of_nat_numeral)
  qed
  have "word_of_int \<lfloor>(of_nat (unat (b :: 8 word)) :: rat)\<rfloor> = b" for b
  proof -
    have "word_of_int \<lfloor>(of_nat (unat b) :: rat)\<rfloor> = (of_nat (unat b) :: 8 word)"
      by (simp add: floor_of_nat del: of_nat_unat)
    then show ?thesis by simp
  qed
  moreover have "(0 :: rat) \<le> of_nat (unat (b :: 8 word))" for b by (rule of_nat_0_le_iff)
  ultimately show "bytes \<noteq> [] \<Longrightarrow> convertStringToUint8Array other (bytes_text bytes) = bytes"
    using small by (simp add: convertStringToUint8Array_def bytes_of_text filter_map comp_def)
qed

lemma bytes_text_not_api_key: "\<not> starts_with (bytes_text bytes) ''nos_''"
proof (cases bytes)
  case Nil
  then show ?thesis by (simp add: bytes_text_def)
next
  case (Cons b rest)
  have "show_nat (unat b) \<noteq> []" by (simp add: show_nat.simps [of "unat b"])
  then obtain c cs where c: "show_nat (unat b) = c # cs" by (cases "show_nat (unat b)") auto
  then have "is_digit c" using show_nat_digits [of "unat b"] by simp
  then have "c \<noteq> CHR ''n''" by (auto simp: is_digit_def)
  moreover have "\<exists>r. bytes_text bytes = c # r" using c Cons by (cases rest) (auto simp: bytes_text_def)
  ultimately show ?thesis by auto
qed

text \<open>
  C35: a vault's key survives its storage. The key a worker signs with is, byte for byte, the one the
  vault was generated with, whether or not keys are encrypted; and a caller's API key, stored the same
  way, is the one the worker calls the client manager with. Neither is ever taken for the other.
\<close>

theorem key_survives_storage:
  assumes "cipher_opens vc iv"
  shows "(pkcs8 \<noteq> [] \<longrightarrow> prepareWorker vc password other (snd (generateVault vc password iv (pub, pkcs8))) =
           Some (Wallet (drop (length pkcs8 - 32) pkcs8))) \<and>
         prepareWorker vc password other (encryptWithKey vc password iv (''nos_'' @ key)) = Some (Api_key (''nos_'' @ key))"
proof -
  have "pkcs8 \<noteq> [] \<Longrightarrow> drop (length pkcs8 - 32) pkcs8 \<noteq> []" by (cases pkcs8) auto
  with assms show ?thesis
    by (simp add: prepareWorker_def generateVault_def decrypt_encrypt text_round bytes_text_not_api_key)
qed

text \<open>A cipher that only writes its text in hex.\<close>

fun hex_of :: "string \<Rightarrow> string" where
  "hex_of [] = []"
| "hex_of (c # r) = digit_char (of_char c div 16) # digit_char (of_char c mod 16) # hex_of r"

fun of_hex_text :: "string \<Rightarrow> string option" where
  "of_hex_text [] = Some []"
| "of_hex_text [c] = None"
| "of_hex_text (c # d # r) = map_option ((#) (char_of (16 * char_digit c + char_digit d :: nat))) (of_hex_text r)"

definition example_cipher :: vault_cipher where
  "example_cipher = \<lparr>vc_seal = (\<lambda>password iv plain. (''7a6'', hex_of plain)),
     vc_open = (\<lambda>password iv tag encrypted. if tag = ''7a6'' then of_hex_text encrypted else None)\<rparr>"

lemma hex_of_char: "of_char c div 16 < (16 :: nat)"
proof -
  have "of_char c < (16 * 16 :: nat)" by simp
  then show ?thesis by (rule less_mult_imp_div_less)
qed

lemma hex_round: "of_hex_text (hex_of plain) = Some plain \<and> CHR '':'' \<notin> set (hex_of plain)"
proof (induction plain)
  case (Cons c r)
  have "digit_char (of_char c div 16) \<noteq> CHR '':''" "digit_char (of_char c mod 16) \<noteq> CHR '':''"
    by (rule digit_char_neq_colon, simp add: hex_of_char)+
  with Cons show ?case by (auto simp: hex_of_char)
qed simp

lemma example_cipher_opens: "cipher_opens example_cipher ''0f''"
  by (simp add: cipher_opens_def example_cipher_def hex_round)

theorem key_survives_storage_witness:
  "prepareWorker example_cipher (Some ''secret'') (\<lambda>text. None)
     (snd (generateVault example_cipher (Some ''secret'') ''0f'' (''V'', [4, 0, 255]))) = Some (Wallet [4, 0, 255])"
  using key_survives_storage [OF example_cipher_opens, of "[4, 0, 255]" "Some ''secret''" "\<lambda>text. None" "''V''"] by simp

section \<open>The vaults of a user\<close>

definition getVaultMiddleware :: "address \<Rightarrow> address \<Rightarrow> db \<Rightarrow> vault_document option" where
  "getVaultMiddleware vaultId userId s = find_one (\<lambda>w. w_vault w = vaultId \<and> w_owner w = userId) (db_vaults s)"

text \<open>What a response says of a vault: never its key.\<close>

definition toVaultResponse :: "vault_document \<Rightarrow> address \<times> address \<times> string" where
  "toVaultResponse w = (w_vault w, w_owner w, toISOString (w_created_at w))"

definition vaults_of :: "address \<Rightarrow> db \<Rightarrow> (address \<times> address \<times> string) list" where
  "vaults_of userId s = map toVaultResponse (filter (\<lambda>w. w_owner w = userId) (db_vaults s))"

text \<open>None is the answer 500; the default of the factory never throws, so it does not happen.\<close>

definition createSharedVault ::
    "address \<Rightarrow> ms \<Rightarrow> address \<times> string \<Rightarrow> db \<Rightarrow> (address \<times> address \<times> string) option \<times> db" where
  "createSharedVault userId now generated s =
     (let (w, s') = getOrCreateVault userId now None False generated s in (map_option toVaultResponse w, s'))"

section \<open>Withdrawing\<close>

datatype transfer = Transfer_SOL address nat | Transfer_NOS address nat address

record withdrawal =
  wd_fee_payer :: address
  wd_transfers :: "transfer list"
  wd_signer :: credential

text \<open>The balances of a vault's wallet; None is a request that failed.\<close>

record balances =
  bl_SOL :: "credential \<Rightarrow> nat option"
  bl_NOS :: "credential \<Rightarrow> nat option"

text \<open>The outer None is the message ERROR; SUCCESS with null is \<open>Some None\<close>.\<close>

definition withdraw_worker :: "balances \<Rightarrow> credential option \<Rightarrow> address \<Rightarrow> withdrawal option option" where
  "withdraw_worker bl prepared owner =
     (case prepared of None \<Rightarrow> None | Some wallet \<Rightarrow>
       (case (bl_SOL bl wallet, bl_NOS bl wallet) of
          (Some sol, Some nos) \<Rightarrow>
            (let instructions = (if 0 < sol then [Transfer_SOL owner sol] else []) @
                                (if 0 < nos then [Transfer_NOS owner nos owner] else [])
             in Some (if instructions = [] then None
                      else Some \<lparr>wd_fee_payer = owner, wd_transfers = instructions, wd_signer = wallet\<rparr>))
        | _ \<Rightarrow> None))"

datatype vault_reply = Withdrawn withdrawal | Vault_failed nat string

definition vaultWithdraw ::
    "vault_cipher \<Rightarrow> string option \<Rightarrow> (string \<Rightarrow> rat option) \<Rightarrow> balances \<Rightarrow> vault_document \<Rightarrow> vault_reply" where
  "vaultWithdraw vc password other bl vault =
     (case decryptWithKey vc password (w_vault_key vault) of
        None \<Rightarrow> Vault_failed 500 ''Internal Server Error''
      | Some key \<Rightarrow>
          if starts_with key ''nos_'' then Vault_failed 400 ''Cannot withdraw from a vault containing a Nosana API key.''
          else (case withdraw_worker bl (prepareWorker vc password other (w_vault_key vault)) (w_owner vault) of
              None \<Rightarrow> Vault_failed 500 ''Ops something went wrong, please again.''
            | Some None \<Rightarrow> Vault_failed 500 ''Vault has no funds to withdraw.''
            | Some (Some transaction) \<Rightarrow> Withdrawn transaction))"

definition serve_withdraw ::
    "vault_cipher \<Rightarrow> string option \<Rightarrow> (string \<Rightarrow> rat option) \<Rightarrow> balances \<Rightarrow> address \<Rightarrow> address \<Rightarrow> db \<Rightarrow> vault_reply" where
  "serve_withdraw vc password other bl vaultId userId s =
     (case getVaultMiddleware vaultId userId s of
        None \<Rightarrow> Vault_failed 404 ''Vault not found.''
      | Some vault \<Rightarrow> vaultWithdraw vc password other bl vault)"



section \<open>A user's shared vault\<close>

text \<open>
  A user has one shared vault. Asking for the shared vault makes one the first time and gives that
  same vault, with the store unchanged, every time after; the vault a caller's API key is stored in is
  never given.
\<close>

theorem shared_vault_is_stable:
  assumes "createSharedVault userId now generated s = (Some r, s1)"
    and new: "fst generated \<notin> w_vault ` set (db_vaults s)" "fst generated \<noteq> userId"
  shows "createSharedVault userId now' generated' s1 = (Some r, s1) \<and> fst r \<noteq> userId"
proof (cases "shared_vault userId s")
  case (Some w)
  then have "s1 = s" "r = toVaultResponse w" using assms(1) by (auto simp: createSharedVault_def getOrCreateVault_def)
  moreover have "w_vault w \<noteq> userId" using shared_vault_owned [OF Some] by blast
  ultimately show ?thesis using Some by (simp add: createSharedVault_def getOrCreateVault_def toVaultResponse_def)
next
  case None
  let ?w = "\<lparr>w_vault = fst generated, w_vault_key = snd generated, w_owner = userId, w_created_at = now\<rparr>"
  have none: "filter (\<lambda>w. w_owner w = userId \<and> w_vault w \<noteq> userId) (db_vaults s) = []"
  proof -
    have "sort_key (\<lambda>w. (w_created_at w, map of_char (w_vault w) :: nat list))
        (filter (\<lambda>w. w_owner w = userId \<and> w_vault w \<noteq> userId) (db_vaults s)) = []"
      using None unfolding shared_vault_def by (simp split: list.splits)
    from arg_cong [OF this, of length] show ?thesis by (simp only: length_sort list.size length_0_conv)
  qed
  have r: "r = toVaultResponse ?w" and s1: "s1 = storeVaultDocument ?w s"
    using assms(1) None by (auto simp: createSharedVault_def getOrCreateVault_def Let_def)
  have "db_vaults s1 = db_vaults s @ [?w]"
    using new(1) by (force simp: s1 storeVaultDocument_def upsert_one_def matches_def list_ex_iff insert_one_def)
  then have "shared_vault userId s1 = Some ?w"
    using none new(2) by (simp add: shared_vault_def)
  then show ?thesis using new(2) by (simp add: createSharedVault_def getOrCreateVault_def r toVaultResponse_def)
qed

theorem shared_vault_is_stable_witness:
  "createSharedVault ''O'' 5 (''W'', ''2'') (snd (createSharedVault ''O'' 1 (''V'', ''1'') empty_db)) =
     (Some (''V'', ''O'', toISOString 1), snd (createSharedVault ''O'' 1 (''V'', ''1'') empty_db))"
proof -
  have made: "createSharedVault ''O'' 1 (''V'', ''1'') empty_db =
      (Some (''V'', ''O'', toISOString 1), snd (createSharedVault ''O'' 1 (''V'', ''1'') empty_db))"
    by (simp add: createSharedVault_def getOrCreateVault_def shared_vault_def empty_db_def toVaultResponse_def Let_def)
  from shared_vault_is_stable [OF made, of 5 "(''W'', ''2'')"] show ?thesis by (simp add: empty_db_def)
qed

section \<open>Signed headers\<close>

text \<open>Who signs: a wallet, the client manager one message at a time, or many at once. None is a throw.\<close>

record header_signers =
  hs_wallet :: "8 word list \<Rightarrow> string \<Rightarrow> bool \<Rightarrow> string option"
  hs_manager :: "string \<Rightarrow> string \<Rightarrow> bool \<Rightarrow> string option"
  hs_batch :: "string \<Rightarrow> string list \<Rightarrow> bool \<Rightarrow> string list option"

definition signAuthHeader :: "header_signers \<Rightarrow> credential \<Rightarrow> string \<Rightarrow> bool \<Rightarrow> string option" where
  "signAuthHeader hs cred message includeTime = (case cred of
     Api_key key \<Rightarrow> hs_manager hs key message includeTime
   | Wallet bytes \<Rightarrow> hs_wallet hs bytes message includeTime)"

definition SIGN_BATCH_SIZE :: nat where
  "SIGN_BATCH_SIZE = 100"

function sign_batches :: "header_signers \<Rightarrow> string \<Rightarrow> string list \<Rightarrow> string list option" where
  "sign_batches hs key jobs =
     (if jobs = [] then Some []
      else case hs_batch hs key (take SIGN_BATCH_SIZE jobs) True of
          None \<Rightarrow> None
        | Some headers \<Rightarrow> map_option ((@) headers) (sign_batches hs key (drop SIGN_BATCH_SIZE jobs)))"
  by pat_completeness auto
termination
  by (relation "measure (\<lambda>(hs, key, jobs). length jobs)") (auto simp: SIGN_BATCH_SIZE_def)

declare sign_batches.simps [simp del]

definition signJobHeaders :: "header_signers \<Rightarrow> credential \<Rightarrow> string list \<Rightarrow> string list option" where
  "signJobHeaders hs cred jobs = (case cred of
     Wallet bytes \<Rightarrow> those (map (\<lambda>job. signAuthHeader hs cred job True) jobs)
   | Api_key key \<Rightarrow> sign_batches hs key jobs)"

datatype headers_reply = Header_signed string | Job_headers "string \<Rightarrow> string option" | Headers_failed nat string

definition deploymentGetHeader ::
    "header_signers \<Rightarrow> (string \<Rightarrow> credential option) \<Rightarrow> string option \<Rightarrow> string option \<Rightarrow> deployment_document \<Rightarrow> address \<Rightarrow> db
     \<Rightarrow> headers_reply" where
  "deploymentGetHeader hs prepare includeTime message d owner s =
     (case find_one (\<lambda>w. w_vault w = d_vault d \<and> w_owner w = owner) (db_vaults s) of
        None \<Rightarrow> Headers_failed 500 ''Failed to get deployment vault''
      | Some w \<Rightarrow>
          (case Option.bind (prepare (w_vault_key w)) (\<lambda>cred.
                  signAuthHeader hs cred (nullish message ''DEPLOYMENT_HEADER'') (includeTime = Some ''true'')) of
             None \<Rightarrow> Headers_failed 500 ''Failed to generate header.''
           | Some header \<Rightarrow> Header_signed header))"

definition running_jobs :: "string \<Rightarrow> db \<Rightarrow> address list" where
  "running_jobs i s = map j_job (filter (\<lambda>j. j_deployment j = i \<and> j_state j = J_RUNNING \<and> j_node j \<noteq> None) (db_jobs s))"

definition deploymentGetJobHeaders ::
    "header_signers \<Rightarrow> (string \<Rightarrow> credential option) \<Rightarrow> deployment_document \<Rightarrow> address \<Rightarrow> db \<Rightarrow> headers_reply" where
  "deploymentGetJobHeaders hs prepare d owner s =
     (case find_one (\<lambda>w. w_vault w = d_vault d \<and> w_owner w = owner) (db_vaults s) of
        None \<Rightarrow> Headers_failed 500 ''Could not find vault.''
      | Some w \<Rightarrow>
          (let running = running_jobs (d_id d) s
           in if running = [] then Job_headers Map.empty
              else (case Option.bind (prepare (w_vault_key w)) (\<lambda>cred. signJobHeaders hs cred running) of
                  None \<Rightarrow> Headers_failed 500 ''Failed to generate job headers.''
                | Some headers \<Rightarrow> Job_headers (map_of (rev (zip running headers))))))"

text \<open>The client manager signs what it is sent, in order, as it would one by one.\<close>

definition signs_in_order :: "header_signers \<Rightarrow> bool" where
  "signs_in_order hs \<longleftrightarrow> (\<forall>key jobs. jobs \<noteq> [] \<and> length jobs \<le> SIGN_BATCH_SIZE \<longrightarrow>
     hs_batch hs key jobs True = those (map (\<lambda>job. hs_manager hs key job True) jobs))"

lemma those_append: "those (xs @ ys) = (case those xs of None \<Rightarrow> None | Some as \<Rightarrow> map_option ((@) as) (those ys))"
proof (induction xs)
  case Nil
  show ?case by (cases "those ys") simp_all
next
  case (Cons x xs)
  then show ?case by (cases "those ys") (auto split: option.splits)
qed

lemma those_Some_iff: "those xs = Some ys \<longleftrightarrow> xs = map Some ys"
  by (induction xs arbitrary: ys) (auto split: option.splits)

lemma sign_batches_map:
  "signs_in_order hs \<Longrightarrow> sign_batches hs key jobs = those (map (\<lambda>job. hs_manager hs key job True) jobs)"
proof (induction hs key jobs rule: sign_batches.induct)
  case (1 hs key jobs)
  show ?case
  proof (cases "jobs = []")
    case False
    then have batch: "hs_batch hs key (take SIGN_BATCH_SIZE jobs) True =
        those (map (\<lambda>job. hs_manager hs key job True) (take SIGN_BATCH_SIZE jobs))"
      using 1(2) by (simp add: signs_in_order_def SIGN_BATCH_SIZE_def)
    have "map (\<lambda>job. hs_manager hs key job True) jobs =
        map (\<lambda>job. hs_manager hs key job True) (take SIGN_BATCH_SIZE jobs) @
        map (\<lambda>job. hs_manager hs key job True) (drop SIGN_BATCH_SIZE jobs)"
      by (metis append_take_drop_id map_append)
    with False batch 1 show ?thesis
      by (subst sign_batches.simps) (simp add: those_append split: option.split)
  qed (simp add: sign_batches.simps)
qed

lemma signJobHeaders_map:
  "signs_in_order hs \<Longrightarrow> signJobHeaders hs cred jobs = those (map (\<lambda>job. signAuthHeader hs cred job True) jobs)"
  by (cases cred) (simp_all add: signJobHeaders_def signAuthHeader_def sign_batches_map)

lemma map_of_signed:
  fixes jobs :: "'a list" and f :: "'a \<Rightarrow> 'b option"
  assumes "map f jobs = map Some headers"
  shows "map_of (rev (zip jobs headers)) job = (if job \<in> set jobs then f job else None)"
proof -
  have zip: "map f jobs = map Some headers \<Longrightarrow> zip jobs headers = map (\<lambda>j. (j, the (f j))) jobs"
    by (induction jobs arbitrary: headers) (auto simp: map_eq_Cons_conv Cons_eq_map_conv)
  have "map_of (rev (map (\<lambda>j. (j, g j)) jobs)) job = (if job \<in> set jobs then Some (g job) else None)" for g :: "'a \<Rightarrow> 'b"
    by (induction jobs) (auto simp: map_add_def split: option.splits)
  moreover have "\<exists>h. f job = Some h" if "job \<in> set jobs"
  proof -
    have "f job \<in> Some ` set headers" using assms that by (metis imageI list.set_map)
    then show ?thesis by blast
  qed
  ultimately show ?thesis by (auto simp: zip [OF assms])
qed

text \<open>
  One header per running job, and for that job only. When the route answers, every job of the
  deployment that runs on a node has the header its vault's credential signs over its own address with a
  time in it, no other address has any, and it makes no difference that the client manager is asked for
  a hundred at a time. When a single one cannot be headers none is given.
\<close>

theorem headers_name_their_jobs:
  assumes order: "signs_in_order hs" and w: "find_one (\<lambda>w. w_vault w = d_vault d \<and> w_owner w = owner) (db_vaults s) = Some w"
    and cred: "prepare (w_vault_key w) = Some cred"
  shows "deploymentGetJobHeaders hs prepare d owner s =
     (if \<exists>job \<in> set (running_jobs (d_id d) s). signAuthHeader hs cred job True = None
      then Headers_failed 500 ''Failed to generate job headers.''
      else Job_headers (\<lambda>job. if \<exists>j \<in> set (db_jobs s). j_job j = job \<and> j_deployment j = d_id d \<and> j_state j = J_RUNNING \<and> j_node j \<noteq> None
                             then signAuthHeader hs cred job True else None))"
proof -
  define jobs where "jobs = running_jobs (d_id d) s"
  have member: "job \<in> set jobs \<longleftrightarrow> (\<exists>j \<in> set (db_jobs s). j_job j = job \<and> j_deployment j = d_id d \<and> j_state j = J_RUNNING \<and> j_node j \<noteq> None)" for job
    by (auto simp: jobs_def running_jobs_def)
  have sign: "signJobHeaders hs cred jobs = those (map (\<lambda>job. signAuthHeader hs cred job True) jobs)"
    using order by (rule signJobHeaders_map)
  show ?thesis
  proof (cases "those (map (\<lambda>job. signAuthHeader hs cred job True) jobs)")
    case None
    then have "\<exists>job \<in> set jobs. signAuthHeader hs cred job True = None"
      by (induction jobs) (auto split: option.splits)
    moreover then have "jobs \<noteq> []" by auto
    ultimately show ?thesis using None by (simp add: deploymentGetJobHeaders_def w cred sign Let_def flip: jobs_def)
  next
    case (Some headers)
    then have eq: "map (\<lambda>job. signAuthHeader hs cred job True) jobs = map Some headers" by (simp add: those_Some_iff)
    then have "\<not> (\<exists>job \<in> set jobs. signAuthHeader hs cred job True = None)"
      by (metis in_set_conv_nth length_map nth_map option.distinct(1))
    moreover have "deploymentGetJobHeaders hs prepare d owner s = Job_headers (\<lambda>job. if job \<in> set jobs then signAuthHeader hs cred job True else None)"
      using map_of_signed [OF eq] Some
      by (auto simp: deploymentGetJobHeaders_def w cred sign Let_def fun_eq_iff simp flip: jobs_def)
    ultimately show ?thesis by (simp add: member flip: jobs_def)
  qed
qed

definition example_signers :: header_signers where
  "example_signers = \<lparr>hs_wallet = (\<lambda>bytes message t. Some (message @ '':wallet'')),
     hs_manager = (\<lambda>key message t. Some (message @ '':manager'')),
     hs_batch = (\<lambda>key jobs t. Some (map (\<lambda>message. message @ '':manager'') jobs))\<rparr>"

definition example_running_job :: "address \<Rightarrow> address option \<Rightarrow> jobs_document" where
  "example_running_job job node = \<lparr>j_job = job, j_market = Some ''M'', j_node = node, j_deployment = ''D'', j_revision = 1, j_tx = ''T'',
     j_state = J_RUNNING, j_time_start = 0, j_time_end = None, j_startup_deadline = None, j_created_at = 0, j_updated_at = 0\<rparr>"

theorem headers_name_their_jobs_witness:
  "\<exists>h. deploymentGetJobHeaders example_signers (\<lambda>key. Some (Api_key key)) (blank_deployment ''D'' ''O'' RUNNING) ''O''
      (empty_db\<lparr>db_vaults := [\<lparr>w_vault = ''V'', w_vault_key = ''nos_1'', w_owner = ''O'', w_created_at = 0\<rparr>],
        db_jobs := [example_running_job ''J'' (Some ''N''), example_running_job ''K'' None]\<rparr>) = Job_headers h \<and>
      h ''J'' = Some ''J:manager'' \<and> h ''K'' = None"
proof -
  let ?w = "\<lparr>w_vault = ''V'', w_vault_key = ''nos_1'', w_owner = ''O'', w_created_at = 0\<rparr>"
  let ?s = "empty_db\<lparr>db_vaults := [?w], db_jobs := [example_running_job ''J'' (Some ''N''), example_running_job ''K'' None]\<rparr>"
  have order: "signs_in_order example_signers"
    unfolding signs_in_order_def by (auto simp: example_signers_def those_Some_iff comp_def intro!: sym [of "those _"])
  have vault: "find_one (\<lambda>w. w_vault w = d_vault (blank_deployment ''D'' ''O'' RUNNING) \<and> w_owner w = ''O'') (db_vaults ?s) = Some ?w"
    by (simp add: find_one_def)
  have "running_jobs (d_id (blank_deployment ''D'' ''O'' RUNNING)) ?s = [''J'']"
    by (simp add: running_jobs_def example_running_job_def)
  with headers_name_their_jobs [OF order vault, of "\<lambda>key. Some (Api_key key)" "Api_key ''nos_1''"] show ?thesis
    by (simp add: signAuthHeader_def example_signers_def example_running_job_def)
qed

end
