(* ===== verification/Route_Table.thy ===== *)
theory Route_Table
  imports Reading Vaults
begin

text \<open>
  The routes of the API as they are registered (\<open>src/router/setup\<close>, \<open>src/router/index.ts\<close>):
  method, path, the middlewares in front of the handler, the handler, and the scope, which decides the
  authentication. The web framework matches a URL segment by segment, a \<open>:name\<close> with anything.
\<close>

datatype scope = Open_scope | Host_scope | User_scope | Webhook_scope

datatype middleware = Get_deployment | Validate_active | Get_vault

datatype handler =
    DeploymentsHandler | GetDeploymentByIdHandler | DeploymentGetScheduledTasksHandler
    | DeploymentGetHeaderHandler | DeploymentGetJobHeadersHandler | DeploymentJobByIdHandler
    | GetDeploymentJobsHandler | GetDeploymentRevisionsHandler | GetDeploymentEventsHandler
    | StreamDeploymentEventsHandler | GetDeploymentSshKeysHandler | DeploymentCreateHandler
    | DeploymentValidateHandler | DeploymentCreateRevisionHandler | DeploymentAddSshKeysHandler
    | DeploymentDuplicateHandler | DeploymentStartHandler | DeploymentStopHandler | DeploymentDeleteHandler
    | DeploymentRevokeSshKeysHandler | DeploymentArchiveHandler | DeploymentUpdateNameHandler
    | DeploymentUpdateActiveRevisionHandler | DeploymentUpdateMarketHandler
    | DeploymentUpdateReplicaCountHandler | DeploymentUpdateRequirementsHandler
    | DeploymentUpdateScheduleHandler | DeploymentUpdateTimeoutHandler | DeploymentUpdateStartupTimeoutHandler
    | VaultsHandler | CreateSharedVaultHandler | VaultWithdrawHandler | JobDefinitionHandler
    | JobResultsPostHandler | GetStatsHandler | ReservationWebhookHandler

record route_entry =
  en_scope :: scope
  en_method :: http_method
  en_path :: string
  en_pre :: "middleware list"
  en_handler :: handler

definition API_PREFIX :: string where
  "API_PREFIX = ''/deployments''"

definition deployment_entry :: "http_method \<Rightarrow> string \<Rightarrow> middleware list \<Rightarrow> handler \<Rightarrow> route_entry" where
  "deployment_entry m path pre h =
     \<lparr>en_scope = User_scope, en_method = m, en_path = API_PREFIX @ path, en_pre = pre, en_handler = h\<rparr>"

definition get_routes :: "route_entry list" where
  "get_routes = [
    deployment_entry GET '''' [] DeploymentsHandler,
    deployment_entry GET ''/:deployment'' [Get_deployment] GetDeploymentByIdHandler,
    deployment_entry GET ''/:deployment/tasks'' [Get_deployment, Validate_active] DeploymentGetScheduledTasksHandler,
    deployment_entry GET ''/:deployment/header'' [Get_deployment] DeploymentGetHeaderHandler,
    deployment_entry GET ''/:deployment/headers'' [Get_deployment] DeploymentGetJobHeadersHandler,
    deployment_entry GET ''/:deployment/jobs/:job'' [Get_deployment] DeploymentJobByIdHandler,
    deployment_entry GET ''/:deployment/jobs'' [Get_deployment] GetDeploymentJobsHandler,
    deployment_entry GET ''/:deployment/revisions'' [Get_deployment] GetDeploymentRevisionsHandler,
    deployment_entry GET ''/:deployment/events'' [Get_deployment] GetDeploymentEventsHandler,
    deployment_entry GET ''/:deployment/stream'' [Get_deployment] StreamDeploymentEventsHandler,
    deployment_entry GET ''/:deployment/ssh-keys'' [Get_deployment] GetDeploymentSshKeysHandler]"

definition post_routes :: "route_entry list" where
  "post_routes = [
    deployment_entry POST ''/create'' [] DeploymentCreateHandler,
    deployment_entry POST ''/validate'' [] DeploymentValidateHandler,
    deployment_entry POST ''/:deployment/create-revision'' [Get_deployment, Validate_active] DeploymentCreateRevisionHandler,
    deployment_entry POST ''/:deployment/ssh-keys'' [Get_deployment, Validate_active] DeploymentAddSshKeysHandler,
    deployment_entry POST ''/:deployment/duplicate'' [Get_deployment] DeploymentDuplicateHandler,
    deployment_entry POST ''/:deployment/start'' [Get_deployment] DeploymentStartHandler,
    deployment_entry POST ''/:deployment/stop'' [Get_deployment, Validate_active] DeploymentStopHandler]"

definition delete_routes :: "route_entry list" where
  "delete_routes = [
    deployment_entry DELETE ''/:deployment'' [Get_deployment] DeploymentDeleteHandler,
    deployment_entry DELETE ''/:deployment/ssh-keys'' [Get_deployment, Validate_active] DeploymentRevokeSshKeysHandler]"

definition patch_routes :: "route_entry list" where
  "patch_routes = [
    deployment_entry POST ''/:deployment/archive'' [Get_deployment, Validate_active] DeploymentArchiveHandler,
    deployment_entry PATCH ''/:deployment/update-name'' [Get_deployment] DeploymentUpdateNameHandler,
    deployment_entry PATCH ''/:deployment/update-active-revision'' [Get_deployment, Validate_active] DeploymentUpdateActiveRevisionHandler,
    deployment_entry PATCH ''/:deployment/update-market'' [Get_deployment, Validate_active] DeploymentUpdateMarketHandler,
    deployment_entry PATCH ''/:deployment/update-replica-count'' [Get_deployment, Validate_active] DeploymentUpdateReplicaCountHandler,
    deployment_entry PATCH ''/:deployment/update-requirements'' [Get_deployment, Validate_active] DeploymentUpdateRequirementsHandler,
    deployment_entry PATCH ''/:deployment/update-schedule'' [Get_deployment, Validate_active] DeploymentUpdateScheduleHandler,
    deployment_entry PATCH ''/:deployment/update-timeout'' [Get_deployment, Validate_active] DeploymentUpdateTimeoutHandler,
    deployment_entry PATCH ''/:deployment/update-startup-timeout'' [Get_deployment, Validate_active] DeploymentUpdateStartupTimeoutHandler]"

definition setupVaultRoutes :: "route_entry list" where
  "setupVaultRoutes = [
    deployment_entry GET ''/vaults'' [] VaultsHandler,
    deployment_entry POST ''/vaults/create'' [] CreateSharedVaultHandler,
    deployment_entry POST ''/vaults/:vault/withdraw'' [Get_vault] VaultWithdrawHandler]"

definition setupJobsRoutes :: "route_entry list" where
  "setupJobsRoutes = [
    (deployment_entry GET ''/jobs/:job/job-definition'' [] JobDefinitionHandler)\<lparr>en_scope := Host_scope\<rparr>,
    (deployment_entry POST ''/jobs/:job/results'' [] JobResultsPostHandler)\<lparr>en_scope := Host_scope\<rparr>]"

definition setupStatsRoutes :: "route_entry list" where
  "setupStatsRoutes =
     [\<lparr>en_scope = Open_scope, en_method = GET, en_path = ''/stats'', en_pre = [], en_handler = GetStatsHandler\<rparr>]"

definition setupWebhooksRoutes :: "route_entry list" where
  "setupWebhooksRoutes =
     [\<lparr>en_scope = Webhook_scope, en_method = POST, en_path = ''/webhooks/reservations'', en_pre = [],
       en_handler = ReservationWebhookHandler\<rparr>]"

definition route_table :: "route_entry list" where
  "route_table = setupJobsRoutes @ get_routes @ post_routes @ delete_routes @ patch_routes @ setupVaultRoutes @
     setupStatsRoutes @ setupWebhooksRoutes"

section \<open>Matching\<close>

definition segments :: "string \<Rightarrow> string list" where
  "segments path = split_on CHR ''/'' path"

definition is_param :: "string \<Rightarrow> bool" where
  "is_param segment = starts_with segment '':''"

definition path_matches :: "string \<Rightarrow> string \<Rightarrow> bool" where
  "path_matches pattern url = list_all2 (\<lambda>p u. is_param p \<or> p = u) (segments pattern) (segments url)"

text \<open>The schemas take only addresses (43 or 44 characters) for a parameter.\<close>

definition params_are_keys :: "string \<Rightarrow> string \<Rightarrow> bool" where
  "params_are_keys pattern url = list_all2 (\<lambda>p u. is_param p \<longrightarrow> 43 \<le> length u \<and> length u \<le> 44) (segments pattern) (segments url)"

section \<open>The middlewares of a route\<close>

fun run_middlewares :: "middleware list \<Rightarrow> deployment_document option \<Rightarrow> route_reply option" where
  "run_middlewares [] found = None"
| "run_middlewares (Get_deployment # ms) found = (if found = None then Some (Failed 404 M_NOT_FOUND) else run_middlewares ms found)"
| "run_middlewares (Validate_active # ms) found =
     (if d_status (the found) = ARCHIVED then Some (Failed 500 M_ARCHIVED) else run_middlewares ms found)"
| "run_middlewares (Get_vault # ms) found = run_middlewares ms found"

definition handler_of :: "request \<Rightarrow> handler" where
  "handler_of r = (case r of
     Start \<Rightarrow> DeploymentStartHandler | Stop \<Rightarrow> DeploymentStopHandler | Archive \<Rightarrow> DeploymentArchiveHandler
   | Delete \<Rightarrow> DeploymentDeleteHandler | Update_replicas _ \<Rightarrow> DeploymentUpdateReplicaCountHandler
   | Update_timeout _ \<Rightarrow> DeploymentUpdateTimeoutHandler | Update_startup_timeout _ \<Rightarrow> DeploymentUpdateStartupTimeoutHandler
   | Update_name _ \<Rightarrow> DeploymentUpdateNameHandler | Update_market _ \<Rightarrow> DeploymentUpdateMarketHandler
   | Update_schedule _ \<Rightarrow> DeploymentUpdateScheduleHandler | Update_requirements _ _ \<Rightarrow> DeploymentUpdateRequirementsHandler
   | Activate_revision _ \<Rightarrow> DeploymentUpdateActiveRevisionHandler | Create_revision _ \<Rightarrow> DeploymentCreateRevisionHandler
   | Duplicate _ _ _ \<Rightarrow> DeploymentDuplicateHandler | Add_ssh_keys _ \<Rightarrow> DeploymentAddSshKeysHandler
   | Revoke_ssh_keys _ \<Rightarrow> DeploymentRevokeSshKeysHandler)"

lemmas route_defs = route_table_def setupJobsRoutes_def get_routes_def post_routes_def delete_routes_def patch_routes_def
  setupVaultRoutes_def setupStatsRoutes_def setupWebhooksRoutes_def deployment_entry_def API_PREFIX_def

text \<open>
  Every route guards its deployment. A route whose path names a deployment, and only such a route,
  is behind the user's authentication and looks the deployment up before anything else, so that it works
  on one of the caller's own; and each request that changes one is answered, before its handler, exactly
  as its own chain of middlewares answers.
\<close>

theorem routes_guard_their_deployment:
  "list_all (\<lambda>e. ('':deployment'' \<in> set (segments (en_path e))) = (\<exists>ms. en_pre e = Get_deployment # ms)) route_table \<and>
   list_all (\<lambda>e. en_scope e = User_scope) (filter (\<lambda>e. '':deployment'' \<in> set (segments (en_path e))) route_table) \<and>
   (\<exists>e. filter (\<lambda>e. en_handler e = handler_of r) route_table = [e] \<and> run_middlewares (en_pre e) found = admit r found)"
proof (intro conjI)
  show "list_all (\<lambda>e. ('':deployment'' \<in> set (segments (en_path e))) = (\<exists>ms. en_pre e = Get_deployment # ms)) route_table"
    by (simp add: route_defs segments_def)
  show "list_all (\<lambda>e. en_scope e = User_scope) (filter (\<lambda>e. '':deployment'' \<in> set (segments (en_path e))) route_table)"
    by (simp add: route_defs segments_def)
  show "\<exists>e. filter (\<lambda>e. en_handler e = handler_of r) route_table = [e] \<and> run_middlewares (en_pre e) found = admit r found"
    by (cases r; cases found) (simp_all add: route_defs handler_of_def admit_def open_to_archived_def)
qed

definition shape :: "string list \<Rightarrow> string list" where
  "shape ss = map (\<lambda>p. if is_param p then '':'' else p) ss"

lemma shapes_distinct: "distinct (map (\<lambda>e. (en_method e, shape (segments (en_path e)))) route_table)"
  by (simp add: route_defs segments_def shape_def is_param_def)

lemma statics_short: "list_all (\<lambda>e. list_all (\<lambda>p. length p < 43) (segments (en_path e))) route_table"
  by (simp add: route_defs segments_def)

lemma same_shape:
  assumes "list_all2 (\<lambda>p u. is_param p \<or> p = u) ps us" "list_all2 (\<lambda>p u. is_param p \<or> p = u) qs us"
    and "list_all2 (\<lambda>p u. is_param p \<longrightarrow> 43 \<le> length u \<and> length u \<le> 44) ps us"
    and "list_all2 (\<lambda>p u. is_param p \<longrightarrow> 43 \<le> length u \<and> length u \<le> 44) qs us"
    and "list_all (\<lambda>p. length p < 43) ps" "list_all (\<lambda>p. length p < 43) qs"
  shows "shape ps = shape qs"
  using assms
proof (induction us arbitrary: ps qs rule: list.induct)
  case (Cons u us)
  obtain p ps' where ps: "ps = p # ps'" using Cons.prems(1) by (cases ps) simp_all
  obtain q qs' where qs: "qs = q # qs'" using Cons.prems(2) by (cases qs) simp_all
  have "shape ps' = shape qs'" using Cons.prems by (intro Cons.IH) (simp_all add: ps qs)
  moreover have "is_param p = is_param q" "\<not> is_param p \<Longrightarrow> p = q" using Cons.prems by (auto simp: ps qs)
  ultimately show ?case by (simp add: ps qs shape_def)
qed simp

text \<open>
  No request has two routes. Whatever order the framework tries them in, a URL whose parameters are
  addresses is matched by at most one route of its method: a fixed segment such as \<open>jobs\<close>, \<open>vaults\<close> or \<open>create\<close> can never be taken for a deployment.
\<close>

theorem one_route_per_request:
  assumes "e1 \<in> set route_table" "e2 \<in> set route_table" and "en_method e1 = en_method e2"
    and "path_matches (en_path e1) url" "path_matches (en_path e2) url"
    and "params_are_keys (en_path e1) url" "params_are_keys (en_path e2) url"
  shows "e1 = e2"
proof -
  have short: "list_all (\<lambda>p. length p < 43) (segments (en_path e))" if "e \<in> set route_table" for e
    using statics_short that unfolding list_all_iff by blast
  have "shape (segments (en_path e1)) = shape (segments (en_path e2))"
    using assms short by (intro same_shape [where us = "segments url"]) (simp_all only: path_matches_def params_are_keys_def)
  moreover have "inj_on (\<lambda>e. (en_method e, shape (segments (en_path e)))) (set route_table)"
    using shapes_distinct by (simp only: distinct_map)
  ultimately show ?thesis using assms(1-3) by (auto dest: inj_onD)
qed

theorem one_route_per_request_witness:
  "deployment_entry POST ''/:deployment/start'' [Get_deployment] DeploymentStartHandler \<in> set route_table \<and>
   (\<forall>e. e \<notin> set route_table \<or> en_method e \<noteq> POST \<or> \<not> path_matches (en_path e) (''/deployments/'' @ replicate 43 CHR ''k'' @ ''/start'') \<or>
     \<not> params_are_keys (en_path e) (''/deployments/'' @ replicate 43 CHR ''k'' @ ''/start'') \<or>
     e = deployment_entry POST ''/:deployment/start'' [Get_deployment] DeploymentStartHandler)"
proof -
  let ?e = "deployment_entry POST ''/:deployment/start'' [Get_deployment] DeploymentStartHandler"
  let ?url = "''/deployments/'' @ replicate 43 CHR ''k'' @ ''/start''"
  have member: "?e \<in> set route_table" by (simp add: route_table_def post_routes_def)
  have url: "segments ?url = [[], ''deployments'', replicate 43 CHR ''k'', ''start'']"
    by (simp add: segments_def numeral_eq_Suc)
  have "path_matches (en_path ?e) ?url" "params_are_keys (en_path ?e) ?url"
    unfolding path_matches_def params_are_keys_def url
    by (simp_all add: deployment_entry_def API_PREFIX_def segments_def is_param_def)
  then have "e \<notin> set route_table \<or> en_method e \<noteq> POST \<or> \<not> path_matches (en_path e) ?url \<or> \<not> params_are_keys (en_path e) ?url \<or> e = ?e" for e
    using one_route_per_request [OF _ member, of e ?url] by (auto simp: deployment_entry_def)
  with member show ?thesis by blast
qed

end
