(* ===== verification/Schemas.thy ===== *)
theory Schemas
  imports Route_Table
begin

text \<open>
  The schemas of the API (\<open>src/router/schema/components\<close>, \<open>src/router/schema/index.schema.ts\<close>): the
  schema language the program uses, what a schema admits, and the shared schemas. A schema's texts
  for its readers are left out. The validator is configured without coercion
  (\<open>src/router/index.ts\<close>): a value is admitted as it is or refused.
\<close>

section \<open>The language\<close>

text \<open>
  A string has its least and greatest length and its pattern; a record the pattern of its keys, the least
  number of them and the schema of its values. \<open>S_extern\<close> is a schema of the kit, \<open>S_date_time\<close> the
  format of that name.
\<close>

datatype schema =
    S_string nat "nat option" "string \<Rightarrow> bool"
  | S_date_time
  | S_number "rat option" "rat option"
  | S_integer "rat option" "rat option"
  | S_boolean
  | S_null
  | S_literal json
  | S_array nat schema
  | S_record "string \<Rightarrow> bool" nat schema
  | S_object "property list"
  | S_union "schema list"
  | S_intersect "schema list"
  | S_never
  | S_extern string
and property = Required string schema | Optional string schema

text \<open>What the program does not hold: the kit's schemas and the test of a date; the definition a JSON value
  stands for, and requirements as the text they are stored as.\<close>

record schema_kit =
  sk_extern :: "string \<Rightarrow> json \<Rightarrow> bool"
  sk_date_time :: "string \<Rightarrow> bool"
  sk_definition :: "json \<Rightarrow> job_definition"
  sk_text :: "json \<Rightarrow> string"
  sk_json :: "string \<Rightarrow> json"

definition property_of :: "(string \<times> json) list \<Rightarrow> string \<Rightarrow> json option" where
  "property_of members k = map_of (rev members) k"

definition in_bounds :: "rat option \<Rightarrow> rat option \<Rightarrow> rat \<Rightarrow> bool" where
  "in_bounds lo hi n \<longleftrightarrow> (case lo of None \<Rightarrow> True | Some l \<Rightarrow> l \<le> n) \<and> (case hi of None \<Rightarrow> True | Some h \<Rightarrow> n \<le> h)"

definition whole :: "rat \<Rightarrow> bool" where
  "whole n \<longleftrightarrow> of_int \<lfloor>n\<rfloor> = n"

fun admits :: "schema_kit \<Rightarrow> schema \<Rightarrow> json \<Rightarrow> bool"
  and admits_any :: "schema_kit \<Rightarrow> schema list \<Rightarrow> json \<Rightarrow> bool"
  and admits_all :: "schema_kit \<Rightarrow> schema list \<Rightarrow> json \<Rightarrow> bool"
  and admits_props :: "schema_kit \<Rightarrow> property list \<Rightarrow> (string \<times> json) list \<Rightarrow> bool" where
  "admits kit (S_string lo hi pattern) j = (case j of
     J_str t \<Rightarrow> lo \<le> length t \<and> (case hi of None \<Rightarrow> True | Some h \<Rightarrow> length t \<le> h) \<and> pattern t | _ \<Rightarrow> False)"
| "admits kit S_date_time j = (case j of J_str t \<Rightarrow> sk_date_time kit t | _ \<Rightarrow> False)"
| "admits kit (S_number lo hi) j = (case j of J_num n \<Rightarrow> in_bounds lo hi n | _ \<Rightarrow> False)"
| "admits kit (S_integer lo hi) j = (case j of J_num n \<Rightarrow> whole n \<and> in_bounds lo hi n | _ \<Rightarrow> False)"
| "admits kit S_boolean j = (j = J_true \<or> j = J_false)"
| "admits kit S_null j = (j = J_null)"
| "admits kit (S_literal v) j = (j = v)"
| "admits kit (S_array least s) j = (case j of
     J_arr js \<Rightarrow> least \<le> length js \<and> list_all (admits kit s) js | _ \<Rightarrow> False)"
| "admits kit (S_record key least s) j = (case j of
     J_obj members \<Rightarrow> least \<le> length members \<and> list_all (\<lambda>m. key (fst m) \<and> admits kit s (snd m)) members
   | _ \<Rightarrow> False)"
| "admits kit (S_object props) j = (case j of J_obj members \<Rightarrow> admits_props kit props members | _ \<Rightarrow> False)"
| "admits kit (S_union ss) j = admits_any kit ss j"
| "admits kit (S_intersect ss) j = admits_all kit ss j"
| "admits kit S_never j = False"
| "admits kit (S_extern name) j = sk_extern kit name j"
| "admits_any kit [] j = False"
| "admits_any kit (s # ss) j = (admits kit s j \<or> admits_any kit ss j)"
| "admits_all kit [] j = True"
| "admits_all kit (s # ss) j = (admits kit s j \<and> admits_all kit ss j)"
| "admits_props kit [] members = True"
| "admits_props kit (Required k s # props) members =
     ((case property_of members k of None \<Rightarrow> False | Some v \<Rightarrow> admits kit s v) \<and> admits_props kit props members)"
| "admits_props kit (Optional k s # props) members =
     ((case property_of members k of None \<Rightarrow> True | Some v \<Rightarrow> admits kit s v) \<and> admits_props kit props members)"

lemma admits_shape [simp]:
  "admits kit (S_string lo hi pattern) j \<longleftrightarrow>
     (\<exists>t. j = J_str t \<and> lo \<le> length t \<and> (case hi of None \<Rightarrow> True | Some h \<Rightarrow> length t \<le> h) \<and> pattern t)"
  "admits kit (S_number least most) j \<longleftrightarrow> (\<exists>n. j = J_num n \<and> in_bounds least most n)"
  "admits kit (S_integer least most) j \<longleftrightarrow> (\<exists>n. j = J_num n \<and> whole n \<and> in_bounds least most n)"
  "admits kit S_date_time j \<longleftrightarrow> (\<exists>t. j = J_str t \<and> sk_date_time kit t)"
  "admits kit (S_array k s) j \<longleftrightarrow> (\<exists>js. j = J_arr js \<and> k \<le> length js \<and> list_all (admits kit s) js)"
  "admits kit (S_record key k s) j \<longleftrightarrow>
     (\<exists>ms. j = J_obj ms \<and> k \<le> length ms \<and> list_all (\<lambda>m. key (fst m) \<and> admits kit s (snd m)) ms)"
  "admits kit (S_object props) j \<longleftrightarrow> (\<exists>ms. j = J_obj ms \<and> admits_props kit props ms)"
  by (cases j; simp)+

declare admits.simps(1-4,8-10) [simp del]

definition any_string :: schema where "any_string = S_string 0 None (\<lambda>_. True)"
definition any_number :: schema where "any_number = S_number None None"
definition number_from :: "rat \<Rightarrow> schema" where "number_from lo = S_number (Some lo) None"
definition text_from :: "nat \<Rightarrow> schema" where "text_from lo = S_string lo None (\<lambda>_. True)"

definition literals :: "string list \<Rightarrow> schema" where
  "literals vs = S_union (map (\<lambda>v. S_literal (J_str v)) vs)"

lemma admits_any_literals [simp]:
  "admits_any kit (map (\<lambda>v. S_literal (J_str v)) vs) j \<longleftrightarrow> (\<exists>v \<in> set vs. j = J_str v)"
  by (induction vs) auto

lemma admits_literals [simp]: "admits kit (literals vs) j \<longleftrightarrow> (\<exists>v \<in> set vs. j = J_str v)"
  by (simp add: literals_def)

lemma admits_abbreviations [simp]:
  "admits kit any_string j \<longleftrightarrow> (\<exists>t. j = J_str t)"
  "admits kit any_number j \<longleftrightarrow> (\<exists>n. j = J_num n)"
  "admits kit (number_from lo) j \<longleftrightarrow> (\<exists>n. j = J_num n \<and> lo \<le> n)"
  "admits kit (text_from l) j \<longleftrightarrow> (\<exists>t. j = J_str t \<and> l \<le> length t)"
  by (auto simp: any_string_def any_number_def number_from_def text_from_def in_bounds_def)

text \<open>\<open>Type.Omit\<close>, \<open>Type.Composite\<close>.\<close>

definition prop_key :: "property \<Rightarrow> string" where
  "prop_key p = (case p of Required k _ \<Rightarrow> k | Optional k _ \<Rightarrow> k)"

fun type_omit :: "string \<Rightarrow> schema \<Rightarrow> schema" and omit_each :: "string \<Rightarrow> schema list \<Rightarrow> schema list" where
  "type_omit k (S_object props) = S_object (filter (\<lambda>p. prop_key p \<noteq> k) props)"
| "type_omit k (S_union ss) = S_union (omit_each k ss)"
| "type_omit k (S_intersect ss) = S_intersect (omit_each k ss)"
| "type_omit k s = s"
| "omit_each k [] = []"
| "omit_each k (s # ss) = type_omit k s # omit_each k ss"

definition type_composite :: "property list \<Rightarrow> property list \<Rightarrow> schema" where
  "type_composite ps qs = S_object (ps @ qs)"

definition object_props :: "schema \<Rightarrow> property list" where
  "object_props s = (case s of S_object props \<Rightarrow> props | _ \<Rightarrow> [])"

section \<open>Shared schemas\<close>

definition PublicKeySchema :: schema where
  "PublicKeySchema = S_string 43 (Some 44) (\<lambda>_. True)"

text \<open>The pattern of a schedule: five runs of what is not white space, with white space between them.\<close>

fun words :: "string \<Rightarrow> string \<Rightarrow> string list" where
  "words w [] = (if w = [] then [] else [rev w])"
| "words w (c # r) = (if is_space c then (if w = [] then words [] r else rev w # words [] r) else words (c # w) r)"

definition five_fields :: "string \<Rightarrow> bool" where
  "five_fields t \<longleftrightarrow> length (words [] t) = 5"

definition DeploymentScheduleSchema :: schema where
  "DeploymentScheduleSchema = S_string 0 None five_fields"

definition RequirementValueSchema :: schema where
  "RequirementValueSchema = S_union [any_number, any_string, S_boolean]"

definition requirement_key :: "string \<Rightarrow> bool" where
  "requirement_key k \<longleftrightarrow> 1 \<le> length k \<and> length k \<le> 256 \<and> CHR 0x0A \<notin> set k \<and> CHR 0x0D \<notin> set k"

definition RequirementsSchema :: schema where
  "RequirementsSchema = S_record requirement_key 1 (S_union [RequirementValueSchema, S_array 1 RequirementValueSchema])"

definition EndpointSchema :: schema where
  "EndpointSchema = S_object [
     Required ''opId'' any_string,
     Required ''port'' (S_union [any_number, any_string]),
     Required ''url'' any_string,
     Required ''online'' S_boolean]"

definition DeploymentStatusSchema :: schema where
  "DeploymentStatusSchema = literals (map status_name
     [DRAFT, ERROR, STARTING, RUNNING, STOPPING, STOPPED, INSUFFICIENT_FUNDS, ARCHIVED])"

definition DeploymentStrategySchema :: schema where
  "DeploymentStrategySchema = literals (map strategy_name [SIMPLE, SIMPLE_EXTEND, SCHEDULED, INFINITE])"

definition DeploymentSchema :: schema where
  "DeploymentSchema = S_intersect [
     S_object [
       Required ''id'' any_string,
       Required ''name'' any_string,
       Required ''vault'' PublicKeySchema,
       Required ''market'' (S_union [PublicKeySchema, S_null]),
       Required ''requirements'' (S_union [RequirementsSchema, S_null]),
       Required ''owner'' PublicKeySchema,
       Required ''status'' DeploymentStatusSchema,
       Required ''replicas'' (number_from 0),
       Required ''timeout'' (number_from 1),
       Required ''endpoints'' (S_array 0 EndpointSchema),
       Required ''confidential'' S_boolean,
       Required ''active_revision'' (number_from 0),
       Required ''active_jobs'' (number_from 0),
       Required ''created_at'' S_date_time,
       Required ''updated_at'' S_date_time],
     S_union [
       S_object [Required ''strategy'' (literals (map strategy_name [SIMPLE, SIMPLE_EXTEND]))],
       S_object [
         Required ''strategy'' (S_literal (J_str (strategy_name SCHEDULED))),
         Required ''schedule'' (S_string 0 None five_fields)],
       S_object [
         Required ''timeout'' (number_from 60),
         Required ''strategy'' (S_literal (J_str (strategy_name INFINITE))),
         Required ''rotation_time'' any_number,
         Optional ''startup_timeout'' (number_from 1)]]]"

definition ErrorSchema :: schema where
  "ErrorSchema = S_object [Required ''error'' any_string]"

definition EventSchema :: schema where
  "EventSchema = S_object [
     Required ''category'' (literals (map category_name [Category_Deployment, Category_Event])),
     Required ''deploymentId'' PublicKeySchema,
     Required ''type'' any_string,
     Required ''message'' any_string,
     Optional ''tx'' any_string,
     Required ''created_at'' S_date_time]"

definition JobSchema :: schema where
  "JobSchema = S_object [
     Required ''tx'' any_string,
     Required ''deployment'' PublicKeySchema,
     Required ''job'' PublicKeySchema,
     Required ''market'' any_string,
     Required ''node'' (S_union [PublicKeySchema, S_null]),
     Required ''revision'' (number_from 1),
     Required ''state'' (literals (map state_name [J_QUEUED, J_RUNNING, J_COMPLETED, J_STOPPED])),
     Required ''time_start'' (number_from 0),
     Required ''created_at'' S_date_time,
     Required ''updated_at'' S_date_time]"

definition TaskTypeSchema :: schema where
  "TaskTypeSchema = literals (map task_name [LIST, EXTEND, STOP])"

definition TaskSchema :: schema where
  "TaskSchema = S_object [
     Required ''task'' TaskTypeSchema,
     Required ''deploymentId'' PublicKeySchema,
     Optional ''tx'' any_string,
     Optional ''job'' any_string,
     Optional ''limit'' any_number,
     Optional ''active_revision'' any_number,
     Required ''due_at'' S_date_time,
     Required ''created_at'' S_date_time]"

definition VaultSchema :: schema where
  "VaultSchema = S_object [
     Required ''vault'' PublicKeySchema, Required ''owner'' PublicKeySchema, Required ''created_at'' S_date_time]"

definition VaultsSchema :: schema where
  "VaultsSchema = S_array 0 VaultSchema"

definition RevisionSchema :: schema where
  "RevisionSchema = S_object [
     Required ''revision'' any_number,
     Required ''deployment'' PublicKeySchema,
     Required ''ipfs_definition_hash'' any_string,
     Required ''job_definition'' (S_extern ''JobDefinition''),
     Required ''created_at'' S_date_time]"

definition HeadersSchema :: schema where
  "HeadersSchema = S_object [
     Required ''x-user-id'' PublicKeySchema, Required ''authorization'' any_string, Optional ''x-nosana-api'' any_string]"

definition HostHeadersSchema :: schema where
  "HostHeadersSchema = S_object [Required ''authorization'' any_string]"

definition SshPublicKeysSchema :: schema where
  "SshPublicKeysSchema = S_array 0 (text_from 1)"

definition SshKeysBody :: schema where
  "SshKeysBody = S_object [Required ''public_keys'' SshPublicKeysSchema]"

definition JobSshKeysResultSchema :: schema where
  "JobSshKeysResultSchema = S_object [
     Required ''job'' any_string, Required ''node'' any_string,
     Required ''status'' (literals [''authorized'', ''revoked'', ''failed'']), Optional ''error'' any_string]"

definition SshKeysResultSchema :: schema where
  "SshKeysResultSchema = S_object [
     Required ''public_keys'' (S_array 0 any_string),
     Required ''updated_at'' S_date_time,
     Required ''jobs'' (S_array 0 JobSshKeysResultSchema)]"

section \<open>Frames of the event stream\<close>

definition DeploymentStreamEventSchema :: schema where
  "DeploymentStreamEventSchema = S_union [
     S_object [
       Required ''type'' (literals [''deployment'']),
       Required ''status'' DeploymentStatusSchema,
       Required ''replicas'' (number_from 0),
       Required ''active_revision'' (number_from 1)],
     S_object [
       Required ''type'' (literals [''job'']),
       Required ''job'' PublicKeySchema,
       Required ''state'' (literals (map state_name [J_QUEUED, J_RUNNING, J_COMPLETED, J_STOPPED])),
       Required ''node'' (S_union [PublicKeySchema, S_null]),
       Required ''timeStart'' (number_from 0),
       Required ''timeEnd'' (number_from 0),
       Required ''revision'' (number_from 1),
       Required ''created_at'' S_date_time],
     S_object [Required ''type'' (literals [''jobs'']), Required ''jobs'' (S_array 0 PublicKeySchema)],
     S_object [
       Required ''type'' (literals [''event'']),
       Required ''category'' (literals (map category_name [Category_Deployment, Category_Event])),
       Required ''event'' any_string,
       Required ''message'' any_string,
       Required ''tx'' (S_union [any_string, S_null]),
       Required ''created_at'' S_date_time],
     S_object [
       Required ''type'' (literals [''task'']),
       Required ''id'' any_string,
       Required ''task'' TaskTypeSchema,
       Required ''status'' (literals [''PENDING'', ''PROCESSING'']),
       Required ''attempts'' (number_from 0),
       Required ''due_at'' S_date_time,
       Required ''job'' (S_union [any_string, S_null])],
     type_composite [Required ''type'' (literals [''endpoint''])] (object_props EndpointSchema),
     S_object [
       Required ''type'' (literals [''task'']),
       Required ''id'' any_string,
       Required ''task'' TaskTypeSchema,
       Required ''status'' (literals [''DONE''])]]"

section \<open>Queries and pages\<close>

definition query_text :: "string \<Rightarrow> property" where "query_text k = Optional k any_string"
definition query_date :: "string \<Rightarrow> property" where "query_date k = Optional k S_date_time"

definition PaginationQuerySchema :: "property list" where
  "PaginationQuerySchema = [
     query_text ''cursor'',
     Optional ''limit'' (S_union (map (\<lambda>n. S_literal (J_num n)) [10, 20, 50, 100] @
       map (\<lambda>t. S_literal (J_str t)) [''10'', ''20'', ''50'', ''100''])),
     Optional ''sort_order'' (literals [''asc'', ''desc''])]"

definition PaginationMetaSchema :: schema where
  "PaginationMetaSchema = S_object [
     Required ''cursor_next'' (S_union [any_string, S_null]),
     Required ''cursor_prev'' (S_union [any_string, S_null]),
     Required ''total_items'' any_number]"

definition withFilters :: "property list \<Rightarrow> schema" where
  "withFilters filterSchema = type_composite PaginationQuerySchema filterSchema"

definition withPagination :: "string \<Rightarrow> schema \<Rightarrow> schema" where
  "withPagination resourceName itemsSchema = S_object [
     Required resourceName (S_array 0 itemsSchema), Required ''pagination'' PaginationMetaSchema]"

definition one_or_more :: "string list \<Rightarrow> schema" where
  "one_or_more names = S_union [literals names, any_string]"

definition DeploymentsFilterSchema :: "property list" where
  "DeploymentsFilterSchema = [
     Optional ''idempotency_key'' (S_string 1 (Some 128) (\<lambda>_. True)),
     query_text ''search'', query_text ''id'', query_text ''name'',
     Optional ''status'' (one_or_more (map status_name
       [DRAFT, ERROR, STARTING, RUNNING, STOPPING, STOPPED, INSUFFICIENT_FUNDS, ARCHIVED])),
     Optional ''strategy'' (one_or_more (map strategy_name [SIMPLE, SIMPLE_EXTEND, SCHEDULED, INFINITE])),
     query_text ''vault'', query_text ''market'', query_text ''gpu'',
     query_date ''created_after'', query_date ''created_before'']"

definition EventsFilterSchema :: "property list" where
  "EventsFilterSchema = [
     Optional ''category'' (one_or_more (map category_name [Category_Deployment, Category_Event])),
     query_text ''type'', query_date ''created_after'', query_date ''created_before'']"

definition JobsFilterSchema :: "property list" where
  "JobsFilterSchema = [
     Optional ''state'' (one_or_more (map state_name [J_QUEUED, J_RUNNING, J_COMPLETED, J_STOPPED])),
     query_text ''job'', Optional ''revision'' (number_from 0),
     query_date ''created_after'', query_date ''created_before'']"

definition RevisionsFilterSchema :: "property list" where
  "RevisionsFilterSchema = [
     Optional ''revision'' (number_from 0), query_date ''created_after'', query_date ''created_before'']"

definition TasksFilterSchema :: "property list" where
  "TasksFilterSchema = [
     Optional ''task'' (one_or_more (map task_name [LIST, EXTEND, STOP])),
     query_date ''due_after'', query_date ''due_before'']"

end
