(* ===== verification/Route_Schemas.thy ===== *)
theory Route_Schemas
  imports Schemas
begin

text \<open>
  The schema of every route (\<open>src/router/schema/get\<close>, \<open>post\<close>, \<open>patch\<close>, \<open>delete\<close>): what the headers,
  the parameters, the query string and the body must be, and for each status what is sent back (None
  is a status without content). Descriptions, tags and examples are left out. Which route has which
  schema is in \<open>src/router/setup\<close>.
\<close>

record route_schema =
  sc_headers :: "schema option"
  sc_params :: "schema option"
  sc_query :: "schema option"
  sc_body :: "schema option"
  sc_response :: "(nat \<times> schema option) list"

section \<open>The body of create\<close>

definition creation_key :: "string \<Rightarrow> bool" where
  "creation_key t \<longleftrightarrow> t \<noteq> [] \<and> list_all (\<lambda>c.
     c \<in> set ''abcdefghijklmnopqrstuvwxyzABCDEFGHIJKLMNOPQRSTUVWXYZ0123456789:/_.-'') t"

definition DeploymentCreateBodySchema :: schema where
  "DeploymentCreateBodySchema = S_intersect [
     S_object [
       Optional ''idempotency_key'' (S_string 1 (Some 128) creation_key),
       Required ''name'' any_string,
       Optional ''market'' PublicKeySchema,
       Optional ''requirements'' RequirementsSchema,
       Required ''replicas'' (S_number (Some 1) (Some 100)),
       Required ''timeout'' (number_from 1),
       Optional ''confidential'' S_boolean,
       Optional ''autostart'' S_boolean,
       Optional ''ssh_public_keys'' SshPublicKeysSchema,
       Required ''job_definition'' (S_extern ''JobDefinition'')],
     S_union [
       S_object [Optional ''vault'' PublicKeySchema, Optional ''new_vault'' S_never],
       S_object [Optional ''new_vault'' S_boolean, Optional ''vault'' S_never]],
     S_union [
       S_object [Required ''strategy'' (literals (map strategy_name [SIMPLE, SIMPLE_EXTEND]))],
       S_object [
         Required ''strategy'' (S_literal (J_str (strategy_name SCHEDULED))),
         Required ''schedule'' DeploymentScheduleSchema],
       S_object [
         Required ''timeout'' (number_from 60),
         Required ''strategy'' (S_literal (J_str (strategy_name INFINITE))),
         Optional ''rotation_time'' any_number,
         Optional ''startup_timeout'' (number_from 1)]]]"

definition DeploymentMetadataSchema :: schema where
  "DeploymentMetadataSchema = type_omit ''job_definition'' DeploymentCreateBodySchema"

section \<open>Registered schemas\<close>

definition addSchemas :: "(string \<times> schema) list" where
  "addSchemas = [
     (''Headers'', HeadersSchema),
     (''HostHeaders'', HostHeadersSchema),
     (''Deployment'', DeploymentSchema),
     (''Deployments'', S_array 0 DeploymentSchema),
     (''DeploymentStatus'', DeploymentStatusSchema),
     (''DeploymentStreamEvent'', DeploymentStreamEventSchema),
     (''DeploymentStrategy'', DeploymentStrategySchema),
     (''DeploymentCreateBody'', DeploymentCreateBodySchema),
     (''Endpoint'', EndpointSchema),
     (''Error'', ErrorSchema),
     (''Event'', EventSchema),
     (''Job'', JobSchema),
     (''PublicKey'', PublicKeySchema),
     (''Task'', TaskSchema),
     (''Vault'', VaultSchema),
     (''Vaults'', VaultsSchema),
     (''Revision'', RevisionSchema),
     (''JobDefinition'', S_extern ''JobDefinition''),
     (''JobResults'', S_extern ''JobResults'')]"

text \<open>A \<open>$ref\<close>; one that is not registered fails when the server starts.\<close>

definition registered :: "string \<Rightarrow> schema" where
  "registered name = (case map_of addSchemas name of Some s \<Rightarrow> s | None \<Rightarrow> S_never)"

definition replies :: "string \<Rightarrow> schema option" where "replies name = Some (registered name)"
definition unauthorized :: "schema option" where "unauthorized = Some (S_literal (J_str ''Unauthorized''))"

definition key_params :: "string list \<Rightarrow> schema option" where
  "key_params names = Some (S_object (map (\<lambda>n. Required n (registered ''PublicKey'')) names))"

text \<open>A route of a user on one deployment.\<close>

definition deployment_schema :: "schema option \<Rightarrow> (nat \<times> schema option) list \<Rightarrow> route_schema" where
  "deployment_schema body response =
     \<lparr>sc_headers = Some (registered ''Headers''), sc_params = key_params [''deployment''], sc_query = None,
      sc_body = body, sc_response = response\<rparr>"

section \<open>Reading\<close>

definition DeploymentsHandlerSchema :: route_schema where
  "DeploymentsHandlerSchema = \<lparr>sc_headers = Some (registered ''Headers''), sc_params = None,
     sc_query = Some (withFilters DeploymentsFilterSchema), sc_body = None,
     sc_response = [(200, Some (withPagination ''deployments'' (registered ''Deployment''))), (401, unauthorized), (500, replies ''Error'')]\<rparr>"

definition DeploymentByIdSchema :: route_schema where
  "DeploymentByIdSchema = deployment_schema None [
     (200, replies ''Deployment''),
     (401, unauthorized),
     (404, replies ''Error''),
     (500, replies ''Error'')]"

definition GetDeploymentScheduledTasksSchema :: route_schema where
  "GetDeploymentScheduledTasksSchema = (deployment_schema None [
     (200, Some (withPagination ''tasks'' (registered ''Task''))), (401, unauthorized), (404, replies ''Error''), (500, replies ''Error'')])
     \<lparr>sc_query := Some (withFilters TasksFilterSchema)\<rparr>"

definition GetDeploymentJobsSchema :: route_schema where
  "GetDeploymentJobsSchema = (deployment_schema None [
     (200, Some (withPagination ''jobs'' (registered ''Job''))), (401, unauthorized), (404, replies ''Error''), (500, replies ''Error'')])
     \<lparr>sc_query := Some (withFilters JobsFilterSchema)\<rparr>"

definition GetDeploymentRevisionsSchema :: route_schema where
  "GetDeploymentRevisionsSchema = (deployment_schema None [
     (200, Some (withPagination ''revisions'' (registered ''Revision''))), (401, unauthorized), (404, replies ''Error''), (500, replies ''Error'')])
     \<lparr>sc_query := Some (withFilters RevisionsFilterSchema)\<rparr>"

definition GetDeploymentEventsSchema :: route_schema where
  "GetDeploymentEventsSchema = (deployment_schema None [
     (200, Some (withPagination ''events'' (registered ''Event''))), (401, unauthorized), (404, replies ''Error''), (500, replies ''Error'')])
     \<lparr>sc_query := Some (withFilters EventsFilterSchema)\<rparr>"

definition GetDeploymentHeaderSchema :: route_schema where
  "GetDeploymentHeaderSchema = (deployment_schema None [
     (200, Some (S_object [Required ''header'' any_string])), (401, unauthorized), (404, replies ''Error''), (500, replies ''Error'')])
     \<lparr>sc_query := Some (S_object [Optional ''includeTime'' (literals [''true'', ''false'']), Optional ''message'' (text_from 1)])\<rparr>"

definition GetDeploymentJobHeadersSchema :: route_schema where
  "GetDeploymentJobHeadersSchema = deployment_schema None [
     (200, Some (S_object [Required ''headers'' (S_record (\<lambda>_. True) 0 any_string)])),
     (401, unauthorized),
     (404, replies ''Error''),
     (500, replies ''Error'')]"

definition DeploymentJobByIdResponse :: schema where
  "DeploymentJobByIdResponse = S_object [
     Required ''confidential'' S_boolean,
     Required ''revision'' (number_from 1),
     Required ''market'' PublicKeySchema,
     Required ''node'' PublicKeySchema,
     Required ''state'' (S_union [any_string, any_number]),
     Required ''jobStatus'' (S_union [any_string, S_null]),
     Required ''jobDefinition'' (registered ''JobDefinition''),
     Required ''jobResult'' (S_union [registered ''JobResults'', S_null]),
     Required ''timeStart'' (number_from 0),
     Required ''timeEnd'' (number_from 0),
     Required ''listedAt'' (number_from 0)]"

definition DeploymentJobByIdSchema :: route_schema where
  "DeploymentJobByIdSchema = (deployment_schema None [
     (200, Some (DeploymentJobByIdResponse)), (401, unauthorized), (404, replies ''Error''), (500, replies ''Error'')])
     \<lparr>sc_params := key_params [''deployment'', ''job'']\<rparr>"

definition GetDeploymentSshKeysSchema :: route_schema where
  "GetDeploymentSshKeysSchema = deployment_schema None [
     (200, Some (S_object [Required ''public_keys'' (S_array 0 any_string)])),
     (401, unauthorized),
     (404, replies ''Error''),
     (500, replies ''Error'')]"

definition StreamDeploymentEventsSchema :: route_schema where
  "StreamDeploymentEventsSchema = deployment_schema None [(200, replies ''DeploymentStreamEvent'')]"

definition VaultsHandlerSchema :: route_schema where
  "VaultsHandlerSchema = \<lparr>sc_headers = Some (registered ''Headers''), sc_params = None,
     sc_query = None, sc_body = None,
     sc_response = [(200, replies ''Vaults''), (401, unauthorized), (500, replies ''Error'')]\<rparr>"

definition JobDefinitionHandlerSchema :: route_schema where
  "JobDefinitionHandlerSchema = \<lparr>sc_headers = Some (registered ''HostHeaders''), sc_params = None,
     sc_query = None, sc_body = None,
     sc_response = [(200, replies ''JobDefinition''), (401, unauthorized), (500, replies ''Error'')]\<rparr>"

definition StatsHandlerSchema :: route_schema where
  "StatsHandlerSchema = \<lparr>sc_headers = None, sc_params = None,
     sc_query = None, sc_body = None,
     sc_response = [(200, Some (S_object [
       Required ''running_ms'' any_number, Required ''started_at'' S_date_time,
       Required ''jobs'' (S_object [Required ''listed'' any_number, Required ''extended'' any_number, Required ''stopped'' any_number]),
       Required ''tasks'' (S_object [Required ''in_progress'' any_number, Required ''failed'' any_number, Required ''successful'' any_number, Required ''timed_out'' any_number, Required ''average_time_ms'' any_number])]))]\<rparr>"

section \<open>Creating\<close>

definition DeploymentCreateSchema :: route_schema where
  "DeploymentCreateSchema = \<lparr>sc_headers = Some (registered ''Headers''), sc_params = None,
     sc_query = None, sc_body = Some (registered ''DeploymentCreateBody''),
     sc_response = [(200, replies ''Deployment''), (401, unauthorized), (400, replies ''Error''), (409, replies ''Error''), (500, replies ''Error'')]\<rparr>"

definition DeploymentValidateSchema :: route_schema where
  "DeploymentValidateSchema = \<lparr>sc_headers = Some (registered ''Headers''), sc_params = None,
     sc_query = None, sc_body = Some (S_object [Required ''job_definition'' (registered ''JobDefinition'')]),
     sc_response = [(200, Some (S_object [Required ''valid'' S_boolean, Required ''errors'' (S_array 0 any_string)]))]\<rparr>"

definition DeploymentDuplicateBodySchema :: schema where
  "DeploymentDuplicateBodySchema =
     S_object [Optional ''name'' (text_from 1), Optional ''market'' (text_from 1), Optional ''autostart'' S_boolean]"

definition DeploymentDuplicateSchema :: route_schema where
  "DeploymentDuplicateSchema = deployment_schema (Some (DeploymentDuplicateBodySchema)) [
     (200, replies ''Deployment''),
     (401, unauthorized),
     (404, replies ''Error''),
     (500, replies ''Error'')]"

definition DeploymentCreateRevisionSchema :: route_schema where
  "DeploymentCreateRevisionSchema = deployment_schema (Some (registered ''JobDefinition'')) [
     (200, Some (S_object [
       Required ''active_revision'' (S_integer (Some 1) None), Required ''endpoints'' (S_array 0 EndpointSchema),
       Required ''revisions'' (S_array 0 RevisionSchema), Required ''updated_at'' S_date_time])),
     (401, unauthorized),
     (404, replies ''Error''),
     (500, replies ''Error'')]"

section \<open>Running\<close>

definition DeploymentStartSchema :: route_schema where
  "DeploymentStartSchema = deployment_schema None [
     (200, Some (S_object [Required ''status'' (S_literal (J_str (status_name STARTING))), Required ''updated_at'' S_date_time])),
     (401, unauthorized),
     (404, replies ''Error''),
     (500, replies ''Error'')]"

definition DeploymentStopSchema :: route_schema where
  "DeploymentStopSchema = deployment_schema None [
     (200, Some (S_object [Required ''status'' (S_literal (J_str (status_name STOPPING))), Required ''updated_at'' S_date_time])),
     (401, unauthorized),
     (404, replies ''Error''),
     (500, replies ''Error'')]"

definition DeploymentArchiveSchema :: route_schema where
  "DeploymentArchiveSchema = deployment_schema None [
     (200, Some (S_object [Required ''status'' (S_literal (J_str (status_name ARCHIVED))), Required ''updated_at'' S_date_time])),
     (401, unauthorized),
     (404, replies ''Error''),
     (500, replies ''Error'')]"

definition DeploymentDeleteSchema :: route_schema where
  "DeploymentDeleteSchema = deployment_schema None [
     (204, None),
     (401, unauthorized),
     (404, replies ''Error''),
     (500, replies ''Error'')]"

definition DeploymentAddSshKeysSchema :: route_schema where
  "DeploymentAddSshKeysSchema = deployment_schema (Some (SshKeysBody)) [
     (200, Some SshKeysResultSchema),
     (400, replies ''Error''),
     (401, replies ''Error''),
     (404, replies ''Error''),
     (500, replies ''Error'')]"

definition DeploymentRevokeSshKeysSchema :: route_schema where
  "DeploymentRevokeSshKeysSchema = deployment_schema (Some (SshKeysBody)) [
     (200, Some SshKeysResultSchema),
     (400, replies ''Error''),
     (401, replies ''Error''),
     (404, replies ''Error''),
     (500, replies ''Error'')]"

section \<open>Updating\<close>

definition DeploymentUpdateNameSchema :: route_schema where
  "DeploymentUpdateNameSchema = deployment_schema (Some (S_object [Required ''name'' (text_from 1)])) [
     (200, Some (S_object [Required ''name'' any_string, Required ''updated_at'' S_date_time])),
     (401, unauthorized),
     (404, replies ''Error''),
     (500, replies ''Error'')]"

definition DeploymentUpdateActiveRevisionSchema :: route_schema where
  "DeploymentUpdateActiveRevisionSchema = deployment_schema (Some (S_object [Required ''active_revision'' (number_from 1)])) [
     (200, Some (S_object [
       Required ''active_revision'' any_number, Required ''endpoints'' (S_array 0 (registered ''Endpoint'')), Required ''updated_at'' any_string])),
     (400, replies ''Error''),
     (404, replies ''Error''),
     (500, replies ''Error'')]"

definition DeploymentUpdateMarketSchema :: route_schema where
  "DeploymentUpdateMarketSchema = deployment_schema (Some (S_object [Required ''market'' PublicKeySchema])) [
     (200, Some (S_object [Required ''market'' PublicKeySchema, Required ''updated_at'' S_date_time])),
     (401, unauthorized),
     (404, replies ''Error''),
     (500, replies ''Error'')]"

definition DeploymentUpdateReplicaCountSchema :: route_schema where
  "DeploymentUpdateReplicaCountSchema = deployment_schema (Some (S_object [Required ''replicas'' (S_number (Some 0) (Some 100))])) [
     (200, Some (S_object [Required ''replicas'' (number_from 0), Required ''updated_at'' S_date_time])),
     (401, unauthorized),
     (404, replies ''Error''),
     (500, replies ''Error'')]"

definition DeploymentUpdateRequirementsSchema :: route_schema where
  "DeploymentUpdateRequirementsSchema = deployment_schema (Some (S_object [Required ''requirements'' (S_union [RequirementsSchema, S_null]), Optional ''market'' (S_union [PublicKeySchema, S_null])])) [
     (200, Some (S_object [
       Required ''requirements'' (S_union [RequirementsSchema, S_null]), Required ''market'' (S_union [PublicKeySchema, S_null]),
       Required ''updated_at'' S_date_time])),
     (401, unauthorized),
     (404, replies ''Error''),
     (500, replies ''Error'')]"

definition DeploymentUpdateScheduleSchema :: route_schema where
  "DeploymentUpdateScheduleSchema = deployment_schema (Some (S_object [Required ''schedule'' DeploymentScheduleSchema])) [
     (200, Some (S_object [Required ''schedule'' DeploymentScheduleSchema, Required ''updated_at'' any_string])),
     (400, replies ''Error''),
     (404, replies ''Error''),
     (500, replies ''Error'')]"

definition DeploymentUpdateTimeoutSchema :: route_schema where
  "DeploymentUpdateTimeoutSchema = deployment_schema (Some (S_object [Required ''timeout'' (number_from 60)])) [
     (200, Some (S_object [Required ''timeout'' any_number, Required ''updated_at'' any_string])),
     (401, unauthorized),
     (404, replies ''Error''),
     (500, replies ''Error'')]"

definition DeploymentUpdateStartupTimeoutSchema :: route_schema where
  "DeploymentUpdateStartupTimeoutSchema = deployment_schema (Some (S_object [Required ''startup_timeout'' (number_from 1)])) [
     (200, Some (S_object [Required ''startup_timeout'' any_number, Required ''updated_at'' any_string])),
     (400, replies ''Error''),
     (401, unauthorized),
     (404, replies ''Error''),
     (500, replies ''Error'')]"

section \<open>Vaults, jobs, webhooks\<close>

definition CreateSharedVaultSchema :: route_schema where
  "CreateSharedVaultSchema = \<lparr>sc_headers = Some (registered ''Headers''), sc_params = None,
     sc_query = None, sc_body = None,
     sc_response = [(200, replies ''Vault''), (401, unauthorized), (500, replies ''Error'')]\<rparr>"

definition VaultWithdrawSchema :: route_schema where
  "VaultWithdrawSchema = \<lparr>sc_headers = Some (registered ''Headers''), sc_params = key_params [''vault''],
     sc_query = None, sc_body = Some (S_object [Optional ''SOL'' (number_from 0), Optional ''NOS'' (number_from 0)]),
     sc_response = [(200, Some (S_object [Required ''transaction'' any_string])), (400, replies ''Error''), (401, unauthorized), (404, replies ''Error''), (500, replies ''Error'')]\<rparr>"

definition JobResultPostHandlerSchema :: route_schema where
  "JobResultPostHandlerSchema = \<lparr>sc_headers = Some (registered ''HostHeaders''), sc_params = None,
     sc_query = None, sc_body = replies ''JobResults'',
     sc_response = [(200, Some (S_object [Required ''message'' (S_literal (J_str ''Success''))])), (401, unauthorized), (500, replies ''Error'')]\<rparr>"

definition ReservationWebhookSchema :: route_schema where
  "ReservationWebhookSchema = \<lparr>sc_headers = None, sc_params = None,
     sc_query = None, sc_body = Some (S_object [
       Required ''key'' (S_string 1 (Some 128) (\<lambda>_. True)),
       Required ''nodes'' (S_array 0 (S_object [Required ''nodeAddress'' any_string, Required ''market'' any_string])),
       Required ''holdExpiresAt'' S_date_time]),
     sc_response = [(200, Some (S_object [Required ''accepted'' S_boolean])), (401, unauthorized), (500, replies ''Error'')]\<rparr>"

section \<open>The schema of a route\<close>

fun schema_of :: "handler \<Rightarrow> route_schema" where
  "schema_of DeploymentsHandler = DeploymentsHandlerSchema"
| "schema_of GetDeploymentByIdHandler = DeploymentByIdSchema"
| "schema_of DeploymentGetScheduledTasksHandler = GetDeploymentScheduledTasksSchema"
| "schema_of DeploymentGetHeaderHandler = GetDeploymentHeaderSchema"
| "schema_of DeploymentGetJobHeadersHandler = GetDeploymentJobHeadersSchema"
| "schema_of DeploymentJobByIdHandler = DeploymentJobByIdSchema"
| "schema_of GetDeploymentJobsHandler = GetDeploymentJobsSchema"
| "schema_of GetDeploymentRevisionsHandler = GetDeploymentRevisionsSchema"
| "schema_of GetDeploymentEventsHandler = GetDeploymentEventsSchema"
| "schema_of StreamDeploymentEventsHandler = StreamDeploymentEventsSchema"
| "schema_of GetDeploymentSshKeysHandler = GetDeploymentSshKeysSchema"
| "schema_of DeploymentCreateHandler = DeploymentCreateSchema"
| "schema_of DeploymentValidateHandler = DeploymentValidateSchema"
| "schema_of DeploymentCreateRevisionHandler = DeploymentCreateRevisionSchema"
| "schema_of DeploymentAddSshKeysHandler = DeploymentAddSshKeysSchema"
| "schema_of DeploymentDuplicateHandler = DeploymentDuplicateSchema"
| "schema_of DeploymentStartHandler = DeploymentStartSchema"
| "schema_of DeploymentStopHandler = DeploymentStopSchema"
| "schema_of DeploymentDeleteHandler = DeploymentDeleteSchema"
| "schema_of DeploymentRevokeSshKeysHandler = DeploymentRevokeSshKeysSchema"
| "schema_of DeploymentArchiveHandler = DeploymentArchiveSchema"
| "schema_of DeploymentUpdateNameHandler = DeploymentUpdateNameSchema"
| "schema_of DeploymentUpdateActiveRevisionHandler = DeploymentUpdateActiveRevisionSchema"
| "schema_of DeploymentUpdateMarketHandler = DeploymentUpdateMarketSchema"
| "schema_of DeploymentUpdateReplicaCountHandler = DeploymentUpdateReplicaCountSchema"
| "schema_of DeploymentUpdateRequirementsHandler = DeploymentUpdateRequirementsSchema"
| "schema_of DeploymentUpdateScheduleHandler = DeploymentUpdateScheduleSchema"
| "schema_of DeploymentUpdateTimeoutHandler = DeploymentUpdateTimeoutSchema"
| "schema_of DeploymentUpdateStartupTimeoutHandler = DeploymentUpdateStartupTimeoutSchema"
| "schema_of VaultsHandler = VaultsHandlerSchema"
| "schema_of CreateSharedVaultHandler = CreateSharedVaultSchema"
| "schema_of VaultWithdrawHandler = VaultWithdrawSchema"
| "schema_of JobDefinitionHandler = JobDefinitionHandlerSchema"
| "schema_of JobResultsPostHandler = JobResultPostHandlerSchema"
| "schema_of GetStatsHandler = StatsHandlerSchema"
| "schema_of ReservationWebhookHandler = ReservationWebhookSchema"

lemmas schema_defs = deployment_schema_def key_params_def registered_def addSchemas_def replies_def unauthorized_def
  DeploymentsHandlerSchema_def
  DeploymentByIdSchema_def
  GetDeploymentScheduledTasksSchema_def
  GetDeploymentHeaderSchema_def
  GetDeploymentJobHeadersSchema_def
  DeploymentJobByIdSchema_def
  GetDeploymentJobsSchema_def
  GetDeploymentRevisionsSchema_def
  GetDeploymentEventsSchema_def
  StreamDeploymentEventsSchema_def
  GetDeploymentSshKeysSchema_def
  DeploymentCreateSchema_def
  DeploymentValidateSchema_def
  DeploymentCreateRevisionSchema_def
  DeploymentAddSshKeysSchema_def
  DeploymentDuplicateSchema_def
  DeploymentStartSchema_def
  DeploymentStopSchema_def
  DeploymentDeleteSchema_def
  DeploymentRevokeSshKeysSchema_def
  DeploymentArchiveSchema_def
  DeploymentUpdateNameSchema_def
  DeploymentUpdateActiveRevisionSchema_def
  DeploymentUpdateMarketSchema_def
  DeploymentUpdateReplicaCountSchema_def
  DeploymentUpdateRequirementsSchema_def
  DeploymentUpdateScheduleSchema_def
  DeploymentUpdateTimeoutSchema_def
  DeploymentUpdateStartupTimeoutSchema_def
  VaultsHandlerSchema_def
  CreateSharedVaultSchema_def
  VaultWithdrawSchema_def
  JobDefinitionHandlerSchema_def
  JobResultPostHandlerSchema_def
  StatsHandlerSchema_def
  ReservationWebhookSchema_def

end
