(* ===== verification/Schema_Safety.thy ===== *)
theory Schema_Safety
  imports Route_Schemas Route_Results Stream_Frames
begin

text \<open>
  What the schemas promise of the program: a body that is let in is a request the handlers can
  serve, with its bounds; every status a request is answered with is one its schema declares; and every
  deployment the API stores is one its own schema lets out again.
\<close>

section \<open>From a body to a request\<close>

definition body_member :: "json \<Rightarrow> string \<Rightarrow> json option" where
  "body_member j k = (case j of J_obj members \<Rightarrow> property_of members k | _ \<Rightarrow> None)"

definition text_member :: "json \<Rightarrow> string \<Rightarrow> string option" where
  "text_member j k = (case body_member j k of Some (J_str t) \<Rightarrow> Some t | _ \<Rightarrow> None)"

text \<open>The model's numbers are whole: a number that is not has no reading here.\<close>

definition number_member :: "json \<Rightarrow> string \<Rightarrow> int option" where
  "number_member j k = (case body_member j k of Some (J_num n) \<Rightarrow> if whole n then Some \<lfloor>n\<rfloor> else None | _ \<Rightarrow> None)"

definition flag_member :: "json \<Rightarrow> string \<Rightarrow> bool option" where
  "flag_member j k = (case body_member j k of Some J_true \<Rightarrow> Some True | Some J_false \<Rightarrow> Some False | _ \<Rightarrow> None)"

fun text_of :: "json \<Rightarrow> string option" where
  "text_of (J_str t) = Some t"
| "text_of _ = None"

definition texts_member :: "json \<Rightarrow> string \<Rightarrow> string list option" where
  "texts_member j k = (case body_member j k of Some (J_arr js) \<Rightarrow> those (map text_of js) | _ \<Rightarrow> None)"

definition requirements_member :: "schema_kit \<Rightarrow> json \<Rightarrow> string option" where
  "requirements_member kit j = (case body_member j ''requirements'' of
     Some (J_obj members) \<Rightarrow> Some (sk_text kit (J_obj members)) | _ \<Rightarrow> None)"

text \<open>What each handler reads of its body.\<close>

definition request_of :: "schema_kit \<Rightarrow> handler \<Rightarrow> json \<Rightarrow> request option" where
  "request_of kit h j = (case h of
     DeploymentUpdateNameHandler \<Rightarrow> map_option Update_name (text_member j ''name'')
   | DeploymentUpdateReplicaCountHandler \<Rightarrow> map_option (\<lambda>n. Update_replicas (nat n)) (number_member j ''replicas'')
   | DeploymentUpdateTimeoutHandler \<Rightarrow> map_option Update_timeout (number_member j ''timeout'')
   | DeploymentUpdateStartupTimeoutHandler \<Rightarrow> map_option Update_startup_timeout (number_member j ''startup_timeout'')
   | DeploymentUpdateMarketHandler \<Rightarrow> map_option Update_market (text_member j ''market'')
   | DeploymentUpdateScheduleHandler \<Rightarrow> map_option Update_schedule (text_member j ''schedule'')
   | DeploymentUpdateActiveRevisionHandler \<Rightarrow> map_option (\<lambda>n. Activate_revision (nat n)) (number_member j ''active_revision'')
   | DeploymentUpdateRequirementsHandler \<Rightarrow>
       Some (Update_requirements (requirements_member kit j) (text_member j ''market''))
   | DeploymentDuplicateHandler \<Rightarrow>
       Some (Duplicate (text_member j ''name'') (text_member j ''market'') (nullish (flag_member j ''autostart'') False))
   | DeploymentAddSshKeysHandler \<Rightarrow> map_option Add_ssh_keys (texts_member j ''public_keys'')
   | DeploymentRevokeSshKeysHandler \<Rightarrow> map_option Revoke_ssh_keys (texts_member j ''public_keys'')
   | _ \<Rightarrow> None)"

text \<open>The bounds a validated request is in.\<close>

definition requirements_fit :: "schema_kit \<Rightarrow> string option \<Rightarrow> bool" where
  "requirements_fit kit r \<longleftrightarrow> (case r of None \<Rightarrow> True | Some t \<Rightarrow> admits kit RequirementsSchema (sk_json kit t))"

definition market_fits :: "address option \<Rightarrow> bool" where
  "market_fits m \<longleftrightarrow> (case m of None \<Rightarrow> True | Some a \<Rightarrow> public_key a)"

fun request_fits :: "schema_kit \<Rightarrow> request \<Rightarrow> bool" where
  "request_fits kit (Update_replicas n) = (n \<le> 100)"
| "request_fits kit (Update_timeout n) = (60 \<le> n)"
| "request_fits kit (Update_startup_timeout n) = (1 \<le> n)"
| "request_fits kit (Update_name name) = (name \<noteq> [])"
| "request_fits kit (Update_market market) = public_key market"
| "request_fits kit (Update_schedule schedule) = five_fields schedule"
| "request_fits kit (Update_requirements requirements market) = (requirements_fit kit requirements \<and> market_fits market)"
| "request_fits kit (Activate_revision n) = (1 \<le> n)"
| "request_fits kit (Duplicate name market autostart) = (name \<noteq> Some [] \<and> market \<noteq> Some [])"
| "request_fits kit (Add_ssh_keys keys) = list_all (\<lambda>k. k \<noteq> []) keys"
| "request_fits kit (Revoke_ssh_keys keys) = list_all (\<lambda>k. k \<noteq> []) keys"
| "request_fits kit r = True"

definition whole_members :: "json \<Rightarrow> bool" where
  "whole_members j = (case j of
     J_obj members \<Rightarrow> list_all (\<lambda>m. case snd m of J_num n \<Rightarrow> whole n | _ \<Rightarrow> True) members | _ \<Rightarrow> True)"

lemma whole_member:
  assumes "whole_members (J_obj ms)" "property_of ms k = Some (J_num n)" shows "whole n"
proof -
  have "(k, J_num n) \<in> set ms" using map_of_SomeD [OF assms(2) [unfolded property_of_def]] by simp
  then show ?thesis using assms(1) by (fastforce simp: whole_members_def list_all_iff)
qed

lemma those_texts:
  assumes "list_all (admits kit (text_from 1)) js"
  shows "\<exists>ts. those (map text_of js) = Some ts \<and> list_all (\<lambda>k. k \<noteq> []) ts"
  using assms by (induction js) (auto simp: Suc_le_eq)

lemma whole_bounds:
  assumes "whole n" "of_nat k \<le> n" shows "int k \<le> \<lfloor>n\<rfloor>"
  using assms(2) by (simp add: le_floor_iff)

definition keeps_requirements :: "schema_kit \<Rightarrow> json \<Rightarrow> bool" where
  "keeps_requirements kit j \<longleftrightarrow> (case body_member j ''requirements'' of
     None \<Rightarrow> True | Some q \<Rightarrow> sk_json kit (sk_text kit q) = q)"

definition takes_body :: "handler set" where
  "takes_body = {DeploymentUpdateNameHandler, DeploymentUpdateReplicaCountHandler, DeploymentUpdateTimeoutHandler,
     DeploymentUpdateStartupTimeoutHandler, DeploymentUpdateMarketHandler, DeploymentUpdateScheduleHandler,
     DeploymentUpdateActiveRevisionHandler, DeploymentUpdateRequirementsHandler, DeploymentDuplicateHandler,
     DeploymentAddSshKeysHandler, DeploymentRevokeSshKeysHandler}"

lemma market_or_null: "admits kit (S_union [PublicKeySchema, S_null]) j \<longleftrightarrow> j = J_null \<or> (\<exists>t. j = J_str t \<and> public_key t)"
  by (auto simp: PublicKeySchema_def public_key_def)

lemma admits_public_key [simp]: "admits kit PublicKeySchema j \<longleftrightarrow> (\<exists>t. j = J_str t \<and> public_key t)"
  by (auto simp: PublicKeySchema_def public_key_def)

lemma requirements_or_null:
  "admits kit (S_union [RequirementsSchema, S_null]) j \<longleftrightarrow>
     j = J_null \<or> (\<exists>ms. j = J_obj ms) \<and> admits kit RequirementsSchema j"
  by (cases j) (simp_all add: RequirementsSchema_def)

lemmas member_defs = body_member_def text_member_def number_member_def flag_member_def texts_member_def requirements_member_def


definition example_schema_kit :: schema_kit where
  "example_schema_kit = \<lparr>sk_extern = (\<lambda>_ _. True), sk_date_time = iso_shape, sk_definition = (\<lambda>_. example_definition),
     sk_text = (\<lambda>_. []), sk_json = (\<lambda>_. J_obj [(''vram_total_mb'', J_num 80000)])\<rparr>"


section \<open>Answers\<close>

definition reply_status :: "route_reply \<Rightarrow> nat" where
  "reply_status reply = (case reply of Failed status _ \<Rightarrow> status | Deleted \<Rightarrow> 204 | _ \<Rightarrow> 200)"

lemma reply_status_simps [simp]:
  "reply_status (Failed n m) = n" "reply_status Deleted = 204" "reply_status (Status_reply st t) = 200"
  "reply_status (Replicas_reply k t) = 200" "reply_status (Timeout_reply i t) = 200"
  "reply_status (Startup_timeout_reply i t) = 200" "reply_status (Name_reply x t) = 200"
  "reply_status (Market_reply x t) = 200" "reply_status (Schedule_reply x t) = 200"
  "reply_status (Requirements_reply q y t) = 200" "reply_status (Revision_reply k es t) = 200"
  "reply_status (Deployment_reply d st) = 200" "reply_status (Ssh_reply ks t js) = 200"
  by (simp_all add: reply_status_def)

definition declared :: "handler \<Rightarrow> nat set" where
  "declared h = fst ` set (sc_response (schema_of h))"

lemma declared_of:
  "declared DeploymentStartHandler = {200, 401, 404, 500}" "declared DeploymentStopHandler = {200, 401, 404, 500}"
  "declared DeploymentArchiveHandler = {200, 401, 404, 500}" "declared DeploymentDeleteHandler = {204, 401, 404, 500}"
  "declared DeploymentUpdateReplicaCountHandler = {200, 401, 404, 500}"
  "declared DeploymentUpdateTimeoutHandler = {200, 401, 404, 500}"
  "declared DeploymentUpdateStartupTimeoutHandler = {200, 400, 401, 404, 500}"
  "declared DeploymentUpdateNameHandler = {200, 401, 404, 500}" "declared DeploymentUpdateMarketHandler = {200, 401, 404, 500}"
  "declared DeploymentUpdateScheduleHandler = {200, 400, 404, 500}"
  "declared DeploymentUpdateRequirementsHandler = {200, 401, 404, 500}"
  "declared DeploymentUpdateActiveRevisionHandler = {200, 400, 404, 500}"
  "declared DeploymentCreateRevisionHandler = {200, 401, 404, 500}"
  "declared DeploymentDuplicateHandler = {200, 401, 404, 500}"
  "declared DeploymentAddSshKeysHandler = {200, 400, 401, 404, 500}"
  "declared DeploymentRevokeSshKeysHandler = {200, 400, 401, 404, 500}"
  by (simp_all add: declared_def schema_defs)

lemma commit_status:
  "{200, 400, 500} \<subseteq> D \<Longrightarrow> reply_status (fst (commitDeploymentSshKeys env keys delta operation event d owner s)) \<in> D"
  unfolding commitDeploymentSshKeys_def Let_def
  by (auto split: sum.split option.split)

lemma ssh_status:
  assumes "{200, 400, 500} \<subseteq> D"
  shows "reply_status (fst (deploymentAddSshKeys env keys d userId s)) \<in> D"
    "reply_status (fst (deploymentRevokeSshKeys env keys d userId s)) \<in> D"
  unfolding deploymentAddSshKeys_def deploymentRevokeSshKeys_def Let_def
  using assms commit_status [OF assms] by (simp_all split: option.split)

lemma handle_status: "reply_status (fst (handle env r d userId s)) \<in> declared (handler_of r)"
proof (cases r)
  case (Activate_revision n)
  then show ?thesis
    unfolding Activate_revision handle.simps deploymentUpdateActiveRevision_def Let_def
    by (auto simp: handler_of_def declared_of split: option.split)
next
  case (Create_revision jd)
  then show ?thesis
    unfolding Create_revision handle.simps deploymentCreateRevision_def Let_def
    by (auto simp: handler_of_def declared_of split: option.split)
next
  case (Duplicate name market autostart)
  then show ?thesis
    unfolding Duplicate handle.simps deploymentDuplicate_def Let_def
    by (auto simp: handler_of_def declared_of split: option.split)
next
  case (Add_ssh_keys keys)
  then show ?thesis using ssh_status(1) [of "declared DeploymentAddSshKeysHandler" env keys d userId s]
    by (simp add: handler_of_def declared_of)
next
  case (Revoke_ssh_keys keys)
  then show ?thesis using ssh_status(2) [of "declared DeploymentRevokeSshKeysHandler" env keys d userId s]
    by (simp add: handler_of_def declared_of)
qed (simp_all add: handler_of_def declared_of deploymentStart_def deploymentStop_def deploymentArchive_def
  deploymentDelete_def deploymentUpdateReplicaCount_def deploymentUpdateTimeout_def deploymentUpdateStartupTimeout_def
  deploymentUpdateName_def deploymentUpdateMarket_def deploymentUpdateSchedule_def deploymentUpdateRequirements_def Let_def)


section \<open>Deployments as they are sent\<close>

definition json_bool :: "bool \<Rightarrow> json" where
  "json_bool b = (if b then J_true else J_false)"

definition json_text_or_null :: "string option \<Rightarrow> json" where
  "json_text_or_null t = (case t of Some x \<Rightarrow> J_str x | None \<Rightarrow> J_null)"

definition endpoint_json :: "endpoint \<Rightarrow> json" where
  "endpoint_json p = J_obj [
     (''opId'', J_str (p_opId p)),
     (''port'', case p_port p of Port_number n \<Rightarrow> J_num (of_nat n) | Port_text t \<Rightarrow> J_str t),
     (''url'', J_str (p_url p)), (''online'', json_bool (p_online p))]"

definition optional_number :: "string \<Rightarrow> int option \<Rightarrow> (string \<times> json) list" where
  "optional_number k n = (case n of Some i \<Rightarrow> [(k, J_num (of_int i))] | None \<Rightarrow> [])"

definition deployment_json :: "schema_kit \<Rightarrow> nat \<Rightarrow> deployment_document \<Rightarrow> json" where
  "deployment_json kit running d = J_obj ([
     (''id'', J_str (d_id d)), (''name'', J_str (d_name d)), (''vault'', J_str (d_vault d)),
     (''market'', json_text_or_null (d_market d)),
     (''requirements'', case d_requirements d of Some t \<Rightarrow> sk_json kit t | None \<Rightarrow> J_null),
     (''owner'', J_str (d_owner d)), (''status'', J_str (status_name (d_status d))),
     (''replicas'', J_num (of_nat (d_replicas d))), (''timeout'', J_num (of_int (d_timeout d))),
     (''endpoints'', J_arr (map endpoint_json (d_endpoints d))), (''confidential'', json_bool (d_confidential d)),
     (''active_revision'', J_num (of_nat (d_active_revision d))), (''active_jobs'', J_num (of_nat running)),
     (''created_at'', J_str (toISOString (d_created_at d))), (''updated_at'', J_str (toISOString (d_updated_at d))),
     (''strategy'', J_str (strategy_name (d_strategy d)))] @
     (case d_schedule d of Some t \<Rightarrow> [(''schedule'', J_str t)] | None \<Rightarrow> []) @
     optional_number ''rotation_time'' (d_rotation_time d) @ optional_number ''startup_timeout'' (d_startup_timeout d))"

definition conforms :: "schema_kit \<Rightarrow> deployment_document \<Rightarrow> bool" where
  "conforms kit d = admits kit DeploymentSchema (deployment_json kit 0 d)"

text \<open>What it comes to.\<close>

definition strategy_fits :: "deployment_document \<Rightarrow> bool" where
  "strategy_fits d \<longleftrightarrow> (case d_strategy d of
     SCHEDULED \<Rightarrow> (case d_schedule d of Some t \<Rightarrow> five_fields t | None \<Rightarrow> False)
   | INFINITE \<Rightarrow> 60 \<le> d_timeout d \<and> d_rotation_time d \<noteq> None \<and>
       (case d_startup_timeout d of Some n \<Rightarrow> 1 \<le> n | None \<Rightarrow> True)
   | _ \<Rightarrow> True)"

lemma endpoint_json_admitted: "admits kit EndpointSchema (endpoint_json p)"
  by (simp add: EndpointSchema_def endpoint_json_def property_of_def json_bool_def split: port.split)

lemma requirements_fit_json:
  "requirements_fit kit r \<Longrightarrow>
   admits kit (S_union [RequirementsSchema, S_null]) (case r of Some t \<Rightarrow> sk_json kit t | None \<Rightarrow> J_null)"
  by (auto simp: requirements_fit_def split: option.splits)

lemma market_fits_json: "admits kit (S_union [PublicKeySchema, S_null]) (json_text_or_null m) \<longleftrightarrow> market_fits m"
  by (simp add: market_fits_def json_text_or_null_def split: option.split)

lemma status_literal: "admits kit DeploymentStatusSchema (J_str (status_name st))"
  unfolding DeploymentStatusSchema_def by (cases st) simp_all

definition sent :: "schema_kit \<Rightarrow> nat \<Rightarrow> deployment_document \<Rightarrow> (string \<times> json) list" where
  "sent kit n d = (case deployment_json kit n d of J_obj ms \<Rightarrow> ms | _ \<Rightarrow> [])"

lemma sent_members:
  "deployment_json kit n d = J_obj (sent kit n d)"
  "property_of (sent kit n d) ''id'' = Some (J_str (d_id d))"
  "property_of (sent kit n d) ''name'' = Some (J_str (d_name d))"
  "property_of (sent kit n d) ''vault'' = Some (J_str (d_vault d))"
  "property_of (sent kit n d) ''market'' = Some (json_text_or_null (d_market d))"
  "property_of (sent kit n d) ''requirements'' = Some (case d_requirements d of Some t \<Rightarrow> sk_json kit t | None \<Rightarrow> J_null)"
  "property_of (sent kit n d) ''owner'' = Some (J_str (d_owner d))"
  "property_of (sent kit n d) ''status'' = Some (J_str (status_name (d_status d)))"
  "property_of (sent kit n d) ''replicas'' = Some (J_num (of_nat (d_replicas d)))"
  "property_of (sent kit n d) ''timeout'' = Some (J_num (of_int (d_timeout d)))"
  "property_of (sent kit n d) ''endpoints'' = Some (J_arr (map endpoint_json (d_endpoints d)))"
  "property_of (sent kit n d) ''confidential'' = Some (json_bool (d_confidential d))"
  "property_of (sent kit n d) ''active_revision'' = Some (J_num (of_nat (d_active_revision d)))"
  "property_of (sent kit n d) ''active_jobs'' = Some (J_num (of_nat n))"
  "property_of (sent kit n d) ''created_at'' = Some (J_str (toISOString (d_created_at d)))"
  "property_of (sent kit n d) ''updated_at'' = Some (J_str (toISOString (d_updated_at d)))"
  "property_of (sent kit n d) ''strategy'' = Some (J_str (strategy_name (d_strategy d)))"
  "property_of (sent kit n d) ''schedule'' = map_option J_str (d_schedule d)"
  "property_of (sent kit n d) ''rotation_time'' = map_option (\<lambda>i. J_num (of_int i)) (d_rotation_time d)"
  "property_of (sent kit n d) ''startup_timeout'' = map_option (\<lambda>i. J_num (of_int i)) (d_startup_timeout d)"
  by (cases "d_schedule d"; cases "d_rotation_time d"; cases "d_startup_timeout d";
      simp add: sent_def deployment_json_def property_of_def optional_number_def map_add_def)+

lemma conforms_iff:
  "admits kit DeploymentSchema (deployment_json kit n d) \<longleftrightarrow>
     public_key (d_vault d) \<and> public_key (d_owner d) \<and> market_fits (d_market d) \<and>
     admits kit (S_union [RequirementsSchema, S_null]) (case d_requirements d of Some t \<Rightarrow> sk_json kit t | None \<Rightarrow> J_null) \<and>
     1 \<le> d_timeout d \<and> strategy_fits d \<and>
     sk_date_time kit (toISOString (d_created_at d)) \<and> sk_date_time kit (toISOString (d_updated_at d))"
proof -
  have endpoints: "list_all (admits kit EndpointSchema) (map endpoint_json ps)" for ps
    by (simp add: list.pred_map list_all_iff endpoint_json_admitted)
  have num: "60 \<le> (of_int i :: rat) \<longleftrightarrow> 60 \<le> i" "1 \<le> (of_int i :: rat) \<longleftrightarrow> 1 \<le> i" for i
    by (metis of_int_le_iff of_int_numeral, metis of_int_le_iff of_int_1)
  have strategy: "admits kit (S_union [
       S_object [Required ''strategy'' (literals (map strategy_name [SIMPLE, SIMPLE_EXTEND]))],
       S_object [Required ''strategy'' (S_literal (J_str (strategy_name SCHEDULED))), Required ''schedule'' (S_string 0 None five_fields)],
       S_object [Required ''timeout'' (number_from 60), Required ''strategy'' (S_literal (J_str (strategy_name INFINITE))),
         Required ''rotation_time'' any_number, Optional ''startup_timeout'' (number_from 1)]]) (J_obj (sent kit n d)) \<longleftrightarrow> strategy_fits d"
    by (cases "d_strategy d"; cases "d_schedule d"; cases "d_rotation_time d"; cases "d_startup_timeout d")
      (simp_all add: strategy_fits_def sent_members num)
  show ?thesis
    unfolding DeploymentSchema_def
    using strategy by (simp add: sent_members endpoints status_literal num json_bool_def market_fits_json
      del: admits.simps(11)) blast
qed

lemma conforms_any_count: "admits kit DeploymentSchema (deployment_json kit n d) \<longleftrightarrow> conforms kit d"
  by (simp add: conforms_def conforms_iff)

section \<open>Every request keeps the deployments sendable\<close>

lemma list_all_update_one:
  assumes "list_all Q c" "\<And>x. x \<in> set c \<Longrightarrow> P x \<Longrightarrow> Q x \<Longrightarrow> Q (f x)" shows "list_all Q (update_one P f c)"
  using assms by (induction c) auto

text \<open>The writes of the routes.\<close>

lemma conforms_writes:
  assumes d: "conforms kit d" and t: "sk_date_time kit (toISOString t)"
  shows "conforms kit (d\<lparr>d_status := st, d_updated_at := t\<rparr>)"
    "conforms kit (startDeploymentUpdate t d)"
    "conforms kit (d\<lparr>d_replicas := n, d_updated_at := t\<rparr>)"
    "60 \<le> m \<Longrightarrow> conforms kit (d\<lparr>d_timeout := m, d_updated_at := t\<rparr>)"
    "1 \<le> m \<Longrightarrow> conforms kit (d\<lparr>d_startup_timeout := Some m, d_updated_at := t\<rparr>)"
    "conforms kit (d\<lparr>d_name := x, d_updated_at := t\<rparr>)"
    "public_key x \<Longrightarrow> conforms kit (d\<lparr>d_market := Some x, d_updated_at := t\<rparr>)"
    "five_fields x \<Longrightarrow> conforms kit (d\<lparr>d_schedule := Some x, d_updated_at := t\<rparr>)"
    "requirements_fit kit q \<Longrightarrow> market_fits y \<Longrightarrow> conforms kit (d\<lparr>d_requirements := q, d_market := y, d_updated_at := t\<rparr>)"
    "conforms kit (d\<lparr>d_active_revision := n, d_endpoints := ps, d_updated_at := t\<rparr>)"
    "conforms kit (d\<lparr>d_active_revision := n, d_endpoints := ps, d_updated_at := t, d_ssh_public_keys := ks\<rparr>)"
    "conforms kit (d\<lparr>d_ssh_public_keys := ks, d_updated_at := t\<rparr>)"
  using d t requirements_fit_json [of kit q] unfolding conforms_def conforms_iff
  by (simp_all add: strategy_fits_def startDeploymentUpdate_def market_fits_def split: deployment_strategy.splits)

text \<open>A market is stored without white space around it.\<close>

definition trimmed :: "address option \<Rightarrow> bool" where
  "trimmed m \<longleftrightarrow> (case m of None \<Rightarrow> True | Some x \<Rightarrow> trim x = x)"

definition sendable :: "schema_kit \<Rightarrow> deployment_document \<Rightarrow> bool" where
  "sendable kit d \<longleftrightarrow> conforms kit d \<and> trimmed (d_market d)"

lemma dropWhile_rev_dropWhile:
  "dropWhile P (rev (dropWhile P (rev (dropWhile P xs)))) = rev (dropWhile P (rev (dropWhile P xs)))"
proof (cases "dropWhile P xs")
  case (Cons y ys)
  then have y: "\<not> P y" by (metis dropWhile_eq_Cons_conv)
  then have "dropWhile P (rev ys @ [y]) = dropWhile P (rev ys) @ [y]" by (simp add: dropWhile_append)
  then show ?thesis using y by (simp add: Cons)
next
  case Nil
  then show ?thesis unfolding Nil by simp
qed

lemma trim_trim [simp]: "trim (trim x) = trim x"
  unfolding trim_def by (simp add: dropWhile_rev_dropWhile)

lemma trimmed_trim [simp]: "trimmed (map_option trim m)" "trimmed (Some (trim x))" "trimmed None"
  by (simp_all add: trimmed_def split: option.split)

lemma trimmed_market: "trimmed m \<Longrightarrow> map_option trim m = m"
  by (simp add: trimmed_def split: option.splits)

lemma sendable_writes:
  assumes d: "sendable kit d" and t: "sk_date_time kit (toISOString t)"
  shows "sendable kit (d\<lparr>d_status := st, d_updated_at := t\<rparr>)"
    "sendable kit (startDeploymentUpdate t d)"
    "sendable kit (d\<lparr>d_replicas := n, d_updated_at := t\<rparr>)"
    "60 \<le> m \<Longrightarrow> sendable kit (d\<lparr>d_timeout := m, d_updated_at := t\<rparr>)"
    "1 \<le> m \<Longrightarrow> sendable kit (d\<lparr>d_startup_timeout := Some m, d_updated_at := t\<rparr>)"
    "sendable kit (d\<lparr>d_name := x, d_updated_at := t\<rparr>)"
    "public_key (trim x) \<Longrightarrow> sendable kit (d\<lparr>d_market := Some (trim x), d_updated_at := t\<rparr>)"
    "five_fields x \<Longrightarrow> sendable kit (d\<lparr>d_schedule := Some x, d_updated_at := t\<rparr>)"
    "requirements_fit kit q \<Longrightarrow> market_fits (map_option trim y) \<Longrightarrow>
      sendable kit (d\<lparr>d_requirements := q, d_market := map_option trim y, d_updated_at := t\<rparr>)"
    "sendable kit (d\<lparr>d_active_revision := n, d_endpoints := ps, d_updated_at := t\<rparr>)"
    "sendable kit (d\<lparr>d_active_revision := n, d_endpoints := ps, d_updated_at := t, d_ssh_public_keys := ks\<rparr>)"
    "sendable kit (d\<lparr>d_ssh_public_keys := ks, d_updated_at := t\<rparr>)"
  using d conforms_writes [OF _ t] unfolding sendable_def
  by (simp_all add: startDeploymentUpdate_def)

section \<open>Copies and new deployments\<close>

text \<open>What creates a deployment that can be sent.\<close>

definition body_sendable :: "schema_kit \<Rightarrow> create_body \<Rightarrow> bool" where
  "body_sendable kit b \<longleftrightarrow> market_fits (map_option trim (cb_market b)) \<and>
     admits kit (S_union [RequirementsSchema, S_null]) (case cb_requirements b of Some t \<Rightarrow> sk_json kit t | None \<Rightarrow> J_null) \<and>
     1 \<le> cb_timeout b \<and>
     (case cb_strategy b of
        SCHEDULED \<Rightarrow> (case cb_schedule b of Some t \<Rightarrow> five_fields t | None \<Rightarrow> True)
      | INFINITE \<Rightarrow> 60 \<le> cb_timeout b \<and> (case cb_startup_timeout b of Some n \<Rightarrow> 1 \<le> n | None \<Rightarrow> True)
      | _ \<Rightarrow> True)"

lemma created_fields:
  assumes "createDeployment rk fresh body vault owner now = Some (d, r)"
  shows "d_market d = map_option trim (cb_market body)" "d_requirements d = cb_requirements body"
    "d_timeout d = cb_timeout body" "d_strategy d = cb_strategy body" "d_created_at d = now" "d_updated_at d = now"
    "cb_strategy body = SCHEDULED \<Longrightarrow> d_schedule d = cb_schedule body \<and> cb_schedule body \<noteq> None"
    "cb_strategy body = INFINITE \<Longrightarrow> d_rotation_time d \<noteq> None \<and> d_startup_timeout d = cb_startup_timeout body"
  using assms unfolding createDeployment_def Let_def
  by (cases "cb_schedule body"; auto split: option.splits prod.splits deployment_strategy.splits if_splits)+

lemma created_sendable:
  assumes "createDeployment rk fresh body vault owner now = Some (d, r)" and body: "body_sendable kit body"
    and keys: "public_key vault" "public_key owner" and now: "sk_date_time kit (toISOString now)"
  shows "sendable kit d"
proof -
  note f = created_fields [OF assms(1)]
  have "d_vault d = vault \<and> d_owner d = owner" using createDeployment_keys [OF assms(1)] by simp
  moreover have "strategy_fits d"
    using body f by (auto simp: strategy_fits_def body_sendable_def split: deployment_strategy.splits option.splits)
  ultimately show ?thesis
    using body keys now by (simp add: sendable_def conforms_def conforms_iff f body_sendable_def)
qed

lemma copied_body_sendable:
  assumes source: "sendable kit d" and market: "market_fits (map_option trim market)"
    and copy: "duplicateDeployment rk fresh d jd name market owner now = Some (d', r)"
  obtains body where "createDeployment rk fresh body (d_vault d) owner now = Some (d', r)" "body_sendable kit body"
proof -
  have "market_fits (map_option trim (or_else market (d_market d)))"
    using market source by (cases market) (simp_all add: sendable_def trimmed_market conforms_def conforms_iff)
  with source show thesis
    by (intro that [OF copy [unfolded duplicateDeployment_def]])
      (auto simp: body_sendable_def sendable_def conforms_def conforms_iff strategy_fits_def
        split: deployment_strategy.splits option.splits)
qed

lemma duplicate_sendable:
  assumes all: "list_all (sendable kit) (db_deployments s)" and source: "sendable kit d" "d_owner d = userId"
    and market: "market_fits (map_option trim market)" and now: "sk_date_time kit (toISOString (re_now env))"
  shows "list_all (sendable kit) (db_deployments (snd (deploymentDuplicate env name market autostart d userId s)))"
proof -
  have keys: "public_key (d_vault d)" "public_key userId"
    using source by (simp_all add: sendable_def conforms_def conforms_iff)
  have new: "sendable kit d'" if "duplicateDeployment (re_kit env) (re_fresh env) d jd n market userId (re_now env) = Some (d', r)" for jd n d' r
    using copied_body_sendable [OF source(1) market that] created_sendable keys now by metis
  show ?thesis
    unfolding deploymentDuplicate_def Let_def
    by (auto simp: all insert_revision_iff insert_deployment_def insert_one_def new sendable_writes now
      intro!: list_all_update_one split: option.split if_splits prod.split)
qed

lemma commit_sendable:
  assumes all: "list_all (sendable kit) (db_deployments s)" and now: "sk_date_time kit (toISOString (re_now env))"
  shows "list_all (sendable kit) (db_deployments (snd (commitDeploymentSshKeys env keys delta operation event d userId s)))"
proof (cases rule: commit_cases [of env keys delta operation event d userId s])
  case (stored s1)
  have "db_deployments s1 = db_deployments s"
    using stored(1) by (auto simp: repin_active_def repin_def split: if_splits option.splits)
  then have "list_all (sendable kit) (db_deployments (store_keys (stored_keys keys) (re_now env) d userId s1))"
    unfolding store_keys_def by (auto simp: all sendable_writes now intro!: list_all_update_one)
  then show ?thesis using stored(2) by (auto simp: insert_event_def)
qed (simp add: all)

text \<open>The markets of a request as the routes store them, where the schema does not say so.\<close>

definition names_market :: "request \<Rightarrow> bool" where
  "names_market r \<longleftrightarrow> market_fits (case r of
     Update_market m \<Rightarrow> Some (trim m) | Update_requirements q m \<Rightarrow> map_option trim m
   | Duplicate name m autostart \<Rightarrow> map_option trim m | _ \<Rightarrow> None)"

lemma handle_sendable:
  assumes all: "list_all (sendable kit) (db_deployments s)" and d: "sendable kit d" "d_owner d = userId"
    and r: "request_fits kit r" "names_market r" and now: "sk_date_time kit (toISOString (re_now env))"
  shows "list_all (sendable kit) (db_deployments (snd (handle env r d userId s)))"
proof (cases r)
  case Delete
  have "list_all Q (delete_one P xs)" if "list_all Q xs" for Q P and xs :: "deployment_document list"
    using that by (induction xs) auto
  then show ?thesis by (simp add: Delete deploymentDelete_def Let_def all)
next
  case (Duplicate name market autostart)
  then show ?thesis using duplicate_sendable [OF all d _ now] r(2) by (simp add: names_market_def)
next
  case (Add_ssh_keys keys)
  then show ?thesis
    using commit_sendable [OF all now] by (auto simp: deploymentAddSshKeys_def Let_def all split: option.split)
next
  case (Revoke_ssh_keys keys)
  then show ?thesis
    using commit_sendable [OF all now] by (auto simp: deploymentRevokeSshKeys_def Let_def all)
next
  case (Activate_revision n)
  show ?thesis unfolding Activate_revision handle.simps deploymentUpdateActiveRevision_def Let_def
    by (auto simp: all repin_def sendable_writes now intro!: list_all_update_one split: option.split)
next
  case (Create_revision jd)
  show ?thesis unfolding Create_revision handle.simps deploymentCreateRevision_def Let_def
    by (auto simp: all insert_revision_iff sendable_writes now intro!: list_all_update_one split: option.split)
next
  case (Update_market m)
  then have "public_key (trim m)" using r(2) by (simp add: names_market_def market_fits_def)
  then show ?thesis
    by (auto simp: Update_market deploymentUpdateMarket_def Let_def all sendable_writes now intro!: list_all_update_one)
next
  case (Update_requirements q m)
  then have "market_fits (map_option trim m)" "requirements_fit kit q" using r by (simp_all add: names_market_def)
  then show ?thesis
    by (auto simp: Update_requirements deploymentUpdateRequirements_def Let_def all sendable_writes now intro!: list_all_update_one)
qed (use r(1) in \<open>auto simp: deploymentStart_def deploymentStop_def deploymentArchive_def deploymentUpdateReplicaCount_def
    deploymentUpdateTimeout_def deploymentUpdateStartupTimeout_def deploymentUpdateName_def deploymentUpdateSchedule_def
    all sendable_writes now intro!: list_all_update_one\<close>)


text \<open>
  Except for a copy's market: the schema of the duplicate route takes any text for it. A copy on a market
  that is no address answers 200 and is stored, and neither the answer nor the copy is what the \<open>Deployment\<close>
  schema lets out, on this route or on any that lists the owner's deployments.
\<close>

theorem copied_market_is_unchecked:
  assumes served: "serve env (Duplicate name (Some m) False) i userId s = (Deployment_reply d status, s')"
    and short: "length (trim m) < 43"
  shows "d \<in> set (db_deployments s') \<and> d_owner d = userId \<and> \<not> admits kit DeploymentSchema (deployment_json kit n d)"
proof (cases rule: serve_cases [of env "Duplicate name (Some m) False" i userId s])
  case (handled source)
  have dup: "deploymentDuplicate env name (Some m) False source userId s = (Deployment_reply d status, s')"
    using served handled(3) by simp
  then obtain jd nm r where copy: "duplicateDeployment (re_kit env) (re_fresh env) source jd nm (Some m) userId (re_now env) = Some (d, r)"
    and stored: "d \<in> set (db_deployments s')"
    by (auto simp: deploymentDuplicate_def insert_revision_iff insert_deployment_def split: option.splits if_splits prod.splits)
  have "d_market d = Some (trim m)" using created_fields(1) [OF copy [unfolded duplicateDeployment_def]] by simp
  then have "\<not> market_fits (d_market d)" using short by (simp add: market_fits_def public_key_def)
  moreover have "d_owner d = userId" using createDeployment_keys [OF copy [unfolded duplicateDeployment_def]] by simp
  ultimately show ?thesis using stored by (simp add: conforms_iff)
qed (use served in simp)

section \<open>Creating\<close>

lemma vault_of_keys:
  assumes "vault_of userId now apiKey generated body s = (Some vault, s1)"
    and "\<forall>w \<in> set (db_vaults s). public_key (w_vault w)" "public_key (fst generated)" "public_key userId"
  shows "public_key vault"
  using assms unfolding vault_of_def getOrCreateVault_def Let_def shared_vault_def
  by (auto split: option.splits if_splits prod.splits list.splits dest!: find_one_SomeD)
    (metis (no_types, lifting) filter_is_subset list.set_intros(1) set_sort subsetD)

theorem created_stay_sendable:
  assumes all: "list_all (sendable kit) (db_deployments s)" and body: "body_sendable kit body"
    and keys: "\<forall>w \<in> set (db_vaults s). public_key (w_vault w)" "public_key (fst generated)" "public_key userId"
    and now: "sk_date_time kit (toISOString (re_now env))"
  shows "list_all (sendable kit) (db_deployments (snd (deploymentCreate env apiKey generated body userId s)))"
proof (cases rule: create_cases [of userId env apiKey generated body s])
  case (refused w s1)
  then show ?thesis using all vault_of_frame [OF refused(1)] by auto
next
  case (created vault s1 d r s2 s3)
  have d: "sendable kit d" using created_sendable [OF created(2) body vault_of_keys [OF created(1) keys] keys(3) now] .
  have "db_deployments s3 = db_deployments s @ [d]"
    using created(3,4) vault_of_frame [OF created(1)]
    by (auto simp: insert_deployment_def insert_revision_iff insert_one_def split: if_splits)
  then have "list_all (sendable kit) (db_deployments s3)" using all d by simp
  then show ?thesis using created(5) by (auto simp: sendable_writes now intro!: list_all_update_one)
qed

text \<open>The handler's reading of a body of create, and what its schema promises of it.\<close>

fun strategy_of :: "string \<Rightarrow> deployment_strategy option" where
  "strategy_of t = find (\<lambda>st. strategy_name st = t) [SIMPLE, SIMPLE_EXTEND, SCHEDULED, INFINITE]"

lemma strategy_of_name [simp]: "strategy_of (strategy_name st) = Some st"
  by (cases st) simp_all

declare strategy_of.simps [simp del]

definition create_body_of :: "schema_kit \<Rightarrow> json \<Rightarrow> create_body option" where
  "create_body_of kit j =
     (case (text_member j ''name'', number_member j ''replicas'', number_member j ''timeout'',
         Option.bind (text_member j ''strategy'') strategy_of) of
        (Some name, Some replicas, Some timeout, Some strategy) \<Rightarrow>
          Some \<lparr>cb_name = name, cb_market = text_member j ''market'', cb_requirements = requirements_member kit j,
            cb_job_definition = sk_definition kit (nullish (body_member j ''job_definition'') J_null),
            cb_replicas = nat replicas, cb_strategy = strategy, cb_schedule = text_member j ''schedule'',
            cb_confidential = flag_member j ''confidential'', cb_timeout = timeout,
            cb_rotation_time = number_member j ''rotation_time'', cb_startup_timeout = number_member j ''startup_timeout'',
            cb_ssh_public_keys = texts_member j ''ssh_public_keys'', cb_idempotency_key = text_member j ''idempotency_key'',
            cb_vault = text_member j ''vault'', cb_new_vault = nullish (flag_member j ''new_vault'') False,
            cb_autostart = nullish (flag_member j ''autostart'') False\<rparr>
      | _ \<Rightarrow> None)"

lemma metadata_schema:
  "DeploymentMetadataSchema = S_intersect [
     S_object [
       Optional ''idempotency_key'' (S_string 1 (Some 128) creation_key), Required ''name'' any_string,
       Optional ''market'' PublicKeySchema, Optional ''requirements'' RequirementsSchema,
       Required ''replicas'' (S_number (Some 1) (Some 100)), Required ''timeout'' (number_from 1),
       Optional ''confidential'' S_boolean, Optional ''autostart'' S_boolean, Optional ''ssh_public_keys'' SshPublicKeysSchema],
     S_union [
       S_object [Optional ''vault'' PublicKeySchema, Optional ''new_vault'' S_never],
       S_object [Optional ''new_vault'' S_boolean, Optional ''vault'' S_never]],
     S_union [
       S_object [Required ''strategy'' (literals (map strategy_name [SIMPLE, SIMPLE_EXTEND]))],
       S_object [Required ''strategy'' (S_literal (J_str (strategy_name SCHEDULED))), Required ''schedule'' DeploymentScheduleSchema],
       S_object [Required ''timeout'' (number_from 60), Required ''strategy'' (S_literal (J_str (strategy_name INFINITE))),
         Optional ''rotation_time'' any_number, Optional ''startup_timeout'' (number_from 1)]]]"
  by (simp add: DeploymentMetadataSchema_def DeploymentCreateBodySchema_def prop_key_def)

lemma required_case: "(case x of None \<Rightarrow> False | Some v \<Rightarrow> P v) \<longleftrightarrow> (\<exists>v. x = Some v \<and> P v)"
  by (cases x) simp_all

text \<open>
  A body that create lets in is bounded and sendable. Its replicas are 1 to 100, it names at most one
  source of its vault, and, with whole numbers and a market without white space around it, what it creates
  is a deployment the API can send.
\<close>

theorem create_bodies_are_sendable:
  assumes j: "admits kit DeploymentMetadataSchema j" "whole_members j" "keeps_requirements kit j"
    and market: "trimmed (text_member j ''market'')"
  shows "\<exists>b. create_body_of kit j = Some b \<and> 1 \<le> cb_replicas b \<and> cb_replicas b \<le> 100 \<and>
    (cb_vault b = None \<or> \<not> cb_new_vault b) \<and> body_sendable kit b"
proof -
  note parts = j(1) [unfolded metadata_schema admits.simps admits_all.simps]
  obtain ms where ms: "j = J_obj ms" using parts by auto
  let ?optional = "\<lambda>k P. case property_of ms k of None \<Rightarrow> True | Some v \<Rightarrow> P v"
  obtain nm n t where name: "property_of ms ''name'' = Some (J_str nm)"
    and n: "property_of ms ''replicas'' = Some (J_num n)" "1 \<le> n" "n \<le> 100"
    and t: "property_of ms ''timeout'' = Some (J_num t)" "1 \<le> t"
    and market_part: "?optional ''market'' (admits kit PublicKeySchema)"
    and req_part: "?optional ''requirements'' (admits kit RequirementsSchema)"
    using parts unfolding ms by (clarsimp simp: required_case in_bounds_def)
  have whole: "whole n" "whole t" using whole_member j(2) n(1) t(1) unfolding ms by blast+
  have "1 \<le> \<lfloor>n\<rfloor>" "\<lfloor>n\<rfloor> \<le> 100" "1 \<le> \<lfloor>t\<rfloor>" using n t by (simp_all add: le_floor_iff floor_le_iff)
  then have bounds: "1 \<le> nat \<lfloor>n\<rfloor>" "nat \<lfloor>n\<rfloor> \<le> 100" "1 \<le> \<lfloor>t\<rfloor>" by arith+
  have vault: "text_member j ''vault'' = None \<or> flag_member j ''new_vault'' = None"
    using parts [THEN conjunct2, THEN conjunct1] unfolding ms by (auto simp: member_defs split: option.splits)
  have req: "requirements_fit kit (requirements_member kit j)"
    using req_part j(3) by (auto simp: ms member_defs requirements_fit_def keeps_requirements_def RequirementsSchema_def
      split: option.splits)
  have mk: "market_fits (text_member j ''market'')"
    using market_part by (auto simp: ms member_defs market_fits_def split: option.splits)
  have start: "1 \<le> \<lfloor>x\<rfloor>" if "1 \<le> x" for x :: rat using that by (simp add: le_floor_iff)
  have hour: "60 \<le> \<lfloor>x\<rfloor>" if "60 \<le> x" for x :: rat using that by (simp add: le_floor_iff)
  obtain st where st: "property_of ms ''strategy'' = Some (J_str (strategy_name st))"
    "st = SCHEDULED \<Longrightarrow> \<exists>x. property_of ms ''schedule'' = Some (J_str x) \<and> five_fields x"
    "st = INFINITE \<Longrightarrow> 60 \<le> t \<and> ?optional ''startup_timeout'' (admits kit (number_from 1))"
    using parts t(1) unfolding ms by (auto simp: required_case DeploymentScheduleSchema_def)
  obtain b where b: "create_body_of kit j = Some b"
    and fields: "cb_market b = text_member j ''market''" "cb_requirements b = requirements_member kit j"
      "cb_replicas b = nat \<lfloor>n\<rfloor>" "cb_strategy b = st" "cb_schedule b = text_member j ''schedule''" "cb_timeout b = \<lfloor>t\<rfloor>"
      "cb_startup_timeout b = number_member j ''startup_timeout''" "cb_vault b = text_member j ''vault''"
      "cb_new_vault b = nullish (flag_member j ''new_vault'') False"
  proof -
    have "text_member j ''name'' = Some nm" "number_member j ''replicas'' = Some \<lfloor>n\<rfloor>" "number_member j ''timeout'' = Some \<lfloor>t\<rfloor>"
      "Option.bind (text_member j ''strategy'') strategy_of = Some st"
      by (simp_all add: member_defs ms name n(1) t(1) whole st(1))
    then show thesis by (intro that, simp add: create_body_of_def, simp_all)
  qed
  have startup: "case number_member j ''startup_timeout'' of None \<Rightarrow> True | Some i \<Rightarrow> 1 \<le> i" if "st = INFINITE"
    using st(3) [OF that] start by (auto simp: member_defs ms split: option.splits if_splits)
  have schedule: "case text_member j ''schedule'' of None \<Rightarrow> True | Some x \<Rightarrow> five_fields x" if "st = SCHEDULED"
    using st(2) [OF that] by (auto simp: member_defs ms)
  have "body_sendable kit b"
    using mk requirements_fit_json [OF req] bounds(3) startup schedule st(3) hour
    unfolding body_sendable_def fields trimmed_market [OF market]
    by (cases st) simp_all
  then show ?thesis using b bounds vault by (auto simp: fields)
qed

section \<open>What the schemas let through\<close>

text \<open>
  The numbers of a body are not declared whole: two and a half replicas, or half a minute more of a
  timeout, pass the validation and reach the handlers.
\<close>

theorem fractions_are_admitted:
  "admits kit (S_object [Required ''replicas'' (S_number (Some 0) (Some 100))]) (J_obj [(''replicas'', J_num (5 / 2))]) \<and>
   admits kit (S_object [Required ''timeout'' (number_from 60)]) (J_obj [(''timeout'', J_num (121 / 2))]) \<and>
   sc_body (schema_of DeploymentUpdateReplicaCountHandler) = Some (S_object [Required ''replicas'' (S_number (Some 0) (Some 100))]) \<and>
   sc_body (schema_of DeploymentUpdateTimeoutHandler) = Some (S_object [Required ''timeout'' (number_from 60)])"
  by (simp add: property_of_def in_bounds_def DeploymentUpdateReplicaCountSchema_def DeploymentUpdateTimeoutSchema_def
      deployment_schema_def, rule conjI, rule exI [of _ "5 / 2"], simp, rule exI [of _ "121 / 2"], simp)

text \<open>Create answers a vault that is not the caller's with 404, which its schema does not declare.\<close>

theorem missing_vault_is_undeclared:
  assumes "infinite_body_error body = None" "truthy_string (cb_vault body)"
    and "\<forall>w \<in> set (db_vaults s). w_owner w = userId \<longrightarrow> Some (w_vault w) \<noteq> cb_vault body"
  shows "fst (deploymentCreate env None generated body userId s) = Failed 404 M_VAULT_NOT_FOUND \<and> 404 \<notin> declared DeploymentCreateHandler"
proof
  obtain v where v: "cb_vault body = Some v" using assms(2) by (cases "cb_vault body") auto
  have "find_one (\<lambda>w. w_owner w = userId \<and> w_vault w = v) (db_vaults s) = None"
    using assms(3) by (auto simp: v find_one_None_iff)
  then have "fst (vault_of userId (re_now env) None generated body s) = None"
    using assms(2) by (simp add: vault_of_def getOrCreateVault_def v)
  then show "fst (deploymentCreate env None generated body userId s) = Failed 404 M_VAULT_NOT_FOUND"
    using assms(1) by (auto simp: deploymentCreate_def split: prod.splits option.splits)
  show "404 \<notin> declared DeploymentCreateHandler" by (simp add: declared_def schema_defs)
qed

section \<open>Examples\<close>

definition key_text :: address where "key_text = replicate 43 CHR ''k''"

definition sendable_db :: db where
  "sendable_db = empty_db\<lparr>db_deployments := [(blank_deployment ''D'' key_text RUNNING)\<lparr>d_vault := key_text\<rparr>],
     db_revisions := [example_revision ''D'' 1 ''Qm'']\<rparr>"

definition any_kit :: schema_kit where
  "any_kit = example_schema_kit\<lparr>sk_date_time := (\<lambda>_. True)\<rparr>"

lemma key_text: "public_key key_text" "length key_text = 43"
  by (simp_all add: public_key_def key_text_def)

lemma sendable_example: "list_all (sendable any_kit) (db_deployments sendable_db)"
  by (simp add: sendable_db_def sendable_def conforms_def conforms_iff blank_deployment_def market_fits_def strategy_fits_def
      trimmed_def key_text any_kit_def)


theorem copied_market_is_unchecked_witness:
  "\<exists>d s'. serve example_route_env (Duplicate None (Some ''m'') False) ''D'' key_text sendable_db = (Deployment_reply d DRAFT, s') \<and>
     \<not> admits any_kit DeploymentSchema (deployment_json any_kit 0 d)"
proof -
  have "\<exists>d s'. serve example_route_env (Duplicate None (Some ''m'') False) ''D'' key_text sendable_db = (Deployment_reply d DRAFT, s')"
    by (simp add: serve_def serve_stale_def getDeployment_def admit_def open_to_archived_def find_one_def owned_def sendable_db_def
        deploymentDuplicate_def find_revision_def duplicateDeployment_def createDeployment_def createNewDeploymentRevision_def
        extractSsh_def injectSsh_def final_definition_def createDeploymentRevisionEndpoints_def insert_revision_def
        insert_deployment_def matches_def Let_def example_defs trim_def)
  then obtain d s' where
    c: "serve example_route_env (Duplicate None (Some ''m'') False) ''D'' key_text sendable_db = (Deployment_reply d DRAFT, s')" by blast
  have "length (trim ''m'') < 43" by (simp add: trim_def is_space_def)
  then show ?thesis using copied_market_is_unchecked [OF c, where kit = any_kit and n = 0] c by blast
qed

theorem create_bodies_are_sendable_witness:
  "\<exists>b. create_body_of any_kit (J_obj [(''name'', J_str ''n''), (''replicas'', J_num 2), (''timeout'', J_num 60), (''strategy'', J_str ''SIMPLE'')]) = Some b \<and>
     cb_replicas b \<le> 100 \<and> body_sendable any_kit b"
proof -
  let ?j = "J_obj [(''name'', J_str ''n''), (''replicas'', J_num 2), (''timeout'', J_num 60), (''strategy'', J_str ''SIMPLE'')]"
  have "admits any_kit DeploymentMetadataSchema ?j"
    by (simp add: metadata_schema property_of_def in_bounds_def strategy_name_def)
  moreover have "whole_members ?j" "keeps_requirements any_kit ?j" "trimmed (text_member ?j ''market'')"
    by (simp_all add: whole_members_def whole_def keeps_requirements_def member_defs property_of_def)
  ultimately show ?thesis using create_bodies_are_sendable by blast
qed

theorem created_stay_sendable_witness:
  "list_all (sendable any_kit) (db_deployments (snd (deploymentCreate example_route_env None (key_text, []) example_body key_text sendable_db)))"
  by (rule created_stay_sendable [OF sendable_example])
    (simp_all add: body_sendable_def example_body_def market_fits_def any_kit_def key_text sendable_db_def empty_db_def)

theorem missing_vault_is_undeclared_witness:
  "fst (deploymentCreate example_route_env None (''V2'', []) (example_body\<lparr>cb_vault := Some ''X''\<rparr>) ''O'' keyed_db) = Failed 404 M_VAULT_NOT_FOUND"
  using missing_vault_is_undeclared [of "example_body\<lparr>cb_vault := Some ''X''\<rparr>" keyed_db "''O''" example_route_env "(''V2'', [])"]
  by (simp add: infinite_body_error_def example_body_def keyed_db_def)

end
