(* ===== verification/Tunnel_Feed.thy ===== *)
theory Tunnel_Feed
  imports Startup
begin

text \<open>
  The feed of tunnel events (\<open>src/listeners/frps/index.ts\<close>, \<open>src/client/eventSource/index.ts\<close>,
  \<open>src/metrics/frps.ts\<close>): a stream that reconnects by itself, whose frames are parsed one by one and handled
  strictly in the order they came. A frame's data is None when it cannot be parsed, and otherwise the event
  as \<open>src/listeners/frps/types.ts\<close> types it.
\<close>

section \<open>The stream\<close>

record event_source =
  es_connected :: bool
  es_initialFailureLogged :: bool

datatype es_log = Log_connected | Log_disconnected | Log_cannot_connect

definition createEventSource :: event_source where
  "createEventSource = \<lparr>es_connected = False, es_initialFailureLogged = False\<rparr>"

text \<open>What \<open>onConnectionChange\<close> is called with.\<close>

definition setConnected :: "bool \<Rightarrow> event_source \<Rightarrow> bool list \<times> event_source" where
  "setConnected next es = (if es_connected es = next then ([], es) else ([next], es\<lparr>es_connected := next\<rparr>))"

definition onopen :: "event_source \<Rightarrow> es_log list \<times> bool list \<times> event_source" where
  "onopen es = (if \<not> es_connected es then [Log_connected] else [], setConnected True es)"

definition onerror :: "event_source \<Rightarrow> es_log list \<times> bool list \<times> event_source" where
  "onerror es =
     (if es_connected es then ([Log_disconnected], setConnected False es)
      else if \<not> es_initialFailureLogged es
      then ([Log_cannot_connect], setConnected False (es\<lparr>es_initialFailureLogged := True\<rparr>))
      else ([], setConnected False es))"

text \<open>The library's signals, in order: True is an open, False an error.\<close>

fun signals :: "bool list \<Rightarrow> event_source \<Rightarrow> es_log list \<times> bool list \<times> event_source" where
  "signals [] es = ([], [], es)"
| "signals (sig # sigs) es =
     (let (logs, changes, es1) = (if sig then onopen es else onerror es);
          (logs', changes', es2) = signals sigs es1
      in (logs @ logs', changes @ changes', es2))"

section \<open>The listener\<close>

datatype frps_event_type = REGISTERED | UNREGISTERED

record frps_event =
  ev_type :: frps_event_type
  ev_metadatas :: "metadata list option"
  ev_reason :: "frps_reason option"

datatype frps_frame = Frame_connected | Frame frps_event_type "frps_event option"

text \<open>A queued handler; \<open>fd_ran\<close> keeps those that ran, with their times.\<close>

record feed =
  fd_db :: db
  fd_chain :: "frps_event list"
  fd_source :: event_source
  fd_gauge :: bool
  fd_registered :: nat
  fd_unregistered :: nat
  fd_closed :: bool
  fd_ran :: "(frps_event \<times> ms) list"

definition run_handler :: "worker_config \<Rightarrow> ms \<Rightarrow> frps_event \<Rightarrow> db \<Rightarrow> db" where
  "run_handler cfg now e s = (case ev_type e of
     REGISTERED \<Rightarrow> frpsRegisterHandler (ev_metadatas e) now s
   | UNREGISTERED \<Rightarrow> frpsUnregisterHandler cfg (ev_metadatas e) (ev_reason e) now s)"

definition enqueue :: "frps_event \<Rightarrow> feed \<Rightarrow> feed" where
  "enqueue e f = f\<lparr>fd_chain := fd_chain f @ [e]\<rparr>"

definition recordEvent :: "frps_event_type \<Rightarrow> feed \<Rightarrow> feed" where
  "recordEvent ty f = (case ty of REGISTERED \<Rightarrow> f\<lparr>fd_registered := Suc (fd_registered f)\<rparr>
     | UNREGISTERED \<Rightarrow> f\<lparr>fd_unregistered := Suc (fd_unregistered f)\<rparr>)"

text \<open>\<open>on\<close> with the listener's two handlers: a frame that cannot be parsed is dropped alone, one of another
  type has no handler.\<close>

definition receive :: "frps_frame \<Rightarrow> feed \<Rightarrow> feed" where
  "receive frame f = (case frame of
     Frame ty (Some e) \<Rightarrow> enqueue (e\<lparr>ev_type := ty\<rparr>) (recordEvent ty f)
   | _ \<Rightarrow> f)"

definition apply_changes :: "bool list \<Rightarrow> feed \<Rightarrow> feed" where
  "apply_changes changes f = fold (\<lambda>c f. f\<lparr>fd_gauge := c\<rparr>) changes f"

text \<open>
  What happens to a running listener: a frame, a signal of the stream, the next handler of the chain running
  to its end or failing with the store as it left it, a write of somebody else, the stop.
\<close>

datatype feed_op = Receive frps_frame | Signal bool | Run ms | Run_fails ms db | Write db | Stop_feed

fun feed_step :: "worker_config \<Rightarrow> feed_op \<Rightarrow> feed \<Rightarrow> feed" where
  "feed_step cfg (Receive frame) f = (if fd_closed f then f else receive frame f)"
| "feed_step cfg (Signal sig) f =
     (if fd_closed f then f
      else let (logs, changes, es) = (if sig then onopen (fd_source f) else onerror (fd_source f))
           in apply_changes changes (f\<lparr>fd_source := es\<rparr>))"
| "feed_step cfg (Run now) f = (case fd_chain f of
     [] \<Rightarrow> f
   | e # es \<Rightarrow> f\<lparr>fd_db := run_handler cfg now e (fd_db f), fd_chain := es, fd_ran := fd_ran f @ [(e, now)]\<rparr>)"
| "feed_step cfg (Run_fails now s) f = (case fd_chain f of
     [] \<Rightarrow> f | e # es \<Rightarrow> f\<lparr>fd_db := s, fd_chain := es, fd_ran := fd_ran f @ [(e, now)]\<rparr>)"
| "feed_step cfg (Write s) f = f\<lparr>fd_db := s\<rparr>"
| "feed_step cfg Stop_feed f = f\<lparr>fd_closed := True, fd_gauge := False\<rparr>"

definition feed_run :: "worker_config \<Rightarrow> feed_op list \<Rightarrow> feed \<Rightarrow> feed" where
  "feed_run cfg ops f = fold (feed_step cfg) ops f"

text \<open>Starting: None is no subscription, the kill-switch off or no address; \<open>parse\<close> is the URL parser,
  which throws (\<open>Inl\<close>) on an address without a scheme.\<close>

definition start_frps :: "(string \<Rightarrow> string option) \<Rightarrow> bool \<Rightarrow> string option \<Rightarrow> db \<Rightarrow> unit + (string \<times> feed) option" where
  "start_frps parse frps_watching_enabled frps_internal_address s =
     (if \<not> frps_watching_enabled then Inr None
      else if \<not> truthy_string frps_internal_address then Inr None
      else case parse (the frps_internal_address) of
             None \<Rightarrow> Inl ()
           | Some url \<Rightarrow> Inr (Some (url, \<lparr>fd_db = s, fd_chain = [], fd_source = createEventSource, fd_gauge = False,
               fd_registered = 0, fd_unregistered = 0, fd_closed = False, fd_ran = []\<rparr>)))"

section \<open>The gauge reports transitions\<close>

lemma signals_changes:
  "signals sigs es = (logs, changes, es') \<Longrightarrow>
     changes = remdups_adj (dropWhile (\<lambda>c. c = es_connected es) sigs) \<and>
     es_connected es' = last (es_connected es # sigs)"
proof (induction sigs arbitrary: es logs changes es')
  case (Cons sig sigs)
  obtain l1 c1 es1 where step: "(if sig then onopen es else onerror es) = (l1, c1, es1)" by (metis prod_cases3)
  obtain l2 c2 es2 where rest: "signals sigs es1 = (l2, c2, es2)" by (metis prod_cases3)
  have es1: "es_connected es1 = sig" and c1: "c1 = (if es_connected es = sig then [] else [sig])"
    using step by (auto simp: onopen_def onerror_def setConnected_def split: if_splits)
  have changes: "changes = c1 @ c2" "es' = es2" using Cons.prems by (simp_all add: step rest)
  have ih: "c2 = remdups_adj (dropWhile (\<lambda>c. c = sig) sigs)" "es_connected es2 = last (sig # sigs)"
    using Cons.IH [OF rest] es1 by simp_all
  have adj: "remdups_adj (sig # sigs) = sig # remdups_adj (dropWhile (\<lambda>c. c = sig) sigs)"
    by (rule remdups_adj_Cons')
  show ?case using ih adj by (auto simp: changes c1)
qed simp

text \<open>
  The gauge shows every change once. What the stream reports of its connection is the library's signals
  without repetitions, from the first open on, and the gauge stands at the last of them.
\<close>

theorem gauge_reports_transitions:
  "\<exists>logs es'. signals sigs createEventSource = (logs, remdups_adj (dropWhile Not sigs), es') \<and>
     es_connected es' = last (False # sigs)"
proof -
  obtain logs changes es' where s: "signals sigs createEventSource = (logs, changes, es')" by (metis prod_cases3)
  have "(\<lambda>c. c = False) = Not" by auto
  then show ?thesis using signals_changes [OF s] s by (auto simp: createEventSource_def)
qed

text \<open>A stream that was connected and drops reports that it cannot connect, once, at the second error.\<close>

theorem drop_reports_cannot_connect:
  "signals [True, False, False, False] createEventSource =
     ([Log_connected, Log_disconnected, Log_cannot_connect], [True, False],
      \<lparr>es_connected = False, es_initialFailureLogged = True\<rparr>)"
  by (simp add: createEventSource_def onopen_def onerror_def setConnected_def)

section \<open>Every event once, in order\<close>

text \<open>The events a run delivers: what could be parsed of the frames before the stop.\<close>

definition frame_events :: "frps_frame \<Rightarrow> frps_event list" where
  "frame_events frame = (case frame of Frame ty (Some e) \<Rightarrow> [e\<lparr>ev_type := ty\<rparr>] | _ \<Rightarrow> [])"

fun delivered :: "bool \<Rightarrow> feed_op list \<Rightarrow> frps_event list" where
  "delivered stopped [] = []"
| "delivered stopped (Receive frame # ops) = (if stopped then [] else frame_events frame) @ delivered stopped ops"
| "delivered stopped (Stop_feed # ops) = delivered True ops"
| "delivered stopped (_ # ops) = delivered stopped ops"

definition own_op :: "feed_op \<Rightarrow> bool" where
  "own_op op = (case op of Run_fails now s \<Rightarrow> False | Write s \<Rightarrow> False | _ \<Rightarrow> True)"

definition run_handlers :: "worker_config \<Rightarrow> (frps_event \<times> ms) list \<Rightarrow> db \<Rightarrow> db" where
  "run_handlers cfg runs s = fold (\<lambda>(e, now). run_handler cfg now e) runs s"

lemma apply_changes_frame [simp]:
  "fd_db (apply_changes cs f) = fd_db f" "fd_chain (apply_changes cs f) = fd_chain f"
  "fd_ran (apply_changes cs f) = fd_ran f" "fd_closed (apply_changes cs f) = fd_closed f"
  by (induction cs arbitrary: f) (simp_all add: apply_changes_def)

lemma receive_frame [simp]:
  "fd_db (receive frame f) = fd_db f" "fd_ran (receive frame f) = fd_ran f" "fd_closed (receive frame f) = fd_closed f"
  "fd_chain (receive frame f) = fd_chain f @ frame_events frame"
  by (simp_all add: receive_def enqueue_def recordEvent_def frame_events_def
      split: frps_frame.split option.split frps_event_type.split)

lemma feed_run_order:
  "map fst (fd_ran (feed_run cfg ops f)) @ fd_chain (feed_run cfg ops f) =
     map fst (fd_ran f) @ fd_chain f @ delivered (fd_closed f) ops"
proof (induction ops arbitrary: f)
  case (Cons op ops)
  have "map fst (fd_ran (feed_step cfg op f)) @ fd_chain (feed_step cfg op f) @ delivered (fd_closed (feed_step cfg op f)) ops =
      map fst (fd_ran f) @ fd_chain f @ delivered (fd_closed f) (op # ops)"
    by (cases op) (simp_all add: Let_def case_prod_beta split: list.split)
  then show ?case using Cons.IH [of "feed_step cfg op f"] by (simp add: feed_run_def)
qed (simp add: feed_run_def)

lemma feed_run_db:
  assumes "list_all own_op ops"
  shows "\<exists>runs. fd_ran (feed_run cfg ops f) = fd_ran f @ runs \<and> fd_db (feed_run cfg ops f) = run_handlers cfg runs (fd_db f)"
  using assms
proof (induction ops arbitrary: f)
  case (Cons op ops)
  let ?f = "feed_step cfg op f"
  have step: "fd_ran ?f = fd_ran f \<and> fd_db ?f = fd_db f \<or>
      (\<exists>e now. fd_ran ?f = fd_ran f @ [(e, now)] \<and> fd_db ?f = run_handler cfg now e (fd_db f))"
    using Cons.prems by (cases op; cases "fd_chain f") (auto simp: own_op_def Let_def case_prod_beta)
  obtain runs where "fd_ran (feed_run cfg ops ?f) = fd_ran ?f @ runs" "fd_db (feed_run cfg ops ?f) = run_handlers cfg runs (fd_db ?f)"
    using Cons.IH [of ?f] Cons.prems by auto
  then show ?case using step by (fastforce simp: feed_run_def run_handlers_def)
qed (simp add: feed_run_def run_handlers_def)

text \<open>
  C28: tunnel events are handled once each, in the order they came. However frames, signals, handlers, failing
  handlers, other writers and the stop interleave, the events that ran are a prefix of those that were
  delivered and the chain holds the rest; when nothing fails and nobody else writes, the store is what
  the handlers make of it one after the other.
\<close>

theorem tunnel_events_in_order:
  assumes "start_frps parse enabled address s = Inr (Some (url, f))"
  shows "map fst (fd_ran (feed_run cfg ops f)) @ fd_chain (feed_run cfg ops f) = delivered False ops \<and>
    (list_all own_op ops \<longrightarrow> fd_db (feed_run cfg ops f) = run_handlers cfg (fd_ran (feed_run cfg ops f)) s)"
proof -
  have f: "fd_db f = s" "fd_chain f = []" "fd_closed f = False" "fd_ran f = []"
    using assms by (auto simp: start_frps_def split: if_splits option.splits)
  show ?thesis using feed_run_order [of cfg ops f] feed_run_db [of ops cfg f] by (auto simp: f)
qed

section \<open>The last event of a tunnel decides\<close>

text \<open>The job and the op of an event's tunnel, and the state and the reason it tells.\<close>

definition tunnel_of :: "frps_event \<Rightarrow> (address \<times> string) option" where
  "tunnel_of e = (let m = parseFrpsMetadata (ev_metadatas e)
     in case (m ''jobId'', m ''opId'') of (Some job, Some opId) \<Rightarrow> Some (job, opId) | _ \<Rightarrow> None)"

definition told_state :: "frps_event \<Rightarrow> frps_state \<times> frps_reason option" where
  "told_state e = (case ev_type e of REGISTERED \<Rightarrow> (Up, None) | UNREGISTERED \<Rightarrow> (Down, ev_reason e))"

definition row_of :: "address \<times> string \<Rightarrow> db \<Rightarrow> frps_endpoint_status option" where
  "row_of k s = find_one (\<lambda>f. frps_key f = k) (db_frps s)"

definition row_state :: "address \<times> string \<Rightarrow> db \<Rightarrow> (frps_state \<times> frps_reason option) option" where
  "row_state k s = map_option (\<lambda>f. (f_state f, f_reason f)) (row_of k s)"

definition tunnels_wf :: "db \<Rightarrow> bool" where
  "tunnels_wf s = distinct (map frps_key (db_frps s))"

lemma disarm_frps [simp]:
  "db_frps (snd (cancel_stop dep job now s)) = db_frps s" "db_frps (snd (clear_marker dep job s)) = db_frps s"
  "db_frps (snd (disarmStartupDeadline dep job now s)) = db_frps s"
  by (simp_all add: cancel_stop_def tasks_delete_def clear_marker_def disarmStartupDeadline_def Let_def case_prod_beta)

lemma handler_frps:
  "db_frps (run_handler cfg now e s) = (case tunnel_of e of
     None \<Rightarrow> db_frps s
   | Some (job, opId) \<Rightarrow> db_frps (recordEndpointState job opId (parseFrpsMetadata (ev_metadatas e) ''deploymentId'')
       (fst (told_state e)) (snd (told_state e)) now s))"
proof (cases "ev_type e")
  case REGISTERED
  then show ?thesis
    by (simp add: run_handler_def frpsRegisterHandler_def record_up_def tunnel_of_def told_state_def Let_def case_prod_beta
        split: option.split)
next
  case UNREGISTERED
  then show ?thesis
    by (simp add: run_handler_def frpsUnregisterHandler_def record_down_def tunnel_of_def told_state_def Let_def case_prod_beta
        split: option.split)
qed

lemma handler_row:
  assumes wf: "tunnels_wf s"
  shows "tunnels_wf (run_handler cfg now e s) \<and>
    row_state k (run_handler cfg now e s) = (if tunnel_of e = Some k then Some (told_state e) else row_state k s)"
proof (cases "tunnel_of e")
  case None
  then show ?thesis using wf by (simp add: tunnels_wf_def row_state_def row_of_def handler_frps)
next
  case (Some key)
  obtain job opId where key: "key = (job, opId)" by (cases key)
  obtain st reason where told: "told_state e = (st, reason)" by (cases "told_state e")
  let ?dep = "parseFrpsMetadata (ev_metadatas e) ''deploymentId''"
  let ?s' = "recordEndpointState job opId ?dep st reason now s"
  have frps: "db_frps (run_handler cfg now e s) = db_frps ?s'" using Some by (simp add: handler_frps key told)
  note track = tunnel_row_tracks_flips [OF wf [unfolded tunnels_wf_def] refl, of job opId ?dep st reason now]
  then obtain f where f: "f \<in> set (db_frps ?s')" "frps_key f = (job, opId)" "f_state f = st" "f_reason f = reason" by blast
  have distinct: "distinct (map frps_key (db_frps ?s'))" using track by blast
  have others: "filter (\<lambda>f. frps_key f \<noteq> (job, opId)) (db_frps ?s') = filter (\<lambda>f. frps_key f \<noteq> (job, opId)) (db_frps s)"
    using track by blast
  have own: "row_of (job, opId) (run_handler cfg now e s) = Some f"
    unfolding row_of_def frps using find_one_keyed [OF distinct f(1)] f(2) by simp
  have keep: "find_one (\<lambda>f. frps_key f = k') fs = find_one (\<lambda>f. frps_key f = k') (filter (\<lambda>f. frps_key f \<noteq> (job, opId)) fs)"
    if "k' \<noteq> (job, opId)" for k' and fs :: "frps_endpoint_status list"
    using that by (induction fs) (auto simp: find_one_def)
  have other: "row_of k (run_handler cfg now e s) = row_of k s" if "k \<noteq> (job, opId)"
    unfolding row_of_def frps keep [OF that, of "db_frps ?s'"] keep [OF that, of "db_frps s"] others by simp
  show ?thesis
    using own other distinct f by (auto simp: tunnels_wf_def frps row_state_def Some key told)
qed

text \<open>
  The last event of a tunnel decides its state. After any sequence of events, a tunnel's row is in
  the state, with the reason, that the last event of its job and op tells, and as it was when none does:
  so what was missed between two connections changes nothing, as long as the snapshot ends with the
  latest event.
\<close>

theorem last_event_decides:
  assumes "tunnels_wf s"
  shows "tunnels_wf (run_handlers cfg runs s) \<and>
    row_state k (run_handlers cfg runs s) = (case filter (\<lambda>e. tunnel_of e = Some k) (map fst (rev runs)) of
      e # es \<Rightarrow> Some (told_state e) | [] \<Rightarrow> row_state k s)"
proof (induction runs rule: rev_induct)
  case (snoc run runs)
  obtain e now where run: "run = (e, now)" by (cases run)
  have "run_handlers cfg (runs @ [run]) s = run_handler cfg now e (run_handlers cfg runs s)"
    by (simp add: run_handlers_def run)
  then show ?case using snoc handler_row [of "run_handlers cfg runs s" cfg now e k] by (simp add: run)
qed (simp add: run_handlers_def assms)

section \<open>A replayed snapshot is reported\<close>

lemma on_deployment_events: "db_events (on_deployment P f s) = db_events s"
  by (simp add: on_deployment_def)

lemma refresh_events [simp]: "db_events (refreshDeploymentEndpointStatus i s) = db_events s"
proof -
  have f: "db_events (fold (\<lambda>x. on_deployment (P x) (g x)) xs u) = db_events u" for P g u and xs :: "string list"
    by (induction xs arbitrary: u) (simp_all add: on_deployment_def)
  show ?thesis by (simp add: refreshDeploymentEndpointStatus_def Let_def f split: option.split)
qed

lemma record_frame [simp]:
  "db_events (recordEndpointState job opId dep st reason now s) = db_events s"
  "db_events (record_down m reason now s) = db_events s" "db_events (record_up m now s) = db_events s"
  "db_tasks (record_up m now s) = db_tasks s" "db_jobs (record_up m now s) = db_jobs s"
  by (simp_all add: record_down_def record_up_def recordEndpointState_def Let_def split: option.split)

text \<open>
  Replaying a snapshot is not silent. When a connection is re-established and the snapshot repeats the loss
  and the return of a tunnel that is up, of a running job whose startup marker is gone, the two events
  are reported to the owner again and the row's last change moves, though nothing happened.
\<close>

theorem replay_is_reported:
  assumes m: "m = parseFrpsMetadata metadatas" "m ''deploymentId'' = Some i" "m ''jobId'' = Some job" "m ''opId'' = Some opId"
    and wf: "tunnels_wf s" and up: "row_of (job, opId) s = Some row" "f_state row = Up"
    and stop: "stoppable m (record_down m (Some Lost) now s) = Some (d, job)"
    and free: "\<not> matches (same_intent (record_down m (Some Lost) now s) STOP i (job_stop job)) (db_tasks s)"
    and marker: "find_one (is_job_of i job) (db_jobs s) = Some j" "j_startup_deadline j = None"
    and grace: "now' < now + frps_unhealthy_grace_ms cfg"
    and s': "s' = frpsRegisterHandler metadatas now' (frpsUnregisterHandler cfg metadatas (Some Lost) now s)"
  shows "db_events s' = db_events s @ [lost_event i job (frps_unhealthy_grace_ms cfg) now, recovered_event i job now'] \<and>
    (\<exists>f. row_of (job, opId) s' = Some f \<and> f_state f = Up \<and> f_last_change f = now')"
proof -
  let ?g = "frps_unhealthy_grace_ms cfg"
  let ?s1 = "record_down m (Some Lost) now s"
  have d: "d_id d = i" using stop by (auto simp: stoppable_def m(2-4) split: option.splits if_splits dest: find_one_SomeD)
  obtain c s2 where sched: "scheduleTask STOP i (d_status d) (now + ?g) now (job_stop job) ?s1 = (c, s2)" by (rule prod.exhaust)
  have c: c using scheduleTask_created_iff [of STOP i "d_status d" "now + ?g" now "job_stop job" ?s1] free sched
    by (simp add: job_stop_def no_options_def)
  let ?s3 = "insert_event (lost_event i job ?g now) s2"
  have lost: "frpsUnregisterHandler cfg metadatas (Some Lost) now s = ?s3"
    using stop sched c by (simp add: frpsUnregisterHandler_def Let_def m(1) [symmetric] d)
  have s2: "db_tasks s2 = db_tasks s @ [scheduled_doc ?s1 STOP i (now + ?g) now (job_stop job)]" "db_jobs s2 = db_jobs s"
    "db_events s2 = db_events s" "db_frps s2 = db_frps ?s1"
    using scheduleTask_tasks [of STOP i "d_status d" "now + ?g" now "job_stop job" ?s1]
      scheduleTask_frame [of STOP i "d_status d" "now + ?g" now "job_stop job" ?s1] sched c
    by simp_all
  let ?s4 = "refreshDeploymentEndpointStatus i (record_up m now' ?s3)"
  have s4: "db_tasks ?s4 = db_tasks s2" "db_jobs ?s4 = db_jobs s" "db_events ?s4 = db_events s @ [lost_event i job ?g now]"
    by (simp_all add: insert_event_def s2 insert_one_def)
  have "armed i job (now + ?g) ?s4"
    by (simp add: armed_def s4 s2 scheduled_doc_def job_stop_def no_options_def)
  then have n: "fst (cancel_stop i job now' ?s4) \<noteq> 0" using grace by (rule cancel_armed)
  have "db_jobs (snd (cancel_stop i job now' ?s4)) = db_jobs s" by (simp add: cancel_stop_def tasks_delete_def s2)
  then have "fst (clear_marker i job (snd (cancel_stop i job now' ?s4))) = False"
    by (simp add: clear_marker_def marker)
  then have dis: "fst (disarmStartupDeadline i job now' ?s4) = (True, False)"
    using n by (simp add: disarmStartupDeadline_def Let_def case_prod_beta)
  have reg: "s' = insert_event (recovered_event i job now') (snd (disarmStartupDeadline i job now' ?s4))"
    using dis by (simp add: s' lost frpsRegisterHandler_def Let_def m(1) [symmetric] m(2-4) case_prod_beta)
  have "db_events (snd (disarmStartupDeadline i job now' ?s4)) = db_events ?s4"
    by (simp add: disarmStartupDeadline_def Let_def case_prod_beta cancel_stop_def tasks_delete_def clear_marker_def)
  then have events: "db_events s' = db_events s @ [lost_event i job ?g now, recovered_event i job now']"
    by (simp add: reg insert_event_def insert_one_def s2)
  have "db_frps s2 = db_frps (recordEndpointState job opId (Some i) Down (Some Lost) now s)"
    by (simp add: s2 record_down_def m(2-4) Let_def)
  then have down: "row_of (job, opId) s2 = row_of (job, opId) (recordEndpointState job opId (Some i) Down (Some Lost) now s)"
    "distinct (map frps_key (db_frps s2))"
    using tunnel_row_tracks_flips [OF wf [unfolded tunnels_wf_def] refl, of job opId "Some i" Down "Some Lost" now]
    by (simp_all add: row_of_def)
  obtain f1 where f1: "row_of (job, opId) s2 = Some f1" "f_state f1 = Down"
    using handler_row [OF wf, of cfg now "\<lparr>ev_type = UNREGISTERED, ev_metadatas = metadatas, ev_reason = Some Lost\<rparr>" "(job, opId)"]
    by (auto simp: run_handler_def lost tunnel_of_def m(1) [symmetric] m(2-4) told_state_def row_state_def row_of_def)
  have up3: "distinct (map frps_key (db_frps ?s3))" "find_one (\<lambda>f. frps_key f = (job, opId)) (db_frps ?s3) = Some f1"
    using down(2) f1(1) by (simp_all add: row_of_def)
  obtain f where f: "f \<in> set (db_frps (record_up m now' ?s3))" "frps_key f = (job, opId)" "f_state f = Up" "f_last_change f = now'"
    and dist: "distinct (map frps_key (db_frps (record_up m now' ?s3)))"
    using tunnel_row_tracks_flips [OF up3(1) refl, of job opId "Some i" Up None now'] up3(2) f1(2)
    by (auto simp: record_up_def m(2-4))
  have "db_frps s' = db_frps (record_up m now' ?s3)" by (simp add: reg)
  then have "row_of (job, opId) s' = Some f" using find_one_keyed [OF dist f(1)] f(2) by (simp add: row_of_def)
  then show ?thesis using events f(3,4) by blast
qed

section \<open>Examples\<close>

definition tunnel_event :: "frps_event_type \<Rightarrow> frps_reason option \<Rightarrow> frps_event" where
  "tunnel_event ty reason = \<lparr>ev_type = ty,
     ev_metadatas = Some [Some [(''deploymentId'', Some ''d''), (''jobId'', Some ''J''), (''opId'', Some ''op'')]], ev_reason = reason\<rparr>"

lemma tunnel_event_keys:
  "parseFrpsMetadata (ev_metadatas (tunnel_event ty reason)) ''deploymentId'' = Some ''d''"
  "parseFrpsMetadata (ev_metadatas (tunnel_event ty reason)) ''jobId'' = Some ''J''"
  "parseFrpsMetadata (ev_metadatas (tunnel_event ty reason)) ''opId'' = Some ''op''"
  by (simp_all add: tunnel_event_def parseFrpsMetadata_def metadata_pairs_def map_filter_def)

theorem tunnel_events_in_order_witness:
  "\<exists>url f. start_frps Some True (Some ''http://frps'') empty_db = Inr (Some (url, f)) \<and>
     map fst (fd_ran (feed_run default_worker_config
       [Receive (Frame UNREGISTERED (Some (tunnel_event UNREGISTERED (Some Lost)))), Receive (Frame REGISTERED None),
        Receive (Frame REGISTERED (Some (tunnel_event REGISTERED None))), Run 5] f)) = [tunnel_event UNREGISTERED (Some Lost)]"
proof -
  let ?ops = "[Receive (Frame UNREGISTERED (Some (tunnel_event UNREGISTERED (Some Lost)))), Receive (Frame REGISTERED None),
      Receive (Frame REGISTERED (Some (tunnel_event REGISTERED None))), Run 5]"
  obtain url f where f: "start_frps Some True (Some ''http://frps'') empty_db = Inr (Some (url, f))"
    by (simp add: start_frps_def)
  then have "fd_chain (feed_run default_worker_config ?ops f) = [tunnel_event REGISTERED None]"
    by (auto simp: feed_run_def start_frps_def frame_events_def tunnel_event_def)
  then show ?thesis
    using tunnel_events_in_order [OF f, of default_worker_config ?ops] f by (simp add: frame_events_def tunnel_event_def)
qed

theorem last_event_decides_witness:
  "row_state (''J'', ''op'') (run_handlers default_worker_config
     [(tunnel_event UNREGISTERED (Some Lost), 1), (tunnel_event REGISTERED None, 2)] empty_db) = Some (Up, None)"
proof -
  have wf: "tunnels_wf empty_db" by (simp add: tunnels_wf_def empty_db_def)
  have "tunnel_of (tunnel_event ty reason) = Some (''J'', ''op'')" for ty reason
    unfolding tunnel_of_def Let_def tunnel_event_keys by simp
  then show ?thesis
    using last_event_decides [OF wf, of default_worker_config "[(tunnel_event UNREGISTERED (Some Lost), 1), (tunnel_event REGISTERED None, 2)]"
      "(''J'', ''op'')"]
    by (simp add: told_state_def) (simp add: tunnel_event_def)
qed

definition up_db :: db where
  "up_db = startup_db\<lparr>db_frps := [\<lparr>f_job = ''J'', f_opId = ''op'', f_deploymentId = Some ''d'', f_state = Up, f_reason = None,
     f_last_change = 0, f_updated_at = 0\<rparr>]\<rparr>"

theorem replay_is_reported_witness:
  "length (db_events (frpsRegisterHandler (ev_metadatas (tunnel_event REGISTERED None)) 6
     (frpsUnregisterHandler default_worker_config (ev_metadatas (tunnel_event REGISTERED None)) (Some Lost) 5 up_db))) = 2"
proof -
  let ?ms = "ev_metadatas (tunnel_event REGISTERED None)"
  let ?m = "parseFrpsMetadata ?ms"
  have id: "d_id startup_deployment = ''d''" "isActiveInfiniteDeployment startup_deployment"
    by (simp_all add: startup_deployment_def isActiveInfiniteDeployment_def)
  have frames: "db_jobs (record_down ?m (Some Lost) 5 up_db) = db_jobs startup_db"
    "db_tasks up_db = []" "db_events up_db = []" "db_jobs up_db = db_jobs startup_db"
    by (simp_all add: up_db_def startup_db_def empty_db_def)
  obtain d where d: "find_one (\<lambda>d. d_id d = ''d'') (db_deployments (record_down ?m (Some Lost) 5 up_db)) = Some d"
      "isActiveInfiniteDeployment d"
    unfolding record_down_def tunnel_event_keys
    by (simp add: up_db_def startup_db_def empty_db_def recordEndpointState_def matches_def refreshDeploymentEndpointStatus_def
        find_one_def startup_deployment_def computeOnlineOpIds_def changed_ops_def frps_set_def isActiveInfiniteDeployment_def
        on_deployment_def set_endpoints_def startup_job_def)
  have job: "find_one (is_job_of ''d'' ''J'') (db_jobs startup_db) = Some startup_job" "job_active startup_job" "j_startup_deadline startup_job = None"
    by (simp_all add: startup_db_def find_one_def is_job_of_def startup_job_def example_job_def)
  have stop: "stoppable ?m (record_down ?m (Some Lost) 5 up_db) = Some (d, ''J'')"
    using job(2) by (simp add: stoppable_def tunnel_event_keys d job(1) frames)
  have "tunnels_wf up_db" "row_of (''J'', ''op'') up_db = Some (hd (db_frps up_db))" "f_state (hd (db_frps up_db)) = Up"
    by (simp_all add: tunnels_wf_def up_db_def row_of_def find_one_def frps_key_def)
  then show ?thesis
    using replay_is_reported [OF refl tunnel_event_keys [of REGISTERED None], where s = up_db and row = "hd (db_frps up_db)"
        and now = 5 and d = d and j = startup_job and now' = 6 and cfg = default_worker_config]
      stop job by (simp add: frames matches_iff default_worker_config_def)
qed

end
