(* ===== verification/Migrations.thy ===== *)
theory Migrations
  imports Vaults Endpoints
begin

text \<open>
  Migrations (\<open>src/connection/docdb/index.ts\<close> and \<open>migrations/\<close>): the runner and the processes
  that wait for it, and the migrations that rewrite what the program still reads: the keys of the vaults,
  the online flag of the endpoints, the market of single-GPU deployments, idle deployments. A migration
  is given by the states the store passes through, so that it can be cut off after any of its writes.
\<close>

section \<open>The runner\<close>

text \<open>The states after each write, and whether it returns (or throws after the last).\<close>

type_synonym 'd migration = "string \<times> ('d \<Rightarrow> 'd list \<times> bool)"

definition after_writes :: "nat \<Rightarrow> ('d \<Rightarrow> 'd list \<times> bool) \<Rightarrow> 'd \<Rightarrow> 'd" where
  "after_writes k m d = last (d # take k (fst (m d)))"

definition outcome :: "('d \<Rightarrow> 'd list \<times> bool) \<Rightarrow> 'd \<Rightarrow> 'd \<times> bool" where
  "outcome m d = (last (d # fst (m d)), snd (m d))"

record 'd migrated =
  mg_store :: 'd
  mg_applied :: "string list"

fun runPendingMigrations :: "'d migration list \<Rightarrow> 'd migrated \<Rightarrow> bool \<times> 'd migrated" where
  "runPendingMigrations [] w = (True, w)"
| "runPendingMigrations ((name, load) # expected) w =
     (if name \<in> set (mg_applied w) then runPendingMigrations expected w
      else (case outcome load (mg_store w) of
          (d, True) \<Rightarrow> runPendingMigrations expected \<lparr>mg_store = d, mg_applied = mg_applied w @ [name]\<rparr>
        | (d, False) \<Rightarrow> (False, w\<lparr>mg_store := d\<rparr>)))"

text \<open>The same, in a process that dies after \<open>k\<close> writes; the record of a migration is a write as well.\<close>

fun dies_after :: "nat \<Rightarrow> 'd migration list \<Rightarrow> 'd migrated \<Rightarrow> 'd migrated" where
  "dies_after k [] w = w"
| "dies_after k ((name, load) # expected) w =
     (if name \<in> set (mg_applied w) then dies_after k expected w
      else let writes = length (fst (load (mg_store w)))
           in if k \<le> writes \<or> \<not> snd (load (mg_store w)) then w\<lparr>mg_store := after_writes k load (mg_store w)\<rparr>
              else dies_after (k - writes - 1) expected
                     \<lparr>mg_store = fst (outcome load (mg_store w)), mg_applied = mg_applied w @ [name]\<rparr>)"

text \<open>\<open>ok\<close> is what the store's indexes and earlier migrations guarantee.\<close>

definition replayable :: "('d \<Rightarrow> bool) \<Rightarrow> ('d \<Rightarrow> 'd list \<times> bool) \<Rightarrow> bool" where
  "replayable ok m \<longleftrightarrow> (\<forall>k d. ok d \<longrightarrow> ok (after_writes k m d) \<and> outcome m (after_writes k m d) = outcome m d)"

lemma replayable_outcome:
  assumes "replayable ok m" and "ok d"
  shows "ok (fst (outcome m d))"
proof -
  have "ok (after_writes (length (fst (m d))) m d)" using assms unfolding replayable_def by blast
  then show ?thesis by (simp add: after_writes_def outcome_def)
qed

lemma dies_applied: "set (mg_applied w) \<subseteq> set (mg_applied (dies_after k ms w))"
proof (induction k ms w rule: dies_after.induct)
  case (2 k name load expected w)
  then show ?case by (auto simp: Let_def)
qed simp

lemma dies_then_runs:
  assumes "list_all (\<lambda>(name, m). replayable ok m) ms" and "ok (mg_store w)"
  shows "ok (mg_store (dies_after k ms w)) \<and> runPendingMigrations ms (dies_after k ms w) = runPendingMigrations ms w"
  using assms
proof (induction k ms w rule: dies_after.induct)
  case (2 k name load expected w)
  let ?writes = "length (fst (load (mg_store w)))"
  have replay: "ok (after_writes k load (mg_store w))" "outcome load (after_writes k load (mg_store w)) = outcome load (mg_store w)"
    and kept: "ok (fst (outcome load (mg_store w)))"
    using 2(3,4) replayable_outcome [of ok load "mg_store w"] by (simp_all add: replayable_def)
  consider "name \<in> set (mg_applied w)" | "name \<notin> set (mg_applied w)" "k \<le> ?writes \<or> \<not> snd (load (mg_store w))"
    | "name \<notin> set (mg_applied w)" "\<not> (k \<le> ?writes \<or> \<not> snd (load (mg_store w)))" by blast
  then show ?case
  proof cases
    case 1
    then have "name \<in> set (mg_applied (dies_after k expected w))" using dies_applied by blast
    with 1 2 show ?thesis by simp
  next
    case 2
    then show ?thesis using replay by (simp add: Let_def split: prod.split bool.split)
  next
    case 3
    let ?w = "\<lparr>mg_store = fst (outcome load (mg_store w)), mg_applied = mg_applied w @ [name]\<rparr>"
    have "name \<in> set (mg_applied (dies_after (k - ?writes - 1) expected ?w))"
      using dies_applied [of ?w] by auto
    moreover obtain d where d: "outcome load (mg_store w) = (d, True)"
      using 3 by (simp add: outcome_def)
    ultimately show ?thesis using 2(2) [OF 3(1) refl 3(2)] 2(3) 3 kept by (simp add: Let_def)
  qed
qed simp

lemma migrations_resume_for:
  assumes "list_all (\<lambda>(name, m). replayable ok m) expected" and "ok (mg_store w)"
  shows "runPendingMigrations expected (fold (\<lambda>k. dies_after k expected) ks w) = runPendingMigrations expected w"
  using assms(2)
  by (induction ks arbitrary: w) (simp_all add: dies_then_runs [OF assms(1)])

text \<open>
  A migrator that dies is made up for by its restart. When every migration may be replayed from any
  point of its own run, then however many times and wherever the process died before (within a migration,
  or between its last write and the record that it was applied), the run that comes through leaves the
  store, and the list of applied migrations, as one undisturbed run would have, and throws when it would.
\<close>

theorem migrations_resume:
  assumes "list_all (\<lambda>(name, m). replayable ok m) expected" and "ok (mg_store w)"
  shows "runPendingMigrations expected (fold (\<lambda>k. dies_after k expected) ks w) = runPendingMigrations expected w"
  using assms by (rule migrations_resume_for)

section \<open>Waiting for the migrations\<close>

text \<open>\<open>polls n\<close> is what the n-th poll finds applied. True: it returns; False: it gives up.\<close>

function await_from :: "nat \<Rightarrow> nat \<Rightarrow> string list \<Rightarrow> (nat \<Rightarrow> string list) \<Rightarrow> bool" where
  "await_from attempt maxAttempts expected polls =
     (if maxAttempts < attempt then True
      else if list_all (\<lambda>m. m \<in> set (polls attempt)) expected then True
      else if attempt = maxAttempts then False
      else await_from (attempt + 1) maxAttempts expected polls)"
  by pat_completeness auto
termination
  by (relation "measure (\<lambda>(attempt, maxAttempts, expected, polls). Suc maxAttempts - attempt)") auto

declare await_from.simps [simp del]

definition awaitMigrationsApplied :: "nat option \<Rightarrow> string list \<Rightarrow> (nat \<Rightarrow> string list) \<Rightarrow> bool" where
  "awaitMigrationsApplied maxAttempts expected polls = await_from 1 (nullish maxAttempts 30) expected polls"

lemma await_from_iff:
  "attempt \<le> maxAttempts \<Longrightarrow> await_from attempt maxAttempts expected polls \<longleftrightarrow>
     (\<exists>n. attempt \<le> n \<and> n \<le> maxAttempts \<and> set expected \<subseteq> set (polls n))"
proof (induction attempt maxAttempts expected polls rule: await_from.induct)
  case (1 attempt maxAttempts expected polls)
  show ?case
  proof (cases "list_all (\<lambda>m. m \<in> set (polls attempt)) expected \<or> attempt = maxAttempts")
    case True
    then show ?thesis using 1(2) by (subst await_from.simps) (auto simp: list_all_iff)
  next
    case False
    then have "await_from attempt maxAttempts expected polls = await_from (attempt + 1) maxAttempts expected polls"
      using 1(2) by (subst await_from.simps) simp
    moreover have "(\<exists>n. attempt \<le> n \<and> n \<le> maxAttempts \<and> set expected \<subseteq> set (polls n)) \<longleftrightarrow>
        (\<exists>n. attempt + 1 \<le> n \<and> n \<le> maxAttempts \<and> set expected \<subseteq> set (polls n))"
      using False by (metis (mono_tags, lifting) Suc_eq_plus1 Suc_leD le_antisym list_all_iff not_less_eq_eq subset_code(1))
    ultimately show ?thesis using 1 False by simp
  qed
qed

section \<open>The modes of a process (\<open>config/mode.ts\<close>)\<close>

datatype app_mode = Mode_all | Mode_api | Mode_worker | Mode_listeners | Mode_consumer

definition getAppMode :: "string option \<Rightarrow> app_mode option" where
  "getAppMode APP_MODE = map_of [(''all'', Mode_all), (''api'', Mode_api), (''worker'', Mode_worker),
     (''listeners'', Mode_listeners), (''consumer'', Mode_consumer)] (nullish APP_MODE ''all'')"

definition shouldRunApi :: "app_mode \<Rightarrow> bool" where
  "shouldRunApi mode \<longleftrightarrow> mode = Mode_all \<or> mode = Mode_api"

definition shouldRunListeners :: "app_mode \<Rightarrow> bool" where
  "shouldRunListeners mode \<longleftrightarrow> mode = Mode_all \<or> mode = Mode_worker \<or> mode = Mode_listeners"

definition shouldRunConsumer :: "app_mode \<Rightarrow> bool" where
  "shouldRunConsumer mode \<longleftrightarrow> mode = Mode_all \<or> mode = Mode_worker \<or> mode = Mode_consumer"

definition shouldRunWorker :: "app_mode \<Rightarrow> bool" where
  "shouldRunWorker mode \<longleftrightarrow> shouldRunListeners mode \<or> shouldRunConsumer mode"

text \<open>The end of \<open>init_db\<close>: whether the process goes on, and what it did.\<close>

definition init_db :: "app_mode \<Rightarrow> 'd migration list \<Rightarrow> (nat \<Rightarrow> string list) \<Rightarrow> 'd migrated \<Rightarrow> bool \<times> 'd migrated" where
  "init_db mode expected polls w =
     (if shouldRunListeners mode then runPendingMigrations expected w
      else (awaitMigrationsApplied None (map fst expected) polls, w))"

lemma run_applied: "runPendingMigrations ms w = (True, w') \<Longrightarrow> fst ` set ms \<union> set (mg_applied w) \<subseteq> set (mg_applied w')"
proof (induction ms arbitrary: w)
  case (Cons m ms)
  obtain name load where m: "m = (name, load)" by (cases m)
  show ?case
  proof (cases "name \<in> set (mg_applied w)")
    case True
    with Cons.prems have "runPendingMigrations ms w = (True, w')" by (simp add: m)
    from Cons.IH [OF this] True show ?thesis by (auto simp: m)
  next
    case False
    obtain d ok where out: "outcome load (mg_store w) = (d, ok)" by force
    with Cons.prems False have "runPendingMigrations ms \<lparr>mg_store = d, mg_applied = mg_applied w @ [name]\<rparr> = (True, w')"
      by (cases ok) (simp_all add: m)
    from Cons.IH [OF this] show ?thesis by (auto simp: m)
  qed
qed simp

text \<open>
  No process goes on before the migrations are applied, and only listeners apply them. Whatever its
  mode, a process that gets past \<open>init_db\<close> either has every expected migration recorded by its own run,
  or found them all recorded at one of at most thirty polls, having written nothing.
\<close>

theorem starts_migrated:
  "fst (init_db mode expected polls w) \<longrightarrow>
     (if shouldRunListeners mode then fst ` set expected \<subseteq> set (mg_applied (snd (init_db mode expected polls w)))
      else snd (init_db mode expected polls w) = w \<and> (\<exists>n. 1 \<le> n \<and> n \<le> 30 \<and> fst ` set expected \<subseteq> set (polls n)))"
proof (cases "shouldRunListeners mode")
  case True
  then show ?thesis using run_applied [of expected w "snd (runPendingMigrations expected w)"]
    by (cases "runPendingMigrations expected w") (simp add: init_db_def)
next
  case False
  then show ?thesis
    by (simp add: init_db_def awaitMigrationsApplied_def await_from_iff)
qed

theorem starts_migrated_witness:
  "snd (init_db Mode_api [(''1-a.js'', \<lambda>d. ([], True))] (\<lambda>n. [''1-a.js'']) \<lparr>mg_store = (), mg_applied = []\<rparr>) =
     \<lparr>mg_store = (), mg_applied = []\<rparr>"
proof -
  have "fst (init_db Mode_api [(''1-a.js'', \<lambda>d. ([], True))] (\<lambda>n. [''1-a.js'']) \<lparr>mg_store = (), mg_applied = []\<rparr>)"
    by (simp add: init_db_def shouldRunListeners_def awaitMigrationsApplied_def await_from.simps)
  with starts_migrated [of Mode_api "[(''1-a.js'', \<lambda>d. ([], True))]" "\<lambda>n. [''1-a.js'']" "\<lparr>mg_store = (), mg_applied = []\<rparr>"]
  show ?thesis by (simp add: shouldRunListeners_def)
qed

section \<open>Idle deployments and single GPUs\<close>

definition INSUFFICIENT_FUNDS_MAX_AGE_MS :: ms where
  "INSUFFICIENT_FUNDS_MAX_AGE_MS = 7 * 24 * 60 * 60 * 1000"

definition idle_deployment :: "ms \<Rightarrow> db \<Rightarrow> deployment_document \<Rightarrow> bool" where
  "idle_deployment now s d \<longleftrightarrow>
     d_id d \<notin> j_deployment ` set (filter (\<lambda>j. j_state j \<in> set [J_QUEUED, J_RUNNING]) (db_jobs s)) \<union> t_deploymentId ` set (db_tasks s) \<and>
     (d_status d = RUNNING \<or> d_status d = INSUFFICIENT_FUNDS \<and> d_updated_at d < now - INSUFFICIENT_FUNDS_MAX_AGE_MS)"

definition stopIdleDeployments :: "ms \<Rightarrow> db \<Rightarrow> db list \<times> bool" where
  "stopIdleDeployments now s =
     ([s\<lparr>db_deployments := update_many (idle_deployment now s) (\<lambda>d. d\<lparr>d_status := STOPPED\<rparr>) (db_deployments s)\<rparr>], True)"

text \<open>A requirement is a value or a list of them; \<open>reqs\<close> reads the requirements of a deployment.\<close>

datatype req_value = RV_number rat | RV_string string | RV_bool bool

datatype requirement = R_one req_value | R_list "req_value list"

definition singleGpuOf :: "(string \<times> requirement) list option \<Rightarrow> string option" where
  "singleGpuOf requirements = Option.bind requirements (\<lambda>rs.
     (case map_of rs ''name'' of
        None \<Rightarrow> None
      | Some r \<Rightarrow> (case (case r of R_list vs \<Rightarrow> vs | R_one v \<Rightarrow> [v]) of [RV_string gpu] \<Rightarrow> Some gpu | _ \<Rightarrow> None)))"

text \<open>host-manager's catalogue: a row per model and size, with the markets
  it is found in; the markets of its rows in order (the code drops repeated ones and uses the first).\<close>

definition markets_of :: "(string \<times> address list) list \<Rightarrow> string \<Rightarrow> address list" where
  "markets_of gpus name = concat (map snd (filter (\<lambda>(n, ms). n = name) gpus))"

definition pin_writes ::
    "(deployment_document \<Rightarrow> (string \<times> requirement) list option) \<Rightarrow> (string \<times> address list) list \<Rightarrow> db \<Rightarrow> (string \<times> address) list" where
  "pin_writes reqs gpus s = List.map_filter (\<lambda>d.
       (case singleGpuOf (reqs d) of
          None \<Rightarrow> None
        | Some gpu \<Rightarrow> (case markets_of gpus gpu of [] \<Rightarrow> None | market # _ \<Rightarrow> Some (d_id d, market))))
     (filter (\<lambda>d. d_market d = None \<and> (case reqs d of None \<Rightarrow> False | Some rs \<Rightarrow> map_of rs ''name'' \<noteq> None)) (db_deployments s))"

definition pin_market :: "string \<times> address \<Rightarrow> db \<Rightarrow> db" where
  "pin_market w s = s\<lparr>db_deployments :=
     update_one (\<lambda>d. d_id d = fst w \<and> d_market d = None) (\<lambda>d. d\<lparr>d_market := Some (snd w)\<rparr>) (db_deployments s)\<rparr>"

text \<open>What the unique index on the deployments' ids guarantees.\<close>

definition unique_ids :: "db \<Rightarrow> bool" where
  "unique_ids s \<longleftrightarrow> distinct (map d_id (db_deployments s))"

text \<open>The states a list of writes passes through.\<close>

fun passes :: "('w \<Rightarrow> 'd \<Rightarrow> 'd) \<Rightarrow> 'w list \<Rightarrow> 'd \<Rightarrow> 'd list" where
  "passes f [] d = []"
| "passes f (w # ws) d = f w d # passes f ws (f w d)"

definition pinSingleGpuDeploymentsToMarket ::
    "(deployment_document \<Rightarrow> (string \<times> requirement) list option) \<Rightarrow> (string \<times> address list) list \<Rightarrow> db \<Rightarrow> db list \<times> bool" where
  "pinSingleGpuDeploymentsToMarket reqs gpus s = (passes pin_market (pin_writes reqs gpus s) s, True)"

lemma last_passes: "last (d # take k (passes f ws d)) = fold f (take k ws) d"
proof (induction ws arbitrary: d k)
  case (Cons w ws)
  then show ?case by (cases k) (simp_all split: if_splits)
qed simp

lemma last_passes_all: "last (d # passes f ws d) = fold f ws d"
  using last_passes [of d "length ws" f ws] by (induction ws arbitrary: d) simp_all

lemma map_of_take: "distinct (map fst ws) \<Longrightarrow> map_of (take k ws) x = Some y \<Longrightarrow> map_of ws x = Some y"
  by (auto dest!: map_of_SomeD in_set_takeD)

lemma idle_replay: "replayable unique_ids (stopIdleDeployments now)"
  unfolding replayable_def
proof (intro allI impI conjI)
  fix k and s :: db
  assume "unique_ids s"
  then show "unique_ids (after_writes k (stopIdleDeployments now) s)"
    by (cases k) (simp_all add: unique_ids_def after_writes_def stopIdleDeployments_def map_update_many)
next
  fix k s
  let ?s = "s\<lparr>db_deployments := update_many (idle_deployment now s) (\<lambda>d. d\<lparr>d_status := STOPPED\<rparr>) (db_deployments s)\<rparr>"
  have "idle_deployment now ?s d = idle_deployment now s d" for d by (simp add: idle_deployment_def)
  moreover have "\<not> idle_deployment now s (d\<lparr>d_status := STOPPED\<rparr>)" for d by (simp add: idle_deployment_def)
  ultimately have "update_many (idle_deployment now ?s) (\<lambda>d. d\<lparr>d_status := STOPPED\<rparr>) (db_deployments ?s) = db_deployments ?s"
    by (auto simp: update_many_def)
  then have "outcome (stopIdleDeployments now) ?s = (?s, True)" by (simp add: outcome_def stopIdleDeployments_def)
  then show "outcome (stopIdleDeployments now) (after_writes k (stopIdleDeployments now) s) = outcome (stopIdleDeployments now) s"
    by (cases k) (simp_all add: after_writes_def outcome_def stopIdleDeployments_def)
qed

text \<open>The deployment a pin gives, as a function of the deployment alone.\<close>

definition pinned ::
    "(deployment_document \<Rightarrow> (string \<times> requirement) list option) \<Rightarrow> (string \<times> address list) list \<Rightarrow> deployment_document \<Rightarrow> deployment_document" where
  "pinned reqs gpus d = (case d_market d of Some m \<Rightarrow> d | None \<Rightarrow>
     (case singleGpuOf (reqs d) of None \<Rightarrow> d | Some gpu \<Rightarrow>
       (case markets_of gpus gpu of [] \<Rightarrow> d | market # _ \<Rightarrow> d\<lparr>d_market := Some market\<rparr>)))"

lemma update_one_unique:
  "distinct (map k c) \<Longrightarrow> (\<And>x. P x \<Longrightarrow> k x = i) \<Longrightarrow> update_one P f c = map (\<lambda>x. if P x then f x else x) c"
proof (induction c)
  case (Cons x c)
  show ?case
  proof (cases "P x")
    case True
    then have "\<not> P y" if "y \<in> set c" for y using Cons.prems that by force
    with True show ?thesis by (auto simp: map_idI)
  qed (use Cons in simp)
qed simp

definition pin_from :: "(string \<times> address) list \<Rightarrow> deployment_document \<Rightarrow> deployment_document" where
  "pin_from ws d = (if d_market d = None then (case map_of ws (d_id d) of None \<Rightarrow> d | Some m \<Rightarrow> d\<lparr>d_market := Some m\<rparr>) else d)"

lemma pin_from_id [simp]: "d_id (pin_from ws d) = d_id d"
  by (simp add: pin_from_def split: option.split)

lemma fold_pins:
  "distinct (map fst ws) \<Longrightarrow> unique_ids s \<Longrightarrow>
     fold pin_market ws s = s\<lparr>db_deployments := map (pin_from ws) (db_deployments s)\<rparr>"
proof (induction ws arbitrary: s)
  case Nil
  have "pin_from [] d = d" for d by (simp add: pin_from_def)
  then show ?case by simp
next
  case (Cons w ws)
  have one: "pin_market w s = s\<lparr>db_deployments := map (pin_from [w]) (db_deployments s)\<rparr>"
  proof -
    have "(if d_id d = fst w \<and> d_market d = None then d\<lparr>d_market := Some (snd w)\<rparr> else d) = pin_from [w] d" for d
      by (simp add: pin_from_def)
    moreover have "update_one (\<lambda>d. d_id d = fst w \<and> d_market d = None) (\<lambda>d. d\<lparr>d_market := Some (snd w)\<rparr>) (db_deployments s) =
        map (\<lambda>d. if d_id d = fst w \<and> d_market d = None then d\<lparr>d_market := Some (snd w)\<rparr> else d) (db_deployments s)"
      by (rule update_one_unique [where k = d_id and i = "fst w"]) (use Cons.prems(2) in \<open>simp_all add: unique_ids_def\<close>)
    ultimately show ?thesis by (simp add: pin_market_def)
  qed
  have "unique_ids (pin_market w s)" using Cons.prems(2) by (simp add: one unique_ids_def comp_def)
  then have "fold pin_market (w # ws) s = s\<lparr>db_deployments := map (pin_from ws) (map (pin_from [w]) (db_deployments s))\<rparr>"
    using Cons by (simp add: one)
  moreover have "pin_from ws (pin_from [w] d) = pin_from (w # ws) d" for d
  proof -
    have "map_of ws (fst w) = None" using Cons.prems(1) by (simp add: map_of_eq_None_iff)
    then show ?thesis by (cases "d_id d = fst w"; cases "map_of ws (d_id d)"; cases w) (simp_all add: pin_from_def)
  qed
  ultimately show ?case by (simp add: comp_def)
qed

lemma map_of_map_filter:
  assumes "distinct (map d_id ds)" and "\<And>d w. g d = Some w \<Longrightarrow> fst w = d_id d"
  shows "d \<in> set ds \<Longrightarrow> map_of (List.map_filter g ds) (d_id d) = map_option snd (g d)"
    and "set (map fst (List.map_filter g ds)) \<subseteq> d_id ` set ds"
    and "distinct (map fst (List.map_filter g ds))"
proof -
  have sub: "set (map fst (List.map_filter g ds)) \<subseteq> d_id ` set ds" for ds
  proof (induction ds)
    case (Cons e ds)
    then show ?case using assms(2) [of e] by (cases "g e") auto
  qed simp
  then show "set (map fst (List.map_filter g ds)) \<subseteq> d_id ` set ds" .
  show "distinct (map fst (List.map_filter g ds))"
    using assms(1)
  proof (induction ds)
    case (Cons e ds)
    then show ?case using sub [of ds] assms(2) [of e] by (cases "g e") auto
  qed simp
  show "d \<in> set ds \<Longrightarrow> map_of (List.map_filter g ds) (d_id d) = map_option snd (g d)"
    using assms(1)
  proof (induction ds)
    case (Cons e ds)
    have "d_id e \<notin> set (map fst (List.map_filter g ds))" using Cons.prems(2) sub [of ds] by auto
    then have none: "map_of (List.map_filter g ds) (d_id e) = None" by (simp add: map_of_eq_None_iff)
    show ?case
    proof (cases "d = e")
      case True
      then show ?thesis using none assms(2) [of e] by (cases "g e") auto
    next
      case False
      then have "d_id d \<noteq> d_id e" "d \<in> set ds" using Cons.prems by (auto simp: image_iff)
      then show ?thesis using Cons assms(2) [of e] by (cases "g e") auto
    qed
  qed simp
qed

lemma pin_writes_ids:
  "distinct (map d_id (db_deployments s)) \<Longrightarrow> distinct (map fst (pin_writes reqs gpus s))"
  unfolding pin_writes_def
  by (rule map_of_map_filter(3)) (auto simp: distinct_map_filter split: option.splits list.splits)

lemma pin_from_pinned:
  assumes ids: "unique_ids s" and d: "d \<in> set (db_deployments s)"
  shows "pin_from (pin_writes reqs gpus s) d = pinned reqs gpus d"
proof (cases "d_market d")
  case None
  let ?C = "\<lambda>d. d_market d = None \<and> (case reqs d of None \<Rightarrow> False | Some rs \<Rightarrow> map_of rs ''name'' \<noteq> None)"
  let ?g = "\<lambda>d. case singleGpuOf (reqs d) of None \<Rightarrow> None
    | Some gpu \<Rightarrow> (case markets_of gpus gpu of [] \<Rightarrow> None | market # _ \<Rightarrow> Some (d_id d, market))"
  have distinct: "distinct (map d_id (filter ?C (db_deployments s)))" using ids by (simp add: unique_ids_def distinct_map_filter)
  have keyed: "\<And>d w. ?g d = Some w \<Longrightarrow> fst w = d_id d" by (auto split: option.splits list.splits)
  have ws: "pin_writes reqs gpus s = List.map_filter ?g (filter ?C (db_deployments s))" by (simp add: pin_writes_def)
  show ?thesis
  proof (cases "?C d")
    case True
    then have "d \<in> set (filter ?C (db_deployments s))" using d by simp
    from map_of_map_filter(1) [where g = ?g, OF distinct keyed this]
    have "map_of (pin_writes reqs gpus s) (d_id d) = map_option snd (?g d)" by (simp only: ws)
    then show ?thesis using None
      by (cases "singleGpuOf (reqs d)"; cases "markets_of gpus (the (singleGpuOf (reqs d)))") (simp_all add: pin_from_def pinned_def)
  next
    case False
    have other: "d_id e \<noteq> d_id d" if "e \<in> set (filter ?C (db_deployments s))" for e
    proof
      assume "d_id e = d_id d"
      moreover have "inj_on d_id (set (db_deployments s))" "e \<in> set (db_deployments s)" "?C e"
        using ids that by (simp_all add: unique_ids_def distinct_map)
      ultimately show False using False d by (metis inj_onD)
    qed
    have "d_id d \<notin> d_id ` set (filter ?C (db_deployments s))"
    proof
      assume "d_id d \<in> d_id ` set (filter ?C (db_deployments s))"
      then obtain e where "d_id d = d_id e" "e \<in> set (filter ?C (db_deployments s))" by (rule imageE)
      with other [of e] show False by simp
    qed
    then have "d_id d \<notin> set (map fst (pin_writes reqs gpus s))"
      using map_of_map_filter(2) [where g = ?g, OF distinct keyed] unfolding ws by (rule contra_subsetD [rotated])
    then have "map_of (pin_writes reqs gpus s) (d_id d) = None" by (simp add: map_of_eq_None_iff)
    moreover have "singleGpuOf (reqs d) = None" using False None by (cases "reqs d") (auto simp: singleGpuOf_def)
    ultimately show ?thesis using None by (simp add: pin_from_def pinned_def)
  qed
qed (simp add: pin_from_def pinned_def)

lemma pinned_twice: "pinned reqs gpus (pinned reqs gpus d) = pinned reqs gpus d"
  by (auto simp: pinned_def split: option.splits list.splits)

lemma pins_outcome:
  assumes ids: "unique_ids s"
  shows "outcome (pinSingleGpuDeploymentsToMarket reqs gpus) (after_writes k (pinSingleGpuDeploymentsToMarket reqs gpus) s) =
     (s\<lparr>db_deployments := map (pinned reqs gpus) (db_deployments s)\<rparr>, True)"
proof -
  let ?ws = "pin_writes reqs gpus s"
  have run: "fold pin_market ws s = s\<lparr>db_deployments := map (pin_from ws) (db_deployments s)\<rparr>"
    if "unique_ids s" "ws = take k (pin_writes reqs gpus s)" for s k ws
    using that pin_writes_ids [of s reqs gpus] by (intro fold_pins) (simp_all add: unique_ids_def flip: take_map)
  have all_pins: "map (pin_from (pin_writes reqs gpus s)) (db_deployments s) = map (pinned reqs gpus) (db_deployments s)"
    if "unique_ids s" for s
    using pin_from_pinned [OF that] by (intro map_cong) simp_all
  define mid where "mid = after_writes k (pinSingleGpuDeploymentsToMarket reqs gpus) s"
  have mid: "mid = s\<lparr>db_deployments := map (pin_from (take k ?ws)) (db_deployments s)\<rparr>"
    using run [OF ids refl, of k] by (simp only: mid_def after_writes_def pinSingleGpuDeploymentsToMarket_def fst_conv last_passes)
  then have "unique_ids mid" using ids by (simp add: unique_ids_def comp_def)
  then have "outcome (pinSingleGpuDeploymentsToMarket reqs gpus) mid = (mid\<lparr>db_deployments := map (pinned reqs gpus) (db_deployments mid)\<rparr>, True)"
    using run [of mid "pin_writes reqs gpus mid" "length (pin_writes reqs gpus mid)"] all_pins [of mid]
    by (simp only: outcome_def pinSingleGpuDeploymentsToMarket_def fst_conv snd_conv last_passes_all) simp
  also have "mid\<lparr>db_deployments := map (pinned reqs gpus) (db_deployments mid)\<rparr> =
      s\<lparr>db_deployments := map (pinned reqs gpus) (db_deployments s)\<rparr>"
  proof -
    have "pinned reqs gpus (pin_from (take k ?ws) d) = pinned reqs gpus d" if "d \<in> set (db_deployments s)" for d
    proof (cases "map_of (take k ?ws) (d_id d)")
      case (Some m)
      then have "map_of ?ws (d_id d) = Some m"
        using ids by (intro map_of_take [OF pin_writes_ids Some]) (simp add: unique_ids_def)
      with Some have "pin_from (take k ?ws) d = pin_from ?ws d" by (simp add: pin_from_def)
      then have "pin_from (take k ?ws) d = pinned reqs gpus d" by (simp only: pin_from_pinned [OF ids that])
      then show ?thesis by (simp add: pinned_twice)
    qed (simp add: pin_from_def)
    then show ?thesis by (simp add: mid comp_def)
  qed
  finally show ?thesis by (simp add: mid_def)
qed

text \<open>
  A deployment for one GPU gets the GPU's market, once. After the migration, also one that was cut
  off after any of its writes and run again, exactly the deployments without a market whose requirements
  name a single GPU model that the catalogue lists have changed, and each only in its market, the first
  the catalogue has for the model.
\<close>

theorem single_gpus_pinned:
  assumes "unique_ids s"
  shows "outcome (pinSingleGpuDeploymentsToMarket reqs gpus) (after_writes k (pinSingleGpuDeploymentsToMarket reqs gpus) s) =
     (s\<lparr>db_deployments := map (\<lambda>d.
        case (d_market d, singleGpuOf (reqs d)) of
          (None, Some gpu) \<Rightarrow> (case markets_of gpus gpu of [] \<Rightarrow> d | market # _ \<Rightarrow> d\<lparr>d_market := Some market\<rparr>)
        | _ \<Rightarrow> d) (db_deployments s)\<rparr>, True)"
proof -
  have "pinned reqs gpus d = (case (d_market d, singleGpuOf (reqs d)) of
          (None, Some gpu) \<Rightarrow> (case markets_of gpus gpu of [] \<Rightarrow> d | market # _ \<Rightarrow> d\<lparr>d_market := Some market\<rparr>)
        | _ \<Rightarrow> d)" for d
    by (simp add: pinned_def split: option.split)
  with pins_outcome [OF assms, of reqs gpus k] show ?thesis by presburger
qed

lemma pin_replay: "replayable unique_ids (pinSingleGpuDeploymentsToMarket reqs gpus)"
  unfolding replayable_def
proof (intro allI impI conjI)
  fix k s
  assume ids: "unique_ids s"
  show "outcome (pinSingleGpuDeploymentsToMarket reqs gpus) (after_writes k (pinSingleGpuDeploymentsToMarket reqs gpus) s) =
      outcome (pinSingleGpuDeploymentsToMarket reqs gpus) s"
    using pins_outcome [OF ids, of reqs gpus k] pins_outcome [OF ids, of reqs gpus 0] by (simp add: after_writes_def)
  have "after_writes k (pinSingleGpuDeploymentsToMarket reqs gpus) s = fold pin_market (take k (pin_writes reqs gpus s)) s"
    by (simp only: after_writes_def pinSingleGpuDeploymentsToMarket_def fst_conv last_passes)
  also have "\<dots> = s\<lparr>db_deployments := map (pin_from (take k (pin_writes reqs gpus s))) (db_deployments s)\<rparr>"
    using ids pin_writes_ids [of s reqs gpus] by (intro fold_pins) (simp_all add: unique_ids_def flip: take_map)
  finally show "unique_ids (after_writes k (pinSingleGpuDeploymentsToMarket reqs gpus) s)"
    using ids by (simp add: unique_ids_def comp_def)
qed

definition example_gpu_db :: db where
  "example_gpu_db = empty_db\<lparr>db_deployments := [blank_deployment ''D'' ''O'' RUNNING, blank_deployment ''E'' ''O'' STOPPED]\<rparr>"

definition example_migrations :: "db migration list" where
  "example_migrations =
     [(''20'', pinSingleGpuDeploymentsToMarket (\<lambda>d. Some [(''name'', R_one (RV_string ''A100''))]) [(''A100'', [''M''])]),
      (''21'', stopIdleDeployments 0)]"

theorem migrations_resume_witness:
  "runPendingMigrations example_migrations (dies_after 1 example_migrations \<lparr>mg_store = example_gpu_db, mg_applied = []\<rparr>) =
   runPendingMigrations example_migrations \<lparr>mg_store = example_gpu_db, mg_applied = []\<rparr>"
proof -
  have "list_all (\<lambda>(name, m). replayable unique_ids m) example_migrations"
    by (simp add: example_migrations_def pin_replay idle_replay)
  moreover have "unique_ids (mg_store \<lparr>mg_store = example_gpu_db, mg_applied = []\<rparr>)"
    by (simp add: unique_ids_def example_gpu_db_def blank_deployment_def)
  ultimately show ?thesis
    using migrations_resume [of unique_ids example_migrations "\<lparr>mg_store = example_gpu_db, mg_applied = []\<rparr>" "[1]"] by simp
qed

theorem single_gpus_pinned_witness:
  "map d_market (db_deployments (fst (outcome (pinSingleGpuDeploymentsToMarket
       (\<lambda>d. if d_id d = ''D'' then Some [(''name'', R_one (RV_string ''A100''))] else None) [(''A100'', [''M''])])
     example_gpu_db))) = [Some ''M'', None]"
proof -
  have "unique_ids example_gpu_db" by (simp add: unique_ids_def example_gpu_db_def blank_deployment_def)
  from single_gpus_pinned [OF this, of "\<lambda>d. if d_id d = ''D'' then Some [(''name'', R_one (RV_string ''A100''))] else None" "[(''A100'', [''M''])]" 0]
  show ?thesis
    by (simp add: after_writes_def example_gpu_db_def blank_deployment_def singleGpuOf_def markets_of_def)
qed

end
