(* ===== verification/Data_Migrations.thy ===== *)
theory Data_Migrations
  imports Migrations
begin

text \<open>
  Migrations of data that is read ever after (\<open>src/connection/docdb/migrations\<close>): the keys of the
  vaults, encrypted by number 5 and cut to the private key by number 6, and the online flag that number
  18 gives every stored endpoint. What a migration writes is a list, so that a run can stop in it.
\<close>

section \<open>The keys of the vaults\<close>

definition set_key :: "address \<times> string \<Rightarrow> vault_document list \<Rightarrow> vault_document list" where
  "set_key w vs = update_one (\<lambda>v. w_vault v = fst w) (\<lambda>v. v\<lparr>w_vault_key := snd w\<rparr>) vs"

text \<open>Number 5: each key is encrypted, under an IV of its own. \<open>isAddress\<close> is the kit's test.\<close>

definition migrateEncryptAllKeys ::
    "vault_cipher \<Rightarrow> string option \<Rightarrow> (address \<Rightarrow> string) \<Rightarrow> (address \<Rightarrow> bool) \<Rightarrow> vault_document list \<Rightarrow> (address \<times> string) list" where
  "migrateEncryptAllKeys vc password iv isAddress vaults =
     map (\<lambda>v. (w_vault v, encryptWithKey vc password (iv (w_vault v)) (w_vault_key v))) (filter (\<lambda>v. isAddress (w_vault v)) vaults)"

text \<open>
  Number 6: the first 32 bytes of a key, whose key pair must be the vault's. \<open>address_of\<close> is the kit's
  address of a private key (None: it throws). The writes before the first throw, and whether there is none.
\<close>

fun migrateVaultKeysToSolanaKit ::
    "vault_cipher \<Rightarrow> string option \<Rightarrow> (string \<Rightarrow> rat option) \<Rightarrow> (8 word list \<Rightarrow> address option) \<Rightarrow> (address \<Rightarrow> string) \<Rightarrow> (address \<Rightarrow> bool)
     \<Rightarrow> vault_document list \<Rightarrow> (address \<times> string) list \<times> bool" where
  "migrateVaultKeysToSolanaKit vc password other address_of iv isAddress [] = ([], True)"
| "migrateVaultKeysToSolanaKit vc password other address_of iv isAddress (v # vaults) =
     (let rest = migrateVaultKeysToSolanaKit vc password other address_of iv isAddress vaults
      in if \<not> isAddress (w_vault v) then rest
         else case decryptWithKey vc password (w_vault_key v) of
             None \<Rightarrow> ([], False)
           | Some key \<Rightarrow>
               if starts_with key ''nos_'' then rest
               else let newKey = take 32 (convertStringToUint8Array other key)
                    in if address_of newKey \<noteq> Some (w_vault v) then ([], False)
                       else ((w_vault v, encryptWithKey vc password (iv (w_vault v)) (bytes_text newKey)) # fst rest, snd rest))"

text \<open>A vault's key as its worker reads it, and what number 6 makes of it.\<close>

definition shortened :: "credential option \<Rightarrow> credential option" where
  "shortened c = (case c of Some (Wallet bytes) \<Rightarrow> Some (Wallet (take 32 bytes)) | _ \<Rightarrow> c)"

definition wallet_matches :: "(8 word list \<Rightarrow> address option) \<Rightarrow> address \<Rightarrow> credential option \<Rightarrow> bool" where
  "wallet_matches address_of vault c = (case c of None \<Rightarrow> False | Some (Api_key key) \<Rightarrow> True
     | Some (Wallet bytes) \<Rightarrow> bytes \<noteq> [] \<and> address_of (take 32 bytes) = Some vault)"

lemma set_key_vaults [simp]: "map w_vault (set_key w vs) = map w_vault vs"
  by (simp add: set_key_def map_update_one)

text \<open>A vault after a list of writes to different vaults.\<close>

definition rekeyed :: "(address \<times> string) list \<Rightarrow> vault_document \<Rightarrow> vault_document" where
  "rekeyed ws v = (case map_of ws (w_vault v) of None \<Rightarrow> v | Some k \<Rightarrow> v\<lparr>w_vault_key := k\<rparr>)"

lemma rekeyed_vault [simp]: "w_vault (rekeyed ws v) = w_vault v"
  by (simp add: rekeyed_def split: option.split)

lemma fold_set_key:
  "distinct (map w_vault vs) \<Longrightarrow> distinct (map fst ws) \<Longrightarrow>
     fold set_key ws vs = map (rekeyed ws) vs"
proof (induction ws arbitrary: vs)
  case (Cons w ws)
  have one: "set_key w vs = map (\<lambda>v. if w_vault v = fst w then v\<lparr>w_vault_key := snd w\<rparr> else v) vs"
    unfolding set_key_def using Cons.prems(1) by (rule update_one_keyed)
  have none: "map_of ws (fst w) = None" using Cons.prems(2) by (simp add: map_of_eq_None_iff)
  have "fold set_key (w # ws) vs = map (rekeyed ws) (set_key w vs)"
    using Cons.IH [of "set_key w vs"] Cons.prems by simp
  also have "\<dots> = map (rekeyed (w # ws)) vs"
    unfolding one using none by (cases w) (simp add: comp_def rekeyed_def)
  finally show ?case .
next
  case Nil
  have "rekeyed [] v = v" for v by (simp add: rekeyed_def)
  then show ?case by simp
qed

lemma kit_writes:
  "distinct (map w_vault vs) \<Longrightarrow>
     set (map fst (fst (migrateVaultKeysToSolanaKit vc password other address_of iv isAddress vs))) \<subseteq> w_vault ` set vs \<and>
     distinct (map fst (fst (migrateVaultKeysToSolanaKit vc password other address_of iv isAddress vs)))"
proof (induction vs)
  case (Cons v vs)
  then show ?case by (auto simp: Let_def split: option.splits)
qed simp

text \<open>The key the migration writes for a vault.\<close>

lemma kit_key:
  assumes "distinct (map w_vault vs)"
    and "\<forall>v \<in> set vs. isAddress (w_vault v) \<longrightarrow> wallet_matches address_of (w_vault v) (prepareWorker vc password other (w_vault_key v))"
  shows "snd (migrateVaultKeysToSolanaKit vc password other address_of iv isAddress vs) \<and>
     (\<forall>v \<in> set vs. map_of (fst (migrateVaultKeysToSolanaKit vc password other address_of iv isAddress vs)) (w_vault v) =
        (case prepareWorker vc password other (w_vault_key v) of
           Some (Wallet bytes) \<Rightarrow> if isAddress (w_vault v) then Some (encryptWithKey vc password (iv (w_vault v)) (bytes_text (take 32 bytes))) else None
         | _ \<Rightarrow> None))"
  using assms
proof (induction vs)
  case (Cons v vs)
  let ?rest = "migrateVaultKeysToSolanaKit vc password other address_of iv isAddress vs"
  have none: "map_of (fst ?rest) (w_vault v) = None"
  proof -
    have "w_vault v \<notin> w_vault ` set vs" "distinct (map w_vault vs)" using Cons.prems(1) by simp_all
    then have "w_vault v \<notin> set (map fst (fst ?rest))"
      using kit_writes [of vs vc password other address_of iv isAddress] by blast
    then show ?thesis by (simp add: map_of_eq_None_iff)
  qed
  have IH: "snd ?rest" "\<forall>v \<in> set vs. map_of (fst ?rest) (w_vault v) =
      (case prepareWorker vc password other (w_vault_key v) of
           Some (Wallet bytes) \<Rightarrow> if isAddress (w_vault v) then Some (encryptWithKey vc password (iv (w_vault v)) (bytes_text (take 32 bytes))) else None
         | _ \<Rightarrow> None)"
    using Cons by simp_all
  have other_vault: "x \<in> set vs \<Longrightarrow> w_vault x \<noteq> w_vault v" for x using Cons.prems(1) by (auto simp: image_iff)
  consider "\<not> isAddress (w_vault v)" | key where "isAddress (w_vault v)" "decryptWithKey vc password (w_vault_key v) = Some key" "starts_with key ''nos_''"
    | key where "isAddress (w_vault v)" "decryptWithKey vc password (w_vault_key v) = Some key" "\<not> starts_with key ''nos_''"
        "address_of (take 32 (convertStringToUint8Array other key)) = Some (w_vault v)"
  proof (cases "isAddress (w_vault v)")
    case True
    then have "wallet_matches address_of (w_vault v) (prepareWorker vc password other (w_vault_key v))" using Cons.prems(2) by simp
    then show thesis using that True
      by (cases "decryptWithKey vc password (w_vault_key v)") (auto simp: wallet_matches_def prepareWorker_def split: if_splits)
  qed (use that in blast)
  then show ?case
  proof cases
    case 1
    then show ?thesis using IH none by (auto simp: prepareWorker_def split: option.splits)
  next
    case 2
    then show ?thesis using IH none by (auto simp: prepareWorker_def)
  next
    case 3
    then show ?thesis using IH other_vault by (auto simp: prepareWorker_def Let_def)
  qed
qed simp

lemma take_32_twice: "shortened (shortened c) = shortened c"
  by (simp add: shortened_def split: option.split credential.split)

text \<open>A vault after the first \<open>k\<close> writes: as it was, or with its private key alone.\<close>

lemma kit_prefix:
  assumes opens: "\<And>vault. cipher_opens vc (iv vault)" and vaults: "distinct (map w_vault vs)"
    and wallets: "\<forall>v \<in> set vs. isAddress (w_vault v) \<longrightarrow> wallet_matches address_of (w_vault v) (prepareWorker vc password other (w_vault_key v))"
    and v: "v \<in> set vs"
  defines "ws \<equiv> fst (migrateVaultKeysToSolanaKit vc password other address_of iv isAddress vs)"
  shows "rekeyed (take k ws) v = v \<or> isAddress (w_vault v) \<and>
      prepareWorker vc password other (w_vault_key (rekeyed (take k ws) v)) = shortened (prepareWorker vc password other (w_vault_key v))"
    and "isAddress (w_vault v) \<Longrightarrow>
      prepareWorker vc password other (w_vault_key (rekeyed ws v)) = shortened (prepareWorker vc password other (w_vault_key v))"
    and "\<not> isAddress (w_vault v) \<Longrightarrow> rekeyed ws v = v"
proof -
  have key: "map_of ws (w_vault v) = (case prepareWorker vc password other (w_vault_key v) of
      Some (Wallet bytes) \<Rightarrow> if isAddress (w_vault v) then Some (encryptWithKey vc password (iv (w_vault v)) (bytes_text (take 32 bytes))) else None
    | _ \<Rightarrow> None)"
    using kit_key [OF vaults wallets, of iv] v by (simp add: ws_def)
  have new: "prepareWorker vc password other (encryptWithKey vc password (iv (w_vault v)) (bytes_text (take 32 bytes))) = Some (Wallet (take 32 bytes))"
    if "prepareWorker vc password other (w_vault_key v) = Some (Wallet bytes)" "isAddress (w_vault v)" for bytes
  proof -
    have "take 32 bytes \<noteq> []" using wallets v that by (auto simp: wallet_matches_def)
    then show ?thesis using opens by (simp add: prepareWorker_def decrypt_encrypt text_round bytes_text_not_api_key)
  qed
  show whole: "isAddress (w_vault v) \<Longrightarrow>
      prepareWorker vc password other (w_vault_key (rekeyed ws v)) = shortened (prepareWorker vc password other (w_vault_key v))"
    using key new by (cases "prepareWorker vc password other (w_vault_key v)")
      (auto simp: rekeyed_def shortened_def split: credential.splits)
  show same: "\<not> isAddress (w_vault v) \<Longrightarrow> rekeyed ws v = v"
    using key by (simp add: rekeyed_def split: option.splits credential.splits)
  have distinct: "distinct (map fst ws)" using kit_writes [OF vaults] by (simp add: ws_def)
  show "rekeyed (take k ws) v = v \<or> isAddress (w_vault v) \<and>
      prepareWorker vc password other (w_vault_key (rekeyed (take k ws) v)) = shortened (prepareWorker vc password other (w_vault_key v))"
  proof (cases "map_of (take k ws) (w_vault v)")
    case (Some y)
    then have "rekeyed (take k ws) v = rekeyed ws v" using map_of_take [OF distinct Some] by (simp add: rekeyed_def)
    then show ?thesis using whole same by auto
  qed (simp add: rekeyed_def)
qed

text \<open>
  Cutting the keys to their private half survives a crash. Number 6 may die after any of its writes;
  its next run, whatever IVs it draws, does not throw, leaves every vault with the private key of its
  address (an API key with its API key) as its worker reads it, and the other documents as they were.
\<close>

theorem private_keys_survive_a_crash:
  assumes opens: "\<forall>vault. cipher_opens vc (iv vault) \<and> cipher_opens vc (iv' vault)" and vaults: "distinct (map w_vault vs)"
    and wallets: "\<forall>v \<in> set vs. isAddress (w_vault v) \<longrightarrow> wallet_matches address_of (w_vault v) (prepareWorker vc password other (w_vault_key v))"
    and died: "vs1 = fold set_key (take k (fst (migrateVaultKeysToSolanaKit vc password other address_of iv isAddress vs))) vs"
  shows "\<exists>ws. migrateVaultKeysToSolanaKit vc password other address_of iv' isAddress vs1 = (ws, True) \<and>
     list_all2 (\<lambda>v v'. w_vault v' = w_vault v \<and>
         (if isAddress (w_vault v)
          then prepareWorker vc password other (w_vault_key v') = shortened (prepareWorker vc password other (w_vault_key v)) else v' = v))
       vs (fold set_key ws vs1)"
proof -
  let ?M = "\<lambda>iv. migrateVaultKeysToSolanaKit vc password other address_of iv isAddress"
  let ?cred = "\<lambda>v. prepareWorker vc password other (w_vault_key v)"
  let ?ws1 = "take k (fst (?M iv vs))"
  have "distinct (map fst ?ws1)"
    using kit_writes [OF vaults, of vc password other address_of iv isAddress] by (simp flip: take_map)
  then have vs1: "vs1 = map (rekeyed ?ws1) vs"
    using fold_set_key [OF vaults, of ?ws1] by (simp add: died)
  have vaults1: "distinct (map w_vault vs1)" using vaults by (simp add: vs1 comp_def)
  have prefix: "rekeyed ?ws1 v = v \<or> isAddress (w_vault v) \<and> ?cred (rekeyed ?ws1 v) = shortened (?cred v)" if "v \<in> set vs" for v
    using opens kit_prefix(1) [OF _ vaults wallets that, of iv k] by blast
  have wallets1: "\<forall>v \<in> set vs1. isAddress (w_vault v) \<longrightarrow> wallet_matches address_of (w_vault v) (?cred v)"
  proof (intro ballI impI)
    fix v1 assume "v1 \<in> set vs1" and a: "isAddress (w_vault v1)"
    then obtain v where v: "v \<in> set vs" "v1 = rekeyed ?ws1 v" by (auto simp: vs1)
    have "wallet_matches address_of (w_vault v) (?cred v)" using wallets v a by simp
    then show "wallet_matches address_of (w_vault v1) (?cred v1)"
      using prefix [OF v(1)] v(2) by (auto simp: wallet_matches_def shortened_def split: option.splits credential.splits)
  qed
  obtain ws where ws: "?M iv' vs1 = (ws, True)"
    using kit_key [OF vaults1 wallets1, of iv'] by (metis prod.collapse)
  have "distinct (map fst ws)" using kit_writes [OF vaults1, of vc password other address_of iv' isAddress] by (simp add: ws)
  then have "fold set_key ws vs1 = map (\<lambda>v. rekeyed ws (rekeyed ?ws1 v)) vs"
    using fold_set_key [OF vaults1, of ws] by (simp add: vs1 comp_def)
  moreover have "if isAddress (w_vault v) then ?cred (rekeyed ws (rekeyed ?ws1 v)) = shortened (?cred v)
      else rekeyed ws (rekeyed ?ws1 v) = v" if "v \<in> set vs" for v
  proof -
    have "rekeyed ?ws1 v \<in> set vs1" using that by (simp add: vs1)
    note last = kit_prefix(2,3) [OF _ vaults1 wallets1 this, of iv', unfolded ws fst_conv rekeyed_vault]
    show ?thesis using prefix [OF that] last opens by (auto simp: take_32_twice)
  qed
  ultimately have "list_all2 (\<lambda>v v'. w_vault v' = w_vault v \<and>
      (if isAddress (w_vault v) then ?cred v' = shortened (?cred v) else v' = v)) vs (fold set_key ws vs1)"
    by (simp add: list_all2_map2 list_all2_same)
  with ws show ?thesis by blast
qed

lemma encrypted_key:
  assumes "distinct (map w_vault vs)" and "v \<in> set (take k (filter (\<lambda>v. isAddress (w_vault v)) vs))"
  shows "distinct (map fst (take k (migrateEncryptAllKeys vc password iv isAddress vs)))"
    and "w_vault_key (rekeyed (take k (migrateEncryptAllKeys vc password iv isAddress vs)) v) =
           encryptWithKey vc password (iv (w_vault v)) (w_vault_key v)"
proof -
  let ?ws = "take k (migrateEncryptAllKeys vc password iv isAddress vs)"
  have ws: "?ws = map (\<lambda>v. (w_vault v, encryptWithKey vc password (iv (w_vault v)) (w_vault_key v))) (take k (filter (\<lambda>v. isAddress (w_vault v)) vs))"
    by (simp add: migrateEncryptAllKeys_def take_map)
  have "distinct (map w_vault (take k (filter (\<lambda>v. isAddress (w_vault v)) vs)))"
    using assms(1) by (simp add: distinct_map_filter flip: take_map)
  then show distinct: "distinct (map fst ?ws)" by (simp add: ws comp_def)
  have "(w_vault v, encryptWithKey vc password (iv (w_vault v)) (w_vault_key v)) \<in> set ?ws"
    using assms(2) by (auto simp: ws)
  with distinct have "map_of ?ws (w_vault v) = Some (encryptWithKey vc password (iv (w_vault v)) (w_vault_key v))"
    by (rule map_of_is_SomeI)
  then show "w_vault_key (rekeyed ?ws v) = encryptWithKey vc password (iv (w_vault v)) (w_vault_key v)"
    by (simp add: rekeyed_def)
qed

text \<open>
  But encrypting the keys does not. Nothing tells an encrypted key from a plain one, so when number 5
  dies after it has encrypted a vault's key, its next run encrypts the key again. What a worker then
  decrypts is the first ciphertext, not the key; the vault's funds are out of the program's reach.
\<close>

theorem interrupted_encryption_is_repeated:
  assumes password: "truthy_string password" and opens: "cipher_opens vc (iv' (w_vault v))"
    and vaults: "distinct (map w_vault vs)" and v: "v \<in> set (take k (filter (\<lambda>v. isAddress (w_vault v)) vs))"
    and plain: "CHR '':'' \<notin> set (w_vault_key v)"
    and died: "vs1 = fold set_key (take k (migrateEncryptAllKeys vc password iv isAddress vs)) vs"
  shows "\<exists>v2 \<in> set (fold set_key (migrateEncryptAllKeys vc password iv' isAddress vs1) vs1). w_vault v2 = w_vault v \<and>
     decryptWithKey vc password (w_vault_key v2) = Some (encryptWithKey vc password (iv (w_vault v)) (w_vault_key v)) \<and>
     decryptWithKey vc password (w_vault_key v2) \<noteq> Some (w_vault_key v)"
proof -
  let ?ws = "take k (migrateEncryptAllKeys vc password iv isAddress vs)"
  have vs1: "vs1 = map (rekeyed ?ws) vs"
    using fold_set_key [OF vaults encrypted_key(1) [OF vaults v]] by (simp add: died)
  have vaults1: "distinct (map w_vault vs1)" using vaults by (simp add: vs1 comp_def)
  define v1 where "v1 = rekeyed ?ws v"
  have v_in: "v \<in> set vs" "isAddress (w_vault v)" using v by (auto dest: in_set_takeD)
  then have v1: "v1 \<in> set (take (length (filter (\<lambda>v. isAddress (w_vault v)) vs1)) (filter (\<lambda>v. isAddress (w_vault v)) vs1))"
    by (auto simp: vs1 v1_def)
  have key1: "w_vault_key v1 = encryptWithKey vc password (iv (w_vault v)) (w_vault_key v)"
    unfolding v1_def by (rule encrypted_key(2) [OF vaults v])
  have whole: "take (length (filter (\<lambda>v. isAddress (w_vault v)) vs1)) (migrateEncryptAllKeys vc password iv' isAddress vs1) =
      migrateEncryptAllKeys vc password iv' isAddress vs1"
    by (simp add: migrateEncryptAllKeys_def)
  define v2 where "v2 = rekeyed (migrateEncryptAllKeys vc password iv' isAddress vs1) v1"
  have "fold set_key (migrateEncryptAllKeys vc password iv' isAddress vs1) vs1 = map (rekeyed (migrateEncryptAllKeys vc password iv' isAddress vs1)) vs1"
    using fold_set_key [OF vaults1 encrypted_key(1) [OF vaults1 v1], of vc password iv'] by (simp only: whole)
  moreover have "v1 \<in> set vs1" using v_in by (simp add: vs1 v1_def)
  ultimately have "v2 \<in> set (fold set_key (migrateEncryptAllKeys vc password iv' isAddress vs1) vs1)"
    by (simp add: v2_def)
  moreover have "w_vault_key v2 = encryptWithKey vc password (iv' (w_vault v)) (w_vault_key v1)"
    using encrypted_key(2) [OF vaults1 v1, of vc password iv'] by (simp add: whole v2_def v1_def)
  moreover have "w_vault_key v1 \<noteq> w_vault_key v"
  proof -
    have "CHR '':'' \<in> set (w_vault_key v1)" using password
      by (cases "vc_seal vc (the password) (iv (w_vault v)) (w_vault_key v)") (simp add: key1 encryptWithKey_def)
    with plain show ?thesis by metis
  qed
  ultimately show ?thesis using opens key1
    by (intro bexI [of _ v2]) (simp_all add: decrypt_encrypt v2_def v1_def)
qed

definition example_vault :: "string \<Rightarrow> vault_document" where
  "example_vault key = \<lparr>w_vault = ''V'', w_vault_key = key, w_owner = ''O'', w_created_at = 0\<rparr>"

theorem private_keys_survive_a_crash_witness:
  "\<exists>ws. migrateVaultKeysToSolanaKit example_cipher None (\<lambda>text. None) (\<lambda>bytes. Some ''V'') (\<lambda>v. ''0f'') (\<lambda>v. True)
      (fold set_key (take 1 (fst (migrateVaultKeysToSolanaKit example_cipher None (\<lambda>text. None) (\<lambda>bytes. Some ''V'')
        (\<lambda>v. ''0f'') (\<lambda>v. True) [example_vault ''4,0'']))) [example_vault ''4,0'']) = (ws, True)"
proof -
  have "wallet_matches (\<lambda>bytes. Some ''V'') ''V'' (prepareWorker example_cipher None (\<lambda>text. None) ''4,0'')"
    by (simp add: wallet_matches_def prepareWorker_def decryptWithKey_def convertStringToUint8Array_def
        covertStringToIterable_def js_number_def trim_def is_space_def is_digit_def undigits_def char_digit_def)
  then have "\<forall>v \<in> set [example_vault ''4,0'']. True \<longrightarrow>
      wallet_matches (\<lambda>bytes. Some ''V'') (w_vault v) (prepareWorker example_cipher None (\<lambda>text. None) (w_vault_key v))"
    by (simp add: example_vault_def)
  from private_keys_survive_a_crash [where vc = example_cipher and iv = "\<lambda>v. ''0f''" and iv' = "\<lambda>v. ''0f''"
      and isAddress = "\<lambda>v. True" and k = 1, OF _ _ this refl] show ?thesis
    by (auto simp: example_cipher_opens)
qed

theorem interrupted_encryption_is_repeated_witness:
  "\<exists>vs1 v2. vs1 = fold set_key (take 1 (migrateEncryptAllKeys example_cipher (Some ''secret'') (\<lambda>v. ''0f'') (\<lambda>v. True)
       [example_vault ''4,0''])) [example_vault ''4,0''] \<and>
     v2 \<in> set (fold set_key (migrateEncryptAllKeys example_cipher (Some ''secret'') (\<lambda>v. ''0f'') (\<lambda>v. True) vs1) vs1) \<and>
     decryptWithKey example_cipher (Some ''secret'') (w_vault_key v2) \<noteq> Some ''4,0''"
proof -
  let ?W = "\<lambda>vs. migrateEncryptAllKeys example_cipher (Some ''secret'') (\<lambda>v. ''0f'') (\<lambda>v. True) vs"
  define vs1 where "vs1 = fold set_key (take 1 (?W [example_vault ''4,0''])) [example_vault ''4,0'']"
  have "example_vault ''4,0'' \<in> set (take 1 (filter (\<lambda>v. True) [example_vault ''4,0'']))" "CHR '':'' \<notin> set (w_vault_key (example_vault ''4,0''))"
    by (simp_all add: example_vault_def)
  from interrupted_encryption_is_repeated [OF _ _ _ this vs1_def, of "\<lambda>v. ''0f''"] example_cipher_opens
  obtain v2 where "v2 \<in> set (fold set_key (?W vs1) vs1)" "decryptWithKey example_cipher (Some ''secret'') (w_vault_key v2) \<noteq> Some ''4,0''"
    by (auto simp: example_vault_def)
  then show ?thesis unfolding vs1_def by blast
qed

section \<open>The online flag of the endpoints\<close>

text \<open>A stored endpoint from before the flag has none.\<close>

record raw_endpoint =
  re_opId :: string
  re_online :: "bool option"

type_synonym raw_deployments = "(string \<times> raw_endpoint list) list"

definition pending_ids :: "raw_deployments \<Rightarrow> string list" where
  "pending_ids ds = map fst (filter (\<lambda>(i, es). list_ex (\<lambda>e. re_online e = None) es) ds)"

text \<open>The reachable ops of a deployment, of tunnels of any running job of a pending deployment.\<close>

definition online_ops :: "string list \<Rightarrow> db \<Rightarrow> string \<Rightarrow> string list" where
  "online_ops ids s i =
     (let runningJobs = map j_job (filter (\<lambda>j. j_deployment j \<in> set ids \<and> j_state j = J_RUNNING) (db_jobs s));
          up = filter (\<lambda>f. f_deploymentId f \<in> Some ` set ids \<and> f_state f = Up) (db_frps s)
      in remdups (map f_opId (filter (\<lambda>f. truthy_string (f_deploymentId f) \<and> f_job f \<in> set runningJobs \<and> f_deploymentId f = Some i) up)))"

text \<open>One update of a batch: the deployment, the ops its filter lists, whether it takes those or the others.\<close>

type_synonym online_write = "string \<times> string list \<times> bool"

definition fill_endpoint :: "string list \<Rightarrow> bool \<Rightarrow> raw_endpoint \<Rightarrow> raw_endpoint" where
  "fill_endpoint online v e = (if (re_opId e \<in> set online) = v \<and> re_online e = None then e\<lparr>re_online := Some v\<rparr> else e)"

definition fill_online :: "online_write \<Rightarrow> raw_deployments \<Rightarrow> raw_deployments" where
  "fill_online w ds = (case w of (i, online, v) \<Rightarrow> update_one (\<lambda>d. fst d = i) (\<lambda>(k, es). (k, map (fill_endpoint online v) es)) ds)"

text \<open>The batches as they are flushed.\<close>

fun online_batches :: "string list \<Rightarrow> db \<Rightarrow> string list \<Rightarrow> online_write list \<Rightarrow> online_write list list" where
  "online_batches ids s [] batch = (if batch = [] then [] else [batch])"
| "online_batches ids s (i # todo) batch =
     (let online = online_ops ids s i; pair = [(i, online, True), (i, online, False)]
      in if BULK_WRITE_BATCH_SIZE < length batch + 2
         then (if batch = [] then [] else [batch]) @ online_batches ids s todo pair
         else online_batches ids s todo (batch @ pair))"

definition migrateEndpointsToOnline :: "db \<Rightarrow> raw_deployments \<Rightarrow> raw_deployments" where
  "migrateEndpointsToOnline s ds =
     (let ids = pending_ids ds in fold (fold fill_online) (online_batches ids s ids []) ds)"

definition backfilled :: "db \<Rightarrow> string \<Rightarrow> raw_endpoint \<Rightarrow> raw_endpoint" where
  "backfilled s i e = (case re_online e of Some b \<Rightarrow> e | None \<Rightarrow> e\<lparr>re_online := Some (re_opId e \<in> set (computeOnlineOpIds i s))\<rparr>)"

lemma batches_concat:
  "concat (online_batches ids s todo batch) = batch @ concat (map (\<lambda>i. [(i, online_ops ids s i, True), (i, online_ops ids s i, False)]) todo)"
  by (induction ids s todo batch rule: online_batches.induct) (simp_all add: Let_def)

lemma batches_small:
  "length batch \<le> BULK_WRITE_BATCH_SIZE \<Longrightarrow> b \<in> set (online_batches ids s todo batch) \<Longrightarrow> b \<noteq> [] \<and> length b \<le> BULK_WRITE_BATCH_SIZE"
proof (induction ids s todo batch rule: online_batches.induct)
  case (2 ids s i todo batch)
  then show ?case by (auto simp: Let_def BULK_WRITE_BATCH_SIZE_def split: if_splits)
qed (auto split: if_splits)

lemma fold_concat: "fold (fold f) xss x = fold f (concat xss) x"
  by (induction xss arbitrary: x) simp_all

lemma fill_online_ids [simp]: "map fst (fill_online w ds) = map fst ds"
  by (cases w) (auto simp: fill_online_def intro!: map_update_one)

lemma fill_pair:
  "distinct (map fst ds) \<Longrightarrow> fill_online (i, online, False) (fill_online (i, online, True) ds) =
     map (\<lambda>d. if fst d = i then (i, map (\<lambda>e. fill_endpoint online False (fill_endpoint online True e)) (snd d)) else d) ds"
proof -
  assume ds: "distinct (map fst ds)"
  have one: "fill_online (i, online, v) ds = map (\<lambda>d. if fst d = i then (i, map (fill_endpoint online v) (snd d)) else d) ds"
    if "distinct (map fst ds)" for v ds
    using update_one_keyed [OF that, of i "\<lambda>(k, es). (k, map (fill_endpoint online v) es)"]
    by (auto simp: fill_online_def intro!: map_cong)
  have "distinct (map fst (fill_online (i, online, True) ds))"
    using ds by simp
  from one [OF this] show ?thesis by (simp add: one [OF ds] comp_def)
qed

lemma fill_both: "fill_endpoint online False (fill_endpoint online True e) =
    (case re_online e of None \<Rightarrow> e\<lparr>re_online := Some (re_opId e \<in> set online)\<rparr> | Some b \<Rightarrow> e)"
  by (simp add: fill_endpoint_def split: option.split)

lemma fill_all:
  "distinct (map fst ds) \<Longrightarrow> distinct todo \<Longrightarrow>
     fold fill_online (concat (map (\<lambda>i. [(i, ops i, True), (i, ops i, False)]) todo)) ds =
       map (\<lambda>d. if fst d \<in> set todo then (fst d, map (\<lambda>e. case re_online e of None \<Rightarrow> e\<lparr>re_online := Some (re_opId e \<in> set (ops (fst d)))\<rparr> | Some b \<Rightarrow> e) (snd d)) else d) ds"
proof (induction todo arbitrary: ds)
  case (Cons i todo)
  let ?fill = "\<lambda>d. map (\<lambda>e. case re_online e of None \<Rightarrow> e\<lparr>re_online := Some (re_opId e \<in> set (ops (fst d)))\<rparr> | Some b \<Rightarrow> e) (snd d)"
  let ?ds = "fill_online (i, ops i, False) (fill_online (i, ops i, True) ds)"
  have "distinct (map fst ?ds)" using Cons.prems(1) by simp
  then have "fold fill_online (concat (map (\<lambda>i. [(i, ops i, True), (i, ops i, False)]) (i # todo))) ds =
      map (\<lambda>d. if fst d \<in> set todo then (fst d, ?fill d) else d) ?ds"
    using Cons.IH [of ?ds] Cons.prems(2) by simp
  also have "\<dots> = map (\<lambda>d. if fst d \<in> set (i # todo) then (fst d, ?fill d) else d) ds"
    using Cons.prems(2) by (auto simp: fill_pair [OF Cons.prems(1)] fill_both)
  finally show ?case .
qed simp

lemma online_ops_agree:
  assumes rows: "\<forall>f \<in> set (db_frps s). \<forall>j \<in> set (db_jobs s). f_job f = j_job j \<longrightarrow> f_deploymentId f = Some (j_deployment j)"
    and i: "i \<in> set ids" "i \<noteq> []"
  shows "set (online_ops ids s i) = set (computeOnlineOpIds i s)"
proof -
  let ?runs = "\<lambda>I f. f_job f \<in> j_job ` {j \<in> set (db_jobs s). j_deployment j \<in> I \<and> j_state j = J_RUNNING}"
  have same: "{f \<in> set (db_frps s). f_deploymentId f = Some i \<and> f_state f = Up \<and> ?runs (set ids) f} =
      {f \<in> set (db_frps s). f_deploymentId f = Some i \<and> f_state f = Up \<and> ?runs {i} f}"
    using rows i(1) by fastforce
  have "set (online_ops ids s i) = f_opId ` {f \<in> set (db_frps s). f_deploymentId f = Some i \<and> f_state f = Up \<and> ?runs (set ids) f}"
    using i by (auto simp: online_ops_def Let_def)
  also have "\<dots> = set (computeOnlineOpIds i s)"
    unfolding same by (auto simp: computeOnlineOpIds_def Let_def)
  finally show ?thesis .
qed

text \<open>
  The flags that are filled in are the ones the listeners would compute. After number 18 every stored
  endpoint has an online flag: its own where it had one, and otherwise what \<open>computeOnlineOpIds\<close> says of
  its deployment, as long as a tunnel's row names the deployment of its job. No bulk write it sends is
  empty or above the database's limit.
\<close>

theorem online_flags_backfilled:
  assumes ids: "distinct (map fst ds)" "[] \<notin> fst ` set ds"
    and rows: "\<forall>f \<in> set (db_frps s). \<forall>j \<in> set (db_jobs s). f_job f = j_job j \<longrightarrow> f_deploymentId f = Some (j_deployment j)"
  shows "migrateEndpointsToOnline s ds = map (\<lambda>(i, es). (i, map (backfilled s i) es)) ds \<and>
     (\<forall>b \<in> set (online_batches (pending_ids ds) s (pending_ids ds) []). b \<noteq> [] \<and> length b \<le> BULK_WRITE_BATCH_SIZE)"
proof
  let ?ids = "pending_ids ds"
  have pending: "distinct ?ids" using ids(1) by (simp add: pending_ids_def distinct_map_filter)
  have "migrateEndpointsToOnline s ds = map (\<lambda>d. if fst d \<in> set ?ids
      then (fst d, map (\<lambda>e. case re_online e of None \<Rightarrow> e\<lparr>re_online := Some (re_opId e \<in> set (online_ops ?ids s (fst d)))\<rparr> | Some b \<Rightarrow> e) (snd d))
      else d) ds"
    using fill_all [OF ids(1) pending, of "online_ops ?ids s"]
    by (simp add: migrateEndpointsToOnline_def Let_def fold_concat batches_concat)
  also have "\<dots> = map (\<lambda>(i, es). (i, map (backfilled s i) es)) ds"
  proof (rule map_cong [OF refl])
    fix d assume d: "d \<in> set ds"
    obtain i es where ies: "d = (i, es)" by (cases d)
    show "(if fst d \<in> set ?ids then (fst d, map (\<lambda>e. case re_online e of
          None \<Rightarrow> e\<lparr>re_online := Some (re_opId e \<in> set (online_ops ?ids s (fst d)))\<rparr> | Some b \<Rightarrow> e) (snd d)) else d) =
        (case d of (i, es) \<Rightarrow> (i, map (backfilled s i) es))"
    proof (cases "i \<in> set ?ids")
      case True
      moreover have "i \<noteq> []" using imageI [OF d, of fst] ids(2) by (metis fst_conv ies)
      ultimately show ?thesis by (simp add: ies backfilled_def online_ops_agree [OF rows] split: option.split)
    next
      case False
      then have "\<forall>e \<in> set es. re_online e \<noteq> None" using d by (force simp: ies pending_ids_def list_ex_iff)
      then have "map (backfilled s i) es = es" by (intro map_idI) (auto simp: backfilled_def)
      with False show ?thesis by (simp add: ies)
    qed
  qed
  finally show "migrateEndpointsToOnline s ds = map (\<lambda>(i, es). (i, map (backfilled s i) es)) ds" .
  show "\<forall>b \<in> set (online_batches ?ids s ?ids []). b \<noteq> [] \<and> length b \<le> BULK_WRITE_BATCH_SIZE"
    using batches_small [of "[]"] by simp
qed

theorem online_flags_backfilled_witness:
  "migrateEndpointsToOnline (empty_db\<lparr>db_jobs := [example_running_job ''J'' (Some ''N'')],
      db_frps := [\<lparr>f_job = ''J'', f_opId = ''op'', f_deploymentId = Some ''D'', f_state = Up, f_reason = None, f_last_change = 0, f_updated_at = 0\<rparr>]\<rparr>)
     [(''D'', [\<lparr>re_opId = ''op'', re_online = None\<rparr>, \<lparr>re_opId = ''x'', re_online = None\<rparr>])] =
   [(''D'', [\<lparr>re_opId = ''op'', re_online = Some True\<rparr>, \<lparr>re_opId = ''x'', re_online = Some False\<rparr>])]"
proof -
  let ?s = "empty_db\<lparr>db_jobs := [example_running_job ''J'' (Some ''N'')],
      db_frps := [\<lparr>f_job = ''J'', f_opId = ''op'', f_deploymentId = Some ''D'', f_state = Up, f_reason = None, f_last_change = 0, f_updated_at = 0\<rparr>]\<rparr>"
  have "\<forall>f \<in> set (db_frps ?s). \<forall>j \<in> set (db_jobs ?s). f_job f = j_job j \<longrightarrow> f_deploymentId f = Some (j_deployment j)"
    by (simp add: example_running_job_def)
  from online_flags_backfilled [OF _ _ this, of "[(''D'', [\<lparr>re_opId = ''op'', re_online = None\<rparr>, \<lparr>re_opId = ''x'', re_online = None\<rparr>])]"]
  show ?thesis by (simp add: backfilled_def computeOnlineOpIds_def example_running_job_def)
qed

end
