(* ===== verification/Worker_Stats.thy ===== *)
theory Worker_Stats
  imports Tracker Schema_Safety
begin

text \<open>
  The statistics of a consumer process (\<open>src/stats/index.ts\<close>) and the collectors they drive
  (\<open>src/metrics/worker.ts\<close>): what the counts, the mean duration and the gauge are after any run of tasks, and
  how the consumer reports a run's end (\<open>src/tasks/queue/consumer/index.ts\<close>).
\<close>

section \<open>The collectors (\<open>metrics/worker.ts\<close>)\<close>

datatype finished_reason = Finished_completed | Finished_failed | Finished_timeout

datatype worker_outcome = Successful | Failed_outcome | Timed_out

record worker_metrics =
  wm_running :: "(string \<times> task_type) list"
  wm_in_progress :: "task_type \<Rightarrow> int"
  wm_total :: "task_type \<Rightarrow> worker_outcome \<Rightarrow> nat"
  wm_durations :: "task_type \<Rightarrow> rat list"
  wm_started_at :: int
  wm_last_finished :: "int option"

definition seconds :: "ms \<Rightarrow> int" where
  "seconds now = now div 1000"

definition makeWorkerMetrics :: "ms \<Rightarrow> worker_metrics" where
  "makeWorkerMetrics now = \<lparr>wm_running = [], wm_in_progress = (\<lambda>_. 0), wm_total = (\<lambda>_ _. 0), wm_durations = (\<lambda>_. []),
     wm_started_at = seconds now, wm_last_finished = None\<rparr>"

definition recordTaskStart :: "string \<Rightarrow> task_type \<Rightarrow> worker_metrics \<Rightarrow> worker_metrics" where
  "recordTaskStart taskId taskType m = m\<lparr>wm_running := map_set taskId taskType (wm_running m),
     wm_in_progress := (wm_in_progress m)(taskType := wm_in_progress m taskType + 1)\<rparr>"

definition recordTaskFinish :: "string \<Rightarrow> rat \<Rightarrow> worker_outcome \<Rightarrow> ms \<Rightarrow> worker_metrics \<Rightarrow> worker_metrics" where
  "recordTaskFinish taskId durationSeconds outcome now m = (case map_of (wm_running m) taskId of
     None \<Rightarrow> m
   | Some ty \<Rightarrow> m\<lparr>wm_running := filter (\<lambda>e. fst e \<noteq> taskId) (wm_running m),
       wm_in_progress := (wm_in_progress m)(ty := wm_in_progress m ty - 1),
       wm_total := (wm_total m)(ty := (wm_total m ty)(outcome := Suc (wm_total m ty outcome))),
       wm_durations := (wm_durations m)(ty := wm_durations m ty @ [durationSeconds]),
       wm_last_finished := Some (seconds now)\<rparr>)"

section \<open>The statistics (\<open>stats/index.ts\<close>)\<close>

record job_counts =
  jc_listed :: nat
  jc_extended :: nat
  jc_stopped :: nat

record task_counts =
  tc_in_progress :: int
  tc_failed :: nat
  tc_successful :: nat
  tc_timed_out :: nat
  tc_average_time_ms :: rat

record stats =
  st_started_at :: ms
  st_jobs :: job_counts
  st_tasks :: task_counts

text \<open>
  The module's state. \<open>in_progress_tasks\<close> is keyed by the \<open>ObjectId\<close> object itself, not by its value: a key is
  the identity of the object, with the id it holds.
\<close>

type_synonym oid_ref = "nat \<times> object_id"

record stats_state =
  ss_stats :: "stats option"
  ss_in_progress :: "(oid_ref \<times> task_type \<times> ms) list"
  ss_metrics :: "worker_metrics option"

definition fresh_stats :: stats_state where
  "fresh_stats = \<lparr>ss_stats = None, ss_in_progress = [], ss_metrics = None\<rparr>"

definition initStats :: "ms \<Rightarrow> stats_state \<Rightarrow> stats_state" where
  "initStats now s = s\<lparr>ss_stats := Some \<lparr>st_started_at = now,
     st_jobs = \<lparr>jc_listed = 0, jc_extended = 0, jc_stopped = 0\<rparr>,
     st_tasks = \<lparr>tc_in_progress = 0, tc_failed = 0, tc_successful = 0, tc_timed_out = 0, tc_average_time_ms = 0\<rparr>\<rparr>\<rparr>"

definition registerWorkerMetrics :: "worker_metrics \<Rightarrow> stats_state \<Rightarrow> stats_state" where
  "registerWorkerMetrics m s = s\<lparr>ss_metrics := Some m\<rparr>"

text \<open>None: it throws, the statistics not being initialised.\<close>

definition addTaskStat :: "oid_ref \<Rightarrow> task_type \<Rightarrow> ms \<Rightarrow> stats_state \<Rightarrow> stats_state option" where
  "addTaskStat taskId taskType now s = (case ss_stats s of
     None \<Rightarrow> None
   | Some st \<Rightarrow> Some (s\<lparr>
       ss_in_progress := map_set taskId (taskType, now) (ss_in_progress s),
       ss_stats := Some (st\<lparr>st_tasks := (st_tasks st)\<lparr>tc_in_progress := tc_in_progress (st_tasks st) + 1\<rparr>\<rparr>),
       ss_metrics := map_option (recordTaskStart (toHexString (snd taskId)) taskType) (ss_metrics s)\<rparr>))"

definition REASON_TO_OUTCOME :: "finished_reason \<Rightarrow> worker_outcome" where
  "REASON_TO_OUTCOME reason = (case reason of
     Finished_completed \<Rightarrow> Successful | Finished_failed \<Rightarrow> Failed_outcome | Finished_timeout \<Rightarrow> Timed_out)"

definition count_reason :: "finished_reason \<Rightarrow> task_counts \<Rightarrow> task_counts" where
  "count_reason reason t = (case reason of
     Finished_completed \<Rightarrow> t\<lparr>tc_successful := Suc (tc_successful t)\<rparr>
   | Finished_failed \<Rightarrow> t\<lparr>tc_failed := Suc (tc_failed t)\<rparr>
   | Finished_timeout \<Rightarrow> t\<lparr>tc_timed_out := Suc (tc_timed_out t)\<rparr>)"

definition count_jobs :: "task_type \<Rightarrow> nat \<Rightarrow> job_counts \<Rightarrow> job_counts" where
  "count_jobs taskType n j = (case taskType of
     LIST \<Rightarrow> j\<lparr>jc_listed := jc_listed j + n\<rparr>
   | EXTEND \<Rightarrow> j\<lparr>jc_extended := jc_extended j + n\<rparr>
   | STOP \<Rightarrow> j\<lparr>jc_stopped := jc_stopped j + n\<rparr>)"

definition add_duration :: "int \<Rightarrow> task_counts \<Rightarrow> task_counts" where
  "add_duration d t = t\<lparr>tc_average_time_ms := tc_average_time_ms t +
     (of_int d - tc_average_time_ms t) / of_nat (tc_successful t + tc_failed t + tc_timed_out t)\<rparr>"

definition removeTaskStat :: "oid_ref \<Rightarrow> nat \<Rightarrow> finished_reason \<Rightarrow> ms \<Rightarrow> stats_state \<Rightarrow> stats_state option" where
  "removeTaskStat taskId successCount reason now s = (case ss_stats s of
     None \<Rightarrow> None
   | Some st \<Rightarrow> Some (case map_of (ss_in_progress s) taskId of
       None \<Rightarrow> s
     | Some (taskType, startTime) \<Rightarrow>
         (let d = now - startTime; counted = add_duration d (count_reason reason (st_tasks st))
          in s\<lparr>ss_in_progress := filter (\<lambda>e. fst e \<noteq> taskId) (ss_in_progress s),
               ss_stats := Some (st\<lparr>st_jobs := count_jobs taskType successCount (st_jobs st),
                 st_tasks := counted\<lparr>tc_in_progress := tc_in_progress counted - 1\<rparr>\<rparr>),
               ss_metrics := map_option (recordTaskFinish (toHexString (snd taskId)) (of_int d / 1000) (REASON_TO_OUTCOME reason) now)
                 (ss_metrics s)\<rparr>)))"

definition getStats :: "stats_state \<Rightarrow> stats option" where
  "getStats s = ss_stats s"

section \<open>What a history comes to\<close>

datatype stat_op = Begin oid_ref task_type ms | Finish oid_ref nat finished_reason ms

definition stat_step :: "stat_op \<Rightarrow> stats_state option \<Rightarrow> stats_state option" where
  "stat_step op s = Option.bind s (case op of
     Begin r ty t \<Rightarrow> addTaskStat r ty t | Finish r n reason t \<Rightarrow> removeTaskStat r n reason t)"

definition stat_run :: "stat_op list \<Rightarrow> stats_state \<Rightarrow> stats_state option" where
  "stat_run ops s = fold stat_step ops (Some s)"

text \<open>
  The reference: the tasks that run, in the order they began, and those that ended, each with its type, its
  duration, its count and the reason. A task that runs is not begun again: the consumer skips a task that
  is in flight.
\<close>

type_synonym ended = "task_type \<times> int \<times> nat \<times> finished_reason"

fun history :: "(oid_ref \<times> task_type \<times> ms) list \<Rightarrow> stat_op list \<Rightarrow> (oid_ref \<times> task_type \<times> ms) list \<times> ended list" where
  "history run [] = (run, [])"
| "history run (Begin r ty t # ops) = history (run @ [(r, ty, t)]) ops"
| "history run (Finish r n reason t # ops) = (case map_of run r of
     None \<Rightarrow> history run ops
   | Some (ty, t0) \<Rightarrow> (let (run', es) = history (filter (\<lambda>e. fst e \<noteq> r) run) ops in (run', (ty, t - t0, n, reason) # es)))"

fun begins_once :: "oid_ref list \<Rightarrow> stat_op list \<Rightarrow> bool" where
  "begins_once run [] = True"
| "begins_once run (Begin r ty t # ops) = (snd r < 16 ^ 24 \<and> snd r \<notin> snd ` set run \<and> begins_once (run @ [r]) ops)"
| "begins_once run (Finish r n reason t # ops) = begins_once (filter (\<lambda>x. x \<noteq> r) run) ops"

definition mean :: "int list \<Rightarrow> rat" where
  "mean ds = (if ds = [] then 0 else of_int (sum_list ds) / of_nat (length ds))"

definition ended_by :: "finished_reason \<Rightarrow> ended list \<Rightarrow> nat" where
  "ended_by reason es = length (filter (\<lambda>(ty, d, n, r). r = reason) es)"

definition jobs_of :: "task_type \<Rightarrow> ended list \<Rightarrow> nat" where
  "jobs_of ty es = sum_list (map (\<lambda>(ty', d, n, r). if ty' = ty then n else 0) es)"

definition stats_of :: "ms \<Rightarrow> (oid_ref \<times> task_type \<times> ms) list \<Rightarrow> ended list \<Rightarrow> stats" where
  "stats_of t0 run es = \<lparr>st_started_at = t0,
     st_jobs = \<lparr>jc_listed = jobs_of LIST es, jc_extended = jobs_of EXTEND es, jc_stopped = jobs_of STOP es\<rparr>,
     st_tasks = \<lparr>tc_in_progress = int (length run), tc_failed = ended_by Finished_failed es,
       tc_successful = ended_by Finished_completed es, tc_timed_out = ended_by Finished_timeout es,
       tc_average_time_ms = mean (map (\<lambda>(ty, d, n, r). d) es)\<rparr>\<rparr>"

definition collected :: "(oid_ref \<times> task_type \<times> ms) list \<Rightarrow> ended list \<Rightarrow> worker_metrics \<Rightarrow> bool" where
  "collected run es m \<longleftrightarrow>
     wm_running m = map (\<lambda>(r, ty, t). (toHexString (snd r), ty)) run \<and>
     (\<forall>ty. wm_in_progress m ty = int (length (filter (\<lambda>(r, ty', t). ty' = ty) run)) \<and>
        (\<forall>reason. wm_total m ty (REASON_TO_OUTCOME reason) = length (filter (\<lambda>(ty', d, n, r). ty' = ty \<and> r = reason) es)) \<and>
        wm_durations m ty = map (\<lambda>(ty', d, n, r). of_int d / 1000) (filter (\<lambda>(ty', d, n, r). ty' = ty) es))"

definition accounts :: "ms \<Rightarrow> (oid_ref \<times> task_type \<times> ms) list \<Rightarrow> ended list \<Rightarrow> stats_state \<Rightarrow> bool" where
  "accounts t0 run es s \<longleftrightarrow> ss_stats s = Some (stats_of t0 run es) \<and> ss_in_progress s = run \<and>
     (case ss_metrics s of None \<Rightarrow> True | Some m \<Rightarrow> collected run es m)"

section \<open>Each step keeps the account\<close>

lemma reason_outcome [simp]: "REASON_TO_OUTCOME r = REASON_TO_OUTCOME r' \<longleftrightarrow> r = r'"
  by (cases r; cases r') (simp_all add: REASON_TO_OUTCOME_def)

lemma ended_count: "ended_by Finished_completed es + ended_by Finished_failed es + ended_by Finished_timeout es = length es"
  unfolding ended_by_def by (induction es) (auto split: prod.splits, metis finished_reason.exhaust)

lemma mean_snoc: "mean (ds @ [d]) = mean ds + (of_int d - mean ds) / of_nat (Suc (length ds))"
proof -
  have "of_int (sum_list ds) = mean ds * of_nat (length ds)" by (simp add: mean_def)
  then show ?thesis by (simp add: mean_def field_simps)
qed

definition runs_apart :: "(oid_ref \<times> task_type \<times> ms) list \<Rightarrow> bool" where
  "runs_apart run \<longleftrightarrow> distinct (map (\<lambda>e. snd (fst e)) run) \<and> (\<forall>e \<in> set run. snd (fst e) < 16 ^ 24)"

lemma account_begin:
  assumes acc: "accounts t0 run es s" and apart: "runs_apart run"
    and fresh: "snd r < 16 ^ 24" "snd r \<notin> snd ` fst ` set run"
  shows "\<exists>s'. addTaskStat r ty t s = Some s' \<and> accounts t0 (run @ [(r, ty, t)]) es s' \<and> (ss_metrics s' = None \<longleftrightarrow> ss_metrics s = None)"
proof -
  let ?names = "map (\<lambda>(r, ty, t). (toHexString (snd r), ty)) run"
  have r: "r \<notin> fst ` set run" using fresh by force
  have hex: "toHexString (snd r) \<notin> fst ` set ?names"
  proof
    assume "toHexString (snd r) \<in> fst ` set ?names"
    then obtain r' ty' t' where e: "(r', ty', t') \<in> set run" "toHexString (snd r) = toHexString (snd r')" by auto
    then have "snd r' < 16 ^ 24" using apart by (force simp: runs_apart_def)
    then have "snd r = snd r'" using toHexString_inject [OF fresh(1)] e(2) by blast
    then show False using fresh(2) e(1) by force
  qed
  have started: "collected (run @ [(r, ty, t)]) es (recordTaskStart (toHexString (snd r)) ty m)" if "collected run es m" for m
  proof -
    have "wm_running m = ?names" using that by (simp add: collected_def)
    then have "map_set (toHexString (snd r)) ty (wm_running m) = ?names @ [(toHexString (snd r), ty)]"
      using map_set_fresh [OF hex] by simp
    then show ?thesis using that by (simp add: collected_def recordTaskStart_def)
  qed
  have "map_set r (ty, t) run = run @ [(r, ty, t)]" using map_set_fresh [OF r] by simp
  then show ?thesis
    using acc started by (auto simp: accounts_def addTaskStat_def stats_of_def split: option.splits)
qed

lemma filter_fst_run: "filter (\<lambda>e. fst e \<noteq> r) (map f xs) = map f (filter (\<lambda>x. fst (f x) \<noteq> r) xs)"
  by (simp add: filter_map comp_def)

text \<open>Removing one of the tasks that run, of distinct ids, lowers the count of its type by one.\<close>

lemma remove_running:
  assumes "distinct (map (\<lambda>e. snd (fst e)) run)" "(r, ty, t0) \<in> set run"
  shows "length (filter (\<lambda>e. fst e \<noteq> r) run) + 1 = length run"
    "length (filter (\<lambda>(x, ty', t). ty' = ty') (filter (\<lambda>e. fst e \<noteq> r) run)) + 1 = length run"
    "length (filter (\<lambda>(x, ty', t). ty' = u) (filter (\<lambda>e. fst e \<noteq> r) run)) + (if u = ty then 1 else 0) =
       length (filter (\<lambda>(x, ty', t). ty' = u) run)"
    "filter (\<lambda>e. snd (fst e) \<noteq> snd r) run = filter (\<lambda>e. fst e \<noteq> r) run"
proof -
  have "length (filter (\<lambda>e. fst e \<noteq> r) run) + 1 = length run \<and>
    length (filter (\<lambda>(x, ty', t). ty' = u) (filter (\<lambda>e. fst e \<noteq> r) run)) + (if u = ty then 1 else 0) =
      length (filter (\<lambda>(x, ty', t). ty' = u) run) \<and>
    filter (\<lambda>e. snd (fst e) \<noteq> snd r) run = filter (\<lambda>e. fst e \<noteq> r) run" for u
    using assms
  proof (induction run)
    case (Cons e run)
    show ?case
    proof (cases "e = (r, ty, t0)")
      case True
      then have other: "snd (fst x) \<noteq> snd r" if "x \<in> set run" for x using Cons.prems(1) that by force
      have "filter (\<lambda>e. fst e \<noteq> r) run = run" "filter (\<lambda>e. snd (fst e) \<noteq> snd r) run = run"
        using other by (auto intro!: filter_True)
      then show ?thesis by (simp add: True)
    next
      case False
      then have mem: "(r, ty, t0) \<in> set run" using Cons.prems(2) by simp
      have "snd (fst e) \<noteq> snd r" using Cons.prems(1) mem by force
      then have "fst e \<noteq> r" by auto
      then show ?thesis using Cons.IH Cons.prems(1) mem \<open>snd (fst e) \<noteq> snd r\<close> by (auto split: prod.splits)
    qed
  qed simp
  then show "length (filter (\<lambda>e. fst e \<noteq> r) run) + 1 = length run"
    "length (filter (\<lambda>(x, ty', t). ty' = ty') (filter (\<lambda>e. fst e \<noteq> r) run)) + 1 = length run"
    "length (filter (\<lambda>(x, ty', t). ty' = u) (filter (\<lambda>e. fst e \<noteq> r) run)) + (if u = ty then 1 else 0) =
       length (filter (\<lambda>(x, ty', t). ty' = u) run)"
    "filter (\<lambda>e. snd (fst e) \<noteq> snd r) run = filter (\<lambda>e. fst e \<noteq> r) run"
    by (simp_all add: case_prod_beta)
qed

lemma collected_finish:
  assumes c: "collected run es m" and apart: "runs_apart run" and mem: "(r, ty, t0) \<in> set run"
  shows "collected (filter (\<lambda>e. fst e \<noteq> r) run) (es @ [(ty, d, n, reason)])
    (recordTaskFinish (toHexString (snd r)) (of_int d / 1000) (REASON_TO_OUTCOME reason) now m)"
proof -
  let ?name = "\<lambda>(r :: oid_ref, ty :: task_type, t :: ms). (toHexString (snd r), ty)"
  have names: "wm_running m = map ?name run" using c by (simp add: collected_def)
  have run: "distinct (map (\<lambda>e. snd (fst e)) run)" "(r, ty, t0) \<in> set run" using apart mem by (simp_all add: runs_apart_def)
  have inj: "toHexString (snd (fst e)) = toHexString (snd (fst e')) \<longleftrightarrow> snd (fst e) = snd (fst e')"
    if "e \<in> set run" "e' \<in> set run" for e e'
    using toHexString_inject [of "snd (fst e)" "snd (fst e')"] that apart by (simp add: runs_apart_def)
  have "inj_on toHexString (set (map (\<lambda>e. snd (fst e)) run))" using inj by (auto simp: inj_on_def)
  then have "distinct (map toHexString (map (\<lambda>e. snd (fst e)) run))" using run(1) by (simp only: distinct_map [of toHexString] set_map)
  then have "distinct (map fst (map ?name run))" by (simp only: map_map comp_def case_prod_beta fst_conv)
  then have found: "map_of (wm_running m) (toHexString (snd r)) = Some ty"
    unfolding names using run(2) by (intro map_of_is_SomeI) (auto intro!: image_eqI [where x = "(r, ty, t0)"])
  have rest: "filter (\<lambda>e. fst e \<noteq> toHexString (snd r)) (map ?name run) = map ?name (filter (\<lambda>e. fst e \<noteq> r) run)"
    using remove_running(4) [OF run] inj [OF _ mem] by (auto simp: filter_fst_run case_prod_beta cong: filter_cong)
  have gauge: "int (length (filter (\<lambda>(x, ty', t). ty' = u) (filter (\<lambda>e. fst e \<noteq> r) run))) =
      int (length (filter (\<lambda>(x, ty', t). ty' = u) run)) - (if u = ty then 1 else 0)" for u
    using remove_running(3) [OF run, of u] by auto
  show ?thesis
    using c unfolding collected_def recordTaskFinish_def found
    by (simp add: names rest gauge del: filter_filter)
qed

lemma account_finish:
  assumes acc: "accounts t0 run es s" and apart: "runs_apart run"
  shows "\<exists>s'. removeTaskStat r n reason t s = Some s' \<and> (ss_metrics s' = None \<longleftrightarrow> ss_metrics s = None) \<and>
    (case map_of run r of
       None \<Rightarrow> s' = s
     | Some (ty, start) \<Rightarrow> accounts t0 (filter (\<lambda>e. fst e \<noteq> r) run) (es @ [(ty, t - start, n, reason)]) s')"
proof (cases "map_of run r")
  case None
  then show ?thesis using acc by (auto simp: accounts_def removeTaskStat_def)
next
  case (Some v)
  obtain ty start where v: "v = (ty, start)" by (cases v)
  have mem: "(r, ty, start) \<in> set run" using map_of_SomeD [OF Some] by (simp add: v)
  have run: "distinct (map (\<lambda>e. snd (fst e)) run)" using apart by (simp add: runs_apart_def)
  have count: "int (length (filter (\<lambda>e. fst e \<noteq> r) run)) = int (length run) - 1" using remove_running(1) [OF run mem] by linarith
  let ?es = "es @ [(ty, t - start, n, reason)]"
  let ?tasks = "add_duration (t - start) (count_reason reason (st_tasks (stats_of t0 run es)))"
  have "tc_successful ?tasks + tc_failed ?tasks + tc_timed_out ?tasks = Suc (length es)"
    using ended_count [of es] by (cases reason) (simp_all add: add_duration_def count_reason_def stats_of_def)
  then have avg: "tc_average_time_ms ?tasks = mean (map (\<lambda>(ty, d, n, r). d) ?es)"
    by (cases reason) (simp_all add: add_duration_def count_reason_def stats_of_def mean_snoc)
  have stats: "stats_of t0 (filter (\<lambda>e. fst e \<noteq> r) run) ?es = (stats_of t0 run es)\<lparr>
      st_jobs := count_jobs ty n (st_jobs (stats_of t0 run es)),
      st_tasks := ?tasks\<lparr>tc_in_progress := tc_in_progress ?tasks - 1\<rparr>\<rparr>"
    using avg
    by (cases reason; cases ty) (simp_all add: stats_of_def count_jobs_def count_reason_def add_duration_def jobs_of_def ended_by_def count)
  show ?thesis
    using acc stats collected_finish [OF _ apart mem, where d = "t - start"]
    by (cases "ss_metrics s") (auto simp: accounts_def removeTaskStat_def Some v Let_def)
qed

section \<open>The account of a process\<close>

lemma apart_filter: "runs_apart run \<Longrightarrow> runs_apart (filter P run)"
  by (simp add: runs_apart_def distinct_map_filter)

lemma apart_snoc: "runs_apart run \<Longrightarrow> snd r < 16 ^ 24 \<Longrightarrow> snd r \<notin> snd ` fst ` set run \<Longrightarrow> runs_apart (run @ [(r, ty, t)])"
  by (auto simp: runs_apart_def image_iff)

lemma map_fst_filter: "map fst (filter (\<lambda>e. fst e \<noteq> r) run) = filter (\<lambda>x. x \<noteq> r) (map fst run)"
  by (simp add: filter_map comp_def)

lemma accounts_run:
  assumes "accounts t0 run es s" "runs_apart run" "begins_once (map fst run) ops"
  shows "\<exists>s'. stat_run ops s = Some s' \<and> (ss_metrics s' = None \<longleftrightarrow> ss_metrics s = None) \<and>
    runs_apart (fst (history run ops)) \<and> accounts t0 (fst (history run ops)) (es @ snd (history run ops)) s'"
  using assms
proof (induction ops arbitrary: run es s)
  case Nil
  then show ?case by (simp add: stat_run_def)
next
  case (Cons op ops)
  show ?case
  proof (cases op)
    case (Begin r ty t)
    then have fresh: "snd r < 16 ^ 24" "snd r \<notin> snd ` fst ` set run" using Cons.prems(3) by auto
    note started = account_begin [OF Cons.prems(1,2) fresh, of ty t]
    from started obtain s1 where s1: "addTaskStat r ty t s = Some s1" "accounts t0 (run @ [(r, ty, t)]) es s1"
        "ss_metrics s1 = None \<longleftrightarrow> ss_metrics s = None" by (elim exE conjE)
    have "begins_once (map fst (run @ [(r, ty, t)])) ops" using Cons.prems(3) Begin by simp
    then show ?thesis
      using Cons.IH [OF s1(2) apart_snoc [OF Cons.prems(2) fresh]] s1(1,3) by (simp add: Begin stat_run_def stat_step_def)
  next
    case (Finish r n reason t)
    obtain s1 where s1: "removeTaskStat r n reason t s = Some s1" "ss_metrics s1 = None \<longleftrightarrow> ss_metrics s = None"
        and acc: "case map_of run r of None \<Rightarrow> s1 = s
          | Some (ty, start) \<Rightarrow> accounts t0 (filter (\<lambda>e. fst e \<noteq> r) run) (es @ [(ty, t - start, n, reason)]) s1"
      using account_finish [OF Cons.prems(1,2), of r n reason t] by (elim exE conjE)
    have ops: "begins_once (filter (\<lambda>x. x \<noteq> r) (map fst run)) ops" using Cons.prems(3) Finish by simp
    show ?thesis
    proof (cases "map_of run r")
      case None
      then have "filter (\<lambda>x. x \<noteq> r) (map fst run) = map fst run" by (force simp: map_of_eq_None_iff intro!: filter_True)
      then show ?thesis
        using Cons.IH [OF Cons.prems(1,2)] ops acc s1 None by (simp add: Finish stat_run_def stat_step_def)
    next
      case (Some v)
      obtain ty start where v: "v = (ty, start)" by (cases v)
      show ?thesis
        using Cons.IH [OF _ apart_filter [OF Cons.prems(2)], of "\<lambda>e. fst e \<noteq> r" "es @ [(ty, t - start, n, reason)]" s1] ops acc s1
        by (simp add: Finish Some v stat_run_def stat_step_def map_fst_filter Let_def case_prod_beta)
    qed
  qed
qed

definition stats_boot :: "ms \<Rightarrow> stats_state" where
  "stats_boot t0 = registerWorkerMetrics (makeWorkerMetrics t0) (initStats t0 fresh_stats)"

lemma boot_account:
  "accounts t0 [] [] (stats_boot t0)" "ss_metrics (stats_boot t0) \<noteq> None" "runs_apart []"
  by (simp_all add: accounts_def stats_boot_def registerWorkerMetrics_def initStats_def fresh_stats_def stats_of_def
      jobs_of_def ended_by_def mean_def collected_def makeWorkerMetrics_def runs_apart_def)

lemma account_of_run:
  assumes "begins_once [] ops"
  shows "\<exists>s. stat_run ops (stats_boot t0) = Some s \<and> ss_metrics s \<noteq> None \<and>
    accounts t0 (fst (history [] ops)) (snd (history [] ops)) s"
  using accounts_run [OF boot_account(1,3), of ops t0] assms boot_account(2) by auto

text \<open>
  The statistics are the account of what ran. After any beginnings and ends of tasks in which no
  task is begun while it runs, the count in progress is the number of tasks that run, the three outcome
  counts and the job counts are those of the tasks that ended, the mean is the mean of their durations, and the
  collectors tell the same per type.
\<close>

theorem stats_are_the_account:
  assumes "begins_once [] ops"
  shows "\<exists>s m. stat_run ops (stats_boot t0) = Some s \<and>
    getStats s = Some (stats_of t0 (fst (history [] ops)) (snd (history [] ops))) \<and>
    ss_metrics s = Some m \<and> collected (fst (history [] ops)) (snd (history [] ops)) m"
proof -
  from account_of_run [OF assms, of t0]
  obtain s where "stat_run ops (stats_boot t0) = Some s" "ss_metrics s \<noteq> None"
      "accounts t0 (fst (history [] ops)) (snd (history [] ops)) s" by (elim exE conjE)
  then show ?thesis by (auto simp: accounts_def getStats_def)
qed

theorem stats_are_the_account_witness:
  "\<exists>s. stat_run [Begin (1, 7) LIST 0, Begin (2, 8) STOP 10, Finish (1, 7) 3 Finished_completed 100,
      Finish (9, 8) 1 Finished_failed 20, Finish (2, 8) 1 Finished_timeout 40] (stats_boot 0) = Some s \<and>
    map_option (\<lambda>st. (tc_in_progress (st_tasks st), tc_successful (st_tasks st), tc_timed_out (st_tasks st),
      tc_average_time_ms (st_tasks st), jc_listed (st_jobs st))) (getStats s) = Some (0, 1, 1, 65, 3)"
  using stats_are_the_account [of "[Begin (1, 7) LIST 0, Begin (2, 8) STOP 10, Finish (1, 7) 3 Finished_completed 100,
      Finish (9, 8) 1 Finished_failed 20, Finish (2, 8) 1 Finished_timeout 40]" 0]
  by (auto simp: stats_of_def ended_by_def mean_def jobs_of_def)

section \<open>What the consumer reports\<close>

text \<open>The end of a run as \<open>dispatch\<close> reports it: None is a run that threw.\<close>

definition finish_stat :: "task_run_result option \<Rightarrow> nat \<times> finished_reason" where
  "finish_stat result = (case result of
     None \<Rightarrow> (0, Finished_timeout)
   | Some r \<Rightarrow> (o_successCount r, case o_outcome r of
       O_ABORTED \<Rightarrow> Finished_timeout | O_RETRY \<Rightarrow> Finished_timeout | O_PARKED \<Rightarrow> Finished_timeout
     | O_FAILED \<Rightarrow> Finished_failed | O_COMPLETED \<Rightarrow> Finished_completed))"

text \<open>The consumer's map of the tasks in flight, keyed by the id's text, beside the statistics.\<close>

record reporter =
  rp_inflight :: "oid_ref list"
  rp_state :: "stats_state option"

datatype report_op = Dispatched oid_ref task_type ms | Settled oid_ref "task_run_result option" ms

fun report_step :: "report_op \<Rightarrow> reporter \<Rightarrow> reporter" where
  "report_step (Dispatched r ty t) rp =
     (if snd r \<in> snd ` set (rp_inflight rp) then rp
      else \<lparr>rp_inflight = rp_inflight rp @ [r], rp_state = stat_step (Begin r ty t) (rp_state rp)\<rparr>)"
| "report_step (Settled r result t) rp =
     (if r \<in> set (rp_inflight rp)
      then \<lparr>rp_inflight = filter (\<lambda>x. x \<noteq> r) (rp_inflight rp),
        rp_state = stat_step (Finish r (fst (finish_stat result)) (snd (finish_stat result)) t) (rp_state rp)\<rparr>
      else rp)"

definition ref_of :: "report_op \<Rightarrow> oid_ref" where
  "ref_of op = (case op of Dispatched r ty t \<Rightarrow> r | Settled r result t \<Rightarrow> r)"

lemma report_keeps:
  assumes "rp_state rp = Some s" "accounts t0 run es s" "runs_apart run" "map fst run = rp_inflight rp" "snd (ref_of op) < 16 ^ 24"
  shows "\<exists>s' run' es'. rp_state (report_step op rp) = Some s' \<and> accounts t0 run' es' s' \<and> runs_apart run' \<and>
    map fst run' = rp_inflight (report_step op rp)"
proof (cases op)
  case (Dispatched r ty t)
  show ?thesis
  proof (cases "snd r \<in> snd ` set (rp_inflight rp)")
    case True
    then show ?thesis using assms Dispatched by auto
  next
    case False
    then have fresh: "snd r < 16 ^ 24" "snd r \<notin> snd ` fst ` set run"
      using assms(4,5) Dispatched by (simp_all add: ref_of_def flip: set_map)
    from account_begin [OF assms(2,3) fresh, of ty t]
    obtain s1 where s1: "addTaskStat r ty t s = Some s1" "accounts t0 (run @ [(r, ty, t)]) es s1" by (elim exE conjE)
    show ?thesis
      using s1 apart_snoc [OF assms(3) fresh, of ty t] assms(1,4) False Dispatched
      by (intro exI [of _ s1] exI [of _ "run @ [(r, ty, t)]"] exI [of _ es]) (simp add: stat_step_def)
  qed
next
  case (Settled r result t)
  show ?thesis
  proof (cases "r \<in> set (rp_inflight rp)")
    case True
    then obtain ty start where found: "map_of run r = Some (ty, start)"
      using assms(4) by (metis list.set_map map_of_eq_None_iff not_Some_eq prod.exhaust)
    obtain n reason where fin: "finish_stat result = (n, reason)" by (cases "finish_stat result")
    from account_finish [OF assms(2,3), of r n reason t]
    obtain s1 where s1: "removeTaskStat r n reason t s = Some s1"
        "accounts t0 (filter (\<lambda>e. fst e \<noteq> r) run) (es @ [(ty, t - start, n, reason)]) s1"
      by (auto simp: found)
    show ?thesis
      using s1 apart_filter [OF assms(3)] assms(1,4) True Settled fin
      by (intro exI [of _ s1] exI [of _ "filter (\<lambda>e. fst e \<noteq> r) run"] exI [of _ "es @ [(ty, t - start, n, reason)]"])
        (simp add: stat_step_def map_fst_filter)
  next
    case False
    then show ?thesis using assms Settled by auto
  qed
qed

lemma report_metrics:
  "rp_state (fold report_step ops rp) = Some s' \<Longrightarrow> rp_state rp = Some s \<Longrightarrow> ss_metrics s \<noteq> None \<Longrightarrow> ss_metrics s' \<noteq> None"
proof (induction ops arbitrary: rp s)
  case (Cons op ops)
  show ?case
  proof (cases "rp_state (report_step op rp)")
    case None
    have "rp_state (fold report_step os q) = None" if "rp_state q = None" for os q
      using that
    proof (induction os arbitrary: q)
      case (Cons o' os)
      show ?case using Cons.IH [of "report_step o' q"] Cons.prems by (cases o') (simp_all add: stat_step_def)
    qed simp
    then show ?thesis using Cons.prems(1) None by simp
  next
    case (Some s1)
    have "ss_metrics s1 \<noteq> None"
      using Some Cons.prems(2,3)
      by (cases op) (auto simp: stat_step_def addTaskStat_def removeTaskStat_def Let_def split: if_splits option.splits)
    then show ?thesis using Cons.IH [OF _ Some] Cons.prems(1) by simp
  qed
qed simp

lemma report_account:
  assumes "\<forall>op \<in> set ops. snd (ref_of op) < 16 ^ 24"
    and "rp_state rp = Some s" "accounts t0 run es s" "runs_apart run" "map fst run = rp_inflight rp"
  shows "\<exists>s run es. rp_state (fold report_step ops rp) = Some s \<and> accounts t0 run es s \<and> runs_apart run \<and>
    map fst run = rp_inflight (fold report_step ops rp)"
  using assms
proof (induction ops arbitrary: rp s run es)
  case (Cons op ops)
  then have op: "snd (ref_of op) < 16 ^ 24" by simp
  from report_keeps [OF Cons.prems(2-5) op]
  obtain s' run' es' where "rp_state (report_step op rp) = Some s'" "accounts t0 run' es' s'" "runs_apart run'"
    "map fst run' = rp_inflight (report_step op rp)" by (elim exE conjE)
  then show ?case using Cons.IH [of "report_step op rp" s' run' es'] Cons.prems(1) by simp
qed auto

text \<open>
  C29: what is reported in progress is what is in flight. Whatever is dispatched and settled, the
  statistics never throw, their count in progress is the size of the consumer's map, and so is the sum of the
  gauge over the types.
\<close>

theorem in_progress_is_inflight:
  assumes "\<forall>op \<in> set ops. snd (ref_of op) < 16 ^ 24"
    and rp: "rp = fold report_step ops \<lparr>rp_inflight = [], rp_state = Some (stats_boot t0)\<rparr>"
  shows "\<exists>s st m. rp_state rp = Some s \<and> getStats s = Some st \<and> ss_metrics s = Some m \<and>
    tc_in_progress (st_tasks st) = int (length (rp_inflight rp)) \<and>
    wm_in_progress m LIST + wm_in_progress m EXTEND + wm_in_progress m STOP = int (length (rp_inflight rp))"
proof -
  let ?rp = "\<lparr>rp_inflight = [], rp_state = Some (stats_boot t0)\<rparr>"
  obtain s run es where s: "rp_state rp = Some s" "accounts t0 run es s" "map fst run = rp_inflight rp"
    using report_account [OF assms(1), of ?rp "stats_boot t0" t0 "[]" "[]"] boot_account unfolding rp by auto
  have "ss_metrics s \<noteq> None" using report_metrics [of ops ?rp s "stats_boot t0"] s(1) boot_account(2) unfolding rp by simp
  then obtain m where m: "ss_metrics s = Some m" by blast
  have types: "int (length (filter (\<lambda>(r, ty', t). ty' = LIST) run)) + int (length (filter (\<lambda>(r, ty', t). ty' = EXTEND) run)) +
      int (length (filter (\<lambda>(r, ty', t). ty' = STOP) run)) = int (length run)"
    by (induction run) (auto split: prod.splits, metis task_type.exhaust)
  have len: "length run = length (rp_inflight rp)" using s(3) by (metis length_map)
  show ?thesis
    using s(1,2) m types by (auto simp: accounts_def getStats_def stats_of_def collected_def len)
qed

theorem in_progress_is_inflight_witness:
  "\<exists>s st. rp_state (fold report_step [Dispatched (1, 7) LIST 0, Dispatched (2, 7) LIST 5, Dispatched (3, 8) STOP 6, Settled (1, 7) None 9]
       \<lparr>rp_inflight = [], rp_state = Some (stats_boot 0)\<rparr>) = Some s \<and> getStats s = Some st \<and> tc_in_progress (st_tasks st) = 1"
  using in_progress_is_inflight [OF _ refl, of "[Dispatched (1, 7) LIST 0, Dispatched (2, 7) LIST 5, Dispatched (3, 8) STOP 6, Settled (1, 7) None 9]" 0]
  by (auto simp: ref_of_def)

section \<open>The answer of \<open>/stats\<close>\<close>

definition stats_json :: "ms \<Rightarrow> stats \<Rightarrow> json" where
  "stats_json now st = J_obj [
     (''started_at'', J_str (toISOString (st_started_at st))),
     (''jobs'', J_obj [(''listed'', J_num (of_nat (jc_listed (st_jobs st)))), (''extended'', J_num (of_nat (jc_extended (st_jobs st)))),
       (''stopped'', J_num (of_nat (jc_stopped (st_jobs st))))]),
     (''tasks'', J_obj [(''in_progress'', J_num (of_int (tc_in_progress (st_tasks st)))), (''failed'', J_num (of_nat (tc_failed (st_tasks st)))),
       (''successful'', J_num (of_nat (tc_successful (st_tasks st)))), (''timed_out'', J_num (of_nat (tc_timed_out (st_tasks st)))),
       (''average_time_ms'', J_num (tc_average_time_ms (st_tasks st)))]),
     (''running_ms'', J_num (of_int (now - st_started_at st)))]"

text \<open>None: the handler throws.\<close>

definition getStatsHandler :: "ms \<Rightarrow> stats_state \<Rightarrow> json option" where
  "getStatsHandler now s = map_option (stats_json now) (getStats s)"

text \<open>
  The statistics are answered as their route declares, in every process that has booted.
\<close>

theorem stats_answer_is_declared:
  assumes "begins_once [] ops" "sk_date_time kit (toISOString t0)"
    and "stat_run ops (stats_boot t0) = Some s" "(200, Some sc) \<in> set (sc_response StatsHandlerSchema)"
  shows "\<exists>j. getStatsHandler now s = Some j \<and> admits kit sc j"
proof -
  obtain run es where "getStats s = Some (stats_of t0 run es)"
    using account_of_run [OF assms(1), of t0] assms(3) by (auto simp: accounts_def getStats_def)
  then show ?thesis
    using assms(2,4) by (simp add: getStatsHandler_def stats_json_def StatsHandlerSchema_def property_of_def stats_of_def)
qed

end
