(* ===== verification/Uri.thy ===== *)
theory Uri
  imports Repositories
begin

text \<open>
  \<open>encodeURIComponent\<close>, which the program puts keys and passwords into URLs with
  (\<open>src/client/hostManager/index.ts\<close>, \<open>src/connection/deployments.ts\<close>), and its inverse. A string is here the
  list of its UTF-8 bytes.
\<close>

definition uri_unreserved :: "char \<Rightarrow> bool" where
  "uri_unreserved c \<longleftrightarrow>
     c \<in> set ''abcdefghijklmnopqrstuvwxyzABCDEFGHIJKLMNOPQRSTUVWXYZ0123456789-_.!~*'()''"

definition upper_hex :: "nat \<Rightarrow> char" where
  "upper_hex n = ''0123456789ABCDEF'' ! n"

fun encodeURIComponent :: "string \<Rightarrow> string" where
  "encodeURIComponent [] = []"
| "encodeURIComponent (c # s) =
     (if uri_unreserved c then c # encodeURIComponent s
      else CHR ''%'' # upper_hex (of_char c div 16) # upper_hex (of_char c mod 16) # encodeURIComponent s)"

definition hex_value :: "char \<Rightarrow> nat option" where
  "hex_value c = map_of (zip ''0123456789ABCDEFabcdef'' [0, 1, 2, 3, 4, 5, 6, 7, 8, 9, 10, 11, 12, 13, 14, 15, 10, 11, 12, 13, 14, 15]) c"

text \<open>None: it throws on an escape that is not two hex digits.\<close>

fun decodeURIComponent :: "string \<Rightarrow> string option" where
  "decodeURIComponent [] = Some []"
| "decodeURIComponent (c # s) =
     (if c = CHR ''%'' then
        (case s of
           a # b # r \<Rightarrow> (case (hex_value a, hex_value b) of
               (Some x, Some y) \<Rightarrow> map_option ((#) (char_of (16 * x + y))) (decodeURIComponent r)
             | _ \<Rightarrow> None)
         | _ \<Rightarrow> None)
      else map_option ((#) c) (decodeURIComponent s))"

lemma hex_value_upper: "n < 16 \<Longrightarrow> hex_value (upper_hex n) = Some n"
  by (drule less_16_cases) (elim disjE; simp add: hex_value_def upper_hex_def)

lemma percent_reserved [simp]: "\<not> uri_unreserved CHR ''%''"
  by (simp add: uri_unreserved_def)

lemma of_char_halves: "(of_char c :: nat) div 16 < 16" "(of_char c :: nat) mod 16 < 16"
  "char_of (16 * ((of_char c :: nat) div 16) + of_char c mod 16) = c"
proof -
  have "(of_char c :: nat) < 256" by simp
  then show "(of_char c :: nat) div 16 < 16" by (intro less_mult_imp_div_less) simp
  show "(of_char c :: nat) mod 16 < 16" by simp
  show "char_of (16 * ((of_char c :: nat) div 16) + of_char c mod 16) = c" by simp
qed

lemma decode_encode [simp]: "decodeURIComponent (encodeURIComponent s) = Some s"
proof (induction s)
  case (Cons c s)
  show ?case
  proof (cases "uri_unreserved c")
    case True
    then have "c \<noteq> CHR ''%''" by auto
    then show ?thesis using Cons True by simp
  next
    case False
    then show ?thesis using Cons of_char_halves [of c] by (simp add: hex_value_upper)
  qed
qed simp

lemma upper_hex_unreserved: "n < 16 \<Longrightarrow> uri_unreserved (upper_hex n)"
  by (drule less_16_cases) (elim disjE; simp add: uri_unreserved_def upper_hex_def)

lemma encoded_chars: "c \<in> set (encodeURIComponent s) \<Longrightarrow> uri_unreserved c \<or> c = CHR ''%''"
  by (induction s) (auto split: if_splits simp: upper_hex_unreserved of_char_halves)

lemma encode_inject: "encodeURIComponent s = encodeURIComponent t \<longleftrightarrow> s = t"
  by (metis decode_encode option.inject)

text \<open>No delimiter of a URL is left in an encoded component.\<close>

lemma encoded_delimiters:
  "c \<in> set ''/?#:@&=+,;$ '' \<Longrightarrow> c \<notin> set (encodeURIComponent s)"
  using encoded_chars [of c s] by (auto simp: uri_unreserved_def)

lemma encode_unreserved: "list_all uri_unreserved s \<Longrightarrow> encodeURIComponent s = s"
  by (induction s) simp_all

lemma hex_unreserved: "is_hex_char c \<Longrightarrow> uri_unreserved c"
  by (auto simp: is_hex_char_def uri_unreserved_def)

lemma encode_hex [simp]: "encodeURIComponent (toHexString i) = toHexString i"
  using hex_digits_hex [of 24 i] by (intro encode_unreserved) (auto simp: toHexString_def list_all_iff hex_unreserved)

end
