(* ===== verification/Host_Manager.thy ===== *)
theory Host_Manager
  imports Uri Cursor Reserve List_Task
begin

text \<open>
  The client of host-manager (\<open>src/client/hostManager/index.ts\<close>): the requests it sends, the errors it
  raises, and what the reserve step of a LIST (\<open>Reserve\<close>) makes of them. The network is a parameter: a function
  from a request to its response, or to the message of the error when none arrived.
\<close>

section \<open>A call\<close>

definition RESERVE_TIMEOUT_MS :: ms where "RESERVE_TIMEOUT_MS = 15000"

record host_config =
  hc_url :: "string option"
  hc_api_key :: "string option"

datatype http_verb = GET_verb | POST_verb | DELETE_verb

record fetch_request =
  hq_method :: http_verb
  hq_url :: string
  hq_content_type :: "string option"
  hq_authorization :: string
  hq_body :: "request_body option"
  hq_timeout :: ms

text \<open>A response carries its status, its status text and its body, None when that is not JSON.\<close>

datatype fetched = No_response string | Response nat string "json option"

datatype host_error = Config_error string | HostManagerError nat string | Fetch_error string | Body_error

definition strip_slash :: "string \<Rightarrow> string" where
  "strip_slash url = (if url \<noteq> [] \<and> last url = CHR ''/'' then butlast url else url)"

definition host_request :: "host_config \<Rightarrow> http_verb \<Rightarrow> string \<Rightarrow> request_body option \<Rightarrow> host_error + fetch_request" where
  "host_request cfg verb path body =
     (if \<not> truthy_string (hc_url cfg) then Inl (Config_error ''HOST_MANAGER_URL is not configured'')
      else if \<not> truthy_string (hc_api_key cfg) then Inl (Config_error ''HOST_MANAGER_API_KEY is not configured'')
      else Inr \<lparr>hq_method = verb, hq_url = strip_slash (the (hc_url cfg)) @ path,
        hq_content_type = (if body = None then None else Some ''application/json''),
        hq_authorization = the (hc_api_key cfg), hq_body = body, hq_timeout = RESERVE_TIMEOUT_MS\<rparr>)"

text \<open>The \<open>message\<close> of an error's body, where it is a text.\<close>

definition manager_message :: "json option \<Rightarrow> string \<Rightarrow> string" where
  "manager_message body statusText = (case body of
     Some (J_obj members) \<Rightarrow> (case map_of (rev members) ''message'' of Some (J_str t) \<Rightarrow> t | _ \<Rightarrow> statusText)
   | _ \<Rightarrow> statusText)"

definition callHostManager ::
  "host_config \<Rightarrow> (fetch_request \<Rightarrow> fetched) \<Rightarrow> http_verb \<Rightarrow> string \<Rightarrow> request_body option \<Rightarrow> host_error + json" where
  "callHostManager cfg fetch verb path body = (case host_request cfg verb path body of
     Inl e \<Rightarrow> Inl e
   | Inr request \<Rightarrow> (case fetch request of
       No_response message \<Rightarrow> Inl (Fetch_error message)
     | Response status statusText content \<Rightarrow>
         if \<not> (200 \<le> status \<and> status < 300) then Inl (HostManagerError status (manager_message content statusText))
         else (case content of Some j \<Rightarrow> Inr j | None \<Rightarrow> Inl Body_error)))"

definition requestReservation :: "host_config \<Rightarrow> (fetch_request \<Rightarrow> fetched) \<Rightarrow> request_body \<Rightarrow> host_error + json" where
  "requestReservation cfg fetch body = callHostManager cfg fetch POST_verb ''/reservations/requests'' (Some body)"

definition cancel_path :: "string \<Rightarrow> string" where
  "cancel_path key = ''/reservations/requests/'' @ encodeURIComponent key"

definition cancelReservationRequest :: "host_config \<Rightarrow> (fetch_request \<Rightarrow> fetched) \<Rightarrow> string \<Rightarrow> host_error + json" where
  "cancelReservationRequest cfg fetch key = callHostManager cfg fetch DELETE_verb (cancel_path key) None"

definition listMarkets :: "host_config \<Rightarrow> (fetch_request \<Rightarrow> fetched) \<Rightarrow> host_error + json" where
  "listMarkets cfg fetch = callHostManager cfg fetch GET_verb ''/markets/'' None"

section \<open>A call reaches host-manager and nobody else\<close>

text \<open>The path of a URL below a base, cut at its slashes; nothing of it is a query or a fragment.\<close>

fun path_parts :: "string \<Rightarrow> string \<Rightarrow> string list" where
  "path_parts w [] = [rev w]"
| "path_parts w (c # s) = (if c = CHR ''/'' then rev w # path_parts [] s else path_parts (c # w) s)"

lemma path_parts_plain: "CHR ''/'' \<notin> set s \<Longrightarrow> path_parts w s = [rev w @ s]"
  by (induction s arbitrary: w) auto

text \<open>
  A cancel names the one request it is meant for. Whatever text the key is, and the webhook hands on the
  one it was sent, the cancel is a DELETE under host-manager's own address with its key, of the path
  \<open>/reservations/requests/\<close> and one part more, from which the key can be read back; two keys share a
  URL only if they are the same, and a task's id is its own spelling.
\<close>

theorem cancel_names_its_request:
  assumes "hc_url cfg = Some url" "url \<noteq> []" "hc_api_key cfg = Some api_key" "api_key \<noteq> []"
  shows "\<exists>q. host_request cfg DELETE_verb (cancel_path key) None = Inr q \<and> hq_authorization q = api_key \<and>
    hq_url q = strip_slash url @ cancel_path key \<and>
    path_parts [] (cancel_path key) = [[], ''reservations'', ''requests'', encodeURIComponent key] \<and>
    CHR ''?'' \<notin> set (cancel_path key) \<and> CHR ''#'' \<notin> set (cancel_path key) \<and>
    decodeURIComponent (last (path_parts [] (cancel_path key))) = Some key \<and>
    (\<forall>key'. strip_slash url @ cancel_path key' = hq_url q \<longrightarrow> key' = key) \<and>
    cancel_path (toHexString i) = ''/reservations/requests/'' @ toHexString i"
proof -
  have no_slash: "CHR ''/'' \<notin> set (encodeURIComponent key)" "CHR ''?'' \<notin> set (encodeURIComponent key)"
    "CHR ''#'' \<notin> set (encodeURIComponent key)"
    by (rule encoded_delimiters; simp)+
  have parts: "path_parts [] (cancel_path key) = [[], ''reservations'', ''requests'', encodeURIComponent key]"
    using path_parts_plain [OF no_slash(1), of "[]"] by (simp add: cancel_path_def)
  have delims: "CHR ''?'' \<notin> set (cancel_path key)" "CHR ''#'' \<notin> set (cancel_path key)"
    using no_slash(2,3) by (simp_all add: cancel_path_def)
  have own: "cancel_path key' = cancel_path key \<longleftrightarrow> key' = key" for key' by (simp add: cancel_path_def encode_inject)
  have spelled: "cancel_path (toHexString i) = ''/reservations/requests/'' @ toHexString i" by (simp add: cancel_path_def)
  show ?thesis
    unfolding parts spelled using assms delims own by (simp add: host_request_def)
qed

theorem cancel_names_its_request_witness:
  "decodeURIComponent (last (path_parts [] (cancel_path ''../x?y''))) = Some ''../x?y'' \<and>
   length (path_parts [] (cancel_path ''../x?y'')) = 4"
proof -
  let ?cfg = "\<lparr>hc_url = Some ''http://h/'', hc_api_key = Some ''k''\<rparr>" and ?key = "''../x?y''"
  have cfg: "hc_url ?cfg = Some ''http://h/''" "hc_api_key ?cfg = Some ''k''" by simp_all
  from cancel_names_its_request [OF cfg(1) list.distinct(2) cfg(2) list.distinct(2), of ?key 0]
  have "path_parts [] (cancel_path ?key) = [[], ''reservations'', ''requests'', encodeURIComponent ?key]"
    and "decodeURIComponent (last (path_parts [] (cancel_path ?key))) = Some ?key"
    by - (elim exE conjE, assumption)+
  then show ?thesis by (simp only: list.size) simp
qed

section \<open>What a reserve step makes of an answer\<close>

text \<open>The error as the reserve step sees it: a status only where host-manager answered, and \<open>messageOf\<close>.\<close>

definition as_request_error :: "host_error \<Rightarrow> request_error" where
  "as_request_error e = (case e of
     Config_error m \<Rightarrow> \<lparr>re_status = None, re_message = ''Error '' @ m\<rparr>
   | HostManagerError status m \<Rightarrow> \<lparr>re_status = Some status, re_message = ''HostManagerError '' @ m\<rparr>
   | Fetch_error m \<Rightarrow> \<lparr>re_status = None, re_message = m\<rparr>
   | Body_error \<Rightarrow> \<lparr>re_status = None, re_message = ''SyntaxError''\<rparr>)"

definition send_reservation ::
  "host_config \<Rightarrow> (fetch_request \<Rightarrow> fetched) \<Rightarrow> (json \<Rightarrow> reservation_response) \<Rightarrow> request_body \<Rightarrow> request_error + reservation_response" where
  "send_reservation cfg fetch read body = (case requestReservation cfg fetch body of
     Inl e \<Rightarrow> Inl (as_request_error e) | Inr j \<Rightarrow> Inr (read j))"

text \<open>An answer that leaves open whether the request landed, or was never sent.\<close>

definition unanswered :: "host_config \<Rightarrow> (fetch_request \<Rightarrow> fetched) \<Rightarrow> bool" where
  "unanswered cfg fetch \<longleftrightarrow> \<not> truthy_string (hc_url cfg) \<or> \<not> truthy_string (hc_api_key cfg) \<or>
     (\<forall>q. case fetch q of No_response m \<Rightarrow> True | Response status t b \<Rightarrow> status \<ge> 500 \<or> 200 \<le> status \<and> status < 300 \<and> b = None)"

lemma unanswered_retries:
  assumes "unanswered cfg fetch"
  shows "\<exists>e. send_reservation cfg fetch read body = Inl e \<and> (\<exists>m. reservationFailure e = R_retry m)"
proof (cases "truthy_string (hc_url cfg) \<and> truthy_string (hc_api_key cfg)")
  case False
  then show ?thesis
    by (auto simp: send_reservation_def requestReservation_def callHostManager_def host_request_def as_request_error_def reservationFailure_def)
next
  case True
  then obtain q where q: "host_request cfg POST_verb ''/reservations/requests'' (Some body) = Inr q"
    by (simp add: host_request_def)
  have "case fetch q of No_response m \<Rightarrow> True | Response status t b \<Rightarrow> status \<ge> 500 \<or> 200 \<le> status \<and> status < 300 \<and> b = None"
    using assms True by (simp add: unanswered_def)
  then show ?thesis
    by (cases "fetch q") (auto simp: send_reservation_def requestReservation_def callHostManager_def q as_request_error_def reservationFailure_def)
qed

lemma retried_submit:
  assumes "\<And>body. \<exists>e. send body = Inl e \<and> (\<exists>m. reservationFailure e = R_retry m)"
    and sub: "submitRequest cfg send k c b request now s = (outcome, s')"
  shows "s' = s \<and> (\<exists>m. outcome = R_retry m)"
proof -
  obtain E M where "\<And>body. send body = Inl (E body)" "\<And>body. reservationFailure (E body) = R_retry (M body)"
    using assms(1) by metis
  then show ?thesis using sub by (auto simp: submitRequest_def Let_def)
qed



section \<open>A refused key fails the deployment\<close>

text \<open>
  A 401 is taken for the deployment's fault. When host-manager answers a request with a status below 500 that is
  neither 402 nor 409, be it 401 for a wrong API key of the manager or 429 for too many requests, the
  reserve step calls the deployment's own terms rejected: the attempt is fatal, for every deployment alike.
\<close>

theorem refused_key_is_fatal:
  assumes cfg: "truthy_string (hc_url hc)" "truthy_string (hc_api_key hc)"
    and answer: "\<And>q. fetch q = Response status statusText content"
    and status: "400 \<le> status" "status < 500" "status \<noteq> 402" "status \<noteq> 409"
    and free: "t_reservation (k_task k) = None"
    and funds: "\<forall>m. checkListFunds fenv (k_deployment k) (min n MAX_RESERVATION_COUNT) \<noteq> Some (Insufficient m)"
    and run: "reserveListNodes cfg fenv (send_reservation hc fetch read) k n now s = (outcome, s')"
  shows "\<exists>m. outcome = R_fatal m"
proof -
  have send: "send_reservation hc fetch read body =
      Inl \<lparr>re_status = Some status, re_message = ''HostManagerError '' @ manager_message content statusText\<rparr>" for body
    using cfg status by (simp add: send_reservation_def requestReservation_def callHostManager_def host_request_def answer as_request_error_def)
  have fatal: "\<exists>m. reservationFailure \<lparr>re_status = Some status, re_message = t\<rparr> = R_fatal m" for t
    using status by (simp add: reservationFailure_def)
  show ?thesis
    using run free funds fatal unfolding reserveListNodes_def Let_def submitRequest_def
    by (auto simp: send split: option.splits funds_check.splits)
qed

theorem refused_key_is_fatal_witness:
  "\<exists>m. fst (reserveListNodes default_worker_config (example_funds\<lparr>fe_markets := None\<rparr>)
      (send_reservation \<lparr>hc_url = Some ''http://h'', hc_api_key = Some ''old''\<rparr> (\<lambda>_. Response 401 ''Unauthorized'' None) (\<lambda>_. undefined))
      (example_task\<lparr>k_task := blank_task 1 LIST ''D''\<rparr>) 1 5 empty_db) = R_fatal m"
proof -
  let ?send = "send_reservation \<lparr>hc_url = Some ''http://h'', hc_api_key = Some ''old''\<rparr> (\<lambda>_. Response 401 ''Unauthorized'' None) (\<lambda>_. undefined)"
  obtain outcome s' where run: "reserveListNodes default_worker_config (example_funds\<lparr>fe_markets := None\<rparr>) ?send
      (example_task\<lparr>k_task := blank_task 1 LIST ''D''\<rparr>) 1 5 empty_db = (outcome, s')" by (rule prod.exhaust)
  have "t_reservation (blank_task 1 LIST ''D'') = None" by (simp add: blank_task_def)
  then show ?thesis using refused_key_is_fatal [OF _ _ refl _ _ _ _ _ _ run] unfolding run fst_conv by (simp add: checkListFunds_def)
qed

end
