(* ===== verification/Process.thy ===== *)
theory Process
  imports Uri Migrations
begin

text \<open>
  The life of a process (\<open>src/index.ts\<close>, \<open>src/listeners/index.ts\<close>, \<open>src/connection\<close>, \<open>src/metrics/index.ts\<close>):
  the connection and its collections, what is started in each mode, and the shutdown with its order, its
  failures and its time limit.
\<close>

section \<open>The connection (\<open>connection/deployments.ts\<close>)\<close>

record docdb_config =
  dc_hostname :: string
  dc_port :: string
  dc_username :: "string option"
  dc_password :: "string option"
  dc_use_tls :: bool
  dc_dbname :: string

definition createConnectionString :: "string \<Rightarrow> string \<Rightarrow> string option \<Rightarrow> string option \<Rightarrow> string \<Rightarrow> string" where
  "createConnectionString hostname port username password dbname =
     ''mongodb://'' @
     (if truthy_string username \<and> truthy_string password
      then the username @ '':'' @ encodeURIComponent (the password) @ ''@'' else []) @
     hostname @ '':'' @ port @ ''/'' @ dbname"

definition connection_url :: "docdb_config \<Rightarrow> string" where
  "connection_url c = createConnectionString (dc_hostname c) (dc_port c) (dc_username c) (dc_password c) (dc_dbname c) @
     (if dc_use_tls c then ''?tls=true&tlsCAFile=global-bundle.pem&replicaSet=rs0&authMechanism=SCRAM-SHA-1&retryWrites=false''
      else ''?directConnection=true'')"

text \<open>How a driver reads it: the authority up to the first slash, its credentials before the last at-sign,
  the user before the first colon of them.\<close>

definition authority :: "string \<Rightarrow> string" where
  "authority url = takeWhile (\<lambda>c. c \<noteq> CHR ''/'') (drop (length ''mongodb://'') url)"

definition credentials :: "string \<Rightarrow> (string \<times> string option) option" where
  "credentials url = (let a = authority url in
     if CHR ''@'' \<in> set a
     then (let auth = rev (tl (dropWhile (\<lambda>c. c \<noteq> CHR ''@'') (rev a)))
           in Some (takeWhile (\<lambda>c. c \<noteq> CHR '':'') auth, decodeURIComponent (tl (dropWhile (\<lambda>c. c \<noteq> CHR '':'') auth))))
     else None)"

definition host_part :: "string \<Rightarrow> string" where
  "host_part url = rev (takeWhile (\<lambda>c. c \<noteq> CHR ''@'') (rev (authority url)))"

lemma takeWhile_stop: "\<not> P c \<Longrightarrow> \<forall>x \<in> set xs. P x \<Longrightarrow> takeWhile P (xs @ c # ys) = xs"
  by (induction xs) auto

lemma dropWhile_stop: "\<not> P c \<Longrightarrow> \<forall>x \<in> set xs. P x \<Longrightarrow> dropWhile P (xs @ c # ys) = c # ys"
  by (induction xs) auto

text \<open>
  Any password is read back. Whatever characters a password has, the driver reads from the URL the user,
  the password and the host it was built from; of the user's name it takes that it has no colon, slash or
  at-sign, and of the host that it has no slash or at-sign.
\<close>

theorem password_is_read_back:
  assumes c: "dc_username c = Some u" "u \<noteq> []" "dc_password c = Some p" "p \<noteq> []"
    and user: "set u \<inter> set '':/@'' = {}" and host: "set (dc_hostname c @ dc_port c) \<inter> set ''/@'' = {}"
  shows "credentials (connection_url c) = Some (u, Some p) \<and> host_part (connection_url c) = dc_hostname c @ '':'' @ dc_port c"
proof -
  have enc: "CHR ''@'' \<notin> set (encodeURIComponent p)" "CHR ''/'' \<notin> set (encodeURIComponent p)"
    by (rule encoded_delimiters; simp)+
  obtain rest where url: "drop (length ''mongodb://'') (connection_url c) =
      (u @ '':'' @ encodeURIComponent p @ ''@'' @ dc_hostname c @ '':'' @ dc_port c) @ CHR ''/'' # rest"
    using c by (simp add: connection_url_def createConnectionString_def)
  have no_slash: "\<forall>x \<in> set (u @ '':'' @ encodeURIComponent p @ ''@'' @ dc_hostname c @ '':'' @ dc_port c). x \<noteq> CHR ''/''"
    using user host enc(2) by auto
  have auth: "authority (connection_url c) = u @ '':'' @ encodeURIComponent p @ ''@'' @ dc_hostname c @ '':'' @ dc_port c"
    unfolding authority_def url by (rule takeWhile_stop) (use no_slash in simp_all)
  let ?hp = "dc_hostname c @ '':'' @ dc_port c" and ?up = "u @ '':'' @ encodeURIComponent p"
  have rev_auth: "rev (authority (connection_url c)) = rev ?hp @ CHR ''@'' # rev ?up" unfolding auth by simp
  have no_at: "\<forall>x \<in> set (rev ?hp). x \<noteq> CHR ''@''" using host by auto
  have "dropWhile (\<lambda>c. c \<noteq> CHR ''@'') (rev (authority (connection_url c))) = CHR ''@'' # rev ?up"
    unfolding rev_auth by (rule dropWhile_stop) (use no_at in simp_all)
  then have up: "rev (tl (dropWhile (\<lambda>c. c \<noteq> CHR ''@'') (rev (authority (connection_url c))))) = ?up" by simp
  have no_colon: "\<forall>x \<in> set u. x \<noteq> CHR '':''" using user by auto
  have "takeWhile (\<lambda>c. c \<noteq> CHR '':'') ?up = u" "dropWhile (\<lambda>c. c \<noteq> CHR '':'') ?up = CHR '':'' # encodeURIComponent p"
    using takeWhile_stop [of "\<lambda>c. c \<noteq> CHR '':''" "CHR '':''" u "encodeURIComponent p"]
      dropWhile_stop [of "\<lambda>c. c \<noteq> CHR '':''" "CHR '':''" u "encodeURIComponent p"] no_colon by simp_all
  then have "credentials (connection_url c) = Some (u, Some p)"
    unfolding credentials_def Let_def up using auth by simp
  moreover have "takeWhile (\<lambda>c. c \<noteq> CHR ''@'') (rev (authority (connection_url c))) = rev ?hp"
    unfolding rev_auth by (rule takeWhile_stop) (use no_at in simp_all)
  then have "host_part (connection_url c) = ?hp" by (simp add: host_part_def)
  ultimately show ?thesis by simp
qed

definition example_docdb :: docdb_config where
  "example_docdb = \<lparr>dc_hostname = ''db'', dc_port = ''27017'', dc_username = Some ''nos'', dc_password = Some ''p@s:s/'',
     dc_use_tls = False, dc_dbname = ''nosana''\<rparr>"

theorem password_is_read_back_witness:
  "credentials (connection_url example_docdb) = Some (''nos'', Some ''p@s:s/'')"
  using password_is_read_back [of example_docdb "''nos''" "''p@s:s/''"] by (simp add: example_docdb_def)

section \<open>The collections (\<open>connection/docdb/collections/index.ts\<close>)\<close>

definition CollectionsNames :: "string list" where
  "CollectionsNames = [''deployments'', ''events'', ''vaults'', ''jobs'', ''tasks'', ''task_locks'', ''revisions'',
     ''results'', ''frps_endpoint_status'']"

text \<open>
  \<open>listed\<close> is the list the process reads first, \<open>present\<close> what is there when it creates: the store
  refuses a collection that exists. None: the process throws.
\<close>

fun create_each :: "string list \<Rightarrow> string list \<Rightarrow> string list \<Rightarrow> string list option" where
  "create_each listed [] present = Some present"
| "create_each listed (name # names) present =
     (if name \<in> set listed then create_each listed names present
      else if name \<in> set present then None else create_each listed names (present @ [name]))"

definition createCollections :: "string list \<Rightarrow> string list \<Rightarrow> string list option" where
  "createCollections listed present = create_each listed (CollectionsNames @ [''_migrations'']) present"

lemma create_each_alone:
  assumes "distinct names" "set present \<inter> set names \<subseteq> set listed"
  shows "create_each listed names present = Some (present @ filter (\<lambda>n. n \<notin> set listed) names)"
  using assms
proof (induction names arbitrary: present)
  case (Cons n names)
  then show ?case
    using Cons.IH [of present] Cons.IH [of "present @ [n]"] by auto
qed simp

text \<open>
  Alone, a process finds or creates every collection; when another process creates one of them between its
  list and its creation, it throws.
\<close>

theorem collections_race:
  "(\<exists>cs. createCollections names names = Some cs \<and> set CollectionsNames \<subseteq> set cs) \<and>
   (n \<in> set CollectionsNames \<longrightarrow> n \<notin> set listed \<longrightarrow> n \<in> set present \<longrightarrow> createCollections listed present = None)"
proof -
  have distinct: "distinct (CollectionsNames @ [''_migrations''])" by (simp add: CollectionsNames_def)
  have "createCollections names names = Some (names @ filter (\<lambda>n. n \<notin> set names) (CollectionsNames @ [''_migrations'']))"
    unfolding createCollections_def by (rule create_each_alone [OF distinct]) auto
  then have "\<exists>cs. createCollections names names = Some cs \<and> set CollectionsNames \<subseteq> set cs" by auto
  moreover have "create_each listed ns present = None" if "n \<in> set ns" "n \<notin> set listed" "n \<in> set present" for ns present
    using that
  proof (induction ns arbitrary: present)
    case (Cons m ns)
    then show ?case by (cases "m = n") auto
  qed simp
  ultimately show ?thesis by (simp add: createCollections_def)
qed

section \<open>What a process runs (\<open>index.ts\<close>, \<open>listeners/index.ts\<close>, \<open>metrics/index.ts\<close>)\<close>

datatype part = Db_connection | Deployments_stream | Jobs_stream | Account_listeners | Frps_feed | Task_consumer
  | Api_server | Health_server

definition startDeploymentManagerListeners :: "part list" where
  "startDeploymentManagerListeners = [Deployments_stream, Jobs_stream, Account_listeners, Frps_feed]"

definition boot_parts :: "app_mode \<Rightarrow> part list" where
  "boot_parts mode = [Db_connection] @
     (if shouldRunListeners mode then startDeploymentManagerListeners else []) @
     (if shouldRunConsumer mode then [Task_consumer] else []) @
     (if shouldRunApi mode then [Api_server] else if shouldRunWorker mode then [Health_server] else [])"

record metrics_handle =
  mh_http :: bool
  mh_worker :: bool
  mh_frps :: bool

definition createMetrics :: "app_mode \<Rightarrow> metrics_handle" where
  "createMetrics mode =
     (let m = \<lparr>mh_http = shouldRunApi mode, mh_worker = False, mh_frps = False\<rparr>;
          m = (if shouldRunWorker mode then m\<lparr>mh_http := True, mh_worker := True\<rparr> else m)
      in if shouldRunListeners mode then m\<lparr>mh_frps := True\<rparr> else m)"

text \<open>
  The start: the kit's pin of the placeholder definition, the connection with its migrations (\<open>init_db\<close>), then the
  parts one after the other, each of which may fail. Nothing catches a failure: the process ends, with
  status 1 and whatever it had started.
\<close>

fun start_parts :: "(part \<Rightarrow> bool) \<Rightarrow> part list \<Rightarrow> part list \<times> bool" where
  "start_parts ok [] = ([], True)"
| "start_parts ok (p # ps) = (if ok p then map_prod ((#) p) id (start_parts ok ps) else ([], False))"

definition boot :: "app_mode \<Rightarrow> bool \<Rightarrow> (part \<Rightarrow> bool) \<Rightarrow> 'd migration list \<Rightarrow> (nat \<Rightarrow> string list) \<Rightarrow> 'd migrated \<Rightarrow>
    part list \<times> bool \<times> 'd migrated" where
  "boot mode pin_ok ok expected polls w =
     (if shouldRunWorker mode \<and> \<not> pin_ok then ([], False, w)
      else if \<not> ok Db_connection then ([], False, w)
      else (case init_db mode expected polls w of
          (False, w') \<Rightarrow> ([], False, w')
        | (True, w') \<Rightarrow> (let (ps, alive) = start_parts ok (boot_parts mode) in (ps, alive, w'))))"

lemma parts_of_mode:
  "Frps_feed \<in> set (boot_parts mode) \<longleftrightarrow> shouldRunListeners mode"
  "Task_consumer \<in> set (boot_parts mode) \<longleftrightarrow> shouldRunConsumer mode"
  "Api_server \<in> set (boot_parts mode) \<longleftrightarrow> shouldRunApi mode"
  "Health_server \<in> set (boot_parts mode) \<longleftrightarrow> \<not> shouldRunApi mode"
  "Db_connection \<in> set (boot_parts mode)"
  by (cases mode; simp add: boot_parts_def startDeploymentManagerListeners_def shouldRunListeners_def shouldRunConsumer_def
      shouldRunApi_def shouldRunWorker_def)+

lemma start_prefix: "set (fst (start_parts ok ps)) \<subseteq> set ps \<and> (snd (start_parts ok ps) \<longrightarrow> fst (start_parts ok ps) = ps)"
  by (induction ps) auto

text \<open>
  C39: nothing runs on a database that is not migrated. Whatever mode a process has and whatever fails, any part
  beyond the connection runs only once every expected migration is recorded, by the process itself if it
  is one of the listeners, by another if not; and a process that comes up answers on exactly one HTTP server,
  with the HTTP metrics and those of each part that reports.
\<close>

theorem nothing_runs_unmigrated:
  "(fst (boot mode pin_ok ok expected polls w) \<noteq> [] \<longrightarrow>
      (if shouldRunListeners mode then fst ` set expected \<subseteq> set (mg_applied (snd (snd (boot mode pin_ok ok expected polls w))))
       else snd (snd (boot mode pin_ok ok expected polls w)) = w \<and> (\<exists>n. fst ` set expected \<subseteq> set (polls n)))) \<and>
   (fst (snd (boot mode pin_ok ok expected polls w)) \<longrightarrow>
      fst (boot mode pin_ok ok expected polls w) = boot_parts mode \<and>
      (Api_server \<in> set (boot_parts mode) \<longleftrightarrow> Health_server \<notin> set (boot_parts mode)) \<and>
      mh_http (createMetrics mode) \<and>
      (Task_consumer \<in> set (boot_parts mode) \<longrightarrow> mh_worker (createMetrics mode)) \<and>
      (Frps_feed \<in> set (boot_parts mode) \<longleftrightarrow> mh_frps (createMetrics mode)))"
proof (cases "(shouldRunWorker mode \<longrightarrow> pin_ok) \<and> ok Db_connection \<and> fst (init_db mode expected polls w)")
  case False
  then show ?thesis by (auto simp: boot_def split: prod.split bool.split)
next
  case True
  obtain w' where init: "init_db mode expected polls w = (True, w')" using True by (cases "init_db mode expected polls w") simp
  obtain ps alive where parts: "start_parts ok (boot_parts mode) = (ps, alive)" by (rule prod.exhaust)
  have boot: "boot mode pin_ok ok expected polls w = (ps, alive, w')" using True by (auto simp: boot_def init parts)
  have "if shouldRunListeners mode then fst ` set expected \<subseteq> set (mg_applied w')
       else w' = w \<and> (\<exists>n. fst ` set expected \<subseteq> set (polls n))"
    using init run_applied [of expected w w']
    by (auto simp: init_db_def awaitMigrationsApplied_def await_from_iff split: if_splits)
  moreover have "alive \<longrightarrow> ps = boot_parts mode" using start_prefix [of ok "boot_parts mode"] by (simp add: parts)
  moreover have "mh_http (createMetrics mode)" "Task_consumer \<in> set (boot_parts mode) \<longrightarrow> mh_worker (createMetrics mode)"
      "Frps_feed \<in> set (boot_parts mode) \<longleftrightarrow> mh_frps (createMetrics mode)"
    unfolding parts_of_mode by (cases mode; simp add: createMetrics_def shouldRunListeners_def shouldRunConsumer_def shouldRunApi_def shouldRunWorker_def)+
  ultimately show ?thesis unfolding boot by (simp add: parts_of_mode)
qed

theorem nothing_runs_unmigrated_witness:
  "fst (boot Mode_worker True (\<lambda>_. True) [(''1-a.js'', \<lambda>d. ([], True))] (\<lambda>n. []) \<lparr>mg_store = (), mg_applied = []\<rparr>) = boot_parts Mode_worker"
proof -
  have "fst (snd (boot Mode_worker True (\<lambda>_. True) [(''1-a.js'', \<lambda>d. ([], True))] (\<lambda>n. []) \<lparr>mg_store = (), mg_applied = []\<rparr>))"
    by (simp add: boot_def init_db_def shouldRunListeners_def outcome_def boot_parts_def startDeploymentManagerListeners_def
        shouldRunConsumer_def shouldRunApi_def shouldRunWorker_def)
  then show ?thesis
    using nothing_runs_unmigrated [of Mode_worker True "\<lambda>_. True" "[(''1-a.js'', \<lambda>d. ([], True))]" "\<lambda>n. []"
        "\<lparr>mg_store = (), mg_applied = []\<rparr>"] by blast
qed

section \<open>The shutdown\<close>

definition SHUTDOWN_TIMEOUT_MS :: nat where "SHUTDOWN_TIMEOUT_MS = 130000"
definition TASK_DRAIN_POLL_INTERVAL_MS :: nat where "TASK_DRAIN_POLL_INTERVAL_MS = 500"

text \<open>
  The stages of the shutdown, each awaited before the next: the parts of one stage stop at once
  (\<open>Promise.all\<close>). \<open>env\<close> says how long a part takes to stop and whether it does.
\<close>

definition shutdown_stages :: "app_mode \<Rightarrow> part list list" where
  "shutdown_stages mode =
     (if shouldRunApi mode then [[Api_server]] else if shouldRunWorker mode then [[Health_server]] else []) @
     (if shouldRunConsumer mode then [[Task_consumer]] else []) @
     (if shouldRunListeners mode then [[Account_listeners], [Frps_feed], [Deployments_stream, Jobs_stream]] else []) @
     [[Db_connection]]"

definition stage_time :: "(part \<Rightarrow> nat \<times> bool) \<Rightarrow> part list \<Rightarrow> nat" where
  "stage_time env stage = fold max (map (\<lambda>p. fst (env p)) stage) 0"

definition failed_after :: "(part \<Rightarrow> nat \<times> bool) \<Rightarrow> part list \<Rightarrow> nat option" where
  "failed_after env stage = (case map (\<lambda>p. fst (env p)) (filter (\<lambda>p. \<not> snd (env p)) stage) of
     [] \<Rightarrow> None | t # ts \<Rightarrow> Some (fold min ts t))"

definition stopped_within :: "(part \<Rightarrow> nat \<times> bool) \<Rightarrow> nat \<Rightarrow> part list \<Rightarrow> part list" where
  "stopped_within env t stage = filter (\<lambda>p. snd (env p) \<and> fst (env p) \<le> t) stage"

text \<open>The parts that stopped, and the status the process exits with, \<open>left\<close> milliseconds before it is forced to.\<close>

fun shutdown :: "(part \<Rightarrow> nat \<times> bool) \<Rightarrow> nat \<Rightarrow> part list list \<Rightarrow> part list \<times> nat" where
  "shutdown env left [] = ([], 0)"
| "shutdown env left (stage # stages) = (case failed_after env stage of
     Some t \<Rightarrow> if t \<le> left then (stopped_within env t stage, 0) else (stopped_within env left stage, 1)
   | None \<Rightarrow>
       if left < stage_time env stage then (stopped_within env left stage, 1)
       else map_prod ((@) stage) id (shutdown env (left - stage_time env stage) stages))"

text \<open>Signals: the first starts the shutdown, any later one returns at once.\<close>

fun shutdowns :: "bool \<Rightarrow> string list \<Rightarrow> nat" where
  "shutdowns shuttingDown [] = 0"
| "shutdowns shuttingDown (sig # sigs) = (if shuttingDown then shutdowns True sigs else Suc (shutdowns True sigs))"

text \<open>The consumer's stop: it polls until nothing is in flight or the lease it began with is over.\<close>

function drain :: "nat \<Rightarrow> nat \<Rightarrow> nat \<Rightarrow> nat" where
  "drain lease idle_at now = (if now < idle_at \<and> now < lease then drain lease idle_at (now + TASK_DRAIN_POLL_INTERVAL_MS) else now)"
  by auto
termination by (relation "measure (\<lambda>(lease, idle_at, now). lease - now)") (auto simp: TASK_DRAIN_POLL_INTERVAL_MS_def)

declare drain.simps [simp del]

lemma drain_bound: "now < lease + TASK_DRAIN_POLL_INTERVAL_MS \<Longrightarrow> drain lease idle_at now < lease + TASK_DRAIN_POLL_INTERVAL_MS"
proof (induction lease idle_at now rule: drain.induct)
  case (1 lease idle_at now)
  show ?case by (subst drain.simps) (use 1 in \<open>auto simp: TASK_DRAIN_POLL_INTERVAL_MS_def\<close>)
qed

lemma drain_waits: "idle_at > lease \<Longrightarrow> lease \<le> drain lease idle_at now"
proof (induction lease idle_at now rule: drain.induct)
  case (1 lease idle_at now)
  show ?case by (subst drain.simps) (use 1 in auto)
qed

definition rank :: "part \<Rightarrow> nat" where
  "rank p = (case p of Api_server \<Rightarrow> 0 | Health_server \<Rightarrow> 0 | Task_consumer \<Rightarrow> 1 | Account_listeners \<Rightarrow> 2 | Frps_feed \<Rightarrow> 3
     | Deployments_stream \<Rightarrow> 4 | Jobs_stream \<Rightarrow> 4 | Db_connection \<Rightarrow> 5)"

lemma clean_stages:
  assumes "\<forall>p \<in> set (concat stages). snd (env p)" "sum_list (map (stage_time env) stages) \<le> left"
  shows "shutdown env left stages = (concat stages, 0)"
  using assms
proof (induction stages arbitrary: left)
  case (Cons stage stages)
  have "filter (\<lambda>p. \<not> snd (env p)) stage = []" using Cons.prems(1) by (simp add: filter_empty_conv)
  then have "failed_after env stage = None" by (simp add: failed_after_def)
  then show ?case using Cons.IH [of "left - stage_time env stage"] Cons.prems by simp
qed simp

lemma stages_order:
  "sorted (map rank (concat (shutdown_stages mode)))" "distinct (concat (shutdown_stages mode))"
  "set (concat (shutdown_stages mode)) = set (boot_parts mode)"
  by (cases mode; simp add: shutdown_stages_def boot_parts_def startDeploymentManagerListeners_def shouldRunListeners_def
      shouldRunConsumer_def shouldRunApi_def shouldRunWorker_def rank_def; blast)+

text \<open>
  C14: a signal stops everything that was started, once and in order. However many signals come, there is one
  shutdown; when every part stops and all of them within the limit, exactly the parts of the process's mode
  stop, the HTTP server first, then the consumer, the producers of work, the change streams and last the
  connection, and the process exits with 0.
\<close>

theorem shutdown_stops_what_runs:
  assumes "\<forall>p \<in> set (boot_parts mode). snd (env p)"
    and "sum_list (map (stage_time env) (shutdown_stages mode)) \<le> SHUTDOWN_TIMEOUT_MS"
    and "sigs \<noteq> []"
  shows "shutdowns False sigs = 1 \<and>
    (\<exists>ps. shutdown env SHUTDOWN_TIMEOUT_MS (shutdown_stages mode) = (ps, 0) \<and>
       set ps = set (boot_parts mode) \<and> distinct ps \<and> sorted (map rank ps) \<and> last ps = Db_connection)"
proof -
  have "shutdowns True sigs' = 0" for sigs' by (induction sigs') simp_all
  then have "shutdowns False sigs = 1" using assms(3) by (cases sigs) simp_all
  moreover have "\<forall>p \<in> set (concat (shutdown_stages mode)). snd (env p)" using assms(1) stages_order(3) [of mode] by simp
  moreover have "last (concat (shutdown_stages mode)) = Db_connection" by (simp add: shutdown_stages_def)
  ultimately show ?thesis
    using clean_stages [OF _ assms(2)] stages_order [of mode] by simp
qed

definition quick_stops :: "part \<Rightarrow> nat \<times> bool" where
  "quick_stops p = (10, True)"

theorem shutdown_stops_what_runs_witness:
  "\<exists>ps. shutdown quick_stops SHUTDOWN_TIMEOUT_MS (shutdown_stages Mode_all) = (ps, 0) \<and> last ps = Db_connection"
proof -
  have "sum_list (map (stage_time quick_stops) (shutdown_stages Mode_all)) \<le> SHUTDOWN_TIMEOUT_MS"
    by (simp add: shutdown_stages_def stage_time_def quick_stops_def SHUTDOWN_TIMEOUT_MS_def shouldRunListeners_def
        shouldRunConsumer_def shouldRunApi_def)
  then show ?thesis
    using shutdown_stops_what_runs [of Mode_all quick_stops "[''SIGTERM'', ''SIGINT'']"] by (auto simp: quick_stops_def)
qed

section \<open>A shutdown that fails\<close>

text \<open>
  One part that fails to stop leaves the later ones running and is told as a success. When a stage
  fails in time, nothing of the stages after it is stopped, the connection included, and the process exits with 0.
\<close>

theorem failed_stop_skips_the_rest:
  assumes "\<forall>p \<in> set (concat earlier). snd (env p)"
    and "failed_after env stage = Some t" "sum_list (map (stage_time env) earlier) + t \<le> left"
  shows "shutdown env left (earlier @ stage # stages) = (concat earlier @ stopped_within env t stage, 0)"
  using assms
proof (induction earlier arbitrary: left)
  case (Cons s earlier)
  have "filter (\<lambda>p. \<not> snd (env p)) s = []" using Cons.prems(1) by (simp add: filter_empty_conv)
  then have "failed_after env s = None" by (simp add: failed_after_def)
  then show ?case using Cons.IH [of "left - stage_time env s"] Cons.prems by simp
qed simp

theorem failed_stop_skips_the_rest_witness:
  "shutdown (\<lambda>p. (5, p \<noteq> Api_server)) SHUTDOWN_TIMEOUT_MS (shutdown_stages Mode_all) = ([], 0)"
proof -
  have stages: "shutdown_stages Mode_all = [] @ [Api_server] # tl (shutdown_stages Mode_all)"
    by (simp add: shutdown_stages_def shouldRunApi_def)
  show ?thesis
    by (subst stages, subst failed_stop_skips_the_rest [where t = 5])
      (simp_all add: failed_after_def stopped_within_def SHUTDOWN_TIMEOUT_MS_def)
qed

text \<open>
  The drain is as long as the lease is configured. With something in flight to the end, the consumer's stop
  takes the whole lease; a lease above the limit of the shutdown, which is a constant, has the process
  forced out with status 1 before it stops its listeners or closes its connection.
\<close>

theorem long_lease_is_forced_out:
  assumes mode: "shouldRunConsumer mode" and work: "lease < idle_at" and lease: "SHUTDOWN_TIMEOUT_MS < lease"
    and env: "env Task_consumer = (drain lease idle_at 0, True)" "\<forall>p \<in> set (boot_parts mode). snd (env p)"
    and server: "fst (env Api_server) \<le> SHUTDOWN_TIMEOUT_MS" "fst (env Health_server) \<le> SHUTDOWN_TIMEOUT_MS"
  shows "snd (shutdown env SHUTDOWN_TIMEOUT_MS (shutdown_stages mode)) = 1 \<and>
    set (fst (shutdown env SHUTDOWN_TIMEOUT_MS (shutdown_stages mode))) \<subseteq> {Api_server, Health_server}"
proof -
  have slow: "SHUTDOWN_TIMEOUT_MS < fst (env Task_consumer)" using drain_waits [OF work, of 0] lease env(1) by simp
  have ok: "snd (env Task_consumer)" using env(1) by simp
  obtain first rest where stages: "shutdown_stages mode = [[first], [Task_consumer]] @ rest" "first \<in> {Api_server, Health_server}"
    using mode by (cases mode) (auto simp: shutdown_stages_def shouldRunListeners_def shouldRunConsumer_def shouldRunApi_def shouldRunWorker_def)
  have first: "first \<in> set (boot_parts mode)" using stages(1) stages_order(3) [of mode] by auto
  then have "snd (env first)" using env(2) by blast
  moreover have "fst (env first) \<le> SHUTDOWN_TIMEOUT_MS" using stages(2) server by auto
  ultimately show ?thesis
    using slow ok stages(2) unfolding stages(1) by (auto simp: failed_after_def stage_time_def stopped_within_def)
qed

theorem long_lease_is_forced_out_witness:
  "snd (shutdown (\<lambda>p. if p = Task_consumer then (drain 140000 150000 0, True) else (5, True)) SHUTDOWN_TIMEOUT_MS
     (shutdown_stages Mode_worker)) = 1"
  using long_lease_is_forced_out [of Mode_worker 140000 150000 "\<lambda>p. if p = Task_consumer then (drain 140000 150000 0, True) else (5, True)"]
  by (simp add: shouldRunConsumer_def SHUTDOWN_TIMEOUT_MS_def)

end
