(* ===== verification/Metric_Labels.thy ===== *)
theory Metric_Labels
  imports Route_Table
begin

text \<open>
  The labels of the HTTP metrics (\<open>src/metrics/labels.ts\<close>, \<open>src/metrics/http-fastify.ts\<close>): how a path is reduced to
  a pattern, which label a request is counted under, and how many labels there can be.
\<close>

section \<open>Patterns (\<open>metrics/labels.ts\<close>)\<close>

definition METRICS_ROUTE_PATH :: string where "METRICS_ROUTE_PATH = ''/metrics''"
definition MIN_PUBKEY_LENGTH :: nat where "MIN_PUBKEY_LENGTH = 32"
definition MAX_PUBKEY_LENGTH :: nat where "MAX_PUBKEY_LENGTH = 44"

definition alphanumeric :: "char \<Rightarrow> bool" where
  "alphanumeric c \<longleftrightarrow> c \<in> set ''abcdefghijklmnopqrstuvwxyzABCDEFGHIJKLMNOPQRSTUVWXYZ0123456789''"

definition placeholder :: "string \<Rightarrow> string" where
  "placeholder segment =
     (if segment = [] then segment
      else if list_all is_digit segment then '':id''
      else if length segment = 64 \<and> list_all alphanumeric segment then '':invitation-token''
      else if MIN_PUBKEY_LENGTH \<le> length segment \<and> length segment \<le> MAX_PUBKEY_LENGTH \<and> list_all alphanumeric segment then '':address''
      else segment)"

definition without_query :: "string \<Rightarrow> string" where
  "without_query url = takeWhile (\<lambda>c. c \<noteq> CHR ''?'') url"

definition extractRoutePattern :: "string \<Rightarrow> string" where
  "extractRoutePattern pathname =
     (let cleanPath = without_query pathname;
          normalizedPath = (if cleanPath \<noteq> [] \<and> last cleanPath = CHR ''/'' \<and> 1 < length cleanPath then butlast cleanPath else cleanPath)
      in join ''/'' (map placeholder (split_on CHR ''/'' normalizedPath)))"

definition statusRange :: "nat \<Rightarrow> string" where
  "statusRange code = (if code \<ge> 500 then ''5xx'' else if code \<ge> 400 then ''4xx'' else if code \<ge> 300 then ''3xx''
     else if code \<ge> 200 then ''2xx'' else ''1xx'')"

section \<open>The label of a request (\<open>metrics/http-fastify.ts\<close>)\<close>

text \<open>
  The framework tells a request's route template where it found one: an entry of the table, or one of \<open>others\<close>, the
  routes of the plugins. A scrape of the metrics is not counted.
\<close>

definition matched_route :: "(http_method \<Rightarrow> string \<Rightarrow> string option) \<Rightarrow> http_method \<Rightarrow> string \<Rightarrow> string option" where
  "matched_route others m path = (case find (\<lambda>e. en_method e = m \<and> path_matches (en_path e) path) route_table of
     Some e \<Rightarrow> Some (en_path e) | None \<Rightarrow> others m path)"

definition http_label :: "(http_method \<Rightarrow> string \<Rightarrow> string option) \<Rightarrow> http_method \<Rightarrow> string \<Rightarrow> string option" where
  "http_label others m url =
     (let rawUrl = without_query url
      in if rawUrl = METRICS_ROUTE_PATH then None
         else Some (nullish (matched_route others m rawUrl) (extractRoutePattern rawUrl)))"

text \<open>\<open>onResponse\<close>: the labels counted so far, with those of one more answer.\<close>

definition onResponse ::
  "(http_method \<Rightarrow> string \<Rightarrow> string option) \<Rightarrow> http_method \<times> string \<times> nat \<Rightarrow> (http_method \<times> string \<times> string) list \<Rightarrow>
    (http_method \<times> string \<times> string) list" where
  "onResponse others r counted = (case r of (m, url, status) \<Rightarrow>
     (case http_label others m url of None \<Rightarrow> counted | Some route \<Rightarrow> counted @ [(m, route, statusRange status)]))"

section \<open>The routes of the API have one label each\<close>

lemma split_on_join:
  assumes "ws \<noteq> []" "\<forall>w \<in> set ws. sep \<notin> set w" shows "split_on sep (join [sep] ws) = ws"
  using assms
proof (induction ws)
  case (Cons w ws)
  have plain: "split_on sep w = [w]" if "sep \<notin> set w" for w using that by (induction w) auto
  show ?case
  proof (cases ws)
    case Nil
    then show ?thesis using Cons.prems plain by simp
  next
    case (Cons v vs)
    then show ?thesis using Cons.IH Cons.prems split_on_append [of sep w "join [sep] ws"] by simp
  qed
qed simp

lemma join_chars: "c \<in> set (join sep ws) \<Longrightarrow> c \<in> set sep \<or> (\<exists>w \<in> set ws. c \<in> set w)"
  by (induction sep ws rule: join.induct) auto

lemma join_last: "ws \<noteq> [] \<Longrightarrow> last ws \<noteq> [] \<Longrightarrow> join sep ws \<noteq> [] \<and> last (join sep ws) = last (last ws)"
  by (induction sep ws rule: join.induct) auto

lemma split_on_plain: "w \<in> set (split_on sep path) \<Longrightarrow> sep \<notin> set w"
proof (induction path arbitrary: w)
  case (Cons c path)
  obtain v vs where "split_on sep path = v # vs" by (cases "split_on sep path") simp_all
  then show ?case using Cons by (auto split: if_splits)
qed simp

lemma split_on_chars: "w \<in> set (split_on sep path) \<Longrightarrow> set w \<subseteq> set path"
proof (induction path arbitrary: w)
  case (Cons c path)
  obtain v vs where v: "split_on sep path = v # vs" by (cases "split_on sep path") simp_all
  then have "set v \<subseteq> set path" "\<And>x. x \<in> set vs \<Longrightarrow> set x \<subseteq> set path" using Cons.IH by auto
  then show ?case using Cons.prems v by (auto split: if_splits)
qed simp

lemma placeholder_short: "p = [] \<or> length p < 32 \<and> \<not> is_digit (hd p) \<Longrightarrow> placeholder p = p"
  by (cases p) (auto simp: placeholder_def MIN_PUBKEY_LENGTH_def)

lemma statics_plain: "list_all (\<lambda>e. list_all (\<lambda>p. p = [] \<or> length p < 32 \<and> \<not> is_digit (hd p)) (segments (en_path e))) route_table"
  by (simp add: route_defs segments_def is_digit_def)

lemma paths_plain: "list_all (\<lambda>e. CHR ''?'' \<notin> set (en_path e) \<and> last (segments (en_path e)) \<noteq> []) route_table"
  by (simp add: route_defs segments_def)

lemma statics_of:
  assumes "e \<in> set route_table" "p \<in> set (segments (en_path e))"
  shows "placeholder p = p" "CHR ''/'' \<notin> set p" "CHR ''?'' \<notin> set p" "last (segments (en_path e)) \<noteq> []"
  using assms statics_plain paths_plain split_on_plain [of p "CHR ''/''" "en_path e"] split_on_chars [of p "CHR ''/''" "en_path e"]
  unfolding list_all_iff segments_def by (auto intro: placeholder_short)

lemma no_metrics: "list_all (\<lambda>e. \<not> path_matches (en_path e) METRICS_ROUTE_PATH) route_table"
proof -
  have seg: "segments METRICS_ROUTE_PATH = [[], ''metrics'']" by (simp add: segments_def METRICS_ROUTE_PATH_def)
  have "list_all (\<lambda>e. case segments (en_path e) of [a, b] \<Rightarrow> \<not> is_param b \<and> b \<noteq> ''metrics'' | _ \<Rightarrow> True) route_table"
    by (simp add: route_defs segments_def is_param_def)
  then show ?thesis
    unfolding path_matches_def seg by (auto simp: list_all_iff list_all2_Cons2 split: list.splits)
qed

definition address_segment :: "string \<Rightarrow> bool" where
  "address_segment u \<longleftrightarrow> 32 \<le> length u \<and> length u \<le> 44 \<and> list_all alphanumeric u \<and> \<not> list_all is_digit u"

lemma placeholder_address: "address_segment u \<Longrightarrow> placeholder u = '':address''"
  by (auto simp: address_segment_def placeholder_def MIN_PUBKEY_LENGTH_def MAX_PUBKEY_LENGTH_def)

lemma address_chars: "address_segment u \<Longrightarrow> CHR ''/'' \<notin> set u \<and> CHR ''?'' \<notin> set u"
proof -
  have "\<not> alphanumeric CHR ''/''" "\<not> alphanumeric CHR ''?''" by (simp_all add: alphanumeric_def)
  then show "address_segment u \<Longrightarrow> CHR ''/'' \<notin> set u \<and> CHR ''?'' \<notin> set u"
    unfolding address_segment_def list_all_iff by blast
qed

text \<open>
  The labels of the API's routes are as many as its routes. A request a route of the table matches
  is counted under that route's template, whatever its parameters and its query are; and for parameters that are
  addresses the pattern alone, which is what counts where the framework tells no template, is the template with each
  parameter written \<open>:address\<close>.
\<close>

theorem route_labels_are_templates:
  assumes e: "e \<in> set route_table"
    and us: "list_all2 (\<lambda>p u. if is_param p then address_segment u else u = p) (segments (en_path e)) us"
    and query: "query = [] \<or> hd query = CHR ''?''"
  shows "(\<exists>e' \<in> set route_table. en_method e' = en_method e \<and>
       http_label others (en_method e) (join ''/'' us @ query) = Some (en_path e')) \<and>
    extractRoutePattern (join ''/'' us @ query) = join ''/'' (map (\<lambda>p. if is_param p then '':address'' else p) (segments (en_path e)))"
proof -
  let ?ps = "segments (en_path e)"
  have len: "length us = length ?ps" using us by (simp add: list_all2_lengthD)
  have each: "placeholder u = (if is_param p then '':address'' else p)" "CHR ''/'' \<notin> set u" "CHR ''?'' \<notin> set u"
    if "(p, u) \<in> set (zip ?ps us)" for p u
  proof -
    have "if is_param p then address_segment u else u = p" using us that by (auto simp: list_all2_iff)
    moreover have "p \<in> set ?ps" using that by (rule set_zip_leftD)
    ultimately show "placeholder u = (if is_param p then '':address'' else p)" "CHR ''/'' \<notin> set u" "CHR ''?'' \<notin> set u"
      using statics_of [OF e] placeholder_address address_chars by (auto split: if_splits)
  qed
  have in_zip: "\<exists>p. (p, u) \<in> set (zip ?ps us)" if "u \<in> set us" for u
    using that len by (metis in_set_impl_in_set_zip2)
  have plain: "\<forall>u \<in> set us. CHR ''/'' \<notin> set u" "\<forall>u \<in> set us. CHR ''?'' \<notin> set u" using in_zip each by blast+
  have "?ps \<noteq> []" by (simp add: segments_def)
  then have ne: "us \<noteq> []" using len by auto
  have no_query: "\<forall>c \<in> set (join ''/'' us). c \<noteq> CHR ''?''" using join_chars [of _ "''/''" us] plain(2) by auto
  then have raw: "without_query (join ''/'' us @ query) = join ''/'' us"
  proof -
    have "takeWhile (\<lambda>c. c \<noteq> CHR ''?'') query = []" using query by (cases query) simp_all
    then show ?thesis unfolding without_query_def using no_query by (subst takeWhile_append2) simp_all
  qed
  have "(last ?ps, last us) \<in> set (zip ?ps us)" 
    using last_in_set [of "zip ?ps us"] last_zip [of ?ps us] \<open>?ps \<noteq> []\<close> ne len by simp
  then have "if is_param (last ?ps) then address_segment (last us) else last us = last ?ps"
    using us unfolding list_all2_iff by blast
  moreover have "last ?ps \<noteq> []" using statics_of(4) [OF e last_in_set [OF \<open>?ps \<noteq> []\<close>]] .
  ultimately have "last us \<noteq> []" by (auto simp: address_segment_def split: if_splits)
  then have "last (join ''/'' us) \<noteq> CHR ''/''" using join_last [OF ne] plain(1) ne by (metis last_in_set)
  then have "extractRoutePattern (join ''/'' us @ query) = join ''/'' (map placeholder us)"
    unfolding extractRoutePattern_def raw Let_def using split_on_join [OF ne plain(1)] by simp
  moreover have "map placeholder us = map (\<lambda>p. if is_param p then '':address'' else p) ?ps"
  proof (rule nth_equalityI)
    fix i assume i: "i < length (map placeholder us)"
    then have "(?ps ! i, us ! i) \<in> set (zip ?ps us)" using len by (auto simp: set_zip)
    then show "map placeholder us ! i = map (\<lambda>p. if is_param p then '':address'' else p) ?ps ! i"
      using each(1) i len by simp
  qed (simp add: len)
  moreover have "segments (join ''/'' us) = us" unfolding segments_def by (rule split_on_join [OF ne plain(1)])
  then have "path_matches (en_path e) (join ''/'' us)"
    unfolding path_matches_def using us by (auto elim: list_all2_mono split: if_splits)
  then obtain e' where "find (\<lambda>e'. en_method e' = en_method e \<and> path_matches (en_path e') (join ''/'' us)) route_table = Some e'"
    "e' \<in> set route_table" "en_method e' = en_method e"
    using e by (cases "find (\<lambda>e'. en_method e' = en_method e \<and> path_matches (en_path e') (join ''/'' us)) route_table")
      (auto simp: find_None_iff find_Some_iff)
  moreover have "http_label others (en_method e) (join ''/'' us @ query) = Some (en_path e')"
  proof -
    have "join ''/'' us \<noteq> METRICS_ROUTE_PATH"
      using \<open>path_matches (en_path e) (join ''/'' us)\<close> e no_metrics by (auto simp: list_all_iff)
    then show ?thesis using calculation(3) by (simp add: http_label_def raw matched_route_def)
  qed
  ultimately show ?thesis by auto
qed

theorem route_labels_are_templates_witness:
  "extractRoutePattern (''/deployments/'' @ replicate 43 CHR ''k'' @ ''/jobs?limit=10'') = ''/deployments/:address/jobs''"
proof -
  let ?e = "deployment_entry GET ''/:deployment/jobs'' [Get_deployment] GetDeploymentJobsHandler"
  let ?us = "[[], ''deployments'', replicate 43 CHR ''k'', ''jobs'']"
  have e: "?e \<in> set route_table" by (simp add: route_table_def get_routes_def)
  have ps: "segments (en_path ?e) = [[], ''deployments'', '':deployment'', ''jobs'']"
    by (simp add: deployment_entry_def API_PREFIX_def segments_def)
  have "address_segment (replicate 43 CHR ''k'')"
    by (simp add: address_segment_def list_all_iff alphanumeric_def is_digit_def)
  then have us: "list_all2 (\<lambda>p u. if is_param p then address_segment u else u = p) (segments (en_path ?e)) ?us"
    unfolding ps by (simp add: is_param_def)
  show ?thesis
    using route_labels_are_templates [OF e us, of "''?limit=10''" "\<lambda>_ _. None"] unfolding ps by (simp add: is_param_def)
qed

section \<open>Unmatched paths are labels of their own\<close>

definition probe :: "nat \<Rightarrow> string" where
  "probe n = ''/x-'' @ show_nat n"

lemma show_nat_plain: "c \<in> set (show_nat n) \<Longrightarrow> is_digit c"
  using show_nat_digits [of n] by (simp add: list_all_iff)

lemma probe_label: "http_label (\<lambda>_ _. None) GET (probe n) = Some (probe n)"
proof -
  have dash: "\<not> is_digit CHR ''x''" "\<not> alphanumeric CHR ''-''" "\<not> is_digit CHR ''/''" "\<not> is_digit CHR ''?''"
    by (simp_all add: is_digit_def alphanumeric_def)
  have plain: "CHR ''/'' \<notin> set (show_nat n)" "CHR ''?'' \<notin> set (show_nat n)" using show_nat_plain dash(3,4) by blast+
  have raw: "without_query (probe n) = probe n"
    unfolding without_query_def probe_def using plain(2) by (auto simp: takeWhile_eq_all_conv)
  have parts: "split_on CHR ''/'' (probe n) = [[], ''x-'' @ show_nat n]"
    using split_on_join [of "[[], ''x-'' @ show_nat n]" "CHR ''/''"] plain(1) by (simp add: probe_def)
  have "placeholder (''x-'' @ show_nat n) = ''x-'' @ show_nat n"
    using dash by (simp add: placeholder_def)
  moreover have ne: "show_nat n \<noteq> []" by (subst show_nat.simps) simp
  then have "last (show_nat n) \<noteq> CHR ''/''" using plain(1) last_in_set [OF ne] by metis
  then have "last (probe n) \<noteq> CHR ''/''" using ne by (simp add: probe_def)
  ultimately have pattern: "extractRoutePattern (probe n) = probe n"
    unfolding extractRoutePattern_def raw Let_def by (simp add: parts) (simp add: probe_def placeholder_def)
  have "list_all (\<lambda>e. case segments (en_path e) of [a, b] \<Rightarrow> \<not> is_param b \<and> take 2 b \<noteq> ''x-'' | _ \<Rightarrow> True) route_table"
    by (simp add: route_defs segments_def is_param_def)
  then have "\<forall>e \<in> set route_table. \<not> path_matches (en_path e) (probe n)"
    unfolding path_matches_def segments_def parts by (auto simp: list_all_iff list_all2_Cons2 segments_def split: list.splits)
  then have "matched_route (\<lambda>_ _. None) GET (probe n) = None"
    by (simp add: matched_route_def find_None_iff split: option.split)
  moreover have "probe n \<noteq> METRICS_ROUTE_PATH" by (simp add: probe_def METRICS_ROUTE_PATH_def)
  ultimately show ?thesis by (simp add: http_label_def raw pattern)
qed

text \<open>
  Anyone can make labels without end. A request no route matches is counted under its own path as
  long as the path has no segment that looks like an id: of the paths \<open>/x-0\<close>, \<open>/x-1\<close> and so on each is a label,
  and counting the first \<open>n\<close> of them leaves \<open>n\<close> series, for every \<open>n\<close>.
\<close>

theorem labels_without_end:
  "distinct (fold (onResponse (\<lambda>_ _. None)) (map (\<lambda>k. (GET, probe k, 404)) [0..<n]) []) \<and>
   length (fold (onResponse (\<lambda>_ _. None)) (map (\<lambda>k. (GET, probe k, 404)) [0..<n]) []) = n"
proof -
  have "fold (onResponse (\<lambda>_ _. None)) (map (\<lambda>k. (GET, probe k, 404)) ks) acc =
      acc @ map (\<lambda>k. (GET, probe k, ''4xx'')) ks" for ks acc
    by (induction ks arbitrary: acc) (simp_all add: onResponse_def probe_label statusRange_def)
  then show ?thesis by (simp add: distinct_map inj_on_def probe_def show_nat_inject)
qed

end
