(* ===== verification/Config_Env.thy ===== *)
theory Config_Env
  imports Process Cursor
begin

text \<open>
  The configuration (\<open>src/config/defaultConfig.ts\<close>, \<open>src/config/index.ts\<close>): the environment's texts read as
  numbers, flags and texts with their defaults, the network's own settings, the overrides, and the kit's
  options (\<open>src/kit/index.ts\<close>). An environment is a partial function from names to texts.
\<close>

section \<open>Reading numbers\<close>

type_synonym env = "string \<Rightarrow> string option"

definition hex_digit :: "char \<Rightarrow> bool" where
  "hex_digit c \<longleftrightarrow> hex_value c \<noteq> None"

definition of_hex_text :: "string \<Rightarrow> nat" where
  "of_hex_text t = foldl (\<lambda>n c. 16 * n + the (hex_value c)) 0 t"

definition hex_prefix :: "string \<Rightarrow> bool" where
  "hex_prefix u \<longleftrightarrow> take 2 u = ''0x'' \<or> take 2 u = ''0X''"

text \<open>\<open>parseInt\<close> without a radix: white space, a sign, then hexadecimal after \<open>0x\<close>, else the decimal digits
  up to the first other character. None is NaN.\<close>

definition parseInt :: "string \<Rightarrow> int option" where
  "parseInt text =
     (let t = dropWhile is_space text;
          minus = (t \<noteq> [] \<and> hd t = CHR ''-'');
          u = (if t \<noteq> [] \<and> (hd t = CHR ''-'' \<or> hd t = CHR ''+'') then tl t else t);
          hex = hex_prefix u;
          ds = (if hex then takeWhile hex_digit (drop 2 u) else takeWhile is_digit u)
      in if ds = [] then None
         else Some ((if minus then - 1 else 1) * int (if hex then of_hex_text ds else undigits ds)))"

text \<open>\<open>parseFloat\<close> on a text without an exponent.\<close>

definition parseFloat :: "string \<Rightarrow> rat option" where
  "parseFloat text =
     (let t = dropWhile is_space text;
          minus = (t \<noteq> [] \<and> hd t = CHR ''-'');
          u = (if t \<noteq> [] \<and> (hd t = CHR ''-'' \<or> hd t = CHR ''+'') then tl t else t);
          whole = takeWhile is_digit u;
          rest = dropWhile is_digit u;
          frac = (if rest \<noteq> [] \<and> hd rest = CHR ''.'' then takeWhile is_digit (tl rest) else [])
      in if whole = [] \<and> frac = [] then None
         else Some ((if minus then - 1 else 1) *
           (of_nat (undigits whole) + of_nat (undigits frac) / 10 ^ length frac)))"

section \<open>The settings\<close>

datatype setting = C_int "int option" | C_num "rat option" | C_text string | C_flag bool | C_undefined | C_docdb docdb_config

type_synonym config = "string \<rightharpoonup> setting"

text \<open>The three ways a variable is read: \<open>X ? parseInt(X) : d\<close>, \<open>X || d\<close> and \<open>X ?? d\<close>.\<close>

definition int_setting :: "env \<Rightarrow> string \<Rightarrow> int \<Rightarrow> setting" where
  "int_setting e k d = C_int (if truthy_string (e k) then parseInt (the (e k)) else Some d)"

definition num_setting :: "env \<Rightarrow> string \<Rightarrow> rat \<Rightarrow> setting" where
  "num_setting e k d = C_num (if truthy_string (e k) then parseFloat (the (e k)) else Some d)"

definition or_text :: "env \<Rightarrow> string \<Rightarrow> string \<Rightarrow> setting" where
  "or_text e k d = C_text (if truthy_string (e k) then the (e k) else d)"

definition text_or_undefined :: "env \<Rightarrow> string \<Rightarrow> setting" where
  "text_or_undefined e k = (if truthy_string (e k) then C_text (the (e k)) else C_undefined)"

definition nullish_text :: "env \<Rightarrow> string \<Rightarrow> string \<Rightarrow> setting" where
  "nullish_text e k d = C_text (nullish (e k) d)"

text \<open>\<open>tls\<close> is whether the certificate bundle is beside the program.\<close>

definition docdb_settings :: "env \<Rightarrow> bool \<Rightarrow> docdb_config" where
  "docdb_settings e tls = \<lparr>dc_hostname = nullish (e ''DOCDB_HOST'') ''120.0.0.1'', dc_port = nullish (e ''DOCDB_PORT'') ''27017'',
     dc_username = e ''DOCDB_USERNAME'', dc_password = e ''DOCDB_PASSWORD'', dc_use_tls = tls,
     dc_dbname = nullish (e ''DOCDB_DBNAME'') ''nosana_deployments''\<rparr>"

definition commonConfig :: "env \<Rightarrow> bool \<Rightarrow> (string \<times> setting) list" where
  "commonConfig e tls = [
     (''tasks_batch_size'', int_setting e ''TASKS_BATCH_SIZE'' 10),
     (''deployment_manager_port'', int_setting e ''DEPLOYMENT_MANAGER_PORT'' 3001),
     (''confidential_by_default'', C_flag (e ''CONFIDENTIAL_BY_DEFAULT'' = Some ''true'')),
     (''vault_key'', text_or_undefined e ''VAULT_KEY''),
     (''frps_internal_address'', nullish_text e ''FRPS_INTERNAL_ADDRESS'' ''''),
     (''frps_api_key'', text_or_undefined e ''FRPS_API_KEY''),
     (''frps_watching_enabled'', C_flag (e ''FRPS_WATCHING_ENABLED'' \<noteq> Some ''false'')),
     (''frps_unhealthy_grace_ms'', int_setting e ''FRPS_UNHEALTHY_GRACE_MS'' 60000),
     (''confidential_ipfs_pin'', C_text ''''),
     (''base_url'', or_text e ''BASE_URL'' (''http://localhost:'' @ nullish (e ''DEPLOYMENT_MANAGER_PORT'') ''3001'')),
     (''docdb'', C_docdb (docdb_settings e tls)),
     (''default_minutes_before_timeout'', int_setting e ''DEFAULT_MINUTES_BEFORE_TIMEOUT'' 20),
     (''client_manager_url'', text_or_undefined e ''CLIENT_MANAGER_URL''),
     (''host_manager_url'', text_or_undefined e ''HOST_MANAGER_URL''),
     (''host_manager_api_key'', text_or_undefined e ''HOST_MANAGER_API_KEY''),
     (''reservation_renew_ms'', int_setting e ''RESERVATION_RENEW_MS'' 840000),
     (''rapid_completion_job_count'', int_setting e ''RAPID_COMPLETION_JOB_COUNT'' 3),
     (''rapid_completion_threshold_minutes'', int_setting e ''RAPID_COMPLETION_THRESHOLD_MINUTES'' 5),
     (''task_lease_ms'', int_setting e ''TASK_LEASE_MS'' 120000),
     (''task_max_attempts'', int_setting e ''TASK_MAX_ATTEMPTS'' 5),
     (''task_max_inflight_retries'', int_setting e ''TASK_MAX_INFLIGHT_RETRIES'' 60),
     (''task_confirm_poll_interval_ms'', int_setting e ''TASK_CONFIRM_POLL_INTERVAL_MS'' 2000),
     (''retry_cooldown_base_ms'', int_setting e ''RETRY_COOLDOWN_BASE_MS'' 30000),
     (''retry_cooldown_max_ms'', int_setting e ''RETRY_COOLDOWN_MAX_MS'' 600000),
     (''retry_cooldown_multiplier'', num_setting e ''RETRY_COOLDOWN_MULTIPLIER'' 2),
     (''insufficient_funds_cooldown_base_ms'', int_setting e ''INSUFFICIENT_FUNDS_COOLDOWN_BASE_MS'' 600000),
     (''insufficient_funds_cooldown_max_ms'', int_setting e ''INSUFFICIENT_FUNDS_COOLDOWN_MAX_MS'' 21600000),
     (''insufficient_funds_cooldown_multiplier'', num_setting e ''INSUFFICIENT_FUNDS_COOLDOWN_MULTIPLIER'' 2),
     (''rapid_completion_cooldown_base_ms'', int_setting e ''RAPID_COMPLETION_COOLDOWN_BASE_MS'' 60000),
     (''rapid_completion_cooldown_max_ms'', int_setting e ''RAPID_COMPLETION_COOLDOWN_MAX_MS'' 3600000),
     (''rapid_completion_cooldown_multiplier'', num_setting e ''RAPID_COMPLETION_COOLDOWN_MULTIPLIER'' 2),
     (''rapid_completion_max_streak'', int_setting e ''RAPID_COMPLETION_MAX_STREAK'' 8)]"

definition defaultConfig :: "env \<Rightarrow> bool \<Rightarrow> (string \<times> (string \<times> setting) list) list" where
  "defaultConfig e tls = [
     (''mainnet'', [(''network'', C_text ''mainnet''),
        (''nos_address'', nullish_text e ''NOS_ADDRESS'' ''nosXBVoaCTtYdLvKY6Csb4AC8JCdQKKAaWYtx2ZMoo7''),
        (''rpc_network'', nullish_text e ''SOLANA_NETWORK'' ''https://rpc.ironforge.network/mainnet?apiKey=01J4RYMAWZC65B6CND9DTZZ5BK''),
        (''ws_network'', text_or_undefined e ''SOLANA_WS_NETWORK''),
        (''frps_public_address'', nullish_text e ''FRPS_ADDRESS'' ''node.k8s.prd.nos.ci'')] @ commonConfig e tls),
     (''devnet'', [(''network'', C_text ''devnet''),
        (''nos_address'', nullish_text e ''NOS_ADDRESS'' ''devr1BGQndEW5k5zfvG5FsLyZv1Ap73vNgAHcQ9sUVP''),
        (''rpc_network'', nullish_text e ''SOLANA_NETWORK'' ''https://api.devnet.solana.com''),
        (''ws_network'', text_or_undefined e ''SOLANA_WS_NETWORK''),
        (''frps_public_address'', nullish_text e ''FRPS_ADDRESS'' ''node.k8s.dev.nos.ci'')] @ commonConfig e tls),
     (''localnet'', [(''network'', C_text ''localnet''),
        (''nos_address'', nullish_text e ''NOS_ADDRESS'' ''devr1BGQndEW5k5zfvG5FsLyZv1Ap73vNgAHcQ9sUVP''),
        (''rpc_network'', or_text e ''SOLANA_NETWORK'' ''http://host.docker.internal:8899''),
        (''ws_network'', or_text e ''SOLANA_WS_NETWORK'' ''ws://host.docker.internal:8900''),
        (''frps_public_address'', nullish_text e ''FRPS_ADDRESS'' ''node.k8s.dev.nos.ci'')] @ commonConfig e tls)]"

text \<open>Spreading \<open>undefined\<close>, of a network that is none of the three, spreads nothing.\<close>

definition getConfig :: "env \<Rightarrow> bool \<Rightarrow> config \<Rightarrow> config" where
  "getConfig e tls overrides =
     (case map_of (defaultConfig e tls) (nullish (e ''NETWORK'') ''mainnet'') of
        Some settings \<Rightarrow> map_of settings | None \<Rightarrow> Map.empty) ++ overrides"

definition setConfig :: "string \<Rightarrow> setting \<Rightarrow> config \<Rightarrow> config" where
  "setConfig k v overrides = overrides(k \<mapsto> v)"

section \<open>The consumer's settings\<close>

definition int_of :: "config \<Rightarrow> string \<Rightarrow> int option" where
  "int_of c k = (case c k of Some (C_int i) \<Rightarrow> i | _ \<Rightarrow> None)"

definition num_of :: "config \<Rightarrow> string \<Rightarrow> rat option" where
  "num_of c k = (case c k of Some (C_num r) \<Rightarrow> r | _ \<Rightarrow> None)"

definition text_in :: "config \<Rightarrow> string \<Rightarrow> string option" where
  "text_in c k = (case c k of Some (C_text t) \<Rightarrow> Some t | _ \<Rightarrow> None)"

definition int_keys :: "string list" where
  "int_keys = [''task_lease_ms'', ''task_max_attempts'', ''task_max_inflight_retries'', ''tasks_batch_size'', ''reservation_renew_ms'',
     ''default_minutes_before_timeout'', ''frps_unhealthy_grace_ms'', ''rapid_completion_job_count'',
     ''rapid_completion_threshold_minutes'', ''rapid_completion_max_streak'',
     ''retry_cooldown_base_ms'', ''retry_cooldown_max_ms'', ''insufficient_funds_cooldown_base_ms'',
     ''insufficient_funds_cooldown_max_ms'', ''rapid_completion_cooldown_base_ms'', ''rapid_completion_cooldown_max_ms'']"

definition num_keys :: "string list" where
  "num_keys = [''retry_cooldown_multiplier'', ''insufficient_funds_cooldown_multiplier'', ''rapid_completion_cooldown_multiplier'']"

text \<open>The record the development reads the settings in: None when one of them is missing or NaN.\<close>

definition worker_config_of :: "config \<Rightarrow> worker_config option" where
  "worker_config_of c =
     (if list_all (\<lambda>k. int_of c k \<noteq> None) int_keys \<and> list_all (\<lambda>k. num_of c k \<noteq> None) num_keys \<and>
         text_in c ''confidential_ipfs_pin'' \<noteq> None
      then (let i = (\<lambda>k. the (int_of c k)); n = (\<lambda>k. the (num_of c k)) in Some \<lparr>
         task_lease_ms = i ''task_lease_ms'', task_max_attempts = i ''task_max_attempts'',
         task_max_inflight_retries = nat (i ''task_max_inflight_retries''), tasks_batch_size = nat (i ''tasks_batch_size''),
         reservation_renew_ms = i ''reservation_renew_ms'', confidential_ipfs_pin = the (text_in c ''confidential_ipfs_pin''),
         default_minutes_before_timeout = i ''default_minutes_before_timeout'', frps_unhealthy_grace_ms = i ''frps_unhealthy_grace_ms'',
         rapid_completion_job_count = nat (i ''rapid_completion_job_count''),
         rapid_completion_threshold_minutes = i ''rapid_completion_threshold_minutes'',
         rapid_completion_max_streak = nat (i ''rapid_completion_max_streak''),
         retry_ladder = \<lparr>baseMs = of_int (i ''retry_cooldown_base_ms''), maxMs = of_int (i ''retry_cooldown_max_ms''),
           multiplier = n ''retry_cooldown_multiplier''\<rparr>,
         insufficient_funds_ladder = \<lparr>baseMs = of_int (i ''insufficient_funds_cooldown_base_ms''),
           maxMs = of_int (i ''insufficient_funds_cooldown_max_ms''), multiplier = n ''insufficient_funds_cooldown_multiplier''\<rparr>,
         rapid_completion_ladder = \<lparr>baseMs = of_int (i ''rapid_completion_cooldown_base_ms''),
           maxMs = of_int (i ''rapid_completion_cooldown_max_ms''), multiplier = n ''rapid_completion_cooldown_multiplier''\<rparr>\<rparr>)
      else None)"

text \<open>A variable that is unset, empty or a decimal numeral, and what it stands for.\<close>

definition plain_variable :: "env \<Rightarrow> string \<Rightarrow> bool" where
  "plain_variable e k \<longleftrightarrow> (case e k of None \<Rightarrow> True | Some t \<Rightarrow> list_all is_digit t)"

definition value_of :: "env \<Rightarrow> string \<Rightarrow> nat \<Rightarrow> nat" where
  "value_of e k d = (case e k of None \<Rightarrow> d | Some t \<Rightarrow> if t = [] then d else undigits t)"

lemma digit_plain: "is_digit c \<Longrightarrow> \<not> is_space c \<and> c \<noteq> CHR ''-'' \<and> c \<noteq> CHR ''+'' \<and> c \<noteq> CHR ''x'' \<and> c \<noteq> CHR ''X''"
  by (auto simp: is_digit_def is_space_def)

lemma parse_digits:
  assumes "list_all is_digit t" "t \<noteq> []" "case r of c # s \<Rightarrow> \<not> is_digit c \<and> c \<noteq> CHR ''x'' \<and> c \<noteq> CHR ''X'' | [] \<Rightarrow> True"
  shows "parseInt (t @ r) = Some (int (undigits t))"
proof -
  obtain c t' where t: "t = c # t'" using assms(2) by (cases t) simp_all
  have c: "\<not> is_space c" "c \<noteq> CHR ''-''" "c \<noteq> CHR ''+''" using digit_plain assms(1) by (auto simp: t)
  have "takeWhile is_digit (t @ r) = t"
    using assms(1,3) by (subst takeWhile_append2) (auto simp: list_all_iff split: list.splits)
  moreover have "\<not> hex_prefix (t @ r)"
    using assms(1,3) digit_plain by (cases t'; cases r) (auto simp: t hex_prefix_def)
  ultimately show ?thesis using c by (simp add: parseInt_def Let_def t)
qed

lemma int_setting_plain:
  assumes "plain_variable e k"
  shows "int_setting e k (int d) = C_int (Some (int (value_of e k d)))"
  using assms parse_digits [of "the (e k)" "[]"]
  by (auto simp: int_setting_def plain_variable_def value_of_def truthy_string_def split: option.splits)

lemma parse_float_digits:
  assumes "list_all is_digit t" "t \<noteq> []" shows "parseFloat t = Some (of_nat (undigits t))"
proof -
  obtain c t' where t: "t = c # t'" using assms(2) by (cases t) simp_all
  have c: "\<not> is_space c" "c \<noteq> CHR ''-''" "c \<noteq> CHR ''+''" using digit_plain assms(1) by (auto simp: t)
  have "takeWhile is_digit t = t" "dropWhile is_digit t = []" using assms(1) by (auto simp: list_all_iff takeWhile_eq_all_conv)
  then show ?thesis using c by (simp add: parseFloat_def Let_def t undigits_def)
qed

lemma num_setting_plain:
  assumes "plain_variable e k"
  shows "num_setting e k (of_nat d) = C_num (Some (of_nat (value_of e k d)))"
  using assms parse_float_digits [of "the (e k)"]
  by (auto simp: num_setting_def plain_variable_def value_of_def truthy_string_def split: option.splits)

lemma variables_read:
  assumes "nullish (e ''NETWORK'') ''mainnet'' \<in> {''mainnet'', ''devnet'', ''localnet''}"
    and kv: "(k, v) \<in> set (commonConfig e tls)"
  shows "getConfig e tls Map.empty k = Some v"
proof -
  have "distinct (map fst (commonConfig e tls))" by (simp add: commonConfig_def)
  then have common: "map_of (commonConfig e tls) k = Some v" using kv by simp
  have "k \<notin> {''network'', ''nos_address'', ''rpc_network'', ''ws_network'', ''frps_public_address''}"
    using kv by (auto simp: commonConfig_def)
  then show ?thesis using assms common by (auto simp: getConfig_def defaultConfig_def)
qed

text \<open>The settings the consumer reads, with their variables and defaults.\<close>

definition int_table :: "(string \<times> string \<times> nat) list" where
  "int_table = [(''task_lease_ms'', ''TASK_LEASE_MS'', 120000), (''task_max_attempts'', ''TASK_MAX_ATTEMPTS'', 5),
     (''task_max_inflight_retries'', ''TASK_MAX_INFLIGHT_RETRIES'', 60), (''tasks_batch_size'', ''TASKS_BATCH_SIZE'', 10),
     (''reservation_renew_ms'', ''RESERVATION_RENEW_MS'', 840000),
     (''default_minutes_before_timeout'', ''DEFAULT_MINUTES_BEFORE_TIMEOUT'', 20),
     (''frps_unhealthy_grace_ms'', ''FRPS_UNHEALTHY_GRACE_MS'', 60000),
     (''rapid_completion_job_count'', ''RAPID_COMPLETION_JOB_COUNT'', 3),
     (''rapid_completion_threshold_minutes'', ''RAPID_COMPLETION_THRESHOLD_MINUTES'', 5),
     (''rapid_completion_max_streak'', ''RAPID_COMPLETION_MAX_STREAK'', 8),
     (''retry_cooldown_base_ms'', ''RETRY_COOLDOWN_BASE_MS'', 30000), (''retry_cooldown_max_ms'', ''RETRY_COOLDOWN_MAX_MS'', 600000),
     (''insufficient_funds_cooldown_base_ms'', ''INSUFFICIENT_FUNDS_COOLDOWN_BASE_MS'', 600000),
     (''insufficient_funds_cooldown_max_ms'', ''INSUFFICIENT_FUNDS_COOLDOWN_MAX_MS'', 21600000),
     (''rapid_completion_cooldown_base_ms'', ''RAPID_COMPLETION_COOLDOWN_BASE_MS'', 60000),
     (''rapid_completion_cooldown_max_ms'', ''RAPID_COMPLETION_COOLDOWN_MAX_MS'', 3600000)]"

definition num_table :: "(string \<times> string \<times> nat) list" where
  "num_table = [(''retry_cooldown_multiplier'', ''RETRY_COOLDOWN_MULTIPLIER'', 2),
     (''insufficient_funds_cooldown_multiplier'', ''INSUFFICIENT_FUNDS_COOLDOWN_MULTIPLIER'', 2),
     (''rapid_completion_cooldown_multiplier'', ''RAPID_COMPLETION_COOLDOWN_MULTIPLIER'', 2)]"

definition plain_environment :: "env \<Rightarrow> bool" where
  "plain_environment e \<longleftrightarrow> nullish (e ''NETWORK'') ''mainnet'' \<in> {''mainnet'', ''devnet'', ''localnet''} \<and>
     list_all (\<lambda>(k, v, d). plain_variable e v) (int_table @ num_table)"

lemma tables_common:
  "list_all (\<lambda>(k, v, d). (k, int_setting e v (int d)) \<in> set (commonConfig e tls)) int_table"
  "list_all (\<lambda>(k, v, d). (k, num_setting e v (of_nat d)) \<in> set (commonConfig e tls)) num_table"
  by (simp_all add: int_table_def num_table_def commonConfig_def)

lemma settings_read:
  assumes "plain_environment e"
  shows "list_all (\<lambda>(k, v, d). int_of (getConfig e tls Map.empty) k = Some (int (value_of e v d))) int_table"
    "list_all (\<lambda>(k, v, d). num_of (getConfig e tls Map.empty) k = Some (of_nat (value_of e v d))) num_table"
proof -
  note env = assms [unfolded plain_environment_def list_all_append]
  have "int_of (getConfig e tls Map.empty) k = Some (int (value_of e v d))" if "(k, v, d) \<in> set int_table" for k v d
  proof -
    have "(k, int_setting e v (int d)) \<in> set (commonConfig e tls)" "plain_variable e v"
      using tables_common(1) [of e tls] env that by (auto simp: list_all_iff)
    then show ?thesis using variables_read [of e k _ tls] env by (simp add: int_of_def int_setting_plain)
  qed
  then show "list_all (\<lambda>(k, v, d). int_of (getConfig e tls Map.empty) k = Some (int (value_of e v d))) int_table"
    by (auto simp: list_all_iff)
  have "num_of (getConfig e tls Map.empty) k = Some (of_nat (value_of e v d))" if "(k, v, d) \<in> set num_table" for k v d
  proof -
    have "(k, num_setting e v (of_nat d)) \<in> set (commonConfig e tls)" "plain_variable e v"
      using tables_common(2) [of e tls] env that by (auto simp: list_all_iff)
    then show ?thesis using variables_read [of e k _ tls] env by (simp add: num_of_def num_setting_plain)
  qed
  then show "list_all (\<lambda>(k, v, d). num_of (getConfig e tls Map.empty) k = Some (of_nat (value_of e v d))) num_table"
    by (auto simp: list_all_iff)
qed

text \<open>
  The consumer runs with what its environment says. When the network is one of the three (or unset) and
  every variable of the consumer is unset, empty or a decimal numeral, each setting is the number its variable
  names, or its default; an environment without variables gives the configuration this development uses
  as the default one.
\<close>

theorem consumer_reads_its_environment:
  assumes "plain_environment e"
  shows "worker_config_of (getConfig e tls (setConfig ''confidential_ipfs_pin'' (C_text pin) Map.empty)) = Some \<lparr>
      task_lease_ms = int (value_of e ''TASK_LEASE_MS'' 120000), task_max_attempts = int (value_of e ''TASK_MAX_ATTEMPTS'' 5),
      task_max_inflight_retries = value_of e ''TASK_MAX_INFLIGHT_RETRIES'' 60, tasks_batch_size = value_of e ''TASKS_BATCH_SIZE'' 10,
      reservation_renew_ms = int (value_of e ''RESERVATION_RENEW_MS'' 840000), confidential_ipfs_pin = pin,
      default_minutes_before_timeout = int (value_of e ''DEFAULT_MINUTES_BEFORE_TIMEOUT'' 20),
      frps_unhealthy_grace_ms = int (value_of e ''FRPS_UNHEALTHY_GRACE_MS'' 60000),
      rapid_completion_job_count = value_of e ''RAPID_COMPLETION_JOB_COUNT'' 3,
      rapid_completion_threshold_minutes = int (value_of e ''RAPID_COMPLETION_THRESHOLD_MINUTES'' 5),
      rapid_completion_max_streak = value_of e ''RAPID_COMPLETION_MAX_STREAK'' 8,
      retry_ladder = \<lparr>baseMs = of_nat (value_of e ''RETRY_COOLDOWN_BASE_MS'' 30000),
        maxMs = of_nat (value_of e ''RETRY_COOLDOWN_MAX_MS'' 600000), multiplier = of_nat (value_of e ''RETRY_COOLDOWN_MULTIPLIER'' 2)\<rparr>,
      insufficient_funds_ladder = \<lparr>baseMs = of_nat (value_of e ''INSUFFICIENT_FUNDS_COOLDOWN_BASE_MS'' 600000),
        maxMs = of_nat (value_of e ''INSUFFICIENT_FUNDS_COOLDOWN_MAX_MS'' 21600000),
        multiplier = of_nat (value_of e ''INSUFFICIENT_FUNDS_COOLDOWN_MULTIPLIER'' 2)\<rparr>,
      rapid_completion_ladder = \<lparr>baseMs = of_nat (value_of e ''RAPID_COMPLETION_COOLDOWN_BASE_MS'' 60000),
        maxMs = of_nat (value_of e ''RAPID_COMPLETION_COOLDOWN_MAX_MS'' 3600000),
        multiplier = of_nat (value_of e ''RAPID_COMPLETION_COOLDOWN_MULTIPLIER'' 2)\<rparr>\<rparr>"
proof -
  let ?base = "getConfig e tls Map.empty"
  let ?c = "getConfig e tls (setConfig ''confidential_ipfs_pin'' (C_text pin) Map.empty)"
  have c: "?c = ?base(''confidential_ipfs_pin'' \<mapsto> C_text pin)" by (simp add: getConfig_def setConfig_def)
  have other: "int_of ?c k = int_of ?base k" "num_of ?c k = num_of ?base k" if "k \<noteq> ''confidential_ipfs_pin''" for k
    using that by (simp_all add: int_of_def num_of_def c)
  have pin: "text_in ?c ''confidential_ipfs_pin'' = Some pin" by (simp add: text_in_def c)
  note read = settings_read [OF assms, of tls, unfolded int_table_def num_table_def list.pred_inject prod.case]
  show ?thesis
    unfolding worker_config_of_def int_keys_def num_keys_def using read pin by (simp add: other)
qed

theorem consumer_reads_its_environment_witness:
  "worker_config_of (getConfig (\<lambda>_. None) False (setConfig ''confidential_ipfs_pin'' (C_text ''pin'') Map.empty)) =
     Some (default_worker_config\<lparr>confidential_ipfs_pin := ''pin''\<rparr>)"
proof -
  have "plain_environment (\<lambda>_. None)"
    by (auto simp: plain_environment_def plain_variable_def list_all_iff)
  from consumer_reads_its_environment [OF this, of False "''pin''"] show ?thesis
    by (simp add: value_of_def default_worker_config_def)
qed

section \<open>Where the environment is misread\<close>

text \<open>
  A lease written with a unit loses the unit: \<open>2m\<close> is read as two milliseconds, and a word alone as NaN,
  where an unset or empty variable would have had its default.
\<close>

theorem number_text_is_cut:
  assumes "nullish (e ''NETWORK'') ''mainnet'' \<in> {''mainnet'', ''devnet'', ''localnet''}"
    and "e ''TASK_LEASE_MS'' = Some (ds @ unit)" and "list_all is_digit ds" and "unit \<noteq> []"
    and "\<not> is_digit (hd unit)" and "hd unit \<notin> {CHR ''x'', CHR ''X''}"
    and "ds = [] \<longrightarrow> hd unit \<noteq> CHR ''-'' \<and> hd unit \<noteq> CHR ''+'' \<and> \<not> is_space (hd unit)"
  shows "int_of (getConfig e tls Map.empty) ''task_lease_ms'' = (if ds = [] then None else Some (int (undigits ds)))"
proof -
  have "(''task_lease_ms'', int_setting e ''TASK_LEASE_MS'' 120000) \<in> set (commonConfig e tls)"
    by (simp add: commonConfig_def)
  from variables_read [OF assms(1) this]
  have "int_of (getConfig e tls Map.empty) ''task_lease_ms'' = parseInt (ds @ unit)"
    using assms(2,4) by (simp add: int_of_def int_setting_def truthy_string_def)
  moreover have "parseInt (ds @ unit) = (if ds = [] then None else Some (int (undigits ds)))"
  proof (cases "ds = []")
    case True
    with assms(4-7) show ?thesis
      by (cases unit) (auto simp: parseInt_def Let_def hex_prefix_def is_digit_def)
  next
    case False
    with parse_digits [OF assms(3), of unit] assms(4-6) show ?thesis by (cases unit) simp_all
  qed
  ultimately show ?thesis by simp
qed

theorem number_text_is_cut_witness:
  "int_of (getConfig [''TASK_LEASE_MS'' \<mapsto> ''2m''] False Map.empty) ''task_lease_ms'' = Some 2"
  using number_text_is_cut [of "[''TASK_LEASE_MS'' \<mapsto> ''2m'']" "''2''" "''m''" False]
  by (simp add: is_digit_def undigits_def char_digit_def nullish_def)

text \<open>
  A \<open>NETWORK\<close> that is set to anything else, the empty text included, names no network: the process runs
  without any setting but its overrides.
\<close>

theorem unknown_network_has_no_settings:
  assumes "e ''NETWORK'' = Some n" "n \<notin> {''mainnet'', ''devnet'', ''localnet''}"
  shows "getConfig e tls overrides = overrides"
    and "''task_lease_ms'' \<notin> dom overrides \<Longrightarrow> worker_config_of (getConfig e tls overrides) = None"
proof -
  show c: "getConfig e tls overrides = overrides"
    using assms by (auto simp: getConfig_def defaultConfig_def nullish_def)
  show "worker_config_of (getConfig e tls overrides) = None" if "''task_lease_ms'' \<notin> dom overrides"
    using that by (auto simp: c worker_config_of_def int_keys_def int_of_def dom_def)
qed

theorem unknown_network_has_no_settings_witness:
  "worker_config_of (getConfig [''NETWORK'' \<mapsto> []] False Map.empty) = None"
  using unknown_network_has_no_settings(2) [of "[''NETWORK'' \<mapsto> []]" "[]" Map.empty False] by simp

section \<open>The kit's options\<close>

text \<open>The options both the process and its workers build a client from: the API's key and address, the domain of
  the nodes, and the chain's endpoints when they are given. \<open>ks_rpc\<close> is what \<open>rpcEndpoint\<close> is set to.\<close>

record kit_solana =
  ks_rpc :: "string option"
  ks_ws :: "string option"

record kit_options =
  ko_network :: "string option"
  ko_api_key :: "string option"
  ko_client_manager_url :: "string option"
  ko_node_domain :: "string option"
  ko_solana :: "kit_solana option"

definition truthy_text :: "config \<Rightarrow> string \<Rightarrow> string option" where
  "truthy_text c k = (if truthy_string (text_in c k) then text_in c k else None)"

definition getKit :: "config \<Rightarrow> kit_options" where
  "getKit c = \<lparr>ko_network = text_in c ''network'', ko_api_key = None,
     ko_client_manager_url = truthy_text c ''client_manager_url'', ko_node_domain = text_in c ''frps_public_address'',
     ko_solana = (if truthy_text c ''rpc_network'' \<noteq> None
        then Some \<lparr>ks_rpc = text_in c ''rpc_network'', ks_ws = truthy_text c ''ws_network''\<rparr> else None)\<rparr>"

definition worker_options :: "config \<Rightarrow> string \<Rightarrow> kit_options" where
  "worker_options c key = (let useNosanaApiKey = (take 4 key = ''nos_'') in
     \<lparr>ko_network = text_in c ''network'', ko_api_key = (if useNosanaApiKey then Some key else None),
       ko_client_manager_url = truthy_text c ''client_manager_url'', ko_node_domain = text_in c ''frps_public_address'',
       ko_solana = (if useNosanaApiKey then None
         else Some \<lparr>ks_rpc = text_in c ''rpc_network'', ks_ws = truthy_text c ''ws_network''\<rparr>)\<rparr>)"

text \<open>
  A worker that signs with a wallet talks to the chain, the API and the nodes the process talks to, exactly
  when an RPC endpoint is set; with an empty one the process leaves the endpoint to the kit and the worker
  overrides it with the empty text.
\<close>

theorem workers_share_the_network:
  assumes "take 4 key \<noteq> ''nos_''"
  shows "worker_options c key = getKit c \<longleftrightarrow> text_in c ''rpc_network'' \<notin> {None, Some []}"
  using assms
  by (cases "text_in c ''rpc_network''") (auto simp: worker_options_def getKit_def truthy_text_def truthy_string_def Let_def)

theorem workers_share_the_network_witness:
  "worker_options (getConfig (\<lambda>_. None) False Map.empty) ''key'' = getKit (getConfig (\<lambda>_. None) False Map.empty)"
  using workers_share_the_network [of "''key''" "getConfig (\<lambda>_. None) False Map.empty"]
  by (simp add: text_in_def getConfig_def defaultConfig_def nullish_def nullish_text_def)

text \<open>A worker that signs with an API key has no endpoint of the chain of its own.\<close>

lemma api_workers_leave_the_chain:
  "worker_options c (''nos_'' @ key) = (getKit c)\<lparr>ko_api_key := Some (''nos_'' @ key), ko_solana := None\<rparr>"
  by (simp add: worker_options_def getKit_def)

end
