(* ===== verification/Indexes.thy ===== *)
theory Indexes
  imports Migrations
begin

text \<open>
  The indexes of the database (migrations 12, 13, 14, 16, 17 and 18 under \<open>src/connection/docdb/migrations\<close>):
  which are declared, that they never conflict however often and from wherever they are created again, and which
  of the rest of the development's assumptions on the stored documents they are behind.
\<close>

section \<open>Creating an index\<close>

record index_spec =
  ix_collection :: string
  ix_keys :: "(string \<times> int) list"
  ix_name :: string
  ix_unique :: bool
  ix_partial :: "string option"

definition index :: "string \<Rightarrow> (string \<times> int) list \<Rightarrow> string \<Rightarrow> index_spec" where
  "index collection ks name =
     \<lparr>ix_collection = collection, ix_keys = ks, ix_name = name, ix_unique = False, ix_partial = None\<rparr>"

definition unique_index :: "string \<Rightarrow> (string \<times> int) list \<Rightarrow> string \<Rightarrow> index_spec" where
  "unique_index collection ks name = (index collection ks name)\<lparr>ix_unique := True\<rparr>"

text \<open>What the database does, as documented: an index that is there is left alone, one that has another's name
  or keys is refused, and so is a unique one over documents that repeat a key. \<open>fits\<close> tells the last.\<close>

definition createIndex :: "(index_spec \<Rightarrow> bool) \<Rightarrow> index_spec \<Rightarrow> index_spec list \<Rightarrow> index_spec list option" where
  "createIndex fits i created =
     (if i \<in> set created then Some created
      else if list_ex (\<lambda>j. ix_collection j = ix_collection i \<and> (ix_name j = ix_name i \<or> ix_keys j = ix_keys i)) created then None
      else if ix_unique i \<and> \<not> fits i then None
      else Some (created @ [i]))"

text \<open>A migration's calls, each awaited: the state after each, and whether none threw.\<close>

fun createIndexes :: "(index_spec \<Rightarrow> bool) \<Rightarrow> index_spec list \<Rightarrow> index_spec list \<Rightarrow> index_spec list list \<times> bool" where
  "createIndexes fits [] created = ([], True)"
| "createIndexes fits (i # is) created = (case createIndex fits i created of
     None \<Rightarrow> ([], False)
   | Some created' \<Rightarrow> map_prod ((#) created') id (createIndexes fits is created'))"

section \<open>The indexes declared\<close>

definition addPerformanceIndexes :: "index_spec list" where
  "addPerformanceIndexes = [
     index ''deployments'' [(''id'', 1)] ''idx_id'',
     index ''deployments'' [(''owner'', 1), (''created_at'', - 1)] ''idx_owner_createdAt'',
     index ''deployments'' [(''id'', 1), (''owner'', 1), (''created_at'', - 1)] ''idx_id_owner_createdAt'',
     index ''deployments'' [(''id'', 1), (''created_at'', - 1)] ''idx_id_createdAt'',
     unique_index ''jobs'' [(''job'', 1)] ''idx_job'',
     index ''jobs'' [(''deployment'', 1)] ''idx_deployment'',
     index ''jobs'' [(''state'', 1), (''market'', 1)] ''idx_state_market'',
     index ''tasks'' [(''due_at'', 1)] ''idx_due_at'',
     index ''tasks'' [(''deploymentId'', 1), (''created_at'', - 1)] ''idx_deploymentId_createdAt'',
     unique_index ''results'' [(''job'', 1)] ''idx_job'',
     index ''vaults'' [(''owner'', 1)] ''idx_owner'',
     unique_index ''vaults'' [(''vault'', 1), (''owner'', 1)] ''idx_vault_owner'',
     unique_index ''vaults'' [(''vault'', 1)] ''idx_vault'',
     index ''revisions'' [(''deployment'', 1)] ''idx_deployment'',
     unique_index ''revisions'' [(''deployment'', 1), (''revision'', 1)] ''idx_deployment_revision'',
     index ''events'' [(''deploymentId'', 1)] ''idx_deploymentId'']"

definition addCompoundIndexes :: "index_spec list" where
  "addCompoundIndexes = [
     index ''deployments'' [(''owner'', 1), (''created_at'', - 1)] ''idx_owner_createdAt'',
     index ''events'' [(''deploymentId'', 1), (''created_at'', - 1)] ''idx_deploymentId_createdAt'',
     index ''jobs'' [(''deployment'', 1), (''created_at'', - 1)] ''idx_deployment_createdAt'',
     index ''revisions'' [(''deployment'', 1), (''revision'', - 1)] ''idx_deployment_revision_sorted'']"

definition addFilterIndexes :: "index_spec list" where
  "addFilterIndexes = [
     index ''jobs'' [(''deployment'', 1), (''state'', 1), (''created_at'', - 1)] ''idx_deployment_state_createdAt'',
     index ''events'' [(''deploymentId'', 1), (''category'', 1), (''created_at'', - 1)] ''idx_deploymentId_category_createdAt'',
     index ''events'' [(''deploymentId'', 1), (''type'', 1), (''created_at'', - 1)] ''idx_deploymentId_type_createdAt'',
     index ''deployments'' [(''owner'', 1), (''status'', 1), (''created_at'', - 1)] ''idx_owner_status_createdAt'',
     index ''deployments'' [(''owner'', 1), (''vault'', 1), (''created_at'', - 1)] ''idx_owner_vault_createdAt'',
     index ''tasks'' [(''deploymentId'', 1), (''task'', 1), (''created_at'', - 1)] ''idx_deploymentId_task_createdAt'']"

definition addTaskStateMachineIndexes :: "index_spec list" where
  "addTaskStateMachineIndexes = [
     index ''tasks'' [(''status'', 1), (''due_at'', 1)] ''idx_status_dueAt'',
     index ''tasks'' [(''deploymentId'', 1), (''status'', 1)] ''idx_deploymentId_status'']"

definition addFrpsEndpointStatusIndex :: "index_spec list" where
  "addFrpsEndpointStatusIndex = [
     unique_index ''frps_endpoint_status'' [(''job'', 1), (''opId'', 1)] ''idx_job_opId'',
     index ''frps_endpoint_status'' [(''deploymentId'', 1)] ''idx_deploymentId'']"

definition addDeploymentIdempotencyIndex :: "index_spec list" where
  "addDeploymentIdempotencyIndex = [
     (unique_index ''deployments'' [(''owner'', 1), (''idempotency_key'', 1)] ''idx_owner_idempotency_key'')\<lparr>ix_partial := Some ''idempotency_key''\<rparr>]"

definition index_files :: "(string \<times> index_spec list) list" where
  "index_files = [(''12-addPerformanceIndexes.js'', addPerformanceIndexes), (''13-addCompoundIndex.js'', addCompoundIndexes),
     (''14-addFilterIndexes.js'', addFilterIndexes), (''16-addTaskStateMachineIndexes.js'', addTaskStateMachineIndexes),
     (''17-addFrpsEndpointStatusIndex.js'', addFrpsEndpointStatusIndex),
     (''18-addDeploymentIdempotencyIndex.js'', addDeploymentIdempotencyIndex)]"

definition index_migrations :: "(index_spec \<Rightarrow> bool) \<Rightarrow> index_spec list migration list" where
  "index_migrations fits = map (\<lambda>(name, is). (name, createIndexes fits is)) index_files"

definition declared_indexes :: "index_spec list" where
  "declared_indexes = concat (map snd index_files)"

section \<open>They never conflict\<close>

lemma declared_apart:
  "list_all (\<lambda>i. list_all (\<lambda>j. ix_collection j = ix_collection i \<and> (ix_name j = ix_name i \<or> ix_keys j = ix_keys i) \<longrightarrow> j = i)
     declared_indexes) declared_indexes"
  by code_simp

definition add_index :: "index_spec \<Rightarrow> index_spec list \<Rightarrow> index_spec list" where
  "add_index i created = (if i \<in> set created then created else created @ [i])"

lemma set_add_indexes: "set (fold add_index is created) = set created \<union> set is"
  by (induction "is" arbitrary: created) (auto simp: add_index_def)

lemma distinct_add_indexes: "distinct created \<Longrightarrow> distinct (fold add_index is created)"
  by (induction "is" arbitrary: created) (simp_all add: add_index_def)

lemma add_again: "set is \<subseteq> set created \<Longrightarrow> fold add_index is created = created"
  by (induction "is" arbitrary: created) (simp_all add: add_index_def)

lemma creates:
  assumes "set is \<subseteq> set declared_indexes" "set created \<subseteq> set declared_indexes"
    and "\<forall>i \<in> set is. ix_unique i \<longrightarrow> fits i"
  shows "snd (createIndexes fits is created) \<and> length (fst (createIndexes fits is created)) = length is \<and>
    last (created # take k (fst (createIndexes fits is created))) = fold add_index (take k is) created"
  using assms
proof (induction "is" arbitrary: created k)
  case (Cons i "is")
  have "\<not> list_ex (\<lambda>j. ix_collection j = ix_collection i \<and> (ix_name j = ix_name i \<or> ix_keys j = ix_keys i)) created" if "i \<notin> set created"
    using declared_apart Cons.prems(1,2) that by (fastforce simp: list_all_iff list_ex_iff)
  then have new: "createIndex fits i created = Some (add_index i created)"
    using Cons.prems(3) by (auto simp: createIndex_def add_index_def)
  have "set (add_index i created) \<subseteq> set declared_indexes" using Cons.prems(1,2) by (simp add: add_index_def)
  note IH = Cons.IH [OF _ this, of "k - 1"]
  show ?case using IH Cons.prems by (cases k) (simp_all add: new)
qed simp

definition only_declared :: "index_spec list \<Rightarrow> bool" where
  "only_declared created \<longleftrightarrow> set created \<subseteq> set declared_indexes"

lemma creates_whole:
  assumes "set is \<subseteq> set declared_indexes" "only_declared created" "\<forall>i \<in> set is. ix_unique i \<longrightarrow> fits i"
  shows "outcome (createIndexes fits is) created = (fold add_index is created, True)"
proof -
  have "set created \<subseteq> set declared_indexes" using assms(2) by (simp add: only_declared_def)
  note whole = creates [OF assms(1) this assms(3), of "length is"]
  then have "take (length is) (fst (createIndexes fits is created)) = fst (createIndexes fits is created)" by simp
  with whole show ?thesis by (simp only: outcome_def take_all)
qed

lemma creates_replay:
  assumes "set is \<subseteq> set declared_indexes" "\<forall>i \<in> set is. ix_unique i \<longrightarrow> fits i"
  shows "replayable only_declared (createIndexes fits is)"
  unfolding replayable_def
proof (intro allI impI conjI)
  fix k created
  assume ok: "only_declared created"
  then have after: "after_writes k (createIndexes fits is) created = fold add_index (take k is) created"
    using creates [OF assms(1) _ assms(2), of created k] by (simp add: after_writes_def only_declared_def)
  show ok': "only_declared (after_writes k (createIndexes fits is) created)"
    using ok assms(1) set_take_subset [of k "is"] by (auto simp: after only_declared_def set_add_indexes)
  have "fold add_index (take k is) (fold add_index (take k is) created) = fold add_index (take k is) created"
    by (rule add_again) (simp add: set_add_indexes)
  then have "fold add_index (take k is @ drop k is) (fold add_index (take k is) created) = fold add_index (take k is @ drop k is) created"
    unfolding fold_append comp_def by simp
  then show "outcome (createIndexes fits is) (after_writes k (createIndexes fits is) created) = outcome (createIndexes fits is) created"
    using creates_whole [OF assms(1) ok assms(2)] creates_whole [OF assms(1) ok' assms(2)] by (simp add: after)
qed

lemma run_indexes:
  assumes "list_all (\<lambda>(name, is). name \<notin> set (mg_applied w) \<and> set is \<subseteq> set declared_indexes \<and> (\<forall>i \<in> set is. ix_unique i \<longrightarrow> fits i)) ms"
    and "distinct (map fst ms)" "only_declared (mg_store w)"
  shows "runPendingMigrations (map (\<lambda>(name, is). (name, createIndexes fits is)) ms) w =
    (True, \<lparr>mg_store = fold add_index (concat (map snd ms)) (mg_store w), mg_applied = mg_applied w @ map fst ms\<rparr>)"
  using assms
proof (induction ms arbitrary: w)
  case (Cons m ms)
  obtain name "is" where m: "m = (name, is)" by (cases m)
  let ?w = "\<lparr>mg_store = fold add_index is (mg_store w), mg_applied = mg_applied w @ [name]\<rparr>"
  have "name \<notin> fst ` set ms" using Cons.prems(2) by (simp add: m)
  then have others: "(n, is') \<in> set ms \<Longrightarrow> n \<noteq> name" for n is' by force
  have "outcome (createIndexes fits is) (mg_store w) = (fold add_index is (mg_store w), True)"
    using Cons.prems by (intro creates_whole) (simp_all add: m)
  moreover have "only_declared (mg_store ?w)" using Cons.prems by (auto simp: m only_declared_def set_add_indexes)
  moreover have "list_all (\<lambda>(name, is). name \<notin> set (mg_applied ?w) \<and> set is \<subseteq> set declared_indexes \<and> (\<forall>i \<in> set is. ix_unique i \<longrightarrow> fits i)) ms"
    using Cons.prems(1) others by (auto simp: m list_all_iff)
  ultimately show ?case using Cons.IH [of ?w] Cons.prems by (simp add: m)
qed simp

text \<open>
  Every declared index comes to be, once. However many migrators died wherever in creating them, the one
  that comes through leaves exactly the declared indexes, no two of a collection with one name or one
  key, when the documents there fit the unique ones.
\<close>

theorem indexes_are_created_once:
  assumes "\<forall>i \<in> set declared_indexes. ix_unique i \<longrightarrow> fits i"
  shows "\<exists>w. runPendingMigrations (index_migrations fits)
      (fold (\<lambda>k. dies_after k (index_migrations fits)) ks \<lparr>mg_store = [], mg_applied = []\<rparr>) = (True, w) \<and>
    set (mg_store w) = set declared_indexes \<and> distinct (mg_store w) \<and>
    distinct (map (\<lambda>i. (ix_collection i, ix_name i)) (mg_store w)) \<and> distinct (map (\<lambda>i. (ix_collection i, ix_keys i)) (mg_store w))"
proof -
  have parts: "list_all (\<lambda>(name, is). set is \<subseteq> set declared_indexes \<and> (\<forall>i \<in> set is. ix_unique i \<longrightarrow> fits i)) index_files"
    using assms by (fastforce simp: list_all_iff declared_indexes_def)
  then have "list_all (\<lambda>(name, m). replayable only_declared m) (index_migrations fits)"
    using creates_replay by (fastforce simp: index_migrations_def list_all_iff)
  from migrations_resume_for [OF this, of "\<lparr>mg_store = [], mg_applied = []\<rparr>" ks]
  have resumed: "runPendingMigrations (index_migrations fits)
      (fold (\<lambda>k. dies_after k (index_migrations fits)) ks \<lparr>mg_store = [], mg_applied = []\<rparr>) =
    runPendingMigrations (index_migrations fits) \<lparr>mg_store = [], mg_applied = []\<rparr>"
    by (simp add: only_declared_def)
  have "distinct (map fst index_files)" by (simp add: index_files_def)
  then have "runPendingMigrations (index_migrations fits) \<lparr>mg_store = [], mg_applied = []\<rparr> =
      (True, \<lparr>mg_store = fold add_index declared_indexes [], mg_applied = map fst index_files\<rparr>)"
    unfolding index_migrations_def
    by (subst run_indexes) (use parts in \<open>simp_all add: only_declared_def list_all_iff declared_indexes_def [symmetric]\<close>)
  moreover have members: "set (fold add_index declared_indexes []) = set declared_indexes" by (simp add: set_add_indexes)
  moreover have once: "distinct (fold add_index declared_indexes [])" by (simp add: distinct_add_indexes)
  moreover have "inj_on (\<lambda>i. (ix_collection i, ix_name i)) (set declared_indexes)" "inj_on (\<lambda>i. (ix_collection i, ix_keys i)) (set declared_indexes)"
    using declared_apart by (fastforce simp: inj_on_def list_all_iff)+
  ultimately show ?thesis unfolding resumed by (simp add: distinct_map)
qed

theorem indexes_are_created_once_witness:
  "\<exists>w. runPendingMigrations (index_migrations (\<lambda>_. True))
      (fold (\<lambda>k. dies_after k (index_migrations (\<lambda>_. True))) [3, 17] \<lparr>mg_store = [], mg_applied = []\<rparr>) = (True, w) \<and>
    set (mg_store w) = set declared_indexes"
  using indexes_are_created_once [of "\<lambda>_. True" "[3, 17]"] by auto

section \<open>What they guarantee\<close>

text \<open>The unique ones, over which insertions are refused. A deployment's id is in none of them: it is an address
  drawn at random; nor is a task's key.\<close>

theorem unique_keys:
  "map (\<lambda>i. (ix_collection i, map fst (ix_keys i))) (filter ix_unique declared_indexes) =
     [(''jobs'', [''job'']), (''results'', [''job'']), (''vaults'', [''vault'', ''owner'']), (''vaults'', [''vault'']),
      (''revisions'', [''deployment'', ''revision'']), (''frps_endpoint_status'', [''job'', ''opId'']),
      (''deployments'', [''owner'', ''idempotency_key''])]"
  by code_simp

end
