(* ===== verification/Job_Migrations.thy ===== *)
theory Job_Migrations
  imports Data_Migrations Job_Listeners Route_Safety
begin

text \<open>
  The migrations that made the documents of earlier versions what the program reads now
  (numbers 1, 2, 3, 8, 9, 10, 15 and \<open>migrationDeploymentsToRevisions.ts\<close> under
  \<open>src/connection/docdb/migrations\<close>): the jobs, whose state and node are looked up on chain, and the
  revisions, whose definitions are fetched from IPFS.
\<close>

section \<open>Documents of earlier versions\<close>

text \<open>A field is None where a document has none. \<open>oj_status\<close> is the former state of a job, \<open>oj_node\<close> its node,
  which may be null.\<close>

datatype old_status = PENDING_status | CONFIRMED_status | COMPLETED_status

record old_job =
  oj_job :: address
  oj_deployment :: string
  oj_revision :: "nat option"
  oj_confidential :: "bool option"
  oj_status :: "old_status option"
  oj_state :: "job_state option"
  oj_time_start :: "int option"
  oj_market :: "address option"
  oj_node :: "address option option"
  oj_updated_at :: ms

record old_store =
  os_jobs :: "old_job list"
  os_markets :: "(string \<times> address option) list"

text \<open>What the chain has: the jobs with their states and nodes, and the jobs that have a run.\<close>

record chain_view =
  cv_states :: "(address \<times> nat) list"
  cv_runs :: "address list"
  cv_nodes :: "(address \<times> address) list"

definition each_job :: "(old_job \<Rightarrow> old_job) \<Rightarrow> old_store \<Rightarrow> old_store" where
  "each_job f s = s\<lparr>os_jobs := map f (os_jobs s)\<rparr>"

definition jobs_many :: "(old_job \<Rightarrow> bool) \<Rightarrow> (old_job \<Rightarrow> old_job) \<Rightarrow> old_store \<Rightarrow> old_store" where
  "jobs_many P f = each_job (\<lambda>j. if P j then f j else j)"

section \<open>Fields with a constant\<close>

text \<open>Numbers 1, 2 and 3 do not wait for their write; \<open>lands\<close> tells whether it happens.\<close>

definition migrateJobsToRevision :: "bool \<Rightarrow> old_store \<Rightarrow> old_store list \<times> bool" where
  "migrateJobsToRevision lands s =
     (if lands then [jobs_many (\<lambda>j. oj_revision j = None) (\<lambda>j. j\<lparr>oj_revision := Some 1\<rparr>) s] else [], True)"

definition migrateJobsToSupportConfidential :: "bool \<Rightarrow> old_store \<Rightarrow> old_store list \<times> bool" where
  "migrateJobsToSupportConfidential lands s =
     (if lands then [jobs_many (\<lambda>j. oj_confidential j = None) (\<lambda>j. j\<lparr>oj_confidential := Some False\<rparr>) s] else [], True)"

definition migrateJobsToStatus :: "bool \<Rightarrow> old_store \<Rightarrow> old_store list \<times> bool" where
  "migrateJobsToStatus lands s =
     (if lands then [jobs_many (\<lambda>j. oj_status j = None) (\<lambda>j. j\<lparr>oj_status := Some COMPLETED_status\<rparr>) s] else [], True)"

definition migrateJobsToHaveTimeStart :: "old_store \<Rightarrow> old_store list \<times> bool" where
  "migrateJobsToHaveTimeStart s =
     ([jobs_many (\<lambda>j. oj_time_start j = None) (\<lambda>j. j\<lparr>oj_time_start := Some 0\<rparr>) s], True)"

text \<open>Number 10: a job without a market gets its deployment's, one deployment after the other.\<close>

definition give_market :: "string \<times> address option \<Rightarrow> old_store \<Rightarrow> old_store" where
  "give_market d s = (case snd d of
     None \<Rightarrow> s
   | Some market \<Rightarrow> jobs_many (\<lambda>j. oj_deployment j = fst d \<and> oj_market j = None) (\<lambda>j. j\<lparr>oj_market := Some market\<rparr>) s)"

definition migrateJobsToMarket :: "old_store \<Rightarrow> old_store list \<times> bool" where
  "migrateJobsToMarket s = (passes give_market (filter (\<lambda>d. snd d \<noteq> None) (os_markets s)) s, True)"

section \<open>The state of a job (number 8)\<close>

definition state_of_status :: "old_status \<Rightarrow> job_state" where
  "state_of_status st = (case st of PENDING_status \<Rightarrow> J_QUEUED | CONFIRMED_status \<Rightarrow> J_RUNNING | COMPLETED_status \<Rightarrow> J_COMPLETED)"

text \<open>The three updates by status run at once; their filters exclude each other.\<close>

definition status_to_state :: "ms \<Rightarrow> old_status \<Rightarrow> old_store \<Rightarrow> old_store" where
  "status_to_state now st = jobs_many (\<lambda>j. oj_status j = Some st)
     (\<lambda>j. j\<lparr>oj_state := Some (state_of_status st), oj_updated_at := now, oj_status := None\<rparr>)"

text \<open>What the chain says of an unfinished job: None throws, Some None leaves it.\<close>

definition onchain_sync :: "chain_view \<Rightarrow> address \<Rightarrow> job_state option option" where
  "onchain_sync cv job = (case map_of (cv_states cv) job of
     Some n \<Rightarrow> if n \<ge> 2 then map_option Some (convertJobState n)
               else if job \<in> set (cv_runs cv) then Some (Some J_RUNNING) else Some None
   | None \<Rightarrow> Some (Some (if job \<in> set (cv_runs cv) then J_RUNNING else J_COMPLETED)))"

text \<open>The operations in the batches they are written in, and whether the loop came to its end.\<close>

fun sync_batches :: "chain_view \<Rightarrow> address list \<Rightarrow> (address \<times> job_state) list \<Rightarrow> (address \<times> job_state) list list \<times> bool" where
  "sync_batches cv [] batch = (if batch = [] then [] else [batch], True)"
| "sync_batches cv (job # jobs) batch = (case onchain_sync cv job of
     None \<Rightarrow> ([], False)
   | Some None \<Rightarrow> sync_batches cv jobs batch
   | Some (Some st) \<Rightarrow>
       if length (batch @ [(job, st)]) = BULK_WRITE_BATCH_SIZE
       then map_prod ((#) (batch @ [(job, st)])) id (sync_batches cv jobs [])
       else sync_batches cv jobs (batch @ [(job, st)]))"

definition write_state :: "ms \<Rightarrow> address \<times> job_state \<Rightarrow> old_store \<Rightarrow> old_store" where
  "write_state now w s = s\<lparr>os_jobs := update_one (\<lambda>j. oj_job j = fst w)
     (\<lambda>j. j\<lparr>oj_state := Some (snd w), oj_updated_at := now\<rparr>) (os_jobs s)\<rparr>"

definition unfinished_jobs :: "old_store \<Rightarrow> address list" where
  "unfinished_jobs s = map oj_job (filter (\<lambda>j. oj_state j \<notin> {Some J_COMPLETED, Some J_STOPPED}) (os_jobs s))"

text \<open>A bulk write is not atomic: the state after each of its operations is one the process may die in.\<close>

definition migrateJobStatusToJobState :: "ms \<Rightarrow> chain_view \<Rightarrow> old_store \<Rightarrow> old_store list \<times> bool" where
  "migrateJobStatusToJobState now cv s =
     (let s1 = status_to_state now PENDING_status s; s2 = status_to_state now CONFIRMED_status s1;
          s3 = status_to_state now COMPLETED_status s2;
          (batches, done) = sync_batches cv (unfinished_jobs s3) []
      in ([s1, s2, s3] @ passes (write_state now) (concat batches) s3, done))"

section \<open>The node of a job (number 15)\<close>

fun node_batches :: "chain_view \<Rightarrow> address list \<Rightarrow> (address \<times> address) list \<Rightarrow> (address \<times> address) list list" where
  "node_batches cv [] batch = (if batch = [] then [] else [batch])"
| "node_batches cv (job # jobs) batch = (case map_of (cv_nodes cv) job of
     None \<Rightarrow> node_batches cv jobs batch
   | Some node \<Rightarrow>
       if length (batch @ [(job, node)]) = BULK_WRITE_BATCH_SIZE
       then (batch @ [(job, node)]) # node_batches cv jobs []
       else node_batches cv jobs (batch @ [(job, node)]))"

definition write_node :: "ms \<Rightarrow> address \<times> address \<Rightarrow> old_store \<Rightarrow> old_store" where
  "write_node now w s = s\<lparr>os_jobs := update_one (\<lambda>j. oj_job j = fst w)
     (\<lambda>j. j\<lparr>oj_node := Some (Some (snd w)), oj_updated_at := now\<rparr>) (os_jobs s)\<rparr>"

definition migrateJobAddNodeField :: "ms \<Rightarrow> chain_view \<Rightarrow> old_store \<Rightarrow> old_store list \<times> bool" where
  "migrateJobAddNodeField now cv s =
     (let s1 = each_job (\<lambda>j. j\<lparr>oj_node := Some None, oj_updated_at := now\<rparr>) s;
          running = map oj_job (filter (\<lambda>j. oj_state j = Some J_RUNNING) (os_jobs s1))
      in (s1 # passes (write_node now) (concat (node_batches cv running [])) s1, True))"

definition job_migrations :: "bool \<Rightarrow> ms \<Rightarrow> chain_view \<Rightarrow> old_store migration list" where
  "job_migrations lands now cv =
     [(''1-migrateJobsToRevision.js'', migrateJobsToRevision lands),
      (''2-migrateJobsToSupportConfidential.js'', migrateJobsToSupportConfidential lands),
      (''3-migrateJobsToStatus.js'', migrateJobsToStatus lands),
      (''8-migrateJobStatusToJobState.js'', migrateJobStatusToJobState now cv),
      (''9-migrateJobToHaveTimeStart.js'', migrateJobsToHaveTimeStart),
      (''10-migrateJobsToMarket.js'', migrateJobsToMarket),
      (''15-migrateJobAddNodeField.js'', migrateJobAddNodeField now cv)]"

section \<open>Migrations that rewrite each job\<close>

definition unique_jobs :: "old_store \<Rightarrow> bool" where
  "unique_jobs s \<longleftrightarrow> distinct (map oj_job (os_jobs s))"

text \<open>A migration comes to a function of each job (and of the deployments' markets), and a part of it to one
  that does not change what the whole comes to.\<close>

definition job_by_job :: "((string \<times> address option) list \<Rightarrow> old_job \<Rightarrow> old_job) \<Rightarrow> (old_store \<Rightarrow> old_store list \<times> bool) \<Rightarrow> bool" where
  "job_by_job f m \<longleftrightarrow> (\<forall>mk j. oj_job (f mk j) = oj_job j) \<and>
     (\<forall>s. unique_jobs s \<longrightarrow> outcome m s = (each_job (f (os_markets s)) s, True) \<and>
        (\<forall>k. \<exists>g. after_writes k m s = each_job g s \<and>
           (\<forall>j \<in> set (os_jobs s). oj_job (g j) = oj_job j \<and> f (os_markets s) (g j) = f (os_markets s) j)))"

lemma each_job_simps [simp]:
  "os_jobs (each_job f s) = map f (os_jobs s)" "os_markets (each_job f s) = os_markets s"
  "each_job f (each_job g s) = each_job (f \<circ> g) s" "each_job (\<lambda>j. j) s = s"
  by (simp_all add: each_job_def)

lemma each_job_cong: "(\<And>j. j \<in> set (os_jobs s) \<Longrightarrow> f j = g j) \<Longrightarrow> each_job f s = each_job g s"
  by (simp add: each_job_def cong: map_cong)

lemma unique_each: "(\<And>j. j \<in> set (os_jobs s) \<Longrightarrow> oj_job (f j) = oj_job j) \<Longrightarrow> unique_jobs (each_job f s) = unique_jobs s"
  by (simp add: unique_jobs_def comp_def cong: map_cong)

lemma job_by_job_replay: "job_by_job f m \<Longrightarrow> replayable unique_jobs m"
  unfolding replayable_def
proof (intro allI impI)
  fix k s
  assume m: "job_by_job f m" and s: "unique_jobs s"
  then obtain g where g: "after_writes k m s = each_job g s"
    "\<forall>j \<in> set (os_jobs s). oj_job (g j) = oj_job j \<and> f (os_markets s) (g j) = f (os_markets s) j"
    unfolding job_by_job_def by blast
  have unique: "unique_jobs (each_job g s)" using g(2) s by (simp add: unique_each)
  with m s have "outcome m (each_job g s) = (each_job (f (os_markets s) \<circ> g) s, True)" "outcome m s = (each_job (f (os_markets s)) s, True)"
    unfolding job_by_job_def by simp_all
  moreover have "each_job (f (os_markets s) \<circ> g) s = each_job (f (os_markets s)) s" using g(2) by (intro each_job_cong) simp
  ultimately show "unique_jobs (after_writes k m s) \<and> outcome m (after_writes k m s) = outcome m s"
    using unique by (simp add: g(1))
qed

lemma job_by_job_run:
  assumes "list_all2 (\<lambda>nm f. fst nm \<notin> set (mg_applied w) \<and> job_by_job f (snd nm)) ms fs"
    and "distinct (map fst ms)" "unique_jobs (mg_store w)"
  shows "runPendingMigrations ms w = (True, \<lparr>mg_store = each_job (fold (\<lambda>f. f (os_markets (mg_store w))) fs) (mg_store w),
    mg_applied = mg_applied w @ map fst ms\<rparr>)"
  using assms
proof (induction ms arbitrary: w fs)
  case (Cons nm ms)
  obtain name m where nm: "nm = (name, m)" by (cases nm)
  obtain f fs' where fs: "fs = f # fs'" "name \<notin> set (mg_applied w)" "job_by_job f m"
      and rest: "list_all2 (\<lambda>nm f. fst nm \<notin> set (mg_applied w) \<and> job_by_job f (snd nm)) ms fs'"
    using Cons.prems(1) by (auto simp: nm list_all2_Cons1)
  let ?w = "\<lparr>mg_store = each_job (f (os_markets (mg_store w))) (mg_store w), mg_applied = mg_applied w @ [name]\<rparr>"
  have run: "outcome m (mg_store w) = (each_job (f (os_markets (mg_store w))) (mg_store w), True)"
    and unique: "unique_jobs (mg_store ?w)"
    using fs(3) Cons.prems(3) unique_each [of "mg_store w" "f (os_markets (mg_store w))"] unfolding job_by_job_def by simp_all
  have "name \<notin> fst ` set ms" using Cons.prems(2) by (simp add: nm)
  then have "list_all2 (\<lambda>nm f. fst nm \<notin> set (mg_applied ?w) \<and> job_by_job f (snd nm)) ms fs'"
    using rest by (intro list.rel_mono_strong [OF rest]) auto
  from Cons.IH [OF this _ unique] Cons.prems(2) show ?case
    by (simp add: nm fs run comp_def)
qed (simp add: each_job_def)

lemma job_by_job_constant:
  assumes "\<And>j. h (h j) = h j" "\<And>j. oj_job (h j) = oj_job j" and m: "m = (\<lambda>s. ([each_job h s], True))"
  shows "job_by_job (\<lambda>_. h) m"
proof -
  have "\<exists>g. after_writes k m s = each_job g s \<and> (\<forall>j. oj_job (g j) = oj_job j \<and> h (g j) = h j)" for k s
  proof (cases k)
    case 0
    then show ?thesis by (intro exI [of _ "\<lambda>j. j"]) (simp add: m after_writes_def)
  next
    case (Suc k')
    then show ?thesis using assms by (intro exI [of _ h]) (simp add: after_writes_def)
  qed
  then have "\<exists>g. after_writes k m s = each_job g s \<and> (\<forall>j \<in> set (os_jobs s). oj_job (g j) = oj_job j \<and> h (g j) = h j)" for k s
    by blast
  then show ?thesis using assms(2) unfolding job_by_job_def by (simp add: m outcome_def)
qed

section \<open>Writes to single jobs\<close>

lemma write_jobs:
  assumes "distinct (map oj_job js)" "distinct (map fst ws)" and keeps: "\<And>v j. oj_job (upd v j) = oj_job j"
  shows "fold (\<lambda>w. update_one (\<lambda>j. oj_job j = fst w) (upd (snd w))) ws js =
    map (\<lambda>j. case map_of ws (oj_job j) of None \<Rightarrow> j | Some v \<Rightarrow> upd v j) js"
  using assms(1,2)
proof (induction ws arbitrary: js)
  case (Cons w ws)
  have one: "update_one (\<lambda>j. oj_job j = fst w) (upd (snd w)) js = map (\<lambda>j. if oj_job j = fst w then upd (snd w) j else j) js"
    using Cons.prems(1) by (rule update_one_keyed)
  have none: "map_of ws (fst w) = None" using Cons.prems(2) by (simp add: map_of_eq_None_iff)
  have ids: "map oj_job (map (\<lambda>j. if oj_job j = fst w then upd (snd w) j else j) js) = map oj_job js"
    using keeps by (simp add: comp_def if_distrib cong: if_cong)
  show ?case
    using Cons.IH [of "map (\<lambda>j. if oj_job j = fst w then upd (snd w) j else j) js"] Cons.prems none keeps
    unfolding ids fold_simps one by (cases w) (auto simp: comp_def)
qed simp

lemma fold_write:
  assumes "unique_jobs s" "distinct (map fst ws)" "\<And>v j. oj_job (upd v j) = oj_job j"
    and "\<And>w s. write w s = s\<lparr>os_jobs := update_one (\<lambda>j. oj_job j = fst w) (upd (snd w)) (os_jobs s)\<rparr>"
  shows "fold write ws s = each_job (\<lambda>j. case map_of ws (oj_job j) of None \<Rightarrow> j | Some v \<Rightarrow> upd v j) s"
proof -
  have "fold write ws s = s\<lparr>os_jobs := fold (\<lambda>w. update_one (\<lambda>j. oj_job j = fst w) (upd (snd w))) ws (os_jobs s)\<rparr>"
    by (induction ws arbitrary: s) (simp_all add: assms(4))
  moreover have "distinct (map oj_job (os_jobs s))" using assms(1) by (simp add: unique_jobs_def)
  ultimately show ?thesis using write_jobs [of "os_jobs s" ws upd] assms(2,3) by (simp add: each_job_def)
qed

section \<open>What each migration comes to\<close>

definition if_none :: "(old_job \<Rightarrow> 'a option) \<Rightarrow> (old_job \<Rightarrow> old_job) \<Rightarrow> old_job \<Rightarrow> old_job" where
  "if_none field f j = (if field j = None then f j else j)"

definition with_status :: "ms \<Rightarrow> old_job \<Rightarrow> old_job" where
  "with_status now j = (case oj_status j of None \<Rightarrow> j
     | Some st \<Rightarrow> j\<lparr>oj_state := Some (state_of_status st), oj_updated_at := now, oj_status := None\<rparr>)"

definition synced :: "ms \<Rightarrow> chain_view \<Rightarrow> old_job \<Rightarrow> old_job" where
  "synced now cv j = (if oj_state j \<in> {Some J_COMPLETED, Some J_STOPPED} then j
     else (case onchain_sync cv (oj_job j) of Some (Some st) \<Rightarrow> j\<lparr>oj_state := Some st, oj_updated_at := now\<rparr> | _ \<Rightarrow> j))"

definition with_node :: "ms \<Rightarrow> chain_view \<Rightarrow> old_job \<Rightarrow> old_job" where
  "with_node now cv j = j\<lparr>oj_updated_at := now,
     oj_node := Some (if oj_state j = Some J_RUNNING then map_of (cv_nodes cv) (oj_job j) else None)\<rparr>"

definition with_market :: "(string \<times> address option) list \<Rightarrow> old_job \<Rightarrow> old_job" where
  "with_market mk j = (if oj_market j = None then j\<lparr>oj_market := Option.bind (map_of (filter (\<lambda>d. snd d \<noteq> None) mk) (oj_deployment j)) id\<rparr> else j)"

definition known_states :: "chain_view \<Rightarrow> bool" where
  "known_states cv \<longleftrightarrow> (\<forall>n \<in> snd ` set (cv_states cv). n \<le> 3)"

definition sync_op :: "chain_view \<Rightarrow> address \<Rightarrow> (address \<times> job_state) option" where
  "sync_op cv job = map_option (Pair job) (Option.bind (onchain_sync cv job) id)"

lemma known_sync: "known_states cv \<Longrightarrow> onchain_sync cv job \<noteq> None"
  by (auto simp: onchain_sync_def known_states_def convertJobState_def split: option.split dest!: map_of_SomeD)

lemma sync_concat:
  "known_states cv \<Longrightarrow> snd (sync_batches cv jobs batch) \<and> concat (fst (sync_batches cv jobs batch)) = batch @ List.map_filter (sync_op cv) jobs"
  by (induction cv jobs batch rule: sync_batches.induct)
    (use known_sync in \<open>auto simp: sync_op_def List.map_filter_simps split: option.split\<close>)

lemma sync_small:
  "length batch < BULK_WRITE_BATCH_SIZE \<Longrightarrow> b \<in> set (fst (sync_batches cv jobs batch)) \<Longrightarrow> b \<noteq> [] \<and> length b \<le> BULK_WRITE_BATCH_SIZE"
  by (induction cv jobs batch rule: sync_batches.induct) (auto simp: BULK_WRITE_BATCH_SIZE_def split: option.splits if_splits)

lemma node_concat:
  "concat (node_batches cv jobs batch) = batch @ List.map_filter (\<lambda>job. map_option (Pair job) (map_of (cv_nodes cv) job)) jobs"
  by (induction cv jobs batch rule: node_batches.induct) (auto simp: List.map_filter_simps split: option.split)

lemma node_small:
  "length batch < BULK_WRITE_BATCH_SIZE \<Longrightarrow> b \<in> set (node_batches cv jobs batch) \<Longrightarrow> b \<noteq> [] \<and> length b \<le> BULK_WRITE_BATCH_SIZE"
  by (induction cv jobs batch rule: node_batches.induct) (auto simp: BULK_WRITE_BATCH_SIZE_def split: option.splits if_splits)

text \<open>The operations on some of the jobs: one per key, and what they say of a job.\<close>

lemma map_filter_keys:
  assumes "distinct ks"
  shows "distinct (map fst (List.map_filter (\<lambda>k. map_option (Pair k) (f k)) ks))"
    and "map_of (List.map_filter (\<lambda>k. map_option (Pair k) (f k)) ks) k = (if k \<in> set ks then f k else None)"
proof -
  have sub: "set (map fst (List.map_filter (\<lambda>k. map_option (Pair k) (f k)) ks)) \<subseteq> set ks" for ks
    by (induction ks) (auto simp: List.map_filter_simps split: option.splits)
  show "distinct (map fst (List.map_filter (\<lambda>k. map_option (Pair k) (f k)) ks))"
    using assms sub by (induction ks) (auto simp: List.map_filter_simps split: option.split)
  show "map_of (List.map_filter (\<lambda>k. map_option (Pair k) (f k)) ks) k = (if k \<in> set ks then f k else None)"
    using assms sub
  proof (induction ks)
    case (Cons k' ks)
    have "map_of (List.map_filter (\<lambda>k. map_option (Pair k) (f k)) ks) k' = None"
      using Cons.prems(1) sub [of ks] by (auto simp: map_of_eq_None_iff)
    then show ?case using Cons by (auto simp: List.map_filter_simps split: option.split)
  qed (simp add: List.map_filter_simps)
qed

lemma key_of_part:
  assumes "distinct (map k js)" "j \<in> set js"
  shows "k j \<in> set (map k (filter P js)) \<longleftrightarrow> P j"
  using assms by (auto simp: distinct_map inj_on_def)

text \<open>Some of the operations: on a job either nothing or what all of them do.\<close>

lemma take_writes:
  assumes "distinct (map fst ws)"
  shows "(case map_of (take k ws) x of None \<Rightarrow> j | Some v \<Rightarrow> upd v j) \<in>
    {j, case map_of ws x of None \<Rightarrow> j | Some v \<Rightarrow> upd v j}"
proof (cases "map_of (take k ws) x")
  case (Some v)
  then have "map_of ws x = Some v" using map_of_take [OF assms] by simp
  with Some show ?thesis by simp
qed simp

lemma after_passes:
  assumes "m s = (passes f ws s, b)"
  shows "after_writes k m s = fold f (take k ws) s" "outcome m s = (fold f ws s, b)"
  unfolding after_writes_def outcome_def assms fst_conv snd_conv by (simp_all only: last_passes last_passes_all)

lemma market_replay: "job_by_job with_market migrateJobsToMarket"
proof -
  define set_market where "set_market L j = (if oj_market j = None then j\<lparr>oj_market := Option.bind (map_of L (oj_deployment j)) id\<rparr> else j)"
    for L :: "(string \<times> address option) list" and j :: old_job
  have pass: "fold give_market L s = each_job (set_market L) s" if "list_all (\<lambda>d. snd d \<noteq> None) L" for L s
    using that
  proof (induction L arbitrary: s)
    case Nil
    have "set_market [] j = j" for j by (simp add: set_market_def)
    then show ?case by simp
  next
    case (Cons d L)
    obtain i market where d: "d = (i, Some market)" using Cons.prems by (cases d) auto
    have "set_market L (if oj_deployment j = i \<and> oj_market j = None then j\<lparr>oj_market := Some market\<rparr> else j) = set_market (d # L) j" for j
      by (simp add: set_market_def d)
    then show ?case using Cons by (simp add: d give_market_def jobs_many_def comp_def)
  qed
  let ?L = "\<lambda>mk. filter (\<lambda>d. snd d \<noteq> None) mk"
  have whole: "set_market (?L mk) = with_market mk" for mk by (simp add: set_market_def with_market_def fun_eq_iff)
  have some: "list_all (\<lambda>d. snd d \<noteq> None) (take k (?L mk))" for k mk by (auto simp: list_all_iff dest: in_set_takeD)
  have part: "with_market mk (set_market (take k (?L mk)) j) = with_market mk j" for mk k j
  proof (cases "map_of (take k (?L mk)) (oj_deployment j)")
    case (Some y)
    then have "map_of (take k (?L mk) @ drop k (?L mk)) (oj_deployment j) = Some y" by (simp only: map_of_append map_add_Some_iff) simp
    then have "map_of (?L mk) (oj_deployment j) = Some y" by simp
    with Some show ?thesis by (simp add: set_market_def with_market_def)
  next
    case None
    then show ?thesis by (cases j) (simp add: set_market_def)
  qed
  show ?thesis unfolding job_by_job_def
  proof (intro conjI allI impI)
    fix s :: old_store and k :: nat
    show "oj_job (with_market mk j) = oj_job j" for mk j by (simp add: with_market_def)
    have every: "list_all (\<lambda>d. snd d \<noteq> None) (?L (os_markets s))" by (simp add: list_all_iff)
    note run = after_passes [of migrateJobsToMarket s give_market "?L (os_markets s)" True, OF migrateJobsToMarket_def]
    show "outcome migrateJobsToMarket s = (each_job (with_market (os_markets s)) s, True)"
      unfolding run pass [OF every] whole ..
    have "after_writes k migrateJobsToMarket s = each_job (set_market (take k (?L (os_markets s)))) s"
      unfolding run pass [OF some] ..
    then show "\<exists>g. after_writes k migrateJobsToMarket s = each_job g s \<and>
        (\<forall>j \<in> set (os_jobs s). oj_job (g j) = oj_job j \<and> with_market (os_markets s) (g j) = with_market (os_markets s) j)"
      using part by (intro exI [of _ "set_market (take k (?L (os_markets s)))"]) (simp add: set_market_def)
  qed
qed

lemma with_status_none: "oj_status j = None \<Longrightarrow> with_status now j = j"
  by (simp add: with_status_def)

lemma status_gone [simp]: "oj_status (with_status now j) = None"
  by (simp add: with_status_def split: option.split)

lemma synced_simps [simp]: "oj_status (synced now cv j) = oj_status j" "oj_job (synced now cv j) = oj_job j"
  "oj_job (with_status now j) = oj_job j" "synced now cv (synced now cv j) = synced now cv j"
  by (auto simp: synced_def with_status_def split: option.splits)

lemma state_replay:
  assumes "known_states cv"
  shows "job_by_job (\<lambda>_. synced now cv \<circ> with_status now) (migrateJobStatusToJobState now cv)"
  unfolding job_by_job_def
proof (intro conjI allI impI)
  fix s k
  show "oj_job ((synced now cv \<circ> with_status now) j) = oj_job j" for j by simp
  assume s: "unique_jobs s"
  define part where "part st j = (if oj_status j = Some st then with_status now j else j)" for st j
  have step: "status_to_state now st = each_job (part st)" for st
    by (auto simp: status_to_state_def jobs_many_def part_def with_status_def fun_eq_iff intro!: each_job_cong)
  let ?s1 = "status_to_state now PENDING_status s"
  let ?s2 = "status_to_state now CONFIRMED_status ?s1"
  let ?s3 = "status_to_state now COMPLETED_status ?s2"
  have "part COMPLETED_status (part CONFIRMED_status (part PENDING_status j)) = with_status now j" for j
    by (cases "oj_status j") (auto simp: part_def with_status_none intro: old_status.exhaust)
  then have s3: "?s3 = each_job (with_status now) s" by (simp add: step comp_def)
  have unique: "unique_jobs ?s3" using s by (simp add: s3 unique_each)
  let ?js = "os_jobs ?s3"
  have unf: "distinct (unfinished_jobs ?s3)"
    using unique by (simp add: unfinished_jobs_def unique_jobs_def distinct_map_filter)
  define ops where "ops = List.map_filter (sync_op cv) (unfinished_jobs ?s3)"
  have batches: "snd (sync_batches cv (unfinished_jobs ?s3) [])" "concat (fst (sync_batches cv (unfinished_jobs ?s3) [])) = ops"
    using sync_concat [OF assms, of "unfinished_jobs ?s3" "[]"] by (simp_all add: ops_def)
  have keys: "distinct (map fst ops)"
    "map_of ops a = (if a \<in> set (unfinished_jobs ?s3) then Option.bind (onchain_sync cv a) id else None)" for a
    using map_filter_keys [OF unf, of "\<lambda>a. Option.bind (onchain_sync cv a) id"] by (simp_all add: ops_def sync_op_def [abs_def])
  let ?upd = "\<lambda>st j. j\<lparr>oj_state := Some st, oj_updated_at := now\<rparr>"
  have all_ops: "(case map_of ops (oj_job j) of None \<Rightarrow> j | Some st \<Rightarrow> ?upd st j) = synced now cv j" if "j \<in> set ?js" for j
  proof -
    have "oj_job j \<in> set (unfinished_jobs ?s3) \<longleftrightarrow> oj_state j \<notin> {Some J_COMPLETED, Some J_STOPPED}"
      unfolding unfinished_jobs_def using key_of_part [OF _ that] unique by (simp add: unique_jobs_def)
    then show ?thesis by (simp add: keys(2) synced_def split: option.split)
  qed
  have writes: "fold (write_state now) (take n ops) ?s3 = each_job (\<lambda>j. case map_of (take n ops) (oj_job j) of None \<Rightarrow> j | Some st \<Rightarrow> ?upd st j) ?s3" for n
    using keys(1) by (intro fold_write [OF unique]) (simp_all add: write_state_def distinct_take flip: take_map)
  define t where "t n j = (case map_of (take n ops) (oj_job j) of None \<Rightarrow> j | Some st \<Rightarrow> ?upd st j)" for n and j :: old_job
  have t_cases: "t n j \<in> {j, synced now cv j}" if "j \<in> set ?js" for n j
    unfolding t_def using take_writes [OF keys(1), where k = n and x = "oj_job j" and j = j and upd = ?upd] all_ops [OF that] by simp
  have states: "migrateJobStatusToJobState now cv s = ([?s1, ?s2, ?s3] @ passes (write_state now) ops ?s3, True)"
    using batches by (cases "sync_batches cv (unfinished_jobs ?s3) []") (simp add: migrateJobStatusToJobState_def Let_def)
  have after: "after_writes (3 + n) (migrateJobStatusToJobState now cv) s = each_job (t n \<circ> with_status now) s" for n
  proof -
    have "after_writes (3 + n) (migrateJobStatusToJobState now cv) s = fold (write_state now) (take n ops) ?s3"
      using last_passes [of ?s3 n "write_state now" ops] by (simp add: after_writes_def states eval_nat_numeral)
    also have "\<dots> = each_job (t n) ?s3" unfolding writes t_def ..
    finally show ?thesis by (simp add: s3)
  qed
  have whole: "each_job (t (length ops) \<circ> with_status now) s = each_job (synced now cv \<circ> with_status now) s"
  proof (rule each_job_cong)
    fix j assume "j \<in> set (os_jobs s)"
    then have "with_status now j \<in> set ?js" by (simp add: s3)
    from all_ops [OF this] show "(t (length ops) \<circ> with_status now) j = (synced now cv \<circ> with_status now) j" by (simp add: t_def)
  qed
  have "outcome (migrateJobStatusToJobState now cv) s = (after_writes (3 + length ops) (migrateJobStatusToJobState now cv) s, True)"
    using last_passes [of ?s3 "length ops" "write_state now" ops] last_passes_all [of ?s3 "write_state now" ops]
    by (simp add: outcome_def after_writes_def states eval_nat_numeral)
  then show "outcome (migrateJobStatusToJobState now cv) s = (each_job (synced now cv \<circ> with_status now) s, True)"
    unfolding after whole .
  show "\<exists>g. after_writes k (migrateJobStatusToJobState now cv) s = each_job g s \<and> (\<forall>j \<in> set (os_jobs s).
      oj_job (g j) = oj_job j \<and> (synced now cv \<circ> with_status now) (g j) = (synced now cv \<circ> with_status now) j)"
  proof (cases "k < 3")
    case True
    have parts: "with_status now (part st j) = with_status now j" for st j by (simp add: part_def with_status_none)
    consider "k = 0" | "k = 1" | "k = 2" using True by linarith
    then obtain g where g: "after_writes k (migrateJobStatusToJobState now cv) s = each_job g s"
        "\<And>j. with_status now (g j) = with_status now j \<and> oj_job (g j) = oj_job j"
    proof cases
      case 1
      show thesis by (rule that [of "\<lambda>j. j"]) (simp_all add: 1 after_writes_def)
    next
      case 2
      show thesis by (rule that [of "part PENDING_status"]) (simp add: 2 after_writes_def states step, simp add: parts, simp add: part_def)
    next
      case 3
      show thesis by (rule that [of "part CONFIRMED_status \<circ> part PENDING_status"])
          (simp add: 3 after_writes_def states step eval_nat_numeral, simp add: parts, simp add: part_def)
    qed
    then show ?thesis by (intro exI [of _ g]) simp
  next
    case False
    then obtain n where k: "k = 3 + n" by (metis le_Suc_ex not_less)
    have "oj_job (t n (with_status now j)) = oj_job j \<and>
        synced now cv (with_status now (t n (with_status now j))) = synced now cv (with_status now j)" if "j \<in> set (os_jobs s)" for j
      using t_cases [of "with_status now j" n] that by (auto simp: s3 with_status_none)
    then show ?thesis unfolding k after by (intro exI [of _ "t n \<circ> with_status now"]) simp
  qed
qed

lemma node_replay: "job_by_job (\<lambda>_. with_node now cv) (migrateJobAddNodeField now cv)"
  unfolding job_by_job_def
proof (intro conjI allI impI)
  fix s :: old_store and k :: nat
  show "oj_job (with_node now cv j) = oj_job j" for j by (simp add: with_node_def)
  assume s: "unique_jobs s"
  define blank where "blank j = j\<lparr>oj_node := Some None, oj_updated_at := now\<rparr>" for j :: old_job
  let ?s1 = "each_job blank s"
  define running where "running = map oj_job (filter (\<lambda>j. oj_state j = Some J_RUNNING) (os_jobs ?s1))"
  define ops where "ops = List.map_filter (\<lambda>job. map_option (Pair job) (map_of (cv_nodes cv) job)) running"
  have unique: "unique_jobs ?s1" using s by (simp add: unique_each blank_def)
  then have "distinct running" by (simp add: running_def unique_jobs_def distinct_map_filter)
  note keys = map_filter_keys [OF this, of "map_of (cv_nodes cv)", folded ops_def]
  let ?upd = "\<lambda>node j. j\<lparr>oj_node := Some (Some node), oj_updated_at := now\<rparr>"
  have writes: "fold (write_node now) (take n ops) ?s1 =
      each_job (\<lambda>j. case map_of (take n ops) (oj_job j) of None \<Rightarrow> j | Some node \<Rightarrow> ?upd node j) ?s1" for n
    using keys(1) by (intro fold_write [OF unique]) (simp_all add: write_node_def distinct_take flip: take_map)
  define t where "t n j = (case map_of (take n ops) (oj_job j) of None \<Rightarrow> j | Some node \<Rightarrow> ?upd node j)" for n and j :: old_job
  have states: "migrateJobAddNodeField now cv s = (?s1 # passes (write_node now) ops ?s1, True)"
    by (simp add: migrateJobAddNodeField_def Let_def ops_def running_def node_concat blank_def [abs_def])
  have after: "after_writes (Suc n) (migrateJobAddNodeField now cv) s = each_job (t n \<circ> blank) s" for n
  proof -
    have "after_writes (Suc n) (migrateJobAddNodeField now cv) s = fold (write_node now) (take n ops) ?s1"
      using last_passes [of ?s1 n "write_node now" ops] by (simp add: after_writes_def states)
    also have "\<dots> = each_job (t n) ?s1" unfolding writes t_def ..
    finally show ?thesis by simp
  qed
  have "outcome (migrateJobAddNodeField now cv) s = (after_writes (Suc (length ops)) (migrateJobAddNodeField now cv) s, True)"
    using last_passes [of ?s1 "length ops" "write_node now" ops] last_passes_all [of ?s1 "write_node now" ops]
    by (simp add: outcome_def after_writes_def states)
  moreover have "each_job (t (length ops) \<circ> blank) s = each_job (with_node now cv) s"
  proof (rule each_job_cong)
    fix j assume j: "j \<in> set (os_jobs s)"
    have "oj_job (blank j) \<in> set running \<longleftrightarrow> oj_state (blank j) = Some J_RUNNING"
      unfolding running_def using j unique by (intro key_of_part) (simp_all add: unique_jobs_def)
    then show "(t (length ops) \<circ> blank) j = with_node now cv j"
      by (simp add: t_def keys(2) with_node_def blank_def split: option.split)
  qed
  ultimately show "outcome (migrateJobAddNodeField now cv) s = (each_job (with_node now cv) s, True)" by (simp add: after)
  show "\<exists>g. after_writes k (migrateJobAddNodeField now cv) s = each_job g s \<and>
      (\<forall>j \<in> set (os_jobs s). oj_job (g j) = oj_job j \<and> with_node now cv (g j) = with_node now cv j)"
  proof (cases k)
    case 0
    then show ?thesis by (intro exI [of _ "\<lambda>j. j"]) (simp add: after_writes_def)
  next
    case (Suc n)
    have "oj_job (t n (blank j)) = oj_job j \<and> with_node now cv (t n (blank j)) = with_node now cv j" for j
      by (simp add: t_def blank_def with_node_def split: option.split)
    then show ?thesis unfolding Suc after by (intro exI [of _ "t n \<circ> blank"]) simp
  qed
qed

section \<open>The whole way of a job\<close>

text \<open>What becomes of a job, read off its document, its deployment's market and the chain in one step.\<close>

definition migrated_state :: "chain_view \<Rightarrow> old_job \<Rightarrow> job_state" where
  "migrated_state cv j =
     (if oj_status j \<in> {None, Some COMPLETED_status} \<or> map_of (cv_states cv) (oj_job j) = Some 2 then J_COMPLETED
      else if map_of (cv_states cv) (oj_job j) = Some 3 then J_STOPPED
      else if oj_job j \<in> set (cv_runs cv) then J_RUNNING
      else if map_of (cv_states cv) (oj_job j) = None then J_COMPLETED
      else if oj_status j = Some CONFIRMED_status then J_RUNNING else J_QUEUED)"

definition migrated_job :: "ms \<Rightarrow> chain_view \<Rightarrow> (string \<times> address option) list \<Rightarrow> old_job \<Rightarrow> old_job" where
  "migrated_job now cv mk j = \<lparr>oj_job = oj_job j, oj_deployment = oj_deployment j, oj_revision = Some (nullish (oj_revision j) 1),
     oj_confidential = Some (nullish (oj_confidential j) False), oj_status = None, oj_state = Some (migrated_state cv j),
     oj_time_start = Some (nullish (oj_time_start j) 0),
     oj_market = or_else (oj_market j) (Option.bind (map_of (filter (\<lambda>d. snd d \<noteq> None) mk) (oj_deployment j)) id),
     oj_node = Some (if migrated_state cv j = J_RUNNING then map_of (cv_nodes cv) (oj_job j) else None), oj_updated_at = now\<rparr>"

lemma synced_status:
  assumes "known_states cv" "oj_status j = Some st"
  shows "synced now cv (with_status now j) = j\<lparr>oj_state := Some (migrated_state cv j), oj_status := None, oj_updated_at := now\<rparr>"
proof -
  have "map_of (cv_states cv) (oj_job j) \<in> {None, Some 0, Some 1, Some 2, Some 3}"
  proof (cases "map_of (cv_states cv) (oj_job j)")
    case (Some n)
    then have "n \<le> 3" using assms(1) by (force simp: known_states_def dest: map_of_SomeD)
    then have "n = 0 \<or> n = 1 \<or> n = 2 \<or> n = 3" by linarith
    with Some show ?thesis by auto
  qed simp
  then show ?thesis using assms(2)
    by (cases st) (auto simp: synced_def with_status_def migrated_state_def state_of_status_def onchain_sync_def convertJobState_def)
qed

lemma migrated_steps:
  assumes "known_states cv"
  shows "with_node now cv (with_market mk (if_none oj_time_start (\<lambda>j. j\<lparr>oj_time_start := Some 0\<rparr>) (synced now cv (with_status now
     (if_none oj_status (\<lambda>j. j\<lparr>oj_status := Some COMPLETED_status\<rparr>) (if_none oj_confidential (\<lambda>j. j\<lparr>oj_confidential := Some False\<rparr>)
       (if_none oj_revision (\<lambda>j. j\<lparr>oj_revision := Some 1\<rparr>) j))))))) = migrated_job now cv mk j"
proof -
  let ?j3 = "j\<lparr>oj_revision := Some (nullish (oj_revision j) 1), oj_confidential := Some (nullish (oj_confidential j) False),
      oj_status := Some (nullish (oj_status j) COMPLETED_status)\<rparr>"
  have "if_none oj_status (\<lambda>j. j\<lparr>oj_status := Some COMPLETED_status\<rparr>) (if_none oj_confidential (\<lambda>j. j\<lparr>oj_confidential := Some False\<rparr>)
       (if_none oj_revision (\<lambda>j. j\<lparr>oj_revision := Some 1\<rparr>) j)) = ?j3"
    by (cases j) (auto simp: if_none_def)
  moreover have "migrated_state cv ?j3 = migrated_state cv j" by (cases "oj_status j") (simp_all add: migrated_state_def)
  ultimately show ?thesis
    by (cases j) (auto simp: synced_status [OF assms] if_none_def with_market_def with_node_def migrated_job_def)
qed


definition example_chain_view :: chain_view where
  "example_chain_view = \<lparr>cv_states = [(''A'', 1), (''B'', 3)], cv_runs = [''A''], cv_nodes = [(''A'', ''N'')]\<rparr>"

definition example_old_job :: "address \<Rightarrow> old_job" where
  "example_old_job a = \<lparr>oj_job = a, oj_deployment = ''D'', oj_revision = None, oj_confidential = None,
     oj_status = Some PENDING_status, oj_state = None, oj_time_start = None, oj_market = None, oj_node = None, oj_updated_at = 0\<rparr>"


text \<open>What is written at once stays within the database's limit.\<close>

lemma batches_within_limit:
  "list_all (\<lambda>b. b \<noteq> [] \<and> length b \<le> BULK_WRITE_BATCH_SIZE) (fst (sync_batches cv jobs []))"
  "list_all (\<lambda>b. b \<noteq> [] \<and> length b \<le> BULK_WRITE_BATCH_SIZE) (node_batches cv jobs [])"
  using sync_small [of "[]" _ cv jobs] node_small [of "[]" _ cv jobs] by (simp_all add: list_all_iff BULK_WRITE_BATCH_SIZE_def)

section \<open>Definitions become revisions (\<open>migrationDeploymentsToRevisions.ts\<close>)\<close>

record old_deployment =
  od_id :: string
  od_vault :: address
  od_confidential :: "bool option"
  od_hash :: "string option"
  od_active_revision :: "nat option"
  od_status :: deployment_status
  od_updated_at :: ms

record revision_store =
  rs_deployments :: "old_deployment list"
  rs_revisions :: "revision_document list"
  rs_events :: "event_document list"

definition without_revision :: "old_deployment \<Rightarrow> bool" where
  "without_revision d \<longleftrightarrow> od_active_revision d = None \<and> od_hash d \<noteq> None"

definition same_revision :: "revision_document \<Rightarrow> revision_document \<Rightarrow> bool" where
  "same_revision r x \<longleftrightarrow> r_deployment x = r_deployment r \<and> r_revision x = r_revision r"

text \<open>The unique index is that of number 12, which the runner applies before this migration: it has no number.\<close>

definition store_revision :: "revision_document \<Rightarrow> revision_store \<Rightarrow> revision_store option" where
  "store_revision r s = (if matches (same_revision r) (rs_revisions s) then None
     else Some (s\<lparr>rs_revisions := insert_one r (rs_revisions s)\<rparr>))"

text \<open>The update writes the deployment as it was read.\<close>

definition activate_revision :: "ms \<Rightarrow> old_deployment \<Rightarrow> nat \<Rightarrow> revision_store \<Rightarrow> revision_store" where
  "activate_revision now d revision s = s\<lparr>rs_deployments := update_one (\<lambda>e. od_id e = od_id d)
     (\<lambda>e. d\<lparr>od_hash := None, od_active_revision := Some revision, od_updated_at := now\<rparr>) (rs_deployments s)\<rparr>"

definition fail_revision :: "ms \<Rightarrow> string \<Rightarrow> old_deployment \<Rightarrow> revision_store \<Rightarrow> revision_store list" where
  "fail_revision now message d s =
     (let s1 = s\<lparr>rs_deployments := update_one (\<lambda>e. od_id e = od_id d)
            (\<lambda>e. e\<lparr>od_status := ERROR, od_active_revision := Some 0, od_updated_at := now, od_hash := None\<rparr>) (rs_deployments s)\<rparr>
      in [s1, s1\<lparr>rs_events := insert_one (deployment_event (od_id d) ''MIGRATION_ERROR''
            (''Error processing deployment '' @ od_id d @ '': '' @ message) None now) (rs_events s1)\<rparr>])"

text \<open>\<open>retrieve\<close> is IPFS: None throws. The states after each write for one deployment.\<close>

definition revise :: "route_kit \<Rightarrow> (string \<Rightarrow> job_definition option) \<Rightarrow> string \<Rightarrow> ms \<Rightarrow> old_deployment \<Rightarrow> revision_store \<Rightarrow> revision_store list" where
  "revise kit retrieve message now d s =
     (case Option.bind (retrieve (the (od_hash d)))
         (\<lambda>jd. createNewDeploymentRevision kit 0 (od_id d) (od_vault d) jd (nullish (od_confidential d) False) None now) of
        None \<Rightarrow> fail_revision now message d s
      | Some (revision, endpoints, keys) \<Rightarrow> (case store_revision revision s of
            None \<Rightarrow> fail_revision now message d s
          | Some s1 \<Rightarrow> [s1, activate_revision now d (r_revision revision) s1]))"

fun revise_all :: "route_kit \<Rightarrow> (string \<Rightarrow> job_definition option) \<Rightarrow> string \<Rightarrow> ms \<Rightarrow> old_deployment list \<Rightarrow> revision_store \<Rightarrow> revision_store list" where
  "revise_all kit retrieve message now [] s = []"
| "revise_all kit retrieve message now (d # ds) s =
     (let states = revise kit retrieve message now d s in states @ revise_all kit retrieve message now ds (last (s # states)))"

definition migrateDeploymentsToRevisions ::
    "route_kit \<Rightarrow> (string \<Rightarrow> job_definition option) \<Rightarrow> string \<Rightarrow> ms \<Rightarrow> revision_store \<Rightarrow> revision_store list \<times> bool" where
  "migrateDeploymentsToRevisions kit retrieve message now s =
     (revise_all kit retrieve message now (filter without_revision (rs_deployments s)) s, True)"

lemma fail_keeps: "od_id e \<noteq> od_id d \<Longrightarrow> e \<in> set (rs_deployments s) \<Longrightarrow>
    e \<in> set (rs_deployments (last (fail_revision now message d s)))"
  by (simp add: fail_revision_def Let_def update_one_other)

lemma revise_keeps: "od_id e \<noteq> od_id d \<Longrightarrow> e \<in> set (rs_deployments s) \<Longrightarrow>
    e \<in> set (rs_deployments (last (s # revise kit retrieve message now d s)))"
  using fail_keeps [of e d s now message]
  by (auto simp: revise_def store_revision_def activate_revision_def fail_revision_def Let_def update_one_other split: option.split prod.split)

lemma revise_all_keeps:
  "od_id e \<notin> od_id ` set ds \<Longrightarrow> e \<in> set (rs_deployments s) \<Longrightarrow>
    e \<in> set (rs_deployments (last (s # revise_all kit retrieve message now ds s)))"
proof (induction ds arbitrary: s)
  case (Cons d ds)
  let ?s = "last (s # revise kit retrieve message now d s)"
  have "e \<in> set (rs_deployments ?s)" using Cons.prems by (intro revise_keeps) simp_all
  then have "e \<in> set (rs_deployments (last (?s # revise_all kit retrieve message now ds ?s)))" using Cons by simp
  moreover have "last (s # revise_all kit retrieve message now (d # ds) s) = last (?s # revise_all kit retrieve message now ds ?s)"
    by (auto simp: Let_def)
  ultimately show ?case by metis
qed simp

lemma first_revised:
  assumes "distinct (map od_id (rs_deployments s))" "filter without_revision (rs_deployments s) = d # ds"
    and "e \<in> set (rs_deployments (last (s # revise kit retrieve message now d s)))" "od_id e = od_id d"
  shows "e \<in> set (rs_deployments (fst (outcome (migrateDeploymentsToRevisions kit retrieve message now) s)))"
proof -
  let ?s = "last (s # revise kit retrieve message now d s)"
  have "distinct (map od_id (d # ds))" using assms(1) by (simp add: distinct_map_filter flip: assms(2))
  then have "od_id e \<notin> od_id ` set ds" using assms(4) by simp
  from revise_all_keeps [OF this assms(3)]
  have "e \<in> set (rs_deployments (last (?s # revise_all kit retrieve message now ds ?s)))" .
  moreover have "fst (outcome (migrateDeploymentsToRevisions kit retrieve message now) s) = last (?s # revise_all kit retrieve message now ds ?s)"
    by (auto simp: outcome_def migrateDeploymentsToRevisions_def assms(2) Let_def)
  ultimately show ?thesis by metis
qed

text \<open>
  A migrator that dies between a revision and its deployment breaks the deployment. Undisturbed, the
  migration activates the revision it made of a deployment's definition; when the process dies after storing
  the revision, the next run is refused the same revision by the unique index, and flags the deployment ERROR with
  revision 0 and without its definition's hash, although its revision is there.
\<close>

theorem interrupted_revision_breaks_its_deployment:
  assumes ids: "distinct (map od_id (rs_deployments s))" and first: "filter without_revision (rs_deployments s) = d # ds"
    and made: "retrieve (the (od_hash d)) = Some jd"
      "createNewDeploymentRevision kit 0 (od_id d) (od_vault d) jd (nullish (od_confidential d) False) None now = Some (r, endpoints, keys)"
    and fresh: "\<not> matches (same_revision r) (rs_revisions s)"
    and migration_def: "migration = migrateDeploymentsToRevisions kit retrieve message now"
  shows "(\<exists>e \<in> set (rs_deployments (fst (outcome migration s))).
       od_id e = od_id d \<and> od_active_revision e = Some 1 \<and> od_status e = od_status d) \<and>
    (\<exists>e \<in> set (rs_deployments (fst (outcome migration (after_writes 1 migration s)))).
       od_id e = od_id d \<and> od_active_revision e = Some 0 \<and> od_status e = ERROR \<and> od_hash e = None) \<and>
    r \<in> set (rs_revisions (after_writes 1 migration s))"
proof -
  have d: "d \<in> set (rs_deployments s)" using filter_is_subset [of without_revision "rs_deployments s"] first by simp
  have one: "r_revision r = 1" using made(2) by (auto simp: createNewDeploymentRevision_def Let_def split: prod.splits option.splits if_splits)
  define s1 where "s1 = s\<lparr>rs_revisions := insert_one r (rs_revisions s)\<rparr>"
  have states: "revise kit retrieve message now d s = [s1, activate_revision now d 1 s1]"
    using made fresh by (simp add: revise_def store_revision_def s1_def one)
  have after: "after_writes 1 migration s = s1"
    by (simp add: after_writes_def migration_def migrateDeploymentsToRevisions_def first Let_def states)
  have "matches (same_revision r) (rs_revisions s1)"
    by (simp add: s1_def insert_one_def matches_iff same_revision_def)
  then have again: "revise kit retrieve message now d s1 = fail_revision now message d s1"
    using made by (simp add: revise_def store_revision_def)
  let ?done = "d\<lparr>od_hash := None, od_active_revision := Some 1, od_updated_at := now\<rparr>"
  let ?broken = "d\<lparr>od_status := ERROR, od_active_revision := Some 0, od_updated_at := now, od_hash := None\<rparr>"
  have "?done \<in> set (rs_deployments (last (s # revise kit retrieve message now d s)))"
    using update_one_mem [of od_id "rs_deployments s" d "\<lambda>e. od_id e = od_id d" "\<lambda>e. ?done"] ids d
    by (simp add: states activate_revision_def s1_def)
  from first_revised [OF ids first this] have undisturbed: "?done \<in> set (rs_deployments (fst (outcome migration s)))"
    by (simp add: migration_def)
  have s1: "distinct (map od_id (rs_deployments s1))" "filter without_revision (rs_deployments s1) = d # ds"
    using ids first by (simp_all add: s1_def)
  have "?broken \<in> set (rs_deployments (last (s1 # revise kit retrieve message now d s1)))"
    using update_one_mem [of od_id "rs_deployments s" d "\<lambda>e. od_id e = od_id d"
        "\<lambda>e. e\<lparr>od_status := ERROR, od_active_revision := Some 0, od_updated_at := now, od_hash := None\<rparr>"] ids d
    unfolding again by (simp add: fail_revision_def Let_def s1_def)
  from first_revised [OF s1 this] have broken: "?broken \<in> set (rs_deployments (fst (outcome migration (after_writes 1 migration s))))"
    unfolding after by (simp add: migration_def)
  show ?thesis
    unfolding after using undisturbed broken [unfolded after]
    by (intro conjI bexI [of _ ?done] bexI [of _ ?broken]) (simp_all add: s1_def insert_one_def)
qed

definition example_old_deployment :: old_deployment where
  "example_old_deployment = \<lparr>od_id = ''D'', od_vault = ''V'', od_confidential = None, od_hash = Some ''Qm'', od_active_revision = None,
     od_status = RUNNING, od_updated_at = 0\<rparr>"

theorem interrupted_revision_breaks_its_deployment_witness:
  "\<exists>s s1. \<exists>e \<in> set (rs_deployments s1). rs_revisions s = [] \<and> od_active_revision e = Some 0 \<and>
     s1 = fst (outcome (migrateDeploymentsToRevisions example_route_kit (\<lambda>_. Some example_definition) [] 5)
       (after_writes 1 (migrateDeploymentsToRevisions example_route_kit (\<lambda>_. Some example_definition) [] 5) s))"
proof -
  let ?s = "\<lparr>rs_deployments = [example_old_deployment], rs_revisions = [], rs_events = []\<rparr>"
  obtain r endpoints keys where made: "createNewDeploymentRevision example_route_kit 0 ''D'' ''V'' example_definition False None 5 = Some (r, endpoints, keys)"
    by (simp add: createNewDeploymentRevision_def Let_def extractSsh_def example_route_kit_def example_definition_def
        injectSsh_def split: prod.splits)
  have "filter without_revision (rs_deployments ?s) = [example_old_deployment]"
    by (simp add: without_revision_def example_old_deployment_def)
  from interrupted_revision_breaks_its_deployment [OF _ this _ _ _ refl, of "\<lambda>_. Some example_definition" example_definition example_route_kit 5 r endpoints keys "[]"]
  show ?thesis using made by (auto simp: example_old_deployment_def matches_iff intro!: exI [of _ ?s])
qed

text \<open>
  A definition that cannot be fetched is dropped: the deployment keeps neither its hash nor a revision.
\<close>

theorem unreadable_definition_is_dropped:
  assumes "distinct (map od_id (rs_deployments s))" "filter without_revision (rs_deployments s) = d # ds" "retrieve (the (od_hash d)) = None"
  shows "\<exists>e \<in> set (rs_deployments (fst (outcome (migrateDeploymentsToRevisions kit retrieve message now) s))).
    od_id e = od_id d \<and> od_hash e = None \<and> od_active_revision e = Some 0 \<and> od_status e = ERROR"
proof -
  have d: "d \<in> set (rs_deployments s)" using filter_is_subset [of without_revision "rs_deployments s"] assms(2) by simp
  let ?broken = "d\<lparr>od_status := ERROR, od_active_revision := Some 0, od_updated_at := now, od_hash := None\<rparr>"
  have "?broken \<in> set (rs_deployments (last (s # revise kit retrieve message now d s)))"
    using update_one_mem [of od_id "rs_deployments s" d "\<lambda>e. od_id e = od_id d"
        "\<lambda>e. e\<lparr>od_status := ERROR, od_active_revision := Some 0, od_updated_at := now, od_hash := None\<rparr>"] assms(1,3) d
    by (simp add: revise_def fail_revision_def Let_def)
  from first_revised [OF assms(1,2) this] show ?thesis by (intro bexI [of _ ?broken]) simp_all
qed

section \<open>Fields the other documents were given\<close>

text \<open>Number 4, \<open>migrateDeploymentsToEndpoints.ts\<close> (neither waits for its write) and number 19 on deployments, the update of
  number 16 on tasks, number 7 on vaults, whose further fields are given by their names.\<close>

record bare_deployment =
  bd_id :: string
  bd_confidential :: "bool option"
  bd_endpoints :: "endpoint list option"
  bd_requirements :: "string option option"

record bare_task =
  bt_id :: object_id
  bt_status :: "task_status option"
  bt_attempts :: "int option"

record bare_vault =
  bv_vault :: address
  bv_fields :: "string list"

definition migrateDeploymentsToConfidential :: "bare_deployment list \<Rightarrow> bare_deployment list" where
  "migrateDeploymentsToConfidential = update_many (\<lambda>d. bd_confidential d = None) (\<lambda>d. d\<lparr>bd_confidential := Some False\<rparr>)"

definition migrateDeploymentsToEndpoints :: "bare_deployment list \<Rightarrow> bare_deployment list" where
  "migrateDeploymentsToEndpoints = update_many (\<lambda>d. bd_endpoints d = None) (\<lambda>d. d\<lparr>bd_endpoints := Some []\<rparr>)"

definition backfillDeploymentRequirements :: "bare_deployment list \<Rightarrow> bare_deployment list" where
  "backfillDeploymentRequirements = update_many (\<lambda>d. bd_requirements d = None) (\<lambda>d. d\<lparr>bd_requirements := Some None\<rparr>)"

definition backfillTaskStates :: "bare_task list \<Rightarrow> bare_task list" where
  "backfillTaskStates = update_many (\<lambda>t. bt_status t = None) (\<lambda>t. t\<lparr>bt_status := Some PENDING, bt_attempts := Some 0\<rparr>)"

definition migrateVaultRemoveUnusedFields :: "bare_vault list \<Rightarrow> bare_vault list" where
  "migrateVaultRemoveUnusedFields = update_many (\<lambda>v. list_ex (\<lambda>f. f \<in> set (bv_fields v)) [''nos'', ''sol'', ''nos_ata'', ''updated_at''])
     (\<lambda>v. v\<lparr>bv_fields := filter (\<lambda>f. f \<notin> set [''nos_ata'', ''nos'', ''sol'', ''updated_at'']) (bv_fields v)\<rparr>)"

definition filled :: "bool \<Rightarrow> bool \<Rightarrow> bool \<Rightarrow> bare_deployment \<Rightarrow> bare_deployment" where
  "filled c e r d = d\<lparr>bd_confidential := (if c then Some (nullish (bd_confidential d) False) else bd_confidential d),
     bd_endpoints := (if e then Some (nullish (bd_endpoints d) []) else bd_endpoints d),
     bd_requirements := (if r then Some (nullish (bd_requirements d) None) else bd_requirements d)\<rparr>"

lemma filled_steps:
  "migrateDeploymentsToConfidential (map (filled c e r) ds) = map (filled True e r) ds"
  "migrateDeploymentsToEndpoints (map (filled c e r) ds) = map (filled c True r) ds"
  "backfillDeploymentRequirements (map (filled c e r) ds) = map (filled c e True) ds"
  by (auto simp: migrateDeploymentsToConfidential_def migrateDeploymentsToEndpoints_def backfillDeploymentRequirements_def
      update_many_def filled_def nullish_def split: option.split)

lemma fills_differ:
  "migrateDeploymentsToConfidential \<noteq> migrateDeploymentsToEndpoints" "migrateDeploymentsToEndpoints \<noteq> migrateDeploymentsToConfidential"
  "migrateDeploymentsToConfidential \<noteq> backfillDeploymentRequirements" "backfillDeploymentRequirements \<noteq> migrateDeploymentsToConfidential"
  "migrateDeploymentsToEndpoints \<noteq> backfillDeploymentRequirements" "backfillDeploymentRequirements \<noteq> migrateDeploymentsToEndpoints"
proof -
  let ?d = "\<lparr>bd_id = [], bd_confidential = None, bd_endpoints = None, bd_requirements = None\<rparr>"
  have "distinct [migrateDeploymentsToConfidential [?d], migrateDeploymentsToEndpoints [?d], backfillDeploymentRequirements [?d]]"
    by (simp add: migrateDeploymentsToConfidential_def migrateDeploymentsToEndpoints_def backfillDeploymentRequirements_def update_many_def)
  then have "distinct [migrateDeploymentsToConfidential, migrateDeploymentsToEndpoints, backfillDeploymentRequirements]" by auto
  then show "migrateDeploymentsToConfidential \<noteq> migrateDeploymentsToEndpoints" "migrateDeploymentsToEndpoints \<noteq> migrateDeploymentsToConfidential"
    "migrateDeploymentsToConfidential \<noteq> backfillDeploymentRequirements" "backfillDeploymentRequirements \<noteq> migrateDeploymentsToConfidential"
    "migrateDeploymentsToEndpoints \<noteq> backfillDeploymentRequirements" "backfillDeploymentRequirements \<noteq> migrateDeploymentsToEndpoints" by auto
qed

text \<open>
  Whatever order the three are run in and however often, every deployment ends with all of the three fields, and
  the ones it had are kept.
\<close>

theorem deployments_are_filled:
  assumes "{migrateDeploymentsToConfidential, migrateDeploymentsToEndpoints, backfillDeploymentRequirements} = set ms"
  shows "fold (\<lambda>m. m) ms ds = map (filled True True True) ds"
proof -
  have "\<exists>c e r. fold (\<lambda>m. m) ms ds = map (filled c e r) ds \<and> (migrateDeploymentsToConfidential \<in> set ms \<longrightarrow> c) \<and>
      (migrateDeploymentsToEndpoints \<in> set ms \<longrightarrow> e) \<and> (backfillDeploymentRequirements \<in> set ms \<longrightarrow> r)"
    if "set ms \<subseteq> {migrateDeploymentsToConfidential, migrateDeploymentsToEndpoints, backfillDeploymentRequirements}" for ms
    using that
  proof (induction ms rule: rev_induct)
    case Nil
    have "filled False False False = (\<lambda>d. d)" by (simp add: filled_def fun_eq_iff)
    then have "fold (\<lambda>m. m) [] ds = map (filled False False False) ds" by simp
    then show ?case by (metis empty_iff list.set(1))
  next
    case (snoc m ms)
    then obtain c e r where IH: "fold (\<lambda>m. m) ms ds = map (filled c e r) ds" "migrateDeploymentsToConfidential \<in> set ms \<longrightarrow> c"
        "migrateDeploymentsToEndpoints \<in> set ms \<longrightarrow> e" "backfillDeploymentRequirements \<in> set ms \<longrightarrow> r" by auto
    consider "m = migrateDeploymentsToConfidential" | "m = migrateDeploymentsToEndpoints" | "m = backfillDeploymentRequirements"
      using snoc.prems by auto
    then show ?case
    proof cases
      case 1
      then show ?thesis using IH by (intro exI [of _ True] exI [of _ e] exI [of _ r]) (auto simp: filled_steps fills_differ)
    next
      case 2
      then show ?thesis using IH by (intro exI [of _ c] exI [of _ True] exI [of _ r]) (auto simp: filled_steps fills_differ)
    next
      case 3
      then show ?thesis using IH by (intro exI [of _ c] exI [of _ e] exI [of _ True]) (auto simp: filled_steps fills_differ)
    qed
  qed
  from this [of ms] show ?thesis using assms by auto
qed

end
