(* ===== verification/Schema_Refs.thy ===== *)
theory Schema_Refs
  imports Cursor
begin

text \<open>
  The kit's schemas as they are used (\<open>src/router/schema/components/utils/flattenSchema.ts\<close>,
  \<open>jobDefinition.schema.ts\<close>): references between components are replaced by what they refer to, and the
  alternatives of an operation's arguments and resources are made to exclude each other.
\<close>

section \<open>Flattening\<close>

fun replace_first :: "string \<Rightarrow> string \<Rightarrow> string" where
  "replace_first pat [] = []"
| "replace_first pat (c # cs) = (if starts_with (c # cs) pat then drop (length pat) (c # cs) else c # replace_first pat cs)"

definition isSchemaObject :: "json \<Rightarrow> bool" where
  "isSchemaObject j \<longleftrightarrow> (case j of J_obj ms \<Rightarrow> True | _ \<Rightarrow> False)"

text \<open>The reference an object is: \<open>isRefObject\<close> with the name it has.\<close>

definition ref_name :: "json \<Rightarrow> string option" where
  "ref_name j = (case j of
     J_obj ms \<Rightarrow> (case map_of ms ''$ref'' of Some (J_str r) \<Rightarrow> Some (replace_first ''#/components/schemas/'' r) | _ \<Rightarrow> None)
   | _ \<Rightarrow> None)"

definition load_components :: "(string \<times> json) list \<Rightarrow> (string \<times> json) list" where
  "load_components entries = filter (\<lambda>e. isSchemaObject (snd e)) entries"

lemma in_array: "x \<in> set xs \<Longrightarrow> size x < size (J_arr xs)"
  by (induction xs) auto

lemma in_object: "m \<in> set ms \<Longrightarrow> size (snd m) < size (J_obj ms)"
  by (induction ms) auto

text \<open>\<open>fuel\<close> bounds how many references are followed one inside the other; None is not having returned.\<close>

function resolveRefs :: "nat \<Rightarrow> (string \<times> json) list \<Rightarrow> json \<Rightarrow> json option" where
  "resolveRefs fuel components j =
     (case Option.bind (ref_name j) (map_of components) of
        Some target \<Rightarrow> (case fuel of 0 \<Rightarrow> None | Suc n \<Rightarrow> resolveRefs n components target)
      | None \<Rightarrow> (if ref_name j \<noteq> None then Some j
          else (case j of
              J_arr xs \<Rightarrow> map_option J_arr (those (map (resolveRefs fuel components) xs))
            | J_obj ms \<Rightarrow> map_option J_obj (those (map (\<lambda>m. map_option (Pair (fst m)) (resolveRefs fuel components (snd m))) ms))
            | _ \<Rightarrow> Some j)))"
  by pat_completeness auto
termination
proof (relation "measures [\<lambda>(fuel, components, j). fuel, \<lambda>(fuel, components, j). size j]")
  show "wf (measures [\<lambda>(fuel, components, j :: json). fuel, \<lambda>(fuel :: nat, components :: (string \<times> json) list, j). size j])" by simp
qed (use in_array in_object in auto)

declare resolveRefs.simps [simp del]

definition flattenSchema :: "nat \<Rightarrow> json \<Rightarrow> (string \<times> json) list \<Rightarrow> json option" where
  "flattenSchema fuel schema allComponents = resolveRefs fuel (load_components allComponents) schema"

text \<open>The references of a schema, those inside what it refers to left out.\<close>

function refs :: "json \<Rightarrow> string list" where
  "refs j = (case ref_name j of
     Some r \<Rightarrow> [r]
   | None \<Rightarrow> (case j of J_arr xs \<Rightarrow> concat (map refs xs) | J_obj ms \<Rightarrow> concat (map (\<lambda>m. refs (snd m)) ms) | _ \<Rightarrow> []))"
  by pat_completeness auto
termination
  by (relation "measure size") (use in_array in_object in auto)

declare refs.simps [simp del]

text \<open>From a component every chain of references ends.\<close>

inductive ends :: "(string \<times> json) list \<Rightarrow> string \<Rightarrow> bool" for C where
  "map_of C a = Some c \<Longrightarrow> \<forall>b \<in> set (refs c). map_of C b \<noteq> None \<longrightarrow> ends C b \<Longrightarrow> ends C a"

text \<open>The four cases of a value, and what each comes to.\<close>

lemma json_cases [case_names ref free arr obj other]:
  obtains target r where "ref_name j = Some r" "map_of C r = Some target"
  | r where "ref_name j = Some r" "map_of C r = None"
  | xs where "ref_name j = None" "j = J_arr xs"
  | ms where "ref_name j = None" "j = J_obj ms"
  | "ref_name j = None" "\<not> isSchemaObject j" "\<And>xs. j \<noteq> J_arr xs"
  by (cases "ref_name j"; cases j) (auto simp: isSchemaObject_def split: option.splits)

lemma resolve_cases:
  "ref_name j = Some r \<Longrightarrow> map_of C r = Some target \<Longrightarrow> resolveRefs 0 C j = None"
  "ref_name j = Some r \<Longrightarrow> map_of C r = Some target \<Longrightarrow> resolveRefs (Suc n) C j = resolveRefs n C target"
  "ref_name j = Some r \<Longrightarrow> map_of C r = None \<Longrightarrow> resolveRefs n C j = Some j"
  "resolveRefs n C (J_arr xs) = map_option J_arr (those (map (resolveRefs n C) xs))"
  "ref_name (J_obj ms) = None \<Longrightarrow> resolveRefs n C (J_obj ms) =
     map_option J_obj (those (map (\<lambda>m. map_option (Pair (fst m)) (resolveRefs n C (snd m))) ms))"
  "\<not> isSchemaObject j \<Longrightarrow> (\<And>xs. j \<noteq> J_arr xs) \<Longrightarrow> resolveRefs n C j = Some j"
proof -
  show "\<not> isSchemaObject j \<Longrightarrow> (\<And>xs. j \<noteq> J_arr xs) \<Longrightarrow> resolveRefs n C j = Some j"
    by (subst resolveRefs.simps) (auto simp: ref_name_def isSchemaObject_def split: json.splits)
qed (subst resolveRefs.simps, simp add: ref_name_def)+

lemma refs_cases:
  "ref_name j = Some r \<Longrightarrow> refs j = [r]" "refs (J_arr xs) = concat (map refs xs)"
  "ref_name (J_obj ms) = None \<Longrightarrow> refs (J_obj ms) = concat (map (\<lambda>m. refs (snd m)) ms)"
  "\<not> isSchemaObject j \<Longrightarrow> (\<And>xs. j \<noteq> J_arr xs) \<Longrightarrow> refs j = []"
proof -
  show "\<not> isSchemaObject j \<Longrightarrow> (\<And>xs. j \<noteq> J_arr xs) \<Longrightarrow> refs j = []"
    by (subst refs.simps) (auto simp: ref_name_def isSchemaObject_def split: json.splits)
qed (subst refs.simps, simp add: ref_name_def)+

lemma all2_mem:
  "list_all2 P xs ys \<Longrightarrow> x \<in> set xs \<Longrightarrow> \<exists>y \<in> set ys. P x y"
  "list_all2 P xs ys \<Longrightarrow> y \<in> set ys \<Longrightarrow> \<exists>x \<in> set xs. P x y"
  by (induction rule: list_all2_induct) auto

lemma those_map_iff: "those (map f xs) = Some ys \<longleftrightarrow> list_all2 (\<lambda>x y. f x = Some y) xs ys"
  by (induction xs arbitrary: ys) (auto simp: list_all2_Cons1 split: option.splits)

lemma those_none: "those (map f xs) = None \<longleftrightarrow> (\<exists>x \<in> set xs. f x = None)"
  by (induction xs) (auto split: option.split)

lemma resolve_more: "resolveRefs n C j = Some j' \<Longrightarrow> n \<le> m \<Longrightarrow> resolveRefs m C j = Some j'"
proof (induction n C j arbitrary: j' m rule: resolveRefs.induct)
  case (1 n C j)
  show ?case
  proof (cases j C rule: json_cases)
    case (ref target r)
    then obtain n' where n: "n = Suc n'" using 1(4) by (cases n) (simp_all add: resolve_cases)
    then obtain m' where m: "m = Suc m'" "n' \<le> m'" using 1(5) by (cases m) simp_all
    have "resolveRefs m' C target = Some j'"
      using 1(3) [of target n' j' m'] ref n m 1(4) by (simp add: resolve_cases)
    with ref m show ?thesis by (simp add: resolve_cases)
  next
    case (arr xs)
    then obtain ys where ys: "j' = J_arr ys" "list_all2 (\<lambda>x y. resolveRefs n C x = Some y) xs ys"
      using 1(4) by (auto simp: resolve_cases those_map_iff)
    have each: "resolveRefs m C x = Some y" if "x \<in> set xs" "resolveRefs n C x = Some y" for x y
      using 1(1) [OF _ _ arr(2) that 1(5)] arr(1) by simp
    have "list_all2 (\<lambda>x y. resolveRefs m C x = Some y) xs ys"
      using ys(2) by (rule list.rel_mono_strong) (simp add: each)
    with arr ys show ?thesis by (simp add: resolve_cases those_map_iff)
  next
    case (obj ms)
    then obtain ys where ys: "j' = J_obj ys" "list_all2 (\<lambda>x y. map_option (Pair (fst x)) (resolveRefs n C (snd x)) = Some y) ms ys"
      using 1(4) by (auto simp: resolve_cases those_map_iff)
    have each: "resolveRefs m C (snd x) = Some y" if "x \<in> set ms" "resolveRefs n C (snd x) = Some y" for x y
      using 1(2) [OF _ _ obj(2) that 1(5)] obj(1) by simp
    have "list_all2 (\<lambda>x y. map_option (Pair (fst x)) (resolveRefs m C (snd x)) = Some y) ms ys"
      using ys(2) by (rule list.rel_mono_strong) (use each in fastforce)
    with obj ys show ?thesis by (simp add: resolve_cases those_map_iff)
  qed (use 1(4) in \<open>simp_all add: resolve_cases\<close>)
qed

text \<open>What a value is is kept, and an object does not become a reference.\<close>

lemma resolve_shape:
  assumes "list_all (\<lambda>e. isSchemaObject (snd e)) C"
  shows "resolveRefs n C j = Some j' \<Longrightarrow>
    (isSchemaObject j' \<longleftrightarrow> isSchemaObject j) \<and> (\<not> isSchemaObject j \<longrightarrow> (\<exists>xs ys. j = J_arr xs \<and> j' = J_arr ys) \<or> j' = j)"
  using assms
proof (induction n C j arbitrary: j' rule: resolveRefs.induct)
  case (1 n C j)
  show ?case
  proof (cases j C rule: json_cases)
    case (ref target r)
    then have j: "isSchemaObject j" by (auto simp: ref_name_def isSchemaObject_def split: json.splits)
    have t: "isSchemaObject target" using ref(2) 1(5) by (auto simp: list_all_iff dest!: map_of_SomeD)
    obtain n' where n: "n = Suc n'" using ref 1(4) by (cases n) (simp_all add: resolve_cases)
    have "isSchemaObject j' \<longleftrightarrow> isSchemaObject target"
      using ref n 1(4,5) 1(3) [of target n' j'] by (simp add: resolve_cases)
    with j t show ?thesis by simp
  qed (use 1(4) in \<open>auto simp: resolve_cases isSchemaObject_def\<close>)
qed

lemma resolve_no_ref:
  assumes C: "list_all (\<lambda>e. isSchemaObject (snd e)) C" and j: "ref_name (J_obj ms) = None"
    and each: "list_all2 (\<lambda>x y. map_option (Pair (fst x)) (resolveRefs n C (snd x)) = Some y) ms ys"
  shows "ref_name (J_obj ys) = None"
proof -
  have "(case map_of ms k of None \<Rightarrow> map_of ys k = None | Some v \<Rightarrow> \<exists>w. map_of ys k = Some w \<and> resolveRefs n C v = Some w)" for k
    using each by (induction rule: list_all2_induct) (auto split: option.splits)
  from this [of "''$ref''"] show ?thesis
    using j resolve_shape [OF C] by (auto simp: ref_name_def isSchemaObject_def split: option.splits json.splits) fastforce+
qed

lemma resolve_closes:
  assumes "list_all (\<lambda>e. isSchemaObject (snd e)) C"
  shows "resolveRefs n C j = Some j' \<Longrightarrow> b \<in> set (refs j') \<Longrightarrow> map_of C b = None"
  using assms
proof (induction n C j arbitrary: j' rule: resolveRefs.induct)
  case (1 n C j)
  show ?case
  proof (cases j C rule: json_cases)
    case (ref target r)
    then obtain n' where n: "n = Suc n'" using 1(4) by (cases n) (simp_all add: resolve_cases)
    with 1(3) [of target n' j'] ref 1(4-6) show ?thesis by (simp add: resolve_cases)
  next
    case (free r)
    then show ?thesis using 1(4,5) by (simp add: resolve_cases refs_cases)
  next
    case (arr xs)
    then obtain ys where ys: "j' = J_arr ys" "list_all2 (\<lambda>x y. resolveRefs n C x = Some y) xs ys"
      using 1(4) by (auto simp: resolve_cases those_map_iff)
    obtain y where y: "y \<in> set ys" "b \<in> set (refs y)" using 1(5) by (auto simp: ys(1) refs_cases)
    obtain x where "x \<in> set xs" "resolveRefs n C x = Some y" using all2_mem(2) [OF ys(2) y(1)] by auto
    then show ?thesis using 1(1) [OF _ _ arr(2) _ _ y(2) 1(6)] arr(1) by simp
  next
    case (obj ms)
    then obtain ys where ys: "j' = J_obj ys" "list_all2 (\<lambda>x y. map_option (Pair (fst x)) (resolveRefs n C (snd x)) = Some y) ms ys"
      using 1(4) by (auto simp: resolve_cases those_map_iff)
    have "ref_name (J_obj ys) = None" using resolve_no_ref [OF 1(6) _ ys(2)] obj by simp
    then obtain y where y: "y \<in> set ys" "b \<in> set (refs (snd y))" using 1(5) by (auto simp: ys(1) refs_cases)
    obtain x where "x \<in> set ms" "resolveRefs n C (snd x) = Some (snd y)" using all2_mem(2) [OF ys(2) y(1)] by auto
    then show ?thesis using 1(2) [OF _ _ obj(2) _ _ y(2) 1(6)] obj(1) by simp
  next
    case other
    then show ?thesis using 1(4,5) by (simp add: resolve_cases refs_cases)
  qed
qed

lemma closed_stays: "\<forall>b \<in> set (refs j). map_of C b = None \<Longrightarrow> resolveRefs n C j = Some j"
proof (induction j rule: measure_induct_rule [of size])
  case (less j)
  show ?case
  proof (cases j C rule: json_cases)
    case (ref target r)
    then show ?thesis using less.prems by (simp add: refs_cases)
  next
    case (arr xs)
    have "resolveRefs n C x = Some x" if "x \<in> set xs" for x
      using that less in_array [OF that] by (auto simp: arr refs_cases)
    then have "those (map (resolveRefs n C) xs) = Some xs" by (simp add: those_map_iff list_all2_same)
    then show ?thesis by (simp add: arr resolve_cases)
  next
    case (obj ms)
    have "resolveRefs n C (snd x) = Some (snd x)" if "x \<in> set ms" for x
      using that less in_object [OF that] obj(1) by (auto simp: obj(2) refs_cases)
    then have "those (map (\<lambda>m. map_option (Pair (fst m)) (resolveRefs n C (snd m))) ms) = Some ms"
      unfolding those_map_iff list_all2_same by simp
    then show ?thesis using obj by (simp add: resolve_cases)
  qed (simp_all add: resolve_cases)
qed

lemma resolved_ends:
  "resolveRefs n C j = Some j' \<Longrightarrow> b \<in> set (refs j) \<Longrightarrow> map_of C b \<noteq> None \<Longrightarrow> ends C b"
proof (induction n C j arbitrary: j' b rule: resolveRefs.induct)
  case (1 n C j)
  show ?case
  proof (cases j C rule: json_cases)
    case (ref target r)
    then obtain n' where n: "n = Suc n'" using 1(4) by (cases n) (simp_all add: resolve_cases)
    have "resolveRefs n' C target = Some j'" using ref n 1(4) by (simp add: resolve_cases)
    then have "\<forall>b \<in> set (refs target). map_of C b \<noteq> None \<longrightarrow> ends C b" using 1(3) [of target n' j'] ref n by simp
    then have "ends C r" using ref(2) by (rule ends.intros [rotated])
    then show ?thesis using 1(5) ref(1) by (simp add: refs_cases)
  next
    case (arr xs)
    obtain x where x: "x \<in> set xs" "b \<in> set (refs x)" using 1(5) by (auto simp: arr refs_cases)
    obtain y where "resolveRefs n C x = Some y"
      using 1(4) x(1) by (auto simp: arr resolve_cases those_map_iff dest: all2_mem(1))
    then show ?thesis using 1(1) [OF _ _ arr(2) x(1) _ x(2) 1(6)] arr(1) by simp
  next
    case (obj ms)
    obtain x where x: "x \<in> set ms" "b \<in> set (refs (snd x))" using 1(5) obj by (auto simp: refs_cases)
    obtain ys where "list_all2 (\<lambda>x y. map_option (Pair (fst x)) (resolveRefs n C (snd x)) = Some y) ms ys"
      using 1(4) obj by (auto simp: resolve_cases those_map_iff)
    from all2_mem(1) [OF this x(1)] obtain y where "resolveRefs n C (snd x) = Some y" by auto
    then show ?thesis using 1(2) [OF _ _ obj(2) x(1) _ x(2) 1(6)] obj(1) by simp
  qed (use 1(5,6) in \<open>simp_all add: refs_cases\<close>)
qed

lemma resolve_step:
  "\<forall>b \<in> set (refs j). \<forall>c. map_of C b = Some c \<longrightarrow> resolveRefs n C c \<noteq> None \<Longrightarrow> resolveRefs (Suc n) C j \<noteq> None"
proof (induction j rule: measure_induct_rule [of size])
  case (less j)
  show ?case
  proof (cases j C rule: json_cases)
    case (arr xs)
    have "resolveRefs (Suc n) C x \<noteq> None" if "x \<in> set xs" for x
      using that less in_array [OF that] by (auto simp: arr refs_cases)
    then have "those (map (resolveRefs (Suc n) C) xs) \<noteq> None" by (auto simp: those_none)
    then show ?thesis by (simp add: arr resolve_cases)
  next
    case (obj ms)
    have "resolveRefs (Suc n) C (snd x) \<noteq> None" if "x \<in> set ms" for x
      using that less in_object [OF that] obj(1) by (auto simp: obj(2) refs_cases)
    then have "those (map (\<lambda>m. map_option (Pair (fst m)) (resolveRefs (Suc n) C (snd m))) ms) \<noteq> None" by (auto simp: those_none)
    then show ?thesis using obj by (simp add: resolve_cases)
  qed (use less.prems in \<open>simp_all add: resolve_cases refs_cases\<close>)
qed

lemma common_fuel:
  assumes "\<forall>b \<in> set bs. \<forall>c. map_of C b = Some c \<longrightarrow> (\<exists>n. resolveRefs n C c \<noteq> None)"
  shows "\<exists>n. \<forall>b \<in> set bs. \<forall>c. map_of C b = Some c \<longrightarrow> resolveRefs n C c \<noteq> None"
  using assms
proof (induction bs)
  case (Cons b bs)
  then obtain n where n: "\<forall>b \<in> set bs. \<forall>c. map_of C b = Some c \<longrightarrow> resolveRefs n C c \<noteq> None" by auto
  obtain m where m: "\<forall>c. map_of C b = Some c \<longrightarrow> resolveRefs m C c \<noteq> None"
    using Cons.prems by (cases "map_of C b") auto
  have "resolveRefs (max n m) C c \<noteq> None" if "resolveRefs n C c \<noteq> None \<or> resolveRefs m C c \<noteq> None" for c
    using that resolve_more [of n C c _ "max n m"] resolve_more [of m C c _ "max n m"] by auto
  then show ?case using n m by (intro exI [of _ "max n m"]) auto
qed simp

lemma ends_resolves: "ends C a \<Longrightarrow> map_of C a = Some c \<Longrightarrow> \<exists>n. resolveRefs n C c \<noteq> None"
proof (induction arbitrary: c rule: ends.induct)
  case (1 a c')
  then have "\<forall>b \<in> set (refs c). \<forall>d. map_of C b = Some d \<longrightarrow> (\<exists>n. resolveRefs n C d \<noteq> None)" by auto
  from common_fuel [OF this] obtain n where "\<forall>b \<in> set (refs c). \<forall>d. map_of C b = Some d \<longrightarrow> resolveRefs n C d \<noteq> None" ..
  from resolve_step [OF this] show ?case by blast
qed

lemma flattening_ends:
  "(\<exists>n. flattenSchema n schema components \<noteq> None) \<longleftrightarrow>
     (\<forall>a \<in> set (refs schema). map_of (load_components components) a \<noteq> None \<longrightarrow> ends (load_components components) a)"
proof
  let ?C = "load_components components"
  assume "\<forall>a \<in> set (refs schema). map_of ?C a \<noteq> None \<longrightarrow> ends ?C a"
  then have "\<forall>b \<in> set (refs schema). \<forall>c. map_of ?C b = Some c \<longrightarrow> (\<exists>n. resolveRefs n ?C c \<noteq> None)"
    using ends_resolves by auto
  from common_fuel [OF this] obtain n where "\<forall>b \<in> set (refs schema). \<forall>c. map_of ?C b = Some c \<longrightarrow> resolveRefs n ?C c \<noteq> None" ..
  from resolve_step [OF this] show "\<exists>n. flattenSchema n schema components \<noteq> None" unfolding flattenSchema_def by blast
qed (use resolved_ends in \<open>fastforce simp: flattenSchema_def\<close>)

text \<open>
  C27: flattening ends exactly when no cycle of references can be reached, and then it is complete. There is a number of
  nested references enough for a schema if and only if from each component it refers to every chain ends;
  any larger number gives the same result, which refers to no component any more and flattens to itself.
\<close>

theorem flattening_ends_and_closes:
  "((\<exists>n. flattenSchema n schema components \<noteq> None) \<longleftrightarrow>
      (\<forall>a \<in> set (refs schema). map_of (load_components components) a \<noteq> None \<longrightarrow> ends (load_components components) a)) \<and>
   (flattenSchema n schema components = Some flat \<longrightarrow>
      (\<forall>m \<ge> n. flattenSchema m schema components = Some flat) \<and>
      (\<forall>b \<in> set (refs flat). map_of (load_components components) b = None) \<and>
      (\<forall>m. flattenSchema m flat components = Some flat))"
proof -
  let ?C = "load_components components"
  have C: "list_all (\<lambda>e. isSchemaObject (snd e)) ?C" by (simp add: load_components_def list_all_iff)
  show ?thesis
    using flattening_ends [of schema components] resolve_more [of n ?C schema flat] resolve_closes [OF C, of n schema flat]
      closed_stays [of flat ?C]
    unfolding flattenSchema_def by blast
qed

theorem flattening_ends_and_closes_witness:
  "flattenSchema 7 (J_obj [(''$ref'', J_str ''#/components/schemas/A'')])
     [(''A'', J_obj [(''items'', J_obj [(''$ref'', J_str ''#/components/schemas/B'')])]), (''B'', J_obj [(''type'', J_str ''string'')])] =
   Some (J_obj [(''items'', J_obj [(''type'', J_str ''string'')])])"
proof -
  have "flattenSchema 2 (J_obj [(''$ref'', J_str ''#/components/schemas/A'')])
      [(''A'', J_obj [(''items'', J_obj [(''$ref'', J_str ''#/components/schemas/B'')])]), (''B'', J_obj [(''type'', J_str ''string'')])] =
    Some (J_obj [(''items'', J_obj [(''type'', J_str ''string'')])])"
    by (simp add: flattenSchema_def load_components_def isSchemaObject_def resolveRefs.simps ref_name_def eval_nat_numeral)
  from flattening_ends_and_closes [THEN conjunct2, THEN mp, OF this, THEN conjunct1] show ?thesis by simp
qed

text \<open>A component that refers to itself: no number is enough, and the schemas are flattened while they are loaded.\<close>

theorem cycle_is_never_flattened:
  "flattenSchema n (J_obj [(''$ref'', J_str ''#/components/schemas/A'')]) [(''A'', J_obj [(''items'', J_obj [(''$ref'', J_str ''#/components/schemas/A'')])])] = None"
proof -
  let ?a = "J_obj [(''items'', J_obj [(''$ref'', J_str ''#/components/schemas/A'')])]"
  let ?C = "[(''A'', ?a)]"
  have "\<not> ends ?C ''A''"
  proof
    assume "ends ?C ''A''"
    then show False by (induction "''A''" rule: ends.induct) (auto simp: refs.simps ref_name_def)
  qed
  then have "\<not> (\<exists>n. flattenSchema n (J_obj [(''$ref'', J_str ''#/components/schemas/A'')]) ?C \<noteq> None)"
    unfolding flattening_ends [of "J_obj [(''$ref'', J_str ''#/components/schemas/A'')]" ?C]
    by (simp add: refs.simps ref_name_def load_components_def isSchemaObject_def)
  then show ?thesis by blast
qed

section \<open>Alternatives that exclude each other (\<open>jobDefinition.schema.ts\<close>)\<close>

text \<open>The keywords the patches use: \<open>K_object ks\<close> is \<open>{ type: 'object', required: ks }\<close>, \<open>K_required\<close> the second alone,
  which says nothing of what is no object; \<open>K_kit\<close> is what the kit's schema admits.\<close>

datatype constraint = K_kit "json \<Rightarrow> bool" | K_object "string list" | K_required "string list" | K_not constraint
  | K_anyOf "constraint list" | K_allOf "constraint list"

definition has_key :: "json \<Rightarrow> string \<Rightarrow> bool" where
  "has_key j k \<longleftrightarrow> (case j of J_obj ms \<Rightarrow> k \<in> fst ` set ms | _ \<Rightarrow> False)"

primrec meets :: "json \<Rightarrow> constraint \<Rightarrow> bool" where
  "meets j (K_kit p) \<longleftrightarrow> p j"
| "meets j (K_object required) \<longleftrightarrow> isSchemaObject j \<and> list_all (has_key j) required"
| "meets j (K_required required) \<longleftrightarrow> isSchemaObject j \<longrightarrow> list_all (has_key j) required"
| "meets j (K_not c) \<longleftrightarrow> \<not> meets j c"
| "meets j (K_anyOf cs) \<longleftrightarrow> list_ex id (map (meets j) cs)"
| "meets j (K_allOf cs) \<longleftrightarrow> list_all id (map (meets j) cs)"

definition wrap :: "constraint \<Rightarrow> constraint \<Rightarrow> constraint" where
  "wrap orig extra = K_allOf [orig, extra]"

text \<open>What the three kinds of S3 resources are wrapped with: none of the buckets, one, several.\<close>

definition s3_extras :: "constraint list" where
  "s3_extras = [K_allOf [K_object [], K_not (K_anyOf [K_object [''bucket''], K_object [''buckets'']])],
     K_allOf [K_object [''bucket''], K_not (K_anyOf [K_object [''buckets''], K_object [''files'']])],
     K_allOf [K_object [''buckets''], K_not (K_anyOf [K_object [''bucket''], K_object [''files'']])]]"

definition patch_resources :: "constraint list \<Rightarrow> constraint list" where
  "patch_resources oneOf = map2 wrap oneOf s3_extras @ drop 3 oneOf"

text \<open>The arguments of \<open>container/run\<close> forbid a name; those of \<open>container/create-volume\<close> require one and forbid an image.
  \<open>run\<close> and \<open>volume\<close> are the two kinds without the keywords that are assigned.\<close>

definition patch_args :: "constraint \<Rightarrow> constraint \<Rightarrow> constraint list" where
  "patch_args run volume = [K_allOf [run, K_not (K_object [''name''])],
     K_allOf [volume, K_required [''name''], K_not (K_object [''image''])]]"

definition oneOf :: "constraint list \<Rightarrow> json \<Rightarrow> bool" where
  "oneOf cs j \<longleftrightarrow> length (filter (meets j) cs) = 1"

text \<open>
  No resource is refused for fitting two kinds. Of the three patched S3 kinds any value fits at most one, and so
  it is with the two kinds of arguments, one of which the kit admits only for objects: wherever the original kinds
  overlap, \<open>oneOf\<close> admits a value if and only if some patched kind does.
\<close>

theorem kinds_exclude_each_other:
  assumes "length kinds = 3" and "meets j run \<Longrightarrow> isSchemaObject j"
  shows "(oneOf (patch_resources kinds) j \<longleftrightarrow> list_ex (meets j) (patch_resources kinds)) \<and>
    (oneOf (patch_args run volume) j \<longleftrightarrow> list_ex (meets j) (patch_args run volume))"
proof -
  obtain a b c where kinds: "kinds = [a, b, c]" using assms(1) by (auto simp: length_Suc_conv eval_nat_numeral)
  have "oneOf (patch_resources kinds) j \<longleftrightarrow> list_ex (meets j) (patch_resources kinds)"
    by (simp add: kinds oneOf_def patch_resources_def s3_extras_def wrap_def)
  moreover have "oneOf (patch_args run volume) j \<longleftrightarrow> list_ex (meets j) (patch_args run volume)"
    using assms(2) by (auto simp: oneOf_def patch_args_def)
  ultimately show ?thesis ..
qed

theorem kinds_exclude_each_other_witness:
  "oneOf (patch_resources (replicate 3 (K_kit isSchemaObject))) (J_obj [(''bucket'', J_str ''b'')])"
  using kinds_exclude_each_other [of "replicate 3 (K_kit isSchemaObject)" _ "K_kit isSchemaObject"]
  by (simp add: patch_resources_def s3_extras_def wrap_def has_key_def isSchemaObject_def eval_nat_numeral)

end
