(* ===== verification/Cycle_Overlap.thy ===== *)
theory Cycle_Overlap
  imports Queue_Machine
begin

text \<open>
  Fetch cycles that overlap (\<open>src/tasks/queue/consumer/index.ts\<close>). The interval starts a cycle every second whether
  or not the last one has ended: a cycle reads how many tasks are in flight when it starts, and dispatches what
  it claimed when it has vetted and locked it. What the deployments' locks keep apart all the same, and
  what they do not.
\<close>

section \<open>Cycles that started together\<close>

definition FETCH_INTERVAL_MS :: ms where "FETCH_INTERVAL_MS = 1000"

text \<open>Cycles of one consumer, each with its clock and the reads of \<open>stopped\<close>, that all found the tasks in flight as \<open>u\<close>
  has them; their writes come one cycle after the other.\<close>

fun overlapped ::
    "worker_config \<Rightarrow> consumer \<Rightarrow> ((nat \<Rightarrow> ms) \<times> (nat \<Rightarrow> bool)) list \<Rightarrow> db \<Rightarrow> outstanding_task list \<times> db" where
  "overlapped cfg u [] s = ([], s)"
| "overlapped cfg u ((clock, stopped) # cycles) s =
     (let (ds, s1) = fetchNewTasksCycle cfg clock stopped u s; (rest, s2) = overlapped cfg u cycles s1 in (ds @ rest, s2))"

text \<open>One cycle beside locks that are held already.\<close>

lemma cycle_beside:
  assumes "fetchNewTasksCycle cfg clock stopped u s = (ds, s')" "holds_locks (u_id u) until D s"
    and "\<And>i. clock i \<le> until" "\<And>i. until \<le> clock i + task_lease_ms cfg"
  shows "distinct (map (\<lambda>k. t_deploymentId (k_task k)) ds) \<and> (\<forall>k \<in> set ds. t_deploymentId (k_task k) \<notin> D) \<and>
    holds_locks (u_id u) until (D \<union> (\<lambda>k. t_deploymentId (k_task k)) ` set ds) s'"
proof -
  let ?cap = "tasks_batch_size cfg - length (u_inflight u)"
  obtain claimed s1 where c: "claimTasks (u_id u) (task_lease_ms cfg) (map clock [0..<?cap]) s = (claimed, s1)"
    by (rule prod.exhaust)
  obtain survivors s2 where v: "vet_claimed cfg u claimed s1 = (survivors, s2)" by (rule prod.exhaust)
  let ?en = "enrichClaimedTasks (map t_id survivors) s2"
  let ?s3 = "drop_orphans (u_id u) (map (\<lambda>k. t_id (k_task k)) ?en) survivors s2"
  have s1: "db_locks s1 = db_locks s" using claimTasks_locks [of "u_id u" "task_lease_ms cfg" "map clock [0..<?cap]" s] c by simp
  consider "ds = []" "s' = s \<or> s' = s1" | "admit_tasks cfg (u_id u) clock stopped ?cap ?en ?s3 = (ds, s')"
    using assms(1) c v by (auto simp: fetchNewTasksCycle_def Let_def split: if_splits)
  then show ?thesis
  proof cases
    case 1
    then show ?thesis using assms(2) s1 by (auto simp: holds_locks_def)
  next
    case 2
    have "db_locks ?s3 = db_locks s" using vet_claimed_locks [of cfg u claimed s1] v s1 by simp
    then have "holds_locks (u_id u) until D ?s3" using assms(2) by (simp add: holds_locks_def)
    from admit_tasks_guards [OF 2 this assms(3,4)] show ?thesis by blast
  qed
qed


section \<open>More than a batch\<close>

text \<open>Two due STOPs of two deployments.\<close>

definition two_stops_db :: db where
  "two_stops_db = empty_db\<lparr>db_deployments := [blank_deployment ''d'' ''o'' STOPPING, blank_deployment ''e'' ''o'' STOPPING],
     db_vaults := [\<lparr>w_vault = ''V'', w_vault_key = ''k'', w_owner = ''o'', w_created_at = 0\<rparr>],
     db_tasks := [blank_task 7 STOP ''d'', blank_task 8 STOP ''e''], db_next_oid := 9\<rparr>"

text \<open>
  A batch size of one does not keep a consumer to one task. Two cycles that overlap each find nothing in
  flight, and both dispatch.
\<close>

theorem overlapping_cycles_exceed_the_batch:
  "map (\<lambda>k. t_id (k_task k)) (fst (overlapped one_task_config idle_consumer [(\<lambda>_. 5, \<lambda>_. False), (\<lambda>_. 6, \<lambda>_. False)] two_stops_db)) = [7, 8]"
proof -
  have t: "lease_to ''c'' 120005 (blank_task 7 STOP ''d'') = (blank_task 7 STOP ''d'')\<lparr>t_status := Some PROCESSING,
      t_claimed_by := Some ''c'', t_lease_expires_at := Some 120005\<rparr>"
    "lease_to ''c'' 120006 (blank_task 8 STOP ''e'') = (blank_task 8 STOP ''e'')\<lparr>t_status := Some PROCESSING,
      t_claimed_by := Some ''c'', t_lease_expires_at := Some 120006\<rparr>" by (simp_all add: lease_to_def)
  show ?thesis
    by (simp add: fetchNewTasksCycle_def idle_consumer_def one_task_config_def default_worker_config_def two_stops_db_def
        empty_db_def claimTask_def claimable_def over_cap_def inflight_exhausted_def inflight_ids_def
        enrichClaimedTasks_def enrich_one_def find_last_def map_filter_simps drop_orphans_def admit_task_def
        acquireDeploymentLock_def matches_def incrementAttempt_def isListInFlight_def checkTaskWanted_def isTaskWanted_def
        insert_one_def t Let_def)
qed


end
