(* ===== verification/Spec2Isabelle.thy ===== *)
theory Spec2Isabelle
  imports Queue_Machine Stream_Frames Listener_Life Schema_Safety Tunnel_Feed Data_Migrations
    Worker_Stats Host_Manager Process Metric_Labels Config_Env
    Indexes Job_Migrations Schema_Refs Cycle_Overlap
begin

text \<open>
  A verification development for the Nosana deployment manager, the service that keeps deployments
  running on a marketplace of GPU nodes: it stores deployments and their jobs in a document
  database, turns their changes into tasks (LIST new jobs, STOP jobs, EXTEND a job), and has a
  worker carry the tasks out as Solana transactions or calls of the Credit Manager's API.

  How the program's parts interact. Routes and listeners call \<open>scheduleTask\<close>; the consumer
  of the task queue claims due tasks under a lease, takes the deployment's advisory lock, drops
  what is no longer wanted and runs the rest; a run reconciles the transactions recorded on its
  task with the chain, spawns a worker for what is missing and records every unit before it is
  sent; the run's end settles the task (deleted, rescheduled, parked). Account listeners and the
  change stream feed what happened on the chain back into the collections.

  Theories, in the order of the code (paths under \<open>src/src\<close>):

  \<^item> \<open>Prelude\<close>: the driver's update, find, delete and upsert on a collection as a list, decimal
    numbers, truthiness, and the lemmas every component shares.
  \<^item> \<open>Data_Model\<close> (\<open>types/\<close>, \<open>config/\<close>): the documents, worker messages and settings.
  \<^item> \<open>Repositories\<close> (\<open>repositories/index.ts\<close>): the database and the tasks repository.
  \<^item> \<open>Wanted\<close>, \<open>Schedule\<close>, \<open>Deployment_Lock\<close>, \<open>Transitions\<close>, \<open>Claim\<close>, \<open>Consumer\<close>,
    \<open>Queue_Machine\<close>, \<open>Cycle_Overlap\<close> (\<open>tasks/queue\<close>, \<open>tasks/scheduleTask.ts\<close>): the task queue, from an
    intent to the machine in which consumers, crashes and other writers interleave; fetch cycles of one
    consumer that overlap, which the machine takes one after the other.
  \<^item> \<open>Retry\<close>, \<open>Idempotency\<close>, \<open>Tracker\<close>, \<open>Transactions\<close>, \<open>Orchestrate\<close> (\<open>tasks/execution\<close>,
    \<open>tasks/idempotency\<close>, \<open>tasks/task/retry\<close>): what every run uses to send and to account.
  \<^item> \<open>Reserve\<close>, \<open>Task_Run\<close>, \<open>List_Task\<close>, \<open>Stop_Task\<close>, \<open>Extend_Task\<close> (\<open>tasks/task\<close>): the three
    kinds of run with their workers.
  \<^item> \<open>Safety\<close>: the contracts the operations share, as locales: operations on the store, runs,
    leases on a lock; each is interpreted on the model where its operations are defined.
  \<^item> \<open>Job_Listeners\<close>, \<open>Change_Stream\<close>, \<open>Listener_Life\<close>, \<open>Endpoints\<close> (\<open>listeners/accounts\<close>,
    \<open>client/listener\<close>, \<open>endpoints\<close>): what the chain, the database and the tunnels report, and the
    life of a change-stream listener: its start, its checkpoints, its failures and its stop.
  \<^item> \<open>Startup\<close>, \<open>Strategies\<close>, \<open>Listeners\<close> (\<open>strategies\<close>, \<open>listeners/deployments\<close>, \<open>listeners/jobs\<close>):
    the startup deadline with its race against the tunnels, the callbacks of every strategy, and
    which of them an update of a document fires.
  \<^item> \<open>Cursor\<close>, \<open>Pagination\<close> (\<open>repositories/filters\<close>): cursors as text, keyset pages, the filter
    builders and what a filter selects, the list of deployments.
  \<^item> \<open>Deployment_Factory\<close>, \<open>Routes\<close>, \<open>Route_Safety\<close>, \<open>Pins\<close>, \<open>Route_Results\<close>
    (\<open>router/routes/post\<close>, \<open>patch\<close>, \<open>delete\<close>, \<open>ssh\<close>): the requests that change a deployment, what they
    may touch, that the pins on chain stay those of the stored definitions, what each answers.
  \<^item> \<open>Access\<close>, \<open>Reading\<close> (\<open>router/middleware/authentication\<close>, \<open>router/routes/get\<close>): who is let
    in, the routes of a job's host and of host-manager, the lists, a deployment and a job.
  \<^item> \<open>Live_Stream\<close>, \<open>Stream_Frames\<close> (\<open>router/stream\<close>): the registry of watchers and its
    specification, and the frames one client of the event stream is sent.
  \<^item> \<open>Vaults\<close> (\<open>vault\<close>, \<open>router/routes/post/vaults\<close>): the vaults' keys, how they are stored and read
    back, the shared vault, the withdrawal, the headers signed for running jobs; the cipher and the
    signature are parameters.
  \<^item> \<open>Migrations\<close>, \<open>Data_Migrations\<close> (\<open>connection/docdb\<close>): the runner, the wait of the processes
    that do not migrate, and the migrations that rewrite what the program still reads.
  \<^item> \<open>Indexes\<close>, \<open>Job_Migrations\<close> (\<open>connection/docdb/migrations\<close>): the indexes, and how the jobs and
    deployments of earlier versions became those of this one, from wherever a run was cut off.
  \<^item> \<open>Route_Table\<close> (\<open>router/setup\<close>): every route with its chain of middlewares, its handler and
    how a URL finds it.
  \<^item> \<open>Schemas\<close>, \<open>Route_Schemas\<close>, \<open>Schema_Safety\<close> (\<open>router/schema\<close>): the schema language, the shared
    schemas and those of every route; that an admitted body is a request within bounds, that every
    status answered is declared, that a stored deployment passes the schema it is sent through.
  \<^item> \<open>Schema_Refs\<close> (\<open>router/schema/components/utils\<close>, \<open>jobDefinition.schema.ts\<close>): the kit's schemas with
    their references replaced, and their alternatives made to exclude each other.
  \<^item> \<open>Tunnel_Feed\<close> (\<open>listeners/frps\<close>, \<open>client/eventSource\<close>, \<open>metrics/frps.ts\<close>): the feed of tunnel
    events, its ordered chain of handlers, and its connected gauge.
  \<^item> \<open>Process\<close>, \<open>Config_Env\<close> (\<open>index.ts\<close>, \<open>listeners/index.ts\<close>, \<open>connection\<close>, \<open>config\<close>, \<open>kit\<close>): what a
    process starts in its mode, when it may, and how it stops; the connection's URL; every setting
    with the variable it is read from, the networks, the kit's options of the process and its workers.
  \<^item> \<open>Worker_Stats\<close>, \<open>Metric_Labels\<close> (\<open>stats\<close>, \<open>metrics\<close>): the statistics of the consumer as an account of
    its runs, and under which label a request is counted.
  \<^item> \<open>Uri\<close>, \<open>Host_Manager\<close> (\<open>client/hostManager\<close>): percent-encoding, the requests sent to host-manager and
    what the reserve step makes of each answer.

  How state and effects correspond. The database is the record \<open>db\<close>, a list of documents per
  collection in insertion order; an operation is a function from the database to the database,
  with the values it returns. \<open>Date.now()\<close> is an argument. A run's mutable locals are the record
  \<open>run_state\<close>. An exception is \<open>None\<close> or the left of a sum. A worker thread is the list of messages
  it posts. Where the program awaits, other writers may act in between: \<open>queue_step\<close> interleaves
  consumers at the granularity of a fetch cycle, a run and a settling, with arbitrary writers that
  respect the store's contract between them; finer interleavings are modelled where a property is
  about them (\<open>onMarketUpdate\<close>, the lock, the tracker).

  Code that is not in the repository is a parameter: the Solana RPC and kit (\<open>route_kit\<close> and
  \<open>access_kit\<close> collect what the routes use of it: hashes, pins, keys, signatures, accounts), the
  Credit Manager's API, host-manager, \<open>cron-parser\<close>, the web framework's router, the kit's own
  schemas (a job definition, a job's results). What the code relies on is a named
  hypothesis of the theorem that needs it (for instance that a batch response names every item it
  was sent exactly once), and a witness shows that it can hold.

  Bounds. Every loop of the code is structural recursion over a list or over the epochs that are left (at
  most \<open>MAX_IDEMPOTENCY_EPOCH\<close> + 1), or has a measure; the chain of an error's causes is read to depth
  six, as the code does. Only \<open>resolveRefs\<close> has fuel, the references it follows one inside the other:
  \<open>flattening_ends_and_closes\<close> tells exactly when some number is enough.

  Numbers are integers or rationals where the code's doubles hold integers or cents far below
  2 to the 53; the rounding of a double is not modelled.

  Not modelled, with the reason: the texts of the documentation and the registration of routes
  (declarations of a framework), sockets and the heartbeat of a stream, the health and metrics
  endpoints (wiring of the web framework and the metrics library), what the Solana kit does with its
  options, \<open>removeVaultStatus.ts\<close> (it names a collection nothing else uses), the SSH client and worker
  threads (third-party input and output).
\<close>

end
